(* ===== verification/Prelude.thy ===== *)
theory Prelude
  imports Main "HOL-Library.Word" "HOL-Library.Signed_Division"
begin

text \<open>
  Shared vocabulary of the development: the machine integers of the RV64 build, the
  arithmetic macros of \<^verbatim>\<open>machine/bits.h\<close>, byte-addressed memory with its little-endian
  multi-byte accesses, and results that either are a value or record why control did not
  return.  Every other theory imports this one.
\<close>

unbundle bit_operations_syntax

section \<open>Machine integers\<close>

text \<open>
  \<^verbatim>\<open>uintptr_t\<close>, \<^verbatim>\<open>size_t\<close> and \<^verbatim>\<open>long\<close> are 64 bits wide in the RV64 build that is modelled;
  \<^verbatim>\<open>int\<close> is 32 bits wide.  Signed C values are kept as words and read with \<^const>\<open>sint\<close>.
\<close>

type_synonym u8 = "8 word"
type_synonym u16 = "16 word"
type_synonym u32 = "32 word"
type_synonym u64 = "64 word"
type_synonym memory = "u64 \<Rightarrow> u8"

text \<open>The value of a C function of type \<^verbatim>\<open>int\<close> as its caller's \<^verbatim>\<open>long\<close> sees it.\<close>

definition int_ret :: "u64 \<Rightarrow> u64" where
  "int_ret r = scast (ucast r :: u32)"

named_theorems fields \<open>update and lookup facts of the stateful components\<close>
named_theorems word_bounds \<open>bounds and no-wrap facts on machine words\<close>

lemma unat_u64_lt [word_bounds]: "unat (x :: u64) < 2 ^ 64"
  using unsigned_less [of x] by simp

lemma unat_u32_lt [word_bounds]: "unat (x :: u32) < 2 ^ 32"
  using unsigned_less [of x] by simp

lemma unat_u64_plus: "unat a + unat b < 2 ^ 64 \<Longrightarrow> unat (a + b :: u64) = unat a + unat b"
  by (simp add: unat_word_ariths)

lemma unat_u64_Suc: "x \<noteq> - 1 \<Longrightarrow> unat (x + 1 :: u64) = Suc (unat x)"
proof -
  assume "x \<noteq> - 1"
  then have "1 + x \<noteq> 0" using minus_unique [of 1 x] by auto
  from unatSuc [OF this] show ?thesis by (simp add: add.commute)
qed

lemma unat_u64_of_nat: "n < 2 ^ 64 \<Longrightarrow> unat (of_nat n :: u64) = n"
  by (simp add: unat_of_nat take_bit_nat_eq_self)

lemma and_low_mask_mod:
  fixes x :: u64
  shows "x AND 7 = x mod 8" and "x AND 0xFFF = x mod 0x1000"
  using take_bit_eq_mask [of 3 x] take_bit_eq_mask [of 12 x]
  by (simp_all add: take_bit_eq_mod mask_eq_exp_minus_1)

lemma or_and_eq_0: "(a OR b) AND c = 0 \<longleftrightarrow> a AND c = 0 \<and> b AND c = (0 :: 'a :: len word)"
  by (auto simp: bit_eq_iff bit_and_iff bit_or_iff)

lemma take_bit_small: "unat x < 2 ^ n \<Longrightarrow> take_bit n x = (x :: u64)"
  by (simp add: word_unat_eq_iff unsigned_take_bit_eq take_bit_nat_eq_self)

lemma find_append: "find P (xs @ ys) = (case find P xs of None \<Rightarrow> find P ys | Some x \<Rightarrow> Some x)"
  by (induction xs) auto

section \<open>Results\<close>

text \<open>
  A C function of the kernel either returns or ends the machine: \<^verbatim>\<open>panic\<close> and a failing
  \<^verbatim>\<open>kassert\<close>/\<^verbatim>\<open>assert\<close> do not return, \<^verbatim>\<open>shutdown\<close> stops the machine with a code, and some
  executions have no defined continuation (a null pointer is followed, an index leaves its
  array), or never leave a loop or a spin lock.  Each way out is a value.
\<close>

datatype stop =
    Panic string
  | Assert string
  | Shutdown u64
  | Undefined string
  | Diverge

type_synonym 'a res = "stop + 'a"

definition bindE :: "'e + 'a \<Rightarrow> ('a \<Rightarrow> 'e + 'b) \<Rightarrow> 'e + 'b" where
  "bindE m f = (case m of Inl e \<Rightarrow> Inl e | Inr x \<Rightarrow> f x)"

lemma bindE_simps [simp]:
  "bindE (Inl e) f = Inl e"
  "bindE (Inr x) f = f x"
  by (simp_all add: bindE_def)

lemma bindE_eq_Inr: "bindE m f = Inr r \<longleftrightarrow> (\<exists>x. m = Inr x \<and> f x = Inr r)"
  by (cases m) auto

lemma bindE_eq_Inl: "bindE m f = Inl e \<longleftrightarrow> m = Inl e \<or> (\<exists>x. m = Inr x \<and> f x = Inl e)"
  by (cases m) auto

lemma bindE_assoc: "bindE (bindE m f) g = bindE m (\<lambda>x. bindE (f x) g)"
  by (simp add: bindE_def split: sum.splits)

lemma bindE_Inr: "bindE m Inr = m"
  by (simp add: bindE_def split: sum.splits)

lemma bindE_cong [fundef_cong]:
  "m = m' \<Longrightarrow> (\<And>x. m' = Inr x \<Longrightarrow> f x = f' x) \<Longrightarrow> bindE m f = bindE m' f'"
  by (cases m') auto

definition kassert :: "bool \<Rightarrow> string \<Rightarrow> unit res" where
  "kassert c what = (if c then Inr () else Inl (Assert what))"

lemma kassert_Inr [simp]: "kassert c w = Inr u \<longleftrightarrow> c"
  by (simp add: kassert_def)

text \<open>The result of a loop written as a \<^verbatim>\<open>partial_function (option)\<close> over results.\<close>

definition finish :: "'a res option \<Rightarrow> 'a res" where
  "finish r = (case r of None \<Rightarrow> Inl Diverge | Some x \<Rightarrow> x)"

lemma finish_simps [simp]: "finish None = Inl Diverge" "finish (Some x) = x"
  by (simp_all add: finish_def)

text \<open>Running a fallible step over a list, in order, up to the first failure.\<close>

primrec foldE :: "('a \<Rightarrow> 's \<Rightarrow> 'e + 's) \<Rightarrow> 'a list \<Rightarrow> 's \<Rightarrow> 'e + 's" where
  "foldE f [] s = Inr s"
| "foldE f (x # xs) s = bindE (f x s) (foldE f xs)"

lemma foldE_append: "foldE f (xs @ ys) s = bindE (foldE f xs s) (foldE f ys)"
  by (induction xs arbitrary: s) (auto simp: bindE_def split: sum.splits)

lemma foldE_invariant:
  assumes "foldE f xs s = Inr s'" "I s"
    and "\<And>x s s'. x \<in> set xs \<Longrightarrow> I s \<Longrightarrow> f x s = Inr s' \<Longrightarrow> I s'"
  shows "I s'"
  using assms
proof (induction xs arbitrary: s)
  case (Cons x xs)
  from Cons.prems(1) obtain t where t: "f x s = Inr t" "foldE f xs t = Inr s'"
    by (auto simp: bindE_eq_Inr)
  with Cons.prems have "I t" by auto
  from Cons.IH [OF t(2) this] Cons.prems(3) show ?case by auto
qed simp

section \<open>The arithmetic macros of bits.h\<close>

definition ROUNDUP :: "u64 \<Rightarrow> u64 \<Rightarrow> u64" where
  "ROUNDUP a b = ((a - 1) div b + 1) * b"

definition ROUNDDOWN :: "u64 \<Rightarrow> u64 \<Rightarrow> u64" where
  "ROUNDDOWN a b = a div b * b"

definition C_MIN :: "u64 \<Rightarrow> u64 \<Rightarrow> u64" where
  "C_MIN a b = (if a < b then a else b)"

definition C_MAX :: "u64 \<Rightarrow> u64 \<Rightarrow> u64" where
  "C_MAX a b = (if a > b then a else b)"

definition EXTRACT_FIELD :: "u64 \<Rightarrow> u64 \<Rightarrow> u64" where
  "EXTRACT_FIELD val which = (val AND which) div (which AND NOT (which - 1))"

definition INSERT_FIELD :: "u64 \<Rightarrow> u64 \<Rightarrow> u64 \<Rightarrow> u64" where
  "INSERT_FIELD val which fieldval =
     (val AND NOT which) OR (fieldval * (which AND NOT (which - 1)))"

end
