(* ===== verification/Memory.thy ===== *)
theory Memory
  imports Prelude
begin

text \<open>
  Byte-addressed memory: little-endian multi-byte loads and stores, and the block copy and
  block fill that the string routines of \<^verbatim>\<open>util/string.c\<close> are proved to implement.
\<close>

section \<open>Little-endian accesses\<close>

primrec load_le :: "nat \<Rightarrow> memory \<Rightarrow> u64 \<Rightarrow> u64" where
  "load_le 0 m a = 0"
| "load_le (Suc n) m a = ucast (m a) OR push_bit 8 (load_le n m (a + 1))"

primrec store_le :: "nat \<Rightarrow> memory \<Rightarrow> u64 \<Rightarrow> u64 \<Rightarrow> memory" where
  "store_le 0 m a v = m"
| "store_le (Suc n) m a v = store_le n (m(a := ucast v)) (a + 1) (drop_bit 8 v)"

lemma load_le_4: "load_le 4 m a = ucast (m a) OR push_bit 8 (ucast (m (a + 1)) OR push_bit 8 (ucast (m (a + 2))
    OR push_bit 8 (ucast (m (a + 3)))))"
  by (simp add: eval_nat_numeral add.commute)

lemma offset_less_iff:
  fixes a b :: u64
  assumes "n < 2 ^ 64"
  shows "unat (a - b) < n \<longleftrightarrow> (\<exists>i<n. a = b + of_nat i)"
proof
  assume "unat (a - b) < n"
  then show "\<exists>i<n. a = b + of_nat i"
    by (intro exI [of _ "unat (a - b)"]) simp
next
  assume "\<exists>i<n. a = b + of_nat i"
  then obtain i where i: "i < n" "a = b + of_nat i" by blast
  with assms show "unat (a - b) < n"
    by (simp add: unat_of_nat take_bit_nat_eq_self)
qed

section \<open>Block copy and block fill\<close>

definition mem_copy :: "memory \<Rightarrow> u64 \<Rightarrow> u64 \<Rightarrow> nat \<Rightarrow> memory" where
  "mem_copy m d s n = (\<lambda>a. if unat (a - d) < n then m (s + (a - d)) else m a)"

definition mem_fill :: "memory \<Rightarrow> u64 \<Rightarrow> u8 \<Rightarrow> nat \<Rightarrow> memory" where
  "mem_fill m d b n = (\<lambda>a. if unat (a - d) < n then b else m a)"

definition apart :: "u64 \<Rightarrow> u64 \<Rightarrow> nat \<Rightarrow> bool" where
  "apart d s n \<longleftrightarrow> (\<forall>i<n. \<forall>j<n. d + of_nat i \<noteq> s + of_nat j)"

lemma apart_sym: "apart d s n \<Longrightarrow> apart s d n"
  unfolding apart_def by metis

lemma apart_below:
  assumes "unat d + n \<le> unat s" "unat s + n \<le> 2 ^ 64"
  shows "apart d s n"
  unfolding apart_def
proof (intro allI impI notI)
  fix i j
  assume ij: "i < n" "j < n" and eq: "d + of_nat i = s + of_nat j"
  have "unat (d + of_nat i) = unat d + i" "unat (s + of_nat j) = unat s + j"
    using ij assms by (simp_all add: unat_word_ariths unat_of_nat)
  with eq ij assms show False by simp
qed

lemma apart_less: "apart d s n \<Longrightarrow> k \<le> n \<Longrightarrow> apart d s k"
  by (auto simp: apart_def)

lemma apart_shift: "apart d s (k + n) \<Longrightarrow> apart (d + of_nat k) (s + of_nat k) n"
  unfolding apart_def
proof (intro allI impI)
  fix i j
  assume *: "\<forall>i<k + n. \<forall>j<k + n. d + word_of_nat i \<noteq> s + word_of_nat j" and "i < n" "j < n"
  then have "d + of_nat (k + i) \<noteq> s + of_nat (k + j)" by (metis nat_add_left_cancel_less)
  then show "d + of_nat k + of_nat i \<noteq> s + of_nat k + of_nat j" by (simp add: add.assoc)
qed

lemma mem_copy_0 [simp]: "mem_copy m d s 0 = m"
  by (simp add: mem_copy_def)

lemma mem_fill_0 [simp]: "mem_fill m d b 0 = m"
  by (simp add: mem_fill_def)

lemma mem_copy_1: "mem_copy m d s (Suc 0) = m(d := m s)"
  by (auto simp: mem_copy_def fun_eq_iff unat_eq_0)

lemma mem_fill_1: "mem_fill m d b (Suc 0) = m(d := b)"
  by (auto simp: mem_fill_def fun_eq_iff unat_eq_0)

lemma unat_diff_split:
  fixes a d :: u64
  assumes "k + n < 2 ^ 64"
  shows "unat (a - d) < k + n \<longleftrightarrow> unat (a - d) < k \<or> unat (a - (d + of_nat k)) < n"
    and "unat (a - d) < k \<Longrightarrow> \<not> unat (a - (d + of_nat k)) < n"
proof -
  let ?x = "a - d"
  have e: "a - (d + of_nat k) = ?x - of_nat k" by simp
  have k: "unat (of_nat k :: u64) = k"
    using assms by (simp add: unat_of_nat take_bit_nat_eq_self)
  have ge: "unat (?x - of_nat k) = unat ?x - k" if "k \<le> unat ?x"
    using that k by (simp add: unat_sub word_le_nat_alt)
  have lt: "n \<le> unat (?x - of_nat k)" if "unat ?x < k"
  proof -
    have "unat (?x - of_nat k) = (2 ^ 64 + unat ?x - k)"
      using that k by (simp add: unat_sub_if' word_le_nat_alt)
    with assms show ?thesis by linarith
  qed
  show "unat (a - d) < k + n \<longleftrightarrow> unat (a - d) < k \<or> unat (a - (d + of_nat k)) < n"
    unfolding e using ge lt by (cases "unat ?x < k") auto
  show "unat (a - d) < k \<Longrightarrow> \<not> unat (a - (d + of_nat k)) < n"
    unfolding e using lt by fastforce
qed

lemma mem_copy_add:
  assumes "apart d s (k + n)" "k + n < 2 ^ 64"
  shows "mem_copy (mem_copy m d s k) (d + of_nat k) (s + of_nat k) n = mem_copy m d s (k + n)"
proof
  fix a
  have src: "\<not> unat (s + (a - d) - d) < k" if "unat (a - d) < k + n"
  proof
    assume "unat (s + (a - d) - d) < k"
    moreover have "k < 2 ^ 64" using assms(2) by linarith
    ultimately obtain i where i: "i < k" "s + (a - d) = d + of_nat i"
      using offset_less_iff by blast
    from iffD1 [OF offset_less_iff [OF assms(2)] that]
    obtain j where j: "j < k + n" "a = d + of_nat j" by (elim exE conjE)
    from i(2) have "d + of_nat i = s + of_nat j" unfolding j(2) by simp
    moreover have "i < k + n" using i(1) by simp
    ultimately show False
      using assms(1) [unfolded apart_def, rule_format, of i j] j(1) by blast
  qed
  show "mem_copy (mem_copy m d s k) (d + of_nat k) (s + of_nat k) n a = mem_copy m d s (k + n) a"
    using unat_diff_split [OF assms(2), of a d] src
    by (auto simp: mem_copy_def add.commute add.left_commute)
qed

lemma mem_fill_add:
  assumes "k + n < 2 ^ 64"
  shows "mem_fill (mem_fill m d b k) (d + of_nat k) b n = mem_fill m d b (k + n)"
  using unat_diff_split [OF assms] by (auto simp: mem_fill_def fun_eq_iff)

section \<open>Stores and loads as blocks\<close>

lemma store_le_other:
  "n < 2 ^ 64 \<Longrightarrow> \<not> unat (b - a) < n \<Longrightarrow> store_le n m a v b = m b"
proof (induction n arbitrary: m a v)
  case (Suc n)
  from Suc.prems have "b \<noteq> a" by auto
  moreover have "\<not> unat (b - (a + 1)) < n"
    using Suc.prems unat_diff_split(1) [of 1 n b a] by simp
  ultimately show ?case using Suc by simp
qed simp

lemma load_le_upd_other:
  "(\<And>j. j < n \<Longrightarrow> d \<noteq> a + of_nat j) \<Longrightarrow> load_le n (m(d := x)) a = load_le n m a"
proof (induction n arbitrary: a)
  case (Suc n)
  from Suc.prems [of 0] have "d \<noteq> a" by simp
  moreover have "d \<noteq> a + 1 + of_nat j" if "j < n" for j
    using Suc.prems [of "Suc j"] that by (simp add: add.assoc)
  ultimately show ?case using Suc.IH [of "a + 1"] by simp
qed simp

lemma load_le_bits: "bit (load_le n m a) j \<Longrightarrow> j < 8 * n"
proof (induction n arbitrary: a j)
  case (Suc n)
  show ?case
  proof (cases "j < 8")
    case False
    with Suc.prems have "bit (load_le n m (a + 1)) (j - 8)"
      by (auto simp: bit_simps dest: bit_imp_le_length)
    with Suc.IH [of "a + 1" "j - 8"] False show ?thesis by simp
  qed simp
qed simp

lemma store_load_copy:
  assumes "n \<le> 8" "apart d s n"
  shows "store_le n m d (load_le n m s) = mem_copy m d s n"
  using assms
proof (induction n arbitrary: m d s)
  case (Suc n)
  have e: "drop_bit 8 (ucast (m s) OR push_bit 8 (load_le n m (s + 1)) :: u64)
      = take_bit 56 (load_le n m (s + 1))"
    by (rule bit_word_eqI) (auto simp: bit_simps dest: bit_imp_le_length)
  have le: "take_bit 56 (load_le n m (s + 1)) = load_le n m (s + 1)"
  proof (rule bit_word_eqI)
    fix j
    have "bit (load_le n m (s + 1)) j \<Longrightarrow> j < 56"
      using load_le_bits [of n m "s + 1" j] Suc.prems(1) by simp
    then show "bit (take_bit 56 (load_le n m (s + 1))) j = bit (load_le n m (s + 1)) j"
      by (auto simp: bit_take_bit_iff)
  qed
  have b: "ucast (ucast (m s) OR push_bit 8 (load_le n m (s + 1)) :: u64) = m s"
    by (rule bit_word_eqI) (auto simp: bit_simps)
  have a1: "apart (d + 1) (s + 1) n"
    using apart_shift [of d s 1 n] Suc.prems(2) by simp
  have "d + of_nat 0 \<noteq> s + of_nat (Suc j)" if "j < n" for j
    using Suc.prems(2) that unfolding apart_def by blast
  then have ld: "load_le n (m(d := m s)) (s + 1) = load_le n m (s + 1)"
    by (intro load_le_upd_other) (simp add: add.assoc)
  have "store_le (Suc n) m d (load_le (Suc n) m s)
      = store_le n (m(d := m s)) (d + 1) (load_le n (m(d := m s)) (s + 1))"
    by (simp only: load_le.simps store_le.simps e le b ld)
  also have "\<dots> = mem_copy (mem_copy m d s 1) (d + of_nat 1) (s + of_nat 1) n"
    using Suc a1 by (simp add: mem_copy_1)
  also have "\<dots> = mem_copy m d s (1 + n)"
    using Suc.prems by (intro mem_copy_add) auto
  finally show ?case by simp
qed simp

lemma load_store_le:
  "n \<le> 8 \<Longrightarrow> load_le n (store_le n m a v) a = take_bit (8 * n) v"
proof (induction n arbitrary: m a v)
  case (Suc n)
  have "\<not> unat (a - (a + 1)) < n"
    using unat_diff_split(2) [of 1 n a a] Suc.prems by simp
  then have "store_le n (m(a := ucast v)) (a + 1) (drop_bit 8 v) a = ucast v"
    using Suc.prems by (subst store_le_other) auto
  moreover have "ucast (ucast v :: u8) OR push_bit 8 (take_bit (8 * n) (drop_bit 8 v))
      = take_bit (8 * Suc n) v"
    by (rule bit_word_eqI) (auto simp: bit_simps)
  ultimately show ?case using Suc by simp
qed simp

end
