(* ===== verification/PK_File.thy ===== *)
theory PK_File
  imports Memory
begin

text \<open>
  The proxy kernel's link to the host (\<^verbatim>\<open>pk/frontend.c\<close>) and its file table
  (\<^verbatim>\<open>pk/file.c\<close>): 128 reference-counted \<^verbatim>\<open>file_t\<close> objects and 128 descriptors that point to
  them.  The host is not part of the repository: it is the parameter \<open>H\<close>, a function from
  the eight words of \<^verbatim>\<open>magic_mem\<close>, the physical memory and the host's own state to the word
  it writes back, the memory it leaves and its next state.
\<close>

section \<open>frontend.c\<close>

type_synonym 'h htif = "u64 list \<Rightarrow> memory \<Rightarrow> 'h \<Rightarrow> u64 \<times> memory \<times> 'h"

record 'h frontend_st =
  pmem :: memory
  host :: 'h

definition frontend_syscall ::
    "'h htif \<Rightarrow> u64 \<Rightarrow> u64 list \<Rightarrow> ('h, 'z) frontend_st_scheme \<Rightarrow> u64 \<times> ('h, 'z) frontend_st_scheme" where
  "frontend_syscall H n args s =
     (let magic_mem = n # args;
          (ret, m, h) = H magic_mem (pmem s) (host s)
      in (ret, s\<lparr>pmem := m, host := h\<rparr>))"

definition SYS_exit :: u64 where "SYS_exit = 93"
definition SYS_close :: u64 where "SYS_close = 57"
definition SYS_read :: u64 where "SYS_read = 63"
definition SYS_write :: u64 where "SYS_write = 64"
definition SYS_pread :: u64 where "SYS_pread = 67"
definition SYS_pwrite :: u64 where "SYS_pwrite = 68"
definition SYS_openat :: u64 where "SYS_openat = 56"
definition SYS_ftruncate :: u64 where "SYS_ftruncate = 46"
definition SYS_lseek :: u64 where "SYS_lseek = 62"

definition shutdown :: "'h htif \<Rightarrow> u64 \<Rightarrow> ('h, 'z) frontend_st_scheme \<Rightarrow> 'a res" where
  "shutdown H code s =
     (let (_, s) = frontend_syscall H SYS_exit [code, 0, 0, 0, 0, 0, 0] s
      in Inl (Shutdown code))"

section \<open>The file table\<close>

record file_t =
  kfd :: u32
  refcnt :: u32

definition MAX_FDS :: nat where "MAX_FDS = 128"
definition MAX_FILES :: nat where "MAX_FILES = 128"

text \<open>A \<^verbatim>\<open>file_t*\<close> is the index of its element of \<^verbatim>\<open>files\<close>; a null pointer is \<^const>\<open>None\<close>.\<close>

record 'h file_st = "'h frontend_st" +
  fds :: "nat \<Rightarrow> nat option"
  files :: "nat \<Rightarrow> file_t"

definition set_refcnt :: "nat \<Rightarrow> u32 \<Rightarrow> ('h, 'z) file_st_scheme \<Rightarrow> ('h, 'z) file_st_scheme" where
  "set_refcnt f c s = s\<lparr>files := (files s)(f := (files s f)\<lparr>refcnt := c\<rparr>)\<rparr>"

definition set_kfd :: "nat \<Rightarrow> u32 \<Rightarrow> ('h, 'z) file_st_scheme \<Rightarrow> ('h, 'z) file_st_scheme" where
  "set_kfd f k s = s\<lparr>files := (files s)(f := (files s f)\<lparr>kfd := k\<rparr>)\<rparr>"

definition set_fd :: "nat \<Rightarrow> nat option \<Rightarrow> ('h, 'z) file_st_scheme \<Rightarrow> ('h, 'z) file_st_scheme" where
  "set_fd i p s = s\<lparr>fds := (fds s)(i := p)\<rparr>"

definition file_incref :: "nat \<Rightarrow> ('h, 'z) file_st_scheme \<Rightarrow> ('h, 'z) file_st_scheme res" where
  "file_incref f s =
     (let prev = refcnt (files s f);
          s = set_refcnt f (prev + 1) s
      in bindE (kassert (prev > 0) ''prev > 0'') (\<lambda>_. Inr s))"

definition file_decref :: "'h htif \<Rightarrow> nat \<Rightarrow> ('h, 'z) file_st_scheme \<Rightarrow> ('h, 'z) file_st_scheme" where
  "file_decref H f s =
     (let prev = refcnt (files s f);
          s = set_refcnt f (prev - 1) s
      in if prev = 2
         then let k = kfd (files s f);
                  s = set_refcnt f 0 s
              in snd (frontend_syscall H SYS_close [scast k, 0, 0, 0, 0, 0, 0] s)
         else s)"

definition file_get_free :: "('h, 'z) file_st_scheme \<Rightarrow> nat option \<times> ('h, 'z) file_st_scheme" where
  "file_get_free s =
     (case find (\<lambda>f. refcnt (files s f) = 0) [0..<MAX_FILES] of
        None \<Rightarrow> (None, s)
      | Some f \<Rightarrow> (Some f, set_refcnt f 2 s))"

definition file_dup :: "nat \<Rightarrow> ('h, 'z) file_st_scheme \<Rightarrow> (int \<times> ('h, 'z) file_st_scheme) res" where
  "file_dup f s =
     (case find (\<lambda>i. fds s i = None) [0..<MAX_FDS] of
        None \<Rightarrow> Inr (-1, s)
      | Some i \<Rightarrow> bindE (file_incref f (set_fd i (Some f) s)) (\<lambda>s. Inr (int i, s)))"

definition file_dup3 :: "nat \<Rightarrow> int \<Rightarrow> ('h, 'z) file_st_scheme \<Rightarrow> (int \<times> ('h, 'z) file_st_scheme) res" where
  "file_dup3 f newfd s =
     (if newfd < 0 \<or> newfd \<ge> int MAX_FDS then Inr (-1, s)
      else if fds s (nat newfd) = None
      then bindE (file_incref f (set_fd (nat newfd) (Some f) s)) (\<lambda>s. Inr (newfd, s))
      else Inr (-1, s))"

definition file_get :: "int \<Rightarrow> ('h, 'z) file_st_scheme \<Rightarrow> nat option \<times> ('h, 'z) file_st_scheme" where
  "file_get fd s =
     (if fd < 0 \<or> fd \<ge> int MAX_FDS then (None, s)
      else case fds s (nat fd) of
             None \<Rightarrow> (None, s)
           | Some f \<Rightarrow>
               let old_cnt = refcnt (files s f)
               in if old_cnt = 0 then (None, s)
                  else (Some f, set_refcnt f (old_cnt + 1) s))"

text \<open>\<^verbatim>\<open>file_init\<close>: the three standard descriptors.  A null result of \<^verbatim>\<open>file_get_free\<close> would be
  written through.\<close>

definition file_init :: "('h, 'z) file_st_scheme \<Rightarrow> ('h, 'z) file_st_scheme res" where
  "file_init s =
     foldE (\<lambda>i s. case file_get_free s of
                    (None, s) \<Rightarrow> Inl (Undefined ''null file'')
                  | (Some f, s) \<Rightarrow> bindE (file_dup f (set_kfd f i s)) (\<lambda>(_, s). Inr s))
       [0, 1, 2] s"

text \<open>
  \<^verbatim>\<open>file_openat\<close> returns a pointer or an encoded error (\<^verbatim>\<open>ERR_PTR\<close>): here \<open>Inl\<close> of the
  negative error or \<open>Inr\<close> of the file.  The name is a kernel buffer at physical address
  \<open>fn_pa\<close> holding \<open>fn_size\<close> bytes with the terminating zero.
\<close>

definition AT_FDCWD :: int where "AT_FDCWD = -100"
definition ENOMEM :: int where "ENOMEM = 12"

definition file_openat ::
    "'h htif \<Rightarrow> int \<Rightarrow> u64 \<Rightarrow> u64 \<Rightarrow> u64 \<Rightarrow> u64 \<Rightarrow> ('h, 'z) file_st_scheme
     \<Rightarrow> (int + nat) \<times> ('h, 'z) file_st_scheme" where
  "file_openat H dirfd fn_pa fn_size flags mode s =
     (case file_get_free s of
        (None, s) \<Rightarrow> (Inl (- ENOMEM), s)
      | (Some f, s) \<Rightarrow>
          let (ret, s) = frontend_syscall H SYS_openat
                           [word_of_int dirfd, fn_pa, fn_size, flags, mode, 0, 0] s
          in if 0 \<le> sint ret then (Inr f, set_kfd f (ucast ret) s)
             else (Inl (sint ret), file_decref H f s))"

definition file_open ::
    "'h htif \<Rightarrow> u64 \<Rightarrow> u64 \<Rightarrow> u64 \<Rightarrow> u64 \<Rightarrow> ('h, 'z) file_st_scheme
     \<Rightarrow> (int + nat) \<times> ('h, 'z) file_st_scheme" where
  "file_open H fn_pa fn_size flags mode s = file_openat H AT_FDCWD fn_pa fn_size flags mode s"

definition fd_close :: "'h htif \<Rightarrow> int \<Rightarrow> ('h, 'z) file_st_scheme \<Rightarrow> int \<times> ('h, 'z) file_st_scheme" where
  "fd_close H fd s =
     (case file_get fd s of
        (None, s) \<Rightarrow> (-1, s)
      | (Some f, s) \<Rightarrow>
          let old = fds s (nat fd);
              s = (if old = Some f then set_fd (nat fd) None s else s);
              s = file_decref H f s
          in if old \<noteq> Some f then (-1, s) else (0, file_decref H f s))"

definition file_read ::
    "'h htif \<Rightarrow> nat \<Rightarrow> u64 \<Rightarrow> u64 \<Rightarrow> ('h, 'z) file_st_scheme \<Rightarrow> u64 \<times> ('h, 'z) file_st_scheme" where
  "file_read H f buf_pa n s =
     frontend_syscall H SYS_read [scast (kfd (files s f)), buf_pa, n, 0, 0, 0, 0] s"

definition file_pread ::
    "'h htif \<Rightarrow> nat \<Rightarrow> u64 \<Rightarrow> u64 \<Rightarrow> u64 \<Rightarrow> ('h, 'z) file_st_scheme \<Rightarrow> u64 \<times> ('h, 'z) file_st_scheme" where
  "file_pread H f buf_pa n offset s =
     frontend_syscall H SYS_pread [scast (kfd (files s f)), buf_pa, n, offset, 0, 0, 0] s"

definition file_write ::
    "'h htif \<Rightarrow> nat \<Rightarrow> u64 \<Rightarrow> u64 \<Rightarrow> ('h, 'z) file_st_scheme \<Rightarrow> u64 \<times> ('h, 'z) file_st_scheme" where
  "file_write H f buf_pa n s =
     frontend_syscall H SYS_write [scast (kfd (files s f)), buf_pa, n, 0, 0, 0, 0] s"

definition file_pwrite ::
    "'h htif \<Rightarrow> nat \<Rightarrow> u64 \<Rightarrow> u64 \<Rightarrow> u64 \<Rightarrow> ('h, 'z) file_st_scheme \<Rightarrow> u64 \<times> ('h, 'z) file_st_scheme" where
  "file_pwrite H f buf_pa n offset s =
     frontend_syscall H SYS_pwrite [scast (kfd (files s f)), buf_pa, n, offset, 0, 0, 0] s"

definition file_truncate ::
    "'h htif \<Rightarrow> nat \<Rightarrow> u64 \<Rightarrow> ('h, 'z) file_st_scheme \<Rightarrow> u64 \<times> ('h, 'z) file_st_scheme" where
  "file_truncate H f len s =
     (let (ret, s) = frontend_syscall H SYS_ftruncate [scast (kfd (files s f)), len, 0, 0, 0, 0, 0] s
      in (int_ret ret, s))"

definition file_lseek ::
    "'h htif \<Rightarrow> nat \<Rightarrow> u64 \<Rightarrow> u64 \<Rightarrow> ('h, 'z) file_st_scheme \<Rightarrow> u64 \<times> ('h, 'z) file_st_scheme" where
  "file_lseek H f ptr dir s =
     frontend_syscall H SYS_lseek [scast (kfd (files s f)), ptr, dir, 0, 0, 0, 0] s"

section \<open>Reference counting\<close>

text \<open>
  The abstract view: a file is referenced by the descriptors that point to it and by \<open>e f\<close>
  holders outside the table (operations in flight, memory mappings).  Its counter is that
  number plus one while it is referenced, and zero while it is free, so the value one, which
  \<^verbatim>\<open>file_decref\<close> reads as "the last reference goes", never rests in the table.
\<close>

definition fd_refs :: "(nat \<Rightarrow> nat option) \<Rightarrow> nat \<Rightarrow> nat" where
  "fd_refs t f = card {i. i < MAX_FDS \<and> t i = Some f}"

definition total_refs :: "('h, 'z) file_st_scheme \<Rightarrow> (nat \<Rightarrow> nat) \<Rightarrow> nat \<Rightarrow> nat" where
  "total_refs s e f = fd_refs (fds s) f + e f"

definition counted :: "nat \<Rightarrow> nat" where
  "counted n = (if n = 0 then 0 else Suc n)"

definition files_ok :: "('h, 'z) file_st_scheme \<Rightarrow> (nat \<Rightarrow> nat) \<Rightarrow> bool" where
  "files_ok s e \<longleftrightarrow>
     (\<forall>i < MAX_FDS. \<forall>f. fds s i = Some f \<longrightarrow> f < MAX_FILES)
     \<and> (\<forall>f < MAX_FILES. unat (refcnt (files s f)) = counted (total_refs s e f))"

text \<open>Room for one more reference: the counter is a 32-bit word.\<close>

definition room :: "(nat \<Rightarrow> nat) \<Rightarrow> bool" where
  "room e \<longleftrightarrow> (\<forall>f. e f < 2 ^ 31)"

lemma fd_refs_le: "fd_refs t f \<le> MAX_FDS"
proof -
  have "fd_refs t f \<le> card {..<MAX_FDS}" unfolding fd_refs_def by (rule card_mono) auto
  then show ?thesis by simp
qed

lemma fd_refs_set:
  assumes "i < MAX_FDS" "t i \<noteq> Some f"
  shows "fd_refs (t(i := Some f)) f = Suc (fd_refs t f)"
proof -
  have "{j. j < MAX_FDS \<and> (t(i := Some f)) j = Some f} = insert i {j. j < MAX_FDS \<and> t j = Some f}"
    using assms by auto
  then show ?thesis using assms by (simp add: fd_refs_def)
qed

lemma fd_refs_clear:
  assumes "i < MAX_FDS" "t i = Some f"
  shows "Suc (fd_refs (t(i := None)) f) = fd_refs t f"
proof -
  have "{j. j < MAX_FDS \<and> t j = Some f} = insert i {j. j < MAX_FDS \<and> (t(i := None)) j = Some f}"
    using assms by auto
  then show ?thesis by (simp add: fd_refs_def)
qed

lemma fd_refs_other: "t i \<noteq> Some g \<Longrightarrow> p \<noteq> Some g \<Longrightarrow> fd_refs (t(i := p)) g = fd_refs t g"
  unfolding fd_refs_def by (rule arg_cong [where f = card]) auto

lemma fd_refs_pos: "i < MAX_FDS \<Longrightarrow> t i = Some f \<Longrightarrow> 0 < fd_refs t f"
  unfolding fd_refs_def by (auto simp: card_gt_0_iff)

lemma set_refcnt_fields [fields, simp]:
  "fds (set_refcnt f c s) = fds s"
  "refcnt (files (set_refcnt f c s) g) = (if g = f then c else refcnt (files s g))"
  "kfd (files (set_refcnt f c s) g) = kfd (files s g)"
  "pmem (set_refcnt f c s) = pmem s" "host (set_refcnt f c s) = host s"
  by (simp_all add: set_refcnt_def)

lemma set_kfd_fields [fields, simp]:
  "fds (set_kfd f k s) = fds s"
  "refcnt (files (set_kfd f k s) g) = refcnt (files s g)"
  "kfd (files (set_kfd f k s) g) = (if g = f then k else kfd (files s g))"
  by (simp_all add: set_kfd_def)

lemma set_fd_fields [fields, simp]:
  "files (set_fd i p s) = files s"
  "fds (set_fd i p s) = (fds s)(i := p)"
  by (simp_all add: set_fd_def)

lemma frontend_syscall_fields [fields, simp]:
  "fds (snd (frontend_syscall H n args s)) = fds s"
  "files (snd (frontend_syscall H n args s)) = files s"
  by (simp_all add: frontend_syscall_def split: prod.splits)

lemma files_ok_cong:
  "fds s' = fds s \<Longrightarrow> (\<And>f. f < MAX_FILES \<Longrightarrow> refcnt (files s' f) = refcnt (files s f))
   \<Longrightarrow> files_ok s' e \<longleftrightarrow> files_ok s e"
  by (simp add: files_ok_def total_refs_def)

lemma files_ok_range: "files_ok s e \<Longrightarrow> i < MAX_FDS \<Longrightarrow> fds s i = Some f \<Longrightarrow> f < MAX_FILES"
  by (auto simp: files_ok_def)

lemma files_ok_count:
  "files_ok s e \<Longrightarrow> f < MAX_FILES \<Longrightarrow> unat (refcnt (files s f)) = counted (total_refs s e f)"
  by (auto simp: files_ok_def)

lemma unat_refcnt_inc:
  assumes "files_ok s e" "room e" "f < MAX_FILES"
  shows "unat (refcnt (files s f) + 1) = Suc (counted (total_refs s e f))"
proof -
  have "e f < 2 ^ 31" using assms(2) by (simp add: room_def)
  moreover have "fd_refs (fds s) f \<le> 128" using fd_refs_le [of "fds s" f] by (simp add: MAX_FDS_def)
  ultimately have "total_refs s e f < 2 ^ 31 + 129" by (simp add: total_refs_def)
  then show ?thesis using files_ok_count [OF assms(1,3)]
    by (simp add: unat_word_ariths counted_def split: if_splits)
qed

subsection \<open>Taking and dropping a reference\<close>

lemma files_ok_inc:
  assumes "files_ok s e" "room e" "f < MAX_FILES" "0 < total_refs s e f"
  shows "files_ok (set_refcnt f (refcnt (files s f) + 1) s) (e(f := Suc (e f)))"
  using assms unat_refcnt_inc [OF assms(1-3)]
  by (auto simp: files_ok_def total_refs_def counted_def)

lemma file_get_Some:
  assumes "files_ok s e" "room e" "file_get fd s = (Some f, s')"
  shows "f < MAX_FILES \<and> 0 \<le> fd \<and> fd < int MAX_FDS \<and> fds s (nat fd) = Some f
    \<and> s' = set_refcnt f (refcnt (files s f) + 1) s \<and> files_ok s' (e(f := Suc (e f)))"
proof -
  from assms(3) have fd: "0 \<le> fd" "fd < int MAX_FDS" and slot: "fds s (nat fd) = Some f"
    and s': "s' = set_refcnt f (refcnt (files s f) + 1) s"
    by (auto simp: file_get_def Let_def split: if_splits option.splits)
  then have "nat fd < MAX_FDS" by simp
  with assms(1) slot have "f < MAX_FILES" "0 < fd_refs (fds s) f"
    by (auto intro: files_ok_range fd_refs_pos)
  with fd slot s' show ?thesis
    using files_ok_inc [OF assms(1,2)] by (simp add: total_refs_def)
qed

lemma file_get_None: "file_get fd s = (None, s') \<Longrightarrow> s' = s"
  by (auto simp: file_get_def Let_def split: if_splits option.splits)

lemma file_get_iff:
  assumes "files_ok s e"
  shows "fst (file_get fd s) = Some f \<longleftrightarrow> 0 \<le> fd \<and> fd < int MAX_FDS \<and> fds s (nat fd) = Some f"
proof -
  have "refcnt (files s g) \<noteq> 0" if "0 \<le> fd" "fd < int MAX_FDS" "fds s (nat fd) = Some g" for g
  proof
    assume z: "refcnt (files s g) = 0"
    from that have "nat fd < MAX_FDS" by simp
    with that assms have "g < MAX_FILES" "0 < fd_refs (fds s) g"
      by (auto intro: files_ok_range fd_refs_pos)
    with files_ok_count [OF assms, of g] z show False by (simp add: counted_def total_refs_def)
  qed
  then show ?thesis by (auto simp: file_get_def Let_def split: option.splits)
qed

text \<open>
  Dropping a reference: the counter falls, and the host is asked to close the file exactly
  when the reference was the last one.
\<close>

lemma file_decref_ok:
  assumes "files_ok s e" "f < MAX_FILES" "0 < e f"
  shows "files_ok (file_decref H f s) (e(f := e f - 1))"
    and "fds (file_decref H f s) = fds s"
    and "(pmem (file_decref H f s), host (file_decref H f s))
      = (if total_refs s e f = 1
         then snd (H [SYS_close, scast (kfd (files s f)), 0, 0, 0, 0, 0, 0] (pmem s) (host s))
         else (pmem s, host s))"
proof -
  have n: "unat (refcnt (files s f)) = Suc (total_refs s e f)" "0 < total_refs s e f"
    using files_ok_count [OF assms(1,2)] assms(3) by (simp_all add: counted_def total_refs_def)
  have two: "refcnt (files s f) = 2 \<longleftrightarrow> total_refs s e f = 1"
  proof -
    have "refcnt (files s f) = 2 \<longleftrightarrow> unat (refcnt (files s f)) = 2"
      by (simp add: word_unat_eq_iff)
    with n show ?thesis by simp
  qed
  have "refcnt (files s f) \<noteq> 0" using n by auto
  then have dec: "unat (refcnt (files s f) - 1) = total_refs s e f"
    using n by (simp add: unat_minus_one)
  have le: "total_refs s (e(f := e f - 1)) g = (if g = f then total_refs s e f - 1 else total_refs s e g)" for g
    using assms(3) by (simp add: total_refs_def)
  show "fds (file_decref H f s) = fds s"
    by (simp add: file_decref_def Let_def)
  show "files_ok (file_decref H f s) (e(f := e f - 1))"
  proof (cases "total_refs s e f = 1")
    case True
    then show ?thesis
      using assms(1) two le
      by (auto simp: file_decref_def Let_def files_ok_def total_refs_def counted_def)
  next
    case False
    then show ?thesis
      using assms(1) two le dec n
      by (auto simp: file_decref_def Let_def files_ok_def total_refs_def counted_def)
  qed
  show "(pmem (file_decref H f s), host (file_decref H f s))
      = (if total_refs s e f = 1
         then snd (H [SYS_close, scast (kfd (files s f)), 0, 0, 0, 0, 0, 0] (pmem s) (host s))
         else (pmem s, host s))"
    by (simp add: file_decref_def Let_def two frontend_syscall_def split: prod.splits)
qed

subsection \<open>Descriptors\<close>

lemma find_None_upt: "find P [0..<n] = None \<longleftrightarrow> (\<forall>i<n. \<not> P i)"
  by (auto simp: find_None_iff)

lemma find_Some_upt: "find P [0..<n] = Some i \<longleftrightarrow> i < n \<and> P i \<and> (\<forall>j<i. \<not> P j)"
  by (auto simp: find_Some_iff)

lemma files_ok_set_fd:
  assumes "files_ok s e" "room e" "f < MAX_FILES" "0 < e f" "i < MAX_FDS" "fds s i = None"
  shows "file_incref f (set_fd i (Some f) s) = Inr (set_refcnt f (refcnt (files s f) + 1) (set_fd i (Some f) s))"
    and "files_ok (set_refcnt f (refcnt (files s f) + 1) (set_fd i (Some f) s)) e"
proof -
  let ?s = "set_refcnt f (refcnt (files s f) + 1) (set_fd i (Some f) s)"
  have "0 < unat (refcnt (files s f))"
    using files_ok_count [OF assms(1,3)] assms(4) by (simp add: counted_def total_refs_def)
  then have "0 < refcnt (files s f)" by (simp add: word_less_nat_alt)
  then show "file_incref f (set_fd i (Some f) s) = Inr ?s"
    by (simp add: file_incref_def Let_def kassert_def)
  have "fd_refs ((fds s)(i := Some f)) g = (if g = f then Suc (fd_refs (fds s) f) else fd_refs (fds s) g)" for g
    using assms(5,6) fd_refs_set [of i "fds s" f] fd_refs_other [of "fds s" i g "Some f"] by auto
  then show "files_ok ?s e"
    using assms unat_refcnt_inc [OF assms(1-3)]
    by (auto simp: files_ok_def total_refs_def counted_def)
qed

lemma file_dup_ok:
  assumes "files_ok s e" "room e" "f < MAX_FILES" "0 < e f"
  shows "(\<exists>s' i. file_dup f s = Inr (int i, s') \<and> i < MAX_FDS \<and> fds s i = None
            \<and> (\<forall>j<i. fds s j \<noteq> None) \<and> fds s' = (fds s)(i := Some f) \<and> files_ok s' e)
       \<or> (file_dup f s = Inr (-1, s) \<and> (\<forall>i<MAX_FDS. fds s i \<noteq> None))"
proof (cases "find (\<lambda>i. fds s i = None) [0..<MAX_FDS]")
  case None
  then have "file_dup f s = Inr (-1, s)" by (simp add: file_dup_def)
  moreover from None have "\<forall>i<MAX_FDS. fds s i \<noteq> None" by (simp add: find_None_upt)
  ultimately show ?thesis by blast
next
  case (Some i)
  then have i: "i < MAX_FDS" "fds s i = None" "\<forall>j<i. fds s j \<noteq> None"
    by (simp_all add: find_Some_upt)
  from files_ok_set_fd [OF assms i(1,2)] Some i show ?thesis
    by (auto simp: file_dup_def)
qed

lemma file_dup3_ok:
  assumes "files_ok s e" "room e" "f < MAX_FILES" "0 < e f"
  shows "(0 \<le> newfd \<and> newfd < int MAX_FDS \<and> fds s (nat newfd) = None
          \<and> (\<exists>s'. file_dup3 f newfd s = Inr (newfd, s') \<and> fds s' = (fds s)(nat newfd := Some f) \<and> files_ok s' e))
       \<or> file_dup3 f newfd s = Inr (-1, s)"
proof (cases "0 \<le> newfd \<and> newfd < int MAX_FDS \<and> fds s (nat newfd) = None")
  case True
  then have "nat newfd < MAX_FDS" by (simp add: nat_less_iff)
  from files_ok_set_fd [OF assms this] True show ?thesis
    by (auto simp: file_dup3_def)
next
  case False
  then show ?thesis by (auto simp: file_dup3_def)
qed

lemma file_get_free_ok:
  assumes "files_ok s e" "file_get_free s = (Some f, s')"
  shows "f < MAX_FILES \<and> total_refs s e f = 0 \<and> fds s' = fds s \<and> files_ok s' (e(f := 1))"
proof -
  from assms(2) have f: "f < MAX_FILES" "refcnt (files s f) = 0" and s': "s' = set_refcnt f 2 s"
    by (auto simp: file_get_free_def find_Some_upt split: option.splits)
  with files_ok_count [OF assms(1) f(1)] have z: "total_refs s e f = 0"
    by (simp add: counted_def split: if_splits)
  with f s' assms(1) show ?thesis
    by (auto simp: files_ok_def total_refs_def counted_def)
qed

text \<open>
  Closing: the table loses the descriptor, then the two references - the one \<^verbatim>\<open>file_get\<close> took
  and the descriptor's own - are dropped.
\<close>

lemma fd_close_ok:
  assumes "files_ok s e" "room e" "0 \<le> fd" "fd < int MAX_FDS" "fds s (nat fd) = Some f"
  shows "fst (fd_close H fd s) = 0
    \<and> fds (snd (fd_close H fd s)) = (fds s)(nat fd := None) \<and> files_ok (snd (fd_close H fd s)) e
    \<and> (pmem (snd (fd_close H fd s)), host (snd (fd_close H fd s)))
      = (if total_refs s e f = 1
         then snd (H [SYS_close, scast (kfd (files s f)), 0, 0, 0, 0, 0, 0] (pmem s) (host s))
         else (pmem s, host s))"
proof -
  obtain s1 where g: "file_get fd s = (Some f, s1)"
    using file_get_iff [OF assms(1), of fd f] assms(3-5) by (cases "file_get fd s") auto
  from file_get_Some [OF assms(1,2) g]
  have f: "f < MAX_FILES" and s1: "files_ok s1 (e(f := Suc (e f)))" "fds s1 = fds s" by auto
  define s2 where "s2 = set_fd (nat fd) None s1"
  have i: "nat fd < MAX_FDS" using assms(3,4) by simp
  have fr: "fd_refs ((fds s)(nat fd := None)) g = (if g = f then fd_refs (fds s) f - 1 else fd_refs (fds s) g)" for g
    using fd_refs_clear [of "nat fd" "fds s" f] i fd_refs_other [of "fds s" "nat fd" g None] assms(5) by auto
  have "0 < fd_refs (fds s) f" using i assms(5) by (rule fd_refs_pos)
  then have s2: "files_ok s2 (e(f := Suc (Suc (e f))))"
    using s1 fr by (auto simp: s2_def files_ok_def total_refs_def)
  from file_decref_ok(1) [OF s2 f, of H] file_decref_ok(2) [OF s2 f, of H]
  have s3: "files_ok (file_decref H f s2) (e(f := Suc (e f)))" "fds (file_decref H f s2) = fds s2"
    by simp_all
  from file_decref_ok(1) [OF s3(1) f, of H] file_decref_ok(2) [OF s3(1) f, of H]
  have s4: "files_ok (file_decref H f (file_decref H f s2)) e"
    "fds (file_decref H f (file_decref H f s2)) = fds s2"
    using s3(2) by simp_all
  have t2: "total_refs s2 (e(f := Suc (Suc (e f)))) f = Suc (total_refs s e f)"
    using s1(2) fr \<open>0 < fd_refs (fds s) f\<close> by (simp add: s2_def total_refs_def)
  have "total_refs s e f \<noteq> 0" using \<open>0 < fd_refs (fds s) f\<close> by (simp add: total_refs_def)
  with file_decref_ok(3) [OF s2 f, of H] t2
  have h3: "pmem (file_decref H f s2) = pmem s" "host (file_decref H f s2) = host s"
    using file_get_Some [OF assms(1,2) g] by (simp_all add: s2_def set_fd_def)
  have t3: "total_refs (file_decref H f s2) (e(f := Suc (e f))) f = total_refs s e f"
    using t2 s3(2) by (simp add: total_refs_def)
  have k: "kfd (files (file_decref H f s2) f) = kfd (files s f)"
    using file_get_Some [OF assms(1,2) g] by (simp add: file_decref_def Let_def s2_def set_fd_def)
  from file_decref_ok(3) [OF s3(1) f, of H] t3 h3 k
  have h4: "(pmem (file_decref H f (file_decref H f s2)), host (file_decref H f (file_decref H f s2)))
      = (if total_refs s e f = 1
         then snd (H [SYS_close, scast (kfd (files s f)), 0, 0, 0, 0, 0, 0] (pmem s) (host s))
         else (pmem s, host s))" by simp
  have "fd_close H fd s = (0, file_decref H f (file_decref H f s2))"
    using g s1(2) assms(5) by (simp add: fd_close_def Let_def s2_def)
  with s4 s1(2) h4 show ?thesis by (simp add: s2_def)
qed

lemma fd_close_bad:
  assumes "files_ok s e" "\<not> (0 \<le> fd \<and> fd < int MAX_FDS \<and> fds s (nat fd) \<noteq> None)"
  shows "fd_close H fd s = (-1, s)"
proof -
  have "fst (file_get fd s) = None"
    using file_get_iff [OF assms(1), of fd] assms(2) by (metis not_None_eq)
  then have "file_get fd s = (None, s)"
    using file_get_None [of fd s "snd (file_get fd s)"] by (cases "file_get fd s") auto
  then show ?thesis by (simp add: fd_close_def)
qed

lemma file_openat_ok:
  assumes "files_ok s e" "room e"
  shows "case file_openat H dirfd fn n flags mode s of
           (Inr f, s') \<Rightarrow> f < MAX_FILES \<and> total_refs s e f = 0 \<and> fds s' = fds s \<and> files_ok s' (e(f := 1))
         | (Inl err, s') \<Rightarrow> err < 0 \<and> fds s' = fds s \<and> files_ok s' e"
proof (cases "file_get_free s")
  case (Pair r s1)
  show ?thesis
  proof (cases r)
    case None
    then have "s1 = s" using Pair by (auto simp: file_get_free_def split: option.splits)
    with None Pair assms show ?thesis by (simp add: file_openat_def ENOMEM_def)
  next
    case (Some f)
    from file_get_free_ok [OF assms(1), of f s1] Pair Some
    have f: "f < MAX_FILES" "total_refs s e f = 0" "fds s1 = fds s" "files_ok s1 (e(f := 1))" by auto
    obtain ret s2 where fe: "frontend_syscall H SYS_openat [word_of_int dirfd, fn, n, flags, mode, 0, 0] s1 = (ret, s2)"
      by fastforce
    then have s2: "fds s2 = fds s1" "files s2 = files s1"
      by (metis frontend_syscall_fields snd_conv)+
    then have ok2: "files_ok s2 (e(f := 1))" using f(4) files_ok_cong by metis
    show ?thesis
    proof (cases "0 \<le> sint ret")
      case True
      have "files_ok (set_kfd f (ucast ret) s2) (e(f := 1))"
        using ok2 by (subst files_ok_cong [of _ s2]) simp_all
      with True Pair Some fe f s2 show ?thesis by (simp add: file_openat_def Let_def)
    next
      case False
      have "e f = 0" using f(2) by (simp add: total_refs_def)
      then have "files_ok (file_decref H f s2) e"
        using file_decref_ok(1) [OF ok2 f(1), of H] by (simp add: fun_upd_idem)
      with False Pair Some fe f s2 file_decref_ok(2) [OF ok2 f(1), of H] show ?thesis
        by (simp add: file_openat_def Let_def)
    qed
  qed
qed

section \<open>The handle-table interface\<close>

text \<open>
  What the system calls rely on: taking a handle on a descriptor, working with it, and
  dropping it again.  \<open>holds s e\<close> says that the state accounts for \<open>e f\<close> outside holders of
  the file \<open>f\<close>.
\<close>

text \<open>The bracket every descriptor system call has: take, work, drop; or the default without a file.\<close>

definition with_ref ::
    "(int \<Rightarrow> 's \<Rightarrow> 'f option \<times> 's) \<Rightarrow> ('f \<Rightarrow> 's \<Rightarrow> 's) \<Rightarrow> int \<Rightarrow> 'a \<Rightarrow> ('f \<Rightarrow> 's \<Rightarrow> 'a \<times> 's) \<Rightarrow> 's \<Rightarrow> 'a \<times> 's" where
  "with_ref take_ref drop_ref fd bad body s =
     (case take_ref fd s of
        (None, s) \<Rightarrow> (bad, s)
      | (Some f, s) \<Rightarrow> let (r, s) = body f s in (r, drop_ref f s))"

locale handle_table =
  fixes take_ref :: "int \<Rightarrow> 's \<Rightarrow> 'f option \<times> 's"
    and drop_ref :: "'f \<Rightarrow> 's \<Rightarrow> 's"
    and holds :: "'s \<Rightarrow> ('f \<Rightarrow> nat) \<Rightarrow> bool"
    and few :: "('f \<Rightarrow> nat) \<Rightarrow> bool"
  assumes take_None: "take_ref fd s = (None, s') \<Longrightarrow> s' = s"
    and take_Some: "holds s e \<Longrightarrow> few e \<Longrightarrow> take_ref fd s = (Some f, s') \<Longrightarrow> holds s' (e(f := Suc (e f)))"
    and drop: "holds s (e(f := Suc n)) \<Longrightarrow> take_ref fd t = (Some f, t') \<Longrightarrow> holds t e' \<Longrightarrow> few e'
       \<Longrightarrow> holds (drop_ref f s) (e(f := n))"
begin

lemma with_ref_balanced:
  assumes "holds s e" "few e"
    and "\<And>f t. holds t (e(f := Suc (e f))) \<Longrightarrow> holds (snd (body f t)) (e(f := Suc (e f)))"
  shows "holds (snd (with_ref take_ref drop_ref fd bad body s)) e"
proof (cases "take_ref fd s")
  case (Pair r s1)
  show ?thesis
  proof (cases r)
    case None
    with Pair assms(1) take_None [of fd s s1] show ?thesis by (simp add: with_ref_def)
  next
    case (Some f)
    with Pair have t: "take_ref fd s = (Some f, s1)" by simp
    from take_Some [OF assms(1,2) t] have "holds s1 (e(f := Suc (e f)))" .
    then have "holds (snd (body f s1)) (e(f := Suc (e f)))" by (rule assms(3))
    from drop [OF this t assms(1,2)] have "holds (drop_ref f (snd (body f s1))) e" by simp
    with t show ?thesis by (cases "body f s1") (simp add: with_ref_def)
  qed
qed

end

interpretation file_table: handle_table file_get "file_decref H" files_ok room for H
proof
  show "s' = s" if "file_get fd s = (None, s')" for fd and s s' :: "('a, 'b) file_st_scheme"
    using that by (rule file_get_None)
  show "files_ok s' (e(f := Suc (e f)))"
    if "files_ok s e" "room e" "file_get fd s = (Some f, s')" for s s' :: "('a, 'b) file_st_scheme" and e fd f
    using file_get_Some [OF that] by blast
  show "files_ok (file_decref H f s) (e(f := n))"
    if "files_ok s (e(f := Suc n))" "file_get fd t = (Some f, t')" "files_ok t e'" "room e'"
    for s t t' :: "('a, 'b) file_st_scheme" and e e' f n fd
  proof -
    have "f < MAX_FILES" using file_get_Some [OF that(3,4,2)] by blast
    from file_decref_ok(1) [OF that(1) this, of H] show ?thesis by simp
  qed
qed

section \<open>Every history of the table\<close>

text \<open>
  One step of a user of the table; the second component counts the references held outside
  the descriptors.  A holder may only drop or duplicate what it holds.
\<close>

type_synonym ('h, 'z) ftab = "('h, 'z) file_st_scheme \<times> (nat \<Rightarrow> nat)"

inductive ftab_step :: "'h htif \<Rightarrow> ('h, 'z) ftab \<Rightarrow> ('h, 'z) ftab \<Rightarrow> bool" for H where
  get: "room e \<Longrightarrow> file_get fd s = (Some f, s') \<Longrightarrow> ftab_step H (s, e) (s', e(f := Suc (e f)))"
| drop: "f < MAX_FILES \<Longrightarrow> 0 < e f \<Longrightarrow> ftab_step H (s, e) (file_decref H f s, e(f := e f - 1))"
| dup: "room e \<Longrightarrow> f < MAX_FILES \<Longrightarrow> 0 < e f \<Longrightarrow> file_dup f s = Inr (r, s') \<Longrightarrow> ftab_step H (s, e) (s', e)"
| dup3: "room e \<Longrightarrow> f < MAX_FILES \<Longrightarrow> 0 < e f \<Longrightarrow> file_dup3 f newfd s = Inr (r, s') \<Longrightarrow> ftab_step H (s, e) (s', e)"
| close: "room e \<Longrightarrow> fd_close H fd s = (r, s') \<Longrightarrow> ftab_step H (s, e) (s', e)"
| opened: "room e \<Longrightarrow> file_openat H dirfd fn n flags mode s = (Inr f, s') \<Longrightarrow> ftab_step H (s, e) (s', e(f := 1))"
| open_failed: "room e \<Longrightarrow> file_openat H dirfd fn n flags mode s = (Inl err, s') \<Longrightarrow> ftab_step H (s, e) (s', e)"
| host_call: "frontend_syscall H n args s = (r, s') \<Longrightarrow> ftab_step H (s, e) (s', e)"

inductive ftab_reachable :: "'h htif \<Rightarrow> ('h, 'z) ftab \<Rightarrow> bool" for H where
  start: "(\<forall>i. fds s i = None) \<Longrightarrow> (\<forall>f. refcnt (files s f) = 0) \<Longrightarrow> ftab_reachable H (s, \<lambda>_. 0)"
| step: "ftab_reachable H t \<Longrightarrow> ftab_step H t t' \<Longrightarrow> ftab_reachable H t'"

lemma files_ok_start:
  "(\<forall>i. fds s i = None) \<Longrightarrow> (\<forall>f. refcnt (files s f) = 0) \<Longrightarrow> files_ok s (\<lambda>_. 0)"
  by (simp add: files_ok_def total_refs_def fd_refs_def counted_def)

lemma ftab_step_ok: "ftab_step H (s, e) (s', e') \<Longrightarrow> files_ok s e \<Longrightarrow> files_ok s' e'"
proof (induction "(s, e)" "(s', e')" arbitrary: s e s' e' rule: ftab_step.induct)
  case (get e fd s f s')
  then show ?case using file_get_Some [of s e fd f s'] by blast
next
  case (drop f e s)
  then show ?case using file_decref_ok(1) by blast
next
  case (dup e f s r s')
  then show ?case using file_dup_ok [of s e f] by auto
next
  case (dup3 e f newfd s r s')
  then show ?case using file_dup3_ok [of s e f newfd] by auto
next
  case (close e fd s r s')
  show ?case
  proof (cases "0 \<le> fd \<and> fd < int MAX_FDS \<and> fds s (nat fd) \<noteq> None")
    case True
    then obtain f where "fds s (nat fd) = Some f" by auto
    with True close fd_close_ok [of s e fd f H] show ?thesis by simp
  next
    case False
    with close fd_close_bad [of s e fd H] show ?thesis by simp
  qed
next
  case (opened e dirfd fn n flags mode s f s')
  then show ?case using file_openat_ok [of s e H dirfd fn n flags mode] by simp
next
  case (open_failed e dirfd fn n flags mode s err s')
  then show ?case using file_openat_ok [of s e H dirfd fn n flags mode] by simp
next
  case (host_call n args s r s' e)
  then have "fds s' = fds s" "files s' = files s" by (metis frontend_syscall_fields snd_conv)+
  with host_call files_ok_cong [of s' s e] show ?case by simp
qed

lemma ftab_reachable_ok: "ftab_reachable H t \<Longrightarrow> files_ok (fst t) (snd t)"
proof (induction rule: ftab_reachable.induct)
  case (start s)
  then show ?case by (simp add: files_ok_start)
next
  case (step t t')
  then show ?case using ftab_step_ok [of H "fst t" "snd t" "fst t'" "snd t'"] by simp
qed

text \<open>C10. In every history of opens, gets, dups, closes, drops and host calls, each file's counter
  is its number of references plus one (zero when it has none), and no descriptor points to a
  freed file: a descriptor that is in use always yields its file.\<close>

theorem file_table_sound:
  assumes "ftab_reachable H (s, e)"
  shows "(\<forall>f < MAX_FILES. unat (refcnt (files s f)) = counted (fd_refs (fds s) f + e f))
    \<and> (\<forall>i < MAX_FDS. fst (file_get (int i) s) = fds s i)"
proof -
  have ok: "files_ok s e" using ftab_reachable_ok [OF assms] by simp
  have "fst (file_get (int i) s) = fds s i" if "i < MAX_FDS" for i
    using file_get_iff [OF ok, of "int i"] that by (metis int_eq_iff nat_int not_None_eq of_nat_less_iff zero_le_imp_eq_int)
  with ok show ?thesis by (simp add: files_ok_def total_refs_def)
qed

definition no_files :: "unit file_st" where
  "no_files = \<lparr>pmem = \<lambda>_. 0, host = (), fds = \<lambda>_. None, files = \<lambda>_. \<lparr>kfd = 0, refcnt = 0\<rparr>\<rparr>"

definition opened_file :: "unit file_st" where
  "opened_file = set_kfd 0 3 (set_refcnt 0 2 no_files)"

lemma no_files_free: "find (\<lambda>f. refcnt (files no_files f) = 0) [0..<MAX_FILES] = Some 0"
  by (subst upt_conv_Cons) (simp_all add: MAX_FILES_def no_files_def)

lemma opened_file_reachable: "ftab_reachable (\<lambda>_ m h. (3, m, h)) (opened_file, (\<lambda>_. 0)(0 := 1))"
proof -
  have "file_openat (\<lambda>_ m h. (3, m, h)) 0 0 4 0 0 no_files = (Inr 0, opened_file)"
    by (simp add: file_openat_def file_get_free_def no_files_free opened_file_def frontend_syscall_def)
      (simp add: no_files_def set_refcnt_def set_kfd_def)
  then have "ftab_step (\<lambda>_ m h. (3, m, h)) (no_files, \<lambda>_. 0) (opened_file, (\<lambda>_. 0)(0 := 1))"
    by (intro ftab_step.opened) (simp_all add: room_def)
  then show ?thesis by (rule ftab_reachable.step [rotated]) (simp add: ftab_reachable.start no_files_def)
qed

lemma file_table_sound_witness:
  "unat (refcnt (files opened_file 0)) = counted (fd_refs (fds opened_file) 0 + 1)
    \<and> fst (file_get 5 opened_file) = None"
proof
  note sound = file_table_sound [OF opened_file_reachable]
  show "unat (refcnt (files opened_file 0)) = counted (fd_refs (fds opened_file) 0 + 1)"
    using sound by (auto simp: MAX_FILES_def dest!: spec [of _ 0])
  show "fst (file_get 5 opened_file) = None"
    using sound by (auto simp: MAX_FDS_def opened_file_def no_files_def set_kfd_def set_refcnt_def dest!: spec [of _ 5])
qed

text \<open>C16. Closing an open descriptor succeeds, empties that descriptor only, and asks the host to
  close its file exactly when this was the last reference anywhere; closing anything else fails
  and changes nothing.\<close>

theorem fd_close_correct:
  assumes "files_ok s e" "room e"
  shows "case (if 0 \<le> fd \<and> fd < int MAX_FDS then fds s (nat fd) else None) of
      None \<Rightarrow> fd_close H fd s = (-1, s)
    | Some f \<Rightarrow> fst (fd_close H fd s) = 0
        \<and> fds (snd (fd_close H fd s)) = (fds s)(nat fd := None)
        \<and> files_ok (snd (fd_close H fd s)) e
        \<and> (pmem (snd (fd_close H fd s)), host (snd (fd_close H fd s)))
          = (if total_refs s e f = 1
             then snd (H [SYS_close, scast (kfd (files s f)), 0, 0, 0, 0, 0, 0] (pmem s) (host s))
             else (pmem s, host s))"
  using fd_close_ok [OF assms, of fd _ H] fd_close_bad [OF assms(1), of fd H]
  by (auto split: option.split)

definition one_open :: "unit file_st" where
  "one_open = \<lparr>pmem = \<lambda>_. 0, host = (), fds = (\<lambda>_. None)(5 := Some 0),
               files = (\<lambda>_. \<lparr>kfd = 0, refcnt = 0\<rparr>)(0 := \<lparr>kfd = 9, refcnt = 2\<rparr>)\<rparr>"

lemma one_open_ok: "files_ok one_open (\<lambda>_. 0)" "room (\<lambda>_. 0)"
proof -
  have none: "fd_refs (\<lambda>_. None) f = 0" for f by (simp add: fd_refs_def)
  have "fd_refs ((\<lambda>_. None)(5 := Some 0)) f = (if f = 0 then 1 else 0)" for f
    using fd_refs_set [of 5 "\<lambda>_. None" 0] fd_refs_other [of "\<lambda>_. None" 5 f "Some 0"]
    by (simp add: none MAX_FDS_def)
  then show "files_ok one_open (\<lambda>_. 0)"
    by (simp add: files_ok_def one_open_def total_refs_def counted_def MAX_FILES_def)
qed (simp add: room_def)

lemma fd_close_correct_witness:
  "fst (fd_close (\<lambda>_ m h. (0, m, h)) 5 one_open) = 0
   \<and> fds (snd (fd_close (\<lambda>_ m h. (0, m, h)) 5 one_open)) = (fds one_open)(5 := None)
   \<and> fd_close (\<lambda>_ m h. (0, m, h)) 6 one_open = (-1, one_open)"
  using fd_close_correct [OF one_open_ok, where fd = 5 and H = "\<lambda>_ m h. (0, m, h)"]
    fd_close_correct [OF one_open_ok, where fd = 6 and H = "\<lambda>_ m h. (0, m, h)"]
  by (simp add: one_open_def MAX_FDS_def)

end
