(* ===== verification/PK_Page.thy ===== *)
theory PK_Page
  imports PK_File
begin

text \<open>
  The physical page allocator of \<^verbatim>\<open>pk/mmap.c\<close>: a bump pointer over the pages after the kernel
  image, a stack of freed pages (\<^verbatim>\<open>page_freelist_storage\<close>), and the optional shuffling of that
  stack that \<^verbatim>\<open>--randomize-mapping\<close> turns on.

  Memory has two views: \<^const>\<open>pmem\<close> holds bytes of data pages and \<open>ptes\<close> the 64-bit entries of
  page-table pages, both by physical address; a fresh page is zero in both.
\<close>

section \<open>State\<close>

abbreviation PGSIZE :: u64 where "PGSIZE \<equiv> 0x1000"

record 'h page_st = "'h file_st" +
  first_free_page :: u64
  next_free_page :: u64
  free_pages :: u64
  page_freelist_depth :: u64
  page_freelist_storage :: "u64 list"
  randomize_mapping :: u64
  ptes :: "u64 \<Rightarrow> u64"

definition lfsr63 :: "u64 \<Rightarrow> u64" where
  "lfsr63 x = (let b = (x XOR drop_bit 1 x) AND 1 in drop_bit 1 x OR push_bit 62 b)"

section \<open>The bump allocator\<close>

definition free_page_addr :: "('h, 'z) page_st_scheme \<Rightarrow> u64 \<Rightarrow> u64" where
  "free_page_addr s idx = first_free_page s + idx * PGSIZE"

definition early_pgalloc_align ::
    "('h, 'z) page_st_scheme \<Rightarrow> u64 \<Rightarrow> u64 \<Rightarrow> u64 \<times> ('h, 'z) page_st_scheme" where
  "early_pgalloc_align s num_pages align =
     (let skip_pages = (align - 1) AND - (free_page_addr s (next_free_page s) div PGSIZE);
          num_pages = num_pages + skip_pages
      in if num_pages + next_free_page s < num_pages \<or> num_pages + next_free_page s > free_pages s
         then (0, s)
         else (free_page_addr s (next_free_page s + skip_pages),
               s\<lparr>next_free_page := next_free_page s + num_pages\<rparr>))"

definition early_alloc :: "('h, 'z) page_st_scheme \<Rightarrow> u64 \<Rightarrow> u64 \<times> ('h, 'z) page_st_scheme" where
  "early_alloc s n = early_pgalloc_align s (ROUNDUP n PGSIZE div PGSIZE) 1"

lemma early_alloc_page:
  "early_alloc s PGSIZE =
     (if next_free_page s = - 1 \<or> next_free_page s + 1 > free_pages s then (0, s)
      else (free_page_addr s (next_free_page s), s\<lparr>next_free_page := next_free_page s + 1\<rparr>))"
proof -
  have one: "ROUNDUP PGSIZE PGSIZE div PGSIZE = 1" by (simp add: ROUNDUP_def)
  have wrap: "1 + x = 0 \<longleftrightarrow> x = - 1" for x :: u64
    using minus_unique [of 1 x] by auto
  show ?thesis
    unfolding early_alloc_def early_pgalloc_align_def one Let_def
    by (simp add: wrap add.commute)
qed

definition bump_room :: "('h, 'z) page_st_scheme \<Rightarrow> nat" where
  "bump_room s = unat (free_pages s) - unat (next_free_page s)"

lemma early_alloc_room:
  "early_alloc s PGSIZE = (page, s') \<Longrightarrow> page \<noteq> 0 \<Longrightarrow> bump_room s' < bump_room s"
proof -
  assume *: "early_alloc s PGSIZE = (page, s')" "page \<noteq> 0"
  then have n: "next_free_page s \<noteq> - 1" "next_free_page s + 1 \<le> free_pages s"
    and s': "s' = s\<lparr>next_free_page := next_free_page s + 1\<rparr>"
    by (auto simp: early_alloc_page split: if_splits)
  from n(1) have "unat (next_free_page s + 1) = unat (next_free_page s) + 1"
    by (metis Suc_eq_plus1 add.commute eq_neg_iff_add_eq_0 unatSuc)
  with n(2) s' show ?thesis by (simp add: bump_room_def word_le_nat_alt)
qed

section \<open>The free list\<close>

text \<open>
  \<^verbatim>\<open>__page_freelist_insert\<close>, \<^verbatim>\<open>__maybe_fuzz_page_freelist\<close> and \<^verbatim>\<open>__augment_page_freelist\<close> call
  each other.  Every round through \<^verbatim>\<open>__augment_page_freelist\<close> consumes a page of the bump
  allocator, which is why they stop.  An index outside the storage array is \<^const>\<open>Undefined\<close>.
\<close>

function (sequential)
      freelist_insert :: "('h, 'z) page_st_scheme \<Rightarrow> u64 \<Rightarrow> ('h, 'z) page_st_scheme res"
  and maybe_fuzz :: "('h, 'z) page_st_scheme \<Rightarrow> ('h, 'z) page_st_scheme res"
  and augment_freelist :: "('h, 'z) page_st_scheme \<Rightarrow> (bool \<times> ('h, 'z) page_st_scheme) res" where
  "freelist_insert s node =
     bindE (maybe_fuzz s) (\<lambda>s.
       if unat (page_freelist_depth s) < length (page_freelist_storage s)
       then Inr (s\<lparr>page_freelist_storage := (page_freelist_storage s)[unat (page_freelist_depth s) := node],
                   page_freelist_depth := page_freelist_depth s + 1\<rparr>)
       else Inl (Undefined ''page_freelist_storage''))"
| "maybe_fuzz s =
     (if randomize_mapping s = 0 then Inr s
      else
        let r = lfsr63 (randomize_mapping s);
            s1 = s\<lparr>randomize_mapping := r\<rparr>
        in bindE (if r mod 2 = 0 \<and> page_freelist_depth s1 \<noteq> 0
                  then let top = unat (page_freelist_depth s1) - 1;
                           idx = unat (r mod page_freelist_depth s1);
                           st = page_freelist_storage s1
                       in if top < length st
                          then Inr (s1\<lparr>page_freelist_storage := st[idx := st ! top, top := st ! idx]\<rparr>)
                          else Inl (Undefined ''page_freelist_storage'')
                  else Inr s1)
             (\<lambda>s2. if r mod 16 = 0 then bindE (augment_freelist s2) (\<lambda>(_, s3). Inr s3)
                   else Inr s2))"
| "augment_freelist s =
     (case early_alloc s PGSIZE of
        (page, s1) \<Rightarrow>
          if page \<noteq> 0 then bindE (freelist_insert s1 page) (\<lambda>s2. Inr (True, s2))
          else Inr (False, s1))"
  by pat_completeness auto
termination
proof (relation "measure (\<lambda>x. case x of Inl (s, _) \<Rightarrow> 3 * bump_room s + 2
    | Inr (Inl s) \<Rightarrow> 3 * bump_room s + 1 | Inr (Inr s) \<Rightarrow> 3 * bump_room s)", goal_cases)
  case (4 s page s1)
  then show ?case using early_alloc_room [of s page s1] by simp
qed (auto simp: bump_room_def Let_def split: if_splits)

lemmas freelist_simps = freelist_insert.simps maybe_fuzz.simps augment_freelist.simps
declare freelist_simps [simp del]

section \<open>The allocator's operations\<close>

definition freelist_empty :: "('h, 'z) page_st_scheme \<Rightarrow> bool" where
  "freelist_empty s \<longleftrightarrow> page_freelist_depth s = 0"

definition freelist_remove :: "('h, 'z) page_st_scheme \<Rightarrow> (u64 \<times> ('h, 'z) page_st_scheme) res" where
  "freelist_remove s =
     bindE (maybe_fuzz s) (\<lambda>s.
       let d = page_freelist_depth s - 1
       in if unat d < length (page_freelist_storage s)
          then Inr (page_freelist_storage s ! unat d, s\<lparr>page_freelist_depth := d\<rparr>)
          else Inl (Undefined ''page_freelist_storage''))"

definition num_free_pages :: "('h, 'z) page_st_scheme \<Rightarrow> u64" where
  "num_free_pages s = page_freelist_depth s + (free_pages s - next_free_page s)"

text \<open>The \<^verbatim>\<open>memset\<close> of a page through its kernel address, in both views of memory.\<close>

definition zero_page :: "u64 \<Rightarrow> ('h, 'z) page_st_scheme \<Rightarrow> ('h, 'z) page_st_scheme" where
  "zero_page pa s = s\<lparr>pmem := mem_fill (pmem s) pa 0 4096,
                      ptes := (\<lambda>a. if unat (a - pa) < 4096 then 0 else ptes s a)\<rparr>"

definition page_alloc :: "('h, 'z) page_st_scheme \<Rightarrow> (u64 \<times> ('h, 'z) page_st_scheme) res" where
  "page_alloc s =
     bindE (if freelist_empty s then augment_freelist s else Inr (True, s)) (\<lambda>(ok, s).
       if \<not> ok then Inr (0, s)
       else bindE (freelist_remove s) (\<lambda>(node, s). Inr (node, zero_page node s)))"

definition page_alloc_assert :: "('h, 'z) page_st_scheme \<Rightarrow> (u64 \<times> ('h, 'z) page_st_scheme) res" where
  "page_alloc_assert s =
     bindE (page_alloc s) (\<lambda>(r, s). if r = 0 then Inl (Panic ''Out of memory!'') else Inr (r, s))"

definition page_free :: "u64 \<Rightarrow> ('h, 'z) page_st_scheme \<Rightarrow> ('h, 'z) page_st_scheme res" where
  "page_free addr s = freelist_insert s addr"

section \<open>The allocator's invariant\<close>

text \<open>
  The pages handed out so far by the bump allocator are the first \<open>next_free_page\<close> ones; those
  on the stack are free, the others are in use.  The stack holds no page twice and only such
  pages, so it never grows past them, and hence never past its storage.
\<close>

definition freelist :: "('h, 'z) page_st_scheme \<Rightarrow> u64 list" where
  "freelist s = take (unat (page_freelist_depth s)) (page_freelist_storage s)"

definition bump_pages :: "('h, 'z) page_st_scheme \<Rightarrow> u64 set" where
  "bump_pages s = (\<lambda>i. free_page_addr s (of_nat i)) ` {..<unat (next_free_page s)}"

definition used_pages :: "('h, 'z) page_st_scheme \<Rightarrow> u64 set" where
  "used_pages s = bump_pages s - set (freelist s)"

definition page_ok :: "('h, 'z) page_st_scheme \<Rightarrow> bool" where
  "page_ok s \<longleftrightarrow>
     next_free_page s \<le> free_pages s
     \<and> unat (free_pages s) \<le> length (page_freelist_storage s)
     \<and> first_free_page s \<noteq> 0 \<and> first_free_page s mod PGSIZE = 0
     \<and> unat (first_free_page s) + 4096 * unat (free_pages s) < 2 ^ 64
     \<and> distinct (freelist s) \<and> set (freelist s) \<subseteq> bump_pages s
     \<and> unat (page_freelist_depth s) \<le> length (page_freelist_storage s)"

definition free_count :: "('h, 'z) page_st_scheme \<Rightarrow> nat" where
  "free_count s = unat (page_freelist_depth s) + (unat (free_pages s) - unat (next_free_page s))"

definition page_frame :: "('h, 'z) page_st_scheme \<Rightarrow> ('h, 'z) page_st_scheme \<Rightarrow> bool" where
  "page_frame s s' \<longleftrightarrow>
     first_free_page s' = first_free_page s \<and> free_pages s' = free_pages s \<and> ptes s' = ptes s
     \<and> pmem s' = pmem s \<and> host s' = host s \<and> fds s' = fds s \<and> files s' = files s
     \<and> page_st.more s' = page_st.more s"

lemma page_frame_refl [simp]: "page_frame s s"
  by (simp add: page_frame_def)

lemma page_frame_trans: "page_frame s t \<Longrightarrow> page_frame t u \<Longrightarrow> page_frame s u"
  by (simp add: page_frame_def)

lemma page_frame_upd [simp]:
  "page_frame s (s\<lparr>next_free_page := n\<rparr>)" "page_frame s (s\<lparr>randomize_mapping := r\<rparr>)"
  "page_frame s (s\<lparr>page_freelist_storage := st\<rparr>)" "page_frame s (s\<lparr>page_freelist_depth := d\<rparr>)"
  "page_frame s (s\<lparr>page_freelist_depth := d, page_freelist_storage := st\<rparr>)"
  by (simp_all add: page_frame_def)

lemma page_frame_fields:
  assumes "page_frame s s'"
  shows "first_free_page s' = first_free_page s" "free_pages s' = free_pages s" "ptes s' = ptes s"
    "pmem s' = pmem s" "host s' = host s" "fds s' = fds s" "files s' = files s"
    "page_st.more s' = page_st.more s"
  using assms by (auto simp: page_frame_def)

lemma free_page_addr_frame: "page_frame s s' \<Longrightarrow> free_page_addr s' = free_page_addr s"
  by (simp add: free_page_addr_def page_frame_fields fun_eq_iff)

lemma unat_free_page_addr:
  assumes "page_ok s" "i < unat (free_pages s)"
  shows "unat (free_page_addr s (of_nat i)) = unat (first_free_page s) + 4096 * i"
proof -
  have "unat (first_free_page s) + 4096 * unat (free_pages s) < 2 ^ 64"
    using assms(1) by (simp add: page_ok_def)
  with assms(2) have lt: "unat (first_free_page s) + 4096 * i < 2 ^ 64" by linarith
  have e: "(of_nat i * PGSIZE) = (of_nat (4096 * i) :: u64)"
    unfolding of_nat_mult by (simp only: of_nat_numeral mult.commute)
  have u: "unat (of_nat (4096 * i) :: u64) = 4096 * i" using lt by (intro unat_u64_of_nat) linarith
  have "unat (first_free_page s + of_nat (4096 * i))
      = unat (first_free_page s) + unat (of_nat (4096 * i) :: u64)"
    by (rule unat_u64_plus) (unfold u, rule lt)
  then show ?thesis unfolding free_page_addr_def e u .
qed

lemma free_page_addr_inj:
  assumes "page_ok s" "i < unat (free_pages s)" "j < unat (free_pages s)"
  shows "free_page_addr s (of_nat i) = free_page_addr s (of_nat j) \<longleftrightarrow> i = j"
proof
  assume "free_page_addr s (of_nat i) = free_page_addr s (of_nat j)"
  then have "unat (free_page_addr s (of_nat i)) = unat (free_page_addr s (of_nat j))" by (rule arg_cong)
  then show "i = j"
    unfolding unat_free_page_addr [OF assms(1,2)] unat_free_page_addr [OF assms(1,3)] by simp
qed (rule arg_cong)

lemma free_page_addr_props:
  assumes "page_ok s" "i < unat (free_pages s)"
  shows "free_page_addr s (of_nat i) \<noteq> 0" "free_page_addr s (of_nat i) mod PGSIZE = 0"
proof -
  have f: "first_free_page s \<noteq> 0" "first_free_page s mod PGSIZE = 0"
    using assms(1) by (auto simp: page_ok_def)
  then have "0 < unat (first_free_page s)" by (simp add: unat_gt_0)
  with unat_free_page_addr [OF assms] show "free_page_addr s (of_nat i) \<noteq> 0" by auto
  have "unat (first_free_page s) mod 4096 = 0"
    using f(2) unat_mod_distrib [of "first_free_page s" PGSIZE] by simp
  then have "unat (free_page_addr s (of_nat i)) mod 4096 = 0"
    unfolding unat_free_page_addr [OF assms] by simp
  then show "free_page_addr s (of_nat i) mod PGSIZE = 0"
    by (simp add: word_unat_eq_iff unat_mod_distrib)
qed

lemma bump_pages_Suc:
  "unat (n + 1) = Suc (unat n) \<Longrightarrow>
   bump_pages (s\<lparr>next_free_page := n + 1\<rparr>) = insert (free_page_addr s n) (bump_pages (s\<lparr>next_free_page := n\<rparr>))"
  by (simp add: bump_pages_def free_page_addr_def lessThan_Suc)

lemma card_bump_pages:
  assumes "page_ok s"
  shows "card (bump_pages s) = unat (next_free_page s)"
proof -
  have le: "unat (next_free_page s) \<le> unat (free_pages s)"
    using assms by (simp add: page_ok_def word_le_nat_alt)
  have "inj_on (\<lambda>i. free_page_addr s (of_nat i)) {..<unat (next_free_page s)}"
    using free_page_addr_inj [OF assms] le by (intro inj_onI) auto
  then show ?thesis by (simp add: bump_pages_def card_image)
qed

lemma bump_pages_upd [simp]:
  "bump_pages (s\<lparr>page_freelist_storage := st\<rparr>) = bump_pages s"
  "bump_pages (s\<lparr>page_freelist_depth := d\<rparr>) = bump_pages s"
  "bump_pages (s\<lparr>randomize_mapping := r\<rparr>) = bump_pages s"
  "bump_pages (s\<lparr>page_freelist_depth := d, page_freelist_storage := st\<rparr>) = bump_pages s"
  by (simp_all add: bump_pages_def free_page_addr_def)

lemma finite_bump_pages [simp]: "finite (bump_pages s)"
  by (simp add: bump_pages_def)

lemma used_page_props:
  assumes "page_ok s" "p \<in> used_pages s"
  shows "p \<noteq> 0" "p mod PGSIZE = 0" "unat (first_free_page s) \<le> unat p"
    "unat p + 4096 \<le> unat (first_free_page s) + 4096 * unat (free_pages s)"
proof -
  from assms(2) obtain i where i: "p = free_page_addr s (of_nat i)" "i < unat (next_free_page s)"
    by (auto simp: used_pages_def bump_pages_def)
  with assms(1) have lt: "i < unat (free_pages s)" by (simp add: page_ok_def word_le_nat_alt)
  from free_page_addr_props [OF assms(1) lt] i show "p \<noteq> 0" "p mod PGSIZE = 0" by simp_all
  from unat_free_page_addr [OF assms(1) lt] i lt
  show "unat (first_free_page s) \<le> unat p"
    "unat p + 4096 \<le> unat (first_free_page s) + 4096 * unat (free_pages s)" by simp_all
qed

text \<open>One step of the allocator: what holds of the state after it.\<close>

definition page_step ::
    "('h, 'z) page_st_scheme \<Rightarrow> u64 set \<Rightarrow> nat \<Rightarrow> nat \<Rightarrow> ('h, 'z) page_st_scheme \<Rightarrow> bool" where
  "page_step s used n d s' \<longleftrightarrow>
     page_ok s' \<and> page_frame s s' \<and> used_pages s' = used \<and> free_count s' = n
     \<and> d \<le> unat (page_freelist_depth s')"

lemma page_step_self: "page_ok s \<Longrightarrow> page_step s (used_pages s) (free_count s) (unat (page_freelist_depth s)) s"
  by (simp add: page_step_def)

lemma page_step_frame: "page_frame t s \<Longrightarrow> page_step s u n d s' \<Longrightarrow> page_step t u n d s'"
  by (auto simp: page_step_def intro: page_frame_trans)

lemma early_alloc_ok:
  assumes "page_ok s" "next_free_page s \<noteq> free_pages s"
  obtains p where "early_alloc s PGSIZE = (p, s\<lparr>next_free_page := next_free_page s + 1\<rparr>)"
    "p \<noteq> 0" "p \<notin> used_pages s"
    "page_step s (insert p (used_pages s)) (free_count s - 1) (unat (page_freelist_depth s))
       (s\<lparr>next_free_page := next_free_page s + 1\<rparr>)" "0 < free_count s"
proof -
  let ?n = "next_free_page s" let ?p = "free_page_addr s ?n"
  let ?s = "s\<lparr>next_free_page := ?n + 1\<rparr>"
  have lt: "unat ?n < unat (free_pages s)"
    using assms by (auto simp: page_ok_def word_le_nat_alt word_unat_eq_iff)
  then have suc: "unat (?n + 1) = Suc (unat ?n)"
    using unat_u64_plus [of ?n 1] unat_u64_lt [of "free_pages s"] by simp
  have p: "?p \<noteq> 0" using free_page_addr_props(1) [OF assms(1) lt] by simp
  have bump: "bump_pages ?s = insert ?p (bump_pages s)"
    using bump_pages_Suc [OF suc, of s] by simp
  have new: "?p \<notin> bump_pages s"
  proof
    assume "?p \<in> bump_pages s"
    then obtain i where i: "?p = free_page_addr s (of_nat i)" "i < unat ?n"
      by (auto simp: bump_pages_def)
    with free_page_addr_inj [OF assms(1) lt, of i] lt show False by simp
  qed
  have fl: "freelist ?s = freelist s" by (simp add: freelist_def)
  have sub: "set (freelist s) \<subseteq> bump_pages s" using assms(1) by (simp add: page_ok_def)
  have "early_alloc s PGSIZE = (?p, ?s)"
  proof -
    have "?n \<noteq> - 1" using suc by auto
    moreover have "?n + 1 \<le> free_pages s" using suc lt by (simp add: word_le_nat_alt)
    ultimately show ?thesis using early_alloc_page [of s] by (simp add: leD)
  qed
  moreover have "page_ok ?s"
    using assms(1) lt suc sub by (auto simp: page_ok_def fl bump word_le_nat_alt)
  moreover have "used_pages ?s = insert ?p (used_pages s)"
    using new sub by (auto simp: used_pages_def fl bump)
  moreover have "free_count ?s = free_count s - 1" "0 < free_count s"
    using lt suc by (simp_all add: free_count_def)
  moreover have "?p \<notin> used_pages s" using new by (simp add: used_pages_def)
  ultimately show ?thesis using that p by (simp add: page_step_def)
qed

lemma early_alloc_full:
  assumes "page_ok s" "next_free_page s = free_pages s"
  shows "early_alloc s PGSIZE = (0, s)"
proof (cases "free_pages s = - 1")
  case False
  then have "free_pages s < free_pages s + 1"
    by (simp add: word_less_nat_alt unat_u64_Suc)
  with assms(2) show ?thesis by (simp add: early_alloc_page)
qed (simp add: early_alloc_page assms)

lemma page_depth_le:
  assumes "page_ok s"
  shows "unat (page_freelist_depth s) \<le> unat (next_free_page s)"
    and "node \<in> used_pages s \<Longrightarrow> unat (page_freelist_depth s) < unat (next_free_page s)"
proof -
  have d: "distinct (freelist s)" "set (freelist s) \<subseteq> bump_pages s"
    "length (freelist s) = unat (page_freelist_depth s)"
    using assms by (auto simp: page_ok_def freelist_def)
  then have c: "card (set (freelist s)) = unat (page_freelist_depth s)" by (simp add: distinct_card)
  show "unat (page_freelist_depth s) \<le> unat (next_free_page s)"
    using card_mono [OF finite_bump_pages d(2)] c card_bump_pages [OF assms] by simp
  assume "node \<in> used_pages s"
  then have "set (freelist s) \<subset> bump_pages s" using d(2) by (auto simp: used_pages_def)
  from psubset_card_mono [OF finite_bump_pages this] c card_bump_pages [OF assms]
  show "unat (page_freelist_depth s) < unat (next_free_page s)" by simp
qed

lemma page_push_ok:
  assumes "page_ok s" "node \<in> used_pages s"
  defines "s' \<equiv> s\<lparr>page_freelist_storage := (page_freelist_storage s)[unat (page_freelist_depth s) := node],
                  page_freelist_depth := page_freelist_depth s + 1\<rparr>"
  shows "unat (page_freelist_depth s) < length (page_freelist_storage s)"
    and "page_step s (used_pages s - {node}) (Suc (free_count s)) (Suc (unat (page_freelist_depth s))) s'"
proof -
  let ?d = "unat (page_freelist_depth s)"
  have n: "?d < unat (next_free_page s)" using page_depth_le(2) [OF assms(1,2)] .
  moreover have b: "unat (next_free_page s) \<le> unat (free_pages s)"
    "unat (free_pages s) \<le> length (page_freelist_storage s)"
    using assms(1) by (auto simp: page_ok_def word_le_nat_alt)
  ultimately show lt: "?d < length (page_freelist_storage s)" by linarith
  have suc: "unat (page_freelist_depth s + 1) = Suc ?d"
    using unat_u64_plus [of "page_freelist_depth s" 1] n unat_u64_lt [of "next_free_page s"] by simp
  have fl: "freelist s' = freelist s @ [node]"
    using lt by (simp add: freelist_def s'_def suc take_Suc_conv_app_nth)
  have bp: "bump_pages s' = bump_pages s" by (simp add: bump_pages_def s'_def free_page_addr_def)
  have node: "node \<in> bump_pages s" "node \<notin> set (freelist s)"
    using assms(2) by (auto simp: used_pages_def)
  have "page_ok s'"
    using assms(1) node lt by (simp add: page_ok_def fl bp) (simp add: s'_def suc)
  moreover have "used_pages s' = used_pages s - {node}" by (auto simp: used_pages_def fl bp)
  moreover have "free_count s' = Suc (free_count s)" by (simp add: free_count_def s'_def suc)
  moreover have "page_frame s s'" by (simp add: s'_def page_frame_def)
  ultimately show "page_step s (used_pages s - {node}) (Suc (free_count s)) (Suc ?d) s'"
    by (simp add: page_step_def) (simp add: s'_def suc)
qed

lemma page_swap_ok:
  assumes "page_ok s" "unat i < unat (page_freelist_depth s)" "j < unat (page_freelist_depth s)"
  defines "st \<equiv> page_freelist_storage s"
  shows "page_step s (used_pages s) (free_count s) (unat (page_freelist_depth s))
     (s\<lparr>page_freelist_storage := st[unat i := st ! j, j := st ! unat i]\<rparr>)" (is "page_step s _ _ _ ?s'")
proof -
  have len: "length (freelist s) = unat (page_freelist_depth s)"
    using assms(1) by (simp add: freelist_def page_ok_def)
  have fl: "freelist ?s' = (freelist s)[unat i := freelist s ! j, j := freelist s ! unat i]"
    using assms(2,3) by (simp add: freelist_def st_def take_update_swap)
  have "distinct (freelist ?s') = distinct (freelist s)" "set (freelist ?s') = set (freelist s)"
    unfolding fl using assms(2,3) len by (simp_all add: set_swap)
  with assms(1) show ?thesis
    by (simp add: page_step_def page_ok_def used_pages_def free_count_def st_def)
qed

text \<open>The three mutually recursive routines keep the invariant and never leave the storage.\<close>

lemma page_routines_ok:
  fixes s :: "('h, 'z) page_st_scheme"
  shows "page_ok s \<Longrightarrow> node \<in> used_pages s \<Longrightarrow>
      \<exists>s'. freelist_insert s node = Inr s'
        \<and> page_step s (used_pages s - {node}) (Suc (free_count s)) (Suc (unat (page_freelist_depth s))) s'"
    and "page_ok s \<Longrightarrow>
      \<exists>s'. maybe_fuzz s = Inr s'
        \<and> page_step s (used_pages s) (free_count s) (unat (page_freelist_depth s)) s'"
    and "page_ok s \<Longrightarrow>
      \<exists>s'. augment_freelist s = Inr (next_free_page s \<noteq> free_pages s, s')
        \<and> page_step s (used_pages s) (free_count s)
           (unat (page_freelist_depth s) + (if next_free_page s \<noteq> free_pages s then 1 else 0)) s'"
proof (induction s node and s and s rule: freelist_insert_maybe_fuzz_augment_freelist.induct)
  case (1 s node)
  from 1(1) [OF 1(2)] obtain t where t: "maybe_fuzz s = Inr t"
    and st: "page_step s (used_pages s) (free_count s) (unat (page_freelist_depth s)) t" by blast
  from st have ok: "page_ok t" "node \<in> used_pages t" using 1(3) by (auto simp: page_step_def)
  show ?case
    using page_push_ok [OF ok] st t
    by (auto simp: freelist_simps(1) page_step_def page_frame_def)
next
  case (2 s)
  let ?r = "lfsr63 (randomize_mapping s)"
  let ?s1 = "s\<lparr>randomize_mapping := ?r\<rparr>"
  let ?swap = "?r mod 2 = 0 \<and> page_freelist_depth ?s1 \<noteq> 0"
  let ?d = "unat (page_freelist_depth s)"
  define s2 where "s2 = (if ?swap
     then ?s1\<lparr>page_freelist_storage := (page_freelist_storage s)
        [unat (?r mod page_freelist_depth s) := page_freelist_storage s ! (?d - 1),
         ?d - 1 := page_freelist_storage s ! unat (?r mod page_freelist_depth s)]\<rparr> else ?s1)"
  have ok1: "page_ok ?s1" "used_pages ?s1 = used_pages s" "free_count ?s1 = free_count s"
    using 2(2) by (simp_all add: page_ok_def freelist_def bump_pages_def free_page_addr_def
        used_pages_def free_count_def)
  have s2: "page_step s (used_pages s) (free_count s) ?d s2"
  proof (cases ?swap)
    case True
    then have d: "page_freelist_depth s \<noteq> 0" by simp
    then have "0 < page_freelist_depth s" by (simp add: word_gt_0)
    then have "?r mod page_freelist_depth s < page_freelist_depth s" by (rule word_mod_less_divisor)
    with d have "unat (?r mod page_freelist_depth ?s1) < unat (page_freelist_depth ?s1)"
      "?d - 1 < unat (page_freelist_depth ?s1)"
      by (simp_all add: word_less_nat_alt unat_eq_0)
    from page_swap_ok [OF ok1(1) this] True ok1 show ?thesis
      unfolding s2_def by (auto intro: page_step_frame [of s ?s1])
  next
    case False
    then have "s2 = ?s1" unfolding s2_def by (rule if_not_P)
    with ok1 show ?thesis by (simp add: page_step_def)
  qed
  have in_range: "?d - 1 < length (page_freelist_storage s)" if "page_freelist_depth s \<noteq> 0"
  proof -
    have "0 < ?d" using that by (simp add: unat_gt_0)
    moreover have "?d \<le> length (page_freelist_storage s)" using 2(2) by (simp add: page_ok_def)
    ultimately show ?thesis by linarith
  qed
  show ?case
  proof (cases "randomize_mapping s = 0")
    case True
    with 2(2) show ?thesis by (simp add: freelist_simps(2) page_step_self)
  next
    case nz: False
    have first: "(if ?swap then (let top = unat (page_freelist_depth ?s1) - 1;
                           idx = unat (?r mod page_freelist_depth ?s1);
                           st = page_freelist_storage ?s1
                       in if top < length st
                          then Inr (?s1\<lparr>page_freelist_storage := st[idx := st ! top, top := st ! idx]\<rparr>)
                          else Inl (Undefined ''page_freelist_storage'')) else Inr ?s1) = Inr s2"
      using in_range by (simp add: s2_def Let_def)
    show ?thesis
    proof (cases "?r mod 16 = 0")
      case False
      with nz first s2 show ?thesis by (simp add: freelist_simps(2) Let_def)
    next
      case True
      from s2 have ok2: "page_ok s2" by (simp add: page_step_def)
      from 2(1) [OF nz refl refl first True ok2] obtain b s3 where s3: "augment_freelist s2 = Inr (b, s3)"
        "page_step s2 (used_pages s2) (free_count s2) (unat (page_freelist_depth s2)) s3"
        by (auto simp: page_step_def split: if_splits)
      with s2 have "page_step s (used_pages s) (free_count s) ?d s3"
        by (auto simp: page_step_def page_frame_def)
      with nz first True s3(1) show ?thesis by (simp add: freelist_simps(2) Let_def)
    qed
  qed
next
  case (3 s)
  show ?case
  proof (cases "next_free_page s = free_pages s")
    case True
    with 3(2) early_alloc_full [OF 3(2)] show ?thesis
      by (simp add: freelist_simps(3) page_step_self)
  next
    case False
    let ?s1 = "s\<lparr>next_free_page := next_free_page s + 1\<rparr>"
    from early_alloc_ok [OF 3(2) False] obtain p where p: "early_alloc s PGSIZE = (p, ?s1)" "p \<noteq> 0"
      "p \<notin> used_pages s"
      "page_step s (insert p (used_pages s)) (free_count s - 1) (unat (page_freelist_depth s)) ?s1"
      "0 < free_count s" by blast
    then have ok: "page_ok ?s1" "p \<in> used_pages ?s1" by (simp_all add: page_step_def)
    from 3(1) [OF p(1) [symmetric] p(2) ok] obtain s' where s': "freelist_insert ?s1 p = Inr s'"
      "page_step ?s1 (used_pages ?s1 - {p}) (Suc (free_count ?s1)) (Suc (unat (page_freelist_depth ?s1))) s'"
      by blast
    with p(3-5) have "page_step s (used_pages s) (free_count s) (Suc (unat (page_freelist_depth s))) s'"
      by (auto simp: page_step_def page_frame_def)
    with p(1,2) s'(1) False show ?thesis by (simp add: freelist_simps(3))
  qed
qed

section \<open>Allocation and release\<close>

lemma page_ok_zero_page [simp]:
  "page_ok (zero_page p s) = page_ok s" "used_pages (zero_page p s) = used_pages s"
  "free_count (zero_page p s) = free_count s"
  by (simp_all add: zero_page_def page_ok_def used_pages_def free_count_def freelist_def bump_pages_def
      free_page_addr_def)

lemma freelist_remove_ok:
  assumes "page_ok s" "page_freelist_depth s \<noteq> 0"
  shows "\<exists>p s'. freelist_remove s = Inr (p, s') \<and> p \<notin> used_pages s \<and> 0 < free_count s
     \<and> page_step s (insert p (used_pages s)) (free_count s - 1) 0 s'"
proof -
  from page_routines_ok(2) [OF assms(1)] obtain t where t: "maybe_fuzz s = Inr t"
    and st: "page_step s (used_pages s) (free_count s) (unat (page_freelist_depth s)) t" by blast
  let ?d = "page_freelist_depth t"
  have "0 < unat (page_freelist_depth s)" using assms(2) by (simp add: unat_gt_0)
  with st have pos: "0 < unat ?d" by (simp add: page_step_def)
  have ok: "page_ok t" using st by (simp add: page_step_def)
  have dec: "unat (?d - 1) = unat ?d - 1"
    using pos by (intro unat_minus_one) auto
  let ?t = "t\<lparr>page_freelist_depth := ?d - 1\<rparr>"
  let ?p = "page_freelist_storage t ! unat (?d - 1)"
  have lt: "unat (?d - 1) < length (page_freelist_storage t)"
  proof -
    have "unat ?d \<le> length (page_freelist_storage t)" using ok by (simp add: page_ok_def)
    with pos dec show ?thesis by linarith
  qed
  have "unat ?d = Suc (unat (?d - 1))" using pos dec by simp
  then have fl: "freelist t = freelist ?t @ [?p]"
    using lt by (simp add: freelist_def take_Suc_conv_app_nth)
  have sub: "set (freelist t) \<subseteq> bump_pages t" "distinct (freelist t)" using ok by (auto simp: page_ok_def)
  have "page_ok ?t" using ok sub lt by (simp add: page_ok_def fl)
  moreover have "used_pages ?t = insert ?p (used_pages t)" "?p \<notin> used_pages t"
    using sub by (auto simp: used_pages_def fl)
  moreover have "free_count ?t = free_count t - 1" "0 < free_count t"
    using pos dec by (simp_all add: free_count_def)
  ultimately show ?thesis
    using st t lt by (simp add: freelist_remove_def Let_def page_step_def page_frame_def)
qed

lemma page_alloc_none:
  assumes "page_ok s" "free_count s = 0"
  shows "page_alloc s = Inr (0, s)"
proof -
  have "unat (page_freelist_depth s) = 0" "unat (free_pages s) \<le> unat (next_free_page s)"
    "next_free_page s \<le> free_pages s"
    using assms by (simp_all add: free_count_def page_ok_def)
  then have "page_freelist_depth s = 0" "next_free_page s = free_pages s"
    by (simp_all add: unat_eq_0 word_le_nat_alt [symmetric])
  then show ?thesis
    by (simp add: page_alloc_def freelist_empty_def freelist_simps(3) early_alloc_full [OF assms(1)])
qed

lemma page_alloc_some:
  assumes "page_ok s" "0 < free_count s"
  obtains p t where "page_alloc s = Inr (p, zero_page p t)" "p \<notin> used_pages s"
    "page_step s (insert p (used_pages s)) (free_count s - 1) 0 t"
proof -
  obtain t where t: "(if freelist_empty s then augment_freelist s else Inr (True, s)) = Inr (True, t)"
    "page_step s (used_pages s) (free_count s) 1 t"
  proof (cases "freelist_empty s")
    case True
    with assms have "next_free_page s \<noteq> free_pages s"
      by (auto simp: free_count_def freelist_empty_def)
    with page_routines_ok(3) [OF assms(1)] True that show ?thesis
      by (auto simp: freelist_empty_def)
  next
    case False
    then have "1 \<le> unat (page_freelist_depth s)"
      using unat_gt_0 [of "page_freelist_depth s"] by (simp add: freelist_empty_def)
    with page_step_self [OF assms(1)] have "page_step s (used_pages s) (free_count s) 1 s"
      by (simp add: page_step_def)
    with False that show ?thesis by simp
  qed
  then have "page_ok t" "page_freelist_depth t \<noteq> 0" by (auto simp: page_step_def)
  from freelist_remove_ok [OF this] obtain p t' where p: "freelist_remove t = Inr (p, t')" "p \<notin> used_pages t"
    "page_step t (insert p (used_pages t)) (free_count t - 1) 0 t'" by blast
  have "page_alloc s = Inr (p, zero_page p t')" by (simp add: page_alloc_def t(1) p(1))
  moreover have "page_step s (insert p (used_pages s)) (free_count s - 1) 0 t'" "p \<notin> used_pages s"
    using p(2,3) t(2) by (auto simp: page_step_def page_frame_def)
  ultimately show ?thesis using that by blast
qed

lemma num_free_pages_count:
  assumes "page_ok s"
  shows "unat (num_free_pages s) = free_count s"
proof -
  have n: "next_free_page s \<le> free_pages s" using assms by (simp add: page_ok_def)
  then have d: "unat (free_pages s - next_free_page s) = unat (free_pages s) - unat (next_free_page s)"
    by (simp add: unat_sub)
  have "unat (page_freelist_depth s) + unat (free_pages s - next_free_page s) < 2 ^ 64"
    using page_depth_le(1) [OF assms] n unat_u64_lt [of "free_pages s"]
    by (simp add: d word_le_nat_alt)
  then show ?thesis by (simp add: num_free_pages_def free_count_def unat_u64_plus d)
qed

section \<open>The interface of the allocator\<close>

text \<open>
  What the virtual memory manager relies on.  Under these laws as many allocations as there are
  free pages succeed, with pairwise different pages; the next one fails.
\<close>

primrec alloc_many :: "('s \<Rightarrow> (u64 \<times> 's) res) \<Rightarrow> nat \<Rightarrow> 's \<Rightarrow> (u64 list \<times> 's) res" where
  "alloc_many alloc 0 s = Inr ([], s)"
| "alloc_many alloc (Suc n) s =
     bindE (alloc s) (\<lambda>(p, s). bindE (alloc_many alloc n s) (\<lambda>(ps, s). Inr (p # ps, s)))"

locale page_allocator =
  fixes ok :: "'s \<Rightarrow> bool"
    and used :: "'s \<Rightarrow> u64 set"
    and avail :: "'s \<Rightarrow> nat"
    and alloc :: "'s \<Rightarrow> (u64 \<times> 's) res"
    and release :: "u64 \<Rightarrow> 's \<Rightarrow> 's res"
  assumes alloc_empty: "ok s \<Longrightarrow> avail s = 0 \<Longrightarrow> alloc s = Inr (0, s)"
    and alloc_page: "ok s \<Longrightarrow> 0 < avail s \<Longrightarrow> \<exists>p s'. alloc s = Inr (p, s') \<and> p \<noteq> 0 \<and> p \<notin> used s
       \<and> ok s' \<and> used s' = insert p (used s) \<and> Suc (avail s') = avail s"
    and release_page: "ok s \<Longrightarrow> p \<in> used s \<Longrightarrow> \<exists>s'. release p s = Inr s' \<and> ok s'
       \<and> used s' = used s - {p} \<and> avail s' = Suc (avail s)"
begin

lemma alloc_many_ok:
  assumes "ok s" "n \<le> avail s"
  shows "\<exists>ps s'. alloc_many alloc n s = Inr (ps, s') \<and> length ps = n \<and> distinct ps \<and> 0 \<notin> set ps
    \<and> set ps \<inter> used s = {} \<and> ok s' \<and> used s' = used s \<union> set ps \<and> avail s' + n = avail s"
  using assms
proof (induction n arbitrary: s)
  case (Suc n)
  from Suc.prems alloc_page [of s] obtain p t where p: "alloc s = Inr (p, t)" "p \<noteq> 0" "p \<notin> used s"
    "ok t" "used t = insert p (used s)" "Suc (avail t) = avail s" by fastforce
  with Suc.prems Suc.IH [of t] obtain ps s' where "alloc_many alloc n t = Inr (ps, s')" "length ps = n"
    "distinct ps" "0 \<notin> set ps" "set ps \<inter> used t = {}" "ok s'" "used s' = used t \<union> set ps"
    "avail s' + n = avail t" by fastforce
  with p show ?case by (intro exI [of _ "p # ps"] exI [of _ s']) auto
qed simp

lemma alloc_release:
  assumes "ok s" "alloc s = Inr (p, s')" "p \<noteq> 0"
  shows "\<exists>t. release p s' = Inr t \<and> ok t \<and> used t = used s \<and> avail t = avail s"
proof -
  have "0 < avail s" using assms alloc_empty [of s] by (cases "avail s = 0") auto
  from alloc_page [OF assms(1) this] assms(2) have s': "p \<notin> used s" "ok s'" "used s' = insert p (used s)"
    "Suc (avail s') = avail s" by auto
  from release_page [of s' p] s' show ?thesis by auto
qed

end

interpretation pages: page_allocator page_ok used_pages free_count page_alloc page_free
proof
  fix s :: "('a, 'b) page_st_scheme"
  show "page_alloc s = Inr (0, s)" if "page_ok s" "free_count s = 0"
    using that by (rule page_alloc_none)
  show "\<exists>p s'. page_alloc s = Inr (p, s') \<and> p \<noteq> 0 \<and> p \<notin> used_pages s \<and> page_ok s'
      \<and> used_pages s' = insert p (used_pages s) \<and> Suc (free_count s') = free_count s"
    if ok: "page_ok s" "0 < free_count s"
  proof -
    from page_alloc_some [OF ok] obtain p t where p: "page_alloc s = Inr (p, zero_page p t)" "p \<notin> used_pages s"
      "page_step s (insert p (used_pages s)) (free_count s - 1) 0 t" by blast
    moreover from p(3) have "p \<in> used_pages t" "page_ok t" by (simp_all add: page_step_def)
    then have "p \<noteq> 0" using used_page_props(1) by blast
    ultimately show ?thesis using ok by (auto simp: page_step_def)
  qed
  show "\<exists>s'. page_free p s = Inr s' \<and> page_ok s' \<and> used_pages s' = used_pages s - {p}
      \<and> free_count s' = Suc (free_count s)" if "page_ok s" "p \<in> used_pages s" for p
    using page_routines_ok(1) [OF that] by (auto simp: page_free_def page_step_def)
qed

section \<open>Properties\<close>

text \<open>C9. In a well-formed allocator, shuffling or not, an allocation fails (with address 0 and no
  change) only when no page is free; otherwise it yields a page that nobody uses, page-aligned,
  inside the managed range, zero in every byte and page-table entry, and accounts for exactly that
  page.  Nothing outside the page changes.\<close>

theorem page_alloc_correct:
  assumes "page_ok s"
  shows "\<exists>p s'. page_alloc s = Inr (p, s')
     \<and> (if free_count s = 0 then p = 0 \<and> s' = s
        else p \<noteq> 0 \<and> p \<notin> used_pages s \<and> p mod PGSIZE = 0
          \<and> unat (first_free_page s) \<le> unat p
          \<and> unat p + 4096 \<le> unat (first_free_page s) + 4096 * unat (free_pages s)
          \<and> page_ok s' \<and> used_pages s' = insert p (used_pages s) \<and> Suc (free_count s') = free_count s
          \<and> pmem s' = (\<lambda>a. if unat (a - p) < 4096 then 0 else pmem s a)
          \<and> ptes s' = (\<lambda>a. if unat (a - p) < 4096 then 0 else ptes s a)
          \<and> files s' = files s \<and> fds s' = fds s)"
proof (cases "free_count s = 0")
  case True
  with page_alloc_none [OF assms] show ?thesis by simp
next
  case False
  then obtain p t where p: "page_alloc s = Inr (p, zero_page p t)" "p \<notin> used_pages s"
    "page_step s (insert p (used_pages s)) (free_count s - 1) 0 t"
    using page_alloc_some [OF assms] by blast
  then have t: "page_ok t" "p \<in> used_pages t" "page_frame s t" by (simp_all add: page_step_def)
  from used_page_props [OF t(1,2)] page_frame_fields [OF t(3)] p False t(1) show ?thesis
    by (intro exI [of _ p] exI [of _ "zero_page p t"])
      (auto simp: zero_page_def mem_fill_def page_step_def
        used_pages_def freelist_def bump_pages_def free_page_addr_def page_ok_def free_count_def)
qed

definition three_pages :: "unit page_st" where
  "three_pages = \<lparr>pmem = \<lambda>_. 7, host = (), fds = \<lambda>_. None, files = \<lambda>_. \<lparr>kfd = 0, refcnt = 0\<rparr>,
     first_free_page = 0x80001000, next_free_page = 1, free_pages = 3, page_freelist_depth = 0,
     page_freelist_storage = [0, 0, 0], randomize_mapping = 0, ptes = \<lambda>_. 9\<rparr>"

lemma three_pages_ok: "page_ok three_pages" "free_count three_pages = 2"
  "used_pages three_pages = {0x80001000}"
  by (simp_all add: page_ok_def three_pages_def freelist_def free_count_def used_pages_def
      bump_pages_def free_page_addr_def lessThan_Suc)

lemma page_alloc_correct_witness:
  "\<exists>p s'. page_alloc three_pages = Inr (p, s') \<and> p \<noteq> 0 \<and> p \<noteq> 0x80001000 \<and> pmem s' p = 0
     \<and> free_count s' = 1"
  using page_alloc_correct [OF three_pages_ok(1)] three_pages_ok by auto

text \<open>C15. Exactly as many allocations succeed as there are free pages, all with different pages,
  and giving one back makes it free again: the allocator neither leaks a page nor hands one out
  twice, and it never indexes outside its storage.\<close>

theorem page_alloc_exhausts:
  assumes "page_ok s" "n \<le> free_count s"
  shows "\<exists>ps s'. alloc_many page_alloc n s = Inr (ps, s') \<and> distinct ps \<and> length ps = n
    \<and> set ps \<inter> used_pages s = {} \<and> free_count s' + n = free_count s
    \<and> (\<forall>p \<in> set ps. \<exists>t. page_free p s' = Inr t \<and> used_pages t = used_pages s' - {p}
         \<and> free_count t = Suc (free_count s'))
    \<and> (n = free_count s \<longrightarrow> page_alloc s' = Inr (0, s'))"
proof -
  from pages.alloc_many_ok [OF assms] obtain ps s' where ps: "alloc_many page_alloc n s = Inr (ps, s')"
    "length ps = n" "distinct ps" "set ps \<inter> used_pages s = {}" "page_ok s'"
    "used_pages s' = used_pages s \<union> set ps" "free_count s' + n = free_count s" by blast
  have "\<exists>t. page_free p s' = Inr t \<and> used_pages t = used_pages s' - {p}
         \<and> free_count t = Suc (free_count s')" if "p \<in> set ps" for p
  proof -
    have "p \<in> used_pages s'" using that ps(6) by simp
    from pages.release_page [OF ps(5) this] show ?thesis by blast
  qed
  with ps pages.alloc_empty [OF ps(5)] show ?thesis
    by (intro exI [of _ ps] exI [of _ s']) simp
qed

lemma page_alloc_exhausts_witness:
  "\<exists>ps s'. alloc_many page_alloc 2 three_pages = Inr (ps, s') \<and> distinct ps \<and> length ps = 2
    \<and> page_alloc s' = Inr (0, s')"
  using page_alloc_exhausts [OF three_pages_ok(1), of 2] three_pages_ok(2) by auto

end
