(* ===== verification/PK_Vm.thy ===== *)
theory PK_Vm
  imports PK_Page
begin

text \<open>
  Virtual memory of the proxy kernel (\<^verbatim>\<open>pk/mmap.c\<close>): the three-level Sv39 page table, virtual
  memory regions (\<^verbatim>\<open>vmr_t\<close>) whose pages are filled on demand, and the system calls on mappings.

  A leaf entry of the table is 0 (not mapped), a pointer to the region that promises the page
  (bit 0 clear), or a valid entry (bit 0 set).  Pointers are kernel virtual addresses;
  \<open>ptes\<close> and \<open>vmrs\<close> hold the entries of table pages and the region records.
\<close>

section \<open>State\<close>

text \<open>\<^verbatim>\<open>elf_info\<close> of boot.h.\<close>

record elf_info =
  phent :: u32
  phnum :: u32
  is_supervisor :: u32
  phdr :: u64
  phdr_size :: u64
  bias :: u64
  entry :: u64
  brk_min :: u64
  brk :: u64
  brk_max :: u64
  mmap_max :: u64
  stack_top :: u64
  vm_alloc_guess :: u64
  time0 :: u64
  cycle0 :: u64
  instret0 :: u64

record vmr_t =
  vmr_next :: u64
  vmr_addr :: u64
  vmr_length :: u64
  vmr_file :: "nat option"
  vmr_offset :: u64
  vmr_refcnt :: u32
  vmr_prot :: u32

record 'h vm_st = "'h page_st" +
  kva2pa_offset :: u64
  vmr_freelist_head :: u64
  vmrs :: "u64 \<Rightarrow> vmr_t"
  root_page_table :: u64
  vm_lock :: bool
  pages_promised :: u64
  demand_paging :: bool
  mem_size :: u64
  current :: elf_info

definition kva2pa :: "('h, 'z) vm_st_scheme \<Rightarrow> u64 \<Rightarrow> u64" where
  "kva2pa s va = va - kva2pa_offset s"

definition pa2kva :: "('h, 'z) vm_st_scheme \<Rightarrow> u64 \<Rightarrow> u64" where
  "pa2kva s pa = pa + kva2pa_offset s"

definition VA_BITS :: nat where "VA_BITS = 39"
definition RISCV_PGLEVELS :: nat where "RISCV_PGLEVELS = (VA_BITS - 12) div 9"
definition KVA_START :: u64 where "KVA_START = push_bit (VA_BITS - 1) (- 1)"

definition is_uva :: "u64 \<Rightarrow> bool" where
  "is_uva va \<longleftrightarrow> va < KVA_START"

text \<open>Reading and writing a page-table entry and a region through their kernel pointers.\<close>

definition rd_pte :: "('h, 'z) vm_st_scheme \<Rightarrow> u64 \<Rightarrow> u64" where
  "rd_pte s p = ptes s (kva2pa s p)"

definition wr_pte :: "u64 \<Rightarrow> u64 \<Rightarrow> ('h, 'z) vm_st_scheme \<Rightarrow> ('h, 'z) vm_st_scheme" where
  "wr_pte p x s = s\<lparr>ptes := (ptes s)(kva2pa s p := x)\<rparr>"

definition upd_vmr :: "u64 \<Rightarrow> (vmr_t \<Rightarrow> vmr_t) \<Rightarrow> ('h, 'z) vm_st_scheme \<Rightarrow> ('h, 'z) vm_st_scheme" where
  "upd_vmr v f s = s\<lparr>vmrs := (vmrs s)(v := f (vmrs s v))\<rparr>"

section \<open>Regions\<close>

definition SIZEOF_VMR :: u64 where "SIZEOF_VMR = 48"

definition blank_vmr :: vmr_t where
  "blank_vmr = \<lparr>vmr_next = 0, vmr_addr = 0, vmr_length = 0, vmr_file = None, vmr_offset = 0,
                vmr_refcnt = 0, vmr_prot = 0\<rparr>"

text \<open>The free list that \<^verbatim>\<open>__vmr_alloc\<close> lays out in a fresh (zeroed) page at \<open>p\<close>.\<close>

definition vmr_page_list :: "u64 \<Rightarrow> (u64 \<Rightarrow> vmr_t) \<Rightarrow> (u64 \<Rightarrow> vmr_t)" where
  "vmr_page_list p m =
     fold (\<lambda>i m. let a = p + of_nat i * SIZEOF_VMR
                 in m(a := (m a)\<lparr>vmr_next := p + of_nat (Suc i) * SIZEOF_VMR\<rparr>))
       [0..<4096 div 48 - 1]
       (\<lambda>a. if unat (a - p) < 4096 then blank_vmr else m a)"

definition vmr_alloc ::
    "u64 \<Rightarrow> u64 \<Rightarrow> nat option \<Rightarrow> u64 \<Rightarrow> u32 \<Rightarrow> u32 \<Rightarrow> ('h, 'z) vm_st_scheme
     \<Rightarrow> (u64 \<times> ('h, 'z) vm_st_scheme) res" where
  "vmr_alloc addr len file offset cnt prot s =
     bindE
       (if vmr_freelist_head s = 0
        then bindE (page_alloc s) (\<lambda>(pa, s).
               let new_vmrs = pa2kva s pa
               in if new_vmrs = 0 then Inr (False, s)
                  else Inr (True, s\<lparr>vmr_freelist_head := new_vmrs,
                                    vmrs := vmr_page_list new_vmrs (vmrs s)\<rparr>))
        else Inr (True, s))
       (\<lambda>(ok, s).
          if \<not> ok then Inr (0, s)
          else
            let v = vmr_freelist_head s;
                s = s\<lparr>vmr_freelist_head := vmr_next (vmrs s v)\<rparr>;
                s = s\<lparr>pages_promised := pages_promised s + ucast cnt\<rparr>
            in bindE (case file of None \<Rightarrow> Inr s | Some f \<Rightarrow> file_incref f s) (\<lambda>s.
                 Inr (v, upd_vmr v (\<lambda>r. r\<lparr>vmr_addr := addr, vmr_length := len, vmr_file := file,
                     vmr_offset := offset, vmr_refcnt := cnt, vmr_prot := prot\<rparr>) s)))"

definition vmr_decref :: "'h htif \<Rightarrow> u64 \<Rightarrow> u32 \<Rightarrow> ('h, 'z) vm_st_scheme \<Rightarrow> ('h, 'z) vm_st_scheme" where
  "vmr_decref H v dec s =
     (let s = s\<lparr>pages_promised := pages_promised s - ucast dec\<rparr>;
          s = upd_vmr v (\<lambda>r. r\<lparr>vmr_refcnt := vmr_refcnt r - dec\<rparr>) s
      in if vmr_refcnt (vmrs s v) = 0
         then let s = (case vmr_file (vmrs s v) of None \<Rightarrow> s | Some f \<Rightarrow> file_decref H f s);
                  s = upd_vmr v (\<lambda>r. r\<lparr>vmr_next := vmr_freelist_head s\<rparr>) s
              in s\<lparr>vmr_freelist_head := v\<rparr>
         else s)"

section \<open>The page table\<close>

definition PTE_V :: u64 where "PTE_V = 0x001"
definition PTE_R :: u64 where "PTE_R = 0x002"
definition PTE_W :: u64 where "PTE_W = 0x004"
definition PTE_X :: u64 where "PTE_X = 0x008"
definition PTE_U :: u64 where "PTE_U = 0x010"
definition PTE_A :: u64 where "PTE_A = 0x040"
definition PTE_D :: u64 where "PTE_D = 0x080"

lemmas pte_bits = PTE_V_def PTE_R_def PTE_W_def PTE_X_def PTE_U_def PTE_A_def PTE_D_def

definition pte_create :: "u64 \<Rightarrow> u64 \<Rightarrow> u64" where
  "pte_create ppn type = push_bit 10 ppn OR PTE_V OR type"

definition ptd_create :: "u64 \<Rightarrow> u64" where
  "ptd_create ppn = pte_create ppn PTE_V"

definition pte_ppn :: "u64 \<Rightarrow> u64" where
  "pte_ppn pte = drop_bit 10 pte"

definition ppn :: "u64 \<Rightarrow> u64" where
  "ppn addr = drop_bit 12 addr"

definition pt_idx :: "u64 \<Rightarrow> nat \<Rightarrow> u64" where
  "pt_idx addr level = drop_bit (9 * level + 12) addr AND (push_bit 9 1 - 1)"

text \<open>\<^verbatim>\<open>&t[i]\<close> of a table of 8-byte entries.\<close>

definition pte_at :: "u64 \<Rightarrow> u64 \<Rightarrow> u64" where
  "pte_at t i = t + 8 * i"

text \<open>The descent of \<^verbatim>\<open>__walk_internal\<close> from level \<open>i\<close> down to \<open>level\<close>; 0 is the null pointer.\<close>

fun walk_down :: "nat \<Rightarrow> nat \<Rightarrow> u64 \<Rightarrow> bool \<Rightarrow> u64 \<Rightarrow> ('h, 'z) vm_st_scheme
    \<Rightarrow> (u64 \<times> ('h, 'z) vm_st_scheme) res" where
  "walk_down i level addr create t s =
     (if i > level
      then let e = pte_at t (pt_idx addr i)
           in bindE
                (if rd_pte s e AND PTE_V = 0
                 then if create
                      then bindE (page_alloc s) (\<lambda>(new_ptd, s).
                             if new_ptd = 0 then Inr (False, s)
                             else Inr (True, wr_pte e (ptd_create (ppn new_ptd)) s))
                      else Inr (False, s)
                 else Inr (True, s))
                (\<lambda>(ok, s).
                   if \<not> ok then Inr (0, s)
                   else walk_down (i - 1) level addr create
                          (pa2kva s (push_bit 12 (pte_ppn (rd_pte s e)))) s)
      else Inr (pte_at t (pt_idx addr level), s))"

declare walk_down.simps [simp del]

definition walk_internal ::
    "u64 \<Rightarrow> u64 \<Rightarrow> bool \<Rightarrow> nat \<Rightarrow> ('h, 'z) vm_st_scheme \<Rightarrow> (u64 \<times> ('h, 'z) vm_st_scheme) res" where
  "walk_internal t addr create level s = walk_down (RISCV_PGLEVELS - 1) level addr create t s"

text \<open>\<^verbatim>\<open>__walk\<close> only reads (\<open>walk_reads\<close> below), so its pointer is all there is to its result.\<close>

definition walk :: "u64 \<Rightarrow> ('h, 'z) vm_st_scheme \<Rightarrow> u64" where
  "walk addr s =
     (case walk_internal (root_page_table s) addr False 0 s of Inr (p, _) \<Rightarrow> p | Inl _ \<Rightarrow> 0)"

definition walk_create :: "u64 \<Rightarrow> ('h, 'z) vm_st_scheme \<Rightarrow> (u64 \<times> ('h, 'z) vm_st_scheme) res" where
  "walk_create addr s = walk_internal (root_page_table s) addr True 0 s"

definition va_avail :: "('h, 'z) vm_st_scheme \<Rightarrow> u64 \<Rightarrow> bool" where
  "va_avail s vaddr \<longleftrightarrow> (let pte = walk vaddr s in pte = 0 \<or> rd_pte s pte = 0)"

definition PROT_READ :: u32 where "PROT_READ = 1"
definition PROT_WRITE :: u32 where "PROT_WRITE = 2"
definition PROT_EXEC :: u32 where "PROT_EXEC = 4"

definition prot_to_type :: "u32 \<Rightarrow> bool \<Rightarrow> u64" where
  "prot_to_type prot user =
     (let pte = 0;
          pte = (if prot AND PROT_READ \<noteq> 0 then pte OR (PTE_R OR PTE_A) else pte);
          pte = (if prot AND PROT_WRITE \<noteq> 0 then pte OR (PTE_W OR PTE_A OR PTE_D) else pte);
          pte = (if prot AND PROT_EXEC \<noteq> 0 then pte OR (PTE_X OR PTE_A) else pte);
          pte = (if pte = 0 then PTE_R else pte)
      in if user then pte OR PTE_U else pte)"

section \<open>Finding address space\<close>

definition valid_user_range :: "('h, 'z) vm_st_scheme \<Rightarrow> u64 \<Rightarrow> u64 \<Rightarrow> bool" where
  "valid_user_range s vaddr len =
     (let last_vaddr = vaddr + len - 1
      in if last_vaddr < vaddr then False else last_vaddr < mmap_max (current s))"

text \<open>The inner loop of \<^verbatim>\<open>__vm_alloc_at\<close> scans back from the last page; the outer one restarts
  after the page that was taken.  Either may run for ever on unsuitable bounds, so both are
  partial.\<close>

partial_function (option) vm_scan_back :: "(u64 \<Rightarrow> bool) \<Rightarrow> u64 \<Rightarrow> u64 \<Rightarrow> u64 option" where
  "vm_scan_back avail first a =
     (if a > first \<and> avail a then vm_scan_back avail first (a - PGSIZE) else Some a)"

partial_function (option) vm_scan :: "(u64 \<Rightarrow> bool) \<Rightarrow> u64 \<Rightarrow> u64 \<Rightarrow> u64 \<Rightarrow> u64 option" where
  "vm_scan avail a e npage =
     (if a \<le> e
      then if \<not> avail a then vm_scan avail (a + PGSIZE) e npage
           else case vm_scan_back avail a (a + (npage - 1) * PGSIZE) of
                  None \<Rightarrow> None
                | Some b \<Rightarrow> if b > a then vm_scan avail (b + PGSIZE) e npage else Some b
      else Some 0)"

definition vm_alloc_at :: "('h, 'z) vm_st_scheme \<Rightarrow> u64 \<Rightarrow> u64 \<Rightarrow> u64 \<Rightarrow> u64 res" where
  "vm_alloc_at s start e npage =
     (case vm_scan (va_avail s) start e npage of None \<Rightarrow> Inl Diverge | Some a \<Rightarrow> Inr a)"

definition vm_alloc :: "('h, 'z) vm_st_scheme \<Rightarrow> u64 \<Rightarrow> u64 res" where
  "vm_alloc s npage =
     (let e = mmap_max (current s) - npage * PGSIZE
      in bindE (if vm_alloc_guess (current s) \<noteq> 0
                then vm_alloc_at s (vm_alloc_guess (current s)) e npage else Inr 0) (\<lambda>ret.
           if ret \<noteq> 0 then Inr ret else vm_alloc_at s (brk (current s)) e npage))"

section \<open>Page faults\<close>

definition C_EINVAL :: u64 where "C_EINVAL = 22"
definition C_EBADF :: u64 where "C_EBADF = 9"
definition C_ENOMEM :: u64 where "C_ENOMEM = 12"
definition C_EACCES :: u64 where "C_EACCES = 13"
definition C_ENOSYS :: u64 where "C_ENOSYS = 88"

text \<open>Filling the page at physical address \<open>pa\<close> from the region's file; the part past the end of
  the file is cleared through the new mapping, that is in the same page.\<close>

definition fill_from_file ::
    "'h htif \<Rightarrow> vmr_t \<Rightarrow> nat \<Rightarrow> u64 \<Rightarrow> u64 \<Rightarrow> ('h, 'z) vm_st_scheme \<Rightarrow> ('h, 'z) vm_st_scheme res" where
  "fill_from_file H v f vaddr pa s =
     (let flen = C_MIN PGSIZE (vmr_length v - (vaddr - vmr_addr v));
          (ret, s) = file_pread H f (kva2pa s (pa2kva s pa)) flen
                       (vaddr - vmr_addr v + vmr_offset v) s
      in bindE (kassert (0 < sint ret) ''ret > 0'') (\<lambda>_.
           Inr (if sint ret < 4096
                then s\<lparr>pmem := mem_fill (pmem s) (pa + ret) 0 (unat (PGSIZE - ret))\<rparr>
                else s)))"

text \<open>Bringing in the page of a promised entry (the \<^verbatim>\<open>!(*pte & PTE_V)\<close> branch).\<close>

definition demand_page ::
    "'h htif \<Rightarrow> u64 \<Rightarrow> u64 \<Rightarrow> ('h, 'z) vm_st_scheme \<Rightarrow> ('h, 'z) vm_st_scheme res" where
  "demand_page H vaddr pte s =
     bindE (page_alloc_assert s) (\<lambda>(page, s).
       let ppn = page div PGSIZE;
           v = rd_pte s pte;
           s = wr_pte pte (pte_create ppn (prot_to_type (PROT_READ OR PROT_WRITE) False)) s
       in bindE (case vmr_file (vmrs s v) of
                   None \<Rightarrow> Inr s
                 | Some f \<Rightarrow> fill_from_file H (vmrs s v) f vaddr (ppn * PGSIZE) s) (\<lambda>s.
            let s = vmr_decref H v 1 s
            in Inr (wr_pte pte (pte_create ppn (prot_to_type (vmr_prot (vmrs s v)) True)) s)))"

definition perms_allow :: "u64 \<Rightarrow> u32 \<Rightarrow> bool" where
  "perms_allow pte prot =
     (let perms = pte_create 0 (prot_to_type prot True);
          pte_perms = pte OR (if pte AND PTE_W \<noteq> 0 then PTE_R else 0)
      in pte_perms AND perms = perms)"

definition handle_page_fault_locked ::
    "'h htif \<Rightarrow> u64 \<Rightarrow> u32 \<Rightarrow> ('h, 'z) vm_st_scheme \<Rightarrow> (int \<times> ('h, 'z) vm_st_scheme) res" where
  "handle_page_fault_locked H vaddr prot s =
     (let vaddr = push_bit 12 (drop_bit 12 vaddr);
          pte = walk vaddr s
      in if pte = 0 \<or> rd_pte s pte = 0 \<or> \<not> valid_user_range s vaddr 1 then Inr (-1, s)
         else bindE (if rd_pte s pte AND PTE_V = 0 then demand_page H vaddr pte s else Inr s) (\<lambda>s.
                Inr (if perms_allow (rd_pte s pte) prot then 0 else -1, s)))"

text \<open>\<^verbatim>\<open>spinlock_lock(&vm_lock)\<close> on the one hart that runs the kernel: if the lock is held, nobody
  will ever release it.\<close>

definition with_vm_lock ::
    "(('h, 'z) vm_st_scheme \<Rightarrow> ('a \<times> ('h, 'z) vm_st_scheme) res) \<Rightarrow> ('h, 'z) vm_st_scheme
     \<Rightarrow> ('a \<times> ('h, 'z) vm_st_scheme) res" where
  "with_vm_lock body s =
     (if vm_lock s then Inl Diverge
      else bindE (body (s\<lparr>vm_lock := True\<rparr>)) (\<lambda>(r, s). Inr (r, s\<lparr>vm_lock := False\<rparr>)))"

definition handle_page_fault ::
    "'h htif \<Rightarrow> u64 \<Rightarrow> u32 \<Rightarrow> ('h, 'z) vm_st_scheme \<Rightarrow> (int \<times> ('h, 'z) vm_st_scheme) res" where
  "handle_page_fault H vaddr prot = with_vm_lock (handle_page_fault_locked H vaddr prot)"

section \<open>Mapping and unmapping\<close>

text \<open>The loop \<^verbatim>\<open>for (uintptr_t a = a0; a < end; a += RISCV_PGSIZE)\<close>.\<close>

partial_function (option) page_loop :: "(u64 \<Rightarrow> 's \<Rightarrow> 's res) \<Rightarrow> u64 \<Rightarrow> u64 \<Rightarrow> 's \<Rightarrow> 's res option" where
  "page_loop f a e s =
     (if a < e
      then case f a s of Inl x \<Rightarrow> Some (Inl x) | Inr s \<Rightarrow> page_loop f (a + PGSIZE) e s
      else Some (Inr s))"

definition for_pages :: "(u64 \<Rightarrow> 's \<Rightarrow> 's res) \<Rightarrow> u64 \<Rightarrow> u64 \<Rightarrow> 's \<Rightarrow> 's res" where
  "for_pages f a e s = finish (page_loop f a e s)"

definition munmap_page :: "'h htif \<Rightarrow> u64 \<Rightarrow> ('h, 'z) vm_st_scheme \<Rightarrow> ('h, 'z) vm_st_scheme res" where
  "munmap_page H a s =
     (let pte = walk a s
      in if pte = 0 \<or> rd_pte s pte = 0 then Inr s
         else bindE (if rd_pte s pte AND PTE_V \<noteq> 0
                     then page_free (push_bit 12 (pte_ppn (rd_pte s pte))) s
                     else Inr (vmr_decref H (rd_pte s pte) 1 s)) (\<lambda>s.
                Inr (wr_pte pte 0 s)))"

definition do_munmap_locked ::
    "'h htif \<Rightarrow> u64 \<Rightarrow> u64 \<Rightarrow> ('h, 'z) vm_st_scheme \<Rightarrow> ('h, 'z) vm_st_scheme res" where
  "do_munmap_locked H addr len = for_pages (munmap_page H) addr (addr + len)"

definition MAP_PRIVATE :: u32 where "MAP_PRIVATE = 0x2"
definition MAP_FIXED :: u32 where "MAP_FIXED = 0x10"
definition MAP_ANONYMOUS :: u32 where "MAP_ANONYMOUS = 0x20"
definition MAP_POPULATE :: u32 where "MAP_POPULATE = 0x8000"

definition mmap_page :: "'h htif \<Rightarrow> u64 \<Rightarrow> u64 \<Rightarrow> ('h, 'z) vm_st_scheme \<Rightarrow> ('h, 'z) vm_st_scheme res" where
  "mmap_page H v a s =
     bindE (walk_create a s) (\<lambda>(pte, s).
     bindE (kassert (pte \<noteq> 0) ''pte'') (\<lambda>_.
     bindE (if rd_pte s pte \<noteq> 0 then do_munmap_locked H a PGSIZE s else Inr s) (\<lambda>s.
       Inr (wr_pte pte v s))))"

definition fault_in :: "'h htif \<Rightarrow> u32 \<Rightarrow> u64 \<Rightarrow> ('h, 'z) vm_st_scheme \<Rightarrow> ('h, 'z) vm_st_scheme res" where
  "fault_in H prot a s =
     bindE (handle_page_fault_locked H a prot s) (\<lambda>(r, s).
     bindE (kassert (r = 0) ''__handle_page_fault(a, prot) == 0'') (\<lambda>_. Inr s))"

definition mmap_has_room :: "u64 \<Rightarrow> ('h, 'z) vm_st_scheme \<Rightarrow> bool" where
  "mmap_has_room npage s \<longleftrightarrow> \<not> (npage * 17 div 16 + 16 + pages_promised s \<ge> num_free_pages s)"

definition do_mmap_locked ::
    "'h htif \<Rightarrow> u64 \<Rightarrow> u64 \<Rightarrow> u32 \<Rightarrow> u32 \<Rightarrow> nat option \<Rightarrow> u64 \<Rightarrow> ('h, 'z) vm_st_scheme
     \<Rightarrow> (u64 \<times> ('h, 'z) vm_st_scheme) res" where
  "do_mmap_locked H addr len prot flags f offset s =
     (let npage = (len - 1) div PGSIZE + 1
      in if \<not> mmap_has_room npage s then Inr (- 1, s)
         else bindE
           (if flags AND MAP_FIXED \<noteq> 0
            then if addr AND (PGSIZE - 1) \<noteq> 0 \<or> \<not> valid_user_range s addr len
                 then Inr None else Inr (Some addr)
            else bindE (vm_alloc s npage) (\<lambda>a. Inr (if a = 0 then None else Some a)))
           (\<lambda>r. case r of
              None \<Rightarrow> Inr (- 1, s)
            | Some addr \<Rightarrow>
                bindE (vmr_alloc addr len f offset (ucast npage) prot s) (\<lambda>(v, s).
                if v = 0 then Inr (- 1, s)
                else bindE (for_pages (mmap_page H v) addr (addr + len) s) (\<lambda>s.
                     bindE (if \<not> demand_paging s \<or> flags AND MAP_POPULATE \<noteq> 0
                            then for_pages (fault_in H prot) addr (addr + len) s
                            else Inr s) (\<lambda>s.
                       Inr (addr, s\<lparr>current := (current s)\<lparr>vm_alloc_guess := addr + npage * PGSIZE\<rparr>\<rparr>))))))"

definition do_munmap :: "'h htif \<Rightarrow> u64 \<Rightarrow> u64 \<Rightarrow> ('h, 'z) vm_st_scheme \<Rightarrow> (u64 \<times> ('h, 'z) vm_st_scheme) res" where
  "do_munmap H addr len s =
     (if addr AND (PGSIZE - 1) \<noteq> 0 \<or> \<not> valid_user_range s addr len then Inr (- C_EINVAL, s)
      else with_vm_lock (\<lambda>s. bindE (do_munmap_locked H addr len s) (\<lambda>s. Inr (0, s))) s)"

definition do_mmap ::
    "'h htif \<Rightarrow> u64 \<Rightarrow> u64 \<Rightarrow> u32 \<Rightarrow> u32 \<Rightarrow> u32 \<Rightarrow> u64 \<Rightarrow> ('h, 'z) vm_st_scheme
     \<Rightarrow> (u64 \<times> ('h, 'z) vm_st_scheme) res" where
  "do_mmap H addr len prot flags fd offset s =
     (if flags AND MAP_PRIVATE = 0 \<or> len = 0 \<or> offset AND (PGSIZE - 1) \<noteq> 0 then Inr (- C_EINVAL, s)
      else
        let anon = (flags AND MAP_ANONYMOUS \<noteq> 0);
            (f, s) = (if anon then (None, s) else file_get (sint fd) s)
        in if \<not> anon \<and> f = None then Inr (- C_EBADF, s)
           else bindE (with_vm_lock (\<lambda>s.
                  bindE (do_mmap_locked H addr len prot flags f offset s) (\<lambda>(addr, s).
                    Inr (addr, if addr < brk_max (current s)
                               then s\<lparr>current := (current s)\<lparr>brk_max := addr\<rparr>\<rparr> else s))) s)
                (\<lambda>(addr, s). Inr (addr, case f of None \<Rightarrow> s | Some f \<Rightarrow> file_decref H f s)))"

definition do_brk_locked :: "'h htif \<Rightarrow> u64 \<Rightarrow> ('h, 'z) vm_st_scheme \<Rightarrow> (u64 \<times> ('h, 'z) vm_st_scheme) res" where
  "do_brk_locked H addr s =
     (let cur = current s in
      if addr < brk_min cur \<or> addr > brk_max cur then Inr (brk cur, s)
      else
        let newbrk = addr; newbrk_page = ROUNDUP newbrk PGSIZE
        in bindE (if brk cur > newbrk_page
                  then bindE (do_munmap_locked H newbrk_page (brk cur - newbrk_page) s) (\<lambda>s. Inr (True, s))
                  else if brk cur < newbrk_page
                  then bindE (do_mmap_locked H (brk cur) (newbrk_page - brk cur) (- 1)
                                (MAP_FIXED OR MAP_PRIVATE OR MAP_ANONYMOUS) None 0 s)
                         (\<lambda>(r, s). Inr (r = brk (current s), s))
                  else Inr (True, s)) (\<lambda>(ok, s).
             if \<not> ok then Inr (brk (current s), s)
             else Inr (newbrk, s\<lparr>current := (current s)\<lparr>brk := newbrk_page\<rparr>\<rparr>)))"

definition do_brk :: "'h htif \<Rightarrow> u64 \<Rightarrow> ('h, 'z) vm_st_scheme \<Rightarrow> (u64 \<times> ('h, 'z) vm_st_scheme) res" where
  "do_brk H addr = with_vm_lock (do_brk_locked H addr)"

definition do_mremap :: "u64 \<Rightarrow> u64 \<Rightarrow> u64 \<Rightarrow> u32 \<Rightarrow> u64" where
  "do_mremap addr old_size new_size flags = - C_ENOSYS"

section \<open>Changing protection\<close>

text \<open>One page of \<^verbatim>\<open>do_mprotect\<close>: \<open>Inl\<close> of the error that ends the loop, or the new state.\<close>

definition mprotect_page ::
    "u32 \<Rightarrow> u64 \<Rightarrow> ('h, 'z) vm_st_scheme \<Rightarrow> u64 + ('h, 'z) vm_st_scheme" where
  "mprotect_page prot a s =
     (let pte = walk a s
      in if pte = 0 \<or> rd_pte s pte = 0 then Inl (- C_ENOMEM)
         else let e = rd_pte s pte
              in if e AND PTE_V = 0
                 then let v = e; vp = vmr_prot (vmrs s v)
                      in if (vp XOR prot) AND NOT vp \<noteq> 0 then Inl (- C_EACCES)
                         else Inr (upd_vmr v (\<lambda>r. r\<lparr>vmr_prot := prot\<rparr>) s)
                 else if e AND PTE_U = 0
                      \<or> prot AND PROT_READ \<noteq> 0 \<and> e AND PTE_R = 0
                      \<or> prot AND PROT_WRITE \<noteq> 0 \<and> e AND PTE_W = 0
                      \<or> prot AND PROT_EXEC \<noteq> 0 \<and> e AND PTE_X = 0
                      then Inl (- C_EACCES)
                      else Inr (wr_pte pte (pte_create (pte_ppn e) (prot_to_type prot True)) s))"

partial_function (option) mprotect_loop ::
    "u32 \<Rightarrow> u64 \<Rightarrow> u64 \<Rightarrow> ('h, 'z) vm_st_scheme \<Rightarrow> (u64 \<times> ('h, 'z) vm_st_scheme) option" where
  "mprotect_loop prot a e s =
     (if a < e
      then case mprotect_page prot a s of
             Inl res \<Rightarrow> Some (res, s)
           | Inr s \<Rightarrow> mprotect_loop prot (a + PGSIZE) e s
      else Some (0, s))"

definition do_mprotect ::
    "u64 \<Rightarrow> u64 \<Rightarrow> u32 \<Rightarrow> ('h, 'z) vm_st_scheme \<Rightarrow> (u64 \<times> ('h, 'z) vm_st_scheme) res" where
  "do_mprotect addr len prot s =
     (if addr AND (PGSIZE - 1) \<noteq> 0 then Inr (- C_EINVAL, s)
      else with_vm_lock (\<lambda>s. case mprotect_loop prot addr (addr + len) s of
                               None \<Rightarrow> Inl Diverge | Some r \<Rightarrow> Inr r) s)"

section \<open>Setting up the kernel's mapping\<close>

definition map_kernel_page ::
    "u64 \<Rightarrow> u64 \<Rightarrow> nat \<Rightarrow> u32 \<Rightarrow> ('h, 'z) vm_st_scheme \<Rightarrow> ('h, 'z) vm_st_scheme res" where
  "map_kernel_page vaddr paddr level prot s =
     bindE (walk_internal (root_page_table s) vaddr True level s) (\<lambda>(pte, s).
     bindE (kassert (pte \<noteq> 0) ''pte'') (\<lambda>_.
       Inr (wr_pte pte (pte_create (drop_bit 12 paddr) (prot_to_type prot False)) s)))"

definition MEGAPAGE_SIZE :: u64 where "MEGAPAGE_SIZE = 0x200000"

partial_function (option) map_kernel_loop ::
    "u32 \<Rightarrow> u64 \<Rightarrow> u64 \<Rightarrow> u64 \<Rightarrow> ('h, 'z) vm_st_scheme \<Rightarrow> ('h, 'z) vm_st_scheme res option" where
  "map_kernel_loop prot vaddr paddr len s =
     (if len > 0
      then case map_kernel_page vaddr paddr 1 prot s of
             Inl x \<Rightarrow> Some (Inl x)
           | Inr s \<Rightarrow> map_kernel_loop prot (vaddr + MEGAPAGE_SIZE) (paddr + MEGAPAGE_SIZE)
                        (len - MEGAPAGE_SIZE) s
      else Some (Inr s))"

definition map_kernel_range ::
    "u64 \<Rightarrow> u64 \<Rightarrow> u64 \<Rightarrow> u32 \<Rightarrow> ('h, 'z) vm_st_scheme \<Rightarrow> ('h, 'z) vm_st_scheme res" where
  "map_kernel_range vaddr paddr len prot s =
     bindE (kassert ((vaddr OR paddr OR len) mod MEGAPAGE_SIZE = 0)
              ''(vaddr | paddr | len) % megapage_size == 0'') (\<lambda>_.
       finish (map_kernel_loop prot vaddr paddr len s))"

definition MEM_START :: u64 where "MEM_START = 0x80000000"

definition init_early_alloc :: "u64 \<Rightarrow> ('h, 'z) vm_st_scheme \<Rightarrow> ('h, 'z) vm_st_scheme" where
  "init_early_alloc last_static_addr s =
     (let user_size = - KVA_START;
          s = s\<lparr>mem_size := C_MIN (mem_size s) user_size\<rparr>;
          s = s\<lparr>current := (current s)\<lparr>mmap_max := user_size, brk_max := user_size\<rparr>\<rparr>;
          s = s\<lparr>first_free_page := ROUNDUP last_static_addr PGSIZE\<rparr>
      in s\<lparr>free_pages := (mem_size s - (first_free_page s - MEM_START)) div PGSIZE\<rparr>)"

text \<open>\<^verbatim>\<open>pk_vm_init\<close>; \<open>last_static_addr\<close> is the linker's \<^verbatim>\<open>_end\<close>.  The storage of the free list is
  as long as the allocation made for it.\<close>

definition pk_vm_init :: "u64 \<Rightarrow> ('h, 'z) vm_st_scheme \<Rightarrow> (u64 \<times> ('h, 'z) vm_st_scheme) res" where
  "pk_vm_init last_static_addr s =
     (let s = init_early_alloc last_static_addr s;
          num_freelist_nodes = mem_size s div PGSIZE;
          (storage, s) = early_alloc s (num_freelist_nodes * 8);
          s = s\<lparr>page_freelist_storage :=
                 replicate (if storage = 0 then 0 else unat num_freelist_nodes) 0\<rparr>
      in bindE (page_alloc_assert s) (\<lambda>(root, s).
         bindE (map_kernel_range KVA_START MEM_START (mem_size s)
                  (PROT_READ OR PROT_WRITE OR PROT_EXEC) (s\<lparr>root_page_table := root\<rparr>)) (\<lambda>s.
         bindE (page_alloc_assert s) (\<lambda>(stack, s).
           let s = s\<lparr>kva2pa_offset := KVA_START - MEM_START\<rparr>
           in Inr (stack + PGSIZE, s\<lparr>root_page_table := pa2kva s (root_page_table s)\<rparr>)))))"

end
