(* ===== verification/PK_PageTable.thy ===== *)
theory PK_PageTable
  imports PK_Vm
begin

text \<open>
  The page table as a tree: which table pages exist, where the entry of an address lives, and
  the fact that \<^verbatim>\<open>__walk\<close> and \<^verbatim>\<open>__walk_create\<close> find or make that entry without touching any other.
  The view of the rest of the kernel is \<open>leaf s va\<close>, the entry of a user address or 0.
\<close>

section \<open>Pages and slots\<close>

lemma aligned_nat: "p mod PGSIZE = 0 \<Longrightarrow> unat p mod 4096 = 0"
  using unat_mod_distrib [of p PGSIZE] by simp

lemma aligned_room:
  fixes n :: nat
  assumes "n mod 4096 = 0" "n < 2 ^ 64"
  shows "n + 4096 \<le> 2 ^ 64"
proof -
  from assms(1) obtain k where k: "n = 4096 * k" by (auto elim: dvdE)
  with assms(2) have "k < 2 ^ 52" by simp
  with k show ?thesis by simp
qed

lemma aligned_plus:
  assumes "p mod PGSIZE = 0" "unat d < 4096"
  shows "unat (p + d) = unat p + unat d"
  using aligned_room [OF aligned_nat [OF assms(1)] unat_u64_lt] assms(2)
  by (intro unat_u64_plus) linarith

lemma page_disjoint:
  assumes "p mod PGSIZE = 0" "q mod PGSIZE = 0" "unat (a - p) < 4096" "unat (a - q) < 4096"
  shows "p = q"
proof -
  have "unat a = unat p + unat (a - p)" "unat a = unat q + unat (a - q)"
    using aligned_plus [OF assms(1,3)] aligned_plus [OF assms(2,4)] by simp_all
  then have "(unat p + unat (a - p)) div 4096 = (unat q + unat (a - q)) div 4096" by simp
  with assms(3,4) have "unat p div 4096 = unat q div 4096"
    using aligned_nat [OF assms(1)] aligned_nat [OF assms(2)] by (auto elim!: dvdE)
  with aligned_nat [OF assms(1)] aligned_nat [OF assms(2)] have "unat p = unat q"
    by (auto elim!: dvdE)
  then show ?thesis by (simp add: word_unat_eq_iff)
qed

lemma pt_idx_take: "pt_idx va l = take_bit 9 (drop_bit (9 * l + 12) va)"
  using take_bit_eq_mask [of 9 "drop_bit (9 * l + 12) va"]
  by (simp add: pt_idx_def mask_eq_exp_minus_1)

lemma pt_idx_lt: "unat (pt_idx va l) < 512"
  unfolding pt_idx_take using take_bit_nat_less_exp [of 9 "unat (drop_bit (9 * l + 12) va)"]
  by (simp add: unsigned_take_bit_eq)

lemma slot_offset: "unat (pte_at t (pt_idx va l) - t) = 8 * unat (pt_idx va l)"
  using pt_idx_lt [of va l] by (simp add: pte_at_def unat_word_ariths)

lemma slot_in_page: "unat (pte_at t (pt_idx va l) - t) < 4096"
  using pt_idx_lt [of va l] by (simp only: slot_offset)

lemma slot_inj:
  assumes "t mod PGSIZE = 0" "u mod PGSIZE = 0"
  shows "pte_at t (pt_idx va l) = pte_at u (pt_idx va' m) \<longleftrightarrow> t = u \<and> pt_idx va l = pt_idx va' m"
proof
  assume eq: "pte_at t (pt_idx va l) = pte_at u (pt_idx va' m)"
  then have "t = u"
    using page_disjoint [OF assms slot_in_page [of t va l]] slot_in_page [of u va' m] by simp
  moreover from this eq have "8 * unat (pt_idx va l) = 8 * unat (pt_idx va' m)"
    using slot_offset [of t va l] slot_offset [of t va' m] by simp
  ultimately show "t = u \<and> pt_idx va l = pt_idx va' m" by (simp add: word_unat_eq_iff)
qed simp

text \<open>User addresses are those below \<open>mmap_max\<close>, half of the Sv39 space; within them the three
  indices determine the page.\<close>

definition user_va :: "u64 \<Rightarrow> bool" where
  "user_va va \<longleftrightarrow> va < 0x4000000000"

definition same_page :: "u64 \<Rightarrow> u64 \<Rightarrow> bool" where
  "same_page va va' \<longleftrightarrow> drop_bit 12 va = drop_bit 12 va'"

lemma user_va_bits:
  assumes "user_va va" "bit va n"
  shows "n < 38"
proof -
  have "unat va < 2 ^ 38" using assms(1) by (simp add: user_va_def word_less_nat_alt)
  then have "take_bit 38 (unat va) = unat va" by (rule take_bit_nat_eq_self)
  moreover have "bit (unat va) n" using assms(2) by (simp add: bit_unsigned_iff)
  ultimately show ?thesis by (metis bit_take_bit_iff)
qed

lemma pt_idx_page:
  assumes "user_va va" "user_va va'"
  shows "(pt_idx va 2 = pt_idx va' 2 \<and> pt_idx va 1 = pt_idx va' 1 \<and> pt_idx va 0 = pt_idx va' 0)
    \<longleftrightarrow> same_page va va'"
proof
  assume "pt_idx va 2 = pt_idx va' 2 \<and> pt_idx va 1 = pt_idx va' 1 \<and> pt_idx va 0 = pt_idx va' 0"
  then have b: "bit (pt_idx va l) n = bit (pt_idx va' l) n" if "l < 3" for l n
    using that by (auto simp: less_Suc_eq numeral_3_eq_3 numeral_2_eq_2)
  have i: "bit (pt_idx w l) n \<longleftrightarrow> n < 9 \<and> bit w (9 * l + 12 + n)" for w l n
    by (auto simp: pt_idx_take bit_take_bit_iff bit_drop_bit_eq)
  have e: "bit va (12 + n) = bit va' (12 + n)" for n
  proof (cases "n < 27")
    case True
    have "n = 9 * (n div 9) + n mod 9" by simp
    then show ?thesis
      using b [of "n div 9" "n mod 9"] True i [of va "n div 9" "n mod 9"] i [of va' "n div 9" "n mod 9"]
      by (simp add: ac_simps)
  next
    case False
    with user_va_bits [OF assms(1), of "12 + n"] user_va_bits [OF assms(2), of "12 + n"]
    show ?thesis by auto
  qed
  show "same_page va va'"
    unfolding same_page_def using e by (intro bit_word_eqI) (simp add: bit_drop_bit_eq)
next
  assume "same_page va va'"
  then have "drop_bit (9 * l) (drop_bit 12 va) = drop_bit (9 * l) (drop_bit 12 va')" for l
    by (simp add: same_page_def)
  then have "drop_bit (9 * l + 12) va = drop_bit (9 * l + 12) va'" for l
    by (simp add: drop_bit_drop_bit)
  then show "pt_idx va 2 = pt_idx va' 2 \<and> pt_idx va 1 = pt_idx va' 1 \<and> pt_idx va 0 = pt_idx va' 0"
    by (simp only: pt_idx_def)
qed

section \<open>The tree\<close>

definition child :: "u64 \<Rightarrow> u64" where
  "child e = push_bit 12 (pte_ppn e)"

definition root_pa :: "('h, 'z) vm_st_scheme \<Rightarrow> u64" where
  "root_pa s = kva2pa s (root_page_table s)"

definition slot2 :: "('h, 'z) vm_st_scheme \<Rightarrow> u64 \<Rightarrow> u64" where
  "slot2 s va = pte_at (root_pa s) (pt_idx va 2)"

definition tab1 :: "('h, 'z) vm_st_scheme \<Rightarrow> u64 \<Rightarrow> u64 option" where
  "tab1 s va = (let e = ptes s (slot2 s va) in if e AND PTE_V = 0 then None else Some (child e))"

definition tab0 :: "('h, 'z) vm_st_scheme \<Rightarrow> u64 \<Rightarrow> u64 option" where
  "tab0 s va = (case tab1 s va of
       None \<Rightarrow> None
     | Some t \<Rightarrow> let e = ptes s (pte_at t (pt_idx va 1)) in if e AND PTE_V = 0 then None else Some (child e))"

definition leaf_slot :: "('h, 'z) vm_st_scheme \<Rightarrow> u64 \<Rightarrow> u64 option" where
  "leaf_slot s va = map_option (\<lambda>t. pte_at t (pt_idx va 0)) (tab0 s va)"

definition leaf :: "('h, 'z) vm_st_scheme \<Rightarrow> u64 \<Rightarrow> u64" where
  "leaf s va = (case leaf_slot s va of None \<Rightarrow> 0 | Some a \<Rightarrow> ptes s a)"

lemma RISCV_PGLEVELS: "RISCV_PGLEVELS = 3"
  by (simp add: RISCV_PGLEVELS_def VA_BITS_def)

lemma kva2pa_pa2kva [simp]: "kva2pa s (pa2kva s a) = a" "pa2kva s (kva2pa s a) = a"
  by (simp_all add: kva2pa_def pa2kva_def)

lemma pte_at_kva: "pte_at (pa2kva s t) i = pa2kva s (pte_at t i)"
  by (simp add: pte_at_def pa2kva_def)

lemma root_kva: "root_page_table s = pa2kva s (root_pa s)"
  by (simp add: root_pa_def)

lemma walk_reads:
  "walk_internal (root_page_table s) va False 0 s =
     Inr (case leaf_slot s va of None \<Rightarrow> 0 | Some a \<Rightarrow> pa2kva s a, s)"
  unfolding walk_internal_def RISCV_PGLEVELS root_kva
  by (simp add: walk_down.simps [of _ _ _ _ _ s] pte_at_kva rd_pte_def leaf_slot_def tab0_def tab1_def
      slot2_def child_def Let_def numeral_2_eq_2)

lemma walk_slot: "walk va s = (case leaf_slot s va of None \<Rightarrow> 0 | Some a \<Rightarrow> pa2kva s a)"
  by (simp add: walk_def walk_reads)

section \<open>Well-formed tables\<close>

text \<open>
  Every table page is in use; the root, the second-level pages and the pages that hold user
  entries are pairwise different, and so are the tables of different index prefixes.
\<close>

definition same1 :: "u64 \<Rightarrow> u64 \<Rightarrow> bool" where
  "same1 va va' \<longleftrightarrow> pt_idx va 2 = pt_idx va' 2"

definition same0 :: "u64 \<Rightarrow> u64 \<Rightarrow> bool" where
  "same0 va va' \<longleftrightarrow> same1 va va' \<and> pt_idx va 1 = pt_idx va' 1"

definition pt_ok :: "('h, 'z) vm_st_scheme \<Rightarrow> bool" where
  "pt_ok s \<longleftrightarrow>
     page_ok s \<and> root_pa s \<in> used_pages s
     \<and> (\<forall>va t. tab1 s va = Some t \<longrightarrow> t \<in> used_pages s \<and> t \<noteq> root_pa s)
     \<and> (\<forall>va va' t. tab1 s va = Some t \<longrightarrow> tab1 s va' = Some t \<longrightarrow> same1 va va')
     \<and> (\<forall>va t. user_va va \<longrightarrow> tab0 s va = Some t \<longrightarrow>
          t \<in> used_pages s \<and> t \<noteq> root_pa s \<and> (\<forall>va'. tab1 s va' \<noteq> Some t))
     \<and> (\<forall>va va' t. user_va va \<longrightarrow> user_va va' \<longrightarrow> tab0 s va = Some t \<longrightarrow> tab0 s va' = Some t \<longrightarrow> same0 va va')"

definition table_pages :: "('h, 'z) vm_st_scheme \<Rightarrow> u64 set" where
  "table_pages s = {root_pa s} \<union> {t. \<exists>va. tab1 s va = Some t} \<union> {t. \<exists>va. user_va va \<and> tab0 s va = Some t}"

lemma table_pages_used: "pt_ok s \<Longrightarrow> table_pages s \<subseteq> used_pages s"
  by (auto simp: pt_ok_def table_pages_def)

lemma pt_okD:
  assumes "pt_ok s"
  shows "page_ok s" "root_pa s \<in> used_pages s"
    "tab1 s va = Some t \<Longrightarrow> t \<in> used_pages s" "tab1 s va = Some t \<Longrightarrow> t \<noteq> root_pa s"
    "tab1 s va = Some t \<Longrightarrow> tab1 s va' = Some t \<Longrightarrow> same1 va va'"
    "user_va va \<Longrightarrow> tab0 s va = Some t \<Longrightarrow> t \<in> used_pages s"
    "user_va va \<Longrightarrow> tab0 s va = Some t \<Longrightarrow> t \<noteq> root_pa s"
    "user_va va \<Longrightarrow> tab0 s va = Some t \<Longrightarrow> tab1 s va' \<noteq> Some t"
    "user_va va \<Longrightarrow> user_va va' \<Longrightarrow> tab0 s va = Some t \<Longrightarrow> tab0 s va' = Some t \<Longrightarrow> same0 va va'"
  using assms unfolding pt_ok_def by blast+

lemma used_aligned: "page_ok s \<Longrightarrow> p \<in> used_pages s \<Longrightarrow> p mod PGSIZE = 0"
  by (rule used_page_props(2))

lemma used_slot_inj:
  "page_ok s \<Longrightarrow> t \<in> used_pages s \<Longrightarrow> u \<in> used_pages s \<Longrightarrow>
   pte_at t (pt_idx va l) = pte_at u (pt_idx va' m) \<longleftrightarrow> t = u \<and> pt_idx va l = pt_idx va' m"
  by (intro slot_inj used_aligned)

text \<open>A state change that leaves the entries of all table pages alone leaves the tree alone.\<close>

definition tree_frame :: "('h, 'z) vm_st_scheme \<Rightarrow> ('h, 'z) vm_st_scheme \<Rightarrow> bool" where
  "tree_frame s s' \<longleftrightarrow> root_pa s' = root_pa s \<and> kva2pa_offset s' = kva2pa_offset s
     \<and> (\<forall>t \<in> table_pages s. \<forall>va l. ptes s' (pte_at t (pt_idx va l)) = ptes s (pte_at t (pt_idx va l)))"

lemma tree_frame_tab1: "tree_frame s s' \<Longrightarrow> tab1 s' va = tab1 s va"
  by (simp add: tree_frame_def tab1_def slot2_def table_pages_def)

lemma tree_frame_tab0:
  assumes "tree_frame s s'"
  shows "tab0 s' va = tab0 s va"
proof (cases "tab1 s va")
  case None
  with tree_frame_tab1 [OF assms, of va] show ?thesis by (simp add: tab0_def)
next
  case (Some t)
  then have "t \<in> table_pages s" by (auto simp: table_pages_def)
  with assms have "ptes s' (pte_at t (pt_idx va 1)) = ptes s (pte_at t (pt_idx va 1))"
    by (simp add: tree_frame_def)
  with Some tree_frame_tab1 [OF assms, of va] show ?thesis by (simp add: tab0_def)
qed

lemma tree_frame_leaf:
  assumes "tree_frame s s'" "user_va va"
  shows "leaf_slot s' va = leaf_slot s va" "leaf s' va = leaf s va"
proof -
  show e: "leaf_slot s' va = leaf_slot s va" by (simp add: leaf_slot_def tree_frame_tab0 [OF assms(1)])
  show "leaf s' va = leaf s va"
  proof (cases "tab0 s va")
    case None
    then show ?thesis by (simp add: leaf_def e) (simp add: leaf_slot_def)
  next
    case (Some t)
    with assms(2) have "t \<in> table_pages s" by (auto simp: table_pages_def)
    with assms(1) have "ptes s' (pte_at t (pt_idx va 0)) = ptes s (pte_at t (pt_idx va 0))"
      by (simp add: tree_frame_def)
    with Some show ?thesis by (simp add: leaf_def e) (simp add: leaf_slot_def)
  qed
qed

lemma pt_ok_frame:
  assumes "pt_ok s" "tree_frame s s'" "page_ok s'" "table_pages s \<subseteq> used_pages s'"
  shows "pt_ok s'"
proof -
  have t1: "tab1 s' = tab1 s" using tree_frame_tab1 [OF assms(2)] by (intro ext)
  have t0: "tab0 s' = tab0 s" using tree_frame_tab0 [OF assms(2)] by (intro ext)
  have r: "root_pa s' = root_pa s" using assms(2) by (simp add: tree_frame_def)
  have in_used: "root_pa s \<in> used_pages s'" "\<And>va t. tab1 s va = Some t \<Longrightarrow> t \<in> used_pages s'"
    "\<And>va t. user_va va \<Longrightarrow> tab0 s va = Some t \<Longrightarrow> t \<in> used_pages s'"
    using assms(4) by (auto simp: table_pages_def)
  show ?thesis
    unfolding pt_ok_def t1 t0 r using in_used pt_okD [OF assms(1)] assms(3) by blast
qed

lemma table_pages_frame: "tree_frame s s' \<Longrightarrow> table_pages s' = table_pages s"
  by (simp add: table_pages_def tree_frame_tab1 tree_frame_tab0) (simp add: tree_frame_def)

section \<open>Writing an entry\<close>

lemma same1_tab1: "same1 va va' \<Longrightarrow> tab1 s va = tab1 s va'"
  by (simp add: same1_def tab1_def slot2_def)

lemma same0_tab0: "same0 va va' \<Longrightarrow> tab0 s va = tab0 s va'"
  using same1_tab1 [of va va' s] by (simp only: same0_def tab0_def)

lemma page_ok_ptes [simp]:
  "page_ok (s\<lparr>ptes := x\<rparr>) = page_ok s" "used_pages (s\<lparr>ptes := x\<rparr>) = used_pages s"
  "free_count (s\<lparr>ptes := x\<rparr>) = free_count s"
  by (simp_all add: page_ok_def used_pages_def free_count_def freelist_def bump_pages_def free_page_addr_def)

lemma root_pa_ptes [simp]: "root_pa (s\<lparr>ptes := x\<rparr>) = root_pa s"
  by (simp add: root_pa_def kva2pa_def)

lemma leaf_slotE:
  assumes "leaf_slot s va = Some a"
  obtains t where "tab0 s va = Some t" "a = pte_at t (pt_idx va 0)"
  using assms by (auto simp: leaf_slot_def)

lemma leaf_write:
  fixes x :: u64
  assumes "pt_ok s" "user_va va" "leaf_slot s va = Some a"
  defines "s' \<equiv> s\<lparr>ptes := (ptes s)(a := x)\<rparr>"
  shows "pt_ok s'" "tab1 s' = tab1 s" "tab0 s' = tab0 s"
    "user_va va' \<Longrightarrow> leaf s' va' = (if same_page va va' then x else leaf s va')"
proof -
  obtain t where t: "tab0 s va = Some t" "a = pte_at t (pt_idx va 0)"
    using leaf_slotE [OF assms(3)] .
  note D = pt_okD [OF assms(1)]
  have tu: "t \<in> used_pages s" using D(6) [OF assms(2) t(1)] .
  have n2: "a \<noteq> slot2 s w" for w
    using used_slot_inj [OF D(1) tu D(2)] D(7) [OF assms(2) t(1)] by (simp add: t(2) slot2_def)
  show t1: "tab1 s' = tab1 s"
    using n2 [symmetric] by (intro ext) (simp add: tab1_def slot2_def s'_def)
  have n1: "a \<noteq> pte_at u (pt_idx w l)" if "tab1 s v = Some u" for u v w l
    using used_slot_inj [OF D(1) tu D(3) [OF that]] D(8) [OF assms(2) t(1), of v] that by (auto simp: t(2))
  show t0: "tab0 s' = tab0 s"
  proof
    fix w
    show "tab0 s' w = tab0 s w"
    proof (cases "tab1 s w")
      case (Some u)
      with n1 [OF Some, of w 1, symmetric] show ?thesis by (simp add: tab0_def t1) (simp add: s'_def)
    qed (simp add: tab0_def t1)
  qed
  have "root_pa s' = root_pa s" "page_ok s'" "used_pages s' = used_pages s" using D(1) by (simp_all add: s'_def)
  with assms(1) show "pt_ok s'" unfolding pt_ok_def t1 t0 by simp
  show "leaf s' va' = (if same_page va va' then x else leaf s va')" if u: "user_va va'"
  proof (cases "tab0 s va'")
    case None
    have "\<not> same_page va va'"
    proof
      assume "same_page va va'"
      then have "same0 va va'" using pt_idx_page [OF assms(2) u] by (simp add: same0_def same1_def)
      with same0_tab0 [of va va' s] t(1) None show False by simp
    qed
    with None show ?thesis by (simp add: leaf_def leaf_slot_def t0)
  next
    case (Some t')
    have "a = pte_at t' (pt_idx va' 0) \<longleftrightarrow> same_page va va'"
    proof
      assume "a = pte_at t' (pt_idx va' 0)"
      then have e: "t = t'" "pt_idx va 0 = pt_idx va' 0"
        using used_slot_inj [OF D(1) tu D(6) [OF u Some]] by (simp_all add: t(2))
      then have "same0 va va'" using D(9) [OF assms(2) u t(1)] Some by simp
      with e pt_idx_page [OF assms(2) u] show "same_page va va'" by (simp add: same0_def same1_def)
    next
      assume "same_page va va'"
      then have "same0 va va'" "pt_idx va 0 = pt_idx va' 0"
        using pt_idx_page [OF assms(2) u] by (simp_all add: same0_def same1_def)
      with same0_tab0 [of va va' s] t Some show "a = pte_at t' (pt_idx va' 0)" by simp
    qed
    with Some show ?thesis by (simp add: leaf_def leaf_slot_def t0) (simp add: s'_def eq_commute)
  qed
qed

section \<open>Making tables\<close>

lemma vm_fields:
  fixes s s' :: "('h, 'z) vm_st_scheme"
  assumes "page_st.more s' = page_st.more s"
  shows "kva2pa_offset s' = kva2pa_offset s" "vmr_freelist_head s' = vmr_freelist_head s" "vmrs s' = vmrs s"
    "root_page_table s' = root_page_table s" "vm_lock s' = vm_lock s" "pages_promised s' = pages_promised s"
    "demand_paging s' = demand_paging s" "mem_size s' = mem_size s" "current s' = current s"
    "vm_st.more s' = vm_st.more s"
  using assms by (cases s rule: vm_st.cases_scheme; cases s' rule: vm_st.cases_scheme; simp)+

text \<open>What allocating and linking tables may do to the state.\<close>

definition grows :: "('h, 'z) vm_st_scheme \<Rightarrow> ('h, 'z) vm_st_scheme \<Rightarrow> bool" where
  "grows s s' \<longleftrightarrow>
     pt_ok s' \<and> page_st.more s' = page_st.more s
     \<and> first_free_page s' = first_free_page s \<and> free_pages s' = free_pages s \<and> host s' = host s \<and> fds s' = fds s \<and> files s' = files s
     \<and> used_pages s \<subseteq> used_pages s' \<and> table_pages s' = table_pages s \<union> (used_pages s' - used_pages s)
     \<and> (\<forall>va t. tab1 s va = Some t \<longrightarrow> tab1 s' va = Some t)
     \<and> (\<forall>va t. user_va va \<longrightarrow> tab0 s va = Some t \<longrightarrow> tab0 s' va = Some t)
     \<and> (\<forall>va. user_va va \<longrightarrow> leaf s' va = leaf s va)
     \<and> (\<forall>q \<in> used_pages s. \<forall>a. unat (a - q) < 4096 \<longrightarrow> pmem s' a = pmem s a)"

lemma grows_refl: "pt_ok s \<Longrightarrow> grows s s"
  by (simp add: grows_def)

lemma grows_trans: "grows s t \<Longrightarrow> grows t u \<Longrightarrow> grows s u"
proof -
  assume *: "grows s t" "grows t u"
  have "table_pages u = table_pages s \<union> (used_pages u - used_pages s)" "used_pages s \<subseteq> used_pages u"
    using * unfolding grows_def by auto
  moreover have "\<forall>q \<in> used_pages s. \<forall>a. unat (a - q) < 4096 \<longrightarrow> pmem u a = pmem s a"
    using * unfolding grows_def by (metis subsetD)
  ultimately show ?thesis using * unfolding grows_def by simp
qed

lemma alloc_fresh:
  fixes s :: "('h, 'z) vm_st_scheme"
  assumes "pt_ok s" "0 < free_count s"
  obtains p s' where "page_alloc s = Inr (p, s')" "p \<noteq> 0" "p \<notin> used_pages s" "p mod PGSIZE = 0"
    "page_ok s'" "used_pages s' = insert p (used_pages s)" "Suc (free_count s') = free_count s"
    "tree_frame s s'" "pt_ok s'" "page_st.more s' = page_st.more s"
    "first_free_page s' = first_free_page s" "free_pages s' = free_pages s" "host s' = host s" "fds s' = fds s"
    "files s' = files s" "\<forall>a. unat (a - p) < 4096 \<longrightarrow> ptes s' a = 0 \<and> pmem s' a = 0"
    "\<forall>q \<in> used_pages s. \<forall>a. unat (a - q) < 4096 \<longrightarrow> pmem s' a = pmem s a \<and> ptes s' a = ptes s a"
proof -
  note D = pt_okD [OF assms(1)]
  from page_alloc_some [OF D(1) assms(2)] obtain p t where p: "page_alloc s = Inr (p, zero_page p t)"
    "p \<notin> used_pages s" "page_step s (insert p (used_pages s)) (free_count s - 1) 0 t" .
  then have t: "page_ok t" "p \<in> used_pages t" "used_pages t = insert p (used_pages s)" "page_frame s t"
    "Suc (free_count t) = free_count s" using assms(2) by (simp_all add: page_step_def)
  note P = used_page_props [OF t(1,2)]
  note F = page_frame_fields [OF t(4)]
  let ?s = "zero_page p t"
  have more: "page_st.more ?s = page_st.more s" by (simp add: zero_page_def F)
  have other: "\<not> unat (a - p) < 4096" if "q \<in> used_pages s" "unat (a - q) < 4096" for q a
    using page_disjoint [OF P(2) used_aligned [OF D(1) that(1)], of a] that p(2) by blast
  have old: "pmem ?s a = pmem s a \<and> ptes ?s a = ptes s a" if "q \<in> used_pages s" "unat (a - q) < 4096" for q a
    using other [OF that] by (simp add: zero_page_def mem_fill_def F)
  have tf: "tree_frame s ?s"
    unfolding tree_frame_def
  proof (intro conjI ballI allI)
    show "root_pa ?s = root_pa s" "kva2pa_offset ?s = kva2pa_offset s"
      using vm_fields [OF more] by (simp_all add: root_pa_def kva2pa_def)
    fix u va l
    assume "u \<in> table_pages s"
    then have "u \<in> used_pages s" using table_pages_used [OF assms(1)] by blast
    from old [OF this slot_in_page] show "ptes ?s (pte_at u (pt_idx va l)) = ptes s (pte_at u (pt_idx va l))"
      by simp
  qed
  have "pt_ok ?s"
    using pt_ok_frame [OF assms(1) tf] table_pages_used [OF assms(1)] t by auto
  moreover have "ptes ?s a = 0 \<and> pmem ?s a = 0" if "unat (a - p) < 4096" for a
    using that by (simp add: zero_page_def mem_fill_def)
  moreover have "host ?s = host s" "fds ?s = fds s" "files ?s = files s"
    "first_free_page ?s = first_free_page s" "free_pages ?s = free_pages s"
    by (simp_all add: zero_page_def F)
  ultimately show ?thesis
    using p(1,2) t(1,3,5) P(1,2) tf more old by (intro that [of p ?s]) simp_all
qed

text \<open>An entry made by \<^const>\<open>pte_create\<close> leads back to the page it was made for.\<close>

lemma pte_create_child:
  assumes "p mod PGSIZE = 0" "\<And>n. bit type n \<Longrightarrow> n < 10"
  shows "child (pte_create (ppn p) type) = p" "pte_create (ppn p) type AND PTE_V \<noteq> 0"
    "pte_create (ppn p) type \<noteq> 0"
proof -
  have low: "12 \<le> n" if "bit p n" for n
  proof (rule ccontr)
    assume "\<not> 12 \<le> n"
    then have "bit (take_bit 12 p) n = bit p n" by (simp add: bit_take_bit_iff)
    moreover have "take_bit 12 p = 0" using assms(1) by (simp only: take_bit_eq_mod) simp
    ultimately show False using that by simp
  qed
  have split: "bit p (12 + (n - 12)) = bit p n" if "bit p n \<or> 12 \<le> n" for n
    using that low [of n] by auto
  have ty: "\<not> bit type (10 + n)" for n using assms(2) [of "10 + n"] by auto
  show "child (pte_create (ppn p) type) = p"
    by (rule bit_word_eqI)
      (auto simp: child_def pte_create_def pte_ppn_def ppn_def PTE_V_def bit_simps
        split ty dest: low bit_imp_le_length)
  have "bit (pte_create (ppn p) type AND PTE_V) 0"
    by (simp add: pte_create_def PTE_V_def bit_simps)
  then show "pte_create (ppn p) type AND PTE_V \<noteq> 0" by auto
  then show "pte_create (ppn p) type \<noteq> 0" by auto
qed

lemma ptd_create_child:
  assumes "p mod PGSIZE = 0"
  shows "child (ptd_create (ppn p)) = p" "ptd_create (ppn p) AND PTE_V \<noteq> 0"
proof -
  have "n < 10" if "bit PTE_V n" for n using that by (cases n) (simp_all add: PTE_V_def bit_simps)
  from pte_create_child [OF assms this]
  show "child (ptd_create (ppn p)) = p" "ptd_create (ppn p) AND PTE_V \<noteq> 0"
    by (simp_all add: ptd_create_def)
qed

lemma add_tab1:
  fixes s :: "('h, 'z) vm_st_scheme"
  assumes "pt_ok s" "tab1 s va = None" "0 < free_count s"
  obtains p s' where "page_alloc s = Inr (p, s')" "p \<noteq> 0"
    "grows s (s'\<lparr>ptes := (ptes s')(slot2 s va := ptd_create (ppn p))\<rparr>)"
    "Suc (free_count s') = free_count s"
    "tab1 (s'\<lparr>ptes := (ptes s')(slot2 s va := ptd_create (ppn p))\<rparr>) va = Some p"
    "tab0 (s'\<lparr>ptes := (ptes s')(slot2 s va := ptd_create (ppn p))\<rparr>) va = None"
proof -
  obtain p s' where p: "page_alloc s = Inr (p, s')" "p \<noteq> 0"
    "p \<notin> used_pages s" "p mod PGSIZE = 0" "page_ok s'" "used_pages s' = insert p (used_pages s)"
    and fc: "Suc (free_count s') = free_count s" and tf: "tree_frame s s'" and ok': "pt_ok s'"
    and same: "page_st.more s' = page_st.more s"
      "first_free_page s' = first_free_page s" "free_pages s' = free_pages s" "host s' = host s" "fds s' = fds s" "files s' = files s"
    and z: "\<forall>a. unat (a - p) < 4096 \<longrightarrow> ptes s' a = 0 \<and> pmem s' a = 0"
    and o: "\<forall>q \<in> used_pages s. \<forall>a. unat (a - q) < 4096 \<longrightarrow> pmem s' a = pmem s a \<and> ptes s' a = ptes s a"
    by (rule alloc_fresh [OF assms(1,3)])
  note zero = z [rule_format, THEN conjunct1] and old = o [rule_format]
  note D = pt_okD [OF assms(1)]
  let ?u = "s'\<lparr>ptes := (ptes s')(slot2 s va := ptd_create (ppn p))\<rparr>"
  have r: "root_pa ?u = root_pa s" using tf by (simp add: tree_frame_def)
  have t1: "tab1 ?u w = (if same1 va w then Some p else tab1 s w)" for w
  proof -
    have "slot2 s va = slot2 s w \<longleftrightarrow> same1 va w"
      using used_slot_inj [OF D(1,2,2)] by (simp add: slot2_def same1_def)
    moreover have "slot2 ?u w = slot2 s w" unfolding slot2_def using r by (simp add: slot2_def)
    moreover have "ptes s' (slot2 s w) = ptes s (slot2 s w)"
      using old [OF D(2) slot_in_page] by (simp add: slot2_def)
    ultimately have "ptes ?u (slot2 ?u w) = (if same1 va w then ptd_create (ppn p) else ptes s (slot2 s w))"
      by (simp add: eq_commute)
    with ptd_create_child [OF p(4)] show ?thesis by (simp add: tab1_def Let_def)
  qed
  have pr: "p \<noteq> root_pa s" using D(2) p(3) by blast
  have pt1: "tab1 s w \<noteq> Some p" for w using D(3) p(3) by blast
  have t0: "tab0 ?u w = (if same1 va w then None else tab0 s w)" for w
  proof (cases "same1 va w")
    case True
    have "slot2 s va \<noteq> pte_at p (pt_idx w 1)"
      using slot_inj [OF p(4) used_aligned [OF D(1,2)]] pr by (metis slot2_def)
    with True show ?thesis using zero [OF slot_in_page [of p w 1]] by (simp add: tab0_def t1)
  next
    case False
    show ?thesis
    proof (cases "tab1 s w")
      case (Some v)
      have "slot2 s va \<noteq> pte_at v (pt_idx w 1)"
        using used_slot_inj [OF D(1) D(3) [OF Some] D(2)] D(4) [OF Some] by (metis slot2_def)
      moreover have "ptes s' (pte_at v (pt_idx w 1)) = ptes s (pte_at v (pt_idx w 1))"
        using old [OF D(3) [OF Some] slot_in_page] by blast
      ultimately show ?thesis using False Some by (simp add: tab0_def t1)
    qed (use False in \<open>simp add: tab0_def t1\<close>)
  qed
  have n0: "tab0 s w = None" if "same1 va w" for w
    using same1_tab1 [OF that, of s] assms(2) by (simp add: tab0_def)
  then have t0': "tab0 ?u = tab0 s" using t0 by (intro ext) auto
  have pt0: "tab0 s w \<noteq> Some p" if "user_va w" for w using D(6) [OF that] p(3) by blast
  have ok: "pt_ok ?u"
    unfolding pt_ok_def t0' r
  proof (intro conjI allI impI)
    show "page_ok ?u" "root_pa s \<in> used_pages ?u" using p(5,6) D(2) by simp_all
    fix w v
    show "tab1 ?u w = Some v \<Longrightarrow> v \<in> used_pages ?u" "tab1 ?u w = Some v \<Longrightarrow> v \<noteq> root_pa s"
      using D(3,4) [of w v] p(6) pr by (auto simp: t1 split: if_splits)
    show "tab1 ?u w = Some v \<Longrightarrow> tab1 ?u w' = Some v \<Longrightarrow> same1 w w'" for w'
      using D(5) [of w v w'] pt1 by (auto simp: t1 same1_def split: if_splits)
    assume w: "user_va w" and v: "tab0 s w = Some v"
    show "v \<in> used_pages ?u" "v \<noteq> root_pa s" using D(6,7) [OF w v] p(6) by simp_all
    show "tab1 ?u w' \<noteq> Some v" for w' using D(8) [OF w v, of w'] pt0 [OF w] v by (auto simp: t1)
    show "same0 w w'" if "user_va w'" "tab0 s w' = Some v" for w' using D(9) [OF w that(1) v that(2)] .
  qed
  have lf: "leaf ?u w = leaf s w" if w: "user_va w" for w
  proof (cases "tab0 s w")
    case (Some v)
    have "slot2 s va \<noteq> pte_at v (pt_idx w 0)"
      using used_slot_inj [OF D(1) D(6) [OF w Some] D(2)] D(7) [OF w Some] by (metis slot2_def)
    moreover have "ptes s' (pte_at v (pt_idx w 0)) = ptes s (pte_at v (pt_idx w 0))"
      using old [OF D(6) [OF w Some] slot_in_page] by blast
    ultimately show ?thesis using Some by (simp add: leaf_def leaf_slot_def t0')
  qed (simp add: leaf_def leaf_slot_def t0')
  have keep: "tab1 ?u w = Some v" if "tab1 s w = Some v" for w v
    using that assms(2) same1_tab1 [of va w s] by (auto simp: t1)
  have "table_pages ?u = insert p (table_pages s)"
  proof -
    have "{t. \<exists>w. tab1 ?u w = Some t} = insert p {t. \<exists>w. tab1 s w = Some t}"
    proof -
      have "t = p \<or> tab1 s w = Some t" if "tab1 ?u w = Some t" for w t
        using that by (simp add: t1 split: if_splits)
      moreover have "tab1 ?u va = Some p" by (simp add: t1 same1_def)
      ultimately show ?thesis using keep by blast
    qed
    then show ?thesis unfolding table_pages_def t0' r by blast
  qed
  moreover have "\<forall>q \<in> used_pages s. \<forall>a. unat (a - q) < 4096 \<longrightarrow> pmem ?u a = pmem s a"
    using old by simp
  moreover have "page_st.more ?u = page_st.more s"
    "first_free_page ?u = first_free_page s" "free_pages ?u = free_pages s" "host ?u = host s" "fds ?u = fds s" "files ?u = files s"
    using same by simp_all
  moreover have "used_pages ?u = insert p (used_pages s)" using p(6) by simp
  ultimately have "grows s ?u"
    unfolding grows_def using ok lf p(3) keep by (auto simp: t0')
  moreover have "tab1 ?u va = Some p" "tab0 ?u va = None" using n0 [of va] by (simp_all add: t1 t0' same1_def)
  ultimately show ?thesis using that [of p s'] p(1,2) fc by blast
qed

lemma add_tab0:
  fixes s :: "('h, 'z) vm_st_scheme"
  assumes "pt_ok s" "user_va va" "tab1 s va = Some u" "tab0 s va = None" "0 < free_count s"
  defines "e \<equiv> pte_at u (pt_idx va 1)"
  obtains p s' where "page_alloc s = Inr (p, s')" "p \<noteq> 0"
    "grows s (s'\<lparr>ptes := (ptes s')(e := ptd_create (ppn p))\<rparr>)"
    "Suc (free_count s') = free_count s"
    "tab0 (s'\<lparr>ptes := (ptes s')(e := ptd_create (ppn p))\<rparr>) va = Some p"
proof -
  obtain p s' where p: "page_alloc s = Inr (p, s')" "p \<noteq> 0"
    "p \<notin> used_pages s" "p mod PGSIZE = 0" "page_ok s'" "used_pages s' = insert p (used_pages s)"
    and fc: "Suc (free_count s') = free_count s" and tf: "tree_frame s s'" and ok': "pt_ok s'"
    and same: "page_st.more s' = page_st.more s"
      "first_free_page s' = first_free_page s" "free_pages s' = free_pages s" "host s' = host s" "fds s' = fds s" "files s' = files s"
    and z: "\<forall>a. unat (a - p) < 4096 \<longrightarrow> ptes s' a = 0 \<and> pmem s' a = 0"
    and o: "\<forall>q \<in> used_pages s. \<forall>a. unat (a - q) < 4096 \<longrightarrow> pmem s' a = pmem s a \<and> ptes s' a = ptes s a"
    by (rule alloc_fresh [OF assms(1,5)])
  note zero = z [rule_format, THEN conjunct1] and old = o [rule_format]
  note D = pt_okD [OF assms(1)]
  let ?s = "s'\<lparr>ptes := (ptes s')(e := ptd_create (ppn p))\<rparr>"
  have r: "root_pa ?s = root_pa s" using tf by (simp add: tree_frame_def)
  have uu: "u \<in> used_pages s" "u \<noteq> root_pa s" using D(3,4) [OF assms(3)] by simp_all
  have pt1: "tab1 s w \<noteq> Some p" for w using D(3) p(3) by blast
  have pt0: "tab0 s w \<noteq> Some p" if "user_va w" for w using D(6) [OF that] p(3) by blast
  have pu: "p \<noteq> u" "p \<noteq> root_pa s" using uu(1) D(2) p(3) by blast+
  have t1: "tab1 ?s = tab1 s"
  proof
    fix w
    have "slot2 s w \<noteq> e"
      using used_slot_inj [OF D(1) uu(1) D(2)] uu(2) unfolding e_def slot2_def by metis
    moreover have "slot2 ?s w = slot2 s w" unfolding slot2_def using r by (simp add: e_def)
    moreover have "ptes s' (slot2 s w) = ptes s (slot2 s w)"
      using old [OF D(2) slot_in_page] by (simp add: slot2_def)
    ultimately have "ptes ?s (slot2 ?s w) = ptes s (slot2 s w)" by simp
    then show "tab1 ?s w = tab1 s w" by (simp only: tab1_def)
  qed
  have t0: "tab0 ?s w = (if same0 va w then Some p else tab0 s w)" for w
  proof (cases "tab1 s w")
    case None
    then have "\<not> same0 va w" using same1_tab1 [of va w s] assms(3) by (auto simp: same0_def)
    with None show ?thesis by (simp add: tab0_def t1)
  next
    case (Some v)
    have vu: "v \<in> used_pages s" using D(3) [OF Some] .
    have "e = pte_at v (pt_idx w 1) \<longleftrightarrow> same0 va w"
    proof
      assume "e = pte_at v (pt_idx w 1)"
      then have "u = v" "pt_idx va 1 = pt_idx w 1"
        using used_slot_inj [OF D(1) uu(1) vu] by (simp_all only: e_def)
      with D(5) [OF assms(3)] Some show "same0 va w" by (simp add: same0_def)
    next
      assume "same0 va w"
      with same1_tab1 [of va w s] assms(3) Some show "e = pte_at v (pt_idx w 1)"
        by (simp add: same0_def e_def)
    qed
    moreover have "ptes s' (pte_at v (pt_idx w 1)) = ptes s (pte_at v (pt_idx w 1))"
      using old [OF vu slot_in_page] by blast
    ultimately have "ptes ?s (pte_at v (pt_idx w 1))
        = (if same0 va w then ptd_create (ppn p) else ptes s (pte_at v (pt_idx w 1)))"
      by (simp add: eq_commute)
    with ptd_create_child [OF p(4)] Some show ?thesis by (simp add: tab0_def t1 Let_def)
  qed
  have keep: "tab0 ?s w = Some v" if "tab0 s w = Some v" for w v
    using that assms(4) same0_tab0 [of va w s] by (auto simp: t0)
  have ok: "pt_ok ?s"
    unfolding pt_ok_def t1 r
  proof (intro conjI allI impI)
    show "page_ok ?s" "root_pa s \<in> used_pages ?s" using p(5,6) D(2) by simp_all
    fix w v
    show "tab1 s w = Some v \<Longrightarrow> v \<in> used_pages ?s" "tab1 s w = Some v \<Longrightarrow> v \<noteq> root_pa s"
      using D(3,4) [of w v] p(6) by simp_all
    show "tab1 s w = Some v \<Longrightarrow> tab1 s w' = Some v \<Longrightarrow> same1 w w'" for w' using D(5) .
    assume w: "user_va w" and v: "tab0 ?s w = Some v"
    show "v \<in> used_pages ?s" "v \<noteq> root_pa s"
      using D(6,7) [OF w, of v] v p(6) pu(2) by (auto simp: t0 split: if_splits)
    show "tab1 s w' \<noteq> Some v" for w'
      using D(8) [OF w, of v w'] v pt1 [of w'] by (auto simp: t0 split: if_splits)
    show "same0 w w'" if "user_va w'" "tab0 ?s w' = Some v" for w'
      using D(9) [OF w that(1), of v] v that(2) pt0 [OF w] pt0 [OF that(1)]
      by (auto simp: t0 same0_def same1_def split: if_splits)
  qed
  have lf: "leaf ?s w = leaf s w" if w: "user_va w" for w
  proof (cases "same0 va w")
    case True
    have "e \<noteq> pte_at p (pt_idx w 0)"
      using slot_inj [OF p(4) used_aligned [OF D(1) uu(1)]] pu unfolding e_def by metis
    then have "leaf ?s w = 0"
      using True zero [OF slot_in_page [of p w 0]] by (simp add: leaf_def leaf_slot_def t0)
    moreover have "tab0 s w = None" using same0_tab0 [OF True, of s] assms(4) by simp
    ultimately show ?thesis by (simp add: leaf_def leaf_slot_def)
  next
    case False
    show ?thesis
    proof (cases "tab0 s w")
      case (Some v)
      have "e \<noteq> pte_at v (pt_idx w 0)"
        using used_slot_inj [OF D(1) uu(1) D(6) [OF w Some]] D(8) [OF w Some, of va] assms(3)
        unfolding e_def by metis
      moreover have "ptes s' (pte_at v (pt_idx w 0)) = ptes s (pte_at v (pt_idx w 0))"
        using old [OF D(6) [OF w Some] slot_in_page] by blast
      ultimately show ?thesis using Some False by (simp add: leaf_def leaf_slot_def t0)
    qed (simp add: leaf_def leaf_slot_def t0 False)
  qed
  have "table_pages ?s = insert p (table_pages s)"
  proof -
    have "{t. \<exists>w. user_va w \<and> tab0 ?s w = Some t} = insert p {t. \<exists>w. user_va w \<and> tab0 s w = Some t}"
    proof -
      have "t = p \<or> tab0 s w = Some t" if "tab0 ?s w = Some t" for w t
        using that by (simp add: t0 split: if_splits)
      moreover have "tab0 ?s va = Some p" by (simp add: t0 same0_def same1_def)
      ultimately show ?thesis using keep assms(2) by blast
    qed
    then show ?thesis unfolding table_pages_def t1 r by blast
  qed
  moreover have "\<forall>q \<in> used_pages s. \<forall>a. unat (a - q) < 4096 \<longrightarrow> pmem ?s a = pmem s a"
    using old by simp
  moreover have "page_st.more ?s = page_st.more s"
    "first_free_page ?s = first_free_page s" "free_pages ?s = free_pages s" "host ?s = host s" "fds ?s = fds s" "files ?s = files s"
    using same by simp_all
  moreover have "used_pages ?s = insert p (used_pages s)" using p(6) by simp
  ultimately have "grows s ?s"
    unfolding grows_def using ok lf p(3) keep by (auto simp: t1)
  moreover have "tab0 ?s va = Some p" by (simp add: t0 same0_def same1_def)
  ultimately show ?thesis using that [of p s'] p(1,2) fc by blast
qed

section \<open>\<open>walk_create\<close>\<close>

definition missing :: "('h, 'z) vm_st_scheme \<Rightarrow> u64 \<Rightarrow> nat" where
  "missing s va = (case tab1 s va of None \<Rightarrow> 2 | Some _ \<Rightarrow> (case tab0 s va of None \<Rightarrow> 1 | Some _ \<Rightarrow> 0))"

lemma walk_down_tab1:
  "tab1 s va = Some u \<Longrightarrow>
   walk_down 2 0 va c (root_page_table s) s = walk_down 1 0 va c (pa2kva s u) s"
  by (subst walk_down.simps)
    (auto simp: root_kva [of s] pte_at_kva rd_pte_def tab1_def slot2_def child_def Let_def split: if_splits)

lemma walk_down_tab0:
  "tab1 s va = Some u \<Longrightarrow> tab0 s va = Some t \<Longrightarrow>
   walk_down 1 0 va c (pa2kva s u) s = Inr (pa2kva s (pte_at t (pt_idx va 0)), s)"
  by (subst walk_down.simps, subst walk_down.simps)
    (auto simp: pte_at_kva rd_pte_def tab0_def child_def Let_def split: if_splits)

lemma walk_create_level0:
  fixes s :: "('h, 'z) vm_st_scheme"
  assumes "pt_ok s" "user_va va" "tab1 s va = Some u" "missing s va \<le> free_count s"
  shows "\<exists>s' a. walk_down 1 0 va True (pa2kva s u) s = Inr (pa2kva s a, s') \<and> grows s s'
    \<and> leaf_slot s' va = Some a \<and> free_count s' + missing s va = free_count s"
proof (cases "tab0 s va")
  case (Some t)
  with walk_down_tab0 [OF assms(3) Some, of True] assms(3) grows_refl [OF assms(1)] show ?thesis
    by (auto simp: leaf_slot_def missing_def)
next
  case None
  then have pos: "0 < free_count s" using assms(3,4) by (simp add: missing_def)
  obtain p s' where p: "page_alloc s = Inr (p, s')" "p \<noteq> 0"
    and g: "grows s (s'\<lparr>ptes := (ptes s')(pte_at u (pt_idx va 1) := ptd_create (ppn p))\<rparr>)"
    and fc: "Suc (free_count s') = free_count s"
    and t0: "tab0 (s'\<lparr>ptes := (ptes s')(pte_at u (pt_idx va 1) := ptd_create (ppn p))\<rparr>) va = Some p"
    by (rule add_tab0 [OF assms(1-3) None pos])
  let ?u = "s'\<lparr>ptes := (ptes s')(pte_at u (pt_idx va 1) := ptd_create (ppn p))\<rparr>"
  have more: "page_st.more ?u = page_st.more s" using g by (simp add: grows_def)
  then have off: "kva2pa_offset s' = kva2pa_offset s" using vm_fields(1) [of ?u s] by simp
  have t1: "tab1 ?u va = Some u" using g assms(3) by (simp add: grows_def)
  have un: "ptes s (pte_at u (pt_idx va 1)) AND PTE_V = 0"
    using None assms(3) by (auto simp: tab0_def Let_def split: if_splits)
  have al: "child (ptd_create (ppn p)) = p"
    using t0 t1 by (auto simp: tab0_def Let_def split: if_splits)
  define K where "K = pte_at (pa2kva s u) (pt_idx va 1)"
  have K: "rd_pte s K AND PTE_V = 0" "rd_pte ?u K = ptd_create (ppn p)"
    "wr_pte K (ptd_create (ppn p)) s' = ?u" "pa2kva ?u p = pa2kva s p"
    using un by (simp_all add: K_def rd_pte_def wr_pte_def kva2pa_def pa2kva_def pte_at_def off)
  have "walk_down 1 0 va True (pa2kva s u) s = walk_down 0 0 va True (pa2kva s p) ?u"
    by (subst walk_down.simps)
      (simp del: One_nat_def add: Let_def K_def [symmetric] K p al [unfolded child_def])
  then have "walk_down 1 0 va True (pa2kva s u) s = Inr (pa2kva s (pte_at p (pt_idx va 0)), ?u)"
    by (simp add: walk_down.simps [of 0] pte_at_kva)
  with g fc t0 None assms(3) show ?thesis by (auto simp: leaf_slot_def missing_def)
qed

lemma walk_create_ok:
  fixes s :: "('h, 'z) vm_st_scheme"
  assumes "pt_ok s" "user_va va" "missing s va \<le> free_count s"
  shows "\<exists>s' a. walk_create va s = Inr (pa2kva s a, s') \<and> grows s s'
    \<and> leaf_slot s' va = Some a \<and> free_count s' + missing s va = free_count s"
proof (cases "tab1 s va")
  case (Some u)
  with walk_create_level0 [OF assms(1,2) Some assms(3)] walk_down_tab1 [OF Some, of True] show ?thesis
    by (simp add: walk_create_def walk_internal_def RISCV_PGLEVELS)
next
  case None
  then have pos: "0 < free_count s" using assms(3) by (simp add: missing_def)
  obtain p s' where p: "page_alloc s = Inr (p, s')" "p \<noteq> 0"
    and g: "grows s (s'\<lparr>ptes := (ptes s')(slot2 s va := ptd_create (ppn p))\<rparr>)"
    and fc: "Suc (free_count s') = free_count s"
    and t1: "tab1 (s'\<lparr>ptes := (ptes s')(slot2 s va := ptd_create (ppn p))\<rparr>) va = Some p"
    and t0: "tab0 (s'\<lparr>ptes := (ptes s')(slot2 s va := ptd_create (ppn p))\<rparr>) va = None"
    by (rule add_tab1 [OF assms(1) None pos])
  let ?u = "s'\<lparr>ptes := (ptes s')(slot2 s va := ptd_create (ppn p))\<rparr>"
  have more: "page_st.more ?u = page_st.more s" using g by (simp add: grows_def)
  then have off: "kva2pa_offset s' = kva2pa_offset s" "root_page_table s' = root_page_table s"
    using vm_fields(1,4) [of ?u s] by simp_all
  have un: "ptes s (slot2 s va) AND PTE_V = 0"
    using None by (auto simp: tab1_def Let_def split: if_splits)
  have al: "child (ptd_create (ppn p)) = p"
    using t1 off by (auto simp: tab1_def Let_def slot2_def root_pa_def kva2pa_def split: if_splits)
  define K where "K = pte_at (root_page_table s) (pt_idx va 2)"
  have K: "rd_pte s K AND PTE_V = 0" "rd_pte ?u K = ptd_create (ppn p)"
    "wr_pte K (ptd_create (ppn p)) s' = ?u"
    using un by (simp_all add: K_def root_kva [of s] slot2_def pte_at_def rd_pte_def wr_pte_def kva2pa_def
        pa2kva_def off)
  have step: "walk_create va s = walk_down 1 0 va True (pa2kva ?u p) ?u"
    unfolding walk_create_def walk_internal_def RISCV_PGLEVELS
    by (subst walk_down.simps)
      (simp del: One_nat_def add: Let_def K_def [symmetric] K p al [unfolded child_def], simp only: One_nat_def)
  have "pt_ok ?u" using g by (simp add: grows_def)
  from walk_create_level0 [OF this assms(2) t1] obtain s'' a where
    w: "walk_down 1 0 va True (pa2kva ?u p) ?u = Inr (pa2kva ?u a, s'')" "grows ?u s''"
    "leaf_slot s'' va = Some a" "free_count s'' + missing ?u va = free_count ?u"
    using assms(3) fc t1 t0 None by (auto simp: missing_def)
  have "missing s va = Suc (missing ?u va)" using None t1 t0 by (simp add: missing_def)
  moreover have "pa2kva ?u a = pa2kva s a" by (simp add: pa2kva_def off)
  moreover have "grows s s''" using grows_trans [OF g w(2)] .
  ultimately show ?thesis using w step fc by (intro exI [of _ s''] exI [of _ a]) simp
qed

end
