(* ===== verification/PK_Mapping.thy ===== *)
theory PK_Mapping
  imports PK_PageTable
begin

text \<open>
  What the operations of \<^verbatim>\<open>pk/mmap.c\<close> do to the map from user addresses to leaf entries: unmapping,
  mapping, demand paging and protection, each as an update of \<open>leaf\<close>, with the invariant they keep.
\<close>

section \<open>The invariant of the mapping\<close>

text \<open>The pages of valid leaves are in use, are not table pages, and no two leaves share one.\<close>

definition map_ok :: "('h, 'z) vm_st_scheme \<Rightarrow> bool" where
  "map_ok s \<longleftrightarrow>
     pt_ok s
     \<and> (\<forall>va. user_va va \<longrightarrow> leaf s va AND PTE_V \<noteq> 0 \<longrightarrow> child (leaf s va) \<in> used_pages s - table_pages s)
     \<and> (\<forall>va va'. user_va va \<longrightarrow> user_va va' \<longrightarrow> leaf s va AND PTE_V \<noteq> 0 \<longrightarrow> leaf s va' AND PTE_V \<noteq> 0
          \<longrightarrow> child (leaf s va) = child (leaf s va') \<longrightarrow> same_page va va')"

lemma map_okD:
  assumes "map_ok s"
  shows "pt_ok s" "page_ok s"
    "user_va va \<Longrightarrow> leaf s va AND PTE_V \<noteq> 0 \<Longrightarrow> child (leaf s va) \<in> used_pages s"
    "user_va va \<Longrightarrow> leaf s va AND PTE_V \<noteq> 0 \<Longrightarrow> child (leaf s va) \<notin> table_pages s"
    "user_va va \<Longrightarrow> user_va va' \<Longrightarrow> leaf s va AND PTE_V \<noteq> 0 \<Longrightarrow> leaf s va' AND PTE_V \<noteq> 0
       \<Longrightarrow> child (leaf s va) = child (leaf s va') \<Longrightarrow> same_page va va'"
  using assms unfolding map_ok_def by (auto dest: pt_okD(1))

text \<open>Changes that touch neither the allocator nor the tables.\<close>

definition quiet :: "('h, 'z) vm_st_scheme \<Rightarrow> ('h, 'z) vm_st_scheme \<Rightarrow> bool" where
  "quiet s s' \<longleftrightarrow>
     first_free_page s' = first_free_page s \<and> next_free_page s' = next_free_page s
     \<and> free_pages s' = free_pages s \<and> page_freelist_depth s' = page_freelist_depth s
     \<and> page_freelist_storage s' = page_freelist_storage s \<and> ptes s' = ptes s
     \<and> kva2pa_offset s' = kva2pa_offset s \<and> root_page_table s' = root_page_table s"

lemma quiet_page:
  assumes "quiet s s'"
  shows "page_ok s' = page_ok s" "used_pages s' = used_pages s" "free_count s' = free_count s"
  using assms
  by (simp_all add: quiet_def page_ok_def used_pages_def free_count_def freelist_def bump_pages_def free_page_addr_def)

lemma quiet_tree: "quiet s s' \<Longrightarrow> tree_frame s s'"
  by (simp add: quiet_def tree_frame_def root_pa_def kva2pa_def)

lemma quiet_views:
  assumes "quiet s s'"
  shows "tab1 s' = tab1 s" "tab0 s' = tab0 s" "leaf_slot s' = leaf_slot s" "leaf s' = leaf s"
    "table_pages s' = table_pages s" "root_pa s' = root_pa s"
proof -
  show t1: "tab1 s' = tab1 s" using tree_frame_tab1 [OF quiet_tree [OF assms]] by (intro ext)
  show t0: "tab0 s' = tab0 s" using tree_frame_tab0 [OF quiet_tree [OF assms]] by (intro ext)
  show l: "leaf_slot s' = leaf_slot s" by (intro ext) (simp add: leaf_slot_def t0)
  show "leaf s' = leaf s" using assms by (intro ext) (simp add: leaf_def l quiet_def split: option.split)
  show "table_pages s' = table_pages s" by (rule table_pages_frame [OF quiet_tree [OF assms]])
  show "root_pa s' = root_pa s" using quiet_tree [OF assms] by (simp add: tree_frame_def)
qed

lemma quiet_ok:
  assumes "quiet s s'"
  shows "pt_ok s' = pt_ok s" "map_ok s' = map_ok s"
  by (simp_all add: pt_ok_def map_ok_def quiet_views [OF assms] quiet_page [OF assms])

lemma quiet_refl [simp]: "quiet s s"
  by (simp add: quiet_def)

lemma quiet_trans: "quiet s t \<Longrightarrow> quiet t u \<Longrightarrow> quiet s u"
  by (simp add: quiet_def)

text \<open>What no operation on mappings changes.\<close>

definition steady :: "('h, 'z) vm_st_scheme \<Rightarrow> ('h, 'z) vm_st_scheme \<Rightarrow> bool" where
  "steady s s' \<longleftrightarrow>
     first_free_page s' = first_free_page s \<and> free_pages s' = free_pages s
     \<and> kva2pa_offset s' = kva2pa_offset s \<and> root_page_table s' = root_page_table s
     \<and> vm_lock s' = vm_lock s \<and> demand_paging s' = demand_paging s \<and> mem_size s' = mem_size s
     \<and> current s' = current s"

lemma steady_refl [simp]: "steady s s"
  by (simp add: steady_def)

lemma steady_trans: "steady s t \<Longrightarrow> steady t u \<Longrightarrow> steady s u"
  by (simp add: steady_def)

lemma file_decref_quiet:
  fixes s :: "('h, 'z) vm_st_scheme"
  shows "quiet s (file_decref H f s)" "steady s (file_decref H f s)"
    "vmr_freelist_head (file_decref H f s) = vmr_freelist_head s" "vmrs (file_decref H f s) = vmrs s"
    "pages_promised (file_decref H f s) = pages_promised s"
    "randomize_mapping (file_decref H f s) = randomize_mapping s"
  by (simp_all add: file_decref_def Let_def set_refcnt_def frontend_syscall_def quiet_def steady_def
      split: prod.splits)

text \<open>Region pointers are even, so an entry never mistakes one for a valid mapping; kernel
  addresses of managed pages do not wrap around to the null pointer.\<close>

definition even_ptr :: "u64 \<Rightarrow> bool" where
  "even_ptr v \<longleftrightarrow> v AND PTE_V = 0"

definition vm_ok :: "('h, 'z) vm_st_scheme \<Rightarrow> bool" where
  "vm_ok s \<longleftrightarrow>
     map_ok s
     \<and> even_ptr (vmr_freelist_head s) \<and> (\<forall>v. even_ptr v \<longrightarrow> even_ptr (vmr_next (vmrs s v)))
     \<and> kva2pa_offset s = KVA_START - MEM_START
     \<and> unat (first_free_page s) + 4096 * unat (free_pages s) \<le> 0x80000000 + 2 ^ 38"

lemma even_ptr_word: "even_ptr v \<longleftrightarrow> even v"
  by (simp add: even_ptr_def PTE_V_def and_one_eq even_iff_mod_2_eq_zero)

lemma vmr_decref_quiet:
  "quiet s (vmr_decref H v d s)" "steady s (vmr_decref H v d s)"
  "vm_ok s \<Longrightarrow> even_ptr v \<Longrightarrow> vm_ok (vmr_decref H v d s)"
proof -
  let ?s = "upd_vmr v (\<lambda>r. r\<lparr>vmr_refcnt := vmr_refcnt r - d\<rparr>) (s\<lparr>pages_promised := pages_promised s - ucast d\<rparr>)"
  let ?t = "case vmr_file (vmrs ?s v) of None \<Rightarrow> ?s | Some f \<Rightarrow> file_decref H f ?s"
  have q: "quiet s ?s" "steady s ?s" by (simp_all add: quiet_def steady_def upd_vmr_def)
  have t: "quiet s ?t" "steady s ?t" "vmr_freelist_head ?t = vmr_freelist_head s" "vmrs ?t = vmrs ?s"
    using q file_decref_quiet [where s = ?s and H = H]
    by (auto split: option.splits intro: quiet_trans steady_trans simp: upd_vmr_def)
  have r: "vmr_decref H v d s = (if vmr_refcnt (vmrs ?s v) = 0
     then (upd_vmr v (\<lambda>r. r\<lparr>vmr_next := vmr_freelist_head ?t\<rparr>) ?t)\<lparr>vmr_freelist_head := v\<rparr> else ?s)"
    by (simp add: vmr_decref_def Let_def)
  show qq: "quiet s (vmr_decref H v d s)" "steady s (vmr_decref H v d s)"
    using q t(1,2) unfolding r by (auto simp: quiet_def steady_def upd_vmr_def)
  assume ok: "vm_ok s" "even_ptr v"
  have "vmr_next (vmrs ?s w) = vmr_next (vmrs s w)" for w by (simp add: upd_vmr_def)
  then show "vm_ok (vmr_decref H v d s)"
    using ok quiet_ok(2) [OF qq(1)] qq(1) t(3,4) unfolding vm_ok_def r
    by (auto simp: quiet_def upd_vmr_def)
qed

section \<open>Writing a leaf\<close>

section \<open>Accounting\<close>

text \<open>The pages promised to the program by leaves that point to a region.  The counter \<^verbatim>\<open>pages_promised\<close>
  runs ahead of them by the pages of a mapping that is still being made (\<open>r\<close>), and a free page is kept
  for each of them, with \<open>k\<close> more for tables.\<close>

definition promised :: "('h, 'z) vm_st_scheme \<Rightarrow> u64 set" where
  "promised s = drop_bit 12 ` {w. user_va w \<and> leaf s w \<noteq> 0 \<and> leaf s w AND PTE_V = 0}"

definition accounted :: "('h, 'z) vm_st_scheme \<Rightarrow> nat \<Rightarrow> nat \<Rightarrow> bool" where
  "accounted s r k \<longleftrightarrow>
     unat (pages_promised s) = card (promised s) + r \<and> card (promised s) + r + k \<le> free_count s"

text \<open>What a region says of its pages; only the count and the link of the free list may change.\<close>

definition same_regions :: "('h, 'z) vm_st_scheme \<Rightarrow> ('h, 'z) vm_st_scheme \<Rightarrow> bool" where
  "same_regions s s' \<longleftrightarrow> (\<forall>v. vmr_addr (vmrs s' v) = vmr_addr (vmrs s v) \<and> vmr_length (vmrs s' v) = vmr_length (vmrs s v)
     \<and> vmr_file (vmrs s' v) = vmr_file (vmrs s v) \<and> vmr_offset (vmrs s' v) = vmr_offset (vmrs s v)
     \<and> vmr_prot (vmrs s' v) = vmr_prot (vmrs s v))"

lemma same_regions_trans: "same_regions s t \<Longrightarrow> same_regions t u \<Longrightarrow> same_regions s u"
  by (simp add: same_regions_def)

lemma same_regions_eq: "vmrs s' = vmrs s \<Longrightarrow> same_regions s s'"
  by (simp add: same_regions_def)

lemma promised_cong: "(\<And>w. user_va w \<Longrightarrow> leaf s' w = leaf s w) \<Longrightarrow> promised s' = promised s"
  unfolding promised_def by (rule arg_cong [where f = "image (drop_bit 12)"]) auto

lemma promised_update:
  assumes "\<And>w. user_va w \<Longrightarrow> leaf s' w = (if same_page va w then x else leaf s w)" "user_va va"
  shows "promised s' = (if x \<noteq> 0 \<and> x AND PTE_V = 0 then insert (drop_bit 12 va) (promised s)
    else promised s - {drop_bit 12 va})"
proof -
  have e: "d \<in> promised s' \<longleftrightarrow> d \<noteq> drop_bit 12 va \<and> d \<in> promised s
      \<or> d = drop_bit 12 va \<and> x \<noteq> 0 \<and> x AND PTE_V = 0" for d
  proof (cases "d = drop_bit 12 va")
    case True
    then have "d = drop_bit 12 w \<longleftrightarrow> same_page va w" for w by (simp add: same_page_def)
    then have "d \<in> promised s' \<longleftrightarrow> (\<exists>w. same_page va w \<and> user_va w \<and> x \<noteq> 0 \<and> x AND PTE_V = 0)"
      unfolding promised_def image_iff Bex_def using assms(1) by auto
    moreover have "same_page va va" by (simp add: same_page_def)
    ultimately show ?thesis using True assms(2) by auto
  next
    case False
    then have "d = drop_bit 12 w \<Longrightarrow> \<not> same_page va w" for w by (simp add: same_page_def)
    then have "d \<in> promised s' \<longleftrightarrow> d \<in> promised s"
      unfolding promised_def image_iff Bex_def using assms(1) by auto
    then show ?thesis using False by simp
  qed
  show ?thesis by (cases "x \<noteq> 0 \<and> x AND PTE_V = 0") (auto simp: e)
qed

lemma vmr_decref_fields:
  "same_regions s (vmr_decref H v d s)" "pages_promised (vmr_decref H v d s) = pages_promised s - ucast d"
  "vm_st.more (vmr_decref H v d s) = vm_st.more s"
proof -
  let ?s = "upd_vmr v (\<lambda>r. r\<lparr>vmr_refcnt := vmr_refcnt r - d\<rparr>) (s\<lparr>pages_promised := pages_promised s - ucast d\<rparr>)"
  let ?t = "case vmr_file (vmrs ?s v) of None \<Rightarrow> ?s | Some f \<Rightarrow> file_decref H f ?s"
  have t: "vmrs ?t = vmrs ?s" "pages_promised ?t = pages_promised ?s" "vm_st.more ?t = vm_st.more ?s"
    by (auto split: option.splits simp: file_decref_quiet file_decref_def set_refcnt_def frontend_syscall_def Let_def split: prod.splits)
  have r: "vmr_decref H v d s = (if vmr_refcnt (vmrs ?s v) = 0
     then (upd_vmr v (\<lambda>r. r\<lparr>vmr_next := vmr_freelist_head ?t\<rparr>) ?t)\<lparr>vmr_freelist_head := v\<rparr> else ?s)"
    by (simp add: vmr_decref_def Let_def)
  show "same_regions s (vmr_decref H v d s)" "vm_st.more (vmr_decref H v d s) = vm_st.more s"
    "pages_promised (vmr_decref H v d s) = pages_promised s - ucast d"
    unfolding r same_regions_def using t by (simp_all add: upd_vmr_def)
qed

lemma accounted_quiet: "quiet s s' \<Longrightarrow> pages_promised s' = pages_promised s \<Longrightarrow> accounted s' r k = accounted s r k"
  by (simp add: accounted_def promised_def quiet_views quiet_page(3))

lemma free_count_small: "page_ok s \<Longrightarrow> free_count s < 2 ^ 52"
proof -
  assume ok: "page_ok s"
  have "free_count s \<le> unat (free_pages s)"
    using page_depth_le(1) [OF ok] ok by (simp add: free_count_def page_ok_def word_le_nat_alt)
  moreover have "4096 * unat (free_pages s) < 2 ^ 64" using ok by (simp add: page_ok_def)
  ultimately show ?thesis by simp
qed

lemma accounted_less: "accounted s r k \<Longrightarrow> k' \<le> k \<Longrightarrow> accounted s r k'"
  by (simp add: accounted_def)

text \<open>A leaf that stops being promised, with its count.\<close>

lemma accounted_drop:
  assumes "accounted s r k" "user_va va" "leaf s va \<noteq> 0" "leaf s va AND PTE_V = 0"
    and "promised s' = promised s - {drop_bit 12 va}" "pages_promised s' = pages_promised s - 1" "free_count s \<le> free_count s' + 1"
  shows "accounted s' r k"
proof -
  have "drop_bit 12 va \<in> promised s" unfolding promised_def using assms(2-4) by auto
  then have c: "Suc (card (promised s')) = card (promised s)" unfolding assms(5) by (intro card.remove [symmetric]) auto
  then have "0 < unat (pages_promised s)" using assms(1) by (simp add: accounted_def)
  then have "unat (pages_promised s') = unat (pages_promised s) - 1"
    unfolding assms(6) by (intro unat_minus_one) auto
  then show ?thesis using assms(1,7) c by (simp add: accounted_def)
qed

lemma accounted_same:
  assumes "accounted s r k" "\<And>w. user_va w \<Longrightarrow> leaf s' w = leaf s w" "pages_promised s' = pages_promised s"
    and "free_count s + k' \<le> free_count s' + k"
  shows "accounted s' r k'"
  using assms(1,3,4) promised_cong [of s' s, OF assms(2)] by (simp add: accounted_def)

section \<open>Leaves\<close>

lemma walk_leaf:
  assumes "leaf_slot s va = Some a"
  shows "walk va s = pa2kva s a" "rd_pte s (walk va s) = leaf s va"
    "wr_pte (walk va s) x s = s\<lparr>ptes := (ptes s)(a := x)\<rparr>"
  using assms by (simp_all add: walk_slot rd_pte_def wr_pte_def leaf_def)

lemma leaf_nz_slot: "leaf s va \<noteq> 0 \<Longrightarrow> \<exists>a. leaf_slot s va = Some a"
  by (cases "leaf_slot s va") (simp_all add: leaf_def)

definition vm_rest :: "('h, 'z) vm_st_scheme \<Rightarrow> ('h, 'z) vm_st_scheme \<Rightarrow> bool" where
  "vm_rest s s' \<longleftrightarrow> vmr_freelist_head s' = vmr_freelist_head s \<and> vmrs s' = vmrs s
     \<and> pages_promised s' = pages_promised s"

lemma vm_rest_trans: "vm_rest s t \<Longrightarrow> vm_rest t u \<Longrightarrow> vm_rest s u"
  by (simp add: vm_rest_def)

text \<open>Setting a leaf to 0, to a region pointer, or to a valid entry whose page nobody else maps.\<close>

lemma set_leaf_ok:
  assumes "vm_ok s" "user_va va" "leaf_slot s va = Some a"
    and "x AND PTE_V \<noteq> 0 \<Longrightarrow> child x \<in> used_pages s - table_pages s
       \<and> (\<forall>w. user_va w \<longrightarrow> leaf s w AND PTE_V \<noteq> 0 \<longrightarrow> child (leaf s w) = child x \<longrightarrow> same_page va w)"
  defines "s' \<equiv> s\<lparr>ptes := (ptes s)(a := x)\<rparr>"
  shows "vm_ok s'" "\<And>w. user_va w \<Longrightarrow> leaf s' w = (if same_page va w then x else leaf s w)"
    "tab1 s' = tab1 s" "tab0 s' = tab0 s" "used_pages s' = used_pages s" "free_count s' = free_count s"
    "table_pages s' = table_pages s" "steady s s'" "vm_rest s s'"
proof -
  have m: "map_ok s" using assms(1) by (simp add: vm_ok_def)
  note W = leaf_write [OF map_okD(1) [OF m] assms(2,3), where x = x, folded s'_def]
  show t1: "tab1 s' = tab1 s" and t0: "tab0 s' = tab0 s" using W(2,3) .
  show up: "used_pages s' = used_pages s" and "free_count s' = free_count s" by (simp_all add: s'_def)
  have "root_pa s' = root_pa s" by (simp add: s'_def)
  then show tp: "table_pages s' = table_pages s" by (simp add: table_pages_def t1 t0)
  show "steady s s'" "vm_rest s s'" by (simp_all add: steady_def vm_rest_def s'_def)
  show L: "leaf s' w = (if same_page va w then x else leaf s w)" if "user_va w" for w
    using W(4) [OF that] .
  have "map_ok s'"
    unfolding map_ok_def tp up
  proof (intro conjI allI impI)
    show "pt_ok s'" by (rule W(1))
    fix w
    assume w: "user_va w" "leaf s' w AND PTE_V \<noteq> 0"
    then show "child (leaf s' w) \<in> used_pages s - table_pages s"
      using L [OF w(1)] assms(4) map_okD(3,4) [OF m w(1)] by (cases "same_page va w") auto
    fix w'
    assume w': "user_va w'" "leaf s' w' AND PTE_V \<noteq> 0" "child (leaf s' w) = child (leaf s' w')"
    have sym: "same_page u v \<Longrightarrow> same_page v u" and tr: "same_page u v \<Longrightarrow> same_page u z \<Longrightarrow> same_page v z"
      for u v z by (simp_all add: same_page_def)
    show "same_page w w'"
    proof (cases "same_page va w")
      case True
      note a = this
      show ?thesis
      proof (cases "same_page va w'")
        case True
        with a show ?thesis by (rule tr)
      next
        case False
        with a L [OF w(1)] L [OF w'(1)] w w' assms(4) show ?thesis by auto
      qed
    next
      case False
      note a = this
      show ?thesis
      proof (cases "same_page va w'")
        case True
        with a L [OF w(1)] L [OF w'(1)] w w' assms(4) have "same_page va w" by auto
        with a show ?thesis by simp
      next
        case False
        with a L [OF w(1)] L [OF w'(1)] w w' map_okD(5) [OF m w(1) w'(1)] show ?thesis by auto
      qed
    qed
  qed
  with assms(1) show "vm_ok s'" by (simp add: vm_ok_def s'_def)
qed

lemma KVA_START_val: "KVA_START = 0xFFFFFFC000000000"
  by (simp add: KVA_START_def VA_BITS_def push_bit_eq_mult)

text \<open>Kernel pointers to entries are not null.\<close>

lemma used_kva:
  assumes "vm_ok s" "t \<in> used_pages s" "unat (a - t) < 4096"
  shows "pa2kva s a \<noteq> 0"
proof
  assume "pa2kva s a = 0"
  then have "a = - kva2pa_offset s" by (simp add: pa2kva_def eq_neg_iff_add_eq_0)
  then have a: "unat a = 0x4080000000"
    using assms(1) by (simp add: vm_ok_def KVA_START_val MEM_START_def)
  have ok: "page_ok s" using assms(1) by (simp add: vm_ok_def map_okD(2))
  have "unat a = unat t + unat (a - t)"
    using aligned_plus [OF used_aligned [OF ok assms(2)] assms(3)] by simp
  moreover have "unat t + 4096 \<le> unat (first_free_page s) + 4096 * unat (free_pages s)"
    using used_page_props(4) [OF ok assms(2)] .
  moreover have "unat (first_free_page s) + 4096 * unat (free_pages s) \<le> 0x4080000000"
    using assms(1) by (simp add: vm_ok_def)
  ultimately show False using a assms(3) by linarith
qed

lemma leaf_slot_kva:
  assumes "vm_ok s" "user_va va" "leaf_slot s va = Some a"
  shows "pa2kva s a \<noteq> 0"
proof -
  obtain t where t: "tab0 s va = Some t" "a = pte_at t (pt_idx va 0)"
    using leaf_slotE [OF assms(3)] .
  have "pt_ok s" using assms(1) by (simp add: vm_ok_def map_okD(1))
  from used_kva [OF assms(1) pt_okD(6) [OF this assms(2) t(1)] slot_in_page] t(2) show ?thesis by simp
qed

section \<open>Unmapping\<close>

lemma same_page_leaf:
  assumes "user_va va" "user_va w" "same_page va w"
  shows "leaf s va = leaf s w"
proof -
  have "same0 va w" "pt_idx va 0 = pt_idx w 0"
    using pt_idx_page [OF assms(1,2)] assms(3) by (simp_all add: same0_def same1_def)
  then show ?thesis using same0_tab0 [of va w s] by (simp add: leaf_def leaf_slot_def)
qed

text \<open>
  What taking the pages of \<open>P\<close> out of the map gives back: the frames of its present pages return to the allocator, each once, and
  the promises of the others are withdrawn, from the kernel's count and from the count of the region
  that the entry points to.
\<close>

definition frames_of :: "('h, 'z) vm_st_scheme \<Rightarrow> (u64 \<Rightarrow> bool) \<Rightarrow> u64 set" where
  "frames_of s P = (\<lambda>w. child (leaf s w)) ` {w. user_va w \<and> P w \<and> leaf s w AND PTE_V \<noteq> 0}"

definition pages_with :: "('h, 'z) vm_st_scheme \<Rightarrow> (u64 \<Rightarrow> bool) \<Rightarrow> (u64 \<Rightarrow> bool) \<Rightarrow> u64 set" where
  "pages_with s P X = drop_bit 12 ` {w. user_va w \<and> P w \<and> X (leaf s w)}"

definition gave_back :: "('h, 'z) vm_st_scheme \<Rightarrow> (u64 \<Rightarrow> bool) \<Rightarrow> ('h, 'z) vm_st_scheme \<Rightarrow> bool" where
  "gave_back s P s' \<longleftrightarrow>
     used_pages s' = used_pages s - frames_of s P \<and> free_count s' = free_count s + card (frames_of s P)
     \<and> pages_promised s' = pages_promised s - of_nat (card (pages_with s P (\<lambda>x. x \<noteq> 0 \<and> x AND PTE_V = 0)))
     \<and> (\<forall>v. v \<noteq> 0 \<longrightarrow> v AND PTE_V = 0 \<longrightarrow>
          vmr_refcnt (vmrs s' v) = vmr_refcnt (vmrs s v) - of_nat (card (pages_with s P (\<lambda>x. x = v))))"

lemma frames_of_page:
  assumes "user_va va"
  shows "frames_of s (same_page va) = (if leaf s va AND PTE_V \<noteq> 0 then {child (leaf s va)} else {})"
proof -
  have e: "leaf s w = leaf s va" if "user_va w" "same_page va w" for w
    using same_page_leaf [OF assms that, of s] by simp
  have "frames_of s (same_page va) = (\<lambda>w. child (leaf s va)) ` {w. user_va w \<and> same_page va w \<and> leaf s va AND PTE_V \<noteq> 0}"
    unfolding frames_of_def by (intro image_cong Collect_cong) (auto dest: e)
  moreover have "same_page va va" by (simp add: same_page_def)
  ultimately show ?thesis using assms by auto
qed

lemma pages_with_page:
  assumes "user_va va"
  shows "pages_with s (same_page va) X = (if X (leaf s va) then {drop_bit 12 va} else {})"
proof -
  have e: "leaf s w = leaf s va" if "user_va w" "same_page va w" for w
    using same_page_leaf [OF assms that, of s] by simp
  have "pages_with s (same_page va) X = (\<lambda>w. drop_bit 12 va) ` {w. user_va w \<and> same_page va w \<and> X (leaf s va)}"
    unfolding pages_with_def by (intro image_cong Collect_cong) (auto dest: e simp: same_page_def)
  moreover have "same_page va va" by (simp add: same_page_def)
  ultimately show ?thesis using assms by auto
qed

lemma pages_with_union:
  assumes "\<And>w w'. P w \<Longrightarrow> same_page w w' \<Longrightarrow> P w'" "\<not> X 0"
    and "\<And>w. user_va w \<Longrightarrow> leaf t w = (if P w then 0 else leaf s w)"
  shows "card (pages_with s (\<lambda>w. P w \<or> Q w) X) = card (pages_with s P X) + card (pages_with t Q X)"
proof -
  have "pages_with s (\<lambda>w. P w \<or> Q w) X = pages_with s P X \<union> pages_with t Q X"
    unfolding pages_with_def image_Un [symmetric] using assms(2,3)
    by (intro arg_cong [where f = "image (drop_bit 12)"]) (auto split: if_splits)
  moreover have "pages_with s P X \<inter> pages_with t Q X = {}"
  proof -
    have False if "user_va w" "P w" "user_va w'" "X (leaf t w')" "drop_bit 12 w = drop_bit 12 w'" for w w'
    proof -
      have "P w'" using assms(1) [OF that(2)] that(5) by (simp add: same_page_def)
      then show False using that(3,4) assms(2,3) by simp
    qed
    then show ?thesis by (auto simp: pages_with_def)
  qed
  ultimately show ?thesis by (simp add: card_Un_disjoint)
qed

lemma frames_of_union:
  assumes "map_ok s" "\<And>w w'. P w \<Longrightarrow> same_page w w' \<Longrightarrow> P w'"
    and "\<And>w. user_va w \<Longrightarrow> leaf t w = (if P w then 0 else leaf s w)"
  shows "frames_of s (\<lambda>w. P w \<or> Q w) = frames_of s P \<union> frames_of t Q" "frames_of s P \<inter> frames_of t Q = {}"
proof -
  show "frames_of s (\<lambda>w. P w \<or> Q w) = frames_of s P \<union> frames_of t Q"
  proof -
    have "frames_of t Q = (\<lambda>w. child (leaf s w)) ` {w. user_va w \<and> Q w \<and> leaf t w AND PTE_V \<noteq> 0}"
      unfolding frames_of_def using assms(3) by (intro image_cong) (auto split: if_splits)
    moreover have "{w. user_va w \<and> (P w \<or> Q w) \<and> leaf s w AND PTE_V \<noteq> 0}
        = {w. user_va w \<and> P w \<and> leaf s w AND PTE_V \<noteq> 0} \<union> {w. user_va w \<and> Q w \<and> leaf t w AND PTE_V \<noteq> 0}"
      using assms(3) by (auto split: if_splits)
    ultimately show ?thesis by (simp only: frames_of_def [of s] image_Un)
  qed
  have False if "user_va w" "P w" "leaf s w AND PTE_V \<noteq> 0" "user_va w'" "leaf t w' AND PTE_V \<noteq> 0"
    "child (leaf s w) = child (leaf t w')" for w w'
  proof -
    have w': "leaf t w' = leaf s w'" "\<not> P w'" using that(4,5) assms(3) [OF that(4)] by (auto split: if_splits)
    have "same_page w w'" using map_okD(5) [OF assms(1) that(1,4,3)] that(5,6) w'(1) by simp
    then show False using assms(2) [OF that(2)] w'(2) by blast
  qed
  then show "frames_of s P \<inter> frames_of t Q = {}" by (auto simp: frames_of_def)
qed

lemma gave_back_trans:
  assumes "gave_back s P t" "gave_back t Q u" "map_ok s" "\<And>w w'. P w \<Longrightarrow> same_page w w' \<Longrightarrow> P w'"
    and "\<And>w. user_va w \<Longrightarrow> leaf t w = (if P w then 0 else leaf s w)"
  shows "gave_back s (\<lambda>w. P w \<or> Q w) u"
proof -
  have F: "frames_of s (\<lambda>w. P w \<or> Q w) = frames_of s P \<union> frames_of t Q" "frames_of s P \<inter> frames_of t Q = {}"
    by (rule frames_of_union [OF assms(3)], erule (1) assms(4), erule assms(5))+
  have c: "card (frames_of s (\<lambda>w. P w \<or> Q w)) = card (frames_of s P) + card (frames_of t Q)"
    unfolding F(1) by (rule card_Un_disjoint [OF _ _ F(2)]) simp_all
  have v: "card (pages_with s (\<lambda>w. P w \<or> Q w) (\<lambda>x. x = v)) = card (pages_with s P (\<lambda>x. x = v)) + card (pages_with t Q (\<lambda>x. x = v))"
    if "v \<noteq> 0" for v by (rule pages_with_union [where P = P, OF assms(4) _ assms(5)]) (use that in simp_all)
  have p: "card (pages_with s (\<lambda>w. P w \<or> Q w) (\<lambda>x. x \<noteq> 0 \<and> x AND PTE_V = 0))
      = card (pages_with s P (\<lambda>x. x \<noteq> 0 \<and> x AND PTE_V = 0)) + card (pages_with t Q (\<lambda>x. x \<noteq> 0 \<and> x AND PTE_V = 0))"
    by (rule pages_with_union [where P = P, OF assms(4) _ assms(5)]) simp_all
  show ?thesis
    using assms(1,2) c [unfolded F(1)] unfolding gave_back_def p F(1) by (auto simp: v diff_diff_eq)
qed

lemma gave_back_none:
  assumes "\<And>w. user_va w \<Longrightarrow> P w \<Longrightarrow> leaf s w = 0"
  shows "gave_back s P s"
proof -
  have "frames_of s P = {}" "\<not> X 0 \<Longrightarrow> pages_with s P X = {}" for X using assms by (auto simp: frames_of_def pages_with_def)
  then show ?thesis by (simp add: gave_back_def)
qed

lemma vmr_decref_refcnt:
  "vmr_refcnt (vmrs (vmr_decref H v d s) w) = (if w = v then vmr_refcnt (vmrs s v) - d else vmr_refcnt (vmrs s w))"
proof -
  let ?s = "upd_vmr v (\<lambda>r. r\<lparr>vmr_refcnt := vmr_refcnt r - d\<rparr>) (s\<lparr>pages_promised := pages_promised s - ucast d\<rparr>)"
  let ?t = "case vmr_file (vmrs ?s v) of None \<Rightarrow> ?s | Some f \<Rightarrow> file_decref H f ?s"
  have t: "vmrs ?t = vmrs ?s"
    by (auto split: option.splits simp: file_decref_def set_refcnt_def frontend_syscall_def Let_def split: prod.splits)
  have r: "vmr_decref H v d s = (if vmr_refcnt (vmrs ?s v) = 0
     then (upd_vmr v (\<lambda>r. r\<lparr>vmr_next := vmr_freelist_head ?t\<rparr>) ?t)\<lparr>vmr_freelist_head := v\<rparr> else ?s)"
    by (simp add: vmr_decref_def Let_def)
  show ?thesis unfolding r using t by (simp add: upd_vmr_def)
qed

lemma munmap_page_ok:
  fixes s :: "('h, 'z) vm_st_scheme"
  assumes "vm_ok s" "user_va va"
  shows "\<exists>s'. munmap_page H va s = Inr s' \<and> vm_ok s' \<and> steady s s'
    \<and> (\<forall>w. user_va w \<longrightarrow> leaf s' w = (if same_page va w then 0 else leaf s w))
    \<and> tab1 s' = tab1 s \<and> tab0 s' = tab0 s \<and> free_count s \<le> free_count s'
    \<and> same_regions s s' \<and> gave_back s (same_page va) s' \<and> (\<forall>r k. accounted s r k \<longrightarrow> accounted s' r k)"
proof (cases "leaf s va = 0")
  case True
  then have "munmap_page H va s = Inr s"
    by (cases "leaf_slot s va") (simp_all add: munmap_page_def walk_slot rd_pte_def leaf_def Let_def)
  moreover have "leaf s w = 0" if "user_va w" "same_page va w" for w
    using same_page_leaf [OF assms(2) that, of s] True by simp
  moreover have "gave_back s (same_page va) s"
    by (rule gave_back_none) (rule \<open>\<And>w. user_va w \<Longrightarrow> same_page va w \<Longrightarrow> leaf s w = 0\<close>)
  ultimately show ?thesis using assms(1) by (auto simp: same_regions_eq)
next
  case False
  then obtain a where a: "leaf_slot s va = Some a" using leaf_nz_slot by blast
  have m: "map_ok s" using assms(1) by (simp add: vm_ok_def)
  note M = map_okD [OF m]
  have W: "walk va s = pa2kva s a" "rd_pte s (pa2kva s a) = leaf s va" "walk va s \<noteq> 0"
    using walk_leaf [OF a] leaf_slot_kva [OF assms(1,2) a] by simp_all
  show ?thesis
  proof (cases "leaf s va AND PTE_V = 0")
    case True
    let ?t = "vmr_decref H (leaf s va) 1 s"
    have q: "quiet s ?t" "steady s ?t" "vm_ok ?t"
      using vmr_decref_quiet [where s = s and H = H and v = "leaf s va" and d = 1] assms(1) True by (simp_all add: even_ptr_def)
    have a': "leaf_slot ?t va = Some a" by (simp add: quiet_views [OF q(1)] a)
    let ?u = "?t\<lparr>ptes := (ptes ?t)(a := 0)\<rparr>"
    have "wr_pte (pa2kva s a) 0 ?t = ?u" using q(1) by (simp add: wr_pte_def kva2pa_def pa2kva_def quiet_def)
    then have "munmap_page H va s = Inr ?u"
      using W False True by (simp add: munmap_page_def Let_def)
    moreover note L = set_leaf_ok [OF q(3) assms(2) a', where x = 0, simplified]
    moreover have "same_regions s ?u" using vmr_decref_fields(1) [of s H "leaf s va" 1] by (simp add: same_regions_def)
    moreover have "gave_back s (same_page va) ?u"
      using True False quiet_page [OF q(1)]
      by (simp add: gave_back_def frames_of_page [OF assms(2)] pages_with_page [OF assms(2)] vmr_decref_fields(2) vmr_decref_refcnt L(5,6))
    moreover have "accounted ?u r k" if "accounted s r k" for r k
    proof (rule accounted_drop [OF that assms(2) False True])
      have "leaf ?u w = (if same_page va w then 0 else leaf s w)" if "user_va w" for w
        using L(2) [OF that] by (simp add: quiet_views [OF q(1)])
      from promised_update [OF this assms(2)] show "promised ?u = promised s - {drop_bit 12 va}" by simp
      show "pages_promised ?u = pages_promised s - 1" by (simp add: vmr_decref_fields)
      show "free_count s \<le> free_count ?u + 1" using L(6) quiet_page(3) [OF q(1)] by simp
    qed
    ultimately show ?thesis
      using q(2) quiet_views [OF q(1)] quiet_page [OF q(1)] by (auto intro: steady_trans)
  next
    case valid: False
    let ?p = "child (leaf s va)"
    have p: "?p \<in> used_pages s" "?p \<notin> table_pages s" using M(3,4) [OF assms(2) valid] .
    from page_routines_ok(1) [OF M(2) p(1)] obtain t where t: "page_free ?p s = Inr t"
      and st: "page_step s (used_pages s - {?p}) (Suc (free_count s)) (Suc (unat (page_freelist_depth s))) t"
      by (auto simp: page_free_def)
    from st have F: "page_frame s t" "page_ok t" "used_pages t = used_pages s - {?p}"
      "free_count t = Suc (free_count s)" by (simp_all add: page_step_def)
    note V = vm_fields [OF page_frame_fields(8) [OF F(1)]]
    have tf: "tree_frame s t" using page_frame_fields [OF F(1)] V by (simp add: tree_frame_def root_pa_def kva2pa_def)
    have sub: "table_pages s \<subseteq> used_pages t" using table_pages_used [OF M(1)] p(2) F(3) by blast
    have ok: "pt_ok t" using pt_ok_frame [OF M(1) tf F(2) sub] .
    have a': "leaf_slot t va = Some a" using tree_frame_leaf(1) [OF tf assms(2)] a by simp
    let ?u = "t\<lparr>ptes := (ptes t)(a := 0)\<rparr>"
    note L = leaf_write [OF ok assms(2) a', where x = 0]
    have "wr_pte (pa2kva s a) 0 t = ?u" using V by (simp add: wr_pte_def kva2pa_def pa2kva_def)
    then have r: "munmap_page H va s = Inr ?u"
      using W False valid t by (simp add: munmap_page_def Let_def child_def)
    have lf: "leaf ?u w = (if same_page va w then 0 else leaf s w)" if "user_va w" for w
      using L(4) [OF that] tree_frame_leaf(2) [OF tf that] by simp
    have tp: "table_pages ?u = table_pages s"
    proof -
      have "root_pa ?u = root_pa t" by simp
      then have "table_pages ?u = table_pages t" by (simp only: table_pages_def L(2,3))
      with table_pages_frame [OF tf] show ?thesis by simp
    qed
    have "map_ok ?u"
      unfolding map_ok_def tp
    proof (intro conjI allI impI)
      show "pt_ok ?u" by (rule L(1))
      fix w
      assume w: "user_va w" "leaf ?u w AND PTE_V \<noteq> 0"
      then have lw: "\<not> same_page va w" "leaf ?u w = leaf s w" using lf by (auto split: if_splits)
      then have "child (leaf s w) \<noteq> ?p" using M(5) [OF assms(2) w(1) valid] w by auto
      with lw w M(3,4) [OF w(1)] F(3) show "child (leaf ?u w) \<in> used_pages ?u - table_pages s" by simp
      fix w'
      assume w': "user_va w'" "leaf ?u w' AND PTE_V \<noteq> 0" "child (leaf ?u w) = child (leaf ?u w')"
      then have "leaf ?u w' = leaf s w'" using lf by (auto split: if_splits)
      with lw w w' M(5) [OF w(1) w'(1)] show "same_page w w'" by simp
    qed
    moreover have "steady s t" using page_frame_fields [OF F(1)] V by (simp add: steady_def)
    ultimately have "vm_ok ?u" "steady s ?u"
      using assms(1) V page_frame_fields [OF F(1)] by (simp_all add: vm_ok_def steady_def)
    moreover have "same_regions s ?u" using V by (intro same_regions_eq) simp
    moreover have "gave_back s (same_page va) ?u"
      using valid V F(3,4)
      by (auto simp: gave_back_def frames_of_page [OF assms(2)] pages_with_page [OF assms(2)])
    moreover have "accounted ?u r k" if "accounted s r k" for r k
    proof -
      have "drop_bit 12 va \<notin> promised s"
      proof
        assume "drop_bit 12 va \<in> promised s"
        then obtain w where w: "user_va w" "same_page va w" "leaf s w \<noteq> 0" "leaf s w AND PTE_V = 0"
          by (auto simp: promised_def same_page_def)
        then show False using same_page_leaf [OF assms(2) w(1,2), of s] valid by simp
      qed
      then have "promised ?u = promised s" using promised_update [OF lf assms(2)] by simp
      then show ?thesis using that V F(4) by (simp add: accounted_def)
    qed
    ultimately show ?thesis
      using r lf L(2,3) F(4) tree_frame_tab1 [OF tf] tree_frame_tab0 [OF tf]
      by (intro exI [of _ ?u]) (simp add: fun_eq_iff)
  qed
qed

section \<open>Loops over pages\<close>

definition page_range :: "u64 \<Rightarrow> u64 \<Rightarrow> u64 list" where
  "page_range a e = map (\<lambda>i. a + of_nat (4096 * i)) [0..<(unat e - unat a + 4095) div 4096]"

lemma page_range_Nil: "\<not> a < e \<Longrightarrow> page_range a e = []"
  by (simp add: page_range_def word_less_nat_alt)

lemma page_range_step: "a < e \<Longrightarrow> unat e + 4096 \<le> 2 ^ 64 \<Longrightarrow> unat (a + PGSIZE) = unat a + 4096"
  using unat_u64_plus [of a PGSIZE] by (simp add: word_less_nat_alt)

lemma page_range_Cons:
  assumes "a < e" "unat e + 4096 \<le> 2 ^ 64"
  shows "page_range a e = a # page_range (a + PGSIZE) e"
proof -
  have a: "unat (a + PGSIZE) = unat a + 4096" using page_range_step [OF assms] .
  define x where "x = unat e - unat a"
  have "0 < x" using assms(1) by (simp add: x_def word_less_nat_alt)
  then have "(x + 4095) div 4096 = Suc ((x - 4096 + 4095) div 4096)" by (cases "x < 4096") auto
  then have n: "(unat e - unat a + 4095) div 4096 = Suc ((unat e - unat (a + PGSIZE) + 4095) div 4096)"
    by (simp add: x_def a)
  show ?thesis
    unfolding page_range_def n upt_conv_Cons [OF zero_less_Suc] map_Suc_upt [symmetric]
    by (simp add: add.assoc)
qed

lemma page_loop_range:
  assumes "unat e + 4096 \<le> 2 ^ 64"
  shows "page_loop f a e s = Some (foldE f (page_range a e) s)"
proof (induction "(unat e - unat a + 4095) div 4096" arbitrary: a s)
  case 0
  then have "\<not> a < e" by (auto simp: word_less_nat_alt)
  then show ?case by (simp add: page_loop.simps [of f a] page_range_Nil)
next
  case (Suc n)
  then have lt: "a < e" by (auto simp: word_less_nat_alt intro: ccontr)
  define x where "x = unat e - unat a"
  have "0 < x" using lt by (simp add: x_def word_less_nat_alt)
  then have "(x + 4095) div 4096 = Suc ((x - 4096 + 4095) div 4096)" by (cases "x < 4096") auto
  then have "n = (unat e - unat (a + PGSIZE) + 4095) div 4096"
    using Suc(2) by (simp add: x_def page_range_step [OF lt assms])
  from Suc(1) [OF this] show ?case
    by (simp add: page_loop.simps [of f a] lt page_range_Cons [OF lt assms] split: sum.split)
qed

lemma for_pages_range: "unat e + 4096 \<le> 2 ^ 64 \<Longrightarrow> for_pages f a e s = foldE f (page_range a e) s"
  by (simp add: for_pages_def page_loop_range)

text \<open>The pages that the range of \<open>len\<close> bytes from \<open>addr\<close> touches.\<close>

definition touches :: "u64 \<Rightarrow> u64 \<Rightarrow> u64 \<Rightarrow> bool" where
  "touches addr len va \<longleftrightarrow>
     unat addr div 4096 \<le> unat va div 4096 \<and> unat va div 4096 * 4096 < unat addr + unat len"

lemma same_page_div: "same_page a b \<longleftrightarrow> unat a div 4096 = unat b div 4096"
  by (simp add: same_page_def word_unat_eq_iff drop_bit_eq_div unat_div_distrib)

text \<open>A valid user range lies below \<open>mmap_max\<close>, hence below 2^38 when that is at most the user half.\<close>

lemma valid_range:
  assumes "valid_user_range s addr len" "mmap_max (current s) \<le> 0x4000000000" "0 < len"
  shows "unat addr + unat len \<le> 2 ^ 38" "unat (addr + len) = unat addr + unat len"
proof -
  let ?l = "addr + len - 1"
  have l: "\<not> ?l < addr" "?l < mmap_max (current s)"
    using assms(1) by (auto simp: valid_user_range_def Let_def split: if_splits)
  have b: "unat ?l < 2 ^ 38" using l(2) assms(2) by (simp add: word_less_nat_alt word_le_nat_alt)
  have len: "unat (len - 1) = unat len - 1" using assms(3) by (intro unat_minus_one) auto
  have "unat ?l = unat addr + unat (len - 1)"
  proof -
    have "?l = addr + (len - 1)" by simp
    moreover have "addr \<le> addr + (len - 1)" using l(1) by (simp add: not_less add_diff_eq)
    ultimately show ?thesis using unat_plus_simple [of addr "len - 1"] by metis
  qed
  moreover have "0 < unat len" using assms(3) by (simp add: word_less_nat_alt)
  ultimately show s: "unat addr + unat len \<le> 2 ^ 38" using len b by linarith
  then show "unat (addr + len) = unat addr + unat len" by (intro unat_u64_plus) simp
qed

lemma valid_range_0:
  assumes "mmap_max (current s) \<le> 0x4000000000"
  shows "\<not> valid_user_range s addr 0"
proof (cases "addr = 0")
  case True
  have "\<not> (- 1 :: u64) < mmap_max (current s)"
    using assms by (simp add: not_less)
  with True show ?thesis by (simp add: valid_user_range_def Let_def)
next
  case False
  then have "0 < unat addr" by (simp add: unat_gt_0)
  moreover have "unat (addr - 1) = unat addr - 1" using False by (intro unat_minus_one)
  ultimately show ?thesis by (simp add: valid_user_range_def Let_def word_less_nat_alt)
qed

lemma page_range_elems:
  assumes "unat addr mod 4096 = 0" "unat addr + unat len \<le> 2 ^ 38" "unat (addr + len) = unat addr + unat len"
  shows "a \<in> set (page_range addr (addr + len)) \<Longrightarrow> user_va a"
    and "a \<in> set (page_range addr (addr + len)) \<Longrightarrow> unat a mod 4096 = 0"
    and "(\<exists>a \<in> set (page_range addr (addr + len)). same_page a va) \<longleftrightarrow> touches addr len va"
proof -
  define n where "n = (unat len + 4095) div 4096"
  have set: "set (page_range addr (addr + len)) = (\<lambda>i. addr + of_nat (4096 * i)) ` {..<n}"
    using assms(3) by (auto simp: page_range_def n_def atLeast0LessThan)
  have n: "4096 * i < unat len" if "i < n" for i
  proof -
    from that have "Suc i \<le> (unat len + 4095) div 4096" by (simp add: n_def)
    then have "Suc i * 4096 \<le> unat len + 4095" by (simp add: less_eq_div_iff_mult_less_eq)
    then show ?thesis by simp
  qed
  have el: "unat (addr + of_nat (4096 * i)) = unat addr + 4096 * i" if "i < n" for i
  proof -
    have "4096 * i < 2 ^ 64" using n [OF that] assms(2) by simp
    then have "unat (of_nat (4096 * i) :: u64) = 4096 * i" by (rule unat_u64_of_nat)
    then show ?thesis using n [OF that] assms(2) by (intro trans [OF unat_u64_plus]) auto
  qed
  show "user_va a" "unat a mod 4096 = 0" if a: "a \<in> set (page_range addr (addr + len))"
  proof -
    from a set obtain i where i: "i < n" "a = addr + of_nat (4096 * i)" by auto
    have "unat a = unat addr + 4096 * i" using el [OF i(1)] i(2) by simp
    with n [OF i(1)] assms(1,2) show "user_va a" "unat a mod 4096 = 0"
      by (auto simp: user_va_def word_less_nat_alt)
  qed
  from assms(1) obtain k where k: "unat addr = 4096 * k" by (auto elim: dvdE)
  have "(\<exists>a \<in> set (page_range addr (addr + len)). same_page a va) \<longleftrightarrow> (\<exists>i<n. unat va div 4096 = k + i)"
    unfolding set same_page_div using el k by auto
  also have "\<dots> \<longleftrightarrow> k \<le> unat va div 4096 \<and> unat va div 4096 < k + n"
    by (auto intro: exI [of _ "unat va div 4096 - k"])
  also have "\<dots> \<longleftrightarrow> touches addr len va"
  proof -
    have "q < k + n \<longleftrightarrow> q * 4096 < 4096 * k + unat len" if "k \<le> q" for q
    proof -
      from that obtain d where d: "q = k + d" by (auto simp: le_iff_add)
      have "d < n \<longleftrightarrow> d * 4096 < unat len"
      proof
        show "d < n \<Longrightarrow> d * 4096 < unat len" using n [of d] by simp
        assume "d * 4096 < unat len"
        then have "Suc d * 4096 \<le> unat len + 4095" by simp
        then show "d < n" by (simp add: n_def Suc_le_eq [symmetric] less_eq_div_iff_mult_less_eq)
      qed
      then show ?thesis by (simp add: d algebra_simps)
    qed
    then show ?thesis by (auto simp: touches_def k)
  qed
  finally show "(\<exists>a \<in> set (page_range addr (addr + len)). same_page a va) \<longleftrightarrow> touches addr len va" .
qed

lemma munmap_pages_ok:
  fixes s :: "('h, 'z) vm_st_scheme"
  assumes "vm_ok s" "\<forall>a \<in> set as. user_va a"
  shows "\<exists>s'. foldE (munmap_page H) as s = Inr s' \<and> vm_ok s' \<and> steady s s'
    \<and> (\<forall>w. user_va w \<longrightarrow> leaf s' w = (if \<exists>a \<in> set as. same_page a w then 0 else leaf s w))
    \<and> tab1 s' = tab1 s \<and> tab0 s' = tab0 s \<and> free_count s \<le> free_count s'
    \<and> same_regions s s' \<and> gave_back s (\<lambda>w. \<exists>a \<in> set as. same_page a w) s'
    \<and> (\<forall>r k. accounted s r k \<longrightarrow> accounted s' r k)"
  using assms
proof (induction as arbitrary: s)
  case (Cons a as)
  from munmap_page_ok [OF Cons.prems(1), of a H] Cons.prems(2) obtain t where t: "munmap_page H a s = Inr t"
    "vm_ok t" "steady s t" "\<forall>w. user_va w \<longrightarrow> leaf t w = (if same_page a w then 0 else leaf s w)"
    "tab1 t = tab1 s" "tab0 t = tab0 s" "free_count s \<le> free_count t" "same_regions s t"
    "\<forall>r k. accounted s r k \<longrightarrow> accounted t r k" "gave_back s (same_page a) t" by auto
  from Cons.IH [OF t(2)] Cons.prems(2) obtain s' where s': "foldE (munmap_page H) as t = Inr s'"
    "vm_ok s'" "steady t s'"
    "\<forall>w. user_va w \<longrightarrow> leaf s' w = (if \<exists>a \<in> set as. same_page a w then 0 else leaf t w)"
    "tab1 s' = tab1 t" "tab0 s' = tab0 t" "free_count t \<le> free_count s'" "same_regions t s'"
    "\<forall>r k. accounted t r k \<longrightarrow> accounted s' r k" "gave_back t (\<lambda>w. \<exists>a \<in> set as. same_page a w) s'" by auto
  have "map_ok s" using Cons.prems(1) by (simp add: vm_ok_def)
  then have "gave_back s (\<lambda>w. same_page a w \<or> (\<exists>b \<in> set as. same_page b w)) s'"
    using t(4) by (intro gave_back_trans [OF t(10) s'(10)]) (auto simp: same_page_def)
  with t s' steady_trans [OF t(3) s'(3)] same_regions_trans [OF t(8) s'(8)] show ?case by (intro exI [of _ s']) auto
qed (auto simp: same_regions_eq intro: gave_back_none)

section \<open>Regions\<close>

lemma grows_vm_ok:
  assumes "vm_ok s" "grows s s'"
  shows "vm_ok s'" "steady s s'" "vm_rest s s'"
proof -
  have more: "page_st.more s' = page_st.more s" "first_free_page s' = first_free_page s"
    "free_pages s' = free_pages s" using assms(2) by (simp_all add: grows_def)
  note V = vm_fields [OF more(1)]
  have m: "map_ok s" using assms(1) by (simp add: vm_ok_def)
  have g: "pt_ok s'" "used_pages s \<subseteq> used_pages s'" "table_pages s' = table_pages s \<union> (used_pages s' - used_pages s)"
    "\<And>va. user_va va \<Longrightarrow> leaf s' va = leaf s va" using assms(2) by (simp_all add: grows_def)
  have "map_ok s'"
    unfolding map_ok_def g(3)
  proof (intro conjI allI impI)
    show "pt_ok s'" by (rule g(1))
    fix w
    assume w: "user_va w" "leaf s' w AND PTE_V \<noteq> 0"
    then show "child (leaf s' w) \<in> used_pages s' - (table_pages s \<union> (used_pages s' - used_pages s))"
      using map_okD(3,4) [OF m w(1)] g(2,4) by auto
    show "same_page w w'" if "user_va w'" "leaf s' w' AND PTE_V \<noteq> 0" "child (leaf s' w) = child (leaf s' w')" for w'
      using map_okD(5) [OF m w(1) that(1)] w that g(4) by auto
  qed
  with assms(1) V more show "vm_ok s'" "steady s s'" "vm_rest s s'"
    by (simp_all add: vm_ok_def steady_def vm_rest_def)
qed

lemma even_add_ptr: "even_ptr a \<Longrightarrow> even_ptr b \<Longrightarrow> even_ptr (a + b)"
  by (simp add: even_ptr_word)

lemma vmr_page_list_even:
  assumes "even_ptr p" "\<forall>v. even_ptr v \<longrightarrow> even_ptr (vmr_next (m v))"
  shows "\<forall>v. even_ptr v \<longrightarrow> even_ptr (vmr_next (vmr_page_list p m v))"
proof -
  have step: "even_ptr (p + of_nat k * SIZEOF_VMR)" for k
    using assms(1) by (simp add: even_ptr_word SIZEOF_VMR_def)
  have keep: "\<forall>v. even_ptr v \<longrightarrow> even_ptr (vmr_next (fold (\<lambda>i m. let a = p + of_nat i * SIZEOF_VMR
                 in m(a := (m a)\<lparr>vmr_next := p + of_nat (Suc i) * SIZEOF_VMR\<rparr>)) is m v))"
    if "\<forall>v. even_ptr v \<longrightarrow> even_ptr (vmr_next (m v))" for "is" m
    using that
  proof (induction "is" arbitrary: m)
    case (Cons i "is")
    have "\<forall>v. even_ptr v \<longrightarrow> even_ptr (vmr_next ((m(p + of_nat i * SIZEOF_VMR :=
        (m (p + of_nat i * SIZEOF_VMR))\<lparr>vmr_next := p + of_nat (Suc i) * SIZEOF_VMR\<rparr>)) v))"
      using Cons.prems step [of "Suc i"] by (simp del: of_nat_Suc)
    from Cons.IH [OF this] show ?case by (simp only: fold_Cons o_apply Let_def)
  qed simp
  have "even_ptr 0" by (simp add: even_ptr_def)
  then show ?thesis
    unfolding vmr_page_list_def using assms(2) by (intro keep) (auto simp: blank_vmr_def)
qed

lemma even_page_kva:
  assumes "vm_ok s" "p mod PGSIZE = 0"
  shows "even_ptr (pa2kva s p)"
proof -
  have "p = p div PGSIZE * PGSIZE" using assms(2) div_mult_mod_eq [of p PGSIZE] by simp
  then have "even p" by (metis dvd_triv_right dvd_trans even_numeral)
  with assms(1) show ?thesis
    by (simp add: even_ptr_word pa2kva_def vm_ok_def KVA_START_val MEM_START_def)
qed

text \<open>What demand paging leaves alone: files, the bytes of pages in use, tables, and the file and
  protection of every region.\<close>

definition kept :: "('h, 'z) vm_st_scheme \<Rightarrow> ('h, 'z) vm_st_scheme \<Rightarrow> bool" where
  "kept s s' \<longleftrightarrow>
     fds s' = fds s \<and> files s' = files s \<and> host s' = host s \<and> vm_st.more s' = vm_st.more s
     \<and> table_pages s' = table_pages s
     \<and> (\<forall>v. vmr_prot (vmrs s' v) = vmr_prot (vmrs s v) \<and> vmr_file (vmrs s' v) = vmr_file (vmrs s v))
     \<and> (\<forall>q \<in> used_pages s. \<forall>a. unat (a - q) < 4096 \<longrightarrow> pmem s' a = pmem s a)"

lemma new_page_vm_ok:
  fixes s :: "('h, 'z) vm_st_scheme"
  assumes "vm_ok s" "0 < free_count s"
  obtains p s' where "page_alloc s = Inr (p, s')" "p \<noteq> 0" "p \<notin> used_pages s" "p mod PGSIZE = 0"
    "vm_ok s'" "used_pages s' = insert p (used_pages s)" "Suc (free_count s') = free_count s"
    "tree_frame s s'" "steady s s'" "vm_rest s s'" "fds s' = fds s" "files s' = files s" "host s' = host s"
    "pa2kva s p \<noteq> 0" "\<forall>a. unat (a - p) < 4096 \<longrightarrow> pmem s' a = 0" "kept s s'"
proof -
  have m: "map_ok s" using assms(1) by (simp add: vm_ok_def)
  obtain p s' where p: "page_alloc s = Inr (p, s')" "p \<noteq> 0" "p \<notin> used_pages s" "p mod PGSIZE = 0"
    "page_ok s'" "used_pages s' = insert p (used_pages s)" "Suc (free_count s') = free_count s"
    "tree_frame s s'" "pt_ok s'" and same: "page_st.more s' = page_st.more s"
    "first_free_page s' = first_free_page s" "free_pages s' = free_pages s" "host s' = host s"
    "fds s' = fds s" "files s' = files s"
    and z: "\<forall>a. unat (a - p) < 4096 \<longrightarrow> ptes s' a = 0 \<and> pmem s' a = 0"
    and k: "\<forall>q \<in> used_pages s. \<forall>a. unat (a - q) < 4096 \<longrightarrow> pmem s' a = pmem s a \<and> ptes s' a = ptes s a"
    by (rule alloc_fresh [OF map_okD(1) [OF m] assms(2)])
  note V = vm_fields [OF same(1)]
  have lf: "leaf s' w = leaf s w" if "user_va w" for w using tree_frame_leaf(2) [OF p(8) that] .
  have "map_ok s'"
    unfolding map_ok_def table_pages_frame [OF p(8)] p(6)
  proof (intro conjI allI impI)
    show "pt_ok s'" by (rule p(9))
    fix w
    assume w: "user_va w" "leaf s' w AND PTE_V \<noteq> 0"
    then show "child (leaf s' w) \<in> insert p (used_pages s) - table_pages s"
      using map_okD(3,4) [OF m w(1)] lf by auto
    show "same_page w w'" if "user_va w'" "leaf s' w' AND PTE_V \<noteq> 0" "child (leaf s' w) = child (leaf s' w')" for w'
      using map_okD(5) [OF m w(1) that(1)] w that lf by auto
  qed
  with assms(1) V same have ok: "vm_ok s'" "steady s s'" "vm_rest s s'"
    by (simp_all add: vm_ok_def steady_def vm_rest_def)
  have "pa2kva s' p \<noteq> 0" using used_kva [OF ok(1), of p p] p(6) by simp
  then have "pa2kva s p \<noteq> 0" using V by (simp add: pa2kva_def)
  moreover have "kept s s'"
    using same ok(3) V(10) k table_pages_frame [OF p(8)] by (simp add: kept_def vm_rest_def)
  ultimately show ?thesis using p same ok z by (intro that [of p s']) blast+
qed

lemma file_incref_quiet:
  fixes s :: "('h, 'z) vm_st_scheme"
  assumes "0 < refcnt (files s f)"
  obtains s' where "file_incref f s = Inr s'" "quiet s s'" "steady s s'" "vm_rest s s'"
  using assms that [of "set_refcnt f (refcnt (files s f) + 1) s"]
  by (auto simp: file_incref_def set_refcnt_def quiet_def steady_def vm_rest_def kassert_def Let_def)

definition file_live :: "nat option \<Rightarrow> ('h, 'z) vm_st_scheme \<Rightarrow> bool" where
  "file_live f s \<longleftrightarrow> (case f of None \<Rightarrow> True | Some f \<Rightarrow> 0 < refcnt (files s f))"

lemma vm_ok_quiet:
  assumes "vm_ok s" "quiet s s'" "even_ptr (vmr_freelist_head s')"
    "\<forall>v. even_ptr v \<longrightarrow> even_ptr (vmr_next (vmrs s' v))"
  shows "vm_ok s'"
  using assms quiet_ok(2) [OF assms(2)] by (simp add: vm_ok_def quiet_def)

definition region_is :: "('h, 'z) vm_st_scheme \<Rightarrow> u64 \<Rightarrow> u64 \<Rightarrow> u64 \<Rightarrow> nat option \<Rightarrow> u64 \<Rightarrow> u32 \<Rightarrow> bool" where
  "region_is s v addr len f offset prot \<longleftrightarrow> vmr_addr (vmrs s v) = addr \<and> vmr_length (vmrs s v) = len
     \<and> vmr_file (vmrs s v) = f \<and> vmr_offset (vmrs s v) = offset \<and> vmr_prot (vmrs s v) = prot"

lemma region_is_same: "same_regions s t \<Longrightarrow> region_is t v addr len f offset prot = region_is s v addr len f offset prot"
  by (simp add: same_regions_def region_is_def)

lemma vmr_alloc_ok:
  fixes s :: "('h, 'z) vm_st_scheme"
  assumes "vm_ok s" "0 < free_count s" "file_live f s"
  shows "\<exists>v s'. vmr_alloc addr len f offset cnt prot s = Inr (v, s') \<and> v \<noteq> 0 \<and> even_ptr v \<and> vm_ok s'
    \<and> steady s s' \<and> tree_frame s s' \<and> free_count s \<le> Suc (free_count s')
    \<and> pages_promised s' = pages_promised s + ucast cnt \<and> region_is s' v addr len f offset prot
    \<and> (\<forall>k. accounted s 0 (unat cnt + 1 + k) \<longrightarrow> accounted s' (unat cnt) k)"
proof -
  let ?first = "if vmr_freelist_head s = 0
        then bindE (page_alloc s) (\<lambda>(pa, s).
               let new_vmrs = pa2kva s pa
               in if new_vmrs = 0 then Inr (False, s)
                  else Inr (True, s\<lparr>vmr_freelist_head := new_vmrs,
                                    vmrs := vmr_page_list new_vmrs (vmrs s)\<rparr>))
        else Inr (True, s)"
  have "\<exists>t. ?first = Inr (True, t) \<and> vm_ok t \<and> vmr_freelist_head t \<noteq> 0 \<and> steady s t \<and> tree_frame s t
      \<and> free_count s \<le> Suc (free_count t) \<and> pages_promised t = pages_promised s \<and> file_live f t"
  proof (cases "vmr_freelist_head s = 0")
    case True
    obtain p t where p: "page_alloc s = Inr (p, t)" "p \<noteq> 0" "p \<notin> used_pages s" "p mod PGSIZE = 0"
      "vm_ok t" "used_pages t = insert p (used_pages s)" "Suc (free_count t) = free_count s"
      "tree_frame s t" "steady s t" "vm_rest s t" "fds t = fds s" "files t = files s" "host t = host s"
      "pa2kva s p \<noteq> 0" "\<forall>a. unat (a - p) < 4096 \<longrightarrow> pmem t a = 0"
      by (rule new_page_vm_ok [OF assms(1,2)])
    have off: "pa2kva t p = pa2kva s p" using p(9) by (simp add: pa2kva_def steady_def)
    let ?t = "t\<lparr>vmr_freelist_head := pa2kva s p, vmrs := vmr_page_list (pa2kva s p) (vmrs t)\<rparr>"
    have ev: "even_ptr (pa2kva s p)" using even_page_kva [OF assms(1) p(4)] .
    have q: "quiet t ?t" by (simp add: quiet_def)
    have "\<forall>v. even_ptr v \<longrightarrow> even_ptr (vmr_next (vmrs t v))" using p(5) by (simp add: vm_ok_def)
    from vmr_page_list_even [OF ev this] have "vm_ok ?t" using vm_ok_quiet [OF p(5) q] ev by simp
    moreover have "tree_frame s ?t" using p(8,9) by (simp add: tree_frame_def root_pa_def kva2pa_def steady_def)
    moreover have "steady s ?t" using p(9) by (simp add: steady_def)
    moreover have "file_live f ?t" using assms(3) p(12) by (simp add: file_live_def split: option.splits)
    ultimately show ?thesis
      using True p(1,7,10,14) off quiet_page(3) [OF q] by (intro exI [of _ ?t]) (simp add: vm_rest_def Let_def)
  next
    case False
    with assms show ?thesis by (auto simp: tree_frame_def)
  qed
  then obtain t where t: "?first = Inr (True, t)" "vm_ok t" "vmr_freelist_head t \<noteq> 0" "steady s t"
    "tree_frame s t" "free_count s \<le> Suc (free_count t)" "pages_promised t = pages_promised s" "file_live f t"
    by blast
  let ?v = "vmr_freelist_head t"
  let ?u = "t\<lparr>vmr_freelist_head := vmr_next (vmrs t ?v), pages_promised := pages_promised t + ucast cnt\<rparr>"
  have ev: "even_ptr ?v" "\<forall>v. even_ptr v \<longrightarrow> even_ptr (vmr_next (vmrs t v))"
    using t(2) by (simp_all add: vm_ok_def)
  obtain w where w: "(case f of None \<Rightarrow> Inr ?u | Some f \<Rightarrow> file_incref f ?u) = Inr w"
    "quiet ?u w" "steady ?u w" "vm_rest ?u w"
  proof (cases f)
    case None
    then show ?thesis using that by (simp add: vm_rest_def)
  next
    case (Some g)
    have "0 < refcnt (files ?u g)" using t(8) Some by (simp add: file_live_def)
    from file_incref_quiet [OF this] obtain w where "file_incref g ?u = Inr w" "quiet ?u w" "steady ?u w"
      "vm_rest ?u w" by blast
    with that Some show ?thesis by simp
  qed
  let ?rec = "\<lambda>r. r\<lparr>vmr_addr := addr, vmr_length := len, vmr_file := f,
                     vmr_offset := offset, vmr_refcnt := cnt, vmr_prot := prot\<rparr>"
  let ?s = "upd_vmr ?v ?rec w"
  have q: "quiet t ?s" using w(2) by (simp add: quiet_def upd_vmr_def)
  have "vm_ok ?s"
    using vm_ok_quiet [OF t(2) q] ev w(4) by (simp add: vm_rest_def upd_vmr_def)
  moreover have "tree_frame s ?s"
    using t(5) quiet_tree [OF q] table_pages_frame [OF t(5)] by (auto simp: tree_frame_def)
  moreover have "steady s ?s" using t(4) w(3) by (simp add: steady_def upd_vmr_def)
  moreover have "vmr_alloc addr len f offset cnt prot s = Inr (?v, ?s)"
    unfolding vmr_alloc_def t(1) using w(1) by (cases f) (simp_all add: Let_def)
  moreover have pp: "pages_promised ?s = pages_promised s + ucast cnt"
    using w(4) t(7) by (simp add: vm_rest_def upd_vmr_def)
  moreover have "region_is ?s ?v addr len f offset prot" by (simp add: region_is_def upd_vmr_def)
  moreover have "accounted ?s (unat cnt) k" if a: "accounted s 0 (unat cnt + 1 + k)" for k
  proof -
    have "leaf ?s x = leaf s x" if "user_va x" for x
      using tree_frame_leaf(2) [OF t(5) that] by (simp add: quiet_views(4) [OF q])
    then have pr: "promised ?s = promised s" by (rule promised_cong)
    have "page_ok s" using assms(1) by (simp add: vm_ok_def map_okD(2))
    then have "free_count s < 2 ^ 52" by (rule free_count_small)
    moreover have uc: "unat (ucast cnt :: u64) = unat cnt"
      using unsigned_less [of cnt, where 'a = nat] by (simp add: unsigned_ucast_eq take_bit_nat_eq_self)
    ultimately have "unat (pages_promised s + ucast cnt) = unat (pages_promised s) + unat cnt"
      using a uc by (subst unat_u64_plus) (simp_all add: accounted_def)
    then show ?thesis using a t(6) pp pr quiet_page(3) [OF q] by (simp add: accounted_def)
  qed
  ultimately show ?thesis using t(3,6) ev quiet_page(3) [OF q] by auto
qed

section \<open>Mapping\<close>

lemma mmap_page_ok:
  fixes s :: "('h, 'z) vm_st_scheme"
  assumes "vm_ok s" "user_va va" "unat va mod 4096 = 0" "even_ptr v" "missing s va \<le> free_count s"
  shows "\<exists>s'. mmap_page H v va s = Inr s' \<and> vm_ok s' \<and> steady s s'
    \<and> (\<forall>w. user_va w \<longrightarrow> leaf s' w = (if same_page va w then v else leaf s w))
    \<and> (\<forall>w t. tab1 s w = Some t \<longrightarrow> tab1 s' w = Some t)
    \<and> (\<forall>w t. user_va w \<longrightarrow> tab0 s w = Some t \<longrightarrow> tab0 s' w = Some t)
    \<and> tab0 s' va \<noteq> None \<and> tab1 s' va \<noteq> None \<and> free_count s \<le> free_count s' + missing s va
    \<and> same_regions s s' \<and> (v \<noteq> 0 \<longrightarrow> (\<forall>r k. accounted s (Suc r) (k + missing s va) \<longrightarrow> accounted s' r k))"
proof -
  have "pt_ok s" using assms(1) by (simp add: vm_ok_def map_okD(1))
  from walk_create_ok [OF this assms(2,5)] obtain t a where t: "walk_create va s = Inr (pa2kva s a, t)"
    "grows s t" "leaf_slot t va = Some a" "free_count t + missing s va = free_count s" by blast
  note G = grows_vm_ok [OF assms(1) t(2)]
  have kva: "pa2kva t a = pa2kva s a" using G(2) by (simp add: pa2kva_def steady_def)
  have nz: "pa2kva s a \<noteq> 0" using leaf_slot_kva [OF G(1) assms(2) t(3)] kva by simp
  have rd: "rd_pte t (pa2kva s a) = leaf t va" using t(3) kva by (metis walk_leaf(1,2))
  have lt: "leaf t w = leaf s w" if "user_va w" for w using t(2) that by (simp add: grows_def)
  obtain u where u: "(if rd_pte t (pa2kva s a) \<noteq> 0 then do_munmap_locked H va PGSIZE t else Inr t) = Inr u"
    "vm_ok u" "steady t u" "\<forall>w. user_va w \<longrightarrow> \<not> same_page va w \<longrightarrow> leaf u w = leaf t w"
    "tab1 u = tab1 t" "tab0 u = tab0 t" "free_count t \<le> free_count u" "leaf u va = 0" "same_regions t u"
    "\<forall>r k. accounted t r k \<longrightarrow> accounted u r k"
  proof (cases "leaf t va = 0")
    case True
    with rd G(1) show ?thesis by (intro that [of t]) (simp_all add: same_regions_eq)
  next
    case False
    have b: "unat va + 4096 \<le> 2 ^ 38"
    proof -
      obtain k where k: "unat va = 4096 * k" using assms(3) by (auto elim: dvdE)
      have "unat va < 2 ^ 38" using assms(2) by (simp add: user_va_def word_less_nat_alt)
      then have "k < 2 ^ 26" using k by simp
      then show ?thesis using k by simp
    qed
    then have e: "unat (va + PGSIZE) = unat va + 4096" by (subst unat_u64_plus) simp_all
    then have lt1: "va < va + PGSIZE" by (simp add: word_less_nat_alt)
    have "page_range va (va + PGSIZE) = [va]"
      using b e by (subst page_range_Cons [OF lt1]) (simp_all add: page_range_Nil)
    then have one: "do_munmap_locked H va PGSIZE t = foldE (munmap_page H) [va] t"
      unfolding do_munmap_locked_def using b e by (subst for_pages_range) simp_all
    have "\<forall>a \<in> set [va]. user_va a" using assms(2) by simp
    from munmap_pages_ok [OF G(1) this, of H] obtain u where "foldE (munmap_page H) [va] t = Inr u"
      "vm_ok u" "steady t u"
      "\<forall>w. user_va w \<longrightarrow> leaf u w = (if \<exists>a \<in> set [va]. same_page a w then 0 else leaf t w)"
      "tab1 u = tab1 t" "tab0 u = tab0 t" "free_count t \<le> free_count u" "same_regions t u"
      "\<forall>r k. accounted t r k \<longrightarrow> accounted u r k" by blast
    moreover have "same_page va va" by (simp add: same_page_def)
    ultimately show ?thesis using False rd one assms(2) by (intro that [of u]) simp_all
  qed
  have a: "leaf_slot u va = Some a" using t(3) u(6) by (simp add: leaf_slot_def)
  have even: "v AND PTE_V = 0" using assms(4) by (simp add: even_ptr_def)
  note L = set_leaf_ok [OF u(2) assms(2) a, of v]
  let ?s = "u\<lparr>ptes := (ptes u)(a := v)\<rparr>"
  have w: "wr_pte (pa2kva s a) v u = ?s"
    using u(3) kva by (simp add: wr_pte_def kva2pa_def pa2kva_def steady_def)
  have r: "mmap_page H v va s = Inr ?s"
    unfolding mmap_page_def using t(1) nz u(1) w by (simp add: kassert_def)
  have ok: "vm_ok ?s" "tab1 ?s = tab1 u" "tab0 ?s = tab0 u" "free_count ?s = free_count u" "steady u ?s"
    using L even by simp_all
  have lf: "leaf ?s w = (if same_page va w then v else leaf s w)" if "user_va w" for w
    using L(2) [OF _ that] even u(4) that lt [OF that] by auto
  have "tab0 ?s va \<noteq> None" using a ok(3) by (auto simp: leaf_slot_def)
  moreover have "tab1 ?s va \<noteq> None"
    using \<open>tab0 ?s va \<noteq> None\<close> by (cases "tab1 ?s va") (simp_all add: tab0_def)
  moreover have "steady s ?s" using steady_trans [OF G(2) steady_trans [OF u(3) ok(5)]] .
  moreover have "\<forall>w t. tab1 s w = Some t \<longrightarrow> tab1 ?s w = Some t"
    "\<forall>w t. user_va w \<longrightarrow> tab0 s w = Some t \<longrightarrow> tab0 ?s w = Some t"
    using t(2) unfolding ok(2,3) u(5,6) grows_def by blast+
  moreover have "same_regions s ?s"
  proof -
    have "same_regions s t" "same_regions u ?s" using G(3) by (simp_all add: same_regions_eq vm_rest_def)
    then show ?thesis using u(9) same_regions_trans by blast
  qed
  moreover have "accounted ?s r k" if v: "v \<noteq> 0" and ac: "accounted s (Suc r) (k + missing s va)" for r k
  proof -
    have "accounted t (Suc r) k"
      using accounted_same [OF ac lt, of "k"] G(3) t(4) by (simp add: vm_rest_def)
    then have au: "accounted u (Suc r) k" using u(10) by blast
    have "drop_bit 12 va \<notin> promised u"
    proof
      assume "drop_bit 12 va \<in> promised u"
      then obtain w where w: "user_va w" "same_page va w" "leaf u w \<noteq> 0" by (auto simp: promised_def same_page_def)
      then show False using same_page_leaf [OF assms(2) w(1,2), of u] u(8) by simp
    qed
    moreover have "promised ?s = insert (drop_bit 12 va) (promised u)"
      using promised_update [OF L(2) assms(2)] even v by simp
    ultimately have "card (promised ?s) = Suc (card (promised u))" by simp
    then show ?thesis using au ok(4) by (simp add: accounted_def)
  qed
  ultimately show ?thesis using r ok(1,4) lf u(7) t(4) by (intro exI [of _ ?s]) simp
qed

text \<open>
  The tables a run of pages needs.  A page whose 2 MiB region already has its last-level table
  needs none, and mapping a page provides that table for the rest of the region; so a run of
  \<open>n\<close> pages needs at most two tables for its first page and two at each region boundary.
\<close>

definition boundaries :: "nat \<Rightarrow> nat \<Rightarrow> nat" where
  "boundaries k n = card {j. k < j \<and> j < k + n \<and> j mod 512 = 0}"

lemma boundaries_0: "boundaries k 0 = 0" "boundaries k (Suc 0) = 0"
proof -
  have "{j. k < j \<and> j < k + Suc 0 \<and> j mod 512 = 0} = {}" by auto
  then show "boundaries k (Suc 0) = 0" unfolding boundaries_def by (metis card.empty)
qed (simp add: boundaries_def)

lemma boundaries_Suc:
  "boundaries k (Suc (Suc n)) = (if Suc k mod 512 = 0 then 1 else 0) + boundaries (Suc k) (Suc n)"
proof -
  let ?A = "{j. Suc k < j \<and> j < Suc k + Suc n \<and> j mod 512 = 0}"
  have fin: "finite ?A" by (rule finite_subset [of _ "{..<Suc k + Suc n}"]) auto
  have "{j. k < j \<and> j < k + Suc (Suc n) \<and> j mod 512 = 0} = (if Suc k mod 512 = 0 then insert (Suc k) ?A else ?A)"
    by (auto simp: less_Suc_eq Suc_less_eq intro: Suc_lessI)
  then show ?thesis using fin by (simp add: boundaries_def)
qed

lemma boundaries_le: "boundaries k n \<le> n div 512 + 1"
proof -
  have "{j. k < j \<and> j < k + n \<and> j mod 512 = 0} \<subseteq> (\<lambda>i. 512 * (k div 512 + i)) ` {1..n div 512 + 1}"
  proof
    fix j
    assume "j \<in> {j. k < j \<and> j < k + n \<and> j mod 512 = 0}"
    then have j: "k < j" "j < k + n" "j = 512 * (j div 512)" by auto
    have "k div 512 < j div 512" using j(1,3) less_mult_imp_div_less [of k "j div 512" 512] by simp
    moreover have "j div 512 \<le> k div 512 + n div 512 + 1"
      using j(2) by linarith
    moreover define i where "i = j div 512 - k div 512"
    ultimately have "j div 512 = k div 512 + i" "1 \<le> i" "i \<le> n div 512 + 1" by linarith+
    then show "j \<in> (\<lambda>i. 512 * (k div 512 + i)) ` {1..n div 512 + 1}"
      using j(3) by (intro image_eqI [of _ _ i]) simp_all
  qed
  from card_mono [OF _ this] card_image_le [of "{1..n div 512 + 1}" "\<lambda>i. 512 * (k div 512 + i)"]
  show ?thesis unfolding boundaries_def by simp
qed

lemma next_page_same0:
  assumes "unat (a + PGSIZE) = unat a + 4096" "Suc (unat a div 4096) mod 512 \<noteq> 0" "unat a mod 4096 = 0"
  shows "same0 a (a + PGSIZE)"
proof -
  obtain k where k: "unat a = 4096 * k" using assms(3) by (auto elim: dvdE)
  have k1: "Suc k mod 512 \<noteq> 0" using assms(2) k by simp
  then have d: "Suc k div 512 = k div 512" by (simp add: div_Suc)
  have e: "drop_bit (9 * l + 12) (a + PGSIZE) = drop_bit (9 * l + 12) a" if l: "1 \<le> l" for l
  proof -
    obtain m where m: "l = Suc m" using l by (cases l) simp_all
    have u: "unat (drop_bit (9 * l + 12) w) = unat w div 4096 div 512 div 2 ^ (9 * m)" for w :: u64
      unfolding unat_drop_bit_eq unfolding drop_bit_eq_div m
      by (simp add: power_add div_mult2_eq [symmetric] ac_simps)
    show ?thesis
      unfolding word_unat_eq_iff u assms(1) k using d by simp
  qed
  have "pt_idx a l = pt_idx (a + PGSIZE) l" if "1 \<le> l" for l
    unfolding pt_idx_def e [OF that] ..
  then show ?thesis by (simp add: same0_def same1_def)
qed

lemma missing_le: "missing s va \<le> 2"
  by (simp add: missing_def split: option.splits)

definition tables_for :: "('h, 'z) vm_st_scheme \<Rightarrow> u64 \<Rightarrow> nat \<Rightarrow> nat" where
  "tables_for s a n = (if n = 0 then 0 else missing s a + 2 * boundaries (unat a div 4096) n)"

lemma mmap_pages_ok:
  fixes s :: "('h, 'z) vm_st_scheme"
  assumes "vm_ok s" "even_ptr v" "unat a mod 4096 = 0" "unat a + 4096 * n \<le> 2 ^ 38"
    and "tables_for s a n \<le> free_count s"
  shows "\<exists>s'. foldE (mmap_page H v) (map (\<lambda>i. a + of_nat (4096 * i)) [0..<n]) s = Inr s' \<and> vm_ok s' \<and> steady s s'
    \<and> (\<forall>w. user_va w \<longrightarrow> leaf s' w =
          (if \<exists>i<n. same_page (a + of_nat (4096 * i)) w then v else leaf s w))
    \<and> same_regions s s' \<and> (v \<noteq> 0 \<longrightarrow> (\<forall>k. accounted s n (k + tables_for s a n) \<longrightarrow> accounted s' 0 k))"
  using assms
proof (induction n arbitrary: a s)
  case 0
  then show ?case by (simp add: same_regions_eq tables_for_def)
next
  case (Suc n)
  have ua: "user_va a" using Suc.prems(4) by (simp add: user_va_def word_less_nat_alt)
  have need: "missing s a \<le> free_count s" using Suc.prems(5) by (simp add: tables_for_def)
  from mmap_page_ok [OF Suc.prems(1) ua Suc.prems(3,2) need, of H] obtain t where
    t: "mmap_page H v a s = Inr t" "vm_ok t" "steady s t"
    "\<forall>w. user_va w \<longrightarrow> leaf t w = (if same_page a w then v else leaf s w)"
    "tab0 t a \<noteq> None" "tab1 t a \<noteq> None" "free_count s \<le> free_count t + missing s a" "same_regions s t"
    "v \<noteq> 0 \<longrightarrow> (\<forall>r k. accounted s (Suc r) (k + missing s a) \<longrightarrow> accounted t r k)" by blast
  have nxt: "unat (a + PGSIZE) = unat a + 4096" using Suc.prems(4) by (subst unat_u64_plus) auto
  have tb: "tables_for t (a + PGSIZE) n + missing s a \<le> tables_for s a (Suc n)"
  proof (cases n)
    case 0
    then show ?thesis by (simp add: tables_for_def)
  next
    case (Suc m)
    have k: "unat (a + PGSIZE) div 4096 = Suc (unat a div 4096)" by (simp add: nxt)
    have "missing t (a + PGSIZE) \<le> 2 * (if Suc (unat a div 4096) mod 512 = 0 then 1 else 0)"
    proof (cases "Suc (unat a div 4096) mod 512 = 0")
      case False
      from next_page_same0 [OF nxt False Suc.prems(3)] have "same0 a (a + PGSIZE)" .
      then have "tab0 t (a + PGSIZE) = tab0 t a" "tab1 t (a + PGSIZE) = tab1 t a"
        using same0_tab0 [of a "a + PGSIZE" t] same1_tab1 [of a "a + PGSIZE" t] by (auto simp: same0_def)
      with t(5,6) show ?thesis by (auto simp: missing_def)
    qed (simp add: missing_le)
    then show ?thesis by (simp add: Suc k boundaries_Suc tables_for_def split: if_splits)
  qed
  then have nd: "tables_for t (a + PGSIZE) n \<le> free_count t" using Suc.prems(5) t(7) by simp
  have al: "unat (a + PGSIZE) mod 4096 = 0" "unat (a + PGSIZE) + 4096 * n \<le> 2 ^ 38"
    using Suc.prems(3,4) by (simp_all add: nxt)
  from Suc.IH [OF t(2) Suc.prems(2) al nd] obtain s' where s': "foldE (mmap_page H v) (map (\<lambda>i. (a + PGSIZE) + of_nat (4096 * i)) [0..<n]) t = Inr s'"
    "vm_ok s'" "steady t s'"
    "\<forall>w. user_va w \<longrightarrow> leaf s' w = (if \<exists>i<n. same_page ((a + PGSIZE) + of_nat (4096 * i)) w then v else leaf t w)"
    "same_regions t s'" "v \<noteq> 0 \<longrightarrow> (\<forall>k. accounted t n (k + tables_for t (a + PGSIZE) n) \<longrightarrow> accounted s' 0 k)"
    by blast
  have sh: "a + of_nat (4096 * Suc i) = (a + PGSIZE) + of_nat (4096 * i)" for i by (simp add: add.assoc)
  have l: "map (\<lambda>i. a + of_nat (4096 * i)) [0..<Suc n]
      = a # map (\<lambda>i. (a + PGSIZE) + of_nat (4096 * i)) [0..<n]"
    unfolding upt_conv_Cons [OF zero_less_Suc] map_Suc_upt [symmetric] by (simp add: sh del: of_nat_Suc of_nat_mult)
  have ex: "(\<exists>i<Suc n. same_page (a + of_nat (4096 * i)) w)
      \<longleftrightarrow> same_page a w \<or> (\<exists>i<n. same_page ((a + PGSIZE) + of_nat (4096 * i)) w)" for w
    unfolding Ex_less_Suc2 sh by simp
  have ac: "accounted s' 0 k" if v: "v \<noteq> 0" and a: "accounted s (Suc n) (k + tables_for s a (Suc n))" for k
  proof -
    have "accounted s (Suc n) (k + tables_for t (a + PGSIZE) n + missing s a)" using a tb by (elim accounted_less) simp
    then show ?thesis using t(9) s'(6) v by blast
  qed
  show ?case
    unfolding l ex using t(1,4) s'(1-4) steady_trans [OF t(3) s'(3)] same_regions_trans [OF t(8) s'(5)] ac
    by (intro exI [of _ s']) auto
qed

section \<open>The operations\<close>

lemma aligned_and: "addr AND (PGSIZE - 1) = 0 \<longleftrightarrow> unat addr mod 4096 = 0"
proof -
  have "addr AND (PGSIZE - 1) = addr mod PGSIZE" using and_low_mask_mod(2) [of addr] by simp
  moreover have "unat (addr mod PGSIZE) = unat addr mod 4096" by (simp add: unat_mod_distrib)
  ultimately show ?thesis by (metis unat_eq_0)
qed

lemma npage_nat:
  assumes "0 < len"
  shows "unat ((len - 1) div PGSIZE + 1) = (unat len + 4095) div 4096" "(unat len + 4095) div 4096 \<le> 2 ^ 52"
proof -
  have l: "unat (len - 1) = unat len - 1" using assms by (intro unat_minus_one) auto
  have p: "0 < unat len" using assms by (simp add: word_less_nat_alt)
  have "unat ((len - 1) div PGSIZE) = (unat len - 1) div 4096" by (simp add: unat_div_distrib l)
  moreover have "(unat len - 1) div 4096 + 1 = (unat len + 4095) div 4096" using p by simp
  moreover have "unat len < 2 ^ 64" by (rule unat_u64_lt)
  then have "(unat len - 1) div 4096 < 2 ^ 52" by (simp add: less_mult_imp_div_less)
  ultimately show "unat ((len - 1) div PGSIZE + 1) = (unat len + 4095) div 4096"
    by (subst unat_u64_plus) auto
  have "unat len + 4095 < (2 ^ 52 + 1) * 4096" using unat_u64_lt [of len] by simp
  then have "(unat len + 4095) div 4096 < 2 ^ 52 + 1" by (rule less_mult_imp_div_less)
  then show "(unat len + 4095) div 4096 \<le> 2 ^ 52" by simp
qed

lemma has_room_nat:
  assumes "page_ok s" "mmap_has_room np s" "unat np = n" "n \<le> 2 ^ 52" "unat (pages_promised s) \<le> free_count s"
  shows "n * 17 div 16 + 16 + unat (pages_promised s) < free_count s"
proof -
  have fc: "free_count s = unat (num_free_pages s)" using num_free_pages_count [OF assms(1)] by simp
  have b: "unat (pages_promised s) < 2 ^ 52" using free_count_small [OF assms(1)] assms(5) by simp
  have m: "unat (np * 17) = n * 17" using assms(3,4) by (simp add: unat_word_ariths)
  have d: "unat (np * 17 div 16 + 16) = n * 17 div 16 + 16"
    using assms(4) by (subst unat_u64_plus) (simp_all add: unat_div_distrib m)
  have "unat (np * 17 div 16 + 16 + pages_promised s) = n * 17 div 16 + 16 + unat (pages_promised s)"
    using assms(4) b by (subst unat_u64_plus) (simp_all add: d)
  with assms(2) show ?thesis by (simp add: mmap_has_room_def not_le word_less_nat_alt fc)
qed

lemma tables_bound: "(2 :: nat) + 2 * (n div 512 + 1) \<le> n * 17 div 16 + 16"
  "n + 1 + (2 + 2 * (n div 512 + 1)) \<le> n * 17 div 16 + 16"
proof -
  have "n * 17 div 16 = n + n div 16" by simp
  moreover have "2 * (n div 512) \<le> n div 16"
  proof -
    have "n div 512 = n div 16 div 32" by (simp add: div_mult2_eq [symmetric])
    then show ?thesis by simp
  qed
  ultimately show "(2 :: nat) + 2 * (n div 512 + 1) \<le> n * 17 div 16 + 16"
    "n + 1 + (2 + 2 * (n div 512 + 1)) \<le> n * 17 div 16 + 16" by simp_all
qed

lemma aligned_room_pages:
  assumes "unat addr mod 4096 = 0" "unat addr + unat len \<le> 2 ^ 38"
  shows "unat addr + 4096 * ((unat len + 4095) div 4096) \<le> 2 ^ 38"
proof -
  let ?n = "(unat len + 4095) div 4096"
  obtain k where k: "unat addr = 4096 * k" using assms(1) by (auto elim: dvdE)
  have "unat len + 4095 < 4096 * (2 ^ 26 - k) + 4096" using assms(2) k by simp
  then have "?n \<le> 2 ^ 26 - k" by (simp add: less_mult_imp_div_less less_Suc_eq_le [symmetric] algebra_simps)
  moreover have "k \<le> 2 ^ 26" using assms(2) k by simp
  ultimately show ?thesis using k by simp
qed

text \<open>The part of \<^verbatim>\<open>__do_mmap\<close> that makes the region and points the pages to it.\<close>

lemma map_region_ok:
  fixes s :: "('h, 'z) vm_st_scheme"
  assumes "vm_ok s" "file_live f s" "unat addr mod 4096 = 0" "0 < len" "unat addr + unat len \<le> 2 ^ 38"
    and "mmap_has_room ((len - 1) div PGSIZE + 1) s" "unat (pages_promised s) \<le> free_count s"
  shows "\<exists>v t u. vmr_alloc addr len f offset (ucast ((len - 1) div PGSIZE + 1)) prot s = Inr (v, t) \<and> v \<noteq> 0 \<and> even_ptr v
    \<and> for_pages (mmap_page H v) addr (addr + len) t = Inr u \<and> vm_ok u \<and> steady s t \<and> steady t u
    \<and> (\<forall>w. user_va w \<longrightarrow> leaf u w = (if touches addr len w then v else leaf s w))
    \<and> region_is u v addr len f offset prot \<and> (accounted s 0 0 \<longrightarrow> accounted u 0 0)"
proof -
  let ?np = "(len - 1) div PGSIZE + 1" let ?n = "(unat len + 4095) div 4096"
  have R: "unat (addr + len) = unat addr + unat len" using assms(5) by (intro unat_u64_plus) simp
  have ok: "page_ok s" using assms(1) by (simp add: vm_ok_def map_okD(2))
  note n = npage_nat [OF assms(4)]
  have n26: "?n \<le> 2 ^ 26" using assms(5) by (simp add: less_eq_Suc_le)
  from has_room_nat [OF ok assms(6) n assms(7)]
  have room: "?n * 17 div 16 + 16 + unat (pages_promised s) < free_count s" .
  then have "0 < free_count s" by simp
  from vmr_alloc_ok [OF assms(1) this assms(2), of addr len offset "ucast ?np" prot] obtain v t where
    t: "vmr_alloc addr len f offset (ucast ?np) prot s = Inr (v, t)" "v \<noteq> 0" "even_ptr v" "vm_ok t" "steady s t"
    "tree_frame s t" "free_count s \<le> Suc (free_count t)" "region_is t v addr len f offset prot"
    "\<forall>k. accounted s 0 (unat (ucast ?np :: u32) + 1 + k) \<longrightarrow> accounted t (unat (ucast ?np :: u32)) k" by blast
  have cnt: "unat (ucast ?np :: u32) = ?n" using n(1) n26 by (simp add: unsigned_ucast_eq take_bit_nat_eq_self)
  have end_ok: "unat (addr + len) + 4096 \<le> 2 ^ 64" using R assms(5) by simp
  have range: "page_range addr (addr + len) = map (\<lambda>i. addr + of_nat (4096 * i)) [0..<?n]"
    by (simp add: page_range_def R)
  have tb: "tables_for t addr ?n \<le> 2 + 2 * (?n div 512 + 1)"
    using add_mono [OF missing_le [of t addr] mult_le_mono2 [OF boundaries_le [of "unat addr div 4096" ?n], of 2]]
    by (simp add: tables_for_def)
  then have need: "tables_for t addr ?n \<le> free_count t" using tables_bound(1) [of ?n] room t(7) by linarith
  from mmap_pages_ok [OF t(4,3) assms(3) aligned_room_pages [OF assms(3,5)] need, of H] obtain u where
    u: "foldE (mmap_page H v) (page_range addr (addr + len)) t = Inr u" "vm_ok u" "steady t u"
    "\<forall>w. user_va w \<longrightarrow> leaf u w = (if \<exists>i<?n. same_page (addr + of_nat (4096 * i)) w then v else leaf t w)"
    "same_regions t u" "v \<noteq> 0 \<longrightarrow> (\<forall>k. accounted t ?n (k + tables_for t addr ?n) \<longrightarrow> accounted u 0 k)"
    unfolding range by blast
  have "leaf u w = (if touches addr len w then v else leaf s w)" if w: "user_va w" for w
  proof -
    have "(\<exists>i<?n. same_page (addr + of_nat (4096 * i)) w) \<longleftrightarrow> (\<exists>a \<in> set (page_range addr (addr + len)). same_page a w)"
      unfolding range by auto
    then show ?thesis
      using u(4) w page_range_elems(3) [OF assms(3,5) R] tree_frame_leaf(2) [OF t(6) w] by simp
  qed
  moreover have "accounted u 0 0" if a: "accounted s 0 0"
  proof -
    have "?n + 1 + tables_for t addr ?n \<le> ?n * 17 div 16 + 16" using tb tables_bound(2) [of ?n] by linarith
    then have "accounted s 0 (?n + 1 + tables_for t addr ?n)" using a room by (simp add: accounted_def)
    then show ?thesis using t(2,9) u(6) cnt by simp
  qed
  moreover have "for_pages (mmap_page H v) addr (addr + len) t = Inr u" using u(1) by (simp add: for_pages_range [OF end_ok])
  ultimately show ?thesis
    using t(1-3,5) u(2,3) region_is_same [OF u(5)] t(8) by (intro exI [of _ v] exI [of _ t] exI [of _ u]) simp
qed

lemma do_mmap_fixed_ok:
  fixes s :: "('h, 'z) vm_st_scheme"
  assumes "vm_ok s" "demand_paging s" "mmap_max (current s) \<le> 0x4000000000" "file_live f s"
    and "flags AND MAP_FIXED \<noteq> 0" "flags AND MAP_POPULATE = 0"
    and "unat addr mod 4096 = 0" "valid_user_range s addr len" "0 < len"
    and "mmap_has_room ((len - 1) div PGSIZE + 1) s" "unat (pages_promised s) \<le> free_count s"
  shows "\<exists>v s'. do_mmap_locked H addr len prot flags f offset s = Inr (addr, s') \<and> v \<noteq> 0 \<and> even_ptr v
    \<and> vm_ok s' \<and> (\<forall>w. user_va w \<longrightarrow> leaf s' w = (if touches addr len w then v else leaf s w))
    \<and> region_is s' v addr len f offset prot \<and> (accounted s 0 0 \<longrightarrow> accounted s' 0 0)
    \<and> vm_lock s' = vm_lock s
    \<and> current s' = (current s)\<lparr>vm_alloc_guess := addr + ((len - 1) div PGSIZE + 1) * PGSIZE\<rparr>"
proof -
  let ?np = "(len - 1) div PGSIZE + 1"
  note R = valid_range [OF assms(8,3,9)]
  from map_region_ok [OF assms(1,4,7,9) R(1) assms(10,11), of offset prot H] obtain v t u where
    t: "vmr_alloc addr len f offset (ucast ?np) prot s = Inr (v, t)" "v \<noteq> 0" "even_ptr v"
    and u: "for_pages (mmap_page H v) addr (addr + len) t = Inr u" "vm_ok u" "steady s t" "steady t u"
    "\<forall>w. user_va w \<longrightarrow> leaf u w = (if touches addr len w then v else leaf s w)"
    "region_is u v addr len f offset prot" "accounted s 0 0 \<longrightarrow> accounted u 0 0" by blast
  let ?s = "u\<lparr>current := (current u)\<lparr>vm_alloc_guess := addr + ?np * PGSIZE\<rparr>\<rparr>"
  have q: "quiet u ?s" by (simp add: quiet_def)
  have "vm_ok ?s" using vm_ok_quiet [OF u(2) q] u(2) by (simp add: vm_ok_def)
  moreover have "do_mmap_locked H addr len prot flags f offset s = Inr (addr, ?s)"
    using assms(2,5-8,10) t(1,2) u(1,3,4)
    by (simp add: do_mmap_locked_def Let_def aligned_and steady_def aligned_and [simplified])
  moreover have "accounted ?s 0 0" if "accounted s 0 0"
    using u(7) that accounted_quiet [OF q] by simp
  moreover have "region_is ?s v addr len f offset prot" using u(6) by (simp add: region_is_def)
  moreover have "current ?s = (current s)\<lparr>vm_alloc_guess := addr + ?np * PGSIZE\<rparr>" "vm_lock ?s = vm_lock s"
    using u(3,4) by (simp_all add: steady_def)
  ultimately show ?thesis
    using t(2,3) u(5) quiet_views(4) [OF q] by (intro exI [of _ v] exI [of _ ?s]) simp
qed

lemma do_munmap_ok:
  fixes s :: "('h, 'z) vm_st_scheme"
  assumes "vm_ok s" "\<not> vm_lock s" "mmap_max (current s) \<le> 0x4000000000"
    and "unat addr mod 4096 = 0" "valid_user_range s addr len"
  shows "\<exists>s'. do_munmap H addr len s = Inr (0, s') \<and> vm_ok s' \<and> current s' = current s
    \<and> (\<forall>w. user_va w \<longrightarrow> leaf s' w = (if touches addr len w then 0 else leaf s w))
    \<and> steady s s' \<and> gave_back s (touches addr len) s' \<and> (accounted s 0 0 \<longrightarrow> accounted s' 0 0)"
proof -
  have pos: "0 < len"
  proof (rule ccontr)
    assume "\<not> 0 < len"
    then have "len = 0" by (simp add: not_less)
    with valid_range_0 [OF assms(3), of addr] assms(5) show False by simp
  qed
  note R = valid_range [OF assms(5,3) pos]
  have end_ok: "unat (addr + len) + 4096 \<le> 2 ^ 64" using R by simp
  let ?s = "s\<lparr>vm_lock := True\<rparr>"
  have q: "quiet s ?s" by (simp add: quiet_def)
  have ok: "vm_ok ?s" using vm_ok_quiet [OF assms(1) q] assms(1) by (simp add: vm_ok_def)
  have "\<forall>a \<in> set (page_range addr (addr + len)). user_va a" using page_range_elems(1) [OF assms(4) R] by blast
  from munmap_pages_ok [OF ok this, of H] obtain t where
    t: "foldE (munmap_page H) (page_range addr (addr + len)) ?s = Inr t" "vm_ok t" "steady ?s t"
    "\<forall>w. user_va w \<longrightarrow> leaf t w = (if \<exists>a \<in> set (page_range addr (addr + len)). same_page a w then 0 else leaf ?s w)"
    "\<forall>r k. accounted ?s r k \<longrightarrow> accounted t r k"
    "gave_back ?s (\<lambda>w. \<exists>a \<in> set (page_range addr (addr + len)). same_page a w) t" by blast
  let ?t = "t\<lparr>vm_lock := False\<rparr>"
  have q': "quiet t ?t" by (simp add: quiet_def)
  have "do_munmap H addr len s = Inr (0, ?t)"
    using assms(2,4,5) t(1)
    by (simp add: do_munmap_def aligned_and [simplified] with_vm_lock_def do_munmap_locked_def for_pages_range [OF end_ok])
  moreover have "vm_ok ?t" using vm_ok_quiet [OF t(2) q'] t(2) by (simp add: vm_ok_def)
  moreover have "current ?t = current s" "steady s ?t" using t(3) assms(2) by (simp_all add: steady_def)
  moreover have "gave_back s (touches addr len) ?t"
    using t(6) unfolding page_range_elems(3) [OF assms(4) R] gave_back_def frames_of_def pages_with_def
      quiet_page(2,3) [OF q] quiet_page(2,3) [OF q'] quiet_views(4) [OF q] by simp
  moreover have "accounted ?t 0 0" if "accounted s 0 0"
    using that t(5) accounted_quiet [OF q, of 0 0] accounted_quiet [OF q', of 0 0] by simp
  ultimately show ?thesis
    using t(4) page_range_elems(3) [OF assms(4) R] by (auto simp: quiet_views(4) [OF q] quiet_views(4) [OF q'])
qed

section \<open>Demand paging\<close>

lemma prot_type_bits:
  assumes "bit (prot_to_type prot user) n"
  shows "n < 10"
proof -
  have "take_bit 10 (prot_to_type prot user) = prot_to_type prot user"
    by (simp add: prot_to_type_def Let_def pte_bits)
  with assms show ?thesis using bit_take_bit_iff [of 10 "prot_to_type prot user" n] by simp
qed

lemma user_pte:
  assumes "p mod PGSIZE = 0"
  shows "child (pte_create (p div PGSIZE) (prot_to_type prot u)) = p"
    "pte_create (p div PGSIZE) (prot_to_type prot u) AND PTE_V \<noteq> 0"
    "pte_create (p div PGSIZE) (prot_to_type prot u) \<noteq> 0"
proof -
  have "p div PGSIZE = ppn p" by (simp add: ppn_def drop_bit_eq_div)
  then show "child (pte_create (p div PGSIZE) (prot_to_type prot u)) = p"
    "pte_create (p div PGSIZE) (prot_to_type prot u) AND PTE_V \<noteq> 0"
    "pte_create (p div PGSIZE) (prot_to_type prot u) \<noteq> 0"
    using pte_create_child [OF assms prot_type_bits] by simp_all
qed

lemma vmr_decref_anon:
  assumes "vmr_file (vmrs s v) = None"
  shows "vmr_prot (vmrs (vmr_decref H v d s) v) = vmr_prot (vmrs s v)"
    "pmem (vmr_decref H v d s) = pmem s" "pages_promised (vmr_decref H v d s) = pages_promised s - ucast d"
    "files (vmr_decref H v d s) = files s" "fds (vmr_decref H v d s) = fds s" "host (vmr_decref H v d s) = host s"
    "vm_st.more (vmr_decref H v d s) = vm_st.more s"
    "vmr_prot (vmrs (vmr_decref H v d s) w) = vmr_prot (vmrs s w)"
    "vmr_file (vmrs (vmr_decref H v d s) w) = vmr_file (vmrs s w)"
  using assms by (simp_all add: vmr_decref_def upd_vmr_def Let_def)

end
