(* ===== verification/PK_Demand.thy ===== *)
theory PK_Demand
  imports PK_Mapping
begin

text \<open>
  Demand paging and page faults (\<^verbatim>\<open>__handle_page_fault\<close> of \<^verbatim>\<open>pk/mmap.c\<close>): a promised page is given
  a fresh frame, the frame is filled - with zeros or from the region's file - and becomes visible.
\<close>

section \<open>Bringing in a page\<close>

text \<open>What a promised page is filled with: nothing, or a part of the region's file.\<close>

definition fill_step ::
    "'h htif \<Rightarrow> vmr_t \<Rightarrow> u64 \<Rightarrow> u64 \<Rightarrow> ('h, 'z) vm_st_scheme \<Rightarrow> ('h, 'z) vm_st_scheme res" where
  "fill_step H v va p t = (case vmr_file v of None \<Rightarrow> Inr t | Some f \<Rightarrow> fill_from_file H v f va p t)"

lemma demand_page_step:
  assumes "page_alloc s = Inr (p, t)" "p \<noteq> 0"
  shows "demand_page H va pte s = (let v = rd_pte t pte;
      t = wr_pte pte (pte_create (p div PGSIZE) (prot_to_type (PROT_READ OR PROT_WRITE) False)) t
    in bindE (fill_step H (vmrs t v) va (p div PGSIZE * PGSIZE) t) (\<lambda>t.
         let d = vmr_decref H v 1 t
         in Inr (wr_pte pte (pte_create (p div PGSIZE) (prot_to_type (vmr_prot (vmrs d v)) True)) d)))"
  unfolding demand_page_def page_alloc_assert_def fill_step_def using assms by (simp add: Let_def)

definition with_page :: "u64 \<Rightarrow> (nat \<Rightarrow> u8) \<Rightarrow> memory \<Rightarrow> memory" where
  "with_page p page m = (\<lambda>a. if unat (a - p) < 4096 then page (unat (a - p)) else m a)"

text \<open>The frame is mapped for the kernel before it is filled.\<close>

definition frame_mapped ::
    "u64 \<Rightarrow> u64 \<Rightarrow> ('h, 'z) vm_st_scheme \<Rightarrow> u64 \<Rightarrow> ('h, 'z) vm_st_scheme \<Rightarrow> bool" where
  "frame_mapped va a s p t \<longleftrightarrow>
     vm_ok t \<and> p \<notin> used_pages s \<and> p mod PGSIZE = 0 \<and> leaf_slot t va = Some a
     \<and> (\<forall>w. user_va w \<longrightarrow> \<not> same_page va w \<longrightarrow> leaf t w = leaf s w)
     \<and> (\<forall>w. user_va w \<longrightarrow> leaf t w AND PTE_V \<noteq> 0 \<longrightarrow> child (leaf t w) = p \<longrightarrow> same_page va w)
     \<and> (\<forall>a. unat (a - p) < 4096 \<longrightarrow> pmem t a = 0)
     \<and> (\<forall>q \<in> used_pages s. \<forall>a. unat (a - q) < 4096 \<longrightarrow> pmem t a = pmem s a)
     \<and> used_pages t = insert p (used_pages s) \<and> Suc (free_count t) = free_count s \<and> table_pages t = table_pages s
     \<and> steady s t \<and> vm_rest s t \<and> fds t = fds s \<and> files t = files s \<and> host t = host s \<and> vm_st.more t = vm_st.more s"

lemma demand_page_frame:
  fixes s :: "('h, 'z) vm_st_scheme"
  assumes "vm_ok s" "user_va va" "leaf s va \<noteq> 0" "0 < free_count s"
  obtains p a t where "frame_mapped va a s p t" "walk va s = pa2kva s a"
    "demand_page H va (walk va s) s = bindE (fill_step H (vmrs s (leaf s va)) va p t) (\<lambda>t.
       let d = vmr_decref H (leaf s va) 1 t
       in Inr (wr_pte (pa2kva s a) (pte_create (p div PGSIZE) (prot_to_type (vmr_prot (vmrs d (leaf s va))) True)) d))"
proof -
  obtain a where a: "leaf_slot s va = Some a" using leaf_nz_slot [OF assms(3)] by blast
  obtain p t where p: "page_alloc s = Inr (p, t)" "p \<noteq> 0" "p \<notin> used_pages s" "p mod PGSIZE = 0"
    "vm_ok t" "used_pages t = insert p (used_pages s)" "Suc (free_count t) = free_count s"
    "tree_frame s t" "steady s t" "vm_rest s t" "fds t = fds s" "files t = files s" "host t = host s"
    "pa2kva s p \<noteq> 0" "\<forall>a. unat (a - p) < 4096 \<longrightarrow> pmem t a = 0" "kept s t"
    by (rule new_page_vm_ok [OF assms(1,4)])
  have kva: "pa2kva t b = pa2kva s b" "kva2pa t b = kva2pa s b" for b
    using p(9) by (simp_all add: pa2kva_def kva2pa_def steady_def)
  have at: "leaf_slot t va = Some a" using tree_frame_leaf(1) [OF p(8) assms(2)] a by simp
  have lt: "leaf t w = leaf s w" if "user_va w" for w using tree_frame_leaf(2) [OF p(8) that] .
  have W: "walk va s = pa2kva s a" using walk_leaf(1) [OF a] .
  have rv: "rd_pte t (pa2kva s a) = leaf s va"
    using walk_leaf(1,2) [OF at] lt [OF assms(2)] kva by simp
  let ?y = "pte_create (p div PGSIZE) (prot_to_type (PROT_READ OR PROT_WRITE) False)"
  let ?t = "t\<lparr>ptes := (ptes t)(a := ?y)\<rparr>"
  have pt: "p \<in> used_pages t - table_pages t"
    using p(3,6) table_pages_frame [OF p(8)] table_pages_used [OF map_okD(1)] assms(1) by (auto simp: vm_ok_def)
  have others: "same_page va w" if "user_va w" "leaf t w AND PTE_V \<noteq> 0" "child (leaf t w) = p" for w
    using that lt [OF that(1)] map_okD(3) [OF _ that(1)] assms(1) p(3) by (auto simp: vm_ok_def)
  have U: "wr_pte (pa2kva s a) ?y t = ?t" by (simp add: wr_pte_def kva)
  note L = set_leaf_ok [OF p(5) assms(2) at, of ?y]
  have Lt: "vm_ok ?t" "\<And>w. user_va w \<Longrightarrow> leaf ?t w = (if same_page va w then ?y else leaf t w)"
    "tab0 ?t = tab0 t" "used_pages ?t = used_pages t" "free_count ?t = free_count t"
    "table_pages ?t = table_pages t" "steady t ?t" "vm_rest t ?t"
    using L user_pte [OF p(4)] pt others by simp_all
  have pp: "p div PGSIZE * PGSIZE = p"
    using div_mult_mod_eq [of p PGSIZE] unfolding p(4) by (simp only: add_0_right)
  have vt: "vmrs ?t = vmrs s" using p(10) by (simp add: vm_rest_def)
  have slot: "leaf_slot ?t va = Some a" using at Lt(3) by (simp add: leaf_slot_def)
  have st: "steady s ?t" using p(9) Lt(7) by (rule steady_trans)
  have "frame_mapped va a s p ?t"
    unfolding frame_mapped_def
    using Lt(1-6,8) p(3,4,6,7,10-13,15,16) slot st others lt table_pages_frame [OF p(8)] user_pte [OF p(4)]
    by (auto simp: kept_def vm_rest_def)
  moreover have "demand_page H va (walk va s) s = bindE (fill_step H (vmrs s (leaf s va)) va p ?t) (\<lambda>t.
       let d = vmr_decref H (leaf s va) 1 t
       in Inr (wr_pte (pa2kva s a) (pte_create (p div PGSIZE) (prot_to_type (vmr_prot (vmrs d (leaf s va))) True)) d))"
    unfolding demand_page_step [OF p(1,2)] W Let_def rv U pp vt by (rule refl)
  ultimately show thesis using W by (intro that)
qed

text \<open>What bringing in the page of \<open>va\<close> leaves: a frame \<open>p\<close> behind that page alone, and one reference
  of its region dropped.\<close>

definition brought_in :: "u64 \<Rightarrow> ('h, 'z) vm_st_scheme \<Rightarrow> u64 \<Rightarrow> ('h, 'z) vm_st_scheme \<Rightarrow> bool" where
  "brought_in va s p s' \<longleftrightarrow>
     (let x = pte_create (p div PGSIZE) (prot_to_type (vmr_prot (vmrs s (leaf s va))) True) in
      vm_ok s' \<and> p \<notin> used_pages s \<and> p mod PGSIZE = 0
      \<and> walk va s' = walk va s \<and> rd_pte s' (walk va s) = x
      \<and> (\<forall>w. user_va w \<longrightarrow> leaf s' w = (if same_page va w then x else leaf s w))
      \<and> Suc (free_count s') = free_count s \<and> steady s s'
      \<and> pages_promised s' = pages_promised s - 1 \<and> used_pages s' = insert p (used_pages s)
      \<and> table_pages s' = table_pages s \<and> vm_st.more s' = vm_st.more s
      \<and> same_regions s s' \<and> (\<forall>r k. accounted s r k \<longrightarrow> accounted s' r k))"

text \<open>Once it is filled, the region's reference goes and the entry gets its final permissions.\<close>

lemma demand_page_finish:
  fixes s :: "('h, 'z) vm_st_scheme" and H :: "'h htif" and m :: memory and h :: 'h
  assumes "vm_ok s" "user_va va" "leaf s va \<noteq> 0" "leaf s va AND PTE_V = 0"
    and T: "frame_mapped va a s p t" "walk va s = pa2kva s a"
  defines "d \<equiv> vmr_decref H (leaf s va) 1 (t\<lparr>pmem := m, host := h\<rparr>)"
  defines "s' \<equiv> wr_pte (pa2kva s a) (pte_create (p div PGSIZE) (prot_to_type (vmr_prot (vmrs d (leaf s va))) True)) d"
  shows "brought_in va s p s'" "\<exists>e. s' = d\<lparr>ptes := e\<rparr>"
proof -
  note F = T(1) [unfolded frame_mapped_def]
  let ?v = "leaf s va" and ?u = "t\<lparr>pmem := m, host := h\<rparr>"
  let ?x = "pte_create (p div PGSIZE) (prot_to_type (vmr_prot (vmrs s ?v)) True)"
  have q: "quiet t ?u" "steady t ?u" by (simp_all add: quiet_def steady_def)
  have ok: "vm_ok ?u"
  proof -
    have "vm_ok t" using F by blast
    then show ?thesis using quiet_ok(2) [OF q(1)] by (simp add: vm_ok_def)
  qed
  have fields: "vmrs ?u = vmrs s" "vm_st.more ?u = vm_st.more s" "pages_promised ?u = pages_promised s"
    using F by (simp_all add: vm_rest_def)
  have ev: "even_ptr ?v" using assms(4) by (simp add: even_ptr_def)
  have d: "quiet t d" "steady t d" "vm_ok d"
    using vmr_decref_quiet [where s = ?u and H = H and v = ?v and d = 1] ok ev q quiet_trans steady_trans
    unfolding d_def by blast+
  have A: "same_regions ?u d" "pages_promised d = pages_promised ?u - 1" "vm_st.more d = vm_st.more ?u"
    using vmr_decref_fields [where s = ?u and H = H and v = ?v and d = 1] by (simp_all add: d_def)
  then have vp: "vmr_prot (vmrs d ?v) = vmr_prot (vmrs s ?v)" using fields(1) by (simp add: same_regions_def)
  note V = quiet_views [OF d(1)] and G = quiet_page [OF d(1)]
  let ?s = "d\<lparr>ptes := (ptes d)(a := ?x)\<rparr>"
  have ad: "leaf_slot d va = Some a" using F by (simp add: V leaf_slot_def)
  have pd: "p \<in> used_pages d - table_pages d"
    using F table_pages_used [OF map_okD(1)] assms(1) by (auto simp: V G vm_ok_def)
  have od: "\<forall>w. user_va w \<longrightarrow> leaf d w AND PTE_V \<noteq> 0 \<longrightarrow> child (leaf d w) = p \<longrightarrow> same_page va w"
    unfolding V using F by blast
  have pa: "p mod PGSIZE = 0" using F by blast
  have fr: "p \<notin> used_pages s" "used_pages t = insert p (used_pages s)" "Suc (free_count t) = free_count s"
    "table_pages t = table_pages s" using F by blast+
  note M = set_leaf_ok [OF d(3) assms(2) ad, of ?x]
  have X: "?x AND PTE_V \<noteq> 0" using user_pte [OF pa, of "vmr_prot (vmrs s ?v)" True] by simp
  have Ms: "vm_ok ?s" "\<And>w. user_va w \<Longrightarrow> leaf ?s w = (if same_page va w then ?x else leaf d w)"
    "tab0 ?s = tab0 d" "used_pages ?s = used_pages d" "free_count ?s = free_count d" "table_pages ?s = table_pages d"
    "steady d ?s"
    using M user_pte [OF pa, of "vmr_prot (vmrs s ?v)" True] pd od by simp_all
  have s0: "steady s t" using F by blast
  have st: "steady s ?s" by (rule steady_trans [OF steady_trans [OF s0 d(2)] Ms(7)])
  have lf: "leaf ?s w = (if same_page va w then ?x else leaf s w)" if w: "user_va w" for w
  proof -
    have "leaf t w = leaf s w" if "\<not> same_page va w" using F w that by blast
    then show ?thesis using Ms(2) [OF w] by (simp add: V)
  qed
  have e: "s' = ?s"
    using s0 d(2) by (simp add: s'_def vp wr_pte_def kva2pa_def pa2kva_def steady_def)
  then show "\<exists>e. s' = d\<lparr>ptes := e\<rparr>" by blast
  have as: "leaf_slot ?s va = Some a" using ad Ms(3) by (simp add: leaf_slot_def)
  have "walk va ?s = walk va s" using walk_leaf(1) [OF as] st T(2) by (simp add: pa2kva_def steady_def)
  moreover have "rd_pte ?s (walk va ?s) = ?x"
    using walk_leaf(2) [OF as] lf [OF assms(2)] by (simp add: same_page_def)
  moreover have pp: "pages_promised ?s = pages_promised s - 1" using A(2) fields(3) by simp
  moreover have "same_regions s ?s" using A(1) fields(1) by (simp add: same_regions_def)
  moreover have "accounted ?s r k" if "accounted s r k" for r k
  proof (rule accounted_drop [OF that assms(2-4) _ pp])
    show "promised ?s = promised s - {drop_bit 12 va}" using promised_update [OF lf assms(2)] X by simp
    show "free_count s \<le> free_count ?s + 1" using Ms(5) fr(3) by (simp add: G)
  qed
  ultimately show "brought_in va s p s'"
    unfolding e brought_in_def Let_def using Ms(1,4-6) fr pa lf st A(3) fields(2) by (simp add: V G)
qed

lemma demand_page_ok:
  fixes s :: "('h, 'z) vm_st_scheme"
  assumes "vm_ok s" "user_va va" "leaf s va \<noteq> 0" "leaf s va AND PTE_V = 0" "0 < free_count s"
    and fill: "\<And>p a t :: ('h, 'z) vm_st_scheme. frame_mapped va a s p t \<Longrightarrow>
      fill_step H (vmrs s (leaf s va)) va p t = Inr (t\<lparr>pmem := with_page p page (pmem t)\<rparr>)"
    and decref: "\<And>u :: ('h, 'z) vm_st_scheme. vmrs u = vmrs s \<Longrightarrow> files u = files s \<Longrightarrow> pmem (vmr_decref H (leaf s va) 1 u) = pmem u"
  obtains p u e s' where "demand_page H va (walk va s) s = Inr s'" "brought_in va s p s'"
    "\<forall>a. unat (a - p) < 4096 \<longrightarrow> pmem s' a = page (unat (a - p))"
    "\<forall>q \<in> used_pages s. \<forall>a. unat (a - q) < 4096 \<longrightarrow> pmem s' a = pmem s a"
    "files u = files s" "fds u = fds s" "host u = host s" "vmrs u = vmrs s"
    "s' = (vmr_decref H (leaf s va) 1 u)\<lparr>ptes := e\<rparr>"
proof -
  obtain p a t where T: "frame_mapped va a s p t" "walk va s = pa2kva s a"
    "demand_page H va (walk va s) s = bindE (fill_step H (vmrs s (leaf s va)) va p t) (\<lambda>t.
       let d = vmr_decref H (leaf s va) 1 t
       in Inr (wr_pte (pa2kva s a) (pte_create (p div PGSIZE) (prot_to_type (vmr_prot (vmrs d (leaf s va))) True)) d))"
    by (rule demand_page_frame [OF assms(1-3,5)])
  note F = T(1) [unfolded frame_mapped_def]
  let ?m = "with_page p page (pmem t)"
  let ?u = "t\<lparr>pmem := ?m, host := host t\<rparr>"
  have u: "?u = t\<lparr>pmem := ?m\<rparr>" by (cases t) simp
  let ?d = "vmr_decref H (leaf s va) 1 ?u"
  let ?s = "wr_pte (pa2kva s a) (pte_create (p div PGSIZE) (prot_to_type (vmr_prot (vmrs ?d (leaf s va))) True)) ?d"
  have fields: "vmrs ?u = vmrs s" "files ?u = files s" "fds ?u = fds s" "host ?u = host s"
    using F by (simp_all add: vm_rest_def)
  note B = demand_page_finish [OF assms(1-4) T(1,2), where H = H and m = ?m and h = "host t"]
  obtain e where e: "?s = ?d\<lparr>ptes := e\<rparr>" using B(2) by blast
  have r: "demand_page H va (walk va s) s = Inr ?s"
    unfolding T(3) fill [OF T(1)] bindE_simps Let_def u ..
  have pm: "pmem ?s = ?m" unfolding e using decref [OF fields(1,2)] by simp
  have "?m b = pmem s b" if q: "q \<in> used_pages s" "unat (b - q) < 4096" for q b
  proof -
    have "page_ok s" "p mod PGSIZE = 0" "p \<notin> used_pages s" using assms(1) F by (simp_all add: vm_ok_def map_okD(2))
    then have "\<not> unat (b - p) < 4096"
      using page_disjoint [OF _ _ _ q(2)] used_page_props(2) [OF _ q(1)] q(1) by (intro notI) simp
    then show ?thesis using F q by (simp add: with_page_def)
  qed
  moreover have "?m b = page (unat (b - p))" if "unat (b - p) < 4096" for b using that by (simp add: with_page_def)
  ultimately show thesis using that [OF r B(1) _ _ fields(2,3,4,1) e] pm by simp
qed

text \<open>Whatever the page is filled with, a successful call leaves the invariant and the accounts.\<close>

lemma fill_step_memory:
  "fill_step H v va p t = Inr u \<Longrightarrow> \<exists>m h. u = t\<lparr>pmem := m, host := h\<rparr>"
  "fill_step H v va p t = Inl e \<Longrightarrow> e = Assert ''ret > 0''"
proof -
  have s: "\<exists>m h. t = t\<lparr>pmem := m, host := h\<rparr>" by (rule exI [of _ "pmem t"], rule exI [of _ "host t"]) (cases t, simp)
  have swap: "\<exists>m' h'. t\<lparr>host := h, pmem := m\<rparr> = t\<lparr>pmem := m', host := h'\<rparr>" for m h
    by (rule exI [of _ m], rule exI [of _ h]) (cases t, simp)
  show "fill_step H v va p t = Inr u \<Longrightarrow> \<exists>m h. u = t\<lparr>pmem := m, host := h\<rparr>"
    using s swap by (auto simp: fill_step_def fill_from_file_def file_pread_def frontend_syscall_def Let_def kassert_def
        split: option.splits prod.splits if_splits)
  show "fill_step H v va p t = Inl e \<Longrightarrow> e = Assert ''ret > 0''"
    by (auto simp: fill_step_def fill_from_file_def Let_def kassert_def split: option.splits prod.splits if_splits)
qed

lemma demand_page_keeps:
  fixes s :: "('h, 'z) vm_st_scheme"
  assumes "vm_ok s" "user_va va" "leaf s va \<noteq> 0" "leaf s va AND PTE_V = 0" "0 < free_count s"
  shows "demand_page H va (walk va s) s = Inr s' \<Longrightarrow> \<exists>p. brought_in va s p s'"
    and "demand_page H va (walk va s) s = Inl e \<Longrightarrow> e = Assert ''ret > 0''"
proof -
  obtain p a t where T: "frame_mapped va a s p t" "walk va s = pa2kva s a"
    "demand_page H va (walk va s) s = bindE (fill_step H (vmrs s (leaf s va)) va p t) (\<lambda>t.
       let d = vmr_decref H (leaf s va) 1 t
       in Inr (wr_pte (pa2kva s a) (pte_create (p div PGSIZE) (prot_to_type (vmr_prot (vmrs d (leaf s va))) True)) d))"
    by (rule demand_page_frame [OF assms(1-3,5)])
  show "\<exists>p. brought_in va s p s'" if "demand_page H va (walk va s) s = Inr s'"
  proof -
    from that obtain u where u: "fill_step H (vmrs s (leaf s va)) va p t = Inr u"
      "s' = wr_pte (pa2kva s a) (pte_create (p div PGSIZE)
         (prot_to_type (vmr_prot (vmrs (vmr_decref H (leaf s va) 1 u) (leaf s va))) True)) (vmr_decref H (leaf s va) 1 u)"
      unfolding T(3) bindE_eq_Inr Let_def by auto
    from fill_step_memory(1) [OF u(1)] obtain m h where m: "u = t\<lparr>pmem := m, host := h\<rparr>" by blast
    show ?thesis using demand_page_finish(1) [OF assms(1-4) T(1,2), where H = H and m = m and h = h] u(2) m by blast
  qed
  show "e = Assert ''ret > 0''" if "demand_page H va (walk va s) s = Inl e"
    using that fill_step_memory(2) unfolding T(3) bindE_eq_Inl Let_def by blast
qed

lemma demand_page_anon:
  fixes s :: "('h, 'z) vm_st_scheme"
  assumes "vm_ok s" "user_va va" "leaf s va \<noteq> 0" "leaf s va AND PTE_V = 0" "0 < free_count s"
    and "vmr_file (vmrs s (leaf s va)) = None"
  defines "x \<equiv> \<lambda>p. pte_create (p div PGSIZE) (prot_to_type (vmr_prot (vmrs s (leaf s va))) True)"
  shows "\<exists>p s'. demand_page H va (walk va s) s = Inr s' \<and> vm_ok s' \<and> p \<notin> used_pages s \<and> p mod PGSIZE = 0
    \<and> walk va s' = walk va s \<and> rd_pte s' (walk va s) = x p
    \<and> (\<forall>w. user_va w \<longrightarrow> leaf s' w = (if same_page va w then x p else leaf s w))
    \<and> (\<forall>a. unat (a - p) < 4096 \<longrightarrow> pmem s' a = 0)
    \<and> Suc (free_count s') = free_count s \<and> steady s s'
    \<and> pages_promised s' = pages_promised s - 1 \<and> used_pages s' = insert p (used_pages s) \<and> kept s s'"
proof -
  have f: "fill_step H (vmrs s (leaf s va)) va p t = Inr (t\<lparr>pmem := with_page p (\<lambda>_. 0) (pmem t)\<rparr>)"
    if "\<forall>a. unat (a - p) < 4096 \<longrightarrow> pmem t a = 0" for p and t :: "('h, 'z) vm_st_scheme"
  proof -
    have "with_page p (\<lambda>_. 0) (pmem t) = pmem t" using that by (auto simp: with_page_def)
    then show ?thesis using assms(6) by (simp add: fill_step_def)
  qed
  have d: "pmem (vmr_decref H (leaf s va) 1 u) = pmem u" if "vmrs u = vmrs s" for u :: "('h, 'z) vm_st_scheme"
    using that assms(6) by (simp add: vmr_decref_anon)
  have f': "fill_step H (vmrs s (leaf s va)) va p t = Inr (t\<lparr>pmem := with_page p (\<lambda>_. 0) (pmem t)\<rparr>)"
    if "frame_mapped va a s p t" for p a and t :: "('h, 'z) vm_st_scheme" using f that by (simp add: frame_mapped_def)
  obtain p u e s' where D: "demand_page H va (walk va s) s = Inr s'" "brought_in va s p s'"
    "\<forall>a. unat (a - p) < 4096 \<longrightarrow> pmem s' a = 0" "\<forall>q \<in> used_pages s. \<forall>a. unat (a - q) < 4096 \<longrightarrow> pmem s' a = pmem s a"
    and u: "files u = files s" "fds u = fds s" "host u = host s" "vmrs u = vmrs s"
    "s' = (vmr_decref H (leaf s va) 1 u)\<lparr>ptes := e\<rparr>"
    by (rule demand_page_ok [where page = "\<lambda>_. 0" and H = H, OF assms(1-5)]) (erule f', erule d, rule that)
  note B = D(2) [unfolded brought_in_def Let_def]
  have "vmr_file (vmrs u (leaf s va)) = None" using u(4) assms(6) by simp
  note A = vmr_decref_anon [OF this, of H 1]
  have "files s' = files s" "fds s' = fds s" "host s' = host s" unfolding u(5) using A u(1-4) by simp_all
  then have "kept s s'" using B D(4) by (simp add: kept_def same_regions_def)
  then show ?thesis using D(1,3) B unfolding x_def by (intro exI [of _ p] exI [of _ s']) simp
qed

section \<open>Page faults\<close>

lemma perms_allow_created:
  assumes "prot = PROT_READ \<or> prot = PROT_WRITE \<or> prot = PROT_EXEC"
  shows "perms_allow (pte_create x (prot_to_type vprot True)) prot
    \<longleftrightarrow> vprot AND prot \<noteq> 0 \<or> prot = PROT_READ \<and> vprot AND PROT_WRITE \<noteq> 0"
proof -
  have low: "(push_bit 10 x OR t) AND m = t AND m" if "take_bit 10 m = m" for t m :: u64
  proof (rule bit_word_eqI)
    fix n
    have "bit m n \<Longrightarrow> n < 10" using that by (metis bit_take_bit_iff)
    then show "bit ((push_bit 10 x OR t) AND m) n = bit (t AND m) n"
      by (auto simp: bit_simps)
  qed
  let ?t = "PTE_V OR prot_to_type vprot True"
  let ?r = "\<lambda>e. if e AND PTE_W \<noteq> 0 then PTE_R else 0"
  let ?p = "pte_create 0 (prot_to_type prot True)"
  have c: "pte_create x (prot_to_type vprot True) = push_bit 10 x OR ?t"
    by (simp add: pte_create_def or.assoc)
  have w: "(push_bit 10 x OR ?t) AND PTE_W = ?t AND PTE_W"
    by (rule low) (simp add: PTE_W_def)
  have p10: "take_bit 10 ?p = ?p" by (simp add: prot_to_type_def Let_def pte_bits pte_create_def)
  have "perms_allow (push_bit 10 x OR ?t) prot
      \<longleftrightarrow> ((push_bit 10 x OR ?t) OR ?r (push_bit 10 x OR ?t)) AND ?p = ?p"
    by (simp only: perms_allow_def Let_def)
  also have "\<dots> \<longleftrightarrow> (?t OR ?r ?t) AND ?p = ?p"
    unfolding w or.assoc using low [OF p10, of "PTE_V OR (prot_to_type vprot True OR ?r ?t)"]
    by (simp add: or.assoc)
  also have "\<dots> \<longleftrightarrow> vprot AND prot \<noteq> 0 \<or> prot = PROT_READ \<and> vprot AND PROT_WRITE \<noteq> 0"
    using assms
    by (cases "vprot AND 1 = 0"; cases "vprot AND 2 = 0"; cases "vprot AND 4 = 0"; elim disjE)
      (simp_all add: prot_to_type_def Let_def pte_bits pte_create_def PROT_READ_def PROT_WRITE_def PROT_EXEC_def)
  finally show ?thesis unfolding c .
qed

lemma page_base:
  "same_page (push_bit 12 (drop_bit 12 va)) va" "user_va va \<Longrightarrow> user_va (push_bit 12 (drop_bit 12 va))"
proof -
  have e: "push_bit 12 (drop_bit 12 va) = va AND NOT (mask 12)"
    by (rule bit_word_eqI) (auto simp: bit_simps dest: bit_imp_le_length)
  show "same_page (push_bit 12 (drop_bit 12 va)) va"
    unfolding same_page_def by (rule bit_word_eqI) (auto simp: bit_simps dest: bit_imp_le_length)
  have "va AND NOT (mask 12) \<le> va" by (rule word_and_le2)
  then show "user_va va \<Longrightarrow> user_va (push_bit 12 (drop_bit 12 va))"
    unfolding e user_va_def by (rule order.strict_trans1)
qed

lemma walk_rd_leaf:
  assumes "vm_ok s" "user_va va"
  shows "walk va s = 0 \<or> rd_pte s (walk va s) = 0 \<longleftrightarrow> leaf s va = 0"
    "leaf s va \<noteq> 0 \<Longrightarrow> rd_pte s (walk va s) = leaf s va"
proof -
  show "leaf s va \<noteq> 0 \<Longrightarrow> rd_pte s (walk va s) = leaf s va"
    using leaf_nz_slot [of s va] walk_leaf(2) [of s va] by auto
  show "walk va s = 0 \<or> rd_pte s (walk va s) = 0 \<longleftrightarrow> leaf s va = 0"
  proof (cases "leaf_slot s va")
    case None
    then show ?thesis by (simp add: walk_slot leaf_def)
  next
    case (Some a)
    with leaf_slot_kva [OF assms Some] show ?thesis by (simp add: walk_slot leaf_def rd_pte_def)
  qed
qed

lemma handle_page_fault_cases:
  fixes s :: "('h, 'z) vm_st_scheme"
  assumes "vm_ok s" "\<not> vm_lock s" "user_va va"
  defines "b \<equiv> push_bit 12 (drop_bit 12 va)"
  shows "leaf s va = 0 \<or> \<not> valid_user_range s b 1 \<Longrightarrow> handle_page_fault H va prot s = Inr (-1, s)"
    and "valid_user_range s b 1 \<Longrightarrow> leaf s va AND PTE_V \<noteq> 0 \<Longrightarrow>
      handle_page_fault H va prot s = Inr (if perms_allow (leaf s va) prot then 0 else -1, s)"
    and "valid_user_range s b 1 \<Longrightarrow> leaf s va \<noteq> 0 \<Longrightarrow> leaf s va AND PTE_V = 0 \<Longrightarrow> free_count s = 0 \<Longrightarrow>
      handle_page_fault H va prot s = Inl (Panic ''Out of memory!'')"
    and "valid_user_range s b 1 \<Longrightarrow> leaf s va \<noteq> 0 \<Longrightarrow> leaf s va AND PTE_V = 0 \<Longrightarrow> 0 < free_count s \<Longrightarrow>
      vmr_file (vmrs s (leaf s va)) = None \<Longrightarrow>
      \<exists>p s'. let x = pte_create (p div PGSIZE) (prot_to_type (vmr_prot (vmrs s (leaf s va))) True) in
        handle_page_fault H va prot s = Inr (if perms_allow x prot then 0 else -1, s') \<and> vm_ok s'
        \<and> p \<notin> used_pages s \<and> p mod PGSIZE = 0
        \<and> (\<forall>w. user_va w \<longrightarrow> leaf s' w = (if same_page va w then x else leaf s w))
        \<and> (\<forall>a. unat (a - p) < 4096 \<longrightarrow> pmem s' a = 0)
        \<and> Suc (free_count s') = free_count s \<and> pages_promised s' = pages_promised s - 1
        \<and> used_pages s' = insert p (used_pages s) \<and> kept s s' \<and> steady s s'"
proof -
  let ?s = "s\<lparr>vm_lock := True\<rparr>"
  have q: "quiet s ?s" by (simp add: quiet_def)
  have ok: "vm_ok ?s" using vm_ok_quiet [OF assms(1) q] assms(1) by (simp add: vm_ok_def)
  have ub: "user_va b" and sb: "same_page b va" using page_base assms(3) by (simp_all add: b_def)
  have lb: "leaf ?s b = leaf s va"
    using same_page_leaf [OF ub assms(3) sb] by (simp add: quiet_views [OF q])
  have vr: "valid_user_range ?s b 1 = valid_user_range s b 1" by (simp add: valid_user_range_def)
  have unlock: "?s\<lparr>vm_lock := False\<rparr> = s" using assms(2) by simp
  note W = walk_rd_leaf [OF ok ub]
  have F: "handle_page_fault H va prot s =
      bindE (handle_page_fault_locked H va prot ?s) (\<lambda>(r, s). Inr (r, s\<lparr>vm_lock := False\<rparr>))"
    using assms(2) by (simp add: handle_page_fault_def with_vm_lock_def)
  have G: "handle_page_fault_locked H va prot ?s =
      (if leaf s va = 0 \<or> \<not> valid_user_range s b 1 then Inr (-1, ?s)
       else bindE (if leaf s va AND PTE_V = 0 then demand_page H b (walk b ?s) ?s else Inr ?s) (\<lambda>s'.
                Inr (if perms_allow (rd_pte s' (walk b ?s)) prot then 0 else -1, s')))"
    using W lb vr unfolding handle_page_fault_locked_def Let_def b_def [symmetric] by auto
  show "leaf s va = 0 \<or> \<not> valid_user_range s b 1 \<Longrightarrow> handle_page_fault H va prot s = Inr (-1, s)"
    unfolding F G using unlock by simp
  show "valid_user_range s b 1 \<Longrightarrow> leaf s va AND PTE_V \<noteq> 0 \<Longrightarrow>
      handle_page_fault H va prot s = Inr (if perms_allow (leaf s va) prot then 0 else -1, s)"
  proof -
    assume *: "valid_user_range s b 1" "leaf s va AND PTE_V \<noteq> 0"
    then have "leaf s va \<noteq> 0" by auto
    with * W(2) lb unlock show ?thesis unfolding F G by simp
  qed
  show "handle_page_fault H va prot s = Inl (Panic ''Out of memory!'')"
    if "valid_user_range s b 1" "leaf s va \<noteq> 0" "leaf s va AND PTE_V = 0" "free_count s = 0"
  proof -
    have "page_ok ?s" "free_count ?s = 0"
      using ok that(4) quiet_page(3) [OF q] by (auto simp: vm_ok_def map_okD(2))
    from page_alloc_none [OF this] that show ?thesis
      unfolding F G by (simp add: demand_page_def page_alloc_assert_def)
  qed
  assume c: "valid_user_range s b 1" "leaf s va \<noteq> 0" "leaf s va AND PTE_V = 0" "0 < free_count s"
    "vmr_file (vmrs s (leaf s va)) = None"
  let ?x = "\<lambda>p. pte_create (p div PGSIZE) (prot_to_type (vmr_prot (vmrs s (leaf s va))) True)"
  have pre: "leaf ?s b \<noteq> 0" "leaf ?s b AND PTE_V = 0" "0 < free_count ?s" "vmr_file (vmrs ?s (leaf ?s b)) = None"
    using c quiet_page(3) [OF q] lb by simp_all
  have vp: "vmr_prot (vmrs ?s (leaf ?s b)) = vmr_prot (vmrs s (leaf s va))" using lb by simp
  note D = demand_page_anon [OF ok ub pre, of H, unfolded vp]
  then obtain p where "\<exists>s'. demand_page H b (walk b ?s) ?s = Inr s' \<and> vm_ok s' \<and> p \<notin> used_pages ?s
      \<and> p mod PGSIZE = 0 \<and> walk b s' = walk b ?s \<and> rd_pte s' (walk b ?s) = ?x p
      \<and> (\<forall>w. user_va w \<longrightarrow> leaf s' w = (if same_page b w then ?x p else leaf ?s w))
      \<and> (\<forall>a. unat (a - p) < 4096 \<longrightarrow> pmem s' a = 0) \<and> Suc (free_count s') = free_count ?s
      \<and> steady ?s s' \<and> pages_promised s' = pages_promised ?s - 1 \<and> used_pages s' = insert p (used_pages ?s) \<and> kept ?s s'" by (rule exE)
  then obtain t where T: "demand_page H b (walk b ?s) ?s = Inr t \<and> vm_ok t \<and> p \<notin> used_pages ?s
      \<and> p mod PGSIZE = 0 \<and> walk b t = walk b ?s \<and> rd_pte t (walk b ?s) = ?x p
      \<and> (\<forall>w. user_va w \<longrightarrow> leaf t w = (if same_page b w then ?x p else leaf ?s w))
      \<and> (\<forall>a. unat (a - p) < 4096 \<longrightarrow> pmem t a = 0) \<and> Suc (free_count t) = free_count ?s
      \<and> steady ?s t \<and> pages_promised t = pages_promised ?s - 1 \<and> used_pages t = insert p (used_pages ?s) \<and> kept ?s t" by (rule exE)
  then have t: "demand_page H b (walk b ?s) ?s = Inr t" "vm_ok t" "p \<notin> used_pages ?s" "p mod PGSIZE = 0"
    "rd_pte t (walk b ?s) = ?x p"
    "\<forall>w. user_va w \<longrightarrow> leaf t w = (if same_page b w then ?x p else leaf ?s w)"
    "\<forall>a. unat (a - p) < 4096 \<longrightarrow> pmem t a = 0" "Suc (free_count t) = free_count ?s"
    "pages_promised t = pages_promised ?s - 1" "used_pages t = insert p (used_pages ?s)" "kept ?s t" "steady ?s t" by simp_all
  let ?t = "t\<lparr>vm_lock := False\<rparr>"
  have q': "quiet t ?t" by (simp add: quiet_def)
  have "vm_ok ?t" using vm_ok_quiet [OF t(2) q'] t(2) by (simp add: vm_ok_def)
  moreover have "handle_page_fault H va prot s = Inr (if perms_allow (?x p) prot then 0 else -1, ?t)"
    unfolding F G using c(1-3) t(1,5) by simp
  moreover have "same_page b w = same_page va w" for w using sb by (auto simp: same_page_def)
  moreover have "used_pages ?t = insert p (used_pages s)" "kept s ?t" "steady s ?t"
    using t(10-12) assms(2) by (simp_all add: quiet_page(2) [OF q'] quiet_page(2) [OF q] kept_def
        quiet_views [OF q'] quiet_views [OF q] steady_def)
  ultimately show "\<exists>p s'. let x = ?x p in
        handle_page_fault H va prot s = Inr (if perms_allow x prot then 0 else -1, s') \<and> vm_ok s'
        \<and> p \<notin> used_pages s \<and> p mod PGSIZE = 0
        \<and> (\<forall>w. user_va w \<longrightarrow> leaf s' w = (if same_page va w then x else leaf s w))
        \<and> (\<forall>a. unat (a - p) < 4096 \<longrightarrow> pmem s' a = 0)
        \<and> Suc (free_count s') = free_count s \<and> pages_promised s' = pages_promised s - 1
        \<and> used_pages s' = insert p (used_pages s) \<and> kept s s' \<and> steady s s'"
    using t(3,4,6-9) quiet_page(3) [OF q'] quiet_page(2,3) [OF q]
    by (intro exI [of _ p] exI [of _ ?t]) (simp add: Let_def quiet_views(4) [OF q] quiet_views(4) [OF q'])
qed

text \<open>A fault on a promised page is demand paging under the lock.\<close>

lemma promised_fault:
  fixes s :: "('h, 'z) vm_st_scheme"
  assumes "vm_ok s" "\<not> vm_lock s" "user_va va" "leaf s va \<noteq> 0" "leaf s va AND PTE_V = 0"
  defines "b \<equiv> push_bit 12 (drop_bit 12 va)" and "t \<equiv> s\<lparr>vm_lock := True\<rparr>"
  assumes "valid_user_range s b 1"
  shows "handle_page_fault H va prot s = bindE (demand_page H b (walk b t) t)
      (\<lambda>u. Inr (if perms_allow (rd_pte u (walk b t)) prot then 0 else -1, u\<lparr>vm_lock := False\<rparr>))"
    and "vm_ok t" "quiet s t" "user_va b" "same_page b va" "leaf t = leaf s"
proof -
  show q: "quiet s t" by (simp add: quiet_def t_def)
  show ok: "vm_ok t" using vm_ok_quiet [OF assms(1) q] assms(1) by (simp add: vm_ok_def t_def)
  show ub: "user_va b" and sb: "same_page b va" using page_base assms(3) by (simp_all add: b_def)
  show lt: "leaf t = leaf s" using quiet_views(4) [OF q] .
  have lb: "leaf t b = leaf s va" using same_page_leaf [OF ub assms(3) sb] lt by simp
  have vr: "valid_user_range t b 1" using assms(8) by (simp add: valid_user_range_def t_def)
  note W = walk_rd_leaf [OF ok ub]
  show "handle_page_fault H va prot s = bindE (demand_page H b (walk b t) t)
      (\<lambda>u. Inr (if perms_allow (rd_pte u (walk b t)) prot then 0 else -1, u\<lparr>vm_lock := False\<rparr>))"
    using W lb vr assms(2,4,5)
    by (simp add: handle_page_fault_def with_vm_lock_def handle_page_fault_locked_def Let_def b_def [symmetric] t_def [symmetric] bindE_assoc)
qed

end
