(* ===== verification/PK_Account.thy ===== *)
theory PK_Account
  imports PK_Demand
begin

text \<open>
  The accounts of \<^verbatim>\<open>pk/mmap.c\<close> over whole calls: every operation on the address space keeps one free
  page for each page it has promised, so a page fault of the program never runs out of memory.
\<close>

section \<open>Page faults\<close>

lemma fault_locked_keeps:
  fixes s :: "('h, 'z) vm_st_scheme"
  assumes "vm_ok s" "accounted s 0 0" "mmap_max (current s) \<le> 0x4000000000"
  shows "handle_page_fault_locked H va prot s = Inr (r, s') \<Longrightarrow>
      vm_ok s' \<and> steady s s' \<and> same_regions s s' \<and> accounted s' 0 0"
    and "handle_page_fault_locked H va prot s = Inl e \<Longrightarrow> e = Assert ''ret > 0''"
proof -
  let ?b = "push_bit 12 (drop_bit 12 va)"
  have "(vm_ok s' \<and> steady s s' \<and> same_regions s s' \<and> accounted s' 0 0 \<or> handle_page_fault_locked H va prot s \<noteq> Inr (r, s'))
    \<and> (handle_page_fault_locked H va prot s = Inl e \<longrightarrow> e = Assert ''ret > 0'')"
  proof (cases "walk ?b s = 0 \<or> rd_pte s (walk ?b s) = 0 \<or> \<not> valid_user_range s ?b 1")
    case True
    then have "handle_page_fault_locked H va prot s = Inr (-1, s)" by (auto simp: handle_page_fault_locked_def Let_def)
    then show ?thesis using assms by (auto simp: same_regions_eq)
  next
    case False
    then have "?b < mmap_max (current s)" by (auto simp: valid_user_range_def Let_def split: if_splits)
    then have b: "user_va ?b" using assms(3) by (simp add: user_va_def)
    note W = walk_rd_leaf [OF assms(1) b]
    have l: "leaf s ?b \<noteq> 0" "rd_pte s (walk ?b s) = leaf s ?b" using False W by blast+
    show ?thesis
    proof (cases "leaf s ?b AND PTE_V = 0")
      case v: False
      then have "handle_page_fault_locked H va prot s = Inr (if perms_allow (leaf s ?b) prot then 0 else -1, s)"
        using False l(2) by (simp add: handle_page_fault_locked_def Let_def)
      then show ?thesis using assms by (auto simp: same_regions_eq)
    next
      case v: True
      have "drop_bit 12 ?b \<in> promised s" unfolding promised_def using b l(1) v by auto
      then have "promised s \<noteq> {}" by auto
      then have "0 < free_count s" using assms(2) card_gt_0_iff [of "promised s"] by (auto simp: accounted_def)
      note K = demand_page_keeps [OF assms(1) b l(1) v this, of H]
      have e: "handle_page_fault_locked H va prot s = bindE (demand_page H ?b (walk ?b s) s)
          (\<lambda>t. Inr (if perms_allow (rd_pte t (walk ?b s)) prot then 0 else -1, t))"
        using False l(2) v by (simp add: handle_page_fault_locked_def Let_def)
      show ?thesis
      proof (cases "demand_page H ?b (walk ?b s) s")
        case (Inl x)
        then show ?thesis using K(2) e by auto
      next
        case (Inr t)
        with K(1) obtain p where "brought_in ?b s p t" by blast
        then have "vm_ok t" "steady s t" "same_regions s t" "accounted t 0 0"
          using assms(2) unfolding brought_in_def Let_def by blast+
        then show ?thesis using e Inr by auto
      qed
    qed
  qed
  then show "handle_page_fault_locked H va prot s = Inr (r, s') \<Longrightarrow>
      vm_ok s' \<and> steady s s' \<and> same_regions s s' \<and> accounted s' 0 0"
    "handle_page_fault_locked H va prot s = Inl e \<Longrightarrow> e = Assert ''ret > 0''" by blast+
qed

section \<open>Finding address space\<close>

lemma page_dvd: "PGSIZE dvd a \<longleftrightarrow> unat (a :: u64) mod 4096 = 0"
proof
  assume "PGSIZE dvd a"
  then obtain c where "a = PGSIZE * c" by (elim dvdE)
  then have "unat a = 4096 * unat c mod 2 ^ 64" by (simp add: unat_word_ariths(2))
  then show "unat a mod 4096 = 0" by (simp add: mod_mod_cancel)
next
  assume "unat a mod 4096 = 0"
  then obtain k where k: "unat a = 4096 * k" by (auto elim: dvdE)
  have "a = of_nat (unat a)" by simp
  then have "a = PGSIZE * of_nat k" unfolding k by simp
  then show "PGSIZE dvd a" by (rule dvdI)
qed

lemma pages_bytes: "unat (k :: u64) = n \<Longrightarrow> n \<le> 2 ^ 26 \<Longrightarrow> unat (k * PGSIZE) = 4096 * n"
  by (simp add: unat_word_ariths(2))

lemma scan_back_aligned:
  assumes "vm_scan_back avail first a = Some b"
  shows "PGSIZE dvd a \<longrightarrow> PGSIZE dvd b"
  by (rule vm_scan_back.raw_induct [where P = "\<lambda>avail first a b. PGSIZE dvd a \<longrightarrow> PGSIZE dvd b", OF _ assms])
    (auto split: if_splits intro: dvd_diff)

lemma scan_aligned:
  assumes "vm_scan avail a e npage = Some b"
  shows "PGSIZE dvd a \<longrightarrow> b = 0 \<or> PGSIZE dvd b \<and> b \<le> e"
proof (rule vm_scan.raw_induct [where P = "\<lambda>avail a e npage b. PGSIZE dvd a \<longrightarrow> b = 0 \<or> PGSIZE dvd b \<and> b \<le> e", OF _ assms], goal_cases)
  case (1 scan avail a e npage b)
  show ?case
  proof
    assume a: "PGSIZE dvd a"
    show "b = 0 \<or> PGSIZE dvd b \<and> b \<le> e"
    proof (cases "a \<le> e")
      case False
      then show ?thesis using 1(2) by simp
    next
      case True
      show ?thesis
      proof (cases "avail a")
        case False
        then have "scan avail (a + PGSIZE) e npage = Some b" using 1(2) True by simp
        from 1(1) [OF this] a show ?thesis by simp
      next
        case av: True
        then obtain c where c: "vm_scan_back avail a (a + (npage - 1) * PGSIZE) = Some c"
          using 1(2) True by (auto split: option.splits)
        have "PGSIZE dvd a + (npage - 1) * PGSIZE" using a by (intro dvd_add) simp_all
        then have dc: "PGSIZE dvd c" using scan_back_aligned [OF c] by simp
        show ?thesis
        proof (cases "c > a")
          case True
          then have "scan avail (c + PGSIZE) e npage = Some b" using 1(2) \<open>a \<le> e\<close> av c by simp
          from 1(1) [OF this] dc show ?thesis by simp
        next
          case False
          then have "b = c" using 1(2) \<open>a \<le> e\<close> av c by simp
          then show ?thesis using dc False \<open>a \<le> e\<close> by (auto simp: not_less intro: order.trans)
        qed
      qed
    qed
  qed
qed

text \<open>The layout that \<^verbatim>\<open>pk_vm_init\<close> sets up and the calls keep: the heap's bounds are pages of the user half.\<close>

definition layout :: "('h, 'z) vm_st_scheme \<Rightarrow> bool" where
  "layout s \<longleftrightarrow> mmap_max (current s) = 0x4000000000 \<and> MEM_START \<le> first_free_page s
     \<and> brk (current s) \<le> 0x4000000000 \<and> PGSIZE dvd brk (current s)
     \<and> brk_max (current s) \<le> 0x4000000000
     \<and> PGSIZE dvd vm_alloc_guess (current s)"

lemma vm_alloc_range:
  assumes "layout s" "vm_alloc s np = Inr a" "a \<noteq> 0"
  shows "PGSIZE dvd a \<and> a \<le> mmap_max (current s) - np * PGSIZE"
proof -
  let ?e = "mmap_max (current s) - np * PGSIZE"
  have at: "PGSIZE dvd b \<and> b \<le> ?e" if "vm_alloc_at s c ?e np = Inr b" "PGSIZE dvd c" "b \<noteq> 0" for b c
    using that scan_aligned [of "va_avail s" c ?e np b] by (auto simp: vm_alloc_at_def split: option.splits)
  have g: "PGSIZE dvd vm_alloc_guess (current s)" "PGSIZE dvd brk (current s)" using assms(1) by (simp_all add: layout_def)
  from assms(2) obtain r where r: "(if vm_alloc_guess (current s) \<noteq> 0 then vm_alloc_at s (vm_alloc_guess (current s)) ?e np else Inr 0) = Inr r"
    "(if r \<noteq> 0 then Inr r else vm_alloc_at s (brk (current s)) ?e np) = Inr a"
    unfolding vm_alloc_def Let_def bindE_eq_Inr by blast
  show ?thesis
  proof (cases "r = 0")
    case True
    then show ?thesis using r(2) at [of "brk (current s)" a] g(2) assms(3) by simp
  next
    case False
    then show ?thesis using r at [of "vm_alloc_guess (current s)" a] g(1) assms(3) by (auto split: if_splits)
  qed
qed


section \<open>Mapping\<close>

lemma fault_in_keeps:
  fixes s :: "('h, 'z) vm_st_scheme"
  assumes "fault_in H prot a s = Inr s'" "vm_ok s" "accounted s 0 0" "mmap_max (current s) \<le> 0x4000000000"
  shows "vm_ok s' \<and> steady s s' \<and> same_regions s s' \<and> accounted s' 0 0"
proof -
  from assms(1) obtain r where "handle_page_fault_locked H a prot s = Inr (r, s')"
    by (auto simp: fault_in_def bindE_eq_Inr)
  from fault_locked_keeps(1) [OF assms(2-4) this] show ?thesis .
qed

lemma fault_in_pages_keep:
  fixes s :: "('h, 'z) vm_st_scheme"
  assumes "foldE (fault_in H prot) as s = Inr s'" "vm_ok s" "accounted s 0 0" "mmap_max (current s) \<le> 0x4000000000"
  shows "vm_ok s' \<and> steady s s' \<and> same_regions s s' \<and> accounted s' 0 0"
  using assms
proof (induction as arbitrary: s)
  case Nil
  then show ?case by (simp add: same_regions_eq)
next
  case (Cons a as)
  from Cons.prems(1) obtain t where t: "fault_in H prot a s = Inr t" "foldE (fault_in H prot) as t = Inr s'"
    by (auto simp: bindE_eq_Inr)
  note K = fault_in_keeps [OF t(1) Cons.prems(2-4)]
  then have "mmap_max (current t) \<le> 0x4000000000" using Cons.prems(4) by (simp add: steady_def)
  with Cons.IH [OF t(2)] K show ?case using steady_trans same_regions_trans by blast
qed

lemma vmr_alloc_live:
  fixes s :: "('h, 'z) vm_st_scheme"
  assumes "vm_ok s" "0 < free_count s" "vmr_alloc addr len f offset cnt prot s = Inr (v, t)"
  shows "file_live f s"
proof (cases f)
  case None
  then show ?thesis by (simp add: file_live_def)
next
  case (Some g)
  obtain p u where p: "page_alloc s = Inr (p, u)" "files u = files s" "pa2kva s p \<noteq> 0" "steady s u"
    by (rule new_page_vm_ok [OF assms(1,2)])
  have nz: "pa2kva u p \<noteq> 0" using p(3,4) by (simp add: pa2kva_def steady_def)
  have live: "file_live (Some g) s" if "file_incref g w = Inr x" "files w = files s" for w x :: "('h, 'z) vm_st_scheme"
    using that by (auto simp: file_live_def file_incref_def kassert_def Let_def word_gt_0 split: if_splits)
  then show ?thesis
  proof (cases "vmr_freelist_head s = 0")
    case True
    then show ?thesis
      using assms(3) p(1,2) nz Some by (auto simp: vmr_alloc_def bindE_eq_Inr Let_def dest!: live)
  next
    case False
    then show ?thesis using assms(3) Some by (auto simp: vmr_alloc_def bindE_eq_Inr Let_def dest!: live)
  qed
qed

lemma mmap_locked_keeps:
  fixes s :: "('h, 'z) vm_st_scheme"
  assumes "vm_ok s" "accounted s 0 0" "layout s" "0 < len"
    and "do_mmap_locked H addr len prot flags f offset s = Inr (r, s')"
  shows "vm_ok s' \<and> accounted s' 0 0 \<and> layout s' \<and> vm_lock s' = vm_lock s
    \<and> (r = - 1 \<or> PGSIZE dvd r \<and> r < 0x4000000000) \<and> (\<exists>g. current s' = (current s)\<lparr>vm_alloc_guess := g\<rparr>)"
proof -
  let ?np = "(len - 1) div PGSIZE + 1" and ?n = "(unat len + 4095) div 4096"
  define pick where "pick = (if flags AND MAP_FIXED \<noteq> 0
            then if addr AND (PGSIZE - 1) \<noteq> 0 \<or> \<not> valid_user_range s addr len
                 then Inr None else Inr (Some addr)
            else bindE (vm_alloc s ?np) (\<lambda>a. Inr (if a = 0 then None else Some a)))"
  define rest where "rest = (\<lambda>r. case r of
              None \<Rightarrow> Inr (- 1, s)
            | Some addr \<Rightarrow>
                bindE (vmr_alloc addr len f offset (ucast ?np) prot s) (\<lambda>(v, s).
                if v = 0 then Inr (- 1, s)
                else bindE (for_pages (mmap_page H v) addr (addr + len) s) (\<lambda>s.
                     bindE (if \<not> demand_paging s \<or> flags AND MAP_POPULATE \<noteq> 0
                            then for_pages (fault_in H prot) addr (addr + len) s
                            else Inr s) (\<lambda>s.
                       Inr (addr, s\<lparr>current := (current s)\<lparr>vm_alloc_guess := addr + ?np * PGSIZE\<rparr>\<rparr>)))))"
  have D: "do_mmap_locked H addr len prot flags f offset s =
      (if \<not> mmap_has_room ?np s then Inr (- 1, s) else bindE pick rest)"
    unfolding do_mmap_locked_def Let_def pick_def rest_def by (rule refl)
  have stay: ?thesis if "r = - 1" "s' = s"
    using that assms(1-3) by (auto intro: exI [of _ "vm_alloc_guess (current s)"])
  show ?thesis
  proof (cases "mmap_has_room ?np s \<and> pick \<noteq> Inr None")
    case False
    have "do_mmap_locked H addr len prot flags f offset s = Inr (- 1, s)"
    proof (cases "mmap_has_room ?np s")
      case True
      with False have p: "pick = Inr None" by simp
      show ?thesis unfolding D p bindE_simps by (simp add: rest_def)
    qed (simp add: D)
    then have "r = - 1" "s' = s" using assms(5) by simp_all
    then show ?thesis by (rule stay)
  next
    case True
    then have hr: "mmap_has_room ?np s" and "pick \<noteq> Inr None" by blast+
    have "bindE pick rest = Inr (r, s')"
      using assms(5) hr unfolding D by simp
    then obtain x where x: "pick = Inr x" "rest x = Inr (r, s')" unfolding bindE_eq_Inr by blast
    with \<open>pick \<noteq> Inr None\<close> obtain a where a: "pick = Inr (Some a)" "rest (Some a) = Inr (r, s')" by (cases x) simp_all
    have pg: "page_ok s" using assms(1) by (simp add: vm_ok_def map_okD(2))
    have pp: "unat (pages_promised s) \<le> free_count s" using assms(2) by (simp add: accounted_def)
    note n = npage_nat [OF assms(4)]
    note room = has_room_nat [OF pg hr n pp]
    have n26: "?n \<le> 2 ^ 26"
    proof -
      have "free_count s \<le> unat (free_pages s)"
        using page_depth_le(1) [OF pg] pg by (simp add: free_count_def page_ok_def word_le_nat_alt)
      moreover have "4096 * unat (free_pages s) \<le> 2 ^ 38"
        using assms(1,3) by (simp add: vm_ok_def layout_def MEM_START_def word_le_nat_alt)
      ultimately show ?thesis using room by simp
    qed
    have al: "PGSIZE dvd a" "unat a + unat len \<le> 2 ^ 38"
    proof -
      have "PGSIZE dvd a \<and> unat a + unat len \<le> 2 ^ 38"
      proof (cases "flags AND MAP_FIXED \<noteq> 0")
        case True
        then have "a = addr" "addr AND (PGSIZE - 1) = 0" "valid_user_range s addr len"
          using a(1) by (auto simp: pick_def split: if_splits)
        then show ?thesis using valid_range(1) [of s addr len] assms(3,4) aligned_and [of addr]
          by (simp add: layout_def page_dvd)
      next
        case False
        then have v: "vm_alloc s ?np = Inr a" "a \<noteq> 0"
          using a(1) by (auto simp: pick_def bindE_eq_Inr split: if_splits)
        note V = vm_alloc_range [OF assms(3) v]
        have m: "unat (?np * PGSIZE) = 4096 * ?n" by (rule pages_bytes [OF n(1) n26])
        have "unat (mmap_max (current s) - ?np * PGSIZE) = 2 ^ 38 - 4096 * ?n"
          using m n26 assms(3) by (subst unat_sub) (simp_all add: layout_def word_le_nat_alt)
        then have "unat a \<le> 2 ^ 38 - 4096 * ?n" using V by (simp add: word_le_nat_alt)
        moreover have "unat len \<le> 4096 * ?n" by simp
        ultimately show ?thesis using V n26 by simp
      qed
      then show "PGSIZE dvd a" "unat a + unat len \<le> 2 ^ 38" by simp_all
    qed
    have am: "unat a mod 4096 = 0" using al(1) by (simp add: page_dvd)
    have "0 < free_count s" using room by simp
    obtain v0 t0 where "vmr_alloc a len f offset (ucast ?np) prot s = Inr (v0, t0)"
      using a(2) by (auto simp: rest_def bindE_eq_Inr)
    from vmr_alloc_live [OF assms(1) \<open>0 < free_count s\<close> this] have "file_live f s" .
    from map_region_ok [OF assms(1) this am assms(4) al(2) hr pp, of offset prot H] obtain v t u where
      t: "vmr_alloc a len f offset (ucast ?np) prot s = Inr (v, t)" "v \<noteq> 0"
      and u: "for_pages (mmap_page H v) a (a + len) t = Inr u" "vm_ok u" "steady s t" "steady t u"
        "accounted s 0 0 \<longrightarrow> accounted u 0 0" by blast
    have lu: "mmap_max (current u) \<le> 0x4000000000" using u(3,4) assms(3) by (simp add: steady_def layout_def)
    have e: "unat (a + len) + 4096 \<le> 2 ^ 64" using al(2) by (subst unat_u64_plus) simp_all
    obtain w where w: "(if \<not> demand_paging u \<or> flags AND MAP_POPULATE \<noteq> 0
        then for_pages (fault_in H prot) a (a + len) u else Inr u) = Inr w"
      and s': "r = a" "s' = w\<lparr>current := (current w)\<lparr>vm_alloc_guess := a + ?np * PGSIZE\<rparr>\<rparr>"
      using a(2) t u(1) by (auto simp: rest_def bindE_eq_Inr)
    have W: "vm_ok w" "steady u w" "accounted w 0 0"
      using w u(2,5) assms(2) fault_in_pages_keep [of H prot "page_range a (a + len)" u w] lu
      by (auto simp: for_pages_range [OF e] split: if_splits)
    have q: "quiet w s'" by (simp add: quiet_def s'(2))
    have "vm_ok s'" using vm_ok_quiet [OF W(1) q] W(1) by (simp add: vm_ok_def s'(2))
    moreover have "accounted s' 0 0" using W(3) accounted_quiet [OF q, of 0 0] by (simp add: s'(2))
    moreover have "PGSIZE dvd a + ?np * PGSIZE" using al(1) by (intro dvd_add) simp_all
    then have "layout s'" using assms(3) u(3,4) W(2) by (simp add: layout_def s'(2) steady_def)
    moreover have "vm_lock s' = vm_lock s" "current s' = (current s)\<lparr>vm_alloc_guess := a + ?np * PGSIZE\<rparr>"
      using u(3,4) W(2) by (simp_all add: s'(2) steady_def)
    moreover have "a < 0x4000000000"
      using al(2) assms(4) by (simp add: word_less_nat_alt)
    ultimately show ?thesis using s'(1) al(1) by blast
  qed
qed


section \<open>The calls\<close>

definition vm_inv :: "('h, 'z) vm_st_scheme \<Rightarrow> bool" where
  "vm_inv s \<longleftrightarrow> vm_ok s \<and> accounted s 0 0 \<and> layout s"

text \<open>Changes outside the address space: files, the host, the bytes of memory, the hart's registers.\<close>

definition vm_same :: "('h, 'z) vm_st_scheme \<Rightarrow> ('h, 'z) vm_st_scheme \<Rightarrow> bool" where
  "vm_same s s' \<longleftrightarrow> quiet s s' \<and> vmr_freelist_head s' = vmr_freelist_head s \<and> vmrs s' = vmrs s
     \<and> pages_promised s' = pages_promised s \<and> vm_lock s' = vm_lock s
     \<and> brk (current s') = brk (current s) \<and> brk_max (current s') = brk_max (current s)
     \<and> mmap_max (current s') = mmap_max (current s) \<and> vm_alloc_guess (current s') = vm_alloc_guess (current s)"

lemma vm_inv_quiet:
  assumes "vm_inv s" "quiet s s'" "vmr_freelist_head s' = vmr_freelist_head s" "\<And>v. vmr_next (vmrs s' v) = vmr_next (vmrs s v)"
    and "pages_promised s' = pages_promised s" "layout s'"
  shows "vm_inv s'"
  using assms vm_ok_quiet [OF _ assms(2)] accounted_quiet [OF assms(2,5)] by (simp add: vm_inv_def vm_ok_def)

lemma vm_inv_same: "vm_same s s' \<Longrightarrow> vm_inv s \<Longrightarrow> vm_inv s'"
  by (rule vm_inv_quiet) (auto simp: vm_same_def layout_def vm_inv_def quiet_def)

lemma vm_inv_lock: "vm_inv (s\<lparr>vm_lock := b\<rparr>) = vm_inv s"
proof -
  have q: "quiet s (s\<lparr>vm_lock := b\<rparr>)" "quiet (s\<lparr>vm_lock := b\<rparr>) s" by (simp_all add: quiet_def)
  have l: "layout (s\<lparr>vm_lock := b\<rparr>) = layout s" by (simp add: layout_def)
  show ?thesis
  proof
    assume v: "vm_inv (s\<lparr>vm_lock := b\<rparr>)"
    then have "layout s" using l by (simp add: vm_inv_def)
    then show "vm_inv s" by (intro vm_inv_quiet [OF v q(2)]) simp_all
  next
    assume v: "vm_inv s"
    then have "layout (s\<lparr>vm_lock := b\<rparr>)" using l by (simp add: vm_inv_def)
    then show "vm_inv (s\<lparr>vm_lock := b\<rparr>)" by (intro vm_inv_quiet [OF v q(1)]) simp_all
  qed
qed

lemma file_ops_same:
  "vm_same s (snd (file_get fd s))" "vm_same s (file_decref H f s)"
proof -
  show "vm_same s (snd (file_get fd s))"
    by (auto simp: file_get_def Let_def vm_same_def quiet_def set_refcnt_def split: option.splits)
  show "vm_same s (file_decref H f s)"
    by (auto simp: file_decref_def frontend_syscall_def Let_def vm_same_def quiet_def set_refcnt_def split: prod.splits)
qed

lemma locked_keeps:
  assumes "with_vm_lock body s = Inr (r, s')" "vm_inv s"
    and "\<And>t r u. body t = Inr (r, u) \<Longrightarrow> vm_inv t \<Longrightarrow> vm_inv u"
  shows "vm_inv s' \<and> \<not> vm_lock s'"
proof -
  from assms(1) obtain u where u: "body (s\<lparr>vm_lock := True\<rparr>) = Inr (r, u)" "s' = u\<lparr>vm_lock := False\<rparr>"
    by (auto simp: with_vm_lock_def bindE_eq_Inr split: if_splits)
  have "vm_inv u" by (rule assms(3) [OF u(1)]) (simp add: vm_inv_lock assms(2))
  then show ?thesis using u(2) by (simp add: vm_inv_lock)
qed

lemma fault_keeps:
  assumes "handle_page_fault H va prot s = Inr (r, s')" "vm_inv s"
  shows "vm_inv s' \<and> \<not> vm_lock s'"
proof (rule locked_keeps [OF assms(1) [unfolded handle_page_fault_def] assms(2)])
  fix t u :: "('a, 'b) vm_st_scheme" and r
  assume "handle_page_fault_locked H va prot t = Inr (r, u)" "vm_inv t"
  then have "vm_ok u \<and> steady t u \<and> accounted u 0 0" "layout t"
    using fault_locked_keeps(1) [of t H va prot r u] by (auto simp: vm_inv_def layout_def)
  then show "vm_inv u" by (simp add: vm_inv_def layout_def steady_def)
qed

lemma fault_error:
  assumes "handle_page_fault H va prot s = Inl e" "vm_inv s" "\<not> vm_lock s"
  shows "e = Assert ''ret > 0''"
proof -
  have "vm_inv (s\<lparr>vm_lock := True\<rparr>)" using assms(2) by (simp add: vm_inv_lock)
  then show ?thesis
    using assms(1,3) fault_locked_keeps(2) [of "s\<lparr>vm_lock := True\<rparr>" H va prot e]
    by (auto simp: handle_page_fault_def with_vm_lock_def bindE_eq_Inl vm_inv_def layout_def)
qed

lemma mmap_keeps:
  assumes "do_mmap H addr len prot flags fd offset s = Inr (r, s')" "vm_inv s" "\<not> vm_lock s"
  shows "vm_inv s' \<and> \<not> vm_lock s'"
proof -
  define g where "g = (if flags AND MAP_ANONYMOUS \<noteq> 0 then (None, s) else file_get (sint fd) s)"
  obtain f t where g: "g = (f, t)" by (cases g)
  have vt: "vm_same s t" using g file_ops_same(1) [of s "sint fd"] by (auto simp: g_def vm_same_def split: if_splits)
  then have t: "vm_inv t" "\<not> vm_lock t" using vm_inv_same assms(2,3) by (auto simp: vm_same_def)
  show ?thesis
  proof (cases "flags AND MAP_PRIVATE = 0 \<or> len = 0 \<or> offset AND (PGSIZE - 1) \<noteq> 0
      \<or> flags AND MAP_ANONYMOUS = 0 \<and> f = None")
    case True
    then have "s' = s \<or> s' = t" using assms(1) g by (auto simp: do_mmap_def g_def split: if_splits)
    then show ?thesis using assms(2,3) t by auto
  next
    case False
    then obtain a u where u: "with_vm_lock (\<lambda>s. bindE (do_mmap_locked H addr len prot flags f offset s) (\<lambda>(addr, s).
        Inr (addr, if addr < brk_max (current s) then s\<lparr>current := (current s)\<lparr>brk_max := addr\<rparr>\<rparr> else s))) t = Inr (a, u)"
      "s' = (case f of None \<Rightarrow> u | Some f \<Rightarrow> file_decref H f u)"
      using assms(1) g by (auto simp: do_mmap_def g_def Let_def bindE_eq_Inr split: if_splits)
    have "vm_inv u \<and> \<not> vm_lock u"
    proof (rule locked_keeps [OF u(1) t(1)])
      fix x y :: "('a, 'b) vm_st_scheme" and r
      assume b: "bindE (do_mmap_locked H addr len prot flags f offset x) (\<lambda>(addr, s).
        Inr (addr, if addr < brk_max (current s) then s\<lparr>current := (current s)\<lparr>brk_max := addr\<rparr>\<rparr> else s)) = Inr (r, y)"
        and x: "vm_inv x"
      from b obtain z where z: "do_mmap_locked H addr len prot flags f offset x = Inr (r, z)"
        "y = (if r < brk_max (current z) then z\<lparr>current := (current z)\<lparr>brk_max := r\<rparr>\<rparr> else z)"
        by (auto simp: bindE_eq_Inr)
      have "0 < len" using False by (simp add: word_gt_0)
      with mmap_locked_keeps [OF _ _ _ this z(1)] x have Z: "vm_inv z" by (simp add: vm_inv_def)
      show "vm_inv y"
      proof (cases "r < brk_max (current z)")
        case True
        have "layout y" using Z True by (auto simp: z(2) layout_def vm_inv_def)
        then show ?thesis using Z True by (intro vm_inv_quiet [OF Z]) (simp_all add: z(2) quiet_def)
      qed (simp add: z(2) Z)
    qed
    moreover have "vm_same u s'" using u(2) file_ops_same(2) by (cases f) (simp_all add: vm_same_def)
    ultimately show ?thesis using vm_inv_same by (auto simp: vm_same_def)
  qed
qed

lemma munmap_keeps:
  assumes "do_munmap H addr len s = Inr (r, s')" "vm_inv s" "\<not> vm_lock s"
  shows "vm_inv s' \<and> \<not> vm_lock s'"
proof (cases "addr AND (PGSIZE - 1) \<noteq> 0 \<or> \<not> valid_user_range s addr len")
  case True
  then show ?thesis using assms by (simp add: do_munmap_def)
next
  case False
  then have "unat addr mod 4096 = 0" "valid_user_range s addr len" using aligned_and [of addr] by simp_all
  moreover have "mmap_max (current s) \<le> 0x4000000000" using assms(2) by (simp add: vm_inv_def layout_def)
  ultimately show ?thesis
    using do_munmap_ok [of s addr len H] assms by (auto simp: vm_inv_def layout_def steady_def)
qed


lemma munmap_locked_keeps:
  fixes s :: "('h, 'z) vm_st_scheme"
  assumes "do_munmap_locked H addr len s = Inr s'" "vm_inv s" "PGSIZE dvd addr" "unat addr + unat len \<le> 2 ^ 38"
  shows "vm_inv s' \<and> steady s s'"
proof -
  have R: "unat (addr + len) = unat addr + unat len" using assms(4) by (intro unat_u64_plus) simp
  then have e: "unat (addr + len) + 4096 \<le> 2 ^ 64" using assms(4) by simp
  have "\<forall>a \<in> set (page_range addr (addr + len)). user_va a"
    using page_range_elems(1) [OF _ assms(4) R] assms(3) by (simp add: page_dvd)
  then obtain t where "foldE (munmap_page H) (page_range addr (addr + len)) s = Inr t" "vm_ok t" "steady s t"
    "\<forall>r k. accounted s r k \<longrightarrow> accounted t r k"
    using munmap_pages_ok [of s "page_range addr (addr + len)" H] assms(2) by (auto simp: vm_inv_def)
  then show ?thesis using assms(1,2)
    by (simp add: do_munmap_locked_def for_pages_range [OF e] vm_inv_def layout_def steady_def)
qed

lemma roundup_page:
  assumes "a \<le> 0x4000000000"
  shows "PGSIZE dvd ROUNDUP a PGSIZE" "ROUNDUP a PGSIZE \<le> 0x4000000000"
proof -
  show "PGSIZE dvd ROUNDUP a PGSIZE" unfolding ROUNDUP_def by (rule dvd_triv_right)
  show "ROUNDUP a PGSIZE \<le> 0x4000000000"
  proof (cases "a = 0")
    case False
    then have n: "unat ((a - 1) div PGSIZE + 1) = (unat a + 4095) div 4096" by (intro npage_nat(1)) (simp add: word_gt_0)
    have "(unat a + 4095) div 4096 \<le> 2 ^ 26" using assms by (simp add: word_le_nat_alt div_le_mono less_mult_imp_div_less less_Suc_eq_le [symmetric])
    with pages_bytes [OF n] show ?thesis by (simp add: ROUNDUP_def word_le_nat_alt)
  qed (simp add: ROUNDUP_def)
qed

lemma brk_keeps:
  assumes "do_brk H addr s = Inr (r, s')" "vm_inv s"
  shows "vm_inv s' \<and> \<not> vm_lock s'"
proof (rule locked_keeps [OF assms(1) [unfolded do_brk_def] assms(2)])
  fix s u :: "('a, 'b) vm_st_scheme" and r
  assume b: "do_brk_locked H addr s = Inr (r, u)" and s: "vm_inv s"
  let ?c = "brk (current s)" and ?n = "ROUNDUP addr PGSIZE"
  have set: "vm_inv (t\<lparr>current := (current t)\<lparr>brk := ?n\<rparr>\<rparr>)" if "vm_inv t" "\<not> (addr < brk_min (current s) \<or> addr > brk_max (current s))" for t :: "('a, 'b) vm_st_scheme"
  proof -
    have "brk_max (current s) \<le> 0x4000000000" using s by (simp add: vm_inv_def layout_def)
    then have "addr \<le> 0x4000000000" using that(2) order.trans [of addr "brk_max (current s)"] by (auto simp: not_less)
    note R = roundup_page [OF this]
    show ?thesis by (rule vm_inv_quiet [OF that(1)]) (use that(1) R in \<open>simp_all add: quiet_def vm_inv_def layout_def\<close>)
  qed
  consider (out) "addr < brk_min (current s) \<or> addr > brk_max (current s)" | (shrink) "\<not> (addr < brk_min (current s) \<or> addr > brk_max (current s))" "?c > ?n"
    | (grow) "\<not> (addr < brk_min (current s) \<or> addr > brk_max (current s))" "?c < ?n"
    | (stay) "\<not> (addr < brk_min (current s) \<or> addr > brk_max (current s))" "?c = ?n"
    by (metis linorder_neqE not_less)
  then show "vm_inv u"
  proof cases
    case out
    then show ?thesis using b s by (auto simp: do_brk_locked_def Let_def)
  next
    case shrink
    then obtain t where t: "do_munmap_locked H ?n (?c - ?n) s = Inr t" "u = t\<lparr>current := (current t)\<lparr>brk := ?n\<rparr>\<rparr>"
      using b by (auto simp: do_brk_locked_def Let_def bindE_eq_Inr)
    have "?c \<le> 0x4000000000" "addr \<le> 0x4000000000" using s shrink(1) order.trans [of addr "brk_max (current s)"] by (auto simp: vm_inv_def layout_def not_less)
    then have "unat ?n + unat (?c - ?n) \<le> 2 ^ 38"
      using shrink(2) by (subst unat_sub) (simp_all add: word_le_nat_alt word_less_nat_alt)
    from munmap_locked_keeps [OF t(1) s roundup_page(1) [OF \<open>addr \<le> 0x4000000000\<close>] this] show ?thesis
      unfolding t(2) using set shrink(1) by blast
  next
    case grow
    then obtain x t where t: "do_mmap_locked H ?c (?n - ?c) (- 1) (MAP_FIXED OR MAP_PRIVATE OR MAP_ANONYMOUS) None 0 s = Inr (x, t)"
      "u = t \<or> u = t\<lparr>current := (current t)\<lparr>brk := ?n\<rparr>\<rparr>"
      using b by (auto simp: do_brk_locked_def Let_def bindE_eq_Inr split: if_splits)
    have "0 < ?n - ?c" using grow(2) by (simp add: word_gt_0)
    from mmap_locked_keeps [OF _ _ _ this t(1)] s have "vm_inv t" by (simp add: vm_inv_def)
    then show ?thesis using t(2) set [of t] grow(1) by blast
  next
    case stay
    then have "u = s\<lparr>current := (current s)\<lparr>brk := ?n\<rparr>\<rparr>"
      using b by (auto simp: do_brk_locked_def Let_def)
    then show ?thesis using set [OF s stay(1)] by simp
  qed
qed

text \<open>Changing the protection of a range of user pages.\<close>

lemma child_protect: "child (pte_create (pte_ppn e) (prot_to_type prot u)) = child e"
  "pte_create (pte_ppn e) (prot_to_type prot u) AND PTE_V \<noteq> 0"
proof -
  have b: "\<not> bit (prot_to_type prot u) n" if "10 \<le> n" for n using prot_type_bits [of prot u n] that by auto
  have v: "\<not> bit (PTE_V) n" if "10 \<le> n" for n
  proof -
    have "take_bit 10 PTE_V = PTE_V" by (simp add: PTE_V_def)
    then show ?thesis using that by (metis bit_take_bit_iff not_le)
  qed
  show "child (pte_create (pte_ppn e) (prot_to_type prot u)) = child e"
    unfolding child_def pte_create_def pte_ppn_def
    by (rule bit_word_eqI) (auto simp: bit_simps b v)
  have "bit (pte_create (pte_ppn e) (prot_to_type prot u) AND PTE_V) 0"
    by (simp add: pte_create_def PTE_V_def bit_simps)
  then show "pte_create (pte_ppn e) (prot_to_type prot u) AND PTE_V \<noteq> 0" by auto
qed

lemma mprotect_page_keeps:
  fixes s :: "('h, 'z) vm_st_scheme"
  assumes "mprotect_page prot a s = Inr s'" "vm_inv s" "user_va a"
  shows "vm_inv s'"
proof -
  have ok: "vm_ok s" using assms(2) by (simp add: vm_inv_def)
  have m: "map_ok s" using ok by (simp add: vm_ok_def)
  note W = walk_rd_leaf [OF ok assms(3)]
  have nz: "leaf s a \<noteq> 0" using assms(1) W(1) by (auto simp: mprotect_page_def Let_def split: if_splits)
  have rd: "rd_pte s (walk a s) = leaf s a" using W(2) nz by simp
  have w0: "\<not> (walk a s = 0 \<or> rd_pte s (walk a s) = 0)" using W(1) nz by blast
  show ?thesis
  proof (cases "leaf s a AND PTE_V = 0")
    case True
    then have "s' = upd_vmr (leaf s a) (\<lambda>r. r\<lparr>vmr_prot := prot\<rparr>) s"
      using assms(1) w0 rd by (auto simp: mprotect_page_def Let_def split: if_splits)
    then show ?thesis using assms(2)
      by (intro vm_inv_quiet [OF assms(2)]) (simp_all add: upd_vmr_def quiet_def vm_inv_def layout_def)
  next
    case False
    let ?x = "pte_create (pte_ppn (leaf s a)) (prot_to_type prot True)"
    obtain b where b: "leaf_slot s a = Some b" using leaf_nz_slot [OF nz] by blast
    have s': "s' = s\<lparr>ptes := (ptes s)(b := ?x)\<rparr>"
      using assms(1) w0 rd False walk_leaf(3) [OF b] by (auto simp: mprotect_page_def Let_def split: if_splits)
    have c: "child ?x \<in> used_pages s - table_pages s
       \<and> (\<forall>w. user_va w \<longrightarrow> leaf s w AND PTE_V \<noteq> 0 \<longrightarrow> child (leaf s w) = child ?x \<longrightarrow> same_page a w)"
      using map_okD(3-5) [OF m assms(3)] False unfolding child_protect by auto
    note L = set_leaf_ok [OF ok assms(3) b, of ?x, OF c, folded s']
    have "drop_bit 12 a \<notin> promised s"
    proof
      assume "drop_bit 12 a \<in> promised s"
      then obtain w where w: "user_va w" "same_page a w" "leaf s w AND PTE_V = 0" by (auto simp: promised_def same_page_def)
      then show False using same_page_leaf [OF assms(3) w(1,2), of s] False by simp
    qed
    then have "promised s' = promised s" using promised_update [OF L(2) assms(3)] child_protect(2) by simp
    then show ?thesis using assms(2) L by (simp add: vm_inv_def accounted_def vm_rest_def layout_def steady_def)
  qed
qed

lemma mprotect_loop_keeps:
  assumes "mprotect_loop prot a e s = Some (r, s')" "vm_inv s" "unat e \<le> 2 ^ 38"
  shows "vm_inv s'"
proof -
  have "\<forall>r s'. x = (r, s') \<longrightarrow> vm_inv s \<longrightarrow> unat e \<le> 2 ^ 38 \<longrightarrow> vm_inv s'" if "mprotect_loop prot a e s = Some x" for x
  proof (rule mprotect_loop.raw_induct [where P = "\<lambda>prot a e s x. \<forall>r s'. x = (r, s') \<longrightarrow> vm_inv s \<longrightarrow> unat e \<le> 2 ^ 38 \<longrightarrow> vm_inv s'", OF _ that], goal_cases)
    case (1 loop prot a e s x)
    show ?case
    proof (intro allI impI)
      fix r s'
      assume x: "x = (r, s')" and s: "vm_inv s" and e: "unat e \<le> 2 ^ 38"
      show "vm_inv s'"
      proof (cases "a < e")
        case False
        then show ?thesis using 1(2) x s by simp
      next
        case True
        then have u: "user_va a" using e by (simp add: user_va_def word_less_nat_alt)
        show ?thesis
        proof (cases "mprotect_page prot a s")
          case (Inl y)
          then show ?thesis using 1(2) True x s by simp
        next
          case (Inr t)
          then have "loop prot (a + PGSIZE) e t = Some x" using 1(2) True by simp
          from 1(1) [OF this] x e mprotect_page_keeps [OF Inr s u] show ?thesis by blast
        qed
      qed
    qed
  qed
  then show ?thesis using assms by blast
qed

lemma mprotect_keeps:
  assumes "do_mprotect addr len prot s = Inr (r, s')" "vm_inv s" "\<not> vm_lock s" "unat addr + unat len \<le> 2 ^ 38"
  shows "vm_inv s' \<and> \<not> vm_lock s'"
proof (cases "addr AND (PGSIZE - 1) \<noteq> 0")
  case True
  then show ?thesis using assms by (simp add: do_mprotect_def)
next
  case False
  have e: "unat (addr + len) \<le> 2 ^ 38" using assms(4) by (subst unat_u64_plus) simp_all
  have l: "with_vm_lock (\<lambda>s. case mprotect_loop prot addr (addr + len) s of None \<Rightarrow> Inl Diverge | Some r \<Rightarrow> Inr r) s = Inr (r, s')"
    using assms(1) False by (simp add: do_mprotect_def)
  show ?thesis
    by (rule locked_keeps [OF l assms(2)]) (use mprotect_loop_keeps e in \<open>auto split: option.splits\<close>)
qed


section \<open>Histories\<close>

text \<open>
  The states a kernel runs through after \<^verbatim>\<open>pk_vm_init\<close>: every call on the address space that returns,
  in any order, with whatever happens elsewhere in between.  \<open>load\<close> is \<^verbatim>\<open>__do_mmap\<close> as the ELF loader
  and the boot code call it.  \<^verbatim>\<open>do_mprotect\<close> is a step for ranges in the user half only.  The code makes no such check
  (\<^verbatim>\<open>mmap.c\<close>, lines 465 to 505): on a range outside the user half \<^verbatim>\<open>__walk\<close> would take the large pages of the
  kernel for tables, and nothing is said here of a kernel after such a call.
\<close>

inductive vm_reach :: "'h htif \<Rightarrow> ('h, 'z) vm_st_scheme \<Rightarrow> bool" for H where
  start: "vm_ok s \<Longrightarrow> \<not> vm_lock s \<Longrightarrow> layout s \<Longrightarrow> \<forall>va. user_va va \<longrightarrow> leaf s va = 0 \<Longrightarrow> pages_promised s = 0
    \<Longrightarrow> vm_reach H s"
| fault: "vm_reach H s \<Longrightarrow> handle_page_fault H va prot s = Inr (i, s') \<Longrightarrow> vm_reach H s'"
| mmap: "vm_reach H s \<Longrightarrow> do_mmap H addr len prot flags fd offset s = Inr (r, s') \<Longrightarrow> vm_reach H s'"
| load: "vm_reach H s \<Longrightarrow> 0 < len \<Longrightarrow> do_mmap_locked H addr len prot flags f offset s = Inr (r, s') \<Longrightarrow> vm_reach H s'"
| munmap: "vm_reach H s \<Longrightarrow> do_munmap H addr len s = Inr (r, s') \<Longrightarrow> vm_reach H s'"
| heap: "vm_reach H s \<Longrightarrow> do_brk H addr s = Inr (r, s') \<Longrightarrow> vm_reach H s'"
| protect: "vm_reach H s \<Longrightarrow> unat addr + unat len \<le> 2 ^ 38 \<Longrightarrow> do_mprotect addr len prot s = Inr (r, s') \<Longrightarrow> vm_reach H s'"
| elsewhere: "vm_reach H s \<Longrightarrow> vm_same s s' \<Longrightarrow> vm_reach H s'"

lemma vm_reach_inv: "vm_reach H s \<Longrightarrow> vm_inv s \<and> \<not> vm_lock s"
proof (induction rule: vm_reach.induct)
  case (start s)
  then have "promised s = {}" by (auto simp: promised_def)
  with start show ?case by (simp add: vm_inv_def accounted_def)
next
  case (load s len addr prot flags f offset r s')
  then have "vm_ok s" "accounted s 0 0" "layout s" by (simp_all add: vm_inv_def)
  from mmap_locked_keeps [OF this load(2,3)] load(4) show ?case by (simp add: vm_inv_def)
next
  case (elsewhere s s')
  then show ?case using vm_inv_same by (auto simp: vm_same_def)
qed (blast dest: fault_keeps mmap_keeps munmap_keeps brk_keeps mprotect_keeps)+

end
