(* ===== verification/PK_VmProps.thy ===== *)
theory PK_VmProps
  imports PK_Account
begin

text \<open>
  The properties of the virtual memory manager, each with a concrete kernel state on which it
  speaks: an empty address space with 63 free pages.
\<close>

section \<open>A concrete kernel\<close>

definition empty_vm :: "unit vm_st" where
  "empty_vm = \<lparr>pmem = \<lambda>_. 0, host = (), fds = \<lambda>_. None, files = \<lambda>_. \<lparr>kfd = 0, refcnt = 0\<rparr>,
     first_free_page = 0x80001000, next_free_page = 1, free_pages = 64, page_freelist_depth = 0,
     page_freelist_storage = replicate 64 0, randomize_mapping = 0, ptes = \<lambda>_. 0,
     kva2pa_offset = KVA_START - MEM_START, vmr_freelist_head = 0, vmrs = \<lambda>_. blank_vmr,
     root_page_table = KVA_START + 0x1000, vm_lock = False, pages_promised = 0, demand_paging = True,
     mem_size = 0x40000000,
     current = \<lparr>phent = 0, phnum = 0, is_supervisor = 0, phdr = 0, phdr_size = 0, bias = 0, entry = 0,
       brk_min = 0, brk = 0, brk_max = 0, mmap_max = 0x4000000000, stack_top = 0, vm_alloc_guess = 0,
       time0 = 0, cycle0 = 0, instret0 = 0\<rparr>\<rparr>"

definition quiet_host :: "unit htif" where
  "quiet_host = (\<lambda>_ m h. (0, m, h))"

lemma empty_vm_page: "page_ok empty_vm" "free_count empty_vm = 63" "used_pages empty_vm = {0x80001000}"
  by (simp_all add: page_ok_def empty_vm_def freelist_def free_count_def used_pages_def
      bump_pages_def free_page_addr_def lessThan_Suc)

lemma empty_vm_tree: "tab1 empty_vm va = None" "tab0 empty_vm va = None" "leaf empty_vm va = 0"
  by (simp_all add: tab1_def tab0_def leaf_def leaf_slot_def empty_vm_def)

lemma empty_vm_ok: "vm_ok empty_vm"
proof -
  have "root_pa empty_vm = 0x80001000"
    by (simp add: root_pa_def kva2pa_def empty_vm_def KVA_START_val MEM_START_def)
  then have "map_ok empty_vm"
    by (simp add: map_ok_def pt_ok_def empty_vm_page empty_vm_tree)
  then show ?thesis
    by (simp add: vm_ok_def) (simp add: empty_vm_def even_ptr_def blank_vmr_def)
qed

section \<open>Walking the table\<close>

text \<open>C12. \<^verbatim>\<open>__walk_create\<close> on a well-formed table with enough free pages returns the address of the
  entry for the page it was asked for, allocates exactly the missing tables, changes no user
  entry, no byte of a page in use, and leaves a well-formed table in which \<^verbatim>\<open>__walk\<close> finds the
  same entry.\<close>

theorem walk_create_correct:
  assumes "vm_ok s" "user_va va" "missing s va \<le> free_count s"
  shows "\<exists>pte s'. walk_create va s = Inr (pte, s') \<and> pte \<noteq> 0 \<and> vm_ok s' \<and> walk va s' = pte
    \<and> (\<forall>w. user_va w \<longrightarrow> leaf s' w = leaf s w)
    \<and> (\<forall>q \<in> used_pages s. \<forall>a. unat (a - q) < 4096 \<longrightarrow> pmem s' a = pmem s a)
    \<and> used_pages s \<subseteq> used_pages s' \<and> free_count s' + missing s va = free_count s"
proof -
  have "pt_ok s" using assms(1) by (simp add: vm_ok_def map_okD(1))
  from walk_create_ok [OF this assms(2,3)] obtain s' a where w: "walk_create va s = Inr (pa2kva s a, s')"
    "grows s s'" "leaf_slot s' va = Some a" "free_count s' + missing s va = free_count s" by blast
  note G = grows_vm_ok [OF assms(1) w(2)]
  have e: "pa2kva s' a = pa2kva s a" using G(2) by (simp add: pa2kva_def steady_def)
  with leaf_slot_kva [OF G(1) assms(2) w(3)] walk_leaf(1) [OF w(3)] w(2) G(1)
  show ?thesis unfolding w(1) by (simp add: grows_def w(4))
qed

lemma walk_create_correct_witness:
  "\<exists>pte s'. walk_create 0x10000 empty_vm = Inr (pte, s') \<and> pte \<noteq> 0 \<and> walk 0x10000 s' = pte
    \<and> leaf s' 0x20000 = 0 \<and> free_count s' + 2 = 63"
  using walk_create_correct [OF empty_vm_ok, of "0x10000"]
  by (force simp: user_va_def missing_def empty_vm_tree empty_vm_page)

section \<open>Mapping and unmapping\<close>

text \<open>C1. Mapping a fixed range on demand - the kernel pages on demand (it was not started with \<^verbatim>\<open>-p\<close>) and the request does not ask
  for \<^verbatim>\<open>MAP_POPULATE\<close> - always succeeds when the accounting of \<^verbatim>\<open>__do_mmap\<close> admits it: no
  table allocation and no assertion can fail on the way, whatever was mapped there before.  Every page
  of the range, and no other, then points to a region with the file, offset and protection asked for, and
  when every promised page had a free page behind it before, every promised page has one afterwards,
  the new ones included.  (A mapping that is populated brings its pages in at once instead and may stop at a page
  past the end of its file; the invariant and the accounting of both kinds are in \<open>no_overcommit\<close> below.)\<close>

theorem do_mmap_fixed_correct:
  assumes "vm_ok s" "demand_paging s" "mmap_max (current s) \<le> 0x4000000000" "file_live f s"
    and "flags AND MAP_FIXED \<noteq> 0" "flags AND MAP_POPULATE = 0"
    and "unat addr mod 4096 = 0" "valid_user_range s addr len" "0 < len"
    and "mmap_has_room ((len - 1) div PGSIZE + 1) s" "unat (pages_promised s) \<le> free_count s"
  shows "\<exists>v s'. do_mmap_locked H addr len prot flags f offset s = Inr (addr, s') \<and> v \<noteq> 0 \<and> even_ptr v
    \<and> vm_ok s' \<and> (\<forall>w. user_va w \<longrightarrow> leaf s' w = (if touches addr len w then v else leaf s w))
    \<and> region_is s' v addr len f offset prot \<and> (accounted s 0 0 \<longrightarrow> accounted s' 0 0)"
  using do_mmap_fixed_ok [OF assms, of H prot offset] by blast

lemma do_mmap_fixed_correct_witness:
  "\<exists>v s'. do_mmap_locked quiet_host 0x10000 0x3001 PROT_READ (MAP_FIXED OR MAP_PRIVATE) None 0 empty_vm = Inr (0x10000, s')
    \<and> v \<noteq> 0 \<and> leaf s' 0x13fff = v \<and> leaf s' 0x14000 = 0"
proof -
  have "mmap_has_room 4 empty_vm" by (simp add: mmap_has_room_def num_free_pages_def empty_vm_def)
  moreover have "valid_user_range empty_vm 0x10000 0x3001" by (simp add: valid_user_range_def empty_vm_def)
  moreover have "mmap_max (current empty_vm) = 0x4000000000" "demand_paging empty_vm" "pages_promised empty_vm = 0"
    by (simp_all add: empty_vm_def)
  ultimately show ?thesis
    using do_mmap_fixed_correct [OF empty_vm_ok, of None "MAP_FIXED OR MAP_PRIVATE" "0x10000" "0x3001"
        quiet_host PROT_READ 0]
    by (force simp: file_live_def MAP_FIXED_def MAP_PRIVATE_def MAP_POPULATE_def touches_def user_va_def
        empty_vm_tree)
qed

text \<open>C13. \<^verbatim>\<open>do_munmap\<close> rejects an unaligned or out-of-range request without changing anything;
  otherwise it returns 0 with every page of the range unmapped, every other user page as it was
  and the invariant intact.  The frames of the pages that were present, and no others, go back to the allocator, each one
  once; the promises of the pages that were not are withdrawn, as many as there are, from the kernel's count and
  page by page from the counts of the regions that they point to.\<close>

theorem do_munmap_correct:
  assumes "vm_ok s" "\<not> vm_lock s" "mmap_max (current s) \<le> 0x4000000000"
  shows "if unat addr mod 4096 \<noteq> 0 \<or> \<not> valid_user_range s addr len
    then do_munmap H addr len s = Inr (- C_EINVAL, s)
    else \<exists>s'. do_munmap H addr len s = Inr (0, s') \<and> vm_ok s' \<and> current s' = current s
      \<and> (\<forall>w. user_va w \<longrightarrow> leaf s' w = (if touches addr len w then 0 else leaf s w))
      \<and> used_pages s' = used_pages s - frames_of s (touches addr len)
      \<and> free_count s' = free_count s + card (frames_of s (touches addr len))
      \<and> pages_promised s' = pages_promised s - of_nat (card (pages_with s (touches addr len) (\<lambda>x. x \<noteq> 0 \<and> x AND PTE_V = 0)))
      \<and> (\<forall>v. v \<noteq> 0 \<longrightarrow> v AND PTE_V = 0 \<longrightarrow>
           vmr_refcnt (vmrs s' v) = vmr_refcnt (vmrs s v) - of_nat (card (pages_with s (touches addr len) (\<lambda>x. x = v))))"
proof (cases "unat addr mod 4096 \<noteq> 0 \<or> \<not> valid_user_range s addr len")
  case True
  then show ?thesis by (auto simp: do_munmap_def aligned_and [simplified])
next
  case False
  then show ?thesis using do_munmap_ok [OF assms, of addr len H] unfolding gave_back_def by auto
qed

lemma do_munmap_correct_witness:
  "do_munmap quiet_host 0x10001 0x1000 empty_vm = Inr (- C_EINVAL, empty_vm)
   \<and> (\<exists>s'. do_munmap quiet_host 0x10000 0x1000 empty_vm = Inr (0, s') \<and> leaf s' 0x10000 = 0)"
proof -
  have "valid_user_range empty_vm 0x10000 0x1000" by (simp add: valid_user_range_def empty_vm_def)
  moreover have "mmap_max (current empty_vm) = 0x4000000000" "\<not> vm_lock empty_vm"
    by (simp_all add: empty_vm_def)
  ultimately show ?thesis
    using do_munmap_correct [OF empty_vm_ok, of "0x10001" "0x1000" quiet_host]
      do_munmap_correct [OF empty_vm_ok, of "0x10000" "0x1000" quiet_host]
    by (force simp: empty_vm_tree touches_def user_va_def)
qed

section \<open>Page faults\<close>

text \<open>C2. A page fault on a user address is resolved (result 0) exactly when the address is mapped
  and its protection allows the access, where a writable page also allows loads; a promised
  anonymous page is first given a fresh zeroed page, and nothing but that page's entry changes.
  Only an exhausted allocator makes the kernel give up.\<close>

theorem page_fault_correct:
  assumes "vm_ok s" "\<not> vm_lock s" "user_va va" "valid_user_range s (push_bit 12 (drop_bit 12 va)) 1"
    and "prot = PROT_READ \<or> prot = PROT_WRITE \<or> prot = PROT_EXEC"
    and "leaf s va AND PTE_V = 0 \<longrightarrow> leaf s va \<noteq> 0 \<longrightarrow> vmr_file (vmrs s (leaf s va)) = None"
  shows "if leaf s va = 0 then handle_page_fault H va prot s = Inr (-1, s)
    else if leaf s va AND PTE_V \<noteq> 0
    then handle_page_fault H va prot s = Inr (if perms_allow (leaf s va) prot then 0 else -1, s)
    else if free_count s = 0 then handle_page_fault H va prot s = Inl (Panic ''Out of memory!'')
    else \<exists>p s'. let vprot = vmr_prot (vmrs s (leaf s va)) in
      handle_page_fault H va prot s =
        Inr (if vprot AND prot \<noteq> 0 \<or> prot = PROT_READ \<and> vprot AND PROT_WRITE \<noteq> 0 then 0 else -1, s')
      \<and> vm_ok s' \<and> p \<notin> used_pages s \<and> p mod PGSIZE = 0
      \<and> (\<forall>w. user_va w \<longrightarrow> leaf s' w =
            (if same_page va w then pte_create (p div PGSIZE) (prot_to_type vprot True) else leaf s w))
      \<and> (\<forall>a. unat (a - p) < 4096 \<longrightarrow> pmem s' a = 0)
      \<and> Suc (free_count s') = free_count s \<and> pages_promised s' = pages_promised s - 1"
proof -
  note C = handle_page_fault_cases [OF assms(1-3), of H prot]
  show ?thesis
  proof (cases "leaf s va = 0 \<or> leaf s va AND PTE_V \<noteq> 0 \<or> free_count s = 0")
    case True
    with C(1-3) assms(4) show ?thesis by auto
  next
    case False
    with C(4) assms(4,6) obtain p s' where "let x = pte_create (p div PGSIZE) (prot_to_type (vmr_prot (vmrs s (leaf s va))) True) in
        handle_page_fault H va prot s = Inr (if perms_allow x prot then 0 else -1, s') \<and> vm_ok s'
        \<and> p \<notin> used_pages s \<and> p mod PGSIZE = 0
        \<and> (\<forall>w. user_va w \<longrightarrow> leaf s' w = (if same_page va w then x else leaf s w))
        \<and> (\<forall>a. unat (a - p) < 4096 \<longrightarrow> pmem s' a = 0)
        \<and> Suc (free_count s') = free_count s \<and> pages_promised s' = pages_promised s - 1
        \<and> used_pages s' = insert p (used_pages s) \<and> kept s s' \<and> steady s s'" by auto
    with False show ?thesis
      by (simp add: Let_def perms_allow_created [OF assms(5)] exI [of _ p] exI [of _ s'])
  qed
qed

lemma page_fault_correct_witness:
  "handle_page_fault quiet_host 0x10008 PROT_READ empty_vm = Inr (-1, empty_vm)"
proof -
  have "valid_user_range empty_vm (push_bit 12 (drop_bit 12 0x10008)) 1" "\<not> vm_lock empty_vm"
    by (simp_all add: valid_user_range_def empty_vm_def)
  with page_fault_correct [OF empty_vm_ok, of "0x10008" PROT_READ quiet_host] show ?thesis
    by (simp add: user_va_def empty_vm_tree)
qed


section \<open>No overcommitment\<close>

text \<open>C3. Whatever mappings of every kind, populated or not, unmappings, heap changes, page faults and protection changes
  of ranges in the user half of the address space a program and the kernel make, in any order, the
  kernel's counter is the number of promised pages, each of them has a free page in reserve, and so no
  page fault ever finds memory exhausted: the handler can only stop at a page past the end of its file.  (\<^verbatim>\<open>do_mprotect\<close>, unlike the
  other calls, does not check its range; on a range that leaves the user half it would take the kernel's
  large pages for tables, and such calls are not among the steps.)\<close>

theorem no_overcommit:
  assumes "vm_reach H s"
  shows "vm_ok s \<and> \<not> vm_lock s \<and> unat (pages_promised s) = card (promised s) \<and> card (promised s) \<le> free_count s
    \<and> (\<forall>va prot e. handle_page_fault H va prot s = Inl e \<longrightarrow> e = Assert ''ret > 0'')"
proof -
  have i: "vm_inv s" "\<not> vm_lock s" using vm_reach_inv [OF assms] by simp_all
  then have "vm_ok s" "accounted s 0 0" by (simp_all add: vm_inv_def)
  with i show ?thesis using fault_error [OF _ i] by (auto simp: accounted_def)
qed

lemma no_overcommit_witness:
  "\<exists>s. do_mmap_locked quiet_host 0x10000 0x3001 PROT_READ (MAP_FIXED OR MAP_PRIVATE) None 0 empty_vm = Inr (0x10000, s)
    \<and> unat (pages_promised s) = card (promised s) \<and> card (promised s) \<le> free_count s \<and> promised s \<noteq> {}"
proof -
  have "mmap_has_room 4 empty_vm" by (simp add: mmap_has_room_def num_free_pages_def empty_vm_def)
  moreover have "valid_user_range empty_vm 0x10000 0x3001" by (simp add: valid_user_range_def empty_vm_def)
  moreover have "mmap_max (current empty_vm) = 0x4000000000" "demand_paging empty_vm" "pages_promised empty_vm = 0"
    by (simp_all add: empty_vm_def)
  ultimately obtain s v where s: "do_mmap_locked quiet_host 0x10000 0x3001 PROT_READ (MAP_FIXED OR MAP_PRIVATE) None 0 empty_vm = Inr (0x10000, s)"
    "v \<noteq> 0" "even_ptr v" "leaf s 0x10000 = v"
    using do_mmap_fixed_ok [OF empty_vm_ok, of None "MAP_FIXED OR MAP_PRIVATE" "0x10000" "0x3001"
        quiet_host PROT_READ 0]
    by (force simp: file_live_def MAP_FIXED_def MAP_PRIVATE_def MAP_POPULATE_def touches_def user_va_def)
  have "layout empty_vm" "pages_promised empty_vm = 0" "\<not> vm_lock empty_vm"
    by (simp_all add: layout_def empty_vm_def MEM_START_def)
  then have "vm_reach quiet_host empty_vm" using empty_vm_ok by (intro vm_reach.start) (simp_all add: empty_vm_tree)
  from vm_reach.load [OF this _ s(1)] have "vm_reach quiet_host s" by simp
  from no_overcommit [OF this] have "unat (pages_promised s) = card (promised s)" "card (promised s) \<le> free_count s" by simp_all
  moreover have "user_va 0x10000" by (simp add: user_va_def)
  then have "drop_bit 12 0x10000 \<in> promised s" unfolding promised_def using s(2-4) by (intro imageI) (simp add: even_ptr_def)
  ultimately show ?thesis using s(1) by blast
qed

end
