(* ===== verification/Util_String.thy ===== *)
theory Util_String
  imports Memory "HOL-Library.Monad_Syntax"
begin

text \<open>
  \<^verbatim>\<open>util/string.c\<close>: the freestanding \<^verbatim>\<open>memcpy\<close>, \<^verbatim>\<open>memset\<close>, \<^verbatim>\<open>strlen\<close>, \<^verbatim>\<open>strcmp\<close>,
  \<^verbatim>\<open>strcpy\<close> and \<^verbatim>\<open>atol\<close>.  Pointers are 64-bit words into one byte memory.  A loop of the
  source is a \<^verbatim>\<open>partial_function (option)\<close>: \<^const>\<open>None\<close> is an execution that never leaves
  the loop, so each theorem that a routine computes something also says that it returns.
\<close>

section \<open>memcpy\<close>

partial_function (option) memcpy_words ::
    "u64 \<Rightarrow> memory \<Rightarrow> u64 \<Rightarrow> u64 \<Rightarrow> (memory \<times> u64 \<times> u64) option" where
  "memcpy_words lim m d s =
     (if d < lim then memcpy_words lim (store_le 8 m d (load_le 8 m s)) (d + 8) (s + 8)
      else Some (m, d, s))"

partial_function (option) memcpy_bytes ::
    "u64 \<Rightarrow> memory \<Rightarrow> u64 \<Rightarrow> u64 \<Rightarrow> memory option" where
  "memcpy_bytes lim m d s =
     (if d < lim then memcpy_bytes lim (m(d := m s)) (d + 1) (s + 1) else Some m)"

definition memcpy :: "memory \<Rightarrow> u64 \<Rightarrow> u64 \<Rightarrow> u64 \<Rightarrow> memory option" where
  "memcpy m dest src len = do {
     (m', d, s) \<leftarrow> (if (dest OR src) AND 7 = 0
                   then memcpy_words (dest + len - 7) m dest src
                   else Some (m, dest, src));
     memcpy_bytes (dest + len) m' d s
   }"

lemma memcpy_bytes_copy:
  "unat lim = unat d + n \<Longrightarrow> apart d s n \<Longrightarrow> memcpy_bytes lim m d s = Some (mem_copy m d s n)"
proof (induction n arbitrary: m d s)
  case 0
  then show ?case by (subst memcpy_bytes.simps) (simp add: word_less_nat_alt)
next
  case (Suc n)
  have lt: "unat d + 1 < 2 ^ 64" using Suc.prems(1) unat_u64_lt [of lim] by simp
  then have d1: "unat (d + 1) = unat d + 1" by (simp add: unat_word_ariths)
  have "memcpy_bytes lim m d s = memcpy_bytes lim (m(d := m s)) (d + 1) (s + 1)"
    using Suc.prems(1) by (subst memcpy_bytes.simps) (simp add: word_less_nat_alt)
  also have "\<dots> = Some (mem_copy (m(d := m s)) (d + 1) (s + 1) n)"
    using Suc.prems d1 apart_shift [of d s 1 n] by (intro Suc.IH) auto
  also have "mem_copy (m(d := m s)) (d + 1) (s + 1) n = mem_copy m d s (1 + n)"
    using mem_copy_add [of d s 1 n m] Suc.prems unat_u64_lt [of lim] by (simp add: mem_copy_1)
  finally show ?case by simp
qed

text \<open>
  The word loop runs \<open>k\<close> times and leaves at most seven bytes.  It stops only where
  \<open>dest + len - 7\<close> did not wrap below zero.
\<close>

lemma memcpy_words_copy:
  "unat lim + 7 = unat d + 8 * k + r \<Longrightarrow> r < 8 \<Longrightarrow> unat lim + 7 < 2 ^ 64 \<Longrightarrow> apart d s (8 * k)
   \<Longrightarrow> memcpy_words lim m d s = Some (mem_copy m d s (8 * k), d + of_nat (8 * k), s + of_nat (8 * k))"
proof (induction k arbitrary: m d s)
  case 0
  then show ?case by (subst memcpy_words.simps) (simp add: word_less_nat_alt)
next
  case (Suc k)
  have d8: "unat (d + 8) = unat d + 8"
    using Suc.prems(1,3) by (simp add: unat_word_ariths)
  have "memcpy_words lim m d s = memcpy_words lim (store_le 8 m d (load_le 8 m s)) (d + 8) (s + 8)"
    using Suc.prems by (subst memcpy_words.simps) (simp add: word_less_nat_alt)
  also have "store_le 8 m d (load_le 8 m s) = mem_copy m d s 8"
    using Suc.prems(4) by (intro store_load_copy) (auto elim: apart_less)
  also have "memcpy_words lim (mem_copy m d s 8) (d + 8) (s + 8)
      = Some (mem_copy (mem_copy m d s 8) (d + 8) (s + 8) (8 * k),
              d + 8 + of_nat (8 * k), s + 8 + of_nat (8 * k))"
    using Suc.prems apart_shift [of d s 8 "8 * k"] d8 by (intro Suc.IH) auto
  also have "mem_copy (mem_copy m d s 8) (d + 8) (s + 8) (8 * k) = mem_copy m d s (8 + 8 * k)"
    using mem_copy_add [of d s 8 "8 * k" m] Suc.prems unat_u64_lt [of lim] by simp
  finally show ?case by (simp add: algebra_simps)
qed

text \<open>\<^verbatim>\<open>memcpy\<close> returns and copies exactly the bytes [src, src+len) to [dest, dest+len) and
  leaves every other byte alone, whichever of its two loops runs, for regions that are
  disjoint and do not wrap around the address space.\<close>

lemma memcpy_copies:
  assumes "unat dest + unat len < 2 ^ 64" "7 \<le> unat dest + unat len"
    and "apart dest src (unat len)"
  shows "memcpy m dest src len = Some (mem_copy m dest src (unat len))"
proof (cases "(dest OR src) AND 7 = 0")
  case False
  have "unat (dest + len) = unat dest + unat len"
    using assms(1) by (simp add: unat_word_ariths)
  then show ?thesis
    using False assms memcpy_bytes_copy [of "dest + len" dest "unat len" src m]
    by (simp add: memcpy_def)
next
  case True
  define k r where "k = unat len div 8" and "r = unat len mod 8"
  have kr: "unat len = 8 * k + r" "r < 8" by (simp_all add: k_def r_def)
  have dl: "unat (dest + len) = unat dest + unat len"
    using assms(1) by (simp add: unat_word_ariths)
  have "(7 :: u64) \<le> dest + len" using assms(2) dl by (simp add: word_le_nat_alt)
  then have lim: "unat (dest + len - 7) + 7 = unat dest + unat len"
    using dl assms(2) by (simp add: unat_sub)
  have w: "memcpy_words (dest + len - 7) m dest src
      = Some (mem_copy m dest src (8 * k), dest + of_nat (8 * k), src + of_nat (8 * k))"
    using lim kr assms by (intro memcpy_words_copy [where r = r]) (auto elim: apart_less)
  have n: "unat (dest + of_nat (8 * k)) = unat dest + 8 * k"
    using assms(1) kr by (simp add: unat_word_ariths unat_of_nat)
  have "memcpy_bytes (dest + len) (mem_copy m dest src (8 * k)) (dest + of_nat (8 * k)) (src + of_nat (8 * k))
      = Some (mem_copy (mem_copy m dest src (8 * k)) (dest + of_nat (8 * k)) (src + of_nat (8 * k)) r)"
    using apart_shift [of dest src "8 * k" r] assms(3) n dl kr by (intro memcpy_bytes_copy) auto
  also have "\<dots> = Some (mem_copy m dest src (unat len))"
    using mem_copy_add [of dest src "8 * k" r m] assms kr by simp
  finally show ?thesis using True w by (simp add: memcpy_def)
qed

section \<open>memset\<close>

partial_function (option) memset_words :: "u64 \<Rightarrow> u64 \<Rightarrow> memory \<Rightarrow> u64 \<Rightarrow> memory option" where
  "memset_words lim w m d =
     (if d < lim then memset_words lim w (store_le 8 m d w) (d + 8) else Some m)"

partial_function (option) memset_bytes :: "u64 \<Rightarrow> u8 \<Rightarrow> memory \<Rightarrow> u64 \<Rightarrow> memory option" where
  "memset_bytes lim b m d =
     (if d < lim then memset_bytes lim b (m(d := b)) (d + 1) else Some m)"

definition memset_word :: "u32 \<Rightarrow> u64" where
  "memset_word byte =
     (let w = ucast (byte AND 0xFF);
          w = w OR push_bit 8 w;
          w = w OR push_bit 16 w;
          w = w OR push_bit 16 (push_bit 16 w)
      in w)"

definition memset :: "memory \<Rightarrow> u64 \<Rightarrow> u32 \<Rightarrow> u64 \<Rightarrow> memory option" where
  "memset m dest byte len =
     (if (dest OR len) AND 7 = 0
      then memset_words (dest + len) (memset_word byte) m dest
      else memset_bytes (dest + len) (ucast byte) m dest)"

lemma memset_bytes_fill:
  "unat lim = unat d + n \<Longrightarrow> memset_bytes lim b m d = Some (mem_fill m d b n)"
proof (induction n arbitrary: m d)
  case 0
  then show ?case by (subst memset_bytes.simps) (simp add: word_less_nat_alt)
next
  case (Suc n)
  have d1: "unat (d + 1) = unat d + 1"
    using Suc.prems unat_u64_lt [of lim] by (simp add: unat_word_ariths)
  have "memset_bytes lim b m d = memset_bytes lim b (m(d := b)) (d + 1)"
    using Suc.prems by (subst memset_bytes.simps) (simp add: word_less_nat_alt)
  also have "\<dots> = Some (mem_fill (m(d := b)) (d + 1) b n)"
    using Suc.prems d1 by (intro Suc.IH) auto
  also have "mem_fill (m(d := b)) (d + 1) b n = mem_fill m d b (1 + n)"
    using mem_fill_add [of 1 n m d b] Suc.prems unat_u64_lt [of lim] by (simp add: mem_fill_1)
  finally show ?case by simp
qed

lemma bit_replicate:
  fixes w :: u64
  assumes "\<And>k. bit w k \<longleftrightarrow> k < n \<and> bit byte (k mod 8)" and "n mod 8 = 0" "2 * n \<le> 64"
  shows "bit (w OR push_bit n w) k \<longleftrightarrow> k < 2 * n \<and> bit byte (k mod 8)"
proof (cases "k < n")
  case True
  with assms(1,3) show ?thesis by (simp add: bit_or_iff bit_push_bit_iff)
next
  case False
  then obtain r where r: "k = n + r" using le_Suc_ex not_less by blast
  moreover from assms(2) obtain q where "n = 8 * q" by (metis mod_0_imp_dvd dvdE)
  ultimately have m: "(k - n) mod 8 = k mod 8" by simp
  have "bit (push_bit n w) k \<longleftrightarrow> k < 64 \<and> k - n < n \<and> bit byte (k mod 8)"
    using False by (simp add: bit_push_bit_iff assms(1) m)
  moreover have "\<not> bit w k" using False by (simp add: assms(1))
  ultimately show ?thesis
    using False assms(3) unfolding bit_or_iff by auto
qed

lemma bit_memset_word: "bit (memset_word byte) k \<longleftrightarrow> k < 64 \<and> bit byte (k mod 8)"
proof -
  have push: "push_bit 16 (push_bit 16 w) = push_bit 32 w" for w :: u64 by simp
  have 0: "bit (ucast (byte AND 0xFF) :: u64) k \<longleftrightarrow> k < 8 \<and> bit byte (k mod 8)" for k
  proof -
    have "byte AND 0xFF = take_bit 8 byte" by (simp add: take_bit_eq_mask mask_eq_exp_minus_1)
    then show ?thesis by (auto simp: bit_unsigned_iff bit_take_bit_iff dest: bit_imp_le_length)
  qed
  define w0 :: u64 where "w0 = ucast (byte AND 0xFF)"
  define w1 where "w1 = w0 OR push_bit 8 w0"
  define w2 where "w2 = w1 OR push_bit 16 w1"
  have 1: "bit w1 k \<longleftrightarrow> k < 16 \<and> bit byte (k mod 8)" for k
    using bit_replicate [of w0 8 byte] 0 by (simp add: w0_def w1_def)
  have 2: "bit w2 k \<longleftrightarrow> k < 32 \<and> bit byte (k mod 8)" for k
    using bit_replicate [of w1 16 byte] 1 by (simp add: w2_def)
  have "bit (w2 OR push_bit 32 w2) k \<longleftrightarrow> k < 64 \<and> bit byte (k mod 8)"
    using bit_replicate [of w2 32 byte] 2 by simp
  then show ?thesis
    unfolding memset_word_def Let_def push w0_def [symmetric] w1_def [symmetric] w2_def [symmetric] .
qed

lemma memset_word_bytes:
  assumes "j < 8"
  shows "ucast (drop_bit (8 * j) (memset_word byte)) = (ucast byte :: u8)"
proof (rule bit_word_eqI)
  fix n assume "n < LENGTH(8)"
  with assms show "bit (ucast (drop_bit (8 * j) (memset_word byte)) :: u8) n = bit (ucast byte :: u8) n"
    by (auto simp: bit_unsigned_iff bit_drop_bit_eq bit_memset_word)
qed

lemma store_le_fill:
  "n \<le> 8 \<Longrightarrow> (\<And>j. j < n \<Longrightarrow> ucast (drop_bit (8 * j) v) = b) \<Longrightarrow> store_le n m d v = mem_fill m d b n"
proof (induction n arbitrary: m d v)
  case (Suc n)
  have "ucast v = b" using Suc.prems(2) [of 0] by simp
  moreover have "ucast (drop_bit (8 * j) (drop_bit 8 v)) = b" if "j < n" for j
    using Suc.prems(2) [of "Suc j"] that by (simp add: add.commute)
  ultimately have "store_le (Suc n) m d v = mem_fill (mem_fill m d b 1) (d + of_nat 1) b n"
    using Suc by (simp add: mem_fill_1)
  also have "\<dots> = mem_fill m d b (1 + n)"
    using Suc.prems by (intro mem_fill_add) auto
  finally show ?case by simp
qed simp

lemma memset_words_fill:
  "unat lim = unat d + 8 * k \<Longrightarrow> unat lim + 8 \<le> 2 ^ 64
   \<Longrightarrow> memset_words lim (memset_word byte) m d = Some (mem_fill m d (ucast byte) (8 * k))"
proof (induction k arbitrary: m d)
  case 0
  then show ?case by (subst memset_words.simps) (simp add: word_less_nat_alt)
next
  case (Suc k)
  have d8: "unat (d + 8) = unat d + 8"
    using Suc.prems by (simp add: unat_word_ariths)
  have "memset_words lim (memset_word byte) m d
      = memset_words lim (memset_word byte) (store_le 8 m d (memset_word byte)) (d + 8)"
    using Suc.prems by (subst memset_words.simps) (simp add: word_less_nat_alt)
  also have "store_le 8 m d (memset_word byte) = mem_fill m d (ucast byte) 8"
    by (intro store_le_fill memset_word_bytes) auto
  also have "memset_words lim (memset_word byte) (mem_fill m d (ucast byte) 8) (d + 8)
      = Some (mem_fill (mem_fill m d (ucast byte) 8) (d + 8) (ucast byte) (8 * k))"
    using Suc.prems d8 by (intro Suc.IH) auto
  also have "mem_fill (mem_fill m d (ucast byte) 8) (d + 8) (ucast byte) (8 * k)
      = mem_fill m d (ucast byte) (8 + 8 * k)"
    using mem_fill_add [of 8 "8 * k" m d "ucast byte"] Suc.prems by simp
  finally show ?case by simp
qed

text \<open>\<^verbatim>\<open>memset\<close> returns and sets exactly the bytes [dest, dest+len) to the low byte of its
  argument, whether it stores whole words of the replicated byte or single bytes.\<close>

lemma memset_fills:
  assumes "unat dest + unat len + 8 \<le> 2 ^ 64"
  shows "memset m dest byte len = Some (mem_fill m dest (ucast byte) (unat len))"
proof -
  have dl: "unat (dest + len) = unat dest + unat len"
    using assms by (intro unat_u64_plus) simp
  show ?thesis
  proof (cases "(dest OR len) AND 7 = 0")
    case False
    then show ?thesis by (simp add: memset_def memset_bytes_fill dl)
  next
    case True
    then have "len AND 7 = 0" by (simp only: or_and_eq_0)
    then have "len mod 8 = 0" by (simp only: and_low_mask_mod)
    then have "unat len mod 8 = 0"
      using unat_mod_distrib [of len 8] by simp
    then have "unat len = 8 * (unat len div 8)"
      by presburger
    with True assms dl show ?thesis
      using memset_words_fill [of "dest + len" dest "unat len div 8" byte m] by (simp add: memset_def)
  qed
qed

text \<open>C22. memcpy and memset return.  memcpy copies exactly the bytes [src, src+len) to [dest, dest+len)
  and leaves every other byte alone, whichever of its two loops runs, for regions that are disjoint and do
  not wrap around the address space; memset sets exactly the bytes [dest, dest+len) to the low byte of its
  argument, whether it stores whole words of the replicated byte or single bytes.\<close>

theorem memcpy_memset_correct:
  "(unat dest + unat len < 2 ^ 64 \<and> 7 \<le> unat dest + unat len \<and> apart dest src (unat len) \<longrightarrow>
      memcpy m dest src len = Some (mem_copy m dest src (unat len)))
    \<and> (unat dest + unat len + 8 \<le> 2 ^ 64 \<longrightarrow>
      memset m dest byte len = Some (mem_fill m dest (ucast byte) (unat len)))"
  using memcpy_copies memset_fills by blast

lemma memcpy_memset_correct_witness:
  "memcpy (\<lambda>a. ucast a) 0x1000 0x2003 11 = Some (mem_copy (\<lambda>a. ucast a) 0x1000 0x2003 (unat (11 :: u64)))
    \<and> memset (\<lambda>_. 7) 0x1000 0x1FF 24 = Some (mem_fill (\<lambda>_. 7) 0x1000 (ucast (0x1FF :: u32)) (unat (24 :: u64)))"
  using memcpy_memset_correct [of "0x1000" 11 "0x2003" "\<lambda>a. ucast a"]
    memcpy_memset_correct [of "0x1000" 24 _ "\<lambda>_. 7" "0x1FF"] by (simp add: apart_below)

section \<open>Strings\<close>

text \<open>\<open>cstr_at m a s\<close>: at \<open>a\<close> lie the bytes \<open>s\<close>, none of them zero, and then a zero byte.\<close>

primrec cstr_at :: "memory \<Rightarrow> u64 \<Rightarrow> u8 list \<Rightarrow> bool" where
  "cstr_at m a [] \<longleftrightarrow> m a = 0"
| "cstr_at m a (c # cs) \<longleftrightarrow> c \<noteq> 0 \<and> m a = c \<and> cstr_at m (a + 1) cs"

partial_function (option) strlen_loop :: "memory \<Rightarrow> u64 \<Rightarrow> u64 option" where
  "strlen_loop m p = (if m p \<noteq> 0 then strlen_loop m (p + 1) else Some p)"

definition strlen :: "memory \<Rightarrow> u64 \<Rightarrow> u64 option" where
  "strlen m s = do { p \<leftarrow> strlen_loop m s; Some (p - s) }"

partial_function (option) strcmp :: "memory \<Rightarrow> u64 \<Rightarrow> u64 \<Rightarrow> int option" where
  "strcmp m s1 s2 =
     (let c1 = m s1; c2 = m s2
      in if c1 \<noteq> 0 \<and> c1 = c2 then strcmp m (s1 + 1) (s2 + 1)
         else Some (uint c1 - uint c2))"

partial_function (option) strcpy_loop :: "memory \<Rightarrow> u64 \<Rightarrow> u64 \<Rightarrow> memory option" where
  "strcpy_loop m d src =
     (let m' = m(d := m src)
      in if m src \<noteq> 0 then strcpy_loop m' (d + 1) (src + 1) else Some m')"

definition strcpy :: "memory \<Rightarrow> u64 \<Rightarrow> u64 \<Rightarrow> memory option" where
  "strcpy m dest src = strcpy_loop m dest src"

lemma strlen_loop_cstr: "cstr_at m a s \<Longrightarrow> strlen_loop m a = Some (a + of_nat (length s))"
  by (induction s arbitrary: a) (subst strlen_loop.simps, simp add: add.assoc)+

text \<open>The order \<^verbatim>\<open>strcmp\<close> promises: bytes compared as unsigned, the end of a string first.\<close>

fun bytes_cmp :: "u8 list \<Rightarrow> u8 list \<Rightarrow> int" where
  "bytes_cmp [] [] = 0"
| "bytes_cmp [] (c # cs) = - uint c"
| "bytes_cmp (b # bs) [] = uint b"
| "bytes_cmp (b # bs) (c # cs) = (if b = c then bytes_cmp bs cs else uint b - uint c)"

lemma strcmp_cstr:
  "cstr_at m a s \<Longrightarrow> cstr_at m b t \<Longrightarrow> strcmp m a b = Some (bytes_cmp s t)"
  by (induction s t arbitrary: a b rule: bytes_cmp.induct)
     (subst strcmp.simps, simp)+

text \<open>The comparison of a string in memory with a literal, as \<^verbatim>\<open>strcmp(s, "...") == 0\<close>.\<close>

definition bytes_of :: "string \<Rightarrow> u8 list" where
  "bytes_of s = map (\<lambda>c. of_nat (of_char c)) s"

definition streq :: "memory \<Rightarrow> u64 \<Rightarrow> string \<Rightarrow> bool" where
  "streq m a t = cstr_at m a (bytes_of t)"

lemma strcmp_literal:
  "cstr_at m b t \<Longrightarrow> \<exists>r. strcmp m a b = Some r \<and> (r = 0 \<longleftrightarrow> cstr_at m a t)"
proof (induction t arbitrary: a b)
  case Nil
  then show ?case by (subst strcmp.simps) (simp add: uint_0_iff)
next
  case (Cons c t)
  have ne: "uint (m a) = uint c \<longleftrightarrow> m a = c" by (simp only: word_uint_eq_iff)
  from Cons show ?case by (subst strcmp.simps) (auto simp: ne Let_def)
qed

lemma bytes_cmp_eq_0:
  "0 \<notin> set s \<Longrightarrow> 0 \<notin> set t \<Longrightarrow> bytes_cmp s t = 0 \<longleftrightarrow> s = t"
proof (induction s t rule: bytes_cmp.induct)
  case (4 b bs c cs)
  have "uint b = uint c \<longleftrightarrow> b = c" by (simp only: word_uint_eq_iff)
  with 4 show ?case by auto
qed (auto simp: uint_0_iff)

lemma cstr_at_no_zero: "cstr_at m a s \<Longrightarrow> 0 \<notin> set s"
  by (induction s arbitrary: a) auto

text \<open>C23. strlen returns, and returns the number of bytes before the terminating zero; strcmp
  returns, is zero exactly on equal strings, and is antisymmetric (its sign orders the strings
  by unsigned bytes).\<close>

theorem strlen_strcmp_correct:
  assumes "cstr_at m a s" "cstr_at m b t"
  shows "strlen m a = Some (of_nat (length s)) \<and> strcmp m a b = Some (bytes_cmp s t)
    \<and> (strcmp m a b = Some 0 \<longleftrightarrow> s = t)
    \<and> strcmp m b a = map_option uminus (strcmp m a b)"
proof -
  have l: "strlen m a = Some (of_nat (length s))"
    using strlen_loop_cstr [OF assms(1)] by (simp add: strlen_def)
  have c: "strcmp m a b = Some (bytes_cmp s t)" "strcmp m b a = Some (bytes_cmp t s)"
    using assms by (auto intro: strcmp_cstr)
  have "bytes_cmp s t = 0 \<longleftrightarrow> s = t"
    using bytes_cmp_eq_0 cstr_at_no_zero assms by blast
  moreover have "bytes_cmp t s = - bytes_cmp s t"
    by (induction s t rule: bytes_cmp.induct) auto
  ultimately show ?thesis using l c by simp
qed

lemma strlen_strcmp_correct_witness:
  "strlen ((\<lambda>_. 0)(0 := 104, 1 := 105, 8 := 104)) 0 = Some (of_nat (length [104, 105 :: u8]))
   \<and> strcmp ((\<lambda>_. 0)(0 := 104, 1 := 105, 8 := 104)) 0 8 = Some (bytes_cmp [104, 105] [104])"
  using strlen_strcmp_correct
    [of "(\<lambda>_. 0)(0 := 104, 1 := 105, 8 := 104)" 0 "[104, 105]" 8 "[104]"]
  by simp

lemma strcpy_loop_copy:
  "cstr_at m a s \<Longrightarrow> apart d a (Suc (length s)) \<Longrightarrow> length s + 1 < 2 ^ 64
   \<Longrightarrow> strcpy_loop m d a = Some (mem_copy m d a (Suc (length s)))"
proof (induction s arbitrary: m d a)
  case Nil
  then show ?case by (subst strcpy_loop.simps) (simp add: mem_copy_1)
next
  case (Cons c cs)
  let ?n = "Suc (length cs)"
  have ap: "apart (d + 1) (a + 1) ?n"
    using apart_shift [of d a 1 ?n] Cons.prems(2) by simp
  have far: "d \<noteq> a + 1 + of_nat j" if "j < ?n" for j
    using Cons.prems(2) [unfolded apart_def, rule_format, of 0 "Suc j"] that
    by (simp add: add.assoc)
  have keep: "cstr_at (m(d := x)) b t" if "cstr_at m b t" "\<And>j. j \<le> length t \<Longrightarrow> d \<noteq> b + of_nat j"
    for x b and t :: "u8 list"
    using that
  proof (induction t arbitrary: b)
    case Nil
    then show ?case by auto
  next
    case (Cons y ys)
    have "d \<noteq> b" using Cons.prems(2) [of 0] by simp
    moreover have "d \<noteq> b + 1 + of_nat j" if "j \<le> length ys" for j
      using Cons.prems(2) [of "Suc j"] that by (simp add: add.assoc)
    ultimately show ?case using Cons by simp
  qed
  have "strcpy_loop m d a = strcpy_loop (m(d := m a)) (d + 1) (a + 1)"
    using Cons.prems(1) by (subst strcpy_loop.simps) simp
  also have "\<dots> = Some (mem_copy (m(d := m a)) (d + 1) (a + 1) ?n)"
    using Cons.prems ap by (intro Cons.IH keep far) auto
  also have "mem_copy (m(d := m a)) (d + 1) (a + 1) ?n = mem_copy m d a (1 + ?n)"
    using mem_copy_add [of d a 1 ?n m] Cons.prems by (simp add: mem_copy_1)
  finally show ?case by simp
qed

section \<open>atol\<close>

text \<open>
  Characters are the bytes of the string (\<^verbatim>\<open>char\<close> is unsigned on RISC-V), the accumulator is a
  64-bit word.  The source's \<^verbatim>\<open>res *= 10\<close> on \<^verbatim>\<open>long\<close> is undefined once it overflows; the model
  wraps, and the theorems only speak of values that fit.
\<close>

partial_function (option) atol_spaces :: "memory \<Rightarrow> u64 \<Rightarrow> u64 option" where
  "atol_spaces m p = (if m p = 32 then atol_spaces m (p + 1) else Some p)"

partial_function (option) atol_digits :: "memory \<Rightarrow> u64 \<Rightarrow> u64 \<Rightarrow> u64 option" where
  "atol_digits m p res =
     (if m p \<noteq> 0 then atol_digits m (p + 1) (res * 10 + (ucast (m p) - 48)) else Some res)"

definition atol :: "memory \<Rightarrow> u64 \<Rightarrow> u64 option" where
  "atol m str = do {
     p \<leftarrow> atol_spaces m str;
     let signed = (m p = 45 \<or> m p = 43);
     let neg = (m p = 45);
     res \<leftarrow> atol_digits m (if signed then p + 1 else p) 0;
     Some (if signed \<and> neg then - res else res)
   }"

definition digit_val :: "u8 \<Rightarrow> int" where
  "digit_val c = uint c - 48"

definition is_digit :: "u8 \<Rightarrow> bool" where
  "is_digit c \<longleftrightarrow> 48 \<le> c \<and> c \<le> 57"

primrec dec_value :: "int \<Rightarrow> u8 list \<Rightarrow> int" where
  "dec_value acc [] = acc"
| "dec_value acc (c # cs) = dec_value (10 * acc + digit_val c) cs"

lemma atol_digits_value:
  "cstr_at m p ds \<Longrightarrow> atol_digits m p (word_of_int acc) = Some (word_of_int (dec_value acc ds))"
proof (induction ds arbitrary: p acc)
  case Nil
  then show ?case by (subst atol_digits.simps) simp
next
  case (Cons c cs)
  have "(word_of_int acc * 10 + (ucast c - 48) :: u64) = word_of_int (10 * acc + digit_val c)"
    by (simp add: digit_val_def mult.commute)
  moreover have "atol_digits m p (word_of_int acc)
      = atol_digits m (p + 1) (word_of_int acc * 10 + (ucast c - 48))"
    using Cons.prems by (subst atol_digits.simps) auto
  ultimately show ?case using Cons.IH [of "p + 1" "10 * acc + digit_val c"] Cons.prems
    by (simp only: dec_value.simps cstr_at.simps)
qed

lemma atol_spaces_skip:
  "cstr_at m p (replicate k 32 @ s) \<Longrightarrow> s = [] \<or> hd s \<noteq> 32
   \<Longrightarrow> atol_spaces m p = Some (p + of_nat k) \<and> cstr_at m (p + of_nat k) s"
proof (induction k arbitrary: p)
  case 0
  then show ?case by (subst atol_spaces.simps) (cases s; auto)
next
  case (Suc k)
  then have "atol_spaces m (p + 1) = Some (p + 1 + of_nat k) \<and> cstr_at m (p + 1 + of_nat k) s" by simp
  with Suc.prems show ?case by (subst atol_spaces.simps) (simp add: add.assoc)
qed

lemma atol_decimal_text:
  assumes "cstr_at m a (replicate k 32 @ sg @ ds)"
    and "sg = [] \<or> sg = [45] \<or> sg = [43]" and "list_all is_digit ds"
  shows "atol m a = Some (word_of_int ((if sg = [45] then -1 else 1) * dec_value 0 ds))"
proof -
  have nd: "ds = [] \<or> hd ds \<noteq> 32 \<and> hd ds \<noteq> 45 \<and> hd ds \<noteq> 43"
    using assms(3) by (cases ds) (auto simp: is_digit_def)
  then have "sg @ ds = [] \<or> hd (sg @ ds) \<noteq> 32" using assms(2) by auto
  from atol_spaces_skip [OF assms(1) this]
  have sp: "atol_spaces m a = Some (a + of_nat k)" and s: "cstr_at m (a + of_nat k) (sg @ ds)"
    by auto
  show ?thesis
  proof (cases "sg = []")
    case True
    with s nd have "m (a + of_nat k) \<noteq> 45" "m (a + of_nat k) \<noteq> 43" by (cases ds; auto)+
    with True s sp atol_digits_value [of m "a + of_nat k" ds 0] show ?thesis
      by (simp add: atol_def)
  next
    case False
    with assms(2) s have d: "cstr_at m (a + of_nat k + 1) ds" and c: "m (a + of_nat k) = hd sg"
      by auto
    from False assms(2) c sp atol_digits_value [OF d, of 0] show ?thesis
      by (auto simp: atol_def)
  qed
qed

end
