(* ===== verification/Util_Snprintf.thy ===== *)
theory Util_Snprintf
  imports Util_String
begin

text \<open>
  \<^verbatim>\<open>util/snprintf.c\<close>: the formatter behind \<^verbatim>\<open>printk\<close> and \<^verbatim>\<open>printm\<close>.  The model runs the loop of
  \<^verbatim>\<open>vsnprintf\<close> on the bytes of the format, an output buffer and the list of variadic arguments;
  \<open>render\<close> is the text the format stands for, and the main theorem says that the buffer holds
  that text, cut off and terminated within \<open>n\<close> bytes.
\<close>

section \<open>The model\<close>

text \<open>A variadic argument: an integer register, or a string given by its bytes up to the zero.\<close>

datatype vararg = VInt u64 | VStr "u8 list"

definition va_long :: "vararg list \<Rightarrow> int" where
  "va_long va = (case va of VInt x # _ \<Rightarrow> sint x | _ \<Rightarrow> 0)"

definition va_int :: "vararg list \<Rightarrow> int" where
  "va_int va = (case va of VInt x # _ \<Rightarrow> sint (ucast x :: u32) | _ \<Rightarrow> 0)"

definition va_str :: "vararg list \<Rightarrow> u8 list" where
  "va_str va = (case va of VStr s # _ \<Rightarrow> s | _ \<Rightarrow> [])"

record fmt_st =
  f_format :: bool
  f_long :: bool
  f_longlong :: bool
  f_pos :: nat
  f_out :: "u8 list"
  f_va :: "vararg list"

text \<open>\<^verbatim>\<open>if (++pos < n) out[pos-1] = c\<close>.\<close>

definition put :: "nat \<Rightarrow> u8 \<Rightarrow> fmt_st \<Rightarrow> fmt_st" where
  "put n c st = (let pos = f_pos st + 1 in
     st\<lparr>f_pos := pos, f_out := (if pos < n then (f_out st)[pos - 1 := c] else f_out st)\<rparr>)"

definition chr :: "nat \<Rightarrow> u8" where
  "chr k = of_nat k"

definition hex_digit :: "int \<Rightarrow> nat \<Rightarrow> u8" where
  "hex_digit num i = (let d = (drop_bit (4 * i) num) AND 0xF
                      in if d < 10 then of_int (48 + d) else of_int (97 + d - 10))"

text \<open>C's division rounds towards zero; \<open>digits\<close> counts the divisions by ten down to zero.\<close>

function (sequential) count_digits :: "int \<Rightarrow> nat" where
  "count_digits nn = (if nn sdiv 10 = 0 then 1 else Suc (count_digits (nn sdiv 10)))"
  by pat_completeness auto
termination
proof (relation "measure (\<lambda>nn. nat \<bar>nn\<bar>)", goal_cases)
  case (2 nn)
  have "\<bar>nn sdiv 10\<bar> < \<bar>nn\<bar>" if "nn \<noteq> 0"
  proof -
    have "\<bar>nn sdiv 10\<bar> = \<bar>nn\<bar> div 10" by (simp add: signed_divide_int_def abs_mult abs_sgn_eq that)
    also have "\<dots> < \<bar>nn\<bar>" using that by (intro int_div_less_self) auto
    finally show ?thesis .
  qed
  with 2 show ?case by (cases "nn = 0") auto
qed simp

declare count_digits.simps [simp del]

text \<open>The loop that writes the digits from the last one back.\<close>

fun put_digits :: "nat \<Rightarrow> nat \<Rightarrow> nat \<Rightarrow> int \<Rightarrow> u8 list \<Rightarrow> u8 list" where
  "put_digits n pos 0 num out = out"
| "put_digits n pos (Suc i) num out =
     put_digits n pos i (num sdiv 10)
       (if pos + i + 1 < n then out[pos + i := of_int (48 + num smod 10)] else out)"

definition fmt_d :: "nat \<Rightarrow> fmt_st \<Rightarrow> fmt_st" where
  "fmt_d n st =
     (let num = (if f_long st \<or> f_longlong st then va_long (f_va st) else va_int (f_va st));
          st = st\<lparr>f_va := tl (f_va st)\<rparr>;
          neg = (num < 0);
          num = (if neg then sint (- (of_int num :: u64)) else num);
          st = (if neg then put n (chr 45) st else st);
          digits = count_digits num
      in st\<lparr>f_out := put_digits n (f_pos st) digits num (f_out st), f_pos := f_pos st + digits,
            f_long := False, f_longlong := False, f_format := False\<rparr>)"

definition fmt_x :: "nat \<Rightarrow> fmt_st \<Rightarrow> fmt_st" where
  "fmt_x n st =
     (let num = (if f_long st then va_long (f_va st) else va_int (f_va st));
          st' = fold (\<lambda>i. put n (hex_digit num i)) (rev [0..<2 * (if f_long st then 8 else 4)])
                  (st\<lparr>f_va := tl (f_va st)\<rparr>)
      in st'\<lparr>f_long := False, f_format := False\<rparr>)"

definition fmt_s :: "nat \<Rightarrow> fmt_st \<Rightarrow> fmt_st" where
  "fmt_s n st =
     (fold (put n) (va_str (f_va st)) (st\<lparr>f_va := tl (f_va st)\<rparr>))\<lparr>f_long := False, f_format := False\<rparr>"

definition fmt_c :: "nat \<Rightarrow> fmt_st \<Rightarrow> fmt_st" where
  "fmt_c n st =
     (put n (of_int (va_int (f_va st))) (st\<lparr>f_va := tl (f_va st)\<rparr>))\<lparr>f_long := False, f_format := False\<rparr>"

fun vsn_loop :: "nat \<Rightarrow> u8 list \<Rightarrow> fmt_st \<Rightarrow> fmt_st" where
  "vsn_loop n [] st = st"
| "vsn_loop n (c # cs) st =
     (if f_format st then
        (if c = chr 108 then
           (case cs of
              c' # cs' \<Rightarrow> if c' = chr 108 then vsn_loop n cs' (st\<lparr>f_longlong := True\<rparr>)
                         else vsn_loop n cs (st\<lparr>f_long := True\<rparr>)
            | [] \<Rightarrow> vsn_loop n cs (st\<lparr>f_long := True\<rparr>))
         else if c = chr 112 then
           vsn_loop n cs (fmt_x n (put n (chr 120) (put n (chr 48) (st\<lparr>f_long := True\<rparr>))))
         else if c = chr 120 then vsn_loop n cs (fmt_x n st)
         else if c = chr 100 then vsn_loop n cs (fmt_d n st)
         else if c = chr 115 then vsn_loop n cs (fmt_s n st)
         else if c = chr 99 then vsn_loop n cs (fmt_c n st)
         else vsn_loop n cs st)
      else if c = chr 37 then vsn_loop n cs (st\<lparr>f_format := True\<rparr>)
      else vsn_loop n cs (put n c st))"

definition vsnprintf :: "u8 list \<Rightarrow> nat \<Rightarrow> u8 list \<Rightarrow> vararg list \<Rightarrow> int \<times> u8 list" where
  "vsnprintf out n s vl =
     (let st = vsn_loop n s \<lparr>f_format = False, f_long = False, f_longlong = False, f_pos = 0,
                 f_out = out, f_va = vl\<rparr>;
          pos = f_pos st
      in (sint (of_nat pos :: u32),
          if pos < n then (f_out st)[pos := 0] else if n \<noteq> 0 then (f_out st)[n - 1 := 0] else f_out st))"

definition snprintf :: "u8 list \<Rightarrow> nat \<Rightarrow> u8 list \<Rightarrow> vararg list \<Rightarrow> int \<times> u8 list" where
  "snprintf out n s vl = vsnprintf out n s vl"

section \<open>The text a format stands for\<close>

fun digits_of :: "nat \<Rightarrow> int \<Rightarrow> u8 list" where
  "digits_of 0 num = []"
| "digits_of (Suc i) num = digits_of i (num sdiv 10) @ [of_int (48 + num smod 10)]"

definition dec_text :: "int \<Rightarrow> u8 list" where
  "dec_text num =
     (let m = (if num < 0 then sint (- (of_int num :: u64)) else num)
      in (if num < 0 then [chr 45] else []) @ digits_of (count_digits m) m)"

definition hex_text :: "bool \<Rightarrow> int \<Rightarrow> u8 list" where
  "hex_text lng num = map (hex_digit num) (rev [0..<2 * (if lng then 8 else 4)])"

fun render :: "u8 list \<Rightarrow> bool \<Rightarrow> bool \<Rightarrow> bool \<Rightarrow> vararg list \<Rightarrow> u8 list" where
  "render [] fm l ll va = []"
| "render (c # cs) fm l ll va =
     (if fm then
        (if c = chr 108 then
           (case cs of
              c' # cs' \<Rightarrow> if c' = chr 108 then render cs' True l True va else render cs True True ll va
            | [] \<Rightarrow> render cs True True ll va)
         else if c = chr 112 then
           [chr 48, chr 120] @ hex_text True (va_long va) @ render cs False False ll (tl va)
         else if c = chr 120 then
           hex_text l (if l then va_long va else va_int va) @ render cs False False ll (tl va)
         else if c = chr 100 then
           dec_text (if l \<or> ll then va_long va else va_int va) @ render cs False False False (tl va)
         else if c = chr 115 then va_str va @ render cs False False ll (tl va)
         else if c = chr 99 then of_int (va_int va) # render cs False False ll (tl va)
         else render cs True l ll va)
      else if c = chr 37 then render cs True l ll va
      else c # render cs False l ll va)"

section \<open>The buffer holds the text\<close>

text \<open>What the buffer looks like when the text \<open>es\<close> has been emitted, and nothing else.\<close>

definition showing :: "nat \<Rightarrow> u8 list \<Rightarrow> u8 list \<Rightarrow> u8 list" where
  "showing n out es = map (\<lambda>i. if i < length es \<and> i + 1 < n then es ! i else out ! i) [0..<length out]"

lemma length_showing [simp]: "length (showing n out es) = length out"
  by (simp add: showing_def)

lemma nth_showing: "i < length out \<Longrightarrow> showing n out es ! i = (if i < length es \<and> i + 1 < n then es ! i else out ! i)"
  by (simp add: showing_def)

lemma showing_Nil [simp]: "showing n out [] = out"
  by (rule nth_equalityI) (simp_all add: nth_showing)

lemma showing_snoc:
  "showing n out (es @ [c]) = (if length es + 1 < n then (showing n out es)[length es := c] else showing n out es)"
  by (rule nth_equalityI) (auto simp: nth_showing nth_list_update nth_append)

definition emitted :: "nat \<Rightarrow> u8 list \<Rightarrow> u8 list \<Rightarrow> fmt_st \<Rightarrow> bool" where
  "emitted n out es st \<longleftrightarrow> f_pos st = length es \<and> f_out st = showing n out es"

lemma put_emits: "emitted n out es st \<Longrightarrow> emitted n out (es @ [c]) (put n c st)"
  by (auto simp: emitted_def put_def Let_def showing_snoc)

lemma put_fields [simp]:
  "f_format (put n c st) = f_format st" "f_long (put n c st) = f_long st"
  "f_longlong (put n c st) = f_longlong st" "f_va (put n c st) = f_va st"
  by (simp_all add: put_def Let_def)

lemma fold_put_emits:
  "emitted n out es st \<Longrightarrow> emitted n out (es @ map g xs) (fold (\<lambda>x. put n (g x)) xs st)"
proof (induction xs arbitrary: es st)
  case (Cons x xs)
  from Cons.IH [OF put_emits [OF Cons.prems, of "g x"]] show ?case by simp
qed simp

lemma fold_put_fields [simp]:
  "f_format (fold (\<lambda>x. put n (g x)) xs st) = f_format st"
  "f_long (fold (\<lambda>x. put n (g x)) xs st) = f_long st"
  "f_longlong (fold (\<lambda>x. put n (g x)) xs st) = f_longlong st"
  "f_va (fold (\<lambda>x. put n (g x)) xs st) = f_va st"
  by (induction xs arbitrary: st) simp_all

lemma length_digits_of [simp]: "length (digits_of k num) = k"
  by (induction k num rule: digits_of.induct) simp_all

lemma put_digits_showing:
  assumes "length base = length out"
    and "\<And>i. i < length out \<Longrightarrow> base ! i = (if p \<le> i \<and> i < p + k then out ! i else showing n out (es @ digits_of k num @ rest) ! i)"
    and "p = length es"
  shows "put_digits n p k num base = showing n out (es @ digits_of k num @ rest)"
  using assms(1,2)
proof (induction k arbitrary: num base rest)
  case 0
  then show ?case by (intro nth_equalityI) auto
next
  case (Suc k)
  let ?c = "of_int (48 + num smod 10) :: u8"
  let ?b = "if p + k + 1 < n then base[p + k := ?c] else base"
  have e: "es @ digits_of (Suc k) num @ rest = es @ digits_of k (num sdiv 10) @ (?c # rest)" by simp
  have at: "(es @ digits_of k (num sdiv 10) @ (?c # rest)) ! (p + k) = ?c"
    by (simp add: nth_append assms(3))
  have "put_digits n p k (num sdiv 10) ?b = showing n out (es @ digits_of k (num sdiv 10) @ (?c # rest))"
  proof (rule Suc.IH)
    show "length ?b = length out" using Suc.prems(1) by simp
    fix i assume i: "i < length out"
    show "?b ! i = (if p \<le> i \<and> i < p + k then out ! i
        else showing n out (es @ digits_of k (num sdiv 10) @ (?c # rest)) ! i)"
    proof (cases "i = p + k")
      case True
      with i Suc.prems(1) Suc.prems(2) [OF i] at show ?thesis
        by (simp add: nth_showing assms(3))
    next
      case False
      then show ?thesis using Suc.prems(2) [OF i] unfolding e by auto
    qed
  qed
  then show ?case unfolding e by simp
qed

lemma emitted_upd [simp]:
  "emitted n out es (st\<lparr>f_va := v\<rparr>) = emitted n out es st"
  "emitted n out es (st\<lparr>f_long := b\<rparr>) = emitted n out es st"
  "emitted n out es (st\<lparr>f_longlong := b\<rparr>) = emitted n out es st"
  "emitted n out es (st\<lparr>f_format := b\<rparr>) = emitted n out es st"
  "emitted n out es (st\<lparr>f_long := b, f_format := b'\<rparr>) = emitted n out es st"
  by (simp_all add: emitted_def)

lemma fmt_x_emits:
  "emitted n out es st \<Longrightarrow>
   emitted n out (es @ hex_text (f_long st) (if f_long st then va_long (f_va st) else va_int (f_va st))) (fmt_x n st)"
  unfolding fmt_x_def Let_def hex_text_def emitted_upd by (rule fold_put_emits) simp

lemma fmt_s_emits: "emitted n out es st \<Longrightarrow> emitted n out (es @ va_str (f_va st)) (fmt_s n st)"
  unfolding fmt_s_def emitted_upd
  using fold_put_emits [of n out es "st\<lparr>f_va := tl (f_va st)\<rparr>" "\<lambda>x. x" "va_str (f_va st)"] by simp

lemma fmt_c_emits: "emitted n out es st \<Longrightarrow> emitted n out (es @ [of_int (va_int (f_va st))]) (fmt_c n st)"
  unfolding fmt_c_def emitted_upd by (rule put_emits) simp

lemma put_digits_emits:
  "emitted n out es st \<Longrightarrow>
   put_digits n (f_pos st) k num (f_out st) = showing n out (es @ digits_of k num)"
  using put_digits_showing [of "f_out st" out "f_pos st" k n es num "[]"]
  by (simp add: emitted_def nth_showing nth_append)

lemma fmt_d_emits:
  assumes "emitted n out es st"
  shows "emitted n out (es @ dec_text (if f_long st \<or> f_longlong st then va_long (f_va st) else va_int (f_va st))) (fmt_d n st)"
proof -
  let ?num = "if f_long st \<or> f_longlong st then va_long (f_va st) else va_int (f_va st)"
  let ?m = "if ?num < 0 then sint (- (of_int ?num :: u64)) else ?num"
  let ?st = "st\<lparr>f_va := tl (f_va st)\<rparr>"
  let ?st' = "if ?num < 0 then put n (chr 45) ?st else ?st"
  have "emitted n out (es @ (if ?num < 0 then [chr 45] else [])) ?st'"
    using put_emits [of n out es ?st "chr 45"] assms by (cases "?num < 0") simp_all
  from put_digits_emits [OF this, of "count_digits ?m" ?m] this show ?thesis
    unfolding fmt_d_def Let_def dec_text_def by (simp add: emitted_def)
qed

lemma fmt_fields [simp]:
  "f_format (fmt_x n st) = False" "f_long (fmt_x n st) = False" "f_longlong (fmt_x n st) = f_longlong st"
  "f_va (fmt_x n st) = tl (f_va st)"
  "f_format (fmt_s n st) = False" "f_long (fmt_s n st) = False" "f_longlong (fmt_s n st) = f_longlong st"
  "f_va (fmt_s n st) = tl (f_va st)"
  "f_format (fmt_c n st) = False" "f_long (fmt_c n st) = False" "f_longlong (fmt_c n st) = f_longlong st"
  "f_va (fmt_c n st) = tl (f_va st)"
  "f_format (fmt_d n st) = False" "f_long (fmt_d n st) = False" "f_longlong (fmt_d n st) = False"
  "f_va (fmt_d n st) = tl (f_va st)"
  using fold_put_fields [where g = "\<lambda>x. x" and n = n and xs = "va_str (f_va st)"]
  by (simp_all add: fmt_x_def fmt_s_def fmt_c_def fmt_d_def Let_def)

lemma vsn_loop_emits:
  "emitted n out es st \<Longrightarrow>
   emitted n out (es @ render s (f_format st) (f_long st) (f_longlong st) (f_va st)) (vsn_loop n s st)"
proof (induction n s st arbitrary: es rule: vsn_loop.induct)
  case (1 n st)
  then show ?case by simp
next
  case (2 n c cs st)
  note E = 2(12)
  show ?case
  proof (cases "f_format st")
    case lit: False
    show ?thesis
    proof (cases "c = chr 37")
      case True
      have "emitted n out es (st\<lparr>f_format := True\<rparr>)" using E by simp
      from 2(10) [OF lit True this] lit True show ?thesis by simp
    next
      case False
      from 2(11) [OF lit False put_emits [OF E, of c]] lit False show ?thesis by simp
    qed
  next
    case fm: True
    note d = chr_def
    consider (l) "c = chr 108" | (p) "c = chr 112" | (x) "c = chr 120" | (d) "c = chr 100" | (s) "c = chr 115"
      | (c) "c = chr 99" | (o) "c \<noteq> chr 108" "c \<noteq> chr 112" "c \<noteq> chr 120" "c \<noteq> chr 100" "c \<noteq> chr 115" "c \<noteq> chr 99"
      by blast
    then show ?thesis
    proof cases
      case l
      show ?thesis
      proof (cases cs)
        case Nil
        have "emitted n out es (st\<lparr>f_long := True\<rparr>)" using E by simp
        from 2(1) [OF fm l Nil this] fm l Nil show ?thesis by simp
      next
        case (Cons c' cs')
        show ?thesis
        proof (cases "c' = chr 108")
          case True
          have "emitted n out es (st\<lparr>f_longlong := True\<rparr>)" using E by simp
          from 2(2) [OF fm l Cons True this] fm l Cons True show ?thesis by simp
        next
          case False
          have "emitted n out es (st\<lparr>f_long := True\<rparr>)" using E by simp
          from 2(3) [OF fm l Cons False this] fm l Cons False show ?thesis by simp
        qed
      qed
    next
      case p
      have "c \<noteq> chr 108" using p by (simp add: d)
      moreover have "emitted n out ((es @ [chr 48]) @ [chr 120]) (put n (chr 120) (put n (chr 48) (st\<lparr>f_long := True\<rparr>)))"
        using E by (intro put_emits) simp
      from 2(4) [OF fm calculation p fmt_x_emits [OF this]] fm p calculation show ?thesis by simp
    next
      case x
      have "c \<noteq> chr 108" "c \<noteq> chr 112" using x by (simp_all add: d)
      with 2(5) [OF fm this x fmt_x_emits [OF E]] fm x show ?thesis by simp
    next
      case d
      have "c \<noteq> chr 108" "c \<noteq> chr 112" "c \<noteq> chr 120" using d by (simp_all add: chr_def)
      with 2(6) [OF fm this d fmt_d_emits [OF E]] fm d show ?thesis by simp
    next
      case s
      have "c \<noteq> chr 108" "c \<noteq> chr 112" "c \<noteq> chr 120" "c \<noteq> chr 100" using s by (simp_all add: chr_def)
      with 2(7) [OF fm this s fmt_s_emits [OF E]] fm s show ?thesis by simp
    next
      case c
      have "c \<noteq> chr 108" "c \<noteq> chr 112" "c \<noteq> chr 120" "c \<noteq> chr 100" "c \<noteq> chr 115"
        using c by (simp_all add: chr_def)
      with 2(8) [OF fm this c fmt_c_emits [OF E]] fm c show ?thesis by simp
    next
      case o
      with 2(9) [OF fm o E] fm show ?thesis by simp
    qed
  qed
qed

section \<open>Decimal texts\<close>

lemma sdiv_nat: "0 \<le> num \<Longrightarrow> num sdiv 10 = num div 10" "0 \<le> num \<Longrightarrow> num smod 10 = num mod 10" for num :: int
  by (auto simp: signed_divide_int_def signed_modulo_int_def sgn_if minus_div_mult_eq_mod)

lemma dec_value_append: "dec_value acc (xs @ [c]) = 10 * dec_value acc xs + digit_val c"
  by (induction xs arbitrary: acc) simp_all

lemma digit_chr:
  assumes "0 \<le> d" "d < 10"
  shows "is_digit (of_int (48 + d))" "digit_val (of_int (48 + d)) = d"
proof -
  have "uint (of_int (48 + d) :: u8) = 48 + d" 
    unfolding uint_word_of_int using assms by (intro mod_pos_pos_trivial) simp_all
  then show "digit_val (of_int (48 + d)) = d" "is_digit (of_int (48 + d))"
    using assms by (simp_all add: digit_val_def is_digit_def word_le_def)
qed

lemma digits_of_value:
  "0 \<le> num \<Longrightarrow> list_all is_digit (digits_of (count_digits num) num) \<and> dec_value 0 (digits_of (count_digits num) num) = num"
proof (induction num rule: count_digits.induct)
  case (1 num)
  have nn: "0 \<le> num div 10" "0 \<le> num mod 10" "num mod 10 < 10" using 1(2) by simp_all
  show ?case
  proof (cases "num sdiv 10 = 0")
    case True
    then have "num mod 10 = num" using 1(2) sdiv_nat(1) [OF 1(2)] by (simp add: div_eq_0_iff)
    with True 1(2) digit_chr [of num] nn show ?thesis
      by (subst (1 2) count_digits.simps) (simp add: sdiv_nat [OF 1(2)])
  next
    case False
    from 1(1) [OF False] nn sdiv_nat [OF 1(2)]
    have IH: "list_all is_digit (digits_of (count_digits (num sdiv 10)) (num sdiv 10))"
      "dec_value 0 (digits_of (count_digits (num sdiv 10)) (num sdiv 10)) = num div 10" by simp_all
    have "10 * (num div 10) + num mod 10 = num" by simp
    with False IH digit_chr [OF nn(2,3)] show ?thesis
      by (subst (1 2) count_digits.simps) (simp add: dec_value_append sdiv_nat [OF 1(2)])
  qed
qed

lemma dec_text_value:
  assumes "- (2 ^ 63) < num" "num < 2 ^ 63"
  obtains ds where "dec_text num = (if num < 0 then [45] else []) @ ds" "list_all is_digit ds"
    "dec_value 0 ds = \<bar>num\<bar>" "length ds = count_digits \<bar>num\<bar>"
proof -
  have "sint (- (of_int num :: u64)) = - num" if "num < 0"
  proof -
    have "- (of_int num :: u64) = of_int (- num)" by simp
    moreover have "sint (of_int (- num) :: u64) = - num"

      unfolding sint_sbintrunc' using assms that by (intro signed_take_bit_int_eq_self) simp_all
    ultimately show ?thesis by simp
  qed
  then have "(if num < 0 then sint (- (of_int num :: u64)) else num) = \<bar>num\<bar>" by simp
  then have "dec_text num = (if num < 0 then [45] else []) @ digits_of (count_digits \<bar>num\<bar>) \<bar>num\<bar>"
    by (simp only: dec_text_def Let_def) (simp add: chr_def)
  with digits_of_value [of "\<bar>num\<bar>"] that show ?thesis by simp
qed

section \<open>Properties\<close>

text \<open>C19. \<^verbatim>\<open>vsnprintf\<close> returns the length of the text the format stands for, however long the
  buffer; the buffer then holds that text up to its last byte but one, a terminating zero right
  after the text or in its last byte, and nothing is written beyond its \<open>n\<close> bytes.\<close>

theorem vsnprintf_correct:
  assumes "n \<le> length out"
  shows "let text = render s False False False vl; (r, out') = vsnprintf out n s vl in
      r = sint (of_nat (length text) :: u32) \<and> length out' = length out
      \<and> (\<forall>i < length text. i + 1 < n \<longrightarrow> out' ! i = text ! i)
      \<and> (0 < n \<longrightarrow> out' ! min (length text) (n - 1) = 0)
      \<and> (\<forall>i < length out. n \<le> i \<longrightarrow> out' ! i = out ! i)"
proof -
  let ?st = "\<lparr>f_format = False, f_long = False, f_longlong = False, f_pos = 0, f_out = out, f_va = vl\<rparr>"
  let ?t = "render s False False False vl"
  have "emitted n out [] ?st" by (simp add: emitted_def)
  from vsn_loop_emits [OF this, of s]
  have "f_pos (vsn_loop n s ?st) = length ?t" "f_out (vsn_loop n s ?st) = showing n out ?t"
    by (simp_all add: emitted_def)
  with assms show ?thesis
    by (auto simp: vsnprintf_def Let_def nth_showing nth_list_update min_def)
qed

lemma vsnprintf_correct_witness:
  "snd (vsnprintf [7, 7, 7] 2 [104, 105] []) ! 1 = 0"
  using vsnprintf_correct [of 2 "[7, 7, 7]" "[104, 105]" "[]"]
  by (simp add: Let_def case_prod_beta chr_def)

lemma cstr_at_bytes:
  assumes "\<forall>i < length s. m (a + of_nat i) = s ! i" "0 \<notin> set s" "m (a + of_nat (length s)) = 0"
  shows "cstr_at m a s"
  using assms
proof (induction s arbitrary: a)
  case (Cons c s)
  have "m (a + 1 + of_nat i) = s ! i" if "i < length s" for i
    using Cons.prems(1) [rule_format, of "Suc i"] that by (simp add: add.assoc)
  with Cons.IH [of "a + 1"] Cons.prems show ?case by (auto simp: add.assoc)
qed simp

lemma count_digits_bound: "0 \<le> num \<Longrightarrow> num < 10 ^ Suc k \<Longrightarrow> count_digits num \<le> Suc k"
proof (induction k arbitrary: num)
  case 0
  then show ?case by (subst count_digits.simps) (simp add: sdiv_nat)
next
  case (Suc k)
  then have "0 \<le> num div 10" "num div 10 < 10 ^ Suc k" by (simp_all add: div_less_iff_less_mult)
  from Suc.IH [OF this] show ?case using Suc.prems(1) by (subst count_digits.simps) (simp add: sdiv_nat)
qed

text \<open>C21. What \<^verbatim>\<open>vsnprintf\<close> writes for \<^verbatim>\<open>%ld\<close> is the decimal text of the argument: wherever the buffer lies in memory,
  \<^verbatim>\<open>atol\<close> reads the same number back from it, for every \<^verbatim>\<open>long\<close> but the least, if the length that \<^verbatim>\<open>vsnprintf\<close>
  returned is below the size of the buffer; the length is at most 20, so 21 bytes are always enough.\<close>

theorem print_decimal_roundtrip:
  assumes "vsnprintf out n [37, 108, 100] [VInt x] = (r, out')" "n \<le> length out" "r < int n" "- (2 ^ 63) < sint x"
    and "\<forall>i < n. m (a + of_nat i) = out' ! i"
  shows "atol m a = Some x \<and> r \<le> 20"
proof -
  let ?t = "render [37, 108, 100] False False False [VInt x]"
  let ?st = "\<lparr>f_format = False, f_long = False, f_longlong = False, f_pos = 0, f_out = out, f_va = [VInt x]\<rparr>"
  have x: "sint x < 2 ^ 63" using sint_lt [of x] by simp
  from dec_text_value [OF assms(4) this] obtain ds where
    ds: "dec_text (sint x) = (if sint x < 0 then [45] else []) @ ds" "list_all is_digit ds" "dec_value 0 ds = \<bar>sint x\<bar>"
      "length ds = count_digits \<bar>sint x\<bar>" .
  have t: "?t = (if sint x < 0 then [45] else []) @ ds" using ds(1) by (simp add: chr_def va_long_def)
  have "count_digits \<bar>sint x\<bar> \<le> Suc 18" by (rule count_digits_bound) (use assms(4) x in simp_all)
  then have "length ds \<le> 19" using ds(4) by simp
  moreover have "length ?t \<le> Suc (length ds)" unfolding t by simp
  ultimately have len: "length ?t \<le> 20" by linarith
  have "emitted n out [] ?st" by (simp add: emitted_def)
  from vsn_loop_emits [OF this, of "[37, 108, 100]"]
  have e: "f_pos (vsn_loop n [37, 108, 100] ?st) = length ?t" "f_out (vsn_loop n [37, 108, 100] ?st) = showing n out ?t"
    by (simp_all only: emitted_def append_Nil fmt_st.select_convs)
  have r: "r = int (length ?t)"
  proof -
    have "r = sint (of_nat (length ?t) :: u32)" using assms(1) e(1) by (simp only: vsnprintf_def Let_def prod.inject)
    moreover have "sint (of_int (int (length ?t)) :: u32) = int (length ?t)"
      unfolding sint_sbintrunc' using len by (intro signed_take_bit_int_eq_self) simp_all
    ultimately show ?thesis by (simp only: of_int_of_nat_eq)
  qed
  then have lt: "length ?t < n" using assms(3) by simp
  then have out': "out' = (showing n out ?t)[length ?t := 0]"
    using assms(1) e by (simp only: vsnprintf_def Let_def prod.inject if_True)
  have bytes: "out' ! i = ?t ! i" if "i < length ?t" for i
    unfolding out' using that lt assms(2) by (simp del: render.simps add: nth_showing)
  have "cstr_at m a ?t"
  proof (rule cstr_at_bytes)
    show "\<forall>i < length ?t. m (a + of_nat i) = ?t ! i" using assms(5) bytes lt by (simp del: render.simps)
    show "m (a + of_nat (length ?t)) = 0" using assms(2,5) lt by (simp del: render.simps add: out')
    have "\<not> is_digit 0" by (simp add: is_digit_def)
    then show "0 \<notin> set ?t" unfolding t using ds(2) by (auto simp: list_all_iff)
  qed
  then have "cstr_at m a (replicate 0 32 @ (if sint x < 0 then [45] else []) @ ds)" unfolding t by simp
  from atol_decimal_text [OF this _ ds(2)] ds(3) have "atol m a = Some x" by (auto simp: abs_if split: if_splits)
  then show ?thesis using r len by (simp del: render.simps)
qed

lemma print_decimal_roundtrip_witness:
  "vsnprintf [7, 7, 7, 7, 7] 5 [37, 108, 100] [VInt (- 42)] = (3, [45, 52, 50, 0, 7])
    \<and> atol ((\<lambda>_. 0)(0 := 45, 1 := 52, 2 := 50, 4 := 7)) 0 = Some (- 42)"
proof -
  have v: "vsnprintf [7, 7, 7, 7, 7] 5 [37, 108, 100] [VInt (- 42)] = (3, [45, 52, 50, 0, 7])"
    by code_simp
  have "\<forall>i < 5. ((\<lambda>_. 0)(0 := 45, 1 := 52, 2 := 50, 4 := 7)) (0 + of_nat i :: u64) = ([45, 52, 50, 0, 7] :: u8 list) ! i"
  proof (intro allI impI)
    fix i :: nat assume "i < 5"
    then have "i = 0 \<or> i = 1 \<or> i = 2 \<or> i = 3 \<or> i = 4" by auto
    then show "((\<lambda>_. 0)(0 := 45, 1 := 52, 2 := 50, 4 := 7)) (0 + of_nat i :: u64) = ([45, 52, 50, 0, 7] :: u8 list) ! i"
      by auto
  qed
  then have "atol ((\<lambda>_. 0)(0 := 45, 1 := 52, 2 := 50, 4 := 7)) 0 = Some (- 42) \<and> (3 :: int) \<le> 20"
    by (rule print_decimal_roundtrip [OF v, rotated 3]) simp_all
  with v show ?thesis by blast
qed

end
