(* ===== verification/PK_User.thy ===== *)
theory PK_User
  imports PK_Vm Util_Snprintf
begin

text \<open>
  How the kernel touches user memory (\<^verbatim>\<open>pk/usermem.c\<close>), prints (\<^verbatim>\<open>pk/console.c\<close>) and reacts
  to traps (\<^verbatim>\<open>pk/handlers.c\<close>).  A load or store to a user address goes through the page table;
  when the hardware refuses it, the page-fault handler runs and the access is tried again.
\<close>

section \<open>State\<close>

text \<open>The control and status registers the kernel reads: \<^verbatim>\<open>sstatus.SUM\<close>, \<^verbatim>\<open>sip.SSIP\<close>, \<^verbatim>\<open>stval\<close>,
  and the counters, which are read from an arbitrary sequence of values; \<^verbatim>\<open>misa_image\<close> is a
  global of the machine-mode part.\<close>

record 'h pk_st = "'h vm_st" +
  sum_bit :: bool
  sip_ssip :: bool
  stval :: u64
  readings :: "nat \<Rightarrow> u64"
  reads :: nat
  misa_image :: u64

definition rdcycle64 :: "('h, 'z) pk_st_scheme \<Rightarrow> u64 \<times> ('h, 'z) pk_st_scheme" where
  "rdcycle64 s = (readings s (reads s), s\<lparr>reads := reads s + 1\<rparr>)"

section \<open>Printing\<close>

text \<open>Storing a list of bytes at a kernel address.\<close>

definition write_bytes :: "u64 \<Rightarrow> u8 list \<Rightarrow> memory \<Rightarrow> memory" where
  "write_bytes a bs m = (\<lambda>x. let i = unat (x - a) in if i < length bs then bs ! i else m x)"

definition read_bytes :: "memory \<Rightarrow> u64 \<Rightarrow> nat \<Rightarrow> u8 list" where
  "read_bytes m a n = map (\<lambda>i. m (a + of_nat i)) [0..<n]"

text \<open>\<^verbatim>\<open>vprintk\<close>: \<open>out\<close> is the address of its 256-byte buffer on the kernel stack.  \<^verbatim>\<open>MIN\<close>
  compares the \<^verbatim>\<open>int\<close> result with a \<^verbatim>\<open>size_t\<close>, that is as unsigned 64-bit values.\<close>

definition vprintk ::
    "'h htif \<Rightarrow> u64 \<Rightarrow> string \<Rightarrow> vararg list \<Rightarrow> ('h, 'z) pk_st_scheme \<Rightarrow> ('h, 'z) pk_st_scheme" where
  "vprintk H out fmt vl s =
     (let pa = kva2pa s out;
          (res, buf) = vsnprintf (read_bytes (pmem s) pa 256) 256 (bytes_of fmt) vl;
          s = s\<lparr>pmem := write_bytes pa buf (pmem s)\<rparr>;
          len = scast (ucast (C_MIN (word_of_int res) 256) :: u32)
      in snd (frontend_syscall H SYS_write [2, pa, len, 0, 0, 0, 0] s))"

definition printk ::
    "'h htif \<Rightarrow> u64 \<Rightarrow> string \<Rightarrow> vararg list \<Rightarrow> ('h, 'z) pk_st_scheme \<Rightarrow> ('h, 'z) pk_st_scheme" where
  "printk H out fmt vl s = vprintk H out fmt vl s"

definition do_panic ::
    "'h htif \<Rightarrow> u64 \<Rightarrow> string \<Rightarrow> vararg list \<Rightarrow> ('h, 'z) pk_st_scheme \<Rightarrow> 'a res" where
  "do_panic H out fmt vl s = shutdown H (- 1) (vprintk H out fmt vl s)"

definition regnames :: string where
  "regnames = ''z '' @ [CHR 0x00] @ ''ra'' @ [CHR 0x00] @ ''sp'' @ [CHR 0x00] @ ''gp'' @ [CHR 0x00]
     @ ''tp'' @ [CHR 0x00] @ ''t0'' @ [CHR 0x00] @ ''t1'' @ [CHR 0x00] @ ''t2'' @ [CHR 0x00]
     @ ''s0'' @ [CHR 0x00] @ ''s1'' @ [CHR 0x00] @ ''a0'' @ [CHR 0x00] @ ''a1'' @ [CHR 0x00]
     @ ''a2'' @ [CHR 0x00] @ ''a3'' @ [CHR 0x00] @ ''a4'' @ [CHR 0x00] @ ''a5'' @ [CHR 0x00]
     @ ''a6'' @ [CHR 0x00] @ ''a7'' @ [CHR 0x00] @ ''s2'' @ [CHR 0x00] @ ''s3'' @ [CHR 0x00]
     @ ''s4'' @ [CHR 0x00] @ ''s5'' @ [CHR 0x00] @ ''s6'' @ [CHR 0x00] @ ''s7'' @ [CHR 0x00]
     @ ''s8'' @ [CHR 0x00] @ ''s9'' @ [CHR 0x00] @ ''sA'' @ [CHR 0x00] @ ''sB'' @ [CHR 0x00]
     @ ''t3'' @ [CHR 0x00] @ ''t4'' @ [CHR 0x00] @ ''t5'' @ [CHR 0x00] @ ''t6'' @ [CHR 0x00]"

text \<open>The string that starts at \<^verbatim>\<open>&regnames[r * 3]\<close>, up to its zero.\<close>

definition get_regname :: "nat \<Rightarrow> string" where
  "get_regname r = takeWhile (\<lambda>c. c \<noteq> CHR 0x00) (drop (r * 3) regnames)"

section \<open>Trap frames\<close>

record trapframe_t =
  gpr :: "u64 list"
  tf_status :: u64
  tf_epc :: u64
  tf_badvaddr :: u64
  tf_cause :: u64

definition dump_tf ::
    "'h htif \<Rightarrow> u64 \<Rightarrow> trapframe_t \<Rightarrow> ('h, 'z) pk_st_scheme \<Rightarrow> trapframe_t \<times> ('h, 'z) pk_st_scheme" where
  "dump_tf H out tf s =
     (let tf = tf\<lparr>gpr := (gpr tf)[0 := 0]\<rparr>;
          s = fold (\<lambda>i. fold (\<lambda>j. printk H out ''%s %lx%c''
                     [VStr (bytes_of (get_regname (i + j))), VInt (gpr tf ! (i + j)),
                      VInt (if j < 3 then 32 else 10)]) [0, 1, 2, 3])
                [0, 4, 8, 12, 16, 20, 24, 28] s
      in (tf, printk H out (''pc %lx va/inst %lx sr %lx'' @ [CHR 0x0A])
                [VInt (tf_epc tf), VInt (tf_badvaddr tf), VInt (tf_status tf)] s))"

definition SSTATUS_SPP :: u64 where "SSTATUS_SPP = 0x100"
definition SSTATUS_SIE :: u64 where "SSTATUS_SIE = 0x2"
definition SSTATUS_SPIE :: u64 where "SSTATUS_SPIE = 0x20"

text \<open>\<^verbatim>\<open>panic(s, ...)\<close> prints the message and stops the machine; the message is kept as the value
  \<^const>\<open>Panic\<close>, since nothing can be observed after it.\<close>

definition segfault ::
    "'h htif \<Rightarrow> u64 \<Rightarrow> trapframe_t \<Rightarrow> u64 \<Rightarrow> string \<Rightarrow> ('h, 'z) pk_st_scheme \<Rightarrow> 'a res" where
  "segfault H out tf addr type s =
     (let (tf, s) = dump_tf H out tf s;
          who = (if tf_status tf AND SSTATUS_SPP \<noteq> 0 then ''Kernel'' else ''User'')
      in case do_panic H out (''%s %s segfault @ %p'' @ [CHR 0x0A])
                [VStr (bytes_of who), VStr (bytes_of type), VInt addr] s of
           Inl _ \<Rightarrow> Inl (Panic (who @ '' '' @ type @ '' segfault''))
         | Inr x \<Rightarrow> Inr x)"

definition handle_fault_fetch ::
    "'h htif \<Rightarrow> u64 \<Rightarrow> trapframe_t \<Rightarrow> ('h, 'z) pk_st_scheme \<Rightarrow> ('h, 'z) pk_st_scheme res" where
  "handle_fault_fetch H out tf s =
     bindE (handle_page_fault H (tf_badvaddr tf) PROT_EXEC s) (\<lambda>(r, s).
       if r \<noteq> 0 then segfault H out tf (tf_badvaddr tf) ''fetch'' s else Inr s)"

definition handle_fault_load ::
    "'h htif \<Rightarrow> u64 \<Rightarrow> trapframe_t \<Rightarrow> ('h, 'z) pk_st_scheme \<Rightarrow> ('h, 'z) pk_st_scheme res" where
  "handle_fault_load H out tf s =
     bindE (handle_page_fault H (tf_badvaddr tf) PROT_READ s) (\<lambda>(r, s).
       if r \<noteq> 0 then segfault H out tf (tf_badvaddr tf) ''load'' s else Inr s)"

definition handle_fault_store ::
    "'h htif \<Rightarrow> u64 \<Rightarrow> trapframe_t \<Rightarrow> ('h, 'z) pk_st_scheme \<Rightarrow> ('h, 'z) pk_st_scheme res" where
  "handle_fault_store H out tf s =
     bindE (handle_page_fault H (tf_badvaddr tf) PROT_WRITE s) (\<lambda>(r, s).
       if r \<noteq> 0 then segfault H out tf (tf_badvaddr tf) ''store'' s else Inr s)"

section \<open>User memory\<close>

text \<open>
  What the translation hardware grants a kernel access (privileged architecture, Sv39): the entry
  must be valid, not of the reserved kind that is writable but not readable, carry the accessed
  bit (and for stores the dirty bit) and the permission; a user page needs \<^verbatim>\<open>sstatus.SUM\<close>.
\<close>

definition hw_grants :: "bool \<Rightarrow> u64 \<Rightarrow> u32 \<Rightarrow> bool" where
  "hw_grants sm pte acc \<longleftrightarrow>
     pte AND PTE_V \<noteq> 0 \<and> \<not> (pte AND PTE_W \<noteq> 0 \<and> pte AND PTE_R = 0)
     \<and> pte AND PTE_A \<noteq> 0 \<and> (pte AND PTE_U \<noteq> 0 \<longrightarrow> sm)
     \<and> (acc = PROT_READ \<longrightarrow> pte AND PTE_R \<noteq> 0)
     \<and> (acc = PROT_WRITE \<longrightarrow> pte AND PTE_W \<noteq> 0 \<and> pte AND PTE_D \<noteq> 0)"

definition hw_user ::
    "('h, 'z) pk_st_scheme \<Rightarrow> u64 \<Rightarrow> u32 \<Rightarrow> u64 option" where
  "hw_user s va acc =
     (let pte = walk va s
      in if va < push_bit (VA_BITS - 1) 1 \<and> pte \<noteq> 0 \<and> hw_grants (sum_bit s) (rd_pte s pte) acc
         then Some (push_bit 12 (pte_ppn (rd_pte s pte)) + (va AND (PGSIZE - 1))) else None)"

text \<open>The kernel half maps physical memory at a fixed offset with megapages.\<close>

definition hw_kernel :: "('h, 'z) pk_st_scheme \<Rightarrow> u64 \<Rightarrow> u64 option" where
  "hw_kernel s va = (if va \<ge> KVA_START \<and> va - KVA_START < mem_size s then Some (kva2pa s va) else None)"

definition hw_translate :: "('h, 'z) pk_st_scheme \<Rightarrow> u64 \<Rightarrow> u32 \<Rightarrow> u64 option" where
  "hw_translate s va acc = (if va \<ge> KVA_START then hw_kernel s va else hw_user s va acc)"

text \<open>
  One access by kernel code at \<open>va\<close>: if the hardware refuses, the trap handler runs; when it
  reports success but the hardware still refuses, the access traps for ever.
\<close>

definition kernel_access ::
    "'h htif \<Rightarrow> u64 \<Rightarrow> u32 \<Rightarrow> u64 \<Rightarrow> ('h, 'z) pk_st_scheme \<Rightarrow> (u64 \<times> ('h, 'z) pk_st_scheme) res" where
  "kernel_access H out acc va s =
     (case hw_translate s va acc of
        Some pa \<Rightarrow> Inr (pa, s)
      | None \<Rightarrow>
          let tf = \<lparr>gpr = replicate 32 0, tf_status = SSTATUS_SPP, tf_epc = 0, tf_badvaddr = va,
                    tf_cause = (if acc = PROT_WRITE then 15 else 13)\<rparr>
          in bindE (if acc = PROT_WRITE then handle_fault_store H out tf s else handle_fault_load H out tf s) (\<lambda>s.
               case hw_translate s va acc of Some pa \<Rightarrow> Inr (pa, s) | None \<Rightarrow> Inl Diverge))"

definition load_byte :: "'h htif \<Rightarrow> u64 \<Rightarrow> u64 \<Rightarrow> ('h, 'z) pk_st_scheme \<Rightarrow> (u8 \<times> ('h, 'z) pk_st_scheme) res" where
  "load_byte H out va s = bindE (kernel_access H out PROT_READ va s) (\<lambda>(pa, s). Inr (pmem s pa, s))"

definition store_byte ::
    "'h htif \<Rightarrow> u64 \<Rightarrow> u64 \<Rightarrow> u8 \<Rightarrow> ('h, 'z) pk_st_scheme \<Rightarrow> ('h, 'z) pk_st_scheme res" where
  "store_byte H out va b s =
     bindE (kernel_access H out PROT_WRITE va s) (\<lambda>(pa, s). Inr (s\<lparr>pmem := (pmem s)(pa := b)\<rparr>))"

text \<open>\<^verbatim>\<open>memcpy\<close> and \<^verbatim>\<open>memset\<close> as the accesses they make, in ascending order.  When they move
  words, each word lies within one page, so the same pages are touched in the same order.\<close>

definition copy_bytes ::
    "'h htif \<Rightarrow> u64 \<Rightarrow> u64 \<Rightarrow> u64 \<Rightarrow> nat \<Rightarrow> ('h, 'z) pk_st_scheme \<Rightarrow> ('h, 'z) pk_st_scheme res" where
  "copy_bytes H out dst src n =
     foldE (\<lambda>i s. bindE (load_byte H out (src + of_nat i) s) (\<lambda>(b, s). store_byte H out (dst + of_nat i) b s))
       [0..<n]"

definition fill_bytes ::
    "'h htif \<Rightarrow> u64 \<Rightarrow> u64 \<Rightarrow> u8 \<Rightarrow> nat \<Rightarrow> ('h, 'z) pk_st_scheme \<Rightarrow> ('h, 'z) pk_st_scheme res" where
  "fill_bytes H out dst b n = foldE (\<lambda>i. store_byte H out (dst + of_nat i) b) [0..<n]"

text \<open>The test the user-memory routines start with; the result of the fault handler is dropped.\<close>

definition check_user ::
    "'h htif \<Rightarrow> u64 \<Rightarrow> u64 \<Rightarrow> u32 \<Rightarrow> ('h, 'z) pk_st_scheme \<Rightarrow> ('h, 'z) pk_st_scheme res" where
  "check_user H p n prot s =
     (if p + n < p \<or> \<not> is_uva (p + n - 1)
      then bindE (handle_page_fault H p prot s) (\<lambda>(_, s). Inr s)
      else Inr s)"

definition with_sum ::
    "(('h, 'z) pk_st_scheme \<Rightarrow> ('h, 'z) pk_st_scheme res) \<Rightarrow> ('h, 'z) pk_st_scheme \<Rightarrow> ('h, 'z) pk_st_scheme res" where
  "with_sum body s =
     (let sstatus = sum_bit s
      in bindE (body (s\<lparr>sum_bit := True\<rparr>)) (\<lambda>s. Inr (s\<lparr>sum_bit := sstatus\<rparr>)))"

definition memset_user ::
    "'h htif \<Rightarrow> u64 \<Rightarrow> u64 \<Rightarrow> u8 \<Rightarrow> u64 \<Rightarrow> ('h, 'z) pk_st_scheme \<Rightarrow> ('h, 'z) pk_st_scheme res" where
  "memset_user H out dst ch n s =
     bindE (check_user H dst n PROT_WRITE s) (with_sum (fill_bytes H out dst ch (unat n)))"

definition memcpy_to_user ::
    "'h htif \<Rightarrow> u64 \<Rightarrow> u64 \<Rightarrow> u64 \<Rightarrow> u64 \<Rightarrow> ('h, 'z) pk_st_scheme \<Rightarrow> ('h, 'z) pk_st_scheme res" where
  "memcpy_to_user H out dst src n s =
     bindE (check_user H dst n PROT_WRITE s) (with_sum (copy_bytes H out dst src (unat n)))"

definition memcpy_from_user ::
    "'h htif \<Rightarrow> u64 \<Rightarrow> u64 \<Rightarrow> u64 \<Rightarrow> u64 \<Rightarrow> ('h, 'z) pk_st_scheme \<Rightarrow> ('h, 'z) pk_st_scheme res" where
  "memcpy_from_user H out dst src n s =
     bindE (check_user H src n PROT_READ s) (with_sum (copy_bytes H out dst src (unat n)))"

primrec strcpy_user_loop ::
    "'h htif \<Rightarrow> u64 \<Rightarrow> nat \<Rightarrow> u64 \<Rightarrow> u64 \<Rightarrow> ('h, 'z) pk_st_scheme \<Rightarrow> (bool \<times> ('h, 'z) pk_st_scheme) res" where
  "strcpy_user_loop H out 0 dst src s = Inr (False, s)"
| "strcpy_user_loop H out (Suc n) dst src s =
     bindE (if \<not> is_uva src then bindE (handle_page_fault H src PROT_READ s) (\<lambda>(_, s). Inr s) else Inr s) (\<lambda>s.
     bindE (load_byte H out src s) (\<lambda>(ch, s).
     bindE (store_byte H out dst ch s) (\<lambda>s.
       if ch = 0 then Inr (True, s) else strcpy_user_loop H out n (dst + 1) (src + 1) s)))"

definition strcpy_from_user ::
    "'h htif \<Rightarrow> u64 \<Rightarrow> u64 \<Rightarrow> u64 \<Rightarrow> u64 \<Rightarrow> ('h, 'z) pk_st_scheme \<Rightarrow> (bool \<times> ('h, 'z) pk_st_scheme) res" where
  "strcpy_from_user H out dst src n s =
     (let sstatus = sum_bit s
      in bindE (strcpy_user_loop H out (unat n) dst src (s\<lparr>sum_bit := True\<rparr>)) (\<lambda>(r, s).
           Inr (r, s\<lparr>sum_bit := sstatus\<rparr>)))"

end
