(* ===== verification/PK_Syscall.thy ===== *)
theory PK_Syscall
  imports PK_User
begin

text \<open>
  The system calls of the proxy kernel (\<^verbatim>\<open>pk/syscall.c\<close>) and its trap dispatch
  (\<^verbatim>\<open>pk/handlers.c\<close>).  The local buffers of a C function live on the kernel stack: the record
  \<open>frame\<close> gives their addresses.  Results are the 64-bit values user code finds in \<^verbatim>\<open>a0\<close>.
\<close>

section \<open>Constants\<close>

definition CLOCK_FREQ :: u64 where "CLOCK_FREQ = 1000000000"
definition MAX_BUF :: u64 where "MAX_BUF = 512"

definition E_BADF :: u64 where "E_BADF = - 9"
definition E_NOMEM :: u64 where "E_NOMEM = - 12"
definition E_FAULT :: u64 where "E_FAULT = - 14"
definition E_INVAL :: u64 where "E_INVAL = - 22"
definition E_NOSYS :: u64 where "E_NOSYS = - 88"
definition E_NAMETOOLONG :: u64 where "E_NAMETOOLONG = - 91"

text \<open>The numbers of the host calls made here, from \<^verbatim>\<open>pk/syscall.h\<close>.\<close>

definition SYS_renameat :: u64 where "SYS_renameat = 38"
definition SYS_fstat :: u64 where "SYS_fstat = 80"
definition SYS_fcntl :: u64 where "SYS_fcntl = 25"
definition SYS_lstat :: u64 where "SYS_lstat = 1039"
definition SYS_fstatat :: u64 where "SYS_fstatat = 79"
definition SYS_statx :: u64 where "SYS_statx = 291"
definition SYS_faccessat :: u64 where "SYS_faccessat = 48"
definition SYS_linkat :: u64 where "SYS_linkat = 37"
definition SYS_unlinkat :: u64 where "SYS_unlinkat = 35"
definition SYS_mkdirat :: u64 where "SYS_mkdirat = 34"
definition SYS_getcwd :: u64 where "SYS_getcwd = 17"
definition SYS_chdir :: u64 where "SYS_chdir = 49"
definition SYS_readlinkat :: u64 where "SYS_readlinkat = 78"

text \<open>\<^verbatim>\<open>kbuf\<close>, \<^verbatim>\<open>kbuf2\<close>: the (one or two) name or data buffers of a call; \<^verbatim>\<open>sbuf\<close>: its result
  structure; \<^verbatim>\<open>pbuf\<close>: the buffer of \<^verbatim>\<open>vprintk\<close> further down the stack.\<close>

record frame =
  kbuf :: u64
  kbuf2 :: u64
  sbuf :: u64
  pbuf :: u64

type_synonym ('h, 'z) call = "('h, 'z) pk_st_scheme \<Rightarrow> (u64 \<times> ('h, 'z) pk_st_scheme) res"

definition ret :: "u64 \<Rightarrow> ('h, 'z) call" where
  "ret r s = Inr (r, s)"

section \<open>Leaving\<close>

definition sys_exit :: "'h htif \<Rightarrow> frame \<Rightarrow> u64 \<Rightarrow> ('h, 'z) call" where
  "sys_exit H fr code s =
     (let s = (if cycle0 (current s) \<noteq> 0 then
         let (t1, s) = rdcycle64 s; (t2, s) = rdcycle64 s; (t3, s) = rdcycle64 s;
             dt = t1 - time0 (current s); dc = t2 - cycle0 (current s); di = t3 - instret0 (current s);
             nl = [CHR 0x0A];
             s = printk H (pbuf fr) (''%lld ticks'' @ nl) [VInt dt] s;
             s = printk H (pbuf fr) (''%lld cycles'' @ nl) [VInt dc] s;
             s = printk H (pbuf fr) (''%lld instructions'' @ nl) [VInt di] s
         in printk H (pbuf fr) (''%d.%d%d CPI'' @ nl)
              [VInt (dc div di), VInt (10 * dc div di mod 10), VInt (100 * dc div di mod 10)] s
       else s)
      in shutdown H (int_ret code) s)"

section \<open>Reading and writing\<close>

text \<open>
  The transfer loop shared by the calls: at most 512 bytes per round through the kernel buffer;
  the host's answer decides whether to go on.  \<^verbatim>\<open>r < cur\<close> and \<^verbatim>\<open>total == n\<close> compare as unsigned
  words.  A host that keeps answering short of nothing could keep the loop running, so it is
  partial.
\<close>

partial_function (option) read_loop ::
    "(u64 \<Rightarrow> u64 \<Rightarrow> ('h, 'z) call) \<Rightarrow> (u64 \<Rightarrow> u64 \<Rightarrow> ('h, 'z) pk_st_scheme \<Rightarrow> ('h, 'z) pk_st_scheme res)
     \<Rightarrow> u64 \<Rightarrow> u64 \<Rightarrow> u64 \<Rightarrow> ('h, 'z) pk_st_scheme \<Rightarrow> (u64 \<times> ('h, 'z) pk_st_scheme) res option" where
  "read_loop rd out n buf tot s =
     (let cur = C_MIN (n - tot) MAX_BUF
      in case rd cur tot s of
           Inl e \<Rightarrow> Some (Inl e)
         | Inr (r, s) \<Rightarrow>
             if sint r < 0 then Some (Inr (r, s))
             else case out buf r s of
                    Inl e \<Rightarrow> Some (Inl e)
                  | Inr s \<Rightarrow>
                      if r < cur \<or> tot + r = n then Some (Inr (tot + r, s))
                      else read_loop rd out n (buf + r) (tot + r) s)"

definition sys_read :: "'h htif \<Rightarrow> frame \<Rightarrow> u64 \<Rightarrow> u64 \<Rightarrow> u64 \<Rightarrow> ('h, 'z) call" where
  "sys_read H fr fd buf n s =
     (case file_get (sint (ucast fd :: u32)) s of
        (None, s) \<Rightarrow> ret E_BADF s
      | (Some f, s) \<Rightarrow>
          bindE (finish (read_loop (\<lambda>cur tot s. Inr (file_read H f (kva2pa s (kbuf fr)) cur s))
                           (\<lambda>buf r. memcpy_to_user H (pbuf fr) buf (kbuf fr) r) n buf 0 s)) (\<lambda>(r, s).
            Inr (r, file_decref H f s)))"

definition sys_pread :: "'h htif \<Rightarrow> frame \<Rightarrow> u64 \<Rightarrow> u64 \<Rightarrow> u64 \<Rightarrow> u64 \<Rightarrow> ('h, 'z) call" where
  "sys_pread H fr fd buf n offset s =
     (case file_get (sint (ucast fd :: u32)) s of
        (None, s) \<Rightarrow> ret E_BADF s
      | (Some f, s) \<Rightarrow>
          bindE (finish (read_loop (\<lambda>cur tot s. Inr (file_pread H f (kva2pa s (kbuf fr)) cur (offset + tot) s))
                           (\<lambda>buf r. memcpy_to_user H (pbuf fr) buf (kbuf fr) r) n buf 0 s)) (\<lambda>(r, s).
            Inr (r, file_decref H f s)))"

text \<open>\<^verbatim>\<open>sys_write\<close> copies in before it calls the host, so the copy is part of the round's request.\<close>

partial_function (option) write_loop ::
    "'h htif \<Rightarrow> frame \<Rightarrow> nat \<Rightarrow> u64 \<Rightarrow> u64 \<Rightarrow> u64 \<Rightarrow> ('h, 'z) pk_st_scheme
     \<Rightarrow> (u64 \<times> ('h, 'z) pk_st_scheme) res option" where
  "write_loop H fr f n buf tot s =
     (let cur = C_MIN (n - tot) MAX_BUF
      in case memcpy_from_user H (pbuf fr) (kbuf fr) buf cur s of
           Inl e \<Rightarrow> Some (Inl e)
         | Inr s \<Rightarrow>
             let (r, s) = file_write H f (kva2pa s (kbuf fr)) cur s
             in if sint r < 0 then Some (Inr (r, s))
                else if r < cur \<or> tot + r = n then Some (Inr (tot + r, s))
                else write_loop H fr f n (buf + r) (tot + r) s)"

definition sys_write :: "'h htif \<Rightarrow> frame \<Rightarrow> u64 \<Rightarrow> u64 \<Rightarrow> u64 \<Rightarrow> ('h, 'z) call" where
  "sys_write H fr fd buf n s =
     (case file_get (sint (ucast fd :: u32)) s of
        (None, s) \<Rightarrow> ret E_BADF s
      | (Some f, s) \<Rightarrow>
          bindE (finish (write_loop H fr f n buf 0 s)) (\<lambda>(r, s). Inr (r, file_decref H f s)))"

section \<open>Names\<close>

definition at_kfd :: "'h htif \<Rightarrow> u64 \<Rightarrow> ('h, 'z) pk_st_scheme \<Rightarrow> u32 \<times> ('h, 'z) pk_st_scheme" where
  "at_kfd H dirfd s =
     (let d = sint (ucast dirfd :: u32)
      in if d = AT_FDCWD then (word_of_int AT_FDCWD, s)
         else case file_get d s of
                (None, s) \<Rightarrow> (- 1, s)
              | (Some f, s) \<Rightarrow> (kfd (files s f), file_decref H f s))"

text \<open>Reading a path name into a kernel buffer and measuring it; the continuation gets the
  buffer's physical address and the length with the terminating zero.\<close>

definition with_name ::
    "'h htif \<Rightarrow> frame \<Rightarrow> u64 \<Rightarrow> u64 \<Rightarrow> (u64 \<Rightarrow> u64 \<Rightarrow> ('h, 'z) call) \<Rightarrow> ('h, 'z) call" where
  "with_name H fr buf name k s =
     bindE (strcpy_from_user H (pbuf fr) buf name MAX_BUF s) (\<lambda>(ok, s).
       if \<not> ok then ret E_NAMETOOLONG s
       else case strlen (pmem s) (kva2pa s buf) of
              None \<Rightarrow> Inl Diverge
            | Some l \<Rightarrow> k (kva2pa s buf) (l + 1) s)"

text \<open>The directory-relative calls: translate the descriptor, read the name, ask the host.\<close>

definition at_call ::
    "'h htif \<Rightarrow> frame \<Rightarrow> u64 \<Rightarrow> u64 \<Rightarrow> (u64 \<Rightarrow> u64 \<Rightarrow> u64 \<Rightarrow> ('h, 'z) call) \<Rightarrow> ('h, 'z) call" where
  "at_call H fr dirfd name k s =
     (let (kfd, s) = at_kfd H dirfd s
      in if kfd = - 1 then ret E_BADF s
         else with_name H fr (kbuf fr) name (k (scast kfd)) s)"

definition host_call :: "'h htif \<Rightarrow> u64 \<Rightarrow> u64 list \<Rightarrow> ('h, 'z) call" where
  "host_call H n args s = Inr (frontend_syscall H n args s)"

definition sys_openat :: "'h htif \<Rightarrow> frame \<Rightarrow> u64 \<Rightarrow> u64 \<Rightarrow> u64 \<Rightarrow> u64 \<Rightarrow> ('h, 'z) call" where
  "sys_openat H fr dirfd name flags mode =
     at_call H fr dirfd name (\<lambda>kfd pa len s.
       case file_openat H (sint kfd) pa len (int_ret flags) (int_ret mode) s of
         (Inl err, s) \<Rightarrow> ret (int_ret (word_of_int err)) s
       | (Inr f, s) \<Rightarrow>
           bindE (file_dup f s) (\<lambda>(fd, s).
             let s = file_decref H f s
             in if fd < 0 then ret E_NOMEM s else ret (word_of_int fd) s))"

definition sys_open :: "'h htif \<Rightarrow> frame \<Rightarrow> u64 \<Rightarrow> u64 \<Rightarrow> u64 \<Rightarrow> ('h, 'z) call" where
  "sys_open H fr name flags mode = sys_openat H fr (word_of_int AT_FDCWD) name flags mode"

definition sys_close :: "'h htif \<Rightarrow> u64 \<Rightarrow> ('h, 'z) call" where
  "sys_close H fd s =
     (let (r, s) = fd_close H (sint (ucast fd :: u32)) s
      in if r < 0 then ret E_BADF s else ret (word_of_int r) s)"

text \<open>Two directories and two names; both descriptors are translated before either is tested.\<close>

definition at_call2 ::
    "'h htif \<Rightarrow> frame \<Rightarrow> u64 \<Rightarrow> u64 \<Rightarrow> u64 \<Rightarrow> u64
     \<Rightarrow> (u64 \<Rightarrow> u64 \<Rightarrow> u64 \<Rightarrow> u64 \<Rightarrow> u64 \<Rightarrow> u64 \<Rightarrow> ('h, 'z) call) \<Rightarrow> ('h, 'z) call" where
  "at_call2 H fr old_fd old_path new_fd new_path k s =
     (let (old_kfd, s) = at_kfd H old_fd s; (new_kfd, s) = at_kfd H new_fd s
      in if old_kfd \<noteq> - 1 \<and> new_kfd \<noteq> - 1
         then bindE (strcpy_from_user H (pbuf fr) (kbuf fr) old_path MAX_BUF s) (\<lambda>(ok, s).
           if \<not> ok then ret E_NAMETOOLONG s
           else bindE (strcpy_from_user H (pbuf fr) (kbuf2 fr) new_path MAX_BUF s) (\<lambda>(ok, s).
             if \<not> ok then ret E_NAMETOOLONG s
             else case (strlen (pmem s) (kva2pa s (kbuf fr)), strlen (pmem s) (kva2pa s (kbuf2 fr))) of
                 (Some l1, Some l2) \<Rightarrow> k (scast old_kfd) (kva2pa s (kbuf fr)) (l1 + 1)
                                         (scast new_kfd) (kva2pa s (kbuf2 fr)) (l2 + 1) s
               | _ \<Rightarrow> Inl Diverge))
         else ret E_BADF s)"

definition sys_renameat :: "'h htif \<Rightarrow> frame \<Rightarrow> u64 \<Rightarrow> u64 \<Rightarrow> u64 \<Rightarrow> u64 \<Rightarrow> ('h, 'z) call" where
  "sys_renameat H fr old_fd old_path new_fd new_path s =
     bindE (at_call2 H fr old_fd old_path new_fd new_path
       (\<lambda>okfd opa osz nkfd npa nsz. host_call H SYS_renameat [okfd, opa, osz, nkfd, npa, nsz, 0]) s)
       (\<lambda>(r, s). ret (int_ret r) s)"

definition sys_linkat :: "'h htif \<Rightarrow> frame \<Rightarrow> u64 \<Rightarrow> u64 \<Rightarrow> u64 \<Rightarrow> u64 \<Rightarrow> u64 \<Rightarrow> ('h, 'z) call" where
  "sys_linkat H fr old_fd old_path new_fd new_path flags =
     at_call2 H fr old_fd old_path new_fd new_path
       (\<lambda>okfd opa osz nkfd npa nsz. host_call H SYS_linkat [okfd, opa, osz, nkfd, npa, nsz, int_ret flags])"

definition sys_link :: "'h htif \<Rightarrow> frame \<Rightarrow> u64 \<Rightarrow> u64 \<Rightarrow> ('h, 'z) call" where
  "sys_link H fr old_name new_name =
     sys_linkat H fr (word_of_int AT_FDCWD) old_name (word_of_int AT_FDCWD) new_name 0"

definition sys_faccessat :: "'h htif \<Rightarrow> frame \<Rightarrow> u64 \<Rightarrow> u64 \<Rightarrow> u64 \<Rightarrow> ('h, 'z) call" where
  "sys_faccessat H fr dirfd name mode =
     at_call H fr dirfd name (\<lambda>kfd pa len. host_call H SYS_faccessat [kfd, pa, len, int_ret mode, 0, 0, 0])"

definition sys_access :: "'h htif \<Rightarrow> frame \<Rightarrow> u64 \<Rightarrow> u64 \<Rightarrow> ('h, 'z) call" where
  "sys_access H fr name mode = sys_faccessat H fr (word_of_int AT_FDCWD) name mode"

definition sys_unlinkat :: "'h htif \<Rightarrow> frame \<Rightarrow> u64 \<Rightarrow> u64 \<Rightarrow> u64 \<Rightarrow> ('h, 'z) call" where
  "sys_unlinkat H fr dirfd name flags =
     at_call H fr dirfd name (\<lambda>kfd pa len. host_call H SYS_unlinkat [kfd, pa, len, int_ret flags, 0, 0, 0])"

definition sys_unlink :: "'h htif \<Rightarrow> frame \<Rightarrow> u64 \<Rightarrow> ('h, 'z) call" where
  "sys_unlink H fr name = sys_unlinkat H fr (word_of_int AT_FDCWD) name 0"

definition sys_mkdirat :: "'h htif \<Rightarrow> frame \<Rightarrow> u64 \<Rightarrow> u64 \<Rightarrow> u64 \<Rightarrow> ('h, 'z) call" where
  "sys_mkdirat H fr dirfd name mode =
     at_call H fr dirfd name (\<lambda>kfd pa len. host_call H SYS_mkdirat [kfd, pa, len, int_ret mode, 0, 0, 0])"

definition sys_mkdir :: "'h htif \<Rightarrow> frame \<Rightarrow> u64 \<Rightarrow> u64 \<Rightarrow> ('h, 'z) call" where
  "sys_mkdir H fr name mode = sys_mkdirat H fr (word_of_int AT_FDCWD) name mode"

section \<open>Status of files\<close>

definition SIZEOF_STAT :: u64 where "SIZEOF_STAT = 128"
definition FRONTEND_STATX_SIZE :: u64 where "FRONTEND_STATX_SIZE = 256"

text \<open>The bracket of the calls on one descriptor: take the file, work, drop it.\<close>

definition with_file ::
    "'h htif \<Rightarrow> u64 \<Rightarrow> (nat \<Rightarrow> ('h, 'z) call) \<Rightarrow> ('h, 'z) call" where
  "with_file H fd body s =
     (case file_get (sint (ucast fd :: u32)) s of
        (None, s) \<Rightarrow> ret E_BADF s
      | (Some f, s) \<Rightarrow> bindE (body f s) (\<lambda>(r, s). Inr (r, file_decref H f s)))"

definition sys_fstat :: "'h htif \<Rightarrow> frame \<Rightarrow> u64 \<Rightarrow> u64 \<Rightarrow> ('h, 'z) call" where
  "sys_fstat H fr fd st =
     with_file H fd (\<lambda>f s.
       let (r, s) = frontend_syscall H SYS_fstat [scast (kfd (files s f)), kva2pa s (sbuf fr), 0, 0, 0, 0, 0] s
       in bindE (memcpy_to_user H (pbuf fr) st (sbuf fr) SIZEOF_STAT s) (ret (int_ret r)))"

definition sys_fcntl :: "'h htif \<Rightarrow> u64 \<Rightarrow> u64 \<Rightarrow> u64 \<Rightarrow> ('h, 'z) call" where
  "sys_fcntl H fd cmd arg =
     with_file H fd (\<lambda>f s.
       let (r, s) = frontend_syscall H SYS_fcntl [scast (kfd (files s f)), int_ret cmd, int_ret arg, 0, 0, 0, 0] s
       in ret (int_ret r) s)"

definition sys_ftruncate :: "'h htif \<Rightarrow> u64 \<Rightarrow> u64 \<Rightarrow> ('h, 'z) call" where
  "sys_ftruncate H fd len = with_file H fd (\<lambda>f s. Inr (file_truncate H f len s))"

definition sys_dup :: "'h htif \<Rightarrow> u64 \<Rightarrow> ('h, 'z) call" where
  "sys_dup H fd =
     with_file H fd (\<lambda>f s. bindE (file_dup f s) (\<lambda>(r, s). ret (word_of_int r) s))"

definition sys_dup3 :: "'h htif \<Rightarrow> u64 \<Rightarrow> u64 \<Rightarrow> u64 \<Rightarrow> ('h, 'z) call" where
  "sys_dup3 H fd newfd flags s =
     bindE (kassert ((ucast flags :: u32) = 0) ''flags == 0'') (\<lambda>_.
       with_file H fd (\<lambda>f s.
         bindE (file_dup3 f (sint (ucast newfd :: u32)) s) (\<lambda>(r, s). ret (word_of_int r) s)) s)"

definition sys_lseek :: "'h htif \<Rightarrow> u64 \<Rightarrow> u64 \<Rightarrow> u64 \<Rightarrow> ('h, 'z) call" where
  "sys_lseek H fd ptr dir = with_file H fd (\<lambda>f s. Inr (file_lseek H f ptr (int_ret dir) s))"

text \<open>\<^verbatim>\<open>sys_lstat\<close> copies its result with plain \<^verbatim>\<open>memcpy\<close>, not \<^verbatim>\<open>memcpy_to_user\<close>.\<close>

definition sys_lstat :: "'h htif \<Rightarrow> frame \<Rightarrow> u64 \<Rightarrow> u64 \<Rightarrow> ('h, 'z) call" where
  "sys_lstat H fr name st =
     with_name H fr (kbuf fr) name (\<lambda>pa len s.
       let (r, s) = frontend_syscall H SYS_lstat [pa, len, kva2pa s (sbuf fr), 0, 0, 0, 0] s
       in bindE (copy_bytes H (pbuf fr) st (sbuf fr) (unat SIZEOF_STAT) s) (ret r))"

definition sys_fstatat :: "'h htif \<Rightarrow> frame \<Rightarrow> u64 \<Rightarrow> u64 \<Rightarrow> u64 \<Rightarrow> u64 \<Rightarrow> ('h, 'z) call" where
  "sys_fstatat H fr dirfd name st flags =
     at_call H fr dirfd name (\<lambda>kfd pa len s.
       let (r, s) = frontend_syscall H SYS_fstatat [kfd, pa, len, kva2pa s (sbuf fr), int_ret flags, 0, 0] s
       in bindE (memcpy_to_user H (pbuf fr) st (sbuf fr) SIZEOF_STAT s) (ret r))"

definition sys_stat :: "'h htif \<Rightarrow> frame \<Rightarrow> u64 \<Rightarrow> u64 \<Rightarrow> ('h, 'z) call" where
  "sys_stat H fr name st = sys_fstatat H fr (word_of_int AT_FDCWD) name st 0"

definition sys_statx :: "'h htif \<Rightarrow> frame \<Rightarrow> u64 \<Rightarrow> u64 \<Rightarrow> u64 \<Rightarrow> u64 \<Rightarrow> u64 \<Rightarrow> ('h, 'z) call" where
  "sys_statx H fr dirfd name flags msk st =
     at_call H fr dirfd name (\<lambda>kfd pa len s.
       let (r, s) = frontend_syscall H SYS_statx
                      [kfd, pa, len, int_ret flags, ucast (ucast msk :: u32), kva2pa s (sbuf fr), 0] s
       in bindE (memcpy_to_user H (pbuf fr) st (sbuf fr) FRONTEND_STATX_SIZE s) (ret r))"

definition sys_getcwd :: "'h htif \<Rightarrow> frame \<Rightarrow> u64 \<Rightarrow> u64 \<Rightarrow> ('h, 'z) call" where
  "sys_getcwd H fr buf sz s =
     (let (r, s) = frontend_syscall H SYS_getcwd [kva2pa s (kbuf fr), C_MIN sz MAX_BUF, 0, 0, 0, 0, 0] s
      in if 0 < sint r
         then case strlen (pmem s) (kva2pa s (kbuf fr)) of
                None \<Rightarrow> Inl Diverge
              | Some l \<Rightarrow> bindE (memcpy_to_user H (pbuf fr) buf (kbuf fr) (l + 1) s) (ret r)
         else ret r s)"

definition sys_chdir :: "'h htif \<Rightarrow> frame \<Rightarrow> u64 \<Rightarrow> ('h, 'z) call" where
  "sys_chdir H fr path s =
     bindE (strcpy_from_user H (pbuf fr) (kbuf fr) path MAX_BUF s) (\<lambda>(ok, s).
       if \<not> ok then ret E_NAMETOOLONG s
       else let (r, s) = frontend_syscall H SYS_chdir [kva2pa s (kbuf fr), 0, 0, 0, 0, 0, 0] s
            in ret (int_ret r) s)"

definition sys_readlinkat :: "'h htif \<Rightarrow> frame \<Rightarrow> u64 \<Rightarrow> u64 \<Rightarrow> u64 \<Rightarrow> u64 \<Rightarrow> ('h, 'z) call" where
  "sys_readlinkat H fr dirfd pathname buf bufsiz s =
     (if bufsiz > MAX_BUF then ret E_NOMEM s
      else at_call H fr dirfd pathname (\<lambda>kfd pa len s.
        let (r, s) = frontend_syscall H SYS_readlinkat [kfd, pa, len, kva2pa s (kbuf2 fr), bufsiz, 0, 0] s
        in if sint r < 0 then ret (int_ret r) s
           else bindE (if 0 < sint r then memcpy_to_user H (pbuf fr) buf (kbuf2 fr) r s else Inr s)
                  (ret (int_ret r))) s)"

section \<open>Identity, time and chance\<close>

text \<open>The fixed texts of \<^verbatim>\<open>sys_uname\<close>: six fields of 65 bytes.\<close>

definition uname_text :: "u8 list" where
  "uname_text = concat (map (\<lambda>t. take 65 (bytes_of t @ replicate 65 0))
     [''Proxy Kernel'', '''', ''4.15.0'', '''', '''', ''''])"

definition sys_uname :: "'h htif \<Rightarrow> frame \<Rightarrow> u64 \<Rightarrow> ('h, 'z) call" where
  "sys_uname H fr buf s =
     (let s = s\<lparr>pmem := write_bytes (kva2pa s (kbuf fr)) uname_text (pmem s)\<rparr>
      in bindE (memcpy_to_user H (pbuf fr) buf (kbuf fr) (65 * 6) s) (ret 0))"

definition sys_getpid :: "('h, 'z) call" where "sys_getpid = ret 0"
definition sys_getuid :: "('h, 'z) call" where "sys_getuid = ret 0"

text \<open>Storing 64-bit values little-endian into a kernel buffer and copying them out.\<close>

definition le_bytes :: "u64 \<Rightarrow> u8 list" where
  "le_bytes v = map (\<lambda>i. ucast (drop_bit (8 * i) v)) [0..<8]"

definition put_user :: "'h htif \<Rightarrow> frame \<Rightarrow> u64 \<Rightarrow> u8 list \<Rightarrow> ('h, 'z) pk_st_scheme \<Rightarrow> ('h, 'z) pk_st_scheme res" where
  "put_user H fr dst bs s =
     memcpy_to_user H (pbuf fr) dst (sbuf fr) (of_nat (length bs))
       (s\<lparr>pmem := write_bytes (kva2pa s (sbuf fr)) bs (pmem s)\<rparr>)"

definition sys_rt_sigaction :: "'h htif \<Rightarrow> frame \<Rightarrow> u64 \<Rightarrow> u64 \<Rightarrow> u64 \<Rightarrow> u64 \<Rightarrow> ('h, 'z) call" where
  "sys_rt_sigaction H fr sig act oact sssz s =
     bindE (if oact \<noteq> 0 then put_user H fr oact (replicate 24 0) s else Inr s) (ret 0)"

definition sys_time :: "'h htif \<Rightarrow> frame \<Rightarrow> u64 \<Rightarrow> ('h, 'z) call" where
  "sys_time H fr loc s =
     (let (c, s) = rdcycle64 s; t = c div CLOCK_FREQ
      in bindE (if loc \<noteq> 0 then put_user H fr loc (le_bytes t) s else Inr s) (ret t))"

definition knuth :: "u64 \<Rightarrow> u64" where
  "knuth r64 = r64 * 6364136223846793005 + 1442695040888963407"

partial_function (option) getrandom_loop ::
    "'h htif \<Rightarrow> frame \<Rightarrow> u64 \<Rightarrow> u64 \<Rightarrow> u64 \<Rightarrow> ('h, 'z) pk_st_scheme \<Rightarrow> ('h, 'z) pk_st_scheme res option" where
  "getrandom_loop H fr buf buflen r64 s =
     (let r64 = knuth r64
      in case put_user H fr buf (take (unat (C_MIN buflen 8)) (le_bytes r64)) s of
           Inl e \<Rightarrow> Some (Inl e)
         | Inr s \<Rightarrow> if buflen \<le> 8 then Some (Inr s)
                    else getrandom_loop H fr (buf + 8) (buflen - 8) r64 s)"

definition sys_getrandom :: "'h htif \<Rightarrow> frame \<Rightarrow> u64 \<Rightarrow> u64 \<Rightarrow> u64 \<Rightarrow> ('h, 'z) call" where
  "sys_getrandom H fr buf buflen flags s =
     (let (c, s) = rdcycle64 s
      in bindE (finish (getrandom_loop H fr buf buflen c s)) (ret buflen))"

definition sys_times :: "'h htif \<Rightarrow> frame \<Rightarrow> u64 \<Rightarrow> ('h, 'z) call" where
  "sys_times H fr loc s =
     (let (t, s) = rdcycle64 s
      in bindE (kassert (CLOCK_FREQ mod 1000000 = 0) ''CLOCK_FREQ % 1000000 == 0'') (\<lambda>_.
         bindE (put_user H fr loc (le_bytes (t div (CLOCK_FREQ div 1000000)) @ replicate 24 0) s) (ret 0)))"

definition sys_gettimeofday :: "'h htif \<Rightarrow> frame \<Rightarrow> u64 \<Rightarrow> ('h, 'z) call" where
  "sys_gettimeofday H fr loc s =
     (let (t, s) = rdcycle64 s
      in bindE (put_user H fr loc (le_bytes (t div CLOCK_FREQ)
                 @ le_bytes (t mod CLOCK_FREQ div (CLOCK_FREQ div 1000000))) s) (ret 0))"

definition sys_clock_gettime :: "'h htif \<Rightarrow> frame \<Rightarrow> u64 \<Rightarrow> u64 \<Rightarrow> ('h, 'z) call" where
  "sys_clock_gettime H fr clk_id loc s =
     (let (t, s) = rdcycle64 s
      in bindE (put_user H fr loc (le_bytes (t div CLOCK_FREQ)
                 @ le_bytes (t mod CLOCK_FREQ div (CLOCK_FREQ div 1000000000))) s) (ret 0))"

section \<open>Vectors\<close>

text \<open>Reading consecutive 64-bit words of user memory through the kernel buffer \<^verbatim>\<open>sbuf\<close>.\<close>

definition get_user :: "'h htif \<Rightarrow> frame \<Rightarrow> u64 \<Rightarrow> nat \<Rightarrow> ('h, 'z) pk_st_scheme
    \<Rightarrow> (u64 list \<times> ('h, 'z) pk_st_scheme) res" where
  "get_user H fr src n s =
     bindE (memcpy_from_user H (pbuf fr) (sbuf fr) src (of_nat (8 * n)) s) (\<lambda>s.
       Inr (map (\<lambda>i. load_le 8 (pmem s) (kva2pa s (sbuf fr) + of_nat (8 * i))) [0..<n], s))"

primrec writev_loop :: "'h htif \<Rightarrow> frame \<Rightarrow> u64 \<Rightarrow> u64 \<Rightarrow> nat \<Rightarrow> u64 \<Rightarrow> ('h, 'z) call" where
  "writev_loop H fr fd iov 0 acc s = ret acc s"
| "writev_loop H fr fd iov (Suc k) acc s =
     bindE (get_user H fr iov 2 s) (\<lambda>(kiov, s).
     bindE (sys_write H fr fd (kiov ! 0) (kiov ! 1) s) (\<lambda>(r, s).
       if sint r < 0 then ret r s else writev_loop H fr fd (iov + 16) k (acc + r) s))"

definition sys_writev :: "'h htif \<Rightarrow> frame \<Rightarrow> u64 \<Rightarrow> u64 \<Rightarrow> u64 \<Rightarrow> ('h, 'z) call" where
  "sys_writev H fr fd iov cnt = writev_loop H fr fd iov (nat (sint (ucast cnt :: u32))) 0"

text \<open>One vector element of \<^verbatim>\<open>sys_readv\<close>: \<open>Inl\<close> of the value to return at once, \<open>Inr\<close> of \<open>()\<close>
  when the element was filled.\<close>

partial_function (option) readv_elem ::
    "'h htif \<Rightarrow> frame \<Rightarrow> nat \<Rightarrow> u64 \<Rightarrow> u64 \<Rightarrow> u64 \<Rightarrow> u64 \<Rightarrow> ('h, 'z) pk_st_scheme
     \<Rightarrow> ((u64 + unit) \<times> ('h, 'z) pk_st_scheme) res option" where
  "readv_elem H fr f buf len done acc s =
     (if done < len
      then let to_read = C_MIN (len - done) MAX_BUF;
               (r, s) = file_read H f (kva2pa s (kbuf fr)) to_read s
           in if sint r < 0 then Some (Inr (Inl r, s))
              else case memcpy_to_user H (pbuf fr) buf (kbuf fr) r s of
                     Inl e \<Rightarrow> Some (Inl e)
                   | Inr s \<Rightarrow> if r < to_read then Some (Inr (Inl (acc + (done + r)), s))
                              else readv_elem H fr f (buf + r) len (done + r) acc s
      else Some (Inr (Inr (), s)))"

primrec readv_loop :: "'h htif \<Rightarrow> frame \<Rightarrow> nat \<Rightarrow> u64 \<Rightarrow> nat \<Rightarrow> u64 \<Rightarrow> ('h, 'z) call" where
  "readv_loop H fr f iov 0 acc s = ret acc s"
| "readv_loop H fr f iov (Suc k) acc s =
     bindE (get_user H fr iov 2 s) (\<lambda>(kiov, s).
       let len = kiov ! 1
       in if len AND push_bit 63 1 \<noteq> 0 then ret E_INVAL s
          else bindE (finish (readv_elem H fr f (kiov ! 0) len 0 acc s)) (\<lambda>(r, s).
                 case r of
                   Inl r \<Rightarrow> ret r s
                 | Inr _ \<Rightarrow> if sint (acc + len) < 0 then ret E_INVAL s
                            else readv_loop H fr f (iov + 16) k (acc + len) s))"

definition sys_readv :: "'h htif \<Rightarrow> frame \<Rightarrow> u64 \<Rightarrow> u64 \<Rightarrow> u64 \<Rightarrow> ('h, 'z) call" where
  "sys_readv H fr fd iov iovcnt s =
     (let cnt = sint (ucast iovcnt :: u32)
      in if cnt < 0 then ret E_INVAL s
         else if iov = 0 then ret E_FAULT s
         else with_file H fd (\<lambda>f. readv_loop H fr f iov (nat cnt) 0) s)"

section \<open>The other calls\<close>

definition sys_tgkill :: "'h htif \<Rightarrow> frame \<Rightarrow> u64 \<Rightarrow> u64 \<Rightarrow> u64 \<Rightarrow> ('h, 'z) call" where
  "sys_tgkill H fr tgid tid sig = sys_exit H fr sig"

definition sys_getdents :: "u64 \<Rightarrow> u64 \<Rightarrow> u64 \<Rightarrow> ('h, 'z) call" where
  "sys_getdents fd dirbuf count = ret 0"

definition supports_extension :: "('h, 'z) pk_st_scheme \<Rightarrow> nat \<Rightarrow> bool" where
  "supports_extension s k \<longleftrightarrow> misa_image s AND push_bit k 1 \<noteq> 0"

definition hwprobe_pair :: "u64 \<Rightarrow> u64 \<Rightarrow> ('h, 'z) pk_st_scheme \<Rightarrow> u64 \<times> u64" where
  "hwprobe_pair key val s =
     (if key = 4
      then (key, (if supports_extension s 2 then 2 else 0) OR (if supports_extension s 21 then 4 else 0))
      else (- 1, 0))"

primrec hwprobe_loop :: "'h htif \<Rightarrow> frame \<Rightarrow> u64 \<Rightarrow> nat \<Rightarrow> ('h, 'z) call" where
  "hwprobe_loop H fr probes 0 s = ret 0 s"
| "hwprobe_loop H fr probes (Suc k) s =
     bindE (get_user H fr probes 2 s) (\<lambda>(kv, s).
       let (key, val) = hwprobe_pair (kv ! 0) (kv ! 1) s
       in bindE (put_user H fr probes (le_bytes key @ le_bytes val) s) (hwprobe_loop H fr (probes + 16) k))"

definition sys_riscv_hwprobe :: "'h htif \<Rightarrow> frame \<Rightarrow> u64 \<Rightarrow> u64 \<Rightarrow> u64 \<Rightarrow> u64 \<Rightarrow> u64 \<Rightarrow> ('h, 'z) call" where
  "sys_riscv_hwprobe H fr probes count reserved_cpusetsize reserved_cpuset reserved_flags s =
     (if reserved_cpusetsize \<noteq> 0 \<or> reserved_cpuset \<noteq> 0 \<or> (ucast reserved_flags :: u32) \<noteq> 0 then ret E_BADF s
      else hwprobe_loop H fr probes (unat count) s)"

definition sys_brk :: "'h htif \<Rightarrow> u64 \<Rightarrow> ('h, 'z) call" where
  "sys_brk H pos = do_brk H pos"

definition sys_mmap :: "'h htif \<Rightarrow> u64 \<Rightarrow> u64 \<Rightarrow> u64 \<Rightarrow> u64 \<Rightarrow> u64 \<Rightarrow> u64 \<Rightarrow> ('h, 'z) call" where
  "sys_mmap H addr len prot flags fd offset = do_mmap H addr len (ucast prot) (ucast flags) (ucast fd) offset"

definition sys_munmap :: "'h htif \<Rightarrow> u64 \<Rightarrow> u64 \<Rightarrow> ('h, 'z) call" where
  "sys_munmap H addr len = do_munmap H addr len"

definition sys_mremap :: "u64 \<Rightarrow> u64 \<Rightarrow> u64 \<Rightarrow> u64 \<Rightarrow> ('h, 'z) call" where
  "sys_mremap addr old_size new_size flags = ret (do_mremap addr old_size new_size (ucast flags))"

definition sys_mprotect :: "u64 \<Rightarrow> u64 \<Rightarrow> u64 \<Rightarrow> ('h, 'z) call" where
  "sys_mprotect addr len prot = do_mprotect addr len (ucast prot)"

definition sys_stub_success :: "('h, 'z) call" where "sys_stub_success = ret 0"
definition sys_stub_nosys :: "('h, 'z) call" where "sys_stub_nosys = ret E_NOSYS"

section \<open>Dispatch\<close>

text \<open>The two tables: a number outside both, or in a hole of one, is not a system call.\<close>

definition syscall_table ::
    "'h htif \<Rightarrow> frame \<Rightarrow> u64 \<Rightarrow> u64 \<Rightarrow> u64 \<Rightarrow> u64 \<Rightarrow> u64 \<Rightarrow> u64 \<Rightarrow> (u64 \<times> ('h, 'z) call) list" where
  "syscall_table H fr a0 a1 a2 a3 a4 a5 =
     [(93, sys_exit H fr a0), (94, sys_exit H fr a0), (63, sys_read H fr a0 a1 a2),
      (67, sys_pread H fr a0 a1 a2 a3), (64, sys_write H fr a0 a1 a2), (56, sys_openat H fr a0 a1 a2 a3),
      (57, sys_close H a0), (80, sys_fstat H fr a0 a1), (291, sys_statx H fr a0 a1 a2 a3 a4),
      (62, sys_lseek H a0 a1 a2), (79, sys_fstatat H fr a0 a1 a2 a3), (37, sys_linkat H fr a0 a1 a2 a3 a4),
      (35, sys_unlinkat H fr a0 a1 a2), (34, sys_mkdirat H fr a0 a1 a2), (38, sys_renameat H fr a0 a1 a2 a3),
      (17, sys_getcwd H fr a0 a1), (214, sys_brk H a0), (160, sys_uname H fr a0), (172, sys_getpid),
      (174, sys_getuid), (175, sys_getuid), (176, sys_getuid), (177, sys_getuid), (178, sys_getuid),
      (131, sys_tgkill H fr a0 a1 a2), (222, sys_mmap H a0 a1 a2 a3 a4 a5), (215, sys_munmap H a0 a1),
      (216, sys_mremap a0 a1 a2 a3), (226, sys_mprotect a0 a1 a2), (134, sys_rt_sigaction H fr a0 a1 a2 a3),
      (169, sys_gettimeofday H fr a0), (153, sys_times H fr a0), (66, sys_writev H fr a0 a1 a2),
      (48, sys_faccessat H fr a0 a1 a2), (25, sys_fcntl H a0 a1 a2), (46, sys_ftruncate H a0 a1),
      (61, sys_getdents a0 a1 a2), (23, sys_dup H a0), (24, sys_dup3 H a0 a1 a2), (135, sys_stub_success),
      (113, sys_clock_gettime H fr a0 a1), (49, sys_chdir H fr a0), (78, sys_readlinkat H fr a0 a1 a2 a3),
      (65, sys_readv H fr a0 a1 a2), (258, sys_riscv_hwprobe H fr a0 a1 a2 a3 a4), (98, sys_stub_success),
      (278, sys_getrandom H fr a0 a1 a2)]"

definition old_syscall_table ::
    "'h htif \<Rightarrow> frame \<Rightarrow> u64 \<Rightarrow> u64 \<Rightarrow> u64 \<Rightarrow> (u64 \<times> ('h, 'z) call) list" where
  "old_syscall_table H fr a0 a1 a2 =
     [(0, sys_open H fr a0 a1 a2), (1, sys_link H fr a0 a1), (2, sys_unlink H fr a0), (6, sys_mkdir H fr a0 a1),
      (9, sys_access H fr a0 a1), (14, sys_stat H fr a0 a1), (15, sys_lstat H fr a0 a1), (38, sys_time H fr a0)]"

definition OLD_SYSCALL_THRESHOLD :: u64 where "OLD_SYSCALL_THRESHOLD = 1024"

definition do_syscall ::
    "'h htif \<Rightarrow> frame \<Rightarrow> u64 \<Rightarrow> u64 \<Rightarrow> u64 \<Rightarrow> u64 \<Rightarrow> u64 \<Rightarrow> u64 \<Rightarrow> u64 \<Rightarrow> ('h, 'z) call" where
  "do_syscall H fr a0 a1 a2 a3 a4 a5 n =
     (case (if n < 292 then map_of (syscall_table H fr a0 a1 a2 a3 a4 a5) n
            else if n - OLD_SYSCALL_THRESHOLD < 39
            then map_of (old_syscall_table H fr a0 a1 a2) (n - OLD_SYSCALL_THRESHOLD)
            else None) of
        None \<Rightarrow> sys_stub_nosys
      | Some f \<Rightarrow> f)"

section \<open>Traps\<close>

definition die :: "'h htif \<Rightarrow> frame \<Rightarrow> trapframe_t \<Rightarrow> string \<Rightarrow> ('h, 'z) pk_st_scheme \<Rightarrow> 'a res" where
  "die H fr tf msg s =
     (let (tf, s) = dump_tf H (pbuf fr) tf s
      in case do_panic H (pbuf fr) (msg @ [CHR 0x0A]) [] s of Inl _ \<Rightarrow> Inl (Panic msg) | Inr x \<Rightarrow> Inr x)"

definition handle_syscall ::
    "'h htif \<Rightarrow> frame \<Rightarrow> trapframe_t \<Rightarrow> ('h, 'z) pk_st_scheme \<Rightarrow> (trapframe_t \<times> ('h, 'z) pk_st_scheme) res" where
  "handle_syscall H fr tf s =
     bindE (do_syscall H fr (gpr tf ! 10) (gpr tf ! 11) (gpr tf ! 12) (gpr tf ! 13) (gpr tf ! 14)
              (gpr tf ! 15) (gpr tf ! 17) s) (\<lambda>(r, s).
       Inr (tf\<lparr>gpr := (gpr tf)[10 := r], tf_epc := tf_epc tf + 4\<rparr>, s))"

definition handle_interrupt :: "trapframe_t \<Rightarrow> ('h, 'z) pk_st_scheme \<Rightarrow> ('h, 'z) pk_st_scheme" where
  "handle_interrupt tf s = s\<lparr>sip_ssip := False\<rparr>"

definition LANDING_PAD_FAULT :: u64 where "LANDING_PAD_FAULT = 2"
definition SHADOW_STACK_FAULT :: u64 where "SHADOW_STACK_FAULT = 3"

definition handle_software_check_fault ::
    "'h htif \<Rightarrow> frame \<Rightarrow> trapframe_t \<Rightarrow> ('h, 'z) pk_st_scheme \<Rightarrow> 'a res" where
  "handle_software_check_fault H fr tf s =
     (if stval s = LANDING_PAD_FAULT then die H fr tf ''Invalid landing pad!'' s
      else if stval s = SHADOW_STACK_FAULT then die H fr tf ''Shadow stack comparison failed!'' s
      else die H fr tf ''Software check fault: unhandled stval'' s)"

definition handle_trap ::
    "'h htif \<Rightarrow> frame \<Rightarrow> trapframe_t \<Rightarrow> ('h, 'z) pk_st_scheme \<Rightarrow> (trapframe_t \<times> ('h, 'z) pk_st_scheme) res" where
  "handle_trap H fr tf s =
     (let c = tf_cause tf; keep = \<lambda>r. bindE r (\<lambda>s. Inr (tf, s))
      in if sint c < 0 then Inr (tf, handle_interrupt tf s)
         else if c = 0 then die H fr tf ''Misaligned instruction access!'' s
         else if c = 1 then die H fr tf ''Instruction access fault!'' s
         else if c = 5 then die H fr tf ''Load access fault!'' s
         else if c = 7 then die H fr tf ''Store/AMO access fault!'' s
         else if c = 12 then keep (handle_fault_fetch H (pbuf fr) tf s)
         else if c = 2 then die H fr tf ''An illegal instruction was executed!'' s
         else if c = 8 then handle_syscall H fr tf s
         else if c = 3 then die H fr tf ''Breakpoint!'' s
         else if c = 4 then die H fr tf ''Misaligned Load!'' s
         else if c = 6 then die H fr tf ''Misaligned AMO!'' s
         else if c = 13 then keep (handle_fault_load H (pbuf fr) tf s)
         else if c = 15 then keep (handle_fault_store H (pbuf fr) tf s)
         else if c = 18 then handle_software_check_fault H fr tf s
         else Inl (Assert ''tf->cause < ARRAY_SIZE(trap_handlers) && trap_handlers[tf->cause]''))"

end
