(* ===== verification/PK_UserMem.thy ===== *)
theory PK_UserMem
  imports PK_VmProps PK_Syscall
begin

text \<open>
  User memory as programs see it.  A view gives the accessible addresses their bytes; the kernel's
  accesses, with the page faults and the demand paging they cause, are reads and updates of that view.
\<close>

section \<open>Address spaces\<close>

lemma range_snoc:
  assumes "k < 2 ^ 64"
  shows "(\<lambda>a. if unat (a - dst) < Suc k then f (a - dst) else g a)
    = (\<lambda>a. if unat (a - dst) < k then f (a - dst) else g a)(dst + of_nat k := f (of_nat k :: u64))"
proof
  fix a
  have k: "unat (of_nat k :: u64) = k" using assms by (rule unat_u64_of_nat)
  have "a \<noteq> dst + of_nat k \<Longrightarrow> unat (a - dst) \<noteq> k"
    using k by (metis add_diff_cancel_left' diff_add_cancel word_unat_eq_iff add.commute)
  then show "(if unat (a - dst) < Suc k then f (a - dst) else g a)
    = ((\<lambda>a. if unat (a - dst) < k then f (a - dst) else g a)(dst + of_nat k := f (of_nat k))) a"
    using k by auto
qed

text \<open>The interface: loads and stores of bytes at virtual addresses that the permissions allow, over
  a view that only stores change; \<open>keeps\<close> relates states that differ in what the accesses may
  change behind the view.\<close>

locale address_space =
  fixes ok :: "'s \<Rightarrow> bool"
    and can :: "u32 \<Rightarrow> 's \<Rightarrow> u64 \<Rightarrow> bool"
    and view :: "'s \<Rightarrow> u64 \<Rightarrow> u8 option"
    and keeps :: "'s \<Rightarrow> 's \<Rightarrow> bool"
    and load :: "u64 \<Rightarrow> 's \<Rightarrow> (u8 \<times> 's) res"
    and store :: "u64 \<Rightarrow> u8 \<Rightarrow> 's \<Rightarrow> 's res"
  assumes load_law: "ok s \<Longrightarrow> can PROT_READ s a \<Longrightarrow>
      \<exists>b s'. load a s = Inr (b, s') \<and> view s a = Some b \<and> ok s' \<and> (\<forall>acc. can acc s' = can acc s) \<and> view s' = view s \<and> keeps s s'"
    and store_law: "ok s \<Longrightarrow> can PROT_WRITE s a \<Longrightarrow>
      \<exists>s'. store a b s = Inr s' \<and> ok s' \<and> (\<forall>acc. can acc s' = can acc s) \<and> view s' = (view s)(a \<mapsto> b) \<and> keeps s s'"
    and keeps_refl: "keeps s s"
    and keeps_trans: "keeps s t \<Longrightarrow> keeps t u \<Longrightarrow> keeps s u"
begin

lemma copy_ok:
  assumes "ok s" "n < 2 ^ 64"
    and "\<forall>i < n. can PROT_READ s (src + of_nat i) \<and> can PROT_WRITE s (dst + of_nat i)"
    and "\<forall>i < n. \<not> unat (src + of_nat i - dst) < n"
  shows "\<exists>s'. foldE (\<lambda>i s. bindE (load (src + of_nat i) s) (\<lambda>(b, s). store (dst + of_nat i) b s)) [0..<n] s = Inr s'
    \<and> ok s' \<and> (\<forall>acc. can acc s' = can acc s) \<and> keeps s s'
    \<and> view s' = (\<lambda>a. if unat (a - dst) < n then view s (src + (a - dst)) else view s a)"
proof -
  have "k \<le> n \<Longrightarrow> \<exists>s'. foldE (\<lambda>i s. bindE (load (src + of_nat i) s) (\<lambda>(b, s). store (dst + of_nat i) b s)) [0..<k] s = Inr s'
    \<and> ok s' \<and> (\<forall>acc. can acc s' = can acc s) \<and> keeps s s'
    \<and> view s' = (\<lambda>a. if unat (a - dst) < k then view s (src + (a - dst)) else view s a)" for k
  proof (induction k)
    case 0
    then show ?case using assms(1) by (simp add: keeps_refl)
  next
    case (Suc k)
    then obtain t where t: "foldE (\<lambda>i s. bindE (load (src + of_nat i) s) (\<lambda>(b, s). store (dst + of_nat i) b s)) [0..<k] s = Inr t"
      "ok t" "\<And>acc. can acc t = can acc s" "keeps s t"
      "view t = (\<lambda>a. if unat (a - dst) < k then view s (src + (a - dst)) else view s a)" by auto
    have k: "k < n" using Suc.prems by simp
    with assms(3) t(3) have c: "can PROT_READ t (src + of_nat k)" "can PROT_WRITE s (dst + of_nat k)" by auto
    from load_law [OF t(2) c(1)] obtain b u where u: "load (src + of_nat k) t = Inr (b, u)"
      "view t (src + of_nat k) = Some b" "ok u" "\<And>acc. can acc u = can acc t" "view u = view t" "keeps t u" by blast
    have "can PROT_WRITE u (dst + of_nat k)" using c(2) t(3) u(4) by simp
    from store_law [OF u(3) this] obtain w where w: "store (dst + of_nat k) b u = Inr w" "ok w"
      "\<And>acc. can acc w = can acc u" "view w = (view u)(dst + of_nat k \<mapsto> b)" "keeps u w" by blast
    have "\<not> unat (src + of_nat k - dst) < k" using assms(4) k by auto
    then have b: "view s (src + of_nat k) = Some b" using u(2) t(5) by simp
    have "view w = (\<lambda>a. if unat (a - dst) < Suc k then view s (src + (a - dst)) else view s a)"
      using range_snoc [of k dst "\<lambda>d. view s (src + d)" "view s"] k assms(2) w(4) u(5) t(5) b by simp
    moreover have "keeps s w" using t(4) u(6) w(5) keeps_trans by blast
    moreover have "foldE (\<lambda>i s. bindE (load (src + of_nat i) s) (\<lambda>(b, s). store (dst + of_nat i) b s)) [0..<Suc k] s = Inr w"
      using t(1) u(1) w(1) by (simp add: foldE_append)
    ultimately show ?case using w(2,3) u(4) t(3) by auto
  qed
  then show ?thesis by blast
qed

lemma fill_ok:
  assumes "ok s" "n < 2 ^ 64" "\<forall>i < n. can PROT_WRITE s (dst + of_nat i)"
  shows "\<exists>s'. foldE (\<lambda>i. store (dst + of_nat i) b) [0..<n] s = Inr s'
    \<and> ok s' \<and> (\<forall>acc. can acc s' = can acc s) \<and> keeps s s'
    \<and> view s' = (\<lambda>a. if unat (a - dst) < n then Some b else view s a)"
proof -
  have "k \<le> n \<Longrightarrow> \<exists>s'. foldE (\<lambda>i. store (dst + of_nat i) b) [0..<k] s = Inr s'
    \<and> ok s' \<and> (\<forall>acc. can acc s' = can acc s) \<and> keeps s s'
    \<and> view s' = (\<lambda>a. if unat (a - dst) < k then Some b else view s a)" for k
  proof (induction k)
    case 0
    then show ?case using assms(1) by (simp add: keeps_refl)
  next
    case (Suc k)
    then obtain t where t: "foldE (\<lambda>i. store (dst + of_nat i) b) [0..<k] s = Inr t" "ok t" "\<And>acc. can acc t = can acc s"
      "keeps s t" "view t = (\<lambda>a. if unat (a - dst) < k then Some b else view s a)" by auto
    have k: "k < n" using Suc.prems by simp
    then have "can PROT_WRITE t (dst + of_nat k)" using assms(3) t(3) by simp
    from store_law [OF t(2) this] obtain w where w: "store (dst + of_nat k) b t = Inr w" "ok w"
      "\<And>acc. can acc w = can acc t" "view w = (view t)(dst + of_nat k \<mapsto> b)" "keeps t w" by blast
    have "view w = (\<lambda>a. if unat (a - dst) < Suc k then Some b else view s a)"
      using range_snoc [of k dst "\<lambda>_. Some b" "view s"] k assms(2) w(4) t(5) by simp
    moreover have "keeps s w" using t(4) w(5) keeps_trans by blast
    moreover have "foldE (\<lambda>i. store (dst + of_nat i) b) [0..<Suc k] s = Inr w"
      using t(1) w(1) by (simp add: foldE_append)
    ultimately show ?case using w(2,3) t(3) by auto
  qed
  then show ?thesis by blast
qed

end

section \<open>The view of a running program and of the kernel's buffers\<close>

text \<open>The physical address behind a valid entry.\<close>

definition pa_of :: "u64 \<Rightarrow> u64 \<Rightarrow> u64" where
  "pa_of e va = child e + (va AND (PGSIZE - 1))"

text \<open>A user address can be accessed when its page is mapped with the permission, or promised as
  anonymous memory of a region that grants it.\<close>

definition user_can :: "u32 \<Rightarrow> ('h, 'z) pk_st_scheme \<Rightarrow> u64 \<Rightarrow> bool" where
  "user_can acc s va \<longleftrightarrow>
     user_va va \<and> va < mmap_max (current s) \<and> leaf s va \<noteq> 0
     \<and> (if leaf s va AND PTE_V \<noteq> 0 then hw_grants True (leaf s va) acc
        else vmr_file (vmrs s (leaf s va)) = None
          \<and> hw_grants True (pte_create 0 (prot_to_type (vmr_prot (vmrs s (leaf s va))) True)) acc)"

text \<open>A kernel buffer lies in a page in use that is neither a table nor mapped by the user.\<close>

definition kernel_can :: "('h, 'z) pk_st_scheme \<Rightarrow> u64 \<Rightarrow> bool" where
  "kernel_can s va \<longleftrightarrow>
     va \<ge> KVA_START \<and> va - KVA_START < mem_size s
     \<and> (\<exists>q \<in> used_pages s - table_pages s. unat (kva2pa s va - q) < 4096
          \<and> (\<forall>w. user_va w \<longrightarrow> leaf s w AND PTE_V \<noteq> 0 \<longrightarrow> child (leaf s w) \<noteq> q))"

definition can_access :: "u32 \<Rightarrow> ('h, 'z) pk_st_scheme \<Rightarrow> u64 \<Rightarrow> bool" where
  "can_access acc s va \<longleftrightarrow> user_can acc s va \<or> kernel_can s va"

definition memory_view :: "('h, 'z) pk_st_scheme \<Rightarrow> u64 \<Rightarrow> u8 option" where
  "memory_view s va =
     (if user_va va
      then if leaf s va = 0 then None
           else if leaf s va AND PTE_V \<noteq> 0 then Some (pmem s (pa_of (leaf s va) va))
           else if vmr_file (vmrs s (leaf s va)) = None then Some 0 else None
      else if kernel_can s va then Some (pmem s (kva2pa s va)) else None)"

text \<open>Every page still promised to the program has a free page, as the accounting of \<^verbatim>\<open>mmap\<close> keeps it.\<close>

definition backed :: "('h, 'z) pk_st_scheme \<Rightarrow> bool" where
  "backed s \<longleftrightarrow> vm_ok s \<and> \<not> vm_lock s \<and> card (promised s) \<le> free_count s"

definition space_ok :: "('h, 'z) pk_st_scheme \<Rightarrow> bool" where
  "space_ok s \<longleftrightarrow> backed s \<and> sum_bit s"

definition keeps :: "('h, 'z) pk_st_scheme \<Rightarrow> ('h, 'z) pk_st_scheme \<Rightarrow> bool" where
  "keeps s s' \<longleftrightarrow> fds s' = fds s \<and> files s' = files s \<and> host s' = host s \<and> current s' = current s
     \<and> mem_size s' = mem_size s \<and> demand_paging s' = demand_paging s \<and> vm_st.more s' = vm_st.more s"

lemma user_va_word: "user_va va \<longleftrightarrow> va < push_bit (VA_BITS - 1) 1"
  by (simp add: user_va_def VA_BITS_def)

lemma hw_user_leaf:
  assumes "vm_ok s" "user_va va"
  shows "hw_user s va acc =
    (if leaf s va \<noteq> 0 \<and> hw_grants (sum_bit s) (leaf s va) acc then Some (pa_of (leaf s va) va) else None)"
proof (cases "leaf s va = 0")
  case True
  then have "walk va s = 0 \<or> rd_pte s (walk va s) = 0" using walk_rd_leaf(1) [OF assms] by simp
  then show ?thesis using True by (auto simp: hw_user_def Let_def hw_grants_def)
next
  case False
  then show ?thesis using walk_rd_leaf [OF assms] assms(2)
    by (auto simp: hw_user_def Let_def pa_of_def child_def user_va_word)
qed

section \<open>Demand paging does not show\<close>

lemma pte_low:
  assumes "m < 2 ^ 10"
  shows "pte_create x t AND m = pte_create 0 t AND (m :: u64)"
proof -
  have "take_bit 10 m = m" using assms by (intro take_bit_small) (simp add: word_less_nat_alt)
  then have lt: "bit m n \<Longrightarrow> n < 10" for n by (metis bit_take_bit_iff)
  show ?thesis unfolding pte_create_def by (rule bit_word_eqI) (auto simp: bit_simps dest: lt)
qed

lemma grants_low: "hw_grants u (pte_create x t) acc = hw_grants u (pte_create 0 t) acc"
  unfolding hw_grants_def using pte_low [of _ x t] by (simp add: pte_bits)

lemma grants_allow:
  assumes "acc = PROT_READ \<or> acc = PROT_WRITE" "hw_grants True (pte_create 0 (prot_to_type v True)) acc"
  shows "perms_allow (pte_create x (prot_to_type v True)) acc"
proof -
  have "v AND acc \<noteq> 0"
    using assms by (cases "v AND 1 = 0"; cases "v AND 2 = 0"; cases "v AND 4 = 0"; elim disjE)
      (simp_all add: hw_grants_def prot_to_type_def Let_def pte_bits pte_create_def PROT_READ_def PROT_WRITE_def PROT_EXEC_def)
  then show ?thesis using assms(1) perms_allow_created [of acc x v] by blast
qed

lemma page_offset: "unat (va AND (PGSIZE - 1)) < 4096"
proof -
  have "va AND (PGSIZE - 1) = va mod 4096" using and_low_mask_mod(2) [of va] by simp
  then show ?thesis by (simp add: unat_mod)
qed

lemma fault_invisible:
  fixes s t :: "('h, 'z) pk_st_scheme"
  assumes ok: "vm_ok s" and va: "user_va va" "leaf s va \<noteq> 0" "leaf s va AND PTE_V = 0" "vmr_file (vmrs s (leaf s va)) = None"
    and p: "p \<notin> used_pages s" "p mod PGSIZE = 0"
    and lf: "\<forall>w. user_va w \<longrightarrow> leaf t w = (if same_page va w
        then pte_create (p div PGSIZE) (prot_to_type (vmr_prot (vmrs s (leaf s va))) True) else leaf s w)"
    and z: "\<forall>a. unat (a - p) < 4096 \<longrightarrow> pmem t a = 0"
    and up: "used_pages t = insert p (used_pages s)" and k: "kept s t" and st: "steady s t"
  shows "memory_view t = memory_view s" "user_can acc t = user_can acc s" "kernel_can t = kernel_can s"
    "card (promised t) < card (promised s)" "leaf t va AND PTE_V \<noteq> 0"
proof -
  let ?x = "pte_create (p div PGSIZE) (prot_to_type (vmr_prot (vmrs s (leaf s va))) True)"
  note X = user_pte [OF p(2), of "vmr_prot (vmrs s (leaf s va))" True]
  have m: "map_ok s" using ok by (simp add: vm_ok_def)
  have own: "leaf s w = leaf s va" if "user_va w" "same_page va w" for w
    using same_page_leaf [OF va(1) that, of s] by simp
  have same: "leaf t w = leaf s w" if "user_va w" "\<not> same_page va w" for w using lf that by simp
  have new: "leaf t w = ?x" if "user_va w" "same_page va w" for w using lf that by simp
  have used: "pmem t a = pmem s a" if "q \<in> used_pages s" "unat (a - q) < 4096" for q a using k that unfolding kept_def by blast
  have regions: "vmr_prot (vmrs t v) = vmr_prot (vmrs s v)" "vmr_file (vmrs t v) = vmr_file (vmrs s v)" for v
    using k by (simp_all add: kept_def)
  have fx: "kva2pa t a = kva2pa s a" "mem_size t = mem_size s" "current t = current s" "table_pages t = table_pages s" for a
    using k st by (simp_all add: kept_def steady_def kva2pa_def)
  show "leaf t va AND PTE_V \<noteq> 0" using new [OF va(1)] X(2) by (simp add: same_page_def)
  show kc: "kernel_can t = kernel_can s"
  proof
    fix a
    have pt: "p \<notin> table_pages s" using p(1) table_pages_used [OF map_okD(1) [OF m]] by blast
    have q: "(q \<in> used_pages t - table_pages t \<and> unat (kva2pa t a - q) < 4096
        \<and> (\<forall>w. user_va w \<longrightarrow> leaf t w AND PTE_V \<noteq> 0 \<longrightarrow> child (leaf t w) \<noteq> q))
      \<longleftrightarrow> (q \<in> used_pages s - table_pages s \<and> unat (kva2pa s a - q) < 4096
        \<and> (\<forall>w. user_va w \<longrightarrow> leaf s w AND PTE_V \<noteq> 0 \<longrightarrow> child (leaf s w) \<noteq> q))" for q
    proof (cases "q = p")
      case True
      have "user_va va \<and> leaf t va AND PTE_V \<noteq> 0 \<and> child (leaf t va) = p"
        using new [OF va(1)] X va(1) by (simp add: same_page_def)
      then show ?thesis using True p(1) by auto
    next
      case False
      have "leaf t w AND PTE_V \<noteq> 0 \<and> child (leaf t w) = q \<longleftrightarrow> leaf s w AND PTE_V \<noteq> 0 \<and> child (leaf s w) = q"
        if w: "user_va w" for w
        using own [OF w] same [OF w] new [OF w] X False va(3) by (cases "same_page va w") auto
      then have "(\<forall>w. user_va w \<longrightarrow> leaf t w AND PTE_V \<noteq> 0 \<longrightarrow> child (leaf t w) \<noteq> q)
          \<longleftrightarrow> (\<forall>w. user_va w \<longrightarrow> leaf s w AND PTE_V \<noteq> 0 \<longrightarrow> child (leaf s w) \<noteq> q)" by blast
      then show ?thesis using False up fx by simp
    qed
    then have "(\<exists>q \<in> used_pages t - table_pages t. unat (kva2pa t a - q) < 4096
        \<and> (\<forall>w. user_va w \<longrightarrow> leaf t w AND PTE_V \<noteq> 0 \<longrightarrow> child (leaf t w) \<noteq> q))
      \<longleftrightarrow> (\<exists>q \<in> used_pages s - table_pages s. unat (kva2pa s a - q) < 4096
        \<and> (\<forall>w. user_va w \<longrightarrow> leaf s w AND PTE_V \<noteq> 0 \<longrightarrow> child (leaf s w) \<noteq> q))"
      unfolding Bex_def by simp
    then show "kernel_can t a = kernel_can s a" unfolding kernel_can_def fx(2) by simp
  qed
  show "user_can acc t = user_can acc s"
  proof
    fix a
    show "user_can acc t a = user_can acc s a"
    proof (cases "user_va a \<and> same_page va a")
      case True
      then show ?thesis using own [of a] new [of a] X(2,3) va(2-4) fx(3) by (simp add: user_can_def grants_low [of _ "p div PGSIZE"])
    next
      case False
      then show ?thesis using same [of a] regions fx(3) by (auto simp: user_can_def)
    qed
  qed
  show "memory_view t = memory_view s"
  proof
    fix a
    show "memory_view t a = memory_view s a"
    proof (cases "user_va a")
      case True
      note u = this
      show ?thesis
      proof (cases "same_page va a")
        case True
        have "pmem t (pa_of ?x a) = 0" using z page_offset [of a] X(1) by (simp add: pa_of_def)
        then show ?thesis using own [OF u True] new [OF u True] X(2,3) u va(2-4) by (simp add: memory_view_def)
      next
        case False
        have "pmem t (pa_of (leaf s a) a) = pmem s (pa_of (leaf s a) a)" if "leaf s a AND PTE_V \<noteq> 0"
          using used [OF map_okD(3) [OF m u that]] page_offset [of a] by (simp add: pa_of_def)
        then show ?thesis using same [OF u False] u regions(2) by (simp add: memory_view_def)
      qed
    next
      case False
      have "pmem t (kva2pa s a) = pmem s (kva2pa s a)" if "kernel_can s a"
        using that used unfolding kernel_can_def by blast
      then show ?thesis using False kc fx(1) by (simp add: memory_view_def)
    qed
  qed
  have "promised t \<subseteq> promised s - {drop_bit 12 va}"
  proof
    fix d
    assume "d \<in> promised t"
    then obtain w where w: "d = drop_bit 12 w" "user_va w" "leaf t w \<noteq> 0" "leaf t w AND PTE_V = 0"
      unfolding promised_def by auto
    have ns: "\<not> same_page va w" using w X(2) new by auto
    then have "d \<noteq> drop_bit 12 va" using w(1) by (auto simp: same_page_def)
    moreover have "d \<in> promised s" unfolding promised_def using w same [OF w(2) ns] by auto
    ultimately show "d \<in> promised s - {drop_bit 12 va}" by simp
  qed
  moreover have "drop_bit 12 va \<in> promised s" unfolding promised_def using va by auto
  ultimately show "card (promised t) < card (promised s)" by (intro psubset_card_mono) auto
qed

section \<open>Accesses\<close>

text \<open>What one access leaves: the invariant, the permissions and the view.\<close>

definition unseen :: "('h, 'z) pk_st_scheme \<Rightarrow> ('h, 'z) pk_st_scheme \<Rightarrow> bool" where
  "unseen s s' \<longleftrightarrow> space_ok s' \<and> (\<forall>acc. can_access acc s' = can_access acc s) \<and> memory_view s' = memory_view s \<and> keeps s s'"

lemma unseen_refl: "space_ok s \<Longrightarrow> unseen s s"
  by (simp add: unseen_def keeps_def)

lemma vm_st_more:
  assumes "vm_st.more s' = vm_st.more s"
  shows "sum_bit s' = sum_bit s" "pk_st.more s' = pk_st.more s"
  using assms by (cases s rule: pk_st.cases_scheme; cases s' rule: pk_st.cases_scheme; simp)+

lemma user_not_kernel: "user_va va \<Longrightarrow> \<not> KVA_START \<le> va"
  by (simp add: user_va_def KVA_START_val word_less_nat_alt word_le_nat_alt)

lemma user_translate: "user_va va \<Longrightarrow> hw_translate s va acc = hw_user s va acc"
  using user_not_kernel by (auto simp: hw_translate_def)

lemma base_valid:
  assumes "va < mmap_max (current s)"
  shows "valid_user_range s (push_bit 12 (drop_bit 12 va)) 1"
proof -
  have "push_bit 12 (drop_bit 12 va) = va AND NOT (mask 12)"
    by (rule bit_word_eqI) (auto simp: bit_simps dest: bit_imp_le_length)
  then have "push_bit 12 (drop_bit 12 va) \<le> va" by (simp add: word_and_le2)
  then show ?thesis using assms by (simp add: valid_user_range_def)
qed

lemma user_access:
  assumes ok: "space_ok s" and c: "user_can acc s va" and acc: "acc = PROT_READ \<or> acc = PROT_WRITE"
  shows "\<exists>s'. kernel_access H out acc va s = Inr (pa_of (leaf s' va) va, s') \<and> unseen s s' \<and> leaf s' va AND PTE_V \<noteq> 0"
proof -
  have va: "user_va va" "va < mmap_max (current s)" "leaf s va \<noteq> 0" using c by (simp_all add: user_can_def)
  have s: "vm_ok s" "\<not> vm_lock s" "sum_bit s" "card (promised s) \<le> free_count s" using ok by (simp_all add: space_ok_def backed_def backed_def)
  note hw = hw_user_leaf [OF s(1) va(1), of acc]
  show ?thesis
  proof (cases "leaf s va AND PTE_V = 0")
    case False
    then have "hw_translate s va acc = Some (pa_of (leaf s va) va)"
      using c s(3) hw by (simp add: user_translate [OF va(1)] user_can_def)
    then show ?thesis using False unseen_refl [OF ok] by (simp add: kernel_access_def)
  next
    case True
    let ?x = "\<lambda>p. pte_create (p div PGSIZE) (prot_to_type (vmr_prot (vmrs s (leaf s va))) True)"
    have anon: "vmr_file (vmrs s (leaf s va)) = None" and g: "hw_grants True (?x p) acc" for p
      using c True by (simp_all add: user_can_def grants_low [of _ "p div PGSIZE"])
    have pa: "perms_allow (?x p) acc" for p
      using grants_allow [OF acc] c True by (simp add: user_can_def)
    have "drop_bit 12 va \<in> promised s" unfolding promised_def using va True by auto
    then have "promised s \<noteq> {}" by auto
    then have fc: "0 < free_count s" using s(4) card_gt_0_iff [of "promised s"] by auto
    from handle_page_fault_cases(4) [OF s(1,2) va(1) base_valid [OF va(2)] va(3) True fc anon, of H acc]
    obtain p t where F: "handle_page_fault H va acc s = Inr (if perms_allow (?x p) acc then 0 else -1, t)" "vm_ok t"
      "p \<notin> used_pages s" "p mod PGSIZE = 0"
      "\<forall>w. user_va w \<longrightarrow> leaf t w = (if same_page va w then ?x p else leaf s w)"
      "\<forall>a. unat (a - p) < 4096 \<longrightarrow> pmem t a = 0" "Suc (free_count t) = free_count s"
      "used_pages t = insert p (used_pages s)" "kept s t" "steady s t"
      unfolding Let_def by (elim exE conjE) (rule that; assumption)
    note I = fault_invisible [OF s(1) va(1,3) True anon F(3-6,8-10)]
    have more: "vm_st.more t = vm_st.more s" using F(9) by (simp add: kept_def)
    have t: "space_ok t" "keeps s t"
      using F(2,7,9,10) s I(4) vm_st_more [OF more] by (simp_all add: space_ok_def backed_def steady_def keeps_def kept_def)
    have "leaf t va = ?x p" using F(5) va(1) by (simp add: same_page_def)
    then have ht: "hw_translate t va acc = Some (pa_of (leaf t va) va)"
      using hw_user_leaf [OF F(2) va(1), of acc] g [of p] t(1) user_pte(3) [OF F(4)]
      by (simp add: space_ok_def backed_def user_translate [OF va(1)])
    have hs: "hw_translate s va acc = None"
      using hw True by (simp add: user_translate [OF va(1)] hw_grants_def)
    have "unseen s t" using t I(1-3) by (simp add: unseen_def can_access_def fun_eq_iff)
    moreover have "kernel_access H out acc va s = Inr (pa_of (leaf t va) va, t)"
      using hs ht F(1) pa [of p] acc
      by (auto simp: kernel_access_def handle_fault_store_def handle_fault_load_def PROT_READ_def PROT_WRITE_def)
    ultimately show ?thesis using I(5) by blast
  qed
qed

lemma kernel_buffer_access:
  assumes "space_ok s" "kernel_can s va"
  shows "kernel_access H out acc va s = Inr (kva2pa s va, s)" "\<not> user_va va"
  using assms user_not_kernel [of va] by (auto simp: kernel_can_def kernel_access_def hw_translate_def hw_kernel_def)

section \<open>Stores\<close>

lemma pa_of_inj:
  assumes "vm_ok s" "user_va a" "user_va b" "leaf s a AND PTE_V \<noteq> 0" "leaf s b AND PTE_V \<noteq> 0"
    and "pa_of (leaf s a) a = pa_of (leaf s b) b"
  shows "a = b"
proof -
  have m: "map_ok s" using assms(1) by (simp add: vm_ok_def)
  have pg: "page_ok s" using m by (rule map_okD(2))
  let ?p = "child (leaf s a)" and ?q = "child (leaf s b)"
  have u: "?p \<in> used_pages s" "?q \<in> used_pages s" using map_okD(3) [OF m] assms(2-5) by auto
  have o: "unat (pa_of (leaf s a) a - ?p) < 4096" "unat (pa_of (leaf s b) b - ?q) < 4096"
    using page_offset by (simp_all add: pa_of_def)
  have c: "?p = ?q"
    using page_disjoint [OF used_aligned [OF pg u(1)] used_aligned [OF pg u(2)] o(1)] o(2) assms(6) by simp
  have "same_page a b" using map_okD(5) [OF m assms(2,3,4,5) c] .
  moreover have "take_bit 12 a = take_bit 12 b"
    using assms(6) c by (simp add: pa_of_def take_bit_eq_mask mask_eq_exp_minus_1)
  moreover note bits_ident [of 12 a, symmetric] bits_ident [of 12 b]
  ultimately show ?thesis unfolding same_page_def by (metis (no_types))
qed

lemma quiet_space:
  assumes "quiet s s'" "vmr_freelist_head s' = vmr_freelist_head s" "vmrs s' = vmrs s" "vm_lock s' = vm_lock s"
    "current s' = current s" "mem_size s' = mem_size s"
  shows "vm_ok s' = vm_ok s" "user_can acc s' = user_can acc s" "kernel_can s' = kernel_can s" "promised s' = promised s"
    "free_count s' = free_count s"
  using assms quiet_views [OF assms(1)] quiet_page [OF assms(1)] quiet_ok(2) [OF assms(1)]
  by (auto simp: vm_ok_def user_can_def kernel_can_def promised_def kva2pa_def quiet_def fun_eq_iff)

lemma pmem_space:
  "space_ok (s\<lparr>pmem := m\<rparr>) = space_ok s" "user_can acc (s\<lparr>pmem := m\<rparr>) = user_can acc s"
  "kernel_can (s\<lparr>pmem := m\<rparr>) = kernel_can s" "can_access acc (s\<lparr>pmem := m\<rparr>) = can_access acc s"
  "leaf (s\<lparr>pmem := m\<rparr>) = leaf s"
proof -
  have q: "quiet s (s\<lparr>pmem := m\<rparr>)" by (simp add: quiet_def)
  show u: "user_can acc (s\<lparr>pmem := m\<rparr>) = user_can acc s" and k: "kernel_can (s\<lparr>pmem := m\<rparr>) = kernel_can s"
    and "space_ok (s\<lparr>pmem := m\<rparr>) = space_ok s"
    using quiet_space [OF q] by (simp_all add: space_ok_def backed_def backed_def)
  show "can_access acc (s\<lparr>pmem := m\<rparr>) = can_access acc s" by (simp add: can_access_def u k fun_eq_iff)
  show "leaf (s\<lparr>pmem := m\<rparr>) = leaf s" using quiet_views(4) [OF q] .
qed

text \<open>The physical addresses of visible bytes are all different.\<close>

definition place :: "('h, 'z) pk_st_scheme \<Rightarrow> u64 \<Rightarrow> u64 option" where
  "place s va =
     (if user_va va then if leaf s va AND PTE_V \<noteq> 0 then Some (pa_of (leaf s va) va) else None
      else if kernel_can s va then Some (kva2pa s va) else None)"

lemma place_user_kernel:
  assumes "vm_ok s" "user_va a" "leaf s a AND PTE_V \<noteq> 0" "kernel_can s b"
  shows "pa_of (leaf s a) a \<noteq> kva2pa s b"
proof
  assume e: "pa_of (leaf s a) a = kva2pa s b"
  have m: "map_ok s" using assms(1) by (simp add: vm_ok_def)
  from assms(4) obtain q where q: "q \<in> used_pages s" "unat (kva2pa s b - q) < 4096" "child (leaf s a) \<noteq> q"
    using assms(2,3) unfolding kernel_can_def by blast
  have "unat (pa_of (leaf s a) a - child (leaf s a)) < 4096" using page_offset by (simp add: pa_of_def)
  then have "child (leaf s a) = q"
    using page_disjoint [OF used_aligned [OF map_okD(2) [OF m] map_okD(3) [OF m assms(2,3)]]
        used_aligned [OF map_okD(2) [OF m] q(1)]] q(2) e by simp
  with q(3) show False by simp
qed

lemma place_inj:
  assumes "vm_ok s" "place s a = Some pa" "place s b = Some pa"
  shows "a = b"
  using assms pa_of_inj [OF assms(1), of a b] place_user_kernel [OF assms(1), of a b] place_user_kernel [OF assms(1), of b a]
  by (auto simp: place_def kva2pa_def split: if_splits)

lemma view_place:
  "place s a = Some pa \<Longrightarrow> memory_view s a = Some (pmem s pa)"
  "place s a = None \<Longrightarrow> memory_view (s\<lparr>pmem := m\<rparr>) a = memory_view s a"
  by (auto simp: place_def memory_view_def pmem_space split: if_splits)

lemma view_store:
  assumes "vm_ok s" "place s a = Some pa"
  shows "memory_view (s\<lparr>pmem := (pmem s)(pa := b)\<rparr>) = (memory_view s)(a \<mapsto> b)"
proof
  fix c
  let ?t = "s\<lparr>pmem := (pmem s)(pa := b)\<rparr>"
  have p: "place ?t = place s" by (simp add: place_def pmem_space fun_eq_iff kva2pa_def)
  show "memory_view ?t c = ((memory_view s)(a \<mapsto> b)) c"
  proof (cases "place s c")
    case None
    then show ?thesis using view_place(2) [OF None] assms(2) by auto
  next
    case (Some pc)
    then show ?thesis using view_place(1) [of s c pc] view_place(1) [of ?t c pc] p place_inj [OF assms(1), of c pa a] assms(2)
      by (cases "pc = pa") auto
  qed
qed

lemma access_place:
  assumes "space_ok s" "can_access acc s a" "acc = PROT_READ \<or> acc = PROT_WRITE"
  shows "\<exists>pa s'. kernel_access H out acc a s = Inr (pa, s') \<and> unseen s s' \<and> place s' a = Some pa"
proof (cases "user_can acc s a")
  case True
  from user_access [OF assms(1) True assms(3), of H out] True show ?thesis
    by (auto simp: place_def user_can_def)
next
  case False
  then have k: "kernel_can s a" using assms(2) by (simp add: can_access_def)
  from kernel_buffer_access(1) [OF assms(1) k, of H out acc] kernel_buffer_access(2) [OF assms(1) k] k unseen_refl [OF assms(1)] show ?thesis
    by (auto simp: place_def)
qed

interpretation memory: address_space space_ok can_access memory_view keeps "load_byte H out" "store_byte H out" for H out
proof
  show "\<exists>b s'. load_byte H out a s = Inr (b, s') \<and> memory_view s a = Some b \<and> space_ok s'
      \<and> (\<forall>acc. can_access acc s' = can_access acc s) \<and> memory_view s' = memory_view s \<and> keeps s s'"
    if "space_ok s" "can_access PROT_READ s a" for s :: "('a, 'b) pk_st_scheme" and a
  proof -
    from access_place [OF that, of H out] obtain pa s' where "kernel_access H out PROT_READ a s = Inr (pa, s')"
      "unseen s s'" "place s' a = Some pa" by auto
    then show ?thesis using view_place(1) [of s' a pa] by (auto simp: load_byte_def unseen_def)
  qed
  show "\<exists>s'. store_byte H out a b s = Inr s' \<and> space_ok s' \<and> (\<forall>acc. can_access acc s' = can_access acc s)
      \<and> memory_view s' = (memory_view s)(a \<mapsto> b) \<and> keeps s s'"
    if "space_ok s" "can_access PROT_WRITE s a" for s :: "('a, 'b) pk_st_scheme" and a b
  proof -
    from access_place [OF that, of H out] obtain pa s' where s': "kernel_access H out PROT_WRITE a s = Inr (pa, s')"
      "unseen s s'" "place s' a = Some pa" by auto
    then have "vm_ok s'" by (simp add: unseen_def space_ok_def backed_def)
    from view_store [OF this s'(3), of b] s' show ?thesis
      by (auto simp: store_byte_def unseen_def pmem_space keeps_def)
  qed
qed (simp_all add: keeps_def)

section \<open>Copying across the boundary\<close>

text \<open>What a call leaves when it has changed memory to the view \<open>v\<close> and nothing else that shows.\<close>

definition becomes :: "('h, 'z) pk_st_scheme \<Rightarrow> (u64 \<Rightarrow> u8 option) \<Rightarrow> ('h, 'z) pk_st_scheme \<Rightarrow> bool" where
  "becomes s v s' \<longleftrightarrow> backed s' \<and> (\<forall>acc. can_access acc s' = can_access acc s) \<and> memory_view s' = v \<and> keeps s s'"

lemma sum_space:
  "backed (s\<lparr>sum_bit := b\<rparr>) = backed s" "can_access acc (s\<lparr>sum_bit := b\<rparr>) = can_access acc s"
  "memory_view (s\<lparr>sum_bit := b\<rparr>) = memory_view s"
proof -
  have q: "quiet s (s\<lparr>sum_bit := b\<rparr>)" by (simp add: quiet_def)
  note S = quiet_space [OF q]
  show "backed (s\<lparr>sum_bit := b\<rparr>) = backed s" using S by (simp add: backed_def)
  have u: "user_can acc (s\<lparr>sum_bit := b\<rparr>) = user_can acc s" and k: "kernel_can (s\<lparr>sum_bit := b\<rparr>) = kernel_can s"
    using S by simp_all
  then show "can_access acc (s\<lparr>sum_bit := b\<rparr>) = can_access acc s" by (simp add: can_access_def fun_eq_iff)
  show "memory_view (s\<lparr>sum_bit := b\<rparr>) = memory_view s"
    by (simp add: memory_view_def quiet_views(4) [OF q] k kva2pa_def fun_eq_iff)
qed

lemma with_sum_becomes:
  assumes "\<exists>t. body (s\<lparr>sum_bit := True\<rparr>) = Inr t \<and> space_ok t \<and> (\<forall>acc. can_access acc t = can_access acc (s\<lparr>sum_bit := True\<rparr>))
      \<and> keeps (s\<lparr>sum_bit := True\<rparr>) t \<and> memory_view t = v"
  shows "\<exists>s'. with_sum body s = Inr s' \<and> becomes s v s'"
proof -
  from assms obtain t where t: "body (s\<lparr>sum_bit := True\<rparr>) = Inr t" "space_ok t"
    "\<And>acc. can_access acc t = can_access acc s" "keeps (s\<lparr>sum_bit := True\<rparr>) t" "memory_view t = v"
    by (auto simp: sum_space)
  have "vm_st.more (t\<lparr>sum_bit := sum_bit s\<rparr>) = vm_st.more s"
    using t(4) unfolding keeps_def
    by (cases s rule: pk_st.cases_scheme; cases t rule: pk_st.cases_scheme; simp)
  then have "keeps s (t\<lparr>sum_bit := sum_bit s\<rparr>)" using t(4) by (simp add: keeps_def)
  then have "becomes s v (t\<lparr>sum_bit := sum_bit s\<rparr>)"
    using t by (simp add: becomes_def sum_space space_ok_def)
  then show ?thesis using t(1) by (simp add: with_sum_def)
qed

lemma user_range_check:
  assumes "\<forall>i < unat n. user_va (p + of_nat i)" "0 < n \<or> user_va (p - 1)"
  shows "check_user H p n prot s = Inr s"
proof (cases "n = 0")
  case True
  then show ?thesis using assms(2) user_not_kernel [of "p - 1"] by (simp add: check_user_def is_uva_def not_le)
next
  case False
  then have n: "0 < unat n" by (simp add: unat_gt_0)
  have "user_va p" using assms(1) [rule_format, of 0] n by simp
  then have p: "unat p < 2 ^ 38" by (simp add: user_va_def word_less_nat_alt)
  have "unat p + unat n \<le> 2 ^ 38"
  proof (rule ccontr)
    assume "\<not> unat p + unat n \<le> 2 ^ 38"
    then have lt: "2 ^ 38 - unat p < unat n" using p by linarith
    define x :: u64 where "x = of_nat (2 ^ 38 - unat p)"
    have "2 ^ 38 - unat p < 2 ^ 64" by simp
    then have x: "unat x = 2 ^ 38 - unat p" unfolding x_def by (rule unat_u64_of_nat)
    have px: "unat p + unat x = 2 ^ 38" using x p by linarith
    then have "unat (p + x) = unat p + unat x" by (intro unat_u64_plus) simp
    then have "unat (p + x) = 2 ^ 38" using px by simp
    moreover have "user_va (p + x)" using assms(1) lt unfolding x_def by blast
    ultimately show False by (simp add: user_va_def word_less_nat_alt)
  qed
  then have "unat (p + n) = unat p + unat n" by (intro unat_u64_plus) simp
  then have "\<not> p + n < p" by (simp add: word_less_nat_alt)
  moreover have "is_uva (p + n - 1)"
  proof -
    have "unat n - 1 < unat n" using n by simp
    then have "user_va (p + of_nat (unat n - 1))" using assms(1) by blast
    moreover have "of_nat (unat n - 1) = n - 1" using n by (simp add: of_nat_diff)
    ultimately show ?thesis using user_not_kernel [of "p + n - 1"] by (simp add: is_uva_def add_diff_eq)
  qed
  ultimately show ?thesis by (simp add: check_user_def)
qed

text \<open>User and kernel ranges do not meet.\<close>

lemma kernel_user_apart:
  assumes "\<forall>i < n. user_va (u + of_nat i)" "\<forall>i < n. \<not> user_va (k + of_nat i)" "i < n"
  shows "\<not> unat (u + of_nat i - k) < n" "\<not> unat (k + of_nat i - u) < n"
proof -
  have "u + of_nat i = k + of_nat (unat (u + of_nat i - k))" "k + of_nat i = u + of_nat (unat (k + of_nat i - u))" by simp_all
  then show "\<not> unat (u + of_nat i - k) < n" "\<not> unat (k + of_nat i - u) < n" using assms by metis+
qed

lemma memcpy_to_user_ok:
  assumes "backed s" "0 < n \<or> user_va (u - 1)" "\<forall>i < unat n. user_can PROT_WRITE s (u + of_nat i)"
    and "\<forall>i < unat n. kernel_can s (k + of_nat i)"
  shows "\<exists>s'. memcpy_to_user H out u k n s = Inr s'
    \<and> becomes s (\<lambda>a. if unat (a - u) < unat n then memory_view s (k + (a - u)) else memory_view s a) s'"
proof -
  let ?s = "s\<lparr>sum_bit := True\<rparr>"
  have ok: "space_ok ?s" using assms(1) by (simp add: space_ok_def sum_space)
  have uu: "\<forall>i < unat n. user_va (u + of_nat i)" using assms(3) by (simp add: user_can_def)
  have kk: "\<forall>i < unat n. \<not> user_va (k + of_nat i)" using assms(4) user_not_kernel by (auto simp: kernel_can_def)
  have c: "\<forall>i < unat n. can_access PROT_READ ?s (k + of_nat i) \<and> can_access PROT_WRITE ?s (u + of_nat i)"
    using assms(3,4) by (simp add: sum_space) (simp add: can_access_def)
  have "\<exists>s'. with_sum (copy_bytes H out u k (unat n)) s = Inr s'
      \<and> becomes s (\<lambda>a. if unat (a - u) < unat n then memory_view s (k + (a - u)) else memory_view s a) s'"
    using memory.copy_ok [OF ok unat_u64_lt c, of H out] kernel_user_apart(2) [OF uu kk]
    by (intro with_sum_becomes) (simp add: copy_bytes_def sum_space cong: if_cong)
  then show ?thesis by (simp add: memcpy_to_user_def user_range_check [OF uu assms(2)])
qed

lemma memcpy_from_user_ok:
  assumes "backed s" "0 < n \<or> user_va (u - 1)" "\<forall>i < unat n. user_can PROT_READ s (u + of_nat i)"
    and "\<forall>i < unat n. kernel_can s (k + of_nat i)"
  shows "\<exists>s'. memcpy_from_user H out k u n s = Inr s'
    \<and> becomes s (\<lambda>a. if unat (a - k) < unat n then memory_view s (u + (a - k)) else memory_view s a) s'"
proof -
  let ?s = "s\<lparr>sum_bit := True\<rparr>"
  have ok: "space_ok ?s" using assms(1) by (simp add: space_ok_def sum_space)
  have uu: "\<forall>i < unat n. user_va (u + of_nat i)" using assms(3) by (simp add: user_can_def)
  have kk: "\<forall>i < unat n. \<not> user_va (k + of_nat i)" using assms(4) user_not_kernel by (auto simp: kernel_can_def)
  have c: "\<forall>i < unat n. can_access PROT_READ ?s (u + of_nat i) \<and> can_access PROT_WRITE ?s (k + of_nat i)"
    using assms(3,4) by (simp add: sum_space) (simp add: can_access_def)
  have "\<exists>s'. with_sum (copy_bytes H out k u (unat n)) s = Inr s'
      \<and> becomes s (\<lambda>a. if unat (a - k) < unat n then memory_view s (u + (a - k)) else memory_view s a) s'"
    using memory.copy_ok [OF ok unat_u64_lt c, of H out] kernel_user_apart(1) [OF uu kk]
    by (intro with_sum_becomes) (simp add: copy_bytes_def sum_space cong: if_cong)
  then show ?thesis by (simp add: memcpy_from_user_def user_range_check [OF uu assms(2)])
qed

lemma memset_user_ok:
  assumes "backed s" "0 < n \<or> user_va (u - 1)" "\<forall>i < unat n. user_can PROT_WRITE s (u + of_nat i)"
  shows "\<exists>s'. memset_user H out u b n s = Inr s'
    \<and> becomes s (\<lambda>a. if unat (a - u) < unat n then Some b else memory_view s a) s'"
proof -
  let ?s = "s\<lparr>sum_bit := True\<rparr>"
  have ok: "space_ok ?s" using assms(1) by (simp add: space_ok_def sum_space)
  have uu: "\<forall>i < unat n. user_va (u + of_nat i)" using assms(3) by (simp add: user_can_def)
  have c: "\<forall>i < unat n. can_access PROT_WRITE ?s (u + of_nat i)"
    using assms(3) by (simp add: sum_space) (simp add: can_access_def)
  have "\<exists>s'. with_sum (fill_bytes H out u b (unat n)) s = Inr s'
      \<and> becomes s (\<lambda>a. if unat (a - u) < unat n then Some b else memory_view s a) s'"
    using memory.fill_ok [OF ok unat_u64_lt c, of H out]
    by (intro with_sum_becomes) (simp add: fill_bytes_def sum_space cong: if_cong)
  then show ?thesis by (simp add: memset_user_def user_range_check [OF uu assms(2)])
qed

text \<open>C6. Copying into, out of and filling user memory: on a range that the program may access, with
  every promised page backed by a free one, the routines always return, the user's or the kernel
  buffer's bytes are exactly those of the other range, everything else that the program or
  the kernel can see, its permissions, the files and the registers stay as they are, and no trace is left of the
  page faults taken on the way.\<close>

theorem user_copy_correct:
  assumes "backed s" "0 < n"
    and "\<forall>i < unat n. user_can PROT_READ s (u + of_nat i) \<and> user_can PROT_WRITE s (u + of_nat i)"
    and "\<forall>i < unat n. kernel_can s (k + of_nat i)"
  shows "(\<exists>s'. memcpy_to_user H out u k n s = Inr s'
      \<and> becomes s (\<lambda>a. if unat (a - u) < unat n then memory_view s (k + (a - u)) else memory_view s a) s')
    \<and> (\<exists>s'. memcpy_from_user H out k u n s = Inr s'
      \<and> becomes s (\<lambda>a. if unat (a - k) < unat n then memory_view s (u + (a - k)) else memory_view s a) s')
    \<and> (\<exists>s'. memset_user H out u b n s = Inr s'
      \<and> becomes s (\<lambda>a. if unat (a - u) < unat n then Some b else memory_view s a) s')"
  using assms by (intro conjI memcpy_to_user_ok memcpy_from_user_ok memset_user_ok) auto

section \<open>A kernel with one promised page\<close>

text \<open>An empty address space in which every region grants reads and writes; descriptor 1 is open.\<close>

definition fresh_pk :: "'h \<Rightarrow> 'h pk_st" where
  "fresh_pk h = \<lparr>pmem = \<lambda>_. 0, host = h, fds = (\<lambda>_. None)(1 := Some 0),
     files = (\<lambda>_. \<lparr>kfd = 0, refcnt = 0\<rparr>)(0 := \<lparr>kfd = 1, refcnt = 2\<rparr>),
     first_free_page = 0x80001000, next_free_page = 1, free_pages = 64, page_freelist_depth = 0,
     page_freelist_storage = replicate 64 0, randomize_mapping = 0, ptes = \<lambda>_. 0,
     kva2pa_offset = KVA_START - MEM_START, vmr_freelist_head = 0,
     vmrs = \<lambda>_. blank_vmr\<lparr>vmr_prot := PROT_READ OR PROT_WRITE\<rparr>,
     root_page_table = KVA_START + 0x1000, vm_lock = False, pages_promised = 0, demand_paging = True,
     mem_size = 0x40000000, current = current empty_vm, sum_bit = False, sip_ssip = False, stval = 0,
     readings = \<lambda>_. 0, reads = 0, misa_image = 0\<rparr>"

lemma fresh_pk_ok: "vm_ok (fresh_pk h)" "used_pages (fresh_pk h) = {0x80001000}" "free_count (fresh_pk h) = 63" "leaf (fresh_pk h) va = 0"
  "missing (fresh_pk h) va = 2"
proof -
  have pg: "page_ok (fresh_pk h)" and fc: "free_count (fresh_pk h) = 63" and up: "used_pages (fresh_pk h) = {0x80001000}"
    by (simp_all add: page_ok_def fresh_pk_def freelist_def free_count_def used_pages_def
        bump_pages_def free_page_addr_def lessThan_Suc)
  have tree: "tab1 (fresh_pk h) va = None" "tab0 (fresh_pk h) va = None" "leaf (fresh_pk h) va = 0" for va
    by (simp_all add: tab1_def tab0_def leaf_def leaf_slot_def fresh_pk_def)
  have "root_pa (fresh_pk h) = 0x80001000"
    by (simp add: root_pa_def kva2pa_def fresh_pk_def KVA_START_val MEM_START_def)
  then have "map_ok (fresh_pk h)" by (simp add: map_ok_def pt_ok_def pg up tree)
  then show "vm_ok (fresh_pk h)"
    by (simp add: vm_ok_def) (simp add: fresh_pk_def even_ptr_def blank_vmr_def)
  show "used_pages (fresh_pk h) = {0x80001000}" "free_count (fresh_pk h) = 63" "leaf (fresh_pk h) va = 0" by fact+
  show "missing (fresh_pk h) va = 2" by (simp add: missing_def tree)
qed

lemma one_page_kernel:
  fixes h :: 'h
  obtains s :: "'h pk_st" and k where "backed s" "host s = h" "fds s = fds (fresh_pk h)" "files s = files (fresh_pk h)" "mem_size s = 0x40000000"
    "\<forall>i < 4096. user_can PROT_READ s (0x10000 + of_nat i) \<and> user_can PROT_WRITE s (0x10000 + of_nat i)"
    "\<forall>i < 4096. kernel_can s (k + of_nat i)" "\<forall>a. unat (a - k) < 4096 \<longrightarrow> memory_view s a = Some 0"
    "leaf s 0x10000 AND PTE_V = 0"
proof -
  let ?va = "0x10000 :: u64"
  have va: "user_va ?va" by (simp add: user_va_def)
  have "pt_ok (fresh_pk h)" using fresh_pk_ok(1) [of h] by (simp add: vm_ok_def map_okD(1))
  moreover have "missing (fresh_pk h) ?va \<le> free_count (fresh_pk h)" by (simp add: fresh_pk_ok(3,5))
  ultimately obtain s1 a where w: "grows (fresh_pk h) s1" "leaf_slot s1 ?va = Some a"
    "free_count s1 + missing (fresh_pk h) ?va = free_count (fresh_pk h)"
    using walk_create_ok [OF _ va] by blast
  note G = grows_vm_ok [OF fresh_pk_ok(1) w(1)]
  let ?s2 = "s1\<lparr>ptes := (ptes s1)(a := 2)\<rparr>"
  have "(2 :: u64) AND PTE_V = 0" by (simp add: PTE_V_def)
  then have L: "vm_ok ?s2" "\<And>w. user_va w \<Longrightarrow> leaf ?s2 w = (if same_page ?va w then 2 else leaf s1 w)"
    "free_count ?s2 = free_count s1" "steady s1 ?s2" "vm_rest s1 ?s2"
    using set_leaf_ok [OF G(1) va w(2), of 2] by simp_all
  have "0 < free_count ?s2" using L(3) w(3) by (simp add: fresh_pk_ok(3,5))
  then obtain p s where p: "page_alloc ?s2 = Inr (p, s)" "p \<notin> used_pages ?s2" "p mod PGSIZE = 0" "vm_ok s"
    "used_pages s = insert p (used_pages ?s2)" "Suc (free_count s) = free_count ?s2" "tree_frame ?s2 s" "steady ?s2 s"
    "vm_rest ?s2 s" "\<forall>a. unat (a - p) < 4096 \<longrightarrow> pmem s a = 0" "kept ?s2 s"
    by (rule new_page_vm_ok [OF L(1)])
  have lf: "leaf s w = (if same_page ?va w then 2 else 0)" if "user_va w" for w
    using tree_frame_leaf(2) [OF p(7) that] L(2) [OF that] w(1) that by (simp add: grows_def fresh_pk_ok(4))
  have st: "steady (fresh_pk h) s" using G(2) L(4) p(8) steady_trans by blast
  have regions: "vmrs s = vmrs (fresh_pk h)" using G(3) L(5) p(9) by (simp add: vm_rest_def)
  have "promised s \<subseteq> {drop_bit 12 ?va}"
    unfolding promised_def using lf by (auto simp: same_page_def split: if_splits)
  then have "card (promised s) \<le> card {drop_bit 12 ?va}" by (intro card_mono) auto
  then have "card (promised s) \<le> 1" by simp
  then have b: "backed s"
    using p(4,6) L(3) w(3) [unfolded fresh_pk_ok(3,5)] st by (simp add: backed_def steady_def) (simp add: fresh_pk_def)
  have u: "user_can acc s (?va + of_nat i)" if "i < 4096" "acc = PROT_READ \<or> acc = PROT_WRITE" for i acc
  proof -
    have i: "unat (of_nat i :: u64) = i" using that(1) by (intro unat_u64_of_nat) simp
    then have x: "unat (?va + of_nat i) = 0x10000 + i" using that(1) by (subst unat_u64_plus) simp_all
    then have v: "user_va (?va + of_nat i)" using that(1) by (simp add: user_va_def word_less_nat_alt)
    have "(0x10000 + i) div 4096 = 16" using that(1) by simp
    then have "same_page ?va (?va + of_nat i)" using x by (simp add: same_page_div)
    then show ?thesis using v x that lf [OF v] regions st
      by (auto simp: user_can_def steady_def fresh_pk_def empty_vm_def PTE_V_def blank_vmr_def word_less_nat_alt
          hw_grants_def pte_create_def prot_to_type_def pte_bits PROT_READ_def PROT_WRITE_def PROT_EXEC_def)
  qed
  have pp: "page_ok s" "p \<in> used_pages s" using p(4,5) by (simp_all add: vm_ok_def map_okD(2))
  have range: "0x80001000 \<le> unat p" "unat p + 4096 \<le> 0x80001000 + 4096 * 64"
    using used_page_props(3,4) [OF pp] st by (simp_all add: steady_def fresh_pk_def)
  let ?k = "p + (KVA_START - MEM_START)"
  have kd: "kernel_can s a \<and> kva2pa s a = p + (a - ?k)" if "unat (a - ?k) < 4096" for a
  proof -
    have off: "kva2pa_offset s = KVA_START - MEM_START" using p(4) by (simp add: vm_ok_def)
    then have e: "kva2pa s a = p + (a - ?k)" by (simp add: kva2pa_def)
    have pa: "unat (p + (a - ?k)) = unat p + unat (a - ?k)" using aligned_plus [OF p(3) that] .
    have m: "unat (p + (a - ?k) - MEM_START) = unat p + unat (a - ?k) - 0x80000000"
      using pa range that by (subst unat_sub) (simp_all add: MEM_START_def word_le_nat_alt)
    have ak: "a = KVA_START + (p + (a - ?k) - MEM_START)" by simp
    have "unat a = unat KVA_START + (unat p + unat (a - ?k) - 0x80000000)"
      by (subst ak, subst unat_u64_plus) (use m range that in \<open>simp_all add: KVA_START_val\<close>)
    then have ge: "KVA_START \<le> a" by (simp add: word_le_nat_alt)
    have "a - KVA_START = p + (a - ?k) - MEM_START" by simp
    then have ms: "a - KVA_START < mem_size s"
      using m range that st by (simp add: word_less_nat_alt steady_def fresh_pk_def)
    have "map_ok ?s2" using L(1) by (simp add: vm_ok_def)
    from table_pages_used [OF map_okD(1) [OF this]] have "p \<notin> table_pages ?s2" using p(2) by (rule contra_subsetD)
    then have "p \<notin> table_pages s" using p(11) by (simp add: kept_def)
    moreover have "child (leaf s w) \<noteq> p" if "user_va w" "leaf s w AND PTE_V \<noteq> 0" for w
      using lf [OF that(1)] that(2) by (auto simp: PTE_V_def split: if_splits)
    moreover have "unat (kva2pa s a - p) < 4096" unfolding e using that by (simp only: add_diff_cancel_left')
    ultimately have "kernel_can s a" unfolding kernel_can_def using ge ms pp(2) by blast
    with e show ?thesis by simp
  qed
  show ?thesis
  proof (rule that [of s ?k])
    show "\<forall>i < 4096. kernel_can s (?k + of_nat i)"
    proof (intro allI impI)
      fix i :: nat
      assume i: "i < 4096"
      then have "unat (of_nat i :: u64) = i" by (intro unat_u64_of_nat) simp
      then show "kernel_can s (?k + of_nat i)" using kd [of "?k + of_nat i"] i by simp
    qed
    show "\<forall>a. unat (a - ?k) < 4096 \<longrightarrow> memory_view s a = Some 0"
    proof (intro allI impI)
      fix a
      assume a: "unat (a - ?k) < 4096"
      have "\<not> user_va a" using kd [OF a] user_not_kernel [of a] by (auto simp: kernel_can_def)
      moreover have "pmem s (p + (a - ?k)) = 0" using p(10) a by (simp only: add_diff_cancel_left')
      ultimately show "memory_view s a = Some 0" using conjunct1 [OF kd [OF a]] conjunct2 [OF kd [OF a]]
        by (simp only: memory_view_def if_False if_True)
    qed
    show "fds s = fds (fresh_pk h)" "files s = files (fresh_pk h)"
      using w(1) p(11) by (simp_all add: grows_def kept_def)
    show "host s = h" using w(1) p(11) by (simp add: grows_def kept_def fresh_pk_def)
    show "mem_size s = 0x40000000" using st by (simp add: steady_def fresh_pk_def)
    show "leaf s ?va AND PTE_V = 0" using lf [OF va] by (simp add: same_page_def PTE_V_def)
  qed (use b u in auto)
qed

lemma user_copy_correct_witness:
  "\<exists>s s' :: unit pk_st. \<exists>k. leaf s 0x10000 AND PTE_V = 0 \<and> memset_user quiet_host 0 0x10001 7 4 s = Inr s'
    \<and> memory_view s' 0x10004 = Some 7 \<and> memory_view s' 0x10005 = memory_view s 0x10005
    \<and> (\<exists>s'. memcpy_from_user quiet_host 0 k 0x10001 4 s = Inr s' \<and> memory_view s' k = memory_view s 0x10001)"
proof -
  obtain s :: "unit pk_st" and k where s: "backed s"
    "\<forall>i < 4096. user_can PROT_READ s (0x10000 + of_nat i) \<and> user_can PROT_WRITE s (0x10000 + of_nat i)"
    "\<forall>i < 4096. kernel_can s (k + of_nat i)" "leaf s 0x10000 AND PTE_V = 0" by (rule one_page_kernel [where h = "()"])
  have u: "user_can PROT_READ s (0x10001 + of_nat i) \<and> user_can PROT_WRITE s (0x10001 + of_nat i)" if "i < 4" for i :: nat
    using s(2) [rule_format, of "Suc i"] that by (simp add: add.assoc [symmetric])
  from user_copy_correct [OF s(1), of 4 "0x10001" k quiet_host 0 7] u s(3)
  obtain s1 s2 where "memset_user quiet_host 0 0x10001 7 4 s = Inr s1"
    "becomes s (\<lambda>a. if unat (a - 0x10001) < 4 then Some 7 else memory_view s a) s1"
    "memcpy_from_user quiet_host 0 k 0x10001 4 s = Inr s2"
    "becomes s (\<lambda>a. if unat (a - k) < 4 then memory_view s (0x10001 + (a - k)) else memory_view s a) s2" by auto
  then show ?thesis using s(4)
    by (intro exI [of _ s] exI [of _ s1] exI [of _ k]) (simp add: becomes_def)
qed

end
