(* ===== verification/PK_FileMap.thy ===== *)
theory PK_FileMap
  imports PK_UserMem PK_Demand
begin

text \<open>
  Page faults on file mappings.  The host is a parameter; what the kernel relies on is \<open>file_gives\<close> (a
  positioned read of an open file returns the bytes that the file has there) and \<open>close_quiet\<close> (closing a
  file writes no memory).
\<close>

section \<open>The host's file\<close>

definition file_gives :: "'h htif \<Rightarrow> 'h \<Rightarrow> u32 \<Rightarrow> u8 list \<Rightarrow> bool" where
  "file_gives H h k data \<longleftrightarrow>
     (\<forall>pa n off m. H [SYS_pread, scast k, pa, n, off, 0, 0, 0] m h
        = (let bs = take (unat n) (drop (unat off) data) in (of_nat (length bs), write_bytes pa bs m, h)))"

definition close_quiet :: "'h htif \<Rightarrow> bool" where
  "close_quiet H \<longleftrightarrow> (\<forall>k m h. fst (snd (H [SYS_close, k, 0, 0, 0, 0, 0, 0] m h)) = m)"

definition file_part :: "vmr_t \<Rightarrow> u8 list \<Rightarrow> u64 \<Rightarrow> u8 list" where
  "file_part v data b =
     take (unat (C_MIN PGSIZE (vmr_length v - (b - vmr_addr v)))) (drop (unat (b - vmr_addr v + vmr_offset v)) data)"

definition padded :: "u8 list \<Rightarrow> nat \<Rightarrow> u8" where
  "padded bs i = (if i < length bs then bs ! i else 0)"

lemma file_part_length: "length (file_part v data b) \<le> 4096"
proof -
  have "unat (C_MIN PGSIZE x) \<le> 4096" for x by (simp add: C_MIN_def word_less_nat_alt)
  then show ?thesis by (simp add: file_part_def min.coboundedI2)
qed

lemma kernel_alias: "kva2pa t (pa2kva t p) = p"
  by (simp add: kva2pa_def pa2kva_def)

lemma sint_small: "n \<le> 4096 \<Longrightarrow> sint (of_nat n :: u64) = int n"
  by (simp add: signed_of_nat signed_take_bit_int_eq_self)

text \<open>The page gets the part of the file, padded with zeros; an empty part fails the assertion.\<close>

lemma fill_from_file_step:
  fixes t :: "('h, 'z) vm_st_scheme"
  assumes "vm_ok t" "p \<in> used_pages t" "MEM_START \<le> first_free_page t"
    and "file_gives H (host t) (kfd (files t f)) data"
    and zero: "\<forall>a. unat (a - p) < 4096 \<longrightarrow> pmem t a = 0"
  shows "fill_from_file H v f b p t =
    (if file_part v data b = [] then Inl (Assert ''ret > 0'')
     else Inr (t\<lparr>pmem := with_page p (padded (file_part v data b)) (pmem t)\<rparr>))"
proof -
  let ?bs = "file_part v data b"
  have r: "file_pread H f (kva2pa t (pa2kva t p)) (C_MIN PGSIZE (vmr_length v - (b - vmr_addr v)))
      (b - vmr_addr v + vmr_offset v) t = (of_nat (length ?bs), t\<lparr>pmem := write_bytes p ?bs (pmem t), host := host t\<rparr>)"
    using assms(4) by (simp add: file_pread_def frontend_syscall_def file_gives_def Let_def file_part_def kernel_alias)
  have same: "t\<lparr>pmem := m, host := host t\<rparr> = t\<lparr>pmem := m\<rparr>" for m by (cases t) simp
  have n: "length ?bs \<le> 4096" by (rule file_part_length)
  have w: "unat (of_nat (length ?bs) :: u64) = length ?bs" using n by (intro unat_u64_of_nat) simp
  have m: "write_bytes p ?bs (pmem t) = with_page p (padded ?bs) (pmem t)"
    using zero n by (auto simp: write_bytes_def with_page_def padded_def Let_def)
  have z: "mem_fill (write_bytes p ?bs (pmem t)) (p + of_nat (length ?bs)) 0 (unat (PGSIZE - of_nat (length ?bs)))
      = with_page p (padded ?bs) (pmem t)" if "length ?bs < 4096"
  proof
    fix a
    have l: "unat (PGSIZE - of_nat (length ?bs)) = 4096 - length ?bs"
      using that w by (subst unat_sub) (simp_all add: word_le_nat_alt)
    have "write_bytes p ?bs (pmem t) a = 0" if c: "unat (a - (p + of_nat (length ?bs))) < 4096 - length ?bs"
    proof -
      have "a - p = (a - (p + of_nat (length ?bs))) + of_nat (length ?bs)" by simp
      then have "unat (a - p) = unat (a - (p + of_nat (length ?bs))) + length ?bs"
        using unat_u64_plus [of "a - (p + of_nat (length ?bs))" "of_nat (length ?bs)"] c w n by simp
      then show ?thesis using c zero by (simp add: write_bytes_def)
    qed
    then show "mem_fill (write_bytes p ?bs (pmem t)) (p + of_nat (length ?bs)) 0 (unat (PGSIZE - of_nat (length ?bs))) a
      = with_page p (padded ?bs) (pmem t) a"
      using m by (simp add: mem_fill_def l)
  qed
  show ?thesis
    unfolding fill_from_file_def Let_def r
    using sint_small [OF n] z m n by (simp add: kassert_def same)
qed

text \<open>What dropping the last reference of a region does to its file.\<close>

definition dropped :: "nat \<Rightarrow> (nat \<Rightarrow> file_t) \<Rightarrow> nat \<Rightarrow> file_t" where
  "dropped f fs = fs(f := (fs f)\<lparr>refcnt := if refcnt (fs f) = 2 then 0 else refcnt (fs f) - 1\<rparr>)"

lemma file_decref_files:
  "files (file_decref H f s) = dropped f (files s)" "fds (file_decref H f s) = fds s" "vmrs (file_decref H f s) = vmrs s"
  "close_quiet H \<Longrightarrow> pmem (file_decref H f s) = pmem s"
  by (auto simp: file_decref_def dropped_def set_refcnt_def frontend_syscall_def Let_def close_quiet_def split: prod.splits)
    (metis fst_conv snd_conv)

lemma vmr_decref_effect:
  assumes "vmr_file (vmrs s v) = Some f"
  shows "close_quiet H \<Longrightarrow> pmem (vmr_decref H v d s) = pmem s"
    "files (vmr_decref H v d s) = (if vmr_refcnt (vmrs s v) = d then dropped f (files s) else files s)"
    "fds (vmr_decref H v d s) = fds s"
    "vmr_refcnt (vmrs (vmr_decref H v d s) v) = vmr_refcnt (vmrs s v) - d"
    "vmr_refcnt (vmrs s v) \<noteq> d \<Longrightarrow> host (vmr_decref H v d s) = host s"
  using assms by (simp_all add: vmr_decref_def upd_vmr_def Let_def file_decref_files)

section \<open>Faults on file mappings\<close>

lemma file_demand:
  fixes s :: "('h, 'z) vm_st_scheme"
  assumes "vm_ok s" "user_va b" "leaf s b \<noteq> 0" "leaf s b AND PTE_V = 0" "0 < free_count s"
    and f: "vmr_file (vmrs s (leaf s b)) = Some f" and m: "MEM_START \<le> first_free_page s"
    and h: "file_gives H (host s) (kfd (files s f)) data" "close_quiet H"
  defines "bs \<equiv> file_part (vmrs s (leaf s b)) data b"
  shows "bs = [] \<Longrightarrow> demand_page H b (walk b s) s = Inl (Assert ''ret > 0'')"
    and "bs \<noteq> [] \<Longrightarrow> \<exists>p u e s'. demand_page H b (walk b s) s = Inr s' \<and> brought_in b s p s'
      \<and> (\<forall>a. unat (a - p) < 4096 \<longrightarrow> pmem s' a = padded bs (unat (a - p)))
      \<and> (\<forall>q \<in> used_pages s. \<forall>a. unat (a - q) < 4096 \<longrightarrow> pmem s' a = pmem s a)
      \<and> files u = files s \<and> fds u = fds s \<and> host u = host s \<and> vmrs u = vmrs s
      \<and> s' = (vmr_decref H (leaf s b) 1 u)\<lparr>ptes := e\<rparr>"
proof -
  have fill: "fill_step H (vmrs s (leaf s b)) b p t = (if bs = [] then Inl (Assert ''ret > 0'')
      else Inr (t\<lparr>pmem := with_page p (padded bs) (pmem t)\<rparr>))" if "frame_mapped b a s p t" for p a and t :: "('h, 'z) vm_st_scheme"
  proof -
    have t: "vm_ok t" "p \<in> used_pages t" "first_free_page t = first_free_page s" "files t = files s" "host t = host s"
      "\<forall>a. unat (a - p) < 4096 \<longrightarrow> pmem t a = 0"
      using that by (simp_all add: frame_mapped_def steady_def)
    show ?thesis
      unfolding fill_step_def f bs_def using fill_from_file_step [OF t(1,2) _ _ t(6)] m h(1) t(3-5) by simp
  qed
  have d: "pmem (vmr_decref H (leaf s b) 1 u) = pmem u" if "vmrs u = vmrs s" for u :: "('h, 'z) vm_st_scheme"
    using vmr_decref_effect(1) [of u "leaf s b" f H 1] h(2) f that by simp
  show "demand_page H b (walk b s) s = Inl (Assert ''ret > 0'')" if "bs = []"
  proof -
    obtain p a t where T: "frame_mapped b a s p t"
      "demand_page H b (walk b s) s = bindE (fill_step H (vmrs s (leaf s b)) b p t) (\<lambda>t.
       let d = vmr_decref H (leaf s b) 1 t
       in Inr (wr_pte (pa2kva s a) (pte_create (p div PGSIZE) (prot_to_type (vmr_prot (vmrs d (leaf s b))) True)) d))"
      by (rule demand_page_frame [OF assms(1-3,5)])
    show ?thesis unfolding T(2) fill [OF T(1)] using that by simp
  qed
  assume ne: "bs \<noteq> []"
  have f': "fill_step H (vmrs s (leaf s b)) b p t = Inr (t\<lparr>pmem := with_page p (padded bs) (pmem t)\<rparr>)"
    if "frame_mapped b a s p t" for p a and t :: "('h, 'z) vm_st_scheme" using fill [OF that] ne by simp
  obtain p u e s' where D: "demand_page H b (walk b s) s = Inr s'" "brought_in b s p s'"
    "\<forall>a. unat (a - p) < 4096 \<longrightarrow> pmem s' a = padded bs (unat (a - p))"
    "\<forall>q \<in> used_pages s. \<forall>a. unat (a - q) < 4096 \<longrightarrow> pmem s' a = pmem s a"
    "files u = files s" "fds u = fds s" "host u = host s" "vmrs u = vmrs s"
    "s' = (vmr_decref H (leaf s b) 1 u)\<lparr>ptes := e\<rparr>"
    by (rule demand_page_ok [where page = "padded bs" and H = H, OF assms(1-5)]) (erule f', erule d, rule that)
  show "\<exists>p u e s'. demand_page H b (walk b s) s = Inr s' \<and> brought_in b s p s'
      \<and> (\<forall>a. unat (a - p) < 4096 \<longrightarrow> pmem s' a = padded bs (unat (a - p)))
      \<and> (\<forall>q \<in> used_pages s. \<forall>a. unat (a - q) < 4096 \<longrightarrow> pmem s' a = pmem s a)
      \<and> files u = files s \<and> fds u = fds s \<and> host u = host s \<and> vmrs u = vmrs s
      \<and> s' = (vmr_decref H (leaf s b) 1 u)\<lparr>ptes := e\<rparr>"
    by (rule exI [of _ p], rule exI [of _ u], rule exI [of _ e], rule exI [of _ s']) (intro conjI D)
qed

text \<open>C4. A page fault on a page promised by a file mapping brings in one fresh page that holds exactly the
  part of the file the region maps there, padded with zeros past the end of the region or of the file; the entry
  of that page alone changes, to the protection of the region, and no other page's memory does.  The region
  loses one promised page, and its file one reference when it was the last.  A page that lies wholly past
  the end of the file fails the kernel's assertion.\<close>

theorem file_page_fault_correct:
  fixes s :: "('h, 'z) vm_st_scheme"
  assumes "vm_ok s" "\<not> vm_lock s" "user_va va" "leaf s va \<noteq> 0" "leaf s va AND PTE_V = 0" "0 < free_count s"
    and "prot = PROT_READ \<or> prot = PROT_WRITE \<or> prot = PROT_EXEC"
    and "valid_user_range s (push_bit 12 (drop_bit 12 va)) 1" "MEM_START \<le> first_free_page s"
    and "vmr_file (vmrs s (leaf s va)) = Some f"
    and "file_gives H (host s) (kfd (files s f)) data" "close_quiet H"
  shows "let v = leaf s va; r = vmrs s v; bs = file_part r data (push_bit 12 (drop_bit 12 va)) in
    if bs = [] then handle_page_fault H va prot s = Inl (Assert ''ret > 0'')
    else \<exists>p s'. handle_page_fault H va prot s =
        Inr (if vmr_prot r AND prot \<noteq> 0 \<or> prot = PROT_READ \<and> vmr_prot r AND PROT_WRITE \<noteq> 0 then 0 else -1, s')
      \<and> vm_ok s' \<and> p \<notin> used_pages s \<and> p mod PGSIZE = 0
      \<and> (\<forall>w. user_va w \<longrightarrow> leaf s' w =
            (if same_page va w then pte_create (p div PGSIZE) (prot_to_type (vmr_prot r) True) else leaf s w))
      \<and> (\<forall>i < 4096. pmem s' (p + of_nat i) = (if i < length bs then bs ! i else 0))
      \<and> (\<forall>q \<in> used_pages s. \<forall>a. unat (a - q) < 4096 \<longrightarrow> pmem s' a = pmem s a)
      \<and> Suc (free_count s') = free_count s \<and> pages_promised s' = pages_promised s - 1
      \<and> vmr_refcnt (vmrs s' v) = vmr_refcnt r - 1 \<and> fds s' = fds s
      \<and> files s' = (if vmr_refcnt r = 1 then dropped f (files s) else files s)
      \<and> (vmr_refcnt r \<noteq> 1 \<longrightarrow> host s' = host s)"
proof -
  let ?b = "push_bit 12 (drop_bit 12 va)" and ?t = "s\<lparr>vm_lock := True\<rparr>"
  let ?bs = "file_part (vmrs s (leaf s va)) data ?b"
  note P = promised_fault [OF assms(1-5,8)]
  have lb: "leaf ?t ?b = leaf s va" using P(6) same_page_leaf [OF P(4) assms(3) P(5)] by simp
  have pre: "leaf ?t ?b \<noteq> 0" "leaf ?t ?b AND PTE_V = 0" "0 < free_count ?t" "vmr_file (vmrs ?t (leaf ?t ?b)) = Some f"
    "MEM_START \<le> first_free_page ?t" "file_gives H (host ?t) (kfd (files ?t f)) data"
    using assms(4-6,9-11) lb quiet_page(3) [OF P(3)] by simp_all
  have same: "vmrs ?t = vmrs s" "files ?t = files s" "fds ?t = fds s" "host ?t = host s" by simp_all
  note D = file_demand [OF P(2,4) pre assms(12), unfolded lb same]
  show ?thesis
  proof (cases "?bs = []")
    case True
    then show ?thesis using D(1) P(1) [of H prot] by simp
  next
    case False
    from D(2) [OF False] obtain p w e u where u: "demand_page H ?b (walk ?b ?t) ?t = Inr u" "brought_in ?b ?t p u"
      "\<forall>a. unat (a - p) < 4096 \<longrightarrow> pmem u a = padded ?bs (unat (a - p))"
      "\<forall>q \<in> used_pages ?t. \<forall>a. unat (a - q) < 4096 \<longrightarrow> pmem u a = pmem ?t a"
      and w: "files w = files s" "fds w = fds s" "host w = host s" "vmrs w = vmrs s"
      "u = (vmr_decref H (leaf s va) 1 w)\<lparr>ptes := e\<rparr>" by (elim exE conjE)
    let ?u = "u\<lparr>vm_lock := False\<rparr>"
    have q: "quiet u ?u" by (simp add: quiet_def)
    note B = u(2) [unfolded brought_in_def Let_def lb]
    have ok: "vm_ok ?u" using vm_ok_quiet [OF _ q] B by (simp add: vm_ok_def)
    have "vmr_file (vmrs w (leaf s va)) = Some f" using w(4) assms(10) by simp
    note E = vmr_decref_effect [OF this, where H = H and d = 1]
    have sp: "same_page ?b x = same_page va x" for x using P(5) by (auto simp: same_page_def)
    have mem: "pmem u (p + of_nat i) = padded ?bs i" if "i < 4096" for i
    proof -
      have "unat (of_nat i :: u64) = i" using that by (intro unat_u64_of_nat) simp
      then show ?thesis using u(3) that by simp
    qed
    have r: "handle_page_fault H va prot s = Inr (if vmr_prot (vmrs s (leaf s va)) AND prot \<noteq> 0
        \<or> prot = PROT_READ \<and> vmr_prot (vmrs s (leaf s va)) AND PROT_WRITE \<noteq> 0 then 0 else -1, ?u)"
      using P(1) [of H prot] u(1) B perms_allow_created [OF assms(7)] by simp
    have "files ?u = (if vmr_refcnt (vmrs s (leaf s va)) = 1 then dropped f (files s) else files s)"
      "vmr_refcnt (vmrs ?u (leaf s va)) = vmr_refcnt (vmrs s (leaf s va)) - 1" "fds ?u = fds s"
      "vmr_refcnt (vmrs s (leaf s va)) \<noteq> 1 \<longrightarrow> host ?u = host s"
      unfolding w(5) using E w(1-4) by simp_all
    moreover have "\<forall>i < 4096. pmem ?u (p + of_nat i) = (if i < length ?bs then ?bs ! i else 0)"
      using mem by (simp add: padded_def)
    moreover have "leaf ?u x = (if same_page va x then pte_create (p div PGSIZE) (prot_to_type (vmr_prot (vmrs s (leaf s va))) True)
        else leaf s x)" if "user_va x" for x
      using B that by (simp add: quiet_views(4) [OF q] P(6) sp)
    moreover have "p \<notin> used_pages s" "p mod PGSIZE = 0" "\<forall>q \<in> used_pages s. \<forall>a. unat (a - q) < 4096 \<longrightarrow> pmem ?u a = pmem s a"
      "Suc (free_count ?u) = free_count s" "pages_promised ?u = pages_promised s - 1"
      using B u(4) by (simp_all add: quiet_page [OF q] quiet_page [OF P(3)])
    ultimately show ?thesis
      unfolding Let_def if_not_P [OF False] using r ok by (intro exI [of _ p] exI [of _ ?u]) simp
  qed
qed

text \<open>A kernel whose only page, at 0x10000, is the start of a file of three bytes.\<close>

fun three_bytes_host :: "unit htif" where
  "three_bytes_host (c # k # pa # n # off # _) m h =
     (if c = SYS_pread then let bs = take (unat n) (drop (unat off) [1, 2, 3]) in (of_nat (length bs), write_bytes pa bs m, h)
      else (0, m, h))"
| "three_bytes_host _ m h = (0, m, h)"

lemma three_bytes: "file_gives three_bytes_host h k [1, 2, 3]" "close_quiet three_bytes_host"
  by (simp_all add: file_gives_def close_quiet_def Let_def SYS_pread_def SYS_close_def)

definition file_pk :: "unit pk_st" where
  "file_pk = (fresh_pk ())\<lparr>vmrs := \<lambda>_. blank_vmr\<lparr>vmr_addr := 0x10000, vmr_length := 0x1000, vmr_file := Some 0,
     vmr_prot := PROT_READ, vmr_refcnt := 1\<rparr>\<rparr>"

lemma file_pk_ok: "vm_ok file_pk" "free_count file_pk = 63" "leaf file_pk va = 0" "missing file_pk va = 2"
proof -
  have q: "quiet (fresh_pk ()) file_pk" by (simp add: quiet_def file_pk_def)
  show "free_count file_pk = 63" "leaf file_pk va = 0" using fresh_pk_ok(3,4) [of "()"] by (simp_all add: quiet_page [OF q] quiet_views [OF q])
  show "missing file_pk va = 2" using fresh_pk_ok(5) [of "()" va] unfolding missing_def quiet_views [OF q] .
  show "vm_ok file_pk"
    using fresh_pk_ok(1) [of "()"] quiet_ok(2) [OF q]
    by (simp add: vm_ok_def) (simp add: file_pk_def even_ptr_def blank_vmr_def)
qed

lemma file_page_kernel:
  obtains s :: "unit pk_st" where "vm_ok s" "\<not> vm_lock s" "leaf s 0x10004 = 2" "0 < free_count s"
    "MEM_START \<le> first_free_page s" "mmap_max (current s) = mmap_max (current empty_vm)" "vmrs s = vmrs file_pk" "files s = files file_pk"
proof -
  let ?va = "0x10004 :: u64"
  have va: "user_va ?va" by (simp add: user_va_def)
  have "pt_ok file_pk" using file_pk_ok(1) by (simp add: vm_ok_def map_okD(1))
  moreover have "missing file_pk ?va \<le> free_count file_pk" by (simp add: file_pk_ok(2,4))
  ultimately obtain t a where w: "grows file_pk t" "leaf_slot t ?va = Some a"
    "free_count t + missing file_pk ?va = free_count file_pk"
    using walk_create_ok [OF _ va] by blast
  note G = grows_vm_ok [OF file_pk_ok(1) w(1)]
  let ?s = "t\<lparr>ptes := (ptes t)(a := 2)\<rparr>"
  have "(2 :: u64) AND PTE_V = 0" by (simp add: PTE_V_def)
  then have L: "vm_ok ?s" "\<And>w. user_va w \<Longrightarrow> leaf ?s w = (if same_page ?va w then 2 else leaf t w)"
    "free_count ?s = free_count t" "steady t ?s" "vm_rest t ?s"
    using set_leaf_ok [OF G(1) va w(2), of 2] by simp_all
  have st: "steady file_pk ?s" using G(2) L(4) by (rule steady_trans)
  show thesis
  proof (rule that [of ?s])
    show "leaf ?s ?va = 2" using L(2) [OF va] by (simp add: same_page_def)
    show "0 < free_count ?s" using L(3) w(3) by (simp add: file_pk_ok(2,4))
    show "\<not> vm_lock ?s" "MEM_START \<le> first_free_page ?s" "mmap_max (current ?s) = mmap_max (current empty_vm)"
      using st by (simp_all add: steady_def file_pk_def fresh_pk_def MEM_START_def)
    show "vmrs ?s = vmrs file_pk" using G(3) L(5) by (simp add: vm_rest_def)
    show "files ?s = files file_pk" using w(1) by (simp add: grows_def)
  qed (rule L(1))
qed

lemma file_page_fault_correct_witness:
  "\<exists>s s' :: unit pk_st. \<exists>p. leaf s 0x10004 AND PTE_V = 0 \<and> handle_page_fault three_bytes_host 0x10004 PROT_READ s = Inr (0, s')
    \<and> leaf s' 0x10004 AND PTE_V \<noteq> 0 \<and> pmem s' (p + 1) = 2 \<and> pmem s' (p + 3) = 0 \<and> refcnt (files s' 0) = 0"
proof -
  obtain s :: "unit pk_st" where s: "vm_ok s" "\<not> vm_lock s" "leaf s 0x10004 = 2" "0 < free_count s"
    "MEM_START \<le> first_free_page s" "mmap_max (current s) = mmap_max (current empty_vm)" "vmrs s = vmrs file_pk" "files s = files file_pk"
    by (rule file_page_kernel)
  have va: "user_va 0x10004" by (simp add: user_va_def)
  have b: "push_bit 12 (drop_bit 12 (0x10004 :: u64)) = 0x10000" by simp
  have bs: "file_part (vmrs s (leaf s 0x10004)) [1, 2, 3] 0x10000 = [1, 2, 3]"
    using s(3,7) by (simp add: file_part_def file_pk_def blank_vmr_def C_MIN_def)
  have r: "valid_user_range s (push_bit 12 (drop_bit 12 0x10004)) 1" using s(6) by (simp add: valid_user_range_def empty_vm_def)
  have c: "leaf s 0x10004 \<noteq> 0" "leaf s 0x10004 AND PTE_V = 0" "vmr_file (vmrs s (leaf s 0x10004)) = Some 0"
    using s(3,7) by (simp_all add: PTE_V_def file_pk_def blank_vmr_def)
  have "PROT_READ = PROT_READ \<or> PROT_READ = PROT_WRITE \<or> PROT_READ = PROT_EXEC" by simp
  note F = file_page_fault_correct [OF s(1,2) va c(1,2) s(4) this r s(5) c(3) three_bytes, unfolded Let_def b bs]
  then obtain p s' where p: "handle_page_fault three_bytes_host 0x10004 PROT_READ s =
        Inr (if vmr_prot (vmrs s (leaf s 0x10004)) AND PROT_READ \<noteq> 0
          \<or> PROT_READ = PROT_READ \<and> vmr_prot (vmrs s (leaf s 0x10004)) AND PROT_WRITE \<noteq> 0 then 0 else -1, s')" "p mod PGSIZE = 0"
    "\<forall>w. user_va w \<longrightarrow> leaf s' w = (if same_page 0x10004 w
       then pte_create (p div PGSIZE) (prot_to_type (vmr_prot (vmrs s (leaf s 0x10004))) True) else leaf s w)"
    "\<forall>i < 4096. pmem s' (p + of_nat i) = (if i < length [1, 2, 3 :: u8] then [1, 2, 3] ! i else 0)"
    "files s' = (if vmr_refcnt (vmrs s (leaf s 0x10004)) = 1 then dropped 0 (files s) else files s)"
    unfolding if_not_P [OF not_Cons_self2] by (simp only: list.distinct if_False) (elim exE conjE, rule that; assumption)
  have "vmr_prot (vmrs s (leaf s 0x10004)) = PROT_READ" "vmr_refcnt (vmrs s (leaf s 0x10004)) = 1"
    using s(7) by (simp_all add: file_pk_def blank_vmr_def)
  with p have p: "handle_page_fault three_bytes_host 0x10004 PROT_READ s = Inr (0, s')" "p mod PGSIZE = 0"
    "leaf s' 0x10004 = pte_create (p div PGSIZE) (prot_to_type PROT_READ True)"
    "\<forall>i < 4096. pmem s' (p + of_nat i) = (if i < length [1, 2, 3 :: u8] then [1, 2, 3] ! i else 0)" "files s' = dropped 0 (files s)"
    using va by (simp_all add: same_page_def PROT_READ_def)
  have "pmem s' (p + 1) = 2" "pmem s' (p + 3) = 0" using p(4) [rule_format, of 1] p(4) [rule_format, of 3] by simp_all
  moreover have "refcnt (files s' 0) = 0" using p(5) s(8) by (simp add: dropped_def file_pk_def fresh_pk_def)
  ultimately show ?thesis using p(1,3) c(2) user_pte(2) [OF p(2)] by (intro exI [of _ s] exI [of _ s'] exI [of _ p]) simp
qed

end
