(* ===== verification/PK_VmInit.thy ===== *)
theory PK_VmInit
  imports PK_Account PK_UserMem
begin

text \<open>
  What \<^verbatim>\<open>pk_vm_init\<close> sets up: the kernel half of the page table, an empty user half, and the invariant
  of the address space.
\<close>

section \<open>Indices of the kernel half\<close>

lemma unat_pt_idx: "unat (pt_idx va l) = unat va div 2 ^ (9 * l + 12) mod 512"
  unfolding pt_idx_take unsigned_take_bit_eq unat_drop_bit_eq unfolding take_bit_eq_mod drop_bit_eq_div by simp

definition megapage :: "nat \<Rightarrow> u64" where
  "megapage n = KVA_START + of_nat n * MEGAPAGE_SIZE"

lemma megapage_nat:
  assumes "n < 2 ^ 17"
  shows "unat (of_nat n * MEGAPAGE_SIZE :: u64) = n * 2 ^ 21" "unat (megapage n) = 0xFFFFFFC000000000 + n * 2 ^ 21"
proof -
  have "unat (of_nat n :: u64) = n" using assms by (intro unat_u64_of_nat) simp
  then show m: "unat (of_nat n * MEGAPAGE_SIZE :: u64) = n * 2 ^ 21"
    using assms by (simp add: unat_word_ariths(2) MEGAPAGE_SIZE_def)
  show "unat (megapage n) = 0xFFFFFFC000000000 + n * 2 ^ 21"
    unfolding megapage_def using assms m by (subst unat_u64_plus) (simp_all add: KVA_START_val)
qed

lemma megapage_idx:
  assumes "n < 2 ^ 17"
  shows "unat (pt_idx (megapage n) 2) = 256 + n div 512" "unat (pt_idx (megapage n) 1) = n mod 512"
proof -
  have "(0xFFFFFFC000000000 + n * 2 ^ 21) div 2 ^ 30 = 0x3FFFFFF00 + n div 512"
  proof -
    have "(0xFFFFFFC000000000 + n * 2 ^ 21) div 2 ^ 30 = (0x7FFFFFE0000 * 2 ^ 21 + n * 2 ^ 21) div 2 ^ 21 div 512"
      by (simp add: div_mult2_eq [symmetric])
    also have "\<dots> = (0x7FFFFFE0000 + n) div 512" unfolding distrib_right [symmetric] by simp
    also have "\<dots> = 0x3FFFFFF00 + n div 512" by simp
    finally show ?thesis .
  qed
  moreover have "n div 512 < 256" using assms by (simp add: less_mult_imp_div_less)
  moreover have "(0x3FFFFFF00 + d) mod 512 = 256 + d" if "d < 256" for d :: nat
  proof -
    have "0x3FFFFFF00 + d = (256 + d) + 0x1FFFFFF * 512" by simp
    then show ?thesis using that unfolding mod_mult_self1 by (simp only: mod_mult_self1) simp
  qed
  ultimately show "unat (pt_idx (megapage n) 2) = 256 + n div 512"
    unfolding unat_pt_idx megapage_nat(2) [OF assms] by simp
  have "(0xFFFFFFC000000000 + n * 2 ^ 21) div 2 ^ 21 = 0x7FFFFFE0000 + n"
  proof -
    have "0xFFFFFFC000000000 + n * 2 ^ 21 = (0x7FFFFFE0000 + n) * 2 ^ 21" by simp
    then show ?thesis by (simp only:) simp
  qed
  moreover have "(0x7FFFFFE0000 + n) mod 512 = n mod 512"
  proof -
    have "0x7FFFFFE0000 + n = n + 0x3FFFFFF00 * 512" by simp
    then show ?thesis by (simp only: mod_mult_self1)
  qed
  ultimately show "unat (pt_idx (megapage n) 1) = n mod 512"
    unfolding unat_pt_idx megapage_nat(2) [OF assms] by simp
qed

lemma megapage_slots:
  assumes "n < 2 ^ 17" "m < 2 ^ 17"
  shows "pt_idx (megapage n) 2 = pt_idx (megapage m) 2 \<longleftrightarrow> n div 512 = m div 512"
    "pt_idx (megapage n) 1 = pt_idx (megapage m) 1 \<longleftrightarrow> n mod 512 = m mod 512"
  using megapage_idx [OF assms(1)] megapage_idx [OF assms(2)] by (simp_all add: word_unat_eq_iff)

text \<open>The index of any address is that of a user address or of a megapage.\<close>

lemma kernel_megapage:
  assumes "KVA_START \<le> va"
  defines "n \<equiv> unat (va - KVA_START) div 2 ^ 21"
  shows "n < 2 ^ 17" "pt_idx va 2 = pt_idx (megapage n) 2" "pt_idx va 1 = pt_idx (megapage n) 1"
    "unat va = 0xFFFFFFC000000000 + unat (va - KVA_START)"
proof -
  show v: "unat va = 0xFFFFFFC000000000 + unat (va - KVA_START)"
    using assms(1) by (simp add: unat_sub KVA_START_val word_le_nat_alt)
  have "unat va < 2 ^ 64" by (rule unat_u64_lt)
  then have "unat (va - KVA_START) < 2 ^ 17 * 2 ^ 21" using v by simp
  then show n: "n < 2 ^ 17" unfolding n_def by (rule less_mult_imp_div_less)
  define d where "d = unat (va - KVA_START)"
  have e: "unat va = 0xFFFFFFC000000000 + n * 2 ^ 21 + d mod 2 ^ 21" using v by (simp add: n_def d_def)
  have m: "(0x7FFFFFE0000 + n) * 2 ^ 21 = 0xFFFFFFC000000000 + n * 2 ^ 21" by simp
  have q: "unat va div 2 ^ 21 = 0x7FFFFFE0000 + n" "unat (megapage n) div 2 ^ 21 = 0x7FFFFFE0000 + n"
    unfolding e megapage_nat(2) [OF n] m [symmetric] by simp_all
  have p: "(2 :: nat) ^ (9 * 2 + 12) = 2 ^ 21 * 512" "(2 :: nat) ^ (9 * 1 + 12) = 2 ^ 21" by simp_all
  show "pt_idx va 2 = pt_idx (megapage n) 2" "pt_idx va 1 = pt_idx (megapage n) 1"
    unfolding word_unat_eq_iff unat_pt_idx p div_mult2_eq q by (rule refl)+
qed


section \<open>The tables while they are built\<close>

lemma boot_alloc:
  fixes s :: "('h, 'z) vm_st_scheme"
  assumes "page_ok s" "0 < free_count s"
  obtains p s' where "page_alloc s = Inr (p, s')" "p \<noteq> 0" "p \<notin> used_pages s" "p mod PGSIZE = 0" "page_ok s'"
    "used_pages s' = insert p (used_pages s)" "Suc (free_count s') = free_count s"
    "ptes s' = (\<lambda>a. if unat (a - p) < 4096 then 0 else ptes s a)"
    "page_st.more s' = page_st.more s" "first_free_page s' = first_free_page s" "free_pages s' = free_pages s"
proof -
  from page_alloc_some [OF assms] obtain p t where p: "page_alloc s = Inr (p, zero_page p t)" "p \<notin> used_pages s"
    "page_step s (insert p (used_pages s)) (free_count s - 1) 0 t" .
  then have t: "page_ok t" "p \<in> used_pages t" "used_pages t = insert p (used_pages s)" "page_frame s t"
    "Suc (free_count t) = free_count s" using assms(2) by (simp_all add: page_step_def)
  note P = used_page_props [OF t(1,2)] and F = page_frame_fields [OF t(4)]
  have "ptes (zero_page p t) = (\<lambda>a. if unat (a - p) < 4096 then 0 else ptes s a)"
    "page_st.more (zero_page p t) = page_st.more s" "first_free_page (zero_page p t) = first_free_page s"
    "free_pages (zero_page p t) = free_pages s"
    using F by (simp_all add: zero_page_def cong: if_cong)
  moreover have "page_ok (zero_page p t)" "used_pages (zero_page p t) = insert p (used_pages s)" "Suc (free_count (zero_page p t)) = free_count s"
    using t by (simp_all add: page_ok_zero_page)
  ultimately show thesis using that [OF p(1) P(1) p(2) P(2)] by blast
qed

lemma alloc_slots:
  assumes "page_ok s" "q \<in> used_pages s" "p \<notin> used_pages s" "p mod PGSIZE = 0"
    "ptes t = (\<lambda>a. if unat (a - p) < 4096 then 0 else ptes s a)"
  shows "ptes t (pte_at q (pt_idx va l)) = ptes s (pte_at q (pt_idx va l))"
proof -
  have "q mod PGSIZE = 0" "q \<noteq> p" using used_aligned [OF assms(1,2)] assms(2,3) by auto
  then have "\<not> unat (pte_at q (pt_idx va l) - p) < 4096" using page_disjoint [OF _ assms(4) slot_in_page [of q va l]] by metis
  then show ?thesis by (simp add: assms(5))
qed

definition mega_entry :: "nat \<Rightarrow> u64" where
  "mega_entry n = pte_create (drop_bit 12 (MEM_START + of_nat n * MEGAPAGE_SIZE))
     (prot_to_type (PROT_READ OR PROT_WRITE OR PROT_EXEC) False)"

definition root_entry :: "('h, 'z) vm_st_scheme \<Rightarrow> u64 \<Rightarrow> u64" where
  "root_entry s va = ptes s (pte_at (root_pa s) (pt_idx va 2))"

text \<open>\<open>k\<close> second-level tables hang under the kernel half of the root, and the first \<open>i\<close> of their entries
  map megapages; everything else in these tables and in the root is 0.\<close>

definition kmap :: "('h, 'z) vm_st_scheme \<Rightarrow> nat \<Rightarrow> nat \<Rightarrow> bool" where
  "kmap s k i \<longleftrightarrow>
     page_ok s \<and> root_pa s \<in> used_pages s \<and> k \<le> 256 \<and> i \<le> 512 * k
     \<and> (\<forall>va. unat (pt_idx va 2) < 256 \<or> 256 + k \<le> unat (pt_idx va 2) \<longrightarrow> root_entry s va = 0)
     \<and> (\<forall>n < 512 * k. root_entry s (megapage n) AND PTE_V \<noteq> 0
          \<and> root_entry s (megapage n) AND (PTE_R OR PTE_W OR PTE_X) = 0
          \<and> child (root_entry s (megapage n)) \<in> used_pages s - {root_pa s}
          \<and> ptes s (pte_at (child (root_entry s (megapage n))) (pt_idx (megapage n) 1)) = (if n < i then mega_entry n else 0))
     \<and> (\<forall>n < 512 * k. \<forall>m < 512 * k. child (root_entry s (megapage n)) = child (root_entry s (megapage m)) \<longrightarrow> n div 512 = m div 512)"

lemma kmapD:
  assumes "kmap s k i"
  shows "page_ok s" "root_pa s \<in> used_pages s" "k \<le> 256" "i \<le> 512 * k"
    "unat (pt_idx va 2) < 256 \<or> 256 + k \<le> unat (pt_idx va 2) \<Longrightarrow> root_entry s va = 0"
    "n < 512 * k \<Longrightarrow> root_entry s (megapage n) AND PTE_V \<noteq> 0"
    "n < 512 * k \<Longrightarrow> root_entry s (megapage n) AND (PTE_R OR PTE_W OR PTE_X) = 0"
    "n < 512 * k \<Longrightarrow> child (root_entry s (megapage n)) \<in> used_pages s"
    "n < 512 * k \<Longrightarrow> child (root_entry s (megapage n)) \<noteq> root_pa s"
    "n < 512 * k \<Longrightarrow> ptes s (pte_at (child (root_entry s (megapage n))) (pt_idx (megapage n) 1)) = (if n < i then mega_entry n else 0)"
    "n < 512 * k \<Longrightarrow> m < 512 * k \<Longrightarrow> child (root_entry s (megapage n)) = child (root_entry s (megapage m)) \<Longrightarrow> n div 512 = m div 512"
  using assms unfolding kmap_def by blast+

lemma kmap_transfer:
  assumes "kmap s k i" "page_ok t" "used_pages s \<subseteq> used_pages t" "root_pa t = root_pa s"
    and old: "\<And>q va l. q \<in> used_pages s \<Longrightarrow> ptes t (pte_at q (pt_idx va l)) = ptes s (pte_at q (pt_idx va l))"
  shows "kmap t k i"
proof -
  note K = kmapD [OF assms(1)]
  have e: "root_entry t va = root_entry s va" for va unfolding root_entry_def assms(4) by (rule old [OF K(2)])
  have "child (root_entry s (megapage n)) \<in> used_pages t - {root_pa s}" if "n < 512 * k" for n using K(8,9) [OF that] assms(3) by auto
  moreover have "root_pa s \<in> used_pages t" using K(2) assms(3) by blast
  moreover have "ptes t (pte_at (child (root_entry s (megapage n))) (pt_idx (megapage n) 1)) = (if n < i then mega_entry n else 0)"
    if "n < 512 * k" for n using old [OF K(8) [OF that]] K(10) [OF that] by simp
  ultimately show ?thesis unfolding kmap_def e assms(4) by (intro conjI allI impI K assms(2)) assumption+
qed

definition boot_same :: "('h, 'z) vm_st_scheme \<Rightarrow> ('h, 'z) vm_st_scheme \<Rightarrow> bool" where
  "boot_same s s' \<longleftrightarrow> page_st.more s' = page_st.more s \<and> first_free_page s' = first_free_page s \<and> free_pages s' = free_pages s"

lemma boot_same_trans: "boot_same s t \<Longrightarrow> boot_same t u \<Longrightarrow> boot_same s u"
  by (simp add: boot_same_def)

lemma boot_same_root: "boot_same s s' \<Longrightarrow> root_pa s' = root_pa s \<and> kva2pa_offset s' = kva2pa_offset s"
  using vm_fields [of s' s] by (simp add: boot_same_def root_pa_def kva2pa_def)

text \<open>Writing the next entry.\<close>

lemma kmap_entry:
  fixes s :: "('h, 'z) vm_st_scheme"
  assumes "kmap s k i" "i < 512 * k"
  defines "a \<equiv> pte_at (child (root_entry s (megapage i))) (pt_idx (megapage i) 1)"
  defines "s' \<equiv> s\<lparr>ptes := (ptes s)(a := mega_entry i)\<rparr>"
  shows "kmap s' k (Suc i)"
proof -
  note K = kmapD [OF assms(1)]
  have b: "n < 2 ^ 17" if "n < 512 * k" for n using that K(3) by simp
  have r: "root_pa s' = root_pa s" by (simp add: s'_def root_pa_def kva2pa_def)
  have al: "child (root_entry s (megapage n)) mod PGSIZE = 0" if "n < 512 * k" for n using used_aligned [OF K(1) K(8) [OF that]] .
  have ar: "root_pa s mod PGSIZE = 0" using used_aligned [OF K(1,2)] .
  have e: "root_entry s' va = root_entry s va" for va
  proof -
    have "pte_at (root_pa s) (pt_idx va 2) \<noteq> a"
      unfolding a_def using slot_inj [OF ar al [OF assms(2)], of va 2 "megapage i" 1] K(9) [OF assms(2)] by simp
    then show ?thesis unfolding root_entry_def r by (simp add: s'_def)
  qed
  have p: "ptes s' (pte_at (child (root_entry s (megapage n))) (pt_idx (megapage n) 1)) = (if n < Suc i then mega_entry n else 0)"
    if n: "n < 512 * k" for n
  proof -
    have "pte_at (child (root_entry s (megapage n))) (pt_idx (megapage n) 1) = a \<longleftrightarrow> n = i"
    proof
      assume "pte_at (child (root_entry s (megapage n))) (pt_idx (megapage n) 1) = a"
      then have "n div 512 = i div 512" "n mod 512 = i mod 512"
        using slot_inj [OF al [OF n] al [OF assms(2)]] K(11) [OF n assms(2)] megapage_slots(2) [OF b [OF n] b [OF assms(2)]]
        by (simp_all add: a_def)
      then show "n = i" by (metis div_mult_mod_eq)
    qed (simp add: a_def)
    then show ?thesis using K(10) [OF n] by (auto simp: s'_def)
  qed
  have u: "used_pages s' = used_pages s" "page_ok s' = page_ok s"
    by (simp_all add: s'_def)
  have "child (root_entry s (megapage n)) \<in> used_pages s - {root_pa s}" if "n < 512 * k" for n using K(8,9) [OF that] by simp
  moreover have "Suc i \<le> 512 * k" using assms(2) by simp
  ultimately show ?thesis
    unfolding kmap_def r e u by (intro conjI allI impI K p) assumption+
qed

text \<open>Adding a table.\<close>

lemma table_entry: "ptd_create n AND (PTE_R OR PTE_W OR PTE_X) = 0"
proof -
  have "PTE_R OR PTE_W OR PTE_X = mask 4 AND (14 :: u64)" by (simp add: PTE_R_def PTE_W_def PTE_X_def mask_eq_exp_minus_1)
  moreover have "push_bit 10 n AND mask 4 = (0 :: u64)" unfolding take_bit_eq_mask [symmetric] take_bit_push_bit by simp
  then have "push_bit 10 n AND (mask 4 AND 14) = (0 :: u64)" by (simp only: and.assoc [symmetric]) simp
  moreover have "1 AND (mask 4 AND 14) = (0 :: u64)" by (simp add: mask_eq_exp_minus_1)
  ultimately show ?thesis by (simp only: ptd_create_def pte_create_def PTE_V_def bit.conj_disj_distrib2 or.right_neutral)
qed

lemma kmap_table:
  fixes s :: "('h, 'z) vm_st_scheme"
  assumes "kmap s k (512 * k)" "k < 256" "0 < free_count s"
  obtains p t where "page_alloc s = Inr (p, t)" "p \<noteq> 0" "boot_same s t" "Suc (free_count t) = free_count s"
    "kmap (t\<lparr>ptes := (ptes t)(pte_at (root_pa s) (pt_idx (megapage (512 * k)) 2) := ptd_create (ppn p))\<rparr>) (Suc k) (512 * k)"
    "p mod PGSIZE = 0"
proof -
  note K = kmapD [OF assms(1)]
  obtain p t where p: "page_alloc s = Inr (p, t)" "p \<noteq> 0" "p \<notin> used_pages s" "p mod PGSIZE = 0" "page_ok t"
    "used_pages t = insert p (used_pages s)" "Suc (free_count t) = free_count s"
    "ptes t = (\<lambda>a. if unat (a - p) < 4096 then 0 else ptes s a)"
    "page_st.more t = page_st.more s" "first_free_page t = first_free_page s" "free_pages t = free_pages s"
    by (rule boot_alloc [OF K(1) assms(3)]) (rule that; assumption)
  have bs: "boot_same s t" using p(9-11) by (simp add: boot_same_def)
  let ?a = "pte_at (root_pa s) (pt_idx (megapage (512 * k)) 2)"
  let ?u = "t\<lparr>ptes := (ptes t)(?a := ptd_create (ppn p))\<rparr>"
  have "root_pa ?u = root_pa t" by (simp add: root_pa_def kva2pa_def)
  then have r: "root_pa ?u = root_pa s" using boot_same_root [OF bs] by simp
  have b: "n < 2 ^ 17" if "n < 512 * Suc k" for n using that assms(2) by simp
  have k17: "512 * k < 2 ^ 17" using assms(2) by simp
  have ar: "root_pa s mod PGSIZE = 0" using used_aligned [OF K(1,2)] .
  have pr: "p \<noteq> root_pa s" using p(3) K(2) by blast
  note old = alloc_slots [OF K(1) _ p(3,4,8)]
  have e: "root_entry ?u va = (if pt_idx va 2 = pt_idx (megapage (512 * k)) 2 then ptd_create (ppn p) else root_entry s va)" for va
    unfolding root_entry_def r using old [OF K(2), of va 2] slot_inj [OF ar ar, of va 2 "megapage (512 * k)" 2] by simp
  have is_new: "pt_idx (megapage n) 2 = pt_idx (megapage (512 * k)) 2 \<longleftrightarrow> n div 512 = k" if "n < 512 * Suc k" for n
    using megapage_slots(1) [OF b [OF that] k17] by simp
  have part: "n div 512 = k \<longleftrightarrow> \<not> n < 512 * k" if "n < 512 * Suc k" for n
    using that div_less_iff_less_mult [of 512 n k] div_less_iff_less_mult [of 512 n "Suc k"] by (auto simp: mult.commute)
  note ch = ptd_create_child [OF p(4)]
  have nl: "ptd_create (ppn p) AND (PTE_R OR PTE_W OR PTE_X) = 0" by (rule table_entry)
  have zero: "ptes ?u (pte_at p (pt_idx va l)) = 0" for va l
    using slot_in_page [of p va l] slot_inj [OF p(4) ar, of va l "megapage (512 * k)" 2] pr by (simp add: p(8))
  have sl: "ptes ?u (pte_at q (pt_idx va l)) = ptes s (pte_at q (pt_idx va l))" if "q \<in> used_pages s" "q \<noteq> root_pa s" for q va l
    using old [OF that(1)] slot_inj [OF used_aligned [OF K(1) that(1)] ar, of va l "megapage (512 * k)" 2] that(2) by simp
  have "kmap ?u (Suc k) (512 * k)"
    unfolding kmap_def r
  proof (intro conjI allI impI)
    show "page_ok ?u" "root_pa s \<in> used_pages ?u" using p(5,6) K(2) by simp_all
    show "Suc k \<le> 256" "512 * k \<le> 512 * Suc k" using assms(2) by simp_all
    show "root_entry ?u va = 0" if "unat (pt_idx va 2) < 256 \<or> 256 + Suc k \<le> unat (pt_idx va 2)" for va
      using that K(5) [of va] megapage_idx(1) [OF k17] unfolding e by auto
    fix n
    assume n: "n < 512 * Suc k"
    let ?e = "root_entry ?u (megapage n)"
    have en: "?e = (if n < 512 * k then root_entry s (megapage n) else ptd_create (ppn p))"
      unfolding e using is_new [OF n] part [OF n] by simp
    show "?e AND PTE_V \<noteq> 0" "?e AND (PTE_R OR PTE_W OR PTE_X) = 0"
      unfolding en using K(6,7) [of n] ch(2) nl by simp_all
    show "child ?e \<in> used_pages ?u - {root_pa s}"
      unfolding en using K(8,9) [of n] ch(1) pr p(6) by simp
    show "ptes ?u (pte_at (child ?e) (pt_idx (megapage n) 1)) = (if n < 512 * k then mega_entry n else 0)"
    proof (cases "n < 512 * k")
      case True
      then show ?thesis unfolding en using sl [OF K(8,9) [OF True]] K(10) [OF True] by simp
    next
      case False
      then show ?thesis unfolding en using zero ch(1) by simp
    qed
    fix m
    assume m: "m < 512 * Suc k" "child ?e = child (root_entry ?u (megapage m))"
    have em: "root_entry ?u (megapage m) = (if m < 512 * k then root_entry s (megapage m) else ptd_create (ppn p))"
      unfolding e using is_new [OF m(1)] part [OF m(1)] by simp
    have "child (root_entry s (megapage j)) \<noteq> p" if "j < 512 * k" for j using K(8) [OF that] p(3) by auto
    then show "n div 512 = m div 512"
      using m(2) K(11) [of n m] ch(1) part [OF n] part [OF m(1)] unfolding en em by (auto split: if_splits)
  qed
  then show thesis by (rule that [OF p(1,2) bs p(7) _ p(4)])
qed


section \<open>The loop over the megapages\<close>

abbreviation RWX :: u32 where "RWX \<equiv> PROT_READ OR PROT_WRITE OR PROT_EXEC"

lemma slot_nonzero:
  assumes "page_ok s" "q \<in> used_pages s"
  shows "pte_at q (pt_idx va l) \<noteq> 0"
proof
  assume z: "pte_at q (pt_idx va l) = 0"
  note P = used_page_props [OF assms]
  have "unat (pte_at q (pt_idx va l)) = unat q + unat (pte_at q (pt_idx va l) - q)"
    using P(4) slot_in_page [of q va l] assms(1) unat_u64_plus [of q "pte_at q (pt_idx va l) - q"] by (simp add: page_ok_def)
  then show False using z P(1) by (simp add: unat_eq_0)
qed

lemma walk_table:
  assumes "kva2pa_offset s = 0" "ptes s (pte_at r (pt_idx va 2)) AND PTE_V \<noteq> 0"
  shows "walk_down 2 1 va True r s = Inr (pte_at (child (ptes s (pte_at r (pt_idx va 2)))) (pt_idx va 1), s)"
  using assms by (simp add: walk_down.simps [of 2] walk_down.simps [of "Suc 0"] rd_pte_def kva2pa_def pa2kva_def child_def Let_def)

lemma walk_new_table:
  assumes "kva2pa_offset s = 0" "ptes s (pte_at r (pt_idx va 2)) AND PTE_V = 0"
    and "page_alloc s = Inr (p, t)" "p \<noteq> 0" "kva2pa_offset t = 0" "p mod PGSIZE = 0"
  shows "walk_down 2 1 va True r s
    = Inr (pte_at p (pt_idx va 1), t\<lparr>ptes := (ptes t)(pte_at r (pt_idx va 2) := ptd_create (ppn p))\<rparr>)"
  using assms ptd_create_child(1) [OF assms(6)]
  by (simp add: walk_down.simps [of 2] walk_down.simps [of "Suc 0"] rd_pte_def wr_pte_def kva2pa_def pa2kva_def child_def Let_def)

lemma map_megapage:
  assumes "walk_down 2 1 va True (root_page_table s) s = Inr (a, t)" "a \<noteq> 0" "kva2pa_offset t = 0"
  shows "map_kernel_page va pa 1 prot s = Inr (t\<lparr>ptes := (ptes t)(a := pte_create (drop_bit 12 pa) (prot_to_type prot False))\<rparr>)"
  using assms by (simp add: map_kernel_page_def walk_internal_def RISCV_PGLEVELS kassert_def wr_pte_def kva2pa_def)

lemma kmap_step:
  fixes s :: "('h, 'z) vm_st_scheme"
  assumes "kmap s ((i + 511) div 512) i" "i < 2 ^ 17" "kva2pa_offset s = 0" "i mod 512 = 0 \<longrightarrow> 0 < free_count s"
  obtains s' where "map_kernel_page (megapage i) (MEM_START + of_nat i * MEGAPAGE_SIZE) 1 RWX s = Inr s'"
    "kmap s' ((Suc i + 511) div 512) (Suc i)" "boot_same s s'" "free_count s' + (if i mod 512 = 0 then 1 else 0) = free_count s"
proof -
  have rt: "root_page_table s = root_pa s" using assms(3) by (simp add: root_pa_def kva2pa_def)
  have "\<exists>s'. map_kernel_page (megapage i) (MEM_START + of_nat i * MEGAPAGE_SIZE) 1 RWX s = Inr s'
    \<and> kmap s' (i div 512 + 1) (Suc i) \<and> boot_same s s' \<and> free_count s' + (if i mod 512 = 0 then 1 else 0) = free_count s"
  proof (cases "i mod 512 = 0")
    case False
    then obtain r where r: "i mod 512 = Suc r" by (auto simp: gr0_conv_Suc)
    then have "i + 511 = r + (i div 512 + 1) * 512" using div_mult_mod_eq [of i 512] by simp
    moreover have "r < 512" using mod_less_divisor [of 512 i] r by linarith
    ultimately have k: "(i + 511) div 512 = i div 512 + 1" by simp
    have K: "kmap s (i div 512 + 1) i" using assms(1) unfolding k .
    have i: "i < 512 * (i div 512 + 1)" using dividend_less_div_times [of 512 i] by (simp add: mult.commute)
    let ?a = "pte_at (child (root_entry s (megapage i))) (pt_idx (megapage i) 1)"
    have "ptes s (pte_at (root_pa s) (pt_idx (megapage i) 2)) AND PTE_V \<noteq> 0" using kmapD(6) [OF K i] by (simp add: root_entry_def)
    from map_megapage [of "megapage i" s ?a s, OF _ slot_nonzero [OF kmapD(1) [OF K] kmapD(8) [OF K i]] assms(3)] walk_table [OF assms(3) this]
    have "map_kernel_page (megapage i) (MEM_START + of_nat i * MEGAPAGE_SIZE) 1 RWX s = Inr (s\<lparr>ptes := (ptes s)(?a := mega_entry i)\<rparr>)"
      unfolding rt mega_entry_def root_entry_def by blast
    then show ?thesis using kmap_entry [OF K i] False by (intro exI conjI) (assumption | simp add: boot_same_def free_count_def)+
  next
    case True
    then obtain k where k: "i = 512 * k" by (metis mod_0_imp_dvd dvdE)
    have k': "(i + 511) div 512 = k" "i div 512 = k" unfolding k by simp_all
    have K: "kmap s k (512 * k)" using assms(1) unfolding k'(1) unfolding k .
    have lt: "k < 256" using assms(2) k by simp
    obtain p t where p: "page_alloc s = Inr (p, t)" "p \<noteq> 0" "boot_same s t" "Suc (free_count t) = free_count s"
      "kmap (t\<lparr>ptes := (ptes t)(pte_at (root_pa s) (pt_idx (megapage (512 * k)) 2) := ptd_create (ppn p))\<rparr>) (Suc k) (512 * k)"
      "p mod PGSIZE = 0"
      by (rule kmap_table [OF K lt]) (use assms(4) True in simp, rule that)
    let ?t = "t\<lparr>ptes := (ptes t)(pte_at (root_pa s) (pt_idx (megapage i) 2) := ptd_create (ppn p))\<rparr>"
    have off: "kva2pa_offset t = 0" "root_pa t = root_pa s" using boot_same_root [OF p(3)] assms(3) by simp_all
    have K': "kmap ?t (Suc k) i" using p(5) unfolding k .
    have i: "i < 512 * Suc k" unfolding k by simp
    have off': "kva2pa_offset ?t = 0" using off by simp
    have rp: "root_pa ?t = root_pa s" using off(2) by (simp add: root_pa_def kva2pa_def)
    have e: "root_entry ?t (megapage i) = ptd_create (ppn p)" unfolding root_entry_def rp by simp
    let ?a = "pte_at (child (root_entry ?t (megapage i))) (pt_idx (megapage i) 1)"
    have c: "child (root_entry ?t (megapage i)) = p" unfolding e by (rule ptd_create_child(1) [OF p(6)])
    have "ptes s (pte_at (root_pa s) (pt_idx (megapage i) 2)) = 0"
      using kmapD(5) [OF K, of "megapage i"] megapage_idx(1) [OF assms(2)] k'(2) by (simp add: root_entry_def)
    then have "ptes s (pte_at (root_pa s) (pt_idx (megapage i) 2)) AND PTE_V = 0" by simp
    from walk_new_table [OF assms(3) this p(1,2) off(1) p(6)]
    have w: "walk_down 2 1 (megapage i) True (root_page_table s) s = Inr (?a, ?t)" unfolding rt c .
    have "map_kernel_page (megapage i) (MEM_START + of_nat i * MEGAPAGE_SIZE) 1 RWX s = Inr (?t\<lparr>ptes := (ptes ?t)(?a := mega_entry i)\<rparr>)"
      unfolding mega_entry_def by (rule map_megapage [OF w slot_nonzero [OF kmapD(1) [OF K'] kmapD(8) [OF K' i]] off'])
    then show ?thesis using kmap_entry [OF K' i] True p(3,4) unfolding k'(2)
      by (intro exI conjI) (assumption | simp add: boot_same_def free_count_def)+
  qed
  moreover have "(Suc i + 511) div 512 = i div 512 + 1" using div_add_self2 [of 512 i] by simp
  ultimately show thesis using that by metis
qed


lemma megapage_step: "megapage i + MEGAPAGE_SIZE = megapage (Suc i)"
  "MEM_START + of_nat i * MEGAPAGE_SIZE + MEGAPAGE_SIZE = MEM_START + of_nat (Suc i) * MEGAPAGE_SIZE"
  "of_nat (Suc i) * MEGAPAGE_SIZE - MEGAPAGE_SIZE = of_nat i * MEGAPAGE_SIZE"
  by (simp_all add: megapage_def algebra_simps)

lemma megapages_nat:
  assumes "n \<le> 2 ^ 17"
  shows "unat (of_nat n * MEGAPAGE_SIZE :: u64) = n * 2 ^ 21"
proof -
  have "unat (of_nat n :: u64) = n" using assms by (intro unat_u64_of_nat) simp
  then show ?thesis using assms by (simp add: unat_word_ariths(2) MEGAPAGE_SIZE_def)
qed

lemma tables_step: "(Suc i + 511) div 512 = (i + 511) div 512 + (if i mod 512 = 0 then 1 else 0)"
proof (cases "i mod 512")
  case 0
  then obtain k where "i = 512 * k" by (metis mod_0_imp_dvd dvdE)
  then show ?thesis by simp
next
  case (Suc r)
  have "i + 511 = r + (i div 512 + 1) * 512" using div_mult_mod_eq [of i 512] Suc by simp
  moreover have "r < 512" using mod_less_divisor [of 512 i] Suc by linarith
  ultimately have "(i + 511) div 512 = i div 512 + 1" by simp
  then show ?thesis using Suc div_add_self2 [of 512 i] by simp
qed

lemma kmap_loop:
  fixes s :: "('h, 'z) vm_st_scheme"
  assumes "i + d = m" "m \<le> 2 ^ 17" "kmap s ((i + 511) div 512) i" "kva2pa_offset s = 0"
    and "(m + 511) div 512 - (i + 511) div 512 \<le> free_count s"
  shows "\<exists>s'. map_kernel_loop RWX (megapage i) (MEM_START + of_nat i * MEGAPAGE_SIZE) (of_nat d * MEGAPAGE_SIZE) s = Some (Inr s')
    \<and> kmap s' ((m + 511) div 512) m \<and> boot_same s s' \<and> free_count s' + ((m + 511) div 512 - (i + 511) div 512) = free_count s"
  using assms
proof (induction d arbitrary: i s)
  case 0
  then show ?case by (subst map_kernel_loop.simps) (simp add: boot_same_def)
next
  case (Suc d)
  have le: "(Suc i + 511) div 512 \<le> (m + 511) div 512" using Suc.prems(1) by (intro div_le_mono) simp
  have "i mod 512 = 0 \<longrightarrow> 0 < free_count s" using le Suc.prems(5) tables_step [of i] by auto
  moreover have "i < 2 ^ 17" using Suc.prems(1,2) by simp
  ultimately obtain t where t: "map_kernel_page (megapage i) (MEM_START + of_nat i * MEGAPAGE_SIZE) 1 RWX s = Inr t"
    "kmap t ((Suc i + 511) div 512) (Suc i)" "boot_same s t" "free_count t + (if i mod 512 = 0 then 1 else 0) = free_count s"
    using kmap_step [OF Suc.prems(3) _ Suc.prems(4)] by metis
  have fc: "free_count t + ((m + 511) div 512 - (i + 511) div 512) = free_count s + ((m + 511) div 512 - (Suc i + 511) div 512)"
  proof -
    define e where "e = (if i mod 512 = 0 then 1 else 0 :: nat)"
    then have "free_count t + e = free_count s" "(Suc i + 511) div 512 = (i + 511) div 512 + e" using t(4) tables_step [of i] by simp_all
    then show ?thesis using le by linarith
  qed
  have "Suc i + d = m" "kva2pa_offset t = 0" using Suc.prems(1,4) boot_same_root [OF t(3)] by simp_all
  moreover have "(m + 511) div 512 - (Suc i + 511) div 512 \<le> free_count t" using Suc.prems(5) fc by linarith
  ultimately have "\<exists>s'. map_kernel_loop RWX (megapage (Suc i)) (MEM_START + of_nat (Suc i) * MEGAPAGE_SIZE) (of_nat d * MEGAPAGE_SIZE) t = Some (Inr s')
    \<and> kmap s' ((m + 511) div 512) m \<and> boot_same t s' \<and> free_count s' + ((m + 511) div 512 - (Suc i + 511) div 512) = free_count t"
    by (rule Suc.IH [OF _ Suc.prems(2) t(2)])
  then obtain s' where
    s': "map_kernel_loop RWX (megapage (Suc i)) (MEM_START + of_nat (Suc i) * MEGAPAGE_SIZE) (of_nat d * MEGAPAGE_SIZE) t = Some (Inr s')"
    "kmap s' ((m + 511) div 512) m" "boot_same t s'" "free_count s' + ((m + 511) div 512 - (Suc i + 511) div 512) = free_count t"
    by (elim exE conjE)
  have "Suc d \<le> 2 ^ 17" using Suc.prems(1,2) by simp
  then have "0 < unat (of_nat (Suc d) * MEGAPAGE_SIZE :: u64)" unfolding megapages_nat [OF \<open>Suc d \<le> 2 ^ 17\<close>] by simp
  then have pos: "(0 :: u64) < of_nat (Suc d) * MEGAPAGE_SIZE" by (simp add: word_less_nat_alt)
  have "map_kernel_loop RWX (megapage i) (MEM_START + of_nat i * MEGAPAGE_SIZE) (of_nat (Suc d) * MEGAPAGE_SIZE) s = Some (Inr s')"
    by (subst map_kernel_loop.simps) (simp only: pos if_True t(1) sum.case megapage_step s'(1))
  moreover have "free_count s' + ((m + 511) div 512 - (i + 511) div 512) = free_count s" using fc s'(4) by linarith
  ultimately show ?case using s'(2) boot_same_trans [OF t(3) s'(3)] by blast
qed


section \<open>The address space after start-up\<close>

lemma kmap_slot:
  assumes "256 \<le> unat (pt_idx va 2)"
  obtains n where "n < 2 ^ 17" "n mod 512 = 0" "pt_idx (megapage n) 2 = pt_idx va 2" "256 + n div 512 = unat (pt_idx va 2)"
proof -
  define j where "j = unat (pt_idx va 2) - 256"
  have "unat (pt_idx va 2) < 512" by (simp add: unat_pt_idx)
  then have j: "512 * j < 2 ^ 17" "unat (pt_idx va 2) = 256 + 512 * j div 512" using assms by (simp_all add: j_def)
  have "pt_idx (megapage (512 * j)) 2 = pt_idx va 2"
    unfolding word_unat_eq_iff megapage_idx(1) [OF j(1)] j(2) by (rule refl)
  then show thesis using that [OF j(1)] j(2) by simp
qed

lemma kmap_tab1:
  assumes "kmap s k i" "tab1 s va = Some t"
  obtains n where "n < 512 * k" "n mod 512 = 0" "pt_idx (megapage n) 2 = pt_idx va 2" "t = child (root_entry s (megapage n))"
proof -
  have e: "root_entry s va \<noteq> 0" "t = child (root_entry s va)"
    using assms(2) by (auto simp: tab1_def slot2_def root_entry_def Let_def split: if_splits)
  then have b: "256 \<le> unat (pt_idx va 2)" "unat (pt_idx va 2) < 256 + k" using kmapD(5) [OF assms(1), of va] by force+
  obtain n where n: "n < 2 ^ 17" "n mod 512 = 0" "pt_idx (megapage n) 2 = pt_idx va 2" "256 + n div 512 = unat (pt_idx va 2)"
    by (rule kmap_slot [OF b(1)])
  have "n div 512 < k" using b(2) n(4) by simp
  then have "n < 512 * k" by (simp add: div_less_iff_less_mult mult.commute)
  moreover have "root_entry s (megapage n) = root_entry s va" by (simp add: root_entry_def n(3))
  ultimately show thesis using that n(2,3) e(2) by metis
qed

lemma user_slot: "user_va va \<Longrightarrow> unat (pt_idx va 2) < 256"
proof -
  assume "user_va va"
  then have "unat va < 256 * 2 ^ 30" by (simp add: user_va_def word_less_nat_alt)
  then have "unat va div 2 ^ 30 < 256" by (rule less_mult_imp_div_less)
  then show ?thesis by (simp add: unat_pt_idx)
qed

lemma kmap_user:
  assumes "kmap s k i" "user_va va"
  shows "tab1 s va = None" "tab0 s va = None" "leaf s va = 0"
proof -
  show t: "tab1 s va = None"
    using kmapD(5) [OF assms(1), of va] user_slot [OF assms(2)] by (simp add: tab1_def slot2_def root_entry_def Let_def)
  then show "tab0 s va = None" by (simp add: tab0_def)
  then show "leaf s va = 0" by (simp add: leaf_def leaf_slot_def)
qed

lemma kmap_pt_ok:
  assumes "kmap s k i"
  shows "pt_ok s"
  unfolding pt_ok_def
proof (intro conjI allI impI)
  show "page_ok s" "root_pa s \<in> used_pages s" by (rule kmapD(1,2) [OF assms])+
next
  fix va t
  assume "tab1 s va = Some t"
  then obtain n where n: "n < 512 * k" "t = child (root_entry s (megapage n))" by (rule kmap_tab1 [OF assms])
  then show "t \<in> used_pages s" "t \<noteq> root_pa s" using kmapD(8,9) [OF assms n(1)] by simp_all
next
  fix va va' t
  assume t: "tab1 s va = Some t" "tab1 s va' = Some t"
  obtain n where n: "n < 512 * k" "n mod 512 = 0" "pt_idx (megapage n) 2 = pt_idx va 2" "t = child (root_entry s (megapage n))"
    by (rule kmap_tab1 [OF assms t(1)])
  obtain m where m: "m < 512 * k" "m mod 512 = 0" "pt_idx (megapage m) 2 = pt_idx va' 2" "t = child (root_entry s (megapage m))"
    by (rule kmap_tab1 [OF assms t(2)])
  have "n div 512 = m div 512" using kmapD(11) [OF assms n(1) m(1)] n(4) m(4) by simp
  then have "n = m" using n(2) m(2) by (metis div_mult_mod_eq)
  then show "same1 va va'" using n(3) m(3) by (simp add: same1_def)
qed (simp_all add: kmap_user [OF assms])

lemma kmap_vm_ok:
  assumes "kmap s k i" "even_ptr (vmr_freelist_head s)" "\<forall>v. even_ptr v \<longrightarrow> even_ptr (vmr_next (vmrs s v))"
    and "kva2pa_offset s = KVA_START - MEM_START" "unat (first_free_page s) + 4096 * unat (free_pages s) \<le> 0x80000000 + 2 ^ 38"
  shows "vm_ok s"
  unfolding vm_ok_def map_ok_def using kmap_pt_ok [OF assms(1)] kmap_user [OF assms(1)] assms(2-5) by simp


section \<open>What the hardware sees\<close>

text \<open>The translation of Sv39, from level \<open>i\<close> down, for a table at \<open>t\<close> of a memory \<open>M\<close> of 64-bit entries: an invalid
  entry or one that is writable but not readable faults, an entry that is readable or executable is a leaf
  and must be aligned to its size.\<close>

definition phys :: "u64 \<Rightarrow> u64" where
  "phys e = push_bit 12 (take_bit 44 (drop_bit 10 e))"

fun sv39 :: "(u64 \<Rightarrow> u64) \<Rightarrow> nat \<Rightarrow> u64 \<Rightarrow> u64 \<Rightarrow> (u64 \<times> u64) option" where
  "sv39 M i t va =
     (let e = M (pte_at t (pt_idx va i))
      in if e AND PTE_V = 0 \<or> e AND PTE_W \<noteq> 0 \<and> e AND PTE_R = 0 then None
         else if e AND PTE_R \<noteq> 0 \<or> e AND PTE_X \<noteq> 0
              then if take_bit (9 * i + 12) (phys e) = 0 then Some (e, phys e + take_bit (9 * i + 12) va) else None
         else if i = 0 then None else sv39 M (i - 1) (phys e) va)"

declare sv39.simps [simp del]

lemma phys_child: "unat (child e) < 2 ^ 56 \<Longrightarrow> phys e = child e"
proof -
  assume "unat (child e) < 2 ^ 56"
  then have "take_bit 56 (child e) = child e" by (rule take_bit_small)
  then show ?thesis by (simp add: phys_def child_def pte_ppn_def take_bit_push_bit)
qed

lemma mega_child:
  assumes "n < 2 ^ 17"
  shows "phys (mega_entry n) = MEM_START + of_nat n * MEGAPAGE_SIZE"
    "take_bit 21 (MEM_START + of_nat n * MEGAPAGE_SIZE) = 0"
proof -
  let ?p = "MEM_START + of_nat n * MEGAPAGE_SIZE"
  have u: "unat ?p = 0x80000000 + n * 2 ^ 21"
    using assms megapage_nat(1) [OF assms] by (subst unat_u64_plus) (simp_all add: MEM_START_def)
  have m: "unat ?p mod 2 ^ 21 = 0"
  proof -
    have "0x80000000 + n * 2 ^ 21 = (1024 + n) * 2 ^ 21" by simp
    then show ?thesis unfolding u by (simp only: mod_mult_self2_is_0)
  qed
  then show "take_bit 21 ?p = 0" by (simp only: word_unat_eq_iff unsigned_take_bit_eq) (simp only: take_bit_eq_mod unsigned_0)
  have "unat ?p mod 4096 = 0"
  proof -
    have "0x80000000 + n * 2 ^ 21 = ((1024 + n) * 512) * 4096" by simp
    then show ?thesis unfolding u by (simp only: mod_mult_self2_is_0)
  qed
  then have "?p mod PGSIZE = 0" by (simp add: word_unat_eq_iff unat_mod)
  moreover have "n < 10" if "bit (prot_to_type RWX False) n" for n
  proof -
    have "prot_to_type RWX False = take_bit 10 0xCE"
      by (simp add: prot_to_type_def pte_bits PROT_READ_def PROT_WRITE_def PROT_EXEC_def)
    then show ?thesis using that by (simp only: bit_take_bit_iff)
  qed
  ultimately have c: "child (mega_entry n) = ?p"
    unfolding mega_entry_def using pte_create_child(1) [of ?p "prot_to_type RWX False"] by (simp add: ppn_def)
  then show "phys (mega_entry n) = ?p" using u assms by (subst phys_child) simp_all
qed


lemma mega_grants:
  "mega_entry n AND PTE_V \<noteq> 0" "mega_entry n AND PTE_R \<noteq> 0" "mega_entry n AND PTE_W \<noteq> 0" "mega_entry n AND PTE_X \<noteq> 0"
  "mega_entry n AND PTE_U = 0" "hw_grants False (mega_entry n) acc"
proof -
  have l: "mega_entry n AND m = 0xCF AND m" if "m < 2 ^ 10" for m
    unfolding mega_entry_def
    by (subst pte_low [OF that]) (simp add: pte_create_def prot_to_type_def pte_bits PROT_READ_def PROT_WRITE_def PROT_EXEC_def)
  show "mega_entry n AND PTE_V \<noteq> 0" "mega_entry n AND PTE_R \<noteq> 0" "mega_entry n AND PTE_W \<noteq> 0" "mega_entry n AND PTE_X \<noteq> 0"
    "mega_entry n AND PTE_U = 0" "hw_grants False (mega_entry n) acc"
    by (simp_all add: hw_grants_def l pte_bits)
qed

lemma sv39_leaf:
  assumes "M (pte_at t (pt_idx va 1)) = mega_entry n" "n < 2 ^ 17"
  shows "sv39 M 1 t va = Some (mega_entry n, MEM_START + of_nat n * MEGAPAGE_SIZE + take_bit 21 va)"
  using mega_child [OF assms(2)] mega_grants(1-4) [of n] assms(1) by (subst sv39.simps) (simp add: Let_def)

lemma sv39_kernel:
  assumes "kmap s k m" "m \<le> 2 ^ 17" "KVA_START \<le> va" "unat (first_free_page s) + 4096 * unat (free_pages s) \<le> 2 ^ 56"
  defines "n \<equiv> unat (va - KVA_START) div 2 ^ 21"
  shows "sv39 (ptes s) 2 (root_pa s) va =
    (if unat (va - KVA_START) < m * 2 ^ 21 then Some (mega_entry n, va - (KVA_START - MEM_START)) else None)"
proof -
  note V = kernel_megapage [OF assms(3), folded n_def]
  have e: "ptes s (pte_at (root_pa s) (pt_idx va 2)) = root_entry s (megapage n)" by (simp add: root_entry_def V(2))
  have lt: "unat (va - KVA_START) < m * 2 ^ 21 \<longleftrightarrow> n < m" unfolding n_def by (rule div_less_iff_less_mult [symmetric]) simp
  show ?thesis
  proof (cases "n < 512 * k")
    case True
    note K = kmapD(6-8,10) [OF assms(1) True]
    have "unat (child (root_entry s (megapage n))) < 2 ^ 56"
      using used_page_props(4) [OF kmapD(1) [OF assms(1)] K(3)] assms(4) by linarith
    then have p: "phys (root_entry s (megapage n)) = child (root_entry s (megapage n))" by (rule phys_child)
    have "root_entry s (megapage n) AND PTE_R = 0 \<and> root_entry s (megapage n) AND PTE_W = 0 \<and> root_entry s (megapage n) AND PTE_X = 0"
      using K(2) by (simp add: bit.conj_disj_distrib or_eq_0_iff)
    then have d: "sv39 (ptes s) 2 (root_pa s) va = sv39 (ptes s) 1 (child (root_entry s (megapage n))) va"
      by (subst sv39.simps) (simp add: e K(1) p Let_def)
    have q: "ptes s (pte_at (child (root_entry s (megapage n))) (pt_idx va 1)) = (if n < m then mega_entry n else 0)"
      unfolding V(3) by (rule K(4))
    show ?thesis
    proof (cases "n < m")
      case True
      then have "sv39 (ptes s) 2 (root_pa s) va = Some (mega_entry n, MEM_START + of_nat n * MEGAPAGE_SIZE + take_bit 21 va)"
        unfolding d by (intro sv39_leaf V(1)) (simp only: q if_True)
      moreover have "take_bit 21 va = of_nat (unat (va - KVA_START) mod 2 ^ 21)"
      proof -
        have "(0xFFFFFFC000000000 + unat (va - KVA_START)) mod 2 ^ 21 = unat (va - KVA_START) mod 2 ^ 21"
          using mod_mult_self1 [of "unat (va - KVA_START)" "0x7FFFFFE0000" "2 ^ 21"] by (simp add: add.commute)
        then show ?thesis by (simp only: word_unat_eq_iff unsigned_take_bit_eq V(4)) (simp add: take_bit_eq_mod unat_u64_of_nat)
      qed
      moreover have "of_nat n * MEGAPAGE_SIZE + of_nat (unat (va - KVA_START) mod 2 ^ 21) = va - KVA_START"
      proof -
        have "of_nat n * MEGAPAGE_SIZE + of_nat (unat (va - KVA_START) mod 2 ^ 21)
          = (of_nat (n * 2 ^ 21 + unat (va - KVA_START) mod 2 ^ 21) :: u64)" by (simp add: MEGAPAGE_SIZE_def)
        then show ?thesis unfolding n_def div_mult_mod_eq by simp
      qed
      ultimately show ?thesis using True lt by (simp add: algebra_simps)
    next
      case False
      then have "ptes s (pte_at (child (root_entry s (megapage n))) (pt_idx va 1)) = 0" using q by simp
      then have "sv39 (ptes s) 1 (child (root_entry s (megapage n))) va = None" by (subst sv39.simps) (simp only: Let_def, simp)
      then show ?thesis using False d lt by simp
    qed
  next
    case False
    then have "k \<le> n div 512" by (simp add: less_eq_div_iff_mult_less_eq mult.commute)
    then have "root_entry s (megapage n) = 0" using kmapD(5) [OF assms(1), of "megapage n"] megapage_idx(1) [OF V(1)] by simp
    moreover have "\<not> n < m" using False kmapD(4) [OF assms(1)] by simp
    ultimately show ?thesis using lt by (subst sv39.simps) (simp add: e Let_def)
  qed
qed

lemma sv39_user:
  assumes "kmap s k m" "user_va va"
  shows "sv39 (ptes s) 2 (root_pa s) va = None"
  using kmapD(5) [OF assms(1), of va] user_slot [OF assms(2)] by (subst sv39.simps) (simp add: root_entry_def Let_def)


section \<open>pk_vm_init\<close>

text \<open>The kernel's globals at reset.\<close>

definition at_reset :: "('h, 'z) vm_st_scheme \<Rightarrow> bool" where
  "at_reset s \<longleftrightarrow> next_free_page s = 0 \<and> page_freelist_depth s = 0 \<and> kva2pa_offset s = 0 \<and> vmr_freelist_head s = 0
     \<and> vmrs s = (\<lambda>_. blank_vmr) \<and> pages_promised s = 0 \<and> \<not> vm_lock s \<and> brk (current s) = 0 \<and> vm_alloc_guess (current s) = 0"

text \<open>Of \<open>m\<close> megapages of memory, start-up takes \<open>m\<close> pages for the storage of the free list, the root, a table
  for every 512 megapages, and the stack.\<close>

definition boot_pages :: "nat \<Rightarrow> nat" where
  "boot_pages m = m + (m + 511) div 512 + 2"

definition early_boot :: "u64 \<Rightarrow> ('h, 'z) vm_st_scheme \<Rightarrow> ('h, 'z) vm_st_scheme" where
  "early_boot last_static_addr s =
     (let s = init_early_alloc last_static_addr s;
          num_freelist_nodes = mem_size s div PGSIZE;
          (storage, s) = early_alloc s (num_freelist_nodes * 8)
      in s\<lparr>page_freelist_storage := replicate (if storage = 0 then 0 else unat num_freelist_nodes) 0\<rparr>)"

lemma pk_vm_init_early:
  "pk_vm_init la s =
     bindE (page_alloc_assert (early_boot la s)) (\<lambda>(root, s).
     bindE (map_kernel_range KVA_START MEM_START (mem_size s) RWX (s\<lparr>root_page_table := root\<rparr>)) (\<lambda>s.
     bindE (page_alloc_assert s) (\<lambda>(stack, s).
       let s = s\<lparr>kva2pa_offset := KVA_START - MEM_START\<rparr>
       in Inr (stack + PGSIZE, s\<lparr>root_page_table := pa2kva s (root_page_table s)\<rparr>))))"
  by (simp add: pk_vm_init_def early_boot_def Let_def split: prod.split)

lemma ROUNDUP_aligned: "ROUNDUP a PGSIZE mod PGSIZE = 0"
proof -
  have "unat (x * PGSIZE) mod 4096 = 0" for x :: u64
    unfolding unat_word_ariths(2) by (subst mod_mod_cancel) simp_all
  moreover have "unat (PGSIZE :: u64) = 4096" by simp
  ultimately show ?thesis by (simp only: ROUNDUP_def word_unat_eq_iff unat_mod unsigned_0)
qed

lemma ROUNDUP_exact:
  assumes "0 < m" "m \<le> 2 ^ 17"
  shows "ROUNDUP (of_nat (512 * m) * 8) PGSIZE div PGSIZE = of_nat m"
proof -
  have w: "unat (of_nat n :: u64) = n" if "n \<le> 2 ^ 30" for n using that by (intro unat_u64_of_nat) simp
  have "of_nat (512 * m) * 8 - 1 = (of_nat (4096 * m - 1) :: u64)" using assms(1) by (simp add: of_nat_diff)
  moreover have "of_nat (4096 * m - 1) div PGSIZE = (of_nat (m - 1) :: u64)"
  proof -
    have "(4096 * m - 1) div 4096 = m - 1" using assms(1) by (cases m) simp_all
    moreover have "unat (of_nat (4096 * m - 1) :: u64) = 4096 * m - 1" "unat (of_nat (m - 1) :: u64) = m - 1"
      using assms(2) by (intro w; simp)+
    ultimately show ?thesis by (simp only: word_unat_eq_iff unat_div) simp
  qed
  moreover have "of_nat (m - 1) + 1 = (of_nat m :: u64)" using assms(1) by (simp add: of_nat_diff)
  moreover have "of_nat m * PGSIZE div PGSIZE = (of_nat m :: u64)"
  proof -
    have "unat (of_nat m * PGSIZE :: u64) = m * 4096" using assms(2) w [of "m * 4096"] by simp
    then show ?thesis using assms(2) by (simp only: word_unat_eq_iff unat_div) (simp add: w)
  qed
  ultimately show ?thesis by (simp add: ROUNDUP_def)
qed

lemma early_boot_ok:
  fixes s :: "('h, 'z) vm_st_scheme" and la :: u64
  assumes "at_reset s" "unat (C_MIN (mem_size s) (- KVA_START)) = m * 2 ^ 21"
  defines "first \<equiv> ROUNDUP la PGSIZE"
  assumes "MEM_START \<le> first" "unat first + 4096 * boot_pages m \<le> 0x80000000 + m * 2 ^ 21"
  defines "t \<equiv> early_boot la s"
  shows "page_ok t" "free_count t + m = unat (free_pages t)" "boot_pages m \<le> unat (free_pages t)" "m \<le> 2 ^ 17" "first_free_page t = first"
    "unat first + 4096 * unat (free_pages t) \<le> 0x80000000 + m * 2 ^ 21" "mem_size t = C_MIN (mem_size s) (- KVA_START)"
    "current t = (current s)\<lparr>mmap_max := 0x4000000000, brk_max := 0x4000000000\<rparr>" "kva2pa_offset t = 0"
    "vmr_freelist_head t = 0" "vmrs t = (\<lambda>_. blank_vmr)" "pages_promised t = 0" "\<not> vm_lock t"
proof -
  let ?mem = "C_MIN (mem_size s) (- KVA_START)"
  let ?free = "(?mem - (first - MEM_START)) div PGSIZE"
  have "?mem \<le> - KVA_START" by (auto simp: C_MIN_def)
  then have "unat ?mem \<le> 2 ^ 38" by (simp add: KVA_START_val word_le_nat_alt)
  then show m: "m \<le> 2 ^ 17" using assms(2) by simp
  have m0: "0 < m" using assms(4,5) by (cases m) (simp_all add: boot_pages_def MEM_START_def word_le_nat_alt)
  have f: "0x80000000 \<le> unat first" using assms(4) by (simp add: MEM_START_def word_le_nat_alt)
  have d: "unat (first - MEM_START) = unat first - 0x80000000"
    using f by (subst unat_sub) (simp_all add: MEM_START_def word_le_nat_alt)
  have "unat (first - MEM_START) \<le> unat ?mem" using assms(2,5) d by simp
  then have fr: "unat ?free = (m * 2 ^ 21 - (unat first - 0x80000000)) div 4096"
    using d assms(2) by (simp add: unat_div unat_sub word_le_nat_alt)
  have fn: "boot_pages m \<le> unat ?free" unfolding fr using assms(5) f
    by (subst less_eq_div_iff_mult_less_eq) simp_all
  have fb: "unat first + 4096 * unat ?free \<le> 0x80000000 + m * 2 ^ 21"
  proof -
    have "4096 * unat ?free \<le> m * 2 ^ 21 - (unat first - 0x80000000)" unfolding fr by (rule times_div_less_eq_dividend)
    moreover have "unat first \<le> 0x80000000 + m * 2 ^ 21" using assms(5) by simp
    ultimately show ?thesis using f by linarith
  qed
  have nn: "?mem div PGSIZE = of_nat (512 * m)" "unat (?mem div PGSIZE) = 512 * m"
  proof -
    show "unat (?mem div PGSIZE) = 512 * m" by (simp add: unat_div assms(2))
    moreover have "unat (of_nat (512 * m) :: u64) = 512 * m" using m by (intro unat_u64_of_nat) simp
    ultimately show "?mem div PGSIZE = of_nat (512 * m)" by (simp only: word_unat_eq_iff)
  qed
  have rd: "ROUNDUP (?mem div PGSIZE * 8) PGSIZE div PGSIZE = of_nat m" unfolding nn(1) by (rule ROUNDUP_exact [OF m0 m])
  have al: "first mod PGSIZE = 0" unfolding first_def by (rule ROUNDUP_aligned)
  have st: "unat (of_nat m :: u64) = m" using m by (intro unat_u64_of_nat) simp
  have mf: "m \<le> unat ?free" using fn by (simp add: boot_pages_def)
  have f0: "first \<noteq> 0" using f by auto
  have ea: "early_alloc u (?mem div PGSIZE * 8) = (first, u\<lparr>next_free_page := of_nat m\<rparr>)"
    if "next_free_page u = 0" "free_pages u = ?free" "first_free_page u = first" for u :: "('h, 'z) vm_st_scheme"
    using that mf st by (simp add: early_alloc_def early_pgalloc_align_def rd free_page_addr_def word_less_nat_alt)
  have t: "t = s\<lparr>mem_size := ?mem, current := (current s)\<lparr>mmap_max := - KVA_START, brk_max := - KVA_START\<rparr>, first_free_page := first,
    free_pages := ?free, next_free_page := of_nat m, page_freelist_storage := replicate (512 * m) 0\<rparr>"
    unfolding t_def early_boot_def init_early_alloc_def Let_def
    using assms(1) f0 nn(2) by (simp add: ea at_reset_def flip: first_def)
  have "freelist t = []" unfolding t using assms(1) by (simp add: freelist_def at_reset_def)
  moreover have "unat ?free \<le> 512 * m" unfolding fr using div_le_mono [of "m * 2 ^ 21 - (unat first - 0x80000000)" "m * 2 ^ 21" 4096] by simp
  moreover note mf
  moreover have "unat first + 4096 * unat ?free < 2 ^ 64" using fb m by simp
  moreover note f0
  ultimately show "page_ok t" "free_count t + m = unat (free_pages t)"
    using assms(1) al st by (simp_all add: page_ok_def free_count_def) (simp_all add: t word_le_nat_alt at_reset_def)
  show "boot_pages m \<le> unat (free_pages t)" "first_free_page t = first"
    "unat first + 4096 * unat (free_pages t) \<le> 0x80000000 + m * 2 ^ 21" "mem_size t = ?mem"
    "current t = (current s)\<lparr>mmap_max := 0x4000000000, brk_max := 0x4000000000\<rparr>" "kva2pa_offset t = 0"
    "vmr_freelist_head t = 0" "vmrs t = (\<lambda>_. blank_vmr)" "pages_promised t = 0" "\<not> vm_lock t"
    using fn fb assms(1) by (simp_all add: t at_reset_def) (simp add: KVA_START_val)
qed


lemma boot_fields:
  assumes "boot_same s s'"
  shows "vmr_freelist_head s' = vmr_freelist_head s" "vmrs s' = vmrs s" "pages_promised s' = pages_promised s" "vm_lock s' = vm_lock s"
    "mem_size s' = mem_size s" "current s' = current s" "first_free_page s' = first_free_page s" "free_pages s' = free_pages s"
    "kva2pa_offset s' = kva2pa_offset s" "root_page_table s' = root_page_table s"
  using assms vm_fields [of s' s] by (simp_all add: boot_same_def)

lemma page_globals [simp]:
  "page_ok (s\<lparr>root_page_table := r\<rparr>) = page_ok s" "used_pages (s\<lparr>root_page_table := r\<rparr>) = used_pages s"
  "free_count (s\<lparr>root_page_table := r\<rparr>) = free_count s"
  "page_ok (s\<lparr>kva2pa_offset := o'\<rparr>) = page_ok s" "used_pages (s\<lparr>kva2pa_offset := o'\<rparr>) = used_pages s"
  "free_count (s\<lparr>kva2pa_offset := o'\<rparr>) = free_count s"
  by (simp_all add: page_ok_def used_pages_def free_count_def freelist_def bump_pages_def free_page_addr_def)

lemma kernel_range_ok:
  fixes s :: "('h, 'z) vm_st_scheme"
  assumes "kmap s 0 0" "kva2pa_offset s = 0" "unat mem = m * 2 ^ 21" "m \<le> 2 ^ 17" "(m + 511) div 512 \<le> free_count s"
  obtains s' where "map_kernel_range KVA_START MEM_START mem RWX s = Inr s'" "kmap s' ((m + 511) div 512) m" "boot_same s s'"
    "free_count s' + (m + 511) div 512 = free_count s"
proof -
  have mem: "mem = of_nat m * MEGAPAGE_SIZE" using assms(3) megapages_nat [OF assms(4)] by (simp add: word_unat_eq_iff)
  have "take_bit 21 mem = 0" by (simp only: word_unat_eq_iff unsigned_take_bit_eq assms(3)) (simp add: take_bit_eq_mod)
  then have "take_bit 21 (KVA_START OR MEM_START OR mem) = 0" by (simp add: KVA_START_val MEM_START_def take_bit_or)
  then have al: "(KVA_START OR MEM_START OR mem) mod MEGAPAGE_SIZE = 0" by (simp add: take_bit_eq_mod MEGAPAGE_SIZE_def)
  have "\<exists>s'. map_kernel_loop RWX (megapage 0) (MEM_START + of_nat 0 * MEGAPAGE_SIZE) (of_nat m * MEGAPAGE_SIZE) s = Some (Inr s')
    \<and> kmap s' ((m + 511) div 512) m \<and> boot_same s s' \<and> free_count s' + ((m + 511) div 512 - (0 + 511) div 512) = free_count s"
    by (rule kmap_loop) (use assms in simp_all)
  then show thesis using that al unfolding map_kernel_range_def kassert_def mem by (auto simp: megapage_def)
qed

lemma vm_init_ok:
  fixes s :: "('h, 'z) vm_st_scheme" and la :: u64
  assumes "at_reset s" "unat (C_MIN (mem_size s) (- KVA_START)) = m * 2 ^ 21" "MEM_START \<le> ROUNDUP la PGSIZE"
    and "unat (ROUNDUP la PGSIZE) + 4096 * boot_pages m \<le> 0x80000000 + m * 2 ^ 21"
  obtains p s' where "pk_vm_init la s = Inr (p + PGSIZE, s')" "kmap s' ((m + 511) div 512) m" "m \<le> 2 ^ 17"
    "p \<in> used_pages s' - table_pages s'" "free_count s' + boot_pages m = unat (free_pages s')" "vm_ok s'" "\<not> vm_lock s'" "layout s'"
    "pages_promised s' = 0" "mem_size s' = C_MIN (mem_size s) (- KVA_START)"
proof -
  define t where "t = early_boot la s"
  let ?mem = "C_MIN (mem_size s) (- KVA_START)" and ?k = "(m + 511) div 512"
  note E = early_boot_ok [OF assms, folded t_def]
  have fc: "?k + 2 \<le> free_count t" using E(2,3) by (simp add: boot_pages_def)
  then have "0 < free_count t" by simp
  then obtain r t1 where r: "page_alloc t = Inr (r, t1)" "r \<noteq> 0" "page_ok t1" "used_pages t1 = insert r (used_pages t)"
    "Suc (free_count t1) = free_count t" "ptes t1 = (\<lambda>a. if unat (a - r) < 4096 then 0 else ptes t a)"
    "page_st.more t1 = page_st.more t" "first_free_page t1 = first_free_page t" "free_pages t1 = free_pages t"
    by (rule boot_alloc [OF E(1)]) (rule that; assumption)
  have b1: "boot_same t t1" using r(7-9) by (simp add: boot_same_def)
  note F1 = boot_fields [OF b1]
  let ?t2 = "t1\<lparr>root_page_table := r\<rparr>"
  have rp: "root_pa ?t2 = r" using F1(9) E(9) by (simp add: root_pa_def kva2pa_def)
  have "root_entry ?t2 va = 0" for va unfolding root_entry_def rp using slot_in_page [of r va 2] by (simp add: r(6))
  then have k2: "kmap ?t2 0 0" using r(3,4) by (simp add: kmap_def rp)
  have "kva2pa_offset ?t2 = 0" "?k \<le> free_count ?t2" using F1(9) E(9) r(5) fc by (simp_all add: free_count_def)
  from kernel_range_ok [OF k2 this(1) assms(2) E(4) this(2)] obtain t3 where
    t3: "map_kernel_range KVA_START MEM_START ?mem RWX ?t2 = Inr t3" "kmap t3 ?k m" "boot_same ?t2 t3" "free_count t3 + ?k = free_count ?t2" .
  note F3 = boot_fields [OF t3(3)]
  have "free_count ?t2 = free_count t1" by (simp add: free_count_def)
  then have "0 < free_count t3" using t3(4) r(5) fc by simp
  then obtain p t4 where p: "page_alloc t3 = Inr (p, t4)" "p \<noteq> 0" "p \<notin> used_pages t3" "p mod PGSIZE = 0" "page_ok t4"
    "used_pages t4 = insert p (used_pages t3)" "Suc (free_count t4) = free_count t3" "ptes t4 = (\<lambda>a. if unat (a - p) < 4096 then 0 else ptes t3 a)"
    "page_st.more t4 = page_st.more t3" "first_free_page t4 = first_free_page t3" "free_pages t4 = free_pages t3"
    by (rule boot_alloc [OF kmapD(1) [OF t3(2)]]) (rule that; assumption)
  have b4: "boot_same t3 t4" using p(9-11) by (simp add: boot_same_def)
  note F4 = boot_fields [OF b4]
  have K4: "kmap t4 ?k m"
    by (rule kmap_transfer [OF t3(2) p(5)]) (use p(6) boot_same_root [OF b4] alloc_slots [OF kmapD(1) [OF t3(2)] _ p(3,4,8)] in auto)
  let ?u = "t4\<lparr>kva2pa_offset := KVA_START - MEM_START\<rparr>"
  let ?s = "?u\<lparr>root_page_table := pa2kva ?u (root_page_table t4)\<rparr>"
  have off: "kva2pa_offset t4 = 0" using F4(9) F3(9) F1(9) E(9) by simp
  have rs: "root_pa ?s = root_pa t4" using off by (simp add: root_pa_def kva2pa_def pa2kva_def)
  have K: "kmap ?s ?k m" by (rule kmap_transfer [OF K4 _ _ rs]) (use p(5) in simp_all)
  have run: "pk_vm_init la s = Inr (p + PGSIZE, ?s)"
    unfolding pk_vm_init_early t_def [symmetric] page_alloc_assert_def r(1) using r(2) E(7) F1(5) p(1,2)
    by (simp add: t3(1) Let_def)
  have ok: "vm_ok ?s"
    by (rule kmap_vm_ok [OF K]) (use F4 F3 F1 E(4-6,10,11) in \<open>simp_all add: even_ptr_def blank_vmr_def\<close>)
  have "p \<notin> table_pages ?s"
  proof -
    have "\<not> (\<exists>va. user_va va \<and> tab0 ?s va = Some p)" using kmap_user(2) [OF K] by auto
    moreover have "tab1 ?s va \<noteq> Some p" for va
    proof
      assume "tab1 ?s va = Some p"
      then obtain n where n: "n < 512 * ?k" "p = child (root_entry ?s (megapage n))" by (rule kmap_tab1 [OF K])
      have "root_entry ?s (megapage n) = root_entry t4 (megapage n)" unfolding root_entry_def rs by simp
      also have "\<dots> = root_entry t3 (megapage n)"
        unfolding root_entry_def using boot_same_root [OF b4] alloc_slots [OF kmapD(1) [OF t3(2)] kmapD(2) [OF t3(2)] p(3,4,8)] by simp
      finally show False using kmapD(8) [OF t3(2) n(1)] n(2) p(3) by simp
    qed
    moreover have "p \<noteq> root_pa ?s" using kmapD(2) [OF t3(2)] p(3) rs boot_same_root [OF b4] by auto
    ultimately show ?thesis by (auto simp: table_pages_def)
  qed
  then have "p \<in> used_pages ?s - table_pages ?s" using p(6) by simp
  moreover have "free_count ?s + boot_pages m = unat (free_pages ?s)"
    using E(2) r(5) t3(4) p(7) F4(8) F3(8) F1(8) by (simp add: boot_pages_def free_count_def)
  moreover have "\<not> vm_lock ?s" "pages_promised ?s = 0" "mem_size ?s = ?mem" using F4 F3 F1 E(7,12,13) by simp_all
  moreover have "layout ?s" using F4 F3 F1 E(5,8) assms(1,3) by (simp add: layout_def at_reset_def)
  ultimately show thesis using that run K E(4) ok by blast
qed


text \<open>C5. With a whole number \<open>m\<close> of megapages of memory and room behind the kernel's image for what start-up
  allocates, \<^verbatim>\<open>pk_vm_init\<close> succeeds.  Walking the page table it built as the hardware does, every kernel
  address within memory translates to its physical address by an entry that lets the kernel read, write
  and execute and user code nothing, every other kernel address and every user address faults; the
  kernel may start to serve programs on this address space; and the stack is a page of its own.\<close>

theorem pk_vm_init_correct:
  fixes s :: "('h, 'z) pk_st_scheme" and la :: u64
  assumes "at_reset s" "unat (C_MIN (mem_size s) (- KVA_START)) = m * 2 ^ 21" "MEM_START \<le> ROUNDUP la PGSIZE"
    and "unat (ROUNDUP la PGSIZE) + 4096 * boot_pages m \<le> 0x80000000 + m * 2 ^ 21"
  shows "\<exists>stack s'. pk_vm_init la s = Inr (stack, s') \<and> vm_reach H s'
    \<and> stack - PGSIZE \<in> used_pages s' - table_pages s' \<and> free_count s' + boot_pages m = unat (free_pages s')
    \<and> (\<forall>va. user_va va \<longrightarrow> leaf s' va = 0 \<and> sv39 (ptes s') 2 (root_pa s') va = None)
    \<and> (\<forall>va. KVA_START \<le> va \<longrightarrow> map_option snd (sv39 (ptes s') 2 (root_pa s') va) = hw_kernel s' va)
    \<and> (\<forall>va e pa acc. KVA_START \<le> va \<longrightarrow> sv39 (ptes s') 2 (root_pa s') va = Some (e, pa)
          \<longrightarrow> hw_grants False e acc \<and> e AND PTE_X \<noteq> 0 \<and> e AND PTE_U = 0)"
proof -
  obtain p s' where S: "pk_vm_init la s = Inr (p + PGSIZE, s')" "kmap s' ((m + 511) div 512) m" "m \<le> 2 ^ 17"
    "p \<in> used_pages s' - table_pages s'" "free_count s' + boot_pages m = unat (free_pages s')" "vm_ok s'" "\<not> vm_lock s'" "layout s'"
    "pages_promised s' = 0" "mem_size s' = C_MIN (mem_size s) (- KVA_START)"
    by (rule vm_init_ok [OF assms])
  have "\<forall>va. user_va va \<longrightarrow> leaf s' va = 0" using kmap_user(3) [OF S(2)] by blast
  then have reach: "vm_reach H s'" using vm_reach.start S(6-9) by blast
  have b: "unat (first_free_page s') + 4096 * unat (free_pages s') \<le> 2 ^ 56" using S(6) by (simp add: vm_ok_def)
  have off: "kva2pa_offset s' = KVA_START - MEM_START" using S(6) by (simp add: vm_ok_def)
  have "map_option snd (sv39 (ptes s') 2 (root_pa s') va) = hw_kernel s' va" if "KVA_START \<le> va" for va
    unfolding sv39_kernel [OF S(2,3) that b] hw_kernel_def kva2pa_def off S(10)
    using that assms(2) by (simp add: word_less_nat_alt)
  moreover have "hw_grants False e acc \<and> e AND PTE_X \<noteq> 0 \<and> e AND PTE_U = 0"
    if "KVA_START \<le> va" "sv39 (ptes s') 2 (root_pa s') va = Some (e, pa)" for va e pa acc
    using that(2) unfolding sv39_kernel [OF S(2,3) that(1) b] using mega_grants(4-6) by (auto split: if_splits)
  moreover have "leaf s' va = 0 \<and> sv39 (ptes s') 2 (root_pa s') va = None" if "user_va va" for va
    using kmap_user(3) [OF S(2) that] sv39_user [OF S(2) that] by simp
  ultimately show ?thesis using S(1,4,5) reach by (intro exI [of _ "p + PGSIZE"] exI [of _ s']) simp
qed

definition reset_pk :: "unit pk_st" where
  "reset_pk = (fresh_pk ())\<lparr>next_free_page := 0, page_freelist_depth := 0, kva2pa_offset := 0, vmr_freelist_head := 0,
     vmrs := \<lambda>_. blank_vmr, pages_promised := 0, vm_lock := False, mem_size := 0x800000,
     current := (current (fresh_pk ()))\<lparr>brk := 0, vm_alloc_guess := 0\<rparr>\<rparr>"

lemma pk_vm_init_correct_witness:
  "\<exists>stack s' :: unit pk_st. pk_vm_init 0x80001234 reset_pk = Inr (stack, s')
    \<and> map_option snd (sv39 (ptes s') 2 (root_pa s') 0xFFFFFFC000201234) = hw_kernel s' 0xFFFFFFC000201234
    \<and> sv39 (ptes s') 2 (root_pa s') 0x10000 = None \<and> vm_reach (\<lambda>_ m h. (0, m, h)) s'"
proof -
  have a: "at_reset reset_pk" by (simp add: at_reset_def reset_pk_def)
  have b: "unat (C_MIN (mem_size reset_pk) (- KVA_START)) = 4 * 2 ^ 21" by (simp add: C_MIN_def KVA_START_val reset_pk_def)
  have c: "MEM_START \<le> ROUNDUP 0x80001234 PGSIZE"
    "unat (ROUNDUP 0x80001234 PGSIZE) + 4096 * boot_pages 4 \<le> 0x80000000 + 4 * 2 ^ 21"
    by (simp_all add: MEM_START_def ROUNDUP_def boot_pages_def)
  from pk_vm_init_correct [OF a b c, of "\<lambda>_ m h. (0, m, h)"] obtain stack s' where s: "pk_vm_init 0x80001234 reset_pk = Inr (stack, s')" "vm_reach (\<lambda>_ m h. (0, m, h)) s'"
    "\<forall>va. user_va va \<longrightarrow> leaf s' va = 0 \<and> sv39 (ptes s') 2 (root_pa s') va = None"
    "\<forall>va. KVA_START \<le> va \<longrightarrow> map_option snd (sv39 (ptes s') 2 (root_pa s') va) = hw_kernel s' va"
    by (elim exE conjE)
  have "user_va 0x10000" "KVA_START \<le> 0xFFFFFFC000201234" by (simp_all add: user_va_def KVA_START_val)
  then show ?thesis using s by blast
qed

end
