(* ===== verification/PK_IoProps.thy ===== *)
theory PK_IoProps
  imports PK_UserMem
begin

text \<open>
  The transfer system calls from end to end: what the host receives of a \<^verbatim>\<open>write\<close> and what the
  program finds in its memory after a \<^verbatim>\<open>read\<close>, through descriptors, kernel buffers, page faults and
  the rounds of the transfer loops.
\<close>

section \<open>Hosts\<close>

text \<open>The documented behaviour of the host's \<^verbatim>\<open>write\<close> and \<^verbatim>\<open>read\<close> on an ordinary file: all the bytes are
  taken, and as many as there are (up to the number asked for) are given.\<close>

definition host_takes :: "'h htif \<Rightarrow> u32 \<Rightarrow> ('h \<Rightarrow> u8 list) \<Rightarrow> bool" where
  "host_takes H k log \<longleftrightarrow> (\<forall>pa n m h. n \<le> MAX_BUF \<longrightarrow>
     (\<exists>h'. H [SYS_write, scast k, pa, n, 0, 0, 0, 0] m h = (n, m, h') \<and> log h' = log h @ read_bytes m pa (unat n)))"

definition host_gives :: "'h htif \<Rightarrow> u32 \<Rightarrow> ('h \<Rightarrow> u8 list) \<Rightarrow> bool" where
  "host_gives H k inp \<longleftrightarrow> (\<forall>pa n m h. n \<le> MAX_BUF \<longrightarrow>
     (\<exists>h'. H [SYS_read, scast k, pa, n, 0, 0, 0, 0] m h
         = (of_nat (length (take (unat n) (inp h))), write_bytes pa (take (unat n) (inp h)) m, h')
       \<and> inp h' = drop (unat n) (inp h)))"

section \<open>Views of related states\<close>

definition user_bytes :: "('h, 'z) pk_st_scheme \<Rightarrow> u64 \<Rightarrow> nat \<Rightarrow> u8 list" where
  "user_bytes s a n = map (\<lambda>i. the (memory_view s (a + of_nat i))) [0..<n]"

lemma user_bytes_append: "user_bytes s a (m + n) = user_bytes s a m @ user_bytes s (a + of_nat m) n"
  by (rule nth_equalityI) (auto simp: user_bytes_def nth_append algebra_simps)

text \<open>The state after a transfer: the program sees the memory \<open>v\<close>; files and permissions stay.\<close>

definition transfers :: "('h, 'z) pk_st_scheme \<Rightarrow> (u64 \<Rightarrow> u8 option) \<Rightarrow> ('h, 'z) pk_st_scheme \<Rightarrow> bool" where
  "transfers s v s' \<longleftrightarrow> backed s' \<and> (\<forall>acc. can_access acc s' = can_access acc s)
     \<and> (\<forall>a. user_va a \<longrightarrow> memory_view s' a = v a) \<and> fds s' = fds s \<and> files s' = files s"

lemma can_split:
  "user_can acc s a \<longleftrightarrow> can_access acc s a \<and> user_va a" "kernel_can s a \<longleftrightarrow> can_access acc s a \<and> \<not> user_va a"
  using user_not_kernel [of a] by (auto simp: can_access_def user_can_def kernel_can_def)

lemma can_cong:
  assumes "\<And>acc. can_access acc s' = can_access acc s"
  shows "user_can acc s' = user_can acc s" "kernel_can s' = kernel_can s"
  using assms by (simp_all add: fun_eq_iff can_split(1) can_split(2) [of _ _ PROT_READ])

lemma small_not_negative: "unat w < 2 ^ 63 \<Longrightarrow> \<not> sint (w :: u64) < 0"
  using take_bit_small [of w 63] bit_take_bit_iff [of 63 w 63] bit_last_iff [of w] by auto

lemma same_space:
  assumes "quiet s s'" "vmr_freelist_head s' = vmr_freelist_head s" "vmrs s' = vmrs s" "vm_lock s' = vm_lock s"
    "current s' = current s" "mem_size s' = mem_size s"
  shows "backed s' = backed s" "can_access acc s' = can_access acc s" "place s' = place s"
    "pmem s' = pmem s \<Longrightarrow> memory_view s' = memory_view s"
proof -
  note Q = quiet_space [OF assms]
  note L = quiet_views(4) [OF assms(1)]
  have k: "kva2pa s' = kva2pa s" using assms(1) by (simp add: quiet_def kva2pa_def fun_eq_iff)
  show "backed s' = backed s" using Q assms(4) by (simp add: backed_def)
  show "can_access acc s' = can_access acc s" using Q by (simp add: can_access_def fun_eq_iff)
  show "place s' = place s" using Q L k by (simp add: place_def fun_eq_iff)
  show "memory_view s' = memory_view s" if "pmem s' = pmem s"
    using Q L k that assms(3) by (simp add: memory_view_def fun_eq_iff)
qed

lemma host_space:
  "backed (s\<lparr>pmem := m, host := h\<rparr>) = backed s" "can_access acc (s\<lparr>pmem := m, host := h\<rparr>) = can_access acc s"
  "place (s\<lparr>pmem := m, host := h\<rparr>) = place s"
  by (rule same_space; simp add: quiet_def)+

lemma host_only:
  "backed (s\<lparr>host := h\<rparr>) = backed s" "can_access acc (s\<lparr>host := h\<rparr>) = can_access acc s"
  "memory_view (s\<lparr>host := h\<rparr>) = memory_view s"
  by (rule same_space; simp add: quiet_def)+

lemma buffer_bytes:
  assumes "\<forall>i < n. kernel_can s (k + of_nat i)"
  shows "read_bytes (pmem s) (kva2pa s k) n = user_bytes s k n"
proof -
  have "memory_view s (k + of_nat i) = Some (pmem s (kva2pa s k + of_nat i))" if "i < n" for i
    using assms that can_split(2) [of s "k + of_nat i"] by (simp add: memory_view_def kva2pa_def algebra_simps)
  then show ?thesis by (simp add: read_bytes_def user_bytes_def)
qed

lemma C_MIN_nat: "unat (C_MIN a b) = min (unat a) (unat b)"
  by (simp add: C_MIN_def word_less_nat_alt min_def)

section \<open>Writing\<close>

lemma write_chunk:
  assumes ok: "backed t" and H: "host_takes H (kfd (files t f)) log" and cur: "0 < cur" "cur \<le> MAX_BUF"
    and u: "\<forall>i < unat cur. user_can PROT_READ t (a + of_nat i)" and k: "\<forall>i < 512. kernel_can t (kb + of_nat i)"
  shows "\<exists>t1 t2. memcpy_from_user H out kb a cur t = Inr t1 \<and> file_write H f (kva2pa t1 kb) cur t1 = (cur, t2)
    \<and> transfers t (memory_view t) t2 \<and> log (host t2) = log (host t) @ user_bytes t a (unat cur)"
proof -
  have c: "unat cur \<le> 512" using cur(2) by (simp add: MAX_BUF_def word_le_nat_alt)
  have kc: "\<forall>i < unat cur. kernel_can t (kb + of_nat i)" using k c by simp
  from memcpy_from_user_ok [OF ok disjI1 [OF cur(1)] u kc, of H out]
  obtain t1 where t1: "memcpy_from_user H out kb a cur t = Inr t1" "backed t1" "\<And>acc. can_access acc t1 = can_access acc t"
    "memory_view t1 = (\<lambda>b. if unat (b - kb) < unat cur then memory_view t (a + (b - kb)) else memory_view t b)" "keeps t t1"
    by (auto simp: becomes_def)
  have k1: "\<forall>i < unat cur. kernel_can t1 (kb + of_nat i)" using kc can_cong(2) [OF t1(3)] by simp
  have bytes: "read_bytes (pmem t1) (kva2pa t1 kb) (unat cur) = user_bytes t a (unat cur)"
  proof -
    have "memory_view t1 (kb + of_nat i) = memory_view t (a + of_nat i)" if "i < unat cur" for i
    proof -
      have "unat (of_nat i :: u64) = i" using that c by (intro unat_u64_of_nat) simp
      then show ?thesis using that t1(4) by simp
    qed
    then show ?thesis unfolding buffer_bytes [OF k1] by (simp add: user_bytes_def)
  qed
  have kf: "files t1 = files t" "fds t1 = fds t" "host t1 = host t" using t1(5) by (simp_all add: keeps_def)
  obtain h' where h: "H [SYS_write, scast (kfd (files t f)), kva2pa t1 kb, cur, 0, 0, 0, 0] (pmem t1) (host t1) = (cur, pmem t1, h')"
    "log h' = log (host t) @ user_bytes t a (unat cur)"
    using H cur(2) bytes kf(3) unfolding host_takes_def by metis
  let ?t2 = "t1\<lparr>host := h'\<rparr>"
  have fw: "file_write H f (kva2pa t1 kb) cur t1 = (cur, ?t2)"
    by (simp add: file_write_def frontend_syscall_def kf(1) h(1))
  have "memory_view t1 b = memory_view t b" if "user_va b" for b
  proof -
    have "\<not> unat (b - kb) < unat cur"
    proof
      assume "unat (b - kb) < unat cur"
      then have "kernel_can t (kb + of_nat (unat (b - kb)))" using kc by blast
      then show False using that can_split(2) [of t b PROT_READ] by simp
    qed
    then show ?thesis using t1(4) by simp
  qed
  then have "transfers t (memory_view t) ?t2"
    using t1(2,3) kf by (simp add: transfers_def host_only)
  then show ?thesis using t1(1) fw h(2) by auto
qed

lemma write_loop_ok:
  assumes "backed t" "host_takes H (kfd (files t f)) log" "tot < n"
    and "\<forall>i < unat (n - tot). user_can PROT_READ t (a + of_nat i)" "\<forall>i < 512. kernel_can t (kbuf fr + of_nat i)"
  shows "\<exists>s'. write_loop H fr f n a tot t = Some (Inr (n, s')) \<and> transfers t (memory_view t) s'
    \<and> log (host s') = log (host t) @ user_bytes t a (unat (n - tot))"
  using assms
proof (induction "unat (n - tot)" arbitrary: t a tot rule: less_induct)
  case less
  define cur where "cur = C_MIN (n - tot) MAX_BUF"
  have left: "unat (n - tot) = unat n - unat tot" using less.prems(3) by (intro unat_sub) simp
  have c: "unat cur = min (unat (n - tot)) 512" by (simp add: cur_def C_MIN_nat MAX_BUF_def)
  have pos: "0 < cur" and le: "cur \<le> MAX_BUF" and cn: "unat cur \<le> unat (n - tot)"
    using c left less.prems(3) by (simp_all add: word_less_nat_alt word_le_nat_alt MAX_BUF_def)
  have u: "\<forall>i < unat cur. user_can PROT_READ t (a + of_nat i)" using less.prems(4) cn by simp
  from write_chunk [OF less.prems(1,2) pos le u less.prems(5), of "pbuf fr"]
  obtain t1 t2 where t: "memcpy_from_user H (pbuf fr) (kbuf fr) a cur t = Inr t1"
    "file_write H f (kva2pa t1 (kbuf fr)) cur t1 = (cur, t2)" "transfers t (memory_view t) t2"
    "log (host t2) = log (host t) @ user_bytes t a (unat cur)" by blast
  have ge: "\<not> sint cur < 0" using c by (intro small_not_negative) simp
  have sum: "unat (tot + cur) = unat tot + unat cur"
    using cn left unat_u64_lt [of n] less.prems(3) by (intro unat_u64_plus) (simp add: word_less_nat_alt)
  have unfold: "write_loop H fr f n a tot t =
      (if tot + cur = n then Some (Inr (tot + cur, t2)) else write_loop H fr f n (a + cur) (tot + cur) t2)"
    by (subst write_loop.simps) (simp add: cur_def [symmetric] t(1,2) ge)
  show ?case
  proof (cases "tot + cur = n")
    case True
    then have "unat (n - tot) = unat cur" by (metis add_diff_cancel_left')
    then show ?thesis using True unfold t(3,4) by simp
  next
    case False
    have tn: "unat tot < unat n" using less.prems(3) by (simp add: word_less_nat_alt)
    have "unat (tot + cur) \<noteq> unat n" using False by (simp only: word_unat_eq_iff) simp
    then have lt: "tot + cur < n" using sum cn left tn by (simp add: word_less_nat_alt)
    have d: "unat (n - (tot + cur)) = unat (n - tot) - unat cur"
      using lt sum left by (subst unat_sub) (simp_all add: order.strict_implies_order)
    have fl: "files t2 = files t" and v: "\<And>b. user_va b \<Longrightarrow> memory_view t2 b = memory_view t b"
      and cs: "\<And>acc. can_access acc t2 = can_access acc t" and b2: "backed t2" using t(3) by (simp_all add: transfers_def)
    have ao: "a + cur + of_nat i = a + of_nat (unat cur + i)" for i by simp
    have u2: "\<forall>i < unat (n - (tot + cur)). user_can PROT_READ t2 (a + cur + of_nat i)"
      using less.prems(4) d cn unfolding ao can_cong(1) [OF cs] by (metis add.commute less_diff_conv)
    have k2: "\<forall>i < 512. kernel_can t2 (kbuf fr + of_nat i)" using less.prems(5) can_cong(2) [OF cs] by simp
    have "unat (n - (tot + cur)) < unat (n - tot)" using d pos cn by (simp add: word_less_nat_alt)
    from less.hyps [OF this b2 _ lt u2 k2] less.prems(2) fl
    obtain s' where s': "write_loop H fr f n (a + cur) (tot + cur) t2 = Some (Inr (n, s'))" "transfers t2 (memory_view t2) s'"
      "log (host s') = log (host t2) @ user_bytes t2 (a + cur) (unat (n - (tot + cur)))" by auto
    have "user_bytes t2 (a + cur) (unat (n - (tot + cur))) = user_bytes t (a + of_nat (unat cur)) (unat (n - tot) - unat cur)"
      unfolding d user_bytes_def
      by (rule map_cong) (use v u2 d in \<open>auto simp: user_can_def\<close>)
    then have "log (host s') = log (host t) @ user_bytes t a (unat (n - tot))"
      using s'(3) t(4) user_bytes_append [of t a "unat cur" "unat (n - tot) - unat cur"] cn by simp
    moreover have "transfers t (memory_view t) s'"
      using t(3) s'(2) by (simp add: transfers_def)
    ultimately show ?thesis using unfold s'(1) False by simp
  qed
qed

section \<open>Reading\<close>

lemma read_chunk:
  assumes ok: "backed t" and H: "host_gives H (kfd (files t f)) inp" and cur: "cur \<le> MAX_BUF" and u1: "user_va (a - 1)"
    and u: "\<forall>i < unat cur. user_can PROT_WRITE t (a + of_nat i)" and k: "\<forall>i < 512. kernel_can t (kb + of_nat i)"
  defines "bs \<equiv> take (unat cur) (inp (host t))"
  shows "\<exists>t1 t2. file_read H f (kva2pa t kb) cur t = (of_nat (length bs), t1)
    \<and> memcpy_to_user H out a kb (of_nat (length bs)) t1 = Inr t2
    \<and> transfers t (\<lambda>b. if unat (b - a) < length bs then Some (bs ! unat (b - a)) else memory_view t b) t2
    \<and> inp (host t2) = drop (unat cur) (inp (host t))"
proof -
  have c: "unat cur \<le> 512" using cur by (simp add: MAX_BUF_def word_le_nat_alt)
  have l: "length bs \<le> unat cur" by (simp add: bs_def)
  then have ul: "unat (of_nat (length bs) :: u64) = length bs" using c by (intro unat_u64_of_nat) simp
  obtain h' where h: "H [SYS_read, scast (kfd (files t f)), kva2pa t kb, cur, 0, 0, 0, 0] (pmem t) (host t)
      = (of_nat (length bs), write_bytes (kva2pa t kb) bs (pmem t), h')" "inp h' = drop (unat cur) (inp (host t))"
    using H [unfolded host_gives_def, rule_format, OF cur, of "kva2pa t kb" "pmem t" "host t"] unfolding bs_def by blast
  let ?t1 = "t\<lparr>pmem := write_bytes (kva2pa t kb) bs (pmem t), host := h'\<rparr>"
  have fr: "file_read H f (kva2pa t kb) cur t = (of_nat (length bs), ?t1)"
    by (simp add: file_read_def frontend_syscall_def h(1))
  have cs: "can_access acc ?t1 = can_access acc t" for acc by (rule host_space)
  note C = can_cong [OF cs]
  have vm: "vm_ok t" using ok by (simp add: backed_def)
  have pk: "place t (kb + of_nat i) = Some (kva2pa t kb + of_nat i)" if "i < 512" for i
    using k that can_split(2) [of t "kb + of_nat i" PROT_READ] by (simp add: place_def kva2pa_def algebra_simps)
  have v1: "memory_view ?t1 b = memory_view t b" if b: "user_va b" for b
  proof (cases "place t b")
    case None
    have "place ?t1 b = None" using None by (simp add: host_space)
    then show ?thesis
      using view_place(2) [OF None, of "write_bytes (kva2pa t kb) bs (pmem t)"] host_only(3) by (metis (no_types))
  next
    case (Some p)
    have "\<not> unat (p - kva2pa t kb) < length bs"
    proof
      assume "unat (p - kva2pa t kb) < length bs"
      then have i: "unat (p - kva2pa t kb) < 512" using l c by simp
      from pk [OF i] have "place t (kb + (p - kva2pa t kb)) = Some p" by simp
      then have "b = kb + (p - kva2pa t kb)" using place_inj [OF vm Some] by simp
      moreover have "kernel_can t (kb + (p - kva2pa t kb))" using k [rule_format, OF i] by simp
      ultimately show False using b can_split(2) [of t b PROT_READ] by simp
    qed
    then have "pmem ?t1 p = pmem t p" by (simp add: write_bytes_def)
    then show ?thesis using view_place(1) [of t b p] view_place(1) [of ?t1 b p] Some by (simp add: host_space)
  qed
  have vk: "memory_view ?t1 (kb + of_nat i) = Some (bs ! i)" if "i < length bs" for i
  proof -
    have i: "i < 512" "unat (of_nat i :: u64) = i" using that l c by (auto intro: unat_u64_of_nat)
    have "pmem ?t1 (kva2pa t kb + of_nat i) = bs ! i" using that i(2) by (simp add: write_bytes_def)
    then show ?thesis using view_place(1) [of ?t1 "kb + of_nat i"] pk [OF i(1)] by (simp add: host_space)
  qed
  have b1: "backed ?t1" using ok by (simp add: host_space)
  have uc: "\<forall>i < unat (of_nat (length bs) :: u64). user_can PROT_WRITE ?t1 (a + of_nat i)" unfolding C using u l ul by simp
  have kc: "\<forall>i < unat (of_nat (length bs) :: u64). kernel_can ?t1 (kb + of_nat i)" unfolding C using k l ul c by simp
  from memcpy_to_user_ok [OF b1 disjI2 [OF u1] uc kc, of H out]
  obtain t2 where t2: "memcpy_to_user H out a kb (of_nat (length bs)) ?t1 = Inr t2" "backed t2"
    "\<And>acc. can_access acc t2 = can_access acc ?t1"
    "memory_view t2 = (\<lambda>b. if unat (b - a) < length bs then memory_view ?t1 (kb + (b - a)) else memory_view ?t1 b)" "keeps ?t1 t2"
    unfolding becomes_def ul by blast
  have "memory_view ?t1 (kb + (b - a)) = Some (bs ! unat (b - a))" if "unat (b - a) < length bs" for b
    using vk [OF that] by simp
  then have "transfers t (\<lambda>b. if unat (b - a) < length bs then Some (bs ! unat (b - a)) else memory_view t b) t2"
    using t2(2-5) v1 cs by (simp add: transfers_def keeps_def)
  moreover have "inp (host t2) = drop (unat cur) (inp (host t))" using t2(5) h(2) by (simp add: keeps_def)
  ultimately show ?thesis using fr t2(1) by blast
qed

lemma chunk_split:
  fixes x c :: u64
  assumes "unat c + l \<le> 2 ^ 64"
  shows "unat (x - c) < l \<longleftrightarrow> unat c \<le> unat x \<and> unat x < unat c + l"
    and "unat c \<le> unat x \<Longrightarrow> unat (x - c) = unat x - unat c"
proof -
  show sub: "unat c \<le> unat x \<Longrightarrow> unat (x - c) = unat x - unat c"
    by (intro unat_sub) (simp add: word_le_nat_alt)
  show "unat (x - c) < l \<longleftrightarrow> unat c \<le> unat x \<and> unat x < unat c + l"
  proof (cases "unat c \<le> unat x")
    case False
    then have "unat (x - c) = 2 ^ 64 + unat x - unat c"
      using unat_u64_lt [of c] by (simp add: unat_sub_if_size word_size word_le_nat_alt)
    then show ?thesis using False assms by simp
  qed (use sub in auto)
qed

lemma read_loop_ok:
  assumes "backed t" "host_gives H (kfd (files t f)) inp" "tot < n" "user_va (a - 1)"
    and "\<forall>i < unat (n - tot). user_can PROT_WRITE t (a + of_nat i)" "\<forall>i < 512. kernel_can t (kbuf fr + of_nat i)"
  shows "let l = min (unat (n - tot)) (length (inp (host t))) in
    \<exists>s'. read_loop (\<lambda>cur tot s. Inr (file_read H f (kva2pa s (kbuf fr)) cur s))
      (\<lambda>buf r. memcpy_to_user H (pbuf fr) buf (kbuf fr) r) n a tot t = Some (Inr (tot + of_nat l, s'))
    \<and> transfers t (\<lambda>b. if unat (b - a) < l then Some (inp (host t) ! unat (b - a)) else memory_view t b) s'
    \<and> inp (host s') = drop l (inp (host t))"
  using assms
proof (induction "unat (n - tot)" arbitrary: t a tot rule: less_induct)
  case less
  let ?loop = "read_loop (\<lambda>cur tot s. Inr (file_read H f (kva2pa s (kbuf fr)) cur s))
      (\<lambda>buf r. memcpy_to_user H (pbuf fr) buf (kbuf fr) r) n"
  define cur where "cur = C_MIN (n - tot) MAX_BUF"
  define bs where "bs = take (unat cur) (inp (host t))"
  have left: "unat (n - tot) = unat n - unat tot" using less.prems(3) by (intro unat_sub) simp
  have tn: "unat tot < unat n" using less.prems(3) by (simp add: word_less_nat_alt)
  have c: "unat cur = min (unat (n - tot)) 512" by (simp add: cur_def C_MIN_nat MAX_BUF_def)
  have pos: "0 < cur" and le: "cur \<le> MAX_BUF" and cn: "unat cur \<le> unat (n - tot)"
    using c left tn by (simp_all add: word_less_nat_alt word_le_nat_alt MAX_BUF_def)
  have lb: "length bs = min (unat cur) (length (inp (host t)))" by (simp add: bs_def min.commute)
  have ul: "unat (of_nat (length bs) :: u64) = length bs" using lb c by (intro unat_u64_of_nat) simp
  have u: "\<forall>i < unat cur. user_can PROT_WRITE t (a + of_nat i)" using less.prems(5) cn by simp
  from read_chunk [OF less.prems(1,2) le less.prems(4) u less.prems(6), of "pbuf fr"]
  obtain t1 t2 where t: "file_read H f (kva2pa t (kbuf fr)) cur t = (of_nat (length bs), t1)"
    "memcpy_to_user H (pbuf fr) a (kbuf fr) (of_nat (length bs)) t1 = Inr t2"
    "transfers t (\<lambda>b. if unat (b - a) < length bs then Some (bs ! unat (b - a)) else memory_view t b) t2"
    "inp (host t2) = drop (unat cur) (inp (host t))" unfolding bs_def by blast
  have ge: "\<not> sint (of_nat (length bs) :: u64) < 0" using ul lb c by (intro small_not_negative) simp
  have lt_cur: "of_nat (length bs) < cur \<longleftrightarrow> length (inp (host t)) < unat cur"
    using ul lb by (simp add: word_less_nat_alt min_def)
  have unfold: "?loop a tot t = (if length (inp (host t)) < unat cur \<or> tot + of_nat (length bs) = n
      then Some (Inr (tot + of_nat (length bs), t2)) else ?loop (a + of_nat (length bs)) (tot + of_nat (length bs)) t2)"
    by (subst read_loop.simps) (simp add: cur_def [symmetric] t(1,2) ge lt_cur)
  have same: "bs ! i = inp (host t) ! i" if "i < length bs" for i using that by (simp add: bs_def)
  show ?case
  proof (cases "length (inp (host t)) < unat cur \<or> tot + of_nat (length bs) = n")
    case True
    have lm: "min (unat (n - tot)) (length (inp (host t))) = length bs"
    proof (cases "length (inp (host t)) < unat cur")
      case False
      then have "tot + of_nat (length bs) = n" using True by simp
      then have "unat (n - tot) = length bs" using ul by (metis add_diff_cancel_left')
      then show ?thesis using lb False by simp
    qed (use lb cn in simp)
    have "drop (unat cur) (inp (host t)) = drop (length bs) (inp (host t))" using lb by (simp add: min_def)
    then show ?thesis unfolding Let_def lm using True unfold t(3,4) same by (simp add: transfers_def)
  next
    case False
    then have lc: "length bs = unat cur" and lcur: "of_nat (length bs) = cur" using lb by simp_all
    have sum: "unat (tot + cur) = unat tot + unat cur"
      using cn left unat_u64_lt [of n] tn by (intro unat_u64_plus) simp
    have "unat (tot + cur) \<noteq> unat n" using False lcur by (simp only: word_unat_eq_iff) simp
    then have lt: "tot + cur < n" using sum cn left tn by (simp add: word_less_nat_alt)
    have d: "unat (n - (tot + cur)) = unat (n - tot) - unat cur"
      using lt sum left by (subst unat_sub) (simp_all add: order.strict_implies_order)
    have fl: "files t2 = files t" and cs: "\<And>acc. can_access acc t2 = can_access acc t" and b2: "backed t2"
      and v: "\<And>b. user_va b \<Longrightarrow> memory_view t2 b = (if unat (b - a) < unat cur then Some (inp (host t) ! unat (b - a)) else memory_view t b)"
      using t(3) same lc by (simp_all add: transfers_def)
    have ao: "a + cur + of_nat i = a + of_nat (unat cur + i)" for i by simp
    have u2: "\<forall>i < unat (n - (tot + cur)). user_can PROT_WRITE t2 (a + cur + of_nat i)"
      using less.prems(5) d cn unfolding ao can_cong(1) [OF cs] by (metis add.commute less_diff_conv)
    have k2: "\<forall>i < 512. kernel_can t2 (kbuf fr + of_nat i)" using less.prems(6) can_cong(2) [OF cs] by simp
    have "unat cur - 1 < unat cur" using pos by (simp add: word_less_nat_alt)
    then have "user_va (a + of_nat (unat cur - 1))" using u by (simp only: user_can_def)
    moreover have "of_nat (unat cur - 1) = cur - 1" using pos by (simp add: of_nat_diff word_less_nat_alt Suc_leI)
    ultimately have u1: "user_va (a + cur - 1)" by (simp add: add_diff_eq)
    have "unat (n - (tot + cur)) < unat (n - tot)" using d pos cn by (simp add: word_less_nat_alt)
    define l' where "l' = min (unat (n - (tot + cur))) (length (inp (host t2)))"
    from less.hyps [OF \<open>unat (n - (tot + cur)) < unat (n - tot)\<close> b2 _ lt u1 u2 k2] less.prems(2) fl
    obtain s' where s': "?loop (a + cur) (tot + cur) t2 = Some (Inr (tot + cur + of_nat l', s'))"
      "transfers t2 (\<lambda>b. if unat (b - (a + cur)) < l' then Some (inp (host t2) ! unat (b - (a + cur))) else memory_view t2 b) s'"
      "inp (host s') = drop l' (inp (host t2))" unfolding l'_def Let_def by auto
    have lm: "min (unat (n - tot)) (length (inp (host t))) = unat cur + l'"
      using d cn lc lb unfolding l'_def t(4) length_drop by linarith
    have bound: "unat cur + l' \<le> 2 ^ 64" using lm unat_u64_lt [of "n - tot"] by (simp add: min_def split: if_splits)
    have w: "tot + cur + of_nat l' = tot + of_nat (unat cur + l')" by simp
    have view: "memory_view s' b = (if unat (b - a) < unat cur + l' then Some (inp (host t) ! unat (b - a)) else memory_view t b)"
      if b: "user_va b" for b
    proof -
      have e: "memory_view s' b = (if unat (b - a - cur) < l' then Some (drop (unat cur) (inp (host t)) ! unat (b - a - cur))
          else memory_view t2 b)" using s'(2) b by (simp add: transfers_def t(4) diff_diff_eq)
      show ?thesis
      proof (cases "unat cur \<le> unat (b - a)")
        case True
        then show ?thesis using chunk_split [OF bound, of "b - a"] lc lb unfolding e v [OF b] by auto
      next
        case False
        then show ?thesis using chunk_split(1) [OF bound, of "b - a"] unfolding e v [OF b] by simp
      qed
    qed
    have tr: "transfers t (\<lambda>b. if unat (b - a) < unat cur + l' then Some (inp (host t) ! unat (b - a)) else memory_view t b) s'"
      using t(3) s'(2) view by (simp add: transfers_def)
    have "drop l' (drop (unat cur) (inp (host t))) = drop (unat cur + l') (inp (host t))" by (simp add: add.commute)
    then show ?thesis unfolding Let_def lm using unfold False lcur s'(1,3) tr w t(4) by auto
  qed
qed

section \<open>The calls\<close>

text \<open>Taking and dropping a reference to an open file, around a transfer: the file table is as before.\<close>

lemma hold_file:
  assumes d: "0 \<le> d" "d < int MAX_FDS" "fds s (nat d) = Some f" and c: "2 \<le> refcnt (files s f)" "refcnt (files s f) < - 1"
  defines "t \<equiv> set_refcnt f (refcnt (files s f) + 1) s"
  shows "file_get d s = (Some f, t)" "backed t = backed s" "can_access acc t = can_access acc s"
    "memory_view t = memory_view s" "host t = host s" "kfd (files t f) = kfd (files s f)"
    and "transfers t v s' \<Longrightarrow> transfers s v (file_decref H f s') \<and> host (file_decref H f s') = host s'"
proof -
  let ?c = "refcnt (files s f)"
  have "?c \<noteq> 0" "?c + 1 \<noteq> 2" "?c + 1 - 1 = ?c" using c(1) by (auto simp: word_le_nat_alt)
  note c' = this
  show "file_get d s = (Some f, t)" using d c' by (simp add: file_get_def t_def)
  have q: "quiet s t" by (simp add: t_def set_refcnt_def quiet_def)
  note S = same_space [OF q]
  show "backed t = backed s" "can_access acc t = can_access acc s" "memory_view t = memory_view s" for acc
    by (rule S; simp add: t_def set_refcnt_def)+
  show "host t = host s" "kfd (files t f) = kfd (files s f)" by (simp_all add: t_def set_refcnt_def)
  show "transfers s v (file_decref H f s') \<and> host (file_decref H f s') = host s'" if t: "transfers t v s'"
  proof -
    have fs: "files s' = (files s)(f := (files s f)\<lparr>refcnt := ?c + 1\<rparr>)" "fds s' = fds s"
      using t by (simp_all add: transfers_def t_def set_refcnt_def)
    have u: "file_decref H f s' = s'\<lparr>files := files s\<rparr>"
      using c' fs by (simp add: file_decref_def set_refcnt_def)
    have "quiet s' (s'\<lparr>files := files s\<rparr>)" by (simp add: quiet_def)
    note S' = same_space [OF this]
    have "backed (s'\<lparr>files := files s\<rparr>) = backed s'" "can_access acc (s'\<lparr>files := files s\<rparr>) = can_access acc s'"
      "memory_view (s'\<lparr>files := files s\<rparr>) = memory_view s'" for acc by (rule S'; simp)+
    moreover have "can_access acc t = can_access acc s" for acc by (rule S; simp add: t_def set_refcnt_def)
    ultimately show ?thesis using t fs(2) unfolding u by (simp add: transfers_def)
  qed
qed

text \<open>A small host for the witnesses: one stream that \<^verbatim>\<open>write\<close> extends and \<^verbatim>\<open>read\<close> consumes.\<close>

fun stream_host :: "u8 list htif" where
  "stream_host (nr # k # pa # n # as) m h =
     (if nr = SYS_write then (n, m, h @ read_bytes m pa (unat n))
      else (of_nat (length (take (unat n) h)), write_bytes pa (take (unat n) h) m, drop (unat n) h))"
| "stream_host _ m h = (0, m, h)"

lemma stream_host_ok: "host_takes stream_host k id" "host_gives stream_host k id"
  by (simp_all add: host_takes_def host_gives_def SYS_write_def SYS_read_def)

lemma stream_kernel:
  fixes h :: "u8 list"
  obtains s :: "u8 list pk_st" and fr :: frame where "backed s" "host s = h" "fds s 1 = Some 0"
    "2 \<le> refcnt (files s 0)" "refcnt (files s 0) < - 1"
    "\<And>i. i < 1000 \<Longrightarrow> user_can PROT_READ s (0x10001 + of_nat i) \<and> user_can PROT_WRITE s (0x10001 + of_nat i)"
    "\<forall>i < 512. kernel_can s (kbuf fr + of_nat i)" "leaf s 0x10000 AND PTE_V = 0"
proof (rule one_page_kernel [of h])
  fix s :: "u8 list pk_st" and k
  assume s: "backed s" "host s = h" "fds s = fds (fresh_pk h)" "files s = files (fresh_pk h)" "leaf s 0x10000 AND PTE_V = 0"
    and u: "\<forall>i < 4096. user_can PROT_READ s (0x10000 + of_nat i) \<and> user_can PROT_WRITE s (0x10000 + of_nat i)"
    and k: "\<forall>i < 4096. kernel_can s (k + of_nat i)"
  show ?thesis
  proof (rule that [of s "\<lparr>kbuf = k, kbuf2 = 0, sbuf = 0, pbuf = 0\<rparr>"])
    show "user_can PROT_READ s (0x10001 + of_nat i) \<and> user_can PROT_WRITE s (0x10001 + of_nat i)" if "i < 1000" for i :: nat
      using u [rule_format, of "Suc i"] that by (simp add: add.assoc [symmetric])
  qed (use s k in \<open>simp_all add: fresh_pk_def\<close>)
qed

text \<open>C7. \<^verbatim>\<open>write\<close> on an open descriptor whose host file takes all it is given, from a buffer that the
  program may read: the call returns the number of bytes asked for, and the host has received exactly
  those bytes of the program's memory, in order, over as many rounds of the 512-byte kernel buffer as it
  takes.  The program's memory, its permissions, the descriptors and the reference counts are unchanged,
  whatever pages were faulted in on the way.\<close>

lemma sys_write_correct:
  assumes "backed s" "0 \<le> sint (ucast fd :: u32)" "sint (ucast fd :: u32) < int MAX_FDS"
    and "fds s (nat (sint (ucast fd :: u32))) = Some f" "2 \<le> refcnt (files s f)" "refcnt (files s f) < - 1"
    and "host_takes H (kfd (files s f)) log" "0 < n"
    and "\<forall>i < unat n. user_can PROT_READ s (buf + of_nat i)" "\<forall>i < 512. kernel_can s (kbuf fr + of_nat i)"
  shows "\<exists>s'. sys_write H fr fd buf n s = Inr (n, s') \<and> transfers s (memory_view s) s'
    \<and> log (host s') = log (host s) @ user_bytes s buf (unat n)"
proof -
  note F = hold_file [OF assms(2-6)]
  let ?t = "set_refcnt f (refcnt (files s f) + 1) s"
  have "\<forall>i < unat (n - 0). user_can PROT_READ ?t (buf + of_nat i)" "\<forall>i < 512. kernel_can ?t (kbuf fr + of_nat i)"
    using assms(9,10) can_cong [OF F(3)] by simp_all
  from write_loop_ok [OF _ _ assms(8) this, where H = H and log = log and f = f] assms(1,7) F(2,6)
  obtain s' where s': "write_loop H fr f n buf 0 ?t = Some (Inr (n, s'))" "transfers ?t (memory_view s) s'"
    "log (host s') = log (host s) @ user_bytes s buf (unat n)"
    unfolding F(4,5) user_bytes_def by auto
  from F(7) [OF s'(2), of H] s' F(1) show ?thesis by (simp add: sys_write_def finish_def)
qed

lemma sys_write_correct_witness:
  "\<exists>s s' :: u8 list pk_st. \<exists>fr. sys_write stream_host fr 1 0x10001 1000 s = Inr (1000, s')
    \<and> host s' = [1, 2] @ user_bytes s 0x10001 1000 \<and> leaf s 0x10000 AND PTE_V = 0"
proof (rule stream_kernel [of "[1, 2]"])
  fix s :: "u8 list pk_st" and fr :: frame
  assume s: "backed s" "host s = [1, 2]" and leaf: "leaf s 0x10000 AND PTE_V = 0"
    and d: "fds s 1 = Some 0" "2 \<le> refcnt (files s 0)" "refcnt (files s 0) < - 1"
    and u: "\<And>i. i < 1000 \<Longrightarrow> user_can PROT_READ s (0x10001 + of_nat i) \<and> user_can PROT_WRITE s (0x10001 + of_nat i)"
    and k: "\<forall>i < 512. kernel_can s (kbuf fr + of_nat i)"
  from sys_write_correct [OF s(1) _ _ _ d(2,3) stream_host_ok(1) _ _ k, of 1 1000 "0x10001"] u d(1)
  obtain s' where "sys_write stream_host fr 1 0x10001 1000 s = Inr (1000, s')" "host s' = host s @ user_bytes s 0x10001 1000"
    by (auto simp: MAX_FDS_def)
  then show ?thesis using s(2) leaf by (intro exI [of _ s] exI [of _ s'] exI [of _ fr]) simp
qed

text \<open>C8. \<^verbatim>\<open>read\<close> on an open descriptor whose host file gives what it holds, into a buffer that the program
  may write: the call returns the smaller of the request and of what the file holds, the program finds
  exactly those bytes at the start of its buffer and every other byte of its memory unchanged, and the
  file has advanced by as many bytes.  Permissions, descriptors and reference counts are unchanged.\<close>

lemma sys_read_correct:
  assumes "backed s" "0 \<le> sint (ucast fd :: u32)" "sint (ucast fd :: u32) < int MAX_FDS"
    and "fds s (nat (sint (ucast fd :: u32))) = Some f" "2 \<le> refcnt (files s f)" "refcnt (files s f) < - 1"
    and "host_gives H (kfd (files s f)) inp" "0 < n" "user_va (buf - 1)"
    and "\<forall>i < unat n. user_can PROT_WRITE s (buf + of_nat i)" "\<forall>i < 512. kernel_can s (kbuf fr + of_nat i)"
  shows "let l = min (unat n) (length (inp (host s))) in \<exists>s'. sys_read H fr fd buf n s = Inr (of_nat l, s')
    \<and> transfers s (\<lambda>a. if unat (a - buf) < l then Some (inp (host s) ! unat (a - buf)) else memory_view s a) s'
    \<and> inp (host s') = drop l (inp (host s))"
proof -
  note F = hold_file [OF assms(2-6)]
  let ?t = "set_refcnt f (refcnt (files s f) + 1) s"
  have "\<forall>i < unat (n - 0). user_can PROT_WRITE ?t (buf + of_nat i)" "\<forall>i < 512. kernel_can ?t (kbuf fr + of_nat i)"
    using assms(10,11) can_cong [OF F(3)] by simp_all
  from read_loop_ok [OF _ _ assms(8,9) this, where H = H and inp = inp and f = f] assms(1,7) F(2,6)
  obtain l s' where l: "l = min (unat n) (length (inp (host s)))" and s': "read_loop (\<lambda>cur tot s. Inr (file_read H f (kva2pa s (kbuf fr)) cur s))
      (\<lambda>buf r. memcpy_to_user H (pbuf fr) buf (kbuf fr) r) n buf 0 ?t = Some (Inr (of_nat l, s'))"
    "transfers ?t (\<lambda>a. if unat (a - buf) < l then Some (inp (host s) ! unat (a - buf)) else memory_view s a) s'"
    "inp (host s') = drop l (inp (host s))"
    unfolding F(4,5) Let_def by auto
  from F(7) [OF s'(2), of H] s' F(1) show ?thesis unfolding l [symmetric] Let_def by (simp add: sys_read_def finish_def)
qed

lemma sys_read_correct_witness:
  "\<exists>s s' :: u8 list pk_st. \<exists>fr. sys_read stream_host fr 1 0x10001 1000 s = Inr (3, s')
    \<and> map (\<lambda>i. memory_view s' (0x10001 + of_nat i)) [0..<4] = [Some 7, Some 8, Some 9, memory_view s 0x10004]
    \<and> leaf s 0x10000 AND PTE_V = 0"
proof (rule stream_kernel [of "[7, 8, 9]"])
  fix s :: "u8 list pk_st" and fr :: frame
  assume s: "backed s" "host s = [7, 8, 9]" and leaf: "leaf s 0x10000 AND PTE_V = 0"
    and d: "fds s 1 = Some 0" "2 \<le> refcnt (files s 0)" "refcnt (files s 0) < - 1"
    and u: "\<And>i. i < 1000 \<Longrightarrow> user_can PROT_READ s (0x10001 + of_nat i) \<and> user_can PROT_WRITE s (0x10001 + of_nat i)"
    and k: "\<forall>i < 512. kernel_can s (kbuf fr + of_nat i)"
  from sys_read_correct [OF s(1) _ _ _ d(2,3) stream_host_ok(2) _ _ _ k, of 1 1000 "0x10001"] u d(1)
  obtain s' where r: "sys_read stream_host fr 1 0x10001 1000 s = Inr (3, s')"
    and "\<forall>a. user_va a \<longrightarrow> memory_view s' a = (if unat (a - 0x10001) < 3 then Some ([7, 8, 9] ! unat (a - 0x10001)) else memory_view s a)"
    by (auto simp: MAX_FDS_def Let_def user_va_def s(2) transfers_def)
  then have v: "memory_view s' (0x10001) = Some 7" "memory_view s' 0x10002 = Some 8" "memory_view s' 0x10003 = Some 9"
    "memory_view s' 0x10004 = memory_view s 0x10004" by (simp_all add: user_va_def)
  have l: "[0..<4] = [0, 1, 2, 3]" by (simp add: upt_rec)
  show ?thesis using leaf r v by (intro exI [of _ s] exI [of _ s'] exI [of _ fr]) (simp add: l)
qed

end
