(* ===== verification/PK_Boot.thy ===== *)
theory PK_Boot
  imports PK_Syscall
begin

text \<open>
  Loading and starting the user program: the ELF loader (\<^verbatim>\<open>pk/elf.c\<close>) and the boot code
  (\<^verbatim>\<open>pk/pk.c\<close>): options, arguments, the initial stack and trap frame.
\<close>

section \<open>The ELF file\<close>

text \<open>The fields of \<^verbatim>\<open>Elf64_Ehdr\<close> and \<^verbatim>\<open>Elf64_Phdr\<close> at their offsets.\<close>

record ehdr =
  e_ident :: "u8 list"
  e_type :: u64
  e_entry :: u64
  e_phoff :: u64
  e_flags :: u64
  e_phnum :: u64

definition SIZEOF_EHDR :: u64 where "SIZEOF_EHDR = 64"
definition SIZEOF_PHDR :: u64 where "SIZEOF_PHDR = 56"

definition read_ehdr :: "memory \<Rightarrow> u64 \<Rightarrow> ehdr" where
  "read_ehdr m a = \<lparr>e_ident = read_bytes m a 16, e_type = load_le 2 m (a + 16), e_entry = load_le 8 m (a + 24),
     e_phoff = load_le 8 m (a + 32), e_flags = load_le 4 m (a + 48), e_phnum = load_le 2 m (a + 56)\<rparr>"

record phdr_t =
  p_type :: u64
  p_flags :: u64
  p_offset :: u64
  p_vaddr :: u64
  p_filesz :: u64
  p_memsz :: u64

definition read_phdr :: "memory \<Rightarrow> u64 \<Rightarrow> phdr_t" where
  "read_phdr m a = \<lparr>p_type = load_le 4 m a, p_flags = load_le 4 m (a + 4), p_offset = load_le 8 m (a + 8),
     p_vaddr = load_le 8 m (a + 16), p_filesz = load_le 8 m (a + 32), p_memsz = load_le 8 m (a + 40)\<rparr>"

definition PF_X :: u64 where "PF_X = 1"
definition PF_W :: u64 where "PF_W = 2"
definition PF_R :: u64 where "PF_R = 4"
definition PT_LOAD :: u64 where "PT_LOAD = 1"
definition PT_INTERP :: u64 where "PT_INTERP = 3"
definition ET_DYN :: u64 where "ET_DYN = 3"

definition get_prot :: "u64 \<Rightarrow> u32" where
  "get_prot flgs =
     (let prot_x = (if flgs AND PF_X \<noteq> 0 then PROT_EXEC else 0);
          prot_w = (if flgs AND PF_W \<noteq> 0 then PROT_WRITE else 0);
          prot_r = (if flgs AND PF_R \<noteq> 0 then PROT_READ else 0)
      in prot_x OR prot_w OR prot_r)"

definition elf_fail :: "'a res" where
  "elf_fail = Inl (Panic ''couldn't open ELF program'')"

definition upd_current :: "(elf_info \<Rightarrow> elf_info) \<Rightarrow> ('h, 'z) vm_st_scheme \<Rightarrow> ('h, 'z) vm_st_scheme" where
  "upd_current f s = s\<lparr>current := f (current s)\<rparr>"

text \<open>One program header: map the file part, clear the padding before it and map the rest.\<close>

definition load_segment ::
    "'h htif \<Rightarrow> frame \<Rightarrow> nat \<Rightarrow> u64 \<Rightarrow> phdr_t \<Rightarrow> ('h, 'z) pk_st_scheme \<Rightarrow> ('h, 'z) pk_st_scheme res" where
  "load_segment H fr file bias0 ph s =
     (if p_type ph = PT_INTERP then Inl (Panic ''not a statically linked ELF program'')
      else if p_type ph = PT_LOAD \<and> p_memsz ph \<noteq> 0 then
        if p_filesz ph > p_memsz ph then elf_fail
        else
          let prepad = p_vaddr ph mod PGSIZE;
              vaddr = p_vaddr ph + bias0;
              s = (if vaddr + p_memsz ph > brk_min (current s)
                   then upd_current (brk_min_update (\<lambda>_. vaddr + p_memsz ph)) s else s);
              flgs = MAP_FIXED OR MAP_PRIVATE;
              flags2 = flgs OR (if prepad \<noteq> 0 then MAP_POPULATE else 0);
              prt = get_prot (p_flags ph)
          in bindE (if p_filesz ph \<noteq> 0
                    then bindE (do_mmap_locked H (vaddr - prepad) (p_filesz ph + prepad) (prt OR PROT_WRITE)
                                  flags2 (Some file) (p_offset ph - prepad) s) (\<lambda>(r, s).
                           if r \<noteq> vaddr - prepad then elf_fail else Inr s)
                    else Inr s) (\<lambda>s.
             bindE (memset_user H (pbuf fr) (vaddr - prepad) 0 prepad s) (\<lambda>s.
             let mapped = ROUNDUP (p_filesz ph + prepad) PGSIZE - prepad
             in bindE (if p_memsz ph > mapped
                       then bindE (do_mmap_locked H (vaddr + mapped) (p_memsz ph - mapped) prt
                                     (flgs OR MAP_ANONYMOUS) None 0 s) (\<lambda>(r, s).
                              if r \<noteq> vaddr + mapped then elf_fail else Inr s)
                       else Inr s) (\<lambda>s.
                if prt AND PROT_WRITE = 0
                then bindE (do_mprotect (vaddr - prepad) (p_memsz ph + prepad) prt s) (\<lambda>(r, s).
                       if r \<noteq> 0 then elf_fail else Inr s)
                else Inr s)))
      else Inr s)"

text \<open>\<^verbatim>\<open>load_elf(fn, &current)\<close>: \<^verbatim>\<open>info\<close> is the global itself, so the mappings made on the way
  update it too.  \<open>rvc\<close> says whether the kernel was compiled for the compressed extension; the
  ELF header is read into the buffer \<^const>\<open>sbuf\<close>.\<close>

definition load_elf ::
    "'h htif \<Rightarrow> frame \<Rightarrow> bool \<Rightarrow> u64 \<Rightarrow> ('h, 'z) pk_st_scheme \<Rightarrow> ('h, 'z) pk_st_scheme res" where
  "load_elf H fr rvc fn s =
     (case strlen (pmem s) (kva2pa s fn) of
        None \<Rightarrow> Inl Diverge
      | Some l \<Rightarrow>
        case file_open H (kva2pa s fn) (l + 1) 0 0 s of
          (Inl _, s) \<Rightarrow> elf_fail
        | (Inr file, s) \<Rightarrow>
          let (ehdr_size, s) = file_pread H file (kva2pa s (sbuf fr)) SIZEOF_EHDR 0 s;
              eh = read_ehdr (pmem s) (kva2pa s (sbuf fr))
          in if sint ehdr_size < 64 \<or> take 4 (e_ident eh) \<noteq> [0x7f, 0x45, 0x4c, 0x46] then elf_fail
             else
               bindE (kassert (e_ident eh ! 4 = 2) ''IS_ELF64(eh)'') (\<lambda>_.
               bindE (if rvc then Inr () else kassert (e_flags eh AND 1 = 0) ''!(eh.e_flags & EF_RISCV_RVC)'') (\<lambda>_.
               let phsize = e_phnum eh * SIZEOF_PHDR
               in if phsize > phdr_size (current s) then elf_fail
                  else
                    let (r, s) = file_pread H file (kva2pa s (phdr (current s))) phsize (e_phoff eh) s
                    in if sint r < sint phsize then elf_fail
                       else
                         let s = upd_current (\<lambda>c. c\<lparr>phnum := ucast (e_phnum eh), phent := 56\<rparr>) s;
                             bias0 = (if e_type eh = ET_DYN then PGSIZE else 0);
                             s = upd_current (entry_update (\<lambda>_. e_entry eh + bias0)) s
                         in bindE (foldE (\<lambda>i s. load_segment H fr file bias0
                                     (read_phdr (pmem s) (kva2pa s (phdr (current s)) + of_nat i * SIZEOF_PHDR)) s)
                                   (rev [0..<unat (e_phnum eh)]) s) (\<lambda>s.
                              let s = file_decref H file s
                              in Inr (upd_current (\<lambda>c. c\<lparr>brk := ROUNDUP (brk_min c) PGSIZE\<rparr>) s)))))"

section \<open>Options and arguments\<close>

record 'h boot_st = "'h pk_st" +
  zicfilp_enabled :: bool
  zicfiss_enabled :: bool
  senvcfg :: u64
  ssp :: u64
  sscratch :: u64
  sstatus :: u64

definition nl :: string where "nl = [CHR 0x0A]"

definition pk_help :: "'h htif \<Rightarrow> frame \<Rightarrow> ('h, 'z) boot_st_scheme \<Rightarrow> 'a res" where
  "pk_help H fr s =
     shutdown H 0 (fold (\<lambda>t. printk H (pbuf fr) t [])
       [''Proxy kernel'' @ nl @ nl,
        ''usage: pk [pk options] <user program> [program options]'' @ nl,
        ''Options:'' @ nl,
        ''  -h, --help            Print this help message'' @ nl,
        ''  -p                    Disable on-demand program paging'' @ nl,
        ''  -s                    Print cycles upon termination'' @ nl,
        ''  --zicfilp             Enable Zicfilp CFI mechanism for user program'' @ nl,
        ''  --zicfiss             Enable Zicfiss CFI mechanism for user program'' @ nl] s)"

text \<open>\<^verbatim>\<open>strcmp(arg, "...") == 0\<close>, for the bytes of the option in memory.\<close>

definition arg_is :: "('h, 'z) boot_st_scheme \<Rightarrow> u64 \<Rightarrow> string \<Rightarrow> bool" where
  "arg_is s arg t = streq (pmem s) (kva2pa s arg) t"

definition handle_option ::
    "'h htif \<Rightarrow> frame \<Rightarrow> u64 \<Rightarrow> ('h, 'z) boot_st_scheme \<Rightarrow> ('h, 'z) boot_st_scheme res" where
  "handle_option H fr arg s =
     (if arg_is s arg ''-h'' \<or> arg_is s arg ''--help'' then pk_help H fr s
      else if arg_is s arg ''-s'' then Inr (s\<lparr>current := (current s)\<lparr>cycle0 := 1\<rparr>\<rparr>)
      else if arg_is s arg ''-p'' then Inr (s\<lparr>demand_paging := False\<rparr>)
      else if arg_is s arg ''--randomize-mapping'' then Inr (s\<lparr>randomize_mapping := 1\<rparr>)
      else if arg_is s arg ''--zicfilp'' then Inr (s\<lparr>zicfilp_enabled := True\<rparr>)
      else if arg_is s arg ''--zicfiss'' then Inr (s\<lparr>zicfiss_enabled := True\<rparr>)
      else Inl (Panic ''unrecognized option''))"

definition SYS_getmainvars :: u64 where "SYS_getmainvars = 2011"

definition arg_word :: "('h, 'z) boot_st_scheme \<Rightarrow> u64 \<Rightarrow> u64 \<Rightarrow> u64" where
  "arg_word s args i = load_le 8 (pmem s) (kva2pa s args + 8 * i)"

text \<open>The options: every leading argument that starts with a minus sign.\<close>

partial_function (option) option_loop ::
    "'h htif \<Rightarrow> frame \<Rightarrow> u64 \<Rightarrow> u64 \<Rightarrow> u64 \<Rightarrow> ('h, 'z) boot_st_scheme
     \<Rightarrow> (u64 \<times> ('h, 'z) boot_st_scheme) res option" where
  "option_loop H fr args argc arg s =
     (if arg < argc \<and> pmem s (arg_word s args (arg + 1)) = 45
      then case handle_option H fr (pa2kva s (arg_word s args (arg + 1))) s of
             Inl e \<Rightarrow> Some (Inl e)
           | Inr s \<Rightarrow> option_loop H fr args argc (arg + 1) s
      else Some (Inr (arg, s)))"

definition parse_args ::
    "'h htif \<Rightarrow> frame \<Rightarrow> u64 \<Rightarrow> ('h, 'z) boot_st_scheme \<Rightarrow> (u64 \<times> ('h, 'z) boot_st_scheme) res" where
  "parse_args H fr args s =
     (let (r, s) = frontend_syscall H SYS_getmainvars [kva2pa s args, 2048, 0, 0, 0, 0, 0] s
      in if r \<noteq> 0 then Inl (Panic ''args must not exceed 2048 bytes'')
         else
           let pk_argc = arg_word s args 0
           in bindE (finish (option_loop H fr args pk_argc 1 s)) (\<lambda>(arg, s).
                let s = fold (\<lambda>i s. s\<lparr>pmem := store_le 8 (pmem s) (kva2pa s args + 8 * of_nat i)
                                 (pa2kva s (arg_word s args (1 + arg + of_nat i)))\<rparr>)
                          [0..<unat pk_argc - unat arg] s
                in Inr (pk_argc - arg, s)))"

section \<open>Starting the program\<close>

definition init_tf :: "u64 \<Rightarrow> u64 \<Rightarrow> ('h, 'z) boot_st_scheme \<Rightarrow> trapframe_t" where
  "init_tf pc sp s =
     \<lparr>gpr = (replicate 32 0)[2 := sp],
      tf_status = (sstatus s AND NOT SSTATUS_SPP AND NOT SSTATUS_SIE) OR SSTATUS_SPIE,
      tf_epc = pc, tf_badvaddr = 0, tf_cause = 0\<rparr>"

definition SENVCFG_LPE :: u64 where "SENVCFG_LPE = 0x4"
definition SENVCFG_SSE :: u64 where "SENVCFG_SSE = 0x8"
definition SENVCFG_CBIE :: u64 where "SENVCFG_CBIE = 0x30"
definition SENVCFG_CBCFE :: u64 where "SENVCFG_CBCFE = 0x40"

text \<open>Copying a kernel string with its terminator below \<open>tos\<close>.\<close>

definition push_string ::
    "'h htif \<Rightarrow> frame \<Rightarrow> u64 \<Rightarrow> u64 \<Rightarrow> ('h, 'z) boot_st_scheme \<Rightarrow> (u64 \<times> ('h, 'z) boot_st_scheme) res" where
  "push_string H fr tos str s =
     (case strlen (pmem s) (kva2pa s str) of
        None \<Rightarrow> Inl Diverge
      | Some l \<Rightarrow> bindE (memcpy_to_user H (pbuf fr) (tos - (l + 1)) str (l + 1) s) (\<lambda>s.
                    Inr (tos - (l + 1), s)))"

text \<open>The words \<^verbatim>\<open>PUSH_ARG\<close> writes from \<open>sp\<close> up; the first one, \<^verbatim>\<open>argc\<close>, is an \<^verbatim>\<open>int\<close> of four
  bytes in an eight-byte slot.\<close>

definition push_words ::
    "'h htif \<Rightarrow> frame \<Rightarrow> u64 \<Rightarrow> u64 list \<Rightarrow> ('h, 'z) boot_st_scheme \<Rightarrow> ('h, 'z) boot_st_scheme res" where
  "push_words H fr sp ws =
     foldE (\<lambda>i. put_user H fr (sp + 8 * of_nat i) (take (if i = 0 then 4 else 8) (le_bytes (ws ! i))))
       [0..<length ws]"

definition aux_words :: "elf_info \<Rightarrow> u64 \<Rightarrow> u64 list" where
  "aux_words cur tos =
     [9, entry cur, 5, scast (phnum cur), 4, scast (phent cur), 3, phdr cur, 6, PGSIZE, 23, 0, 25, tos, 0, 0]"

definition map_stack ::
    "'h htif \<Rightarrow> ('h, 'z) boot_st_scheme \<Rightarrow> ('h, 'z) boot_st_scheme res" where
  "map_stack H s =
     (let mem_pages = drop_bit 12 (mem_size s);
          stack_size = C_MIN (drop_bit 5 mem_pages) 2048 * PGSIZE
      in bindE (do_mmap_locked H (mmap_max (current s) - stack_size) stack_size
                  (PROT_READ OR PROT_WRITE OR PROT_EXEC) (MAP_PRIVATE OR MAP_ANONYMOUS OR MAP_FIXED) None 0 s)
           (\<lambda>(stack_bottom, s).
         bindE (kassert (stack_bottom \<noteq> - 1) ''stack_bottom != (uintptr_t)-1'') (\<lambda>_.
         let s = s\<lparr>current := (current s)\<lparr>stack_top := stack_bottom + stack_size\<rparr>\<rparr>
         in bindE (if zicfiss_enabled s
             then let shadow_size = C_MAX PGSIZE (drop_bit 5 stack_size)
                  in bindE (do_mmap_locked H (stack_bottom - shadow_size) shadow_size PROT_WRITE
                              (MAP_PRIVATE OR MAP_ANONYMOUS OR MAP_FIXED) None 0 s) (\<lambda>(b, s).
                     bindE (kassert (b \<noteq> - 1) ''shadow_stack_bottom != (uintptr_t)-1'') (\<lambda>_.
                       Inr (s\<lparr>senvcfg := senvcfg s OR SENVCFG_SSE, ssp := b + shadow_size\<rparr>)))
             else Inr s) (\<lambda>s.
           Inr (s\<lparr>senvcfg := senvcfg s OR (SENVCFG_CBCFE OR INSERT_FIELD 0 SENVCFG_CBIE 1)\<rparr>)))))"

definition run_loaded_program ::
    "'h htif \<Rightarrow> frame \<Rightarrow> u64 \<Rightarrow> u64 \<Rightarrow> u64 \<Rightarrow> ('h, 'z) boot_st_scheme
     \<Rightarrow> (trapframe_t \<times> ('h, 'z) boot_st_scheme) res" where
  "run_loaded_program H fr argc argv kstack_top s =
     bindE (map_stack H s) (\<lambda>s.
     let tos = stack_top (current s) - phdr_size (current s)
     in bindE (memcpy_to_user H (pbuf fr) tos (phdr (current s)) (phdr_size (current s)) s) (\<lambda>s.
        let s = s\<lparr>current := (current s)\<lparr>phdr := tos\<rparr>\<rparr>
        in bindE (foldE (\<lambda>i (tos, s).
                    bindE (push_string H fr tos (arg_word s argv (of_nat i)) s) (\<lambda>(tos, s).
                      Inr (tos, s\<lparr>pmem := store_le 8 (pmem s) (kva2pa s argv + 8 * of_nat i) tos\<rparr>)))
                  [0..<unat argc] (tos, s)) (\<lambda>(tos, s).
           let tos = tos AND - 8;
               aux = aux_words (current s) tos;
               tos = (tos - (1 + argc + 1 + 0 + 1 + 2 * 8) * 8) AND - 16;
               args = map (\<lambda>i. arg_word s argv (of_nat i)) [0..<unat argc]
           in bindE (push_words H fr tos (argc # args @ [0, 0] @ aux) s) (\<lambda>s.
              let s = (if cycle0 (current s) \<noteq> 0
                       then let (t, s) = rdcycle64 s; (c, s) = rdcycle64 s; (i, s) = rdcycle64 s
                            in s\<lparr>current := (current s)\<lparr>time0 := t, cycle0 := c, instret0 := i\<rparr>\<rparr>
                       else s);
                  tf = init_tf (entry (current s)) tos s;
                  s = s\<lparr>sscratch := kstack_top\<rparr>
              in Inr (tf, if zicfilp_enabled s then s\<lparr>senvcfg := senvcfg s OR SENVCFG_LPE\<rparr> else s)))))"

text \<open>\<^verbatim>\<open>rest_of_boot_loader_2\<close>: \<open>args\<close> and \<open>phdrs\<close> are the addresses of its static buffers.\<close>

definition rest_of_boot_loader ::
    "'h htif \<Rightarrow> frame \<Rightarrow> bool \<Rightarrow> u64 \<Rightarrow> u64 \<Rightarrow> u64 \<Rightarrow> ('h, 'z) boot_st_scheme
     \<Rightarrow> (trapframe_t \<times> ('h, 'z) boot_st_scheme) res" where
  "rest_of_boot_loader H fr rvc args phdrs kstack_top s =
     bindE (file_init s) (\<lambda>s.
     bindE (parse_args H fr args s) (\<lambda>(argc, s).
       if argc = 0 then Inl (Panic ''tell me what ELF to load!'')
       else
         let s = s\<lparr>current := (current s)\<lparr>phdr := phdrs, phdr_size := 1024\<rparr>\<rparr>
         in bindE (load_elf H fr rvc (arg_word s args 0) s) (\<lambda>s.
              run_loaded_program H fr argc args kstack_top s)))"

end
