(* ===== verification/Machine.thy ===== *)
theory Machine
  imports Memory
begin

text \<open>
  The machine-mode runtime that \<^verbatim>\<open>pk\<close> and \<^verbatim>\<open>bbl\<close> share (\<^verbatim>\<open>machine/\<close>): its state, the
  control and status registers, access to device registers and the way a trap handler ends.

  The state \<open>mach\<close> holds the register frame of the trap that is being handled (\<^verbatim>\<open>regs\<close>), the
  emulated floating-point registers behind it, the CSRs, physical memory, the state of the
  devices and the globals of \<^verbatim>\<open>machine/*.c\<close>.  Device registers are not memory: they are
  reached with \<open>mmio_read\<close> and \<open>mmio_write\<close> of the hardware parameter \<open>W\<close>, which may change the
  device state on every access.  Typed globals are kept in their own fields, so nothing in
  memory aliases them.
\<close>

section \<open>Control and status registers\<close>

datatype csr =
    MSTATUS | MISA | MIE | MIP | MTVEC | MEPC | MCAUSE | MTVAL | MSCRATCH | MIDELEG | MEDELEG
  | MCOUNTEREN | MENVCFG | MHARTID | MCYCLE | MINSTRET | MHPMCOUNTER3 | MHPMCOUNTER4
  | MHPMEVENT3 | MHPMEVENT4 | SCOUNTEREN | SATP | STVAL | SEPC | SCAUSE | STVEC
  | PMPADDR nat | PMPCFG0

definition MSTATUS_SIE :: u64 where "MSTATUS_SIE = 0x2"
definition MSTATUS_SPIE :: u64 where "MSTATUS_SPIE = 0x20"
definition MSTATUS_MPIE :: u64 where "MSTATUS_MPIE = 0x80"
definition MSTATUS_SPP :: u64 where "MSTATUS_SPP = 0x100"
definition MSTATUS_VS :: u64 where "MSTATUS_VS = 0x600"
definition MSTATUS_MPP :: u64 where "MSTATUS_MPP = 0x1800"
definition MSTATUS_FS :: u64 where "MSTATUS_FS = 0x6000"
definition MSTATUS_MPRV :: u64 where "MSTATUS_MPRV = 0x20000"
definition MSTATUS_MXR :: u64 where "MSTATUS_MXR = 0x80000"

definition MIP_SSIP :: u64 where "MIP_SSIP = 0x2"
definition MIP_MSIP :: u64 where "MIP_MSIP = 0x8"
definition MIP_STIP :: u64 where "MIP_STIP = 0x20"
definition MIP_MTIP :: u64 where "MIP_MTIP = 0x80"
definition MIP_SEIP :: u64 where "MIP_SEIP = 0x200"

definition CAUSE_MISALIGNED_FETCH :: u64 where "CAUSE_MISALIGNED_FETCH = 0x0"
definition CAUSE_FETCH_ACCESS :: u64 where "CAUSE_FETCH_ACCESS = 0x1"
definition CAUSE_BREAKPOINT :: u64 where "CAUSE_BREAKPOINT = 0x3"
definition CAUSE_LOAD_ACCESS :: u64 where "CAUSE_LOAD_ACCESS = 0x5"
definition CAUSE_STORE_ACCESS :: u64 where "CAUSE_STORE_ACCESS = 0x7"
definition CAUSE_USER_ECALL :: u64 where "CAUSE_USER_ECALL = 0x8"
definition CAUSE_FETCH_PAGE_FAULT :: u64 where "CAUSE_FETCH_PAGE_FAULT = 0xc"
definition CAUSE_LOAD_PAGE_FAULT :: u64 where "CAUSE_LOAD_PAGE_FAULT = 0xd"
definition CAUSE_STORE_PAGE_FAULT :: u64 where "CAUSE_STORE_PAGE_FAULT = 0xf"
definition CAUSE_SOFTWARE_CHECK_FAULT :: u64 where "CAUSE_SOFTWARE_CHECK_FAULT = 0x12"

definition PRV_U :: u64 where "PRV_U = 0"
definition PRV_S :: u64 where "PRV_S = 1"

definition PMP_R :: u64 where "PMP_R = 0x1"
definition PMP_W :: u64 where "PMP_W = 0x2"
definition PMP_X :: u64 where "PMP_X = 0x4"
definition PMP_TOR :: u64 where "PMP_TOR = 0x8"
definition PMP_NAPOT :: u64 where "PMP_NAPOT = 0x18"

lemmas mstatus_defs = MSTATUS_SIE_def MSTATUS_SPIE_def MSTATUS_MPIE_def MSTATUS_SPP_def MSTATUS_VS_def
  MSTATUS_MPP_def MSTATUS_FS_def MSTATUS_MPRV_def MSTATUS_MXR_def
lemmas mip_defs = MIP_SSIP_def MIP_MSIP_def MIP_STIP_def MIP_MTIP_def MIP_SEIP_def
lemmas cause_defs = CAUSE_MISALIGNED_FETCH_def CAUSE_FETCH_ACCESS_def CAUSE_BREAKPOINT_def
  CAUSE_LOAD_ACCESS_def CAUSE_STORE_ACCESS_def CAUSE_USER_ECALL_def CAUSE_FETCH_PAGE_FAULT_def
  CAUSE_LOAD_PAGE_FAULT_def CAUSE_STORE_PAGE_FAULT_def CAUSE_SOFTWARE_CHECK_FAULT_def

section \<open>The state\<close>

text \<open>The hart-local storage of \<^verbatim>\<open>mtrap.h\<close>; \<^verbatim>\<open>HLS()\<close> and \<^verbatim>\<open>OTHER_HLS(id)\<close> select an element of
  the list \<open>hlss\<close>, one for each of the \<^verbatim>\<open>MAX_HARTS\<close> machine stacks.\<close>

record hls_t =
  ipi :: u64
  mipi_pending :: u32
  timecmp :: u64
  plic_m_thresh :: u64
  plic_m_ie :: u64
  plic_s_thresh :: u64
  plic_s_ie :: u64

definition MAX_HARTS :: nat where "MAX_HARTS = 8"

definition null_hls :: hls_t where
  "null_hls = \<lparr>ipi = 0, mipi_pending = 0, timecmp = 0, plic_m_thresh = 0, plic_m_ie = 0,
     plic_s_thresh = 0, plic_s_ie = 0\<rparr>"

record 'd mach =
  xregs :: "u64 list"
  fregs :: "u64 list"
  tp :: u64
  csrs :: "csr \<Rightarrow> u64"
  mem :: memory
  dev :: 'd
  hlss :: "hls_t list"
  hart_mask :: u64
  hart_phandles :: "u32 list"
  disabled_hart_mask :: u64
  dram_size :: u64
  mtime :: u64
  plic_priorities :: u64
  plic_ndevs :: u64
  misa_img :: u64
  kernel_start :: u64
  kernel_end :: u64
  entry_point :: u64
  uart :: u64
  uart16550 :: u64
  uart16550_reg_shift :: u32
  uart16550_clock :: u32
  uart_litex :: u64
  finisher :: u64
  htif_present :: bool
  htif_console_buf :: u32
  htif_lock :: bool

text \<open>
  What the hardware is assumed to offer: which value a CSR takes when a word is written to it
  (unimplemented bits do not stick), device registers of a given width in bytes, whether
  the PMP registers exist (an access to them traps otherwise), and the translation of an access
  made with the privilege of the interrupted program: a physical address or the cause of the
  trap that the access takes.
\<close>

datatype access = Load_access | Store_access

record 'd hardware =
  warl :: "csr \<Rightarrow> u64 \<Rightarrow> u64 \<Rightarrow> u64"
  mmio_read :: "nat \<Rightarrow> u64 \<Rightarrow> 'd \<Rightarrow> u64 \<times> 'd"
  mmio_write :: "nat \<Rightarrow> u64 \<Rightarrow> u64 \<Rightarrow> 'd \<Rightarrow> 'd"
  mprv_translate :: "(csr \<Rightarrow> u64) \<Rightarrow> memory \<Rightarrow> access \<Rightarrow> nat \<Rightarrow> u64 \<Rightarrow> u64 + u64"
  tohost_addr :: u64
  fromhost_addr :: u64
  has_pmp :: bool

definition write_csr :: "'d hardware \<Rightarrow> csr \<Rightarrow> u64 \<Rightarrow> ('d, 'z) mach_scheme \<Rightarrow> ('d, 'z) mach_scheme" where
  "write_csr W c v s = s\<lparr>csrs := (csrs s)(c := warl W c (csrs s c) v)\<rparr>"

definition set_csr :: "'d hardware \<Rightarrow> csr \<Rightarrow> u64 \<Rightarrow> ('d, 'z) mach_scheme \<Rightarrow> ('d, 'z) mach_scheme" where
  "set_csr W c v s = write_csr W c (csrs s c OR v) s"

definition clear_csr :: "'d hardware \<Rightarrow> csr \<Rightarrow> u64 \<Rightarrow> ('d, 'z) mach_scheme \<Rightarrow> ('d, 'z) mach_scheme" where
  "clear_csr W c v s = write_csr W c (csrs s c AND NOT v) s"

definition dev_read :: "'d hardware \<Rightarrow> nat \<Rightarrow> u64 \<Rightarrow> ('d, 'z) mach_scheme \<Rightarrow> u64 \<times> ('d, 'z) mach_scheme" where
  "dev_read W n a s = (let (v, d) = mmio_read W n a (dev s) in (v, s\<lparr>dev := d\<rparr>))"

definition dev_write :: "'d hardware \<Rightarrow> nat \<Rightarrow> u64 \<Rightarrow> u64 \<Rightarrow> ('d, 'z) mach_scheme \<Rightarrow> ('d, 'z) mach_scheme" where
  "dev_write W n a v s = s\<lparr>dev := mmio_write W n a v (dev s)\<rparr>"

definition supports_extension :: "nat \<Rightarrow> ('d, 'z) mach_scheme \<Rightarrow> bool" where
  "supports_extension e s = (csrs s MISA AND push_bit e 1 \<noteq> 0)"

definition other_hls :: "u64 \<Rightarrow> ('d, 'z) mach_scheme \<Rightarrow> hls_t res" where
  "other_hls i s = (if unat i < length (hlss s) then Inr (hlss s ! unat i) else Inl (Undefined ''no such hart''))"

definition this_hls :: "('d, 'z) mach_scheme \<Rightarrow> hls_t res" where
  "this_hls s = other_hls (csrs s MHARTID) s"

section \<open>How a handler ends\<close>

text \<open>
  A trap handler returns to the assembly stub, which stores \<open>tp\<close> (the emulated \<^verbatim>\<open>fcsr\<close>) back into the
  save slot of register 0, restores the register frame and executes \<^verbatim>\<open>mret\<close>.  Or it leaves through
  \<^verbatim>\<open>__redirect_trap\<close>, which drops the C frames above the register frame and joins the stub behind the
  instruction that stores \<open>tp\<close> back: the slot keeps the zero that was put there when the handler was
  called (\<open>redirect_exit\<close> in \<open>Machine_Trap\<close>).  The second way out is an early exit that carries the
  state with that change made.
\<close>

datatype 's exit = Stop stop | Redirect 's

type_synonym ('s, 'a) handler = "'s exit + 'a"

definition liftE :: "'a res \<Rightarrow> ('s, 'a) handler" where
  "liftE r = (case r of Inl e \<Rightarrow> Inl (Stop e) | Inr x \<Rightarrow> Inr x)"

lemma liftE_simps [simp]: "liftE (Inl e) = Inl (Stop e)" "liftE (Inr x) = Inr x"
  by (simp_all add: liftE_def)

text \<open>The state in which \<^verbatim>\<open>mret\<close> is executed, whichever way the handler went; \<open>tp\<close> stands for the save slot
  of register 0, where the next trap finds the emulated \<^verbatim>\<open>fcsr\<close>.\<close>

definition to_mret :: "('s, 's) handler \<Rightarrow> 's res" where
  "to_mret r = (case r of Inr s \<Rightarrow> Inr s | Inl (Redirect s) \<Rightarrow> Inr s | Inl (Stop e) \<Rightarrow> Inl e)"

lemma to_mret_simps [simp]:
  "to_mret (Inr s) = Inr s" "to_mret (Inl (Redirect s)) = Inr s" "to_mret (Inl (Stop e)) = Inl e"
  by (simp_all add: to_mret_def)

section \<open>A machine for examples\<close>

text \<open>Eight harts, of which this is hart 0, with empty registers over the memory \<open>m\<close>, on hardware
  without devices that stores in a CSR what is written to it and translates every address to
  itself.\<close>

definition idle_mach :: "memory \<Rightarrow> unit mach" where
  "idle_mach m = \<lparr>xregs = replicate 32 0, fregs = replicate 32 0, tp = 0, csrs = (\<lambda>_. 0), mem = m, dev = (),
     hlss = replicate MAX_HARTS null_hls, hart_mask = 0, hart_phandles = replicate MAX_HARTS 0,
     disabled_hart_mask = 0, dram_size = 0, mtime = 0, plic_priorities = 0, plic_ndevs = 0,
     misa_img = 0, kernel_start = 0, kernel_end = 0, entry_point = 0, uart = 0, uart16550 = 0,
     uart16550_reg_shift = 0, uart16550_clock = 1843200, uart_litex = 0, finisher = 0,
     htif_present = False, htif_console_buf = 0, htif_lock = False\<rparr>"

definition plain_hardware :: "unit hardware" where
  "plain_hardware = \<lparr>warl = (\<lambda>_ _ v. v), mmio_read = (\<lambda>_ _ d. (0, d)), mmio_write = (\<lambda>_ _ _ d. d),
     mprv_translate = (\<lambda>_ _ _ _ a. Inr a), tohost_addr = 0, fromhost_addr = 0, has_pmp = True\<rparr>"

end
