(* ===== verification/Machine_Fdt.thy ===== *)
theory Machine_Fdt
  imports Machine Util_String
begin

text \<open>
  The flattened device tree (\<^verbatim>\<open>machine/fdt.c\<close>): the scanner that walks the token stream and calls
  back, and the functions that read property values.

  The \<^verbatim>\<open>struct fdt_scan_node\<close> of a node lives in the stack frame of the scan of its parent, and
  the \<^verbatim>\<open>parent\<close> pointers chain these frames: a \<^verbatim>\<open>node*\<close> is the list of the node and its
  ancestors, innermost first, and the null pointer is the empty list.  One frame holds one node
  structure, which consecutive siblings share, so two node pointers are equal exactly if their
  lists have the same length.
\<close>

section \<open>Reading the blob\<close>

definition bswap :: "u32 \<Rightarrow> u32" where
  "bswap x =
     (let y = push_bit 8 (x AND 0x00FF00FF) OR drop_bit 8 (x AND 0xFF00FF00);
          z = push_bit 16 (y AND 0x0000FFFF) OR drop_bit 16 (y AND 0xFFFF0000)
      in z)"

definition word_at :: "memory \<Rightarrow> u64 \<Rightarrow> u32" where
  "word_at m a = ucast (load_le 4 m a)"

text \<open>A big-endian cell.\<close>

definition cell :: "memory \<Rightarrow> u64 \<Rightarrow> u32" where
  "cell m a = bswap (word_at m a)"

definition FDT_MAGIC :: u32 where "FDT_MAGIC = 0xd00dfeed"
definition FDT_VERSION :: u32 where "FDT_VERSION = 17"
definition FDT_BEGIN_NODE :: u32 where "FDT_BEGIN_NODE = 1"
definition FDT_END_NODE :: u32 where "FDT_END_NODE = 2"
definition FDT_PROP :: u32 where "FDT_PROP = 3"
definition FDT_NOP :: u32 where "FDT_NOP = 4"

record fdt_node =
  node_name :: u64
  address_cells :: u32
  size_cells :: u32

record fdt_prop =
  prop_name :: u64
  prop_len :: u32
  prop_value :: u64

text \<open>\<^verbatim>\<open>struct fdt_cb\<close>.  A callback sees the nodes, works on the client's \<^verbatim>\<open>extra\<close> structure and the
  machine, and may fail an assertion; \<^verbatim>\<open>close\<close> also says whether the node is to be deleted.\<close>

type_synonym ('c, 'd) scan_st = "'c \<times> 'd mach"

record ('c, 'd) fdt_cb =
  cb_open :: "(fdt_node list \<Rightarrow> ('c, 'd) scan_st \<Rightarrow> ('c, 'd) scan_st res) option"
  cb_prop :: "fdt_node list \<Rightarrow> fdt_prop \<Rightarrow> ('c, 'd) scan_st \<Rightarrow> ('c, 'd) scan_st res"
  cb_done :: "(fdt_node list \<Rightarrow> ('c, 'd) scan_st \<Rightarrow> ('c, 'd) scan_st res) option"
  cb_close :: "(fdt_node list \<Rightarrow> ('c, 'd) scan_st \<Rightarrow> (bool \<times> ('c, 'd) scan_st) res) option"

definition call_node ::
    "(fdt_node list \<Rightarrow> 's \<Rightarrow> 's res) option \<Rightarrow> fdt_node list \<Rightarrow> 's \<Rightarrow> 's res" where
  "call_node f node s = (case f of None \<Rightarrow> Inr s | Some g \<Rightarrow> g node s)"

definition call_close ::
    "(fdt_node list \<Rightarrow> 's \<Rightarrow> (bool \<times> 's) res) option \<Rightarrow> fdt_node list \<Rightarrow> 's \<Rightarrow> (bool \<times> 's) res" where
  "call_close f node s = (case f of None \<Rightarrow> Inr (False, s) | Some g \<Rightarrow> g node s)"

text \<open>\<^verbatim>\<open>if (!last && node && cb->done) cb->done(node, cb->extra)\<close>\<close>

definition call_done ::
    "('c, 'd) fdt_cb \<Rightarrow> bool \<Rightarrow> fdt_node list \<Rightarrow> ('c, 'd) scan_st \<Rightarrow> ('c, 'd) scan_st res" where
  "call_done cb seen node s = (if \<not> seen \<and> node \<noteq> [] then call_node (cb_done cb) node s else Inr s)"

text \<open>The two properties that the scanner itself understands.\<close>

definition note_cells :: "memory \<Rightarrow> u64 \<Rightarrow> u64 \<Rightarrow> fdt_node list \<Rightarrow> fdt_node list" where
  "note_cells m name pos node =
     (case node of
        [] \<Rightarrow> []
      | n # up \<Rightarrow>
          let n = (if streq m name ''#address-cells'' then n\<lparr>address_cells := cell m (pos + 12)\<rparr> else n);
              n = (if streq m name ''#size-cells'' then n\<lparr>size_cells := cell m (pos + 12)\<rparr> else n)
          in n # up)"

text \<open>\<^verbatim>\<open>while (pos != pos_next) *pos++ = bswap(FDT_NOP)\<close>\<close>

partial_function (option) nop_out :: "u64 \<Rightarrow> u64 \<Rightarrow> memory \<Rightarrow> memory option" where
  "nop_out pos pos_next m =
     (if pos \<noteq> pos_next
      then nop_out (pos + 4) pos_next (store_le 4 m pos (ucast (bswap FDT_NOP)))
      else Some m)"

definition new_child :: fdt_node where
  "new_child = \<lparr>node_name = 0, address_cells = 2, size_cells = 1\<rparr>"

definition upd_mem :: "memory \<Rightarrow> ('c, 'd) scan_st \<Rightarrow> ('c, 'd) scan_st" where
  "upd_mem m s = (fst s, (snd s)\<lparr>mem := m\<rparr>)"

text \<open>
  One scan of a node's contents.  \<open>child\<close> and \<open>seen\<close> (\<^verbatim>\<open>last\<close>) are the locals of the frame that change, \<open>pos\<close> is \<^verbatim>\<open>lex\<close>; the
  result is the next lexeme, the node (whose cell counts may have been read) and the state.  Not
  returning, on a stream without end, is \<^const>\<open>None\<close>.
\<close>

partial_function (option) fdt_scan_helper ::
    "u64 \<Rightarrow> ('c, 'd) fdt_cb \<Rightarrow> u64 \<Rightarrow> fdt_node list \<Rightarrow> fdt_node \<Rightarrow> bool \<Rightarrow> ('c, 'd) scan_st
     \<Rightarrow> (u64 \<times> fdt_node list \<times> ('c, 'd) scan_st) res option" where
  "fdt_scan_helper strs cb pos node child seen s =
     (let m = mem (snd s); tok = cell m pos in
      if tok = FDT_NOP then fdt_scan_helper strs cb (pos + 4) node child seen s
      else if tok = FDT_PROP then
        if seen then Some (Inl (Assert ''!last''))
        else
          let prop = \<lparr>prop_name = strs + ucast (cell m (pos + 8)), prop_len = cell m (pos + 4),
                      prop_value = pos + 12\<rparr>;
              node = note_cells m (prop_name prop) pos node;
              pos = pos + 12 + 4 * word_of_int ((sint (prop_len prop) + 3) sdiv 4)
          in case cb_prop cb node prop s of
               Inl e \<Rightarrow> Some (Inl e)
             | Inr s \<Rightarrow> fdt_scan_helper strs cb pos node child seen s
      else if tok = FDT_BEGIN_NODE then
        let child = child\<lparr>node_name := pos + 4\<rparr>
        in case bindE (call_done cb seen node s) (call_node (cb_open cb) (child # node)) of
             Inl e \<Rightarrow> Some (Inl e)
           | Inr s \<Rightarrow>
               Option.bind (strlen (mem (snd s)) (node_name child)) (\<lambda>l.
               Option.bind (fdt_scan_helper strs cb (pos + 8 + 4 * (l div 4)) (child # node) new_child False s) (\<lambda>r.
                 case r of
                   Inl e \<Rightarrow> Some (Inl e)
                 | Inr (pos_next, nodes, s) \<Rightarrow>
                     (case call_close (cb_close cb) nodes s of
                        Inl e \<Rightarrow> Some (Inl e)
                      | Inr (del, s) \<Rightarrow>
                          Option.bind (if del then nop_out pos pos_next (mem (snd s)) else Some (mem (snd s)))
                            (\<lambda>m. fdt_scan_helper strs cb pos_next node (hd nodes) True (upd_mem m s)))))
      else
        case call_done cb seen node s of
          Inl e \<Rightarrow> Some (Inl e)
        | Inr s \<Rightarrow> Some (Inr (if tok = FDT_END_NODE then pos + 4 else pos, node, s)))"

text \<open>\<^verbatim>\<open>struct fdt_header\<close> is read at its offsets.\<close>

definition fdt_known :: "memory \<Rightarrow> u64 \<Rightarrow> bool" where
  "fdt_known m fdt \<longleftrightarrow> cell m fdt = FDT_MAGIC \<and> cell m (fdt + 24) \<le> FDT_VERSION"

definition fdt_scan :: "u64 \<Rightarrow> ('c, 'd) fdt_cb \<Rightarrow> ('c, 'd) scan_st \<Rightarrow> ('c, 'd) scan_st res" where
  "fdt_scan fdt cb s =
     (let m = mem (snd s) in
      if \<not> fdt_known m fdt then Inr s
      else bindE (finish (fdt_scan_helper (fdt + ucast (cell m (fdt + 12))) cb
                            (fdt + ucast (cell m (fdt + 8))) [] new_child False s))
             (\<lambda>(_, _, s). Inr s))"

definition fdt_size :: "memory \<Rightarrow> u64 \<Rightarrow> u32" where
  "fdt_size m fdt = (if \<not> fdt_known m fdt then 0 else cell m (fdt + 4))"

section \<open>Property values\<close>

text \<open>\<open>n\<close> big-endian cells from \<open>value\<close>: the address after them and their value.\<close>

fun get_cells :: "memory \<Rightarrow> nat \<Rightarrow> u64 \<Rightarrow> u64 \<Rightarrow> u64 \<times> u64" where
  "get_cells m 0 value acc = (value, acc)"
| "get_cells m (Suc n) value acc = get_cells m n (value + 4) (push_bit 32 acc + ucast (cell m value))"

text \<open>The loops count an \<^verbatim>\<open>int\<close> down to zero, so a negative cell count reads nothing; the node is
  the parent of the one the property belongs to, and the root's parent is the null pointer.\<close>

definition fdt_get_address :: "memory \<Rightarrow> fdt_node list \<Rightarrow> u64 \<Rightarrow> (u64 \<times> u64) res" where
  "fdt_get_address m node value =
     (case node of [] \<Rightarrow> Inl (Undefined ''null node'')
      | n # _ \<Rightarrow> Inr (get_cells m (nat (sint (address_cells n))) value 0))"

definition fdt_get_size :: "memory \<Rightarrow> fdt_node list \<Rightarrow> u64 \<Rightarrow> (u64 \<times> u64) res" where
  "fdt_get_size m node value =
     (case node of [] \<Rightarrow> Inl (Undefined ''null node'')
      | n # _ \<Rightarrow> Inr (get_cells m (nat (sint (size_cells n))) value 0))"

definition parent :: "fdt_node list \<Rightarrow> fdt_node list res" where
  "parent node = (case node of [] \<Rightarrow> Inl (Undefined ''null node'') | _ # up \<Rightarrow> Inr up)"

definition fdt_get_value :: "memory \<Rightarrow> fdt_prop \<Rightarrow> u32 \<Rightarrow> u32" where
  "fdt_get_value m prop index = cell m (prop_value prop + 4 * ucast index)"

partial_function (option) string_list_loop :: "memory \<Rightarrow> u64 \<Rightarrow> u64 \<Rightarrow> string \<Rightarrow> int \<Rightarrow> int option" where
  "string_list_loop m list fin str index =
     (if sint (fin - list) > 0
      then if streq m list str then Some index
           else Option.bind (strlen m list) (\<lambda>l. string_list_loop m (list + (l + 1)) fin str (index + 1))
      else Some (- 1))"

definition fdt_string_list_index :: "memory \<Rightarrow> fdt_prop \<Rightarrow> string \<Rightarrow> int res" where
  "fdt_string_list_index m prop str =
     (case string_list_loop m (prop_value prop) (prop_value prop + scast (prop_len prop)) str 0 of
        None \<Rightarrow> Inl Diverge | Some i \<Rightarrow> Inr i)"

text \<open>Pointer differences shrink without wrapping while they are positive.\<close>

lemma sint_step [word_bounds]:
  fixes d k :: u64
  assumes "0 < sint d" "0 \<le> sint k"
  shows "sint (d - k) = sint d - sint k"
proof -
  have "sint d < 2 ^ 63" "sint k < 2 ^ 63" using sint_lt [of d] sint_lt [of k] by simp_all
  then have "signed_take_bit 63 (sint d - sint k) = sint d - sint k"
    using assms by (intro signed_take_bit_int_eq_self) auto
  then show ?thesis by (simp add: sint_word_ariths(2))
qed

end
