(* ===== verification/Machine_Console.thy ===== *)
theory Machine_Console
  imports Machine Util_String Util_Snprintf
begin

text \<open>
  The consoles and the power button of the machine-mode runtime: the HTIF mailbox
  (\<^verbatim>\<open>machine/htif.c\<close>), the three serial ports (\<^verbatim>\<open>uart.c\<close>, \<^verbatim>\<open>uart16550.c\<close>, \<^verbatim>\<open>uart_litex.c\<close>), the
  test finisher (\<^verbatim>\<open>finisher.c\<close>), and printing (\<^verbatim>\<open>mcall_console_putchar\<close>, \<^verbatim>\<open>putstring\<close>, \<^verbatim>\<open>printm\<close>
  of \<^verbatim>\<open>mtrap.c\<close>).  Polling loops that the device may never end are partial functions; their
  \<^const>\<open>None\<close> becomes \<^const>\<open>Diverge\<close>.
\<close>

section \<open>HTIF\<close>

definition TOHOST_CMD :: "u64 \<Rightarrow> u64 \<Rightarrow> u64 \<Rightarrow> u64" where
  "TOHOST_CMD dv cmd payload = push_bit 56 dv OR push_bit 48 cmd OR payload"

definition FROMHOST_DEV :: "u64 \<Rightarrow> u64" where
  "FROMHOST_DEV v = drop_bit 56 v"

definition FROMHOST_CMD :: "u64 \<Rightarrow> u64" where
  "FROMHOST_CMD v = drop_bit 56 (push_bit 8 v)"

definition FROMHOST_DATA :: "u64 \<Rightarrow> u64" where
  "FROMHOST_DATA v = drop_bit 16 (push_bit 16 v)"

definition read_tohost :: "'d hardware \<Rightarrow> ('d, 'z) mach_scheme \<Rightarrow> u64 \<times> ('d, 'z) mach_scheme" where
  "read_tohost W = dev_read W 8 (tohost_addr W)"

definition read_fromhost :: "'d hardware \<Rightarrow> ('d, 'z) mach_scheme \<Rightarrow> u64 \<times> ('d, 'z) mach_scheme" where
  "read_fromhost W = dev_read W 8 (fromhost_addr W)"

definition check_fromhost :: "'d hardware \<Rightarrow> ('d, 'z) mach_scheme \<Rightarrow> ('d, 'z) mach_scheme res" where
  "check_fromhost W s =
     (let (fh, s) = read_fromhost W s
      in if fh = 0 then Inr s
         else
           let s = dev_write W 8 (fromhost_addr W) 0 s
           in bindE (kassert (FROMHOST_DEV fh = 1) ''FROMHOST_DEV(fh) == 1'') (\<lambda>_.
              if FROMHOST_CMD fh = 0
              then Inr (s\<lparr>htif_console_buf := 1 + ucast (ucast (FROMHOST_DATA fh) :: u8)\<rparr>)
              else if FROMHOST_CMD fh = 1 then Inr s
              else Inl (Assert ''0'')))"

partial_function (option) wait_tohost ::
    "'d hardware \<Rightarrow> ('d, 'z) mach_scheme \<Rightarrow> ('d, 'z) mach_scheme res option" where
  "wait_tohost W s =
     (let (th, s) = read_tohost W s
      in if th \<noteq> 0
         then (case check_fromhost W s of Inl e \<Rightarrow> Some (Inl e) | Inr s \<Rightarrow> wait_tohost W s)
         else Some (Inr s))"

definition set_tohost ::
    "'d hardware \<Rightarrow> u64 \<Rightarrow> u64 \<Rightarrow> u64 \<Rightarrow> ('d, 'z) mach_scheme \<Rightarrow> ('d, 'z) mach_scheme res" where
  "set_tohost W dv cmd data s =
     bindE (finish (wait_tohost W s)) (\<lambda>s. Inr (dev_write W 8 (tohost_addr W) (TOHOST_CMD dv cmd data) s))"

text \<open>\<^verbatim>\<open>spinlock_lock(&htif_lock)\<close> ... \<^verbatim>\<open>spinlock_unlock(&htif_lock)\<close>, seen from one hart: if the lock
  is taken and nobody releases it the hart spins for ever.\<close>

definition with_htif_lock ::
    "(('d, 'z) mach_scheme \<Rightarrow> ('a \<times> ('d, 'z) mach_scheme) res)
     \<Rightarrow> ('d, 'z) mach_scheme \<Rightarrow> ('a \<times> ('d, 'z) mach_scheme) res" where
  "with_htif_lock f s =
     (if htif_lock s then Inl Diverge
      else bindE (f (s\<lparr>htif_lock := True\<rparr>)) (\<lambda>(x, s). Inr (x, s\<lparr>htif_lock := False\<rparr>)))"

definition htif_console_getchar :: "'d hardware \<Rightarrow> ('d, 'z) mach_scheme \<Rightarrow> (u32 \<times> ('d, 'z) mach_scheme) res" where
  "htif_console_getchar W s =
     with_htif_lock (\<lambda>s.
       bindE (check_fromhost W s) (\<lambda>s.
       let ch = htif_console_buf s
       in if sint ch \<ge> 0
          then bindE (set_tohost W 1 0 0 (s\<lparr>htif_console_buf := - 1\<rparr>)) (\<lambda>s. Inr (ch - 1, s))
          else Inr (ch - 1, s))) s"

partial_function (option) wait_fromhost ::
    "'d hardware \<Rightarrow> u64 \<Rightarrow> u64 \<Rightarrow> ('d, 'z) mach_scheme \<Rightarrow> ('d, 'z) mach_scheme res option" where
  "wait_fromhost W dv cmd s =
     (let (fh, s) = read_fromhost W s
      in if fh = 0 then wait_fromhost W dv cmd s
         else if FROMHOST_DEV fh = dv \<and> FROMHOST_CMD fh = cmd
         then Some (Inr (dev_write W 8 (fromhost_addr W) 0 s))
         else (case check_fromhost W s of Inl e \<Rightarrow> Some (Inl e) | Inr s \<Rightarrow> wait_fromhost W dv cmd s))"

definition do_tohost_fromhost ::
    "'d hardware \<Rightarrow> u64 \<Rightarrow> u64 \<Rightarrow> u64 \<Rightarrow> ('d, 'z) mach_scheme \<Rightarrow> (unit \<times> ('d, 'z) mach_scheme) res" where
  "do_tohost_fromhost W dv cmd data s =
     with_htif_lock (\<lambda>s.
       bindE (set_tohost W dv cmd data s) (\<lambda>s.
       bindE (finish (wait_fromhost W dv cmd s)) (\<lambda>s. Inr ((), s)))) s"

definition htif_syscall :: "'d hardware \<Rightarrow> u64 \<Rightarrow> ('d, 'z) mach_scheme \<Rightarrow> (unit \<times> ('d, 'z) mach_scheme) res" where
  "htif_syscall W arg s = do_tohost_fromhost W 0 0 arg s"

definition htif_console_putchar :: "'d hardware \<Rightarrow> u8 \<Rightarrow> ('d, 'z) mach_scheme \<Rightarrow> (unit \<times> ('d, 'z) mach_scheme) res" where
  "htif_console_putchar W ch s =
     with_htif_lock (\<lambda>s. bindE (set_tohost W 1 1 (ucast ch) s) (\<lambda>s. Inr ((), s))) s"

text \<open>\<^verbatim>\<open>htif_poweroff\<close> repeats the request for ever; the host obeys the first one.\<close>

definition htif_poweroff :: "'d hardware \<Rightarrow> ('d, 'z) mach_scheme \<Rightarrow> 'a res" where
  "htif_poweroff W s =
     bindE (with_htif_lock (\<lambda>s. bindE (set_tohost W 0 0 1 s) (\<lambda>s. Inr ((), s))) s)
       (\<lambda>_. Inl (Shutdown 0))"

section \<open>Serial ports\<close>

text \<open>\<^verbatim>\<open>uart_putchar\<close> ors the character into the transmit register until the old value was not
  negative (the FIFO had room).\<close>

partial_function (option) uart_putchar ::
    "'d hardware \<Rightarrow> u8 \<Rightarrow> ('d, 'z) mach_scheme \<Rightarrow> ('d, 'z) mach_scheme option" where
  "uart_putchar W ch s =
     (let (r, s) = dev_read W 4 (uart s) s;
          s = dev_write W 4 (uart s) (r OR ucast ch) s
      in if sint (ucast r :: u32) < 0 then uart_putchar W ch s else Some s)"

definition uart_getchar :: "'d hardware \<Rightarrow> ('d, 'z) mach_scheme \<Rightarrow> u32 \<times> ('d, 'z) mach_scheme" where
  "uart_getchar W s =
     (let (ch, s) = dev_read W 4 (uart s + 4) s
      in if sint (ucast ch :: u32) < 0 then (- 1, s) else (ucast ch, s))"

definition reg16550 :: "nat \<Rightarrow> ('d, 'z) mach_scheme \<Rightarrow> u64" where
  "reg16550 r s = uart16550 s + word_of_int (sint (push_bit (unat (uart16550_reg_shift s)) (of_nat r :: u32)))"

partial_function (option) wait_16550 ::
    "'d hardware \<Rightarrow> ('d, 'z) mach_scheme \<Rightarrow> ('d, 'z) mach_scheme option" where
  "wait_16550 W s =
     (let (r, s) = dev_read W 1 (reg16550 5 s) s
      in if r AND 0x20 = 0 then wait_16550 W s else Some s)"

definition uart16550_putchar :: "'d hardware \<Rightarrow> u8 \<Rightarrow> ('d, 'z) mach_scheme \<Rightarrow> ('d, 'z) mach_scheme option" where
  "uart16550_putchar W ch s =
     map_option (\<lambda>s. dev_write W 1 (reg16550 0 s) (ucast ch) s) (wait_16550 W s)"

definition uart16550_getchar :: "'d hardware \<Rightarrow> ('d, 'z) mach_scheme \<Rightarrow> u32 \<times> ('d, 'z) mach_scheme" where
  "uart16550_getchar W s =
     (let (r, s) = dev_read W 1 (reg16550 5 s) s
      in if r AND 0x01 \<noteq> 0
         then let (c, s) = dev_read W 1 (reg16550 0 s) s in (ucast (ucast c :: u8), s)
         else (- 1, s))"

partial_function (option) wait_litex ::
    "'d hardware \<Rightarrow> ('d, 'z) mach_scheme \<Rightarrow> ('d, 'z) mach_scheme option" where
  "wait_litex W s =
     (let (r, s) = dev_read W 4 (uart_litex s + 4) s
      in if r AND 0x01 \<noteq> 0 then wait_litex W s else Some s)"

definition uart_litex_putchar :: "'d hardware \<Rightarrow> u8 \<Rightarrow> ('d, 'z) mach_scheme \<Rightarrow> ('d, 'z) mach_scheme option" where
  "uart_litex_putchar W c s =
     map_option (\<lambda>s. dev_write W 4 (uart_litex s) (ucast c) s) (wait_litex W s)"

definition uart_litex_getchar :: "'d hardware \<Rightarrow> ('d, 'z) mach_scheme \<Rightarrow> u32 \<times> ('d, 'z) mach_scheme" where
  "uart_litex_getchar W s =
     (let (e, s) = dev_read W 4 (uart_litex s + 8) s
      in if e AND 0x01 = 0
         then let (c, s) = dev_read W 4 (uart_litex s) s
              in (ucast c, dev_write W 4 (uart_litex s + 16) 0x02 s)
         else (- 1, s))"

section \<open>The finisher\<close>

definition FINISHER_FAIL :: u32 where "FINISHER_FAIL = 0x3333"
definition FINISHER_PASS :: u32 where "FINISHER_PASS = 0x5555"

definition finisher_exit :: "'d hardware \<Rightarrow> u16 \<Rightarrow> ('d, 'z) mach_scheme \<Rightarrow> ('d, 'z) mach_scheme" where
  "finisher_exit W code s =
     (if finisher s = 0 then s
      else if code = 0 then dev_write W 4 (finisher s) (ucast FINISHER_PASS) s
      else dev_write W 4 (finisher s) (ucast (push_bit 16 (ucast code :: u32) OR FINISHER_FAIL)) s)"

section \<open>Printing\<close>

definition pending :: "'s option \<Rightarrow> 's res" where
  "pending r = (case r of None \<Rightarrow> Inl Diverge | Some s \<Rightarrow> Inr s)"

definition mcall_console_putchar ::
    "'d hardware \<Rightarrow> u8 \<Rightarrow> ('d, 'z) mach_scheme \<Rightarrow> ('d, 'z) mach_scheme res" where
  "mcall_console_putchar W ch s =
     (if uart s \<noteq> 0 then pending (uart_putchar W ch s)
      else if uart16550 s \<noteq> 0 then pending (uart16550_putchar W ch s)
      else if uart_litex s \<noteq> 0 then pending (uart_litex_putchar W ch s)
      else if htif_present s then bindE (htif_console_putchar W ch s) (\<lambda>(_, s). Inr s)
      else Inr s)"

text \<open>\<^verbatim>\<open>putstring\<close> is given the bytes before the terminating zero.\<close>

definition putstring :: "'d hardware \<Rightarrow> u8 list \<Rightarrow> ('d, 'z) mach_scheme \<Rightarrow> ('d, 'z) mach_scheme res" where
  "putstring W bs s = foldE (mcall_console_putchar W) bs s"

definition printm ::
    "'d hardware \<Rightarrow> string \<Rightarrow> vararg list \<Rightarrow> ('d, 'z) mach_scheme \<Rightarrow> ('d, 'z) mach_scheme res" where
  "printm W fmt vl s =
     (let (_, buf) = vsnprintf (replicate 256 0) 256 (bytes_of fmt) vl
      in putstring W (takeWhile (\<lambda>b. b \<noteq> 0) buf) s)"

definition mcall_console_getchar :: "'d hardware \<Rightarrow> ('d, 'z) mach_scheme \<Rightarrow> (u64 \<times> ('d, 'z) mach_scheme) res" where
  "mcall_console_getchar W s =
     (if uart s \<noteq> 0 then let (c, s) = uart_getchar W s in Inr (scast c, s)
      else if uart16550 s \<noteq> 0 then let (c, s) = uart16550_getchar W s in Inr (scast c, s)
      else if uart_litex s \<noteq> 0 then let (c, s) = uart_litex_getchar W s in Inr (scast c, s)
      else if htif_present s then bindE (htif_console_getchar W s) (\<lambda>(c, s). Inr (scast c, s))
      else Inr (- 1, s))"

end
