(* ===== verification/Machine_FdtClients.thy ===== *)
theory Machine_FdtClients
  imports Machine_Fdt Machine_Console
begin

text \<open>
  What the runtime looks for in the device tree, and what it removes from the copy it hands on
  (\<^verbatim>\<open>machine/fdt.c\<close>): memory, harts, the CLINT and the PLIC, the \<^verbatim>\<open>chosen\<close> node; the filters for
  harts, the PLIC and compatible strings; and the printer.  Each client is a record for its
  \<^verbatim>\<open>extra\<close> structure and its callbacks.  A pointer to a node is recorded as its depth.  Structures that
  the code leaves uninitialised start with zeros.
\<close>

definition no_cb :: "('c, 'd) fdt_cb" where
  "no_cb = \<lparr>cb_open = None, cb_prop = (\<lambda>_ _ s. Inr s), cb_done = None, cb_close = None\<rparr>"

text \<open>\<^verbatim>\<open>node->parent\<close> and the cells read with it.\<close>

definition parent_address :: "memory \<Rightarrow> fdt_node list \<Rightarrow> u64 \<Rightarrow> (u64 \<times> u64) res" where
  "parent_address m node value = bindE (parent node) (\<lambda>up. fdt_get_address m up value)"

definition parent_size :: "memory \<Rightarrow> fdt_node list \<Rightarrow> u64 \<Rightarrow> (u64 \<times> u64) res" where
  "parent_size m node value = bindE (parent node) (\<lambda>up. fdt_get_size m up value)"

definition prop_is :: "memory \<Rightarrow> fdt_prop \<Rightarrow> string \<Rightarrow> bool" where
  "prop_is m prop t = streq m (prop_name prop) t"

text \<open>\<^verbatim>\<open>fdt_string_list_index(prop, str) >= 0\<close>\<close>

definition compatible :: "memory \<Rightarrow> fdt_prop \<Rightarrow> string \<Rightarrow> bool res" where
  "compatible m prop str = bindE (fdt_string_list_index m prop str) (\<lambda>i. Inr (i \<ge> 0))"

text \<open>\<^verbatim>\<open>value + len/4\<close> for a pointer to cells and an \<^verbatim>\<open>int\<close> length in bytes.\<close>

definition cells_end :: "u64 \<Rightarrow> u32 \<Rightarrow> u64" where
  "cells_end value len = value + 4 * word_of_int (sint len sdiv 4)"

section \<open>Memory\<close>

record mem_scan =
  ms_memory :: bool
  ms_reg_value :: u64
  ms_reg_len :: u32

definition null_mem_scan :: mem_scan where
  "null_mem_scan = \<lparr>ms_memory = False, ms_reg_value = 0, ms_reg_len = 0\<rparr>"

definition mem_open :: "fdt_node list \<Rightarrow> (mem_scan, 'd) scan_st \<Rightarrow> (mem_scan, 'd) scan_st res" where
  "mem_open node s = Inr (null_mem_scan, snd s)"

definition mem_prop :: "fdt_node list \<Rightarrow> fdt_prop \<Rightarrow> (mem_scan, 'd) scan_st \<Rightarrow> (mem_scan, 'd) scan_st res" where
  "mem_prop node prop s =
     (let (c, t) = s; m = mem t in
      if prop_is m prop ''device_type'' \<and> streq m (prop_value prop) ''memory''
      then Inr (c\<lparr>ms_memory := True\<rparr>, t)
      else if prop_is m prop ''reg''
      then Inr (c\<lparr>ms_reg_value := prop_value prop, ms_reg_len := prop_len prop\<rparr>, t)
      else Inr s)"

text \<open>The loop over the (base, size) pairs; \<open>self\<close> is the address of the running code.\<close>

partial_function (option) mem_regs ::
    "memory \<Rightarrow> u64 \<Rightarrow> fdt_node list \<Rightarrow> u64 \<Rightarrow> u64 \<Rightarrow> u64 \<Rightarrow> (u64 \<times> u64) res option" where
  "mem_regs m self node value fin size0 =
     (if sint (fin - value) > 0
      then case bindE (parent_address m node value) (\<lambda>(value, bs).
                  bindE (parent_size m node value) (\<lambda>(value, sz). Inr (value, bs, sz))) of
             Inl e \<Rightarrow> Some (Inl e)
           | Inr (value, bs, sz) \<Rightarrow>
               mem_regs m self node value fin (if bs \<le> self \<and> self \<le> bs + sz then sz else size0)
      else Some (Inr (value, size0)))"

definition mem_done :: "u64 \<Rightarrow> fdt_node list \<Rightarrow> (mem_scan, 'd) scan_st \<Rightarrow> (mem_scan, 'd) scan_st res" where
  "mem_done self node s =
     (let (c, t) = s; value = ms_reg_value c; fin = cells_end value (ms_reg_len c) in
      if \<not> ms_memory c then Inr s
      else
        bindE (kassert (value \<noteq> 0 \<and> sint (ms_reg_len c) smod 4 = 0) ''scan->reg_value && scan->reg_len % 4 == 0'') (\<lambda>_.
        bindE (finish (mem_regs (mem t) self node value fin (dram_size t))) (\<lambda>(value, sz).
        bindE (kassert (fin = value) ''end == value'') (\<lambda>_. Inr (c, t\<lparr>dram_size := sz\<rparr>)))))"

definition mem_cb :: "u64 \<Rightarrow> (mem_scan, 'd) fdt_cb" where
  "mem_cb self = no_cb\<lparr>cb_open := Some mem_open, cb_prop := mem_prop, cb_done := Some (mem_done self)\<rparr>"

definition query_mem :: "u64 \<Rightarrow> u64 \<Rightarrow> 'd mach \<Rightarrow> 'd mach res" where
  "query_mem self fdt s =
     bindE (fdt_scan fdt (mem_cb self) (null_mem_scan, s\<lparr>dram_size := 0\<rparr>)) (\<lambda>(_, s).
     bindE (kassert (dram_size s > 0) ''mem_size > 0'') (\<lambda>_. Inr s))"

section \<open>Harts\<close>

record hart_scan =
  hs_cpu :: "nat option"
  hs_hart :: u32
  hs_controller :: "nat option"
  hs_cells :: u32
  hs_phandle :: u32

definition hls_init :: "u64 \<Rightarrow> ('d, 'z) mach_scheme \<Rightarrow> ('d, 'z) mach_scheme res" where
  "hls_init i s = bindE (other_hls i s) (\<lambda>_. Inr (s\<lparr>hlss := (hlss s)[unat i := null_hls]\<rparr>))"

definition hart_open :: "fdt_node list \<Rightarrow> (hart_scan, 'd) scan_st \<Rightarrow> (hart_scan, 'd) scan_st res" where
  "hart_open node s =
     (let (c, t) = s;
          c = (if hs_cpu c = None then c\<lparr>hs_hart := - 1\<rparr> else c);
          c = (if hs_controller c = None then c\<lparr>hs_cells := 0, hs_phandle := 0\<rparr> else c)
      in Inr (c, t))"

definition hart_prop :: "fdt_node list \<Rightarrow> fdt_prop \<Rightarrow> (hart_scan, 'd) scan_st \<Rightarrow> (hart_scan, 'd) scan_st res" where
  "hart_prop node prop s =
     (let (c, t) = s; m = mem t in
      if prop_is m prop ''device_type'' \<and> streq m (prop_value prop) ''cpu''
      then bindE (kassert (hs_cpu c = None) ''!scan->cpu'') (\<lambda>_. Inr (c\<lparr>hs_cpu := Some (length node)\<rparr>, t))
      else if prop_is m prop ''interrupt-controller''
      then bindE (kassert (hs_controller c = None) ''!scan->controller'')
             (\<lambda>_. Inr (c\<lparr>hs_controller := Some (length node)\<rparr>, t))
      else if prop_is m prop ''#interrupt-cells'' then Inr (c\<lparr>hs_cells := cell m (prop_value prop)\<rparr>, t)
      else if prop_is m prop ''phandle'' then Inr (c\<lparr>hs_phandle := cell m (prop_value prop)\<rparr>, t)
      else if prop_is m prop ''reg''
      then bindE (parent_address m node (prop_value prop)) (\<lambda>(_, reg). Inr (c\<lparr>hs_hart := ucast reg\<rparr>, t))
      else Inr s)"

definition hart_done :: "fdt_node list \<Rightarrow> (hart_scan, 'd) scan_st \<Rightarrow> (hart_scan, 'd) scan_st res" where
  "hart_done node s =
     (let (c, t) = s in
      bindE (kassert (hs_cpu c = Some (length node) \<longrightarrow> sint (hs_hart c) \<ge> 0) ''scan->hart >= 0'') (\<lambda>_.
      if hs_controller c = Some (length node) \<and> hs_cpu c \<noteq> None
      then
        bindE (kassert (hs_phandle c > 0) ''scan->phandle > 0'') (\<lambda>_.
        bindE (kassert (hs_cells c = 1) ''scan->cells == 1'') (\<lambda>_.
          if sint (hs_hart c) < int MAX_HARTS
          then if sint (hs_hart c) < 0 then Inl (Undefined ''hart_phandles[-1]'')
               else
                 let h = unat (hs_hart c);
                     t = t\<lparr>hart_phandles := (hart_phandles t)[h := hs_phandle c],
                           hart_mask := hart_mask t OR scast (push_bit h 1 :: u32)\<rparr>
                 in bindE (hls_init (of_nat h) t) (\<lambda>t. Inr (c, t))
          else Inr (c, t)))
      else Inr (c, t)))"

definition hart_close :: "fdt_node list \<Rightarrow> (hart_scan, 'd) scan_st \<Rightarrow> (bool \<times> (hart_scan, 'd) scan_st) res" where
  "hart_close node s =
     (let (c, t) = s;
          c = (if hs_cpu c = Some (length node) then c\<lparr>hs_cpu := None\<rparr> else c);
          c = (if hs_controller c = Some (length node) then c\<lparr>hs_controller := None\<rparr> else c)
      in Inr (False, c, t))"

definition hart_cb :: "(hart_scan, 'd) fdt_cb" where
  "hart_cb = no_cb\<lparr>cb_open := Some hart_open, cb_prop := hart_prop, cb_done := Some hart_done,
     cb_close := Some hart_close\<rparr>"

definition query_harts :: "u64 \<Rightarrow> 'd mach \<Rightarrow> 'd mach res" where
  "query_harts fdt s =
     bindE (fdt_scan fdt hart_cb (\<lparr>hs_cpu = None, hs_hart = 0, hs_controller = None, hs_cells = 0,
       hs_phandle = 0\<rparr>, s)) (\<lambda>(_, s).
     bindE (kassert (drop_bit (unat (csrs s MHARTID)) (hart_mask s) \<noteq> 0)
       ''(hart_mask >> read_csr(mhartid)) != 0'') (\<lambda>_. Inr s))"

text \<open>The loop that looks a phandle up: the first hart with it, or \<^verbatim>\<open>MAX_HARTS\<close>.\<close>

definition hart_of_phandle :: "u32 \<Rightarrow> ('d, 'z) mach_scheme \<Rightarrow> nat" where
  "hart_of_phandle ph s =
     (case find (\<lambda>h. hart_phandles s ! h = ph) [0..<MAX_HARTS] of None \<Rightarrow> MAX_HARTS | Some h \<Rightarrow> h)"

definition set_hls :: "nat \<Rightarrow> (hls_t \<Rightarrow> hls_t) \<Rightarrow> ('d, 'z) mach_scheme \<Rightarrow> ('d, 'z) mach_scheme" where
  "set_hls i f s = s\<lparr>hlss := (hlss s)[i := f (hlss s ! i)]\<rparr>"

section \<open>CLINT\<close>

record clint_scan =
  cs_compat :: bool
  cs_reg :: u64
  cs_int_value :: u64
  cs_int_len :: u32
  cs_done :: bool

definition clint_open :: "fdt_node list \<Rightarrow> (clint_scan, 'd) scan_st \<Rightarrow> (clint_scan, 'd) scan_st res" where
  "clint_open node s = Inr ((fst s)\<lparr>cs_compat := False, cs_reg := 0, cs_int_value := 0\<rparr>, snd s)"

text \<open>A property that is \<^verbatim>\<open>compatible\<close> but does not list the device falls through to the next tests.\<close>

definition if_compatible :: "memory \<Rightarrow> fdt_prop \<Rightarrow> string \<Rightarrow> 'a res \<Rightarrow> 'a res \<Rightarrow> 'a res" where
  "if_compatible m prop str yes no =
     (if prop_is m prop ''compatible''
      then bindE (compatible m prop str) (\<lambda>b. if b then yes else no) else no)"

definition clint_prop :: "fdt_node list \<Rightarrow> fdt_prop \<Rightarrow> (clint_scan, 'd) scan_st \<Rightarrow> (clint_scan, 'd) scan_st res" where
  "clint_prop node prop s =
     (let (c, t) = s; m = mem t in
      if_compatible m prop ''riscv,clint0'' (Inr (c\<lparr>cs_compat := True\<rparr>, t))
        (if prop_is m prop ''reg''
         then bindE (parent_address m node (prop_value prop)) (\<lambda>(_, reg). Inr (c\<lparr>cs_reg := reg\<rparr>, t))
         else if prop_is m prop ''interrupts-extended''
         then Inr (c\<lparr>cs_int_value := prop_value prop, cs_int_len := prop_len prop\<rparr>, t)
         else Inr s))"

text \<open>One entry per hart, four cells each.\<close>

function clint_ints :: "u64 \<Rightarrow> u64 \<Rightarrow> u64 \<Rightarrow> nat \<Rightarrow> 'd mach \<Rightarrow> 'd mach" where
  "clint_ints reg value fin index t =
     (if sint (fin - value) > 0
      then
        let h = hart_of_phandle (cell (mem t) value) t;
            t = (if h < MAX_HARTS
                 then set_hls h (\<lambda>x. x\<lparr>ipi := reg + of_nat index * 4,
                                      timecmp := reg + 0x4000 + of_nat index * 8\<rparr>) t
                 else t)
        in clint_ints reg (value + 16) fin (index + 1) t
      else t)"
  by pat_completeness auto

lemma cells_left_decrease:
  fixes v fin k :: u64
  assumes "0 < sint (fin - v)" "0 < sint k"
  shows "sint (fin - (v + k)) < sint (fin - v)"
  using sint_step [of "fin - v" k] assms by (simp add: algebra_simps)

termination clint_ints
  by (relation "measure (\<lambda>(_, value, fin, _, _). nat (sint (fin - value)))")
    (auto intro!: cells_left_decrease)

definition clint_done :: "fdt_node list \<Rightarrow> (clint_scan, 'd) scan_st \<Rightarrow> (clint_scan, 'd) scan_st res" where
  "clint_done node s =
     (let (c, t) = s; value = cs_int_value c; fin = cells_end value (cs_int_len c) in
      if \<not> cs_compat c then Inr s
      else
        bindE (kassert (cs_reg c \<noteq> 0) ''scan->reg != 0'') (\<lambda>_.
        bindE (kassert (value \<noteq> 0 \<and> sint (cs_int_len c) smod 16 = 0) ''scan->int_value && scan->int_len % 16 == 0'') (\<lambda>_.
        bindE (kassert (\<not> cs_done c) ''!scan->done'') (\<lambda>_.
          Inr (c\<lparr>cs_done := True\<rparr>, clint_ints (cs_reg c) value fin 0 (t\<lparr>mtime := cs_reg c + 0xbff8\<rparr>))))))"

definition clint_cb :: "(clint_scan, 'd) fdt_cb" where
  "clint_cb = no_cb\<lparr>cb_open := Some clint_open, cb_prop := clint_prop, cb_done := Some clint_done\<rparr>"

definition query_clint :: "u64 \<Rightarrow> 'd mach \<Rightarrow> 'd mach res" where
  "query_clint fdt s =
     bindE (fdt_scan fdt clint_cb (\<lparr>cs_compat = False, cs_reg = 0, cs_int_value = 0, cs_int_len = 0,
       cs_done = False\<rparr>, s)) (\<lambda>(c, s).
     bindE (kassert (cs_done c) ''scan.done'') (\<lambda>_. Inr s))"

section \<open>PLIC\<close>

record plic_scan =
  ps_compat :: bool
  ps_reg :: u64
  ps_int_value :: u64
  ps_int_len :: u32
  ps_done :: bool
  ps_ndev :: u32

definition null_plic_scan :: plic_scan where
  "null_plic_scan = \<lparr>ps_compat = False, ps_reg = 0, ps_int_value = 0, ps_int_len = 0, ps_done = False,
     ps_ndev = 0\<rparr>"

definition plic_open :: "fdt_node list \<Rightarrow> (plic_scan, 'd) scan_st \<Rightarrow> (plic_scan, 'd) scan_st res" where
  "plic_open node s = Inr ((fst s)\<lparr>ps_compat := False, ps_reg := 0, ps_int_value := 0\<rparr>, snd s)"

definition plic_prop :: "fdt_node list \<Rightarrow> fdt_prop \<Rightarrow> (plic_scan, 'd) scan_st \<Rightarrow> (plic_scan, 'd) scan_st res" where
  "plic_prop node prop s =
     (let (c, t) = s; m = mem t in
      if_compatible m prop ''riscv,plic0'' (Inr (c\<lparr>ps_compat := True\<rparr>, t))
        (if prop_is m prop ''reg''
         then bindE (parent_address m node (prop_value prop)) (\<lambda>(_, reg). Inr (c\<lparr>ps_reg := reg\<rparr>, t))
         else if prop_is m prop ''interrupts-extended''
         then Inr (c\<lparr>ps_int_value := prop_value prop, ps_int_len := prop_len prop\<rparr>, t)
         else if prop_is m prop ''riscv,ndev''
         then Inr (c\<lparr>ps_ndev := cell m (prop_value prop)\<rparr>, t)
         else Inr s))"

definition HART_BASE :: u64 where "HART_BASE = 0x200000"
definition HART_SIZE :: u64 where "HART_SIZE = 0x1000"
definition ENABLE_BASE :: u64 where "ENABLE_BASE = 0x2000"
definition ENABLE_SIZE :: u64 where "ENABLE_SIZE = 0x80"
definition IRQ_S_EXT :: u32 where "IRQ_S_EXT = 9"
definition IRQ_M_EXT :: u32 where "IRQ_M_EXT = 11"

text \<open>Each entry is a pair of cells, a phandle and an interrupt; entry \<open>index\<close> has its own context.\<close>

definition plic_wire ::
    "'d hardware \<Rightarrow> u64 \<Rightarrow> nat \<Rightarrow> nat \<Rightarrow> u32 \<Rightarrow> 'd mach \<Rightarrow> 'd mach res" where
  "plic_wire W reg index h cpu_int t =
     (let ie = reg + ENABLE_BASE + ENABLE_SIZE * of_nat index;
          thresh = reg + HART_BASE + HART_SIZE * of_nat index
      in if cpu_int = IRQ_M_EXT then Inr (set_hls h (\<lambda>x. x\<lparr>plic_m_ie := ie, plic_m_thresh := thresh\<rparr>) t)
         else if cpu_int = IRQ_S_EXT then Inr (set_hls h (\<lambda>x. x\<lparr>plic_s_ie := ie, plic_s_thresh := thresh\<rparr>) t)
         else printm W ''PLIC wired hart %d to wrong interrupt %d'' [VInt (of_nat h), VInt (ucast cpu_int)] t)"

function plic_ints :: "'d hardware \<Rightarrow> u64 \<Rightarrow> u64 \<Rightarrow> u64 \<Rightarrow> nat \<Rightarrow> 'd mach \<Rightarrow> 'd mach res" where
  "plic_ints W reg value fin index t =
     (if sint (fin - value) > 0
      then
        let h = hart_of_phandle (cell (mem t) value) t
        in bindE (if h < MAX_HARTS then plic_wire W reg index h (cell (mem t) (value + 4)) t else Inr t)
             (\<lambda>t. plic_ints W reg (value + 8) fin (index + 1) t)
      else Inr t)"
  by pat_completeness auto

termination plic_ints
  by (relation "measure (\<lambda>(_, _, value, fin, _, _). nat (sint (fin - value)))")
    (auto intro!: cells_left_decrease)

definition plic_done ::
    "'d hardware \<Rightarrow> fdt_node list \<Rightarrow> (plic_scan, 'd) scan_st \<Rightarrow> (plic_scan, 'd) scan_st res" where
  "plic_done W node s =
     (let (c, t) = s; value = ps_int_value c; fin = cells_end value (ps_int_len c) in
      if \<not> ps_compat c then Inr s
      else
        bindE (kassert (ps_reg c \<noteq> 0) ''scan->reg != 0'') (\<lambda>_.
        bindE (kassert (value \<noteq> 0 \<and> sint (ps_int_len c) smod 8 = 0) ''scan->int_value && scan->int_len % 8 == 0'') (\<lambda>_.
        bindE (kassert (sint (ps_ndev c) \<ge> 0 \<and> sint (ps_ndev c) < 1024) ''scan->ndev >= 0 && scan->ndev < 1024'') (\<lambda>_.
        bindE (kassert (\<not> ps_done c) ''!scan->done'') (\<lambda>_.
          bindE (plic_ints W (ps_reg c) value fin 0
                   (t\<lparr>plic_priorities := ps_reg c, plic_ndevs := scast (ps_ndev c)\<rparr>)) (\<lambda>t.
            Inr (c\<lparr>ps_done := True\<rparr>, t)))))))"

definition plic_cb :: "'d hardware \<Rightarrow> (plic_scan, 'd) fdt_cb" where
  "plic_cb W = no_cb\<lparr>cb_open := Some plic_open, cb_prop := plic_prop, cb_done := Some (plic_done W)\<rparr>"

definition query_plic :: "'d hardware \<Rightarrow> u64 \<Rightarrow> 'd mach \<Rightarrow> 'd mach res" where
  "query_plic W fdt s = bindE (fdt_scan fdt (plic_cb W) (null_plic_scan, s)) (\<lambda>(_, s). Inr s)"

text \<open>Hiding the machine-mode contexts of the PLIC from the next stage.\<close>

function plic_mask :: "u64 \<Rightarrow> u64 \<Rightarrow> memory \<Rightarrow> memory" where
  "plic_mask value fin m =
     (if sint (fin - value) > 0
      then
        let m = (if cell m (value + 4) = IRQ_M_EXT then store_le 4 m (value + 4) (ucast (bswap (- 1))) else m)
        in plic_mask (value + 8) fin m
      else m)"
  by pat_completeness auto

termination plic_mask
  by (relation "measure (\<lambda>(value, fin, _). nat (sint (fin - value)))")
    (auto intro!: cells_left_decrease)

definition plic_redact :: "fdt_node list \<Rightarrow> (plic_scan, 'd) scan_st \<Rightarrow> (plic_scan, 'd) scan_st res" where
  "plic_redact node s =
     (let (c, t) = s in
      if \<not> ps_compat c then Inr s
      else Inr (c\<lparr>ps_done := True\<rparr>,
        t\<lparr>mem := plic_mask (ps_int_value c) (cells_end (ps_int_value c) (ps_int_len c)) (mem t)\<rparr>))"

definition filter_plic :: "u64 \<Rightarrow> 'd mach \<Rightarrow> 'd mach res" where
  "filter_plic fdt s =
     bindE (fdt_scan fdt (no_cb\<lparr>cb_open := Some plic_open, cb_prop := plic_prop, cb_done := Some plic_redact\<rparr>)
              (null_plic_scan, s)) (\<lambda>(_, s). Inr s)"

section \<open>Compatible strings\<close>

record compat_scan =
  co_depth :: int
  co_kill :: int

definition compat_open :: "fdt_node list \<Rightarrow> (compat_scan, 'd) scan_st \<Rightarrow> (compat_scan, 'd) scan_st res" where
  "compat_open node s = Inr ((fst s)\<lparr>co_depth := co_depth (fst s) + 1\<rparr>, snd s)"

definition compat_prop ::
    "string \<Rightarrow> fdt_node list \<Rightarrow> fdt_prop \<Rightarrow> (compat_scan, 'd) scan_st \<Rightarrow> (compat_scan, 'd) scan_st res" where
  "compat_prop wanted node prop s =
     (let (c, t) = s in
      if_compatible (mem t) prop wanted
        (Inr (if co_depth c < co_kill c then c\<lparr>co_kill := co_depth c\<rparr> else c, t)) (Inr s))"

definition compat_close ::
    "fdt_node list \<Rightarrow> (compat_scan, 'd) scan_st \<Rightarrow> (bool \<times> (compat_scan, 'd) scan_st) res" where
  "compat_close node s =
     (let (c, t) = s; del = (co_kill c = co_depth c); c = c\<lparr>co_depth := co_depth c - 1\<rparr>
      in Inr (del, if del then c\<lparr>co_kill := 999\<rparr> else c, t))"

definition compat_cb :: "string \<Rightarrow> (compat_scan, 'd) fdt_cb" where
  "compat_cb wanted =
     no_cb\<lparr>cb_open := Some compat_open, cb_prop := compat_prop wanted, cb_close := Some compat_close\<rparr>"

definition filter_compat :: "u64 \<Rightarrow> string \<Rightarrow> 'd mach \<Rightarrow> 'd mach res" where
  "filter_compat fdt wanted s =
     bindE (fdt_scan fdt (compat_cb wanted) (\<lparr>co_depth = 0, co_kill = 999\<rparr>, s)) (\<lambda>(_, s). Inr s)"

section \<open>The chosen node\<close>

record chosen_scan =
  ch_chosen :: "nat option"
  ch_kernel_start :: u64
  ch_kernel_end :: u64

definition node_is :: "memory \<Rightarrow> fdt_node list \<Rightarrow> string \<Rightarrow> bool" where
  "node_is m node t = (case node of [] \<Rightarrow> False | n # _ \<Rightarrow> streq m (node_name n) t)"

definition chosen_open :: "fdt_node list \<Rightarrow> (chosen_scan, 'd) scan_st \<Rightarrow> (chosen_scan, 'd) scan_st res" where
  "chosen_open node s =
     (let (c, t) = s in
      Inr (if node_is (mem t) node ''chosen'' then c\<lparr>ch_chosen := Some (length node)\<rparr> else c, t))"

definition chosen_close ::
    "fdt_node list \<Rightarrow> (chosen_scan, 'd) scan_st \<Rightarrow> (bool \<times> (chosen_scan, 'd) scan_st) res" where
  "chosen_close node s =
     (let (c, t) = s in
      Inr (False, if ch_chosen c = Some (length node) then c\<lparr>ch_chosen := None\<rparr> else c, t))"

definition chosen_prop ::
    "fdt_node list \<Rightarrow> fdt_prop \<Rightarrow> (chosen_scan, 'd) scan_st \<Rightarrow> (chosen_scan, 'd) scan_st res" where
  "chosen_prop node prop s =
     (let (c, t) = s; m = mem t in
      if ch_chosen c = None then Inr s
      else if prop_is m prop ''riscv,kernel-start''
      then bindE (parent_address m node (prop_value prop)) (\<lambda>(_, v). Inr (c\<lparr>ch_kernel_start := v\<rparr>, t))
      else if prop_is m prop ''riscv,kernel-end''
      then bindE (parent_address m node (prop_value prop)) (\<lambda>(_, v). Inr (c\<lparr>ch_kernel_end := v\<rparr>, t))
      else Inr s)"

definition query_chosen :: "u64 \<Rightarrow> 'd mach \<Rightarrow> 'd mach res" where
  "query_chosen fdt s =
     bindE (fdt_scan fdt (no_cb\<lparr>cb_open := Some chosen_open, cb_prop := chosen_prop, cb_close := Some chosen_close\<rparr>)
              (\<lparr>ch_chosen = None, ch_kernel_start = 0, ch_kernel_end = 0\<rparr>, s)) (\<lambda>(c, s).
       Inr (s\<lparr>kernel_start := ch_kernel_start c, kernel_end := ch_kernel_end c\<rparr>))"

section \<open>Hart filter\<close>

record hart_filter =
  hf_compat :: bool
  hf_hart :: u32
  hf_status :: u64
  hf_mmu_type :: u64

definition hart_filter_open :: "fdt_node list \<Rightarrow> (hart_filter, 'd) scan_st \<Rightarrow> (hart_filter, 'd) scan_st res" where
  "hart_filter_open node s = Inr (\<lparr>hf_compat = False, hf_hart = - 1, hf_status = 0, hf_mmu_type = 0\<rparr>, snd s)"

definition hart_filter_prop ::
    "fdt_node list \<Rightarrow> fdt_prop \<Rightarrow> (hart_filter, 'd) scan_st \<Rightarrow> (hart_filter, 'd) scan_st res" where
  "hart_filter_prop node prop s =
     (let (c, t) = s; m = mem t in
      if prop_is m prop ''device_type'' \<and> streq m (prop_value prop) ''cpu''
      then Inr (c\<lparr>hf_compat := True\<rparr>, t)
      else if prop_is m prop ''reg''
      then bindE (parent_address m node (prop_value prop)) (\<lambda>(_, reg). Inr (c\<lparr>hf_hart := ucast reg\<rparr>, t))
      else if prop_is m prop ''status'' then Inr (c\<lparr>hf_status := prop_value prop\<rparr>, t)
      else if prop_is m prop ''mmu-type'' then Inr (c\<lparr>hf_mmu_type := prop_value prop\<rparr>, t)
      else Inr s)"

text \<open>The bytes of a string in memory, for \<^verbatim>\<open>%s\<close>.\<close>

definition cstring :: "memory \<Rightarrow> u64 \<Rightarrow> u8 list res" where
  "cstring m a = (case strlen m a of None \<Rightarrow> Inl Diverge
                  | Some l \<Rightarrow> Inr (map (\<lambda>i. m (a + of_nat i)) [0..<unat l]))"

definition hart_filter_mask :: "'d hardware \<Rightarrow> hart_filter \<Rightarrow> 'd mach \<Rightarrow> (bool \<times> 'd mach) res" where
  "hart_filter_mask W c t =
     (let m = mem t in
      if hf_mmu_type c = 0 then Inr (True, t)
      else if \<not> streq m (hf_status c) ''okay'' then Inr (True, t)
      else if streq m (hf_mmu_type c) ''riscv,sv39'' then Inr (False, t)
      else if streq m (hf_mmu_type c) ''riscv,sv48'' then Inr (False, t)
      else bindE (cstring m (hf_status c)) (\<lambda>st. bindE (cstring m (hf_mmu_type c)) (\<lambda>mt.
           bindE (printm W (''hart_filter_mask saw unknown hart type: status='' @ [CHR 0x22] @ ''%s'' @ [CHR 0x22]
                    @ '', mmu_type='' @ [CHR 0x22] @ ''%s'' @ [CHR 0x22, CHR 0x0A]) [VStr st, VStr mt] t) (\<lambda>t.
             Inr (True, t)))))"

text \<open>\<^verbatim>\<open>strcpy\<close> of a literal.\<close>

fun put_literal :: "u64 \<Rightarrow> u8 list \<Rightarrow> memory \<Rightarrow> memory" where
  "put_literal a [] m = m(a := 0)"
| "put_literal a (b # bs) m = put_literal (a + 1) bs (m(a := b))"

definition hart_filter_done ::
    "'d hardware \<Rightarrow> fdt_node list \<Rightarrow> (hart_filter, 'd) scan_st \<Rightarrow> (hart_filter, 'd) scan_st res" where
  "hart_filter_done W node s =
     (let (c, t) = s in
      if \<not> hf_compat c then Inr s
      else
        bindE (kassert (hf_status c \<noteq> 0) ''filter->status'') (\<lambda>_.
        bindE (kassert (sint (hf_hart c) \<ge> 0) ''filter->hart >= 0'') (\<lambda>_.
        bindE (hart_filter_mask W c t) (\<lambda>(masked, t).
          if \<not> masked then Inr (c, t)
          else if sint (hf_hart c) \<ge> 32 then Inl (Undefined ''shift of an int'')
          else
            let m = put_literal (hf_status c) (bytes_of ''masked'') (mem t);
                m = store_le 4 m (hf_status c - 8) (ucast (bswap 7))
            in Inr (c, t\<lparr>mem := m,
                 disabled_hart_mask := disabled_hart_mask t OR scast (push_bit (unat (hf_hart c)) 1 :: u32)\<rparr>)))))"

definition filter_harts :: "'d hardware \<Rightarrow> u64 \<Rightarrow> 'd mach \<Rightarrow> 'd mach res" where
  "filter_harts W fdt s =
     bindE (fdt_scan fdt (no_cb\<lparr>cb_open := Some hart_filter_open, cb_prop := hart_filter_prop,
                                cb_done := Some (hart_filter_done W)\<rparr>)
              (\<lparr>hf_compat = False, hf_hart = 0, hf_status = 0, hf_mmu_type = 0\<rparr>, s\<lparr>disabled_hart_mask := 0\<rparr>))
       (\<lambda>(_, s). Inr s)"

section \<open>Consoles and the finisher\<close>

text \<open>The scan structure and the \<^verbatim>\<open>open\<close> and \<^verbatim>\<open>prop\<close> callbacks that \<^verbatim>\<open>uart.c\<close> and \<^verbatim>\<open>finisher.c\<close> repeat for
  their compatible strings.\<close>

record dev_scan =
  dv_compat :: bool
  dv_reg :: u64

definition null_dev_scan :: dev_scan where
  "null_dev_scan = \<lparr>dv_compat = False, dv_reg = 0\<rparr>"

definition dev_open :: "fdt_node list \<Rightarrow> (dev_scan, 'd) scan_st \<Rightarrow> (dev_scan, 'd) scan_st res" where
  "dev_open node s = Inr (null_dev_scan, snd s)"

definition dev_prop ::
    "string \<Rightarrow> fdt_node list \<Rightarrow> fdt_prop \<Rightarrow> (dev_scan, 'd) scan_st \<Rightarrow> (dev_scan, 'd) scan_st res" where
  "dev_prop wanted node prop s =
     (let (c, t) = s; m = mem t in
      if_compatible m prop wanted (Inr (c\<lparr>dv_compat := True\<rparr>, t))
        (if prop_is m prop ''reg''
         then bindE (parent_address m node (prop_value prop)) (\<lambda>(_, reg). Inr (c\<lparr>dv_reg := reg\<rparr>, t))
         else Inr s))"

definition uart_prop :: "fdt_node list \<Rightarrow> fdt_prop \<Rightarrow> (dev_scan, 'd) scan_st \<Rightarrow> (dev_scan, 'd) scan_st res" where
  "uart_prop = dev_prop ''sifive,uart0''"

definition uart_done ::
    "'d hardware \<Rightarrow> fdt_node list \<Rightarrow> (dev_scan, 'd) scan_st \<Rightarrow> (dev_scan, 'd) scan_st res" where
  "uart_done W node s =
     (let (c, t) = s in
      if \<not> dv_compat c \<or> dv_reg c = 0 \<or> uart t \<noteq> 0 then Inr s
      else
        let t = t\<lparr>uart := dv_reg c\<rparr>;
            t = dev_write W 4 (uart t + 8) 1 t
        in Inr (c, dev_write W 4 (uart t + 12) 1 t))"

definition query_uart :: "'d hardware \<Rightarrow> u64 \<Rightarrow> 'd mach \<Rightarrow> 'd mach res" where
  "query_uart W fdt s =
     bindE (fdt_scan fdt (no_cb\<lparr>cb_open := Some dev_open, cb_prop := uart_prop, cb_done := Some (uart_done W)\<rparr>)
              (null_dev_scan, s)) (\<lambda>(_, s). Inr s)"

record uart16550_scan = dev_scan +
  us_reg_offset :: u32
  us_reg_shift :: u32
  us_clock_freq :: u32
  us_baud :: u32

definition UART_DEFAULT_BAUD :: u32 where "UART_DEFAULT_BAUD = 38400"

definition null_uart16550_scan :: uart16550_scan where
  "null_uart16550_scan = \<lparr>dv_compat = False, dv_reg = 0, us_reg_offset = 0, us_reg_shift = 0,
     us_clock_freq = 0, us_baud = UART_DEFAULT_BAUD\<rparr>"

definition uart16550_open :: "fdt_node list \<Rightarrow> (uart16550_scan, 'd) scan_st \<Rightarrow> (uart16550_scan, 'd) scan_st res" where
  "uart16550_open node s = Inr (null_uart16550_scan, snd s)"

definition uart16550_prop ::
    "fdt_node list \<Rightarrow> fdt_prop \<Rightarrow> (uart16550_scan, 'd) scan_st \<Rightarrow> (uart16550_scan, 'd) scan_st res" where
  "uart16550_prop node prop s =
     (let (c, t) = s; m = mem t; found = Inr (c\<lparr>dv_compat := True\<rparr>, t) in
      if_compatible m prop ''ns16550a'' found
        (if_compatible m prop ''ns16750'' found
          (if prop_is m prop ''reg''
           then bindE (parent_address m node (prop_value prop)) (\<lambda>(_, reg). Inr (c\<lparr>dv_reg := reg\<rparr>, t))
           else if prop_is m prop ''reg-shift'' then Inr (c\<lparr>us_reg_shift := fdt_get_value m prop 0\<rparr>, t)
           else if prop_is m prop ''reg-offset'' then Inr (c\<lparr>us_reg_offset := fdt_get_value m prop 0\<rparr>, t)
           else if prop_is m prop ''current-speed'' then Inr (c\<lparr>us_baud := fdt_get_value m prop 0\<rparr>, t)
           else if prop_is m prop ''clock-frequency'' then Inr (c\<lparr>us_clock_freq := fdt_get_value m prop 0\<rparr>, t)
           else Inr s)))"

text \<open>The divisor; its guard does not exclude that sixteen times the rate wraps to zero.\<close>

definition uart16550_divisor :: "u32 \<Rightarrow> u32 \<Rightarrow> u32 res" where
  "uart16550_divisor clock baud =
     (let d = 16 * (if baud \<noteq> 0 then baud else UART_DEFAULT_BAUD)
      in if d = 0 then Inl (Undefined ''division by zero'')
         else let divisor = clock div d
              in Inr (if divisor \<ge> 0x10000 then clock div (16 * UART_DEFAULT_BAUD) else divisor))"

definition uart16550_done ::
    "'d hardware \<Rightarrow> fdt_node list \<Rightarrow> (uart16550_scan, 'd) scan_st \<Rightarrow> (uart16550_scan, 'd) scan_st res" where
  "uart16550_done W node s =
     (let (c, t) = s in
      if \<not> dv_compat c \<or> dv_reg c = 0 \<or> uart16550 t \<noteq> 0 then Inr s
      else
        let t = (if us_clock_freq c \<noteq> 0 then t\<lparr>uart16550_clock := us_clock_freq c\<rparr> else t)
        in bindE (uart16550_divisor (uart16550_clock t) (us_baud c)) (\<lambda>divisor.
           let t = t\<lparr>uart16550 := dv_reg c + ucast (us_reg_offset c), uart16550_reg_shift := us_reg_shift c\<rparr>
           in Inr (c, fold (\<lambda>(r, v) t. dev_write W 1 (reg16550 r t) v t)
                [(1, 0x00), (3, 0x80), (0, ucast (ucast divisor :: u8)),
                 (1, ucast (ucast (drop_bit 8 divisor) :: u8)), (3, 0x03), (2, 0xC7)] t)))"

definition query_uart16550 :: "'d hardware \<Rightarrow> u64 \<Rightarrow> 'd mach \<Rightarrow> 'd mach res" where
  "query_uart16550 W fdt s =
     bindE (fdt_scan fdt (no_cb\<lparr>cb_open := Some uart16550_open, cb_prop := uart16550_prop,
                                cb_done := Some (uart16550_done W)\<rparr>)
              (null_uart16550_scan, s)) (\<lambda>(_, s). Inr s)"

definition uart_litex_prop :: "fdt_node list \<Rightarrow> fdt_prop \<Rightarrow> (dev_scan, 'd) scan_st \<Rightarrow> (dev_scan, 'd) scan_st res" where
  "uart_litex_prop node prop s =
     (let (c, t) = s; m = mem t in
      if prop_is m prop ''compatible''
         \<and> (streq m (prop_value prop) ''litex,uart0'' \<or> streq m (prop_value prop) ''litex,liteuart'')
      then Inr (c\<lparr>dv_compat := True\<rparr>, t)
      else if prop_is m prop ''reg''
      then bindE (parent_address m node (prop_value prop)) (\<lambda>(_, reg). Inr (c\<lparr>dv_reg := reg\<rparr>, t))
      else Inr s)"

definition uart_litex_done :: "fdt_node list \<Rightarrow> (dev_scan, 'd) scan_st \<Rightarrow> (dev_scan, 'd) scan_st res" where
  "uart_litex_done node s =
     (let (c, t) = s in
      if \<not> dv_compat c \<or> dv_reg c = 0 \<or> uart_litex t \<noteq> 0 then Inr s
      else Inr (c, t\<lparr>uart_litex := dv_reg c\<rparr>))"

definition query_uart_litex :: "u64 \<Rightarrow> 'd mach \<Rightarrow> 'd mach res" where
  "query_uart_litex fdt s =
     bindE (fdt_scan fdt (no_cb\<lparr>cb_open := Some dev_open, cb_prop := uart_litex_prop, cb_done := Some uart_litex_done\<rparr>)
              (null_dev_scan, s)) (\<lambda>(_, s). Inr s)"

definition finisher_prop :: "fdt_node list \<Rightarrow> fdt_prop \<Rightarrow> (dev_scan, 'd) scan_st \<Rightarrow> (dev_scan, 'd) scan_st res" where
  "finisher_prop = dev_prop ''sifive,test0''"

definition finisher_done :: "fdt_node list \<Rightarrow> (dev_scan, 'd) scan_st \<Rightarrow> (dev_scan, 'd) scan_st res" where
  "finisher_done node s =
     (let (c, t) = s in
      if \<not> dv_compat c \<or> dv_reg c = 0 \<or> finisher t \<noteq> 0 then Inr s
      else Inr (c, t\<lparr>finisher := dv_reg c\<rparr>))"

definition query_finisher :: "u64 \<Rightarrow> 'd mach \<Rightarrow> 'd mach res" where
  "query_finisher fdt s =
     bindE (fdt_scan fdt (no_cb\<lparr>cb_open := Some dev_open, cb_prop := finisher_prop, cb_done := Some finisher_done\<rparr>)
              (null_dev_scan, s)) (\<lambda>(_, s). Inr s)"

text \<open>HTIF: the scan structure is one flag.\<close>

definition htif_open :: "fdt_node list \<Rightarrow> (bool, 'd) scan_st \<Rightarrow> (bool, 'd) scan_st res" where
  "htif_open node s = Inr (False, snd s)"

definition htif_prop :: "fdt_node list \<Rightarrow> fdt_prop \<Rightarrow> (bool, 'd) scan_st \<Rightarrow> (bool, 'd) scan_st res" where
  "htif_prop node prop s = if_compatible (mem (snd s)) prop ''ucb,htif0'' (Inr (True, snd s)) (Inr s)"

definition htif_done :: "fdt_node list \<Rightarrow> (bool, 'd) scan_st \<Rightarrow> (bool, 'd) scan_st res" where
  "htif_done node s = Inr (fst s, if fst s then (snd s)\<lparr>htif_present := True\<rparr> else snd s)"

definition query_htif :: "u64 \<Rightarrow> 'd mach \<Rightarrow> 'd mach res" where
  "query_htif fdt s =
     bindE (fdt_scan fdt (no_cb\<lparr>cb_open := Some htif_open, cb_prop := htif_prop, cb_done := Some htif_done\<rparr>)
              (False, s)) (\<lambda>(_, s). Inr s)"

end
