(* ===== verification/Machine_FdtPrint.thy ===== *)
theory Machine_FdtPrint
  imports Machine_FdtClients
begin

text \<open>
  The device-tree printer (\<^verbatim>\<open>fdt_print\<close> of \<^verbatim>\<open>machine/fdt.c\<close>, compiled with
  \<^verbatim>\<open>PK_PRINT_DEVICE_TREE\<close>).  The stack of open nodes holds their depths.
\<close>

definition isstring :: "u8 \<Rightarrow> bool" where
  "isstring c \<longleftrightarrow>
     65 \<le> uint c \<and> uint c \<le> 90 \<or> 97 \<le> uint c \<and> uint c \<le> 122 \<or> 48 \<le> uint c \<and> uint c \<le> 57
     \<or> c = 0 \<or> c = 32 \<or> c = 44 \<or> c = 45"

definition FDT_PRINT_MAX_DEPTH :: nat where "FDT_PRINT_MAX_DEPTH = 32"

record print_info =
  pi_depth :: nat
  pi_stack :: "nat list"

definition crlf :: string where "crlf = [CHR 0x0D, CHR 0x0A]"

definition fdt_print_printm ::
    "'d hardware \<Rightarrow> nat \<Rightarrow> string \<Rightarrow> vararg list \<Rightarrow> 'd mach \<Rightarrow> 'd mach res" where
  "fdt_print_printm W depth fmt vl t =
     bindE (foldE (\<lambda>_. printm W ''  '' []) [0..<depth] t) (\<lambda>t. printm W fmt vl t)"

text \<open>Closing the nodes above the parent; \<^verbatim>\<open>stack[-1]\<close> is never meant.\<close>

fun close_to :: "'d hardware \<Rightarrow> nat \<Rightarrow> nat \<Rightarrow> nat list \<Rightarrow> 'd mach \<Rightarrow> (nat \<times> 'd mach) res" where
  "close_to W par 0 stk t = Inl (Undefined ''info->stack[-1]'')"
| "close_to W par (Suc d) stk t =
     (if stk ! d \<noteq> par
      then bindE (fdt_print_printm W d (''}'' @ crlf) [] t) (\<lambda>t. close_to W par d stk t)
      else Inr (Suc d, t))"

definition fdt_print_open :: "'d hardware \<Rightarrow> fdt_node list \<Rightarrow> (print_info, 'd) scan_st \<Rightarrow> (print_info, 'd) scan_st res" where
  "fdt_print_open W node s =
     (let (c, t) = s; par = length node - 1 in
      bindE (if par \<noteq> 0 then close_to W par (pi_depth c) (pi_stack c) t else Inr (pi_depth c, t)) (\<lambda>(d, t).
      bindE (cstring (mem t) (node_name (hd node))) (\<lambda>nm.
      bindE (fdt_print_printm W d (''%s {'' @ crlf) [VStr nm] t) (\<lambda>t.
        if d \<ge> FDT_PRINT_MAX_DEPTH then Inl (Undefined ''info->stack[32]'')
        else Inr (c\<lparr>pi_depth := d + 1, pi_stack := (pi_stack c)[d := length node]\<rparr>, t)))))"

text \<open>The heuristic of \<^verbatim>\<open>dtc\<close>: printable bytes, no two zeros in a row.\<close>

definition as_string :: "u8 list \<Rightarrow> bool" where
  "as_string bs \<longleftrightarrow> (\<forall>i < length bs. isstring (bs ! i) \<and> \<not> (0 < i \<and> bs ! i = 0 \<and> bs ! (i - 1) = 0))"

partial_function (option) print_strings ::
    "'d hardware \<Rightarrow> u64 \<Rightarrow> u64 \<Rightarrow> u64 \<Rightarrow> 'd mach \<Rightarrow> 'd mach res option" where
  "print_strings W char_data len i t =
     (if i < len
      then case bindE (if i \<noteq> 0 then printm W '', '' [] t else Inr t) (\<lambda>t.
                bindE (cstring (mem t) (char_data + i)) (\<lambda>b.
                bindE (printm W ([CHR 0x22] @ ''%s'' @ [CHR 0x22]) [VStr b] t) (\<lambda>t. Inr (length b, t)))) of
             Inl e \<Rightarrow> Some (Inl e)
           | Inr (l, t) \<Rightarrow> print_strings W char_data len (i + of_nat l + 1) t
      else Some (Inr t))"

definition print_cells :: "'d hardware \<Rightarrow> u64 \<Rightarrow> nat \<Rightarrow> 'd mach \<Rightarrow> 'd mach res" where
  "print_cells W value n t =
     foldE (\<lambda>i t. bindE (if i \<noteq> 0 then printm W '' '' [] t else Inr t) (\<lambda>t.
              printm W ''0x%08x'' [VInt (ucast (cell (mem t) (value + 4 * of_nat i)))] t))
       [0..<n] t"

definition fdt_print_prop ::
    "'d hardware \<Rightarrow> fdt_node list \<Rightarrow> fdt_prop \<Rightarrow> (print_info, 'd) scan_st \<Rightarrow> (print_info, 'd) scan_st res" where
  "fdt_print_prop W node prop s =
     (let (c, t) = s; value = prop_value prop; len = scast (prop_len prop) :: u64 in
      bindE (cstring (mem t) (prop_name prop)) (\<lambda>nm.
      bindE (fdt_print_printm W (pi_depth c) ''%s'' [VStr nm] t) (\<lambda>t.
      if prop_len prop = 0 then bindE (printm W ('';'' @ crlf) [] t) (\<lambda>t. Inr (c, t))
      else
        bindE (printm W '' = '' [] t) (\<lambda>t.
        let bs = map (\<lambda>i. mem t (value + of_nat i)) [0..<nat (sint (prop_len prop))]
        in bindE (if as_string bs then finish (print_strings W value len 0 t)
                  else bindE (printm W ''<'' [] t) (\<lambda>t.
                       bindE (print_cells W value (nat (sint (prop_len prop) sdiv 4)) t) (\<lambda>t.
                         printm W ''>'' [] t))) (\<lambda>t.
           bindE (printm W ('';'' @ crlf) [] t) (\<lambda>t. Inr (c, t)))))))"

definition fdt_print :: "'d hardware \<Rightarrow> u64 \<Rightarrow> 'd mach \<Rightarrow> 'd mach res" where
  "fdt_print W fdt s =
     bindE (fdt_scan fdt (no_cb\<lparr>cb_open := Some (fdt_print_open W), cb_prop := fdt_print_prop W\<rparr>)
              (\<lparr>pi_depth = 0, pi_stack = replicate FDT_PRINT_MAX_DEPTH 0\<rparr>, s)) (\<lambda>(c, s).
       foldE (\<lambda>d. fdt_print_printm W d (''}'' @ crlf) []) (rev [0..<pi_depth c]) s)"

end
