(* ===== verification/Machine_Trap.thy ===== *)
theory Machine_Trap
  imports Machine_Console
begin

text \<open>
  The trap handlers of the machine-mode runtime (\<^verbatim>\<open>machine/mtrap.c\<close>): the supervisor binary
  interface, interprocessor interrupts, the redirection of a trap to supervisor mode, and the
  loads and stores made with the privilege of the interrupted program
  (\<^verbatim>\<open>machine/unprivileged_memory.h\<close>).
\<close>

section \<open>Ending the machine\<close>

definition IPI_SOFT :: u32 where "IPI_SOFT = 0x1"
definition IPI_FENCE_I :: u32 where "IPI_FENCE_I = 0x2"
definition IPI_SFENCE_VMA :: u32 where "IPI_SFENCE_VMA = 0x4"
definition IPI_HALT :: u32 where "IPI_HALT = 0x8"

definition upd_hls :: "nat \<Rightarrow> (hls_t \<Rightarrow> hls_t) \<Rightarrow> ('d, 'z) mach_scheme \<Rightarrow> ('d, 'z) mach_scheme" where
  "upd_hls i f s = s\<lparr>hlss := (hlss s)[i := f (hlss s ! i)]\<rparr>"

definition send_ipi ::
    "'d hardware \<Rightarrow> u64 \<Rightarrow> u32 \<Rightarrow> ('d, 'z) mach_scheme \<Rightarrow> ('d, 'z) mach_scheme res" where
  "send_ipi W recipient event s =
     (if drop_bit (unat recipient) (disabled_hart_mask s) AND 1 \<noteq> 0 then Inr s
      else bindE (other_hls recipient s) (\<lambda>h.
             let s = upd_hls (unat recipient) (\<lambda>h. h\<lparr>mipi_pending := mipi_pending h OR event\<rparr>) s
             in Inr (dev_write W 4 (ipi h) 1 s)))"

text \<open>Waiting for one hart, consuming the interrupts that arrive meanwhile.\<close>

partial_function (option) wait_ipi ::
    "'d hardware \<Rightarrow> u64 \<Rightarrow> u64 \<Rightarrow> u32 \<Rightarrow> ('d, 'z) mach_scheme \<Rightarrow> (u32 \<times> ('d, 'z) mach_scheme) option" where
  "wait_ipi W theirs mine incoming s =
     (let (v, s) = dev_read W 4 theirs s
      in if ucast v = (0 :: u32) then Some (incoming, s)
         else let (old, s) = dev_read W 4 mine s
              in wait_ipi W theirs mine (incoming OR ucast old) (dev_write W 4 mine 0 s))"

definition harts_of :: "u64 \<Rightarrow> nat list" where
  "harts_of m = filter (bit m) [0..<64]"

definition send_ipis ::
    "'d hardware \<Rightarrow> u64 \<Rightarrow> u32 \<Rightarrow> ('d, 'z) mach_scheme \<Rightarrow> ('d, 'z) mach_scheme res" where
  "send_ipis W m event s =
     bindE (foldE (\<lambda>i. send_ipi W (of_nat i) event) (harts_of m) s) (\<lambda>s.
     if event = IPI_SOFT then Inr s
     else
       bindE (foldE (\<lambda>i (incoming, s).
                bindE (other_hls (of_nat i) s) (\<lambda>h. bindE (this_hls s) (\<lambda>me.
                  pending (wait_ipi W (ipi h) (ipi me) incoming s))))
              (harts_of m) (0, s)) (\<lambda>(incoming, s).
       if incoming \<noteq> 0
       then bindE (this_hls s) (\<lambda>me. Inr (dev_write W 4 (ipi me) (ucast incoming) s))
       else Inr s))"

definition poweroff :: "'d hardware \<Rightarrow> u16 \<Rightarrow> ('d, 'z) mach_scheme \<Rightarrow> 'a res" where
  "poweroff W code s =
     bindE (printm W (''Power off'' @ [CHR 0x0D, CHR 0x0A]) [] s) (\<lambda>s.
     let s = finisher_exit W code s
     in if htif_present s then htif_poweroff W s
        else bindE (send_ipis W (hart_mask s) IPI_HALT s) (\<lambda>_. Inl (Shutdown (ucast code))))"

definition bad_trap :: "('s, 'a) handler" where
  "bad_trap = Inl (Stop (Panic ''machine mode: unhandlable trap''))"

section \<open>Redirecting a trap to supervisor mode\<close>

text \<open>
  \<^verbatim>\<open>__redirect_trap\<close> goes to \<^verbatim>\<open>restore_mscratch\<close>, past \<^verbatim>\<open>sw tp, (sp)\<close>.  The save slot of register 0, out of
  which the emulated \<^verbatim>\<open>fcsr\<close> was moved into \<open>tp\<close>, was zeroed before the handler was called and stays
  zero: a redirected trap clears the program's emulated \<^verbatim>\<open>fcsr\<close>.  (With floating-point hardware \<open>tp\<close>
  is not used and the slot is always zero.)
\<close>

definition redirect_exit :: "('d, 'z) mach_scheme \<Rightarrow> ('d, 'z) mach_scheme" where
  "redirect_exit s = s\<lparr>tp := 0\<rparr>"

definition redirect_trap ::
    "'d hardware \<Rightarrow> u64 \<Rightarrow> u64 \<Rightarrow> u64 \<Rightarrow> ('d, 'z) mach_scheme \<Rightarrow> (('d, 'z) mach_scheme, 'a) handler" where
  "redirect_trap W epc mstatus badaddr s =
     (let s = write_csr W STVAL badaddr s;
          s = write_csr W SEPC epc s;
          s = write_csr W SCAUSE (csrs s MCAUSE) s;
          s = write_csr W MEPC (csrs s STVEC) s;
          mpp_s = MSTATUS_MPP AND drop_bit 1 MSTATUS_MPP;
          new = mstatus AND NOT (MSTATUS_SPP OR MSTATUS_SPIE OR MSTATUS_SIE);
          new = new OR ((mstatus * (MSTATUS_SPIE div MSTATUS_SIE)) AND MSTATUS_SPIE);
          new = new OR ((mstatus div (mpp_s div MSTATUS_SPP)) AND MSTATUS_SPP);
          new = new OR mpp_s
      in Inl (Redirect (redirect_exit (write_csr W MSTATUS new s))))"

definition pmp_trap ::
    "'d hardware \<Rightarrow> u64 \<Rightarrow> ('d, 'z) mach_scheme \<Rightarrow> (('d, 'z) mach_scheme, 'a) handler" where
  "pmp_trap W mepc s = redirect_trap W mepc (csrs s MSTATUS) (csrs s MTVAL) s"

text \<open>\<open>regs\<close> is the frame of the trap taken in machine mode: registers 11, 12 and 13 say whether
  the faulting instruction was an access on behalf of the interrupted program.\<close>

definition machine_page_fault ::
    "'d hardware \<Rightarrow> u64 list \<Rightarrow> u64 \<Rightarrow> ('d, 'z) mach_scheme \<Rightarrow> (('d, 'z) mach_scheme, 'a) handler" where
  "machine_page_fault W regs mcause s =
     (if csrs s MSTATUS AND MSTATUS_MPRV \<noteq> 0
      then if regs ! 11 = MSTATUS_MPRV OR MSTATUS_MXR
           then if mcause = CAUSE_LOAD_PAGE_FAULT
                then let s = write_csr W MCAUSE CAUSE_FETCH_PAGE_FAULT s
                     in redirect_trap W (regs ! 12) (regs ! 13) (csrs s MTVAL) s
                else if mcause = CAUSE_LOAD_ACCESS
                then let s = write_csr W MCAUSE CAUSE_FETCH_ACCESS s
                     in redirect_trap W (regs ! 12) (regs ! 13) (csrs s MTVAL) s
                else bad_trap
           else if regs ! 11 \<noteq> MSTATUS_MPRV then bad_trap
           else redirect_trap W (regs ! 12) (regs ! 13) (csrs s MTVAL) s
      else bad_trap)"

definition trap_from_machine_mode ::
    "'d hardware \<Rightarrow> u64 list \<Rightarrow> ('d, 'z) mach_scheme \<Rightarrow> (('d, 'z) mach_scheme, 'a) handler" where
  "trap_from_machine_mode W regs s =
     (let mcause = csrs s MCAUSE
      in if mcause \<in> {CAUSE_LOAD_PAGE_FAULT, CAUSE_STORE_PAGE_FAULT, CAUSE_FETCH_ACCESS,
                       CAUSE_LOAD_ACCESS, CAUSE_STORE_ACCESS}
         then machine_page_fault W regs mcause s
         else bad_trap)"

section \<open>Access on behalf of the interrupted program\<close>

text \<open>
  The inline assembly sets \<open>flags\<close> in \<^verbatim>\<open>mstatus\<close> around one load or store, with \<open>flags\<close> in a1, \<open>mepc\<close>
  in a2 and the old \<^verbatim>\<open>mstatus\<close> in a3.  If the access traps, the machine enters machine mode
  again (the cause and the address in their registers, the previous privilege recorded as
  machine mode) and \<^verbatim>\<open>trap_from_machine_mode\<close> finds these registers in its frame.
\<close>

definition MSTATUS_MIE :: u64 where "MSTATUS_MIE = 0x8"

definition enter_from_m :: "u64 \<Rightarrow> u64 \<Rightarrow> ('d, 'z) mach_scheme \<Rightarrow> ('d, 'z) mach_scheme" where
  "enter_from_m cause addr s =
     s\<lparr>csrs := (csrs s)(MCAUSE := cause, MTVAL := addr,
         MSTATUS := (csrs s MSTATUS AND NOT (MSTATUS_MIE OR MSTATUS_MPIE)) OR MSTATUS_MPP
                      OR (if csrs s MSTATUS AND MSTATUS_MIE \<noteq> 0 then MSTATUS_MPIE else 0))\<rparr>"

definition unpriv ::
    "'d hardware \<Rightarrow> u64 \<Rightarrow> access \<Rightarrow> nat \<Rightarrow> u64 \<Rightarrow> u64 \<Rightarrow> ('d, 'z) mach_scheme
     \<Rightarrow> (('d, 'z) mach_scheme, u64) handler" where
  "unpriv W flags acc n addr mepc s =
     (let mstatus = csrs s MSTATUS; s' = set_csr W MSTATUS flags s
      in case mprv_translate W (csrs s') (mem s) acc n addr of
           Inr pa \<Rightarrow> Inr pa
         | Inl cause \<Rightarrow>
             trap_from_machine_mode W ((replicate 32 0)[11 := flags, 12 := mepc, 13 := mstatus])
               (enter_from_m cause addr s'))"

text \<open>\<^verbatim>\<open>load_uint8_t\<close> and its kin: the \<open>n\<close> bytes, not extended.\<close>

definition load_unpriv ::
    "'d hardware \<Rightarrow> nat \<Rightarrow> u64 \<Rightarrow> u64 \<Rightarrow> ('d, 'z) mach_scheme \<Rightarrow> (('d, 'z) mach_scheme, u64) handler" where
  "load_unpriv W n addr mepc s =
     bindE (unpriv W MSTATUS_MPRV Load_access n addr mepc s) (\<lambda>pa. Inr (load_le n (mem s) pa))"

definition store_unpriv ::
    "'d hardware \<Rightarrow> nat \<Rightarrow> u64 \<Rightarrow> u64 \<Rightarrow> u64 \<Rightarrow> ('d, 'z) mach_scheme
     \<Rightarrow> (('d, 'z) mach_scheme, ('d, 'z) mach_scheme) handler" where
  "store_unpriv W n addr v mepc s =
     bindE (unpriv W MSTATUS_MPRV Store_access n addr mepc s) (\<lambda>pa. Inr (s\<lparr>mem := store_le n (mem s) pa v\<rparr>))"

text \<open>\<^verbatim>\<open>get_insn\<close> with compressed instructions: at an address that is two modulo four only halfwords
  are read.  The result is the instruction and the \<^verbatim>\<open>mstatus\<close> read on the way.\<close>

definition get_insn ::
    "'d hardware \<Rightarrow> u64 \<Rightarrow> ('d, 'z) mach_scheme \<Rightarrow> (('d, 'z) mach_scheme, u64 \<times> u64) handler" where
  "get_insn W mepc s =
     (let fetch = \<lambda>n a. bindE (unpriv W (MSTATUS_MPRV OR MSTATUS_MXR) Load_access n a mepc s)
                          (\<lambda>pa. Inr (load_le n (mem s) pa));
          mstatus = csrs s MSTATUS
      in if mepc AND 2 = 0
         then bindE (fetch 4 mepc) (\<lambda>insn.
                Inr (if insn AND 3 = 3 then insn else drop_bit 48 (push_bit 48 insn), mstatus))
         else bindE (fetch 2 mepc) (\<lambda>insn.
                if insn AND 3 \<noteq> 3 then Inr (insn, mstatus)
                else bindE (fetch 2 (mepc + 2)) (\<lambda>hi. Inr (insn + push_bit 16 hi, mstatus))))"

section \<open>The supervisor binary interface\<close>

definition ENOSYS_M :: u64 where "ENOSYS_M = 88"

text \<open>\<^verbatim>\<open>send_ipi_many(pmask, event)\<close>; a null \<open>pmask\<close> means every hart.\<close>

definition send_ipi_many ::
    "'d hardware \<Rightarrow> u64 \<Rightarrow> u32 \<Rightarrow> ('d, 'z) mach_scheme \<Rightarrow> (('d, 'z) mach_scheme, ('d, 'z) mach_scheme) handler" where
  "send_ipi_many W pmask event s =
     bindE (if pmask = 0 then Inr (hart_mask s)
            else bindE (load_unpriv W 8 pmask (csrs s MEPC) s) (\<lambda>m. Inr (hart_mask s AND m))) (\<lambda>m.
     liftE (send_ipis W m event s))"

definition mcall_set_timer :: "'d hardware \<Rightarrow> u64 \<Rightarrow> ('d, 'z) mach_scheme \<Rightarrow> (u64 \<times> ('d, 'z) mach_scheme) res" where
  "mcall_set_timer W when s =
     bindE (this_hls s) (\<lambda>h.
       let s = dev_write W 8 (timecmp h) when s;
           s = clear_csr W MIP MIP_STIP s;
           s = set_csr W MIE MIP_MTIP s
       in Inr (0, s))"

definition mcall_clear_ipi :: "'d hardware \<Rightarrow> ('d, 'z) mach_scheme \<Rightarrow> u64 \<times> ('d, 'z) mach_scheme" where
  "mcall_clear_ipi W s = (csrs s MIP AND MIP_SSIP, clear_csr W MIP MIP_SSIP s)"

definition set_xreg :: "nat \<Rightarrow> u64 \<Rightarrow> ('d, 'z) mach_scheme \<Rightarrow> ('d, 'z) mach_scheme" where
  "set_xreg r v s = s\<lparr>xregs := (xregs s)[r := v]\<rparr>"

definition mcall_trap ::
    "'d hardware \<Rightarrow> u64 \<Rightarrow> ('d, 'z) mach_scheme \<Rightarrow> (('d, 'z) mach_scheme, ('d, 'z) mach_scheme) handler" where
  "mcall_trap W mepc s =
     (let s = write_csr W MEPC (mepc + 4) s;
          n = xregs s ! 17; arg0 = xregs s ! 10;
          ipi = (\<lambda>event. bindE (send_ipi_many W arg0 event s) (\<lambda>s. Inr (0, s)))
      in bindE (if n = 1 then bindE (liftE (mcall_console_putchar W (ucast arg0) s)) (\<lambda>s. Inr (0, s))
                else if n = 2 then liftE (mcall_console_getchar W s)
                else if n = 4 then ipi IPI_SOFT
                else if n = 6 \<or> n = 7 then ipi IPI_SFENCE_VMA
                else if n = 5 then ipi IPI_FENCE_I
                else if n = 3 then Inr (mcall_clear_ipi W s)
                else if n = 8 then liftE (poweroff W 0 s)
                else if n = 0 then liftE (mcall_set_timer W arg0 s)
                else Inr (- ENOSYS_M, s)) (\<lambda>(retval, s).
           Inr (set_xreg 10 retval s)))"

end
