(* ===== verification/Machine_Init.thy ===== *)
theory Machine_Init
  imports Machine_FdtPrint Machine_Trap
begin

text \<open>
  Bringing a hart up (\<^verbatim>\<open>machine/minit.c\<close>) and the Berkeley boot loader (\<^verbatim>\<open>bbl/bbl.c\<close>).  The last
  step of a boot is a jump: its result is the address, the two arguments and the state.
\<close>

section \<open>Hart state\<close>

definition ext_F :: nat where "ext_F = 5"
definition ext_D :: nat where "ext_D = 3"
definition ext_S :: nat where "ext_S = 18"
definition ext_U :: nat where "ext_U = 20"
definition ext_V :: nat where "ext_V = 21"

definition mstatus_init :: "'d hardware \<Rightarrow> ('d, 'z) mach_scheme \<Rightarrow> ('d, 'z) mach_scheme" where
  "mstatus_init W s =
     (let ms = (if supports_extension ext_F s then MSTATUS_FS else 0)
                 OR (if supports_extension ext_V s then MSTATUS_VS else 0);
          s = write_csr W MSTATUS ms s;
          s = (if supports_extension ext_S s then write_csr W SCOUNTEREN (- 1) s else s);
          s = (if supports_extension ext_U s then write_csr W MCOUNTEREN (- 1) s else s);
          s = write_csr W MIE MIP_MSIP s
      in if supports_extension ext_S s then write_csr W SATP 0 s else s)"

text \<open>\<^verbatim>\<open>1U << cause\<close> for the exceptions that go to supervisor mode.\<close>

definition mandatory_exceptions :: u64 where
  "mandatory_exceptions =
     push_bit (unat CAUSE_FETCH_PAGE_FAULT) 1 OR push_bit (unat CAUSE_BREAKPOINT) 1
     OR push_bit (unat CAUSE_LOAD_PAGE_FAULT) 1 OR push_bit (unat CAUSE_STORE_PAGE_FAULT) 1
     OR push_bit (unat CAUSE_USER_ECALL) 1"

definition delegated_exceptions :: u64 where
  "delegated_exceptions =
     mandatory_exceptions OR push_bit (unat CAUSE_MISALIGNED_FETCH) 1
     OR push_bit (unat CAUSE_SOFTWARE_CHECK_FAULT) 1"

definition delegate_traps :: "'d hardware \<Rightarrow> ('d, 'z) mach_scheme \<Rightarrow> ('d, 'z) mach_scheme res" where
  "delegate_traps W s =
     (if \<not> supports_extension ext_S s then Inr s
      else
        let interrupts = MIP_SSIP OR MIP_STIP OR MIP_SEIP;
            s = write_csr W MIDELEG interrupts s;
            s = write_csr W MEDELEG delegated_exceptions s
        in bindE (kassert (csrs s MIDELEG AND interrupts = interrupts) ''(read_csr(mideleg) & interrupts) == interrupts'') (\<lambda>_.
           bindE (kassert (NOT (csrs s MEDELEG) AND mandatory_exceptions = 0)
             ''(~read_csr(medeleg) & mandatorily_delegable_exceptions) == 0'') (\<lambda>_. Inr s)))"

text \<open>Without hardware floating point the extensions are switched off, so that their instructions
  trap to the emulator.\<close>

definition fp_init :: "'d hardware \<Rightarrow> ('d, 'z) mach_scheme \<Rightarrow> ('d, 'z) mach_scheme res" where
  "fp_init W s =
     (if \<not> supports_extension ext_F s then Inr s
      else
        bindE (kassert (csrs s MSTATUS AND MSTATUS_FS \<noteq> 0) ''read_csr(mstatus) & MSTATUS_FS'') (\<lambda>_.
        let fd_mask = push_bit ext_F 1 OR push_bit ext_D 1;
            s = clear_csr W MISA fd_mask s
        in bindE (kassert (csrs s MISA AND fd_mask = 0) ''!(read_csr(misa) & fd_mask)'') (\<lambda>_. Inr s)))"

definition setup_pmp :: "'d hardware \<Rightarrow> ('d, 'z) mach_scheme \<Rightarrow> ('d, 'z) mach_scheme" where
  "setup_pmp W s =
     (if has_pmp W
      then let pmpc = PMP_NAPOT OR PMP_R OR PMP_W OR PMP_X
           in write_csr W PMPCFG0 pmpc (write_csr W (PMPADDR 0) (- 1) s)
      else s)"

definition hart_init :: "'d hardware \<Rightarrow> ('d, 'z) mach_scheme \<Rightarrow> ('d, 'z) mach_scheme res" where
  "hart_init W s =
     (let s = s\<lparr>misa_img := csrs s MISA\<rparr>; s = mstatus_init W s
      in bindE (fp_init W s) (\<lambda>s. bindE (delegate_traps W s) (\<lambda>s. Inr (setup_pmp W s))))"

definition M_MEGAPAGE :: u64 where "M_MEGAPAGE = 0x200000"

definition memory_init :: "('d, 'z) mach_scheme \<Rightarrow> ('d, 'z) mach_scheme" where
  "memory_init s = s\<lparr>dram_size := dram_size s div M_MEGAPAGE * M_MEGAPAGE\<rparr>"

section \<open>Interrupt controllers\<close>

definition plic_init :: "'d hardware \<Rightarrow> ('d, 'z) mach_scheme \<Rightarrow> ('d, 'z) mach_scheme" where
  "plic_init W s =
     fold (\<lambda>i s. dev_write W 4 (plic_priorities s + 4 * of_nat i) 1 s) [1..<unat (plic_ndevs s) + 1] s"

definition hart_plic_init :: "'d hardware \<Rightarrow> ('d, 'z) mach_scheme \<Rightarrow> ('d, 'z) mach_scheme res" where
  "hart_plic_init W s =
     bindE (this_hls s) (\<lambda>h.
     let s = dev_write W 4 (ipi h) 0 s;
         s = dev_write W 8 (timecmp h) (- 1) s;
         s = write_csr W MIP 0 s
     in if plic_ndevs s = 0 then Inr s
        else
          let ie_words = (plic_ndevs s + 32 - 1) div 32;
              s = (if plic_s_ie h \<noteq> 0
                   then fold (\<lambda>i s. dev_write W 4 (plic_s_ie h + 4 * of_nat i) 0xFFFFFFFF s) [0..<unat ie_words] s
                   else s);
              s = dev_write W 4 (plic_m_thresh h) 1 s
          in Inr (if plic_s_thresh h \<noteq> 0 then dev_write W 4 (plic_s_thresh h) 0 s else s))"

text \<open>Only enabled harts of the device tree are woken; the conversion of \<^verbatim>\<open>~disabled & mask\<close> is on
  64 bits.\<close>

definition wake_harts :: "'d hardware \<Rightarrow> ('d, 'z) mach_scheme \<Rightarrow> ('d, 'z) mach_scheme res" where
  "wake_harts W s =
     foldE (\<lambda>i s. if bit (NOT (disabled_hart_mask s) AND hart_mask s) i
                   then bindE (other_hls (of_nat i) s) (\<lambda>h. Inr (dev_write W 4 (ipi h) 1 s))
                   else Inr s) [0..<MAX_HARTS] s"

section \<open>Boot\<close>

text \<open>\<open>self\<close> is the address of \<^verbatim>\<open>mem_done\<close>, with which \<^verbatim>\<open>query_mem\<close> recognises its own memory.\<close>

definition init_first_hart ::
    "'d hardware \<Rightarrow> u64 \<Rightarrow> u64 \<Rightarrow> ('d mach \<Rightarrow> 'a res) \<Rightarrow> 'd mach \<Rightarrow> 'a res" where
  "init_first_hart W self dtb boot s =
     bindE (query_uart W dtb (mstatus_init W s)) (\<lambda>s.
     bindE (query_uart16550 W dtb s) (\<lambda>s.
     bindE (query_uart_litex dtb s) (\<lambda>s.
     bindE (query_htif dtb s) (\<lambda>s.
     bindE (hart_init W s) (\<lambda>s.
     bindE (hls_init 0 s) (\<lambda>s.
     bindE (query_finisher dtb s) (\<lambda>s.
     bindE (query_mem self dtb s) (\<lambda>s.
     bindE (query_harts dtb s) (\<lambda>s.
     bindE (query_clint dtb s) (\<lambda>s.
     bindE (query_plic W dtb s) (\<lambda>s.
     bindE (query_chosen dtb s) (\<lambda>s.
     bindE (wake_harts W s) (\<lambda>s.
     bindE (hart_plic_init W (plic_init W s)) (\<lambda>s.
       boot (memory_init s)))))))))))))))"

definition init_other_hart :: "'d hardware \<Rightarrow> ('d mach \<Rightarrow> 'a res) \<Rightarrow> 'd mach \<Rightarrow> 'a res" where
  "init_other_hart W boot s = bindE (hart_init W s) (\<lambda>s. bindE (hart_plic_init W s) boot)"

definition MENVCFG_SSE :: u64 where "MENVCFG_SSE = 0x8"
definition MENVCFG_CBIE :: u64 where "MENVCFG_CBIE = 0x30"
definition MENVCFG_CBCFE :: u64 where "MENVCFG_CBCFE = 0x40"

text \<open>\<^verbatim>\<open>mret\<close> to supervisor mode: the entry point, its arguments and the state; \<open>frame\<close> is
  \<^verbatim>\<open>MACHINE_STACK_TOP() - MENTRY_FRAME_SIZE\<close>, whose first slot is the emulated \<^verbatim>\<open>fcsr\<close>.\<close>

definition enter_supervisor_mode ::
    "'d hardware \<Rightarrow> u64 \<Rightarrow> u64 \<Rightarrow> u64 \<Rightarrow> u64 \<Rightarrow> ('d, 'z) mach_scheme \<Rightarrow> (u64 \<times> u64 \<times> u64) \<times> ('d, 'z) mach_scheme" where
  "enter_supervisor_mode W frm fn arg0 arg1 s =
     (let ms = INSERT_FIELD (csrs s MSTATUS) MSTATUS_MPP PRV_S;
          ms = INSERT_FIELD ms MSTATUS_MPIE 0;
          s = write_csr W MSTATUS ms s;
          s = write_csr W MSCRATCH frm s;
          s = write_csr W MENVCFG (MENVCFG_SSE OR MENVCFG_CBCFE OR INSERT_FIELD 0 MENVCFG_CBIE 1) s;
          s = s\<lparr>mem := store_le 8 (mem s) frm 0\<rparr>;
          s = write_csr W MEPC fn s
      in ((csrs s MEPC, arg0, arg1), s))"

definition enter_machine_mode ::
    "'d hardware \<Rightarrow> u64 \<Rightarrow> u64 \<Rightarrow> u64 \<Rightarrow> u64 \<Rightarrow> ('d, 'z) mach_scheme \<Rightarrow> (u64 \<times> u64 \<times> u64) \<times> ('d, 'z) mach_scheme" where
  "enter_machine_mode W frm fn arg0 arg1 s =
     (let ms = INSERT_FIELD (csrs s MSTATUS) MSTATUS_MPIE 0;
          s = write_csr W MSTATUS ms s;
          s = write_csr W MSCRATCH frm s
      in ((fn, arg0, arg1), s))"

section \<open>The boot loader\<close>

text \<open>The addresses that the linker script fixes.\<close>

record image =
  payload_start :: u64
  payload_end :: u64
  ftext :: u64
  image_end :: u64

definition dtb_output :: "image \<Rightarrow> ('d, 'z) mach_scheme \<Rightarrow> u64" where
  "dtb_output I s = (if kernel_end s \<noteq> 0 then ROUNDUP (kernel_end s) M_MEGAPAGE else payload_end I)"

definition filter_dtb :: "'d hardware \<Rightarrow> image \<Rightarrow> u64 \<Rightarrow> 'd mach \<Rightarrow> 'd mach res" where
  "filter_dtb W I source s =
     (let dest = dtb_output I s
      in case memcpy (mem s) dest source (ucast (fdt_size (mem s) source)) of
           None \<Rightarrow> Inl Diverge
         | Some m \<Rightarrow>
             bindE (filter_harts W dest (s\<lparr>mem := m\<rparr>)) (\<lambda>s.
             bindE (filter_plic dest s) (\<lambda>s.
             bindE (filter_compat dest ''riscv,clint0'' s) (\<lambda>s.
               filter_compat dest ''riscv,debug-013'' s))))"

text \<open>Machine memory is taken away from supervisor mode if four PMP registers exist.\<close>

definition pmp_probe :: "'d hardware \<Rightarrow> ('d, 'z) mach_scheme \<Rightarrow> u64 \<times> ('d, 'z) mach_scheme" where
  "pmp_probe W s =
     (if has_pmp W
      then let s = fold (\<lambda>i. write_csr W (PMPADDR i) (- 1)) [0..<4] s
           in (csrs s (PMPADDR 0) AND csrs s (PMPADDR 1) AND csrs s (PMPADDR 2) AND csrs s (PMPADDR 3), s)
      else (0, s))"

definition protect_memory :: "'d hardware \<Rightarrow> image \<Rightarrow> ('d, 'z) mach_scheme \<Rightarrow> ('d, 'z) mach_scheme" where
  "protect_memory W I s =
     (let (found, s) = pmp_probe W s
      in if found = 0 then setup_pmp W s
         else
           let s = write_csr W (PMPADDR 0) (drop_bit 2 (ftext I)) s;
               s = write_csr W (PMPADDR 1) (drop_bit 2 (image_end I)) s;
               s = write_csr W (PMPADDR 2) (- 1) s;
               s = write_csr W (PMPADDR 3) 0 s;
               cfg = push_bit 8 PMP_TOR OR push_bit 16 (PMP_NAPOT OR PMP_R OR PMP_W OR PMP_X)
           in write_csr W PMPCFG0 cfg s)"

text \<open>A hart waits for the entry point; a masked hart never leaves.\<close>

definition boot_other_hart ::
    "'d hardware \<Rightarrow> image \<Rightarrow> u64 \<Rightarrow> 'd mach \<Rightarrow> ((u64 \<times> u64 \<times> u64) \<times> 'd mach) res" where
  "boot_other_hart W I frm s =
     (let entry = entry_point s; hartid = csrs s MHARTID
      in if entry = 0 then Inl Diverge
         else if scast (push_bit (unat hartid) 1 :: u32) AND disabled_hart_mask s \<noteq> 0 then Inl Diverge
         else Inr (enter_supervisor_mode W frm entry hartid (dtb_output I s) (protect_memory W I s)))"

definition boot_loader ::
    "'d hardware \<Rightarrow> image \<Rightarrow> u64 \<Rightarrow> u64 \<Rightarrow> 'd mach \<Rightarrow> ((u64 \<times> u64 \<times> u64) \<times> 'd mach) res" where
  "boot_loader W I frm dtb s =
     bindE (filter_dtb W I dtb s) (\<lambda>s.
       boot_other_hart W I frm
         (s\<lparr>entry_point := (if kernel_start s \<noteq> 0 then kernel_start s else payload_start I)\<rparr>))"

end
