(* ===== verification/Machine_Insn.thy ===== *)
theory Machine_Insn
  imports Machine_Trap
begin

text \<open>
  The fields of instructions and the registers they name (\<^verbatim>\<open>machine/emulation.h\<close>,
  \<^verbatim>\<open>fp_emulation.h\<close>), and the emulation of multiplication and division
  (\<^verbatim>\<open>muldiv_emulation.c\<close>), in the build without hardware floating point, multiplication or
  vectors: the floating-point registers lie behind the integer frame and \<^verbatim>\<open>tp\<close> holds \<^verbatim>\<open>fcsr\<close>.  A
  handler gets \<^verbatim>\<open>mepc\<close>, \<^verbatim>\<open>mstatus\<close> and the instruction; the register frame is in the state.
\<close>

section \<open>Fields of instructions\<close>

definition SHIFT_RIGHT :: "u64 \<Rightarrow> int \<Rightarrow> u64" where
  "SHIFT_RIGHT x y = (if y < 0 then push_bit (nat (- y)) x else drop_bit (nat y) x)"

definition RV_X :: "u64 \<Rightarrow> nat \<Rightarrow> nat \<Rightarrow> u64" where
  "RV_X x k n = drop_bit k x AND (push_bit n 1 - 1)"

definition RVC_LW_IMM :: "u64 \<Rightarrow> u64" where
  "RVC_LW_IMM x = push_bit 2 (RV_X x 6 1) OR push_bit 3 (RV_X x 10 3) OR push_bit 6 (RV_X x 5 1)"

definition RVC_LD_IMM :: "u64 \<Rightarrow> u64" where
  "RVC_LD_IMM x = push_bit 3 (RV_X x 10 3) OR push_bit 6 (RV_X x 5 2)"

definition RVC_LDSP_IMM :: "u64 \<Rightarrow> u64" where
  "RVC_LDSP_IMM x = push_bit 3 (RV_X x 5 2) OR push_bit 5 (RV_X x 12 1) OR push_bit 6 (RV_X x 2 3)"

definition RVC_SDSP_IMM :: "u64 \<Rightarrow> u64" where
  "RVC_SDSP_IMM x = push_bit 3 (RV_X x 10 3) OR push_bit 6 (RV_X x 7 3)"

definition RVC_RS1S :: "u64 \<Rightarrow> u64" where "RVC_RS1S insn = 8 + RV_X insn 7 3"
definition RVC_RS2S :: "u64 \<Rightarrow> u64" where "RVC_RS2S insn = 8 + RV_X insn 2 3"
definition RVC_RS2 :: "u64 \<Rightarrow> u64" where "RVC_RS2 insn = RV_X insn 2 5"

text \<open>\<^verbatim>\<open>GET_REG\<close> computes a byte offset into the frame of eight-byte registers.\<close>

definition reg_index :: "u64 \<Rightarrow> int \<Rightarrow> nat" where
  "reg_index insn pos = unat (SHIFT_RIGHT insn (pos - 3) AND 0xF8) div 8"

definition GET_REG :: "u64 \<Rightarrow> int \<Rightarrow> ('d, 'z) mach_scheme \<Rightarrow> u64" where
  "GET_REG insn pos s = xregs s ! reg_index insn pos"

definition GET_RS1 :: "u64 \<Rightarrow> ('d, 'z) mach_scheme \<Rightarrow> u64" where "GET_RS1 insn s = GET_REG insn 15 s"
definition GET_RS2 :: "u64 \<Rightarrow> ('d, 'z) mach_scheme \<Rightarrow> u64" where "GET_RS2 insn s = GET_REG insn 20 s"
definition GET_RS1S :: "u64 \<Rightarrow> ('d, 'z) mach_scheme \<Rightarrow> u64" where "GET_RS1S insn s = GET_REG (RVC_RS1S insn) 0 s"
definition GET_RS2S :: "u64 \<Rightarrow> ('d, 'z) mach_scheme \<Rightarrow> u64" where "GET_RS2S insn s = GET_REG (RVC_RS2S insn) 0 s"
definition GET_RS2C :: "u64 \<Rightarrow> ('d, 'z) mach_scheme \<Rightarrow> u64" where "GET_RS2C insn s = GET_REG insn 2 s"
definition GET_SP :: "('d, 'z) mach_scheme \<Rightarrow> u64" where "GET_SP s = GET_REG 2 0 s"

definition SET_RD :: "u64 \<Rightarrow> u64 \<Rightarrow> ('d, 'z) mach_scheme \<Rightarrow> ('d, 'z) mach_scheme" where
  "SET_RD insn val s = set_xreg (reg_index insn 7) val s"

definition IMM_I :: "u64 \<Rightarrow> u64" where
  "IMM_I insn = scast (signed_drop_bit 20 (ucast insn :: u32))"

definition IMM_S :: "u64 \<Rightarrow> u64" where
  "IMM_S insn = scast (push_bit 5 (signed_drop_bit 25 (ucast insn :: u32)) OR ucast (drop_bit 7 insn AND 0x1f))"

definition MASK_FUNCT3 :: u64 where "MASK_FUNCT3 = 0x7000"
definition GET_RM :: "u64 \<Rightarrow> u64" where "GET_RM insn = drop_bit 12 insn AND 7"

definition insn_len :: "u64 \<Rightarrow> u64" where
  "insn_len insn = (if insn AND 0x3 < 0x3 then 2 else 4)"

text \<open>Emulated floating-point registers.\<close>

definition SET_FS_DIRTY :: "'d hardware \<Rightarrow> ('d, 'z) mach_scheme \<Rightarrow> ('d, 'z) mach_scheme" where
  "SET_FS_DIRTY W s = set_csr W MSTATUS MSTATUS_FS s"

definition GET_F64_REG :: "u64 \<Rightarrow> int \<Rightarrow> ('d, 'z) mach_scheme \<Rightarrow> u64" where
  "GET_F64_REG insn pos s = fregs s ! reg_index insn pos"

definition GET_F32_REG :: "u64 \<Rightarrow> int \<Rightarrow> ('d, 'z) mach_scheme \<Rightarrow> u32" where
  "GET_F32_REG insn pos s = ucast (GET_F64_REG insn pos s)"

definition SET_F64_RD :: "'d hardware \<Rightarrow> u64 \<Rightarrow> u64 \<Rightarrow> ('d, 'z) mach_scheme \<Rightarrow> ('d, 'z) mach_scheme" where
  "SET_F64_RD W insn val s = SET_FS_DIRTY W (s\<lparr>fregs := (fregs s)[reg_index insn 7 := val]\<rparr>)"

text \<open>A single-precision result overwrites the low half of the register.\<close>

definition SET_F32_RD :: "'d hardware \<Rightarrow> u64 \<Rightarrow> u32 \<Rightarrow> ('d, 'z) mach_scheme \<Rightarrow> ('d, 'z) mach_scheme" where
  "SET_F32_RD W insn val s =
     SET_FS_DIRTY W (s\<lparr>fregs := (fregs s)[reg_index insn 7 :=
       (fregs s ! reg_index insn 7 AND NOT 0xFFFFFFFF) OR ucast val]\<rparr>)"

definition GET_FCSR :: "('d, 'z) mach_scheme \<Rightarrow> u64" where "GET_FCSR s = tp s AND 0xFF"
definition GET_FRM :: "('d, 'z) mach_scheme \<Rightarrow> u64" where "GET_FRM s = drop_bit 5 (GET_FCSR s)"
definition GET_FFLAGS :: "('d, 'z) mach_scheme \<Rightarrow> u64" where "GET_FFLAGS s = GET_FCSR s AND 0x1F"

definition SET_FCSR :: "'d hardware \<Rightarrow> u64 \<Rightarrow> ('d, 'z) mach_scheme \<Rightarrow> ('d, 'z) mach_scheme" where
  "SET_FCSR W v s = SET_FS_DIRTY W (s\<lparr>tp := v AND 0xFF\<rparr>)"

definition SET_FRM :: "'d hardware \<Rightarrow> u64 \<Rightarrow> ('d, 'z) mach_scheme \<Rightarrow> ('d, 'z) mach_scheme" where
  "SET_FRM W v s = SET_FCSR W (GET_FFLAGS s OR push_bit 5 v) s"

definition SET_FFLAGS :: "'d hardware \<Rightarrow> u64 \<Rightarrow> ('d, 'z) mach_scheme \<Rightarrow> ('d, 'z) mach_scheme" where
  "SET_FFLAGS W v s = SET_FCSR W (push_bit 5 (GET_FRM s) OR (v AND 0x1F)) s"

definition truly_illegal_insn ::
    "'d hardware \<Rightarrow> u64 \<Rightarrow> u64 \<Rightarrow> u64 \<Rightarrow> ('d, 'z) mach_scheme \<Rightarrow> (('d, 'z) mach_scheme, 'a) handler" where
  "truly_illegal_insn W mepc mstatus insn s = redirect_trap W mepc mstatus insn s"

text \<open>\<^verbatim>\<open>(insn & mask) == match\<close> for the encodings of \<^verbatim>\<open>encoding.h\<close>.\<close>

definition is_insn :: "u64 \<Rightarrow> u64 \<Rightarrow> u64 \<Rightarrow> bool" where
  "is_insn msk match insn \<longleftrightarrow> insn AND msk = match"

section \<open>Multiplication and division\<close>

text \<open>
  C leaves division by zero and the quotient of the least integer by minus one undefined; the
  runtime leaves them to the compiler's library.  \<^verbatim>\<open>MULHU\<close> multiplies in the signed type \<^verbatim>\<open>__int128\<close>,
  which overflows (undefined too) when the product of the unsigned operands reaches \<open>2 ^ 127\<close>; the
  other high products cannot overflow.
\<close>

definition sdiv_res :: "'a :: len word \<Rightarrow> 'a word \<Rightarrow> 'a word res" where
  "sdiv_res a b = (if b = 0 \<or> sint a = - (2 ^ (LENGTH('a) - 1)) \<and> b = - 1 then Inl (Undefined ''division'')
                   else Inr (word_of_int (sint a sdiv sint b)))"

definition srem_res :: "'a :: len word \<Rightarrow> 'a word \<Rightarrow> 'a word res" where
  "srem_res a b = (if b = 0 \<or> sint a = - (2 ^ (LENGTH('a) - 1)) \<and> b = - 1 then Inl (Undefined ''division'')
                   else Inr (word_of_int (sint a smod sint b)))"

definition udiv_res :: "'a :: len word \<Rightarrow> 'a word \<Rightarrow> 'a word res" where
  "udiv_res a b = (if b = 0 then Inl (Undefined ''division'') else Inr (a div b))"

definition urem_res :: "'a :: len word \<Rightarrow> 'a word \<Rightarrow> 'a word res" where
  "urem_res a b = (if b = 0 then Inl (Undefined ''division'') else Inr (a mod b))"

definition mul_div_val :: "u64 \<Rightarrow> u64 \<Rightarrow> u64 \<Rightarrow> u64 res option" where
  "mul_div_val insn rs1 rs2 =
     (let is = \<lambda>match. is_insn 0xfe00707f match insn;
          high = \<lambda>p :: 128 word. Some (Inr (ucast (drop_bit 64 p)))
      in if is 0x2000033 then Some (Inr (rs1 * rs2))
         else if is 0x2004033 then Some (sdiv_res rs1 rs2)
         else if is 0x2005033 then Some (udiv_res rs1 rs2)
         else if is 0x2006033 then Some (srem_res rs1 rs2)
         else if is 0x2007033 then Some (urem_res rs1 rs2)
         else if is 0x2001033 then high (scast rs1 * scast rs2)
         else if is 0x2003033 then
           if 2 ^ 127 \<le> uint rs1 * uint rs2 then Some (Inl (Undefined ''multiplication'')) else high (ucast rs1 * ucast rs2)
         else if is 0x2002033 then high (scast rs1 * ucast rs2)
         else None)"

definition emulate_mul_div ::
    "'d hardware \<Rightarrow> u64 \<Rightarrow> u64 \<Rightarrow> u64 \<Rightarrow> ('d, 'z) mach_scheme \<Rightarrow> (('d, 'z) mach_scheme, ('d, 'z) mach_scheme) handler" where
  "emulate_mul_div W mepc mstatus insn s =
     (case mul_div_val insn (GET_RS1 insn s) (GET_RS2 insn s) of
        None \<Rightarrow> truly_illegal_insn W mepc mstatus insn s
      | Some r \<Rightarrow> bindE (liftE r) (\<lambda>val. Inr (SET_RD insn val s)))"

definition mul_div32_val :: "u64 \<Rightarrow> u32 \<Rightarrow> u32 \<Rightarrow> u32 res option" where
  "mul_div32_val insn rs1 rs2 =
     (let is = \<lambda>match. is_insn 0xfe00707f match insn
      in if is 0x200003b then Some (Inr (rs1 * rs2))
         else if is 0x200403b then Some (sdiv_res rs1 rs2)
         else if is 0x200503b then Some (udiv_res rs1 rs2)
         else if is 0x200603b then Some (srem_res rs1 rs2)
         else if is 0x200703b then Some (urem_res rs1 rs2)
         else None)"

definition emulate_mul_div32 ::
    "'d hardware \<Rightarrow> u64 \<Rightarrow> u64 \<Rightarrow> u64 \<Rightarrow> ('d, 'z) mach_scheme \<Rightarrow> (('d, 'z) mach_scheme, ('d, 'z) mach_scheme) handler" where
  "emulate_mul_div32 W mepc mstatus insn s =
     (case mul_div32_val insn (ucast (GET_RS1 insn s)) (ucast (GET_RS2 insn s)) of
        None \<Rightarrow> truly_illegal_insn W mepc mstatus insn s
      | Some r \<Rightarrow> bindE (liftE r) (\<lambda>val. Inr (SET_RD insn (scast val) s)))"

end
