(* ===== verification/Machine_Misaligned.thy ===== *)
theory Machine_Misaligned
  imports Machine_Insn
begin

text \<open>
  Misaligned loads and stores (\<^verbatim>\<open>machine/misaligned_ldst.c\<close>) and floating-point loads and stores
  (\<^verbatim>\<open>fp_ldst.c\<close>), made byte by byte or whole with the privilege of the interrupted program.
\<close>

section \<open>Misaligned loads\<close>

text \<open>What the decoder finds out: the length, the shift that extends the sign, whether the target
  is a floating-point register, and the instruction whose \<^verbatim>\<open>rd\<close> field is the target.\<close>

record load_kind =
  lk_len :: nat
  lk_shift :: nat
  lk_fp :: bool
  lk_insn :: u64

definition decode_load :: "u64 \<Rightarrow> load_kind option" where
  "decode_load insn =
     (let is = \<lambda>match. is_insn 0x707f match insn; is_c = \<lambda>match. is_insn 0xe003 match insn;
          int = \<lambda>len shift i. Some \<lparr>lk_len = len, lk_shift = shift, lk_fp = False, lk_insn = i\<rparr>;
          fp = \<lambda>len i. Some \<lparr>lk_len = len, lk_shift = 0, lk_fp = True, lk_insn = i\<rparr>;
          short = push_bit 7 (RVC_RS2S insn); rd_nz = (drop_bit 7 insn AND 0x1f \<noteq> 0)
      in if is 0x2003 then int 4 32 insn
         else if is 0x3003 then int 8 0 insn
         else if is 0x6003 then int 4 0 insn
         else if is 0x3007 then fp 8 insn
         else if is 0x2007 then fp 4 insn
         else if is 0x1007 then fp 2 insn
         else if is 0x1003 then int 2 48 insn
         else if is 0x5003 then int 2 0 insn
         else if is_c 0x6000 then int 8 0 short
         else if is_c 0x6002 \<and> rd_nz then int 8 0 insn
         else if is_c 0x4000 then int 4 32 short
         else if is_c 0x4002 \<and> rd_nz then int 4 32 insn
         else if is_c 0x2000 then fp 8 short
         else if is_c 0x2002 then fp 8 insn
         else None)"

text \<open>The bytes are collected in \<^verbatim>\<open>union byte_array\<close>, the first one lowest.\<close>

definition load_bytes ::
    "'d hardware \<Rightarrow> nat \<Rightarrow> u64 \<Rightarrow> u64 \<Rightarrow> ('d, 'z) mach_scheme \<Rightarrow> (('d, 'z) mach_scheme, u64) handler" where
  "load_bytes W len addr mepc s =
     foldE (\<lambda>i val. bindE (load_unpriv W 1 (addr + of_nat i) mepc s) (\<lambda>b. Inr (val OR push_bit (8 * i) b)))
       [0..<len] 0"

definition finish_load ::
    "'d hardware \<Rightarrow> load_kind \<Rightarrow> u64 \<Rightarrow> ('d, 'z) mach_scheme \<Rightarrow> ('d, 'z) mach_scheme" where
  "finish_load W k val s =
     (if \<not> lk_fp k then SET_RD (lk_insn k) (signed_drop_bit (lk_shift k) (push_bit (lk_shift k) val)) s
      else if lk_len k = 8 then SET_F64_RD W (lk_insn k) val s
      else if lk_len k = 4 then SET_F32_RD W (lk_insn k) (ucast val) s
      else SET_F32_RD W (lk_insn k) (ucast (ucast val :: u16) OR 0xffff0000) s)"

definition misaligned_load_trap ::
    "'d hardware \<Rightarrow> u64 \<Rightarrow> ('d, 'z) mach_scheme \<Rightarrow> (('d, 'z) mach_scheme, ('d, 'z) mach_scheme) handler" where
  "misaligned_load_trap W mepc s =
     bindE (get_insn W mepc s) (\<lambda>(insn, mstatus).
     let npc = mepc + insn_len insn; addr = csrs s MTVAL
     in case decode_load insn of
          None \<Rightarrow> truly_illegal_insn W mepc mstatus insn (write_csr W MCAUSE CAUSE_LOAD_ACCESS s)
        | Some k \<Rightarrow>
            bindE (load_bytes W (lk_len k) addr mepc s) (\<lambda>val.
              Inr (write_csr W MEPC npc (finish_load W k val s))))"

section \<open>Misaligned stores\<close>

definition decode_store :: "u64 \<Rightarrow> ('d, 'z) mach_scheme \<Rightarrow> (nat \<times> u64) option" where
  "decode_store insn s =
     (let is = \<lambda>match. is_insn 0x707f match insn; is_c = \<lambda>match. is_insn 0xe003 match insn;
          f32 = scast (GET_F32_REG insn 20 s) :: u64
      in if is 0x2023 then Some (4, GET_RS2 insn s)
         else if is 0x3023 then Some (8, GET_RS2 insn s)
         else if is 0x3027 then Some (8, GET_F64_REG insn 20 s)
         else if is 0x2027 then Some (4, f32)
         else if is 0x1027 then Some (2, f32)
         else if is 0x1023 then Some (2, GET_RS2 insn s)
         else if is_c 0xe000 then Some (8, GET_RS2S insn s)
         else if is_c 0xe002 then Some (8, GET_RS2C insn s)
         else if is_c 0xc000 then Some (4, GET_RS2S insn s)
         else if is_c 0xc002 then Some (4, GET_RS2C insn s)
         else if is_c 0xa000 then Some (8, GET_F64_REG (RVC_RS2S insn) 0 s)
         else if is_c 0xa002 then Some (8, GET_F64_REG insn 2 s)
         else None)"

definition store_bytes ::
    "'d hardware \<Rightarrow> nat \<Rightarrow> u64 \<Rightarrow> u64 \<Rightarrow> u64 \<Rightarrow> ('d, 'z) mach_scheme
     \<Rightarrow> (('d, 'z) mach_scheme, ('d, 'z) mach_scheme) handler" where
  "store_bytes W len addr val mepc s =
     foldE (\<lambda>i s. store_unpriv W 1 (addr + of_nat i) (drop_bit (8 * i) val AND 0xFF) mepc s) [0..<len] s"

definition misaligned_store_trap ::
    "'d hardware \<Rightarrow> u64 \<Rightarrow> ('d, 'z) mach_scheme \<Rightarrow> (('d, 'z) mach_scheme, ('d, 'z) mach_scheme) handler" where
  "misaligned_store_trap W mepc s =
     bindE (get_insn W mepc s) (\<lambda>(insn, mstatus).
     let npc = mepc + insn_len insn
     in case decode_store insn s of
          None \<Rightarrow> truly_illegal_insn W mepc mstatus insn (write_csr W MCAUSE CAUSE_STORE_ACCESS s)
        | Some (len, val) \<Rightarrow>
            bindE (store_bytes W len (csrs s MTVAL) val mepc s) (\<lambda>s.
              Inr (write_csr W MEPC npc s)))"

section \<open>Floating-point loads and stores\<close>

definition emulate_float_load ::
    "'d hardware \<Rightarrow> u64 \<Rightarrow> u64 \<Rightarrow> u64 \<Rightarrow> ('d, 'z) mach_scheme \<Rightarrow> (('d, 'z) mach_scheme, ('d, 'z) mach_scheme) handler" where
  "emulate_float_load W mepc mstatus insn s =
     (let addr = GET_RS1 insn s + IMM_I insn
      in if mstatus AND MSTATUS_FS = 0 then truly_illegal_insn W mepc mstatus insn s
         else if insn AND MASK_FUNCT3 = 0x2000
         then if addr mod 4 \<noteq> 0 then misaligned_load_trap W mepc (write_csr W MTVAL addr s)
              else bindE (load_unpriv W 4 addr mepc s) (\<lambda>v. Inr (SET_F32_RD W insn (ucast v) s))
         else if insn AND MASK_FUNCT3 = 0x3000
         then if addr mod 8 \<noteq> 0 then misaligned_load_trap W mepc (write_csr W MTVAL addr s)
              else bindE (load_unpriv W 8 addr mepc s) (\<lambda>v. Inr (SET_F64_RD W insn v s))
         else truly_illegal_insn W mepc mstatus insn s)"

definition emulate_float_store ::
    "'d hardware \<Rightarrow> u64 \<Rightarrow> u64 \<Rightarrow> u64 \<Rightarrow> ('d, 'z) mach_scheme \<Rightarrow> (('d, 'z) mach_scheme, ('d, 'z) mach_scheme) handler" where
  "emulate_float_store W mepc mstatus insn s =
     (let addr = GET_RS1 insn s + IMM_S insn
      in if mstatus AND MSTATUS_FS = 0 then truly_illegal_insn W mepc mstatus insn s
         else if insn AND MASK_FUNCT3 = 0x2000
         then if addr mod 4 \<noteq> 0 then misaligned_store_trap W mepc (write_csr W MTVAL addr s)
              else store_unpriv W 4 addr (ucast (GET_F32_REG insn 20 s)) mepc s
         else if insn AND MASK_FUNCT3 = 0x3000
         then if addr mod 8 \<noteq> 0 then misaligned_store_trap W mepc (write_csr W MTVAL addr s)
              else store_unpriv W 8 addr (GET_F64_REG insn 20 s) mepc s
         else truly_illegal_insn W mepc mstatus insn s)"

end
