(* ===== verification/Softfloat.thy ===== *)
theory Softfloat
  imports Prelude
begin

text \<open>
  The parts of the Berkeley SoftFloat library (\<^verbatim>\<open>softfloat/\<close>) that compare, classify and widen
  binary floating-point numbers.  Numbers are the words that encode them.  The exception flags
  a routine raises are part of its result.

  \<open>fval32\<close> and \<open>fval64\<close> give the number a word encodes, as an integer multiple of the least
  positive subnormal of its format; infinities get the value their bits would have as a
  number beyond the largest one.
\<close>

section \<open>Fields (internals.h, specialize.h)\<close>

definition flag_invalid :: u64 where "flag_invalid = 16"

definition signF32UI :: "u32 \<Rightarrow> bool" where "signF32UI a \<longleftrightarrow> drop_bit 31 a \<noteq> 0"
definition expF32UI :: "u32 \<Rightarrow> u32" where "expF32UI a = drop_bit 23 a AND 0xFF"
definition fracF32UI :: "u32 \<Rightarrow> u32" where "fracF32UI a = a AND 0x007FFFFF"
definition isNaNF32UI :: "u32 \<Rightarrow> bool" where
  "isNaNF32UI a \<longleftrightarrow> NOT a AND 0x7F800000 = 0 \<and> a AND 0x007FFFFF \<noteq> 0"
definition isSigNaNF32UI :: "u32 \<Rightarrow> bool" where
  "isSigNaNF32UI a \<longleftrightarrow> a AND 0x7FC00000 = 0x7F800000 \<and> a AND 0x003FFFFF \<noteq> 0"

definition signF64UI :: "u64 \<Rightarrow> bool" where "signF64UI a \<longleftrightarrow> drop_bit 63 a \<noteq> 0"
definition expF64UI :: "u64 \<Rightarrow> u64" where "expF64UI a = drop_bit 52 a AND 0x7FF"
definition fracF64UI :: "u64 \<Rightarrow> u64" where "fracF64UI a = a AND 0x000FFFFFFFFFFFFF"
definition isNaNF64UI :: "u64 \<Rightarrow> bool" where
  "isNaNF64UI a \<longleftrightarrow> NOT a AND 0x7FF0000000000000 = 0 \<and> a AND 0x000FFFFFFFFFFFFF \<noteq> 0"
definition isSigNaNF64UI :: "u64 \<Rightarrow> bool" where
  "isSigNaNF64UI a \<longleftrightarrow> a AND 0x7FF8000000000000 = 0x7FF0000000000000 \<and> a AND 0x0007FFFFFFFFFFFF \<noteq> 0"

definition packToF64UI :: "bool \<Rightarrow> u64 \<Rightarrow> u64 \<Rightarrow> u64" where
  "packToF64UI sn ex sg = push_bit 63 (if sn then 1 else 0) + push_bit 52 ex + sg"

definition defaultNaNF64UI :: u64 where "defaultNaNF64UI = 0x7FF8000000000000"

section \<open>Comparison\<close>

definition f32_eq :: "u32 \<Rightarrow> u32 \<Rightarrow> bool \<times> u64" where
  "f32_eq a b =
     (if isNaNF32UI a \<or> isNaNF32UI b
      then (False, if isSigNaNF32UI a \<or> isSigNaNF32UI b then flag_invalid else 0)
      else (a = b \<or> push_bit 1 (a OR b) = 0, 0))"

definition f64_eq :: "u64 \<Rightarrow> u64 \<Rightarrow> bool \<times> u64" where
  "f64_eq a b =
     (if isNaNF64UI a \<or> isNaNF64UI b
      then (False, if isSigNaNF64UI a \<or> isSigNaNF64UI b then flag_invalid else 0)
      else (a = b \<or> (a OR b) AND 0x7FFFFFFFFFFFFFFF = 0, 0))"

definition f32_lt_bits :: "u32 \<Rightarrow> u32 \<Rightarrow> bool" where
  "f32_lt_bits a b =
     (if signF32UI a \<noteq> signF32UI b then signF32UI a \<and> push_bit 1 (a OR b) \<noteq> 0
      else a \<noteq> b \<and> (signF32UI a \<noteq> (a < b)))"

definition f64_lt_bits :: "u64 \<Rightarrow> u64 \<Rightarrow> bool" where
  "f64_lt_bits a b =
     (if signF64UI a \<noteq> signF64UI b then signF64UI a \<and> (a OR b) AND 0x7FFFFFFFFFFFFFFF \<noteq> 0
      else a \<noteq> b \<and> (signF64UI a \<noteq> (a < b)))"

definition f32_lt :: "u32 \<Rightarrow> u32 \<Rightarrow> bool \<times> u64" where
  "f32_lt a b = (if isNaNF32UI a \<or> isNaNF32UI b then (False, flag_invalid) else (f32_lt_bits a b, 0))"

definition f64_lt :: "u64 \<Rightarrow> u64 \<Rightarrow> bool \<times> u64" where
  "f64_lt a b = (if isNaNF64UI a \<or> isNaNF64UI b then (False, flag_invalid) else (f64_lt_bits a b, 0))"

definition f32_lt_quiet :: "u32 \<Rightarrow> u32 \<Rightarrow> bool \<times> u64" where
  "f32_lt_quiet a b =
     (if isNaNF32UI a \<or> isNaNF32UI b
      then (False, if isSigNaNF32UI a \<or> isSigNaNF32UI b then flag_invalid else 0)
      else (f32_lt_bits a b, 0))"

definition f64_lt_quiet :: "u64 \<Rightarrow> u64 \<Rightarrow> bool \<times> u64" where
  "f64_lt_quiet a b =
     (if isNaNF64UI a \<or> isNaNF64UI b
      then (False, if isSigNaNF64UI a \<or> isSigNaNF64UI b then flag_invalid else 0)
      else (f64_lt_bits a b, 0))"

section \<open>Classification\<close>

definition flag_bits :: "bool list \<Rightarrow> u64" where
  "flag_bits bs = foldr (\<lambda>b acc. (if b then 1 else 0) + 2 * acc) bs 0"

definition f32_classify :: "u32 \<Rightarrow> u64" where
  "f32_classify a =
     (let infOrNaN = (expF32UI a = 0xFF); subnormalOrZero = (expF32UI a = 0); sn = signF32UI a;
          z = (fracF32UI a = 0)
      in flag_bits
        [sn \<and> infOrNaN \<and> z, sn \<and> \<not> infOrNaN \<and> \<not> subnormalOrZero, sn \<and> subnormalOrZero \<and> \<not> z,
         sn \<and> subnormalOrZero \<and> z, \<not> sn \<and> subnormalOrZero \<and> z, \<not> sn \<and> subnormalOrZero \<and> \<not> z,
         \<not> sn \<and> \<not> infOrNaN \<and> \<not> subnormalOrZero, \<not> sn \<and> infOrNaN \<and> z,
         isNaNF32UI a \<and> isSigNaNF32UI a, isNaNF32UI a \<and> \<not> isSigNaNF32UI a])"

definition f64_classify :: "u64 \<Rightarrow> u64" where
  "f64_classify a =
     (let infOrNaN = (expF64UI a = 0x7FF); subnormalOrZero = (expF64UI a = 0); sn = signF64UI a;
          z = (fracF64UI a = 0)
      in flag_bits
        [sn \<and> infOrNaN \<and> z, sn \<and> \<not> infOrNaN \<and> \<not> subnormalOrZero, sn \<and> subnormalOrZero \<and> \<not> z,
         sn \<and> subnormalOrZero \<and> z, \<not> sn \<and> subnormalOrZero \<and> z, \<not> sn \<and> subnormalOrZero \<and> \<not> z,
         \<not> sn \<and> \<not> infOrNaN \<and> \<not> subnormalOrZero, \<not> sn \<and> infOrNaN \<and> z,
         isNaNF64UI a \<and> isSigNaNF64UI a, isNaNF64UI a \<and> \<not> isSigNaNF64UI a])"

section \<open>Widening\<close>

text \<open>\<^verbatim>\<open>softfloat_countLeadingZeros8\<close> is a table; here the zeros are counted.\<close>

fun clz8 :: "nat \<Rightarrow> nat \<Rightarrow> nat" where
  "clz8 0 a = 0"
| "clz8 (Suc n) a = (if a \<ge> 2 ^ n then 0 else Suc (clz8 n a))"

definition countLeadingZeros32 :: "u32 \<Rightarrow> nat" where
  "countLeadingZeros32 a =
     (let count = 0;
          (count, a) = (if a < 0x10000 then (16, push_bit 16 a) else (count, a));
          (count, a) = (if a < 0x1000000 then (count + 8, push_bit 8 a) else (count, a))
      in count + clz8 8 (unat (drop_bit 24 a)))"

text \<open>The exponent, which may leave the range of the field, and the significand.\<close>

definition normSubnormalF32Sig :: "u32 \<Rightarrow> int \<times> u32" where
  "normSubnormalF32Sig sg =
     (let shiftDist = countLeadingZeros32 sg - 8
      in (1 - int shiftDist, push_bit shiftDist sg))"

text \<open>A signalling NaN raises the invalid flag (\<^verbatim>\<open>softfloat_f32UIToCommonNaN\<close>) and every NaN becomes
  the default one.\<close>

definition f32_to_f64 :: "u32 \<Rightarrow> u64 \<times> u64" where
  "f32_to_f64 a =
     (let sn = signF32UI a; ex = expF32UI a; frac = fracF32UI a
      in if ex = 0xFF
         then if frac \<noteq> 0 then (defaultNaNF64UI, if a AND 0x00400000 = 0 then flag_invalid else 0)
              else (packToF64UI sn 0x7FF 0, 0)
         else if ex = 0 \<and> frac = 0 then (packToF64UI sn 0 0, 0)
         else
           let (e, f) = (if ex = 0 then let (e, f) = normSubnormalF32Sig frac in (e - 1, f)
                         else (uint ex, frac))
           in (packToF64UI sn (word_of_int (e + 0x380)) (push_bit 29 (ucast f)), 0))"

section \<open>The numbers\<close>

definition fval32 :: "u32 \<Rightarrow> int" where
  "fval32 a =
     (if signF32UI a then - 1 else 1) *
     (if expF32UI a = 0 then uint (fracF32UI a)
      else (2 ^ 23 + uint (fracF32UI a)) * 2 ^ (unat (expF32UI a) - 1))"

definition fval64 :: "u64 \<Rightarrow> int" where
  "fval64 a =
     (if signF64UI a then - 1 else 1) *
     (if expF64UI a = 0 then uint (fracF64UI a)
      else (2 ^ 52 + uint (fracF64UI a)) * 2 ^ (unat (expF64UI a) - 1))"

end
