(* ===== verification/Softfloat_Round.thy ===== *)
theory Softfloat_Round
  imports Softfloat
begin

text \<open>
  The primitives of the SoftFloat arithmetic and its rounding (\<^verbatim>\<open>softfloat/s_*.c\<close>), in the build of
  \<^verbatim>\<open>softfloat.mk.in\<close>: without \<^verbatim>\<open>SOFTFLOAT_FAST_INT64\<close> and \<^verbatim>\<open>SOFTFLOAT_ROUND_ODD\<close>, tininess detected after
  rounding.  Exponents are small C integers and kept as \<open>int\<close>; a result is a value with the flags
  it raises.  Numbers of several 32-bit words are lists of words, the least significant first.
\<close>

type_synonym 'a flagged = "'a \<times> u64"

definition flag_inexact :: u64 where "flag_inexact = 1"
definition flag_underflow :: u64 where "flag_underflow = 2"
definition flag_overflow :: u64 where "flag_overflow = 4"
definition flag_infinite :: u64 where "flag_infinite = 8"

definition round_near_even :: u64 where "round_near_even = 0"
definition round_minMag :: u64 where "round_minMag = 1"
definition round_min :: u64 where "round_min = 2"
definition round_max :: u64 where "round_max = 3"
definition round_near_maxMag :: u64 where "round_near_maxMag = 4"

lemmas round_defs = round_near_even_def round_minMag_def round_min_def round_max_def round_near_maxMag_def

definition raising :: "u64 \<Rightarrow> 'a flagged \<Rightarrow> 'a flagged" where
  "raising fl r = (fst r, snd r OR fl)"

section \<open>Shifts that keep a sticky bit\<close>

definition shortShiftRightJam64 :: "u64 \<Rightarrow> nat \<Rightarrow> u64" where
  "shortShiftRightJam64 a dist = drop_bit dist a OR of_bool (a AND (push_bit dist 1 - 1) \<noteq> 0)"

definition shiftRightJam32 :: "u32 \<Rightarrow> nat \<Rightarrow> u32" where
  "shiftRightJam32 a dist =
     (if dist < 31 then drop_bit dist a OR of_bool (push_bit (nat (- int dist mod 32)) a \<noteq> 0) else of_bool (a \<noteq> 0))"

definition shiftRightJam64 :: "u64 \<Rightarrow> nat \<Rightarrow> u64" where
  "shiftRightJam64 a dist =
     (if dist < 63 then drop_bit dist a OR of_bool (push_bit (nat (- int dist mod 64)) a \<noteq> 0) else of_bool (a \<noteq> 0))"

section \<open>Leading zeros and subnormal numbers\<close>

definition countLeadingZeros64 :: "u64 \<Rightarrow> nat" where
  "countLeadingZeros64 a =
     (let count = 0; a32 = ucast (drop_bit 32 a) :: u32;
          (count, a32) = (if a32 = 0 then (32, ucast a) else (count, a32));
          (count, a32) = (if a32 < 0x10000 then (count + 16, push_bit 16 a32) else (count, a32));
          (count, a32) = (if a32 < 0x1000000 then (count + 8, push_bit 8 a32) else (count, a32))
      in count + clz8 8 (unat (drop_bit 24 a32)))"

definition normSubnormalF64Sig :: "u64 \<Rightarrow> int \<times> u64" where
  "normSubnormalF64Sig sg =
     (let shiftDist = countLeadingZeros64 sg - 11
      in (1 - int shiftDist, push_bit shiftDist sg))"

section \<open>NaNs and packing\<close>

definition defaultNaNF32UI :: u32 where "defaultNaNF32UI = 0x7FC00000"

definition propagateNaNF32UI :: "u32 \<Rightarrow> u32 \<Rightarrow> u32 flagged" where
  "propagateNaNF32UI a b = (defaultNaNF32UI, if isSigNaNF32UI a \<or> isSigNaNF32UI b then flag_invalid else 0)"

definition propagateNaNF64UI :: "u64 \<Rightarrow> u64 \<Rightarrow> u64 flagged" where
  "propagateNaNF64UI a b = (defaultNaNF64UI, if isSigNaNF64UI a \<or> isSigNaNF64UI b then flag_invalid else 0)"

definition packToF32UI :: "bool \<Rightarrow> u32 \<Rightarrow> u32 \<Rightarrow> u32" where
  "packToF32UI sn ex sg = push_bit 31 (of_bool sn) + push_bit 23 ex + sg"

section \<open>Rounding\<close>

definition roundIncrement :: "u64 \<Rightarrow> bool \<Rightarrow> 'a :: len word \<Rightarrow> 'a word \<Rightarrow> 'a word" where
  "roundIncrement mode sn half rest =
     (if mode \<noteq> round_near_even \<and> mode \<noteq> round_near_maxMag
      then if mode = (if sn then round_min else round_max) then rest else 0
      else half)"

text \<open>What follows the tests for overflow and underflow.\<close>

definition roundPackEndF32 :: "u64 \<Rightarrow> bool \<Rightarrow> int \<Rightarrow> u32 \<Rightarrow> u64 \<Rightarrow> u32 flagged" where
  "roundPackEndF32 mode sn ex sg fl =
     (let roundBits = sg AND 0x7F;
          z = drop_bit 7 (sg + roundIncrement mode sn 0x40 0x7F);
          z = z AND NOT (of_bool (roundBits XOR 0x40 = 0 \<and> mode = round_near_even));
          ex = (if z = 0 then 0 else ex)
      in (packToF32UI sn (word_of_int ex) z, if roundBits \<noteq> 0 then fl OR flag_inexact else fl))"

definition roundPackToF32 :: "u64 \<Rightarrow> bool \<Rightarrow> int \<Rightarrow> u32 \<Rightarrow> u32 flagged" where
  "roundPackToF32 mode sn ex sg =
     (let incr = roundIncrement mode sn 0x40 0x7F
      in if 0xFD \<le> (word_of_int ex :: u32)
         then if ex < 0
              then let isTiny = (ex < -1 \<or> sg + incr < 0x80000000);
                       sg = shiftRightJam32 sg (nat (- ex))
                   in roundPackEndF32 mode sn 0 sg (if isTiny \<and> sg AND 0x7F \<noteq> 0 then flag_underflow else 0)
              else if 0xFD < ex \<or> 0x80000000 \<le> sg + incr
              then (packToF32UI sn 0xFF 0 - of_bool (incr = 0), flag_overflow OR flag_inexact)
              else roundPackEndF32 mode sn ex sg 0
         else roundPackEndF32 mode sn ex sg 0)"

definition roundPackEndF64 :: "u64 \<Rightarrow> bool \<Rightarrow> int \<Rightarrow> u64 \<Rightarrow> u64 \<Rightarrow> u64 flagged" where
  "roundPackEndF64 mode sn ex sg fl =
     (let roundBits = sg AND 0x3FF;
          z = drop_bit 10 (sg + roundIncrement mode sn 0x200 0x3FF);
          z = z AND NOT (of_bool (roundBits XOR 0x200 = 0 \<and> mode = round_near_even));
          ex = (if z = 0 then 0 else ex)
      in (packToF64UI sn (word_of_int ex) z, if roundBits \<noteq> 0 then fl OR flag_inexact else fl))"

definition roundPackToF64 :: "u64 \<Rightarrow> bool \<Rightarrow> int \<Rightarrow> u64 \<Rightarrow> u64 flagged" where
  "roundPackToF64 mode sn ex sg =
     (let incr = roundIncrement mode sn 0x200 0x3FF
      in if 0x7FD \<le> (word_of_int ex :: u16)
         then if ex < 0
              then let isTiny = (ex < -1 \<or> sg + incr < 0x8000000000000000);
                       sg = shiftRightJam64 sg (nat (- ex))
                   in roundPackEndF64 mode sn 0 sg (if isTiny \<and> sg AND 0x3FF \<noteq> 0 then flag_underflow else 0)
              else if 0x7FD < ex \<or> 0x8000000000000000 \<le> sg + incr
              then (packToF64UI sn 0x7FF 0 - of_bool (incr = 0), flag_overflow OR flag_inexact)
              else roundPackEndF64 mode sn ex sg 0
         else roundPackEndF64 mode sn ex sg 0)"

definition normRoundPackToF32 :: "u64 \<Rightarrow> bool \<Rightarrow> int \<Rightarrow> u32 \<Rightarrow> u32 flagged" where
  "normRoundPackToF32 mode sn ex sg =
     (let shiftDist = int (countLeadingZeros32 sg) - 1; ex = ex - shiftDist
      in if 7 \<le> shiftDist \<and> (word_of_int ex :: u32) < 0xFD
         then (packToF32UI sn (if sg \<noteq> 0 then word_of_int ex else 0) (push_bit (nat (shiftDist - 7)) sg), 0)
         else roundPackToF32 mode sn ex (push_bit (nat shiftDist) sg))"

definition normRoundPackToF64 :: "u64 \<Rightarrow> bool \<Rightarrow> int \<Rightarrow> u64 \<Rightarrow> u64 flagged" where
  "normRoundPackToF64 mode sn ex sg =
     (let shiftDist = int (countLeadingZeros64 sg) - 1; ex = ex - shiftDist
      in if 10 \<le> shiftDist \<and> (word_of_int ex :: u32) < 0x7FD
         then (packToF64UI sn (if sg \<noteq> 0 then word_of_int ex else 0) (push_bit (nat (shiftDist - 10)) sg), 0)
         else roundPackToF64 mode sn ex (push_bit (nat shiftDist) sg))"

section \<open>Numbers of several words\<close>

definition word64 :: "u32 list \<Rightarrow> nat \<Rightarrow> u64" where
  "word64 z i = push_bit 32 (ucast (z ! Suc i)) OR ucast (z ! i)"

definition mul64To128M :: "u64 \<Rightarrow> u64 \<Rightarrow> u32 list" where
  "mul64To128M a b =
     (let a32 = ucast (ucast (drop_bit 32 a) :: u32) :: u64; a0 = ucast (ucast a :: u32);
          b32 = ucast (ucast (drop_bit 32 b) :: u32); b0 = ucast (ucast b :: u32);
          z0 = a0 * b0; mid1 = a32 * b0; mid = mid1 + a0 * b32;
          z64 = a32 * b32;
          z64 = z64 + (push_bit 32 (of_bool (mid < mid1)) OR drop_bit 32 mid);
          mid = push_bit 32 mid;
          z0 = z0 + mid;
          z64 = z64 + of_bool (z0 < mid)
      in [ucast z0, ucast (drop_bit 32 z0), ucast z64, ucast (drop_bit 32 z64)])"

fun addM_loop :: "u32 \<Rightarrow> u32 list \<Rightarrow> u32 list \<Rightarrow> u32 list" where
  "addM_loop carry (a # as) (b # bs) =
     (let z = a + b + carry
      in z # addM_loop (if z \<noteq> a then of_bool (z < a) else carry) as bs)"
| "addM_loop carry _ _ = []"

definition addM :: "u32 list \<Rightarrow> u32 list \<Rightarrow> u32 list" where
  "addM = addM_loop 0"

fun subM_loop :: "bool \<Rightarrow> u32 list \<Rightarrow> u32 list \<Rightarrow> u32 list" where
  "subM_loop borrow (a # as) (b # bs) =
     (a - b - of_bool borrow) # subM_loop (if borrow then a \<le> b else a < b) as bs"
| "subM_loop borrow _ _ = []"

definition subM :: "u32 list \<Rightarrow> u32 list \<Rightarrow> u32 list" where
  "subM = subM_loop False"

fun negXM_loop :: "bool \<Rightarrow> u32 list \<Rightarrow> u32 list" where
  "negXM_loop carry [] = []"
| "negXM_loop carry (z # zs) =
     (let w = NOT z + of_bool carry in w # negXM_loop (carry \<and> w = 0) zs)"

definition negXM :: "u32 list \<Rightarrow> u32 list" where
  "negXM = negXM_loop True"

text \<open>Shifts by less than a word, from the most significant word down or from the least up; the part
  of a word that moves to its neighbour is \<^verbatim>\<open>wordA >> (-dist & 31)\<close>.\<close>

definition neg_dist :: "nat \<Rightarrow> nat" where
  "neg_dist dist = nat (- int dist mod 32)"

fun shortShiftLeft_loop :: "nat \<Rightarrow> u32 \<Rightarrow> u32 list \<Rightarrow> u32 list" where
  "shortShiftLeft_loop dist part [] = [part]"
| "shortShiftLeft_loop dist part (w # ws) =
     (part OR drop_bit (neg_dist dist) w) # shortShiftLeft_loop dist (push_bit dist w) ws"

definition shortShiftLeftM :: "u32 list \<Rightarrow> nat \<Rightarrow> u32 list" where
  "shortShiftLeftM a dist =
     (case rev a of [] \<Rightarrow> [] | w # ws \<Rightarrow> rev (shortShiftLeft_loop dist (push_bit dist w) ws))"

fun shortShiftRight_loop :: "nat \<Rightarrow> u32 \<Rightarrow> u32 list \<Rightarrow> u32 list" where
  "shortShiftRight_loop dist part [] = [part]"
| "shortShiftRight_loop dist part (w # ws) =
     (push_bit (neg_dist dist) w OR part) # shortShiftRight_loop dist (drop_bit dist w) ws"

definition shortShiftRightM :: "u32 list \<Rightarrow> nat \<Rightarrow> u32 list" where
  "shortShiftRightM a dist = (case a of [] \<Rightarrow> [] | w # ws \<Rightarrow> shortShiftRight_loop dist (drop_bit dist w) ws)"

definition shortShiftRightJamM :: "u32 list \<Rightarrow> nat \<Rightarrow> u32 list" where
  "shortShiftRightJamM a dist =
     (case a of [] \<Rightarrow> []
      | w # ws \<Rightarrow>
          let part = drop_bit dist w; part = (if push_bit dist part \<noteq> w then part OR 1 else part)
          in shortShiftRight_loop dist part ws)"

definition shiftLeftM :: "u32 list \<Rightarrow> nat \<Rightarrow> u32 list" where
  "shiftLeftM a dist =
     (let n = length a; wordDist = dist div 32; innerDist = dist mod 32
      in if wordDist < n
         then let low = take (n - wordDist) a
              in replicate wordDist 0 @ (if innerDist \<noteq> 0 then shortShiftLeftM low innerDist else low)
         else replicate n 0)"

definition shiftRightJamM :: "u32 list \<Rightarrow> nat \<Rightarrow> u32 list" where
  "shiftRightJamM a dist =
     (let n = length a; wordDist = min n (dist div 32); innerDist = dist mod 32;
          wordJam = (\<exists>w \<in> set (take wordDist a). w \<noteq> 0);
          high = drop wordDist a;
          z = (if wordDist < n then if innerDist \<noteq> 0 then shortShiftRightJamM high innerDist else high else [])
                @ replicate wordDist 0
      in if wordJam then z[0 := z ! 0 OR 1] else z)"

definition roundMToUI64 :: "bool \<Rightarrow> u32 list \<Rightarrow> u64 \<Rightarrow> bool \<Rightarrow> u64 flagged" where
  "roundMToUI64 sn extSig mode exact =
     (let sg = word64 extSig 1; extra = extSig ! 0;
          invalid = (if sn then 0 else - 1, flag_invalid);
          done = (\<lambda>sg. if sn \<and> sg \<noteq> 0 then invalid
                       else (sg, if extra \<noteq> 0 \<and> exact then flag_inexact else 0));
          increment =
            (let sg = sg + 1
             in if sg = 0 then invalid
                else done (if extra = 0x80000000 \<and> mode = round_near_even then sg AND NOT 1 else sg))
      in if mode = round_near_maxMag \<or> mode = round_near_even
         then if 0x80000000 \<le> extra then increment else done sg
         else if sn
         then if sg OR ucast extra = 0 then (0, 0) else if mode = round_min then invalid else done sg
         else if mode = round_max \<and> extra \<noteq> 0 then increment else done sg)"

end
