(* ===== verification/Softfloat_Arith.thy ===== *)
theory Softfloat_Arith
  imports Softfloat_Round
begin

text \<open>
  The rounding operations of SoftFloat that the floating-point emulation uses: addition,
  multiplication, division, square root and fused multiply-add in single and double precision, and
  the conversions.  The labels that a C function jumps to are its last cases; the ones that several
  functions share are the definitions of the first section.
\<close>

section \<open>Special results\<close>

definition invalidF32 :: "u32 flagged" where "invalidF32 = (defaultNaNF32UI, flag_invalid)"
definition invalidF64 :: "u64 flagged" where "invalidF64 = (defaultNaNF64UI, flag_invalid)"

text \<open>\<^verbatim>\<open>infArg\<close>: an infinite factor, and whether the other one has any magnitude bits.\<close>

definition infArgF32 :: "bool \<Rightarrow> u32 \<Rightarrow> u32 flagged" where
  "infArgF32 sn magBits = (if magBits = 0 then invalidF32 else (packToF32UI sn 0xFF 0, 0))"

definition infArgF64 :: "bool \<Rightarrow> u64 \<Rightarrow> u64 flagged" where
  "infArgF64 sn magBits = (if magBits = 0 then invalidF64 else (packToF64UI sn 0x7FF 0, 0))"

definition zeroF32 :: "bool \<Rightarrow> u32 flagged" where "zeroF32 sn = (packToF32UI sn 0 0, 0)"
definition zeroF64 :: "bool \<Rightarrow> u64 flagged" where "zeroF64 sn = (packToF64UI sn 0 0, 0)"

text \<open>The exponent and significand of a finite nonzero operand, subnormal ones normalised.\<close>

definition normF32 :: "u32 \<Rightarrow> u32 \<Rightarrow> int \<times> u32" where
  "normF32 ex sg = (if ex = 0 then normSubnormalF32Sig sg else (uint ex, sg))"

definition normF64 :: "u64 \<Rightarrow> u64 \<Rightarrow> int \<times> u64" where
  "normF64 ex sg = (if ex = 0 then normSubnormalF64Sig sg else (uint ex, sg))"

section \<open>Addition\<close>

definition addMagsF32 :: "u64 \<Rightarrow> u32 \<Rightarrow> u32 \<Rightarrow> u32 flagged" where
  "addMagsF32 mode a b =
     (let expA = uint (expF32UI a); sigA = fracF32UI a; expB = uint (expF32UI b); sigB = fracF32UI b;
          expDiff = expA - expB; signZ = signF32UI a;
          sum = (\<lambda>expZ sigA sigB. let sigZ = 0x20000000 + sigA + sigB
                 in if sigZ < 0x40000000 then roundPackToF32 mode signZ (expZ - 1) (push_bit 1 sigZ)
                    else roundPackToF32 mode signZ expZ sigZ)
      in if expDiff = 0
         then if expA = 0 then (a + sigB, 0)
              else if expA = 0xFF then if sigA OR sigB \<noteq> 0 then propagateNaNF32UI a b else (a, 0)
              else let sigZ = 0x01000000 + sigA + sigB
                   in if sigZ AND 1 = 0 \<and> expA < 0xFE then (packToF32UI signZ (word_of_int expA) (drop_bit 1 sigZ), 0)
                      else roundPackToF32 mode signZ expA (push_bit 6 sigZ)
         else
           let sigA = push_bit 6 sigA; sigB = push_bit 6 sigB
           in if expDiff < 0
              then if expB = 0xFF then if sigB \<noteq> 0 then propagateNaNF32UI a b else (packToF32UI signZ 0xFF 0, 0)
                   else let sigA = sigA + (if expA \<noteq> 0 then 0x20000000 else sigA)
                        in sum expB (shiftRightJam32 sigA (nat (- expDiff))) sigB
              else if expA = 0xFF then if sigA \<noteq> 0 then propagateNaNF32UI a b else (a, 0)
              else let sigB = sigB + (if expB \<noteq> 0 then 0x20000000 else sigB)
                   in sum expA sigA (shiftRightJam32 sigB (nat expDiff)))"

definition subMagsF32 :: "u64 \<Rightarrow> u32 \<Rightarrow> u32 \<Rightarrow> u32 flagged" where
  "subMagsF32 mode a b =
     (let expA = uint (expF32UI a); sigA = fracF32UI a; expB = uint (expF32UI b); sigB = fracF32UI b;
          expDiff = expA - expB; signZ = signF32UI a
      in if expDiff = 0
         then if expA = 0xFF then if sigA OR sigB \<noteq> 0 then propagateNaNF32UI a b else invalidF32
              else
                let sigDiff = sigA - sigB
                in if sigDiff = 0 then zeroF32 (mode = round_min)
                   else
                     let expA = (if expA \<noteq> 0 then expA - 1 else expA);
                         (signZ, sigDiff) = (if sint sigDiff < 0 then (\<not> signZ, - sigDiff) else (signZ, sigDiff));
                         shiftDist = int (countLeadingZeros32 sigDiff) - 8; expZ = expA - shiftDist;
                         (shiftDist, expZ) = (if expZ < 0 then (expA, 0) else (shiftDist, expZ))
                     in (packToF32UI signZ (word_of_int expZ) (push_bit (nat shiftDist) sigDiff), 0)
         else
           let sigA = push_bit 7 sigA; sigB = push_bit 7 sigB
           in if expDiff < 0
              then if expB = 0xFF then if sigB \<noteq> 0 then propagateNaNF32UI a b else (packToF32UI (\<not> signZ) 0xFF 0, 0)
                   else normRoundPackToF32 mode (\<not> signZ) (expB - 1)
                          ((sigB OR 0x40000000)
                             - shiftRightJam32 (sigA + (if expA \<noteq> 0 then 0x40000000 else sigA)) (nat (- expDiff)))
              else if expA = 0xFF then if sigA \<noteq> 0 then propagateNaNF32UI a b else (a, 0)
              else normRoundPackToF32 mode signZ (expA - 1)
                     ((sigA OR 0x40000000)
                        - shiftRightJam32 (sigB + (if expB \<noteq> 0 then 0x40000000 else sigB)) (nat expDiff)))"

definition f32_add :: "u64 \<Rightarrow> u32 \<Rightarrow> u32 \<Rightarrow> u32 flagged" where
  "f32_add mode a b = (if signF32UI (a XOR b) then subMagsF32 mode a b else addMagsF32 mode a b)"

definition addMagsF64 :: "u64 \<Rightarrow> u64 \<Rightarrow> u64 \<Rightarrow> bool \<Rightarrow> u64 flagged" where
  "addMagsF64 mode a b signZ =
     (let expA = uint (expF64UI a); sigA = fracF64UI a; expB = uint (expF64UI b); sigB = fracF64UI b;
          expDiff = expA - expB;
          sum = (\<lambda>expZ sigA sigB. let sigZ = 0x2000000000000000 + sigA + sigB
                 in if sigZ < 0x4000000000000000 then roundPackToF64 mode signZ (expZ - 1) (push_bit 1 sigZ)
                    else roundPackToF64 mode signZ expZ sigZ)
      in if expDiff = 0
         then if expA = 0 then (a + sigB, 0)
              else if expA = 0x7FF then if sigA OR sigB \<noteq> 0 then propagateNaNF64UI a b else (a, 0)
              else roundPackToF64 mode signZ expA (push_bit 9 (0x0020000000000000 + sigA + sigB))
         else
           let sigA = push_bit 9 sigA; sigB = push_bit 9 sigB
           in if expDiff < 0
              then if expB = 0x7FF then if sigB \<noteq> 0 then propagateNaNF64UI a b else (packToF64UI signZ 0x7FF 0, 0)
                   else let sigA = (if expA \<noteq> 0 then sigA + 0x2000000000000000 else push_bit 1 sigA)
                        in sum expB (shiftRightJam64 sigA (nat (- expDiff))) sigB
              else if expA = 0x7FF then if sigA \<noteq> 0 then propagateNaNF64UI a b else (a, 0)
              else let sigB = (if expB \<noteq> 0 then sigB + 0x2000000000000000 else push_bit 1 sigB)
                   in sum expA sigA (shiftRightJam64 sigB (nat expDiff)))"

definition subMagsF64 :: "u64 \<Rightarrow> u64 \<Rightarrow> u64 \<Rightarrow> bool \<Rightarrow> u64 flagged" where
  "subMagsF64 mode a b signZ =
     (let expA = uint (expF64UI a); sigA = fracF64UI a; expB = uint (expF64UI b); sigB = fracF64UI b;
          expDiff = expA - expB
      in if expDiff = 0
         then if expA = 0x7FF then if sigA OR sigB \<noteq> 0 then propagateNaNF64UI a b else invalidF64
              else
                let sigDiff = sigA - sigB
                in if sigDiff = 0 then zeroF64 (mode = round_min)
                   else
                     let expA = (if expA \<noteq> 0 then expA - 1 else expA);
                         (signZ, sigDiff) = (if sint sigDiff < 0 then (\<not> signZ, - sigDiff) else (signZ, sigDiff));
                         shiftDist = int (countLeadingZeros64 sigDiff) - 11; expZ = expA - shiftDist;
                         (shiftDist, expZ) = (if expZ < 0 then (expA, 0) else (shiftDist, expZ))
                     in (packToF64UI signZ (word_of_int expZ) (push_bit (nat shiftDist) sigDiff), 0)
         else
           let sigA = push_bit 10 sigA; sigB = push_bit 10 sigB
           in if expDiff < 0
              then if expB = 0x7FF then if sigB \<noteq> 0 then propagateNaNF64UI a b else (packToF64UI (\<not> signZ) 0x7FF 0, 0)
                   else normRoundPackToF64 mode (\<not> signZ) (expB - 1)
                          ((sigB OR 0x4000000000000000)
                             - shiftRightJam64 (sigA + (if expA \<noteq> 0 then 0x4000000000000000 else sigA)) (nat (- expDiff)))
              else if expA = 0x7FF then if sigA \<noteq> 0 then propagateNaNF64UI a b else (a, 0)
              else normRoundPackToF64 mode signZ (expA - 1)
                     ((sigA OR 0x4000000000000000)
                        - shiftRightJam64 (sigB + (if expB \<noteq> 0 then 0x4000000000000000 else sigB)) (nat expDiff)))"

definition f64_add :: "u64 \<Rightarrow> u64 \<Rightarrow> u64 \<Rightarrow> u64 flagged" where
  "f64_add mode a b =
     (if signF64UI a = signF64UI b then addMagsF64 mode a b (signF64UI a) else subMagsF64 mode a b (signF64UI a))"

section \<open>Multiplication\<close>

definition f32_mul :: "u64 \<Rightarrow> u32 \<Rightarrow> u32 \<Rightarrow> u32 flagged" where
  "f32_mul mode a b =
     (let expA = expF32UI a; sigA = fracF32UI a; expB = expF32UI b; sigB = fracF32UI b;
          signZ = (signF32UI a \<noteq> signF32UI b)
      in if expA = 0xFF
         then if sigA \<noteq> 0 \<or> expB = 0xFF \<and> sigB \<noteq> 0 then propagateNaNF32UI a b else infArgF32 signZ (expB OR sigB)
         else if expB = 0xFF
         then if sigB \<noteq> 0 then propagateNaNF32UI a b else infArgF32 signZ (expA OR sigA)
         else if expA = 0 \<and> sigA = 0 \<or> expB = 0 \<and> sigB = 0 then zeroF32 signZ
         else
           let (expA, sigA) = normF32 expA sigA; (expB, sigB) = normF32 expB sigB;
               expZ = expA + expB - 0x7F;
               sigA = push_bit 7 (sigA OR 0x00800000); sigB = push_bit 8 (sigB OR 0x00800000);
               sigZ = ucast (shortShiftRightJam64 (ucast sigA * ucast sigB) 32) :: u32
           in if sigZ < 0x40000000 then roundPackToF32 mode signZ (expZ - 1) (push_bit 1 sigZ)
              else roundPackToF32 mode signZ expZ sigZ)"

definition f64_mul :: "u64 \<Rightarrow> u64 \<Rightarrow> u64 \<Rightarrow> u64 flagged" where
  "f64_mul mode a b =
     (let expA = expF64UI a; sigA = fracF64UI a; expB = expF64UI b; sigB = fracF64UI b;
          signZ = (signF64UI a \<noteq> signF64UI b)
      in if expA = 0x7FF
         then if sigA \<noteq> 0 \<or> expB = 0x7FF \<and> sigB \<noteq> 0 then propagateNaNF64UI a b else infArgF64 signZ (expB OR sigB)
         else if expB = 0x7FF
         then if sigB \<noteq> 0 then propagateNaNF64UI a b else infArgF64 signZ (expA OR sigA)
         else if expA = 0 \<and> sigA = 0 \<or> expB = 0 \<and> sigB = 0 then zeroF64 signZ
         else
           let (expA, sigA) = normF64 expA sigA; (expB, sigB) = normF64 expB sigB;
               expZ = expA + expB - 0x3FF;
               sigA = push_bit 10 (sigA OR 0x0010000000000000); sigB = push_bit 11 (sigB OR 0x0010000000000000);
               sig128Z = mul64To128M sigA sigB;
               sigZ = word64 sig128Z 2;
               sigZ = (if sig128Z ! 1 \<noteq> 0 \<or> sig128Z ! 0 \<noteq> 0 then sigZ OR 1 else sigZ)
           in if sigZ < 0x4000000000000000 then roundPackToF64 mode signZ (expZ - 1) (push_bit 1 sigZ)
              else roundPackToF64 mode signZ expZ sigZ)"

section \<open>Approximate reciprocals\<close>

definition approxRecip_1k0s :: "u16 list" where
  "approxRecip_1k0s =
     [0xFFC4, 0xF0BE, 0xE363, 0xD76F, 0xCCAD, 0xC2F0, 0xBA16, 0xB201,
      0xAA97, 0xA3C6, 0x9D7A, 0x97A6, 0x923C, 0x8D32, 0x887E, 0x8417]"

definition approxRecip_1k1s :: "u16 list" where
  "approxRecip_1k1s =
     [0xF0F1, 0xD62C, 0xBFA1, 0xAC77, 0x9C0A, 0x8DDB, 0x8185, 0x76BA,
      0x6D3B, 0x64D4, 0x5D5C, 0x56B1, 0x50B6, 0x4B55, 0x4679, 0x4211]"

definition approxRecipSqrt_1k0s :: "u16 list" where
  "approxRecipSqrt_1k0s =
     [0xB4C9, 0xFFAB, 0xAA7D, 0xF11C, 0xA1C5, 0xE4C7, 0x9A43, 0xDA29,
      0x93B5, 0xD0E5, 0x8DED, 0xC8B7, 0x88C6, 0xC16D, 0x8424, 0xBAE1]"

definition approxRecipSqrt_1k1s :: "u16 list" where
  "approxRecipSqrt_1k1s =
     [0xA5A5, 0xEA42, 0x8C21, 0xC62D, 0x788F, 0xAA7F, 0x6928, 0x94B6,
      0x5CC7, 0x8335, 0x52A6, 0x74E2, 0x4A3E, 0x68FE, 0x432B, 0x5EFD]"

text \<open>Products of 32-bit words in 64 bits, and the high half of one.\<close>

definition wide :: "u32 \<Rightarrow> u32 \<Rightarrow> u64" where
  "wide a b = ucast a * ucast b"

definition approxRecip32_1 :: "u32 \<Rightarrow> u32" where
  "approxRecip32_1 a =
     (let i = unat (drop_bit 27 a AND 0xF); eps = ucast (drop_bit 11 a) :: u16;
          r0 = approxRecip_1k0s ! i - ucast (drop_bit 20 (ucast (approxRecip_1k1s ! i) * ucast eps :: u32));
          sigma0 = NOT (ucast (drop_bit 7 (wide (ucast r0) a)));
          r = push_bit 16 (ucast r0) + ucast (drop_bit 24 (wide (ucast r0) sigma0));
          sqrSigma0 = ucast (drop_bit 32 (wide sigma0 sigma0))
      in r + ucast (drop_bit 48 (wide r sqrSigma0)))"

definition approxRecipSqrt32_1 :: "nat \<Rightarrow> u32 \<Rightarrow> u32" where
  "approxRecipSqrt32_1 oddExpA a =
     (let i = unat (drop_bit 27 a AND 0xE) + oddExpA; eps = ucast (drop_bit 12 a) :: u16;
          r0 = approxRecipSqrt_1k0s ! i - ucast (drop_bit 20 (ucast (approxRecipSqrt_1k1s ! i) * ucast eps :: u32));
          ESqrR0 = ucast r0 * ucast r0 :: u32;
          ESqrR0 = (if oddExpA = 0 then push_bit 1 ESqrR0 else ESqrR0);
          sigma0 = NOT (ucast (drop_bit 23 (wide ESqrR0 a)));
          r = push_bit 16 (ucast r0) + ucast (drop_bit 25 (wide (ucast r0) sigma0));
          sqrSigma0 = ucast (drop_bit 32 (wide sigma0 sigma0));
          r = r + ucast (drop_bit 48 (wide (drop_bit 1 r + drop_bit 3 r - push_bit 14 (ucast r0)) sqrSigma0))
      in if r AND 0x80000000 = 0 then 0x80000000 else r)"

section \<open>Division\<close>

definition f32_div :: "u64 \<Rightarrow> u32 \<Rightarrow> u32 \<Rightarrow> u32 flagged" where
  "f32_div mode a b =
     (let expA = expF32UI a; sigA = fracF32UI a; expB = expF32UI b; sigB = fracF32UI b;
          signZ = (signF32UI a \<noteq> signF32UI b); infinity = (packToF32UI signZ 0xFF 0, 0)
      in if expA = 0xFF
         then if sigA \<noteq> 0 then propagateNaNF32UI a b
              else if expB = 0xFF then if sigB \<noteq> 0 then propagateNaNF32UI a b else invalidF32
              else infinity
         else if expB = 0xFF then if sigB \<noteq> 0 then propagateNaNF32UI a b else zeroF32 signZ
         else if expB = 0 \<and> sigB = 0
         then if expA OR sigA = 0 then invalidF32 else raising flag_infinite infinity
         else if expA = 0 \<and> sigA = 0 then zeroF32 signZ
         else
           let (expB, sigB) = normF32 expB sigB; (expA, sigA) = normF32 expA sigA;
               expZ = expA - expB + 0x7E;
               sigA = sigA OR 0x00800000; sigB = sigB OR 0x00800000;
               (expZ, sigA) = (if sigA < sigB then (expZ - 1, push_bit 8 sigA) else (expZ, push_bit 7 sigA));
               sigB = push_bit 8 sigB;
               sigZ = ucast (drop_bit 32 (wide sigA (approxRecip32_1 sigB))) + 2 :: u32
           in if sigZ AND 0x3F < 2
              then let sigZ = sigZ AND NOT 3;
                       rem = push_bit 32 (ucast sigA) - wide (push_bit 1 sigZ) sigB :: u64
                   in roundPackToF32 mode signZ expZ
                        (if rem AND 0x8000000000000000 \<noteq> 0 then sigZ - 4 else if rem \<noteq> 0 then sigZ OR 1 else sigZ)
              else roundPackToF32 mode signZ expZ sigZ)"

definition f64_div :: "u64 \<Rightarrow> u64 \<Rightarrow> u64 \<Rightarrow> u64 flagged" where
  "f64_div mode a b =
     (let expA = expF64UI a; sigA = fracF64UI a; expB = expF64UI b; sigB = fracF64UI b;
          signZ = (signF64UI a \<noteq> signF64UI b); infinity = (packToF64UI signZ 0x7FF 0, 0)
      in if expA = 0x7FF
         then if sigA \<noteq> 0 then propagateNaNF64UI a b
              else if expB = 0x7FF then if sigB \<noteq> 0 then propagateNaNF64UI a b else invalidF64
              else infinity
         else if expB = 0x7FF then if sigB \<noteq> 0 then propagateNaNF64UI a b else zeroF64 signZ
         else if expB = 0 \<and> sigB = 0
         then if expA OR sigA = 0 then invalidF64 else raising flag_infinite infinity
         else if expA = 0 \<and> sigA = 0 then zeroF64 signZ
         else
           let (expB, sigB) = normF64 expB sigB; (expA, sigA) = normF64 expA sigA;
               expZ = expA - expB + 0x3FE;
               sigA = sigA OR 0x0010000000000000; sigB = sigB OR 0x0010000000000000;
               (expZ, sigA) = (if sigA < sigB then (expZ - 1, push_bit 11 sigA) else (expZ, push_bit 10 sigA));
               sigB = push_bit 11 sigB;
               b32 = ucast (drop_bit 32 sigB); b0 = drop_bit 4 (ucast sigB);
               recip32 = approxRecip32_1 b32 - 2;
               sig32Z = ucast (drop_bit 32 (wide (ucast (drop_bit 32 sigA)) recip32));
               doubleTerm = push_bit 1 sig32Z;
               rem = push_bit 28 (sigA - wide doubleTerm b32) - wide doubleTerm b0;
               q = ucast (drop_bit 32 (wide (ucast (drop_bit 32 rem)) recip32)) + 4;
               sigZ = push_bit 32 (ucast sig32Z) + push_bit 4 (ucast q)
           in if sigZ AND 0x1FF < 0x40
              then let q = q AND NOT 7; sigZ = sigZ AND NOT 0x7F;
                       doubleTerm = push_bit 1 q;
                       rem = push_bit 28 (rem - wide doubleTerm b32) - wide doubleTerm b0
                   in roundPackToF64 mode signZ expZ
                        (if rem AND 0x8000000000000000 \<noteq> 0 then sigZ - 0x80 else if rem \<noteq> 0 then sigZ OR 1 else sigZ)
              else roundPackToF64 mode signZ expZ sigZ)"

section \<open>Square root\<close>

definition f32_sqrt :: "u64 \<Rightarrow> u32 \<Rightarrow> u32 flagged" where
  "f32_sqrt mode a =
     (let sn = signF32UI a; expA = expF32UI a; sigA = fracF32UI a
      in if expA = 0xFF
         then if sigA \<noteq> 0 then propagateNaNF32UI a 0 else if \<not> sn then (a, 0) else invalidF32
         else if sn then if expA OR sigA = 0 then (a, 0) else invalidF32
         else if expA = 0 \<and> sigA = 0 then (a, 0)
         else
           let (expA, sigA) = normF32 expA sigA;
               expZ = (expA - 0x7F) div 2 + 0x7E; odd = nat (expA mod 2);
               sigA = push_bit 8 (sigA OR 0x00800000);
               sigZ = ucast (drop_bit 32 (wide sigA (approxRecipSqrt32_1 odd sigA)));
               sigZ = (if odd \<noteq> 0 then drop_bit 1 sigZ else sigZ) + 2
           in if sigZ AND 0x3F < 2
              then let shiftedSigZ = drop_bit 2 sigZ; negRem = shiftedSigZ * shiftedSigZ; sigZ = sigZ AND NOT 3
                   in roundPackToF32 mode False expZ
                        (if negRem AND 0x80000000 \<noteq> 0 then sigZ OR 1 else if negRem \<noteq> 0 then sigZ - 1 else sigZ)
              else roundPackToF32 mode False expZ sigZ)"

definition f64_sqrt :: "u64 \<Rightarrow> u64 \<Rightarrow> u64 flagged" where
  "f64_sqrt mode a =
     (let sn = signF64UI a; expA = expF64UI a; sigA = fracF64UI a
      in if expA = 0x7FF
         then if sigA \<noteq> 0 then propagateNaNF64UI a 0 else if \<not> sn then (a, 0) else invalidF64
         else if sn then if expA OR sigA = 0 then (a, 0) else invalidF64
         else if expA = 0 \<and> sigA = 0 then (a, 0)
         else
           let (expA, sigA) = normF64 expA sigA;
               expZ = (expA - 0x3FF) div 2 + 0x3FE; odd = nat (expA mod 2);
               sigA = sigA OR 0x0010000000000000;
               sig32A = ucast (drop_bit 21 sigA);
               recipSqrt32 = approxRecipSqrt32_1 odd sig32A;
               sig32Z = ucast (drop_bit 32 (wide sig32A recipSqrt32));
               (sigA, sig32Z) = (if odd \<noteq> 0 then (push_bit 8 sigA, drop_bit 1 sig32Z) else (push_bit 9 sigA, sig32Z));
               rem = sigA - wide sig32Z sig32Z;
               q = ucast (drop_bit 32 (wide (ucast (drop_bit 2 rem)) recipSqrt32)) :: u32;
               sigZ = (push_bit 32 (ucast sig32Z) OR 0x20) + push_bit 3 (ucast q)
           in if sigZ AND 0x1FF < 0x22
              then let sigZ = sigZ AND NOT 0x3F; shiftedSigZ = drop_bit 6 sigZ;
                       rem = push_bit 52 sigA - shiftedSigZ * shiftedSigZ
                   in roundPackToF64 mode False expZ
                        (if rem AND 0x8000000000000000 \<noteq> 0 then sigZ - 1 else if rem \<noteq> 0 then sigZ OR 1 else sigZ)
              else roundPackToF64 mode False expZ sigZ)"

section \<open>Fused multiply-add\<close>

definition mulAdd_subC :: u64 where "mulAdd_subC = 1"
definition mulAdd_subProd :: u64 where "mulAdd_subProd = 2"

text \<open>The labels \<^verbatim>\<open>propagateNaN_ABC\<close>, \<^verbatim>\<open>infProdArg\<close> and \<^verbatim>\<open>zeroProd\<close>.\<close>

definition propagateNaN3F32 :: "u32 \<Rightarrow> u32 \<Rightarrow> u32 \<Rightarrow> u32 flagged" where
  "propagateNaN3F32 a b c = (let (z, fl) = propagateNaNF32UI a b in raising fl (propagateNaNF32UI z c))"

definition propagateNaN3F64 :: "u64 \<Rightarrow> u64 \<Rightarrow> u64 \<Rightarrow> u64 flagged" where
  "propagateNaN3F64 a b c = (let (z, fl) = propagateNaNF64UI a b in raising fl (propagateNaNF64UI z c))"

definition infProdArgF32 :: "bool \<Rightarrow> bool \<Rightarrow> u32 \<Rightarrow> u32 \<Rightarrow> u32 flagged" where
  "infProdArgF32 signProd signC magBits c =
     (let inf = packToF32UI signProd 0xFF 0
      in if magBits \<noteq> 0 \<and> expF32UI c \<noteq> 0xFF then (inf, 0)
         else if magBits \<noteq> 0 \<and> fracF32UI c \<noteq> 0 then propagateNaNF32UI inf c
         else if magBits \<noteq> 0 \<and> signProd = signC then (inf, 0)
         else raising flag_invalid (propagateNaNF32UI defaultNaNF32UI c))"

definition infProdArgF64 :: "bool \<Rightarrow> bool \<Rightarrow> u64 \<Rightarrow> u64 \<Rightarrow> u64 flagged" where
  "infProdArgF64 signProd signC magBits c =
     (let inf = packToF64UI signProd 0x7FF 0
      in if magBits \<noteq> 0 \<and> expF64UI c \<noteq> 0x7FF then (inf, 0)
         else if magBits \<noteq> 0 \<and> fracF64UI c \<noteq> 0 then propagateNaNF64UI inf c
         else if magBits \<noteq> 0 \<and> signProd = signC then (inf, 0)
         else raising flag_invalid (propagateNaNF64UI defaultNaNF64UI c))"

definition zeroProdF32 :: "u64 \<Rightarrow> bool \<Rightarrow> bool \<Rightarrow> u32 \<Rightarrow> u32 flagged" where
  "zeroProdF32 mode signProd signC c =
     (if expF32UI c OR fracF32UI c = 0 \<and> signProd \<noteq> signC then zeroF32 (mode = round_min) else (c, 0))"

definition zeroProdF64 :: "u64 \<Rightarrow> bool \<Rightarrow> bool \<Rightarrow> u64 \<Rightarrow> u64 flagged" where
  "zeroProdF64 mode signProd signC c =
     (if expF64UI c OR fracF64UI c = 0 \<and> signProd \<noteq> signC then zeroF64 (mode = round_min) else (c, 0))"

text \<open>The sum and the difference of a product and a third operand, both nonzero.\<close>

definition mulAddSumF32 :: "u64 \<Rightarrow> bool \<Rightarrow> int \<Rightarrow> u64 \<Rightarrow> int \<Rightarrow> u32 \<Rightarrow> u32 flagged" where
  "mulAddSumF32 mode signZ expProd sigProd expC sigC =
     (let expDiff = expProd - expC;
          (expZ, sigZ) =
            (if expDiff \<le> 0 then (expC, sigC + ucast (shiftRightJam64 sigProd (nat (32 - expDiff))))
             else (expProd, ucast (shortShiftRightJam64
                     (sigProd + shiftRightJam64 (push_bit 32 (ucast sigC)) (nat expDiff)) 32)))
      in if sigZ < 0x40000000 then roundPackToF32 mode signZ (expZ - 1) (push_bit 1 sigZ)
         else roundPackToF32 mode signZ expZ sigZ)"

definition mulAddDiffF32 :: "u64 \<Rightarrow> bool \<Rightarrow> bool \<Rightarrow> int \<Rightarrow> u64 \<Rightarrow> int \<Rightarrow> u32 \<Rightarrow> u32 flagged" where
  "mulAddDiffF32 mode signProd signC expProd sigProd expC sigC =
     (let expDiff = expProd - expC; sig64C = push_bit 32 (ucast sigC);
          norm = (\<lambda>signZ expZ sig64Z.
            let shiftDist = int (countLeadingZeros64 sig64Z) - 1; expZ = expZ - shiftDist; shiftDist = shiftDist - 32
            in roundPackToF32 mode signZ expZ
                 (if shiftDist < 0 then ucast (shortShiftRightJam64 sig64Z (nat (- shiftDist)))
                  else push_bit (nat shiftDist) (ucast sig64Z)))
      in if expDiff < 0 then norm signC expC (sig64C - shiftRightJam64 sigProd (nat (- expDiff)))
         else if expDiff = 0
         then let sig64Z = sigProd - sig64C
              in if sig64Z = 0 then zeroF32 (mode = round_min)
                 else if sig64Z AND 0x8000000000000000 \<noteq> 0 then norm (\<not> signProd) expProd (- sig64Z)
                 else norm signProd expProd sig64Z
         else norm signProd expProd (sigProd - shiftRightJam64 sig64C (nat expDiff)))"

definition mulAddF32 :: "u64 \<Rightarrow> u32 \<Rightarrow> u32 \<Rightarrow> u32 \<Rightarrow> u64 \<Rightarrow> u32 flagged" where
  "mulAddF32 mode a b c oper =
     (let expA = expF32UI a; sigA = fracF32UI a; expB = expF32UI b; sigB = fracF32UI b;
          expC = expF32UI c; sigC = fracF32UI c;
          signC = (signF32UI c \<noteq> (oper = mulAdd_subC));
          signProd = ((signF32UI a \<noteq> signF32UI b) \<noteq> (oper = mulAdd_subProd))
      in if expA = 0xFF
         then if sigA \<noteq> 0 \<or> expB = 0xFF \<and> sigB \<noteq> 0 then propagateNaN3F32 a b c
              else infProdArgF32 signProd signC (expB OR sigB) c
         else if expB = 0xFF
         then if sigB \<noteq> 0 then propagateNaN3F32 a b c else infProdArgF32 signProd signC (expA OR sigA) c
         else if expC = 0xFF then if sigC \<noteq> 0 then propagateNaNF32UI 0 c else (c, 0)
         else if expA = 0 \<and> sigA = 0 \<or> expB = 0 \<and> sigB = 0 then zeroProdF32 mode signProd signC c
         else
           let (expA, sigA) = normF32 expA sigA; (expB, sigB) = normF32 expB sigB;
               expProd = expA + expB - 0x7E;
               sigProd = wide (push_bit 7 (sigA OR 0x00800000)) (push_bit 7 (sigB OR 0x00800000));
               (expProd, sigProd) =
                 (if sigProd < 0x2000000000000000 then (expProd - 1, push_bit 1 sigProd) else (expProd, sigProd))
           in if expC = 0 \<and> sigC = 0
              then roundPackToF32 mode signProd (expProd - 1) (ucast (shortShiftRightJam64 sigProd 31))
              else
                let (expC, sigC) = normF32 expC sigC; sigC = push_bit 6 (sigC OR 0x00800000)
                in if signProd = signC then mulAddSumF32 mode signProd expProd sigProd expC sigC
                   else mulAddDiffF32 mode signProd signC expProd sigProd expC sigC)"

text \<open>In double precision the 128-bit product is kept as words, \<open>sigZ\<close> is its high half or what replaces it, and
  \<open>low\<close> says whether the low half has any bit set (the label \<^verbatim>\<open>sigZ\<close>).\<close>

definition low_bits :: "u32 list \<Rightarrow> bool" where
  "low_bits z \<longleftrightarrow> z ! 1 \<noteq> 0 \<or> z ! 0 \<noteq> 0"

definition mulAddEndF64 :: "u64 \<Rightarrow> bool \<Rightarrow> int \<Rightarrow> u64 \<Rightarrow> u32 list \<Rightarrow> u64 flagged" where
  "mulAddEndF64 mode signZ expZ sigZ z =
     roundPackToF64 mode signZ (expZ - 1) (if low_bits z then sigZ OR 1 else sigZ)"

definition mulAddSumF64 :: "u64 \<Rightarrow> bool \<Rightarrow> int \<Rightarrow> int \<Rightarrow> u64 \<Rightarrow> u32 list \<Rightarrow> u64 \<Rightarrow> u32 list \<Rightarrow> u64 flagged" where
  "mulAddSumF64 mode signZ expDiff expZ sigZ z sigC c =
     (let (sigZ, z) = (if expDiff \<le> 0 then (sigZ + sigC, z) else let z = addM z c in (word64 z 2, z))
      in if sigZ AND 0x8000000000000000 \<noteq> 0
         then mulAddEndF64 mode signZ (expZ + 1) (shortShiftRightJam64 sigZ 1) z
         else mulAddEndF64 mode signZ expZ sigZ z)"

text \<open>Normalising a difference of 128 bits.\<close>

definition mulAddNormF64 :: "u64 \<Rightarrow> bool \<Rightarrow> int \<Rightarrow> u32 list \<Rightarrow> u64 flagged" where
  "mulAddNormF64 mode signZ expZ z =
     (let shiftDist = 0; sigZ = word64 z 2;
          (shiftDist, sigZ) = (if sigZ = 0 then (64, word64 z 0) else (shiftDist, sigZ));
          shiftDist = shiftDist + (int (countLeadingZeros64 sigZ) - 1)
      in if shiftDist \<noteq> 0
         then let z = shiftLeftM z (unat (word_of_int shiftDist :: u32))
              in mulAddEndF64 mode signZ (expZ - shiftDist) (word64 z 2) z
         else mulAddEndF64 mode signZ expZ sigZ z)"

definition mulAddDiffF64 ::
    "u64 \<Rightarrow> bool \<Rightarrow> bool \<Rightarrow> int \<Rightarrow> int \<Rightarrow> u64 \<Rightarrow> u32 list \<Rightarrow> u64 \<Rightarrow> u32 list \<Rightarrow> u64 flagged" where
  "mulAddDiffF64 mode signZ signC expDiff expZ sigZ z sigC c =
     (if expDiff < 0
      then if expDiff < -1
           then let sigZ = sigC - sigZ; sigZ = (if low_bits z then (sigZ - 1) OR 1 else sigZ)
                in if sigZ AND 0x4000000000000000 = 0 then roundPackToF64 mode signC (expZ - 1 - 1) (push_bit 1 sigZ)
                   else roundPackToF64 mode signC (expZ - 1) sigZ
           else mulAddNormF64 mode signC expZ (subM [0, 0, ucast sigC, ucast (drop_bit 32 sigC)] z)
      else if expDiff = 0
      then let sigZ = sigZ - sigC
           in if sigZ = 0 \<and> \<not> low_bits z then zeroF64 (mode = round_min)
              else let z = z[3 := ucast (drop_bit 32 sigZ), 2 := ucast sigZ]
                   in if sigZ AND 0x8000000000000000 \<noteq> 0 then mulAddNormF64 mode (\<not> signZ) expZ (negXM z)
                      else mulAddNormF64 mode signZ expZ z
      else
        let z = subM z c
        in if 1 < expDiff
           then let sigZ = word64 z 2
                in if sigZ AND 0x4000000000000000 = 0 then mulAddEndF64 mode signZ (expZ - 1) (push_bit 1 sigZ) z
                   else mulAddEndF64 mode signZ expZ sigZ z
           else mulAddNormF64 mode signZ expZ z)"

text \<open>Bringing product and third operand to the same exponent; \<open>small\<close> says that the product lacks its
  second highest bit (\<^verbatim>\<open>shiftDist\<close> is -1).\<close>

definition mulAddAlignF64 ::
    "u64 \<Rightarrow> bool \<Rightarrow> bool \<Rightarrow> bool \<Rightarrow> int \<Rightarrow> u64 \<Rightarrow> u32 list \<Rightarrow> int \<Rightarrow> u64 \<Rightarrow> u64 flagged" where
  "mulAddAlignF64 mode signZ signC small expZ sigZ z expC sigC =
     (let expDiff = expZ - expC; shiftDist = (if small then - 1 else 0);
          c = [0, 0, ucast sigC, ucast (drop_bit 32 sigC)];
          (expZ, sigZ, z, c) =
            (if expDiff < 0
             then if signZ = signC \<or> expDiff < -1
                  then let shiftDist = shiftDist - expDiff
                       in (expC, if shiftDist \<noteq> 0 then shiftRightJam64 sigZ (nat shiftDist) else sigZ, z, c)
                  else (expC, sigZ, if shiftDist = 0 then shortShiftRightM z 1 else z, c)
             else let z = (if shiftDist \<noteq> 0 then addM z z else z)
                  in if expDiff = 0 then (expZ, word64 z 2, z, c)
                     else (expZ, sigZ, z, shiftRightJamM c (nat expDiff)))
      in if signZ = signC then mulAddSumF64 mode signZ expDiff expZ sigZ z sigC c
         else mulAddDiffF64 mode signZ signC expDiff expZ sigZ z sigC c)"

definition mulAddF64 :: "u64 \<Rightarrow> u64 \<Rightarrow> u64 \<Rightarrow> u64 \<Rightarrow> u64 \<Rightarrow> u64 flagged" where
  "mulAddF64 mode a b c oper =
     (let expA = expF64UI a; sigA = fracF64UI a; expB = expF64UI b; sigB = fracF64UI b;
          expC = expF64UI c; sigC = fracF64UI c;
          signC = (signF64UI c \<noteq> (oper = mulAdd_subC));
          signZ = ((signF64UI a \<noteq> signF64UI b) \<noteq> (oper = mulAdd_subProd))
      in if expA = 0x7FF
         then if sigA \<noteq> 0 \<or> expB = 0x7FF \<and> sigB \<noteq> 0 then propagateNaN3F64 a b c
              else infProdArgF64 signZ signC (expB OR sigB) c
         else if expB = 0x7FF
         then if sigB \<noteq> 0 then propagateNaN3F64 a b c else infProdArgF64 signZ signC (expA OR sigA) c
         else if expC = 0x7FF then if sigC \<noteq> 0 then propagateNaNF64UI 0 c else (c, 0)
         else if expA = 0 \<and> sigA = 0 \<or> expB = 0 \<and> sigB = 0 then zeroProdF64 mode signZ signC c
         else
           let (expA, sigA) = normF64 expA sigA; (expB, sigB) = normF64 expB sigB;
               z = mul64To128M (push_bit 10 (sigA OR 0x0010000000000000)) (push_bit 11 (sigB OR 0x0010000000000000));
               sigZ = word64 z 2;
               small = (sigZ AND 0x4000000000000000 = 0);
               expZ = expA + expB - 0x3FE - (if small then 1 else 0)
           in if expC = 0 \<and> sigC = 0 then mulAddEndF64 mode signZ expZ (if small then push_bit 1 sigZ else sigZ) z
              else
                let (expC, sigC) = normF64 expC sigC
                in mulAddAlignF64 mode signZ signC small expZ sigZ z expC (push_bit 10 (sigC OR 0x0010000000000000)))"

section \<open>Conversion\<close>

definition f64_to_f32 :: "u64 \<Rightarrow> u64 \<Rightarrow> u32 flagged" where
  "f64_to_f32 mode a =
     (let sn = signF64UI a; ex = expF64UI a; frac = fracF64UI a
      in if ex = 0x7FF
         then if frac \<noteq> 0 then (defaultNaNF32UI, if a AND 0x0008000000000000 = 0 then flag_invalid else 0)
              else (packToF32UI sn 0xFF 0, 0)
         else
           let frac32 = ucast (shortShiftRightJam64 frac 22) :: u32
           in if ex OR ucast frac32 = 0 then (packToF32UI sn 0 0, 0)
              else roundPackToF32 mode sn (uint ex - 0x381) (frac32 OR 0x40000000))"

definition ui64_to_f64 :: "u64 \<Rightarrow> u64 \<Rightarrow> u64 flagged" where
  "ui64_to_f64 mode a =
     (if a = 0 then (0, 0)
      else if a AND 0x8000000000000000 \<noteq> 0 then roundPackToF64 mode False 0x43D (shortShiftRightJam64 a 1)
      else normRoundPackToF64 mode False 0x43C a)"

definition f64_to_ui64 :: "u64 \<Rightarrow> u64 \<Rightarrow> bool \<Rightarrow> u64 flagged" where
  "f64_to_ui64 a mode exact =
     (let sn = signF64UI a; ex = expF64UI a; frac = fracF64UI a;
          sg = (if ex \<noteq> 0 then frac OR 0x0010000000000000 else frac);
          shiftDist = 0x433 - uint ex;
          ext = (\<lambda>sg. [0, ucast sg, ucast (drop_bit 32 sg)])
      in if shiftDist \<le> 0
         then if shiftDist < -11
              then (if ex = 0x7FF \<and> frac \<noteq> 0 then - 1 else if sn then 0 else - 1, flag_invalid)
              else roundMToUI64 sn (ext (push_bit (nat (- shiftDist)) sg)) mode exact
         else roundMToUI64 sn (shiftRightJamM (ext sg) (nat shiftDist)) mode exact)"

end
