(* ===== verification/Machine_Float.thy ===== *)
theory Machine_Float
  imports Machine_Misaligned Softfloat_Arith
begin

text \<open>
  Emulated floating-point instructions (\<^verbatim>\<open>machine/fp_emulation.c\<close>, macros of \<^verbatim>\<open>fp_emulation.h\<close>).
  over the operations of SoftFloat, which take the rounding mode and the operands and return the
  result with the exception flags they raised.
\<close>

section \<open>Rounding mode, flags, operands\<close>

definition GET_PRECISION :: "u64 \<Rightarrow> u64" where "GET_PRECISION insn = drop_bit 25 insn AND 3"

text \<open>\<^verbatim>\<open>SETUP_STATIC_ROUNDING\<close>: the mode of the instruction, or the one in \<^verbatim>\<open>fcsr\<close>, goes into the bits
  of \<^verbatim>\<open>tp\<close> from 13 up; \<^const>\<open>None\<close> means that the instruction is illegal.\<close>

definition setup_rounding :: "u64 \<Rightarrow> ('d, 'z) mach_scheme \<Rightarrow> ('d, 'z) mach_scheme option" where
  "setup_rounding insn s =
     (let t = tp s AND 0xFF
      in if insn AND MASK_FUNCT3 = MASK_FUNCT3 then Some (s\<lparr>tp := t OR push_bit 8 t\<rparr>)
         else if GET_RM insn > 4 then None
         else Some (s\<lparr>tp := t OR push_bit 13 (GET_RM insn)\<rparr>))"

definition roundingMode :: "('d, 'z) mach_scheme \<Rightarrow> u64" where
  "roundingMode s = drop_bit 13 (tp s)"

definition raiseFlags :: "u64 \<Rightarrow> ('d, 'z) mach_scheme \<Rightarrow> ('d, 'z) mach_scheme" where
  "raiseFlags which s = s\<lparr>tp := tp s OR which\<rparr>"

definition F32_RS1 :: "u64 \<Rightarrow> ('d, 'z) mach_scheme \<Rightarrow> u32" where "F32_RS1 insn s = GET_F32_REG insn 15 s"
definition F32_RS2 :: "u64 \<Rightarrow> ('d, 'z) mach_scheme \<Rightarrow> u32" where "F32_RS2 insn s = GET_F32_REG insn 20 s"
definition F32_RS3 :: "u64 \<Rightarrow> ('d, 'z) mach_scheme \<Rightarrow> u32" where "F32_RS3 insn s = GET_F32_REG insn 27 s"
definition F64_RS1 :: "u64 \<Rightarrow> ('d, 'z) mach_scheme \<Rightarrow> u64" where "F64_RS1 insn s = GET_F64_REG insn 15 s"
definition F64_RS2 :: "u64 \<Rightarrow> ('d, 'z) mach_scheme \<Rightarrow> u64" where "F64_RS2 insn s = GET_F64_REG insn 20 s"
definition F64_RS3 :: "u64 \<Rightarrow> ('d, 'z) mach_scheme \<Rightarrow> u64" where "F64_RS3 insn s = GET_F64_REG insn 27 s"

text \<open>Writing back a result with its flags.\<close>

definition put_f32 :: "'d hardware \<Rightarrow> u64 \<Rightarrow> u32 \<times> u64 \<Rightarrow> ('d, 'z) mach_scheme \<Rightarrow> ('d, 'z) mach_scheme" where
  "put_f32 W insn r s = SET_F32_RD W insn (fst r) (raiseFlags (snd r) s)"

definition put_f64 :: "'d hardware \<Rightarrow> u64 \<Rightarrow> u64 \<times> u64 \<Rightarrow> ('d, 'z) mach_scheme \<Rightarrow> ('d, 'z) mach_scheme" where
  "put_f64 W insn r s = SET_F64_RD W insn (fst r) (raiseFlags (snd r) s)"

text \<open>The dispatch on the precision field that all the operations repeat.\<close>

type_synonym ('d, 'z) emulation =
  "u64 \<Rightarrow> u64 \<Rightarrow> u64 \<Rightarrow> ('d, 'z) mach_scheme \<Rightarrow> (('d, 'z) mach_scheme, ('d, 'z) mach_scheme) handler"

definition by_precision ::
    "'d hardware \<Rightarrow> u64 \<Rightarrow> u64 \<Rightarrow> u64 \<Rightarrow> (('d, 'z) mach_scheme \<Rightarrow> ('d, 'z) mach_scheme)
     \<Rightarrow> (('d, 'z) mach_scheme \<Rightarrow> ('d, 'z) mach_scheme) \<Rightarrow> ('d, 'z) mach_scheme
     \<Rightarrow> (('d, 'z) mach_scheme, ('d, 'z) mach_scheme) handler" where
  "by_precision W mepc mstatus insn single double s =
     (if GET_PRECISION insn = 0 then Inr (single s)
      else if GET_PRECISION insn = 1 then Inr (double s)
      else truly_illegal_insn W mepc mstatus insn s)"

section \<open>Arithmetic\<close>

definition emulate_any_fadd :: "'d hardware \<Rightarrow> u32 \<Rightarrow> ('d, 'z) emulation" where
  "emulate_any_fadd W neg_b mepc mstatus insn s =
     by_precision W mepc mstatus insn
       (\<lambda>s. put_f32 W insn (f32_add (roundingMode s) (F32_RS1 insn s) (F32_RS2 insn s XOR neg_b)) s)
       (\<lambda>s. put_f64 W insn (f64_add (roundingMode s) (F64_RS1 insn s)
              (F64_RS2 insn s XOR push_bit 32 (scast neg_b))) s) s"

definition emulate_fadd :: "'d hardware \<Rightarrow> ('d, 'z) emulation" where
  "emulate_fadd W = emulate_any_fadd W 0"

definition emulate_fsub :: "'d hardware \<Rightarrow> ('d, 'z) emulation" where
  "emulate_fsub W = emulate_any_fadd W 0x80000000"

definition emulate_fmul :: "'d hardware \<Rightarrow> ('d, 'z) emulation" where
  "emulate_fmul W mepc mstatus insn s =
     by_precision W mepc mstatus insn
       (\<lambda>s. put_f32 W insn (f32_mul (roundingMode s) (F32_RS1 insn s) (F32_RS2 insn s)) s)
       (\<lambda>s. put_f64 W insn (f64_mul (roundingMode s) (F64_RS1 insn s) (F64_RS2 insn s)) s) s"

definition emulate_fdiv :: "'d hardware \<Rightarrow> ('d, 'z) emulation" where
  "emulate_fdiv W mepc mstatus insn s =
     by_precision W mepc mstatus insn
       (\<lambda>s. put_f32 W insn (f32_div (roundingMode s) (F32_RS1 insn s) (F32_RS2 insn s)) s)
       (\<lambda>s. put_f64 W insn (f64_div (roundingMode s) (F64_RS1 insn s) (F64_RS2 insn s)) s) s"

definition rs2_num :: "u64 \<Rightarrow> u64" where "rs2_num insn = drop_bit 20 insn AND 0x1f"

definition emulate_fsqrt :: "'d hardware \<Rightarrow> ('d, 'z) emulation" where
  "emulate_fsqrt W mepc mstatus insn s =
     (if rs2_num insn \<noteq> 0 then truly_illegal_insn W mepc mstatus insn s
      else by_precision W mepc mstatus insn
        (\<lambda>s. put_f32 W insn (f32_sqrt (roundingMode s) (F32_RS1 insn s)) s)
        (\<lambda>s. put_f64 W insn (f64_sqrt (roundingMode s) (F64_RS1 insn s)) s) s)"

text \<open>\<^verbatim>\<open>DO_FSGNJ\<close>, with the signs as words.\<close>

definition do_fsgnj :: "'a :: len word \<Rightarrow> 'a word \<Rightarrow> 'a word \<Rightarrow> 'a word" where
  "do_fsgnj rs1 rs2 rm =
     (let n = LENGTH('a) - 1; rs1_sign = drop_bit n rs1; rs2_sign = drop_bit n rs2;
          rs1_sign = rs1_sign AND drop_bit 1 rm;
          rs1_sign = rs1_sign XOR (rm XOR rs2_sign)
      in drop_bit 1 (push_bit 1 rs1) OR push_bit n rs1_sign)"

definition emulate_fsgnj :: "'d hardware \<Rightarrow> ('d, 'z) emulation" where
  "emulate_fsgnj W mepc mstatus insn s =
     (if GET_RM insn \<ge> 3 then truly_illegal_insn W mepc mstatus insn s
      else by_precision W mepc mstatus insn
        (\<lambda>s. SET_F32_RD W insn (do_fsgnj (F32_RS1 insn s) (F32_RS2 insn s) (ucast (GET_RM insn))) s)
        (\<lambda>s. SET_F64_RD W insn (do_fsgnj (F64_RS1 insn s) (F64_RS2 insn s) (GET_RM insn)) s) s)"

definition emulate_fmin :: "'d hardware \<Rightarrow> ('d, 'z) emulation" where
  "emulate_fmin W mepc mstatus insn s =
     (let rm = GET_RM insn
      in if rm \<ge> 2 then truly_illegal_insn W mepc mstatus insn s
         else by_precision W mepc mstatus insn
           (\<lambda>s. let rs1 = F32_RS1 insn s; rs2 = F32_RS2 insn s;
                    (lt, fl) = f32_lt_quiet (if rm \<noteq> 0 then rs2 else rs1) (if rm \<noteq> 0 then rs1 else rs2)
                in put_f32 W insn (if lt \<or> isNaNF32UI rs2 then rs1 else rs2, fl) s)
           (\<lambda>s. let rs1 = F64_RS1 insn s; rs2 = F64_RS2 insn s;
                    (lt, fl) = f64_lt_quiet (if rm \<noteq> 0 then rs2 else rs1) (if rm \<noteq> 0 then rs1 else rs2)
                in put_f64 W insn (if lt \<or> isNaNF64UI rs2 then rs1 else rs2, fl) s) s)"

section \<open>Conversion\<close>

definition emulate_fcvt_ff :: "'d hardware \<Rightarrow> ('d, 'z) emulation" where
  "emulate_fcvt_ff W mepc mstatus insn s =
     (if GET_PRECISION insn = 0
      then if rs2_num insn \<noteq> 1 then truly_illegal_insn W mepc mstatus insn s
           else Inr (put_f32 W insn (f64_to_f32 (roundingMode s) (F64_RS1 insn s)) s)
      else if GET_PRECISION insn = 1
      then if rs2_num insn \<noteq> 0 then truly_illegal_insn W mepc mstatus insn s
           else Inr (put_f64 W insn (f32_to_f64 (F32_RS1 insn s)) s)
      else truly_illegal_insn W mepc mstatus insn s)"

text \<open>The operand of an integer-to-float conversion: its sign and magnitude.\<close>

definition int_operand :: "u64 \<Rightarrow> u64 \<Rightarrow> (bool \<times> u64) option" where
  "int_operand k v =
     (if k = 0 then let neg = sint (ucast v :: u32) < 0
                    in Some (neg, ucast (ucast (if neg then - v else v) :: u32))
      else if k = 1 then Some (False, ucast (ucast v :: u32))
      else if k = 2 then let neg = sint v < 0 in Some (neg, if neg then - v else v)
      else if k = 3 then Some (False, v)
      else None)"

definition emulate_fcvt_fi :: "'d hardware \<Rightarrow> ('d, 'z) emulation" where
  "emulate_fcvt_fi W mepc mstatus insn s =
     (if GET_PRECISION insn \<noteq> 0 \<and> GET_PRECISION insn \<noteq> 1 then truly_illegal_insn W mepc mstatus insn s
      else case int_operand (rs2_num insn) (GET_RS1 insn s) of
             None \<Rightarrow> truly_illegal_insn W mepc mstatus insn s
           | Some (neg, v) \<Rightarrow>
               let (d, fl) = ui64_to_f64 (roundingMode s) v;
                   s = raiseFlags fl s;
                   d = (if neg then d XOR 0x8000000000000000 else d)
               in Inr (if GET_PRECISION insn = 0
                       then put_f32 W insn (f64_to_f32 (roundingMode s) d) s
                       else SET_F64_RD W insn d s))"

text \<open>The result, its limit and the value beyond the limit for each target type.\<close>

definition fcvt_result :: "u64 \<Rightarrow> bool \<Rightarrow> u64 \<Rightarrow> u64 \<times> u64 \<times> u64" where
  "fcvt_result k neg v =
     (if k = 0
      then if neg then (scast (ucast (- v) :: u32), 0x80000000, 0x80000000)
           else (scast (ucast v :: u32), 0x7FFFFFFF, 0x7FFFFFFF)
      else if k = 1
      then if neg then (0, 0, 0xFFFFFFFF) else (ucast (ucast v :: u32), 0xFFFFFFFF, 0xFFFFFFFF)
      else if k = 2
      then if neg then (- v, 0x8000000000000000, 0x8000000000000000)
           else (v, 0x7FFFFFFFFFFFFFFF, 0x7FFFFFFFFFFFFFFF)
      else if neg then (0, 0, - 1) else (v, - 1, - 1))"

definition emulate_fcvt_if :: "'d hardware \<Rightarrow> ('d, 'z) emulation" where
  "emulate_fcvt_if W mepc mstatus insn s =
     (if rs2_num insn \<ge> 4 then truly_illegal_insn W mepc mstatus insn s
      else if GET_PRECISION insn \<noteq> 0 \<and> GET_PRECISION insn \<noteq> 1 then truly_illegal_insn W mepc mstatus insn s
      else
        let (d, fl) = (if GET_PRECISION insn = 0 then f32_to_f64 (F32_RS1 insn s) else (F64_RS1 insn s, 0));
            s = raiseFlags fl s;
            neg = (sint d < 0);
            d = (if neg then d XOR 0x8000000000000000 else d);
            (v, fl) = f64_to_ui64 d (roundingMode s) True;
            s = raiseFlags fl s;
            (result, limit, limit_result) = fcvt_result (rs2_num insn) neg v;
            (result, s) = (if v > limit then (limit_result, raiseFlags flag_invalid s) else (result, s))
        in Inr (SET_RD insn result (SET_FS_DIRTY W s)))"

section \<open>Comparison, classification and moves\<close>

text \<open>The predicate of the instruction: less-or-equal is equal, or else less.\<close>

definition fcmp_by :: "u64 \<Rightarrow> bool \<times> u64 \<Rightarrow> bool \<times> u64 \<Rightarrow> bool \<times> u64" where
  "fcmp_by rm eq lt =
     (let (r, fl) = (if rm \<noteq> 1 then eq else (False, 0))
      in if rm = 1 \<or> rm = 0 \<and> \<not> r then (fst lt, fl OR snd lt) else (r, fl))"

definition emulate_fcmp :: "'d hardware \<Rightarrow> ('d, 'z) emulation" where
  "emulate_fcmp W mepc mstatus insn s =
     (let rm = GET_RM insn;
          put = \<lambda>(r, fl) s. SET_RD insn (if r then 1 else 0) (SET_FS_DIRTY W (raiseFlags fl s))
      in if rm \<ge> 3 then truly_illegal_insn W mepc mstatus insn s
         else by_precision W mepc mstatus insn
           (\<lambda>s. put (fcmp_by rm (f32_eq (F32_RS1 insn s) (F32_RS2 insn s)) (f32_lt (F32_RS1 insn s) (F32_RS2 insn s))) s)
           (\<lambda>s. put (fcmp_by rm (f64_eq (F64_RS1 insn s) (F64_RS2 insn s)) (f64_lt (F64_RS1 insn s) (F64_RS2 insn s))) s) s)"

definition emulate_fmv_if :: "'d hardware \<Rightarrow> ('d, 'z) emulation" where
  "emulate_fmv_if W mepc mstatus insn s =
     (let put = \<lambda>r. Inr (SET_RD insn r (SET_FS_DIRTY W s))
      in if rs2_num insn \<noteq> 0 then truly_illegal_insn W mepc mstatus insn s
         else if GET_PRECISION insn = 0
         then if GET_RM insn = 0 then put (scast (F32_RS1 insn s))
              else if GET_RM insn = 1 then put (f32_classify (F32_RS1 insn s))
              else truly_illegal_insn W mepc mstatus insn s
         else if GET_PRECISION insn = 1
         then if GET_RM insn = 0 then put (F64_RS1 insn s)
              else if GET_RM insn = 1 then put (f64_classify (F64_RS1 insn s))
              else truly_illegal_insn W mepc mstatus insn s
         else truly_illegal_insn W mepc mstatus insn s)"

definition emulate_fmv_fi :: "'d hardware \<Rightarrow> ('d, 'z) emulation" where
  "emulate_fmv_fi W mepc mstatus insn s =
     (let rs1 = GET_RS1 insn s
      in if is_insn 0xfff0707f 0xf0000053 insn then Inr (SET_F32_RD W insn (ucast rs1) s)
         else if is_insn 0xfff0707f 0xf2000053 insn then Inr (SET_F64_RD W insn rs1 s)
         else truly_illegal_insn W mepc mstatus insn s)"

section \<open>Fused multiply-add and dispatch\<close>

definition emulate_fmadd :: "'d hardware \<Rightarrow> ('d, 'z) emulation" where
  "emulate_fmadd W mepc mstatus insn s =
     (if mstatus AND MSTATUS_FS = 0 then truly_illegal_insn W mepc mstatus insn s
      else
        let negA = (drop_bit 3 insn AND 1 \<noteq> 0); negC = (drop_bit 2 insn AND 1 \<noteq> 0)
        in case setup_rounding insn s of
             None \<Rightarrow> truly_illegal_insn W mepc mstatus insn (s\<lparr>tp := tp s AND 0xFF\<rparr>)
           | Some s \<Rightarrow> by_precision W mepc mstatus insn
               (\<lambda>s. put_f32 W insn (mulAddF32 (roundingMode s)
                      (F32_RS1 insn s XOR (if negA then 0x80000000 else 0)) (F32_RS2 insn s)
                      (F32_RS3 insn s XOR (if negC then 0x80000000 else 0)) 0) s)
               (\<lambda>s. put_f64 W insn (mulAddF64 (roundingMode s)
                      (F64_RS1 insn s XOR (if negA then 0x8000000000000000 else 0)) (F64_RS2 insn s)
                      (F64_RS3 insn s XOR (if negC then 0x8000000000000000 else 0)) 0) s) s)"

text \<open>\<^verbatim>\<open>fp_emulation_table\<close>, indexed by the top five bits of the instruction.\<close>

definition fp_table :: "'d hardware \<Rightarrow> nat \<Rightarrow> ('d, 'z) emulation" where
  "fp_table W i =
     (if i = 0 then emulate_fadd W else if i = 1 then emulate_fsub W
      else if i = 2 then emulate_fmul W else if i = 3 then emulate_fdiv W
      else if i = 4 then emulate_fsgnj W else if i = 5 then emulate_fmin W
      else if i = 8 then emulate_fcvt_ff W else if i = 11 then emulate_fsqrt W
      else if i = 20 then emulate_fcmp W else if i = 24 then emulate_fcvt_if W
      else if i = 26 then emulate_fcvt_fi W else if i = 28 then emulate_fmv_if W
      else if i = 30 then emulate_fmv_fi W else truly_illegal_insn W)"

definition emulate_fp :: "'d hardware \<Rightarrow> ('d, 'z) emulation" where
  "emulate_fp W mepc mstatus insn s =
     (if mstatus AND MSTATUS_FS = 0 then truly_illegal_insn W mepc mstatus insn s
      else case setup_rounding insn s of
             None \<Rightarrow> truly_illegal_insn W mepc mstatus insn (s\<lparr>tp := tp s AND 0xFF\<rparr>)
           | Some s \<Rightarrow> fp_table W (unat (drop_bit 25 insn AND 0x7c) div 4) mepc mstatus insn s)"

end
