(* ===== verification/Machine_Emulation.thy ===== *)
theory Machine_Emulation
  imports Machine_Float
begin

text \<open>
  The illegal-instruction handler (\<^verbatim>\<open>machine/emulation.c\<close>): compressed floating-point loads and
  stores, access to counters and floating-point status registers, and the dispatch on the major
  opcode.
\<close>

section \<open>Compressed instructions\<close>

definition emulate_rvc :: "'d hardware \<Rightarrow> ('d, 'z) emulation" where
  "emulate_rvc W mepc mstatus insn s =
     (let s = write_csr W MEPC (mepc + 2) s;
          is = \<lambda>match. is_insn 0xe003 match insn
      in if mstatus AND MSTATUS_FS = 0 then truly_illegal_insn W mepc mstatus insn s
         else if is 0x2000
         then let addr = GET_RS1S insn s + RVC_LD_IMM insn
              in if addr mod 8 \<noteq> 0 then misaligned_load_trap W mepc s
                 else bindE (load_unpriv W 8 addr mepc s) (\<lambda>v.
                        Inr (SET_F64_RD W (push_bit 7 (RVC_RS2S insn)) v s))
         else if is 0x2002
         then let addr = GET_SP s + RVC_LDSP_IMM insn
              in if addr mod 8 \<noteq> 0 then misaligned_load_trap W mepc s
                 else bindE (load_unpriv W 8 addr mepc s) (\<lambda>v. Inr (SET_F64_RD W insn v s))
         else if is 0xa000
         then let addr = GET_RS1S insn s + RVC_LD_IMM insn
              in if addr mod 8 \<noteq> 0 then misaligned_store_trap W mepc s
                 else store_unpriv W 8 addr (GET_F64_REG (push_bit 20 (RVC_RS2S insn)) 20 s) mepc s
         else if is 0xa002
         then let addr = GET_SP s + RVC_SDSP_IMM insn
              in if addr mod 8 \<noteq> 0 then misaligned_store_trap W mepc s
                 else store_unpriv W 8 addr (GET_F64_REG (push_bit 20 (RVC_RS2 insn)) 20 s) mepc s
         else truly_illegal_insn W mepc mstatus insn s)"

section \<open>Control and status registers\<close>

definition CSR_CYCLE :: u64 where "CSR_CYCLE = 0xc00"
definition CSR_TIME :: u64 where "CSR_TIME = 0xc01"
definition CSR_INSTRET :: u64 where "CSR_INSTRET = 0xc02"
definition CSR_MHPMCOUNTER3 :: u64 where "CSR_MHPMCOUNTER3 = 0xb03"
definition CSR_MHPMCOUNTER4 :: u64 where "CSR_MHPMCOUNTER4 = 0xb04"
definition CSR_MHPMEVENT3 :: u64 where "CSR_MHPMEVENT3 = 0x323"
definition CSR_MHPMEVENT4 :: u64 where "CSR_MHPMEVENT4 = 0x324"
definition CSR_FFLAGS :: u64 where "CSR_FFLAGS = 0x1"
definition CSR_FRM :: u64 where "CSR_FRM = 0x2"
definition CSR_FCSR :: u64 where "CSR_FCSR = 0x3"

lemmas csr_nums = CSR_CYCLE_def CSR_TIME_def CSR_INSTRET_def CSR_MHPMCOUNTER3_def CSR_MHPMCOUNTER4_def
  CSR_MHPMEVENT3_def CSR_MHPMEVENT4_def CSR_FFLAGS_def CSR_FRM_def CSR_FCSR_def

text \<open>The value read, or \<^const>\<open>None\<close> for -1.\<close>

definition emulate_read_csr ::
    "'d hardware \<Rightarrow> u64 \<Rightarrow> u64 \<Rightarrow> ('d, 'z) mach_scheme \<Rightarrow> u64 option \<times> ('d, 'z) mach_scheme" where
  "emulate_read_csr W num mstatus s =
     (let counteren = (if EXTRACT_FIELD mstatus MSTATUS_MPP = PRV_U then csrs s SCOUNTEREN else - 1);
          counter = \<lambda>i c. if bit counteren i then (Some (csrs s c), s) else (None, s);
          fp = \<lambda>v. if mstatus AND MSTATUS_FS = 0 then (None, s) else (Some v, s)
      in if num = CSR_CYCLE then counter 0 MCYCLE
         else if num = CSR_TIME
         then if bit counteren 1 then let (v, s) = dev_read W 8 (mtime s) s in (Some v, s) else (None, s)
         else if num = CSR_INSTRET then counter 2 MINSTRET
         else if num = CSR_MHPMCOUNTER3 then counter 3 MHPMCOUNTER3
         else if num = CSR_MHPMCOUNTER4 then counter 4 MHPMCOUNTER4
         else if num = CSR_MHPMEVENT3 then (Some (csrs s MHPMEVENT3), s)
         else if num = CSR_MHPMEVENT4 then (Some (csrs s MHPMEVENT4), s)
         else if num = CSR_FRM then fp (GET_FRM s)
         else if num = CSR_FFLAGS then fp (GET_FFLAGS s)
         else if num = CSR_FCSR then fp (GET_FCSR s)
         else (None, s))"

definition emulate_write_csr ::
    "'d hardware \<Rightarrow> u64 \<Rightarrow> u64 \<Rightarrow> ('d, 'z) mach_scheme \<Rightarrow> ('d, 'z) mach_scheme option" where
  "emulate_write_csr W num value s =
     (if num = CSR_CYCLE then Some (write_csr W MCYCLE value s)
      else if num = CSR_INSTRET then Some (write_csr W MINSTRET value s)
      else if num = CSR_MHPMCOUNTER3 then Some (write_csr W MHPMCOUNTER3 value s)
      else if num = CSR_MHPMCOUNTER4 then Some (write_csr W MHPMCOUNTER4 value s)
      else if num = CSR_MHPMEVENT3 then Some (write_csr W MHPMEVENT3 value s)
      else if num = CSR_MHPMEVENT4 then Some (write_csr W MHPMEVENT4 value s)
      else if num = CSR_FRM then Some (SET_FRM W value s)
      else if num = CSR_FFLAGS then Some (SET_FFLAGS W value s)
      else if num = CSR_FCSR then Some (SET_FCSR W value s)
      else None)"

text \<open>What each \<^verbatim>\<open>csrr*\<close> instruction writes, and whether it writes at all.\<close>

definition csr_update :: "u64 \<Rightarrow> u64 \<Rightarrow> u64 \<Rightarrow> u64 \<Rightarrow> (u64 \<times> bool) option" where
  "csr_update rm rs1_num rs1_val old =
     (let w = (rs1_num \<noteq> 0)
      in if rm = 1 then Some (rs1_val, True)
         else if rm = 2 then Some (old OR rs1_val, w)
         else if rm = 3 then Some (old AND NOT rs1_val, w)
         else if rm = 5 then Some (rs1_num, True)
         else if rm = 6 then Some (old OR rs1_num, w)
         else if rm = 7 then Some (old AND NOT rs1_num, w)
         else None)"

definition emulate_system_opcode :: "'d hardware \<Rightarrow> ('d, 'z) emulation" where
  "emulate_system_opcode W mepc mstatus insn s =
     (let rs1_num = drop_bit 15 insn AND 0x1f; rs1_val = GET_RS1 insn s;
          csr_num = ucast (drop_bit 20 (ucast insn :: u32))
      in case emulate_read_csr W csr_num mstatus s of
           (None, s) \<Rightarrow> truly_illegal_insn W mepc mstatus insn s
         | (Some old, s) \<Rightarrow>
             (case csr_update (GET_RM insn) rs1_num rs1_val old of
                None \<Rightarrow> truly_illegal_insn W mepc mstatus insn s
              | Some (new, do_write) \<Rightarrow>
                  if do_write
                  then (case emulate_write_csr W csr_num new s of
                          None \<Rightarrow> truly_illegal_insn W mepc mstatus insn s
                        | Some s \<Rightarrow> Inr (SET_RD insn old s))
                  else Inr (SET_RD insn old s)))"

section \<open>Dispatch\<close>

text \<open>\<^verbatim>\<open>illegal_insn_trap_table\<close>, indexed by bits 2 to 6.\<close>

definition insn_table :: "'d hardware \<Rightarrow> nat \<Rightarrow> ('d, 'z) emulation" where
  "insn_table W i =
     (if i = 1 then emulate_float_load W else if i = 9 then emulate_float_store W
      else if i = 12 then emulate_mul_div W else if i = 14 then emulate_mul_div32 W
      else if i \<in> {16, 17, 18, 19} then emulate_fmadd W else if i = 20 then emulate_fp W
      else if i = 28 then emulate_system_opcode W else truly_illegal_insn W)"

definition illegal_insn_trap ::
    "'d hardware \<Rightarrow> u64 \<Rightarrow> ('d, 'z) mach_scheme
     \<Rightarrow> (('d, 'z) mach_scheme, ('d, 'z) mach_scheme) handler" where
  "illegal_insn_trap W mepc s =
     (let mstatus = csrs s MSTATUS; insn = csrs s MTVAL
      in bindE (if insn AND 3 \<noteq> 3 \<and> insn = 0 then get_insn W mepc s else Inr (insn, mstatus)) (\<lambda>(insn, mstatus).
         if insn AND 3 \<noteq> 3 then emulate_rvc W mepc mstatus insn s
         else insn_table W (unat (insn AND 0x7c) div 4) mepc mstatus insn (write_csr W MEPC (mepc + 4) s)))"

text \<open>The trap table of \<^verbatim>\<open>mentry.S\<close>: the handler for a synchronous trap from a lower privilege.  Entry 13 is the
  entry of traps from machine mode itself, whose frame is then the program's.  The table has 19
  entries and is indexed with \<^verbatim>\<open>mcause\<close> unchecked: what a greater cause jumps to is not determined by the code.\<close>

definition trap_table ::
    "'d hardware \<Rightarrow> u64 \<Rightarrow> u64 \<Rightarrow> ('d, 'z) mach_scheme
     \<Rightarrow> (('d, 'z) mach_scheme, ('d, 'z) mach_scheme) handler" where
  "trap_table W mcause mepc s =
     (if mcause \<in> {1, 5, 7} then pmp_trap W mepc s
      else if mcause = 2 then illegal_insn_trap W mepc s
      else if mcause = 4 then misaligned_load_trap W mepc s
      else if mcause = 6 then misaligned_store_trap W mepc s
      else if mcause = 9 then mcall_trap W mepc s
      else if mcause = 13 then trap_from_machine_mode W (xregs s) s
      else if mcause < 19 then bad_trap
      else Inl (Stop (Undefined ''trap_table'')))"

end
