(* ===== verification/Machine_Spinlock.thy ===== *)
theory Machine_Spinlock
  imports Prelude
begin

text \<open>
  The spin lock of \<^verbatim>\<open>machine/atomic.h\<close>, which guards the HTIF mailbox, the page tables and the
  console, as a transition system: any number of harts run \<^verbatim>\<open>spinlock_lock\<close> and
  \<^verbatim>\<open>spinlock_unlock\<close>, one shared access per step.  The lock word is kept at its width.
\<close>

section \<open>The operations\<close>

text \<open>\<^verbatim>\<open>atomic_swap(&lock->lock, -1)\<close>: the old value and the new one.\<close>

definition spinlock_trylock :: "u32 \<Rightarrow> u32 \<times> u32" where
  "spinlock_trylock l = (l, - 1)"

definition spinlock_unlock :: "u32 \<Rightarrow> u32" where
  "spinlock_unlock l = 0"

text \<open>Where a hart is: outside, in the inner loop that reads the lock, about to swap, or between
  \<^verbatim>\<open>spinlock_lock\<close> and \<^verbatim>\<open>spinlock_unlock\<close>.\<close>

datatype lock_pc = Outside | Reading | Swapping | Holding

record lock_st =
  lock_word :: u32
  pc_of :: "nat \<Rightarrow> lock_pc"

definition goto :: "nat \<Rightarrow> lock_pc \<Rightarrow> lock_st \<Rightarrow> lock_st" where
  "goto i p s = s\<lparr>pc_of := (pc_of s)(i := p)\<rparr>"

inductive lock_step :: "nat \<Rightarrow> lock_st \<Rightarrow> lock_st \<Rightarrow> bool" where
  call: "pc_of s i = Outside \<Longrightarrow> lock_step i s (goto i Reading s)"
| spin: "pc_of s i = Reading \<Longrightarrow> lock_word s \<noteq> 0 \<Longrightarrow> lock_step i s s"
| seen_free: "pc_of s i = Reading \<Longrightarrow> lock_word s = 0 \<Longrightarrow> lock_step i s (goto i Swapping s)"
| swap: "pc_of s i = Swapping \<Longrightarrow> spinlock_trylock (lock_word s) = (res, l) \<Longrightarrow>
    lock_step i s (goto i (if res \<noteq> 0 then Reading else Holding) (s\<lparr>lock_word := l\<rparr>))"
| release: "pc_of s i = Holding \<Longrightarrow>
    lock_step i s (goto i Outside (s\<lparr>lock_word := spinlock_unlock (lock_word s)\<rparr>))"

inductive_simps lock_step_simps: "lock_step i s s'"
inductive_cases lock_stepE: "lock_step i s s'"

definition free_lock :: lock_st where
  "free_lock = \<lparr>lock_word = 0, pc_of = (\<lambda>_. Outside)\<rparr>"

inductive lock_reachable :: "lock_st \<Rightarrow> bool" where
  init: "lock_reachable free_lock"
| step: "lock_reachable s \<Longrightarrow> lock_step i s s' \<Longrightarrow> lock_reachable s'"

lemma goto_fields [simp, fields]:
  "lock_word (goto i p s) = lock_word s"
  "pc_of (goto i p s) j = (if j = i then p else pc_of s j)"
  by (simp_all add: goto_def)

section \<open>Mutual exclusion\<close>

definition holders :: "lock_st \<Rightarrow> nat set" where
  "holders s = {i. pc_of s i = Holding}"

lemma holders_goto [simp]:
  "holders (goto i p s) = (if p = Holding then insert i (holders s) else holders s - {i})"
  by (auto simp: holders_def)

lemma holders_lock_word [simp]: "holders (s\<lparr>lock_word := l\<rparr>) = holders s"
  by (simp add: holders_def)

text \<open>The lock word is 0 and nobody holds the lock, or it is -1 and one hart does.\<close>

definition lock_ok :: "lock_st \<Rightarrow> bool" where
  "lock_ok s \<longleftrightarrow> lock_word s = 0 \<and> holders s = {} \<or> lock_word s = - 1 \<and> is_singleton (holders s)"

lemma lock_okI:
  "lock_word s = 0 \<Longrightarrow> holders s = {} \<Longrightarrow> lock_ok s"
  "lock_word s = - 1 \<Longrightarrow> holders s = {i} \<Longrightarrow> lock_ok s"
  by (auto simp: lock_ok_def)

lemma not_holding: "pc_of s i \<noteq> Holding \<Longrightarrow> holders s - {i} = holders s"
  by (simp add: holders_def)

lemma holding: "pc_of s i = Holding \<Longrightarrow> lock_ok s \<Longrightarrow> lock_word s = - 1 \<and> holders s = {i}"
proof -
  assume "pc_of s i = Holding" and ok: "lock_ok s"
  then have i: "i \<in> holders s" by (simp add: holders_def)
  with ok have w: "lock_word s = - 1" and "is_singleton (holders s)" by (auto simp: lock_ok_def)
  then obtain x where "holders s = {x}" by (auto simp: is_singleton_def)
  with i w show ?thesis by simp
qed

lemma lock_step_ok: "lock_step i s s' \<Longrightarrow> lock_ok s \<Longrightarrow> lock_ok s'"
proof (induction rule: lock_step.induct)
  case (swap s i res l)
  then have old: "res = lock_word s" and new: "l = - 1" by (simp_all add: spinlock_trylock_def)
  from swap(3) consider "lock_word s = 0" "holders s = {}" | "lock_word s = - 1" "is_singleton (holders s)"
    unfolding lock_ok_def by blast
  then show ?case
  proof cases
    case 1
    then show ?thesis unfolding old new by (intro lock_okI(2) [where i = i]) simp_all
  next
    case 2
    then show ?thesis unfolding old new lock_ok_def using swap(1) by (simp add: not_holding)
  qed
next
  case (release s i)
  then show ?case using holding [of s i] by (intro lock_okI(1)) (simp_all add: spinlock_unlock_def)
qed (simp_all add: lock_ok_def not_holding)

lemma lock_reachable_ok: "lock_reachable s \<Longrightarrow> lock_ok s"
proof (induction rule: lock_reachable.induct)
  case init
  show ?case by (rule lock_okI(1)) (simp_all add: free_lock_def holders_def)
qed (rule lock_step_ok)

text \<open>C11. Two harts are never between \<^verbatim>\<open>spinlock_lock\<close> and \<^verbatim>\<open>spinlock_unlock\<close> at once: in every
  reachable state harts that hold the lock are equal, and the lock word is not zero while one
  does.\<close>

theorem spinlock_mutual_exclusion:
  assumes "lock_reachable s" "pc_of s i = Holding" "pc_of s j = Holding"
  shows "i = j \<and> lock_word s \<noteq> 0"
  using lock_reachable_ok [OF assms(1)] holding [of s i] holding [of s j] assms(2,3) by auto

definition one_holder :: lock_st where
  "one_holder = goto 3 Holding (goto 3 Swapping (goto 3 Reading free_lock)\<lparr>lock_word := - 1\<rparr>)"

lemma one_holder_reachable: "lock_reachable one_holder"
proof -
  have 1: "lock_reachable (goto 3 Reading free_lock)"
    by (rule lock_reachable.step [OF lock_reachable.init lock_step.call]) (simp add: free_lock_def)
  have 2: "lock_reachable (goto 3 Swapping (goto 3 Reading free_lock))"
    by (rule lock_reachable.step [OF 1 lock_step.seen_free]) (simp_all add: free_lock_def)
  have "lock_step 3 (goto 3 Swapping (goto 3 Reading free_lock))
      (goto 3 (if (0 :: u32) \<noteq> 0 then Reading else Holding)
        (goto 3 Swapping (goto 3 Reading free_lock)\<lparr>lock_word := - 1\<rparr>))"
    by (rule lock_step.swap) (simp_all add: free_lock_def spinlock_trylock_def)
  with 2 show ?thesis unfolding one_holder_def by (simp add: lock_reachable.step)
qed

lemma spinlock_mutual_exclusion_witness: "(3 :: nat) = 3 \<and> lock_word one_holder \<noteq> 0"
  using spinlock_mutual_exclusion [OF one_holder_reachable, of 3 3] by (simp add: one_holder_def)

section \<open>Progress\<close>

abbreviation lock_steps :: "lock_st \<Rightarrow> lock_st \<Rightarrow> bool" where
  "lock_steps \<equiv> (\<lambda>s s'. \<exists>i. lock_step i s s')\<^sup>*\<^sup>*"

lemma lock_steps_step: "lock_step i s s' \<Longrightarrow> lock_steps s' s'' \<Longrightarrow> lock_steps s s''"
  by (rule converse_rtranclp_into_rtranclp) blast+

lemma reach_by_step:
  "lock_step i s t \<Longrightarrow> \<exists>s'. lock_steps t s' \<and> pc_of s' j = p \<Longrightarrow> \<exists>s'. lock_steps s s' \<and> pc_of s' j = p"
  using lock_steps_step by blast

lemma reach_now: "pc_of s j = p \<Longrightarrow> \<exists>s'. lock_steps s s' \<and> pc_of s' j = p"
  by blast

lemma take_free_lock:
  assumes "pc_of s i = Swapping" "lock_word s = 0"
  shows "\<exists>s'. lock_step i s s' \<and> pc_of s' i = Holding"
  using lock_step.swap [OF assms(1), of 0 "- 1"] assms(2)
  by (intro exI [of _ "goto i Holding (s\<lparr>lock_word := - 1\<rparr>)"]) (simp add: spinlock_trylock_def)

lemma acquire_free_lock:
  assumes "pc_of s i = Reading \<or> pc_of s i = Swapping" "lock_word s = 0"
  shows "\<exists>s'. lock_steps s s' \<and> pc_of s' i = Holding"
  using assms(1)
proof
  assume r: "pc_of s i = Reading"
  let ?t = "goto i Swapping s"
  from take_free_lock [of ?t i] assms(2) obtain s' where s': "lock_step i ?t s'" "pc_of s' i = Holding" by auto
  show ?thesis by (rule reach_by_step [OF lock_step.seen_free [OF r assms(2)]],
      rule reach_by_step [OF s'(1)], rule reach_now, rule s'(2))
next
  assume "pc_of s i = Swapping"
  from take_free_lock [OF this assms(2)] obtain s' where s': "lock_step i s s'" "pc_of s' i = Holding"
    by blast
  show ?thesis by (rule reach_by_step [OF s'(1)], rule reach_now, rule s'(2))
qed

text \<open>C20. No waiting hart can be locked out for good: from every reachable state in which a hart
  waits for the lock there is an execution at whose end that hart holds it (the present holder,
  if there is one, releases it first).\<close>

theorem spinlock_progress:
  assumes "lock_reachable s" "pc_of s i = Reading \<or> pc_of s i = Swapping"
  shows "\<exists>s'. lock_steps s s' \<and> pc_of s' i = Holding"
proof (cases "holders s = {}")
  case True
  with lock_reachable_ok [OF assms(1)] have "lock_word s = 0" by (simp add: lock_ok_def is_singleton_def)
  with assms(2) show ?thesis by (rule acquire_free_lock)
next
  case False
  then obtain j where j: "pc_of s j = Holding" by (auto simp: holders_def)
  let ?t = "goto j Outside (s\<lparr>lock_word := spinlock_unlock (lock_word s)\<rparr>)"
  from assms(2) j have "pc_of ?t i = Reading \<or> pc_of ?t i = Swapping" by auto
  moreover have "lock_word ?t = 0" by (simp add: spinlock_unlock_def)
  ultimately have "\<exists>s'. lock_steps ?t s' \<and> pc_of s' i = Holding" by (rule acquire_free_lock)
  with lock_step.release [OF j] show ?thesis by (rule reach_by_step)
qed

lemma spinlock_progress_witness:
  "\<exists>s'. lock_steps (goto 5 Reading one_holder) s' \<and> pc_of s' 5 = Holding"
proof (rule spinlock_progress)
  show "lock_reachable (goto 5 Reading one_holder)"
    by (rule lock_reachable.step [OF one_holder_reachable lock_step.call])
      (simp add: one_holder_def free_lock_def)
qed simp

end
