(* ===== verification/Machine_FdtTree.thy ===== *)
theory Machine_FdtTree
  imports Machine_FdtClients
begin

text \<open>
  What a scan of the device tree does, stated over trees instead of lexemes.  \<open>nodes_at\<close> relates the
  bytes of a well-formed structure block to the forest it encodes; \<open>visit_nodes\<close> walks a forest
  in the order in which clients rely on being called.  For every client that leaves memory alone
  the scanner is that walk, and it returns.
\<close>

section \<open>Trees and their encoding\<close>

text \<open>Names, properties and values stay pointers into the blob, as the callbacks see them.\<close>

datatype dt_node = DT_node u64 "fdt_prop list" "dt_node list"

text \<open>The properties of a node (and tokens to skip) in front of its first subnode.\<close>

inductive props_at :: "memory \<Rightarrow> u64 \<Rightarrow> u64 \<Rightarrow> fdt_prop list \<Rightarrow> u64 \<Rightarrow> bool" for m strs where
  no_prop: "props_at m strs pos [] pos"
| prop_nop: "cell m pos = FDT_NOP \<Longrightarrow> props_at m strs (pos + 4) ps q \<Longrightarrow> props_at m strs pos ps q"
| one_prop: "cell m pos = FDT_PROP \<Longrightarrow>
    p = \<lparr>prop_name = strs + ucast (cell m (pos + 8)), prop_len = cell m (pos + 4), prop_value = pos + 12\<rparr> \<Longrightarrow>
    props_at m strs (pos + 12 + 4 * word_of_int ((sint (prop_len p) + 3) sdiv 4)) ps q \<Longrightarrow>
    props_at m strs pos (p # ps) q"

text \<open>Subnodes up to the token that ends their parent, \<^verbatim>\<open>FDT_END_NODE\<close> or \<^verbatim>\<open>FDT_END\<close>.\<close>

inductive nodes_at :: "memory \<Rightarrow> u64 \<Rightarrow> u64 \<Rightarrow> dt_node list \<Rightarrow> u64 \<Rightarrow> bool" for m strs where
  end_node: "cell m pos = FDT_END_NODE \<Longrightarrow> nodes_at m strs pos [] (pos + 4)"
| end_tree: "cell m pos \<notin> {FDT_NOP, FDT_PROP, FDT_BEGIN_NODE, FDT_END_NODE} \<Longrightarrow> nodes_at m strs pos [] pos"
| node_nop: "cell m pos = FDT_NOP \<Longrightarrow> nodes_at m strs (pos + 4) ts q \<Longrightarrow> nodes_at m strs pos ts q"
| node: "cell m pos = FDT_BEGIN_NODE \<Longrightarrow> strlen m (pos + 4) = Some l \<Longrightarrow>
    props_at m strs (pos + 8 + 4 * (l div 4)) ps q \<Longrightarrow> nodes_at m strs q subs r \<Longrightarrow>
    nodes_at m strs r ts r' \<Longrightarrow> nodes_at m strs pos (DT_node (pos + 4) ps subs # ts) r'"

definition blob_at :: "memory \<Rightarrow> u64 \<Rightarrow> dt_node list \<Rightarrow> bool" where
  "blob_at m fdt ts \<longleftrightarrow> fdt_known m fdt
     \<and> (\<exists>q. nodes_at m (fdt + ucast (cell m (fdt + 12))) (fdt + ucast (cell m (fdt + 8))) ts q)"

section \<open>The walk\<close>

text \<open>
  A node is opened, then its properties are reported, then it is done, then its subnodes are
  visited, then it is closed.  \<open>child\<close> is the structure that siblings share: a node starts with
  the cell counts its elder sibling left there.
\<close>

fun visit_props ::
    "('c, 'd) fdt_cb \<Rightarrow> memory \<Rightarrow> fdt_prop list \<Rightarrow> fdt_node list \<Rightarrow> ('c, 'd) scan_st
     \<Rightarrow> (fdt_node list \<times> ('c, 'd) scan_st) res" where
  "visit_props cb m [] node s = Inr (node, s)"
| "visit_props cb m (p # ps) node s =
     (let node = note_cells m (prop_name p) (prop_value p - 12) node
      in bindE (cb_prop cb node p s) (visit_props cb m ps node))"

fun visit_node :: "('c, 'd) fdt_cb \<Rightarrow> memory \<Rightarrow> fdt_node list \<Rightarrow> fdt_node \<Rightarrow> dt_node \<Rightarrow> ('c, 'd) scan_st
      \<Rightarrow> (fdt_node \<times> ('c, 'd) scan_st) res"
  and visit_nodes :: "('c, 'd) fdt_cb \<Rightarrow> memory \<Rightarrow> fdt_node list \<Rightarrow> fdt_node \<Rightarrow> dt_node list \<Rightarrow> ('c, 'd) scan_st
      \<Rightarrow> ('c, 'd) scan_st res" where
  "visit_node cb m up child (DT_node nm ps subs) s =
     bindE (call_node (cb_open cb) (child\<lparr>node_name := nm\<rparr> # up) s) (\<lambda>s.
     bindE (visit_props cb m ps (child\<lparr>node_name := nm\<rparr> # up) s) (\<lambda>(node, s).
     bindE (call_node (cb_done cb) node s) (\<lambda>s.
     bindE (visit_nodes cb m node new_child subs s) (\<lambda>s.
     bindE (call_close (cb_close cb) node s) (\<lambda>(_, s). Inr (hd node, s))))))"
| "visit_nodes cb m up child [] s = Inr s"
| "visit_nodes cb m up child (t # ts) s =
     bindE (visit_node cb m up child t s) (\<lambda>(child, s). visit_nodes cb m up child ts s)"

section \<open>The scanner is the walk\<close>

text \<open>A client that reads: its callbacks leave memory alone and never ask for a deletion.\<close>

locale fdt_reader =
  fixes cb :: "('c, 'd) fdt_cb"
  assumes open_keeps: "call_node (cb_open cb) node s = Inr s' \<Longrightarrow> mem (snd s') = mem (snd s)"
    and prop_keeps: "cb_prop cb node p s = Inr s' \<Longrightarrow> mem (snd s') = mem (snd s)"
    and done_keeps: "call_node (cb_done cb) node s = Inr s' \<Longrightarrow> mem (snd s') = mem (snd s)"
    and close_keeps: "call_close (cb_close cb) node s = Inr (del, s') \<Longrightarrow> mem (snd s') = mem (snd s) \<and> \<not> del"
begin

lemma visit_props_keeps:
  "visit_props cb m ps node s = Inr (node', s') \<Longrightarrow>
   mem (snd s') = mem (snd s) \<and> length node' = length node \<and> (node \<noteq> [] \<longrightarrow> tl node' = tl node)"
proof (induction ps arbitrary: node s)
  case (Cons p ps)
  then obtain s1 where s1: "cb_prop cb (note_cells m (prop_name p) (prop_value p - 12) node) p s = Inr s1"
      "visit_props cb m ps (note_cells m (prop_name p) (prop_value p - 12) node) s1 = Inr (node', s')"
    by (auto simp: Let_def bindE_eq_Inr)
  have "length (note_cells m (prop_name p) (prop_value p - 12) node) = length node"
    "node \<noteq> [] \<longrightarrow> note_cells m (prop_name p) (prop_value p - 12) node \<noteq> []
       \<and> tl (note_cells m (prop_name p) (prop_value p - 12) node) = tl node"
    by (auto simp: note_cells_def Let_def split: list.splits)
  with Cons.IH [OF s1(2)] prop_keeps [OF s1(1)] show ?case by auto
qed simp

lemma scan_props:
  assumes "props_at m strs pos ps q" "mem (snd s) = m"
  shows "fdt_scan_helper strs cb pos node child False s =
    (case visit_props cb m ps node s of
       Inl e \<Rightarrow> Some (Inl e)
     | Inr (node', s') \<Rightarrow> fdt_scan_helper strs cb q node' child False s')"
  using assms
proof (induction arbitrary: node s)
  case (no_prop pos)
  then show ?case by simp
next
  case (prop_nop pos ps q)
  then show ?case by (subst fdt_scan_helper.simps) simp
next
  case (one_prop pos p ps q)
  then show ?case
    by (subst fdt_scan_helper.simps)
      (auto simp: Let_def FDT_PROP_def FDT_NOP_def dest: prop_keeps split: sum.splits)
qed

lemma visit_nodes_keeps_aux:
  "cb' = cb \<Longrightarrow> visit_node cb' m up child t s = Inr r \<Longrightarrow> mem (snd (snd r)) = mem (snd s)"
  "cb' = cb \<Longrightarrow> visit_nodes cb' m up child ts s = Inr s' \<Longrightarrow> mem (snd s') = mem (snd s)"
proof (induction cb' m up child t s and cb' m up child ts s arbitrary: r and s' rule: visit_node_visit_nodes.induct)
  case (1 cb' m up child nm ps subs s)
  from 1(3) obtain s1 node s2 s3 s4 d s5 where
    h: "call_node (cb_open cb) (child\<lparr>node_name := nm\<rparr> # up) s = Inr s1"
      "visit_props cb m ps (child\<lparr>node_name := nm\<rparr> # up) s1 = Inr (node, s2)"
      "call_node (cb_done cb) node s2 = Inr s3"
    and subs: "visit_nodes cb m node new_child subs s3 = Inr s4"
    and rest: "call_close (cb_close cb) node s4 = Inr (d, s5)" "r = (hd node, s5)"
    unfolding 1(2) by (auto simp: bindE_eq_Inr)
  have "mem (snd s4) = mem (snd s3)"
    using 1(1) [of s1 "(node, s2)" node s2 s3 s4] h subs unfolding 1(2) by simp
  then show ?case
    using open_keeps [OF h(1)] visit_props_keeps [OF h(2)] done_keeps [OF h(3)] close_keeps [OF rest(1)] rest(2)
    by simp
next
  case (3 cb' m up child t ts s)
  then obtain c s1 where h: "visit_node cb m up child t s = Inr (c, s1)" "visit_nodes cb m up c ts s1 = Inr s'"
    by (auto simp: bindE_eq_Inr)
  with 3(1) [OF 3(3), of "(c, s1)"] 3(2) [of "(c, s1)" c s1 s'] show ?case unfolding 3(3) by simp
qed simp

lemmas visit_nodes_keeps = visit_nodes_keeps_aux [OF refl]

lemma scan_nodes:
  assumes "nodes_at m strs pos ts q" "mem (snd s) = m"
  shows "fdt_scan_helper strs cb pos node child seen s =
    Some (bindE (bindE (call_done cb seen node s) (visit_nodes cb m node child ts)) (\<lambda>s'. Inr (q, node, s')))"
  using assms
proof (induction arbitrary: node child seen s)
  case (end_node pos)
  then show ?case
    by (subst fdt_scan_helper.simps)
      (simp add: Let_def FDT_PROP_def FDT_NOP_def FDT_BEGIN_NODE_def FDT_END_NODE_def bindE_def split: sum.splits)
next
  case (end_tree pos)
  then show ?case
    by (subst fdt_scan_helper.simps) (simp add: Let_def bindE_def split: sum.splits)
next
  case (node_nop pos ts q)
  then show ?case by (subst fdt_scan_helper.simps) (simp add: Let_def)
next
  case (node pos l ps q subs r ts r')
  let ?c = "child\<lparr>node_name := pos + 4\<rparr>"
  show ?case
  proof (cases "bindE (call_done cb seen node s) (call_node (cb_open cb) (?c # node))")
    case (Inl e)
    then show ?thesis using node.prems node.hyps(1)
      by (subst fdt_scan_helper.simps)
        (auto simp: Let_def bindE_def FDT_PROP_def FDT_NOP_def FDT_BEGIN_NODE_def split: sum.splits)
  next
    case (Inr s1)
    then have m1: "mem (snd s1) = m" using node.prems
      by (auto simp: bindE_eq_Inr call_done_def dest!: open_keeps done_keeps split: if_splits)
    have begin_step: "fdt_scan_helper strs cb pos node child seen s =
        Option.bind (fdt_scan_helper strs cb (pos + 8 + 4 * (l div 4)) (?c # node) new_child False s1) (\<lambda>r. case r of
            Inl e \<Rightarrow> Some (Inl e)
          | Inr (pos_next, nodes, s) \<Rightarrow>
              (case call_close (cb_close cb) nodes s of
                 Inl e \<Rightarrow> Some (Inl e)
               | Inr (del, s) \<Rightarrow>
                   Option.bind (if del then nop_out pos pos_next (mem (snd s)) else Some (mem (snd s)))
                     (\<lambda>m. fdt_scan_helper strs cb pos_next node (hd nodes) True (upd_mem m s))))"
      using Inr node.prems node.hyps(1,2) m1
      by (subst fdt_scan_helper.simps) (simp add: Let_def FDT_PROP_def FDT_NOP_def FDT_BEGIN_NODE_def)
    note inner = scan_props [OF node.hyps(3) m1, of "?c # node" new_child]
    from Inr obtain s0 where s0: "call_done cb seen node s = Inr s0" "call_node (cb_open cb) (?c # node) s0 = Inr s1"
      by (auto simp: bindE_eq_Inr)
    show ?thesis
    proof (cases "visit_props cb m ps (?c # node) s1")
      case (Inl e)
      then show ?thesis by (simp add: s0 begin_step inner)
    next
      case vp: (Inr r1)
      obtain nodes s2 where r1: "r1 = (nodes, s2)" by (cases r1)
      from visit_props_keeps [OF vp [unfolded r1]] have m2: "mem (snd s2) = m" and ne: "nodes \<noteq> []"
        using m1 by auto
      note sub = node.IH(1) [OF m2, of nodes new_child False]
      have "call_done cb False nodes s2 = call_node (cb_done cb) nodes s2" using ne by (simp add: call_done_def)
      note walk = s0 begin_step inner vp r1 sub this
      show ?thesis
      proof (cases "bindE (call_node (cb_done cb) nodes s2) (visit_nodes cb m nodes new_child subs)")
        case (Inl e)
        then show ?thesis by (auto simp: walk bindE_eq_Inl)
      next
        case v: (Inr s4)
        then have m4: "mem (snd s4) = m" using m2 by (auto simp: bindE_eq_Inr dest!: done_keeps visit_nodes_keeps(2))
        show ?thesis
        proof (cases "call_close (cb_close cb) nodes s4")
          case (Inl e)
          with v show ?thesis by (auto simp: walk bindE_eq_Inr)
        next
          case cl: (Inr r2)
          obtain del s5 where r2: "r2 = (del, s5)" by (cases r2)
          from close_keeps [OF cl [unfolded r2]] m4 have m5: "mem (snd s5) = m" "\<not> del" by auto
          have "upd_mem (mem (snd s5)) s5 = s5" "call_done cb True node s5 = Inr s5"
            by (simp_all add: upd_mem_def call_done_def)
          with v cl show ?thesis
            by (auto simp: walk r2 m5 node.IH(2) bindE_eq_Inr)
        qed
      qed
    qed
  qed
qed

lemma fdt_scan_walk:
  assumes "blob_at (mem (snd s)) fdt ts"
  shows "fdt_scan fdt cb s = visit_nodes cb (mem (snd s)) [] new_child ts s"
proof -
  from assms obtain q where "nodes_at (mem (snd s)) (fdt + ucast (cell (mem (snd s)) (fdt + 12)))
      (fdt + ucast (cell (mem (snd s)) (fdt + 8))) ts q" and "fdt_known (mem (snd s)) fdt"
    by (auto simp: blob_at_def)
  with scan_nodes [OF this(1) refl] show ?thesis
    by (simp add: fdt_scan_def call_done_def bindE_assoc bindE_Inr)
qed

end

section \<open>String lists\<close>

text \<open>The value of a property that is a list of strings, one after the other.\<close>

primrec strings_at :: "memory \<Rightarrow> u64 \<Rightarrow> u8 list list \<Rightarrow> bool" where
  "strings_at m a [] \<longleftrightarrow> True"
| "strings_at m a (s # ss) \<longleftrightarrow> cstr_at m a s \<and> strings_at m (a + (of_nat (length s) + 1)) ss"

definition string_list :: "memory \<Rightarrow> fdt_prop \<Rightarrow> u8 list list \<Rightarrow> bool" where
  "string_list m p ss \<longleftrightarrow> strings_at m (prop_value p) ss
     \<and> int (sum_list (map (\<lambda>s. length s + 1) ss)) = sint (prop_len p)"

lemma cstr_at_unique: "cstr_at m a s \<Longrightarrow> cstr_at m a t \<Longrightarrow> s = t"
proof (induction s arbitrary: a t)
  case Nil
  then show ?case by (cases t) auto
next
  case (Cons c s)
  then show ?case by (cases t) auto
qed

lemma sint_of_nat_small: "n < 2 ^ 63 \<Longrightarrow> sint (of_nat n :: u64) = int n"
  by (subst signed_of_nat) (simp add: signed_take_bit_int_eq_self)

lemma string_list_loop_index:
  assumes "strings_at m a ss" "sum_list (map (\<lambda>s. length s + 1) ss) < 2 ^ 63"
  shows "string_list_loop m a (a + of_nat (sum_list (map (\<lambda>s. length s + 1) ss))) t i =
    Some (if bytes_of t \<in> set ss then i + int (length (takeWhile (\<lambda>s. s \<noteq> bytes_of t) ss)) else - 1)"
  using assms
proof (induction ss arbitrary: a i)
  case Nil
  then show ?case by (subst string_list_loop.simps) simp
next
  case (Cons s ss)
  let ?n = "sum_list (map (\<lambda>s. length s + 1) (s # ss))"
  have s: "cstr_at m a s" and rest: "strings_at m (a + (of_nat (length s) + 1)) ss" using Cons.prems(1) by auto
  have "sint (of_nat ?n :: u64) = int ?n"
    by (rule sint_of_nat_small [OF Cons.prems(2)])
  then have pos: "0 < sint (a + of_nat ?n - a)" by simp
  have len: "strlen m a = Some (of_nat (length s))" using strlen_loop_cstr [OF s] by (simp add: strlen_def)
  have iff: "streq m a t \<longleftrightarrow> s = bytes_of t" using s cstr_at_unique by (auto simp: streq_def)
  show ?case
    using Cons.IH [OF rest, of "i + 1"] Cons.prems(2)
    by (subst string_list_loop.simps) (use pos in \<open>auto simp: algebra_simps len iff\<close>)
qed

lemma fdt_string_list_index_value:
  assumes "string_list m p ss"
  shows "fdt_string_list_index m p t =
    Inr (if bytes_of t \<in> set ss then int (length (takeWhile (\<lambda>s. s \<noteq> bytes_of t) ss)) else - 1)"
proof -
  let ?n = "sum_list (map (\<lambda>s. length s + 1) ss)"
  from assms have n: "strings_at m (prop_value p) ss" "sint (prop_len p) = int ?n"
    by (simp_all add: string_list_def)
  have "?n < 2 ^ 63" using sint_lt [of "prop_len p"] n(2) by simp
  moreover have "scast (prop_len p) = (of_nat ?n :: u64)" unfolding scast_eq n(2) by simp
  ultimately show ?thesis
    using string_list_loop_index [OF n(1), of t 0] by (simp add: fdt_string_list_index_def)
qed

lemma compatible_value: "string_list m p ss \<Longrightarrow> compatible m p t = Inr (bytes_of t \<in> set ss)"
  by (simp add: compatible_def fdt_string_list_index_value)

section \<open>Clients that look at one node at a time\<close>

text \<open>The nodes of a forest in the order of the walk, each with the pointer chain it is opened
  with and its properties.\<close>

definition note_all :: "memory \<Rightarrow> fdt_prop list \<Rightarrow> fdt_node list \<Rightarrow> fdt_node list" where
  "note_all m ps node = fold (\<lambda>p. note_cells m (prop_name p) (prop_value p - 12)) ps node"

fun node_walk :: "memory \<Rightarrow> fdt_node list \<Rightarrow> fdt_node \<Rightarrow> dt_node \<Rightarrow> fdt_node \<times> (fdt_node list \<times> fdt_prop list) list"
  and nodes_walk :: "memory \<Rightarrow> fdt_node list \<Rightarrow> fdt_node \<Rightarrow> dt_node list \<Rightarrow> (fdt_node list \<times> fdt_prop list) list" where
  "node_walk m up child (DT_node nm ps subs) =
     (let node = note_all m ps (child\<lparr>node_name := nm\<rparr> # up)
      in (hd node, (child\<lparr>node_name := nm\<rparr> # up, ps) # nodes_walk m node new_child subs))"
| "nodes_walk m up child [] = []"
| "nodes_walk m up child (t # ts) = (let (child, ns) = node_walk m up child t in ns @ nodes_walk m up child ts)"

text \<open>What a node does to the machine when the client's structure is reset to \<open>c0\<close> before.\<close>

definition report ::
    "('c, 'd) fdt_cb \<Rightarrow> 'c \<Rightarrow> memory \<Rightarrow> fdt_node list \<times> fdt_prop list \<Rightarrow> 'd mach \<Rightarrow> 'd mach res" where
  "report cb c0 m n t =
     bindE (visit_props cb m (snd n) (fst n) (c0, t)) (\<lambda>(node, s).
     bindE (call_node (cb_done cb) node s) (\<lambda>s. Inr (snd s)))"

lemma visit_props_node: "visit_props cb m ps node s = Inr (node', s') \<Longrightarrow> node' = note_all m ps node"
  by (induction ps arbitrary: node s) (auto simp: note_all_def Let_def bindE_eq_Inr)

locale fdt_node_client = fdt_reader cb for cb :: "('c, 'd) fdt_cb" +
  fixes c0 :: 'c
  assumes open_resets: "call_node (cb_open cb) node s = Inr (c0, snd s)"
    and no_close: "cb_close cb = None"
begin

lemma visit_walk_aux:
  "cb' = cb \<Longrightarrow> bindE (visit_node cb' m up child t s) (\<lambda>(c, s). Inr (c, snd s))
     = bindE (foldE (report cb c0 m) (snd (node_walk m up child t)) (snd s)) (\<lambda>t'. Inr (fst (node_walk m up child t), t'))"
  "cb' = cb \<Longrightarrow> bindE (visit_nodes cb' m up child ts s) (\<lambda>s. Inr (snd s))
     = foldE (report cb c0 m) (nodes_walk m up child ts) (snd s)"
proof (induction cb' m up child t s and cb' m up child ts s rule: visit_node_visit_nodes.induct)
  case (1 cb' m up child nm ps subs s)
  let ?n = "child\<lparr>node_name := nm\<rparr> # up"
  show ?case
  proof (cases "bindE (visit_props cb m ps ?n (c0, snd s)) (\<lambda>(node, s). call_node (cb_done cb) node s)")
    case (Inl e)
    then show ?thesis using 1(2)
      by (auto simp: open_resets report_def Let_def bindE_eq_Inl split: prod.splits)
  next
    case (Inr s3)
    then obtain node s2 where h: "visit_props cb m ps ?n (c0, snd s) = Inr (node, s2)" "call_node (cb_done cb) node s2 = Inr s3"
      by (auto simp: bindE_eq_Inr)
    have ih: "bindE (visit_nodes cb m node new_child subs s3) (\<lambda>s. Inr (snd s))
        = foldE (report cb c0 m) (nodes_walk m node new_child subs) (snd s3)"
      using 1(1) [of "(c0, snd s)" "(node, s2)" node s2 s3] h 1(2) by (simp add: open_resets)
    have tail: "bindE (visit_nodes cb m node new_child subs s3) (\<lambda>s. Inr (hd node, snd s))
        = bindE (foldE (report cb c0 m) (nodes_walk m node new_child subs) (snd s3)) (\<lambda>t'. Inr (hd node, t'))"
      by (simp add: ih [symmetric] bindE_assoc)
    have rep: "report cb c0 m (?n, ps) (snd s) = Inr (snd s3)" using h by (simp add: report_def)
    have n: "note_all m ps ?n = node" using visit_props_node [OF h(1)] by simp
    show ?thesis
      using h 1(2) by (simp add: open_resets rep n Let_def tail no_close call_close_def bindE_assoc)
  qed
next
  case (2 cb' m up child s)
  then show ?case by simp
next
  case (3 cb' m up child t ts s)
  obtain c ns where w: "node_walk m up child t = (c, ns)" by (cases "node_walk m up child t")
  have ih: "bindE (visit_node cb m up child t s) (\<lambda>(c, s). Inr (c, snd s))
      = bindE (foldE (report cb c0 m) ns (snd s)) (\<lambda>t'. Inr (c, t'))"
    using 3(1) [OF 3(3)] w 3(3) by simp
  show ?case
  proof (cases "visit_node cb m up child t s")
    case (Inl e)
    with ih have "foldE (report cb c0 m) ns (snd s) = Inl e" by (auto simp: bindE_eq_Inl dest: sym)
    with Inl show ?thesis using 3(3) by (simp add: w foldE_append)
  next
    case (Inr r)
    obtain c' s1 where r: "r = (c', s1)" by (cases r)
    with ih Inr have "c' = c" "foldE (report cb c0 m) ns (snd s) = Inr (snd s1)" by (auto simp: bindE_eq_Inr dest: sym)
    with 3(2) [of r c' s1] Inr r show ?thesis using 3(3) by (simp add: w foldE_append)
  qed
qed

lemmas visit_walk = visit_walk_aux(2) [OF refl]

end

section \<open>Finding the HTIF\<close>

abbreviation htif_cb :: "(bool, 'd) fdt_cb" where
  "htif_cb \<equiv> no_cb\<lparr>cb_open := Some htif_open, cb_prop := htif_prop, cb_done := Some htif_done\<rparr>"

interpretation htif_client: fdt_node_client htif_cb False
  by unfold_locales
    (auto simp: no_cb_def call_node_def call_close_def htif_open_def htif_prop_def htif_done_def if_compatible_def
      bindE_eq_Inr split: if_splits)

definition lists :: "memory \<Rightarrow> string \<Rightarrow> fdt_prop \<Rightarrow> bool" where
  "lists m t p \<longleftrightarrow> prop_is m p ''compatible'' \<and> (\<exists>ss. string_list m p ss \<and> bytes_of t \<in> set ss)"

definition well_listed :: "memory \<Rightarrow> fdt_prop \<Rightarrow> bool" where
  "well_listed m p \<longleftrightarrow> (prop_is m p ''compatible'' \<longrightarrow> (\<exists>ss. string_list m p ss))"

definition blob_props :: "memory \<Rightarrow> dt_node list \<Rightarrow> fdt_prop list" where
  "blob_props m ts = concat (map snd (nodes_walk m [] new_child ts))"

lemma strings_at_unique: 
  "strings_at m a ss \<Longrightarrow> strings_at m a ss' \<Longrightarrow>
   sum_list (map (\<lambda>s. length s + 1) ss) = sum_list (map (\<lambda>s. length s + 1) ss') \<Longrightarrow> ss = ss'"
proof (induction ss arbitrary: a ss')
  case Nil
  then show ?case by (cases ss') auto
next
  case (Cons s ss)
  then show ?case by (cases ss') (auto dest: cstr_at_unique)
qed

lemma string_list_unique: "string_list m p ss \<Longrightarrow> string_list m p ss' \<Longrightarrow> ss = ss'"
  by (rule strings_at_unique) (auto simp: string_list_def)

lemma if_compatible_value:
  assumes "well_listed m p"
  shows "if_compatible m p t y n = (if lists m t p then y else n)"
  using assms
  by (auto simp: if_compatible_def well_listed_def lists_def compatible_value dest: string_list_unique)

lemma visit_htif_props:
  assumes "\<forall>p \<in> set ps. well_listed (mem t) p"
  shows "\<exists>node'. visit_props htif_cb (mem t) ps node (b, t) = Inr (node', b \<or> (\<exists>p \<in> set ps. lists (mem t) ''ucb,htif0'' p), t)"
  using assms
proof (induction ps arbitrary: node b)
  case (Cons p ps)
  have "htif_prop node' p (b, t) = Inr (b \<or> lists (mem t) ''ucb,htif0'' p, t)" for node'
    using Cons.prems by (simp add: htif_prop_def if_compatible_value)
  with Cons.IH [of _ "b \<or> lists (mem t) ''ucb,htif0'' p"] Cons.prems show ?case
    by (auto simp: no_cb_def Let_def)
qed simp

lemma htif_report:
  assumes "\<forall>p \<in> set (snd n). well_listed (mem t) p"
  shows "report htif_cb False (mem t) n t =
    Inr (if \<exists>p \<in> set (snd n). lists (mem t) ''ucb,htif0'' p then t\<lparr>htif_present := True\<rparr> else t)"
  using visit_htif_props [OF assms, of "fst n" False]
  by (auto simp: report_def call_node_def no_cb_def htif_done_def)

lemma htif_reports:
  assumes "\<forall>n \<in> set ns. \<forall>p \<in> set (snd n). well_listed (mem t) p"
  shows "foldE (report htif_cb False (mem t)) ns t =
    Inr (if \<exists>n \<in> set ns. \<exists>p \<in> set (snd n). lists (mem t) ''ucb,htif0'' p then t\<lparr>htif_present := True\<rparr> else t)"
  using assms
proof (induction ns arbitrary: t)
  case (Cons n ns)
  have r: "report htif_cb False (mem t) n t =
      Inr (if \<exists>p \<in> set (snd n). lists (mem t) ''ucb,htif0'' p then t\<lparr>htif_present := True\<rparr> else t)"
    using Cons.prems by (intro htif_report) simp
  show ?case
    using Cons.IH [of t] Cons.IH [of "t\<lparr>htif_present := True\<rparr>"] Cons.prems by (auto simp: r)
qed simp

text \<open>C25. The scanner decides whether the machine has an HTIF: on every well-formed blob whose
  \<^verbatim>\<open>compatible\<close> properties are terminated string lists it returns, and sets the flag exactly if some
  node of the tree lists \<^verbatim>\<open>ucb,htif0\<close>.\<close>

theorem query_htif_correct:
  assumes "blob_at (mem s) fdt ts" "\<forall>p \<in> set (blob_props (mem s) ts). well_listed (mem s) p"
  shows "query_htif fdt s =
    Inr (if \<exists>p \<in> set (blob_props (mem s) ts). lists (mem s) ''ucb,htif0'' p then s\<lparr>htif_present := True\<rparr> else s)"
proof -
  have "query_htif fdt s = bindE (visit_nodes htif_cb (mem s) [] new_child ts (False, s)) (\<lambda>s. Inr (snd s))"
    using htif_client.fdt_scan_walk [of "(False, s)" fdt ts] assms(1)
    by (simp add: query_htif_def case_prod_unfold)
  also have "\<dots> = foldE (report htif_cb False (mem s)) (nodes_walk (mem s) [] new_child ts) s"
    using htif_client.visit_walk [of "mem s" "[]" new_child ts "(False, s)"] by simp
  finally show ?thesis
    using htif_reports [of "nodes_walk (mem s) [] new_child ts" s] assms(2) by (simp add: blob_props_def)
qed

section \<open>A blob\<close>

text \<open>A tree whose root lists \<^verbatim>\<open>ucb,htif0\<close>: the header, the structure block at 40, the names at 80.\<close>

definition tiny_blob :: memory where
  "tiny_blob = (\<lambda>_. 0)(0 := 208, 1 := 13, 2 := 254, 3 := 237, 7 := 91, 11 := 40, 15 := 80, 23 := 17, 27 := 16, 43 := 1,
     51 := 3, 55 := 10, 60 := 117, 61 := 99, 62 := 98, 63 := 44, 64 := 104, 65 := 116, 66 := 105, 67
     := 102, 68 := 48, 75 := 2, 79 := 9, 80 := 99, 81 := 111, 82 := 109, 83 := 112, 84 := 97, 85 :=
     116, 86 := 105, 87 := 98, 88 := 108, 89 := 101)"

definition tiny_prop :: fdt_prop where
  "tiny_prop = \<lparr>prop_name = 80, prop_len = 10, prop_value = 60\<rparr>"

lemma tiny_cells:
  "cell tiny_blob 0 = FDT_MAGIC" "cell tiny_blob 8 = 40" "cell tiny_blob 12 = 80" "cell tiny_blob 24 = 16"
  "cell tiny_blob 40 = 1" "cell tiny_blob 48 = 3" "cell tiny_blob 52 = 10" "cell tiny_blob 56 = 0"
  "cell tiny_blob 72 = 2" "cell tiny_blob 76 = 9"
  by (simp_all add: cell_def word_at_def load_le_4 tiny_blob_def bswap_def FDT_MAGIC_def)

lemma tiny_blob_at: "blob_at tiny_blob 0 [DT_node 44 [tiny_prop] []]"
proof -
  have e: "nodes_at tiny_blob 80 76 [] 76"
    by (rule nodes_at.end_tree) (simp add: tiny_cells FDT_NOP_def FDT_PROP_def FDT_BEGIN_NODE_def FDT_END_NODE_def)
  have s: "nodes_at tiny_blob 80 72 [] 76"
    using nodes_at.end_node [of tiny_blob 72 80] by (simp add: tiny_cells FDT_END_NODE_def)
  have p: "props_at tiny_blob 80 48 [tiny_prop] 72"
    by (rule props_at.one_prop) (auto simp: tiny_cells FDT_PROP_def tiny_prop_def signed_divide_int_def intro: props_at.no_prop)
  have "cstr_at tiny_blob 44 []" by code_simp
  then have "strlen tiny_blob 44 = Some 0" using strlen_loop_cstr [of tiny_blob 44 "[]"] by (simp add: strlen_def)
  from nodes_at.node [of tiny_blob 40 0 80 "[tiny_prop]" 72 "[]" 76 "[]" 76] this p s e
  show ?thesis by (auto simp: blob_at_def fdt_known_def tiny_cells FDT_BEGIN_NODE_def FDT_VERSION_def)
qed

lemma tiny_lists: "lists tiny_blob ''ucb,htif0'' tiny_prop" "well_listed tiny_blob tiny_prop"
proof -
  have "prop_is tiny_blob tiny_prop ''compatible''" by code_simp
  moreover have "string_list tiny_blob tiny_prop [bytes_of ''ucb,htif0'']" by code_simp
  ultimately show "lists tiny_blob ''ucb,htif0'' tiny_prop" "well_listed tiny_blob tiny_prop"
    by (auto simp: lists_def well_listed_def)
qed

lemma query_htif_correct_witness: "query_htif 0 (idle_mach tiny_blob) = Inr ((idle_mach tiny_blob)\<lparr>htif_present := True\<rparr>)"
proof -
  have m: "mem (idle_mach tiny_blob) = tiny_blob" by (simp add: idle_mach_def)
  have p: "blob_props tiny_blob [DT_node 44 [tiny_prop] []] = [tiny_prop]" by (simp add: blob_props_def Let_def)
  show ?thesis
    using query_htif_correct [of "idle_mach tiny_blob" 0 "[DT_node 44 [tiny_prop] []]"] tiny_blob_at tiny_lists
    by (simp add: m p)
qed

section \<open>The clients that read\<close>

lemmas reader_simps = no_cb_def call_node_def call_close_def bindE_eq_Inr if_compatible_def parent_address_def

interpretation mem_client: fdt_node_client "mem_cb self" null_mem_scan for self
  by unfold_locales (auto simp: reader_simps mem_cb_def mem_open_def mem_prop_def mem_done_def Let_def split: if_splits)

interpretation hart_client: fdt_reader hart_cb
  by unfold_locales
    (auto simp: reader_simps hart_cb_def hart_open_def hart_prop_def hart_done_def hart_close_def hls_init_def Let_def
      split: if_splits)

lemma clint_ints_mem: "mem (clint_ints reg v fin i t) = mem t"
proof (induction reg v fin i t rule: clint_ints.induct)
  case (1 reg v fin i t)
  then show ?case by (subst clint_ints.simps) (simp add: Let_def set_hls_def del: clint_ints.simps)
qed

interpretation clint_client: fdt_reader clint_cb
  by unfold_locales
    (auto simp: reader_simps clint_cb_def clint_open_def clint_prop_def clint_done_def clint_ints_mem Let_def
      simp del: clint_ints.simps split: if_splits)

interpretation chosen_client: fdt_reader
    "no_cb\<lparr>cb_open := Some chosen_open, cb_prop := chosen_prop, cb_close := Some chosen_close\<rparr>"
  by unfold_locales
    (auto simp: reader_simps chosen_open_def chosen_prop_def chosen_close_def Let_def split: if_splits)

interpretation finisher_client: fdt_node_client
    "no_cb\<lparr>cb_open := Some dev_open, cb_prop := finisher_prop, cb_done := Some finisher_done\<rparr>" null_dev_scan
  by unfold_locales
    (auto simp: reader_simps dev_open_def finisher_prop_def dev_prop_def finisher_done_def Let_def split: if_splits)

section \<open>The size of memory\<close>

text \<open>What the device tree says about memory: the (base, size) pairs of a memory node, decoded with
  the cell counts of its parent.  A number of \<open>n\<close> cells is \<open>4 * n\<close> bytes, the most significant one first.\<close>

definition cells_value :: "memory \<Rightarrow> nat \<Rightarrow> u64 \<Rightarrow> u64" where
  "cells_value m n a = foldl (\<lambda>v i. push_bit 8 v OR ucast (m (a + of_nat i))) 0 [0..<4 * n]"

lemma bswap_bytes:
  "bswap (ucast ((ucast b0 OR push_bit 8 (ucast b1 OR push_bit 8 (ucast b2 OR push_bit 8 (ucast b3)))) :: u64))
    = push_bit 24 (ucast (b0 :: u8)) OR push_bit 16 (ucast (b1 :: u8)) OR push_bit 8 (ucast (b2 :: u8)) OR ucast (b3 :: u8)"
proof -
  have m: "(0x00FF00FF :: u32) = mask 8 OR push_bit 16 (mask 8)" "(0xFF00FF00 :: u32) = push_bit 8 (mask 8) OR push_bit 24 (mask 8)"
    "(0x0000FFFF :: u32) = mask 16" "(0xFFFF0000 :: u32) = push_bit 16 (mask 16)" by (simp_all add: mask_eq_exp_minus_1)
  have B: "bit (ucast b :: u32) k \<longleftrightarrow> k < 8 \<and> bit b k" "bit (ucast b :: u64) k \<longleftrightarrow> k < 8 \<and> bit b k" for b :: u8 and k
    by (auto simp: bit_simps dest: bit_imp_le_length)
  show ?thesis
  proof (rule bit_word_eqI)
    fix n assume "n < LENGTH(32)"
    then have "n \<in> set [0..<32]" by simp
    moreover have "\<forall>n \<in> set [0..<32]. bit (bswap (ucast ((ucast b0 OR push_bit 8 (ucast b1 OR push_bit 8 (ucast b2 OR push_bit 8 (ucast b3)))) :: u64))) n
      = bit (push_bit 24 (ucast b0) OR push_bit 16 (ucast b1) OR push_bit 8 (ucast b2) OR ucast b3 :: u32) n"
      unfolding bswap_def m Let_def by (simp add: upt_rec B bit_or_iff bit_and_iff bit_push_bit_iff_nat bit_push_bit_iff bit_drop_bit_eq bit_mask_iff bit_ucast_iff)
    ultimately show "bit (bswap (ucast ((ucast b0 OR push_bit 8 (ucast b1 OR push_bit 8 (ucast b2 OR push_bit 8 (ucast b3)))) :: u64))) n
      = bit (push_bit 24 (ucast b0) OR push_bit 16 (ucast b1) OR push_bit 8 (ucast b2) OR ucast b3 :: u32) n" by blast
  qed
qed

lemma cell_bytes:
  "push_bit 32 acc + ucast (cell m a) = push_bit 8 (push_bit 8 (push_bit 8 (push_bit 8 acc OR ucast (m a)) OR ucast (m (a + 1)))
     OR ucast (m (a + 2))) OR (ucast (m (a + 3)) :: u64)"
proof -
  have d: "push_bit 32 acc AND (ucast (c :: u32) :: u64) = 0" for c
    by (rule bit_word_eqI) (auto simp: bit_simps dest: bit_imp_le_length)
  have e: "(ucast (cell m a) :: u64) = push_bit 24 (ucast (m a)) OR push_bit 16 (ucast (m (a + 1))) OR push_bit 8 (ucast (m (a + 2))) OR ucast (m (a + 3))"
    unfolding cell_def word_at_def load_le_4 bswap_bytes
    by (rule bit_word_eqI) (auto simp: bit_simps dest: bit_imp_le_length)
  have "push_bit 32 acc + ucast (cell m a) = push_bit 32 acc OR (ucast (cell m a) :: u64)"
    using d by (rule disjunctive_add_eq_or)
  then show ?thesis unfolding e by (simp add: or.assoc)
qed

lemma get_cells_value:
  "snd (get_cells m n a acc) = foldl (\<lambda>v i. push_bit 8 v OR ucast (m (a + of_nat i))) acc [0..<4 * n]"
proof (induction n arbitrary: a acc)
  case (Suc n)
  have "[0..<4 * Suc n] = [0..<4] @ [4..<4 + 4 * n]" using upt_add_eq_append [of 0 4 "4 * n"] by simp
  moreover have "[4..<4 + 4 * n] = map (\<lambda>i. i + 4) [0..<4 * n]" using map_add_upt [of 4 "4 * n"] by (simp add: add.commute)
  moreover have "[0..<4] = [0, 1, 2, 3 :: nat]" by (simp add: upt_rec)
  ultimately have u: "[0..<4 * Suc n] = [0, 1, 2, 3] @ map (\<lambda>i. i + 4) [0..<4 * n]" by (simp only:)
  have s: "foldl (\<lambda>v i. push_bit 8 v OR ucast (m (a + of_nat i))) acc [0, 1, 2, 3] = push_bit 32 acc + ucast (cell m a)"
    unfolding cell_bytes by simp
  have r: "foldl f x (map g xs) = foldl (\<lambda>v i. f v (g i)) x xs" for f :: "u64 \<Rightarrow> nat \<Rightarrow> u64" and g x xs by (induction xs arbitrary: x) simp_all
  show ?case
    unfolding get_cells.simps Suc.IH u foldl_append s r by (simp add: add.commute add.left_commute)
qed simp

lemma cells_value_get: "cells_value m n a = snd (get_cells m n a 0)"
  by (simp add: cells_value_def get_cells_value)

primrec ranges :: "memory \<Rightarrow> nat \<Rightarrow> nat \<Rightarrow> nat \<Rightarrow> u64 \<Rightarrow> (u64 \<times> u64) list" where
  "ranges m na ns 0 a = []"
| "ranges m na ns (Suc k) a =
     (cells_value m na a, cells_value m ns (a + 4 * of_nat na)) # ranges m na ns k (a + of_nat (4 * (na + ns)))"

definition is_memory :: "memory \<Rightarrow> fdt_prop list \<Rightarrow> bool" where
  "is_memory m ps \<longleftrightarrow> (\<exists>p \<in> set ps. prop_is m p ''device_type'' \<and> streq m (prop_value p) ''memory'')"

definition reg_prop :: "memory \<Rightarrow> fdt_prop list \<Rightarrow> fdt_prop option" where
  "reg_prop m ps = find (\<lambda>p. prop_is m p ''reg'') (rev ps)"

definition up_cells :: "fdt_node list \<Rightarrow> nat \<times> nat" where
  "up_cells node = (let q = hd (tl node) in (nat (sint (address_cells q)), nat (sint (size_cells q))))"

definition node_ranges :: "memory \<Rightarrow> fdt_node list \<times> fdt_prop list \<Rightarrow> (u64 \<times> u64) list" where
  "node_ranges m n =
     (case reg_prop m (snd n) of
        None \<Rightarrow> []
      | Some p \<Rightarrow> let (na, ns) = up_cells (fst n)
                  in ranges m na ns (nat (sint (prop_len p)) div (4 * (na + ns))) (prop_value p))"

text \<open>A memory node has a parent and a \<^verbatim>\<open>reg\<close> property that holds whole pairs.\<close>

definition memory_node_ok :: "memory \<Rightarrow> fdt_node list \<times> fdt_prop list \<Rightarrow> bool" where
  "memory_node_ok m n \<longleftrightarrow> (is_memory m (snd n) \<longrightarrow> tl (fst n) \<noteq> [] \<and>
     (case reg_prop m (snd n) of
        None \<Rightarrow> False
      | Some p \<Rightarrow> let (na, ns) = up_cells (fst n)
                  in prop_value p \<noteq> 0 \<and> 0 < na + ns \<and> 0 \<le> sint (prop_len p) \<and> nat (sint (prop_len p)) mod (4 * (na + ns)) = 0))"

text \<open>What the loop of \<^verbatim>\<open>mem_done\<close> makes of a list of ranges, with the test it uses: the end of a range counts as inside, and is
  computed modulo \<open>2 ^ 64\<close>.\<close>

definition pick :: "u64 \<Rightarrow> (u64 \<times> u64) list \<Rightarrow> u64 \<Rightarrow> u64" where
  "pick self rs sz = fold (\<lambda>(b, l) sz. if b \<le> self \<and> self \<le> b + l then l else sz) rs sz"

lemma fst_get_cells: "fst (get_cells m n a acc) = a + 4 * of_nat n"
  by (induction n arbitrary: a acc) (simp_all add: algebra_simps)

lemma parent_cells:
  assumes "tl node \<noteq> []" "up_cells node = (na, ns)"
  shows "parent_address m node a = Inr (a + 4 * of_nat na, cells_value m na a)"
    and "parent_size m node a = Inr (a + 4 * of_nat ns, cells_value m ns a)"
  using assms fst_get_cells [of m na a 0] fst_get_cells [of m ns a 0]
  by (cases node; cases "tl node"; force simp: parent_address_def parent_size_def parent_def fdt_get_address_def
      fdt_get_size_def up_cells_def cells_value_get Let_def prod_eq_iff)+

lemma mem_regs_ranges:
  assumes "tl node \<noteq> []" "up_cells node = (na, ns)" "0 < na + ns" "k * (4 * (na + ns)) < 2 ^ 63"
  shows "mem_regs m self node a (a + of_nat (k * (4 * (na + ns)))) sz =
    Some (Inr (a + of_nat (k * (4 * (na + ns))), pick self (ranges m na ns k a) sz))"
  using assms(4)
proof (induction k arbitrary: a sz)
  case 0
  then show ?case by (subst mem_regs.simps) (simp add: pick_def)
next
  case (Suc k)
  let ?w = "4 * (na + ns)"
  have "sint (of_nat (Suc k * ?w) :: u64) = int (Suc k * ?w)"
    by (rule sint_of_nat_small [OF Suc.prems])
  moreover have "0 < Suc k * ?w" using assms(3) by simp
  ultimately have pos: "0 < sint (a + of_nat (Suc k * ?w) - a)" by (simp only: add_diff_cancel_left' of_nat_0_less_iff)
  have fin: "a + of_nat (Suc k * ?w) = a + of_nat ?w + of_nat (k * ?w)" by (simp add: algebra_simps)
  have k: "k * ?w < 2 ^ 63" using Suc.prems by simp
  have "a + 4 * of_nat na + 4 * of_nat ns = a + of_nat ?w" by (simp add: algebra_simps)
  with Suc.IH [OF k, of "a + of_nat ?w"] pos show ?case
    unfolding fin by (subst mem_regs.simps) (simp add: parent_cells [OF assms(1,2)] pick_def add.assoc)
qed

lemma reg_prop_Cons:
  "reg_prop m (p # ps) = (case reg_prop m ps of None \<Rightarrow> if prop_is m p ''reg'' then Some p else None | Some q \<Rightarrow> Some q)"
  by (simp add: reg_prop_def find_append split: option.split)

lemma reg_prop_Nil: "reg_prop m [] = None"
  by (simp add: reg_prop_def)

text \<open>What the scan structure holds after the properties of a node.\<close>

definition mem_found :: "memory \<Rightarrow> fdt_prop list \<Rightarrow> mem_scan \<Rightarrow> mem_scan" where
  "mem_found m ps c =
     (let c = c\<lparr>ms_memory := ms_memory c \<or> is_memory m ps\<rparr>
      in case reg_prop m ps of None \<Rightarrow> c
         | Some p \<Rightarrow> c\<lparr>ms_reg_value := prop_value p, ms_reg_len := prop_len p\<rparr>)"

lemma not_both_names: "prop_is m p ''device_type'' \<Longrightarrow> \<not> prop_is m p ''reg''"
  unfolding prop_is_def streq_def by (auto dest: cstr_at_unique simp: bytes_of_def)

lemma visit_mem_props:
  "\<exists>node'. visit_props (mem_cb self) (mem t) ps node (c, t) = Inr (node', mem_found (mem t) ps c, t)"
proof (induction ps arbitrary: node c)
  case Nil
  then show ?case by (simp add: mem_found_def is_memory_def reg_prop_def)
next
  case (Cons p ps)
  have one: "cb_prop (mem_cb self) node' p (c, t) = Inr (mem_found (mem t) [p] c, t)" for node'
    by (auto simp: mem_cb_def no_cb_def mem_prop_def mem_found_def is_memory_def reg_prop_Cons reg_prop_Nil Let_def dest: not_both_names)
  have "mem_found (mem t) ps (mem_found (mem t) [p] c) = mem_found (mem t) (p # ps) c"
    by (cases c) (auto simp: mem_found_def reg_prop_Cons reg_prop_Nil is_memory_def Let_def split: option.split)
  with Cons.IH [of _ "mem_found (mem t) [p] c"] show ?case by (simp add: one Let_def)
qed

lemma note_all_parent: "up_cells (note_all m ps node) = up_cells node" "tl (note_all m ps node) = tl node"
proof -
  have "tl (note_all m ps node) = tl node" for ps
    unfolding note_all_def
    by (induction ps arbitrary: node) (auto simp: note_cells_def Let_def split: list.splits)
  then show "up_cells (note_all m ps node) = up_cells node" "tl (note_all m ps node) = tl node"
    by (simp_all add: up_cells_def)
qed

lemma quarter: "int (4 * x) smod 4 = 0" "int (4 * x) sdiv 4 = int x"
  by (cases x; simp add: signed_modulo_int_def signed_divide_int_def)+

lemma mem_report:
  assumes "memory_node_ok (mem t) n"
  shows "report (mem_cb self) null_mem_scan (mem t) n t =
    Inr (if is_memory (mem t) (snd n) then t\<lparr>dram_size := pick self (node_ranges (mem t) n) (dram_size t)\<rparr> else t)"
proof -
  obtain node' where v: "visit_props (mem_cb self) (mem t) (snd n) (fst n) (null_mem_scan, t)
      = Inr (node', mem_found (mem t) (snd n) null_mem_scan, t)"
    using visit_mem_props by blast
  note node' = visit_props_node [OF v]
  have d: "call_node (cb_done (mem_cb self)) = mem_done self" by (simp add: mem_cb_def no_cb_def call_node_def fun_eq_iff)
  show ?thesis
  proof (cases "is_memory (mem t) (snd n)")
    case False
    then show ?thesis
      by (simp add: report_def v d mem_done_def mem_found_def [of _ _ null_mem_scan] null_mem_scan_def [THEN arg_cong, of ms_memory] Let_def
          split: option.split)
  next
    case True
    obtain p na ns where p: "reg_prop (mem t) (snd n) = Some p" "up_cells (fst n) = (na, ns)" "tl (fst n) \<noteq> []"
        "prop_value p \<noteq> 0" "0 < na + ns" "0 \<le> sint (prop_len p)" "nat (sint (prop_len p)) mod (4 * (na + ns)) = 0"
      using assms True by (auto simp: memory_node_ok_def split: option.splits prod.splits)
    define k where "k = nat (sint (prop_len p)) div (4 * (na + ns))"
    have len: "sint (prop_len p) = int (k * (4 * (na + ns)))" using p(6,7) by (simp add: k_def mod_0_imp_dvd)
    have small: "k * (4 * (na + ns)) < 2 ^ 63"
    proof -
      have "int (k * (4 * (na + ns))) < 2 ^ 31" using sint_lt [of "prop_len p"] unfolding len by simp
      then have "k * (4 * (na + ns)) < 2 ^ 31" by (metis of_nat_less_imp_less of_nat_numeral of_nat_power)
      then show ?thesis by simp
    qed
    have "sint (prop_len p) smod 4 = 0" "sint (prop_len p) sdiv 4 = int (k * (na + ns))"
      using quarter [of "k * (na + ns)"] unfolding len by (simp_all only: ac_simps)
    moreover have "cells_end (prop_value p) (prop_len p) = prop_value p + of_nat (k * (4 * (na + ns)))"
      unfolding cells_end_def calculation(2) by (simp add: algebra_simps)
    moreover have "up_cells node' = (na, ns)" "tl node' \<noteq> []" using node' note_all_parent p(2,3) by simp_all
    ultimately show ?thesis
      using True p(1,2,4) mem_regs_ranges [OF _ _ p(5) small, of node' "mem t" self "prop_value p" "dram_size t"]
      by (simp add: report_def v d mem_done_def mem_found_def [of _ _ null_mem_scan] null_mem_scan_def [THEN arg_cong, of ms_memory] Let_def
          node_ranges_def k_def kassert_def)
  qed
qed

text \<open>The ranges that the memory nodes of a tree describe, in its order, and whether one of them holds an address.\<close>

definition memory_ranges :: "memory \<Rightarrow> dt_node list \<Rightarrow> (u64 \<times> u64) list" where
  "memory_ranges m ts = concat (map (node_ranges m) (filter (is_memory m \<circ> snd) (nodes_walk m [] new_child ts)))"

definition in_range :: "u64 \<Rightarrow> u64 \<times> u64 \<Rightarrow> bool" where
  "in_range a r \<longleftrightarrow> unat (fst r) \<le> unat a \<and> unat a < unat (fst r) + unat (snd r)"

text \<open>A range that stays below the end of the address space and does not end just where the code lies.\<close>

definition clear_of :: "u64 \<Rightarrow> u64 \<times> u64 \<Rightarrow> bool" where
  "clear_of a r \<longleftrightarrow> unat (fst r) + unat (snd r) < 2 ^ 64 \<and> unat (fst r) + unat (snd r) \<noteq> unat a"

lemma pick_holds:
  assumes "\<forall>r \<in> set rs. clear_of self r"
  shows "pick self rs sz = (if filter (in_range self) rs = [] then sz else snd (last (filter (in_range self) rs)))"
  using assms
proof (induction rs arbitrary: sz)
  case (Cons r rs)
  obtain b l where r: "r = (b, l)" by (cases r)
  have lt: "unat b + unat l < 2 ^ 64" "unat b + unat l \<noteq> unat self" using Cons.prems by (simp_all add: r clear_of_def)
  have "b \<le> self \<and> self \<le> b + l \<longleftrightarrow> in_range self r"
    using lt(2) by (auto simp: in_range_def r word_le_nat_alt unat_u64_plus [OF lt(1)])
  moreover have "pick self (r # rs) sz = pick self rs (if b \<le> self \<and> self \<le> b + l then l else sz)"
    by (simp add: pick_def r)
  ultimately show ?case using Cons.IH Cons.prems by (simp add: r)
qed (simp add: pick_def)

lemma mem_reports:
  assumes "\<forall>n \<in> set ns. memory_node_ok (mem t) n"
  shows "foldE (report (mem_cb self) null_mem_scan (mem t)) ns t =
    Inr (t\<lparr>dram_size := pick self (concat (map (node_ranges (mem t)) (filter (is_memory (mem t) \<circ> snd) ns))) (dram_size t)\<rparr>)"
  using assms
proof (induction ns arbitrary: t)
  case (Cons n ns)
  let ?t = "t\<lparr>dram_size := pick self (node_ranges (mem t) n) (dram_size t)\<rparr>"
  have r: "report (mem_cb self) null_mem_scan (mem t) n t = Inr (if is_memory (mem t) (snd n) then ?t else t)"
    using Cons.prems by (intro mem_report) simp
  show ?case
    using Cons.IH [of t] Cons.IH [of ?t] Cons.prems by (simp add: r) (simp add: pick_def)
qed (simp add: pick_def)

text \<open>C26. On a well-formed blob \<^verbatim>\<open>query_mem\<close> sets the size of memory to that of the range of a memory node that holds the running code
  (the last such range in the order of the tree, should there be several), and stops with its assertion
  if no range does.  The ranges must not wrap around the address space, and none may end exactly at the code: the test of \<^verbatim>\<open>mem_done\<close> counts
  the end as inside and would take that range for the one that holds the code.\<close>

theorem query_mem_correct:
  assumes "blob_at (mem s) fdt ts" "\<forall>n \<in> set (nodes_walk (mem s) [] new_child ts). memory_node_ok (mem s) n"
    and "\<forall>r \<in> set (memory_ranges (mem s) ts). clear_of self r"
  shows "query_mem self fdt s =
    (let rs = filter (in_range self) (memory_ranges (mem s) ts)
     in if rs = [] then Inl (Assert ''mem_size > 0'') else Inr (s\<lparr>dram_size := snd (last rs)\<rparr>))"
proof -
  let ?rs = "filter (in_range self) (memory_ranges (mem s) ts)"
  let ?size = "if ?rs = [] then 0 else snd (last ?rs)"
  have "query_mem self fdt s = bindE (bindE (visit_nodes (mem_cb self) (mem s) [] new_child ts (null_mem_scan, s\<lparr>dram_size := 0\<rparr>)) (\<lambda>s. Inr (snd s)))
      (\<lambda>s. bindE (kassert (dram_size s > 0) ''mem_size > 0'') (\<lambda>_. Inr s))"
    using mem_client.fdt_scan_walk [of "(null_mem_scan, s\<lparr>dram_size := 0\<rparr>)" fdt ts self] assms(1)
    by (simp add: query_mem_def case_prod_unfold bindE_assoc)
  also have "bindE (visit_nodes (mem_cb self) (mem s) [] new_child ts (null_mem_scan, s\<lparr>dram_size := 0\<rparr>)) (\<lambda>s. Inr (snd s))
      = Inr (s\<lparr>dram_size := ?size\<rparr>)"
    using mem_client.visit_walk [of self "mem s" "[]" new_child ts "(null_mem_scan, s\<lparr>dram_size := 0\<rparr>)"]
      mem_reports [of "nodes_walk (mem s) [] new_child ts" "s\<lparr>dram_size := 0\<rparr>" self] assms(2) pick_holds [OF assms(3)]
    by (simp add: memory_ranges_def)
  finally have q: "query_mem self fdt s = bindE (kassert (?size > 0) ''mem_size > 0'') (\<lambda>_. Inr (s\<lparr>dram_size := ?size\<rparr>))"
    by simp
  have "?size > 0 \<longleftrightarrow> ?rs \<noteq> []"
  proof -
    have "snd r > 0" if "in_range self r" for r using that by (simp add: in_range_def word_less_nat_alt)
    moreover have "?rs \<noteq> [] \<Longrightarrow> in_range self (last ?rs)" using last_in_set [of ?rs] by auto
    ultimately show ?thesis by auto
  qed
  then show ?thesis unfolding q by (simp add: kassert_def Let_def)
qed

text \<open>A tree whose root holds one memory node, of 256 bytes at 0.\<close>

definition ram_blob :: memory where
  "ram_blob = (\<lambda>_. 0)(0 := 208, 1 := 13, 2 := 254, 3 := 237, 7 := 128, 11 := 40, 15 := 112, 23 := 17, 27 := 16, 43 := 1,
     51 := 1, 59 := 3, 63 := 7, 68 := 109, 69 := 101, 70 := 109, 71 := 111, 72 := 114, 73 := 121,
     79 := 3, 83 := 12, 87 := 12, 98 := 1, 103 := 2, 107 := 2, 111 := 9,
     112 := 100, 113 := 101, 114 := 118, 115 := 105, 116 := 99, 117 := 101, 118 := 95, 119 := 116, 120 := 121,
     121 := 112, 122 := 101, 124 := 114, 125 := 101, 126 := 103)"

definition ram_props :: "fdt_prop list" where
  "ram_props = [\<lparr>prop_name = 112, prop_len = 7, prop_value = 68\<rparr>, \<lparr>prop_name = 124, prop_len = 12, prop_value = 88\<rparr>]"

lemma ram_cells:
  "cell ram_blob 0 = FDT_MAGIC" "cell ram_blob 8 = 40" "cell ram_blob 12 = 112" "cell ram_blob 24 = 16"
  "cell ram_blob 40 = 1" "cell ram_blob 48 = 1" "cell ram_blob 56 = 3" "cell ram_blob 60 = 7" "cell ram_blob 64 = 0"
  "cell ram_blob 76 = 3" "cell ram_blob 80 = 12" "cell ram_blob 84 = 12" "cell ram_blob 88 = 0" "cell ram_blob 92 = 0"
  "cell ram_blob 96 = 256" "cell ram_blob 100 = 2" "cell ram_blob 104 = 2" "cell ram_blob 108 = 9"
  by (simp_all add: cell_def word_at_def load_le_4 ram_blob_def bswap_def FDT_MAGIC_def)

lemma no_name: "m a = 0 \<Longrightarrow> strlen m a = Some 0"
  using strlen_loop_cstr [of m a "[]"] by (simp add: strlen_def)

lemma ram_blob_at: "blob_at ram_blob 0 [DT_node 44 [] [DT_node 52 ram_props []]]"
proof -
  note toks = FDT_NOP_def FDT_PROP_def FDT_BEGIN_NODE_def FDT_END_NODE_def
  have e: "nodes_at ram_blob 112 108 [] 108"
    by (rule nodes_at.end_tree) (simp add: ram_cells toks)
  have s: "nodes_at ram_blob 112 100 [] 104" "nodes_at ram_blob 112 104 [] 108"
    using nodes_at.end_node [of ram_blob 100 112] nodes_at.end_node [of ram_blob 104 112] by (simp_all add: ram_cells toks)
  have p: "props_at ram_blob 112 56 ram_props 100"
    unfolding ram_props_def
    by (auto intro!: props_at.one_prop props_at.no_prop simp: ram_cells toks signed_divide_int_def)
  have l: "strlen ram_blob 44 = Some 0" "strlen ram_blob 52 = Some 0"
    by (simp_all add: no_name ram_blob_def)
  have i: "nodes_at ram_blob 112 48 [DT_node 52 ram_props []] 108"
    using nodes_at.node [of ram_blob 48 0 112 ram_props 100 "[]" 104 "[]" 108] l(2) p s by (simp add: ram_cells toks)
  have "nodes_at ram_blob 112 40 [DT_node 44 [] [DT_node 52 ram_props []]] 108"
    using nodes_at.node [of ram_blob 40 0 112 "[]" 48 "[DT_node 52 ram_props []]" 108 "[]" 108] l(1) i e
      props_at.no_prop [of ram_blob 112 48] by (simp add: ram_cells toks)
  then show ?thesis by (auto simp: blob_at_def fdt_known_def ram_cells FDT_VERSION_def)
qed

lemma ram_names:
  "prop_is ram_blob (ram_props ! 0) ''device_type''" "streq ram_blob (prop_value (ram_props ! 0)) ''memory''"
  "prop_is ram_blob (ram_props ! 1) ''reg''" "\<not> prop_is ram_blob (ram_props ! 0) ''#address-cells''"
  "\<not> prop_is ram_blob (ram_props ! 0) ''#size-cells''" "\<not> prop_is ram_blob (ram_props ! 1) ''#address-cells''"
  "\<not> prop_is ram_blob (ram_props ! 1) ''#size-cells''" "\<not> prop_is ram_blob (ram_props ! 0) ''reg''"
  by code_simp+

lemma query_mem_correct_witness: "query_mem 16 0 (idle_mach ram_blob) = Inr ((idle_mach ram_blob)\<lparr>dram_size := 256\<rparr>)"
proof -
  have m: "mem (idle_mach ram_blob) = ram_blob" by (simp add: idle_mach_def)
  have r: "reg_prop ram_blob ram_props = Some (ram_props ! 1)" "is_memory ram_blob ram_props"
    using ram_names by (simp_all add: ram_props_def reg_prop_def is_memory_def)
  have w: "nodes_walk ram_blob [] new_child [DT_node 44 [] [DT_node 52 ram_props []]] =
      [([new_child\<lparr>node_name := 44\<rparr>], []), ([new_child\<lparr>node_name := 52\<rparr>, new_child\<lparr>node_name := 44\<rparr>], ram_props)]"
    by (simp add: Let_def note_all_def)
  have n: "node_ranges ram_blob ([new_child\<lparr>node_name := 52\<rparr>, new_child\<lparr>node_name := 44\<rparr>], ram_props) = [(0, 256)]"
  proof -
    have "get_cells ram_blob (Suc (Suc 0)) 88 0 = (96, 0)" "get_cells ram_blob (Suc 0) 96 0 = (100, 256)"
      by (simp_all add: ram_cells)
    then have "ranges ram_blob 2 1 1 88 = [(0, 256)]" by (simp add: numeral_2_eq_2 cells_value_get)
    moreover have "prop_len (ram_props ! 1) = 12" "prop_value (ram_props ! 1) = 88" by (simp_all add: ram_props_def)
    ultimately show ?thesis by (simp add: node_ranges_def r up_cells_def new_child_def)
  qed
  have z: "memory_ranges ram_blob [DT_node 44 [] [DT_node 52 ram_props []]] = [(0, 256)]"
    unfolding memory_ranges_def w by (simp add: r n) (simp add: is_memory_def)
  show ?thesis
    using query_mem_correct [of "idle_mach ram_blob" 0 "[DT_node 44 [] [DT_node 52 ram_props []]]" 16] ram_blob_at
    unfolding m z w
    by (simp add: memory_node_ok_def r up_cells_def new_child_def clear_of_def in_range_def) (simp add: ram_props_def is_memory_def)
qed

section \<open>The scan and its strings\<close>

text \<open>C27. The scanner refines the walk over the tree: on every blob that encodes a tree it returns, and its callbacks
  run in the order open, properties, done, subnodes, close of each node, whatever callbacks a
  client passes that leave memory alone.\<close>

theorem fdt_scan_refines:
  assumes "fdt_reader cb" "blob_at (mem (snd s)) fdt ts"
  shows "fdt_scan fdt cb s = visit_nodes cb (mem (snd s)) [] new_child ts s"
  using fdt_reader.fdt_scan_walk [OF assms] .

lemma fdt_scan_refines_witness:
  "fdt_scan 0 (mem_cb 16) (null_mem_scan, idle_mach ram_blob) =
     visit_nodes (mem_cb 16) ram_blob [] new_child [DT_node 44 [] [DT_node 52 ram_props []]] (null_mem_scan, idle_mach ram_blob)"
proof -
  have m: "mem (snd (null_mem_scan, idle_mach ram_blob)) = ram_blob" by (simp add: idle_mach_def)
  show ?thesis
    using fdt_scan_refines [OF mem_client.fdt_reader_axioms, of "(null_mem_scan, idle_mach ram_blob)" 0 _ 16, unfolded m, OF ram_blob_at] .
qed

end
