(* ===== verification/Machine_TrapProps.thy ===== *)
theory Machine_TrapProps
  imports Machine_Emulation Machine_Init
begin

text \<open>
  What the handlers of the machine-mode runtime do for the interrupted program: traps handed to
  supervisor mode, accesses made on its behalf and their faults, misaligned loads and stores, the
  M extension, interprocessor interrupts and the protection of the runtime's memory, each against
  a description of the architecture.
\<close>


section \<open>Traps handed to supervisor mode\<close>

text \<open>What the privileged architecture asks of \<^verbatim>\<open>mstatus\<close> when a trap is taken into supervisor mode, for a
  handler in machine mode that imitates it: interrupts off, the old interrupt enable and
  privilege of the program saved, and \<^verbatim>\<open>mret\<close> going to supervisor mode.\<close>

definition s_entry_status :: "u64 \<Rightarrow> u64 \<Rightarrow> bool" where
  "s_entry_status old new \<longleftrightarrow>
     \<not> bit new 1 \<and> bit new 5 = bit old 1 \<and> bit new 8 = bit old 11
     \<and> (\<forall>i. i \<notin> {1, 5, 8, 11, 12} \<longrightarrow> bit new i = bit old i)
     \<and> EXTRACT_FIELD new MSTATUS_MPP = PRV_S"

text \<open>The state in which \<^verbatim>\<open>mret\<close> enters the handler of supervisor mode: only these registers change.\<close>

definition s_entry :: "'d hardware \<Rightarrow> u64 \<Rightarrow> u64 \<Rightarrow> u64 \<Rightarrow> u64 \<Rightarrow> ('d, 'z) mach_scheme \<Rightarrow> ('d, 'z) mach_scheme" where
  "s_entry W epc cause tval status s =
     s\<lparr>csrs := (csrs s)(STVAL := warl W STVAL (csrs s STVAL) tval, SEPC := warl W SEPC (csrs s SEPC) epc,
        SCAUSE := warl W SCAUSE (csrs s SCAUSE) cause, MEPC := warl W MEPC (csrs s MEPC) (csrs s STVEC),
        MSTATUS := warl W MSTATUS (csrs s MSTATUS) status)\<rparr>"

definition s_status :: "u64 \<Rightarrow> u64" where
  "s_status old = (old AND NOT 0x122) OR ((old * 16) AND 0x20) OR ((old div 8) AND 0x100) OR 0x800"

lemma redirect_trap_s_entry:
  "redirect_trap W epc mstatus tval s = Inl (Redirect ((s_entry W epc (csrs s MCAUSE) tval (s_status mstatus) s)\<lparr>tp := 0\<rparr>))"
  by (simp add: redirect_trap_def redirect_exit_def s_entry_def s_status_def write_csr_def Let_def mstatus_defs fun_upd_twist or.assoc)

lemma bit_masks:
  "bit (0x122 :: u64) i \<longleftrightarrow> i \<in> {1, 5, 8}" "bit (0x20 :: u64) i \<longleftrightarrow> i = 5"
  "bit (0x100 :: u64) i \<longleftrightarrow> i = 8" "bit (0x800 :: u64) i \<longleftrightarrow> i = 11"
proof -
  have "(0x122 :: u64) = push_bit 1 1 OR push_bit 5 1 OR push_bit 8 1" by simp
  then show "bit (0x122 :: u64) i \<longleftrightarrow> i \<in> {1, 5, 8}" by (auto simp only: bit_simps) auto
  have "(0x20 :: u64) = push_bit 5 1" "(0x100 :: u64) = push_bit 8 1" "(0x800 :: u64) = push_bit 11 1" by simp_all
  then show "bit (0x20 :: u64) i \<longleftrightarrow> i = 5" "bit (0x100 :: u64) i \<longleftrightarrow> i = 8" "bit (0x800 :: u64) i \<longleftrightarrow> i = 11"
    by (simp_all only: bit_simps) auto
qed

lemma bit_s_status:
  "bit (s_status old) i \<longleftrightarrow> i < 64 \<and> (if i = 1 then False else if i = 5 then bit old 1 else if i = 8 then bit old 11
     else if i = 11 then True else bit old i)"
proof -
  have e: "old * 16 = push_bit 4 old" "old div 8 = drop_bit 3 old" by (simp_all add: push_bit_eq_mult drop_bit_eq_div)
  show ?thesis
    unfolding s_status_def e by (simp only: bit_simps bit_masks) (auto dest: bit_imp_le_length)
qed

lemma mpp_bits:
  assumes "bit x 11" "\<not> bit x 12"
  shows "EXTRACT_FIELD x MSTATUS_MPP = PRV_S"
proof -
  have m: "(0x1800 :: u64) = push_bit 11 1 OR push_bit 12 1" by simp
  have "x AND 0x1800 = push_bit 11 1"
  proof (rule bit_word_eqI)
    fix i
    show "bit (x AND 0x1800) i = bit (push_bit 11 1 :: u64) i"
      unfolding m using assms by (simp only: bit_simps) auto
  qed
  then show ?thesis by (simp add: EXTRACT_FIELD_def MSTATUS_MPP_def PRV_S_def)
qed

lemma s_status_entry: "\<not> bit old 12 \<Longrightarrow> s_entry_status old (s_status old)"
  unfolding s_entry_status_def by (auto simp: bit_s_status dest: bit_imp_le_length intro!: mpp_bits)

text \<open>C29. \<^verbatim>\<open>__redirect_trap\<close>, for a trap of user or supervisor mode, leaves to \<^verbatim>\<open>mret\<close> exactly the state in
  which the privileged architecture enters the supervisor's handler: \<^verbatim>\<open>sepc\<close>, \<^verbatim>\<open>stval\<close>, \<^verbatim>\<open>scause\<close> and the status
  stack describe the trap and the program counter is \<^verbatim>\<open>stvec\<close>.  One thing more changes, which the architecture
  leaves alone: where floating point is emulated, the program's \<^verbatim>\<open>fcsr\<close>, which the trap stub keeps in \<open>tp\<close>, is lost
  and reads zero from then on.  Everything else is as it was.\<close>

theorem redirect_trap_correct:
  assumes "\<not> bit mstatus 12"
  shows "\<exists>status. redirect_trap W epc mstatus tval s = Inl (Redirect ((s_entry W epc (csrs s MCAUSE) tval status s)\<lparr>tp := 0\<rparr>))
    \<and> s_entry_status mstatus status"
  using s_status_entry [OF assms] redirect_trap_s_entry by blast

lemma redirect_trap_correct_witness:
  "\<exists>status. redirect_trap plain_hardware 0x80 0x802 0x10 (idle_mach (\<lambda>_. 0))
      = Inl (Redirect ((s_entry plain_hardware 0x80 (csrs (idle_mach (\<lambda>_. 0)) MCAUSE) 0x10 status (idle_mach (\<lambda>_. 0)))\<lparr>tp := 0\<rparr>))
    \<and> s_entry_status 0x802 status"
proof -
  have "\<not> bit (0x802 :: u64) 12" by simp
  from redirect_trap_correct [OF this] show ?thesis by blast
qed

section \<open>Accesses on behalf of the program\<close>

text \<open>The cause that a fault of an access is reported with: an instruction fetch that the runtime made as a load.\<close>

definition reported :: "u64 \<Rightarrow> u64 \<Rightarrow> u64" where
  "reported flags cause =
     (if flags = MSTATUS_MPRV OR MSTATUS_MXR
      then if cause = CAUSE_LOAD_PAGE_FAULT then CAUSE_FETCH_PAGE_FAULT else CAUSE_FETCH_ACCESS
      else cause)"

definition faults_as :: "u64 \<Rightarrow> u64 set" where
  "faults_as flags = (if flags = MSTATUS_MPRV OR MSTATUS_MXR then {CAUSE_LOAD_PAGE_FAULT, CAUSE_LOAD_ACCESS}
     else {CAUSE_LOAD_PAGE_FAULT, CAUSE_STORE_PAGE_FAULT, CAUSE_LOAD_ACCESS, CAUSE_STORE_ACCESS})"

lemma mprv_and: "(x OR MSTATUS_MPRV) AND MSTATUS_MPRV \<noteq> 0"
proof
  assume "(x OR MSTATUS_MPRV) AND MSTATUS_MPRV = 0"
  then have "MSTATUS_MPRV AND MSTATUS_MPRV = 0" by (simp add: or_and_eq_0)
  then show False by (simp add: MSTATUS_MPRV_def)
qed


text \<open>The hardware keeps the flags that the runtime sets in \<^verbatim>\<open>mstatus\<close> and the causes it writes.\<close>

definition keeps_flags :: "'d hardware \<Rightarrow> u64 \<Rightarrow> ('d, 'z) mach_scheme \<Rightarrow> bool" where
  "keeps_flags W flags s \<longleftrightarrow> warl W MSTATUS (csrs s MSTATUS) (csrs s MSTATUS OR flags) = csrs s MSTATUS OR flags
     \<and> (\<forall>old. warl W MCAUSE old CAUSE_FETCH_PAGE_FAULT = CAUSE_FETCH_PAGE_FAULT)
     \<and> (\<forall>old. warl W MCAUSE old CAUSE_FETCH_ACCESS = CAUSE_FETCH_ACCESS)"

definition same_but_trap :: "('d, 'z) mach_scheme \<Rightarrow> ('d, 'z) mach_scheme \<Rightarrow> bool" where
  "same_but_trap s t \<longleftrightarrow> t\<lparr>csrs := csrs s\<rparr> = s \<and> (\<forall>c. c \<notin> {MCAUSE, MTVAL, MSTATUS} \<longrightarrow> csrs t c = csrs s c)"

text \<open>What the program's supervisor finds after a fault of the emulation: the trap of the program's own instruction.  The
  emulated \<^verbatim>\<open>fcsr\<close> is zero, as after every redirected trap.\<close>

definition program_fault ::
    "'d hardware \<Rightarrow> u64 \<Rightarrow> u64 \<Rightarrow> u64 \<Rightarrow> u64 \<Rightarrow> ('d, 'z) mach_scheme \<Rightarrow> ('d, 'z) mach_scheme \<Rightarrow> bool" where
  "program_fault W flags cause addr mepc s s' \<longleftrightarrow>
     (\<exists>t. same_but_trap s t \<and> s' = (s_entry W mepc (reported flags cause) addr (s_status (csrs s MSTATUS)) t)\<lparr>tp := 0\<rparr>)"

lemma unpriv_fault:
  assumes fault: "mprv_translate W (csrs (set_csr W MSTATUS flags s)) (mem s) acc n addr = Inl cause"
    and flags: "flags \<in> {MSTATUS_MPRV, MSTATUS_MPRV OR MSTATUS_MXR}" and cause: "cause \<in> faults_as flags"
    and keeps: "keeps_flags W flags s"
  shows "\<exists>s'. unpriv W flags acc n addr mepc s = Inl (Redirect s') \<and> program_fault W flags cause addr mepc s s'"
proof -
  let ?s = "set_csr W MSTATUS flags s" and ?f = "(replicate 32 0)[11 := flags, 12 := mepc, 13 := csrs s MSTATUS]"
  let ?e = "enter_from_m cause addr ?s"
  define t where "t = (if flags = MSTATUS_MPRV OR MSTATUS_MXR then ?e\<lparr>csrs := (csrs ?e)(MCAUSE := reported flags cause)\<rparr> else ?e)"
  have frame: "?f ! 11 = flags" "?f ! 12 = mepc" "?f ! 13 = csrs s MSTATUS" by simp_all
  have neq: "MSTATUS_MPRV \<noteq> MSTATUS_MPRV OR MSTATUS_MXR" by (simp add: MSTATUS_MPRV_def MSTATUS_MXR_def)
  have regs: "csrs ?e MCAUSE = cause" "csrs ?e MTVAL = addr" by (simp_all add: enter_from_m_def)
  have "bit (csrs ?s MSTATUS) 17"
  proof -
    have "bit flags 17" using flags by (auto simp: MSTATUS_MPRV_def MSTATUS_MXR_def)
    then show ?thesis using keeps by (simp add: set_csr_def write_csr_def keeps_flags_def bit_or_iff)
  qed
  then have "bit (csrs ?e MSTATUS AND MSTATUS_MPRV) 17"
    by (simp add: enter_from_m_def MSTATUS_MPRV_def MSTATUS_MIE_def MSTATUS_MPIE_def bit_simps)
  then have mprv: "csrs ?e MSTATUS AND MSTATUS_MPRV \<noteq> 0" by (metis bit_0_eq bot_apply bot_bool_def)
  have "cause \<in> {CAUSE_LOAD_PAGE_FAULT, CAUSE_STORE_PAGE_FAULT, CAUSE_FETCH_ACCESS, CAUSE_LOAD_ACCESS, CAUSE_STORE_ACCESS}"
    using cause by (auto simp: faults_as_def split: if_splits)
  then have enters: "trap_from_machine_mode W ?f ?e = machine_page_fault W ?f cause ?e"
    unfolding trap_from_machine_mode_def Let_def regs by (simp only: if_True)
  have loads: "cause = CAUSE_LOAD_PAGE_FAULT \<or> cause = CAUSE_LOAD_ACCESS \<and> cause \<noteq> CAUSE_LOAD_PAGE_FAULT"
    if "flags = MSTATUS_MPRV OR MSTATUS_MXR"
    using cause that by (auto simp: faults_as_def CAUSE_LOAD_PAGE_FAULT_def CAUSE_LOAD_ACCESS_def)
  have same: "same_but_trap s t"
    by (simp add: same_but_trap_def t_def enter_from_m_def set_csr_def write_csr_def)
  have "unpriv W flags acc n addr mepc s = trap_from_machine_mode W ?f ?e"
    by (simp add: unpriv_def Let_def fault)
  also have "\<dots> = Inl (Redirect ((s_entry W mepc (reported flags cause) addr (s_status (csrs s MSTATUS)) t)\<lparr>tp := 0\<rparr>))"
  proof (cases "flags = MSTATUS_MPRV")
    case True
    then have "trap_from_machine_mode W ?f ?e = redirect_trap W mepc (csrs s MSTATUS) addr ?e"
      unfolding enters machine_page_fault_def frame regs using neq mprv by simp
    moreover have "t = ?e" "reported flags cause = cause" using True neq by (simp_all add: t_def reported_def)
    ultimately show ?thesis by (simp add: redirect_trap_s_entry regs)
  next
    case False
    then have f: "flags = MSTATUS_MPRV OR MSTATUS_MXR" using flags by simp
    have mt: "csrs (write_csr W MCAUSE v ?e) MTVAL = addr" for v
      using regs(2) by (simp add: write_csr_def)
    have "trap_from_machine_mode W ?f ?e
        = redirect_trap W mepc (csrs s MSTATUS) addr (write_csr W MCAUSE (reported flags cause) ?e)"
      unfolding enters machine_page_fault_def frame regs mt if_P [OF mprv] if_P [OF f] reported_def Let_def
      by (rule disjE [OF loads [OF f]]) simp_all
    moreover have "write_csr W MCAUSE (reported flags cause) ?e = t"
      using keeps f by (simp add: write_csr_def t_def reported_def keeps_flags_def)
    moreover have "csrs t MCAUSE = reported flags cause" using f by (simp add: t_def)
    ultimately show ?thesis by (simp add: redirect_trap_s_entry)
  qed
  finally show ?thesis using same by (auto simp: program_fault_def)
qed

text \<open>C30. A fault while the runtime loads or stores for the program ends the emulation, and the program's supervisor sees
  the fault as if the program's own instruction had taken it: at its address, with the
  address of the access and the program's status; integer and floating-point registers and memory are as before.
  Only the emulated \<^verbatim>\<open>fcsr\<close> is not: like every redirected trap, the fault clears it.\<close>

theorem emulation_fault_correct:
  assumes "keeps_flags W MSTATUS_MPRV s"
    and "mprv_translate W (csrs (set_csr W MSTATUS MSTATUS_MPRV s)) (mem s) acc n addr = Inl cause"
    and "cause \<in> faults_as MSTATUS_MPRV"
  shows "\<exists>s'. program_fault W MSTATUS_MPRV cause addr mepc s s' \<and> xregs s' = xregs s \<and> fregs s' = fregs s \<and> mem s' = mem s \<and> tp s' = 0
    \<and> (acc = Load_access \<longrightarrow> load_unpriv W n addr mepc s = Inl (Redirect s'))
    \<and> (acc = Store_access \<longrightarrow> store_unpriv W n addr v mepc s = Inl (Redirect s'))"
proof -
  obtain s' where s': "unpriv W MSTATUS_MPRV acc n addr mepc s = Inl (Redirect s')" "program_fault W MSTATUS_MPRV cause addr mepc s s'"
    using unpriv_fault [OF assms(2) _ assms(3,1)] by auto
  obtain t where t: "t\<lparr>csrs := csrs s\<rparr> = s" "xregs s' = xregs t" "fregs s' = fregs t" "mem s' = mem t" "tp s' = 0"
    using s'(2) by (auto simp: program_fault_def same_but_trap_def s_entry_def)
  have "xregs (t\<lparr>csrs := csrs s\<rparr>) = xregs t" "fregs (t\<lparr>csrs := csrs s\<rparr>) = fregs t" "mem (t\<lparr>csrs := csrs s\<rparr>) = mem t" by simp_all
  with s' t show ?thesis by (auto simp: load_unpriv_def store_unpriv_def)
qed

definition faulting_hardware :: "unit hardware" where
  "faulting_hardware = plain_hardware\<lparr>mprv_translate := (\<lambda>_ _ _ _ _. Inl CAUSE_LOAD_PAGE_FAULT)\<rparr>"

lemma emulation_fault_correct_witness:
  "\<exists>s'. program_fault faulting_hardware MSTATUS_MPRV CAUSE_LOAD_PAGE_FAULT 4097 128 (idle_mach (\<lambda>_. 0)) s'
    \<and> load_unpriv faulting_hardware 1 4097 128 (idle_mach (\<lambda>_. 0)) = Inl (Redirect s')"
proof -
  have "keeps_flags faulting_hardware MSTATUS_MPRV (idle_mach (\<lambda>_. 0))"
    by (simp add: keeps_flags_def faulting_hardware_def plain_hardware_def)
  from emulation_fault_correct [OF this, where acc = Load_access and n = 1 and addr = 4097 and mepc = 128 and cause = CAUSE_LOAD_PAGE_FAULT] show ?thesis
    by (auto simp: faulting_hardware_def faults_as_def MSTATUS_MPRV_def MSTATUS_MXR_def)
qed

section \<open>Misaligned accesses\<close>

text \<open>Byte accesses of the program at \<open>n\<close> addresses from \<open>a\<close> reach the physical addresses that \<open>tr\<close> gives: this is
  asked of the memory of the state only, where the page tables are.\<close>

definition bytes_reach ::
    "'d hardware \<Rightarrow> access \<Rightarrow> (u64 \<Rightarrow> u64) \<Rightarrow> ('d, 'z) mach_scheme \<Rightarrow> u64 \<Rightarrow> nat \<Rightarrow> bool" where
  "bytes_reach W acc tr s a n \<longleftrightarrow>
     (\<forall>i<n. mprv_translate W (csrs (set_csr W MSTATUS MSTATUS_MPRV s)) (mem s) acc 1 (a + of_nat i) = Inr (tr (a + of_nat i)))"

definition reached :: "(u64 \<Rightarrow> u64) \<Rightarrow> u64 \<Rightarrow> nat \<Rightarrow> u64 set" where
  "reached tr a n = tr ` (\<lambda>i. a + of_nat i) ` {..<n}"

text \<open>A store byte by byte must not change its own translation on the way: the accesses reach the same bytes whatever
  these bytes hold, which is so unless the program stores into the page tables that translate the store.\<close>

definition stores_reach ::
    "'d hardware \<Rightarrow> (u64 \<Rightarrow> u64) \<Rightarrow> ('d, 'z) mach_scheme \<Rightarrow> u64 \<Rightarrow> nat \<Rightarrow> bool" where
  "stores_reach W tr s a n \<longleftrightarrow>
     (\<forall>m. (\<forall>p. p \<notin> reached tr a n \<longrightarrow> m p = mem s p) \<longrightarrow> bytes_reach W Store_access tr (s\<lparr>mem := m\<rparr>) a n)"

text \<open>Memory as the program sees it.\<close>

definition seen :: "(u64 \<Rightarrow> u64) \<Rightarrow> memory \<Rightarrow> memory" where
  "seen tr m = (\<lambda>a. m (tr a))"

lemma load_byte_reach:
  assumes "bytes_reach W Load_access tr s a n" "i < n"
  shows "load_unpriv W 1 (a + of_nat i) mepc s = Inr (ucast (seen tr (mem s) (a + of_nat i)))"
  using assms by (simp add: load_unpriv_def unpriv_def bytes_reach_def seen_def Let_def)

lemma load_le_snoc: "n < 8 \<Longrightarrow> load_le (Suc n) m a = load_le n m a OR push_bit (8 * n) (ucast (m (a + of_nat n)))"
proof (induction n arbitrary: a)
  case (Suc n)
  have ih: "load_le (Suc n) m (a + 1) = load_le n m (a + 1) OR push_bit (8 * n) (ucast (m (a + 1 + of_nat n)))"
    using Suc.IH [of "a + 1"] Suc.prems by (simp del: load_le.simps)
  show ?case
    unfolding load_le.simps(2) [of "Suc n"] ih push_bit_or by (simp add: or.assoc add.assoc)
qed simp

lemma load_bytes_seen:
  assumes "bytes_reach W Load_access tr s a n" "n \<le> 8"
  shows "load_bytes W n a mepc s = Inr (load_le n (seen tr (mem s)) a)"
proof -
  have "k \<le> n \<Longrightarrow> foldE (\<lambda>i val. bindE (load_unpriv W 1 (a + of_nat i) mepc s) (\<lambda>b. Inr (val OR push_bit (8 * i) b)))
      [0..<k] 0 = Inr (load_le k (seen tr (mem s)) a)" for k
  proof (induction k)
    case (Suc k)
    then show ?case
      using load_byte_reach [OF assms(1), of k mepc] load_le_snoc [of k "seen tr (mem s)" a] assms(2)
      by (simp add: foldE_append del: load_le.simps)
  qed simp
  from this [of n] show ?thesis by (simp add: load_bytes_def)
qed

text \<open>The loads of the base instruction set: length and whether the sign is extended.\<close>

definition isa_load :: "u64 \<Rightarrow> (nat \<times> bool) option" where
  "isa_load insn =
     (if insn AND 0x7f \<noteq> 0x03 then None
      else let f = drop_bit 12 insn AND 7
           in if f = 1 then Some (2, True) else if f = 2 then Some (4, True) else if f = 3 then Some (8, True)
              else if f = 5 then Some (2, False) else if f = 6 then Some (4, False) else None)"

definition extended :: "nat \<Rightarrow> bool \<Rightarrow> u64 \<Rightarrow> u64" where
  "extended n sx v = (if sx then signed_take_bit (8 * n - 1) v else take_bit (8 * n) v)"

lemma sign_shift: "0 < k \<Longrightarrow> k \<le> 64 \<Longrightarrow> signed_drop_bit (64 - k) (push_bit (64 - k) x) = signed_take_bit (k - 1) (x :: u64)"
  by (rule bit_word_eqI, cases k) (auto simp: bit_simps min_def not_le less_Suc_eq_le dest: le_antisym)

lemma low_opcode:
  fixes insn :: u64
  assumes "insn AND 0x7f = c" "drop_bit 12 insn AND 7 = f"
  shows "insn AND 0x707f = c OR push_bit 12 f" "insn AND 3 = c AND 3"
proof -
  have m: "(0x707f :: u64) = mask 7 OR push_bit 12 (mask 3)" "(0x7f :: u64) = mask 7" "(7 :: u64) = mask 3"
    "(3 :: u64) = mask 7 AND mask 2" by (simp_all add: mask_eq_exp_minus_1)
  show "insn AND 0x707f = c OR push_bit 12 f"
    unfolding assms [symmetric] m by (rule bit_word_eqI) (simp only: bit_simps, auto)
  show "insn AND 3 = c AND 3"
    unfolding assms [symmetric] m by (rule bit_word_eqI) (simp only: bit_simps, auto)
qed

lemma decode_isa_load:
  assumes "isa_load insn = Some (n, sx)"
  shows "decode_load insn = Some \<lparr>lk_len = n, lk_shift = (if sx then 64 - 8 * n else 0), lk_fp = False, lk_insn = insn\<rparr>"
    and "insn AND 3 = 3" and "n \<in> {2, 4, 8}"
proof -
  define f where "f = drop_bit 12 insn AND 7"
  have c: "insn AND 0x7f = 3" using assms by (simp add: isa_load_def split: if_splits)
  have i: "insn AND 0x707f = 3 OR push_bit 12 f" "insn AND 3 = 3"
    using low_opcode [OF c f_def [symmetric]] by simp_all
  from i(2) show "insn AND 3 = 3" .
  have f: "f = 1 \<and> n = 2 \<and> sx \<or> f = 2 \<and> n = 4 \<and> sx \<or> f = 3 \<and> n = 8 \<and> sx \<or> f = 5 \<and> n = 2 \<and> \<not> sx \<or> f = 6 \<and> n = 4 \<and> \<not> sx"
    using assms c by (simp add: isa_load_def f_def [symmetric] Let_def split: if_splits)
  then show "n \<in> {2, 4, 8}" by auto
  from f show "decode_load insn = Some \<lparr>lk_len = n, lk_shift = (if sx then 64 - 8 * n else 0), lk_fp = False, lk_insn = insn\<rparr>"
    by (elim disjE conjE) (simp_all add: decode_load_def is_insn_def i(1) Let_def)
qed

text \<open>C33. A misaligned \<^verbatim>\<open>lh\<close>, \<^verbatim>\<open>lhu\<close>, \<^verbatim>\<open>lw\<close>, \<^verbatim>\<open>lwu\<close> or \<^verbatim>\<open>ld\<close> is emulated as the instruction set defines it: the target register
  gets the extended little-endian value that the program sees at the address through the translation in force,
  whatever physical bytes (on one page or two) it lies in, and the program goes on after the instruction.\<close>

theorem misaligned_load_correct:
  assumes "get_insn W mepc s = Inr (insn, mstatus)" "isa_load insn = Some (n, sx)"
    and "bytes_reach W Load_access tr s (csrs s MTVAL) n"
  shows "misaligned_load_trap W mepc s =
    Inr (write_csr W MEPC (mepc + 4) (SET_RD insn (extended n sx (load_le n (seen tr (mem s)) (csrs s MTVAL))) s))"
proof -
  note d = decode_isa_load [OF assms(2)]
  have n: "n \<le> 8" "0 < 8 * n" "8 * n \<le> 64" using d(3) by auto
  have "take_bit (8 * n) (load_le n m a) = load_le n m a" for m a
    by (rule bit_word_eqI) (auto simp: bit_take_bit_iff dest: load_le_bits)
  then show ?thesis
    using sign_shift [OF n(2,3)]
    by (simp add: misaligned_load_trap_def assms(1) d Let_def load_bytes_seen [OF assms(3) n(1)] finish_load_def insn_len_def
        extended_def)
qed

text \<open>
  For examples, hardware that translates with page tables in memory: a walk of three levels of 512 entries, in the format of
  Sv39 (valid bit, the rights of a leaf, the physical page number), when \<^verbatim>\<open>satp\<close> asks for it.  The rights are those of the access:
  readable, or executable under \<^verbatim>\<open>MXR\<close>; writable.
\<close>

primrec sv39_walk :: "nat \<Rightarrow> memory \<Rightarrow> u64 \<Rightarrow> u64 \<Rightarrow> u64 \<Rightarrow> u64 option" where
  "sv39_walk 0 m right table va = None"
| "sv39_walk (Suc l) m right table va =
     (let pte = load_le 8 m (table + 8 * (drop_bit (12 + 9 * l) va AND 0x1FF));
          next = push_bit 12 (drop_bit 10 pte AND 0xFFFFFFFFFFF)
      in if pte AND 1 = 0 then None
         else if pte AND 0xE = 0 then sv39_walk l m right next va
         else if pte AND right = 0 then None
         else Some (next OR take_bit (12 + 9 * l) va))"

definition sv39_translate :: "(csr \<Rightarrow> u64) \<Rightarrow> memory \<Rightarrow> access \<Rightarrow> nat \<Rightarrow> u64 \<Rightarrow> u64 + u64" where
  "sv39_translate c m acc n va =
     (let right = (if acc = Store_access then 4 else if c MSTATUS AND MSTATUS_MXR \<noteq> 0 then 0xA else 2)
      in if drop_bit 60 (c SATP) \<noteq> 8 then Inr va
         else case sv39_walk 3 m right (push_bit 12 (c SATP AND 0xFFFFFFFFFFF)) va of
                None \<Rightarrow> Inl (if acc = Store_access then CAUSE_STORE_PAGE_FAULT else CAUSE_LOAD_PAGE_FAULT)
              | Some pa \<Rightarrow> Inr pa)"

definition sv39_hardware :: "unit hardware" where
  "sv39_hardware = plain_hardware\<lparr>mprv_translate := sv39_translate\<rparr>"

text \<open>Tables at \<^verbatim>\<open>0x10000\<close>, \<^verbatim>\<open>0x11000\<close> and \<^verbatim>\<open>0x12000\<close> that map page 0 to the physical page 5 and page 1 to the physical page 9.\<close>

definition page_tables :: memory where
  "page_tables = (\<lambda>_. 0)(0x10000 := 0x01, 0x10001 := 0x44, 0x11000 := 0x01, 0x11001 := 0x48,
     0x12000 := 0xDF, 0x12001 := 0x14, 0x12008 := 0xDF, 0x12009 := 0x24)"

definition two_pages :: "u64 \<Rightarrow> u64" where
  "two_pages a = (if a < 0x1000 then a + 0x5000 else a + 0x8000)"

definition has_tables :: "memory \<Rightarrow> bool" where
  "has_tables m \<longleftrightarrow> (\<forall>p. 0x10000 \<le> p \<longrightarrow> m p = page_tables p)"

lemma load_le_8: "load_le 8 m a = ucast (m a) OR push_bit 8 (ucast (m (a + 1)) OR push_bit 8 (ucast (m (a + 2))
    OR push_bit 8 (ucast (m (a + 3)) OR push_bit 8 (load_le 4 m (a + 4)))))"
  by (simp add: numeral_eq_Suc add.assoc)

lemma table_entries:
  assumes "has_tables m"
  shows "load_le 8 m 0x10000 = 0x4401" "load_le 8 m 0x11000 = 0x4801" "load_le 8 m 0x12000 = 0x14DF" "load_le 8 m 0x12008 = 0x24DF"
  using assms unfolding has_tables_def load_le_8 load_le_4 by (simp_all add: page_tables_def)

lemma walk_pages:
  assumes "has_tables m" "right \<in> {2, 4, 0xA}"
  shows "sv39_walk 3 m right 0x10000 0x80 = Some 0x5080"
    "sv39_walk 3 m right 0x10000 0xFFE = Some 0x5FFE" "sv39_walk 3 m right 0x10000 0xFFF = Some 0x5FFF"
    "sv39_walk 3 m right 0x10000 0x1000 = Some 0x9000" "sv39_walk 3 m right 0x10000 0x1001 = Some 0x9001"
  using table_entries [OF assms(1)] assms(2) by (auto simp: numeral_3_eq_3 Let_def)

text \<open>The program runs with these tables; its word at \<^verbatim>\<open>0xFFE\<close> lies in both pages.\<close>

definition paged_state :: "u8 list \<Rightarrow> unit mach" where
  "paged_state code =
     (idle_mach (page_tables(0x5080 := code ! 0, 0x5081 := code ! 1, 0x5082 := code ! 2, 0x5083 := code ! 3,
        0x5FFE := 1, 0x9001 := 0x80)))\<lparr>csrs := (\<lambda>_. 0)(MTVAL := 0xFFE, SATP := 0x8000000000000010), xregs := (replicate 32 0)[5 := 7]\<rparr>"

lemma paged_translate:
  assumes "has_tables m" "c SATP = 0x8000000000000010"
  shows "sv39_translate c m acc n 0x80 = Inr 0x5080"
    "i < 4 \<Longrightarrow> sv39_translate c m acc n (0xFFE + of_nat i) = Inr (two_pages (0xFFE + of_nat i))"
proof -
  show "sv39_translate c m acc n 0x80 = Inr 0x5080"
    using assms by (simp add: sv39_translate_def walk_pages)
  assume "i < 4"
  then have "i = 0 \<or> i = 1 \<or> i = 2 \<or> i = 3" by auto
  then show "sv39_translate c m acc n (0xFFE + of_nat i) = Inr (two_pages (0xFFE + of_nat i))"
    using assms by (auto simp: sv39_translate_def walk_pages two_pages_def)
qed

lemma paged_tables: "has_tables (mem (paged_state code))"
  by (auto simp: has_tables_def paged_state_def idle_mach_def)

lemma paged_fetch:
  assumes "(ucast (code ! 0) :: u64) AND 3 = 3"
  shows "get_insn sv39_hardware 0x80 (paged_state code) = Inr (ucast (code ! 0) OR push_bit 8 (ucast (code ! 1)
    OR push_bit 8 (ucast (code ! 2) OR push_bit 8 (ucast (code ! 3)))), 0)"
proof -
  let ?s = "paged_state code"
  have e: "csrs ?s SATP = 0x8000000000000010" "csrs ?s MSTATUS = 0" by (simp_all add: paged_state_def)
  have t: "sv39_translate (csrs (set_csr sv39_hardware MSTATUS f ?s)) (mem ?s) acc n 0x80 = Inr 0x5080" for f acc n
    by (rule paged_translate(1) [OF paged_tables]) (simp add: set_csr_def write_csr_def e)
  have m: "mem ?s 0x5080 = code ! 0" "mem ?s 0x5081 = code ! 1" "mem ?s 0x5082 = code ! 2" "mem ?s 0x5083 = code ! 3"
    by (simp_all add: paged_state_def idle_mach_def)
  have w: "load_le 4 (mem ?s) 0x5080 = ucast (code ! 0) OR push_bit 8 (ucast (code ! 1)
    OR push_bit 8 (ucast (code ! 2) OR push_bit 8 (ucast (code ! 3))))" by (simp add: load_le_4 m [unfolded One_nat_def])
  have k: "(3 :: u64) = mask 2" by (simp add: mask_eq_exp_minus_1)
  have "(ucast (code ! 0) OR push_bit 8 y) AND 3 = ucast (code ! 0) AND (3 :: u64)" for y
    unfolding k by (rule bit_word_eqI) (simp only: bit_simps, auto)
  then show ?thesis
    using t [unfolded sv39_hardware_def] assms
    by (simp add: get_insn_def unpriv_def sv39_hardware_def e w [unfolded One_nat_def] del: push_bit_or push_bit_push_bit)
qed

text \<open>\<^verbatim>\<open>lw x5, 0(x6)\<close> at \<^verbatim>\<open>0x80\<close>, where x6 holds \<^verbatim>\<open>0xFFE\<close>.\<close>

lemma misaligned_load_correct_witness:
  "misaligned_load_trap sv39_hardware 0x80 (paged_state [0x83, 0x22, 0x03, 0x00]) =
     Inr (write_csr sv39_hardware MEPC 0x84 (SET_RD 0x32283 0xFFFFFFFF80000001 (paged_state [0x83, 0x22, 0x03, 0x00])))"
proof -
  let ?s = "paged_state [0x83, 0x22, 0x03, 0x00]"
  have e: "csrs ?s MTVAL = 0xFFE" "csrs ?s SATP = 0x8000000000000010" by (simp_all add: paged_state_def)
  have "get_insn sv39_hardware 0x80 ?s = Inr (0x32283, 0)" using paged_fetch [of "[0x83, 0x22, 0x03, 0x00]"] by simp
  moreover have "isa_load 0x32283 = Some (4, True)" by (simp add: isa_load_def)
  moreover have "bytes_reach sv39_hardware Load_access two_pages ?s (csrs ?s MTVAL) 4"
    using e by (auto simp: bytes_reach_def sv39_hardware_def set_csr_def write_csr_def plain_hardware_def
        intro!: paged_translate paged_tables)
  moreover have "extended 4 True (load_le 4 (seen two_pages (mem ?s)) (csrs ?s MTVAL)) = 0xFFFFFFFF80000001"
    by (simp add: load_le_4 seen_def two_pages_def paged_state_def idle_mach_def page_tables_def extended_def)
  ultimately show ?thesis using misaligned_load_correct [of sv39_hardware "0x80" ?s "0x32283" 0 4 True two_pages] by simp
qed

text \<open>Bytes put one after the other at the physical addresses of a range.\<close>

definition put_bytes :: "(u64 \<Rightarrow> u64) \<Rightarrow> u64 \<Rightarrow> u64 \<Rightarrow> nat \<Rightarrow> memory \<Rightarrow> memory" where
  "put_bytes tr a v n m = fold (\<lambda>i m. m(tr (a + of_nat i) := ucast (drop_bit (8 * i) v))) [0..<n] m"

lemma put_bytes_Suc:
  "put_bytes tr a v (Suc n) m = (put_bytes tr a v n m)(tr (a + of_nat n) := ucast (drop_bit (8 * n) v))"
  by (simp add: put_bytes_def)

lemma put_bytes_other: "p \<notin> tr ` (\<lambda>i. a + of_nat i) ` {..<n} \<Longrightarrow> put_bytes tr a v n m p = m p"
  by (induction n) (auto simp: put_bytes_Suc lessThan_Suc put_bytes_def)

definition distinct_bytes :: "(u64 \<Rightarrow> u64) \<Rightarrow> u64 \<Rightarrow> nat \<Rightarrow> bool" where
  "distinct_bytes tr a n \<longleftrightarrow> inj_on (\<lambda>i. tr (a + of_nat i)) {..<n}"

lemma put_bytes_byte:
  "distinct_bytes tr a n \<Longrightarrow> i < n \<Longrightarrow> put_bytes tr a v n m (tr (a + of_nat i)) = ucast (drop_bit (8 * i) v)"
proof (induction n)
  case (Suc n)
  have "distinct_bytes tr a n" using Suc.prems(1) by (auto simp: distinct_bytes_def inj_on_def)
  moreover have "tr (a + of_nat i) = tr (a + of_nat n) \<longleftrightarrow> i = n"
    using Suc.prems by (auto simp: distinct_bytes_def inj_on_def)
  ultimately show ?case using Suc by (auto simp: put_bytes_Suc)
qed simp

lemma load_le_put:
  assumes "distinct_bytes tr a n" "n \<le> 8"
  shows "load_le n (seen tr (put_bytes tr a v n m)) a = take_bit (8 * n) v"
proof -
  have "k \<le> n \<Longrightarrow> load_le k (seen tr (put_bytes tr a v n m)) a = take_bit (8 * k) v" for k
  proof (induction k)
    case (Suc k)
    have "seen tr (put_bytes tr a v n m) (a + of_nat k) = ucast (drop_bit (8 * k) v)"
      using put_bytes_byte [OF assms(1)] Suc.prems by (simp add: seen_def)
    then have "load_le (Suc k) (seen tr (put_bytes tr a v n m)) a
        = take_bit (8 * k) v OR push_bit (8 * k) (ucast (ucast (drop_bit (8 * k) v) :: u8))"
      using Suc assms(2) by (subst load_le_snoc) (simp_all del: load_le.simps)
    also have "\<dots> = take_bit (8 * Suc k) v" by (rule bit_word_eqI) (auto simp: bit_simps)
    finally show ?case .
  qed simp
  then show ?thesis by simp
qed

lemma store_bytes_put:
  assumes "stores_reach W tr s a n"
  shows "store_bytes W n a v mepc s = Inr (s\<lparr>mem := put_bytes tr a v n (mem s)\<rparr>)"
proof -
  have one: "store_unpriv W 1 (a + of_nat i) x mepc (s\<lparr>mem := put_bytes tr a v i (mem s)\<rparr>)
      = Inr (s\<lparr>mem := (put_bytes tr a v i (mem s))(tr (a + of_nat i) := ucast x)\<rparr>)" if "i < n" for i x
  proof -
    have "put_bytes tr a v i (mem s) p = mem s p" if "p \<notin> reached tr a n" for p
      using that \<open>i < n\<close> by (intro put_bytes_other) (auto simp: reached_def)
    then have "bytes_reach W Store_access tr (s\<lparr>mem := put_bytes tr a v i (mem s)\<rparr>) a n"
      using assms by (simp add: stores_reach_def)
    then show ?thesis using that
      by (simp add: store_unpriv_def unpriv_def bytes_reach_def Let_def set_csr_def write_csr_def)
  qed
  have byte: "ucast (x AND 0xFF) = (ucast x :: u8)" for x :: u64
  proof -
    have m: "(0xFF :: u64) = mask 8" by (simp add: mask_eq_exp_minus_1)
    show ?thesis unfolding m by (rule bit_word_eqI) (simp only: bit_simps, auto)
  qed
  have "k \<le> n \<Longrightarrow> foldE (\<lambda>i s. store_unpriv W 1 (a + of_nat i) (drop_bit (8 * i) v AND 0xFF) mepc s) [0..<k] s
      = Inr (s\<lparr>mem := put_bytes tr a v k (mem s)\<rparr>)" for k
    by (induction k) (simp_all add: foldE_append one [unfolded One_nat_def] byte put_bytes_Suc, simp add: put_bytes_def)
  then show ?thesis by (simp add: store_bytes_def)
qed

definition isa_store :: "u64 \<Rightarrow> nat option" where
  "isa_store insn =
     (if insn AND 0x7f \<noteq> 0x23 then None
      else let f = drop_bit 12 insn AND 7
           in if f = 1 then Some 2 else if f = 2 then Some 4 else if f = 3 then Some 8 else None)"

lemma decode_isa_store:
  assumes "isa_store insn = Some n"
  shows "decode_store insn s = Some (n, GET_RS2 insn s)" and "insn AND 3 = 3" and "n \<le> 8"
proof -
  define f where "f = drop_bit 12 insn AND 7"
  have c: "insn AND 0x7f = 0x23" using assms by (simp add: isa_store_def split: if_splits)
  have i: "insn AND 0x707f = 0x23 OR push_bit 12 f" "insn AND 3 = 3"
    using low_opcode [OF c f_def [symmetric]] by simp_all
  from i(2) show "insn AND 3 = 3" .
  have f: "f = 1 \<and> n = 2 \<or> f = 2 \<and> n = 4 \<or> f = 3 \<and> n = 8"
    using assms c by (simp add: isa_store_def f_def [symmetric] Let_def split: if_splits)
  then show "n \<le> 8" by auto
  from f show "decode_store insn s = Some (n, GET_RS2 insn s)"
    by (elim disjE conjE) (simp_all add: decode_store_def is_insn_def i(1) Let_def)
qed

text \<open>C34. A misaligned \<^verbatim>\<open>sh\<close>, \<^verbatim>\<open>sw\<close> or \<^verbatim>\<open>sd\<close> changes exactly the bytes that the program's addresses reach, in one page or across
  a page boundary, under any translation that the store does not itself rewrite; the program goes on after the instruction, and a
  misaligned load of the same length at the address reads the stored value back.\<close>

theorem misaligned_store_correct:
  assumes "get_insn W mepc s = Inr (insn, mstatus)" "isa_store insn = Some n"
    and "stores_reach W tr s (csrs s MTVAL) n" "distinct_bytes tr (csrs s MTVAL) n"
  shows "\<exists>m. misaligned_store_trap W mepc s = Inr (write_csr W MEPC (mepc + 4) (s\<lparr>mem := m\<rparr>))
    \<and> load_le n (seen tr m) (csrs s MTVAL) = take_bit (8 * n) (GET_RS2 insn s)
    \<and> (\<forall>p. p \<notin> reached tr (csrs s MTVAL) n \<longrightarrow> m p = mem s p)
    \<and> (bytes_reach W Load_access tr (s\<lparr>mem := m\<rparr>) (csrs s MTVAL) n \<longrightarrow>
         load_bytes W n (csrs s MTVAL) mepc (s\<lparr>mem := m\<rparr>) = Inr (take_bit (8 * n) (GET_RS2 insn s)))"
proof -
  note d = decode_isa_store [OF assms(2)]
  let ?m = "put_bytes tr (csrs s MTVAL) (GET_RS2 insn s) n (mem s)"
  have "misaligned_store_trap W mepc s = Inr (write_csr W MEPC (mepc + 4) (s\<lparr>mem := ?m\<rparr>))"
    by (simp add: misaligned_store_trap_def assms(1) d Let_def store_bytes_put [OF assms(3)] insn_len_def)
  moreover note load_le_put [OF assms(4) d(3)]
  moreover have "bytes_reach W Load_access tr (s\<lparr>mem := ?m\<rparr>) (csrs s MTVAL) n \<Longrightarrow>
      load_bytes W n (csrs s MTVAL) mepc (s\<lparr>mem := ?m\<rparr>) = Inr (take_bit (8 * n) (GET_RS2 insn s))"
    using load_bytes_seen [of W tr "s\<lparr>mem := ?m\<rparr>" "csrs s MTVAL" n mepc] d(3) load_le_put [OF assms(4) d(3)]
    by simp
  ultimately show ?thesis using put_bytes_other [of _ tr "csrs s MTVAL" n]
    by (intro exI [of _ ?m] conjI) (simp_all add: reached_def)
qed

text \<open>\<^verbatim>\<open>sw x5, 0(x6)\<close> at \<^verbatim>\<open>0x80\<close>, where x6 holds \<^verbatim>\<open>0xFFE\<close> and x5 holds 7: the page tables do not lie in the bytes stored.\<close>

lemma misaligned_store_correct_witness:
  "\<exists>m. misaligned_store_trap sv39_hardware 0x80 (paged_state [0x23, 0x20, 0x53, 0x00])
        = Inr (write_csr sv39_hardware MEPC 0x84 ((paged_state [0x23, 0x20, 0x53, 0x00])\<lparr>mem := m\<rparr>))
    \<and> load_le 4 (seen two_pages m) 0xFFE = 7"
proof -
  let ?s = "paged_state [0x23, 0x20, 0x53, 0x00]"
  have a: "get_insn sv39_hardware 0x80 ?s = Inr (0x532023, 0)" using paged_fetch [of "[0x23, 0x20, 0x53, 0x00]"] by simp
  have b: "isa_store 0x532023 = Some 4" by (simp add: isa_store_def)
  have e: "csrs ?s MTVAL = 0xFFE" "GET_RS2 0x532023 ?s = 7" "csrs ?s SATP = 0x8000000000000010"
    by (simp_all add: paged_state_def GET_RS2_def GET_REG_def reg_index_def SHIFT_RIGHT_def)
  have four: "{..<4 :: nat} = {0, 1, 2, 3}" by auto
  have r: "reached two_pages 0xFFE 4 = {0x5FFE, 0x5FFF, 0x9000, 0x9001}"
    unfolding reached_def four by (simp add: two_pages_def insert_commute)
  have c: "stores_reach sv39_hardware two_pages ?s (csrs ?s MTVAL) 4"
  proof (unfold stores_reach_def e(1) r, intro allI impI)
    fix m assume "\<forall>p. p \<notin> {0x5FFE, 0x5FFF, 0x9000, 0x9001} \<longrightarrow> m p = mem ?s p"
    moreover have "p \<notin> {0x5FFE, 0x5FFF, 0x9000, 0x9001}" if "0x10000 \<le> p" for p :: u64 using that by auto
    ultimately have "has_tables m" using paged_tables [of "[0x23, 0x20, 0x53, 0x00]"] unfolding has_tables_def by metis
    then show "bytes_reach sv39_hardware Store_access two_pages (?s\<lparr>mem := m\<rparr>) 0xFFE 4"
      using e(3) by (auto simp: bytes_reach_def sv39_hardware_def set_csr_def write_csr_def plain_hardware_def intro!: paged_translate)
  qed
  have d: "distinct_bytes two_pages (csrs ?s MTVAL) 4"
    unfolding e(1) distinct_bytes_def four by (simp add: two_pages_def)
  from misaligned_store_correct [OF a b c d] e(1,2) show ?thesis by auto
qed

section \<open>Multiplication and division\<close>

text \<open>The M extension by the value of \<^verbatim>\<open>funct3\<close>, on registers of any width.\<close>

definition isa_muldiv :: "u64 \<Rightarrow> 'a :: len word \<Rightarrow> 'a word \<Rightarrow> 'a word" where
  "isa_muldiv f a b =
     (if f = 0 then word_of_int (sint a * sint b)
      else if f = 1 then word_of_int (sint a * sint b div 2 ^ LENGTH('a))
      else if f = 2 then word_of_int (sint a * uint b div 2 ^ LENGTH('a))
      else if f = 3 then word_of_int (uint a * uint b div 2 ^ LENGTH('a))
      else if f = 4 then if b = 0 then - 1 else word_of_int (sint a sdiv sint b)
      else if f = 5 then if b = 0 then - 1 else a div b
      else if f = 6 then if b = 0 then a else word_of_int (sint a smod sint b)
      else if b = 0 then a else a mod b)"

text \<open>What C leaves undefined: division by zero, the quotient and the remainder of the least integer by minus one,
  and (\<^verbatim>\<open>MULHU\<close>) a product of the unsigned operands that does not fit into the signed type of twice the width.\<close>

definition c_undefined :: "u64 \<Rightarrow> 'a :: len word \<Rightarrow> 'a word \<Rightarrow> bool" where
  "c_undefined f a b \<longleftrightarrow> f \<in> {4, 5, 6, 7} \<and> (b = 0 \<or> f \<in> {4, 6} \<and> sint a = - (2 ^ (LENGTH('a) - 1)) \<and> b = - 1)
     \<or> f = 3 \<and> 2 ^ (2 * LENGTH('a) - 1) \<le> uint a * uint b"

definition undefined_in_c :: "u64 \<Rightarrow> stop" where
  "undefined_in_c f = Undefined (if f = 3 then ''multiplication'' else ''division'')"

lemma high_word: "ucast (drop_bit 64 (word_of_int x :: 128 word)) = (word_of_int (x div 2 ^ 64) :: u64)"
  unfolding drop_bit_eq_div [symmetric] by (rule bit_word_eqI) (auto simp: bit_simps)

lemma high_products:
  fixes a b :: u64
  shows "ucast (drop_bit 64 (scast a * scast b :: 128 word)) = (word_of_int (sint a * sint b div 2 ^ 64) :: u64)"
    and "ucast (drop_bit 64 (ucast a * ucast b :: 128 word)) = (word_of_int (uint a * uint b div 2 ^ 64) :: u64)"
    and "ucast (drop_bit 64 (scast a * ucast b :: 128 word)) = (word_of_int (sint a * uint b div 2 ^ 64) :: u64)"
  unfolding scast_eq [of a] scast_eq [of b] ucast_eq [of a] ucast_eq [of b] of_int_mult [symmetric] high_word
  by (rule refl)+

lemma muldiv_fields:
  fixes insn :: u64
  assumes "insn AND 0xfe00007f = c"
  shows "insn AND 0xfe00707f = c OR push_bit 12 (drop_bit 12 insn AND 7)"
proof -
  have m: "(0xfe00707f :: u64) = (mask 7 OR push_bit 25 (mask 7)) OR push_bit 12 (mask 3)"
    "(0xfe00007f :: u64) = mask 7 OR push_bit 25 (mask 7)" "(7 :: u64) = mask 3" by (simp_all add: mask_eq_exp_minus_1)
  show ?thesis
    unfolding assms [symmetric] m by (rule bit_word_eqI) (simp only: bit_simps, auto)
qed

lemma funct3_cases: "x AND 7 \<in> {0, 1, 2, 3, 4, 5, 6, 7 :: u64}"
proof -
  have "x AND 7 = x mod 8" by (rule and_low_mask_mod)
  then have "unat (x AND 7) < 8" by (simp add: unat_mod)
  then have "unat (x AND 7) \<in> {0, 1, 2, 3, 4, 5, 6, 7}" by auto
  then show ?thesis by (auto simp: unat_eq_0 dest!: arg_cong [of "unat _" _ "of_nat :: nat \<Rightarrow> u64"])
qed

lemma muldiv64_val:
  assumes "insn AND 0xfe00007f = 0x2000033" "f = drop_bit 12 insn AND 7"
  shows "mul_div_val insn a b = Some (if c_undefined f a b then Inl (undefined_in_c f) else Inr (isa_muldiv f a b))"
proof -
  have i: "insn AND 0xfe00707f = 0x2000033 OR push_bit 12 f"
    using muldiv_fields [OF assms(1)] assms(2) by simp
  have "f \<in> {0, 1, 2, 3, 4, 5, 6, 7}" using funct3_cases assms(2) by simp
  then show ?thesis
    by (elim insertE emptyE)
      (simp_all add: mul_div_val_def is_insn_def i Let_def high_products isa_muldiv_def c_undefined_def undefined_in_c_def
        sdiv_res_def srem_res_def udiv_res_def urem_res_def)
qed

lemma muldiv32_val:
  assumes "insn AND 0xfe00007f = 0x200003b" "f = drop_bit 12 insn AND 7"
  shows "mul_div32_val insn a b =
    (if f \<in> {1, 2, 3} then None
     else Some (if c_undefined f a b then Inl (undefined_in_c f) else Inr (isa_muldiv f a b)))"
proof -
  have i: "insn AND 0xfe00707f = 0x200003b OR push_bit 12 f"
    using muldiv_fields [OF assms(1)] assms(2) by simp
  have "f \<in> {0, 1, 2, 3, 4, 5, 6, 7}" using funct3_cases assms(2) by simp
  then show ?thesis
    by (elim insertE emptyE)
      (simp_all add: mul_div32_val_def is_insn_def i Let_def isa_muldiv_def c_undefined_def undefined_in_c_def
        sdiv_res_def srem_res_def udiv_res_def urem_res_def)
qed

text \<open>C35. The emulated M extension is the one of the instruction set: every encoding of the two opcodes with
  \<^verbatim>\<open>funct7\<close> 1 writes the result the instruction set defines, on 64 and on 32 bits, except
  where the C expression is undefined: the divisions that C leaves undefined, and \<^verbatim>\<open>MULHU\<close> of operands whose
  product is \<open>2 ^ 127\<close> or more, which overflows the signed \<^verbatim>\<open>__int128\<close> it is computed in.  The encodings the
  instruction set lacks trap.\<close>

theorem mul_div_correct:
  assumes "f = drop_bit 12 insn AND 7"
  shows "(insn AND 0xfe00007f = 0x2000033 \<longrightarrow>
      emulate_mul_div W mepc mstatus insn s =
        (if c_undefined f (GET_RS1 insn s) (GET_RS2 insn s) then Inl (Stop (undefined_in_c f))
         else Inr (SET_RD insn (isa_muldiv f (GET_RS1 insn s) (GET_RS2 insn s)) s)))
    \<and> (insn AND 0xfe00007f = 0x200003b \<longrightarrow>
      emulate_mul_div32 W mepc mstatus insn s =
        (let a = ucast (GET_RS1 insn s) :: u32; b = ucast (GET_RS2 insn s)
         in if f \<in> {1, 2, 3} then truly_illegal_insn W mepc mstatus insn s
            else if c_undefined f a b then Inl (Stop (undefined_in_c f))
            else Inr (SET_RD insn (scast (isa_muldiv f a b)) s)))"
  using muldiv64_val [OF _ assms] muldiv32_val [OF _ assms]
  by (simp_all add: emulate_mul_div_def emulate_mul_div32_def Let_def)

lemma mul_div_correct_witness:
  "emulate_mul_div plain_hardware 128 0 0x2004033 (idle_mach (\<lambda>_. 0)) = Inl (Stop (Undefined ''division''))"
proof -
  let ?s = "idle_mach (\<lambda>_. 0)"
  have "GET_RS2 0x2004033 ?s = 0" by (simp add: GET_RS2_def GET_REG_def reg_index_def SHIFT_RIGHT_def idle_mach_def)
  then show ?thesis
    using mul_div_correct [of 4 "0x2004033" plain_hardware 128 0 ?s] by (simp add: c_undefined_def undefined_in_c_def)
qed

section \<open>Interprocessor interrupts\<close>

definition targets :: "u64 \<Rightarrow> u64 \<Rightarrow> nat list" where
  "targets m disabled = filter (\<lambda>i. \<not> bit disabled i) (harts_of m)"

definition interrupted :: "u64 \<Rightarrow> u64 \<Rightarrow> u32 \<Rightarrow> nat \<Rightarrow> hls_t \<Rightarrow> hls_t" where
  "interrupted m disabled event i h =
     (if bit m i \<and> \<not> bit disabled i then h\<lparr>mipi_pending := mipi_pending h OR event\<rparr> else h)"

lemma send_ipi_step:
  assumes "i < length (hlss s)" "length (hlss s) \<le> 64"
  shows "send_ipi W (of_nat i) event s =
    Inr (if bit (disabled_hart_mask s) i then s
         else s\<lparr>hlss := (hlss s)[i := (hlss s ! i)\<lparr>mipi_pending := mipi_pending (hlss s ! i) OR event\<rparr>],
                dev := mmio_write W 4 (ipi (hlss s ! i)) 1 (dev s)\<rparr>)"
proof -
  have i: "unat (of_nat i :: u64) = i" using assms by (simp add: unat_u64_of_nat)
  have "drop_bit i (disabled_hart_mask s) AND 1 \<noteq> 0 \<longleftrightarrow> bit (disabled_hart_mask s) i"
    by (simp add: and_one_eq odd_iff_mod_2_eq_one bit_iff_odd_drop_bit)
  then show ?thesis
    using assms by (simp add: send_ipi_def i other_hls_def upd_hls_def dev_write_def)
qed

lemma send_ipi_list:
  assumes "\<forall>i \<in> set is. i < length (hlss s)" "length (hlss s) \<le> 64" "distinct is"
  shows "foldE (\<lambda>i. send_ipi W (of_nat i) event) is s =
    Inr (s\<lparr>hlss := map (\<lambda>i. if i \<in> set is \<and> \<not> bit (disabled_hart_mask s) i
                            then (hlss s ! i)\<lparr>mipi_pending := mipi_pending (hlss s ! i) OR event\<rparr> else hlss s ! i) [0..<length (hlss s)],
           dev := fold (\<lambda>i. mmio_write W 4 (ipi (hlss s ! i)) 1) (filter (\<lambda>i. \<not> bit (disabled_hart_mask s) i) is) (dev s)\<rparr>)"
  using assms
proof (induction "is" arbitrary: s)
  case Nil
  then show ?case by (simp add: map_nth)
next
  case (Cons i "is")
  let ?t = "if bit (disabled_hart_mask s) i then s
       else s\<lparr>hlss := (hlss s)[i := (hlss s ! i)\<lparr>mipi_pending := mipi_pending (hlss s ! i) OR event\<rparr>],
              dev := mmio_write W 4 (ipi (hlss s ! i)) 1 (dev s)\<rparr>"
  have t: "length (hlss ?t) = length (hlss s)" "disabled_hart_mask ?t = disabled_hart_mask s" by simp_all
  have ipis: "ipi (hlss ?t ! j) = ipi (hlss s ! j)" for j
    using Cons.prems(1) by (cases "i = j") auto
  have "i \<notin> set is" using Cons.prems(3) by simp
  then show ?case
    using Cons.IH [of ?t] Cons.prems send_ipi_step [of i s W event]
    by (auto simp: nth_list_update ipis intro!: nth_equalityI)
qed

text \<open>C36. A software interrupt reaches every hart of the mask that is not disabled, and no other: its event
  is added to the pending ones and its interrupt register is written, once each.\<close>

theorem send_ipis_correct:
  assumes "\<forall>i. bit m i \<longrightarrow> i < length (hlss s)" "length (hlss s) \<le> 64"
  shows "send_ipis W m IPI_SOFT s =
    Inr (s\<lparr>hlss := map (\<lambda>i. interrupted m (disabled_hart_mask s) IPI_SOFT i (hlss s ! i)) [0..<length (hlss s)],
           dev := fold (\<lambda>i. mmio_write W 4 (ipi (hlss s ! i)) 1) (targets m (disabled_hart_mask s)) (dev s)\<rparr>)"
proof -
  have "set (harts_of m) = {i. bit m i}" by (auto simp: harts_of_def dest: bit_imp_le_length)
  moreover have "distinct (harts_of m)" by (simp add: harts_of_def)
  ultimately show ?thesis
    using send_ipi_list [of "harts_of m" s W IPI_SOFT] assms
    by (simp add: send_ipis_def targets_def interrupted_def cong: if_cong)
qed

lemma send_ipis_correct_witness:
  "\<exists>s'. send_ipis plain_hardware 5 IPI_SOFT (idle_mach (\<lambda>_. 0)) = Inr s'
    \<and> map mipi_pending (hlss s') = [1, 0, 1, 0, 0, 0, 0, 0]"
proof -
  have l: "hlss (idle_mach (\<lambda>_. 0)) = replicate 8 null_hls" by (simp add: idle_mach_def MAX_HARTS_def)
  have m: "\<forall>i. bit (5 :: u64) i \<longrightarrow> i < 8"
  proof (intro allI impI)
    fix i assume "bit (5 :: u64) i"
    moreover have "(5 :: u64) = take_bit 8 5" by simp
    ultimately show "i < 8" by (metis bit_take_bit_iff)
  qed
  have d: "disabled_hart_mask (idle_mach (\<lambda>_. 0)) = 0" by (simp add: idle_mach_def)
  show ?thesis
    using send_ipis_correct [of 5 "idle_mach (\<lambda>_. 0)" plain_hardware] m
    by (simp add: l d comp_def interrupted_def null_hls_def IPI_SOFT_def upt_rec numeral_nat bit_1_iff)
qed

section \<open>Memory protection\<close>

text \<open>The check of physical memory protection as the privileged architecture describes it, for
  an access of one byte from supervisor or user mode: the first entry that matches the address decides.\<close>

definition pmp_cfg :: "(csr \<Rightarrow> u64) \<Rightarrow> nat \<Rightarrow> u64" where
  "pmp_cfg c i = drop_bit (8 * i) (c PMPCFG0) AND 0xFF"

definition pmp_matches :: "(csr \<Rightarrow> u64) \<Rightarrow> u64 \<Rightarrow> nat \<Rightarrow> bool" where
  "pmp_matches c a i =
     (let p = c (PMPADDR i); w = a div 4; mode = drop_bit 3 (pmp_cfg c i) AND 3; ones = p XOR (p + 1)
      in if mode = 1 then (i = 0 \<or> c (PMPADDR (i - 1)) \<le> w) \<and> w < p
         else if mode = 2 then w = p
         else if mode = 3 then w AND NOT ones = p AND NOT ones
         else False)"

definition pmp_grants :: "(csr \<Rightarrow> u64) \<Rightarrow> u64 \<Rightarrow> u64 \<Rightarrow> bool" where
  "pmp_grants c right a =
     (case find (pmp_matches c a) [0..<8] of None \<Rightarrow> False | Some i \<Rightarrow> pmp_cfg c i AND right = right)"

text \<open>Registers of 54 address bits, all of them writable.\<close>

definition pmp_registers :: "'d hardware \<Rightarrow> bool" where
  "pmp_registers W \<longleftrightarrow> has_pmp W \<and> (\<forall>i old v. warl W (PMPADDR i) old v = take_bit 54 v) \<and> (\<forall>old v. warl W PMPCFG0 old v = v)"

text \<open>C37. After \<^verbatim>\<open>protect_memory\<close> the boot loader's own memory, from \<^verbatim>\<open>_ftext\<close> to \<^verbatim>\<open>_end\<close>, can be neither read, written
  nor executed from supervisor or user mode, and every other physical address can.\<close>

theorem protect_memory_correct:
  assumes "pmp_registers W" "right \<in> {PMP_R, PMP_W, PMP_X}" "unat a < 2 ^ 56"
    and "unat (ftext I) < 2 ^ 56" "unat (image_end I) < 2 ^ 56" "4 dvd unat (ftext I)" "4 dvd unat (image_end I)"
  shows "pmp_grants (csrs (protect_memory W I s)) right a \<longleftrightarrow> \<not> (ftext I \<le> a \<and> a < image_end I)"
proof -
  have small: "take_bit 54 (drop_bit 2 x) = drop_bit 2 x" if "unat x < 2 ^ 56" for x :: u64
  proof -
    have "unat (drop_bit 2 x) < 2 ^ 54" using that by (simp add: drop_bit_eq_div unat_div)
    then show ?thesis by (rule take_bit_small)
  qed
  let ?c = "csrs (protect_memory W I s)"
  have c: "?c PMPCFG0 = 0x1F0800" "?c (PMPADDR 0) = drop_bit 2 (ftext I)" "?c (PMPADDR 1) = drop_bit 2 (image_end I)"
    "?c (PMPADDR 2) = mask 54"
    using assms(1) small [OF assms(4)] small [OF assms(5)]
    by (simp_all add: protect_memory_def pmp_probe_def pmp_registers_def write_csr_def Let_def numeral_eq_Suc PMP_TOR_def
        PMP_NAPOT_def PMP_R_def PMP_W_def PMP_X_def take_bit_minus_one_eq_mask)
  have cfg: "pmp_cfg ?c 0 = 0" "pmp_cfg ?c 1 = 8" "pmp_cfg ?c 2 = 0x1F"
    by (simp_all add: pmp_cfg_def c)
  have w: "unat (a div 4) = unat a div 4" "unat (a div 4) < 2 ^ 54" using assms(3) by (simp_all add: unat_div)
  have m0: "\<not> pmp_matches ?c a 0" by (simp add: pmp_matches_def cfg)
  have m1: "pmp_matches ?c a 1 \<longleftrightarrow> ftext I \<le> a \<and> a < image_end I"
  proof -
    have "unat (ftext I) div 4 \<le> unat a div 4 \<longleftrightarrow> unat (ftext I) \<le> unat a" "unat a div 4 < unat (image_end I) div 4 \<longleftrightarrow> unat a < unat (image_end I)"
      using assms(6,7) by (auto elim!: dvdE)
    then show ?thesis
      by (simp add: pmp_matches_def cfg [unfolded One_nat_def] c [unfolded One_nat_def] Let_def word_le_nat_alt word_less_nat_alt drop_bit_eq_div unat_div)
  qed
  have m2: "pmp_matches ?c a 2"
  proof -
    have ones: "(mask 54 :: u64) XOR (mask 54 + 1) = mask 55" by (simp add: mask_eq_exp_minus_1)
    have "take_bit 54 (a div 4) = a div 4"
      using w(2) by (rule take_bit_small)
    then have lt: "bit (a div 4) i \<Longrightarrow> i < 54" for i by (metis bit_take_bit_iff)
    have "a div 4 AND NOT (mask 55) = 0" "(mask 54 :: u64) AND NOT (mask 55) = 0"
      by (rule bit_word_eqI, auto simp: bit_simps dest: lt)+
    then show ?thesis by (simp add: pmp_matches_def cfg c(4) ones)
  qed
  have "[0..<8] = [0, 1, 2] @ [3..<8]" by (simp add: upt_rec)
  then have "find (pmp_matches ?c a) [0..<8] = Some (if ftext I \<le> a \<and> a < image_end I then 1 else 2)"
    using m0 m1 m2 by (simp add: find_append)
  moreover have "pmp_cfg ?c 1 AND right \<noteq> right" "pmp_cfg ?c 2 AND right = right"
    using assms(2) unfolding cfg by (auto simp: PMP_R_def PMP_W_def PMP_X_def)
  ultimately show ?thesis by (auto simp: pmp_grants_def)
qed


definition pmp_hardware :: "unit hardware" where
  "pmp_hardware = plain_hardware\<lparr>warl := (\<lambda>c _ v. case c of PMPADDR _ \<Rightarrow> take_bit 54 v | _ \<Rightarrow> v)\<rparr>"

lemma protect_memory_correct_witness:
  "\<not> pmp_grants (csrs (protect_memory pmp_hardware \<lparr>payload_start = 0x80200000, payload_end = 0x80400000,
       ftext = 0x80000000, image_end = 0x80010000\<rparr> (idle_mach (\<lambda>_. 0)))) PMP_R 0x80000010"
proof -
  have "pmp_registers pmp_hardware" by (simp add: pmp_registers_def pmp_hardware_def plain_hardware_def)
  from protect_memory_correct [OF this, of PMP_R "0x80000010" "\<lparr>payload_start = 0x80200000, payload_end = 0x80400000,
       ftext = 0x80000000, image_end = 0x80010000\<rparr>"] show ?thesis by simp
qed

end
