(* ===== verification/Machine_Types.thy ===== *)
theory Machine_Types
  imports Machine_Emulation Machine_TrapProps
begin

text \<open>
  Type soundness of the trap handlers: the state they work on keeps its shape - a frame of 32 integer and
  32 floating-point registers, one storage block for each hart - and no handler uses a hart number outside
  its table.
\<close>

section \<open>Well-formed states\<close>

text \<open>What no handler may change, and when it is in order.\<close>

definition shape :: "('d, 'z) mach_scheme \<Rightarrow> nat \<times> nat \<times> nat \<times> u64 \<times> u64" where
  "shape s = (length (xregs s), length (fregs s), length (hlss s), csrs s MHARTID, hart_mask s)"

definition mach_ok :: "('d, 'z) mach_scheme \<Rightarrow> bool" where
  "mach_ok s \<longleftrightarrow> length (xregs s) = 32 \<and> length (fregs s) = 32 \<and> length (hlss s) = MAX_HARTS
     \<and> unat (csrs s MHARTID) < MAX_HARTS \<and> (\<forall>i. bit (hart_mask s) i \<longrightarrow> i < MAX_HARTS)"

lemma shape_ok: "shape s' = shape s \<Longrightarrow> mach_ok s' = mach_ok s"
  by (simp add: shape_def mach_ok_def)

lemma shape_simps [simp]:
  "c \<noteq> MHARTID \<Longrightarrow> shape (write_csr W c v s) = shape s"
  "c \<noteq> MHARTID \<Longrightarrow> shape (set_csr W c v s) = shape s"
  "c \<noteq> MHARTID \<Longrightarrow> shape (clear_csr W c v s) = shape s"
  "shape (dev_write W n a v s) = shape s"
  "shape (set_xreg r v s) = shape s" "shape (SET_RD insn v s) = shape s"
  "shape (s\<lparr>mem := m\<rparr>) = shape s" "shape (s\<lparr>tp := t\<rparr>) = shape s" "shape (s\<lparr>htif_lock := b\<rparr>) = shape s"
  "shape (s\<lparr>htif_console_buf := w\<rparr>) = shape s" "shape (s\<lparr>dev := d\<rparr>) = shape s"
  "shape (upd_hls i f s) = shape s"
  "shape (SET_FS_DIRTY W s) = shape s" "shape (SET_F64_RD W insn v' s) = shape s" "shape (SET_F32_RD W insn v'' s) = shape s"
  "shape (SET_FCSR W v s) = shape s" "shape (SET_FRM W v s) = shape s" "shape (SET_FFLAGS W v s) = shape s"
  "shape (raiseFlags fl s) = shape s" "shape (put_f32 W insn r32 s) = shape s" "shape (put_f64 W insn r64 s) = shape s"
  "shape (finish_load W k v s) = shape s" "shape (enter_from_m cause a s) = shape s"
  by (simp_all add: shape_def write_csr_def set_csr_def clear_csr_def dev_write_def set_xreg_def SET_RD_def upd_hls_def SET_FS_DIRTY_def
      SET_F64_RD_def SET_F32_RD_def SET_FCSR_def SET_FRM_def SET_FFLAGS_def raiseFlags_def put_f32_def put_f64_def finish_load_def
      enter_from_m_def)

lemma dev_read_shape: "dev_read W n a s = (v, s') \<Longrightarrow> shape s' = shape s"
  by (auto simp: dev_read_def shape_def split: prod.splits)

section \<open>Outcomes\<close>

text \<open>The only undefined behaviour that a handler may run into is that of the emulated M extension: a division that C leaves
  undefined, or the overflow of the signed 128-bit product in \<^verbatim>\<open>MULHU\<close>.\<close>

definition stops_well :: "stop \<Rightarrow> bool" where
  "stops_well e \<longleftrightarrow> (\<forall>what. e = Undefined what \<longrightarrow> what \<in> {''division'', ''multiplication''})"

definition safeR :: "('a \<Rightarrow> bool) \<Rightarrow> 'a res \<Rightarrow> bool" where
  "safeR Q r = (case r of Inl e \<Rightarrow> stops_well e | Inr x \<Rightarrow> Q x)"

definition safe :: "('s \<Rightarrow> bool) \<Rightarrow> ('a \<Rightarrow> bool) \<Rightarrow> ('s, 'a) handler \<Rightarrow> bool" where
  "safe J Q r = (case r of Inl (Stop e) \<Rightarrow> stops_well e | Inl (Redirect s) \<Rightarrow> J s | Inr x \<Rightarrow> Q x)"

lemma safe_simps [simp]:
  "safeR Q (Inr x) = Q x" "safeR Q (Inl e) = stops_well e"
  "safe J Q (Inr x) = Q x" "safe J Q (Inl (Redirect s)) = J s" "safe J Q (Inl (Stop e)) = stops_well e"
  "stops_well Diverge" "stops_well (Panic w)" "stops_well (Assert w)" "stops_well (Shutdown c)" "stops_well (Undefined ''division'')" "stops_well (Undefined ''multiplication'')"
  by (simp_all add: safe_def safeR_def stops_well_def)

lemma safeR_bind: "safeR P m \<Longrightarrow> (\<And>x. P x \<Longrightarrow> safeR Q (f x)) \<Longrightarrow> safeR Q (bindE m f)"
  by (cases m) simp_all

lemma safe_bind: "safe J P m \<Longrightarrow> (\<And>x. P x \<Longrightarrow> safe J Q (f x)) \<Longrightarrow> safe J Q (bindE m f)"
  by (cases m) (auto simp: safe_def split: exit.splits)

lemma safe_lift: "safeR Q r \<Longrightarrow> safe J Q (liftE r)"
  by (cases r) simp_all

lemma safeR_fold: "I s \<Longrightarrow> (\<And>x s. x \<in> set xs \<Longrightarrow> I s \<Longrightarrow> safeR I (f x s)) \<Longrightarrow> safeR I (foldE f xs s)"
proof (induction xs arbitrary: s)
  case (Cons x xs)
  have "safeR I (f x s)" using Cons.prems by simp
  then show ?case by (simp, rule safeR_bind) (use Cons in auto)
qed simp

lemma safe_fold: "I s \<Longrightarrow> (\<And>x s. x \<in> set xs \<Longrightarrow> I s \<Longrightarrow> safe J I (f x s)) \<Longrightarrow> safe J I (foldE f xs s)"
proof (induction xs arbitrary: s)
  case (Cons x xs)
  have "safe J I (f x s)" using Cons.prems by simp
  then show ?case by (simp, rule safe_bind) (use Cons in auto)
qed simp

lemma safeR_kassert: "safeR (\<lambda>_. True) (kassert c w)"
  by (simp add: kassert_def)

section \<open>Consoles\<close>

abbreviation same :: "('d, 'z) mach_scheme \<Rightarrow> ('d, 'z) mach_scheme \<Rightarrow> bool" where
  "same s s' \<equiv> shape s' = shape s"

abbreviation same_snd :: "('d, 'z) mach_scheme \<Rightarrow> 'a \<times> ('d, 'z) mach_scheme \<Rightarrow> bool" where
  "same_snd s r \<equiv> shape (snd r) = shape s"

lemma dev_read_same [simp]: "shape (snd (dev_read W n a s)) = shape s"
  using dev_read_shape [of W n a s "fst (dev_read W n a s)" "snd (dev_read W n a s)"] by simp

lemma check_fromhost_safe: "safeR (same s) (check_fromhost W s)"
  unfolding check_fromhost_def read_fromhost_def
  by (auto simp: Let_def dest!: dev_read_shape split: prod.splits intro!: safeR_bind [OF safeR_kassert])

lemma wait_tohost_safe:
  assumes "wait_tohost W s = Some r"
  shows "safeR (same s) r"
proof (rule wait_tohost.raw_induct [where P = "\<lambda>W s r. safeR (same s) r", OF _ assms])
  fix rec :: "'a hardware \<Rightarrow> ('a, 'b) mach_scheme \<Rightarrow> ('a, 'b) mach_scheme res option"
    and W :: "'a hardware" and s :: "('a, 'b) mach_scheme" and r
  assume 1: "\<And>W s r. rec W s = Some r \<Longrightarrow> safeR (same s) r"
    "(let (th, s) = read_tohost W s in if th \<noteq> 0
      then (case check_fromhost W s of Inl e \<Rightarrow> Some (Inl e) | Inr s \<Rightarrow> rec W s) else Some (Inr s)) = Some r"
  obtain th s1 where r: "read_tohost W s = (th, s1)" "shape s1 = shape s"
    by (cases "read_tohost W s") (auto simp: read_tohost_def dest: dev_read_shape)
  show "safeR (same s) r"
  proof (cases "check_fromhost W s1")
    case (Inl e)
    then have "stops_well e" using check_fromhost_safe [of s1 W] by simp
    moreover have "r = Inl e \<or> r = Inr s1" using 1(2) r(1) Inl by (simp split: if_splits)
    ultimately show ?thesis using r(2) by auto
  next
    case (Inr s2)
    then have "shape s2 = shape s" using check_fromhost_safe [of s1 W] r by simp
    then show ?thesis using 1(1) [of W s2] 1(2) r Inr by (auto split: if_splits)
  qed
qed

lemma finish_safe: "(\<And>r'. r = Some r' \<Longrightarrow> safeR Q r') \<Longrightarrow> safeR Q (finish r)"
  by (cases r) (simp_all add: finish_def)

lemma set_tohost_safe: "safeR (same s) (set_tohost W d c p s)"
  unfolding set_tohost_def
  by (rule safeR_bind [where P = "same s"], rule finish_safe, erule wait_tohost_safe) simp

lemma with_htif_lock_safe:
  assumes "\<And>s'. shape s' = shape s \<Longrightarrow> safeR (same_snd s) (f s')"
  shows "safeR (same_snd s) (with_htif_lock f s)"
  unfolding with_htif_lock_def
  by (auto intro!: safeR_bind [OF assms] split: prod.splits)

lemma htif_console_getchar_safe: "safeR (same_snd s) (htif_console_getchar W s)"
  unfolding htif_console_getchar_def
proof (rule with_htif_lock_safe)
  fix s' :: "('a, 'b) mach_scheme"
  assume e: "shape s' = shape s"
  have c: "safeR (same s) (check_fromhost W s')" using check_fromhost_safe [of s' W] e by simp
  have t: "safeR (same s) (set_tohost W d c p (s''\<lparr>htif_console_buf := v\<rparr>))" if "shape s'' = shape s" for s'' d c p v
    using set_tohost_safe [of "s''\<lparr>htif_console_buf := v\<rparr>" W] that by simp
  show "safeR (same_snd s) (bindE (check_fromhost W s') (\<lambda>s. let ch = htif_console_buf s
       in if sint ch \<ge> 0
          then bindE (set_tohost W 1 0 0 (s\<lparr>htif_console_buf := - 1\<rparr>)) (\<lambda>s. Inr (ch - 1, s))
          else Inr (ch - 1, s)))"
    by (rule safeR_bind [OF c]) (auto simp: Let_def intro!: safeR_bind [OF t])
qed

lemma htif_console_putchar_safe: "safeR (same_snd s) (htif_console_putchar W ch s)"
  unfolding htif_console_putchar_def
proof (rule with_htif_lock_safe)
  fix s' :: "('a, 'b) mach_scheme"
  assume e: "shape s' = shape s"
  have t: "safeR (same s) (set_tohost W d c p s')" for d c p using set_tohost_safe [of s' W] e by simp
  show "safeR (same_snd s) (bindE (set_tohost W 1 1 (ucast ch) s') (\<lambda>s. Inr ((), s)))"
    by (rule safeR_bind [OF t]) simp
qed

lemma htif_poweroff_safe: "safeR Q (htif_poweroff W s)"
proof -
  have t: "safeR (same_snd s) (bindE (set_tohost W d c p s') (\<lambda>s. Inr ((), s)))" if "shape s' = shape s" for d c p s'
    by (rule safeR_bind [OF set_tohost_safe]) (use that in simp)
  have "safeR (same_snd s) (with_htif_lock (\<lambda>s. bindE (set_tohost W 0 0 1 s) (\<lambda>s. Inr ((), s))) s)"
    by (rule with_htif_lock_safe) (rule t)
  then show ?thesis unfolding htif_poweroff_def by (rule safeR_bind) simp
qed

lemma uart_putchar_same: "uart_putchar W ch s = Some s' \<Longrightarrow> shape s' = shape s"
  by (rule uart_putchar.raw_induct [where P = "\<lambda>W ch s s'. shape s' = shape s"])
    (auto simp: Let_def dest!: dev_read_shape split: prod.splits if_splits)

lemma wait_16550_same: "wait_16550 W s = Some s' \<Longrightarrow> shape s' = shape s"
  by (rule wait_16550.raw_induct [where P = "\<lambda>W s s'. shape s' = shape s"])
    (auto simp: Let_def dest!: dev_read_shape split: prod.splits if_splits)

lemma wait_litex_same: "wait_litex W s = Some s' \<Longrightarrow> shape s' = shape s"
  by (rule wait_litex.raw_induct [where P = "\<lambda>W s s'. shape s' = shape s"])
    (auto simp: Let_def dest!: dev_read_shape split: prod.splits if_splits)

lemma pending_safe: "(\<And>x. r = Some x \<Longrightarrow> Q x) \<Longrightarrow> safeR Q (pending r)"
  by (cases r) (simp_all add: pending_def)

lemma putchar_safe: "safeR (same s) (mcall_console_putchar W ch s)"
proof -
  have h: "safeR (same s) (bindE (htif_console_putchar W ch s) (\<lambda>(_, s). Inr s))"
    by (rule safeR_bind [OF htif_console_putchar_safe]) auto
  show ?thesis unfolding mcall_console_putchar_def uart16550_putchar_def uart_litex_putchar_def
    using h by (auto intro!: pending_safe dest: uart_putchar_same wait_16550_same wait_litex_same)
qed

lemma printm_safe: "safeR (same s) (printm W fmt vl s)"
proof -
  have "safeR (same s) (putstring W bs s)" for bs
    unfolding putstring_def
  proof (rule safeR_fold)
    show "safeR (same s) (mcall_console_putchar W c s')" if "shape s' = shape s" for c s'
      using putchar_safe [of s' W c] that by simp
  qed simp
  then show ?thesis by (simp add: printm_def split: prod.splits)
qed

lemma getchar_safe: "safeR (same_snd s) (mcall_console_getchar W s)"
proof -
  have h: "safeR (same_snd s) (bindE (htif_console_getchar W s) (\<lambda>(c, s). Inr (scast c :: u64, s)))"
    by (rule safeR_bind [OF htif_console_getchar_safe]) auto
  show ?thesis unfolding mcall_console_getchar_def uart_getchar_def uart16550_getchar_def uart_litex_getchar_def
    using h by (auto simp: Let_def dest!: dev_read_shape split: prod.splits)
qed

section \<open>Interrupts between harts\<close>

lemma other_hls_safe: "unat h < length (hlss s) \<Longrightarrow> safeR (\<lambda>_. True) (other_hls h s)"
  by (simp add: other_hls_def)

lemma ok_hls: "mach_ok s0 \<Longrightarrow> shape s = shape s0 \<Longrightarrow> i < MAX_HARTS \<Longrightarrow> safeR (\<lambda>_. True) (other_hls (of_nat i) s)"
  by (rule other_hls_safe) (auto simp: shape_def mach_ok_def MAX_HARTS_def unat_of_nat take_bit_nat_eq_self)

lemma ok_this: "mach_ok s0 \<Longrightarrow> shape s = shape s0 \<Longrightarrow> safeR (\<lambda>_. True) (this_hls s)"
  unfolding this_hls_def by (rule other_hls_safe) (auto simp: shape_def mach_ok_def)

lemma wait_ipi_same: "wait_ipi W a b c s = Some r \<Longrightarrow> shape (snd r) = shape s"
  by (rule wait_ipi.raw_induct [where P = "\<lambda>W a b c s r. shape (snd r) = shape s"])
    (auto simp: Let_def dest!: dev_read_shape split: prod.splits if_splits)

lemma send_ipi_safe:
  assumes "mach_ok s0" "shape s = shape s0" "i < MAX_HARTS"
  shows "safeR (same s0) (send_ipi W (of_nat i) event s)"
  unfolding send_ipi_def using assms(2)
  by (auto simp: Let_def intro!: safeR_bind [OF ok_hls [OF assms]])

lemma send_ipis_safe:
  fixes s s0 :: "('d, 'z) mach_scheme"
  assumes ok: "mach_ok s0" and s: "shape s = shape s0" and m: "\<And>i. bit m i \<Longrightarrow> i < MAX_HARTS"
  shows "safeR (same s0) (send_ipis W m event s)"
proof -
  have small: "i < MAX_HARTS" if "i \<in> set (harts_of m)" for i
    using that by (intro m) (simp add: harts_of_def)
  have first: "safeR (same s0) (foldE (\<lambda>i. send_ipi W (of_nat i) event) (harts_of m) s)"
    by (rule safeR_fold) (use s small send_ipi_safe [OF ok] in auto)
  have wait: "safeR (same_snd s0) (bindE (other_hls (of_nat i) s') (\<lambda>h. bindE (this_hls s') (\<lambda>me.
      pending (wait_ipi W (ipi h) (ipi me) incoming s'))))" if "i \<in> set (harts_of m)" "shape s' = shape s0" for i s' incoming
    by (rule safeR_bind [OF ok_hls [OF ok that(2) small [OF that(1)]]], rule safeR_bind [OF ok_this [OF ok that(2)]], rule pending_safe)
      (use that(2) in \<open>auto dest: wait_ipi_same\<close>)
  have second: "safeR (same_snd s0) (foldE (\<lambda>i (incoming, s).
      bindE (other_hls (of_nat i) s) (\<lambda>h. bindE (this_hls s) (\<lambda>me. pending (wait_ipi W (ipi h) (ipi me) incoming s))))
      (harts_of m) (0, s'))" if "shape s' = shape s0" for s'
    by (rule safeR_fold) (use that wait in auto)
  show ?thesis unfolding send_ipis_def
  proof (rule safeR_bind [OF first])
    fix s' :: "('d, 'z) mach_scheme"
    assume e: "shape s' = shape s0"
    show "safeR (same s0) (if event = IPI_SOFT then Inr s' else bindE (foldE (\<lambda>i (incoming, s).
        bindE (other_hls (of_nat i) s) (\<lambda>h. bindE (this_hls s) (\<lambda>me. pending (wait_ipi W (ipi h) (ipi me) incoming s))))
        (harts_of m) (0, s')) (\<lambda>(incoming, s). if incoming \<noteq> 0
          then bindE (this_hls s) (\<lambda>me. Inr (dev_write W 4 (ipi me) (ucast incoming) s)) else Inr s))"
    proof (cases "event = IPI_SOFT")
      case False
      then show ?thesis
        by (simp, intro safeR_bind [OF second [OF e]]) (auto intro!: safeR_bind [OF ok_this [OF ok]])
    qed (use e in simp)
  qed
qed

lemma finisher_same [simp]: "shape (finisher_exit W c s) = shape s"
  by (simp add: finisher_exit_def)

lemma poweroff_safe:
  fixes s s0 :: "('d, 'z) mach_scheme"
  assumes ok: "mach_ok s0" and s: "shape s = shape s0"
  shows "safeR Q (poweroff W c s)"
  unfolding poweroff_def
proof (rule safeR_bind [OF printm_safe])
  fix s' :: "('d, 'z) mach_scheme"
  assume e: "shape s' = shape s"
  let ?s = "finisher_exit W c s'"
  have m: "bit (hart_mask ?s) i \<Longrightarrow> i < MAX_HARTS" for i
    using ok e s finisher_same [of W c s'] by (simp add: mach_ok_def shape_def)
  have "safeR Q (bindE (send_ipis W (hart_mask ?s) IPI_HALT ?s) (\<lambda>_. Inl (Shutdown (ucast c))))"
    by (rule safeR_bind [OF send_ipis_safe [OF ok _ m]]) (use e s in simp_all)
  then show "safeR Q (let s = ?s in if htif_present s then htif_poweroff W s
      else bindE (send_ipis W (hart_mask s) IPI_HALT s) (\<lambda>_. Inl (Shutdown (ucast c))))"
    by (simp add: Let_def htif_poweroff_safe)
qed

section \<open>Traps\<close>

lemma redirect_safe: "shape s = shape s0 \<Longrightarrow> safe (same s0) Q (redirect_trap W epc mstatus tval s)"
  by (simp add: redirect_trap_def redirect_exit_def Let_def)

lemma bad_trap_safe [simp]: "safe J Q bad_trap"
  by (simp add: bad_trap_def)

lemma from_machine_safe: "shape s = shape s0 \<Longrightarrow> safe (same s0) Q (trap_from_machine_mode W regs s)"
  by (simp add: trap_from_machine_mode_def machine_page_fault_def Let_def redirect_safe)

lemma unpriv_safe: "shape s = shape s0 \<Longrightarrow> safe (same s0) (\<lambda>_. True) (unpriv W fl acc n addr mepc s)"
  by (simp add: unpriv_def Let_def from_machine_safe split: sum.split)

lemma load_safe: "shape s = shape s0 \<Longrightarrow> safe (same s0) (\<lambda>_. True) (load_unpriv W n addr mepc s)"
  unfolding load_unpriv_def by (rule safe_bind [OF unpriv_safe]) simp_all

lemma store_safe: "shape s = shape s0 \<Longrightarrow> safe (same s0) (same s0) (store_unpriv W n addr v mepc s)"
  unfolding store_unpriv_def by (rule safe_bind [OF unpriv_safe]) simp_all

lemma get_insn_safe:
  assumes "shape s = shape s0"
  shows "safe (same s0) (\<lambda>_. True) (get_insn W mepc s)"
proof -
  have f: "safe (same s0) (\<lambda>_. True) (bindE (unpriv W fl Load_access n a mepc s) (\<lambda>pa. Inr (load_le n (mem s) pa)))" for fl n a
    by (rule safe_bind [OF unpriv_safe [OF assms]]) simp
  show ?thesis unfolding get_insn_def Let_def
    by (auto intro!: safe_bind [OF f])
qed

lemma illegal_safe: "shape s = shape s0 \<Longrightarrow> safe (same s0) Q (truly_illegal_insn W mepc mstatus insn s)"
  by (simp add: truly_illegal_insn_def redirect_safe)

lemma misaligned_load_safe:
  assumes "shape s = shape s0"
  shows "safe (same s0) (same s0) (misaligned_load_trap W mepc s)"
proof -
  have l: "safe (same s0) (\<lambda>_. True) (load_bytes W n a mepc s)" for n a
    unfolding load_bytes_def by (rule safe_fold) (auto intro!: safe_bind [OF load_safe [OF assms]])
  show ?thesis unfolding misaligned_load_trap_def
    by (rule safe_bind [OF get_insn_safe [OF assms]])
      (auto simp: Let_def assms intro!: illegal_safe safe_bind [OF l] split: option.splits)
qed

lemma misaligned_store_safe:
  assumes "shape s = shape s0"
  shows "safe (same s0) (same s0) (misaligned_store_trap W mepc s)"
proof -
  have l: "safe (same s0) (same s0) (store_bytes W n a v mepc s)" for n a v
    unfolding store_bytes_def by (rule safe_fold) (auto simp: assms intro!: store_safe)
  show ?thesis unfolding misaligned_store_trap_def
    by (rule safe_bind [OF get_insn_safe [OF assms]])
      (auto simp: Let_def assms intro!: illegal_safe safe_bind [OF l] split: option.splits)
qed

lemma mcall_safe:
  assumes ok: "mach_ok s0" and s: "shape s = shape s0"
  shows "safe (same s0) (same s0) (mcall_trap W mepc s)"
proof -
  let ?s = "write_csr W MEPC (mepc + 4) s"
  have e: "shape ?s = shape s0" using s by simp
  have hm: "bit (hart_mask ?s) i \<Longrightarrow> i < MAX_HARTS" for i
    using ok e by (simp add: mach_ok_def shape_def)
  have mask: "safe (same s0) (\<lambda>m. \<forall>i. bit m i \<longrightarrow> i < MAX_HARTS)
      (if p = 0 then Inr (hart_mask ?s) else bindE (load_unpriv W 8 p (csrs ?s MEPC) ?s) (\<lambda>m. Inr (hart_mask ?s AND m)))" for p
    using hm by (auto simp: bit_and_iff intro!: safe_bind [OF load_safe [OF e]])
  have many: "safe (same s0) (same s0) (send_ipi_many W p event ?s)" for p event
    unfolding send_ipi_many_def
    by (rule safe_bind [OF mask], rule safe_lift, rule send_ipis_safe [OF ok e]) blast
  have ipi: "safe (same s0) (same_snd s0) (bindE (send_ipi_many W p event ?s) (\<lambda>s. Inr (0 :: u64, s)))" for p event
    by (rule safe_bind [OF many]) simp
  have put: "safe (same s0) (same_snd s0) (bindE (liftE (mcall_console_putchar W ch ?s)) (\<lambda>s. Inr (0 :: u64, s)))" for ch
    by (rule safe_bind [OF safe_lift [OF putchar_safe]]) (use e in simp)
  have get: "safe (same s0) (same_snd s0) (liftE (mcall_console_getchar W ?s))"
    by (rule safe_lift) (use getchar_safe [of ?s W] e in simp)
  have off: "safe (same s0) (same_snd s0) (liftE (poweroff W 0 ?s))"
    by (rule safe_lift [OF poweroff_safe [OF ok e]])
  have timer: "safe (same s0) (same_snd s0) (liftE (mcall_set_timer W v ?s))" for v
    unfolding mcall_set_timer_def by (rule safe_lift, rule safeR_bind [OF ok_this [OF ok e]]) (use e in \<open>simp add: Let_def\<close>)
  have clear: "safe (same s0) (same_snd s0) (Inr (mcall_clear_ipi W ?s))"
    using e by (simp add: mcall_clear_ipi_def)
  show ?thesis unfolding mcall_trap_def Let_def
    by (rule safe_bind [where P = "same_snd s0"]) (use ipi put get off timer clear e in auto)
qed

section \<open>Emulated instructions\<close>

definition well_typed :: "('d, 'z) emulation \<Rightarrow> bool" where
  "well_typed e \<longleftrightarrow> (\<forall>mepc mstatus insn s s0. shape s = shape s0 \<longrightarrow> safe (same s0) (same s0) (e mepc mstatus insn s))"

lemma well_typedI:
  "(\<And>mepc mstatus insn s s0. shape s = shape s0 \<Longrightarrow> safe (same s0) (same s0) (e mepc mstatus insn s)) \<Longrightarrow> well_typed e"
  by (simp add: well_typed_def)

lemma well_typedD: "well_typed e \<Longrightarrow> shape s = shape s0 \<Longrightarrow> safe (same s0) (same s0) (e mepc mstatus insn s)"
  by (simp add: well_typed_def)

lemma by_precision_safe:
  "shape s = shape s0 \<Longrightarrow> shape (single s) = shape s \<Longrightarrow> shape (double s) = shape s
   \<Longrightarrow> safe (same s0) (same s0) (by_precision W mepc mstatus insn single double s)"
  by (simp add: by_precision_def illegal_safe)

lemma setup_rounding_same: "setup_rounding insn s = Some s' \<Longrightarrow> shape s' = shape s"
  by (auto simp: setup_rounding_def Let_def split: if_splits)

lemma illegal_well_typed: "well_typed (truly_illegal_insn W)"
  by (rule well_typedI) (rule illegal_safe)

lemma fp_well_typed:
  "well_typed (emulate_any_fadd W n)" "well_typed (emulate_fmul W)" "well_typed (emulate_fdiv W)" "well_typed (emulate_fsqrt W)"
  "well_typed (emulate_fsgnj W)" "well_typed (emulate_fmin W)" "well_typed (emulate_fcvt_ff W)" "well_typed (emulate_fcvt_fi W)"
  "well_typed (emulate_fcvt_if W)" "well_typed (emulate_fcmp W)" "well_typed (emulate_fmv_if W)" "well_typed (emulate_fmv_fi W)"
  by (rule well_typedI, auto simp: emulate_any_fadd_def emulate_fmul_def emulate_fdiv_def emulate_fsqrt_def emulate_fsgnj_def
      emulate_fmin_def emulate_fcvt_ff_def emulate_fcvt_fi_def emulate_fcvt_if_def emulate_fcmp_def emulate_fmv_if_def emulate_fmv_fi_def
      Let_def intro!: by_precision_safe illegal_safe split: prod.splits option.splits)+

lemma fp_table_well_typed: "well_typed (fp_table W i)"
  unfolding fp_table_def emulate_fadd_def emulate_fsub_def by (simp add: fp_well_typed illegal_well_typed)

lemma emulate_fp_well_typed: "well_typed (emulate_fp W)"
  by (rule well_typedI) (auto simp: emulate_fp_def intro!: illegal_safe well_typedD [OF fp_table_well_typed]
      dest: setup_rounding_same split: option.splits)

lemma emulate_fmadd_well_typed: "well_typed (emulate_fmadd W)"
  by (rule well_typedI) (auto simp: emulate_fmadd_def Let_def intro!: illegal_safe by_precision_safe
      dest: setup_rounding_same split: option.splits)

lemma float_access_well_typed: "well_typed (emulate_float_load W)" "well_typed (emulate_float_store W)"
  by (rule well_typedI, auto simp: emulate_float_load_def emulate_float_store_def Let_def
      intro!: illegal_safe misaligned_load_safe misaligned_store_safe store_safe safe_bind [OF load_safe])+

lemma division_safe:
  "safeR (\<lambda>_. True) (sdiv_res a b)" "safeR (\<lambda>_. True) (srem_res a b)" "safeR (\<lambda>_. True) (udiv_res a b)" "safeR (\<lambda>_. True) (urem_res a b)"
  by (simp_all add: sdiv_res_def srem_res_def udiv_res_def urem_res_def)

lemma mul_div_well_typed: "well_typed (emulate_mul_div W)" "well_typed (emulate_mul_div32 W)"
proof -
  have r: "safeR (\<lambda>_. True) r" if "mul_div_val insn a b = Some r" for insn a b r
    using that division_safe by (auto simp: mul_div_val_def Let_def split: if_splits)
  have r32: "safeR (\<lambda>_. True) r" if "mul_div32_val insn a b = Some r" for insn a b r
    using that division_safe by (auto simp: mul_div32_val_def Let_def split: if_splits)
  show "well_typed (emulate_mul_div W)"
    by (rule well_typedI) (auto simp: emulate_mul_div_def intro!: illegal_safe safe_bind [OF safe_lift [OF r]] split: option.splits)
  show "well_typed (emulate_mul_div32 W)"
    by (rule well_typedI) (auto simp: emulate_mul_div32_def intro!: illegal_safe safe_bind [OF safe_lift [OF r32]] split: option.splits)
qed

lemma read_csr_same: "shape (snd (emulate_read_csr W num mstatus s)) = shape s"
  by (simp add: emulate_read_csr_def Let_def split_beta)

lemma write_csr_same: "emulate_write_csr W num v s = Some s' \<Longrightarrow> shape s' = shape s"
  by (auto simp: emulate_write_csr_def split: if_splits)

lemma system_well_typed: "well_typed (emulate_system_opcode W)"
proof (rule well_typedI)
  fix mepc mstatus insn :: u64 and s s0 :: "('a, 'b) mach_scheme"
  assume e: "shape s = shape s0"
  obtain v s1 where r: "emulate_read_csr W (ucast (drop_bit 20 (ucast insn :: u32))) mstatus s = (v, s1)" by fastforce
  then have "shape s1 = shape s0" using read_csr_same [of W _ mstatus s] e by (metis snd_conv)
  then show "safe (same s0) (same s0) (emulate_system_opcode W mepc mstatus insn s)"
    unfolding emulate_system_opcode_def Let_def r
    by (auto intro!: illegal_safe dest: write_csr_same split: option.splits)
qed

lemma insn_table_well_typed: "well_typed (insn_table W i)"
  unfolding insn_table_def
  by (simp add: float_access_well_typed mul_div_well_typed emulate_fmadd_well_typed emulate_fp_well_typed system_well_typed illegal_well_typed)

lemma rvc_well_typed: "well_typed (emulate_rvc W)"
proof (rule well_typedI)
  fix mepc mstatus insn and s s0 :: "('a, 'b) mach_scheme"
  assume e: "shape s = shape s0"
  let ?s = "write_csr W MEPC (mepc + 2) s"
  have e': "shape ?s = shape s0" using e by simp
  note S = illegal_safe [OF e'] misaligned_load_safe [OF e'] misaligned_store_safe [OF e'] store_safe [OF e']
  have l: "safe (same s0) (same s0) (bindE (load_unpriv W 8 a m ?s) (\<lambda>v. Inr (SET_F64_RD W r v ?s)))" for a m r
    by (rule safe_bind [OF load_safe [OF e']]) (use e in simp)
  show "safe (same s0) (same s0) (emulate_rvc W mepc mstatus insn s)"
    unfolding emulate_rvc_def Let_def by (simp add: S l del: shape_simps)
qed

lemma illegal_insn_safe:
  assumes "shape s = shape s0"
  shows "safe (same s0) (same s0) (illegal_insn_trap W mepc s)"
  unfolding illegal_insn_trap_def Let_def
proof (rule safe_bind [where P = "\<lambda>_. True"])
  show "safe (same s0) (\<lambda>_. True) (if csrs s MTVAL AND 3 \<noteq> 3 \<and> csrs s MTVAL = 0 then get_insn W mepc s else Inr (csrs s MTVAL, csrs s MSTATUS))"
    using get_insn_safe [OF assms] by simp
qed (use assms in \<open>auto intro!: well_typedD [OF rvc_well_typed] well_typedD [OF insn_table_well_typed]\<close>)

section \<open>Type soundness\<close>

text \<open>C28. A trap taken in a well-formed state is handled in well-formed states: whether the handler finishes or redirects the trap,
  the register frame, the storage of the harts, the hart number and the set of harts are as before.  If it
  stops, it was not by a hart number outside the hart table: the undefined behaviour it can meet is in the
  emulated M extension (a division that C leaves undefined, a \<^verbatim>\<open>MULHU\<close> product beyond the signed 128-bit type), or the trap table
  itself, which is indexed unchecked, for a cause beyond its 19 entries.\<close>

theorem trap_table_type_sound:
  assumes "mach_ok s"
  shows "case trap_table W mcause mepc s of
      Inr s' \<Rightarrow> shape s' = shape s \<and> mach_ok s'
    | Inl (Redirect s') \<Rightarrow> shape s' = shape s \<and> mach_ok s'
    | Inl (Stop e) \<Rightarrow> stops_well e \<or> 19 \<le> mcause \<and> e = Undefined ''trap_table''"
proof -
  have "safe (same s) (same s) (trap_table W mcause mepc s)" if "mcause < 19"
    unfolding trap_table_def pmp_trap_def using that
    by (simp add: mcall_safe [OF assms refl] illegal_insn_safe [OF refl] misaligned_load_safe [OF refl]
        misaligned_store_safe [OF refl] redirect_safe [OF refl] from_machine_safe [OF refl])
  moreover have "trap_table W mcause mepc s = Inl (Stop (Undefined ''trap_table''))" if "\<not> mcause < 19"
  proof -
    have "mcause \<notin> {1, 5, 7}" "mcause \<noteq> 2" "mcause \<noteq> 4" "mcause \<noteq> 6" "mcause \<noteq> 9" "mcause \<noteq> 13" using that by auto
    then show ?thesis using that by (simp add: trap_table_def)
  qed
  moreover have "mach_ok s'" if "shape s' = shape s" for s' :: "('a, 'b) mach_scheme"
    using shape_ok [OF that] assms by simp
  ultimately show ?thesis by (cases "mcause < 19") (auto simp: safe_def split: sum.splits exit.splits)
qed

lemma trap_table_type_sound_witness:
  "\<exists>s'. trap_table plain_hardware 9 128 (idle_mach (\<lambda>_. 0)) = Inr s' \<and> mach_ok s' \<and> length (hlss s') = 8"
proof -
  let ?s = "idle_mach (\<lambda>_. 0)"
  have ok: "mach_ok ?s" by (simp add: mach_ok_def idle_mach_def MAX_HARTS_def)
  have "\<exists>s'. trap_table plain_hardware 9 128 ?s = Inr s'"
    by (simp add: trap_table_def mcall_trap_def mcall_set_timer_def this_hls_def other_hls_def Let_def idle_mach_def MAX_HARTS_def
        write_csr_def plain_hardware_def)
  then obtain s' where s': "trap_table plain_hardware 9 128 ?s = Inr s'" by blast
  have "mach_ok s'" using trap_table_type_sound [OF ok, of 9 plain_hardware 128] unfolding s' by simp
  then show ?thesis using s' by (intro exI [of _ s']) (simp add: mach_ok_def MAX_HARTS_def)
qed

end
