(* ===== verification/Machine_Vector.thy ===== *)
theory Machine_Vector
  imports Machine_Misaligned
begin

text \<open>
  Misaligned vector loads and stores (\<^verbatim>\<open>machine/misaligned_vec_ldst.c\<close>), in the build with the vector
  extension.  The runtime reaches the vector register file with byte loads and stores of whole
  register groups (\<^verbatim>\<open>vle8.v\<close>, \<^verbatim>\<open>vse8.v\<close> with \<^verbatim>\<open>LMUL = 8\<close>) between a start and a length that it sets for the
  purpose.  The reference is the element-wise execution of the instruction set.
\<close>

section \<open>The vector unit\<close>

text \<open>The register file is one array of bytes: register \<open>r\<close> begins at \<open>r * vlenb\<close>.  What \<^verbatim>\<open>vsetvl\<close> makes of
  a requested length is left to the hardware, as is the content of an uninitialised local array.
  That \<^verbatim>\<open>mstatus.VS\<close> becomes dirty is not recorded.\<close>

record 'd vec_mach = "'d mach" +
  v_vl :: u64
  v_vtype :: u64
  v_vstart :: u64
  v_vlenb :: u64
  vbytes :: "nat \<Rightarrow> u8"

record vec_unit =
  granted :: "u64 \<Rightarrow> u64 \<Rightarrow> u64 \<Rightarrow> u64"
  junk :: "nat \<Rightarrow> u8"

definition vsetvl :: "vec_unit \<Rightarrow> u64 \<Rightarrow> u64 \<Rightarrow> ('d, 'z) vec_mach_scheme \<Rightarrow> ('d, 'z) vec_mach_scheme" where
  "vsetvl U avl vtype s = s\<lparr>v_vl := granted U (v_vlenb s) avl vtype, v_vtype := vtype, v_vstart := 0\<rparr>"

text \<open>\<^verbatim>\<open>e8, m8, tu, ma\<close>: bytes, groups of eight registers.\<close>

definition VTYPE_E8_M8 :: u64 where "VTYPE_E8_M8 = 0x83"

text \<open>\<^verbatim>\<open>vle8.v\<close> and \<^verbatim>\<open>vse8.v\<close> on the group of eight registers \<open>g\<close>: the elements from \<^verbatim>\<open>vstart\<close> to \<^verbatim>\<open>vl\<close>, where
  element \<open>e\<close> lies at index \<open>e - pos\<close> of the array.\<close>

definition vle8 :: "u64 \<Rightarrow> u64 \<Rightarrow> u8 list \<Rightarrow> ('d, 'z) vec_mach_scheme \<Rightarrow> ('d, 'z) vec_mach_scheme" where
  "vle8 g pos bytes s =
     (let first = unat (g * 8 * v_vlenb s)
      in s\<lparr>vbytes := (\<lambda>j. if first + unat (v_vstart s) \<le> j \<and> j < first + unat (v_vl s)
                           then bytes ! (j - first - unat pos) else vbytes s j),
           v_vstart := 0\<rparr>)"

definition vse8 :: "u64 \<Rightarrow> u64 \<Rightarrow> u8 list \<Rightarrow> ('d, 'z) vec_mach_scheme \<Rightarrow> u8 list \<times> ('d, 'z) vec_mach_scheme" where
  "vse8 g pos old s =
     (let first = unat (g * 8 * v_vlenb s)
      in (map (\<lambda>i. let e = unat pos + i
                   in if unat (v_vstart s) \<le> e \<and> e < unat (v_vl s) then vbytes s (first + e) else old ! i)
            [0..<length old],
          s\<lparr>v_vstart := 0\<rparr>))"

definition set_vreg ::
    "vec_unit \<Rightarrow> u64 \<Rightarrow> u64 \<Rightarrow> u64 \<Rightarrow> u64 \<Rightarrow> u8 list \<Rightarrow> ('d, 'z) vec_mach_scheme \<Rightarrow> ('d, 'z) vec_mach_scheme" where
  "set_vreg U vlenb which pos len bytes s =
     (let pos = pos + (which mod 8) * vlenb;
          s = (vsetvl U (pos + len) VTYPE_E8_M8 s)\<lparr>v_vstart := pos\<rparr>
      in if which div 8 < 4 then vle8 (which div 8) pos bytes s else s)"

text \<open>\<open>old\<close> is the content of the array that \<^verbatim>\<open>bytes\<close> points to; the result is its new content.\<close>

definition get_vreg ::
    "vec_unit \<Rightarrow> u64 \<Rightarrow> u64 \<Rightarrow> u64 \<Rightarrow> u64 \<Rightarrow> u8 list \<Rightarrow> ('d, 'z) vec_mach_scheme
     \<Rightarrow> u8 list \<times> ('d, 'z) vec_mach_scheme" where
  "get_vreg U vlenb which pos len old s =
     (let pos = pos + (which mod 8) * vlenb;
          s = (vsetvl U (pos + len) VTYPE_E8_M8 s)\<lparr>v_vstart := pos\<rparr>
      in if which div 8 < 4 then vse8 (which div 8) pos old s else (old, s))"

section \<open>The emulation\<close>

definition VLEN_MAX :: nat where "VLEN_MAX = 4096"

text \<open>The locals that the decoder computes.\<close>

record vec_insn =
  vi_masked :: bool
  vi_indexed :: bool
  vi_load :: bool
  vi_illegal :: bool
  vi_fof :: bool
  vi_vd :: u64
  vi_vs2 :: u64
  vi_view :: u64
  vi_len :: u64
  vi_nf :: u64
  vi_evl :: u64
  vi_emul :: u64
  vi_base :: u64
  vi_stride :: u64

definition decode_vec :: "u64 \<Rightarrow> ('d, 'z) vec_mach_scheme \<Rightarrow> vec_insn" where
  "decode_vec insn s =
     (let vl = v_vl s; vtype = v_vtype s; vlenb = v_vlenb s;
          masked = (drop_bit 25 insn AND 1 = 0);
          unit = (drop_bit 26 insn AND 3 = 0);
          strided = (drop_bit 26 insn AND 3 = 2);
          indexed = (\<not> strided \<and> \<not> unit);
          mew = (drop_bit 28 insn AND 1 \<noteq> 0);
          lumop_simple = (drop_bit 20 insn AND 0x1f = 0);
          lumop_whole = (drop_bit 20 insn AND 0x1f = 8);
          lumop_fof = (drop_bit 20 insn AND 0x1f = 16);
          load = (drop_bit 5 insn AND 1 = 0);
          illegal = (mew \<or> unit \<and> \<not> (lumop_simple \<or> lumop_whole \<or> load \<and> lumop_fof));
          fof = (unit \<and> lumop_fof);
          whole_reg = (unit \<and> lumop_whole);
          vd = drop_bit 7 insn AND 0x1f;
          vs2 = drop_bit 20 insn AND 0x1f;
          vsew = drop_bit 3 vtype AND 3;
          vlmul = vtype AND 7;
          view = drop_bit 12 insn AND 3;
          veew = (if indexed then vsew else view);
          len = push_bit (unat veew) 1;
          nf0 = 1 + (drop_bit 29 insn AND 7);
          nf = (if whole_reg then 1 else nf0);
          evl = (if whole_reg then drop_bit (unat veew) (nf0 * vlenb) else vl);
          vemul = (if whole_reg then 0 else (vlmul + veew - vsew) AND 7);
          emul = push_bit (if vemul AND 4 \<noteq> 0 then 0 else unat vemul) 1;
          base = GET_RS1 insn s;
          stride = (if strided then GET_RS2 insn s else nf * len)
      in \<lparr>vi_masked = masked, vi_indexed = indexed, vi_load = load, vi_illegal = illegal, vi_fof = fof,
          vi_vd = vd, vi_vs2 = vs2, vi_view = view, vi_len = len, vi_nf = nf, vi_evl = evl, vi_emul = emul,
          vi_base = base, vi_stride = stride\<rparr>)"

primrec le_word :: "u8 list \<Rightarrow> u64" where
  "le_word [] = 0"
| "le_word (b # bs) = ucast b OR push_bit 8 (le_word bs)"

definition chunk :: "vec_insn \<Rightarrow> nat \<Rightarrow> u8 list \<Rightarrow> u8 list" where
  "chunk f seg bytes = take (unat (vi_len f)) (drop (seg * unat (vi_len f)) bytes)"

text \<open>The bytes of all segments of an element, and their places in the array \<^verbatim>\<open>bytes\<close>.\<close>

definition seg_bytes :: "vec_insn \<Rightarrow> nat list" where
  "seg_bytes f = map (\<lambda>(seg, i). seg * unat (vi_len f) + i) (List.product [0..<unat (vi_nf f)] [0..<unat (vi_len f)])"

text \<open>Store data from the register file, segment by segment.\<close>

definition get_segs ::
    "vec_unit \<Rightarrow> vec_insn \<Rightarrow> u64 \<Rightarrow> u64 \<Rightarrow> ('d, 'z) vec_mach_scheme \<Rightarrow> u8 list \<times> ('d, 'z) vec_mach_scheme" where
  "get_segs U f vlenb vstart s =
     fold (\<lambda>seg (bytes, s).
             let (b, s) = get_vreg U vlenb (vi_vd f + of_nat seg * vi_emul f) (vstart * vi_len f) (vi_len f)
                            (map (junk U) [seg * unat (vi_len f) ..< Suc seg * unat (vi_len f)]) s
             in (bytes @ b, s))
       [0..<unat (vi_nf f)] ([], s)"

definition set_segs ::
    "vec_unit \<Rightarrow> vec_insn \<Rightarrow> u64 \<Rightarrow> u64 \<Rightarrow> u8 list \<Rightarrow> ('d, 'z) vec_mach_scheme \<Rightarrow> ('d, 'z) vec_mach_scheme" where
  "set_segs U f vlenb vstart bytes s =
     fold (\<lambda>seg. set_vreg U vlenb (vi_vd f + of_nat seg * vi_emul f) (vstart * vi_len f) (vi_len f) (chunk f seg bytes))
       [0..<unat (vi_nf f)] s"

text \<open>One element: \<open>vl\<close> and \<open>vtype\<close> are the values that the program left, restored before memory is touched.\<close>

definition vec_element ::
    "vec_unit \<Rightarrow> 'd hardware \<Rightarrow> vec_insn \<Rightarrow> u64 \<Rightarrow> u64 \<Rightarrow> u64 \<Rightarrow> u64 \<Rightarrow> u64 \<Rightarrow> ('d, 'z) vec_mach_scheme
     \<Rightarrow> (('d, 'z) vec_mach_scheme, ('d, 'z) vec_mach_scheme) handler" where
  "vec_element U W f vl vtype vlenb mepc vstart s =
     (let (addr, s) =
            (if vi_indexed f
             then let (offset, s) = get_vreg U vlenb (vi_vs2 f) (push_bit (unat (vi_view f)) vstart)
                                      (push_bit (unat (vi_view f)) 1) (replicate (2 ^ unat (vi_view f)) 0) s
                  in (vi_base f + le_word offset, s)
             else (vi_base f + vstart * vi_stride f, s));
          (bytes, s) = (if vi_load f then ([], s) else get_segs U f vlenb vstart s);
          s = (vsetvl U vl vtype s)\<lparr>v_vstart := vstart\<rparr>
      in if vi_load f
         then bindE (foldE (\<lambda>i bytes. bindE (load_unpriv W 1 (addr + of_nat i) mepc s) (\<lambda>b. Inr (bytes @ [ucast b])))
                       (seg_bytes f) []) (\<lambda>bytes.
                Inr (set_segs U f vlenb vstart bytes s))
         else foldE (\<lambda>i s. store_unpriv W 1 (addr + of_nat i) (ucast (bytes ! i)) mepc s) (seg_bytes f) s)"

function vec_loop ::
    "(u64 \<Rightarrow> 's \<Rightarrow> 'e + 's) \<Rightarrow> u64 \<Rightarrow> bool \<Rightarrow> u64 \<Rightarrow> 's \<Rightarrow> 'e + 's" where
  "vec_loop body evl fof vstart s =
     (case body vstart s of
        Inl e \<Rightarrow> Inl e
      | Inr s \<Rightarrow> if vstart + 1 < evl \<and> \<not> fof then vec_loop body evl fof (vstart + 1) s else Inr s)"
  by pat_completeness auto
termination
proof (relation "measure (\<lambda>(_, evl, _, v, _). if v < evl then unat (evl - v) else Suc (unat evl))")
  fix body :: "u64 \<Rightarrow> 's \<Rightarrow> 'e + 's" and evl v :: u64 and fof and s t :: 's
  assume "v + 1 < evl \<and> \<not> fof"
  then have lt: "v + 1 < evl" by simp
  then have "unat (evl - (v + 1)) = unat evl - unat (v + 1)" "unat (v + 1) < unat evl"
    by (simp_all add: unat_sub order.strict_implies_order word_less_nat_alt)
  moreover have "unat (evl - v) = unat evl - unat v \<and> unat (v + 1) = unat v + 1" if "v < evl"
    using that unat_u64_lt [of evl] by (simp add: unat_sub order.strict_implies_order) (simp add: unat_word_ariths word_less_nat_alt)
  ultimately show "((body, evl, fof, v + 1, t), (body, evl, fof, v, s))
      \<in> measure (\<lambda>(_, evl, _, v, _). if v < evl then unat (evl - v) else Suc (unat evl))"
    using lt by auto
qed simp

definition misaligned_vec_ldst ::
    "vec_unit \<Rightarrow> 'd hardware \<Rightarrow> u64 \<Rightarrow> u64 \<Rightarrow> u64 \<Rightarrow> ('d, 'z) vec_mach_scheme
     \<Rightarrow> (('d, 'z) vec_mach_scheme, ('d, 'z) vec_mach_scheme) handler" where
  "misaligned_vec_ldst U W mepc mstatus insn s =
     (let vl = v_vl s; vtype = v_vtype s; vlenb = v_vlenb s; vstart = v_vstart s; f = decode_vec insn s
      in if vi_illegal f \<or> unat vlenb > VLEN_MAX div 8 then truly_illegal_insn W mepc mstatus insn s
         else
           let old = map (junk U) [0..<VLEN_MAX div 8];
               (mask, s) = (if vi_masked f then get_vreg U vlenb 0 0 vlenb old s else (old, s))
           in bindE (vec_loop (\<lambda>vstart s.
                       if \<not> vi_masked f then vec_element U W f vl vtype vlenb mepc vstart s
                       else if VLEN_MAX div 8 \<le> unat (vstart div 8) then Inl (Stop (Undefined ''mask''))
                       else if drop_bit (unat (vstart mod 8)) (mask ! unat (vstart div 8)) AND 1 \<noteq> 0
                       then vec_element U W f vl vtype vlenb mepc vstart s
                       else Inr s) (vi_evl f) (vi_fof f) vstart s) (\<lambda>s.
                Inr (write_csr W MEPC (mepc + 4) (vsetvl U (if vi_fof f then 1 else vl) vtype s))))"

section \<open>The trap handlers of this build\<close>

definition is_vec_load :: "u64 \<Rightarrow> bool" where
  "is_vec_load insn \<longleftrightarrow> is_insn 0x707f 0x0007 insn \<or> is_insn 0x707f 0x5007 insn
     \<or> is_insn 0x707f 0x6007 insn \<or> is_insn 0x707f 0x7007 insn"

definition is_vec_store :: "u64 \<Rightarrow> bool" where
  "is_vec_store insn \<longleftrightarrow> is_insn 0x707f 0x0027 insn \<or> is_insn 0x707f 0x5027 insn
     \<or> is_insn 0x707f 0x6027 insn \<or> is_insn 0x707f 0x7027 insn"

text \<open>The vector branch stands between the scalar and the compressed ones; no instruction matches two of
  them (\<open>vec_not_scalar\<close> below), so the scalar decoder may go first.\<close>

definition misaligned_load_trap_vec ::
    "vec_unit \<Rightarrow> 'd hardware \<Rightarrow> u64 \<Rightarrow> ('d, 'z) vec_mach_scheme
     \<Rightarrow> (('d, 'z) vec_mach_scheme, ('d, 'z) vec_mach_scheme) handler" where
  "misaligned_load_trap_vec U W mepc s =
     bindE (get_insn W mepc s) (\<lambda>(insn, mstatus).
     let npc = mepc + insn_len insn; addr = csrs s MTVAL
     in case decode_load insn of
          None \<Rightarrow> if is_vec_load insn then misaligned_vec_ldst U W mepc mstatus insn s
                  else truly_illegal_insn W mepc mstatus insn (write_csr W MCAUSE CAUSE_LOAD_ACCESS s)
        | Some k \<Rightarrow>
            bindE (load_bytes W (lk_len k) addr mepc s) (\<lambda>val.
              Inr (write_csr W MEPC npc (finish_load W k val s))))"

definition misaligned_store_trap_vec ::
    "vec_unit \<Rightarrow> 'd hardware \<Rightarrow> u64 \<Rightarrow> ('d, 'z) vec_mach_scheme
     \<Rightarrow> (('d, 'z) vec_mach_scheme, ('d, 'z) vec_mach_scheme) handler" where
  "misaligned_store_trap_vec U W mepc s =
     bindE (get_insn W mepc s) (\<lambda>(insn, mstatus).
     let npc = mepc + insn_len insn
     in case decode_store insn s of
          None \<Rightarrow> if is_vec_store insn then misaligned_vec_ldst U W mepc mstatus insn s
                  else truly_illegal_insn W mepc mstatus insn (write_csr W MCAUSE CAUSE_STORE_ACCESS s)
        | Some (len, val) \<Rightarrow>
            bindE (store_bytes W len (csrs s MTVAL) val mepc s) (\<lambda>s.
              Inr (write_csr W MEPC npc s)))"

lemma vec_not_scalar: "is_vec_load insn \<Longrightarrow> decode_load insn = None" "is_vec_store insn \<Longrightarrow> decode_store insn s = None"
proof -
  have three: "insn AND 3 = 3" if "insn AND 0x707f = k" "k AND 3 = 3" for k
  proof -
    have "(insn AND 0x707f) AND 3 = insn AND 3" by (simp add: and.assoc)
    then show ?thesis using that by simp
  qed
  have c: "(insn AND 0xe003 = m) = False" if "insn AND 3 = 3" "m AND 3 \<noteq> 3" for m
  proof -
    have "(insn AND 0xe003) AND 3 = insn AND 3" by (simp add: and.assoc)
    then show ?thesis using that by auto
  qed
  show "decode_load insn = None" if v: "is_vec_load insn"
  proof -
    have "insn AND 3 = 3" using v three by (auto simp: is_vec_load_def is_insn_def)
    with v show ?thesis unfolding is_vec_load_def is_insn_def
      by (elim disjE) (simp_all add: decode_load_def is_insn_def Let_def c)
  qed
  show "decode_store insn s = None" if v: "is_vec_store insn"
  proof -
    have "insn AND 3 = 3" using v three by (auto simp: is_vec_store_def is_insn_def)
    with v show ?thesis unfolding is_vec_store_def is_insn_def
      by (elim disjE) (simp_all add: decode_store_def is_insn_def Let_def c)
  qed
qed

end
