(* ===== verification/Machine_VectorProps.thy ===== *)
theory Machine_VectorProps
  imports Machine_Vector Machine_TrapProps
begin

text \<open>
  The emulation of misaligned vector accesses against the element-wise execution of the instruction
  set, faults included.
\<close>

section \<open>The reference\<close>

text \<open>Element \<open>i\<close> of \<open>n\<close> bytes in the group of registers that begins at \<open>r\<close>.\<close>

definition velem :: "nat \<Rightarrow> (nat \<Rightarrow> u8) \<Rightarrow> nat \<Rightarrow> nat \<Rightarrow> nat \<Rightarrow> u8 list" where
  "velem vlenb vb r n i = map (\<lambda>k. vb (r * vlenb + i * n + k)) [0..<n]"

definition put_velem :: "nat \<Rightarrow> nat \<Rightarrow> nat \<Rightarrow> nat \<Rightarrow> u8 list \<Rightarrow> (nat \<Rightarrow> u8) \<Rightarrow> nat \<Rightarrow> u8" where
  "put_velem vlenb r n i bs vb =
     (\<lambda>j. let p = r * vlenb + i * n in if p \<le> j \<and> j < p + n then bs ! (j - p) else vb j)"

text \<open>The address of element \<open>i\<close>: its offset comes from an index register or is a multiple of the stride.\<close>

definition isa_addr :: "vec_insn \<Rightarrow> nat \<Rightarrow> ('d, 'z) vec_mach_scheme \<Rightarrow> u64" where
  "isa_addr f i s = vi_base f + (if vi_indexed f
     then le_word (velem (unat (v_vlenb s)) (vbytes s) (unat (vi_vs2 f)) (2 ^ unat (vi_view f)) i)
     else of_nat i * vi_stride f)"

text \<open>The stores of the first \<open>k\<close> bytes of element \<open>i\<close>, segment by segment.\<close>

definition isa_store_bytes ::
    "'d hardware \<Rightarrow> vec_insn \<Rightarrow> u64 \<Rightarrow> nat \<Rightarrow> nat \<Rightarrow> ('d, 'z) vec_mach_scheme
     \<Rightarrow> (('d, 'z) vec_mach_scheme, ('d, 'z) vec_mach_scheme) handler" where
  "isa_store_bytes W f mepc i k s =
     (let addr = isa_addr f i s;
          bs = concat (map (\<lambda>seg. velem (unat (v_vlenb s)) (vbytes s) (unat (vi_vd f) + seg * unat (vi_emul f)) (unat (vi_len f)) i)
                 [0..<unat (vi_nf f)])
      in foldE (\<lambda>k s. store_unpriv W 1 (addr + of_nat k) (ucast (bs ! k)) mepc s) [0..<k] (s\<lparr>v_vstart := of_nat i\<rparr>))"

text \<open>One active element: \<^verbatim>\<open>vstart\<close> points to it while memory is accessed, so a fault leaves it there.\<close>

definition isa_element ::
    "'d hardware \<Rightarrow> vec_insn \<Rightarrow> u64 \<Rightarrow> nat \<Rightarrow> ('d, 'z) vec_mach_scheme
     \<Rightarrow> (('d, 'z) vec_mach_scheme, ('d, 'z) vec_mach_scheme) handler" where
  "isa_element W f mepc i s =
     (let addr = isa_addr f i s; r = s\<lparr>v_vstart := of_nat i\<rparr>;
          vlenb = unat (v_vlenb s); n = unat (vi_len f); nf = unat (vi_nf f);
          reg = (\<lambda>seg. unat (vi_vd f) + seg * unat (vi_emul f))
      in if vi_load f
         then bindE (foldE (\<lambda>k bs. bindE (load_unpriv W 1 (addr + of_nat k) mepc r) (\<lambda>b. Inr (bs @ [ucast b])))
                       [0..<nf * n] []) (\<lambda>bs.
                Inr (r\<lparr>vbytes := fold (\<lambda>seg. put_velem vlenb (reg seg) n i (take n (drop (seg * n) bs))) [0..<nf] (vbytes r)\<rparr>))
         else isa_store_bytes W f mepc i (nf * n) s)"

text \<open>The active elements from \<^verbatim>\<open>vstart\<close> on and before \<open>n\<close>, in order; the mask is the one before the instruction.\<close>

definition isa_elements ::
    "'d hardware \<Rightarrow> vec_insn \<Rightarrow> u64 \<Rightarrow> nat \<Rightarrow> ('d, 'z) vec_mach_scheme
     \<Rightarrow> (('d, 'z) vec_mach_scheme, ('d, 'z) vec_mach_scheme) handler" where
  "isa_elements W f mepc n s =
     (let active = (\<lambda>i. \<not> vi_masked f \<or> bit (vbytes s (i div 8)) (i mod 8))
      in foldE (\<lambda>i s. if active i then isa_element W f mepc i s else Inr s) [unat (v_vstart s)..<n] s)"

definition isa_vec ::
    "'d hardware \<Rightarrow> vec_insn \<Rightarrow> u64 \<Rightarrow> ('d, 'z) vec_mach_scheme
     \<Rightarrow> (('d, 'z) vec_mach_scheme, ('d, 'z) vec_mach_scheme) handler" where
  "isa_vec W f mepc s =
     bindE (isa_elements W f mepc (if vi_fof f then Suc (unat (v_vstart s)) else unat (vi_evl f)) s) (\<lambda>s.
       Inr (write_csr W MEPC (mepc + 4) (s\<lparr>v_vl := if vi_fof f then 1 else v_vl s, v_vstart := 0\<rparr>)))"

section \<open>What the architecture promises\<close>

text \<open>The number of elements in a group, and the rule that a request of at most that many is granted.\<close>

definition vlmax :: "u64 \<Rightarrow> u64 \<Rightarrow> nat" where
  "vlmax vlenb vtype =
     (let m = unat (vtype AND 7); e = unat (drop_bit 3 vtype AND 7)
      in (if m < 4 then unat vlenb * 2 ^ m else unat vlenb div 2 ^ (8 - m)) div 2 ^ e)"

definition grants_length :: "vec_unit \<Rightarrow> bool" where
  "grants_length U \<longleftrightarrow> (\<forall>vlenb avl vtype. unat avl \<le> vlmax vlenb vtype \<longrightarrow> granted U vlenb avl vtype = avl)"

text \<open>A register group of the instruction holds \<open>n\<close>-byte elements up to \<open>evl\<close> without leaving the eight
  registers it lies in; the last one is a register that exists.\<close>

definition group_fits :: "u64 \<Rightarrow> nat \<Rightarrow> nat \<Rightarrow> nat \<Rightarrow> bool" where
  "group_fits vlenb r n evl \<longleftrightarrow> r < 32 \<and> (r mod 8) * unat vlenb + evl * n \<le> 8 * unat vlenb"

text \<open>What holds of an instruction that reached memory: it is legal, its vector length fits its type and its
  register groups, and it has an element left to process.\<close>

definition vec_legal :: "vec_insn \<Rightarrow> ('d, 'z) vec_mach_scheme \<Rightarrow> bool" where
  "vec_legal f s \<longleftrightarrow> \<not> vi_illegal f \<and> unat (v_vlenb s) \<le> VLEN_MAX div 8 \<and> v_vstart s < vi_evl f
     \<and> unat (v_vl s) \<le> vlmax (v_vlenb s) (v_vtype s) \<and> (vi_fof f \<longrightarrow> 0 < v_vl s)
     \<and> (\<forall>seg < unat (vi_nf f). group_fits (v_vlenb s) (unat (vi_vd f) + seg * unat (vi_emul f)) (unat (vi_len f)) (unat (vi_evl f)))
     \<and> (vi_indexed f \<longrightarrow> group_fits (v_vlenb s) (unat (vi_vs2 f)) (2 ^ unat (vi_view f)) (unat (vi_evl f)))
     \<and> (vi_masked f \<longrightarrow> unat (vi_evl f) \<le> 8 * unat (v_vlenb s))"

section \<open>Register groups\<close>

text \<open>States up to the length, type and start that the runtime overwrites and restores.\<close>

definition forget :: "('d, 'z) vec_mach_scheme \<Rightarrow> ('d, 'z) vec_mach_scheme" where
  "forget s = s\<lparr>v_vl := 0, v_vtype := 0, v_vstart := 0\<rparr>"

lemma forget_restore:
  assumes "forget t = forget s"
  shows "t\<lparr>v_vl := a, v_vtype := b, v_vstart := c\<rparr> = s\<lparr>v_vl := a, v_vtype := b, v_vstart := c\<rparr>"
proof -
  have "(forget t)\<lparr>v_vl := a, v_vtype := b, v_vstart := c\<rparr> = (forget s)\<lparr>v_vl := a, v_vtype := b, v_vstart := c\<rparr>"
    using assms by simp
  then show ?thesis by (simp add: forget_def)
qed

lemma forget_fields:
  assumes "forget t = forget s"
  shows "vbytes t = vbytes s" "v_vlenb t = v_vlenb s"
proof -
  have "vbytes (forget t) = vbytes (forget s)" "v_vlenb (forget t) = v_vlenb (forget s)" using assms by simp_all
  then show "vbytes t = vbytes s" "v_vlenb t = v_vlenb s" by (simp_all add: forget_def)
qed

lemma group_position:
  fixes which pos len vlenb :: u64
  assumes "unat which < 32" "(unat which mod 8) * unat vlenb + unat pos + unat len \<le> 8 * unat vlenb" "unat vlenb \<le> 512"
  shows "which div 8 < 4" "unat (pos + (which mod 8) * vlenb) = unat pos + (unat which mod 8) * unat vlenb"
    "unat (pos + (which mod 8) * vlenb + len) = unat pos + (unat which mod 8) * unat vlenb + unat len"
    "unat (which div 8 * 8 * vlenb) + (unat which mod 8) * unat vlenb = unat which * unat vlenb"
proof -
  have m: "unat (which mod 8) = unat which mod 8" "unat (which div 8) = unat which div 8"
    by (simp_all add: unat_mod unat_div)
  have w4: "unat which div 8 < 4" using assms(1) by simp
  then show "which div 8 < 4" using m(2) by (simp add: word_less_nat_alt)
  have w8: "(unat which mod 8) * unat vlenb \<le> 8 * 512" by (rule mult_le_mono) (use assms(3) in simp_all)
  have mv: "unat ((which mod 8) * vlenb) = (unat which mod 8) * unat vlenb"
    using w8 m(1) by (simp add: unat_word_ariths)
  show p: "unat (pos + (which mod 8) * vlenb) = unat pos + (unat which mod 8) * unat vlenb"
    using mv assms(2,3) by (subst unat_u64_plus) simp_all
  show "unat (pos + (which mod 8) * vlenb + len) = unat pos + (unat which mod 8) * unat vlenb + unat len"
    using p assms(2,3) by (subst unat_u64_plus) simp_all
  have g: "unat (which div 8 * 8) = (unat which div 8) * 8" using w4 m(2) by (simp add: unat_word_ariths)
  have "(unat which div 8) * 8 * unat vlenb \<le> 4 * 8 * 512"
    by (intro mult_le_mono) (use w4 assms(3) in simp_all)
  then have "unat (which div 8 * 8 * vlenb) = (unat which div 8) * 8 * unat vlenb"
    using g by (simp add: unat_word_ariths)
  moreover have "(unat which div 8) * 8 * unat vlenb + (unat which mod 8) * unat vlenb
      = ((unat which div 8) * 8 + unat which mod 8) * unat vlenb" by (simp only: add_mult_distrib)
  ultimately show "unat (which div 8 * 8 * vlenb) + (unat which mod 8) * unat vlenb = unat which * unat vlenb"
    by simp
qed

lemma vlmax_bytes: "vlmax vlenb VTYPE_E8_M8 = 8 * unat vlenb"
  by (simp add: vlmax_def VTYPE_E8_M8_def)

lemma get_vreg_elem:
  assumes U: "grants_length U" and fit: "unat which < 32" "(unat which mod 8) * unat (v_vlenb s) + unat pos + unat len \<le> 8 * unat (v_vlenb s)"
    "unat (v_vlenb s) \<le> 512"
  shows "\<exists>t. get_vreg U (v_vlenb s) which pos len old s = (map (\<lambda>k. if k < unat len
      then vbytes s (unat which * unat (v_vlenb s) + unat pos + k) else old ! k) [0..<length old], t) \<and> forget t = forget s"
proof -
  note P = group_position [OF fit]
  define p where "p = pos + (which mod 8) * v_vlenb s"
  define q where "q = p + len"
  have up: "unat p = unat pos + (unat which mod 8) * unat (v_vlenb s)" and uq: "unat q = unat p + unat len"
    using P(2,3) by (simp_all add: p_def q_def)
  note W = P(4)
  have g: "granted U (v_vlenb s) q VTYPE_E8_M8 = q"
    using U uq up fit(2) by (simp add: grants_length_def vlmax_bytes)
  show ?thesis
    unfolding get_vreg_def Let_def p_def [symmetric] q_def [symmetric]
    using P(1) by (simp add: vse8_def vsetvl_def g up uq W [symmetric] forget_def ac_simps cong: if_cong)
qed

lemma set_vreg_elem:
  assumes U: "grants_length U" and fit: "unat which < 32" "(unat which mod 8) * unat (v_vlenb s) + unat pos + unat len \<le> 8 * unat (v_vlenb s)"
    "unat (v_vlenb s) \<le> 512"
  shows "forget (set_vreg U (v_vlenb s) which pos len bs s) = forget (s\<lparr>vbytes := (\<lambda>j. let p = unat which * unat (v_vlenb s) + unat pos
      in if p \<le> j \<and> j < p + unat len then bs ! (j - p) else vbytes s j)\<rparr>)"
proof -
  note P = group_position [OF fit]
  define p where "p = pos + (which mod 8) * v_vlenb s"
  define q where "q = p + len"
  have up: "unat p = unat pos + (unat which mod 8) * unat (v_vlenb s)" and uq: "unat q = unat p + unat len"
    using P(2,3) by (simp_all add: p_def q_def)
  note W = P(4)
  have g: "granted U (v_vlenb s) q VTYPE_E8_M8 = q"
    using U uq up fit(2) by (simp add: grants_length_def vlmax_bytes)
  show ?thesis
    unfolding set_vreg_def Let_def p_def [symmetric] q_def [symmetric]
    using P(1) by (simp add: vle8_def vsetvl_def Let_def g up uq W [symmetric] forget_def ac_simps diff_diff_eq cong: if_cong)
qed

lemma fits_elem:
  assumes "group_fits vlenb r n evl" "i < evl" "unat vlenb \<le> 512"
  shows "r < 32" "(r mod 8) * unat vlenb + i * n + n \<le> 8 * unat vlenb" "i * n < 2 ^ 64" "n < 2 ^ 64"
proof -
  have "Suc i * n \<le> evl * n" using assms(2) by (intro mult_le_mono1) simp
  then have "i * n + n \<le> evl * n" by simp
  then show "r < 32" "(r mod 8) * unat vlenb + i * n + n \<le> 8 * unat vlenb" "i * n < 2 ^ 64" "n < 2 ^ 64"
    using assms(1,3) by (simp_all add: group_fits_def)
qed

text \<open>Reading and writing element \<open>i\<close> of the group at \<open>r\<close>.\<close>

lemma get_elem:
  assumes "grants_length U" "unat vlenb \<le> 512" "group_fits vlenb r n evl" "i < evl" "v_vlenb s = vlenb" "length old = n"
  shows "\<exists>t. get_vreg U vlenb (of_nat r) (of_nat (i * n)) (of_nat n) old s = (velem (unat vlenb) (vbytes s) r n i, t) \<and> forget t = forget s"
proof -
  note F = fits_elem [OF assms(3,4,2)]
  have u: "unat (of_nat r :: u64) = r" "unat (of_nat (i * n) :: u64) = i * n" "unat (of_nat n :: u64) = n"
    by (rule unat_u64_of_nat, use F in simp)+
  have "\<exists>t. get_vreg U (v_vlenb s) (of_nat r) (of_nat (i * n)) (of_nat n) old s = (map (\<lambda>k. if k < n
      then vbytes s (r * unat (v_vlenb s) + i * n + k) else old ! k) [0..<length old], t) \<and> forget t = forget s"
    by (rule get_vreg_elem [OF assms(1), of "of_nat r" s "of_nat (i * n)" "of_nat n", unfolded u]) (use F assms(2,5) in simp_all)
  moreover have "map (\<lambda>k. if k < n then vbytes s (r * unat vlenb + i * n + k) else old ! k) [0..<n] = velem (unat vlenb) (vbytes s) r n i"
    by (simp add: velem_def)
  ultimately show ?thesis unfolding assms(5,6) by simp
qed

lemma set_elem:
  assumes "grants_length U" "unat vlenb \<le> 512" "group_fits vlenb r n evl" "i < evl" "v_vlenb s = vlenb"
  shows "forget (set_vreg U vlenb (of_nat r) (of_nat (i * n)) (of_nat n) bs s)
    = forget (s\<lparr>vbytes := put_velem (unat vlenb) r n i bs (vbytes s)\<rparr>)"
proof -
  note F = fits_elem [OF assms(3,4,2)]
  have u: "unat (of_nat r :: u64) = r" "unat (of_nat (i * n) :: u64) = i * n" "unat (of_nat n :: u64) = n"
    by (rule unat_u64_of_nat, use F in simp)+
  have "forget (set_vreg U (v_vlenb s) (of_nat r) (of_nat (i * n)) (of_nat n) bs s) = forget (s\<lparr>vbytes := (\<lambda>j. let p = r * unat (v_vlenb s) + i * n
      in if p \<le> j \<and> j < p + n then bs ! (j - p) else vbytes s j)\<rparr>)"
    by (rule set_vreg_elem [OF assms(1), of "of_nat r" s "of_nat (i * n)" "of_nat n", unfolded u]) (use F assms(2,5) in simp_all)
  then show ?thesis by (simp add: assms(5) put_velem_def)
qed

section \<open>Simulation\<close>

lemma seg_bytes_upt: "seg_bytes f = [0..<unat (vi_nf f) * unat (vi_len f)]"
proof -
  have "map (\<lambda>(seg, i). seg * n + i) (List.product [0..<m] [0..<n]) = [0..<m * n]" for m n :: nat
  proof (induction m)
    case (Suc m)
    have "map (\<lambda>i. m * n + i) [0..<n] = [m * n..<m * n + n]" by (simp add: map_add_upt add.commute)
    moreover have "[0..<Suc m * n] = [0..<m * n] @ [m * n..<m * n + n]"
      using upt_add_eq_append [of 0 "m * n" n] by (simp only: mult_Suc add.commute [of n] le0)
    ultimately show ?case using Suc by (simp add: product_concat_map comp_def)
  qed simp
  then show ?thesis by (simp add: seg_bytes_def)
qed

lemma forget_vbytes:
  assumes "forget t = forget s"
  shows "forget (t\<lparr>vbytes := v\<rparr>) = forget (s\<lparr>vbytes := v\<rparr>)"
proof -
  have "(forget t)\<lparr>vbytes := v\<rparr> = (forget s)\<lparr>vbytes := v\<rparr>" using assms by simp
  moreover have "forget (r\<lparr>vbytes := v\<rparr>) = (forget r)\<lparr>vbytes := v\<rparr>" for r :: "('a, 'b) vec_mach_scheme"
    by (cases r) (simp add: forget_def)
  ultimately show ?thesis by simp
qed

text \<open>The registers of an instruction that fits: \<open>reg\<close> is the first register of a segment's group.\<close>

definition seg_reg :: "vec_insn \<Rightarrow> nat \<Rightarrow> nat" where
  "seg_reg f seg = unat (vi_vd f) + seg * unat (vi_emul f)"

lemma reg_words:
  "vi_vd f + of_nat seg * vi_emul f = of_nat (seg_reg f seg)" "of_nat i * vi_len f = of_nat (i * unat (vi_len f))"
  "push_bit k (of_nat i) = (of_nat (i * 2 ^ k) :: u64)" "push_bit k 1 = (of_nat (2 ^ k) :: u64)"
  by (simp_all add: seg_reg_def push_bit_eq_mult)

definition segs_fit :: "vec_insn \<Rightarrow> u64 \<Rightarrow> bool" where
  "segs_fit f vlenb \<longleftrightarrow> unat vlenb \<le> 512
     \<and> (\<forall>seg < unat (vi_nf f). group_fits vlenb (seg_reg f seg) (unat (vi_len f)) (unat (vi_evl f)))"

lemma get_segs_elem:
  assumes "grants_length U" "segs_fit f vlenb" "i < unat (vi_evl f)" "v_vlenb s = vlenb"
  shows "\<exists>t. get_segs U f vlenb (of_nat i) s
      = (concat (map (\<lambda>seg. velem (unat vlenb) (vbytes s) (seg_reg f seg) (unat (vi_len f)) i) [0..<unat (vi_nf f)]), t) \<and> forget t = forget s"
proof -
  let ?n = "unat (vi_len f)"
  have "m \<le> unat (vi_nf f) \<Longrightarrow> \<exists>t. fold (\<lambda>seg (bytes, s).
             let (b, s) = get_vreg U vlenb (vi_vd f + of_nat seg * vi_emul f) (of_nat i * vi_len f) (vi_len f)
                            (map (junk U) [seg * ?n ..< Suc seg * ?n]) s
             in (bytes @ b, s)) [0..<m] ([], s)
      = (concat (map (\<lambda>seg. velem (unat vlenb) (vbytes s) (seg_reg f seg) ?n i) [0..<m]), t) \<and> forget t = forget s" for m
  proof (induction m)
    case (Suc m)
    then obtain t where t: "fold (\<lambda>seg (bytes, s).
             let (b, s) = get_vreg U vlenb (vi_vd f + of_nat seg * vi_emul f) (of_nat i * vi_len f) (vi_len f)
                            (map (junk U) [seg * ?n ..< Suc seg * ?n]) s
             in (bytes @ b, s)) [0..<m] ([], s)
      = (concat (map (\<lambda>seg. velem (unat vlenb) (vbytes s) (seg_reg f seg) ?n i) [0..<m]), t)" "forget t = forget s" by auto
    have v: "v_vlenb t = vlenb" "vbytes t = vbytes s" using forget_fields [OF t(2)] assms(4) by simp_all
    have fit: "unat vlenb \<le> 512" "group_fits vlenb (seg_reg f m) ?n (unat (vi_evl f))"
      using assms(2) Suc.prems by (simp_all add: segs_fit_def)
    from get_elem [OF assms(1) fit assms(3) v(1), of "map (junk U) [m * ?n ..< Suc m * ?n]"]
    obtain t' where "get_vreg U vlenb (vi_vd f + of_nat m * vi_emul f) (of_nat i * vi_len f) (vi_len f)
        (map (junk U) [m * ?n ..< Suc m * ?n]) t = (velem (unat vlenb) (vbytes s) (seg_reg f m) ?n i, t')" "forget t' = forget t"
      unfolding reg_words(1,2) v(2) by auto
    then show ?case using t by simp
  qed simp
  from this [of "unat (vi_nf f)"] show ?thesis unfolding get_segs_def by simp
qed

lemma set_segs_elem:
  assumes "grants_length U" "segs_fit f vlenb" "i < unat (vi_evl f)" "v_vlenb s = vlenb"
  shows "forget (set_segs U f vlenb (of_nat i) bs s) = forget (s\<lparr>vbytes :=
    fold (\<lambda>seg. put_velem (unat vlenb) (seg_reg f seg) (unat (vi_len f)) i (chunk f seg bs)) [0..<unat (vi_nf f)] (vbytes s)\<rparr>)"
proof -
  let ?n = "unat (vi_len f)"
  let ?code = "\<lambda>m. fold (\<lambda>seg. set_vreg U vlenb (vi_vd f + of_nat seg * vi_emul f) (of_nat i * vi_len f) (vi_len f) (chunk f seg bs)) [0..<m] s"
  let ?isa = "\<lambda>m. fold (\<lambda>seg. put_velem (unat vlenb) (seg_reg f seg) ?n i (chunk f seg bs)) [0..<m] (vbytes s)"
  have "m \<le> unat (vi_nf f) \<Longrightarrow> forget (?code m) = forget (s\<lparr>vbytes := ?isa m\<rparr>)" for m
  proof (induction m)
    case 0
    have "s\<lparr>vbytes := vbytes s\<rparr> = s" by (cases s) simp
    then show ?case by simp
  next
    case (Suc m)
    define C where "C = ?code m"
    have t: "forget C = forget (s\<lparr>vbytes := ?isa m\<rparr>)" using Suc by (simp add: C_def)
    have v: "v_vlenb C = vlenb" "vbytes C = ?isa m" using forget_fields [OF t] assms(4) by simp_all
    have fit: "unat vlenb \<le> 512" "group_fits vlenb (seg_reg f m) ?n (unat (vi_evl f))"
      using assms(2) Suc.prems by (simp_all add: segs_fit_def)
    have "forget (?code (Suc m)) = forget (set_vreg U vlenb (of_nat (seg_reg f m)) (of_nat (i * ?n)) (of_nat ?n) (chunk f m bs) C)"
      unfolding C_def reg_words [symmetric] by simp
    also have "\<dots> = forget (C\<lparr>vbytes := ?isa (Suc m)\<rparr>)"
      using set_elem [OF assms(1) fit assms(3) v(1), of "chunk f m bs"] unfolding v(2) by simp
    also have "\<dots> = forget (s\<lparr>vbytes := ?isa m\<rparr>\<lparr>vbytes := ?isa (Suc m)\<rparr>)" by (rule forget_vbytes [OF t])
    finally show ?case by simp
  qed
  from this [of "unat (vi_nf f)"] show ?thesis unfolding set_segs_def by simp
qed

text \<open>The state of the emulation against that of the reference, whose length and type are the program's.\<close>

definition tracks :: "('d, 'z) vec_mach_scheme \<Rightarrow> ('d, 'z) vec_mach_scheme \<Rightarrow> ('d, 'z) vec_mach_scheme \<Rightarrow> bool" where
  "tracks s0 t s \<longleftrightarrow> forget t = forget s \<and> v_vl s = v_vl s0 \<and> v_vtype s = v_vtype s0 \<and> v_vlenb s = v_vlenb s0"

lemma store_keeps:
  assumes "foldE (\<lambda>k. store_unpriv W 1 (addr + of_nat k) (v k) mepc) ks s = Inr s'"
  shows "v_vl s' = v_vl s \<and> v_vtype s' = v_vtype s \<and> v_vlenb s' = v_vlenb s"
  by (rule foldE_invariant [OF assms]) (auto simp: store_unpriv_def bindE_eq_Inr)

lemma bind_sim:
  assumes "\<And>x. Q (F x) (G x)"
  shows "rel_sum (=) Q (bindE m (\<lambda>x. Inr (F x))) (bindE m (\<lambda>x. Inr (G x)))"
  using assms by (cases m) simp_all

lemma element_sim:
  assumes U: "grants_length U" and fit: "segs_fit f (v_vlenb s0)" and i: "i < unat (vi_evl f)"
    and idx: "vi_indexed f \<Longrightarrow> group_fits (v_vlenb s0) (unat (vi_vs2 f)) (2 ^ unat (vi_view f)) (unat (vi_evl f))"
    and vl: "unat (v_vl s0) \<le> vlmax (v_vlenb s0) (v_vtype s0)" and t: "tracks s0 t s"
  shows "rel_sum (=) (tracks s0) (vec_element U W f (v_vl s0) (v_vtype s0) (v_vlenb s0) mepc (of_nat i) t) (isa_element W f mepc i s)"
proof -
  let ?n = "unat (vi_len f)" and ?nf = "unat (vi_nf f)" and ?vlenb = "v_vlenb s0"
  have g: "granted U ?vlenb (v_vl s0) (v_vtype s0) = v_vl s0" using U vl by (simp add: grants_length_def)
  have small: "unat ?vlenb \<le> 512" using fit by (simp add: segs_fit_def)
  have S: "v_vl s = v_vl s0" "v_vtype s = v_vtype s0" "v_vlenb s = ?vlenb" "forget t = forget s"
    using t by (simp_all add: tracks_def)
  define r where "r = s\<lparr>v_vstart := of_nat i\<rparr>"
  have restore: "(vsetvl U (v_vl s0) (v_vtype s0) t')\<lparr>v_vstart := of_nat i\<rparr> = r" if "forget t' = forget s" for t'
  proof -
    have "s\<lparr>v_vl := v_vl s0, v_vtype := v_vtype s0, v_vstart := of_nat i\<rparr> = r"
      unfolding r_def using S(1,2) by (cases s) simp
    moreover have "v_vlenb t' = ?vlenb" using forget_fields(2) [OF that] S(3) by simp
    ultimately show ?thesis using forget_restore [OF that, where a = "v_vl s0" and b = "v_vtype s0" and c = "of_nat i"] g by (simp add: vsetvl_def)
  qed
  have R: "v_vl r = v_vl s0" "v_vtype r = v_vtype s0" "v_vlenb r = ?vlenb" "vbytes r = vbytes s" "forget r = forget s"
    using S by (simp_all add: r_def forget_def)
  define addr where "addr = vi_base f + (if vi_indexed f
      then le_word (velem (unat ?vlenb) (vbytes s) (unat (vi_vs2 f)) (2 ^ unat (vi_view f)) i) else of_nat i * vi_stride f)"
  define at where "at = (if vi_indexed f
      then let (offset, s) = get_vreg U ?vlenb (vi_vs2 f) (push_bit (unat (vi_view f)) (of_nat i))
                               (push_bit (unat (vi_view f)) 1) (replicate (2 ^ unat (vi_view f)) 0) t
           in (vi_base f + le_word offset, s)
      else (vi_base f + of_nat i * vi_stride f, t))"
  obtain t1 where t1: "at = (addr, t1)" "forget t1 = forget s"
  proof (cases "vi_indexed f")
    case True
    have v: "v_vlenb t = ?vlenb" "vbytes t = vbytes s" using forget_fields [OF S(4)] S(3) by simp_all
    from get_elem [OF U small idx [OF True] i v(1), of "replicate (2 ^ unat (vi_view f)) 0"]
    obtain t' where "get_vreg U ?vlenb (vi_vs2 f) (push_bit (unat (vi_view f)) (of_nat i))
        (push_bit (unat (vi_view f)) 1) (replicate (2 ^ unat (vi_view f)) 0) t
      = (velem (unat ?vlenb) (vbytes s) (unat (vi_vs2 f)) (2 ^ unat (vi_view f)) i, t')" "forget t' = forget t"
      unfolding reg_words(3,4) v(2) by auto
    then show ?thesis using that [of t'] True S(4) by (simp add: at_def addr_def)
  next
    case False
    then show ?thesis using that [of t] S(4) by (simp add: at_def addr_def)
  qed
  have v1: "v_vlenb t1 = ?vlenb" "vbytes t1 = vbytes s" using forget_fields [OF t1(2)] S(3) by simp_all
  have code: "vec_element U W f (v_vl s0) (v_vtype s0) ?vlenb mepc (of_nat i) t =
     (let (addr, t1) = at;
          (bytes, t1) = (if vi_load f then ([], t1) else get_segs U f ?vlenb (of_nat i) t1);
          t1 = (vsetvl U (v_vl s0) (v_vtype s0) t1)\<lparr>v_vstart := of_nat i\<rparr>
      in if vi_load f
         then bindE (foldE (\<lambda>i bytes. bindE (load_unpriv W 1 (addr + of_nat i) mepc t1) (\<lambda>b. Inr (bytes @ [ucast b])))
                       (seg_bytes f) []) (\<lambda>bytes.
                Inr (set_segs U f ?vlenb (of_nat i) bytes t1))
         else foldE (\<lambda>i t1. store_unpriv W 1 (addr + of_nat i) (ucast (bytes ! i)) mepc t1) (seg_bytes f) t1)"
    by (simp only: vec_element_def at_def)
  show ?thesis
  proof (cases "vi_load f")
    case True
    let ?load = "foldE (\<lambda>k bs. bindE (load_unpriv W 1 (addr + of_nat k) mepc r) (\<lambda>b. Inr (bs @ [ucast b]))) [0..<?nf * ?n] []"
    have c: "vec_element U W f (v_vl s0) (v_vtype s0) ?vlenb mepc (of_nat i) t
        = bindE ?load (\<lambda>bytes. Inr (set_segs U f ?vlenb (of_nat i) bytes r))"
      unfolding code using True by (simp add: t1(1) restore [OF t1(2)] seg_bytes_upt)
    have s: "isa_element W f mepc i s = bindE ?load (\<lambda>bs. Inr (r\<lparr>vbytes :=
        fold (\<lambda>seg. put_velem (unat ?vlenb) (seg_reg f seg) ?n i (chunk f seg bs)) [0..<?nf] (vbytes r)\<rparr>))"
      using True by (simp add: isa_element_def Let_def r_def S(3) addr_def isa_addr_def chunk_def seg_reg_def cong: if_cong)
    have "tracks s0 (set_segs U f ?vlenb (of_nat i) bs r) (r\<lparr>vbytes :=
        fold (\<lambda>seg. put_velem (unat ?vlenb) (seg_reg f seg) ?n i (chunk f seg bs)) [0..<?nf] (vbytes r)\<rparr>)" for bs
      using set_segs_elem [OF U fit i R(3)] R by (simp add: tracks_def)
    then show ?thesis unfolding c s by (rule bind_sim)
  next
    case False
    let ?bs = "concat (map (\<lambda>seg. velem (unat ?vlenb) (vbytes s) (seg_reg f seg) ?n i) [0..<?nf])"
    let ?store = "foldE (\<lambda>k. store_unpriv W 1 (addr + of_nat k) (ucast (?bs ! k)) mepc) [0..<?nf * ?n] r"
    from get_segs_elem [OF U fit i v1(1)] obtain t2 where t2: "get_segs U f ?vlenb (of_nat i) t1 = (?bs, t2)" "forget t2 = forget s"
      using t1(2) unfolding v1(2) by auto
    have c: "vec_element U W f (v_vl s0) (v_vtype s0) ?vlenb mepc (of_nat i) t = ?store"
      unfolding code using False by (simp add: t1(1) t2(1) restore [OF t2(2)] seg_bytes_upt)
    have s: "isa_element W f mepc i s = ?store"
      using False by (simp add: isa_element_def isa_store_bytes_def Let_def r_def S(3) addr_def isa_addr_def seg_reg_def cong: if_cong)
    show ?thesis unfolding c s
    proof (cases ?store)
      case (Inr s')
      then show "rel_sum (=) (tracks s0) ?store ?store" using store_keeps [OF Inr] R by (simp add: tracks_def)
    qed simp
  qed
qed

lemma vec_loop_sim:
  assumes "a < unat evl" "Q t s"
    and "\<And>i t s. i < unat evl \<Longrightarrow> Q t s \<Longrightarrow> rel_sum (=) Q (body (of_nat i) t) (g i s)"
  shows "rel_sum (=) Q (vec_loop body evl fof (of_nat a) t) (foldE g [a..<if fof then Suc a else unat evl] s)"
  using assms(1,2)
proof (induction "unat evl - a" arbitrary: a t s)
  case (Suc d)
  have b: "rel_sum (=) Q (body (of_nat a) t) (g a s)" by (rule assms(3)) (use Suc.prems in auto)
  have ua: "unat (of_nat a :: u64) = a" using Suc.prems(1) unat_u64_lt [of evl] by (intro unat_u64_of_nat) simp
  have n: "of_nat a + 1 < evl \<longleftrightarrow> Suc a < unat evl"
  proof -
    have "of_nat a + 1 = (of_nat (Suc a) :: u64)" by simp
    moreover have "of_nat (Suc a) < evl \<longleftrightarrow> Suc a < unat evl"
    proof (cases "Suc a = unat evl")
      case True
      then have "of_nat (Suc a) = evl" by (simp only:) simp
      then show ?thesis using True by simp
    next
      case False
      then have "unat (of_nat (Suc a) :: u64) = Suc a"
        using Suc.prems(1) unat_u64_lt [of evl] by (intro unat_u64_of_nat) simp
      then show ?thesis by (simp only: word_less_nat_alt)
    qed
    ultimately show ?thesis by (simp only:)
  qed
  have l: "[a..<if fof then Suc a else unat evl] = a # (if fof then [] else [Suc a..<unat evl])"
    using Suc.prems(1) by (simp add: upt_conv_Cons)
  show ?case
  proof (cases "body (of_nat a) t")
    case (Inl e)
    then show ?thesis using b by (cases "g a s") (simp_all add: l vec_loop.simps [of body])
  next
    case (Inr t1)
    then obtain s1 where s1: "g a s = Inr s1" "Q t1 s1" using b by (cases "g a s") simp_all
    have unfold: "vec_loop body evl fof (of_nat a) t
        = (if Suc a < unat evl \<and> \<not> fof then vec_loop body evl fof (of_nat (Suc a)) t1 else Inr t1)"
      using Inr n by (subst vec_loop.simps) (simp add: add.commute)
    show ?thesis
    proof (cases "Suc a < unat evl \<and> \<not> fof")
      case True
      have "rel_sum (=) Q (vec_loop body evl fof (of_nat (Suc a)) t1) (foldE g [Suc a..<if fof then Suc (Suc a) else unat evl] s1)"
        by (rule Suc.hyps(1)) (use Suc.hyps(2) True s1(2) in auto)
      then show ?thesis using True s1(1) unfolding unfold l by simp
    next
      case False
      then have "fof \<or> [Suc a..<unat evl] = []" by auto
      then show ?thesis using False s1 unfolding unfold l by auto
    qed
  qed
qed simp

text \<open>The mask is read once, from register 0.\<close>

lemma mask_elem:
  assumes "grants_length U" "unat (v_vlenb s) \<le> 512" "length old = VLEN_MAX div 8"
  shows "\<exists>mask t. get_vreg U (v_vlenb s) 0 0 (v_vlenb s) old s = (mask, t) \<and> forget t = forget s
    \<and> (\<forall>k < unat (v_vlenb s). mask ! k = vbytes s k)"
proof -
  have "unat (0 :: u64) < 32" "unat (0 :: u64) mod 8 * unat (v_vlenb s) + unat (0 :: u64) + unat (v_vlenb s) \<le> 8 * unat (v_vlenb s)"
    by simp_all
  from get_vreg_elem [OF assms(1) this assms(2), of old] show ?thesis
    using assms(2,3) by (fastforce simp: VLEN_MAX_def)
qed

lemma mask_bit:
  assumes "i < 8 * unat vlenb" "unat vlenb \<le> 512"
  shows "\<not> VLEN_MAX div 8 \<le> unat (of_nat i div 8 :: u64)" "unat (of_nat i div 8 :: u64) = i div 8"
    "unat (of_nat i mod 8 :: u64) = i mod 8"
proof -
  have "unat (of_nat i :: u64) = i" using assms by (intro unat_u64_of_nat) simp
  then show "unat (of_nat i div 8 :: u64) = i div 8" "unat (of_nat i mod 8 :: u64) = i mod 8"
    by (simp_all add: unat_div unat_mod)
  then show "\<not> VLEN_MAX div 8 \<le> unat (of_nat i div 8 :: u64)" using assms by (simp add: VLEN_MAX_def)
qed

lemma bit_as_drop: "drop_bit n w AND 1 \<noteq> 0 \<longleftrightarrow> bit (w :: u8) n"
  by (simp add: bit_iff_and_drop_bit_eq_1 and_one_eq mod_2_eq_odd)

lemma misaligned_vec_refines:
  assumes U: "grants_length U" and legal: "vec_legal (decode_vec insn s) s"
  shows "misaligned_vec_ldst U W mepc mstatus insn s = isa_vec W (decode_vec insn s) mepc s"
proof -
  define f where "f = decode_vec insn s"
  note L = legal [folded f_def]
  have vlenb: "unat (v_vlenb s) \<le> 512" using L by (simp add: vec_legal_def VLEN_MAX_def)
  have fit: "segs_fit f (v_vlenb s)" using L vlenb by (simp add: vec_legal_def segs_fit_def seg_reg_def)
  have vl: "unat (v_vl s) \<le> vlmax (v_vlenb s) (v_vtype s)" using L by (simp add: vec_legal_def)
  have g: "granted U (v_vlenb s) (if vi_fof f then 1 else v_vl s) (v_vtype s) = (if vi_fof f then 1 else v_vl s)"
    using U vl L by (auto simp: grants_length_def vec_legal_def word_less_nat_alt)
  let ?old = "map (junk U) [0..<VLEN_MAX div 8]"
  define mt where "mt = (if vi_masked f then get_vreg U (v_vlenb s) 0 0 (v_vlenb s) ?old s else (?old, s))"
  obtain mask t where mt: "mt = (mask, t)" "forget t = forget s" "vi_masked f \<Longrightarrow> \<forall>k < unat (v_vlenb s). mask ! k = vbytes s k"
  proof (cases "vi_masked f")
    case True
    from mask_elem [OF U vlenb, of ?old] show ?thesis using that True by (auto simp: mt_def)
  qed (use that in \<open>simp add: mt_def\<close>)
  let ?active = "\<lambda>i. \<not> vi_masked f \<or> bit (vbytes s (i div 8)) (i mod 8)"
  let ?body = "\<lambda>vstart t. if \<not> vi_masked f then vec_element U W f (v_vl s) (v_vtype s) (v_vlenb s) mepc vstart t
      else if VLEN_MAX div 8 \<le> unat (vstart div 8) then Inl (Stop (Undefined ''mask''))
      else if drop_bit (unat (vstart mod 8)) (mask ! unat (vstart div 8)) AND 1 \<noteq> 0
      then vec_element U W f (v_vl s) (v_vtype s) (v_vlenb s) mepc vstart t
      else Inr t"
  let ?isa = "\<lambda>i s. if ?active i then isa_element W f mepc i s else Inr s"
  let ?first = "unat (v_vstart s)"
  have step: "rel_sum (=) (tracks s) (?body (of_nat i) t') (?isa i s')" if i: "i < unat (vi_evl f)" and t': "tracks s t' s'" for i t' s'
  proof -
    have E: "rel_sum (=) (tracks s) (vec_element U W f (v_vl s) (v_vtype s) (v_vlenb s) mepc (of_nat i) t') (isa_element W f mepc i s')"
      by (rule element_sim [OF U fit i _ vl t']) (use L in \<open>simp add: vec_legal_def\<close>)
    show ?thesis
    proof (cases "vi_masked f")
      case True
      then have i8: "i < 8 * unat (v_vlenb s)" using L i by (simp add: vec_legal_def)
      then have "mask ! (i div 8) = vbytes s (i div 8)" using mt(3) [OF True] by simp
      then show ?thesis using True E t' mask_bit [OF i8 vlenb] by (simp add: bit_as_drop)
    qed (use E in simp)
  qed
  have "?first < unat (vi_evl f)" using L by (simp add: vec_legal_def word_less_nat_alt)
  moreover have "tracks s t s" using mt(2) by (simp add: tracks_def)
  ultimately have sim: "rel_sum (=) (tracks s) (vec_loop ?body (vi_evl f) (vi_fof f) (of_nat ?first) t)
      (foldE ?isa [?first..<if vi_fof f then Suc ?first else unat (vi_evl f)] s)"
    by (rule vec_loop_sim) (rule step)
  have "misaligned_vec_ldst U W mepc mstatus insn s = (let (mask, t) = mt in
      bindE (vec_loop (\<lambda>vstart t. if \<not> vi_masked f then vec_element U W f (v_vl s) (v_vtype s) (v_vlenb s) mepc vstart t
        else if VLEN_MAX div 8 \<le> unat (vstart div 8) then Inl (Stop (Undefined ''mask''))
        else if drop_bit (unat (vstart mod 8)) (mask ! unat (vstart div 8)) AND 1 \<noteq> 0
        then vec_element U W f (v_vl s) (v_vtype s) (v_vlenb s) mepc vstart t
        else Inr t) (vi_evl f) (vi_fof f) (v_vstart s) t) (\<lambda>t.
      Inr (write_csr W MEPC (mepc + 4) (vsetvl U (if vi_fof f then 1 else v_vl s) (v_vtype s) t))))"
    using L unfolding misaligned_vec_ldst_def Let_def f_def [symmetric] mt_def by (simp add: vec_legal_def)
  then have code: "misaligned_vec_ldst U W mepc mstatus insn s = bindE (vec_loop ?body (vi_evl f) (vi_fof f) (of_nat ?first) t) (\<lambda>t.
      Inr (write_csr W MEPC (mepc + 4) (vsetvl U (if vi_fof f then 1 else v_vl s) (v_vtype s) t)))"
    unfolding mt(1) by simp
  have last: "vsetvl U (if vi_fof f then 1 else v_vl s) (v_vtype s) t' = s'\<lparr>v_vl := if vi_fof f then 1 else v_vl s', v_vstart := 0\<rparr>"
    if "tracks s t' s'" for t' s'
  proof -
    have T: "forget t' = forget s'" "v_vl s' = v_vl s" "v_vtype s' = v_vtype s" "v_vlenb s' = v_vlenb s"
      using that by (simp_all add: tracks_def)
    have "s'\<lparr>v_vl := x, v_vtype := v_vtype s, v_vstart := 0\<rparr> = s'\<lparr>v_vl := x, v_vstart := 0\<rparr>" for x
      using T(3) by (cases s') simp
    then show ?thesis
      using forget_restore [OF T(1), where a = "if vi_fof f then 1 else v_vl s" and b = "v_vtype s" and c = 0]
        forget_fields(2) [OF T(1)] T(2,4) g by (simp add: vsetvl_def)
  qed
  show ?thesis
    using sim last unfolding code isa_vec_def isa_elements_def Let_def f_def [symmetric]
    by (cases "vec_loop ?body (vi_evl f) (vi_fof f) (of_nat ?first) t";
        cases "foldE ?isa [?first..<if vi_fof f then Suc ?first else unat (vi_evl f)] s") simp_all
qed

section \<open>The instruction\<close>

text \<open>The fields of a vector load or store, as the instruction set lays them out: \<^verbatim>\<open>nf\<close> in bits 31 to 29, \<^verbatim>\<open>mew\<close> 28,
  \<^verbatim>\<open>mop\<close> 27 to 26, \<^verbatim>\<open>vm\<close> 25, \<^verbatim>\<open>lumop\<close>, \<^verbatim>\<open>rs2\<close> or \<^verbatim>\<open>vs2\<close> 24 to 20, \<^verbatim>\<open>rs1\<close> 19 to 15, \<^verbatim>\<open>width\<close> 14 to 12, \<^verbatim>\<open>vd\<close> 11 to 7.\<close>

definition insn_field :: "nat \<Rightarrow> nat \<Rightarrow> u64 \<Rightarrow> nat" where
  "insn_field hi lo w = unat w div 2 ^ lo mod 2 ^ (hi + 1 - lo)"

text \<open>The logarithm of the width in bytes that \<^verbatim>\<open>width\<close> encodes.\<close>

definition width_exp :: "nat \<Rightarrow> nat" where
  "width_exp w = (if w = 0 then 0 else if w = 5 then 1 else if w = 6 then 2 else 3)"

definition isa_vec_access :: "nat \<Rightarrow> u64 \<Rightarrow> bool" where
  "isa_vec_access opcode insn \<longleftrightarrow> insn_field 6 0 insn = opcode \<and> insn_field 14 12 insn \<in> {0, 5, 6, 7}"

definition sew_exp :: "u64 \<Rightarrow> nat" where "sew_exp vtype = insn_field 5 3 vtype"

text \<open>\<open>EMUL = (EEW / SEW) * LMUL\<close>, of which the registers of a fraction are one; \<open>lmul_exp\<close> is the logarithm of \<open>LMUL\<close>.\<close>

definition lmul_exp :: "u64 \<Rightarrow> int" where
  "lmul_exp vtype = (let m = insn_field 2 0 vtype in if m < 4 then int m else int m - 8)"

definition emul_exp :: "u64 \<Rightarrow> u64 \<Rightarrow> int" where
  "emul_exp insn vtype =
     (let sew = int (sew_exp vtype); mop = insn_field 27 26 insn;
          eew = (if mop = 1 \<or> mop = 3 then sew else int (width_exp (insn_field 14 12 insn)))
      in if mop = 0 \<and> insn_field 24 20 insn = 8 then 0 else lmul_exp vtype + eew - sew)"

text \<open>
  What the fields ask for.  \<^verbatim>\<open>mop\<close> 0 is unit-stride, 2 strided, 1 and 3 indexed (unordered and ordered); of the unit-stride
  accesses \<^verbatim>\<open>lumop\<close> 0 is the plain one, 8 a whole-register access and 16, for a load, fault-only-first.  The elements of an
  indexed access are as wide as \<open>SEW\<close> and \<^verbatim>\<open>width\<close> is that of the indices.  A whole-register access moves
  \<^verbatim>\<open>nf\<close> registers as one segment.  Register 0 of the program reads as zero.
\<close>

definition isa_fields :: "u64 \<Rightarrow> ('d, 'z) vec_mach_scheme \<Rightarrow> vec_insn" where
  "isa_fields insn s =
     (let nf = insn_field 31 29 insn + 1; mop = insn_field 27 26 insn; umop = insn_field 24 20 insn;
          width = width_exp (insn_field 14 12 insn); vlenb = unat (v_vlenb s);
          load = (insn_field 6 0 insn = 0x07); indexed = (mop = 1 \<or> mop = 3); whole = (mop = 0 \<and> umop = 8);
          eew = (if indexed then 2 ^ sew_exp (v_vtype s) else 2 ^ width);
          segments = (if whole then 1 else nf);
          x = (\<lambda>r. if r = 0 then 0 else xregs s ! r)
      in \<lparr>vi_masked = (insn_field 25 25 insn = 0), vi_indexed = indexed, vi_load = load,
          vi_illegal = (insn_field 28 28 insn = 1 \<or> mop = 0 \<and> umop \<noteq> 0 \<and> umop \<noteq> 8 \<and> \<not> (load \<and> umop = 16)),
          vi_fof = (mop = 0 \<and> umop = 16),
          vi_vd = of_nat (insn_field 11 7 insn), vi_vs2 = of_nat umop, vi_view = of_nat width,
          vi_len = of_nat eew, vi_nf = of_nat segments,
          vi_evl = (if whole then of_nat (nf * vlenb div eew) else v_vl s),
          vi_emul = of_nat (2 ^ nat (emul_exp insn (v_vtype s))),
          vi_base = x (insn_field 19 15 insn),
          vi_stride = (if mop = 2 then x umop else of_nat (segments * eew))\<rparr>)"

text \<open>When the instruction set executes the instruction: it is encoded validly for a vector unit of this size, with elements of at most
  eight bytes and a group of at most eight registers; the frame has the zero of register 0.\<close>

definition vec_executes :: "u64 \<Rightarrow> ('d, 'z) vec_mach_scheme \<Rightarrow> bool" where
  "vec_executes insn s \<longleftrightarrow> vec_legal (isa_fields insn s) s \<and> sew_exp (v_vtype s) \<le> 3
     \<and> - 3 \<le> emul_exp insn (v_vtype s) \<and> emul_exp insn (v_vtype s) \<le> 3 \<and> xregs s ! 0 = 0"

text \<open>The decoder of the runtime finds these fields.\<close>

lemma field_bound: "insn_field hi lo w < 2 ^ (hi + 1 - lo)"
  by (simp add: insn_field_def)

lemma field_word:
  assumes "0 < k"
  shows "drop_bit lo w AND mask k = (of_nat (insn_field (lo + k - 1) lo w) :: u64)"
proof -
  have u: "unat (take_bit k (drop_bit lo w)) = take_bit k (unat (drop_bit lo w))" by (rule unsigned_take_bit_eq)
  have "unat (take_bit k (drop_bit lo w)) = unat (drop_bit lo w) mod 2 ^ k" unfolding u by (rule take_bit_eq_mod)
  then have "unat (take_bit k (drop_bit lo w)) = insn_field (lo + k - 1) lo w"
    using assms unat_drop_bit_eq [of lo w] drop_bit_eq_div [of lo "unat w"] by (simp add: insn_field_def del: unat_drop_bit_eq)
  moreover have "take_bit k (drop_bit lo w) = of_nat (unat (take_bit k (drop_bit lo w)))" by simp
  ultimately show ?thesis by (simp only: take_bit_eq_mask)
qed

lemma field_small: "insn_field hi lo w < 2 ^ 64"
proof -
  have "unat w div 2 ^ lo \<le> unat w" by simp
  moreover have "insn_field hi lo w \<le> unat w div 2 ^ lo" unfolding insn_field_def by (rule mod_less_eq_dividend)
  ultimately show ?thesis using unat_u64_lt [of w] by linarith
qed

lemma unat_field [simp]: "unat (of_nat (insn_field hi lo w) :: u64) = insn_field hi lo w"
  by (rule unat_u64_of_nat [OF field_small])

lemma field_eq_iff: "of_nat (insn_field hi lo w) = (c :: u64) \<longleftrightarrow> insn_field hi lo w = unat c"
  by (metis unat_field word_unat_eq_iff)

lemma fields:
  fixes insn :: u64
  shows "drop_bit 29 insn AND 7 = of_nat (insn_field 31 29 insn)" "drop_bit 28 insn AND 1 = of_nat (insn_field 28 28 insn)"
    and "drop_bit 26 insn AND 3 = of_nat (insn_field 27 26 insn)" "drop_bit 25 insn AND 1 = of_nat (insn_field 25 25 insn)"
    and "drop_bit 20 insn AND 0x1f = of_nat (insn_field 24 20 insn)" "drop_bit 15 insn AND 0x1f = of_nat (insn_field 19 15 insn)"
    and "drop_bit 12 insn AND 7 = of_nat (insn_field 14 12 insn)" "drop_bit 12 insn AND 3 = of_nat (insn_field 13 12 insn)"
    and "drop_bit 7 insn AND 0x1f = of_nat (insn_field 11 7 insn)" "drop_bit 5 insn AND 1 = of_nat (insn_field 5 5 insn)"
    and "insn AND 0x7f = of_nat (insn_field 6 0 insn)" "drop_bit 3 insn AND 7 = of_nat (insn_field 5 3 insn)"
    and "drop_bit 3 insn AND 3 = of_nat (insn_field 4 3 insn)" "insn AND 7 = of_nat (insn_field 2 0 insn)"
  using field_word [of 3 29 insn] field_word [of 1 28 insn] field_word [of 2 26 insn] field_word [of 1 25 insn]
    field_word [of 5 20 insn] field_word [of 5 15 insn] field_word [of 3 12 insn] field_word [of 2 12 insn]
    field_word [of 5 7 insn] field_word [of 1 5 insn] field_word [of 7 0 insn] field_word [of 3 3 insn] field_word [of 2 3 insn]
    field_word [of 3 0 insn]
  by (simp_all add: mask_eq_exp_minus_1)

lemma access_iff:
  assumes "K AND 0x707f = K"
  shows "is_insn 0x707f K insn \<longleftrightarrow> insn AND 0x7f = K AND 0x7f \<and> drop_bit 12 insn AND 7 = drop_bit 12 K AND 7"
proof -
  have m: "(0x707f :: u64) = mask 7 OR push_bit 12 (mask 3)" "(0x7f :: u64) = mask 7" "(7 :: u64) = mask 3"
    by (simp_all add: mask_eq_exp_minus_1)
  have "(x AND 0x707f) AND 0x7f = x AND 0x7f" "drop_bit 12 (x AND 0x707f) AND 7 = drop_bit 12 x AND 7" for x :: u64
    unfolding m by (rule bit_word_eqI, auto simp: bit_simps)+
  note this [of insn] this [of K]
  then show ?thesis
    using low_opcode(1) [of insn "K AND 0x7f" "drop_bit 12 K AND 7"] low_opcode(1) [of K "K AND 0x7f" "drop_bit 12 K AND 7"] assms
    by (metis is_insn_def)
qed

lemma opcode_fields:
  "insn_field 6 0 7 = 7" "insn_field 6 0 0x5007 = 7" "insn_field 6 0 0x6007 = 7" "insn_field 6 0 0x7007 = 7"
  "insn_field 6 0 0x27 = 0x27" "insn_field 6 0 0x5027 = 0x27" "insn_field 6 0 0x6027 = 0x27" "insn_field 6 0 0x7027 = 0x27"
  by (simp_all add: insn_field_def)

lemma vec_access_iff:
  "is_vec_load insn \<longleftrightarrow> isa_vec_access 0x07 insn" "is_vec_store insn \<longleftrightarrow> isa_vec_access 0x27 insn"
  unfolding is_vec_load_def is_vec_store_def isa_vec_access_def
  by (simp_all add: access_iff fields(7,11) field_eq_iff opcode_fields) blast+

lemma low_field: "insn_field 13 12 w = insn_field 14 12 w mod 4" "insn_field 4 3 w = insn_field 5 3 w mod 4"
  "insn_field 5 5 w = insn_field 6 0 w div 32 mod 2"
proof -
  show "insn_field 13 12 w = insn_field 14 12 w mod 4" "insn_field 4 3 w = insn_field 5 3 w mod 4"
    by (simp_all add: insn_field_def mod_mod_cancel)
  have "unat w mod 128 div 32 mod 2 = unat w div 32 mod 2"
    using mod_mult2_eq [of "unat w" 32 4] by (simp add: mod_mod_cancel)
  then show "insn_field 5 5 w = insn_field 6 0 w div 32 mod 2" by (simp add: insn_field_def)
qed

lemma reg_fields: "reg_index insn 15 = insn_field 19 15 insn" "reg_index insn 20 = insn_field 24 20 insn"
proof -
  have m: "(0xF8 :: u64) = push_bit 3 (mask 5)" by (simp add: mask_eq_exp_minus_1)
  have "drop_bit 3 (drop_bit n insn AND 0xF8) = drop_bit (3 + n) insn AND mask 5" for n
    unfolding m by (rule bit_word_eqI) (auto simp: bit_simps add.assoc)
  moreover have "unat x div 8 = unat (drop_bit 3 x)" for x :: u64
    using drop_bit_eq_div [of 3 "unat x"] by (simp add: unat_drop_bit_eq)
  ultimately have "unat (drop_bit n insn AND 0xF8) div 8 = insn_field (3 + n + 4) (3 + n) insn" for n
    using field_word [of 5 "3 + n" insn] by (simp only:) simp
  from this [of 12] this [of 17] show "reg_index insn 15 = insn_field 19 15 insn" "reg_index insn 20 = insn_field 24 20 insn"
    by (simp_all add: reg_index_def SHIFT_RIGHT_def)
qed

lemma emul_table:
  "\<forall>a\<in>set [0..<8]. \<forall>b\<in>set [0..<4]. \<forall>c\<in>set [0..<4].
     (let e = (if a < 4 then int a else int a - 8) + int b - int c
      in - 3 \<le> e \<and> e \<le> 3 \<longrightarrow>
        (let v = (of_nat a + of_nat b - of_nat c) AND 7 :: u64
         in (push_bit (if v AND 4 \<noteq> 0 then 0 else unat v) 1 :: u64) = of_nat (2 ^ nat e)))"
  by code_simp

lemma decode_emul:
  assumes "mop = insn_field 27 26 insn" "umop = insn_field 24 20 insn" "insn_field 14 12 insn \<in> {0, 5, 6, 7}"
    "sew_exp vtype \<le> 3" "- 3 \<le> emul_exp insn vtype" "emul_exp insn vtype \<le> 3"
  shows "push_bit (if (if mop = 0 \<and> umop = 8 then 0
        else of_nat (insn_field 2 0 vtype) + of_nat (if mop = 1 \<or> mop = 3 then sew_exp vtype else width_exp (insn_field 14 12 insn))
          - of_nat (sew_exp vtype) AND 7) AND (4 :: u64) \<noteq> 0 then 0
      else unat (if mop = 0 \<and> umop = 8 then 0
        else of_nat (insn_field 2 0 vtype) + of_nat (if mop = 1 \<or> mop = 3 then sew_exp vtype else width_exp (insn_field 14 12 insn))
          - of_nat (sew_exp vtype) AND (7 :: u64))) 1 = (of_nat (2 ^ nat (emul_exp insn vtype)) :: u64)"
proof (cases "mop = 0 \<and> umop = 8")
  case True
  then show ?thesis using assms(1,2) by (simp add: emul_exp_def Let_def)
next
  case False
  let ?b = "if mop = 1 \<or> mop = 3 then sew_exp vtype else width_exp (insn_field 14 12 insn)"
  have A: "insn_field 2 0 vtype \<in> set [0..<8]" using field_bound [of 2 0 vtype] by simp
  have B: "?b \<in> set [0..<4]" using assms(4) by (simp add: width_exp_def)
  have C: "sew_exp vtype \<in> set [0..<4]" using assms(4) by simp
  have e: "emul_exp insn vtype = (if insn_field 2 0 vtype < 4 then int (insn_field 2 0 vtype) else int (insn_field 2 0 vtype) - 8)
      + int ?b - int (sew_exp vtype)"
    unfolding emul_exp_def lmul_exp_def Let_def assms(1,2) [symmetric] if_not_P [OF False] by simp
  note T = bspec [OF bspec [OF bspec [OF emul_table A] B] C, unfolded Let_def, folded e]
  show ?thesis unfolding if_not_P [OF False] by (rule mp [OF T]) (use assms(5,6) in simp)
qed

lemma decode_fields:
  assumes "vec_executes insn s" "isa_vec_access 0x07 insn \<or> isa_vec_access 0x27 insn"
  shows "decode_vec insn s = isa_fields insn s"
proof -
  define mop umop nf w where "mop = insn_field 27 26 insn" and "umop = insn_field 24 20 insn" and "nf = insn_field 31 29 insn"
    and "w = width_exp (insn_field 14 12 insn)"
  note X = assms(1) [unfolded vec_executes_def]
  have width: "insn_field 14 12 insn \<in> {0, 5, 6, 7}" using assms(2) by (auto simp: isa_vec_access_def)
  then have view: "drop_bit 12 insn AND 3 = of_nat w" and w4: "w < 4"
    by (auto simp: fields low_field w_def width_exp_def)
  have sew: "drop_bit 3 (v_vtype s) AND 3 = of_nat (sew_exp (v_vtype s))"
    using X by (simp add: fields low_field sew_exp_def)
  have load: "drop_bit 5 insn AND 1 = 0 \<longleftrightarrow> insn_field 6 0 insn = 0x07"
    using assms(2) by (auto simp: fields low_field isa_vec_access_def field_eq_iff)
  have mop4: "mop < 4" using field_bound [of 27 26 insn] by (simp add: mop_def)
  have nf8: "nf < 8" using field_bound [of 31 29 insn] by (simp add: nf_def)
  have regs: "GET_RS1 insn s = (if insn_field 19 15 insn = 0 then 0 else xregs s ! insn_field 19 15 insn)"
    "GET_RS2 insn s = (if umop = 0 then 0 else xregs s ! umop)"
    using X by (simp_all add: GET_RS1_def GET_RS2_def GET_REG_def reg_fields umop_def)
  have pow: "push_bit k 1 = (of_nat (2 ^ k) :: u64)" for k by (simp add: push_bit_eq_mult)
  have U: "unat (of_nat w :: u64) = w" "unat (of_nat (sew_exp (v_vtype s)) :: u64) = sew_exp (v_vtype s)"
    using w4 X by (simp_all add: unat_u64_of_nat)
  have evl: "drop_bit w ((1 + of_nat nf) * v_vlenb s) = of_nat ((nf + 1) * unat (v_vlenb s) div 2 ^ w)"
  proof -
    define x where "x = (1 + of_nat nf) * v_vlenb s"
    have x: "x = of_nat ((nf + 1) * unat (v_vlenb s))" by (simp add: x_def algebra_simps)
    have "(nf + 1) * unat (v_vlenb s) \<le> 8 * 512"
      by (rule mult_le_mono) (use X nf8 in \<open>simp_all add: vec_legal_def VLEN_MAX_def\<close>)
    then have lt: "(nf + 1) * unat (v_vlenb s) < 2 ^ 64" by simp
    have ux: "unat x = (nf + 1) * unat (v_vlenb s)" unfolding x by (rule unat_u64_of_nat [OF lt])
    have "unat (drop_bit w x) = (nf + 1) * unat (v_vlenb s) div 2 ^ w"
      using drop_bit_eq_div [of w "unat x"] ux by (simp only: unat_drop_bit_eq)
    moreover have "unat (of_nat ((nf + 1) * unat (v_vlenb s) div 2 ^ w) :: u64) = (nf + 1) * unat (v_vlenb s) div 2 ^ w"
      using lt by (intro unat_u64_of_nat) (rule le_less_trans [OF div_le_dividend])
    ultimately show ?thesis unfolding x_def [symmetric] by (simp only: word_unat_eq_iff)
  qed
  have emul: "push_bit (if (if mop = 0 \<and> umop = 8 then 0
        else of_nat (insn_field 2 0 (v_vtype s)) + of_nat (if mop = 1 \<or> mop = 3 then sew_exp (v_vtype s) else w)
          - of_nat (sew_exp (v_vtype s)) AND 7) AND (4 :: u64) \<noteq> 0 then 0
      else unat (if mop = 0 \<and> umop = 8 then 0
        else of_nat (insn_field 2 0 (v_vtype s)) + of_nat (if mop = 1 \<or> mop = 3 then sew_exp (v_vtype s) else w)
          - of_nat (sew_exp (v_vtype s)) AND (7 :: u64))) 1 = (of_nat (2 ^ nat (emul_exp insn (v_vtype s))) :: u64)"
    unfolding w_def by (rule decode_emul [OF mop_def umop_def width]) (use X in simp_all)
  note F = fields(1-5) [of insn, folded mop_def umop_def nf_def] fields(9) [of insn] fields(14) [of "v_vtype s"]
  have c: "mop = 0 \<or> mop = 1 \<or> mop = 2 \<or> mop = 3" using mop4 by auto
  have E: "(of_nat mop = (k :: u64)) = (mop = unat k)" "(of_nat umop = (k :: u64)) = (umop = unat k)"
    "(of_nat (insn_field hi lo insn) = (k :: u64)) = (insn_field hi lo insn = unat k)" for k hi lo
    by (simp_all add: mop_def umop_def field_eq_iff)
  have modes: "(of_nat mop \<noteq> (2 :: u64) \<and> of_nat mop \<noteq> (0 :: u64)) = (mop = 1 \<or> mop = 3)"
    "(of_nat mop = (0 :: u64) \<and> of_nat umop = (8 :: u64)) = (mop = 0 \<and> umop = 8)"
    "(if mop = 1 \<or> mop = 3 then of_nat (sew_exp (v_vtype s)) else of_nat w :: u64)
      = of_nat (if mop = 1 \<or> mop = 3 then sew_exp (v_vtype s) else w)"
    using c by (auto simp: E)
  have D: "vi_emul (decode_vec insn s) = of_nat (2 ^ nat (emul_exp insn (v_vtype s)))"
    unfolding decode_vec_def Let_def vec_insn.simps F view sew modes by (rule emul)
  have mew: "(insn_field 28 28 insn \<noteq> 0) = (insn_field 28 28 insn = 1)" using field_bound [of 28 28 insn] by auto
  show ?thesis
  proof (rule vec_insn.equality)
    show "vi_emul (decode_vec insn s) = vi_emul (isa_fields insn s)" unfolding D by (simp add: isa_fields_def Let_def)
  qed (use c evl U mew in \<open>(elim disjE; simp add: decode_vec_def isa_fields_def Let_def F view sew load regs E pow
      mop_def [symmetric] umop_def [symmetric] nf_def [symmetric] w_def [symmetric])+\<close>)
qed

section \<open>The trap handlers\<close>

text \<open>C31. A misaligned vector load or store is emulated as the instruction set executes it: the fields are the ones its encoding
  gives (\<open>isa_fields\<close>), and from \<^verbatim>\<open>vstart\<close> on element by element, those that the mask disables skipped, each element is moved with all
  its segments, at consecutive, strided or indexed addresses; afterwards \<^verbatim>\<open>vstart\<close> is zero and the length and type are the
  program's (of a fault-only-first load one element is done and the length becomes one, as the instruction set allows).\<close>

theorem misaligned_vec_correct:
  assumes "grants_length U" "get_insn W mepc s = Inr (insn, mstatus)" "vec_executes insn s"
  shows "(isa_vec_access 0x07 insn \<longrightarrow> misaligned_load_trap_vec U W mepc s = isa_vec W (isa_fields insn s) mepc s)
    \<and> (isa_vec_access 0x27 insn \<longrightarrow> misaligned_store_trap_vec U W mepc s = isa_vec W (isa_fields insn s) mepc s)"
proof -
  have "misaligned_vec_ldst U W mepc mstatus insn s = isa_vec W (isa_fields insn s) mepc s"
    if "isa_vec_access 0x07 insn \<or> isa_vec_access 0x27 insn"
    using misaligned_vec_refines [OF assms(1), of insn s W mepc mstatus] assms(3) decode_fields [OF assms(3) that]
    by (simp add: vec_executes_def)
  then show ?thesis using vec_not_scalar(1) [of insn] vec_not_scalar(2) [of insn s]
    by (simp add: misaligned_load_trap_vec_def misaligned_store_trap_vec_def assms(2) vec_access_iff)
qed

text \<open>A program that executes \<^verbatim>\<open>vle16.v v1, (x6)\<close> at 128 with the address 4097 in x6 and two elements, on registers of 128 bits.\<close>

definition vec_memory :: memory where
  "vec_memory = (\<lambda>_. 0)(128 := 0x87, 129 := 0x50, 130 := 0x03, 131 := 0x02, 4097 := 1, 4098 := 2, 4099 := 3, 4100 := 4)"

definition vec_state :: "(unit, unit vec_mach_ext) mach_scheme" where
  "vec_state = mach.extend ((idle_mach vec_memory)\<lparr>xregs := (replicate 32 0)[6 := 4097]\<rparr>) (vec_mach.fields 2 8 0 16 (\<lambda>_. 0))"

definition exact_unit :: vec_unit where
  "exact_unit = \<lparr>granted = (\<lambda>vlenb avl vtype. if unat avl \<le> vlmax vlenb vtype then avl else 0), junk = (\<lambda>_. 0)\<rparr>"

lemma vec_state_fields: "xregs vec_state = (replicate 32 0)[6 := 4097]" "csrs vec_state = (\<lambda>_. 0)" "mem vec_state = vec_memory"
  "v_vl vec_state = 2" "v_vtype vec_state = 8" "v_vstart vec_state = 0" "v_vlenb vec_state = 16" "vbytes vec_state = (\<lambda>_. 0)"
  by (simp_all add: vec_state_def mach.extend_def vec_mach.fields_def idle_mach_def)

lemma vec_decode: "isa_fields 0x2035087 vec_state = \<lparr>vi_masked = False, vi_indexed = False, vi_load = True, vi_illegal = False, vi_fof = False,
   vi_vd = 1, vi_vs2 = 0, vi_view = 1, vi_len = 2, vi_nf = 1, vi_evl = 2, vi_emul = 1, vi_base = 4097, vi_stride = 2\<rparr>"
  by (simp add: isa_fields_def insn_field_def width_exp_def sew_exp_def emul_exp_def lmul_exp_def vec_state_fields)

lemma vec_fetch: "get_insn plain_hardware 128 vec_state = Inr (0x2035087, 0)"
  by (simp add: get_insn_def unpriv_def plain_hardware_def vec_state_fields vec_memory_def Let_def load_le_4)

lemma vec_ok: "vec_executes 0x2035087 vec_state" "grants_length exact_unit" "isa_vec_access 0x07 0x2035087"
  by (simp_all add: vec_executes_def isa_vec_access_def insn_field_def width_exp_def sew_exp_def emul_exp_def lmul_exp_def vec_legal_def vec_decode vec_state_fields VLEN_MAX_def vlmax_def group_fits_def grants_length_def exact_unit_def)

lemma vec_run:
  "\<exists>s'. isa_vec plain_hardware (isa_fields 0x2035087 vec_state) 128 vec_state = Inr s'
    \<and> map (vbytes s') [15..<21] = [0, 1, 2, 3, 4, 0]"
  unfolding isa_vec_def isa_elements_def vec_decode
  by (simp add: isa_element_def isa_addr_def vec_state_fields Let_def upt_rec
     load_unpriv_def unpriv_def plain_hardware_def put_velem_def)
    (simp add: write_csr_def vec_state_fields vec_memory_def cong: if_cong)

lemma misaligned_vec_correct_witness:
  "\<exists>s'. misaligned_load_trap_vec exact_unit plain_hardware 128 vec_state = Inr s' \<and> map (vbytes s') [15..<21] = [0, 1, 2, 3, 4, 0]"
proof -
  have "misaligned_load_trap_vec exact_unit plain_hardware 128 vec_state
      = isa_vec plain_hardware (isa_fields 0x2035087 vec_state) 128 vec_state"
    using misaligned_vec_correct [OF vec_ok(2) vec_fetch vec_ok(1)] vec_ok(3) by blast
  then show ?thesis using vec_run by simp
qed

section \<open>Faults\<close>

lemma write_csr_only: "\<exists>c. write_csr W r v (s\<lparr>csrs := c'\<rparr>) = s\<lparr>csrs := c\<rparr>"
  by (auto simp: write_csr_def)

lemma redirect_csrs:
  assumes "redirect_trap W epc mstatus tval (s\<lparr>csrs := c\<rparr>) = Inl (Redirect s')"
  shows "\<exists>c. s' = s\<lparr>csrs := c, tp := 0\<rparr>"
  using assms by (auto simp: redirect_trap_def redirect_exit_def write_csr_def Let_def)

lemma unpriv_redirect:
  assumes "unpriv W fl acc n addr mepc s = Inl (Redirect s')"
  shows "\<exists>c. s' = s\<lparr>csrs := c, tp := 0\<rparr>"
proof -
  have m: "\<exists>c. s' = s\<lparr>csrs := c, tp := 0\<rparr>" if "machine_page_fault W regs cause (s\<lparr>csrs := c'\<rparr>) = Inl (Redirect s')" for regs cause c'
    using that by (auto simp: machine_page_fault_def bad_trap_def write_csr_def Let_def dest!: redirect_csrs split: if_splits)
  then show ?thesis
    using assms by (auto simp: unpriv_def trap_from_machine_mode_def bad_trap_def enter_from_m_def set_csr_def write_csr_def Let_def
        split: sum.splits if_splits)
qed

lemma foldE_Inl:
  assumes "foldE g xs s = Inl e"
  shows "\<exists>ys x zs s1. xs = ys @ x # zs \<and> foldE g ys s = Inr s1 \<and> g x s1 = Inl e"
  using assms
proof (induction xs arbitrary: s)
  case (Cons x xs)
  show ?case
  proof (cases "g x s")
    case (Inl e')
    then show ?thesis using Cons.prems by (intro exI [of _ "[]"] exI [of _ x] exI [of _ xs] exI [of _ s]) simp
  next
    case (Inr s1)
    then have "foldE g xs s1 = Inl e" using Cons.prems by simp
    from Cons.IH [OF this] obtain ys y zs s2 where "xs = ys @ y # zs" "foldE g ys s1 = Inr s2" "g y s2 = Inl e"
      by blast
    then show ?thesis using Inr by (intro exI [of _ "x # ys"] exI [of _ y] exI [of _ zs] exI [of _ s2]) simp
  qed
qed simp

lemma stores_only_mem:
  assumes "foldE (\<lambda>k. store_unpriv W 1 (addr + of_nat k) (v k) mepc) ks s = Inr s'"
  shows "\<exists>m. s' = s\<lparr>mem := m\<rparr>"
proof (rule foldE_invariant [OF assms, where I = "\<lambda>t. \<exists>m. t = s\<lparr>mem := m\<rparr>"])
  show "\<exists>m. s = s\<lparr>mem := m\<rparr>" by (rule exI [of _ "mem s"]) simp
qed (auto simp: store_unpriv_def bindE_eq_Inr)

lemma isa_element_cases:
  "vi_load f \<Longrightarrow> isa_element W f mepc i s =
     bindE (foldE (\<lambda>k bs. bindE (load_unpriv W 1 (isa_addr f i s + of_nat k) mepc (s\<lparr>v_vstart := of_nat i\<rparr>)) (\<lambda>b. Inr (bs @ [ucast b])))
       [0..<unat (vi_nf f) * unat (vi_len f)] []) (\<lambda>bs. Inr (s\<lparr>v_vstart := of_nat i, vbytes := fold (\<lambda>seg.
         put_velem (unat (v_vlenb s)) (unat (vi_vd f) + seg * unat (vi_emul f)) (unat (vi_len f)) i
           (take (unat (vi_len f)) (drop (seg * unat (vi_len f)) bs))) [0..<unat (vi_nf f)] (vbytes s)\<rparr>))"
  "\<not> vi_load f \<Longrightarrow> isa_element W f mepc i s = isa_store_bytes W f mepc i (unat (vi_nf f) * unat (vi_len f)) s"
  by (simp_all add: isa_element_def Let_def)

lemma isa_store_bytes_fold:
  "\<exists>v. \<forall>k. isa_store_bytes W f mepc i k s =
    foldE (\<lambda>k. store_unpriv W 1 (isa_addr f i s + of_nat k) (v k) mepc) [0..<k] (s\<lparr>v_vstart := of_nat i\<rparr>)"
  unfolding isa_store_bytes_def Let_def by (rule exI, rule allI, rule refl)

lemma isa_element_redirect:
  assumes "isa_element W f mepc i s = Inl (Redirect s')"
  shows "vbytes s' = vbytes s \<and> v_vl s' = v_vl s \<and> v_vtype s' = v_vtype s \<and> v_vstart s' = of_nat i \<and> xregs s' = xregs s
    \<and> (vi_load f \<longrightarrow> mem s' = mem s)
    \<and> (\<not> vi_load f \<longrightarrow> (\<exists>k s2. k < unat (vi_nf f) * unat (vi_len f) \<and> isa_store_bytes W f mepc i k s = Inr s2 \<and> mem s' = mem s2))"
proof (cases "vi_load f")
  case True
  have "foldE (\<lambda>k bs. bindE (load_unpriv W 1 (isa_addr f i s + of_nat k) mepc (s\<lparr>v_vstart := of_nat i\<rparr>)) (\<lambda>b. Inr (bs @ [ucast b :: u8])))
      [0..<unat (vi_nf f) * unat (vi_len f)] [] = Inl (Redirect s')"
    using assms unfolding isa_element_cases(1) [OF True] by (auto simp: bindE_eq_Inl)
  from foldE_Inl [OF this] obtain a where "unpriv W MSTATUS_MPRV Load_access 1 a mepc (s\<lparr>v_vstart := of_nat i\<rparr>) = Inl (Redirect s')"
    by (auto simp: bindE_eq_Inl load_unpriv_def)
  from unpriv_redirect [OF this] show ?thesis using True by auto
next
  case False
  let ?n = "unat (vi_nf f) * unat (vi_len f)"
  obtain v where v: "\<forall>k. isa_store_bytes W f mepc i k s =
      foldE (\<lambda>k. store_unpriv W 1 (isa_addr f i s + of_nat k) (v k) mepc) [0..<k] (s\<lparr>v_vstart := of_nat i\<rparr>)"
    using isa_store_bytes_fold by blast
  note v = v [rule_format]
  have "isa_store_bytes W f mepc i ?n s = Inl (Redirect s')" using assms isa_element_cases(2) [OF False, of W mepc i s] by simp
  from foldE_Inl [OF this [unfolded v]] obtain ys k zs s2 where k: "[0..<?n] = ys @ k # zs"
    "foldE (\<lambda>k. store_unpriv W 1 (isa_addr f i s + of_nat k) (v k) mepc) ys (s\<lparr>v_vstart := of_nat i\<rparr>) = Inr s2"
    "store_unpriv W 1 (isa_addr f i s + of_nat k) (v k) mepc s2 = Inl (Redirect s')" by blast
  have "k = length ys" "length ys < ?n"
    using arg_cong [OF k(1), of "\<lambda>xs. xs ! length ys"] arg_cong [OF k(1), of length] by (auto simp: nth_append)
  moreover have "ys = take (length ys) [0..<?n]" unfolding k(1) by simp
  ultimately have ys: "ys = [0..<k]" "k < ?n" by (auto simp: take_upt)
  have s2: "isa_store_bytes W f mepc i k s = Inr s2" using k(2) unfolding v ys(1) .
  have "unpriv W MSTATUS_MPRV Store_access 1 (isa_addr f i s + of_nat k) mepc s2 = Inl (Redirect s')"
    using k(3) by (simp add: bindE_eq_Inl store_unpriv_def)
  from unpriv_redirect [OF this] obtain c where c: "s' = s2\<lparr>csrs := c, tp := 0\<rparr>" by blast
  then have "mem s' = mem s2" by simp
  then show ?thesis using stores_only_mem [OF k(2)] c False ys(2) s2 by auto
qed

lemma isa_elements_frame:
  assumes "isa_elements W f mepc n s = Inr s'"
  shows "v_vl s' = v_vl s \<and> v_vtype s' = v_vtype s \<and> xregs s' = xregs s \<and> (vi_load f \<longrightarrow> mem s' = mem s)"
proof -
  have e: "v_vl s' = v_vl s \<and> v_vtype s' = v_vtype s \<and> xregs s' = xregs s \<and> (vi_load f \<longrightarrow> mem s' = mem s)"
    if r: "isa_element W f mepc i s = Inr s'" for i and s s' :: "('a, 'b) vec_mach_scheme"
  proof (cases "vi_load f")
    case True
    then show ?thesis using r by (auto simp: isa_element_cases(1) bindE_eq_Inr)
  next
    case False
    obtain v where "\<forall>k. isa_store_bytes W f mepc i k s =
      foldE (\<lambda>k. store_unpriv W 1 (isa_addr f i s + of_nat k) (v k) mepc) [0..<k] (s\<lparr>v_vstart := of_nat i\<rparr>)"
      using isa_store_bytes_fold by blast
    with r isa_element_cases(2) [OF False, of W mepc i s] have
      "foldE (\<lambda>k. store_unpriv W 1 (isa_addr f i s + of_nat k) (v k) mepc) [0..<unat (vi_nf f) * unat (vi_len f)]
        (s\<lparr>v_vstart := of_nat i\<rparr>) = Inr s'" by simp
    from stores_only_mem [OF this] show ?thesis using False by auto
  qed
  show ?thesis
    by (rule foldE_invariant [OF assms [unfolded isa_elements_def Let_def]]) (auto dest: e split: if_splits)
qed

text \<open>C32. A fault in the middle of a misaligned vector access is precise: the program's supervisor finds the vector length and
  type as the program set them, \<^verbatim>\<open>vstart\<close> at the element that faulted, exactly the elements before it processed,
  and the integer registers unchanged, so that the instruction can be restarted.  Memory is, for a load, as it was; for a store
  it is that after the elements before and the bytes of the faulting element in front of the byte
  that faulted, and nothing else is written.\<close>

theorem vector_fault_precise:
  assumes "grants_length U" "vec_executes insn s" "isa_vec_access 0x07 insn \<or> isa_vec_access 0x27 insn" "f = isa_fields insn s"
    and "misaligned_vec_ldst U W mepc mstatus insn s = Inl (Redirect s')"
  shows "\<exists>i s1. unat (v_vstart s) \<le> i \<and> i < unat (vi_evl f)
    \<and> isa_elements W f mepc i s = Inr s1 \<and> vbytes s' = vbytes s1
    \<and> v_vl s' = v_vl s \<and> v_vtype s' = v_vtype s \<and> v_vstart s' = of_nat i \<and> xregs s' = xregs s
    \<and> (vi_load f \<longrightarrow> mem s' = mem s)
    \<and> (\<not> vi_load f \<longrightarrow> (\<exists>k s2. k < unat (vi_nf f) * unat (vi_len f) \<and> isa_store_bytes W f mepc i k s1 = Inr s2 \<and> mem s' = mem s2))"
proof -
  have d: "decode_vec insn s = f" and legal: "vec_legal f s"
    using decode_fields [OF assms(2,3)] assms(2,4) by (simp_all add: vec_executes_def)
  let ?first = "unat (v_vstart s)"
  let ?n = "if vi_fof f then Suc ?first else unat (vi_evl f)"
  let ?g = "\<lambda>i t. if \<not> vi_masked f \<or> bit (vbytes s (i div 8)) (i mod 8) then isa_element W f mepc i t else Inr t"
  have "isa_vec W f mepc s = Inl (Redirect s')" using misaligned_vec_refines [OF assms(1), of insn s] legal assms(5) unfolding d by metis
  then have "foldE ?g [?first..<?n] s = Inl (Redirect s')"
    by (auto simp: isa_vec_def isa_elements_def bindE_eq_Inl)
  from foldE_Inl [OF this] obtain ys i zs s1 where i: "[?first..<?n] = ys @ i # zs" "foldE ?g ys s = Inr s1" "?g i s1 = Inl (Redirect s')"
    by blast
  have "i = ?first + length ys" "length ys < ?n - ?first"
    using arg_cong [OF i(1), of "\<lambda>xs. xs ! length ys"] arg_cong [OF i(1), of length] by (auto simp: nth_append)
  moreover have "ys = take (length ys) [?first..<?n]" unfolding i(1) by simp
  ultimately have ys: "ys = [?first..<i]" "?first \<le> i" "i < ?n" by (auto simp: take_upt)
  have "?first < unat (vi_evl f)" using legal by (simp add: vec_legal_def word_less_nat_alt)
  then have lt: "i < unat (vi_evl f)" using ys(2,3) by (simp split: if_splits)
  have e: "isa_elements W f mepc i s = Inr s1" using i(2) unfolding ys(1) by (simp add: isa_elements_def)
  have "isa_element W f mepc i s1 = Inl (Redirect s')" using i(3) by (simp split: if_splits)
  from isa_element_redirect [OF this] isa_elements_frame [OF e] show ?thesis
    using e ys(2) lt by (intro exI [of _ i] exI [of _ s1]) auto
qed

definition second_faults :: "unit hardware" where
  "second_faults = plain_hardware\<lparr>mprv_translate := (\<lambda>_ _ _ _ a. if a = 4099 then Inl CAUSE_LOAD_PAGE_FAULT else Inr a)\<rparr>"

lemma second_faults_run: "\<exists>s'. isa_vec second_faults (isa_fields 0x2035087 vec_state) 128 vec_state = Inl (Redirect s')"
  unfolding isa_vec_def isa_elements_def vec_decode
  by (simp add: isa_element_def isa_addr_def vec_state_fields Let_def upt_rec load_unpriv_def unpriv_def second_faults_def plain_hardware_def
      put_velem_def trap_from_machine_mode_def machine_page_fault_def enter_from_m_def set_csr_def write_csr_def
      redirect_trap_def redirect_exit_def cause_defs mstatus_defs MSTATUS_MIE_def)

lemma vector_fault_precise_witness:
  "\<exists>s'. misaligned_vec_ldst exact_unit second_faults 128 0 0x2035087 vec_state = Inl (Redirect s')
    \<and> v_vl s' = 2 \<and> v_vtype s' = 8 \<and> v_vstart s' \<in> {0, 1}"
proof -
  obtain s' where s': "misaligned_vec_ldst exact_unit second_faults 128 0 0x2035087 vec_state = Inl (Redirect s')"
    using second_faults_run misaligned_vec_refines [OF vec_ok(2), of "0x2035087" vec_state second_faults 128 0]
      decode_fields [OF vec_ok(1)] vec_ok(1,3) by (auto simp: vec_executes_def)
  from vector_fault_precise [OF vec_ok(2,1) disjI1 [OF vec_ok(3)] refl s'] obtain i where "i < 2" "v_vl s' = 2" "v_vtype s' = 8" "v_vstart s' = of_nat i"
    by (auto simp: vec_decode vec_state_fields)
  then have "v_vstart s' = 0 \<or> v_vstart s' = 1" by (auto simp: less_2_cases_iff)
  then show ?thesis using s' \<open>v_vl s' = 2\<close> \<open>v_vtype s' = 8\<close> by auto
qed

end
