(* ===== verification/Softfloat_Props.thy ===== *)
theory Softfloat_Props
  imports Softfloat
begin

text \<open>
  Comparison, classification and widening of \<^verbatim>\<open>softfloat/\<close> against the numbers that the words
  encode.
\<close>

section \<open>Magnitudes\<close>

text \<open>The magnitude of a number with \<open>p\<close> fraction bits, from its bits below the sign.\<close>

definition fmag :: "nat \<Rightarrow> nat \<Rightarrow> nat" where
  "fmag p m = (if m div 2 ^ p = 0 then m mod 2 ^ p else (2 ^ p + m mod 2 ^ p) * 2 ^ (m div 2 ^ p - 1))"

lemma fmag_Suc: "fmag p m < fmag p (Suc m)"
proof -
  let ?e = "m div 2 ^ p" and ?f = "m mod 2 ^ p"
  show ?thesis
  proof (cases "Suc ?f = 2 ^ p")
    case False
    then have "Suc m mod 2 ^ p = Suc ?f" by (simp add: mod_Suc)
    moreover have "Suc m div 2 ^ p = ?e" using False by (simp add: div_Suc mod_Suc)
    ultimately show ?thesis by (simp add: fmag_def)
  next
    case True
    then have f: "Suc m mod 2 ^ p = 0" and e: "Suc m div 2 ^ p = Suc ?e"
      by (simp_all add: mod_Suc div_Suc)
    have "fmag p (Suc m) = 2 ^ p * 2 ^ ?e" unfolding fmag_def e f by simp
    moreover have "fmag p m < 2 ^ p * 2 ^ ?e"
    proof (cases ?e)
      case 0
      then show ?thesis using True by (simp add: fmag_def)
    next
      case (Suc k)
      have "2 ^ p + ?f < 2 * 2 ^ p" using True by linarith
      then have "(2 ^ p + ?f) * 2 ^ k < 2 * 2 ^ p * 2 ^ k" by simp
      then show ?thesis unfolding fmag_def Suc by (simp add: mult.commute mult.left_commute)
    qed
    ultimately show ?thesis by simp
  qed
qed

lemma fmag_less_iff: "fmag p m < fmag p n \<longleftrightarrow> m < n"
  by (rule strict_mono_less) (simp add: strict_mono_Suc_iff fmag_Suc)

lemma fmag_eq_iff: "fmag p m = fmag p n \<longleftrightarrow> m = n"
  by (rule strict_mono_eq) (simp add: strict_mono_Suc_iff fmag_Suc)

lemma fmag_0 [simp]: "fmag p 0 = 0"
  by (simp add: fmag_def)

lemma fmag_eq_0 [simp]: "fmag p m = 0 \<longleftrightarrow> m = 0"
  using fmag_eq_iff [of p m 0] by simp

section \<open>Fields as arithmetic\<close>

lemma unat_drop: "unat (drop_bit n (a :: 'a :: len word)) = unat a div 2 ^ n"
  using unat_drop_bit_eq [of n a] by (simp only: drop_bit_eq_div)

lemma mod_second: "(k :: nat) \<le> x \<Longrightarrow> x < 2 * k \<Longrightarrow> x = k + x mod k"
  by (simp add: le_mod_geq)

lemma unat_low: "mask n = (c :: 'a :: len word) \<Longrightarrow> unat (a AND c) = unat a mod 2 ^ n"
  by (metis take_bit_eq_mask take_bit_eq_mod unsigned_take_bit_eq)

definition mag64 :: "u64 \<Rightarrow> nat" where "mag64 a = unat a mod 2 ^ 63"
definition mag32 :: "u32 \<Rightarrow> nat" where "mag32 a = unat a mod 2 ^ 31"

lemma masks64: "mask 52 = (0x000FFFFFFFFFFFFF :: u64)" "mask 63 = (0x7FFFFFFFFFFFFFFF :: u64)"
  "mask 11 = (0x7FF :: u64)"
  by (simp_all add: mask_eq_exp_minus_1)

lemma masks32: "mask 23 = (0x007FFFFF :: u32)" "mask 8 = (0xFF :: u32)"
  by (simp_all add: mask_eq_exp_minus_1)

lemma sign64: "signF64UI a \<longleftrightarrow> 2 ^ 63 \<le> unat a"
  unfolding signF64UI_def unat_eq_zero [symmetric] unat_drop by (simp add: div_eq_0_iff not_less)

lemma sign32: "signF32UI a \<longleftrightarrow> 2 ^ 31 \<le> unat a"
  unfolding signF32UI_def unat_eq_zero [symmetric] unat_drop by (simp add: div_eq_0_iff not_less)

lemma unat_mag64: "unat a = (if signF64UI a then 2 ^ 63 else 0) + mag64 a"
proof (cases "signF64UI a")
  case True
  moreover have "unat a < 2 ^ 64" using unat_u64_lt by simp
  ultimately show ?thesis using mod_second [of "2 ^ 63" "unat a"] by (simp add: sign64 mag64_def)
next
  case False
  then show ?thesis by (simp add: sign64 mag64_def)
qed

lemma unat_mag32: "unat a = (if signF32UI a then 2 ^ 31 else 0) + mag32 a"
proof (cases "signF32UI a")
  case True
  moreover have "unat a < 2 ^ 32" using unat_u32_lt by simp
  ultimately show ?thesis using mod_second [of "2 ^ 31" "unat a"] by (simp add: sign32 mag32_def)
next
  case False
  then show ?thesis by (simp add: sign32 mag32_def)
qed

lemma exp64: "unat (expF64UI a) = mag64 a div 2 ^ 52"
proof -
  have "unat (expF64UI a) = unat a div 2 ^ 52 mod 2 ^ 11"
    unfolding expF64UI_def by (simp only: unat_low [OF masks64(3)] unat_drop)
  also have "\<dots> = unat a mod 2 ^ 63 div 2 ^ 52"
    using mod_mult2_eq [of "unat a" "2 ^ 52" "2 ^ 11"] by (simp add: div_mult2_eq)
  finally show ?thesis by (simp add: mag64_def)
qed

lemma frac64: "unat (fracF64UI a) = mag64 a mod 2 ^ 52"
  unfolding fracF64UI_def unat_low [OF masks64(1)] mag64_def by (rule mod_mod_cancel [symmetric]) simp

lemma exp32: "unat (expF32UI a) = mag32 a div 2 ^ 23"
proof -
  have "unat (expF32UI a) = unat a div 2 ^ 23 mod 2 ^ 8"
    unfolding expF32UI_def by (simp only: unat_low [OF masks32(2)] unat_drop)
  also have "\<dots> = unat a mod 2 ^ 31 div 2 ^ 23"
    using mod_mult2_eq [of "unat a" "2 ^ 23" "2 ^ 8"] by (simp add: div_mult2_eq)
  finally show ?thesis by (simp add: mag32_def)
qed

lemma frac32: "unat (fracF32UI a) = mag32 a mod 2 ^ 23"
  unfolding fracF32UI_def unat_low [OF masks32(1)] mag32_def by (rule mod_mod_cancel [symmetric]) simp

lemma fval64_mag: "fval64 a = (if signF64UI a then - 1 else 1) * int (fmag 52 (mag64 a))"
proof -
  have "expF64UI a = 0 \<longleftrightarrow> mag64 a div 2 ^ 52 = 0" by (simp only: unat_eq_zero [symmetric] exp64)
  then show ?thesis by (simp add: fval64_def fmag_def uint_nat exp64 frac64)
qed

lemma fval32_mag: "fval32 a = (if signF32UI a then - 1 else 1) * int (fmag 23 (mag32 a))"
proof -
  have "expF32UI a = 0 \<longleftrightarrow> mag32 a div 2 ^ 23 = 0" by (simp only: unat_eq_zero [symmetric] exp32)
  then show ?thesis by (simp add: fval32_def fmag_def uint_nat exp32 frac32)
qed

section \<open>Comparison\<close>

lemma or_low64: "(a OR b) AND 0x7FFFFFFFFFFFFFFF = 0 \<longleftrightarrow> mag64 a = 0 \<and> mag64 b = 0"
  unfolding or_and_eq_0 by (simp only: unat_eq_zero [symmetric] unat_low [OF masks64(2)] mag64_def)

lemma double32: "push_bit 1 a = 0 \<longleftrightarrow> mag32 a = 0"
proof -
  have "unat (push_bit 1 a) = 2 * mag32 a"
    using mult_mod_right [of 2 "unat a" "2 ^ 31"] by (simp add: mag32_def unat_word_ariths mult.commute)
  then show ?thesis by (simp add: unat_eq_zero [symmetric])
qed

lemma or_low32: "push_bit 1 (a OR b) = 0 \<longleftrightarrow> mag32 a = 0 \<and> mag32 b = 0"
  unfolding push_bit_or double32 [symmetric] by (simp add: or_eq_0_iff)

lemma sign_mag_less:
  "(if s then - 1 else 1) * int m < (if t then - 1 else 1) * int n \<longleftrightarrow>
     (if s \<noteq> t then s \<and> \<not> (m = 0 \<and> n = 0) else m \<noteq> n \<and> (s \<noteq> (m < n)))"
  by auto

lemma sign_mag_eq:
  "(if s then - 1 else 1) * int m = (if t then - 1 else 1) * int n \<longleftrightarrow> s = t \<and> m = n \<or> m = 0 \<and> n = 0"
  by auto

lemma order64:
  assumes "signF64UI a = signF64UI b"
  shows "a < b \<longleftrightarrow> mag64 a < mag64 b" "a = b \<longleftrightarrow> mag64 a = mag64 b"
  using assms by (simp_all add: word_less_nat_alt word_unat_eq_iff unat_mag64 [of a] unat_mag64 [of b])

lemma order32:
  assumes "signF32UI a = signF32UI b"
  shows "a < b \<longleftrightarrow> mag32 a < mag32 b" "a = b \<longleftrightarrow> mag32 a = mag32 b"
  using assms by (simp_all add: word_less_nat_alt word_unat_eq_iff unat_mag32 [of a] unat_mag32 [of b])

lemma f64_lt_bits_value: "f64_lt_bits a b \<longleftrightarrow> fval64 a < fval64 b"
  unfolding f64_lt_bits_def or_low64 fval64_mag sign_mag_less fmag_eq_0 fmag_less_iff fmag_eq_iff
  using order64 [of a b] by (cases "signF64UI a = signF64UI b") simp_all

lemma f32_lt_bits_value: "f32_lt_bits a b \<longleftrightarrow> fval32 a < fval32 b"
  unfolding f32_lt_bits_def or_low32 fval32_mag sign_mag_less fmag_eq_0 fmag_less_iff fmag_eq_iff
  using order32 [of a b] by (cases "signF32UI a = signF32UI b") simp_all

lemma f64_eq_value: "a = b \<or> (a OR b) AND 0x7FFFFFFFFFFFFFFF = 0 \<longleftrightarrow> fval64 a = fval64 b"
  unfolding or_low64 fval64_mag sign_mag_eq fmag_eq_0 fmag_eq_iff
  using order64(2) [of a b] by (cases "signF64UI a = signF64UI b") auto

lemma f32_eq_value: "a = b \<or> push_bit 1 (a OR b) = 0 \<longleftrightarrow> fval32 a = fval32 b"
  unfolding or_low32 fval32_mag sign_mag_eq fmag_eq_0 fmag_eq_iff
  using order32(2) [of a b] by (cases "signF32UI a = signF32UI b") auto

lemma not_and_eq_0: "NOT a AND m = 0 \<longleftrightarrow> a AND m = (m :: 'a :: len word)"
  by (auto simp: bit_eq_iff bit_and_iff bit_not_iff)

lemma and_sub: "a AND m = v \<Longrightarrow> m AND n = n \<Longrightarrow> a AND n = v AND (n :: 'a :: len word)"
  by (metis and.assoc)

lemma sig_nan64: "isSigNaNF64UI a \<Longrightarrow> isNaNF64UI a"
  using and_sub [of a "0x7FF8000000000000" "0x7FF0000000000000" "0x7FF0000000000000"]
    and_sub [of a "0x000FFFFFFFFFFFFF" 0 "0x0007FFFFFFFFFFFF"]
  by (auto simp: isSigNaNF64UI_def isNaNF64UI_def not_and_eq_0)

lemma sig_nan32: "isSigNaNF32UI a \<Longrightarrow> isNaNF32UI a"
  using and_sub [of a "0x7FC00000" "0x7F800000" "0x7F800000"] and_sub [of a "0x007FFFFF" 0 "0x003FFFFF"]
  by (auto simp: isSigNaNF32UI_def isNaNF32UI_def not_and_eq_0)

text \<open>C18. The comparisons of both formats decide the order of the encoded numbers: false if an
  operand is a NaN, and otherwise true exactly if the first number is less than (equal to) the
  second; less raises the invalid flag on every NaN, equal only on signalling ones.\<close>

theorem float_compare_correct:
  "f64_lt a b = (\<not> isNaNF64UI a \<and> \<not> isNaNF64UI b \<and> fval64 a < fval64 b,
      if isNaNF64UI a \<or> isNaNF64UI b then flag_invalid else 0)
   \<and> f32_lt c d = (\<not> isNaNF32UI c \<and> \<not> isNaNF32UI d \<and> fval32 c < fval32 d,
      if isNaNF32UI c \<or> isNaNF32UI d then flag_invalid else 0)
   \<and> f64_eq a b = (\<not> isNaNF64UI a \<and> \<not> isNaNF64UI b \<and> fval64 a = fval64 b,
      if isSigNaNF64UI a \<or> isSigNaNF64UI b then flag_invalid else 0)
   \<and> f32_eq c d = (\<not> isNaNF32UI c \<and> \<not> isNaNF32UI d \<and> fval32 c = fval32 d,
      if isSigNaNF32UI c \<or> isSigNaNF32UI d then flag_invalid else 0)"
  using sig_nan64 [of a] sig_nan64 [of b] sig_nan32 [of c] sig_nan32 [of d]
  unfolding f64_lt_def f32_lt_def f64_eq_def f32_eq_def f64_lt_bits_value f32_lt_bits_value
    f64_eq_value f32_eq_value
  by auto

section \<open>Widening\<close>

lemma clz8_bounds: "0 < a \<Longrightarrow> a < 2 ^ n \<Longrightarrow> 2 ^ n \<le> 2 * (a * 2 ^ clz8 n a) \<and> a * 2 ^ clz8 n a < 2 ^ n"
proof (induction n)
  case (Suc n)
  show ?case
  proof (cases "2 ^ n \<le> a")
    case False
    with Suc have "2 ^ n \<le> 2 * (a * 2 ^ clz8 n a) \<and> a * 2 ^ clz8 n a < 2 ^ n" by simp
    with False show ?thesis by (simp add: mult.left_commute)
  qed (use Suc.prems in simp)
qed simp

lemma unat_push:
  "unat (a :: 'a :: len word) * 2 ^ k < 2 ^ LENGTH('a) \<Longrightarrow> unat (push_bit k a) = unat a * 2 ^ k"
  unfolding unsigned_push_bit_eq by (simp add: take_bit_nat_eq_self push_bit_eq_mult)

lemma clz8_low: "x < 2 ^ n \<Longrightarrow> clz8 (n + k) x = k + clz8 n x"
proof (induction k)
  case (Suc k)
  have "(2 :: nat) ^ n \<le> 2 ^ (n + k)" by simp
  with Suc.prems have "x < 2 ^ (n + k)" by (rule less_le_trans)
  with Suc show ?case by simp
qed simp

lemma clz8_top: "2 ^ k \<le> x \<Longrightarrow> x < 2 ^ (n + k) \<Longrightarrow> clz8 (n + k) x = clz8 n (x div 2 ^ k)"
proof (induction n)
  case (Suc n)
  have "2 ^ n \<le> x div 2 ^ k \<longleftrightarrow> 2 ^ (n + k) \<le> x"
    by (simp add: less_eq_div_iff_mult_less_eq power_add)
  with Suc show ?case by simp
qed simp

lemma clz32_nat: "countLeadingZeros32 a = clz8 32 (unat a)"
proof -
  let ?x = "unat a"
  have lt: "?x < 2 ^ 32" by (rule unat_u32_lt)
  have cmp: "a < 0x10000 \<longleftrightarrow> ?x < 2 ^ 16" "b < 0x1000000 \<longleftrightarrow> unat b < 2 ^ 24" for b :: u32
    by (simp_all add: word_less_nat_alt)
  have dv: "unat (drop_bit 24 b) = unat b div 2 ^ 24" for b :: u32 by (rule unat_drop)
  consider "?x < 2 ^ 8" | "2 ^ 8 \<le> ?x" "?x < 2 ^ 16" | "2 ^ 16 \<le> ?x" "?x < 2 ^ 24" | "2 ^ 24 \<le> ?x"
    by linarith
  then show ?thesis
  proof cases
    case 1
    then have "unat (push_bit 16 a) = ?x * 2 ^ 16" by (intro unat_push) simp
    moreover have "unat (push_bit 24 a) = ?x * 2 ^ 24" using 1 by (intro unat_push) simp
    ultimately show ?thesis using 1 clz8_low [of ?x 8 24]
      by (simp add: countLeadingZeros32_def cmp dv)
  next
    case 2
    then have "unat (push_bit 16 a) = ?x * 2 ^ 16" by (intro unat_push) simp
    moreover have "?x * 2 ^ 16 div 2 ^ 24 = ?x div 2 ^ 8"
      using div_mult_mult2 [of "2 ^ 16" ?x "2 ^ 8"] by simp
    ultimately show ?thesis using 2 clz8_low [of ?x 16 16] clz8_top [of 8 ?x 8]
      by (simp add: countLeadingZeros32_def cmp dv)
  next
    case 3
    then have "unat (push_bit 8 a) = ?x * 2 ^ 8" by (intro unat_push) simp
    moreover have "?x * 2 ^ 8 div 2 ^ 24 = ?x div 2 ^ 16"
      using div_mult_mult2 [of "2 ^ 8" ?x "2 ^ 16"] by simp
    ultimately show ?thesis using 3 clz8_low [of ?x 24 8] clz8_top [of 16 ?x 8]
      by (simp add: countLeadingZeros32_def cmp dv)
  next
    case 4
    then show ?thesis using lt clz8_top [of 24 ?x 8] by (simp add: countLeadingZeros32_def cmp dv)
  qed
qed

lemma clz32_bounds:
  assumes "a \<noteq> 0" "unat a < 2 ^ 23"
  shows "8 < countLeadingZeros32 a" "2 ^ 31 \<le> unat a * 2 ^ countLeadingZeros32 a"
    "unat a * 2 ^ countLeadingZeros32 a < 2 ^ 32" "countLeadingZeros32 a < 32"
proof -
  let ?x = "unat a" and ?c = "countLeadingZeros32 a"
  have pos: "0 < ?x" using assms(1) by (simp add: unat_gt_0)
  from clz8_bounds [OF pos, of 32] unat_u32_lt [of a]
  show b: "2 ^ 31 \<le> ?x * 2 ^ ?c" "?x * 2 ^ ?c < 2 ^ 32" by (simp_all add: clz32_nat)
  show "8 < ?c" using clz8_low [OF assms(2), of 9] by (simp add: clz32_nat)
  show "?c < 32"
  proof (rule ccontr)
    assume "\<not> ?c < 32"
    then have "(2 :: nat) ^ 32 \<le> 2 ^ ?c" by (intro power_increasing) simp_all
    also have "\<dots> \<le> ?x * 2 ^ ?c" using pos by simp
    finally show False using b(2) by simp
  qed
qed

lemma pack64_value:
  assumes "unat ex * 2 ^ 52 + unat sg < 2 ^ 63"
  shows "fval64 (packToF64UI sn ex sg) = (if sn then - 1 else 1) * int (fmag 52 (unat ex * 2 ^ 52 + unat sg))"
    "mag64 (packToF64UI sn ex sg) = unat ex * 2 ^ 52 + unat sg" "signF64UI (packToF64UI sn ex sg) = sn"
proof -
  let ?m = "unat ex * 2 ^ 52 + unat sg" and ?p = "packToF64UI sn ex sg"
  have pe: "unat (push_bit 52 ex) = unat ex * 2 ^ 52" using assms by (intro unat_push) simp
  have m: "unat (push_bit 52 ex + sg) = ?m" using assms pe by (simp add: unat_u64_plus)
  have p: "unat ?p = (if sn then 2 ^ 63 else 0) + ?m"
    unfolding packToF64UI_def add.assoc using assms m by (subst unat_u64_plus) (auto simp: m)
  show s: "signF64UI ?p = sn" using assms by (simp add: sign64 p)
  show g: "mag64 ?p = ?m" using assms by (simp add: mag64_def p)
  show "fval64 ?p = (if sn then - 1 else 1) * int (fmag 52 ?m)" by (simp only: fval64_mag s g)
qed

lemma fmag_parts: "g < 2 ^ p \<Longrightarrow> 0 < E \<Longrightarrow> fmag p (E * 2 ^ p + g) = (2 ^ p + g) * 2 ^ (E - 1)"
  by (simp add: fmag_def)

lemma unat_word_of_int_small: "0 \<le> i \<Longrightarrow> i < 2 ^ 64 \<Longrightarrow> unat (word_of_int i :: u64) = nat i"
  by (simp add: unat_eq_nat_uint unsigned_of_int take_bit_int_eq_self)

lemma unat_of_nat_small: "n < 2 ^ 64 \<Longrightarrow> unat (word_of_int (int n) :: u64) = n"
  by (subst unat_word_of_int_small) simp_all

lemma unat_widen: "unat (ucast (f :: u32) :: u64) = unat f"
  using unat_u32_lt [of f] by (simp add: unsigned_ucast_eq take_bit_nat_eq_self)

lemma pow_925: "x * 2 ^ 29 * (y * 2 ^ 896) = 2 ^ 925 * (x * y :: nat)"
proof -
  have "2 ^ 925 = (2 ^ 29 * 2 ^ 896 :: nat)" by (simp flip: power_add)
  then show ?thesis by (simp only: mult_ac)
qed

lemma unat_shift29: "unat f < 2 ^ 24 \<Longrightarrow> unat (push_bit 29 (ucast (f :: u32) :: u64)) = unat f * 2 ^ 29"
  by (subst unat_push) (simp_all add: unat_widen)

lemma widen_normal:
  assumes e: "e = unat (expF32UI a)" "0 < e" "e < 255"
  shows "int (fmag 52 ((e + 896) * 2 ^ 52 + unat (fracF32UI a) * 2 ^ 29)) = 2 ^ 925 * int (fmag 23 (mag32 a))"
proof -
  let ?f = "unat (fracF32UI a)"
  have f: "?f < 2 ^ 23" by (simp add: frac32)
  have "mag32 a = e * 2 ^ 23 + ?f" by (simp add: e(1) exp32 frac32)
  then have a: "fmag 23 (mag32 a) = (2 ^ 23 + ?f) * 2 ^ (e - 1)" using fmag_parts [OF f e(2)] by simp
  have "?f * 2 ^ 29 < 2 ^ 52" using f by simp
  then have "fmag 52 ((e + 896) * 2 ^ 52 + ?f * 2 ^ 29) = (2 ^ 52 + ?f * 2 ^ 29) * 2 ^ (e + 896 - 1)"
    by (rule fmag_parts) simp
  also have "2 ^ 52 + ?f * 2 ^ 29 = (2 ^ 23 + ?f) * 2 ^ 29" by simp
  also have "e + 896 - 1 = e - 1 + 896" using e(2) by simp
  also have "(2 :: nat) ^ (e - 1 + 896) = 2 ^ (e - 1) * 2 ^ 896" by (rule power_add)
  also note pow_925
  finally show ?thesis by (simp only: a of_nat_mult of_nat_power) simp
qed

lemma widen_subnormal:
  assumes "2 ^ 23 \<le> g" "g < 2 ^ 24" "g = f * 2 ^ s" "s \<le> 23"
  shows "fmag 52 ((896 - s) * 2 ^ 52 + g * 2 ^ 29) = 2 ^ 925 * f"
proof -
  have "(896 - s) * 2 ^ 52 + g * 2 ^ 29 = (897 - s) * 2 ^ 52 + (g * 2 ^ 29 - 2 ^ 52)"
  proof -
    have "897 - s = Suc (896 - s)" "2 ^ 52 \<le> g * 2 ^ 29" using assms by simp_all
    then show ?thesis by simp
  qed
  moreover have "g * 2 ^ 29 - 2 ^ 52 < 2 ^ 52" "0 < 897 - s" using assms(2,4) by simp_all
  ultimately have "fmag 52 ((896 - s) * 2 ^ 52 + g * 2 ^ 29) = (2 ^ 52 + (g * 2 ^ 29 - 2 ^ 52)) * 2 ^ (897 - s - 1)"
    by (simp only: fmag_parts)
  also have "\<dots> = g * 2 ^ 29 * 2 ^ (896 - s)" using assms(1) by simp
  also have "\<dots> = f * 2 ^ 29 * (2 ^ s * 2 ^ (896 - s))" by (simp only: assms(3) mult_ac)
  also have "2 ^ s * 2 ^ (896 - s) = (1 * 2 ^ 896 :: nat)" using assms(4) by (simp flip: power_add)
  also note pow_925
  finally show ?thesis by simp
qed

lemma widen_bound: "x \<le> 896 * 2 ^ 52 \<Longrightarrow> y < 2 ^ 24 \<Longrightarrow> x + y * 2 ^ 29 < 0x7FF * 2 ^ (52 :: nat)" for x y :: nat
  by simp

lemma f32_to_f64_finite:
  assumes "expF32UI a \<noteq> 0xFF"
  shows "\<exists>d. f32_to_f64 a = (d, 0) \<and> fval64 d = 2 ^ 925 * fval32 a \<and> signF64UI d = signF32UI a
    \<and> mag64 d < 0x7FF * 2 ^ 52"
proof -
  let ?e = "unat (expF32UI a)" and ?f = "unat (fracF32UI a)" and ?sn = "signF32UI a"
  have e0: "expF32UI a = 0 \<longleftrightarrow> ?e = 0" and f0: "fracF32UI a = 0 \<longleftrightarrow> ?f = 0" by (simp_all add: unat_eq_zero)
  have "?e < 256" using unat_u32_lt [of a] by (simp add: exp32 mag32_def less_mult_imp_div_less)
  moreover have "?e \<noteq> 255" using assms by (simp add: word_unat_eq_iff)
  ultimately have e: "?e < 255" by simp
  have f: "?f < 2 ^ 23" by (simp add: frac32)
  have m: "mag32 a = ?e * 2 ^ 23 + ?f" by (simp add: exp32 frac32)
  have conclude: ?thesis if r: "f32_to_f64 a = (packToF64UI ?sn ex sg, 0)"
    and b: "unat ex * 2 ^ 52 + unat sg < 0x7FF * 2 ^ 52"
    and v: "int (fmag 52 (unat ex * 2 ^ 52 + unat sg)) = 2 ^ 925 * int (fmag 23 (mag32 a))" for ex sg
  proof -
    have "unat ex * 2 ^ 52 + unat sg < 2 ^ 63" using b by simp
    from pack64_value [OF this, of ?sn] b v r show ?thesis by (simp add: fval32_mag)
  qed
  consider "?e = 0" "?f = 0" | "?e = 0" "?f \<noteq> 0" | "?e \<noteq> 0" by blast
  then show ?thesis
  proof cases
    case 1
    then have "f32_to_f64 a = (packToF64UI ?sn 0 0, 0)" using assms by (simp add: f32_to_f64_def e0 f0)
    then show ?thesis by (rule conclude) (simp_all add: m 1)
  next
    case 2
    let ?c = "countLeadingZeros32 (fracF32UI a)"
    let ?s = "?c - 8" and ?g = "push_bit (?c - 8) (fracF32UI a)"
    have nz: "fracF32UI a \<noteq> 0" using 2 by (simp add: f0)
    note c = clz32_bounds [OF nz f]
    have c8: "?f * 2 ^ ?c = ?f * 2 ^ ?s * 2 ^ 8" 
      using c(1) power_add [of "2 :: nat" ?s 8] by simp
    have g: "2 ^ 23 \<le> ?f * 2 ^ ?s" "?f * 2 ^ ?s < 2 ^ 24" using c(2,3) unfolding c8 by simp_all
    have ug: "unat ?g = ?f * 2 ^ ?s" using g(2) by (intro unat_push) simp
    have s: "?s \<le> 23" using c(4) by simp
    let ?ex = "word_of_int (- int ?s + 0x380) :: u64" and ?sg = "push_bit 29 (ucast ?g) :: u64"
    have ex: "unat ?ex = 896 - ?s" using s by (subst unat_word_of_int_small) simp_all
    have sg: "unat ?sg = ?f * 2 ^ ?s * 2 ^ 29" using g(2) ug by (simp add: unat_shift29)
    have "f32_to_f64 a = (packToF64UI ?sn ?ex ?sg, 0)"
      using assms 2 nz by (simp add: f32_to_f64_def normSubnormalF32Sig_def e0 Let_def)
    then show ?thesis
    proof (rule conclude)
      have "(896 - ?s) * 2 ^ 52 \<le> 896 * 2 ^ 52" by (intro mult_le_mono1) simp
      then show "unat ?ex * 2 ^ 52 + unat ?sg < 0x7FF * 2 ^ 52" unfolding ex sg using g(2) by (rule widen_bound)
      have "fmag 23 (mag32 a) = ?f" using f 2 by (simp add: m fmag_def)
      with widen_subnormal [OF g refl s]
      show "int (fmag 52 (unat ?ex * 2 ^ 52 + unat ?sg)) = 2 ^ 925 * int (fmag 23 (mag32 a))"
        unfolding ex sg by simp
    qed
  next
    case 3
    let ?ex = "word_of_int (uint (expF32UI a) + 0x380) :: u64"
    let ?sg = "push_bit 29 (ucast (fracF32UI a)) :: u64"
    have ie: "uint (expF32UI a) + 0x380 = int (?e + 896)" by simp
    have ex: "unat ?ex = ?e + 896" unfolding ie using e by (intro unat_of_nat_small) simp
    have sg: "unat ?sg = ?f * 2 ^ 29" using f by (simp add: unat_shift29)
    have "f32_to_f64 a = (packToF64UI ?sn ?ex ?sg, 0)"
      using assms 3 by (simp add: f32_to_f64_def e0 Let_def)
    then show ?thesis
    proof (rule conclude)
      have "(?e + 896) * 2 ^ 52 + ?f * 2 ^ 29 < 0x7FF * 2 ^ 52" using e f by simp
      then show "unat ?ex * 2 ^ 52 + unat ?sg < 0x7FF * 2 ^ 52" unfolding ex sg .
      show "int (fmag 52 (unat ?ex * 2 ^ 52 + unat ?sg)) = 2 ^ 925 * int (fmag 23 (mag32 a))"
        unfolding ex sg using 3 e by (intro widen_normal refl) simp_all
    qed
  qed
qed

text \<open>C17. Widening single to double precision is exact: a finite number keeps its value (925 is the
  difference of the exponents of the two least subnormals) and its sign and raises no flag, an
  infinity stays one, and a NaN becomes the default NaN, with the invalid flag if its quiet bit
  is clear.\<close>

theorem f32_to_f64_exact:
  "if expF32UI a \<noteq> 0xFF
   then snd (f32_to_f64 a) = 0 \<and> fval64 (fst (f32_to_f64 a)) = 2 ^ 925 * fval32 a
     \<and> signF64UI (fst (f32_to_f64 a)) = signF32UI a \<and> expF64UI (fst (f32_to_f64 a)) \<noteq> 0x7FF
   else if fracF32UI a = 0
   then snd (f32_to_f64 a) = 0 \<and> signF64UI (fst (f32_to_f64 a)) = signF32UI a
     \<and> expF64UI (fst (f32_to_f64 a)) = 0x7FF \<and> fracF64UI (fst (f32_to_f64 a)) = 0
   else f32_to_f64 a = (defaultNaNF64UI, if a AND 0x00400000 = 0 then flag_invalid else 0)"
proof (cases "expF32UI a = 0xFF")
  case False
  then obtain d where d: "f32_to_f64 a = (d, 0)" "fval64 d = 2 ^ 925 * fval32 a"
      "signF64UI d = signF32UI a" "mag64 d < 0x7FF * 2 ^ 52"
    using f32_to_f64_finite by blast
  have "mag64 d div 2 ^ 52 < 0x7FF" using d(4) by (simp add: less_mult_imp_div_less)
  then have "expF64UI d \<noteq> 0x7FF" by (simp add: word_unat_eq_iff exp64)
  with False d show ?thesis by simp
next
  case True
  note p = pack64_value(2,3) [of "0x7FF" 0 "signF32UI a"]
  have "expF64UI (packToF64UI (signF32UI a) 0x7FF 0) = 0x7FF" "fracF64UI (packToF64UI (signF32UI a) 0x7FF 0) = 0"
    unfolding word_unat_eq_iff exp64 frac64 using p(1) by simp_all
  with True p(2) show ?thesis by (simp add: f32_to_f64_def Let_def)
qed

section \<open>Classification\<close>

text \<open>The classes of IEEE 754 in the order of the RISC-V \<^verbatim>\<open>FCLASS\<close> mask.\<close>

datatype fclass = NegInf | NegNormal | NegSubnormal | NegZero | PosZero | PosSubnormal | PosNormal
  | PosInf | SignallingNaN | QuietNaN

definition class_of :: "bool \<Rightarrow> nat \<Rightarrow> nat \<Rightarrow> nat \<Rightarrow> bool \<Rightarrow> fclass" where
  "class_of sn emax ex frac quiet =
     (if ex = emax
      then if frac \<noteq> 0 then if quiet then QuietNaN else SignallingNaN else if sn then NegInf else PosInf
      else if ex = 0
      then if frac = 0 then if sn then NegZero else PosZero else if sn then NegSubnormal else PosSubnormal
      else if sn then NegNormal else PosNormal)"

definition class_bit :: "fclass \<Rightarrow> u64" where
  "class_bit c = (case c of NegInf \<Rightarrow> 1 | NegNormal \<Rightarrow> 2 | NegSubnormal \<Rightarrow> 4 | NegZero \<Rightarrow> 8 | PosZero \<Rightarrow> 16
     | PosSubnormal \<Rightarrow> 32 | PosNormal \<Rightarrow> 64 | PosInf \<Rightarrow> 128 | SignallingNaN \<Rightarrow> 256 | QuietNaN \<Rightarrow> 512)"

lemma field_and: "a AND push_bit n m = push_bit n (drop_bit n a AND m)" for a :: "'a :: len word"
  by (auto simp: bit_eq_iff bit_and_iff bit_push_bit_iff bit_drop_bit_eq)

lemma nan64_fields: "isNaNF64UI a \<longleftrightarrow> unat (expF64UI a) = 0x7FF \<and> unat (fracF64UI a) \<noteq> 0"
proof -
  have e: "unat (expF64UI a) < 2 ^ 11" unfolding expF64UI_def unat_low [OF masks64(3)] by simp
  have "unat (a AND 0x7FF0000000000000) = unat (expF64UI a) * 2 ^ 52"
    using field_and [of a 52 "0x7FF"] e unat_push [of "expF64UI a" 52] by (simp add: expF64UI_def)
  then have "a AND 0x7FF0000000000000 = 0x7FF0000000000000 \<longleftrightarrow> unat (expF64UI a) = 0x7FF"
    by (simp add: word_unat_eq_iff)
  then show ?thesis by (simp add: isNaNF64UI_def not_and_eq_0 fracF64UI_def unat_eq_zero)
qed

lemma nan32_fields: "isNaNF32UI a \<longleftrightarrow> unat (expF32UI a) = 0xFF \<and> unat (fracF32UI a) \<noteq> 0"
proof -
  have e: "unat (expF32UI a) < 2 ^ 8" unfolding expF32UI_def unat_low [OF masks32(2)] by simp
  have "unat (a AND 0x7F800000) = unat (expF32UI a) * 2 ^ 23"
    using field_and [of a 23 "0xFF"] e unat_push [of "expF32UI a" 23] by (simp add: expF32UI_def)
  then have "a AND 0x7F800000 = 0x7F800000 \<longleftrightarrow> unat (expF32UI a) = 0xFF"
    by (simp add: word_unat_eq_iff)
  then show ?thesis by (simp add: isNaNF32UI_def not_and_eq_0 fracF32UI_def unat_eq_zero)
qed

text \<open>With the exponent all ones, the quiet bit decides between the two kinds of NaN.\<close>

lemma and_split: "x AND (m OR n) = (x AND m) OR (x AND n)" for x :: "'a :: len word"
  by (auto simp: bit_eq_iff bit_and_iff bit_or_iff)

lemma sig_bit64: "isNaNF64UI a \<Longrightarrow> isSigNaNF64UI a \<longleftrightarrow> a AND 0x0008000000000000 = 0"
  using and_split [of a "0x7FF0000000000000" "0x0008000000000000"]
    and_split [of a "0x0008000000000000" "0x0007FFFFFFFFFFFF"]
    and_sub [of a "0x7FF8000000000000" "0x7FF0000000000000" "0x0008000000000000"]
  by (auto simp: isSigNaNF64UI_def isNaNF64UI_def not_and_eq_0)

lemma sig_bit32: "isNaNF32UI a \<Longrightarrow> isSigNaNF32UI a \<longleftrightarrow> a AND 0x00400000 = 0"
  using and_split [of a "0x7F800000" "0x00400000"] and_split [of a "0x00400000" "0x003FFFFF"]
    and_sub [of a "0x7FC00000" "0x7F800000" "0x00400000"]
  by (auto simp: isSigNaNF32UI_def isNaNF32UI_def not_and_eq_0)

lemma flag_bits_simps:
  "flag_bits [] = 0" "flag_bits (b # bs) = (if b then 1 else 0) + 2 * flag_bits bs"
  by (simp_all add: flag_bits_def)

text \<open>C24. The classification sets exactly the bit of the number's class: both routines compute the
  \<^verbatim>\<open>FCLASS\<close> mask of sign, exponent, fraction and quiet bit.\<close>

theorem classify_correct:
  "f64_classify a = class_bit (class_of (signF64UI a) 0x7FF (unat (expF64UI a)) (unat (fracF64UI a))
      (a AND 0x0008000000000000 \<noteq> 0))
   \<and> f32_classify b = class_bit (class_of (signF32UI b) 0xFF (unat (expF32UI b)) (unat (fracF32UI b))
      (b AND 0x00400000 \<noteq> 0))"
proof
  have e: "expF64UI a = 0x7FF \<longleftrightarrow> unat (expF64UI a) = 0x7FF" "expF64UI a = 0 \<longleftrightarrow> unat (expF64UI a) = 0"
    "fracF64UI a = 0 \<longleftrightarrow> unat (fracF64UI a) = 0" by (simp_all add: word_unat_eq_iff)
  show "f64_classify a = class_bit (class_of (signF64UI a) 0x7FF (unat (expF64UI a)) (unat (fracF64UI a))
      (a AND 0x0008000000000000 \<noteq> 0))"
    using sig_bit64 [of a] unfolding f64_classify_def Let_def flag_bits_simps e
    by (auto simp: class_of_def class_bit_def nan64_fields)
next
  have e: "expF32UI b = 0xFF \<longleftrightarrow> unat (expF32UI b) = 0xFF" "expF32UI b = 0 \<longleftrightarrow> unat (expF32UI b) = 0"
    "fracF32UI b = 0 \<longleftrightarrow> unat (fracF32UI b) = 0" by (simp_all add: word_unat_eq_iff)
  show "f32_classify b = class_bit (class_of (signF32UI b) 0xFF (unat (expF32UI b)) (unat (fracF32UI b))
      (b AND 0x00400000 \<noteq> 0))"
    using sig_bit32 [of b] unfolding f32_classify_def Let_def flag_bits_simps e
    by (auto simp: class_of_def class_bit_def nan32_fields)
qed

end
