(* ===== verification/Softfloat_Rounding.thy ===== *)
theory Softfloat_Rounding
  imports Complex_Main Softfloat_Props Softfloat_Round
begin

text \<open>
  Rounding as IEEE 754 defines it, over the real numbers: the rounded value and the flags of a
  positive magnitude in each mode, gradual underflow and overflow included.  A significand of the
  code stands for a real number through a relation (\<open>agrees\<close>) that a sticky shift preserves;
  \<open>round_pack\<close> is the rounding of the code on natural numbers, for both formats.
\<close>

section \<open>Rounding as the standard defines it\<close>

text \<open>A magnitude rounded to an integer in each of the five modes.\<close>

definition round_int :: "u64 \<Rightarrow> bool \<Rightarrow> real \<Rightarrow> int" where
  "round_int mode sn y =
     (if mode = round_near_even
      then if y - \<lfloor>y\<rfloor> < 1 / 2 \<or> y - \<lfloor>y\<rfloor> = 1 / 2 \<and> even \<lfloor>y\<rfloor> then \<lfloor>y\<rfloor> else \<lfloor>y\<rfloor> + 1
      else if mode = round_near_maxMag then if y - \<lfloor>y\<rfloor> < 1 / 2 then \<lfloor>y\<rfloor> else \<lfloor>y\<rfloor> + 1
      else if mode = (if sn then round_min else round_max) then \<lceil>y\<rceil>
      else \<lfloor>y\<rfloor>)"

text \<open>The unit in the last place of \<open>p\<close> fraction bits, never less than the least subnormal, in whose multiples
  all magnitudes are counted.\<close>

definition ulp :: "nat \<Rightarrow> real \<Rightarrow> real" where
  "ulp p y = 2 ^ nat (\<lfloor>log 2 y\<rfloor> - int p)"

definition rounded :: "nat \<Rightarrow> u64 \<Rightarrow> bool \<Rightarrow> real \<Rightarrow> real" where
  "rounded p mode sn y = real_of_int (round_int mode sn (y / ulp p y)) * ulp p y"

text \<open>Tiny after rounding: rounded as if the exponent had no lower bound, the result is below the least
  normal number.\<close>

definition tiny :: "nat \<Rightarrow> u64 \<Rightarrow> bool \<Rightarrow> real \<Rightarrow> bool" where
  "tiny p mode sn y \<longleftrightarrow>
     (let u = 2 powi (\<lfloor>log 2 y\<rfloor> - int p) in real_of_int (round_int mode sn (y / u)) * u < 2 ^ p)"

definition to_infinity :: "u64 \<Rightarrow> bool \<Rightarrow> bool" where
  "to_infinity mode sn \<longleftrightarrow> mode = round_near_even \<or> mode = round_near_maxMag \<or> mode = (if sn then round_min else round_max)"

definition rounding_flags :: "nat \<Rightarrow> u64 \<Rightarrow> bool \<Rightarrow> real \<Rightarrow> u64" where
  "rounding_flags p mode sn y =
     (if rounded p mode sn y = y then 0
      else if tiny p mode sn y then flag_underflow OR flag_inexact else flag_inexact)"

section \<open>Rounding by comparisons\<close>

lemma floor_half:
  fixes x :: real and H q :: nat
  assumes "0 < H" "real (2 * q * H) \<le> x" "x < real ((2 * q + 2) * H)"
  shows "\<lfloor>x / (2 * real H)\<rfloor> = int q"
  using assms by (simp add: floor_eq_iff field_simps)

lemma round_int_cases:
  fixes x :: real and H q :: nat
  assumes "0 < H" "real (2 * q * H) \<le> x" "x < real ((2 * q + 2) * H)"
  shows "round_int mode sn (x / (2 * real H)) =
    (if mode = round_near_even
     then if x < real ((2 * q + 1) * H) \<or> x = real ((2 * q + 1) * H) \<and> even q then int q else int q + 1
     else if mode = round_near_maxMag then if x < real ((2 * q + 1) * H) then int q else int q + 1
     else if mode = (if sn then round_min else round_max) then if x = real (2 * q * H) then int q else int q + 1
     else int q)"
proof -
  note f = floor_half [OF assms]
  have H: "0 < real H" using assms(1) by simp
  have lt: "x / (2 * real H) - real q < 1 / 2 \<longleftrightarrow> x < real ((2 * q + 1) * H)"
    "x / (2 * real H) - real q = 1 / 2 \<longleftrightarrow> x = real ((2 * q + 1) * H)"
  proof -
    have e: "x / (2 * real H) - real q - 1 / 2 = (x - real ((2 * q + 1) * H)) / (2 * real H)"
      using H by (simp add: field_simps)
    have "x / (2 * real H) - real q - 1 / 2 < 0 \<longleftrightarrow> x - real ((2 * q + 1) * H) < 0"
      "x / (2 * real H) - real q - 1 / 2 = 0 \<longleftrightarrow> x - real ((2 * q + 1) * H) = 0"
      unfolding e using H by (simp_all only: divide_less_0_iff divide_eq_0_iff) auto
    then show "x / (2 * real H) - real q < 1 / 2 \<longleftrightarrow> x < real ((2 * q + 1) * H)"
      "x / (2 * real H) - real q = 1 / 2 \<longleftrightarrow> x = real ((2 * q + 1) * H)" by linarith+
  qed
  have "\<lceil>x / (2 * real H)\<rceil> = (if x = real (2 * q * H) then int q else int q + 1)"
  proof (cases "x = real (2 * q * H)")
    case True
    then have "x / (2 * real H) = real q" using H by simp
    then show ?thesis using True by simp
  next
    case False
    then have "real q < x / (2 * real H)" "x / (2 * real H) \<le> real q + 1"
      using assms H by (simp_all add: field_simps)
    then have "\<lceil>x / (2 * real H)\<rceil> = int q + 1" by (intro ceiling_unique) simp_all
    then show ?thesis using False by simp
  qed
  then show ?thesis by (simp only: round_int_def f of_int_of_nat_eq lt even_of_nat)
qed

text \<open>A word that stands for a real number: both lie on the same side of every multiple of \<open>G\<close>.\<close>

definition agrees :: "nat \<Rightarrow> nat \<Rightarrow> real \<Rightarrow> bool" where
  "agrees G S t \<longleftrightarrow> (\<forall>m. (real S < real (m * G) \<longleftrightarrow> t < real (m * G)) \<and> (real (m * G) < real S \<longleftrightarrow> real (m * G) < t))"

lemma agreesD:
  assumes "agrees G S t"
  shows "S < m * G \<longleftrightarrow> t < real (m * G)" "m * G < S \<longleftrightarrow> real (m * G) < t" "m * G \<le> S \<longleftrightarrow> real (m * G) \<le> t"
    "S = m * G \<longleftrightarrow> t = real (m * G)"
proof -
  have *: "real S < real (m * G) \<longleftrightarrow> t < real (m * G)" "real (m * G) < real S \<longleftrightarrow> real (m * G) < t"
    using assms unfolding agrees_def by blast+
  then show "S < m * G \<longleftrightarrow> t < real (m * G)" "m * G < S \<longleftrightarrow> real (m * G) < t" by (simp_all only: of_nat_less_iff)
  then show "m * G \<le> S \<longleftrightarrow> real (m * G) \<le> t" "S = m * G \<longleftrightarrow> t = real (m * G)" by linarith+
qed

lemma agrees_dvd: "agrees G S t \<Longrightarrow> G dvd H \<Longrightarrow> agrees H S t"
  unfolding agrees_def by (metis dvd_def mult.assoc mult.commute)

lemma agrees_exact: "agrees G S (real S)"
  by (simp add: agrees_def)

lemma round_int_agrees:
  assumes "agrees H S t" "0 < H"
  shows "round_int mode sn (t / (2 * real H)) = round_int mode sn (real S / (2 * real H))"
proof -
  define q where "q = S div (2 * H)"
  have S: "2 * q * H \<le> S" "S < (2 * q + 2) * H"
  proof -
    have "2 * q * H = S div (2 * H) * (2 * H)" "(2 * q + 2) * H = 2 * q * H + 2 * H"
      by (simp_all add: q_def algebra_simps)
    moreover have "S mod (2 * H) < 2 * H" using assms(2) by simp
    ultimately show "2 * q * H \<le> S" "S < (2 * q + 2) * H" using div_mult_mod_eq [of S "2 * H"] by linarith+
  qed
  have t: "real (2 * q * H) \<le> t" "t < real ((2 * q + 2) * H)"
    using S agreesD(1,3) [OF assms(1)] by blast+
  show ?thesis
    unfolding round_int_cases [OF assms(2) t] round_int_cases [OF assms(2), of q "real S", unfolded of_nat_le_iff of_nat_less_iff, OF S]
    by (simp only: agreesD [OF assms(1), symmetric] of_nat_less_iff of_nat_eq_iff)
qed

section \<open>Sticky shifts\<close>

definition jam :: "nat \<Rightarrow> nat \<Rightarrow> nat" where
  "jam N K = (N div 2 ^ K) OR of_bool (N mod 2 ^ K \<noteq> 0)"

lemma or_1: "x OR 1 = (if even x then x + 1 else (x :: nat))"
  using or_one_eq [of x] by auto

lemma jam_bounds:
  "N mod 2 ^ K = 0 \<Longrightarrow> jam N K * 2 ^ K = N"
  "N mod 2 ^ K \<noteq> 0 \<Longrightarrow> odd (jam N K) \<and> N < (jam N K + 1) * 2 ^ K \<and> (jam N K - 1) * 2 ^ K < N"
proof -
  let ?q = "N div 2 ^ K" and ?r = "N mod 2 ^ K"
  have N: "N = ?q * 2 ^ K + ?r" by (simp only: div_mult_mod_eq)
  show "?r = 0 \<Longrightarrow> jam N K * 2 ^ K = N" using N by (simp add: jam_def)
  assume r: "?r \<noteq> 0"
  have r': "?r < 2 ^ K" by simp
  have "jam N K = (if even ?q then ?q + 1 else ?q)" using r by (simp add: jam_def or_1 [unfolded One_nat_def])
  moreover have n: "N < (?q + 1) * 2 ^ K" "?q * 2 ^ K < N" using N r r' unfolding add_mult_distrib by linarith+
  moreover have "N < (?q + 2) * 2 ^ K" by (rule less_le_trans [OF n(1)], rule mult_le_mono1) simp
  moreover have "(?q - 1) * 2 ^ K < N" by (rule le_less_trans [OF _ n(2)], rule mult_le_mono1) simp
  ultimately show "odd (jam N K) \<and> N < (jam N K + 1) * 2 ^ K \<and> (jam N K - 1) * 2 ^ K < N"
    by (simp add: add.assoc del: One_nat_def)
qed

lemma agrees_jam:
  assumes "agrees G S t" "G dvd H * 2 ^ K" "even H"
  shows "agrees H (jam S K) (t / 2 ^ K)"
proof -
  note a = agrees_dvd [OF assms(1,2)]
  have key: "(jam S K < m * H \<longleftrightarrow> S < m * (H * 2 ^ K)) \<and> (m * H < jam S K \<longleftrightarrow> m * (H * 2 ^ K) < S)" for m
  proof (cases "S mod 2 ^ K = 0")
    case True
    define J where "J = jam S K"
    have S: "S = J * 2 ^ K" using jam_bounds(1) [OF True] by (simp add: J_def)
    have "(J * 2 ^ K < m * H * 2 ^ K) = (J < m * H)" "(m * H * 2 ^ K < J * 2 ^ K) = (m * H < J)" by simp_all
    then show ?thesis unfolding J_def [symmetric] using S by (simp add: mult.assoc)
  next
    case False
    note j = jam_bounds(2) [OF False]
    have "even (m * H)" using assms(3) by simp
    then have ne: "jam S K \<noteq> m * H" using j by auto
    show ?thesis
    proof (cases "jam S K < m * H")
      case True
      then have "(jam S K + 1) * 2 ^ K \<le> m * H * 2 ^ K" by (intro mult_le_mono1) simp
      moreover have "S < (jam S K + 1) * 2 ^ K" using j by blast
      ultimately have "S < m * (H * 2 ^ K)" by (metis less_le_trans mult.assoc)
      then show ?thesis using True by simp
    next
      case False
      then have "m * H * 2 ^ K \<le> (jam S K - 1) * 2 ^ K" using ne by (intro mult_le_mono1) simp
      also have "(jam S K - 1) * 2 ^ K < S" using j by blast
      finally have "m * (H * 2 ^ K) < S" by (simp only: mult.assoc)
      then show ?thesis using False ne by simp
    qed
  qed
  have sc: "real (m * (H * 2 ^ K)) = real (m * H) * 2 ^ K" for m by simp
  show ?thesis
    unfolding agrees_def
  proof
    fix m
    have "t / 2 ^ K < real (m * H) \<longleftrightarrow> t < real (m * (H * 2 ^ K))" "real (m * H) < t / 2 ^ K \<longleftrightarrow> real (m * (H * 2 ^ K)) < t"
      unfolding sc by (simp_all add: field_simps)
    with key [of m] agreesD(1,2) [OF a, of m]
    show "(real (jam S K) < real (m * H)) = (t / 2 ^ K < real (m * H)) \<and> (real (m * H) < real (jam S K)) = (real (m * H) < t / 2 ^ K)"
      by (simp only: of_nat_less_iff)
  qed
qed

lemma agrees_double: "agrees G S t \<Longrightarrow> agrees (2 * G) (2 * S) (2 * t)"
proof -
  assume a: "agrees G S t"
  show ?thesis
    unfolding agrees_def
  proof
    fix m
    have e: "real (m * (2 * G)) = 2 * real (m * G)" "real (2 * S) = 2 * real S" by simp_all
    show "(real (2 * S) < real (m * (2 * G))) = (2 * t < real (m * (2 * G))) \<and> (real (m * (2 * G)) < real (2 * S)) = (real (m * (2 * G)) < 2 * t)"
      unfolding e using a unfolding agrees_def by simp
  qed
qed

lemma jam_le: "0 < K \<Longrightarrow> jam N K \<le> N div 2 + 1"
proof -
  assume "0 < K"
  then have "N div 2 ^ K \<le> N div 2" by (intro div_le_mono2) (simp_all add: self_le_power)
  then show ?thesis using or_1 [unfolded One_nat_def, of "N div 2 ^ K"] by (simp add: jam_def)
qed

section \<open>Rounding of a scaled significand\<close>

lemma round_int_of_int: "round_int mode sn (real_of_int k) = k"
  by (simp add: round_int_def)

lemma round_int_exact:
  assumes "agrees H S t" "0 < H"
  shows "real_of_int (round_int mode sn (t / (2 * real H))) = t / (2 * real H) \<longleftrightarrow> S mod (2 * H) = 0"
proof
  assume e: "real_of_int (round_int mode sn (t / (2 * real H))) = t / (2 * real H)"
  define k where "k = round_int mode sn (t / (2 * real H))"
  have t: "t = real_of_int k * (2 * real H)" using e assms(2) by (simp add: k_def field_simps)
  have "0 \<le> t" using agreesD(3) [OF assms(1), of 0] by simp
  then have "0 \<le> k" using t assms(2) by (simp add: zero_le_mult_iff)
  then have "t = real (2 * nat k * H)" using t by simp
  then have "S = 2 * nat k * H" using agreesD(4) [OF assms(1)] by blast
  then show "S mod (2 * H) = 0" by simp
next
  assume "S mod (2 * H) = 0"
  then obtain k where "S = k * 2 * H" by (metis mod_0_imp_dvd dvd_def mult.assoc mult.commute)
  then have "t = real (k * 2 * H)" using agreesD(4) [OF assms(1)] by blast
  then have "t / (2 * real H) = real_of_int (int k)" using assms(2) by simp
  then show "real_of_int (round_int mode sn (t / (2 * real H))) = t / (2 * real H)" by (simp only: round_int_of_int)
qed

lemma round_pow:
  assumes "agrees (2 ^ c) S t"
  shows "round_int mode sn (t / 2 ^ Suc c) = round_int mode sn (real S / 2 ^ Suc c)"
    "real_of_int (round_int mode sn (t / 2 ^ Suc c)) = t / 2 ^ Suc c \<longleftrightarrow> S mod 2 ^ Suc c = 0"
  using round_int_agrees [OF assms] round_int_exact [OF assms] by simp_all

lemma floor_log_scaled:
  assumes "2 ^ n \<le> t" "t < 2 ^ Suc n"
  shows "\<lfloor>log 2 (t * 2 powi k)\<rfloor> = int n + k"
proof -
  have t: "0 < t" using assms(1) by (meson less_le_trans zero_less_numeral zero_less_power)
  have "log 2 (t * 2 powi k) = log 2 t + of_int k"
    using t by (simp add: log_mult powr_real_of_int' [symmetric] log_powr)
  moreover have "\<lfloor>log 2 t\<rfloor> = int n"
    using assms t by (simp add: floor_eq_iff le_log_iff log_less_iff powr_realpow powr_add)
  ultimately show ?thesis by simp
qed

lemma round_int_ge: "real_of_int k \<le> y \<Longrightarrow> k \<le> round_int mode sn y"
proof -
  assume "real_of_int k \<le> y"
  then have "k \<le> \<lfloor>y\<rfloor>" by (simp add: le_floor_iff)
  moreover have "\<lfloor>y\<rfloor> \<le> \<lceil>y\<rceil>" by (rule floor_le_ceiling)
  ultimately have "k \<le> \<lfloor>y\<rfloor>" "k \<le> \<lceil>y\<rceil>" by linarith+
  then show ?thesis by (simp add: round_int_def)
qed

lemma round_int_le: "y < real_of_int k \<Longrightarrow> round_int mode sn y \<le> k"
proof -
  assume "y < real_of_int k"
  then have "\<lfloor>y\<rfloor> < k" "\<lceil>y\<rceil> \<le> k" by (simp_all add: floor_less_iff ceiling_le_iff)
  then show ?thesis by (auto simp: round_int_def)
qed

text \<open>\<open>p\<close> fraction bits, \<open>c + 1\<close> bits below them in the significand \<open>S\<close>, which stands for the number \<open>t\<close>.\<close>

definition scaled :: "nat \<Rightarrow> nat \<Rightarrow> nat \<Rightarrow> real \<Rightarrow> bool" where
  "scaled p c S t \<longleftrightarrow> 2 ^ (p + c + 1) \<le> S \<and> S < 2 ^ (p + c + 2) \<and> agrees (2 ^ c) S t"

lemma scaled_real:
  assumes "scaled p c S t"
  shows "2 ^ (p + c + 1) \<le> t" "t < 2 ^ (p + c + 2)"
  using assms agreesD(1) [of "2 ^ c" S t "2 ^ (p + 2)"] agreesD(3) [of "2 ^ c" S t "2 ^ (p + 1)"]
  by (simp_all add: scaled_def power_add mult_ac)

lemma scaled_floor_log:
  assumes "scaled p c S t"
  shows "\<lfloor>log 2 (t * 2 powi (ex - int c - 1))\<rfloor> = int p + ex"
  using floor_log_scaled [of "p + c + 1" t "ex - int c - 1"] scaled_real [OF assms] by simp

lemma scaled_round:
  assumes "scaled p c S t"
  shows "round_int mode sn (t / 2 ^ Suc c) = round_int mode sn (real S / 2 ^ Suc c)"
    "real_of_int (round_int mode sn (t / 2 ^ Suc c)) = t / 2 ^ Suc c \<longleftrightarrow> S mod 2 ^ Suc c = 0"
    "2 ^ p \<le> round_int mode sn (real S / 2 ^ Suc c)" "round_int mode sn (real S / 2 ^ Suc c) \<le> 2 ^ Suc p"
proof -
  have a: "agrees (2 ^ c) S t" using assms by (simp add: scaled_def)
  show "round_int mode sn (t / 2 ^ Suc c) = round_int mode sn (real S / 2 ^ Suc c)"
    "real_of_int (round_int mode sn (t / 2 ^ Suc c)) = t / 2 ^ Suc c \<longleftrightarrow> S mod 2 ^ Suc c = 0"
    by (rule round_pow [OF a])+
  have "real (2 ^ (p + c + 1)) \<le> real S" "real S < real (2 ^ (p + c + 2))"
    using assms unfolding scaled_def of_nat_le_iff of_nat_less_iff by blast+
  then have b: "2 ^ (p + c + 1) \<le> real S" "real S < 2 ^ (p + c + 2)" by simp_all
  have "2 ^ p \<le> real S / 2 ^ Suc c" "real S / 2 ^ Suc c < 2 ^ Suc p"
    using b by (simp_all add: field_simps power_add)
  then show "2 ^ p \<le> round_int mode sn (real S / 2 ^ Suc c)" "round_int mode sn (real S / 2 ^ Suc c) \<le> 2 ^ Suc p"
    by (simp_all add: round_int_ge round_int_le)
qed

lemma powi_split: "2 powi (ex - int c - 1) = (2 :: real) powi ex / 2 ^ Suc c"
  by (simp add: power_int_diff)

text \<open>An exponent that needs no shift.\<close>

lemma round_normal:
  assumes s: "scaled p c S t" and ex: "0 \<le> ex" and y: "y = t * 2 powi (ex - int c - 1)"
  shows "rounded p mode sn y = real_of_int (round_int mode sn (real S / 2 ^ Suc c)) * 2 ^ nat ex"
    "rounded p mode sn y = y \<longleftrightarrow> S mod 2 ^ Suc c = 0" "\<not> tiny p mode sn y"
proof -
  have l: "\<lfloor>log 2 y\<rfloor> - int p = ex" unfolding y scaled_floor_log [OF s] by simp
  have y': "y = t / 2 ^ Suc c * 2 ^ nat ex" unfolding y powi_split using ex by (simp add: power_int_def)
  have q: "y / 2 ^ nat ex = t / 2 ^ Suc c" by (simp add: y')
  show r: "rounded p mode sn y = real_of_int (round_int mode sn (real S / 2 ^ Suc c)) * 2 ^ nat ex"
    unfolding rounded_def ulp_def l q scaled_round(1) [OF s] ..
  show "rounded p mode sn y = y \<longleftrightarrow> S mod 2 ^ Suc c = 0"
    unfolding r unfolding y' scaled_round(2) [OF s, of mode sn, symmetric] scaled_round(1) [OF s] mult_cancel_right by simp
  have e: "(2 :: real) powi ex = 2 ^ nat ex" using ex by (simp add: power_int_def)
  have "(2 :: real) ^ p \<le> real_of_int (round_int mode sn (real S / 2 ^ Suc c)) * 2 ^ nat ex"
  proof -
    have "real_of_int (2 ^ p) \<le> real_of_int (round_int mode sn (real S / 2 ^ Suc c))"
      unfolding of_int_le_iff by (rule scaled_round(3) [OF s])
    then have "2 ^ p * 1 \<le> real_of_int (round_int mode sn (real S / 2 ^ Suc c)) * 2 ^ nat ex"
      using order_trans [OF _ scaled_round(3) [OF s], of 0 mode sn] by (intro mult_mono) simp_all
    then show ?thesis by simp
  qed
  then show "\<not> tiny p mode sn y" unfolding tiny_def l e q scaled_round(1) [OF s] Let_def by simp
qed

text \<open>A negative one: the significand has been shifted to the exponent zero.\<close>

lemma round_subnormal:
  assumes s: "scaled p c S t" and ex: "ex < 0" and y: "y = t * 2 powi (ex - int c - 1)"
    and c: "0 < c"
  defines "J \<equiv> jam S (nat (- ex))"
  shows "rounded p mode sn y = real_of_int (round_int mode sn (real J / 2 ^ Suc c))"
    "rounded p mode sn y = y \<longleftrightarrow> J mod 2 ^ Suc c = 0"
    "tiny p mode sn y \<longleftrightarrow> ex < - 1 \<or> round_int mode sn (real S / 2 ^ Suc c) < 2 ^ Suc p"
    "0 \<le> round_int mode sn (real J / 2 ^ Suc c)" "round_int mode sn (real J / 2 ^ Suc c) \<le> 2 ^ p"
proof -
  define u :: real where "u = 2 powi ex"
  have u: "0 < u" "u = 1 / 2 ^ nat (- ex)" using ex by (simp_all add: u_def power_int_def inverse_eq_divide power_one_over)
  have l: "\<lfloor>log 2 y\<rfloor> - int p = ex" unfolding y scaled_floor_log [OF s] by simp
  have y': "y = t / 2 ^ Suc c * u" unfolding y powi_split by (simp add: u_def)
  have "even (2 ^ c :: nat)" using c by simp
  then have "agrees (2 ^ c) J (t / 2 ^ nat (- ex))" unfolding J_def by (rule agrees_jam [of "2 ^ c", rotated 2]) (use s in \<open>simp_all add: scaled_def\<close>)
  note r = round_pow [OF this, of mode sn]
  have e: "t / 2 ^ nat (- ex) / 2 ^ Suc c = y" by (simp add: y' u(2))
  note r = r [unfolded e]
  have "nat ex = 0" using ex by simp
  then have one: "ulp p y = 1" unfolding ulp_def l by simp
  show "rounded p mode sn y = real_of_int (round_int mode sn (real J / 2 ^ Suc c))"
    "rounded p mode sn y = y \<longleftrightarrow> J mod 2 ^ Suc c = 0"
    unfolding rounded_def one using r by simp_all
  define z where "z = round_int mode sn (real S / 2 ^ Suc c)"
  have z: "z \<le> 2 ^ Suc p" using scaled_round(4) [OF s] by (simp add: z_def)
  have q: "y / u = t / 2 ^ Suc c" using u(1) by (simp add: y')
  have "tiny p mode sn y \<longleftrightarrow> real_of_int z < 2 ^ p * 2 ^ nat (- ex)"
    unfolding tiny_def l Let_def u_def [symmetric] q scaled_round(1) [OF s] z_def [symmetric]
    unfolding u(2) by (simp add: field_simps)
  also have "\<dots> \<longleftrightarrow> real_of_int z < real_of_int (2 ^ p * 2 ^ nat (- ex))" by simp
  also have "\<dots> \<longleftrightarrow> z < 2 ^ p * 2 ^ nat (- ex)" by (simp only: of_int_less_iff)
  also have "\<dots> \<longleftrightarrow> ex < - 1 \<or> z < 2 ^ Suc p"
  proof (cases "ex < - 1")
    case True
    then have "(2 :: int) ^ 2 \<le> 2 ^ nat (- ex)" by (intro power_increasing) simp_all
    then have "(2 :: int) ^ p * 4 \<le> 2 ^ p * 2 ^ nat (- ex)" by (intro mult_left_mono) simp_all
    moreover have "2 ^ Suc p < (2 :: int) ^ p * 4" by simp
    ultimately show ?thesis using z True by linarith
  next
    case False
    then have "ex = - 1" using ex by simp
    then show ?thesis by (simp add: mult.commute)
  qed
  finally show "tiny p mode sn y \<longleftrightarrow> ex < - 1 \<or> round_int mode sn (real S / 2 ^ Suc c) < 2 ^ Suc p" by (simp add: z_def)
  show "0 \<le> round_int mode sn (real J / 2 ^ Suc c)" by (rule round_int_ge) simp
  have "t / 2 ^ Suc c < 2 ^ Suc p" using scaled_real(2) [OF s] by (simp add: field_simps power_add)
  moreover have "u \<le> 1 / 2" using ex power_increasing [of 1 "nat (- ex)" "2 :: real"] by (simp add: u(2) field_simps)
  moreover have "0 \<le> t" using order_trans [OF _ scaled_real(1) [OF s], of 0] by simp
  ultimately have "y < 2 ^ Suc p * (1 / 2)" unfolding y' using u(1) by (intro mult_less_le_imp_less) simp_all
  then show "round_int mode sn (real J / 2 ^ Suc c) \<le> 2 ^ p" using r(1) round_int_le [of y "2 ^ p" mode sn] by simp
qed

text \<open>The rounded integer from the quotient and the remainder.\<close>

lemma round_int_nat:
  fixes S c :: nat
  defines "q \<equiv> S div 2 ^ Suc c" and "r \<equiv> S mod 2 ^ Suc c"
  shows "round_int mode sn (real S / 2 ^ Suc c) = (
    if mode = round_near_even then if r < 2 ^ c \<or> r = 2 ^ c \<and> even q then int q else int q + 1
    else if mode = round_near_maxMag then if r < 2 ^ c then int q else int q + 1
    else if mode = (if sn then round_min else round_max) then if r = 0 then int q else int q + 1
    else int q)"
proof -
  let ?H = "2 ^ c :: nat"
  have S: "S = 2 * q * ?H + r" unfolding q_def r_def using div_mult_mod_eq [of S "2 ^ Suc c"] by (simp add: mult_ac)
  have r: "r < 2 * ?H" by (simp add: r_def)
  have b: "2 * q * ?H \<le> S" "S < (2 * q + 2) * ?H" using S r by (simp_all add: algebra_simps)
  have c: "S < (2 * q + 1) * ?H \<longleftrightarrow> r < ?H" "S = (2 * q + 1) * ?H \<longleftrightarrow> r = ?H" "S = 2 * q * ?H \<longleftrightarrow> r = 0"
    using S by (simp_all add: algebra_simps)
  have b': "real (2 * q * ?H) \<le> real S" "real S < real ((2 * q + 2) * ?H)"
    unfolding of_nat_le_iff of_nat_less_iff by (rule b)+
  have pos: "0 < ?H" by simp
  have e: "real S / 2 ^ Suc c = real S / (2 * real ?H)" by simp
  show ?thesis
    unfolding e round_int_cases [OF pos b']
    unfolding of_nat_less_iff of_nat_eq_iff c ..
qed

section \<open>Correctly rounded results\<close>

text \<open>The magnitude \<open>m\<close> of a result with \<open>p\<close> fraction bits and its flags, for a number \<open>y > 0\<close>: the nearest
  number in the rounding mode, or beyond the range, which ends below exponent \<open>E + 1\<close>, infinity or the largest
  finite number.\<close>

definition rounds_mag :: "nat \<Rightarrow> nat \<Rightarrow> u64 \<Rightarrow> bool \<Rightarrow> real \<Rightarrow> nat \<Rightarrow> u64 \<Rightarrow> bool" where
  "rounds_mag p E mode sn y m fl \<longleftrightarrow>
     (if rounded p mode sn y < 2 ^ (p + E)
      then real (fmag p m) = rounded p mode sn y \<and> fl = rounding_flags p mode sn y
      else m = (E + 1) * 2 ^ p - of_bool (\<not> to_infinity mode sn) \<and> fl = flag_overflow OR flag_inexact)"

definition rounds64 :: "u64 \<Rightarrow> bool \<Rightarrow> real \<Rightarrow> u64 flagged \<Rightarrow> bool" where
  "rounds64 mode sn y r \<longleftrightarrow> signF64UI (fst r) = sn \<and> rounds_mag 52 2046 mode sn y (mag64 (fst r)) (snd r)"

definition rounds32 :: "u64 \<Rightarrow> bool \<Rightarrow> real \<Rightarrow> u32 flagged \<Rightarrow> bool" where
  "rounds32 mode sn y r \<longleftrightarrow> signF32UI (fst r) = sn \<and> rounds_mag 23 254 mode sn y (mag32 (fst r)) (snd r)"

lemma fmag_normal: "2 ^ p \<le> z \<Longrightarrow> z \<le> 2 ^ Suc p \<Longrightarrow> fmag p (E * 2 ^ p + z) = z * 2 ^ E"
proof -
  assume z: "2 ^ p \<le> z" "z \<le> 2 ^ Suc p"
  show ?thesis
  proof (cases "z = 2 ^ Suc p")
    case True
    then have "E * 2 ^ p + z = (E + 2) * 2 ^ p + 0" by (simp add: algebra_simps)
    then have "fmag p (E * 2 ^ p + z) = (2 ^ p + 0) * 2 ^ (E + 1)" by (simp only:) (subst fmag_parts, simp_all)
    then show ?thesis using True by simp
  next
    case False
    have "E * 2 ^ p + z = (E + 1) * 2 ^ p + (z - 2 ^ p)" using z by (simp add: algebra_simps)
    moreover have "z - 2 ^ p < 2 ^ p" using z False by simp
    ultimately show ?thesis using z fmag_parts [of "z - 2 ^ p" p "E + 1"] by simp
  qed
qed

lemma fmag_small: "z \<le> 2 ^ p \<Longrightarrow> fmag p z = z"
  using fmag_normal [of p z 0] by (cases "z = 2 ^ p") (simp_all add: fmag_def)

text \<open>Without a shift.\<close>

lemma rounds_mag_normal:
  assumes s: "scaled p c S t" and ex: "0 \<le> ex" and y: "y = t * 2 powi (ex - int c - 1)"
    and z: "int z = round_int mode sn (real S / 2 ^ Suc c)" and le: "z * 2 ^ nat ex < 2 ^ (p + E)"
  shows "rounds_mag p E mode sn y (nat ex * 2 ^ p + z) (if S mod 2 ^ Suc c \<noteq> 0 then flag_inexact else 0)"
proof -
  note n = round_normal [OF s ex y, of mode sn]
  have "int (2 ^ p) \<le> int z" "int z \<le> int (2 ^ Suc p)" using scaled_round(3,4) [OF s, of mode sn] unfolding z by simp_all
  then have "2 ^ p \<le> z" "z \<le> 2 ^ Suc p" by (simp_all only: of_nat_le_iff)
  then have f: "fmag p (nat ex * 2 ^ p + z) = z * 2 ^ nat ex" by (rule fmag_normal)
  have r: "rounded p mode sn y = real (z * 2 ^ nat ex)" unfolding n(1) z [symmetric] by simp
  have "rounded p mode sn y < real (2 ^ (p + E))" unfolding r of_nat_less_iff by (rule le)
  then show ?thesis using n(2,3) unfolding rounds_mag_def rounding_flags_def f r [symmetric] by simp
qed

lemma rounds_mag_overflow:
  assumes s: "scaled p c S t" and ex: "0 \<le> ex" and y: "y = t * 2 powi (ex - int c - 1)"
    and z: "int z = round_int mode sn (real S / 2 ^ Suc c)" and ge: "2 ^ (p + E) \<le> z * 2 ^ nat ex"
  shows "rounds_mag p E mode sn y ((E + 1) * 2 ^ p - of_bool (\<not> to_infinity mode sn)) (flag_overflow OR flag_inexact)"
proof -
  have r: "rounded p mode sn y = real (z * 2 ^ nat ex)" unfolding round_normal(1) [OF s ex y] z [symmetric] by simp
  have "real (2 ^ (p + E)) \<le> rounded p mode sn y" unfolding r of_nat_le_iff by (rule ge)
  then show ?thesis by (simp add: rounds_mag_def)
qed

lemma rounds_mag_subnormal:
  assumes s: "scaled p c S t" and ex: "ex < 0" and y: "y = t * 2 powi (ex - int c - 1)" and c: "0 < c" and E: "0 < E"
    and J: "J = jam S (nat (- ex))" and z: "int z = round_int mode sn (real J / 2 ^ Suc c)"
    and ti: "ti \<longleftrightarrow> ex < - 1 \<or> round_int mode sn (real S / 2 ^ Suc c) < 2 ^ Suc p"
  shows "rounds_mag p E mode sn y z
    (if J mod 2 ^ Suc c \<noteq> 0 then (if ti \<and> J mod 2 ^ Suc c \<noteq> 0 then flag_underflow else 0) OR flag_inexact else 0)"
    "z \<le> 2 ^ p"
proof -
  note n = round_subnormal [OF s ex y c, of mode sn, folded J]
  have "int z \<le> int (2 ^ p)" using n(5) unfolding z by simp
  then show le: "z \<le> 2 ^ p" by (simp only: of_nat_le_iff)
  have r: "rounded p mode sn y = real z" unfolding n(1) z [symmetric] by simp
  have "z < 2 ^ (p + E)" using le E power_strict_increasing [of p "p + E" "2 :: nat"] by linarith
  then have "real z < real (2 ^ (p + E))" by (simp only: of_nat_less_iff)
  then show "rounds_mag p E mode sn y z
    (if J mod 2 ^ Suc c \<noteq> 0 then (if ti \<and> J mod 2 ^ Suc c \<noteq> 0 then flag_underflow else 0) OR flag_inexact else 0)"
    using n(2,3) ti unfolding rounds_mag_def rounding_flags_def fmag_small [OF le] r [symmetric] by simp
qed

text \<open>What the rounding of both formats computes, on numbers; \<open>E\<close> is the exponent of the infinities.\<close>

definition round_sig :: "nat \<Rightarrow> u64 \<Rightarrow> bool \<Rightarrow> nat \<Rightarrow> nat" where
  "round_sig c mode sn S = nat (round_int mode sn (real S / 2 ^ Suc c))"

definition round_pack :: "nat \<Rightarrow> nat \<Rightarrow> nat \<Rightarrow> u64 \<Rightarrow> bool \<Rightarrow> int \<Rightarrow> nat \<Rightarrow> nat \<times> u64" where
  "round_pack p c E mode sn ex S =
     (if ex < 0
      then let J = jam S (nat (- ex))
           in (round_sig c mode sn J,
               if J mod 2 ^ Suc c \<noteq> 0
               then (if (ex < - 1 \<or> round_sig c mode sn S < 2 ^ Suc p) \<and> J mod 2 ^ Suc c \<noteq> 0 then flag_underflow else 0) OR flag_inexact
               else 0)
      else if int E \<le> ex \<or> ex = int E - 1 \<and> 2 ^ Suc p \<le> round_sig c mode sn S
      then ((E + 1) * 2 ^ p - of_bool (\<not> to_infinity mode sn), flag_overflow OR flag_inexact)
      else (nat ex * 2 ^ p + round_sig c mode sn S, if S mod 2 ^ Suc c \<noteq> 0 then flag_inexact else 0))"

lemma round_sig_int: "int (round_sig c mode sn S) = round_int mode sn (real S / 2 ^ Suc c)"
  unfolding round_sig_def using round_int_ge [of 0] by simp

lemma round_sig_bounds:
  assumes "scaled p c S t"
  shows "2 ^ p \<le> round_sig c mode sn S" "round_sig c mode sn S \<le> 2 ^ Suc p"
proof -
  have "int (2 ^ p) \<le> int (round_sig c mode sn S)" "int (round_sig c mode sn S) \<le> int (2 ^ Suc p)"
    unfolding round_sig_int using scaled_round(3,4) [OF assms, of mode sn] by simp_all
  then show "2 ^ p \<le> round_sig c mode sn S" "round_sig c mode sn S \<le> 2 ^ Suc p" by (simp_all only: of_nat_le_iff)
qed

lemma round_sig_small:
  assumes "scaled p c S t" "ex < 0" "0 < c"
  shows "round_sig c mode sn (jam S (nat (- ex))) \<le> 2 ^ p"
  using rounds_mag_subnormal(2) [OF assms(1,2) refl assms(3) _ refl round_sig_int refl, of 1] by simp

lemma round_pack_rounds:
  assumes s: "scaled p c S t" and c: "0 < c" and E: "0 < E" and y: "y = t * 2 powi (ex - int c - 1)"
  shows "rounds_mag p E mode sn y (fst (round_pack p c E mode sn ex S)) (snd (round_pack p c E mode sn ex S))"
proof (cases "ex < 0")
  case True
  have "(ex < - 1 \<or> round_sig c mode sn S < 2 ^ Suc p) = (ex < - 1 \<or> round_int mode sn (real S / 2 ^ Suc c) < 2 ^ Suc p)"
    unfolding round_sig_int [symmetric] by (metis of_nat_less_iff of_nat_power of_nat_numeral)
  with rounds_mag_subnormal(1) [OF s True y c E refl round_sig_int] show ?thesis
    using True by (simp only: round_pack_def Let_def if_True fst_conv snd_conv)
next
  case False
  then have ex: "0 \<le> ex" by simp
  let ?z = "round_sig c mode sn S"
  note z = round_sig_bounds [OF s, of mode sn]
  show ?thesis
  proof (cases "int E \<le> ex \<or> ex = int E - 1 \<and> 2 ^ Suc p \<le> ?z")
    case True
    have "2 ^ (p + E) \<le> ?z * 2 ^ nat ex"
    proof (cases "int E \<le> ex")
      case True
      then have "(2 :: nat) ^ p * 2 ^ E \<le> ?z * 2 ^ nat ex" by (intro mult_le_mono z(1) power_increasing) simp_all
      then show ?thesis by (simp only: power_add)
    next
      case F: False
      then have e: "nat ex = E - 1" "2 ^ Suc p \<le> ?z" using True E by auto
      have "(2 :: nat) ^ Suc p * 2 ^ (E - 1) \<le> ?z * 2 ^ nat ex" unfolding e(1) by (rule mult_le_mono1 [OF e(2)])
      then show ?thesis using E by (simp only: power_add [symmetric]) simp
    qed
    from rounds_mag_overflow [OF s ex y round_sig_int this] show ?thesis
      using True False by (simp only: round_pack_def if_True if_False fst_conv snd_conv)
  next
    case F: False
    have "?z * 2 ^ nat ex < 2 ^ (p + E)"
    proof (cases "ex = int E - 1")
      case True
      then have "?z * 2 ^ (E - 1) < 2 ^ Suc p * 2 ^ (E - 1)" using F by (intro mult_less_mono1) auto
      moreover have "nat ex = E - 1" using True by simp
      ultimately show ?thesis using E by (simp only: power_add [symmetric]) simp
    next
      case G: False
      then have "nat ex \<le> E - 2" "2 \<le> E" using F ex by auto
      then have "?z * 2 ^ nat ex \<le> 2 ^ Suc p * 2 ^ (E - 2)" using z(2) by (intro mult_le_mono power_increasing) simp_all
      also have "\<dots> < 2 ^ (p + E)" unfolding power_add [symmetric] using \<open>2 \<le> E\<close> by (intro power_strict_increasing) simp_all
      finally show ?thesis .
    qed
    from rounds_mag_normal [OF s ex y round_sig_int this] show ?thesis
      using F False by (simp only: round_pack_def if_False fst_conv snd_conv)
  qed
qed

end
