(* ===== verification/Softfloat_Pack.thy ===== *)
theory Softfloat_Pack
  imports Softfloat_Rounding
begin

text \<open>
  \<^verbatim>\<open>softfloat_roundPackToF32\<close> and \<^verbatim>\<open>softfloat_roundPackToF64\<close> round correctly: the word operations
  compute \<open>round_pack\<close>.
\<close>

section \<open>Sticky shifts and rounding on words\<close>

lemma unat_or_bool: "unat (x OR of_bool b) = (unat x OR of_bool b)" for x :: "'a :: len word"
  by (cases b) (simp_all add: unsigned_or_eq)

lemma push_nonzero:
  fixes a :: "'a :: len word"
  assumes "d \<le> LENGTH('a)"
  shows "push_bit (LENGTH('a) - d) a \<noteq> 0 \<longleftrightarrow> unat a mod 2 ^ d \<noteq> 0"
proof -
  have "unat (push_bit (LENGTH('a) - d) a) = take_bit d (unat a) * 2 ^ (LENGTH('a) - d)"
    unfolding unsigned_push_bit_eq take_bit_push_bit using assms by (simp add: push_bit_eq_mult)
  then show ?thesis unfolding unat_eq_zero [symmetric] by (simp add: take_bit_eq_mod)
qed

lemma shiftRightJam64_jam:
  assumes "0 < d"
  shows "unat (shiftRightJam64 a d) = jam (unat a) d"
proof (cases "d < 63")
  case True
  then have "- int d mod 64 = 64 - int d" using assms by (subst zmod_zminus1_eq_if) simp
  then have "nat (- int d mod 64) = LENGTH(64) - d" using True by simp
  then show ?thesis using True push_nonzero [of d a] by (simp add: shiftRightJam64_def jam_def unat_or_bool unat_drop)
next
  case False
  have a: "unat a < 2 ^ 64" by (rule unat_u64_lt)
  have "jam (unat a) d = of_bool (unat a \<noteq> 0)"
  proof (cases "d = 63")
    case True
    have "unat a div 2 ^ 63 < 2" using a by (simp add: less_mult_imp_div_less)
    then have "unat a div 2 ^ 63 = 0 \<or> unat a div 2 ^ 63 = 1" by linarith
    then show ?thesis using True div_mult_mod_eq [of "unat a" "2 ^ 63"] by (auto simp: jam_def)
  next
    case 2: False
    then have "(2 :: nat) ^ 64 \<le> 2 ^ d" using False by (intro power_increasing) simp_all
    then have "unat a < 2 ^ d" using a by linarith
    then show ?thesis by (simp add: jam_def)
  qed
  then show ?thesis using False by (simp add: shiftRightJam64_def unat_eq_zero)
qed

lemma shiftRightJam32_jam:
  assumes "0 < d"
  shows "unat (shiftRightJam32 a d) = jam (unat a) d"
proof (cases "d < 31")
  case True
  then have "- int d mod 32 = 32 - int d" using assms by (subst zmod_zminus1_eq_if) simp
  then have "nat (- int d mod 32) = LENGTH(32) - d" using True by simp
  then show ?thesis using True push_nonzero [of d a] by (simp add: shiftRightJam32_def jam_def unat_or_bool unat_drop)
next
  case False
  have a: "unat a < 2 ^ 32" by (rule unat_u32_lt)
  have "jam (unat a) d = of_bool (unat a \<noteq> 0)"
  proof (cases "d = 31")
    case True
    have "unat a div 2 ^ 31 < 2" using a by (simp add: less_mult_imp_div_less)
    then have "unat a div 2 ^ 31 = 0 \<or> unat a div 2 ^ 31 = 1" by linarith
    then show ?thesis using True div_mult_mod_eq [of "unat a" "2 ^ 31"] by (auto simp: jam_def)
  next
    case 2: False
    then have "(2 :: nat) ^ 32 \<le> 2 ^ d" using False by (intro power_increasing) simp_all
    then have "unat a < 2 ^ d" using a by linarith
    then show ?thesis by (simp add: jam_def)
  qed
  then show ?thesis using False by (simp add: shiftRightJam32_def unat_eq_zero)
qed

lemma unat_clear_low: "unat (x AND NOT (of_bool b)) = (if b then unat x div 2 * 2 else unat x)" for x :: "'a :: len word"
proof (cases b)
  case True
  have "x AND NOT 1 = push_bit 1 (drop_bit 1 x)"
    by (rule bit_eqI, unfold bit_and_iff bit_not_iff bit_1_iff bit_push_bit_iff bit_drop_bit_eq) auto
  moreover have "unat x div 2 * 2 < 2 ^ LENGTH('a)"
    by (rule le_less_trans [OF div_times_less_eq_dividend unsigned_less])
  ultimately show ?thesis using True unat_push [of "drop_bit 1 x" 1] unat_drop [of 1 x] by simp
qed simp

text \<open>The increment, the shift and the cleared tie compute it.\<close>

lemma rounded_word:
  fixes c :: nat and sg half rest :: "'a :: len word"
  assumes "unat sg < 2 ^ LENGTH('a) - 2 ^ Suc c" "unat half = 2 ^ c" "unat rest = 2 ^ Suc c - 1" "mask (Suc c) = rest"
    "Suc c < LENGTH('a)"
  shows "int (unat (drop_bit (Suc c) (sg + roundIncrement mode sn half rest) AND
      NOT (of_bool ((sg AND rest) XOR half = 0 \<and> mode = round_near_even)))) =
    round_int mode sn (real (unat sg) / 2 ^ Suc c)"
proof -
  let ?S = "unat sg" and ?i = "roundIncrement mode sn half rest"
  define q r where "q = ?S div 2 ^ Suc c" and "r = ?S mod 2 ^ Suc c"
  have S: "?S = q * 2 ^ Suc c + r" unfolding q_def r_def by (rule div_mult_mod_eq [symmetric])
  have r: "r < 2 ^ Suc c" by (simp add: r_def)
  have i: "unat ?i = (if mode \<noteq> round_near_even \<and> mode \<noteq> round_near_maxMag
      then if mode = (if sn then round_min else round_max) then 2 ^ Suc c - 1 else 0 else 2 ^ c)"
    using assms(2,3) by (simp add: roundIncrement_def)
  have "(1 :: nat) \<le> 2 ^ c" by simp
  then have "unat ?i < 2 ^ Suc c" unfolding i by (simp del: one_le_numeral)
  then have "?S + unat ?i < 2 ^ LENGTH('a)" using assms(1) by linarith
  then have "unat (sg + ?i) = ?S + unat ?i" by (rule unat_add_lem [THEN iffD1])
  then have d: "unat (drop_bit (Suc c) (sg + ?i)) = q + (r + unat ?i) div 2 ^ Suc c"
    unfolding unat_drop S by (simp only: add.assoc div_mult_self3) simp
  have t: "(sg AND rest) XOR half = 0 \<longleftrightarrow> r = 2 ^ c"
  proof -
    have "(sg AND rest) XOR half = 0 \<longleftrightarrow> sg AND rest = half" by (metis xor.right_neutral xor_self_eq xor.assoc)
    also have "\<dots> \<longleftrightarrow> unat (sg AND rest) = unat half" by (simp only: word_unat_eq_iff)
    also have "unat (sg AND rest) = r" unfolding r_def by (rule unat_low [OF assms(4)])
    finally show ?thesis using assms(2) by simp
  qed
  have h: "(r + 2 ^ c) div 2 ^ Suc c = (if r < 2 ^ c then 0 else 1)"
    "(r + (2 ^ Suc c - 1)) div 2 ^ Suc c = (if r = 0 then 0 else 1)" "(r + 0) div 2 ^ Suc c = 0"
    using r by (auto simp: div_nat_eqI)
  have k: "(r + unat ?i) div 2 ^ Suc c = (if mode \<noteq> round_near_even \<and> mode \<noteq> round_near_maxMag
      then if mode = (if sn then round_min else round_max) then if r = 0 then 0 else 1 else 0
      else if r < 2 ^ c then 0 else 1)"
    by (simp only: i h split: if_split) blast
  have tie: "even q \<Longrightarrow> (q + 1) div 2 * 2 = q" "odd q \<Longrightarrow> (q + 1) div 2 * 2 = q + 1" by presburger+
  show ?thesis
    unfolding unat_clear_low d t k round_int_nat q_def [symmetric] r_def [symmetric]
    using tie by (auto simp: round_defs)
qed

text \<open>The largest exponent, and the carry out of the significand that the code tests.\<close>

lemma carry_round:
  fixes sg half rest :: "'a :: len word"
  assumes "unat sg < 2 ^ LENGTH('a) - 2 ^ Suc c" "unat half = 2 ^ c" "unat rest = 2 ^ Suc c - 1" "mask (Suc c) = rest"
    "Suc c < LENGTH('a)"
  shows "2 ^ Suc p \<le> round_int mode sn (real (unat sg) / 2 ^ Suc c) \<longleftrightarrow>
    2 ^ (p + c + 2) \<le> unat (sg + roundIncrement mode sn half rest)"
proof -
  let ?u = "unat (sg + roundIncrement mode sn half rest)"
  have int: "2 ^ Suc p \<le> int n \<longleftrightarrow> 2 ^ Suc p \<le> n" for n
    by (metis of_nat_le_iff of_nat_power of_nat_numeral)
  have even: "2 ^ Suc p \<le> x div 2 * 2 \<longleftrightarrow> 2 ^ Suc p \<le> x" for x :: nat
    by (simp add: less_eq_div_iff_mult_less_eq mult.commute)
  have "2 ^ Suc p \<le> round_int mode sn (real (unat sg) / 2 ^ Suc c) \<longleftrightarrow> 2 ^ Suc p \<le> ?u div 2 ^ Suc c"
    unfolding rounded_word [OF assms, symmetric] unat_clear_low unat_drop
    by (simp only: int even split: if_split) simp
  also have "\<dots> \<longleftrightarrow> 2 ^ (p + c + 2) \<le> ?u" by (simp add: less_eq_div_iff_mult_less_eq power_add mult_ac)
  finally show ?thesis .
qed

section \<open>Rounding and packing\<close>

lemma masks10: "mask (Suc 9) = (0x3FF :: u64)" "mask (Suc 6) = (0x7F :: u32)"
  by (simp_all add: mask_eq_exp_minus_1)

lemmas rounded_word64 = rounded_word [where 'a = 64 and c = 9 and half = "0x200" and rest = "0x3FF", OF _ _ _ masks10(1), simplified]
lemmas rounded_word32 = rounded_word [where 'a = 32 and c = 6 and half = "0x40" and rest = "0x7F", OF _ _ _ masks10(2), simplified]
lemmas carry_round64 = carry_round [where 'a = 64 and c = 9 and p = 52 and half = "0x200" and rest = "0x3FF", OF _ _ _ masks10(1), simplified]
lemmas carry_round32 = carry_round [where 'a = 32 and c = 6 and p = 23 and half = "0x40" and rest = "0x7F", OF _ _ _ masks10(2), simplified]

lemma unat_word_of_int_u32: "0 \<le> i \<Longrightarrow> i < 2 ^ 32 \<Longrightarrow> unat (word_of_int i :: u32) = nat i"
  by (simp add: unat_eq_nat_uint unsigned_of_int take_bit_int_eq_self)

lemma pack32_value:
  assumes "unat ex * 2 ^ 23 + unat sg < 2 ^ 31"
  shows "mag32 (packToF32UI sn ex sg) = unat ex * 2 ^ 23 + unat sg" "signF32UI (packToF32UI sn ex sg) = sn"
proof -
  have b: "unat ex * 2 ^ 23 < 2 ^ LENGTH(32)" using assms by simp
  have "unat (push_bit 23 ex + sg) = unat ex * 2 ^ 23 + unat sg"
    using unat_push [OF b] assms by (simp add: unat_word_ariths)
  moreover have "packToF32UI sn ex sg = push_bit 31 (of_bool sn) + (push_bit 23 ex + sg)" by (simp add: packToF32UI_def add.assoc)
  ultimately have "unat (packToF32UI sn ex sg) = (if sn then 2 ^ 31 else 0) + (unat ex * 2 ^ 23 + unat sg)"
    using assms by (simp add: unat_word_ariths)
  then show "mag32 (packToF32UI sn ex sg) = unat ex * 2 ^ 23 + unat sg" "signF32UI (packToF32UI sn ex sg) = sn"
    using assms by (simp_all add: mag32_def sign32)
qed

lemma low10: "sg AND 0x3FF \<noteq> 0 \<longleftrightarrow> unat sg mod 2 ^ Suc 9 \<noteq> 0" for sg :: u64
  unfolding unat_low [OF masks10(1), symmetric] by (simp add: unat_eq_zero)

lemma low7: "sg AND 0x7F \<noteq> 0 \<longleftrightarrow> unat sg mod 2 ^ Suc 6 \<noteq> 0" for sg :: u32
  unfolding unat_low [OF masks10(2), symmetric] by (simp add: unat_eq_zero)

lemma roundPackEndF64_fields:
  assumes "unat sg < 2 ^ 63" "0 \<le> ex" "ex < 0x7FE" "z = round_sig 9 mode sn (unat sg)"
    "z = 0 \<Longrightarrow> ex = 0" "z \<le> 2 ^ 53"
  shows "signF64UI (fst (roundPackEndF64 mode sn ex sg fl)) = sn"
    "mag64 (fst (roundPackEndF64 mode sn ex sg fl)) = nat ex * 2 ^ 52 + z"
    "snd (roundPackEndF64 mode sn ex sg fl) = (if unat sg mod 2 ^ Suc 9 \<noteq> 0 then fl OR flag_inexact else fl)"
proof -
  let ?z = "drop_bit 10 (sg + roundIncrement mode sn 0x200 0x3FF) AND
    NOT (of_bool ((sg AND 0x3FF) XOR 0x200 = 0 \<and> mode = round_near_even))"
  have "int (unat ?z) = int z" unfolding assms(4) round_sig_int using rounded_word64 [of sg mode sn] assms(1) by simp
  then have z: "unat ?z = z" by (simp only: of_nat_eq_iff)
  have "nat ex \<le> 0x7FD" using assms(2,3) by linarith
  then have "nat ex * 2 ^ 52 \<le> 0x7FD * 2 ^ 52" by (rule mult_le_mono1)
  then have b: "nat ex * 2 ^ 52 + z < 2 ^ 63" using assms(6) by simp
  have e: "(if ?z = 0 then 0 else ex) = ex" using assms(5) z by (auto simp: unat_eq_zero [symmetric])
  have x: "unat (word_of_int ex :: u64) = nat ex" using assms(2,3) by (intro unat_word_of_int_small) simp_all
  have r: "fst (roundPackEndF64 mode sn ex sg fl) = packToF64UI sn (word_of_int ex) ?z"
    unfolding roundPackEndF64_def Let_def e by simp
  have p: "unat (word_of_int ex :: u64) * 2 ^ 52 + unat ?z < 2 ^ 63" unfolding x z by (rule b)
  show "signF64UI (fst (roundPackEndF64 mode sn ex sg fl)) = sn"
    "mag64 (fst (roundPackEndF64 mode sn ex sg fl)) = nat ex * 2 ^ 52 + z"
    unfolding r using pack64_value(2,3) [OF p] unfolding x z by simp_all
  show "snd (roundPackEndF64 mode sn ex sg fl) = (if unat sg mod 2 ^ Suc 9 \<noteq> 0 then fl OR flag_inexact else fl)"
    unfolding roundPackEndF64_def Let_def by (simp only: snd_conv low10)
qed

lemma roundPackEndF32_fields:
  assumes "unat sg < 2 ^ 31" "0 \<le> ex" "ex < 0xFE" "z = round_sig 6 mode sn (unat sg)"
    "z = 0 \<Longrightarrow> ex = 0" "z \<le> 2 ^ 24"
  shows "signF32UI (fst (roundPackEndF32 mode sn ex sg fl)) = sn"
    "mag32 (fst (roundPackEndF32 mode sn ex sg fl)) = nat ex * 2 ^ 23 + z"
    "snd (roundPackEndF32 mode sn ex sg fl) = (if unat sg mod 2 ^ Suc 6 \<noteq> 0 then fl OR flag_inexact else fl)"
proof -
  let ?z = "drop_bit 7 (sg + roundIncrement mode sn 0x40 0x7F) AND
    NOT (of_bool ((sg AND 0x7F) XOR 0x40 = 0 \<and> mode = round_near_even))"
  have "int (unat ?z) = int z" unfolding assms(4) round_sig_int using rounded_word32 [of sg mode sn] assms(1) by simp
  then have z: "unat ?z = z" by (simp only: of_nat_eq_iff)
  have "nat ex \<le> 0xFD" using assms(2,3) by linarith
  then have "nat ex * 2 ^ 23 \<le> 0xFD * 2 ^ 23" by (rule mult_le_mono1)
  then have b: "nat ex * 2 ^ 23 + z < 2 ^ 31" using assms(6) by simp
  have e: "(if ?z = 0 then 0 else ex) = ex" using assms(5) z by (auto simp: unat_eq_zero [symmetric])
  have x: "unat (word_of_int ex :: u32) = nat ex" using assms(2,3) by (intro unat_word_of_int_u32) simp_all
  have r: "fst (roundPackEndF32 mode sn ex sg fl) = packToF32UI sn (word_of_int ex) ?z"
    unfolding roundPackEndF32_def Let_def e by simp
  have p: "unat (word_of_int ex :: u32) * 2 ^ 23 + unat ?z < 2 ^ 31" unfolding x z by (rule b)
  show "signF32UI (fst (roundPackEndF32 mode sn ex sg fl)) = sn"
    "mag32 (fst (roundPackEndF32 mode sn ex sg fl)) = nat ex * 2 ^ 23 + z"
    unfolding r using pack32_value(1,2) [OF p] unfolding x z by simp_all
  show "snd (roundPackEndF32 mode sn ex sg fl) = (if unat sg mod 2 ^ Suc 6 \<noteq> 0 then fl OR flag_inexact else fl)"
    unfolding roundPackEndF32_def Let_def by (simp only: snd_conv low7)
qed

lemma infinity64:
  "signF64UI (packToF64UI sn 0x7FF 0 - of_bool b) = sn"
  "mag64 (packToF64UI sn 0x7FF 0 - of_bool b) = (2046 + 1) * 2 ^ 52 - of_bool b"
  by (cases sn; cases b; simp add: packToF64UI_def sign64 mag64_def)+

lemma infinity32:
  "signF32UI (packToF32UI sn 0xFF 0 - of_bool b) = sn"
  "mag32 (packToF32UI sn 0xFF 0 - of_bool b) = (254 + 1) * 2 ^ 23 - of_bool b"
  by (cases sn; cases b; simp add: packToF32UI_def sign32 mag32_def)+

lemma incr_0: "rest \<noteq> 0 \<Longrightarrow> half \<noteq> 0 \<Longrightarrow> roundIncrement mode sn half rest = 0 \<longleftrightarrow> \<not> to_infinity mode sn"
  by (auto simp: roundIncrement_def to_infinity_def)


lemma roundPackToF64_parts:
  assumes S: "2 ^ 62 \<le> unat sg" "unat sg < 2 ^ 63" and ex: "- 32768 \<le> ex" "ex < 32768"
  shows "signF64UI (fst (roundPackToF64 mode sn ex sg)) = sn"
    "(mag64 (fst (roundPackToF64 mode sn ex sg)), snd (roundPackToF64 mode sn ex sg)) = round_pack 52 9 2046 mode sn ex (unat sg)"
proof -
  let ?i = "roundIncrement mode sn 0x200 0x3FF :: u64"
  have s: "scaled 52 9 (unat sg) (real (unat sg))" unfolding scaled_def using S by (intro conjI agrees_exact) simp_all
  define z where "z = round_sig 9 mode sn (unat sg)"
  note z = round_sig_bounds [OF s, of mode sn, folded z_def]
  have c: "0x8000000000000000 \<le> sg + ?i \<longleftrightarrow> 2 ^ Suc 52 \<le> z"
  proof -
    have "2 ^ Suc 52 \<le> int z \<longleftrightarrow> 2 ^ 63 \<le> unat (sg + ?i)"
      using carry_round64 [of sg mode sn] S(2) by (simp add: z_def round_sig_int)
    then show ?thesis by (simp add: word_le_nat_alt)
  qed
  have "signF64UI (fst (roundPackToF64 mode sn ex sg)) = sn \<and>
    (mag64 (fst (roundPackToF64 mode sn ex sg)), snd (roundPackToF64 mode sn ex sg)) = round_pack 52 9 2046 mode sn ex (unat sg)"
  proof (cases "ex < 0")
    case True
    let ?J = "shiftRightJam64 sg (nat (- ex))"
    have j: "unat ?J = jam (unat sg) (nat (- ex))" by (rule shiftRightJam64_jam) (use True in simp)
    have J63: "unat ?J < 2 ^ 63" unfolding j using S jam_le [of "nat (- ex)" "unat sg"] True by simp
    have J: "round_sig 9 mode sn (unat ?J) \<le> 2 ^ 53" unfolding j using round_sig_small [OF s True, of mode sn] by simp
    have "0x7FD \<le> (word_of_int ex :: u16)"
    proof -
      have "uint (word_of_int ex :: u16) = (ex + 65536) mod 65536" by (simp add: unsigned_of_int take_bit_eq_mod)
      also have "\<dots> = ex + 65536" using True ex(1) by (intro mod_pos_pos_trivial) simp_all
      finally show ?thesis using ex(1) by (simp add: word_le_def)
    qed
    then have p: "roundPackToF64 mode sn ex sg = roundPackEndF64 mode sn 0 ?J
        (if (ex < -1 \<or> z < 2 ^ Suc 52) \<and> unat ?J mod 2 ^ Suc 9 \<noteq> 0 then flag_underflow else 0)"
      unfolding roundPackToF64_def Let_def low10 [symmetric] not_le [symmetric] c using True by simp
    show ?thesis
      unfolding p round_pack_def z_def [symmetric] j [symmetric] Let_def
      using roundPackEndF64_fields [OF J63 _ _ refl _ J, of 0] True by simp
  next
    case False
    then have ex0: "0 \<le> ex" by simp
    have big: "0x7FD \<le> (word_of_int ex :: u16) \<longleftrightarrow> 0x7FD \<le> ex" using ex0 ex(2)
      by (simp add: word_le_def unsigned_of_int take_bit_int_eq_self)
    show ?thesis
    proof (cases "0x7FE \<le> ex \<or> ex = 0x7FD \<and> 2 ^ Suc 52 \<le> z")
      case True
      then have "roundPackToF64 mode sn ex sg = (packToF64UI sn 0x7FF 0 - of_bool (?i = 0), flag_overflow OR flag_inexact)"
        using big c ex0 unfolding roundPackToF64_def Let_def by auto
      then show ?thesis
        using True False incr_0 [of "0x3FF :: u64" "0x200" mode sn]
        by (simp add: infinity64 round_pack_def z_def [symmetric])
    next
      case F: False
      then have e: "ex < 0x7FE" by auto
      have p: "roundPackToF64 mode sn ex sg = roundPackEndF64 mode sn ex sg 0"
        using F big c ex0 unfolding roundPackToF64_def Let_def by auto
      have "z = 0 \<Longrightarrow> ex = 0" "z \<le> 2 ^ 53" using z by simp_all
      from roundPackEndF64_fields [OF S(2) ex0 e z_def this, of 0] show ?thesis
        using F False by (auto simp: p round_pack_def z_def [symmetric])
    qed
  qed
  then show "signF64UI (fst (roundPackToF64 mode sn ex sg)) = sn"
    "(mag64 (fst (roundPackToF64 mode sn ex sg)), snd (roundPackToF64 mode sn ex sg)) = round_pack 52 9 2046 mode sn ex (unat sg)"
    by blast+
qed

lemma roundPackToF64_rounds:
  assumes s: "scaled 52 9 (unat sg) t" and ex: "- 32768 \<le> ex" "ex < 32768" and y: "y = t * 2 powi (ex - 10)"
  shows "rounds64 mode sn y (roundPackToF64 mode sn ex sg)"
proof -
  have S: "2 ^ 62 \<le> unat sg" "unat sg < 2 ^ 63" using s by (simp_all add: scaled_def)
  show ?thesis
    using round_pack_rounds [OF s, of 2046 y ex mode sn] y
    unfolding rounds64_def roundPackToF64_parts(2) [OF S ex, symmetric] roundPackToF64_parts(1) [OF S ex] by simp
qed

lemma roundPackToF32_parts:
  assumes S: "2 ^ 30 \<le> unat sg" "unat sg < 2 ^ 31" and ex: "- 2147483648 \<le> ex" "ex < 2147483648"
  shows "signF32UI (fst (roundPackToF32 mode sn ex sg)) = sn"
    "(mag32 (fst (roundPackToF32 mode sn ex sg)), snd (roundPackToF32 mode sn ex sg)) = round_pack 23 6 254 mode sn ex (unat sg)"
proof -
  let ?i = "roundIncrement mode sn 0x40 0x7F :: u32"
  have s: "scaled 23 6 (unat sg) (real (unat sg))" unfolding scaled_def using S by (intro conjI agrees_exact) simp_all
  define z where "z = round_sig 6 mode sn (unat sg)"
  note z = round_sig_bounds [OF s, of mode sn, folded z_def]
  have c: "0x80000000 \<le> sg + ?i \<longleftrightarrow> 2 ^ Suc 23 \<le> z"
  proof -
    have "2 ^ Suc 23 \<le> int z \<longleftrightarrow> 2 ^ 31 \<le> unat (sg + ?i)"
      using carry_round32 [of sg mode sn] S(2) by (simp add: z_def round_sig_int)
    then show ?thesis by (simp add: word_le_nat_alt)
  qed
  have "signF32UI (fst (roundPackToF32 mode sn ex sg)) = sn \<and>
    (mag32 (fst (roundPackToF32 mode sn ex sg)), snd (roundPackToF32 mode sn ex sg)) = round_pack 23 6 254 mode sn ex (unat sg)"
  proof (cases "ex < 0")
    case True
    let ?J = "shiftRightJam32 sg (nat (- ex))"
    have j: "unat ?J = jam (unat sg) (nat (- ex))" by (rule shiftRightJam32_jam) (use True in simp)
    have J31: "unat ?J < 2 ^ 31" unfolding j using S jam_le [of "nat (- ex)" "unat sg"] True by simp
    have J: "round_sig 6 mode sn (unat ?J) \<le> 2 ^ 24" unfolding j using round_sig_small [OF s True, of mode sn] by simp
    have "0xFD \<le> (word_of_int ex :: u32)"
    proof -
      have "uint (word_of_int ex :: u32) = (ex + 4294967296) mod 4294967296" by (simp add: unsigned_of_int take_bit_eq_mod)
      also have "\<dots> = ex + 4294967296" using True ex(1) by (intro mod_pos_pos_trivial) simp_all
      finally show ?thesis using ex(1) by (simp add: word_le_def)
    qed
    then have p: "roundPackToF32 mode sn ex sg = roundPackEndF32 mode sn 0 ?J
        (if (ex < -1 \<or> z < 2 ^ Suc 23) \<and> unat ?J mod 2 ^ Suc 6 \<noteq> 0 then flag_underflow else 0)"
      unfolding roundPackToF32_def Let_def low7 [symmetric] not_le [symmetric] c using True by simp
    show ?thesis
      unfolding p round_pack_def z_def [symmetric] j [symmetric] Let_def
      using roundPackEndF32_fields [OF J31 _ _ refl _ J, of 0] True by simp
  next
    case False
    then have ex0: "0 \<le> ex" by simp
    have big: "0xFD \<le> (word_of_int ex :: u32) \<longleftrightarrow> 0xFD \<le> ex" using ex0 ex(2)
      by (simp add: word_le_def unsigned_of_int take_bit_int_eq_self)
    show ?thesis
    proof (cases "0xFE \<le> ex \<or> ex = 0xFD \<and> 2 ^ Suc 23 \<le> z")
      case True
      then have "roundPackToF32 mode sn ex sg = (packToF32UI sn 0xFF 0 - of_bool (?i = 0), flag_overflow OR flag_inexact)"
        using big c ex0 unfolding roundPackToF32_def Let_def by auto
      then show ?thesis
        using True False incr_0 [of "0x7F :: u32" "0x40" mode sn]
        by (simp add: infinity32 round_pack_def z_def [symmetric])
    next
      case F: False
      then have e: "ex < 0xFE" by auto
      have p: "roundPackToF32 mode sn ex sg = roundPackEndF32 mode sn ex sg 0"
        using F big c ex0 unfolding roundPackToF32_def Let_def by auto
      have "z = 0 \<Longrightarrow> ex = 0" "z \<le> 2 ^ 24" using z by simp_all
      from roundPackEndF32_fields [OF S(2) ex0 e z_def this, of 0] show ?thesis
        using F False by (auto simp: p round_pack_def z_def [symmetric])
    qed
  qed
  then show "signF32UI (fst (roundPackToF32 mode sn ex sg)) = sn"
    "(mag32 (fst (roundPackToF32 mode sn ex sg)), snd (roundPackToF32 mode sn ex sg)) = round_pack 23 6 254 mode sn ex (unat sg)"
    by blast+
qed

lemma roundPackToF32_rounds:
  assumes s: "scaled 23 6 (unat sg) t" and ex: "- 2147483648 \<le> ex" "ex < 2147483648" and y: "y = t * 2 powi (ex - 7)"
  shows "rounds32 mode sn y (roundPackToF32 mode sn ex sg)"
proof -
  have S: "2 ^ 30 \<le> unat sg" "unat sg < 2 ^ 31" using s by (simp_all add: scaled_def)
  show ?thesis
    using round_pack_rounds [OF s, of 254 y ex mode sn] y
    unfolding rounds32_def roundPackToF32_parts(2) [OF S ex, symmetric] roundPackToF32_parts(1) [OF S ex] by simp
qed

end
