(* ===== verification/Softfloat_Operands.thy ===== *)
theory Softfloat_Operands
  imports Softfloat_Pack Softfloat_Arith
begin

text \<open>
  The operands of the arithmetic: classes of numbers, leading zeros, significands with their
  hidden bit and subnormal numbers normalised, significands with one of two leading bits.
\<close>

section \<open>Classes\<close>

definition isInfF64UI :: "u64 \<Rightarrow> bool" where "isInfF64UI a \<longleftrightarrow> mag64 a = 0x7FF * 2 ^ 52"
definition isInfF32UI :: "u32 \<Rightarrow> bool" where "isInfF32UI a \<longleftrightarrow> mag32 a = 0xFF * 2 ^ 23"

lemma mag64_fields: "mag64 a = unat (expF64UI a) * 2 ^ 52 + unat (fracF64UI a)"
  unfolding exp64 frac64 by (rule div_mult_mod_eq [symmetric])

lemma mag32_fields: "mag32 a = unat (expF32UI a) * 2 ^ 23 + unat (fracF32UI a)"
  unfolding exp32 frac32 by (rule div_mult_mod_eq [symmetric])

lemma class64:
  "isInfF64UI a \<longleftrightarrow> expF64UI a = 0x7FF \<and> fracF64UI a = 0"
  "isNaNF64UI a \<longleftrightarrow> expF64UI a = 0x7FF \<and> fracF64UI a \<noteq> 0"
  "fval64 a = 0 \<longleftrightarrow> mag64 a = 0" "mag64 a = 0 \<longleftrightarrow> expF64UI a = 0 \<and> fracF64UI a = 0"
proof -
  have e: "unat (expF64UI a) = 0x7FF \<longleftrightarrow> expF64UI a = 0x7FF" by (simp add: word_unat_eq_iff)
  show "isInfF64UI a \<longleftrightarrow> expF64UI a = 0x7FF \<and> fracF64UI a = 0"
  proof
    assume "isInfF64UI a"
    then have "unat (expF64UI a) = 0x7FF" "unat (fracF64UI a) = 0" unfolding exp64 frac64 isInfF64UI_def by simp_all
    then show "expF64UI a = 0x7FF \<and> fracF64UI a = 0" by (simp add: word_unat_eq_iff)
  qed (simp add: isInfF64UI_def mag64_fields)
  show "isNaNF64UI a \<longleftrightarrow> expF64UI a = 0x7FF \<and> fracF64UI a \<noteq> 0"
    unfolding nan64_fields e by (simp add: unat_eq_zero)
  show "fval64 a = 0 \<longleftrightarrow> mag64 a = 0" by (simp add: fval64_mag)
  show "mag64 a = 0 \<longleftrightarrow> expF64UI a = 0 \<and> fracF64UI a = 0" by (simp add: mag64_fields unat_eq_zero)
qed

lemma class32:
  "isInfF32UI a \<longleftrightarrow> expF32UI a = 0xFF \<and> fracF32UI a = 0"
  "isNaNF32UI a \<longleftrightarrow> expF32UI a = 0xFF \<and> fracF32UI a \<noteq> 0"
  "fval32 a = 0 \<longleftrightarrow> mag32 a = 0" "mag32 a = 0 \<longleftrightarrow> expF32UI a = 0 \<and> fracF32UI a = 0"
proof -
  have e: "unat (expF32UI a) = 0xFF \<longleftrightarrow> expF32UI a = 0xFF" by (simp add: word_unat_eq_iff)
  show "isInfF32UI a \<longleftrightarrow> expF32UI a = 0xFF \<and> fracF32UI a = 0"
  proof
    assume "isInfF32UI a"
    then have "unat (expF32UI a) = 0xFF" "unat (fracF32UI a) = 0" unfolding exp32 frac32 isInfF32UI_def by simp_all
    then show "expF32UI a = 0xFF \<and> fracF32UI a = 0" by (simp add: word_unat_eq_iff)
  qed (simp add: isInfF32UI_def mag32_fields)
  show "isNaNF32UI a \<longleftrightarrow> expF32UI a = 0xFF \<and> fracF32UI a \<noteq> 0"
    unfolding nan32_fields e by (simp add: unat_eq_zero)
  show "fval32 a = 0 \<longleftrightarrow> mag32 a = 0" by (simp add: fval32_mag)
  show "mag32 a = 0 \<longleftrightarrow> expF32UI a = 0 \<and> fracF32UI a = 0" by (simp add: mag32_fields unat_eq_zero)
qed

lemma or_zero: "x OR y = 0 \<longleftrightarrow> x = 0 \<and> y = 0" for x y :: "'a :: len word"
  by (rule or_eq_0_iff)

section \<open>Normalised operands\<close>

lemma unat_halves:
  fixes a :: u64
  shows "unat (ucast (ucast (drop_bit 32 a) :: u32) :: u64) = unat a div 2 ^ 32" "unat (ucast (ucast a :: u32) :: u64) = unat a mod 2 ^ 32"
proof -
  have "unat a div 2 ^ 32 < 2 ^ 32" using unat_u64_lt [of a] by (simp add: less_mult_imp_div_less)
  then show "unat (ucast (ucast (drop_bit 32 a) :: u32) :: u64) = unat a div 2 ^ 32"
    unfolding unat_widen unat_drop [symmetric] unsigned_ucast_eq by (simp add: unsigned_take_bit_eq take_bit_nat_eq_self)
  show "unat (ucast (ucast a :: u32) :: u64) = unat a mod 2 ^ 32"
    by (simp only: unat_widen) (simp add: unsigned_ucast_eq take_bit_eq_mod)
qed

lemma or_bit_small:
  fixes s :: "'a :: len word"
  assumes "unat s < 2 ^ n" "n < LENGTH('a)"
  shows "unat (s OR push_bit n 1) = unat s + 2 ^ n"
proof -
  have s: "s = take_bit n s" using assms(1) by (simp add: word_unat_eq_iff unsigned_take_bit_eq take_bit_nat_eq_self)
  have "take_bit n s AND push_bit n 1 = 0" by (rule bit_eqI) (auto simp: bit_simps)
  then have "unat (s OR push_bit n 1) = unat (s + push_bit n 1)" using s by (metis disjunctive_add_eq_or)
  also have "unat (push_bit n 1 :: 'a word) = 2 ^ n" using assms(2) by (subst unat_push) simp_all
  then have "unat (s + push_bit n 1) = unat s + 2 ^ n"
  proof -
    have "(2 :: nat) ^ Suc n \<le> 2 ^ LENGTH('a)" using assms(2) by (intro power_increasing) simp_all
    then have "unat s + 2 ^ n < 2 ^ LENGTH('a)" using assms(1) by simp
    then show ?thesis using \<open>unat (push_bit n 1 :: 'a word) = 2 ^ n\<close> by (metis unat_add_lem)
  qed
  finally show ?thesis .
qed

lemma or_bit_big:
  fixes s :: "'a :: len word"
  assumes "2 ^ n \<le> unat s" "unat s < 2 ^ Suc n"
  shows "s OR push_bit n 1 = s"
proof -
  have "unat s div 2 ^ n = 1" using assms by (simp add: div_nat_eqI)
  then have "drop_bit n s = 1" by (simp add: word_unat_eq_iff unat_drop)
  then have "bit s n" by (simp add: bit_iff_odd_drop_bit)
  then show ?thesis by (intro bit_eqI) (auto simp: bit_simps)
qed

lemma clz64_nat: "countLeadingZeros64 a = clz8 64 (unat a)"
proof -
  let ?hi = "ucast (drop_bit 32 a) :: u32" and ?lo = "ucast a :: u32"
  have c: "countLeadingZeros64 a = (if ?hi = 0 then 32 + countLeadingZeros32 ?lo else countLeadingZeros32 ?hi)"
    by (simp add: countLeadingZeros64_def countLeadingZeros32_def Let_def)
  have hi: "unat ?hi = unat a div 2 ^ 32" and lo: "unat ?lo = unat a mod 2 ^ 32"
    using unat_halves [of a] by (simp_all only: unat_widen)
  have lt: "unat a < 2 ^ (32 + 32)" using unat_u64_lt [of a] by simp
  show ?thesis
  proof (cases "unat a < 2 ^ 32")
    case True
    then show ?thesis unfolding c clz32_nat hi lo using clz8_low [of "unat a" 32 32] by (simp add: unat_eq_zero [symmetric] hi)
  next
    case False
    then have "unat a div 2 ^ 32 \<noteq> 0" by (simp add: div_eq_0_iff)
    then show ?thesis unfolding c clz32_nat hi lo using clz8_top [of 32 "unat a" 32] False lt
      by (simp add: unat_eq_zero [symmetric] hi)
  qed
qed

lemma normalise:
  assumes "0 < f" "f < 2 ^ p" "p < n"
  defines "d \<equiv> clz8 n f - (n - 1 - p)"
  shows "n - 1 - p < clz8 n f" "2 ^ p \<le> f * 2 ^ d" "f * 2 ^ d < 2 ^ Suc p" "d \<le> p"
proof -
  have "(2 :: nat) ^ p < 2 ^ n" using assms(3) by (intro power_strict_increasing) simp_all
  then have "f < 2 ^ n" using assms(2) by linarith
  note b = clz8_bounds [OF assms(1) this]
  obtain k where n: "n = Suc (p + k)" using assms(3) less_iff_Suc_add by blast
  show lt: "n - 1 - p < clz8 n f"
  proof (rule ccontr)
    assume "\<not> n - 1 - p < clz8 n f"
    then have "(2 :: nat) ^ clz8 n f \<le> 2 ^ k" by (intro power_increasing) (simp_all add: n)
    then have "f * 2 ^ clz8 n f < 2 ^ p * 2 ^ k" using assms(2) by (intro mult_less_le_imp_less) (simp_all add: assms(1))
    then show False using b by (simp add: n power_add)
  qed
  have e: "f * 2 ^ clz8 n f = f * 2 ^ d * 2 ^ k" using lt by (simp add: d_def n power_add [symmetric] mult.assoc)
  have h: "(2 :: nat) ^ n = 2 ^ Suc p * 2 ^ k" by (simp add: n power_add)
  show l: "2 ^ p \<le> f * 2 ^ d" and u: "f * 2 ^ d < 2 ^ Suc p" using b unfolding e h by simp_all
  have "2 ^ d \<le> f * 2 ^ d" using assms(1) by simp
  then have "(2 :: nat) ^ d < 2 ^ Suc p" using u by linarith
  then show "d \<le> p" by (simp only: power_strict_increasing_iff)
qed

lemma hidden_bit: "(0x0010000000000000 :: u64) = push_bit 52 1" "(0x00800000 :: u32) = push_bit 23 1"
  by simp_all

lemma unat_push_mod: "unat (push_bit k a) = unat a * 2 ^ k" if "unat a * 2 ^ k < 2 ^ 64" for a :: u64
  using unat_push [of a k] that by simp

lemma unat_push32: "unat (push_bit k a) = unat a * 2 ^ k" if "unat a * 2 ^ k < 2 ^ 32" for a :: u32
  using unat_push [of a k] that by simp

lemma shift_back: "real (f * 2 ^ d) * 2 powi (1 - int d - 1) = real f"
  by (simp add: power_int_minus field_simps)

lemma powi_pred: "0 < e \<Longrightarrow> (2 :: real) powi (int e - 1) = 2 ^ (e - 1)"
  by (cases e) (simp_all add: power_int_def)

lemma normF64_value:
  assumes "mag64 a \<noteq> 0"
  obtains e s where "normF64 (expF64UI a) (fracF64UI a) = (e, s)"
    "2 ^ 52 \<le> unat (s OR 0x0010000000000000)" "unat (s OR 0x0010000000000000) < 2 ^ 53"
    "\<bar>real_of_int (fval64 a)\<bar> = real (unat (s OR 0x0010000000000000)) * 2 powi (e - 1)" "- 51 \<le> e" "e \<le> 0x7FF"
proof (cases "expF64UI a = 0")
  case True
  let ?f = "unat (fracF64UI a)" and ?s = "fracF64UI a"
  define d where "d = clz8 64 ?f - 11"
  have f: "?f = mag64 a" "?f < 2 ^ 52" using True exp64 [of a] by (simp_all add: frac64 unat_eq_zero [symmetric] div_eq_0_iff)
  have pos: "0 < ?f" using assms by (simp add: f(1))
  have d': "d = clz8 64 ?f - (64 - 1 - 52)" by (simp add: d_def)
  have n: "2 ^ 52 \<le> ?f * 2 ^ d" "?f * 2 ^ d < 2 ^ Suc 52" "d \<le> 52"
    unfolding d' by (rule normalise [OF pos f(2)], simp)+
  have v: "\<bar>real_of_int (fval64 a)\<bar> = real ?f" using fmag_small [of "mag64 a" 52] f by (simp add: fval64_mag del: of_nat_unat)
  have d: "countLeadingZeros64 ?s - 11 = d" by (simp add: clz64_nat d_def)
  have u: "unat (push_bit d ?s) = ?f * 2 ^ d" by (rule unat_push_mod) (use n in simp)
  have o: "push_bit d ?s OR 0x0010000000000000 = push_bit d ?s"
    unfolding hidden_bit by (rule or_bit_big; unfold u) (use n in simp_all)
  show thesis
  proof (rule that)
    show "normF64 (expF64UI a) ?s = (1 - int d, push_bit d ?s)"
      unfolding normF64_def normSubnormalF64Sig_def d Let_def using True by simp
    show "2 ^ 52 \<le> unat (push_bit d ?s OR 0x0010000000000000)" "unat (push_bit d ?s OR 0x0010000000000000) < 2 ^ 53"
      unfolding o u using n by simp_all
    show "\<bar>real_of_int (fval64 a)\<bar> = real (unat (push_bit d ?s OR 0x0010000000000000)) * 2 powi (1 - int d - 1)"
      unfolding o u v by (rule shift_back [symmetric])
    show "- 51 \<le> 1 - int d" "1 - int d \<le> 0x7FF" using n(3) by linarith+
  qed
next
  case False
  let ?f = "unat (fracF64UI a)" and ?e = "unat (expF64UI a)"
  have f: "?f < 2 ^ 52" by (simp add: frac64)
  have e: "0 < ?e" using False by (simp add: unat_gt_0)
  have e': "?e < 2048" unfolding exp64 mag64_def by (simp add: less_mult_imp_div_less)
  have v: "\<bar>real_of_int (fval64 a)\<bar> = real (?f + 2 ^ 52) * 2 ^ (?e - 1)"
  proof -
    have "mag64 a = ?e * 2 ^ 52 + ?f" unfolding exp64 frac64 by (rule div_mult_mod_eq [symmetric])
    then have "fmag 52 (mag64 a) = (?f + 2 ^ 52) * 2 ^ (?e - 1)" using fmag_parts [OF f e] by simp
    then show ?thesis by (simp add: fval64_mag abs_mult del: of_nat_unat)
  qed
  have u: "unat (fracF64UI a OR 0x0010000000000000) = ?f + 2 ^ 52" unfolding hidden_bit by (rule or_bit_small [OF f]) simp
  show thesis
  proof (rule that)
    show "normF64 (expF64UI a) (fracF64UI a) = (int ?e, fracF64UI a)"
      unfolding normF64_def using False by simp
    show "2 ^ 52 \<le> unat (fracF64UI a OR 0x0010000000000000)" "unat (fracF64UI a OR 0x0010000000000000) < 2 ^ 53"
      unfolding u using f by simp_all
    show "\<bar>real_of_int (fval64 a)\<bar> = real (unat (fracF64UI a OR 0x0010000000000000)) * 2 powi (int ?e - 1)"
      unfolding u v powi_pred [OF e] ..
    show "- 51 \<le> int ?e" "int ?e \<le> 0x7FF" using e' by linarith+
  qed
qed

lemma normF32_value:
  assumes "mag32 a \<noteq> 0"
  obtains e s where "normF32 (expF32UI a) (fracF32UI a) = (e, s)"
    "2 ^ 23 \<le> unat (s OR 0x00800000)" "unat (s OR 0x00800000) < 2 ^ 24"
    "\<bar>real_of_int (fval32 a)\<bar> = real (unat (s OR 0x00800000)) * 2 powi (e - 1)" "- 22 \<le> e" "e \<le> 0xFF"
proof (cases "expF32UI a = 0")
  case True
  let ?f = "unat (fracF32UI a)" and ?s = "fracF32UI a"
  define d where "d = clz8 32 ?f - 8"
  have f: "?f = mag32 a" "?f < 2 ^ 23" using True exp32 [of a] by (simp_all add: frac32 unat_eq_zero [symmetric] div_eq_0_iff)
  have pos: "0 < ?f" using assms by (simp add: f(1))
  have d': "d = clz8 32 ?f - (32 - 1 - 23)" by (simp add: d_def)
  have n: "2 ^ 23 \<le> ?f * 2 ^ d" "?f * 2 ^ d < 2 ^ Suc 23" "d \<le> 23"
    unfolding d' by (rule normalise [OF pos f(2)], simp)+
  have v: "\<bar>real_of_int (fval32 a)\<bar> = real ?f" using fmag_small [of "mag32 a" 23] f by (simp add: fval32_mag del: of_nat_unat)
  have d: "countLeadingZeros32 ?s - 8 = d" by (simp add: clz32_nat d_def)
  have u: "unat (push_bit d ?s) = ?f * 2 ^ d" by (rule unat_push32) (use n in simp)
  have o: "push_bit d ?s OR 0x00800000 = push_bit d ?s"
    unfolding hidden_bit by (rule or_bit_big; unfold u) (use n in simp_all)
  show thesis
  proof (rule that)
    show "normF32 (expF32UI a) ?s = (1 - int d, push_bit d ?s)"
      unfolding normF32_def normSubnormalF32Sig_def d Let_def using True by simp
    show "2 ^ 23 \<le> unat (push_bit d ?s OR 0x00800000)" "unat (push_bit d ?s OR 0x00800000) < 2 ^ 24"
      unfolding o u using n by simp_all
    show "\<bar>real_of_int (fval32 a)\<bar> = real (unat (push_bit d ?s OR 0x00800000)) * 2 powi (1 - int d - 1)"
      unfolding o u v by (rule shift_back [symmetric])
    show "- 22 \<le> 1 - int d" "1 - int d \<le> 0xFF" using n(3) by linarith+
  qed
next
  case False
  let ?f = "unat (fracF32UI a)" and ?e = "unat (expF32UI a)"
  have f: "?f < 2 ^ 23" by (simp add: frac32)
  have e: "0 < ?e" using False by (simp add: unat_gt_0)
  have e': "?e < 256" unfolding exp32 mag32_def by (simp add: less_mult_imp_div_less)
  have v: "\<bar>real_of_int (fval32 a)\<bar> = real (?f + 2 ^ 23) * 2 ^ (?e - 1)"
  proof -
    have "mag32 a = ?e * 2 ^ 23 + ?f" unfolding exp32 frac32 by (rule div_mult_mod_eq [symmetric])
    then have "fmag 23 (mag32 a) = (?f + 2 ^ 23) * 2 ^ (?e - 1)" using fmag_parts [OF f e] by simp
    then show ?thesis by (simp add: fval32_mag abs_mult del: of_nat_unat)
  qed
  have u: "unat (fracF32UI a OR 0x00800000) = ?f + 2 ^ 23" unfolding hidden_bit by (rule or_bit_small [OF f]) simp
  show thesis
  proof (rule that)
    show "normF32 (expF32UI a) (fracF32UI a) = (int ?e, fracF32UI a)"
      unfolding normF32_def using False by simp
    show "2 ^ 23 \<le> unat (fracF32UI a OR 0x00800000)" "unat (fracF32UI a OR 0x00800000) < 2 ^ 24"
      unfolding u using f by simp_all
    show "\<bar>real_of_int (fval32 a)\<bar> = real (unat (fracF32UI a OR 0x00800000)) * 2 powi (int ?e - 1)"
      unfolding u v powi_pred [OF e] ..
    show "- 22 \<le> int ?e" "int ?e \<le> 0xFF" using e' by linarith+
  qed
qed

section \<open>Results before rounding\<close>

lemma powi_sum: "(2 :: real) powi i * 2 powi j = 2 powi (i + j)" "(2 :: real) powi i / 2 powi j = 2 powi (i - j)"
  "(2 :: real) ^ k = 2 powi int k"
  by (simp_all add: power_int_add power_int_diff)

text \<open>A product or sum whose leading bit is one of two.\<close>

lemma agrees_jam_exact: "even H \<Longrightarrow> agrees H (jam N K) (real N / 2 ^ K)"
  by (rule agrees_jam [OF agrees_exact [of "H * 2 ^ K" N]]) simp_all

lemma scaled_twice:
  assumes "agrees (2 ^ (c - 1)) J t" "1 < c" "2 ^ (p + c) \<le> t" "t < 2 ^ (p + c + 2)"
  shows "J < 2 ^ (p + c + 1) \<Longrightarrow> scaled p c (2 * J) (2 * t)" "2 ^ (p + c + 1) \<le> J \<Longrightarrow> scaled p c J t"
    "2 ^ (p + c) \<le> J" "J < 2 ^ (p + c + 2)"
proof -
  obtain d where c: "c = Suc d" using assms(2) by (cases c) simp_all
  have a: "agrees (2 ^ d) J t" using assms(1) c by simp
  show lo: "2 ^ (p + c) \<le> J" using agreesD(3) [OF a, of "2 ^ Suc p"] assms(3) by (simp add: c power_add mult_ac)
  show hi: "J < 2 ^ (p + c + 2)" using agreesD(1) [OF a, of "2 ^ (p + 3)"] assms(4) by (simp add: c power_add mult_ac)
  have "agrees (2 ^ c) (2 * J) (2 * t)" using agrees_double [OF a] by (simp add: c)
  then show "J < 2 ^ (p + c + 1) \<Longrightarrow> scaled p c (2 * J) (2 * t)" using lo by (simp add: scaled_def)
  have "agrees (2 ^ c) J t" by (rule agrees_dvd [OF a]) (simp add: c)
  then show "2 ^ (p + c + 1) \<le> J \<Longrightarrow> scaled p c J t" using hi by (simp add: scaled_def)
qed

lemma shortJam64_jam: "d < 64 \<Longrightarrow> unat (shortShiftRightJam64 a d) = jam (unat a) d"
proof -
  assume d: "d < 64"
  have "push_bit d (1 :: u64) - 1 = mask d" by (simp add: mask_eq_exp_minus_1 push_bit_eq_mult)
  then have "unat (a AND (push_bit d 1 - 1)) = unat a mod 2 ^ d" using unat_low [of d "push_bit d 1 - 1" a] by simp
  then have "a AND (push_bit d 1 - 1) \<noteq> 0 \<longleftrightarrow> unat a mod 2 ^ d \<noteq> 0" by (simp only: unat_eq_zero [symmetric])
  then show ?thesis by (simp only: shortShiftRightJam64_def jam_def unat_or_bool unat_drop)
qed

end
