(* ===== verification/Softfloat_Normalise.thy ===== *)
theory Softfloat_Normalise
  imports Softfloat_Operands
begin

text \<open>
  Results that need no rounding, sums and differences with a sticky part, and
  \<^verbatim>\<open>softfloat_normRoundPackToF32\<close> and \<^verbatim>\<open>softfloat_normRoundPackToF64\<close>.
\<close>

section \<open>Exact results\<close>

lemma fmag_real: "real (fmag p m) = (if m < 2 ^ p then real m else (2 ^ p + real (m mod 2 ^ p)) * 2 ^ (m div 2 ^ p - 1))"
  by (simp add: fmag_def div_eq_0_iff)

lemma rounded_exact:
  assumes "0 < m"
  shows "rounded p mode sn (real (fmag p m)) = real (fmag p m)"
proof (cases "m < 2 ^ p")
  case True
  then have y: "real (fmag p m) = real m" by (simp add: fmag_real)
  have "real m < 2 ^ p" using True by (metis of_nat_less_iff of_nat_numeral of_nat_power)
  then have "log 2 (real m) < real p" using assms by (simp add: log_less_iff powr_realpow)
  then have "\<lfloor>log 2 (real m)\<rfloor> \<le> int p" by linarith
  then have "ulp p (real m) = 1" by (simp add: ulp_def)
  then show ?thesis unfolding y rounded_def using round_int_of_int [of mode sn "int m"] by simp
next
  case False
  let ?k = "m div 2 ^ p - 1" and ?t = "2 ^ p + real (m mod 2 ^ p)"
  have y: "real (fmag p m) = ?t * 2 powi int ?k" using False by (simp add: fmag_real)
  have "m mod 2 ^ p < 2 ^ p" by simp
  then have "real (m mod 2 ^ p) < 2 ^ p" by (metis of_nat_less_iff of_nat_numeral of_nat_power)
  then have "\<lfloor>log 2 (?t * 2 powi int ?k)\<rfloor> = int p + int ?k" by (intro floor_log_scaled) simp_all
  then have u: "ulp p (?t * 2 powi int ?k) = 2 ^ ?k" by (simp add: ulp_def)
  have q: "?t * 2 powi int ?k / 2 ^ ?k = real_of_int (2 ^ p + int (m mod 2 ^ p))" by simp
  show ?thesis unfolding y rounded_def u q round_int_of_int by simp
qed

lemma fmag_less: "m < (E + 1) * 2 ^ p \<Longrightarrow> 0 < E \<Longrightarrow> fmag p m < 2 ^ (p + E)"
  using fmag_less_iff [of p m "(E + 1) * 2 ^ p"] fmag_normal [of p "2 ^ p" E] by (simp add: power_add add.commute mult.commute)

lemma rounds_mag_exact:
  assumes "0 < m" "m < (E + 1) * 2 ^ p" "0 < E"
  shows "rounds_mag p E mode sn (real (fmag p m)) m 0"
proof -
  have "real (fmag p m) < real (2 ^ (p + E))" unfolding of_nat_less_iff by (rule fmag_less [OF assms(2,3)])
  then show ?thesis by (simp add: rounds_mag_def rounding_flags_def rounded_exact [OF assms(1)])
qed

section \<open>Sums and differences with a sticky part\<close>

lemma agrees_nonneg: "agrees G S t \<Longrightarrow> 0 \<le> t"
  using agreesD(3) [of G S t 0] by simp

lemma agrees_1: "agrees 1 S t \<Longrightarrow> t = real S"
  using agreesD(4) [of 1 S t S] by simp

lemma agrees_add:
  assumes "agrees G S t" "G dvd X"
  shows "agrees G (X + S) (real X + t)"
  unfolding agrees_def
proof
  fix m
  obtain k where X: "X = k * G" using assms(2) by (metis dvd_def mult.commute)
  show "(real (X + S) < real (m * G)) = (real X + t < real (m * G)) \<and> (real (m * G) < real (X + S)) = (real (m * G) < real X + t)"
  proof (cases "k \<le> m")
    case True
    then obtain n where m: "m = k + n" using le_Suc_ex by blast
    have i: "real S < real (n * G) \<longleftrightarrow> t < real (n * G)" "real (n * G) < real S \<longleftrightarrow> real (n * G) < t"
      using assms(1) unfolding agrees_def by blast+
    have e: "real (m * G) = real X + real (n * G)" by (simp add: m X algebra_simps)
    show ?thesis unfolding e of_nat_add using i by auto
  next
    case False
    then have "m * G \<le> X" unfolding X by (intro mult_le_mono1) simp
    then have lt: "real (m * G) \<le> real X" by (simp only: of_nat_le_iff)
    show ?thesis
    proof (cases "G = 0")
      case True
      then show ?thesis using assms(1) X unfolding agrees_def by simp
    next
      case G: False
      then have "m * G < X" unfolding X using False by simp
      then have "real (m * G) < real X" by (simp only: of_nat_less_iff)
      then show ?thesis using agrees_nonneg [OF assms(1)] by simp
    qed
  qed
qed

lemma agrees_diff:
  assumes "agrees G S t" "G dvd X" "S \<le> X"
  shows "agrees G (X - S) (real X - t)"
  unfolding agrees_def
proof
  fix m
  obtain k where X: "X = k * G" using assms(2) by (metis dvd_def mult.commute)
  have tX: "t \<le> real X" using agreesD(2) [OF assms(1), of k] assms(3) X by (metis not_le)
  show "(real (X - S) < real (m * G)) = (real X - t < real (m * G)) \<and> (real (m * G) < real (X - S)) = (real (m * G) < real X - t)"
  proof (cases "m \<le> k")
    case True
    then obtain n where k: "k = m + n" using le_Suc_ex by blast
    have i: "real S < real (n * G) \<longleftrightarrow> t < real (n * G)" "real (n * G) < real S \<longleftrightarrow> real (n * G) < t"
      using assms(1) unfolding agrees_def by blast+
    have e: "real X = real (m * G) + real (n * G)" by (simp add: k X algebra_simps)
    have "real (X - S) = real X - real S" using assms(3) by simp
    then show ?thesis using i unfolding e by auto
  next
    case False
    then have "X \<le> m * G" unfolding X by (intro mult_le_mono1) simp
    then have le: "real X \<le> real (m * G)" by (simp only: of_nat_le_iff)
    show ?thesis
    proof (cases "G = 0")
      case True
      then show ?thesis using assms(1,3) X tX agrees_nonneg [OF assms(1)] by simp
    next
      case G: False
      then have "X < m * G" unfolding X using False by simp
      then have "real X < real (m * G)" by (simp only: of_nat_less_iff)
      moreover have "real (X - S) \<le> real X" by simp
      ultimately show ?thesis using agrees_nonneg [OF assms(1)] by auto
    qed
  qed
qed

lemma agrees_pow: "agrees G S t \<Longrightarrow> agrees (2 ^ k * G) (2 ^ k * S) (2 ^ k * t)"
  by (induction k) (use agrees_double in \<open>force simp: mult.assoc\<close>)+

lemma jam_1: "even N \<Longrightarrow> jam N 1 * 2 = N"
  using jam_bounds(1) [of N 1] by simp

section \<open>Rounding after normalisation\<close>

lemma leading_zeros:
  fixes n :: nat
  assumes "0 < S" "S < 2 ^ (n - 1)" "1 < n"
  shows "0 < clz8 n S" "2 ^ (n - 2) \<le> S * 2 ^ (clz8 n S - 1)" "S * 2 ^ (clz8 n S - 1) < 2 ^ (n - 1)"
proof -
  obtain k where n: "n = Suc (Suc k)" using less_imp_Suc_add [OF assms(3)] by auto
  have "S < 2 ^ n" using assms(2) by (simp add: n)
  note b = clz8_bounds [OF assms(1) this]
  show pos: "0 < clz8 n S" using assms(2) by (simp add: n not_le)
  have e: "S * 2 ^ clz8 n S = 2 * (S * 2 ^ (clz8 n S - 1))" using pos by (cases "clz8 n S") simp_all
  show "2 ^ (n - 2) \<le> S * 2 ^ (clz8 n S - 1)" "S * 2 ^ (clz8 n S - 1) < 2 ^ (n - 1)" using b unfolding e by (simp_all add: n)
qed

lemma leading_zeros_large: "2 ^ (n - 3) \<le> S \<Longrightarrow> S * 2 ^ (clz8 n S - 1) < 2 ^ (n - 1) \<Longrightarrow> 2 < n \<Longrightarrow> clz8 n S - 1 \<le> 1"
proof (rule ccontr)
  assume a: "2 ^ (n - 3) \<le> S" "S * 2 ^ (clz8 n S - 1) < 2 ^ (n - 1)" "2 < n" "\<not> clz8 n S - 1 \<le> 1"
  have "2 ^ (n - 3) * 2 ^ 2 \<le> S * 2 ^ (clz8 n S - 1)" using a by (intro mult_le_mono power_increasing) simp_all
  moreover have "(2 :: nat) ^ (n - 3) * 2 ^ 2 = 2 ^ (n - 1)" unfolding power_add [symmetric] using a(3) by (intro arg_cong [where f = "(^) 2"]) simp
  ultimately show False using a(2) by linarith
qed

text \<open>The shift that brings the leading bit into place, with the number that the significand stands for.\<close>

lemma scaled_shift:
  assumes "agrees (2 ^ (c - k)) S t" "2 ^ (p + c + 1) \<le> S * 2 ^ k" "S * 2 ^ k < 2 ^ (p + c + 2)"
  shows "scaled p c (S * 2 ^ k) (t * 2 ^ k)"
proof -
  have "agrees (2 ^ c) (S * 2 ^ k) (t * 2 ^ k)"
  proof (cases "k \<le> c")
    case True
    then show ?thesis using agrees_pow [OF assms(1), of k] by (simp add: mult.commute power_add [symmetric])
  next
    case False
    then have "t = real S" using assms(1) agrees_1 [of S t] by simp
    then have "t * 2 ^ k = real (S * 2 ^ k)" by simp
    then show ?thesis by (simp only: agrees_exact)
  qed
  then show ?thesis using assms by (simp add: scaled_def)
qed

lemma powi_exact: "real (S * 2 ^ j * 2 ^ e) = real S * 2 powi (int j + int e)"
  by (simp add: power_int_add)

lemma mod_window: "- M \<le> i \<Longrightarrow> i < M \<Longrightarrow> i mod M = (if 0 \<le> i then i else i + M)" for i M :: int
  using mod_pos_pos_trivial [of "i + M" M] by auto

lemma normRoundPackToF64_rounds:
  assumes S: "0 < unat sg" "unat sg < 2 ^ 63" and a: "agrees (2 ^ (9 - (clz8 64 (unat sg) - 1))) (unat sg) t"
    and ex: "- 32000 \<le> ex" "ex < 32768" and y: "y = t * 2 powi (ex - 10)"
  shows "rounds64 mode sn y (normRoundPackToF64 mode sn ex sg)"
proof -
  define k where "k = clz8 64 (unat sg) - 1"
  have pos: "0 < clz8 64 (unat sg)" and lo: "2 ^ 62 \<le> unat sg * 2 ^ k" and hi: "unat sg * 2 ^ k < 2 ^ 63"
    using leading_zeros [of "unat sg" 64] S by (simp_all add: k_def)
  have k: "int (countLeadingZeros64 sg) - 1 = int k" using pos by (simp add: clz64_nat k_def)
  have "2 ^ k \<le> unat sg * 2 ^ k" using S(1) by simp
  then have "(2 :: nat) ^ k < 2 ^ 63" using hi by linarith
  then have k63: "k < 63" by (simp only: power_strict_increasing_iff)
  have sh: "unat (push_bit k sg) = unat sg * 2 ^ k" by (rule unat_push_mod) (use hi in simp)
  show ?thesis
  proof (cases "10 \<le> k \<and> (word_of_int (ex - int k) :: u32) < 0x7FD")
    case False
    have s: "scaled 52 9 (unat (push_bit k sg)) (t * 2 ^ k)"
      unfolding sh by (rule scaled_shift) (use a lo hi in \<open>simp_all add: k_def\<close>)
    have "y = t * 2 ^ k * 2 powi (ex - int k - 10)"
      unfolding y using powi_sum(1) [of "int k" "ex - int k - 10"] by (simp add: mult.assoc)
    from roundPackToF64_rounds [OF s _ _ this, of mode sn] show ?thesis
      using False k63 ex by (auto simp: normRoundPackToF64_def Let_def k)
  next
    case True
    then have t: "t = real (unat sg)" using a agrees_1 [of "unat sg" t] by (simp add: k_def)
    have e: "0 \<le> ex - int k \<and> ex - int k < 0x7FD"
    proof -
      have "uint (word_of_int (ex - int k) :: u32) < 0x7FD" using True by (simp add: word_less_def)
      then have "(ex - int k) mod 2 ^ 32 < 0x7FD" by (simp add: unsigned_of_int take_bit_eq_mod del: of_int_diff)
      moreover have "(ex - int k) mod 2 ^ 32 = (if 0 \<le> ex - int k then ex - int k else ex - int k + 2 ^ 32)"
        by (rule mod_window) (use ex k63 in simp_all)
      ultimately show ?thesis using ex k63 by (simp split: if_splits)
    qed
    define m where "m = unat sg * 2 ^ (k - 10)"
    have m10: "unat sg * 2 ^ k = m * 2 ^ 10" using True power_add [of "2 :: nat" "k - 10" 10] by (simp add: m_def mult.assoc)
    have m: "2 ^ 52 \<le> m" "m < 2 ^ 53" using lo hi unfolding m10 by simp_all
    have x: "unat (word_of_int (ex - int k) :: u64) = nat (ex - int k)" using e by (intro unat_word_of_int_small) simp_all
    have sm: "unat (push_bit (k - 10) sg) = m" unfolding m_def by (rule unat_push_mod) (use m in \<open>simp add: m_def\<close>)
    have "nat (ex - int k) \<le> 0x7FC" using e by linarith
    then have "nat (ex - int k) * 2 ^ 52 \<le> 0x7FC * 2 ^ 52" by (rule mult_le_mono1)
    then have b: "nat (ex - int k) * 2 ^ 52 + m < (2046 + 1) * 2 ^ 52" using m by simp
    have f: "normRoundPackToF64 mode sn ex sg = (packToF64UI sn (word_of_int (ex - int k)) (push_bit (k - 10) sg), 0)"
      using True S(1) by (auto simp: normRoundPackToF64_def Let_def k nat_diff_distrib')
    have "real (fmag 52 (nat (ex - int k) * 2 ^ 52 + m)) = y"
    proof -
      have e10: "int (k - 10) + int (nat (ex - int k)) = ex - 10" using True e by linarith
      have "fmag 52 (nat (ex - int k) * 2 ^ 52 + m) = m * 2 ^ nat (ex - int k)" by (rule fmag_normal) (use m in simp_all)
      then show ?thesis unfolding m_def y t by (simp only: powi_exact e10)
    qed
    then show ?thesis
      using rounds_mag_exact [OF _ b, of mode sn] m pack64_value(2,3) [of "word_of_int (ex - int k)" "push_bit (k - 10) sg" sn] b
      unfolding rounds64_def f x sm by simp
  qed
qed

lemma normRoundPackToF32_rounds:
  assumes S: "0 < unat sg" "unat sg < 2 ^ 31" and a: "agrees (2 ^ (6 - (clz8 32 (unat sg) - 1))) (unat sg) t"
    and ex: "- 2147483000 \<le> ex" "ex < 2147483648" and y: "y = t * 2 powi (ex - 7)"
  shows "rounds32 mode sn y (normRoundPackToF32 mode sn ex sg)"
proof -
  define k where "k = clz8 32 (unat sg) - 1"
  have pos: "0 < clz8 32 (unat sg)" and lo: "2 ^ 30 \<le> unat sg * 2 ^ k" and hi: "unat sg * 2 ^ k < 2 ^ 31"
    using leading_zeros [of "unat sg" 32] S by (simp_all add: k_def)
  have k: "int (countLeadingZeros32 sg) - 1 = int k" using pos by (simp add: clz32_nat k_def)
  have "2 ^ k \<le> unat sg * 2 ^ k" using S(1) by simp
  then have "(2 :: nat) ^ k < 2 ^ 31" using hi by linarith
  then have k31: "k < 31" by (simp only: power_strict_increasing_iff)
  have sh: "unat (push_bit k sg) = unat sg * 2 ^ k" by (rule unat_push32) (use hi in simp)
  show ?thesis
  proof (cases "7 \<le> k \<and> (word_of_int (ex - int k) :: u32) < 0xFD")
    case False
    have s: "scaled 23 6 (unat (push_bit k sg)) (t * 2 ^ k)"
      unfolding sh by (rule scaled_shift) (use a lo hi in \<open>simp_all add: k_def\<close>)
    have "y = t * 2 ^ k * 2 powi (ex - int k - 7)"
      unfolding y using powi_sum(1) [of "int k" "ex - int k - 7"] by (simp add: mult.assoc)
    from roundPackToF32_rounds [OF s _ _ this, of mode sn] show ?thesis
      using False k31 ex by (auto simp: normRoundPackToF32_def Let_def k)
  next
    case True
    then have t: "t = real (unat sg)" using a agrees_1 [of "unat sg" t] by (simp add: k_def)
    have e: "0 \<le> ex - int k \<and> ex - int k < 0xFD"
    proof -
      have "uint (word_of_int (ex - int k) :: u32) < 0xFD" using True by (simp add: word_less_def)
      then have "(ex - int k) mod 2 ^ 32 < 0xFD" by (simp add: unsigned_of_int take_bit_eq_mod del: of_int_diff)
      moreover have "(ex - int k) mod 2 ^ 32 = (if 0 \<le> ex - int k then ex - int k else ex - int k + 2 ^ 32)"
        by (rule mod_window) (use ex k31 in simp_all)
      ultimately show ?thesis using ex k31 by (simp split: if_splits)
    qed
    define m where "m = unat sg * 2 ^ (k - 7)"
    have m7: "unat sg * 2 ^ k = m * 2 ^ 7" using True power_add [of "2 :: nat" "k - 7" 7] by (simp add: m_def mult.assoc)
    have m: "2 ^ 23 \<le> m" "m < 2 ^ 24" using lo hi unfolding m7 by simp_all
    have x: "unat (word_of_int (ex - int k) :: u32) = nat (ex - int k)" using e by (intro unat_word_of_int_u32) simp_all
    have sm: "unat (push_bit (k - 7) sg) = m" unfolding m_def by (rule unat_push32) (use m in \<open>simp add: m_def\<close>)
    have "nat (ex - int k) \<le> 0xFC" using e by linarith
    then have "nat (ex - int k) * 2 ^ 23 \<le> 0xFC * 2 ^ 23" by (rule mult_le_mono1)
    then have b: "nat (ex - int k) * 2 ^ 23 + m < (254 + 1) * 2 ^ 23" using m by simp
    have f: "normRoundPackToF32 mode sn ex sg = (packToF32UI sn (word_of_int (ex - int k)) (push_bit (k - 7) sg), 0)"
      using True S(1) by (auto simp: normRoundPackToF32_def Let_def k nat_diff_distrib')
    have "real (fmag 23 (nat (ex - int k) * 2 ^ 23 + m)) = y"
    proof -
      have e7: "int (k - 7) + int (nat (ex - int k)) = ex - 7" using True e by linarith
      have "fmag 23 (nat (ex - int k) * 2 ^ 23 + m) = m * 2 ^ nat (ex - int k)" by (rule fmag_normal) (use m in simp_all)
      then show ?thesis unfolding m_def y t by (simp only: powi_exact e7)
    qed
    then show ?thesis
      using rounds_mag_exact [OF _ b, of mode sn] m pack32_value(1,2) [of "word_of_int (ex - int k)" "push_bit (k - 7) sg" sn] b
      unfolding rounds32_def f x sm by simp
  qed
qed

section \<open>Signs\<close>

lemma abs_diff:
  assumes "\<bar>real_of_int x\<bar> < \<bar>real_of_int y\<bar>"
  shows "\<bar>\<bar>real_of_int x\<bar> - \<bar>real_of_int y\<bar>\<bar> = \<bar>real_of_int y\<bar> - \<bar>real_of_int x\<bar>"
    "\<bar>\<bar>real_of_int y\<bar> - \<bar>real_of_int x\<bar>\<bar> = \<bar>real_of_int y\<bar> - \<bar>real_of_int x\<bar>"
    "\<bar>x\<bar> < \<bar>y\<bar>" "\<bar>x\<bar> \<noteq> \<bar>y\<bar>" "\<bar>y\<bar> \<noteq> \<bar>x\<bar>" "\<not> \<bar>y\<bar> < \<bar>x\<bar>"
proof -
  have "real_of_int \<bar>x\<bar> < real_of_int \<bar>y\<bar>" using assms by simp
  then show "\<bar>x\<bar> < \<bar>y\<bar>" "\<bar>x\<bar> \<noteq> \<bar>y\<bar>" "\<bar>y\<bar> \<noteq> \<bar>x\<bar>" "\<not> \<bar>y\<bar> < \<bar>x\<bar>" unfolding of_int_less_iff by auto
qed (use assms in simp_all)

lemma sum_signs:
  fixes m n :: nat and u v :: bool
  defines "x \<equiv> (if u then - 1 else 1) * int m" and "y \<equiv> (if v then - 1 else 1) * int n"
  shows "u = v \<Longrightarrow> \<bar>x + y\<bar> = \<bar>x\<bar> + \<bar>y\<bar>" "u = v \<Longrightarrow> x + y \<noteq> 0 \<Longrightarrow> x + y < 0 \<longleftrightarrow> u"
    "u \<noteq> v \<Longrightarrow> \<bar>x + y\<bar> = \<bar>\<bar>x\<bar> - \<bar>y\<bar>\<bar>" "u \<noteq> v \<Longrightarrow> x + y \<noteq> 0 \<Longrightarrow> x + y < 0 \<longleftrightarrow> (u = (\<bar>y\<bar> < \<bar>x\<bar>))"
  unfolding x_def y_def by auto

end
