(* ===== verification/Softfloat_AddF64.thy ===== *)
theory Softfloat_AddF64
  imports Softfloat_Normalise
begin

text \<open>
  \<^verbatim>\<open>f64_add\<close>: the sum and the difference of magnitudes, aligned with a sticky shift; infinities and
  NaNs.
\<close>

section \<open>Addition of magnitudes\<close>

definition msig64 :: "u64 \<Rightarrow> nat" where
  "msig64 a = (if expF64UI a \<noteq> 0 then 2 ^ 52 else 0) + unat (fracF64UI a)"

lemma frac64_less: "unat (fracF64UI a) < 2 ^ 52"
  by (simp add: frac64)

lemma abs_fval64: "\<bar>real_of_int (fval64 a)\<bar> = real (msig64 a) * 2 ^ (unat (expF64UI a) - 1)"
proof (cases "expF64UI a = 0")
  case True
  then have "mag64 a = unat (fracF64UI a)" using mag64_fields [of a] by simp
  then show ?thesis using True frac64_less [of a] fmag_small [of "mag64 a" 52]
    by (simp add: fval64_mag msig64_def abs_mult del: of_nat_unat)
next
  case False
  then have "0 < unat (expF64UI a)" by (simp add: unat_gt_0)
  from fmag_parts [OF frac64_less [of a] this] show ?thesis
    using False by (simp add: fval64_mag msig64_def abs_mult mag64_fields del: of_nat_unat)
qed

lemma abs_fval64_normal:
  assumes "expF64UI a \<noteq> 0"
  shows "\<bar>real_of_int (fval64 a)\<bar> = (2 ^ 52 + real (unat (fracF64UI a))) * 2 powi (uint (expF64UI a) - 1)"
proof -
  have "unat (expF64UI a) \<noteq> 0" using assms by (simp add: unat_eq_zero)
  then show ?thesis unfolding abs_fval64 msig64_def uint_nat using assms powi_pred [of "unat (expF64UI a)"]
    by (simp del: of_nat_unat)
qed

lemma sum_rounds64:
  assumes z: "unat z = 2 ^ 61 + f * 2 ^ 9 + jam N d" and f: "f < 2 ^ 52" and N: "N < 2 ^ 62" and d: "0 < d"
    and E: "1 \<le> E" "E \<le> 0x7FE"
    and y: "y = (2 ^ 52 + real f) * 2 powi (E - 1) + real N * 2 powi (E - int d - 10)"
  shows "rounds64 mode sn y (if z < 0x4000000000000000 then roundPackToF64 mode sn (E - 1) (push_bit 1 z) else roundPackToF64 mode sn E z)"
proof -
  define X where "X = (2 ^ 52 + f) * 2 ^ 9"
  define t where "t = real X + real N / 2 ^ d"
  have "agrees (2 ^ 8) (jam N d) (real N / 2 ^ d)" by (rule agrees_jam_exact) simp
  then have a: "agrees (2 ^ (9 - 1)) (unat z) t"
    unfolding z t_def using agrees_add [of "2 ^ 8" "jam N d" "real N / 2 ^ d" X] by (simp add: X_def algebra_simps)
  have "real X < real (2 ^ 62)" unfolding of_nat_less_iff X_def using f by simp
  moreover have "real (2 ^ 61) \<le> real X" unfolding of_nat_le_iff X_def by simp
  moreover have "real N / 2 ^ d < 2 ^ 61"
  proof -
    have "real N < real (2 ^ 62)" unfolding of_nat_less_iff by (rule N)
    then have "real N / 2 ^ d < 2 ^ 62 / 2 ^ d" by (simp add: divide_strict_right_mono)
    also have "(2 :: real) ^ 62 / 2 ^ d \<le> 2 ^ 62 / 2 ^ 1" using d by (intro divide_left_mono power_increasing) simp_all
    finally show ?thesis by simp
  qed
  ultimately have t: "2 ^ 61 \<le> t" "t < 2 ^ 63" unfolding t_def by (simp_all add: add_increasing2)
  note s = scaled_twice [OF a, of 52, simplified, OF t [simplified]]
  have r: "y = t * 2 powi (E - 10)"
  proof -
    have "real X * 2 powi (E - 10) = (2 ^ 52 + real f) * (2 powi 9 * 2 powi (E - 10))" by (simp add: X_def)
    also have "\<dots> = (2 ^ 52 + real f) * 2 powi (E - 1)" unfolding powi_sum by simp
    finally have 1: "real X * 2 powi (E - 10) = (2 ^ 52 + real f) * 2 powi (E - 1)" .
    have "real N / 2 ^ d * 2 powi (E - 10) = real N * (2 powi (E - 10) / 2 powi int d)" by simp
    also have "\<dots> = real N * 2 powi (E - int d - 10)" unfolding powi_sum(2) by (simp add: algebra_simps)
    finally show ?thesis using 1 unfolding y t_def by (simp only: add_mult_distrib2 distrib_right)
  qed
  have r': "y = 2 * t * 2 powi (E - 1 - 10)" unfolding r using powi_sum(1) [of 1 "E - 1 - 10"] by simp
  show ?thesis
  proof (cases "z < 0x4000000000000000")
    case True
    then have J: "unat z < 2 ^ 62" by (simp add: word_less_nat_alt)
    then have "unat (push_bit 1 z) = 2 * unat z" by (subst unat_push_mod) simp_all
    then have "scaled 52 9 (unat (push_bit 1 z)) (2 * t)" using s(1) J by simp
    from roundPackToF64_rounds [OF this _ _ r', of mode sn] show ?thesis using True E by simp
  next
    case False
    then have "2 ^ 62 \<le> unat z" by (simp add: word_less_nat_alt)
    then have "scaled 52 9 (unat z) t" using s(2) by simp
    from roundPackToF64_rounds [OF this _ _ r, of mode sn] show ?thesis using False E by simp
  qed
qed

text \<open>The operand with the smaller exponent, before it is shifted.\<close>

definition aligned64 :: "u64 \<Rightarrow> u64" where
  "aligned64 a = (if uint (expF64UI a) \<noteq> 0 then push_bit 9 (fracF64UI a) + 0x2000000000000000 else push_bit 1 (push_bit 9 (fracF64UI a)))"

lemma unat_frac_shift: "unat (push_bit 9 (fracF64UI a)) = unat (fracF64UI a) * 2 ^ 9"
  by (rule unat_push_mod) (use frac64_less [of a] in simp)

lemma aligned64_value:
  "unat (aligned64 a) < 2 ^ 62" "real (unat (aligned64 a)) * 2 powi (uint (expF64UI a) - 10) = \<bar>real_of_int (fval64 a)\<bar>"
proof -
  let ?f = "unat (fracF64UI a)" and ?e = "unat (expF64UI a)"
  have u: "unat (aligned64 a) = (if ?e \<noteq> 0 then ?f * 2 ^ 9 + 2 ^ 61 else ?f * 2 ^ 10)"
  proof (cases "?e = 0")
    case True
    then have "unat (push_bit 1 (push_bit 9 (fracF64UI a))) = ?f * 2 ^ 9 * 2 ^ 1"
      using frac64_less [of a] by (subst unat_push_mod) (simp_all add: unat_frac_shift)
    then show ?thesis using True by (simp add: aligned64_def unat_eq_zero)
  next
    case False
    then show ?thesis using frac64_less [of a] unat_frac_shift [of a]
      by (simp add: aligned64_def unat_eq_zero uint_0_iff unat_word_ariths(1))
  qed
  show "unat (aligned64 a) < 2 ^ 62" using frac64_less [of a] unfolding u by simp
  show "real (unat (aligned64 a)) * 2 powi (uint (expF64UI a) - 10) = \<bar>real_of_int (fval64 a)\<bar>"
  proof (cases "?e = 0")
    case True
    then have "expF64UI a = 0" by (simp add: unat_eq_zero)
    then show ?thesis unfolding u abs_fval64 msig64_def by (simp add: power_int_minus field_simps del: of_nat_unat)
  next
    case False
    then have e: "expF64UI a \<noteq> 0" by (auto simp: unat_eq_zero)
    have "real (unat (aligned64 a)) * 2 powi (int ?e - 10) = (real ?f + 2 ^ 52) * (2 powi 9 * 2 powi (int ?e - 10))"
      using False unfolding u by (simp add: algebra_simps del: of_nat_unat)
    also have "\<dots> = (real ?f + 2 ^ 52) * 2 powi (int ?e - 1)" unfolding powi_sum by simp
    finally show ?thesis unfolding abs_fval64_normal [OF e] by (simp add: add.commute)
  qed
qed

lemma exp64_range: "0 \<le> uint (expF64UI a)" "uint (expF64UI a) \<le> 0x7FF"
proof -
  have "unat (expF64UI a) < 2048" unfolding exp64 mag64_def by (simp add: less_mult_imp_div_less)
  then show "uint (expF64UI a) \<le> 0x7FF" unfolding uint_nat by linarith
qed simp

lemma uint_0x7FF64: "uint x = 0x7FF \<longleftrightarrow> x = (0x7FF :: u64)"
  by (simp add: word_uint_eq_iff)

lemma add_order64:
  assumes e: "uint (expF64UI a) < uint (expF64UI b)" and b: "expF64UI b \<noteq> 0x7FF"
    and z: "unat z = 2 ^ 61 + unat (push_bit 9 (fracF64UI b)) + jam (unat (aligned64 a)) (nat (uint (expF64UI b) - uint (expF64UI a)))"
  shows "rounds64 mode sn (\<bar>real_of_int (fval64 a)\<bar> + \<bar>real_of_int (fval64 b)\<bar>)
    (if z < 0x4000000000000000 then roundPackToF64 mode sn (uint (expF64UI b) - 1) (push_bit 1 z) else roundPackToF64 mode sn (uint (expF64UI b)) z)"
proof -
  let ?E = "uint (expF64UI b)"
  have "?E \<noteq> 0x7FF" using b by (simp add: uint_0x7FF64)
  then have E: "1 \<le> ?E" "?E \<le> 0x7FE" using e exp64_range [of a] exp64_range [of b] by linarith+
  have n0: "expF64UI b \<noteq> 0" using E by auto
  note abs_fval64_normal [OF n0]
  moreover have "\<bar>real_of_int (fval64 a)\<bar> = real (unat (aligned64 a)) * 2 powi (?E - int (nat (?E - uint (expF64UI a))) - 10)"
    using e aligned64_value(2) [of a] by (simp del: of_nat_unat)
  ultimately show ?thesis
    using sum_rounds64 [OF z [unfolded unat_frac_shift] frac64_less aligned64_value(1) _ E] e by (simp add: add.commute)
qed

lemma exp_eq_iff64: "uint (expF64UI a) - uint (expF64UI b) = 0 \<longleftrightarrow> expF64UI a = expF64UI b"
  by (simp add: word_uint_eq_iff)

lemma sign_mag_unique64: "unat x = (if s then 2 ^ 63 else 0) + m \<Longrightarrow> m < 2 ^ 63 \<Longrightarrow> signF64UI x = s \<and> mag64 x = m"
  by (cases s) (simp_all add: sign64 mag64_def)

lemma sum_subnormal64:
  assumes a: "expF64UI a = 0" and b: "expF64UI b = 0"
  shows "signF64UI (a + fracF64UI b) = signF64UI a" "mag64 (a + fracF64UI b) = mag64 a + mag64 b"
    "real (fmag 52 (mag64 a + mag64 b)) = \<bar>real_of_int (fval64 a)\<bar> + \<bar>real_of_int (fval64 b)\<bar>"
    "mag64 a + mag64 b < 2 ^ 53"
proof -
  have m: "mag64 a = unat (fracF64UI a)" "mag64 b = unat (fracF64UI b)" using mag64_fields [of a] mag64_fields [of b] a b by simp_all
  note f = frac64_less [of a] frac64_less [of b]
  have "unat (a + fracF64UI b) = (if signF64UI a then 2 ^ 63 else 0) + (mag64 a + mag64 b)"
    using unat_mag64 [of a] f m by (cases "signF64UI a") (simp_all add: unat_word_ariths(1))
  from sign_mag_unique64 [OF this]
  show "signF64UI (a + fracF64UI b) = signF64UI a" "mag64 (a + fracF64UI b) = mag64 a + mag64 b"
    using f m by simp_all
  have "mag64 a + mag64 b \<le> 2 ^ Suc 52" using f m by simp
  then have "fmag 52 (mag64 a + mag64 b) = mag64 a + mag64 b"
    using fmag_normal [of 52 "mag64 a + mag64 b" 0] by (cases "2 ^ 52 \<le> mag64 a + mag64 b") (simp_all add: fmag_small)
  then show "real (fmag 52 (mag64 a + mag64 b)) = \<bar>real_of_int (fval64 a)\<bar> + \<bar>real_of_int (fval64 b)\<bar>"
    unfolding abs_fval64 msig64_def using a b m by simp
  show "mag64 a + mag64 b < 2 ^ 53" using f m by simp
qed

lemma sum_equal64:
  assumes "expF64UI a = expF64UI b" "expF64UI a \<noteq> 0" "expF64UI a \<noteq> 0x7FF"
  shows "rounds64 mode sn (\<bar>real_of_int (fval64 a)\<bar> + \<bar>real_of_int (fval64 b)\<bar>)
    (roundPackToF64 mode sn (uint (expF64UI a)) (push_bit 9 (0x0020000000000000 + fracF64UI a + fracF64UI b)))"
proof -
  let ?s = "2 ^ 53 + unat (fracF64UI a) + unat (fracF64UI b)"
  note f = frac64_less [of a] frac64_less [of b]
  have "unat (0x0020000000000000 + fracF64UI a + fracF64UI b) = ?s" using f by (simp add: unat_word_ariths(1))
  then have u: "unat (push_bit 9 (0x0020000000000000 + fracF64UI a + fracF64UI b)) = ?s * 2 ^ 9"
    using f by (subst unat_push_mod) simp_all
  have "scaled 52 9 (?s * 2 ^ 9) (real (?s * 2 ^ 9))" unfolding scaled_def using f by (intro conjI agrees_exact) simp_all
  then have s: "scaled 52 9 (unat (push_bit 9 (0x0020000000000000 + fracF64UI a + fracF64UI b))) (real (?s * 2 ^ 9))" unfolding u .
  have "\<bar>real_of_int (fval64 a)\<bar> + \<bar>real_of_int (fval64 b)\<bar> = real ?s * (2 powi 9 * 2 powi (uint (expF64UI a) - 10))"
    unfolding powi_sum using assms by (simp add: abs_fval64_normal algebra_simps del: of_nat_unat)
  then have "\<bar>real_of_int (fval64 a)\<bar> + \<bar>real_of_int (fval64 b)\<bar> = real (?s * 2 ^ 9) * 2 powi (uint (expF64UI a) - 10)"
    by (simp del: of_nat_unat)
  from roundPackToF64_rounds [OF s _ _ this] show ?thesis using exp64_range [of a] by simp
qed

lemma jam_small:
  assumes "0 < d"
  shows "unat (shiftRightJam64 (aligned64 a) d) = jam (unat (aligned64 a)) d" "jam (unat (aligned64 a)) d \<le> 2 ^ 61"
  using shiftRightJam64_jam [OF assms, of "aligned64 a"] jam_le [OF assms, of "unat (aligned64 a)"] aligned64_value(1) [of a] by simp_all

lemma addMagsF64_finite:
  assumes a: "expF64UI a \<noteq> 0x7FF" and b: "expF64UI b \<noteq> 0x7FF" and nz: "mag64 a \<noteq> 0 \<or> mag64 b \<noteq> 0" and sn: "sn = signF64UI a"
  shows "rounds64 mode sn (\<bar>real_of_int (fval64 a)\<bar> + \<bar>real_of_int (fval64 b)\<bar>) (addMagsF64 mode a b sn)"
proof -
  let ?ea = "uint (expF64UI a)" and ?eb = "uint (expF64UI b)"
  let ?y = "\<bar>real_of_int (fval64 a)\<bar> + \<bar>real_of_int (fval64 b)\<bar>"
  have ea: "?ea \<noteq> 0x7FF" and eb: "?eb \<noteq> 0x7FF" using a b by (simp_all add: uint_0x7FF64)
  consider (zero) "expF64UI a = 0" "expF64UI b = 0" | (equal) "expF64UI a = expF64UI b" "expF64UI a \<noteq> 0" | (less) "?ea < ?eb" | (greater) "?eb < ?ea"
    by (metis linorder_neqE word_uint_eq_iff)
  then show ?thesis
  proof cases
    case zero
    note s = sum_subnormal64 [OF zero]
    have "addMagsF64 mode a b sn = (a + fracF64UI b, 0)" using zero by (simp add: addMagsF64_def Let_def)
    then show ?thesis
      using rounds_mag_exact [of "mag64 a + mag64 b" 2046 52 mode sn] s nz unfolding rounds64_def sn by simp
  next
    case equal
    then have "addMagsF64 mode a b sn = roundPackToF64 mode sn ?ea (push_bit 9 (0x0020000000000000 + fracF64UI a + fracF64UI b))"
      using ea by (simp add: addMagsF64_def Let_def uint_0_iff)
    then show ?thesis using sum_equal64 [OF equal a] by simp
  next
    case less
    define z where "z = 0x2000000000000000 + shiftRightJam64 (aligned64 a) (nat (- (?ea - ?eb))) + push_bit 9 (fracF64UI b)"
    have "addMagsF64 mode a b sn = (if z < 0x4000000000000000 then roundPackToF64 mode sn (?eb - 1) (push_bit 1 z) else roundPackToF64 mode sn ?eb z)"
      using less eb by (simp add: addMagsF64_def Let_def aligned64_def z_def)
    moreover have "unat z = 2 ^ 61 + unat (push_bit 9 (fracF64UI b)) + jam (unat (aligned64 a)) (nat (?eb - ?ea))"
      using jam_small [of "nat (?eb - ?ea)" a] less frac64_less [of b] unat_frac_shift [of b]
      by (simp add: z_def unat_word_ariths(1))
    ultimately show ?thesis using add_order64 [OF less b] by simp
  next
    case greater
    define z where "z = 0x2000000000000000 + push_bit 9 (fracF64UI a) + shiftRightJam64 (aligned64 b) (nat (?ea - ?eb))"
    have "addMagsF64 mode a b sn = (if z < 0x4000000000000000 then roundPackToF64 mode sn (?ea - 1) (push_bit 1 z) else roundPackToF64 mode sn ?ea z)"
      using greater ea by (simp add: addMagsF64_def Let_def aligned64_def z_def)
    moreover have "unat z = 2 ^ 61 + unat (push_bit 9 (fracF64UI a)) + jam (unat (aligned64 b)) (nat (?ea - ?eb))"
      using jam_small [of "nat (?ea - ?eb)" b] greater frac64_less [of a] unat_frac_shift [of a]
      by (simp add: z_def unat_word_ariths(1))
    ultimately show ?thesis using add_order64 [OF greater a] by (simp add: add.commute)
  qed
qed

section \<open>Subtraction of magnitudes\<close>

lemma diff_rounds64:
  assumes z: "unat z = X - jam N d" and X: "X = (2 ^ 52 + f) * 2 ^ 10" and f: "f < 2 ^ 52"
    and N: "N \<le> 2 ^ 63 - 2 ^ 10" "even N" and d: "0 < d" and E: "1 \<le> E" "E \<le> 0x7FE"
    and y: "y = (2 ^ 52 + real f) * 2 powi (E - 1) - real N * 2 powi (E - int d - 11)"
  shows "rounds64 mode sn y (normRoundPackToF64 mode sn (E - 1) z)"
proof -
  define t where "t = real X - real N / 2 ^ d"
  have J: "jam N d < X" using jam_le [OF d, of N] N(1) X by simp
  have X63: "X < 2 ^ 63" using f X by simp
  then have zb: "0 < unat z" "unat z < 2 ^ 63" using J z by simp_all
  have a: "agrees (2 ^ (9 - (clz8 64 (unat z) - 1))) (unat z) t"
  proof (cases "d = 1")
    case True
    then have n: "jam N d * 2 = N" using jam_1 [OF N(2)] by simp
    have "real (jam N d * 2) = real N" by (simp only: n)
    then have "real N / 2 ^ d = real (jam N d)" using True by simp
    then have "t = real (unat z)" unfolding t_def z using J by simp
    then show ?thesis by (simp only: agrees_exact)
  next
    case False
    have g: "agrees (2 ^ 8) (unat z) t"
      unfolding z t_def by (rule agrees_diff [OF agrees_jam_exact]) (use J X in simp_all)
    have "real N / 2 ^ d \<le> 2 ^ 61"
    proof -
      have "real N \<le> real (2 ^ 63)" unfolding of_nat_le_iff using N(1) by simp
      then have "real N / 2 ^ d \<le> 2 ^ 63 / 2 ^ d" by (simp add: divide_right_mono)
      also have "(2 :: real) ^ 63 / 2 ^ d \<le> 2 ^ 63 / 2 ^ 2" using d False by (intro divide_left_mono power_increasing) simp_all
      finally show ?thesis by simp
    qed
    moreover have "real (2 ^ 62) \<le> real X" unfolding of_nat_le_iff X by simp
    ultimately have "2 ^ 61 \<le> t" unfolding t_def by simp
    then have "2 ^ 61 \<le> unat z" using agreesD(3) [OF g, of "2 ^ 53"] by simp
    then have "clz8 64 (unat z) - 1 \<le> 1"
      using leading_zeros_large [of 64 "unat z"] leading_zeros(3) [of "unat z" 64] zb by simp
    then have "(2 :: nat) ^ 8 dvd 2 ^ (9 - (clz8 64 (unat z) - 1))" by (intro le_imp_power_dvd) simp
    then show ?thesis by (rule agrees_dvd [OF g])
  qed
  have "y = t * 2 powi (E - 1 - 10)"
  proof -
    have "real X * 2 powi (E - 1 - 10) = (2 ^ 52 + real f) * (2 powi 10 * 2 powi (E - 1 - 10))" by (simp add: X)
    also have "\<dots> = (2 ^ 52 + real f) * 2 powi (E - 1)" unfolding powi_sum by simp
    finally have 1: "real X * 2 powi (E - 1 - 10) = (2 ^ 52 + real f) * 2 powi (E - 1)" .
    have "real N / 2 ^ d * 2 powi (E - 1 - 10) = real N * (2 powi (E - 1 - 10) / 2 powi int d)" by simp
    also have "\<dots> = real N * 2 powi (E - int d - 11)" unfolding powi_sum(2) by (simp add: algebra_simps)
    finally show ?thesis using 1 unfolding y t_def by (simp only: left_diff_distrib)
  qed
  from normRoundPackToF64_rounds [OF zb a _ _ this] show ?thesis using E by simp
qed

definition subaligned64 :: "u64 \<Rightarrow> u64" where
  "subaligned64 a = push_bit 10 (fracF64UI a) + (if uint (expF64UI a) \<noteq> 0 then 0x4000000000000000 else push_bit 10 (fracF64UI a))"

lemma unat_frac_shift10: "unat (push_bit 10 (fracF64UI a)) = unat (fracF64UI a) * 2 ^ 10"
  by (rule unat_push_mod) (use frac64_less [of a] in simp)

lemma subaligned64_value:
  "unat (subaligned64 a) \<le> 2 ^ 63 - 2 ^ 10" "even (unat (subaligned64 a))"
  "real (unat (subaligned64 a)) * 2 powi (uint (expF64UI a) - 11) = \<bar>real_of_int (fval64 a)\<bar>"
proof -
  let ?f = "unat (fracF64UI a)" and ?e = "unat (expF64UI a)"
  have u: "unat (subaligned64 a) = (if ?e \<noteq> 0 then ?f * 2 ^ 10 + 2 ^ 62 else ?f * 2 ^ 11)"
    using frac64_less [of a] unat_frac_shift10 [of a] by (simp add: subaligned64_def unat_eq_zero uint_0_iff unat_word_ariths(1))
  show "unat (subaligned64 a) \<le> 2 ^ 63 - 2 ^ 10" using frac64_less [of a] unfolding u by simp
  show "even (unat (subaligned64 a))" unfolding u by simp
  show "real (unat (subaligned64 a)) * 2 powi (uint (expF64UI a) - 11) = \<bar>real_of_int (fval64 a)\<bar>"
  proof (cases "?e = 0")
    case True
    then have "expF64UI a = 0" by (simp add: unat_eq_zero)
    then show ?thesis unfolding u abs_fval64 msig64_def by (simp add: power_int_minus field_simps del: of_nat_unat)
  next
    case False
    then have e: "expF64UI a \<noteq> 0" by (auto simp: unat_eq_zero)
    have "real (unat (subaligned64 a)) * 2 powi (uint (expF64UI a) - 11) = (real ?f + 2 ^ 52) * (2 powi 10 * 2 powi (uint (expF64UI a) - 11))"
      using False unfolding u by (simp add: algebra_simps del: of_nat_unat)
    also have "\<dots> = (real ?f + 2 ^ 52) * 2 powi (uint (expF64UI a) - 1)" unfolding powi_sum by simp
    finally show ?thesis unfolding abs_fval64_normal [OF e] by (simp add: add.commute)
  qed
qed

lemma sub_order64:
  assumes e: "uint (expF64UI a) < uint (expF64UI b)" and b: "expF64UI b \<noteq> 0x7FF"
  shows "rounds64 mode sn (\<bar>real_of_int (fval64 b)\<bar> - \<bar>real_of_int (fval64 a)\<bar>)
    (normRoundPackToF64 mode sn (uint (expF64UI b) - 1)
      ((push_bit 10 (fracF64UI b) OR 0x4000000000000000) - shiftRightJam64 (subaligned64 a) (nat (uint (expF64UI b) - uint (expF64UI a)))))"
proof -
  let ?E = "uint (expF64UI b)"
  let ?d = "nat (?E - uint (expF64UI a))"
  let ?X = "(2 ^ 52 + unat (fracF64UI b)) * 2 ^ 10"
  have d: "0 < ?d" using e by simp
  have "?E \<noteq> 0x7FF" using b by (simp add: uint_0x7FF64)
  then have E: "1 \<le> ?E" "?E \<le> 0x7FE" using e exp64_range [of a] exp64_range [of b] by linarith+
  have n0: "expF64UI b \<noteq> 0" using E by auto
  have f: "unat (push_bit 10 (fracF64UI b)) < 2 ^ 62" using frac64_less [of b] unfolding unat_frac_shift10 by simp
  have "(0x4000000000000000 :: u64) = push_bit 62 1" by simp
  then have X: "unat (push_bit 10 (fracF64UI b) OR 0x4000000000000000) = ?X"
    using or_bit_small [OF f] by (simp add: unat_frac_shift10)
  note j = shiftRightJam64_jam [OF d, of "subaligned64 a"]
  have le: "jam (unat (subaligned64 a)) ?d \<le> ?X"
    using jam_le [OF d, of "unat (subaligned64 a)"] subaligned64_value(1) [of a] by simp
  have z: "unat ((push_bit 10 (fracF64UI b) OR 0x4000000000000000) - shiftRightJam64 (subaligned64 a) ?d) = ?X - jam (unat (subaligned64 a)) ?d"
    unfolding X [symmetric] j [symmetric] by (rule unat_sub) (simp only: word_le_nat_alt X j le)
  have y: "\<bar>real_of_int (fval64 b)\<bar> - \<bar>real_of_int (fval64 a)\<bar> =
      (2 ^ 52 + real (unat (fracF64UI b))) * 2 powi (?E - 1) - real (unat (subaligned64 a)) * 2 powi (?E - int ?d - 11)"
    using e subaligned64_value(3) [of a] by (simp add: abs_fval64_normal [OF n0] del: of_nat_unat)
  show ?thesis by (rule diff_rounds64 [OF z refl frac64_less subaligned64_value(1,2) d E y])
qed

lemma exp_order64: "uint (expF64UI a) < uint (expF64UI b) \<Longrightarrow> \<bar>real_of_int (fval64 a)\<bar> < \<bar>real_of_int (fval64 b)\<bar>"
proof -
  assume "uint (expF64UI a) < uint (expF64UI b)"
  then have "unat (expF64UI a) < unat (expF64UI b)" by (simp add: word_less_def flip: word_less_nat_alt)
  then have "(unat (expF64UI a) + 1) * 2 ^ 52 \<le> unat (expF64UI b) * 2 ^ 52" by (intro mult_le_mono1) simp
  then have "mag64 a < mag64 b" using frac64_less [of a] unfolding mag64_fields by simp
  then have "fmag 52 (mag64 a) < fmag 52 (mag64 b)" by (simp only: fmag_less_iff)
  then show ?thesis by (simp add: fval64_mag abs_mult)
qed

lemma sint_neg64: "sint x < 0 \<longleftrightarrow> 2 ^ 63 \<le> unat x" for x :: u64
proof -
  have "sint x < 0 \<longleftrightarrow> bit x 63" using bit_last_iff [of x] by simp
  also have "\<dots> \<longleftrightarrow> drop_bit 63 x \<noteq> 0"
  proof -
    have "unat (drop_bit 63 x) < 2" using unat_u64_lt [of x] by (simp add: unat_drop less_mult_imp_div_less)
    then have "unat (drop_bit 63 x) = 0 \<or> unat (drop_bit 63 x) = 1" by linarith
    then have "drop_bit 63 x = 0 \<or> drop_bit 63 x = 1" by (simp add: word_unat_eq_iff)
    then show ?thesis by (auto simp: bit_iff_odd_drop_bit)
  qed
  also have "\<dots> \<longleftrightarrow> 2 ^ 63 \<le> unat x" unfolding sign64 [symmetric] signF64UI_def ..
  finally show ?thesis .
qed

text \<open>Two numbers of the same exponent: the difference is exact.\<close>

lemma pack_difference64:
  fixes D :: nat
  assumes D: "0 < D" "D < 2 ^ 52" and e: "e < 0x7FE" and w: "unat w = D"
  defines "k \<equiv> int (countLeadingZeros64 w) - 11"
  defines "s \<equiv> if int e - k < 0 then int e else k" and "x \<equiv> if int e - k < 0 then 0 else int e - k"
  shows "rounds64 mode sn (real D * 2 ^ e) (packToF64UI sn (word_of_int x) (push_bit (nat s) w), 0)"
proof -
  define d where "d = clz8 64 D - 11"
  have n: "52 + 0 < (64 :: nat)" "64 - 1 - 52 < clz8 64 D" "2 ^ 52 \<le> D * 2 ^ d" "D * 2 ^ d < 2 ^ Suc 52"
    using normalise [OF D, of 64] by (simp_all add: d_def)
  have k: "k = int d" using n(2) by (simp add: k_def clz64_nat w d_def)
  define h where "h = nat s"
  have h: "h \<le> d" "h + nat x = e" "0 \<le> x" "h = d \<or> x = 0" by (auto simp: h_def s_def x_def k)
  have "D * 2 ^ h \<le> D * 2 ^ d" using h(1) by (intro mult_le_mono2 power_increasing) simp_all
  from le_less_trans [OF this n(4)] have lt: "D * 2 ^ h < 2 ^ 53" by simp
  have u: "unat (push_bit (nat s) w) = D * 2 ^ h" unfolding h_def [symmetric] w [symmetric] by (rule unat_push_mod) (use lt w in simp)
  have xe: "nat x < 0x7FE" using h(2) e by linarith
  have X: "unat (word_of_int x :: u64) = nat x" using h(3) xe by (intro unat_word_of_int_small) simp_all
  have "nat x * 2 ^ 52 \<le> 0x7FD * 2 ^ 52" using xe by (intro mult_le_mono1) simp
  then have b: "nat x * 2 ^ 52 + D * 2 ^ h < (2046 + 1) * 2 ^ 52" using lt by simp
  have "fmag 52 (nat x * 2 ^ 52 + D * 2 ^ h) = D * 2 ^ h * 2 ^ nat x"
  proof (cases "2 ^ 52 \<le> D * 2 ^ h")
    case True
    then show ?thesis using lt by (intro fmag_normal) simp_all
  next
    case False
    then have "x = 0" using h(4) n(3) by auto
    then show ?thesis using False by (simp add: fmag_small)
  qed
  also have "\<dots> = D * 2 ^ e" using h(2) by (metis mult.assoc power_add)
  finally have "real (fmag 52 (nat x * 2 ^ 52 + D * 2 ^ h)) = real D * 2 ^ e" by simp
  moreover have "0 < nat x * 2 ^ 52 + D * 2 ^ h" using D(1) by simp
  ultimately show ?thesis
    using rounds_mag_exact [OF _ b, of mode sn] pack64_value(2,3) [of "word_of_int x" "push_bit (nat s) w" sn] b
    unfolding rounds64_def fst_conv snd_conv X u by simp
qed

lemma subMagsF64_equal:
  assumes e: "expF64UI a = expF64UI b" and fin: "expF64UI a \<noteq> 0x7FF"
  shows "if \<bar>fval64 a\<bar> = \<bar>fval64 b\<bar> then subMagsF64 mode a b sn = zeroF64 (mode = round_min)
    else rounds64 mode (sn = (\<bar>fval64 b\<bar> < \<bar>fval64 a\<bar>)) \<bar>\<bar>real_of_int (fval64 a)\<bar> - \<bar>real_of_int (fval64 b)\<bar>\<bar> (subMagsF64 mode a b sn)"
proof -
  let ?fa = "unat (fracF64UI a)" and ?fb = "unat (fracF64UI b)" and ?w = "fracF64UI a - fracF64UI b"
  let ?e = "unat (expF64UI a) - 1"
  note f = frac64_less [of a] frac64_less [of b]
  have v: "\<bar>real_of_int (fval64 a)\<bar> = real (msig64 a) * 2 ^ ?e" "\<bar>real_of_int (fval64 b)\<bar> = real (msig64 b) * 2 ^ ?e"
    using e by (simp_all only: abs_fval64)
  have i: "\<bar>fval64 a\<bar> = int (msig64 a * 2 ^ ?e)" "\<bar>fval64 b\<bar> = int (msig64 b * 2 ^ ?e)"
  proof -
    have "real_of_int \<bar>fval64 a\<bar> = real_of_int (int (msig64 a * 2 ^ ?e))" "real_of_int \<bar>fval64 b\<bar> = real_of_int (int (msig64 b * 2 ^ ?e))"
      using v by simp_all
    then show "\<bar>fval64 a\<bar> = int (msig64 a * 2 ^ ?e)" "\<bar>fval64 b\<bar> = int (msig64 b * 2 ^ ?e)" by (simp_all only: of_int_eq_iff)
  qed
  have o: "\<bar>fval64 a\<bar> = \<bar>fval64 b\<bar> \<longleftrightarrow> ?fa = ?fb" "\<bar>fval64 b\<bar> < \<bar>fval64 a\<bar> \<longleftrightarrow> ?fb < ?fa"
    unfolding i of_nat_eq_iff of_nat_less_iff using e by (simp_all add: msig64_def)
  have ie: "(if uint (expF64UI a) \<noteq> 0 then uint (expF64UI a) - 1 else uint (expF64UI a)) = int ?e"
    by (cases "unat (expF64UI a)") (simp_all add: uint_nat del: of_nat_unat)
  have eb: "?e < 0x7FE" using exp64_range [of a] fin by (simp add: uint_nat uint_0x7FF64 [symmetric] del: of_nat_unat)
  show ?thesis
  proof (cases "?fa = ?fb")
    case True
    then have "fracF64UI a = fracF64UI b" by (simp only: word_unat_eq_iff)
    then have "?w = 0" by simp
    then show ?thesis using True fin e unfolding o by (simp add: subMagsF64_def Let_def uint_0x7FF64)
  next
    case False
    then have w0: "?w \<noteq> 0" by auto
    have neg: "sint ?w < 0 \<longleftrightarrow> ?fa < ?fb"
      unfolding sint_neg64 using f by (auto simp: unat_sub_if')
    define w where "w = (if ?fa < ?fb then - ?w else ?w)"
    define D where "D = (if ?fa < ?fb then ?fb - ?fa else ?fa - ?fb)"
    have wD: "unat w = D"
      unfolding w_def D_def using f unat_sub_if' [of "fracF64UI b" "fracF64UI a"] unat_sub_if' [of "fracF64UI a" "fracF64UI b"] by auto
    have D: "0 < D" "D < 2 ^ 52" using False f unfolding D_def by auto
    have y: "\<bar>\<bar>real_of_int (fval64 a)\<bar> - \<bar>real_of_int (fval64 b)\<bar>\<bar> = real D * 2 ^ ?e"
      unfolding v left_diff_distrib [symmetric] abs_mult using e by (simp add: msig64_def D_def of_nat_diff del: of_nat_unat)
    have s: "(sn = (\<bar>fval64 b\<bar> < \<bar>fval64 a\<bar>)) = (if ?fa < ?fb then \<not> sn else sn)" unfolding o using False by auto
    have z: "uint (expF64UI a) - uint (expF64UI b) = 0" "uint (expF64UI a) \<noteq> 0x7FF" using e fin by (simp_all add: uint_0x7FF64)
    let ?k = "int (countLeadingZeros64 w) - 11"
    have "subMagsF64 mode a b sn = (packToF64UI (if ?fa < ?fb then \<not> sn else sn) (word_of_int (if int ?e - ?k < 0 then 0 else int ?e - ?k))
        (push_bit (nat (if int ?e - ?k < 0 then int ?e else ?k)) w), 0)"
      unfolding subMagsF64_def Let_def ie neg w_def using z w0
      by (cases "?fa < ?fb"; cases "int ?e - ?k < 0") (simp_all only: if_True if_False prod.case simp_thms w_def)
    then show ?thesis
      using False pack_difference64 [OF D eb wD, of mode "if ?fa < ?fb then \<not> sn else sn"] unfolding y s unfolding o by (simp only: if_False)
  qed
qed

lemma subMagsF64_finite:
  assumes a: "expF64UI a \<noteq> 0x7FF" and b: "expF64UI b \<noteq> 0x7FF"
  shows "if \<bar>fval64 a\<bar> = \<bar>fval64 b\<bar> then subMagsF64 mode a b sn = zeroF64 (mode = round_min)
    else rounds64 mode (sn = (\<bar>fval64 b\<bar> < \<bar>fval64 a\<bar>)) \<bar>\<bar>real_of_int (fval64 a)\<bar> - \<bar>real_of_int (fval64 b)\<bar>\<bar> (subMagsF64 mode a b sn)"
proof -
  let ?ea = "uint (expF64UI a)" and ?eb = "uint (expF64UI b)"
  have ea: "?ea \<noteq> 0x7FF" and eb: "?eb \<noteq> 0x7FF" using a b by (simp_all add: uint_0x7FF64)
  consider (equal) "expF64UI a = expF64UI b" | (less) "?ea < ?eb" | (greater) "?eb < ?ea"
    by (metis linorder_neqE word_uint_eq_iff)
  then show ?thesis
  proof cases
    case equal
    then show ?thesis using a by (rule subMagsF64_equal)
  next
    case less
    have "subMagsF64 mode a b sn = normRoundPackToF64 mode (\<not> sn) (?eb - 1)
        ((push_bit 10 (fracF64UI b) OR 0x4000000000000000) - shiftRightJam64 (subaligned64 a) (nat (?eb - ?ea)))"
      using less eb by (simp add: subMagsF64_def Let_def subaligned64_def)
    then show ?thesis using sub_order64 [OF less b, of mode "\<not> sn"] abs_diff [OF exp_order64 [OF less]] by simp
  next
    case greater
    have "subMagsF64 mode a b sn = normRoundPackToF64 mode sn (?ea - 1)
        ((push_bit 10 (fracF64UI a) OR 0x4000000000000000) - shiftRightJam64 (subaligned64 b) (nat (?ea - ?eb)))"
      using greater ea by (simp add: subMagsF64_def Let_def subaligned64_def)
    then show ?thesis using sub_order64 [OF greater a, of mode sn] abs_diff [OF exp_order64 [OF greater]] by simp
  qed
qed

section \<open>Infinities and NaNs\<close>

lemma shift_frac64: "push_bit 9 (fracF64UI a) = 0 \<longleftrightarrow> fracF64UI a = 0" "push_bit 10 (fracF64UI a) = 0 \<longleftrightarrow> fracF64UI a = 0"
  using unat_frac_shift [of a] unat_frac_shift10 [of a] by (simp_all add: unat_eq_zero [symmetric])

lemma exp_less_max64: "uint (expF64UI a) < uint (expF64UI b) \<Longrightarrow> expF64UI a \<noteq> 0x7FF"
  using exp64_range(2) [of b] by (auto simp: uint_0x7FF64 [symmetric])

lemma addMagsF64_special:
  assumes "expF64UI a = 0x7FF \<or> expF64UI b = 0x7FF"
  shows "addMagsF64 mode a b sn =
    (if isNaNF64UI a \<or> isNaNF64UI b then propagateNaNF64UI a b else (if isInfF64UI a then a else packToF64UI sn 0x7FF 0, 0))"
proof -
  consider (equal) "expF64UI a = expF64UI b" | (less) "uint (expF64UI a) < uint (expF64UI b)" | (greater) "uint (expF64UI b) < uint (expF64UI a)"
    by (metis linorder_neqE word_uint_eq_iff)
  then show ?thesis
  proof cases
    case equal
    then show ?thesis using assms by (auto simp: addMagsF64_def class64 Let_def or_zero)
  next
    case less
    note n = exp_less_max64 [OF less]
    then have "expF64UI b = 0x7FF" using assms by simp
    then show ?thesis using less n by (simp add: addMagsF64_def class64 Let_def shift_frac64)
  next
    case greater
    note n = exp_less_max64 [OF greater]
    then have "expF64UI a = 0x7FF" using assms by simp
    then show ?thesis using greater n by (simp add: addMagsF64_def class64 Let_def shift_frac64)
  qed
qed

lemma subMagsF64_special:
  assumes "expF64UI a = 0x7FF \<or> expF64UI b = 0x7FF"
  shows "subMagsF64 mode a b sn =
    (if isNaNF64UI a \<or> isNaNF64UI b then propagateNaNF64UI a b
     else if isInfF64UI a \<and> isInfF64UI b then invalidF64
     else (if isInfF64UI a then a else packToF64UI (\<not> sn) 0x7FF 0, 0))"
proof -
  consider (equal) "expF64UI a = expF64UI b" | (less) "uint (expF64UI a) < uint (expF64UI b)" | (greater) "uint (expF64UI b) < uint (expF64UI a)"
    by (metis linorder_neqE word_uint_eq_iff)
  then show ?thesis
  proof cases
    case equal
    then show ?thesis using assms by (auto simp: subMagsF64_def class64 Let_def or_zero)
  next
    case less
    note n = exp_less_max64 [OF less]
    then have "expF64UI b = 0x7FF" using assms by simp
    then show ?thesis using less n by (simp add: subMagsF64_def class64 Let_def shift_frac64)
  next
    case greater
    note n = exp_less_max64 [OF greater]
    then have "expF64UI a = 0x7FF" using assms by simp
    then show ?thesis using greater n by (simp add: subMagsF64_def class64 Let_def shift_frac64)
  qed
qed

lemma eq_pack64:
  "isInfF64UI a \<Longrightarrow> packToF64UI (signF64UI a) 0x7FF 0 = a" "mag64 a = 0 \<Longrightarrow> packToF64UI (signF64UI a) 0 0 = a"
proof -
  have "x = a" if "signF64UI x = signF64UI a" "mag64 x = mag64 a" for x
    using that order64(2) [of x a] by simp
  then show "isInfF64UI a \<Longrightarrow> packToF64UI (signF64UI a) 0x7FF 0 = a" "mag64 a = 0 \<Longrightarrow> packToF64UI (signF64UI a) 0 0 = a"
    using pack64_value(2,3) [of "0x7FF" 0 "signF64UI a"] pack64_value(2,3) [of 0 0 "signF64UI a"]
    by (simp_all add: isInfF64UI_def)
qed

lemma sum_signs64:
  "signF64UI a = signF64UI b \<Longrightarrow> \<bar>fval64 a + fval64 b\<bar> = \<bar>fval64 a\<bar> + \<bar>fval64 b\<bar>"
  "signF64UI a = signF64UI b \<Longrightarrow> fval64 a + fval64 b \<noteq> 0 \<Longrightarrow> fval64 a + fval64 b < 0 \<longleftrightarrow> signF64UI a"
  "signF64UI a \<noteq> signF64UI b \<Longrightarrow> \<bar>fval64 a + fval64 b\<bar> = \<bar>\<bar>fval64 a\<bar> - \<bar>fval64 b\<bar>\<bar>"
  "signF64UI a \<noteq> signF64UI b \<Longrightarrow> fval64 a + fval64 b \<noteq> 0 \<Longrightarrow> fval64 a + fval64 b < 0 \<longleftrightarrow> (signF64UI a = (\<bar>fval64 b\<bar> < \<bar>fval64 a\<bar>))"
  unfolding fval64_mag by (rule sum_signs; assumption)+

lemma f64_add_finite:
  assumes a: "expF64UI a \<noteq> 0x7FF" and b: "expF64UI b \<noteq> 0x7FF"
  shows "if fval64 a + fval64 b = 0
    then f64_add mode a b = (packToF64UI (if signF64UI a = signF64UI b then signF64UI a else mode = round_min) 0 0, 0)
    else rounds64 mode (fval64 a + fval64 b < 0) (real_of_int \<bar>fval64 a + fval64 b\<bar>) (f64_add mode a b)"
proof (cases "signF64UI a = signF64UI b")
  case True
  note s = sum_signs64(1,2) [OF True]
  have f: "f64_add mode a b = addMagsF64 mode a b (signF64UI a)" using True by (simp add: f64_add_def)
  show ?thesis
  proof (cases "fval64 a + fval64 b = 0")
    case zero: True
    then have "fval64 a = 0" "fval64 b = 0" using s(1) by simp_all
    then have m: "mag64 a = 0" "mag64 b = 0" by (simp_all add: class64(3))
    then have "addMagsF64 mode a b (signF64UI a) = (a, 0)" by (simp add: class64(4) addMagsF64_def Let_def)
    then show ?thesis using zero True m eq_pack64(2) [of a] f by simp
  next
    case False
    then have "mag64 a \<noteq> 0 \<or> mag64 b \<noteq> 0" by (auto simp: class64(3) [symmetric])
    from addMagsF64_finite [OF a b this refl, of mode] show ?thesis using False s(2) [OF False] unfolding f s(1) by simp
  qed
next
  case False
  note s = sum_signs64(3,4) [OF False]
  have f: "f64_add mode a b = subMagsF64 mode a b (signF64UI a)" using False by (simp add: f64_add_def)
  have z: "fval64 a + fval64 b = 0 \<longleftrightarrow> \<bar>fval64 a\<bar> = \<bar>fval64 b\<bar>" using s(1) by auto
  show ?thesis
    using subMagsF64_finite [OF a b, of mode "signF64UI a"] False s(2) unfolding f s(1) z
    by (simp add: zeroF64_def split: if_splits)
qed

lemma f64_add_special:
  assumes "expF64UI a = 0x7FF \<or> expF64UI b = 0x7FF"
  shows "f64_add mode a b =
    (if isNaNF64UI a \<or> isNaNF64UI b then (0x7FF8000000000000, if isSigNaNF64UI a \<or> isSigNaNF64UI b then flag_invalid else 0)
     else if isInfF64UI a \<and> isInfF64UI b \<and> signF64UI a \<noteq> signF64UI b then (0x7FF8000000000000, flag_invalid)
     else (if isInfF64UI a then a else b, 0))"
proof -
  have b: "isInfF64UI b" if "\<not> isNaNF64UI a" "\<not> isNaNF64UI b" "\<not> isInfF64UI a"
    using assms that by (auto simp: class64(1,2))
  show ?thesis
  proof (cases "signF64UI a = signF64UI b")
    case True
    then have "f64_add mode a b = addMagsF64 mode a b (signF64UI a)" by (simp add: f64_add_def)
    then show ?thesis
      using addMagsF64_special [OF assms, of mode "signF64UI a"] b eq_pack64(1) [of b] True by (simp add: propagateNaNF64UI_def defaultNaNF64UI_def)
  next
    case False
    then have "f64_add mode a b = subMagsF64 mode a b (signF64UI a)" by (simp add: f64_add_def)
    moreover have "(\<not> signF64UI a) = signF64UI b" using False by simp
    ultimately show ?thesis
      using subMagsF64_special [OF assms, of mode "signF64UI a"] b eq_pack64(1) [of b] False
      by (simp add: propagateNaNF64UI_def defaultNaNF64UI_def invalidF64_def)
  qed
qed

end
