(* ===== verification/Softfloat_Convert.thy ===== *)
theory Softfloat_Convert
  imports Softfloat_AddF64
begin

text \<open>
  The conversions from doubles to singles and from integers to doubles round correctly.
\<close>

section \<open>Integers to numbers\<close>

lemma top_bit64: "a AND 0x8000000000000000 = 0 \<longleftrightarrow> unat a < 2 ^ 63" for a :: u64
proof -
  have "a AND 0x8000000000000000 = 0 \<longleftrightarrow> \<not> bit a 63" using and_exp_eq_0_iff_not_bit [of a 63] by simp
  also have "\<dots> \<longleftrightarrow> \<not> 2 ^ 63 \<le> unat a" unfolding sint_neg64 [symmetric] using bit_last_iff [of a] by simp
  finally show ?thesis unfolding not_le .
qed

lemma ui64_to_f64_rounds:
  assumes "a \<noteq> 0"
  shows "rounds64 mode False (real (unat a) * 2 ^ 1074) (ui64_to_f64 mode a)"
proof (cases "a AND 0x8000000000000000 = 0")
  case False
  then have "2 ^ 63 \<le> unat a" by (simp add: top_bit64)
  then have b: "real (2 ^ 63) \<le> real (unat a)" "real (unat a) < real (2 ^ 64)" unfolding of_nat_le_iff of_nat_less_iff by assumption (rule unat_u64_lt)
  let ?J = "jam (unat a) 1" and ?t = "real (unat a) / 2 ^ 1"
  have j: "unat (shortShiftRightJam64 a 1) = ?J" by (rule shortJam64_jam) simp
  have a: "agrees (2 ^ (9 - 1)) ?J ?t" by (rule agrees_jam_exact) simp
  have t: "2 ^ (52 + 9) \<le> ?t" "?t < 2 ^ (52 + 9 + 2)" using b by simp_all
  have g: "agrees (2 ^ 9) ?J ?t" by (rule agrees_jam_exact) simp
  have lead: "2 ^ (52 + 9 + 1) \<le> ?J" using agreesD(3) [OF g, of "2 ^ 53"] b by simp
  have s: "scaled 52 9 (unat (shortShiftRightJam64 a 1)) ?t" unfolding j by (rule scaled_twice(2) [OF a _ t lead]) simp
  have "real (unat a) * 2 ^ 1074 = ?t * 2 powi (0x43D - 10)" by simp
  from roundPackToF64_rounds [OF s _ _ this, of mode False] show ?thesis using False assms by (simp add: ui64_to_f64_def)
next
  case True
  then have a: "0 < unat a" "unat a < 2 ^ 63" using assms by (simp_all add: top_bit64 unat_gt_0)
  have "real (unat a) * 2 ^ 1074 = real (unat a) * 2 powi (0x43C - 10)" by simp
  from normRoundPackToF64_rounds [OF a agrees_exact _ _ this, of mode False] show ?thesis using True assms by (simp add: ui64_to_f64_def)
qed

section \<open>Double to single precision\<close>

text \<open>Far below the least subnormal all numbers round alike.\<close>

definition tiny_result :: "u64 \<Rightarrow> bool \<Rightarrow> int" where
  "tiny_result mode sn = (if mode \<noteq> round_near_even \<and> mode \<noteq> round_near_maxMag \<and> mode = (if sn then round_min else round_max) then 1 else 0)"

lemma rounds_mag_tiny:
  assumes y: "0 < y" "y < 1 / 2" and p: "0 < p"
  shows "rounds_mag p E mode sn y m fl \<longleftrightarrow>
    real (fmag p m) = real_of_int (tiny_result mode sn) \<and>
    fl = flag_underflow OR flag_inexact"
proof -
  let ?k = "tiny_result mode sn"
  have f: "\<lfloor>y\<rfloor> = 0" "\<lceil>y\<rceil> = 1" using y by (simp_all add: floor_eq_iff ceiling_eq_iff)
  have z: "round_int mode sn y = ?k" unfolding round_int_def f tiny_result_def using y by simp
  have "log 2 y < log 2 (1 / 2)" using y by (subst log_less_cancel_iff) simp_all
  then have "log 2 y < - 1" by (simp add: log_divide)
  then have L: "\<lfloor>log 2 y\<rfloor> \<le> - 2" by linarith
  then have "nat (\<lfloor>log 2 y\<rfloor> - int p) = 0" by linarith
  then have u: "ulp p y = 1" by (simp only: ulp_def) simp
  have r: "rounded p mode sn y = real_of_int ?k" by (simp add: rounded_def u z)
  have "real_of_int ?k < 2 ^ (p + E)" using p by (simp add: tiny_result_def)
  moreover have "real_of_int ?k \<noteq> y" using y by (simp add: tiny_result_def)
  moreover have "tiny p mode sn y"
  proof -
    define v :: real where "v = 2 powi (\<lfloor>log 2 y\<rfloor> - int p)"
    have v: "0 < v" by (simp add: v_def)
    have "y < 2 powr (real_of_int \<lfloor>log 2 y\<rfloor> + 1)" using y(1) by (simp add: log_less_iff [symmetric])
    also have "2 powr (real_of_int \<lfloor>log 2 y\<rfloor> + 1) = 2 powi (\<lfloor>log 2 y\<rfloor> + 1)" using powr_real_of_int' [of 2 "\<lfloor>log 2 y\<rfloor> + 1"] by simp
    also have "\<dots> = 2 ^ Suc p * v" unfolding v_def powi_sum(3) powi_sum(1) by (simp add: algebra_simps)
    finally have "y / v < real_of_int (2 ^ Suc p)" using v by (simp add: field_simps)
    then have "round_int mode sn (y / v) \<le> 2 ^ Suc p" by (rule round_int_le)
    then have "real_of_int (round_int mode sn (y / v)) \<le> real_of_int (2 ^ Suc p)" by (simp only: of_int_le_iff)
    then have "real_of_int (round_int mode sn (y / v)) * v \<le> 2 ^ Suc p * v" using v by simp
    also have "2 ^ Suc p * v = 2 powi (\<lfloor>log 2 y\<rfloor> + 1)" unfolding v_def powi_sum(3) powi_sum(1) by (simp add: algebra_simps)
    also have "\<dots> \<le> 2 powi 0"
    proof -
      have "\<lfloor>log 2 y\<rfloor> + 1 \<le> 0" using L by linarith
      then show ?thesis by (rule power_int_increasing) simp_all
    qed
    also have "\<dots> < 2 ^ p" using p by simp
    finally show ?thesis by (simp add: tiny_def Let_def v_def)
  qed
  ultimately show ?thesis unfolding rounds_mag_def rounding_flags_def r by simp
qed

lemma f64_to_f32_word:
  fixes a :: u64
  defines "w \<equiv> (ucast (shortShiftRightJam64 (fracF64UI a) 22) :: u32)"
  shows "unat w = jam (unat (fracF64UI a)) 22" "unat w < 2 ^ 30" "unat (w OR 0x40000000) = 2 ^ 30 + unat w"
    "w = 0 \<longleftrightarrow> fracF64UI a = 0"
proof -
  let ?f = "unat (fracF64UI a)"
  have j: "unat (shortShiftRightJam64 (fracF64UI a) 22) = jam ?f 22" by (rule shortJam64_jam) simp
  have g: "agrees 2 (jam ?f 22) (real ?f / 2 ^ 22)" by (rule agrees_jam_exact) simp
  have "real ?f < real (2 ^ 52)" unfolding of_nat_less_iff by (rule frac64_less)
  then have lt: "jam ?f 22 < 2 ^ 30" using agreesD(1) [OF g, of "2 ^ 29"] by simp
  then show u: "unat w = jam ?f 22" unfolding w_def by (simp add: unsigned_ucast_eq unsigned_take_bit_eq j take_bit_nat_eq_self)
  then show w30: "unat w < 2 ^ 30" using lt by simp
  have "(0x40000000 :: u32) = push_bit 30 1" by simp
  then show "unat (w OR 0x40000000) = 2 ^ 30 + unat w" using or_bit_small [OF w30] by simp
  have "0 < jam ?f 22 \<longleftrightarrow> 0 < real ?f / 2 ^ 22" using agreesD(2) [OF g, of 0] by (simp only: mult_0) simp
  then have "jam ?f 22 = 0 \<longleftrightarrow> ?f = 0" by (cases "?f = 0") (simp_all add: zero_less_divide_iff del: of_nat_unat)
  then show "w = 0 \<longleftrightarrow> fracF64UI a = 0" by (simp only: unat_eq_zero [symmetric] u)
qed

lemma f64_to_f32_finite:
  assumes fin: "expF64UI a \<noteq> 0x7FF" and nz: "fval64 a \<noteq> 0"
  shows "rounds32 mode (signF64UI a) (\<bar>real_of_int (fval64 a)\<bar> / 2 ^ 925) (f64_to_f32 mode a)"
proof -
  let ?f = "unat (fracF64UI a)" and ?E = "uint (expF64UI a)" and ?sn = "signF64UI a"
  define w where "w = (ucast (shortShiftRightJam64 (fracF64UI a) 22) :: u32)"
  note w = f64_to_f32_word [of a, folded w_def]
  define t where "t = real (2 ^ 30) + real ?f / 2 ^ 22"
  have f52: "real ?f < real (2 ^ 52)" unfolding of_nat_less_iff by (rule frac64_less)
  have "agrees (2 ^ 6) (jam ?f 22) (real ?f / 2 ^ 22)" by (rule agrees_jam_exact) simp
  then have "agrees (2 ^ 6) (2 ^ 30 + unat w) t" unfolding w(1) t_def by (rule agrees_add) simp
  then have s: "scaled 23 6 (unat (w OR 0x40000000)) t" unfolding scaled_def w(3) using w(2) by simp
  have z: "expF64UI a OR ucast w = 0 \<longleftrightarrow> mag64 a = 0"
  proof -
    have "(ucast w :: u64) = 0 \<longleftrightarrow> w = 0" unfolding unat_eq_zero [symmetric] unat_widen ..
    then show ?thesis unfolding or_zero class64(4) w(4) by simp
  qed
  then have c: "f64_to_f32 mode a = roundPackToF32 mode ?sn (?E - 0x381) (w OR 0x40000000)"
    using fin nz by (simp add: f64_to_f32_def Let_def w_def class64(3))
  have ex: "- 2147483648 \<le> ?E - 0x381" "?E - 0x381 < 2147483648" using exp64_range [of a] by linarith+
  show ?thesis
  proof (cases "expF64UI a = 0")
    case False
    have "t * 2 powi (?E - 0x381 - 7) = (2 ^ 52 + real ?f) * (2 powi (?E - 0x381 - 7) / 2 powi 22)"
      by (simp add: t_def field_simps)
    also have "\<dots> = (2 ^ 52 + real ?f) * (2 powi (?E - 1) / 2 powi 925)" unfolding powi_sum by (simp add: algebra_simps)
    also have "\<dots> = \<bar>real_of_int (fval64 a)\<bar> / 2 ^ 925" by (simp add: abs_fval64_normal [OF False])
    finally have "t * 2 powi (?E - 0x381 - 7) = \<bar>real_of_int (fval64 a)\<bar> / 2 ^ 925" .
    with roundPackToF32_rounds [OF s ex refl, of mode ?sn] show ?thesis unfolding c by (simp only:)
  next
    case True
    then have v: "\<bar>real_of_int (fval64 a)\<bar> = real ?f" by (simp add: abs_fval64 msig64_def)
    have "?f \<noteq> 0" using nz True by (simp add: class64(3,4) unat_eq_zero)
    then have f0: "0 < real ?f" by (simp del: of_nat_unat)
    have "t < 2 ^ 31" using f52 by (simp add: t_def)
    then have "t * 2 powi (- 904) < 2 ^ 31 * 2 powi (- 904)" by simp
    also have "\<dots> < 1 / 2" by (simp add: power_int_minus field_simps)
    finally have y': "t * 2 powi (?E - 0x381 - 7) < 1 / 2" using True by simp
    have "0 < t" unfolding t_def by (intro add_pos_nonneg divide_nonneg_pos of_nat_0_le_iff) simp_all
    then have "0 < t * 2 powi (?E - 0x381 - 7)" by simp
    moreover have "real ?f / 2 ^ 925 < 2 ^ 52 / 2 ^ 925" using f52 by (simp add: divide_strict_right_mono)
    then have "real ?f / 2 ^ 925 < 1 / 2" by simp
    moreover have "0 < real ?f / 2 ^ 925" using f0 by simp
    ultimately show ?thesis
      using roundPackToF32_rounds [OF s ex refl, of mode ?sn] y' unfolding c v rounds32_def by (simp add: rounds_mag_tiny)
  qed
qed

text \<open>C40. The conversions of doubles to singles and of 64-bit unsigned integers to doubles are correctly
  rounded in every mode, subnormal and overflowing results included; a NaN becomes the default NaN and raises
  the invalid flag if it signals; infinities, zeros and the sign are kept.\<close>

theorem conversions_correct:
  "(if isNaNF64UI a then f64_to_f32 mode a = (0x7FC00000, if isSigNaNF64UI a then flag_invalid else 0)
    else if isInfF64UI a then f64_to_f32 mode a = (packToF32UI (signF64UI a) 0xFF 0, 0)
    else if fval64 a = 0 then f64_to_f32 mode a = (packToF32UI (signF64UI a) 0 0, 0)
    else rounds32 mode (signF64UI a) (\<bar>real_of_int (fval64 a)\<bar> / 2 ^ 925) (f64_to_f32 mode a)) \<and>
   (if n = 0 then ui64_to_f64 mode n = (0, 0)
    else rounds64 mode False (real (unat n) * 2 ^ 1074) (ui64_to_f64 mode n))"
proof (rule conjI, goal_cases)
  case 1
  have z: "shortShiftRightJam64 0 22 = 0" by (simp add: shortShiftRightJam64_def)
  show ?case
    using f64_to_f32_finite [of a mode] sig_bit64 [of a] z
    by (simp add: class64 f64_to_f32_def Let_def defaultNaNF32UI_def del: of_int_abs)
next
  case 2
  show ?case using ui64_to_f64_rounds [of n mode] by (simp add: ui64_to_f64_def)
qed

end
