(* ===== verification/Softfloat_AddF32.thy ===== *)
theory Softfloat_AddF32
  imports Softfloat_Normalise
begin

text \<open>
  \<^verbatim>\<open>f32_add\<close>, along the lines of \<^verbatim>\<open>f64_add\<close>.
\<close>

section \<open>Addition of magnitudes\<close>

definition msig32 :: "u32 \<Rightarrow> nat" where
  "msig32 a = (if expF32UI a \<noteq> 0 then 2 ^ 23 else 0) + unat (fracF32UI a)"

lemma frac32_less: "unat (fracF32UI a) < 2 ^ 23"
  by (simp add: frac32)

lemma abs_fval32: "\<bar>real_of_int (fval32 a)\<bar> = real (msig32 a) * 2 ^ (unat (expF32UI a) - 1)"
proof (cases "expF32UI a = 0")
  case True
  then have "mag32 a = unat (fracF32UI a)" using mag32_fields [of a] by simp
  then show ?thesis using True frac32_less [of a] fmag_small [of "mag32 a" 23]
    by (simp add: fval32_mag msig32_def abs_mult del: of_nat_unat)
next
  case False
  then have "0 < unat (expF32UI a)" by (simp add: unat_gt_0)
  from fmag_parts [OF frac32_less [of a] this] show ?thesis
    using False by (simp add: fval32_mag msig32_def abs_mult mag32_fields del: of_nat_unat)
qed

lemma abs_fval32_normal:
  assumes "expF32UI a \<noteq> 0"
  shows "\<bar>real_of_int (fval32 a)\<bar> = (2 ^ 23 + real (unat (fracF32UI a))) * 2 powi (uint (expF32UI a) - 1)"
proof -
  have "unat (expF32UI a) \<noteq> 0" using assms by (simp add: unat_eq_zero)
  then show ?thesis unfolding abs_fval32 msig32_def uint_nat using assms powi_pred [of "unat (expF32UI a)"]
    by (simp del: of_nat_unat)
qed

lemma sum_rounds32:
  assumes z: "unat z = 2 ^ 29 + f * 2 ^ 6 + jam N d" and f: "f < 2 ^ 23" and N: "N < 2 ^ 30" and d: "0 < d"
    and E: "1 \<le> E" "E \<le> 0xFE"
    and y: "y = (2 ^ 23 + real f) * 2 powi (E - 1) + real N * 2 powi (E - int d - 7)"
  shows "rounds32 mode sn y (if z < 0x40000000 then roundPackToF32 mode sn (E - 1) (push_bit 1 z) else roundPackToF32 mode sn E z)"
proof -
  define X where "X = (2 ^ 23 + f) * 2 ^ 6"
  define t where "t = real X + real N / 2 ^ d"
  have "agrees (2 ^ 5) (jam N d) (real N / 2 ^ d)" by (rule agrees_jam_exact) simp
  then have a: "agrees (2 ^ (6 - 1)) (unat z) t"
    unfolding z t_def using agrees_add [of "2 ^ 5" "jam N d" "real N / 2 ^ d" X] by (simp add: X_def algebra_simps)
  have "real X < real (2 ^ 30)" unfolding of_nat_less_iff X_def using f by simp
  moreover have "real (2 ^ 29) \<le> real X" unfolding of_nat_le_iff X_def by simp
  moreover have "real N / 2 ^ d < 2 ^ 29"
  proof -
    have "real N < real (2 ^ 30)" unfolding of_nat_less_iff by (rule N)
    then have "real N / 2 ^ d < 2 ^ 30 / 2 ^ d" by (simp add: divide_strict_right_mono)
    also have "(2 :: real) ^ 30 / 2 ^ d \<le> 2 ^ 30 / 2 ^ 1" using d by (intro divide_left_mono power_increasing) simp_all
    finally show ?thesis by simp
  qed
  ultimately have t: "2 ^ 29 \<le> t" "t < 2 ^ 31" unfolding t_def by (simp_all add: add_increasing2)
  note s = scaled_twice [OF a, of 23, simplified, OF t [simplified]]
  have r: "y = t * 2 powi (E - 7)"
  proof -
    have "real X * 2 powi (E - 7) = (2 ^ 23 + real f) * (2 powi 6 * 2 powi (E - 7))" by (simp add: X_def)
    also have "\<dots> = (2 ^ 23 + real f) * 2 powi (E - 1)" unfolding powi_sum by simp
    finally have 1: "real X * 2 powi (E - 7) = (2 ^ 23 + real f) * 2 powi (E - 1)" .
    have "real N / 2 ^ d * 2 powi (E - 7) = real N * (2 powi (E - 7) / 2 powi int d)" by simp
    also have "\<dots> = real N * 2 powi (E - int d - 7)" unfolding powi_sum(2) by (simp add: algebra_simps)
    finally show ?thesis using 1 unfolding y t_def by (simp only: add_mult_distrib2 distrib_right)
  qed
  have r': "y = 2 * t * 2 powi (E - 1 - 7)" unfolding r using powi_sum(1) [of 1 "E - 1 - 7"] by simp
  show ?thesis
  proof (cases "z < 0x40000000")
    case True
    then have J: "unat z < 2 ^ 30" by (simp add: word_less_nat_alt)
    then have "unat (push_bit 1 z) = 2 * unat z" by (subst unat_push32) simp_all
    then have "scaled 23 6 (unat (push_bit 1 z)) (2 * t)" using s(1) J by simp
    from roundPackToF32_rounds [OF this _ _ r', of mode sn] show ?thesis using True E by simp
  next
    case False
    then have "2 ^ 30 \<le> unat z" by (simp add: word_less_nat_alt)
    then have "scaled 23 6 (unat z) t" using s(2) by simp
    from roundPackToF32_rounds [OF this _ _ r, of mode sn] show ?thesis using False E by simp
  qed
qed

text \<open>The operand with the smaller exponent, before it is shifted.\<close>

definition aligned32 :: "u32 \<Rightarrow> u32" where
  "aligned32 a = push_bit 6 (fracF32UI a) + (if uint (expF32UI a) \<noteq> 0 then 0x20000000 else push_bit 6 (fracF32UI a))"

lemma unat_frac_shift_32: "unat (push_bit 6 (fracF32UI a)) = unat (fracF32UI a) * 2 ^ 6"
  by (rule unat_push32) (use frac32_less [of a] in simp)

lemma aligned32_value:
  "unat (aligned32 a) < 2 ^ 30" "real (unat (aligned32 a)) * 2 powi (uint (expF32UI a) - 7) = \<bar>real_of_int (fval32 a)\<bar>"
proof -
  let ?f = "unat (fracF32UI a)" and ?e = "unat (expF32UI a)"
  have u: "unat (aligned32 a) = (if ?e \<noteq> 0 then ?f * 2 ^ 6 + 2 ^ 29 else ?f * 2 ^ 7)"
    using frac32_less [of a] unat_frac_shift_32 [of a] by (simp add: aligned32_def unat_eq_zero uint_0_iff unat_word_ariths(1))
  show "unat (aligned32 a) < 2 ^ 30" using frac32_less [of a] unfolding u by simp
  show "real (unat (aligned32 a)) * 2 powi (uint (expF32UI a) - 7) = \<bar>real_of_int (fval32 a)\<bar>"
  proof (cases "?e = 0")
    case True
    then have "expF32UI a = 0" by (simp add: unat_eq_zero)
    then show ?thesis unfolding u abs_fval32 msig32_def by (simp add: power_int_minus field_simps del: of_nat_unat)
  next
    case False
    then have e: "expF32UI a \<noteq> 0" by (auto simp: unat_eq_zero)
    have "real (unat (aligned32 a)) * 2 powi (int ?e - 7) = (real ?f + 2 ^ 23) * (2 powi 6 * 2 powi (int ?e - 7))"
      using False unfolding u by (simp add: algebra_simps del: of_nat_unat)
    also have "\<dots> = (real ?f + 2 ^ 23) * 2 powi (int ?e - 1)" unfolding powi_sum by simp
    finally show ?thesis unfolding abs_fval32_normal [OF e] by (simp add: add.commute)
  qed
qed

lemma exp32_range: "0 \<le> uint (expF32UI a)" "uint (expF32UI a) \<le> 0xFF"
proof -
  have "unat (expF32UI a) < 256" unfolding exp32 mag32_def by (simp add: less_mult_imp_div_less)
  then show "uint (expF32UI a) \<le> 0xFF" unfolding uint_nat by linarith
qed simp

lemma uint_0xFF32: "uint x = 0xFF \<longleftrightarrow> x = (0xFF :: u32)"
  by (simp add: word_uint_eq_iff)

lemma add_order32:
  assumes e: "uint (expF32UI a) < uint (expF32UI b)" and b: "expF32UI b \<noteq> 0xFF"
    and z: "unat z = 2 ^ 29 + unat (push_bit 6 (fracF32UI b)) + jam (unat (aligned32 a)) (nat (uint (expF32UI b) - uint (expF32UI a)))"
  shows "rounds32 mode sn (\<bar>real_of_int (fval32 a)\<bar> + \<bar>real_of_int (fval32 b)\<bar>)
    (if z < 0x40000000 then roundPackToF32 mode sn (uint (expF32UI b) - 1) (push_bit 1 z) else roundPackToF32 mode sn (uint (expF32UI b)) z)"
proof -
  let ?E = "uint (expF32UI b)"
  have "?E \<noteq> 0xFF" using b by (simp add: uint_0xFF32)
  then have E: "1 \<le> ?E" "?E \<le> 0xFE" using e exp32_range [of a] exp32_range [of b] by linarith+
  have n0: "expF32UI b \<noteq> 0" using E by auto
  note abs_fval32_normal [OF n0]
  moreover have "\<bar>real_of_int (fval32 a)\<bar> = real (unat (aligned32 a)) * 2 powi (?E - int (nat (?E - uint (expF32UI a))) - 7)"
    using e aligned32_value(2) [of a] by (simp del: of_nat_unat)
  ultimately show ?thesis
    using sum_rounds32 [OF z [unfolded unat_frac_shift_32] frac32_less aligned32_value(1) _ E] e by (simp add: add.commute)
qed

lemma exp_eq_iff32: "uint (expF32UI a) - uint (expF32UI b) = 0 \<longleftrightarrow> expF32UI a = expF32UI b"
  by (simp add: word_uint_eq_iff)

lemma sign_mag_unique32: "unat x = (if s then 2 ^ 31 else 0) + m \<Longrightarrow> m < 2 ^ 31 \<Longrightarrow> signF32UI x = s \<and> mag32 x = m"
  by (cases s) (simp_all add: sign32 mag32_def)

lemma sum_subnormal32:
  assumes a: "expF32UI a = 0" and b: "expF32UI b = 0"
  shows "signF32UI (a + fracF32UI b) = signF32UI a" "mag32 (a + fracF32UI b) = mag32 a + mag32 b"
    "real (fmag 23 (mag32 a + mag32 b)) = \<bar>real_of_int (fval32 a)\<bar> + \<bar>real_of_int (fval32 b)\<bar>"
    "mag32 a + mag32 b < 2 ^ 24"
proof -
  have m: "mag32 a = unat (fracF32UI a)" "mag32 b = unat (fracF32UI b)" using mag32_fields [of a] mag32_fields [of b] a b by simp_all
  note f = frac32_less [of a] frac32_less [of b]
  have "unat (a + fracF32UI b) = (if signF32UI a then 2 ^ 31 else 0) + (mag32 a + mag32 b)"
    using unat_mag32 [of a] f m by (cases "signF32UI a") (simp_all add: unat_word_ariths(1))
  from sign_mag_unique32 [OF this]
  show "signF32UI (a + fracF32UI b) = signF32UI a" "mag32 (a + fracF32UI b) = mag32 a + mag32 b"
    using f m by simp_all
  have "mag32 a + mag32 b \<le> 2 ^ Suc 23" using f m by simp
  then have "fmag 23 (mag32 a + mag32 b) = mag32 a + mag32 b"
    using fmag_normal [of 23 "mag32 a + mag32 b" 0] by (cases "2 ^ 23 \<le> mag32 a + mag32 b") (simp_all add: fmag_small)
  then show "real (fmag 23 (mag32 a + mag32 b)) = \<bar>real_of_int (fval32 a)\<bar> + \<bar>real_of_int (fval32 b)\<bar>"
    unfolding abs_fval32 msig32_def using a b m by simp
  show "mag32 a + mag32 b < 2 ^ 24" using f m by simp
qed

lemma sum_equal32:
  assumes "expF32UI a = expF32UI b" "expF32UI a \<noteq> 0" "expF32UI a \<noteq> 0xFF"
  shows "rounds32 mode sn (\<bar>real_of_int (fval32 a)\<bar> + \<bar>real_of_int (fval32 b)\<bar>)
    (roundPackToF32 mode sn (uint (expF32UI a)) (push_bit 6 (0x01000000 + fracF32UI a + fracF32UI b)))"
proof -
  let ?s = "2 ^ 24 + unat (fracF32UI a) + unat (fracF32UI b)"
  note f = frac32_less [of a] frac32_less [of b]
  have "unat (0x01000000 + fracF32UI a + fracF32UI b) = ?s" using f by (simp add: unat_word_ariths(1))
  then have u: "unat (push_bit 6 (0x01000000 + fracF32UI a + fracF32UI b)) = ?s * 2 ^ 6"
    using f by (subst unat_push32) simp_all
  have "scaled 23 6 (?s * 2 ^ 6) (real (?s * 2 ^ 6))" unfolding scaled_def using f by (intro conjI agrees_exact) simp_all
  then have s: "scaled 23 6 (unat (push_bit 6 (0x01000000 + fracF32UI a + fracF32UI b))) (real (?s * 2 ^ 6))" unfolding u .
  have "\<bar>real_of_int (fval32 a)\<bar> + \<bar>real_of_int (fval32 b)\<bar> = real ?s * (2 powi 6 * 2 powi (uint (expF32UI a) - 7))"
    unfolding powi_sum using assms by (simp add: abs_fval32_normal algebra_simps del: of_nat_unat)
  then have "\<bar>real_of_int (fval32 a)\<bar> + \<bar>real_of_int (fval32 b)\<bar> = real (?s * 2 ^ 6) * 2 powi (uint (expF32UI a) - 7)"
    by (simp del: of_nat_unat)
  from roundPackToF32_rounds [OF s _ _ this] show ?thesis using exp32_range [of a] by simp
qed

lemma sum_even32:
  assumes "expF32UI a = expF32UI b" "expF32UI a \<noteq> 0" "(0x01000000 + fracF32UI a + fracF32UI b) AND 1 = 0" "uint (expF32UI a) < 0xFE"
  shows "rounds32 mode sn (\<bar>real_of_int (fval32 a)\<bar> + \<bar>real_of_int (fval32 b)\<bar>)
    (packToF32UI sn (word_of_int (uint (expF32UI a))) (drop_bit 1 (0x01000000 + fracF32UI a + fracF32UI b)), 0)"
proof -
  let ?z = "0x01000000 + fracF32UI a + fracF32UI b" and ?E = "unat (expF32UI a)"
  let ?Z = "2 ^ 24 + unat (fracF32UI a) + unat (fracF32UI b)"
  note f = frac32_less [of a] frac32_less [of b]
  have u: "unat ?z = ?Z" using f by (simp add: unat_word_ariths(1))
  have "even ?Z" using assms(3) unfolding u [symmetric] and_one_eq by (simp add: word_unat_eq_iff unat_mod even_iff_mod_2_eq_zero)
  then obtain M where M: "?Z = 2 * M" by (rule evenE)
  have b: "2 ^ 23 \<le> M" "M < 2 ^ 24" using M f by simp_all
  have d: "unat (drop_bit 1 ?z) = M" unfolding unat_drop u M by simp
  have w: "(word_of_int (uint (expF32UI a)) :: u32) = expF32UI a" by simp
  have "?E \<le> 0xFD" using assms(4) unfolding uint_nat by linarith
  then have "?E * 2 ^ 23 \<le> 0xFD * 2 ^ 23" by (rule mult_le_mono1)
  then have lt: "?E * 2 ^ 23 + M < (254 + 1) * 2 ^ 23" using b by simp
  have p: "unat (word_of_int (uint (expF32UI a)) :: u32) * 2 ^ 23 + unat (drop_bit 1 ?z) < 2 ^ 31" unfolding w d using lt by simp
  have pos: "0 < ?E" using assms(2) by (simp add: unat_gt_0)
  have "expF32UI b \<noteq> 0" using assms(1,2) by simp
  have "\<bar>real_of_int (fval32 a)\<bar> + \<bar>real_of_int (fval32 b)\<bar> = real ?Z * 2 ^ (?E - 1)"
    using assms(1,2) by (simp add: abs_fval32 msig32_def algebra_simps del: of_nat_unat)
  also have "\<dots> = real (M * 2 ^ ?E)" unfolding M using pos by (cases ?E) simp_all
  also have "M * 2 ^ ?E = fmag 23 (?E * 2 ^ 23 + M)" using b by (intro fmag_normal [symmetric]) simp_all
  finally show ?thesis
    using rounds_mag_exact [OF _ lt, of mode sn] b pack32_value [OF p, of sn] unfolding rounds32_def fst_conv snd_conv w d by simp
qed

lemma jam_small32:
  assumes "0 < d"
  shows "unat (shiftRightJam32 (aligned32 a) d) = jam (unat (aligned32 a)) d" "jam (unat (aligned32 a)) d \<le> 2 ^ 29"
  using shiftRightJam32_jam [OF assms, of "aligned32 a"] jam_le [OF assms, of "unat (aligned32 a)"] aligned32_value(1) [of a] by simp_all

lemma addMagsF32_finite:
  assumes a: "expF32UI a \<noteq> 0xFF" and b: "expF32UI b \<noteq> 0xFF" and nz: "mag32 a \<noteq> 0 \<or> mag32 b \<noteq> 0" and sn: "sn = signF32UI a"
  shows "rounds32 mode sn (\<bar>real_of_int (fval32 a)\<bar> + \<bar>real_of_int (fval32 b)\<bar>) (addMagsF32 mode a b)"
proof -
  let ?ea = "uint (expF32UI a)" and ?eb = "uint (expF32UI b)"
  let ?y = "\<bar>real_of_int (fval32 a)\<bar> + \<bar>real_of_int (fval32 b)\<bar>"
  have ea: "?ea \<noteq> 0xFF" and eb: "?eb \<noteq> 0xFF" using a b by (simp_all add: uint_0xFF32)
  consider (zero) "expF32UI a = 0" "expF32UI b = 0" | (equal) "expF32UI a = expF32UI b" "expF32UI a \<noteq> 0" | (less) "?ea < ?eb" | (greater) "?eb < ?ea"
    by (metis linorder_neqE word_uint_eq_iff)
  then show ?thesis
  proof cases
    case zero
    note s = sum_subnormal32 [OF zero]
    have "addMagsF32 mode a b = (a + fracF32UI b, 0)" using zero by (simp add: addMagsF32_def sn Let_def)
    then show ?thesis
      using rounds_mag_exact [of "mag32 a + mag32 b" 254 23 mode sn] s nz unfolding rounds32_def sn by simp
  next
    case equal
    let ?z = "0x01000000 + fracF32UI a + fracF32UI b"
    have "addMagsF32 mode a b = (if ?z AND 1 = 0 \<and> ?ea < 0xFE then (packToF32UI sn (word_of_int ?ea) (drop_bit 1 ?z), 0)
        else roundPackToF32 mode sn ?ea (push_bit 6 ?z))"
      using equal ea by (simp add: addMagsF32_def Let_def uint_0_iff sn)
    then show ?thesis using sum_equal32 [OF equal a, of mode sn] sum_even32 [OF equal, of mode sn] by (simp only: split: if_split) blast
  next
    case less
    define z where "z = 0x20000000 + shiftRightJam32 (aligned32 a) (nat (- (?ea - ?eb))) + push_bit 6 (fracF32UI b)"
    have "addMagsF32 mode a b = (if z < 0x40000000 then roundPackToF32 mode sn (?eb - 1) (push_bit 1 z) else roundPackToF32 mode sn ?eb z)"
      using less eb by (simp add: sn addMagsF32_def Let_def aligned32_def z_def)
    moreover have "unat z = 2 ^ 29 + unat (push_bit 6 (fracF32UI b)) + jam (unat (aligned32 a)) (nat (?eb - ?ea))"
      using jam_small32 [of "nat (?eb - ?ea)" a] less frac32_less [of b] unat_frac_shift_32 [of b]
      by (simp add: z_def unat_word_ariths(1))
    ultimately show ?thesis using add_order32 [OF less b] by simp
  next
    case greater
    define z where "z = 0x20000000 + push_bit 6 (fracF32UI a) + shiftRightJam32 (aligned32 b) (nat (?ea - ?eb))"
    have "addMagsF32 mode a b = (if z < 0x40000000 then roundPackToF32 mode sn (?ea - 1) (push_bit 1 z) else roundPackToF32 mode sn ?ea z)"
      using greater ea by (simp add: sn addMagsF32_def Let_def aligned32_def z_def)
    moreover have "unat z = 2 ^ 29 + unat (push_bit 6 (fracF32UI a)) + jam (unat (aligned32 b)) (nat (?ea - ?eb))"
      using jam_small32 [of "nat (?ea - ?eb)" b] greater frac32_less [of a] unat_frac_shift_32 [of a]
      by (simp add: z_def unat_word_ariths(1))
    ultimately show ?thesis using add_order32 [OF greater a] by (simp add: add.commute)
  qed
qed

section \<open>Subtraction of magnitudes\<close>

lemma diff_rounds32:
  assumes z: "unat z = X - jam N d" and X: "X = (2 ^ 23 + f) * 2 ^ 7" and f: "f < 2 ^ 23"
    and N: "N \<le> 2 ^ 31 - 2 ^ 7" "even N" and d: "0 < d" and E: "1 \<le> E" "E \<le> 0xFE"
    and y: "y = (2 ^ 23 + real f) * 2 powi (E - 1) - real N * 2 powi (E - int d - 8)"
  shows "rounds32 mode sn y (normRoundPackToF32 mode sn (E - 1) z)"
proof -
  define t where "t = real X - real N / 2 ^ d"
  have J: "jam N d < X" using jam_le [OF d, of N] N(1) X by simp
  have X63: "X < 2 ^ 31" using f X by simp
  then have zb: "0 < unat z" "unat z < 2 ^ 31" using J z by simp_all
  have a: "agrees (2 ^ (6 - (clz8 32 (unat z) - 1))) (unat z) t"
  proof (cases "d = 1")
    case True
    then have n: "jam N d * 2 = N" using jam_1 [OF N(2)] by simp
    have "real (jam N d * 2) = real N" by (simp only: n)
    then have "real N / 2 ^ d = real (jam N d)" using True by simp
    then have "t = real (unat z)" unfolding t_def z using J by simp
    then show ?thesis by (simp only: agrees_exact)
  next
    case False
    have g: "agrees (2 ^ 5) (unat z) t"
      unfolding z t_def by (rule agrees_diff [OF agrees_jam_exact]) (use J X in simp_all)
    have "real N / 2 ^ d \<le> 2 ^ 29"
    proof -
      have "real N \<le> real (2 ^ 31)" unfolding of_nat_le_iff using N(1) by simp
      then have "real N / 2 ^ d \<le> 2 ^ 31 / 2 ^ d" by (simp add: divide_right_mono)
      also have "(2 :: real) ^ 31 / 2 ^ d \<le> 2 ^ 31 / 2 ^ 2" using d False by (intro divide_left_mono power_increasing) simp_all
      finally show ?thesis by simp
    qed
    moreover have "real (2 ^ 30) \<le> real X" unfolding of_nat_le_iff X by simp
    ultimately have "2 ^ 29 \<le> t" unfolding t_def by simp
    then have "2 ^ 29 \<le> unat z" using agreesD(3) [OF g, of "2 ^ 24"] by simp
    then have "clz8 32 (unat z) - 1 \<le> 1"
      using leading_zeros_large [of 32 "unat z"] leading_zeros(3) [of "unat z" 32] zb by simp
    then have "(2 :: nat) ^ 5 dvd 2 ^ (6 - (clz8 32 (unat z) - 1))" by (intro le_imp_power_dvd) simp
    then show ?thesis by (rule agrees_dvd [OF g])
  qed
  have "y = t * 2 powi (E - 1 - 7)"
  proof -
    have "real X * 2 powi (E - 1 - 7) = (2 ^ 23 + real f) * (2 powi 7 * 2 powi (E - 1 - 7))" by (simp add: X)
    also have "\<dots> = (2 ^ 23 + real f) * 2 powi (E - 1)" unfolding powi_sum by simp
    finally have 1: "real X * 2 powi (E - 1 - 7) = (2 ^ 23 + real f) * 2 powi (E - 1)" .
    have "real N / 2 ^ d * 2 powi (E - 1 - 7) = real N * (2 powi (E - 1 - 7) / 2 powi int d)" by simp
    also have "\<dots> = real N * 2 powi (E - int d - 8)" unfolding powi_sum(2) by (simp add: algebra_simps)
    finally show ?thesis using 1 unfolding y t_def by (simp only: left_diff_distrib)
  qed
  from normRoundPackToF32_rounds [OF zb a _ _ this] show ?thesis using E by simp
qed

definition subaligned32 :: "u32 \<Rightarrow> u32" where
  "subaligned32 a = push_bit 7 (fracF32UI a) + (if uint (expF32UI a) \<noteq> 0 then 0x40000000 else push_bit 7 (fracF32UI a))"

lemma unat_frac_shift7_32: "unat (push_bit 7 (fracF32UI a)) = unat (fracF32UI a) * 2 ^ 7"
  by (rule unat_push32) (use frac32_less [of a] in simp)

lemma subaligned32_value:
  "unat (subaligned32 a) \<le> 2 ^ 31 - 2 ^ 7" "even (unat (subaligned32 a))"
  "real (unat (subaligned32 a)) * 2 powi (uint (expF32UI a) - 8) = \<bar>real_of_int (fval32 a)\<bar>"
proof -
  let ?f = "unat (fracF32UI a)" and ?e = "unat (expF32UI a)"
  have u: "unat (subaligned32 a) = (if ?e \<noteq> 0 then ?f * 2 ^ 7 + 2 ^ 30 else ?f * 2 ^ 8)"
    using frac32_less [of a] unat_frac_shift7_32 [of a] by (simp add: subaligned32_def unat_eq_zero uint_0_iff unat_word_ariths(1))
  show "unat (subaligned32 a) \<le> 2 ^ 31 - 2 ^ 7" using frac32_less [of a] unfolding u by simp
  show "even (unat (subaligned32 a))" unfolding u by simp
  show "real (unat (subaligned32 a)) * 2 powi (uint (expF32UI a) - 8) = \<bar>real_of_int (fval32 a)\<bar>"
  proof (cases "?e = 0")
    case True
    then have "expF32UI a = 0" by (simp add: unat_eq_zero)
    then show ?thesis unfolding u abs_fval32 msig32_def by (simp add: power_int_minus field_simps del: of_nat_unat)
  next
    case False
    then have e: "expF32UI a \<noteq> 0" by (auto simp: unat_eq_zero)
    have "real (unat (subaligned32 a)) * 2 powi (uint (expF32UI a) - 8) = (real ?f + 2 ^ 23) * (2 powi 7 * 2 powi (uint (expF32UI a) - 8))"
      using False unfolding u by (simp add: algebra_simps del: of_nat_unat)
    also have "\<dots> = (real ?f + 2 ^ 23) * 2 powi (uint (expF32UI a) - 1)" unfolding powi_sum by simp
    finally show ?thesis unfolding abs_fval32_normal [OF e] by (simp add: add.commute)
  qed
qed

lemma sub_order32:
  assumes e: "uint (expF32UI a) < uint (expF32UI b)" and b: "expF32UI b \<noteq> 0xFF"
  shows "rounds32 mode sn (\<bar>real_of_int (fval32 b)\<bar> - \<bar>real_of_int (fval32 a)\<bar>)
    (normRoundPackToF32 mode sn (uint (expF32UI b) - 1)
      ((push_bit 7 (fracF32UI b) OR 0x40000000) - shiftRightJam32 (subaligned32 a) (nat (uint (expF32UI b) - uint (expF32UI a)))))"
proof -
  let ?E = "uint (expF32UI b)"
  let ?d = "nat (?E - uint (expF32UI a))"
  let ?X = "(2 ^ 23 + unat (fracF32UI b)) * 2 ^ 7"
  have d: "0 < ?d" using e by simp
  have "?E \<noteq> 0xFF" using b by (simp add: uint_0xFF32)
  then have E: "1 \<le> ?E" "?E \<le> 0xFE" using e exp32_range [of a] exp32_range [of b] by linarith+
  have n0: "expF32UI b \<noteq> 0" using E by auto
  have f: "unat (push_bit 7 (fracF32UI b)) < 2 ^ 30" using frac32_less [of b] unfolding unat_frac_shift7_32 by simp
  have "(0x40000000 :: u32) = push_bit 30 1" by simp
  then have X: "unat (push_bit 7 (fracF32UI b) OR 0x40000000) = ?X"
    using or_bit_small [OF f] by (simp add: unat_frac_shift7_32)
  note j = shiftRightJam32_jam [OF d, of "subaligned32 a"]
  have le: "jam (unat (subaligned32 a)) ?d \<le> ?X"
    using jam_le [OF d, of "unat (subaligned32 a)"] subaligned32_value(1) [of a] by simp
  have z: "unat ((push_bit 7 (fracF32UI b) OR 0x40000000) - shiftRightJam32 (subaligned32 a) ?d) = ?X - jam (unat (subaligned32 a)) ?d"
    unfolding X [symmetric] j [symmetric] by (rule unat_sub) (simp only: word_le_nat_alt X j le)
  have y: "\<bar>real_of_int (fval32 b)\<bar> - \<bar>real_of_int (fval32 a)\<bar> =
      (2 ^ 23 + real (unat (fracF32UI b))) * 2 powi (?E - 1) - real (unat (subaligned32 a)) * 2 powi (?E - int ?d - 8)"
    using e subaligned32_value(3) [of a] by (simp add: abs_fval32_normal [OF n0] del: of_nat_unat)
  show ?thesis by (rule diff_rounds32 [OF z refl frac32_less subaligned32_value(1,2) d E y])
qed

lemma exp_order32: "uint (expF32UI a) < uint (expF32UI b) \<Longrightarrow> \<bar>real_of_int (fval32 a)\<bar> < \<bar>real_of_int (fval32 b)\<bar>"
proof -
  assume "uint (expF32UI a) < uint (expF32UI b)"
  then have "unat (expF32UI a) < unat (expF32UI b)" by (simp add: word_less_def flip: word_less_nat_alt)
  then have "(unat (expF32UI a) + 1) * 2 ^ 23 \<le> unat (expF32UI b) * 2 ^ 23" by (intro mult_le_mono1) simp
  then have "mag32 a < mag32 b" using frac32_less [of a] unfolding mag32_fields by simp
  then have "fmag 23 (mag32 a) < fmag 23 (mag32 b)" by (simp only: fmag_less_iff)
  then show ?thesis by (simp add: fval32_mag abs_mult)
qed

lemma sint_neg32: "sint x < 0 \<longleftrightarrow> 2 ^ 31 \<le> unat x" for x :: u32
proof -
  have "sint x < 0 \<longleftrightarrow> bit x 31" using bit_last_iff [of x] by simp
  also have "\<dots> \<longleftrightarrow> drop_bit 31 x \<noteq> 0"
  proof -
    have "unat (drop_bit 31 x) < 2" using unat_u32_lt [of x] by (simp add: unat_drop less_mult_imp_div_less)
    then have "unat (drop_bit 31 x) = 0 \<or> unat (drop_bit 31 x) = 1" by linarith
    then have "drop_bit 31 x = 0 \<or> drop_bit 31 x = 1" by (simp add: word_unat_eq_iff)
    then show ?thesis by (auto simp: bit_iff_odd_drop_bit)
  qed
  also have "\<dots> \<longleftrightarrow> 2 ^ 31 \<le> unat x" unfolding sign32 [symmetric] signF32UI_def ..
  finally show ?thesis .
qed

text \<open>Two numbers of the same exponent: the difference is exact.\<close>

lemma pack_difference32:
  fixes D :: nat
  assumes D: "0 < D" "D < 2 ^ 23" and e: "e < 0xFE" and w: "unat w = D"
  defines "k \<equiv> int (countLeadingZeros32 w) - 8"
  defines "s \<equiv> if int e - k < 0 then int e else k" and "x \<equiv> if int e - k < 0 then 0 else int e - k"
  shows "rounds32 mode sn (real D * 2 ^ e) (packToF32UI sn (word_of_int x) (push_bit (nat s) w), 0)"
proof -
  define d where "d = clz8 32 D - 8"
  have n: "23 + 0 < (32 :: nat)" "32 - 1 - 23 < clz8 32 D" "2 ^ 23 \<le> D * 2 ^ d" "D * 2 ^ d < 2 ^ Suc 23"
    using normalise [OF D, of 32] by (simp_all add: d_def)
  have k: "k = int d" using n(2) by (simp add: k_def clz32_nat w d_def)
  define h where "h = nat s"
  have h: "h \<le> d" "h + nat x = e" "0 \<le> x" "h = d \<or> x = 0" by (auto simp: h_def s_def x_def k)
  have "D * 2 ^ h \<le> D * 2 ^ d" using h(1) by (intro mult_le_mono2 power_increasing) simp_all
  from le_less_trans [OF this n(4)] have lt: "D * 2 ^ h < 2 ^ 24" by simp
  have u: "unat (push_bit (nat s) w) = D * 2 ^ h" unfolding h_def [symmetric] w [symmetric] by (rule unat_push32) (use lt w in simp)
  have xe: "nat x < 0xFE" using h(2) e by linarith
  have X: "unat (word_of_int x :: u32) = nat x" using h(3) xe by (intro unat_word_of_int_u32) simp_all
  have "nat x * 2 ^ 23 \<le> 0xFD * 2 ^ 23" using xe by (intro mult_le_mono1) simp
  then have b: "nat x * 2 ^ 23 + D * 2 ^ h < (254 + 1) * 2 ^ 23" using lt by simp
  have "fmag 23 (nat x * 2 ^ 23 + D * 2 ^ h) = D * 2 ^ h * 2 ^ nat x"
  proof (cases "2 ^ 23 \<le> D * 2 ^ h")
    case True
    then show ?thesis using lt by (intro fmag_normal) simp_all
  next
    case False
    then have "x = 0" using h(4) n(3) by auto
    then show ?thesis using False by (simp add: fmag_small)
  qed
  also have "\<dots> = D * 2 ^ e" using h(2) by (metis mult.assoc power_add)
  finally have "real (fmag 23 (nat x * 2 ^ 23 + D * 2 ^ h)) = real D * 2 ^ e" by simp
  moreover have "0 < nat x * 2 ^ 23 + D * 2 ^ h" using D(1) by simp
  ultimately show ?thesis
    using rounds_mag_exact [OF _ b, of mode sn] pack32_value(1,2) [of "word_of_int x" "push_bit (nat s) w" sn] b
    unfolding rounds32_def fst_conv snd_conv X u by simp
qed

lemma subMagsF32_equal:
  assumes e: "expF32UI a = expF32UI b" and fin: "expF32UI a \<noteq> 0xFF" and sn: "sn = signF32UI a"
  shows "if \<bar>fval32 a\<bar> = \<bar>fval32 b\<bar> then subMagsF32 mode a b = zeroF32 (mode = round_min)
    else rounds32 mode (sn = (\<bar>fval32 b\<bar> < \<bar>fval32 a\<bar>)) \<bar>\<bar>real_of_int (fval32 a)\<bar> - \<bar>real_of_int (fval32 b)\<bar>\<bar> (subMagsF32 mode a b)"
proof -
  let ?fa = "unat (fracF32UI a)" and ?fb = "unat (fracF32UI b)" and ?w = "fracF32UI a - fracF32UI b"
  let ?e = "unat (expF32UI a) - 1"
  note f = frac32_less [of a] frac32_less [of b]
  have v: "\<bar>real_of_int (fval32 a)\<bar> = real (msig32 a) * 2 ^ ?e" "\<bar>real_of_int (fval32 b)\<bar> = real (msig32 b) * 2 ^ ?e"
    using e by (simp_all only: abs_fval32)
  have i: "\<bar>fval32 a\<bar> = int (msig32 a * 2 ^ ?e)" "\<bar>fval32 b\<bar> = int (msig32 b * 2 ^ ?e)"
  proof -
    have "real_of_int \<bar>fval32 a\<bar> = real_of_int (int (msig32 a * 2 ^ ?e))" "real_of_int \<bar>fval32 b\<bar> = real_of_int (int (msig32 b * 2 ^ ?e))"
      using v by simp_all
    then show "\<bar>fval32 a\<bar> = int (msig32 a * 2 ^ ?e)" "\<bar>fval32 b\<bar> = int (msig32 b * 2 ^ ?e)" by (simp_all only: of_int_eq_iff)
  qed
  have o: "\<bar>fval32 a\<bar> = \<bar>fval32 b\<bar> \<longleftrightarrow> ?fa = ?fb" "\<bar>fval32 b\<bar> < \<bar>fval32 a\<bar> \<longleftrightarrow> ?fb < ?fa"
    unfolding i of_nat_eq_iff of_nat_less_iff using e by (simp_all add: msig32_def)
  have ie: "(if uint (expF32UI a) \<noteq> 0 then uint (expF32UI a) - 1 else uint (expF32UI a)) = int ?e"
    by (cases "unat (expF32UI a)") (simp_all add: uint_nat del: of_nat_unat)
  have eb: "?e < 0xFE" using exp32_range [of a] fin by (simp add: uint_nat uint_0xFF32 [symmetric] del: of_nat_unat)
  show ?thesis
  proof (cases "?fa = ?fb")
    case True
    then have "fracF32UI a = fracF32UI b" by (simp only: word_unat_eq_iff)
    then have "?w = 0" by simp
    then show ?thesis using True fin e unfolding o by (simp add: sn subMagsF32_def Let_def uint_0xFF32)
  next
    case False
    then have w0: "?w \<noteq> 0" by auto
    have neg: "sint ?w < 0 \<longleftrightarrow> ?fa < ?fb"
      unfolding sint_neg32 using f by (auto simp: unat_sub_if')
    define w where "w = (if ?fa < ?fb then - ?w else ?w)"
    define D where "D = (if ?fa < ?fb then ?fb - ?fa else ?fa - ?fb)"
    have wD: "unat w = D"
      unfolding w_def D_def using f unat_sub_if' [of "fracF32UI b" "fracF32UI a"] unat_sub_if' [of "fracF32UI a" "fracF32UI b"] by auto
    have D: "0 < D" "D < 2 ^ 23" using False f unfolding D_def by auto
    have y: "\<bar>\<bar>real_of_int (fval32 a)\<bar> - \<bar>real_of_int (fval32 b)\<bar>\<bar> = real D * 2 ^ ?e"
      unfolding v left_diff_distrib [symmetric] abs_mult using e by (simp add: msig32_def D_def of_nat_diff del: of_nat_unat)
    have s: "(sn = (\<bar>fval32 b\<bar> < \<bar>fval32 a\<bar>)) = (if ?fa < ?fb then \<not> sn else sn)" unfolding o using False by auto
    have z: "uint (expF32UI a) - uint (expF32UI b) = 0" "uint (expF32UI a) \<noteq> 0xFF" using e fin by (simp_all add: uint_0xFF32)
    let ?k = "int (countLeadingZeros32 w) - 8"
    have "subMagsF32 mode a b = (packToF32UI (if ?fa < ?fb then \<not> sn else sn) (word_of_int (if int ?e - ?k < 0 then 0 else int ?e - ?k))
        (push_bit (nat (if int ?e - ?k < 0 then int ?e else ?k)) w), 0)"
      unfolding sn subMagsF32_def Let_def ie neg w_def using z w0
      by (cases "?fa < ?fb"; cases "int ?e - ?k < 0") (simp_all only: if_True if_False prod.case simp_thms w_def)
    then show ?thesis
      using False pack_difference32 [OF D eb wD, of mode "if ?fa < ?fb then \<not> sn else sn"] unfolding y s unfolding o by (simp only: if_False)
  qed
qed

lemma subMagsF32_finite:
  assumes a: "expF32UI a \<noteq> 0xFF" and b: "expF32UI b \<noteq> 0xFF" and sn: "sn = signF32UI a"
  shows "if \<bar>fval32 a\<bar> = \<bar>fval32 b\<bar> then subMagsF32 mode a b = zeroF32 (mode = round_min)
    else rounds32 mode (sn = (\<bar>fval32 b\<bar> < \<bar>fval32 a\<bar>)) \<bar>\<bar>real_of_int (fval32 a)\<bar> - \<bar>real_of_int (fval32 b)\<bar>\<bar> (subMagsF32 mode a b)"
proof -
  let ?ea = "uint (expF32UI a)" and ?eb = "uint (expF32UI b)"
  have ea: "?ea \<noteq> 0xFF" and eb: "?eb \<noteq> 0xFF" using a b by (simp_all add: uint_0xFF32)
  consider (equal) "expF32UI a = expF32UI b" | (less) "?ea < ?eb" | (greater) "?eb < ?ea"
    by (metis linorder_neqE word_uint_eq_iff)
  then show ?thesis
  proof cases
    case equal
    then show ?thesis using a sn by (rule subMagsF32_equal)
  next
    case less
    have "subMagsF32 mode a b = normRoundPackToF32 mode (\<not> sn) (?eb - 1)
        ((push_bit 7 (fracF32UI b) OR 0x40000000) - shiftRightJam32 (subaligned32 a) (nat (?eb - ?ea)))"
      using less eb by (simp add: sn subMagsF32_def Let_def subaligned32_def)
    then show ?thesis using sub_order32 [OF less b, of mode "\<not> sn"] abs_diff [OF exp_order32 [OF less]] by simp
  next
    case greater
    have "subMagsF32 mode a b = normRoundPackToF32 mode sn (?ea - 1)
        ((push_bit 7 (fracF32UI a) OR 0x40000000) - shiftRightJam32 (subaligned32 b) (nat (?ea - ?eb)))"
      using greater ea by (simp add: sn subMagsF32_def Let_def subaligned32_def)
    then show ?thesis using sub_order32 [OF greater a, of mode sn] abs_diff [OF exp_order32 [OF greater]] by simp
  qed
qed

section \<open>Infinities and NaNs\<close>

lemma shift_frac32: "push_bit 6 (fracF32UI a) = 0 \<longleftrightarrow> fracF32UI a = 0" "push_bit 7 (fracF32UI a) = 0 \<longleftrightarrow> fracF32UI a = 0"
  using unat_frac_shift_32 [of a] unat_frac_shift7_32 [of a] by (simp_all add: unat_eq_zero [symmetric])

lemma exp_less_max32: "uint (expF32UI a) < uint (expF32UI b) \<Longrightarrow> expF32UI a \<noteq> 0xFF"
  using exp32_range(2) [of b] by (auto simp: uint_0xFF32 [symmetric])

lemma addMagsF32_special:
  assumes sn: "sn = signF32UI a" and "expF32UI a = 0xFF \<or> expF32UI b = 0xFF"
  shows "addMagsF32 mode a b =
    (if isNaNF32UI a \<or> isNaNF32UI b then propagateNaNF32UI a b else (if isInfF32UI a then a else packToF32UI sn 0xFF 0, 0))"
proof -
  consider (equal) "expF32UI a = expF32UI b" | (less) "uint (expF32UI a) < uint (expF32UI b)" | (greater) "uint (expF32UI b) < uint (expF32UI a)"
    by (metis linorder_neqE word_uint_eq_iff)
  then show ?thesis
  proof cases
    case equal
    then show ?thesis using assms by (auto simp: addMagsF32_def class32 Let_def or_zero)
  next
    case less
    note n = exp_less_max32 [OF less]
    then have "expF32UI b = 0xFF" using assms by simp
    then show ?thesis using less n by (simp add: sn addMagsF32_def class32 Let_def shift_frac32)
  next
    case greater
    note n = exp_less_max32 [OF greater]
    then have "expF32UI a = 0xFF" using assms by simp
    then show ?thesis using greater n by (simp add: sn addMagsF32_def class32 Let_def shift_frac32)
  qed
qed

lemma subMagsF32_special:
  assumes sn: "sn = signF32UI a" and "expF32UI a = 0xFF \<or> expF32UI b = 0xFF"
  shows "subMagsF32 mode a b =
    (if isNaNF32UI a \<or> isNaNF32UI b then propagateNaNF32UI a b
     else if isInfF32UI a \<and> isInfF32UI b then invalidF32
     else (if isInfF32UI a then a else packToF32UI (\<not> sn) 0xFF 0, 0))"
proof -
  consider (equal) "expF32UI a = expF32UI b" | (less) "uint (expF32UI a) < uint (expF32UI b)" | (greater) "uint (expF32UI b) < uint (expF32UI a)"
    by (metis linorder_neqE word_uint_eq_iff)
  then show ?thesis
  proof cases
    case equal
    then show ?thesis using assms by (auto simp: subMagsF32_def class32 Let_def or_zero)
  next
    case less
    note n = exp_less_max32 [OF less]
    then have "expF32UI b = 0xFF" using assms by simp
    then show ?thesis using less n by (simp add: sn subMagsF32_def class32 Let_def shift_frac32)
  next
    case greater
    note n = exp_less_max32 [OF greater]
    then have "expF32UI a = 0xFF" using assms by simp
    then show ?thesis using greater n by (simp add: sn subMagsF32_def class32 Let_def shift_frac32)
  qed
qed

lemma eq_pack32:
  "isInfF32UI a \<Longrightarrow> packToF32UI (signF32UI a) 0xFF 0 = a" "mag32 a = 0 \<Longrightarrow> packToF32UI (signF32UI a) 0 0 = a"
proof -
  have "x = a" if "signF32UI x = signF32UI a" "mag32 x = mag32 a" for x
    using that order32(2) [of x a] by simp
  then show "isInfF32UI a \<Longrightarrow> packToF32UI (signF32UI a) 0xFF 0 = a" "mag32 a = 0 \<Longrightarrow> packToF32UI (signF32UI a) 0 0 = a"
    using pack32_value(1,2) [of "0xFF" 0 "signF32UI a"] pack32_value(1,2) [of 0 0 "signF32UI a"]
    by (simp_all add: isInfF32UI_def)
qed

lemma sum_signs32:
  "signF32UI a = signF32UI b \<Longrightarrow> \<bar>fval32 a + fval32 b\<bar> = \<bar>fval32 a\<bar> + \<bar>fval32 b\<bar>"
  "signF32UI a = signF32UI b \<Longrightarrow> fval32 a + fval32 b \<noteq> 0 \<Longrightarrow> fval32 a + fval32 b < 0 \<longleftrightarrow> signF32UI a"
  "signF32UI a \<noteq> signF32UI b \<Longrightarrow> \<bar>fval32 a + fval32 b\<bar> = \<bar>\<bar>fval32 a\<bar> - \<bar>fval32 b\<bar>\<bar>"
  "signF32UI a \<noteq> signF32UI b \<Longrightarrow> fval32 a + fval32 b \<noteq> 0 \<Longrightarrow> fval32 a + fval32 b < 0 \<longleftrightarrow> (signF32UI a = (\<bar>fval32 b\<bar> < \<bar>fval32 a\<bar>))"
  unfolding fval32_mag by (rule sum_signs; assumption)+

lemma sign_xor32: "signF32UI (a XOR b) \<longleftrightarrow> signF32UI a \<noteq> signF32UI b"
proof -
  have s: "signF32UI x \<longleftrightarrow> bit x 31" for x
    using sint_neg32 [of x] bit_last_iff [of x] by (simp add: sign32)
  show ?thesis unfolding s bit_xor_iff by simp
qed

lemma f32_add_finite:
  assumes a: "expF32UI a \<noteq> 0xFF" and b: "expF32UI b \<noteq> 0xFF"
  shows "if fval32 a + fval32 b = 0
    then f32_add mode a b = (packToF32UI (if signF32UI a = signF32UI b then signF32UI a else mode = round_min) 0 0, 0)
    else rounds32 mode (fval32 a + fval32 b < 0) (real_of_int \<bar>fval32 a + fval32 b\<bar>) (f32_add mode a b)"
proof (cases "signF32UI a = signF32UI b")
  case True
  note s = sum_signs32(1,2) [OF True]
  have f: "f32_add mode a b = addMagsF32 mode a b" using True by (simp add: f32_add_def sign_xor32)
  show ?thesis
  proof (cases "fval32 a + fval32 b = 0")
    case zero: True
    then have "fval32 a = 0" "fval32 b = 0" using s(1) by simp_all
    then have m: "mag32 a = 0" "mag32 b = 0" by (simp_all add: class32(3))
    then have "addMagsF32 mode a b = (a, 0)" by (simp add: class32(4) addMagsF32_def Let_def)
    then show ?thesis using zero True m eq_pack32(2) [of a] f by simp
  next
    case False
    then have "mag32 a \<noteq> 0 \<or> mag32 b \<noteq> 0" by (auto simp: class32(3) [symmetric])
    from addMagsF32_finite [OF a b this refl, of mode] show ?thesis using False s(2) [OF False] unfolding f s(1) by simp
  qed
next
  case False
  note s = sum_signs32(3,4) [OF False]
  have f: "f32_add mode a b = subMagsF32 mode a b" using False by (simp add: f32_add_def sign_xor32)
  have z: "fval32 a + fval32 b = 0 \<longleftrightarrow> \<bar>fval32 a\<bar> = \<bar>fval32 b\<bar>" using s(1) by auto
  show ?thesis
    using subMagsF32_finite [OF a b refl, of mode] False s(2) unfolding f s(1) z
    by (simp add: zeroF32_def split: if_splits)
qed

lemma f32_add_special:
  assumes "expF32UI a = 0xFF \<or> expF32UI b = 0xFF"
  shows "f32_add mode a b =
    (if isNaNF32UI a \<or> isNaNF32UI b then (0x7FC00000, if isSigNaNF32UI a \<or> isSigNaNF32UI b then flag_invalid else 0)
     else if isInfF32UI a \<and> isInfF32UI b \<and> signF32UI a \<noteq> signF32UI b then (0x7FC00000, flag_invalid)
     else (if isInfF32UI a then a else b, 0))"
proof -
  have b: "isInfF32UI b" if "\<not> isNaNF32UI a" "\<not> isNaNF32UI b" "\<not> isInfF32UI a"
    using assms that by (auto simp: class32(1,2))
  show ?thesis
  proof (cases "signF32UI a = signF32UI b")
    case True
    then have "f32_add mode a b = addMagsF32 mode a b" by (simp add: f32_add_def sign_xor32)
    then show ?thesis
      using addMagsF32_special [OF refl assms, of mode] b eq_pack32(1) [of b] True by (simp add: propagateNaNF32UI_def defaultNaNF32UI_def)
  next
    case False
    then have "f32_add mode a b = subMagsF32 mode a b" by (simp add: f32_add_def sign_xor32)
    moreover have "(\<not> signF32UI a) = signF32UI b" using False by simp
    ultimately show ?thesis
      using subMagsF32_special [OF refl assms, of mode] b eq_pack32(1) [of b] False
      by (simp add: propagateNaNF32UI_def defaultNaNF32UI_def invalidF32_def)
  qed
qed

end
