(* ===== verification/Softfloat_Add.thy ===== *)
theory Softfloat_Add
  imports Softfloat_AddF64 Softfloat_AddF32
begin

text \<open>
  Addition rounds correctly, in both formats.
\<close>

section \<open>The sum of the standard\<close>

definition ieee_add64 :: "u64 \<Rightarrow> u64 \<Rightarrow> u64 \<Rightarrow> u64 flagged \<Rightarrow> bool" where
  "ieee_add64 mode a b r \<longleftrightarrow>
   (if isNaNF64UI a \<or> isNaNF64UI b
    then r = (0x7FF8000000000000, if isSigNaNF64UI a \<or> isSigNaNF64UI b then flag_invalid else 0)
    else if isInfF64UI a \<or> isInfF64UI b
    then r = (if isInfF64UI a \<and> isInfF64UI b \<and> signF64UI a \<noteq> signF64UI b then (0x7FF8000000000000, flag_invalid)
                             else (if isInfF64UI a then a else b, 0))
    else if fval64 a + fval64 b = 0
    then r = (packToF64UI (if signF64UI a = signF64UI b then signF64UI a else mode = round_min) 0 0, 0)
    else rounds64 mode (fval64 a + fval64 b < 0) (real_of_int \<bar>fval64 a + fval64 b\<bar>) r)"

definition ieee_add32 :: "u64 \<Rightarrow> u32 \<Rightarrow> u32 \<Rightarrow> u32 flagged \<Rightarrow> bool" where
  "ieee_add32 mode a b r \<longleftrightarrow>
   (if isNaNF32UI a \<or> isNaNF32UI b
    then r = (0x7FC00000, if isSigNaNF32UI a \<or> isSigNaNF32UI b then flag_invalid else 0)
    else if isInfF32UI a \<or> isInfF32UI b
    then r = (if isInfF32UI a \<and> isInfF32UI b \<and> signF32UI a \<noteq> signF32UI b then (0x7FC00000, flag_invalid)
                             else (if isInfF32UI a then a else b, 0))
    else if fval32 a + fval32 b = 0
    then r = (packToF32UI (if signF32UI a = signF32UI b then signF32UI a else mode = round_min) 0 0, 0)
    else rounds32 mode (fval32 a + fval32 b < 0) (real_of_int \<bar>fval32 a + fval32 b\<bar>) r)"

lemma f64_add_ieee: "ieee_add64 mode a b (f64_add mode a b)"
proof (cases "expF64UI a = 0x7FF \<or> expF64UI b = 0x7FF")
  case True
  then have "isNaNF64UI a \<or> isNaNF64UI b \<or> isInfF64UI a \<or> isInfF64UI b" by (auto simp: class64(1,2))
  then show ?thesis unfolding ieee_add64_def
    using f64_add_special [OF True, of mode] by (cases "isNaNF64UI a \<or> isNaNF64UI b") simp_all
next
  case False
  then show ?thesis unfolding ieee_add64_def
    using f64_add_finite [of a b mode] by (simp add: class64(1,2) del: of_int_abs)
qed

lemma f32_add_ieee: "ieee_add32 mode a b (f32_add mode a b)"
proof (cases "expF32UI a = 0xFF \<or> expF32UI b = 0xFF")
  case True
  then have "isNaNF32UI a \<or> isNaNF32UI b \<or> isInfF32UI a \<or> isInfF32UI b" by (auto simp: class32(1,2))
  then show ?thesis unfolding ieee_add32_def
    using f32_add_special [OF True, of mode] by (cases "isNaNF32UI a \<or> isNaNF32UI b") simp_all
next
  case False
  then show ?thesis unfolding ieee_add32_def
    using f32_add_finite [of a b mode] by (simp add: class32(1,2) del: of_int_abs)
qed

text \<open>C39. Addition is correctly rounded in both formats and every mode: the exact sum of two finite
  numbers is rounded as IEEE 754 says, with its sign and exactly the flags of underflow, overflow and
  inexactness, whatever the cancellation; an exact zero sum has the common sign of the operands, or the sign that
  the rounding mode asks for; NaN operands give the default NaN and raise the invalid flag if one
  signals; the sum of opposite infinities is invalid and other sums with an infinity are that infinity.\<close>

theorem add_correct:
  "(if isNaNF64UI a \<or> isNaNF64UI b
    then f64_add mode a b = (0x7FF8000000000000, if isSigNaNF64UI a \<or> isSigNaNF64UI b then flag_invalid else 0)
    else if isInfF64UI a \<or> isInfF64UI b
    then f64_add mode a b = (if isInfF64UI a \<and> isInfF64UI b \<and> signF64UI a \<noteq> signF64UI b then (0x7FF8000000000000, flag_invalid)
                             else (if isInfF64UI a then a else b, 0))
    else if fval64 a + fval64 b = 0
    then f64_add mode a b = (packToF64UI (if signF64UI a = signF64UI b then signF64UI a else mode = round_min) 0 0, 0)
    else rounds64 mode (fval64 a + fval64 b < 0) (real_of_int \<bar>fval64 a + fval64 b\<bar>) (f64_add mode a b)) \<and>
   (if isNaNF32UI c \<or> isNaNF32UI d
    then f32_add mode c d = (0x7FC00000, if isSigNaNF32UI c \<or> isSigNaNF32UI d then flag_invalid else 0)
    else if isInfF32UI c \<or> isInfF32UI d
    then f32_add mode c d = (if isInfF32UI c \<and> isInfF32UI d \<and> signF32UI c \<noteq> signF32UI d then (0x7FC00000, flag_invalid)
                             else (if isInfF32UI c then c else d, 0))
    else if fval32 c + fval32 d = 0
    then f32_add mode c d = (packToF32UI (if signF32UI c = signF32UI d then signF32UI c else mode = round_min) 0 0, 0)
    else rounds32 mode (fval32 c + fval32 d < 0) (real_of_int \<bar>fval32 c + fval32 d\<bar>) (f32_add mode c d))"
  unfolding ieee_add64_def [symmetric] ieee_add32_def [symmetric] by (rule conjI [OF f64_add_ieee f32_add_ieee])

end
