(* ===== verification/Softfloat_Mul.thy ===== *)
theory Softfloat_Mul
  imports Softfloat_Operands
begin

text \<open>
  Multiplication rounds correctly: the 128-bit product of two 64-bit words, then the product of two
  significands with its lower part as a sticky bit.
\<close>

section \<open>The product of two 64-bit words\<close>

lemma halves_join: "push_bit 32 (ucast (ucast (drop_bit 32 z) :: u32)) OR ucast (ucast z :: u32) = (z :: u64)"
  by (rule bit_eqI) (auto simp: bit_simps)

lemma halves_zero: "(ucast (drop_bit 32 z) :: u32) \<noteq> 0 \<or> (ucast z :: u32) \<noteq> 0 \<longleftrightarrow> z \<noteq> (0 :: u64)"
  using halves_join [of z] by auto

lemma unat_mult_small: "unat x < 2 ^ 32 \<Longrightarrow> unat y < 2 ^ 32 \<Longrightarrow> unat (x * y) = unat x * unat y" for x y :: u64
  using mult_strict_mono [of "unat x" "2 ^ 32" "unat y" "2 ^ 32"] by (simp add: unat_word_ariths)

lemma carry_out: "x + y < x \<longleftrightarrow> 2 ^ 64 \<le> unat x + unat y" for x y :: u64
  using unat_u64_lt [of x] unat_u64_lt [of y] by (auto simp: word_less_nat_alt unat_word_ariths mod_if)

lemma mul64_split:
  fixes a0 a1 b0 b1 :: nat
  defines "M \<equiv> a1 * b0 + a0 * b1"
  defines "L \<equiv> a0 * b0 + M mod 2 ^ 32 * 2 ^ 32"
  shows "(a1 * 2 ^ 32 + a0) * (b1 * 2 ^ 32 + b0) = (a1 * b1 + M div 2 ^ 32) * 2 ^ 64 + L"
proof -
  have "(a1 * 2 ^ 32 + a0) * (b1 * 2 ^ 32 + b0) = a1 * b1 * 2 ^ 64 + M * 2 ^ 32 + a0 * b0"
    by (simp add: M_def algebra_simps)
  also have "M * 2 ^ 32 = M div 2 ^ 32 * 2 ^ 64 + M mod 2 ^ 32 * 2 ^ 32"
  proof -
    have "M * 2 ^ 32 = (M div 2 ^ 32 * 2 ^ 32 + M mod 2 ^ 32) * 2 ^ 32" by (simp only: div_mult_mod_eq)
    then show ?thesis by (simp only: add_mult_distrib mult.assoc power_add [symmetric]) simp
  qed
  finally show ?thesis by (simp add: L_def algebra_simps)
qed

lemma mul64To128M_product:
  obtains hi lo :: u64 where
    "mul64To128M a b = [ucast lo, ucast (drop_bit 32 lo), ucast hi, ucast (drop_bit 32 hi)]"
    "unat hi * 2 ^ 64 + unat lo = unat a * unat b"
proof -
  define a1 a0 b1 b0 where "a1 = (ucast (ucast (drop_bit 32 a) :: u32) :: u64)" and "a0 = (ucast (ucast a :: u32) :: u64)"
    and "b1 = (ucast (ucast (drop_bit 32 b) :: u32) :: u64)" and "b0 = (ucast (ucast b :: u32) :: u64)"
  have a: "unat a = unat a1 * 2 ^ 32 + unat a0" and b: "unat b = unat b1 * 2 ^ 32 + unat b0"
    unfolding a1_def a0_def b1_def b0_def
    by (simp_all only: unat_halves(1) [of a] unat_halves(2) [of a] unat_halves(1) [of b] unat_halves(2) [of b] div_mult_mod_eq)
  have lt: "unat a1 < 2 ^ 32" "unat a0 < 2 ^ 32" "unat b1 < 2 ^ 32" "unat b0 < 2 ^ 32"
    unfolding a1_def a0_def b1_def b0_def unat_widen by (rule unat_u32_lt)+
  define M where "M = unat a1 * unat b0 + unat a0 * unat b1"
  define L where "L = unat a0 * unat b0 + M mod 2 ^ 32 * 2 ^ 32"
  define mid where "mid = a1 * b0 + a0 * b1"
  define z64 where "z64 = a1 * b1 + (push_bit 32 (of_bool (mid < a1 * b0)) OR drop_bit 32 mid)"
  define lo where "lo = a0 * b0 + push_bit 32 mid"
  define hi where "hi = z64 + of_bool (lo < push_bit 32 mid)"
  note m = unat_mult_small [OF lt(1,4)] unat_mult_small [OF lt(2,3)] unat_mult_small [OF lt(1,3)] unat_mult_small [OF lt(2,4)]
  have N: "unat a * unat b = (unat a1 * unat b1 + M div 2 ^ 32) * 2 ^ 64 + L"
    unfolding a b M_def L_def by (rule mul64_split)
  have bound: "unat a * unat b < 2 ^ 64 * 2 ^ 64" using mult_strict_mono [of "unat a" "2 ^ 64" "unat b" "2 ^ 64"] unat_u64_lt by simp
  have mid: "unat mid = M mod 2 ^ 64" unfolding mid_def M_def by (simp add: unat_word_ariths(1) m(1,2))
  have c: "mid < a1 * b0 \<longleftrightarrow> 2 ^ 64 \<le> M" unfolding mid_def carry_out m(1,2) M_def ..
  have M65: "M < 2 * 2 ^ 64" unfolding M_def m(1,2) [symmetric] using unat_u64_lt [of "a1 * b0"] unat_u64_lt [of "a0 * b1"] by simp
  have up: "unat (push_bit 32 (of_bool (mid < a1 * b0)) OR drop_bit 32 mid :: u64) = M div 2 ^ 32"
  proof -
    have d: "unat (drop_bit 32 mid) < 2 ^ 32" unfolding unat_drop using unat_u64_lt [of mid] by (simp add: less_mult_imp_div_less)
    have "push_bit 32 (of_bool x) AND drop_bit 32 mid = 0" for x
      by (rule bit_eqI) (auto simp: bit_simps dest: bit_imp_le_length)
    then have "unat (push_bit 32 (of_bool (mid < a1 * b0)) OR drop_bit 32 mid :: u64) = unat (push_bit 32 (of_bool (mid < a1 * b0)) + drop_bit 32 mid)"
      by (simp only: disjunctive_add_eq_or)
    also have "\<dots> = (if 2 ^ 64 \<le> M then 2 ^ 32 else 0) + unat (drop_bit 32 mid)"
      unfolding c using d by (cases "2 ^ 64 \<le> M") (simp_all add: unat_word_ariths)
    also have "\<dots> = M div 2 ^ 32" unfolding unat_drop mid using M65 by (auto simp: mod_if div_nat_eqI)
    finally show ?thesis .
  qed
  have hi64: "unat a1 * unat b1 + M div 2 ^ 32 < 2 ^ 64"
    using le_less_trans [OF _ bound, of "(unat a1 * unat b1 + M div 2 ^ 32) * 2 ^ 64"] unfolding N by simp
  have z: "unat z64 = unat a1 * unat b1 + M div 2 ^ 32"
    using hi64 unfolding z64_def by (simp add: unat_word_ariths(1) m(3) up)
  have p: "unat (push_bit 32 mid) = M mod 2 ^ 32 * 2 ^ 32"
    unfolding unsigned_push_bit_eq take_bit_push_bit mid by (simp add: take_bit_eq_mod push_bit_eq_mult mod_mod_cancel)
  have L65: "L < 2 * 2 ^ 64" unfolding L_def m(4) [symmetric] p [symmetric] using unat_u64_lt [of "a0 * b0"] unat_u64_lt [of "push_bit 32 mid"] by simp
  have lo: "unat lo = L mod 2 ^ 64" unfolding lo_def L_def by (simp only: unat_word_ariths(1) m(4) p) simp
  have c2: "lo < push_bit 32 mid \<longleftrightarrow> 2 ^ 64 \<le> L"
    unfolding lo_def add.commute [of "a0 * b0"] carry_out m(4) p L_def by (simp add: add.commute)
  have Ldiv: "(if 2 ^ 64 \<le> L then 1 else 0) = L div 2 ^ 64" using L65 by (auto simp: div_nat_eqI)
  have tot: "unat z64 + L div 2 ^ 64 < 2 ^ 64"
  proof -
    have "(unat z64 + L div 2 ^ 64) * 2 ^ 64 \<le> unat a * unat b" unfolding N z by (simp add: add_mult_distrib)
    from le_less_trans [OF this bound] show ?thesis by simp
  qed
  have hi: "unat hi = unat z64 + L div 2 ^ 64"
    using tot unfolding hi_def c2 Ldiv [symmetric] by (cases "2 ^ 64 \<le> L") (simp_all add: unat_word_ariths(1))
  have "unat hi * 2 ^ 64 + unat lo = unat a * unat b"
    unfolding hi lo z N add_mult_distrib using div_mult_mod_eq [of L "2 ^ 64"] by linarith
  moreover have "mul64To128M a b = [ucast lo, ucast (drop_bit 32 lo), ucast hi, ucast (drop_bit 32 hi)]"
    unfolding mul64To128M_def Let_def hi_def lo_def z64_def mid_def a1_def a0_def b1_def b0_def by (rule refl)
  ultimately show ?thesis by (blast intro: that)
qed

section \<open>Products of significands\<close>

lemma product_bounds:
  fixes x y :: nat
  assumes "2 ^ p \<le> x" "x < 2 ^ Suc p" "2 ^ p \<le> y" "y < 2 ^ Suc p"
  shows "2 ^ (p + p + K) \<le> x * y * 2 ^ K" "x * y * 2 ^ K < 2 ^ (p + p + 2 + K)"
proof -
  have "2 ^ p * 2 ^ p \<le> x * y" using assms by (intro mult_le_mono)
  then show "2 ^ (p + p + K) \<le> x * y * 2 ^ K" unfolding power_add by simp
  have "x * y < 2 ^ Suc p * 2 ^ Suc p" using assms by (intro mult_strict_mono) simp_all
  then show "x * y * 2 ^ K < 2 ^ (p + p + 2 + K)" unfolding power_add by simp
qed

lemma jam_product:
  assumes "2 ^ p \<le> x" "x < 2 ^ Suc p" "2 ^ p \<le> y" "y < 2 ^ Suc p" "1 < c" "p + p + K = p + c + L"
  shows "jam (x * y * 2 ^ K) L < 2 ^ (p + c + 1) \<Longrightarrow> scaled p c (2 * jam (x * y * 2 ^ K) L) (2 * (real (x * y * 2 ^ K) / 2 ^ L))"
    "2 ^ (p + c + 1) \<le> jam (x * y * 2 ^ K) L \<Longrightarrow> scaled p c (jam (x * y * 2 ^ K) L) (real (x * y * 2 ^ K) / 2 ^ L)"
    "jam (x * y * 2 ^ K) L < 2 ^ (p + c + 2)"
proof -
  let ?N = "x * y * 2 ^ K"
  have e: "p + p + 2 + K = p + c + L + 2" using assms(6) by simp
  note b = product_bounds [OF assms(1-4), of K, unfolded e, unfolded assms(6)]
  have "real (2 ^ (p + c + L)) \<le> real ?N" "real ?N < real (2 ^ (p + c + L + 2))"
    unfolding of_nat_le_iff of_nat_less_iff by (rule b)+
  then have b: "2 ^ (p + c) \<le> real ?N / 2 ^ L" "real ?N / 2 ^ L < 2 ^ (p + c + 2)"
    by (simp_all add: field_simps power_add)
  have "even (2 ^ (c - 1) :: nat)" using assms(5) by simp
  then have "agrees (2 ^ (c - 1)) (jam ?N L) (real ?N / 2 ^ L)" by (rule agrees_jam_exact)
  note s = scaled_twice [OF this assms(5) b]
  show "jam ?N L < 2 ^ (p + c + 1) \<Longrightarrow> scaled p c (2 * jam ?N L) (2 * (real ?N / 2 ^ L))"
    "2 ^ (p + c + 1) \<le> jam ?N L \<Longrightarrow> scaled p c (jam ?N L) (real ?N / 2 ^ L)"
    "jam ?N L < 2 ^ (p + c + 2)"
    using s by blast+
qed

text \<open>The high word of the product with a sticky low word.\<close>

lemma mul64_jam:
  fixes a b :: u64
  defines "z \<equiv> mul64To128M a b"
  shows "unat (if z ! 1 \<noteq> 0 \<or> z ! 0 \<noteq> 0 then word64 z 2 OR 1 else word64 z 2) = jam (unat a * unat b) 64"
proof -
  obtain hi lo :: u64 where z: "z = [ucast lo, ucast (drop_bit 32 lo), ucast hi, ucast (drop_bit 32 hi)]"
    and N: "unat hi * 2 ^ 64 + unat lo = unat a * unat b"
    unfolding z_def by (rule mul64To128M_product)
  have "z ! 1 = ucast (drop_bit 32 lo)" "z ! 0 = ucast lo" "word64 z 2 = hi"
    by (simp_all only: z word64_def nth_Cons_0 One_nat_def nth_Cons_Suc numeral_2_eq_2 halves_join)
  then have "(if z ! 1 \<noteq> 0 \<or> z ! 0 \<noteq> 0 then word64 z 2 OR 1 else word64 z 2) = hi OR of_bool (lo \<noteq> 0)"
    using halves_zero [of lo] by simp
  moreover have "(unat a * unat b) div 2 ^ 64 = unat hi" "(unat a * unat b) mod 2 ^ 64 = unat lo"
    unfolding N [symmetric] using unat_u64_lt [of lo] by simp_all
  ultimately show ?thesis by (simp add: jam_def unat_or_bool unat_eq_zero)
qed

lemma product_value:
  assumes "int m + 2 = int L + d - int K"
  shows "real x * 2 powi (i - 1) * (real y * 2 powi (j - 1)) / 2 ^ m = real (x * y * 2 ^ K) / 2 ^ L * 2 powi (i + j - d)"
proof -
  have e: "i - 1 + (j - 1) - int m = int K - int L + (i + j - d)" using assms by linarith
  have "real x * 2 powi (i - 1) * (real y * 2 powi (j - 1)) / 2 ^ m = real x * real y * (2 powi (i - 1) * 2 powi (j - 1) / 2 powi int m)"
    by simp
  also have "\<dots> = real x * real y * (2 powi int K / 2 powi int L * 2 powi (i + j - d))"
    unfolding powi_sum(1,2) e ..
  also have "\<dots> = real (x * y * 2 ^ K) / 2 ^ L * 2 powi (i + j - d)"
    by simp
  finally show ?thesis .
qed

lemma f64_mul_finite:
  assumes a: "expF64UI a \<noteq> 0x7FF" "mag64 a \<noteq> 0" and b: "expF64UI b \<noteq> 0x7FF" "mag64 b \<noteq> 0"
  shows "rounds64 mode (signF64UI a \<noteq> signF64UI b)
    (\<bar>real_of_int (fval64 a)\<bar> * \<bar>real_of_int (fval64 b)\<bar> / 2 ^ 1074) (f64_mul mode a b)"
proof -
  let ?sn = "signF64UI a \<noteq> signF64UI b"
  obtain ea sa where na: "normF64 (expF64UI a) (fracF64UI a) = (ea, sa)"
    "2 ^ 52 \<le> unat (sa OR 0x0010000000000000)" "unat (sa OR 0x0010000000000000) < 2 ^ 53"
    "\<bar>real_of_int (fval64 a)\<bar> = real (unat (sa OR 0x0010000000000000)) * 2 powi (ea - 1)" "- 51 \<le> ea" "ea \<le> 0x7FF"
    by (rule normF64_value [OF a(2)])
  obtain eb sb where nb: "normF64 (expF64UI b) (fracF64UI b) = (eb, sb)"
    "2 ^ 52 \<le> unat (sb OR 0x0010000000000000)" "unat (sb OR 0x0010000000000000) < 2 ^ 53"
    "\<bar>real_of_int (fval64 b)\<bar> = real (unat (sb OR 0x0010000000000000)) * 2 powi (eb - 1)" "- 51 \<le> eb" "eb \<le> 0x7FF"
    by (rule normF64_value [OF b(2)])
  define x y where "x = unat (sa OR 0x0010000000000000)" and "y = unat (sb OR 0x0010000000000000)"
  note x = na(2,3) [folded x_def] and y = nb(2,3) [folded y_def]
  define u v where "u = push_bit 10 (sa OR 0x0010000000000000)" and "v = push_bit 11 (sb OR 0x0010000000000000)"
  have u: "unat u = x * 2 ^ 10" unfolding u_def x_def by (rule unat_push_mod) (use x x_def in simp)
  have v: "unat v = y * 2 ^ 11" unfolding v_def y_def by (rule unat_push_mod) (use y y_def in simp)
  define J where "J = jam (x * y * 2 ^ 21) 64"
  define z where "z = (if mul64To128M u v ! 1 \<noteq> 0 \<or> mul64To128M u v ! 0 \<noteq> 0 then word64 (mul64To128M u v) 2 OR 1 else word64 (mul64To128M u v) 2)"
  have z: "unat z = J" unfolding z_def mul64_jam u v J_def by (simp add: mult_ac)
  have P: "2 ^ 52 \<le> x" "x < 2 ^ Suc 52" "2 ^ 52 \<le> y" "y < 2 ^ Suc 52" using x y by simp_all
  note s = jam_product [OF P, of 9 21 64, folded J_def, simplified]
  let ?y = "\<bar>real_of_int (fval64 a)\<bar> * \<bar>real_of_int (fval64 b)\<bar> / 2 ^ 1074"
  let ?t = "real (x * y * 2 ^ 21) / 2 ^ 64"
  have r: "?y = ?t * 2 powi (ea + eb - 0x3FF - 10)"
    using product_value [of 1074 64 1033 21 x ea y eb] unfolding na(4) nb(4) x_def y_def by (simp only:) simp
  have r': "?y = 2 * ?t * 2 powi (ea + eb - 0x3FF - 1 - 10)"
    unfolding r using powi_sum(1) [of 1 "ea + eb - 0x3FF - 1 - 10"] by simp
  have f: "f64_mul mode a b = (if z < 0x4000000000000000 then roundPackToF64 mode ?sn (ea + eb - 0x3FF - 1) (push_bit 1 z)
      else roundPackToF64 mode ?sn (ea + eb - 0x3FF) z)"
    using a b unfolding class64(4) unfolding f64_mul_def Let_def na(1) nb(1) prod.case u_def [symmetric] v_def [symmetric] z_def [symmetric]
    by (simp only: if_False simp_thms)
  show ?thesis
  proof (cases "z < 0x4000000000000000")
    case True
    then have J: "J < 2 ^ 62" by (simp add: word_less_nat_alt z)
    then have "unat (push_bit 1 z) = 2 * J" by (subst unat_push_mod) (simp_all add: z)
    then have "scaled 52 9 (unat (push_bit 1 z)) (2 * ?t)" using s(1) J by simp
    from roundPackToF64_rounds [OF this _ _ r', of mode ?sn] show ?thesis unfolding f using True na(5,6) nb(5,6) by simp
  next
    case False
    then have "2 ^ 62 \<le> J" by (simp add: word_less_nat_alt z)
    then have "scaled 52 9 (unat z) ?t" using s(2) by (simp add: z)
    from roundPackToF64_rounds [OF this _ _ r, of mode ?sn] show ?thesis unfolding f using False na(5,6) nb(5,6) by simp
  qed
qed

lemma f32_mul_finite:
  assumes a: "expF32UI a \<noteq> 0xFF" "mag32 a \<noteq> 0" and b: "expF32UI b \<noteq> 0xFF" "mag32 b \<noteq> 0"
  shows "rounds32 mode (signF32UI a \<noteq> signF32UI b)
    (\<bar>real_of_int (fval32 a)\<bar> * \<bar>real_of_int (fval32 b)\<bar> / 2 ^ 149) (f32_mul mode a b)"
proof -
  let ?sn = "signF32UI a \<noteq> signF32UI b"
  obtain ea sa where na: "normF32 (expF32UI a) (fracF32UI a) = (ea, sa)"
    "2 ^ 23 \<le> unat (sa OR 0x00800000)" "unat (sa OR 0x00800000) < 2 ^ 24"
    "\<bar>real_of_int (fval32 a)\<bar> = real (unat (sa OR 0x00800000)) * 2 powi (ea - 1)" "- 22 \<le> ea" "ea \<le> 0xFF"
    by (rule normF32_value [OF a(2)])
  obtain eb sb where nb: "normF32 (expF32UI b) (fracF32UI b) = (eb, sb)"
    "2 ^ 23 \<le> unat (sb OR 0x00800000)" "unat (sb OR 0x00800000) < 2 ^ 24"
    "\<bar>real_of_int (fval32 b)\<bar> = real (unat (sb OR 0x00800000)) * 2 powi (eb - 1)" "- 22 \<le> eb" "eb \<le> 0xFF"
    by (rule normF32_value [OF b(2)])
  define x y where "x = unat (sa OR 0x00800000)" and "y = unat (sb OR 0x00800000)"
  note x = na(2,3) [folded x_def] and y = nb(2,3) [folded y_def]
  define u v where "u = push_bit 7 (sa OR 0x00800000)" and "v = push_bit 8 (sb OR 0x00800000)"
  have u: "unat u = x * 2 ^ 7" unfolding u_def x_def by (rule unat_push32) (use x x_def in simp)
  have v: "unat v = y * 2 ^ 8" unfolding v_def y_def by (rule unat_push32) (use y y_def in simp)
  define J where "J = jam (x * y * 2 ^ 15) 32"
  have P: "2 ^ 23 \<le> x" "x < 2 ^ Suc 23" "2 ^ 23 \<le> y" "y < 2 ^ Suc 23" using x y by simp_all
  note s = jam_product [OF P, of 6 15 32, folded J_def, simplified]
  define z where "z = (ucast (shortShiftRightJam64 (ucast u * ucast v) 32) :: u32)"
  have "unat (ucast u * ucast v :: u64) = unat u * unat v"
    using unat_mult_small [of "ucast u" "ucast v"] unat_u32_lt by (simp add: unat_widen)
  then have "unat (shortShiftRightJam64 (ucast u * ucast v) 32) = J" by (simp add: shortJam64_jam u v J_def mult_ac)
  then have z: "unat z = J" using s(3) unfolding z_def by (simp add: unsigned_ucast_eq unsigned_take_bit_eq take_bit_nat_eq_self)
  let ?y = "\<bar>real_of_int (fval32 a)\<bar> * \<bar>real_of_int (fval32 b)\<bar> / 2 ^ 149"
  let ?t = "real (x * y * 2 ^ 15) / 2 ^ 32"
  have r: "?y = ?t * 2 powi (ea + eb - 0x7F - 7)"
    using product_value [of 149 32 134 15 x ea y eb] unfolding na(4) nb(4) x_def y_def by (simp only:) simp
  have r': "?y = 2 * ?t * 2 powi (ea + eb - 0x7F - 1 - 7)"
    unfolding r using powi_sum(1) [of 1 "ea + eb - 0x7F - 1 - 7"] by simp
  have f: "f32_mul mode a b = (if z < 0x40000000 then roundPackToF32 mode ?sn (ea + eb - 0x7F - 1) (push_bit 1 z)
      else roundPackToF32 mode ?sn (ea + eb - 0x7F) z)"
    using a b unfolding class32(4) unfolding f32_mul_def Let_def na(1) nb(1) prod.case u_def [symmetric] v_def [symmetric] z_def [symmetric]
    by (simp only: if_False simp_thms)
  show ?thesis
  proof (cases "z < 0x40000000")
    case True
    then have J: "J < 2 ^ 30" by (simp add: word_less_nat_alt z)
    then have "unat (push_bit 1 z) = 2 * J" by (subst unat_push32) (simp_all add: z)
    then have "scaled 23 6 (unat (push_bit 1 z)) (2 * ?t)" using s(1) J by simp
    from roundPackToF32_rounds [OF this _ _ r', of mode ?sn] show ?thesis unfolding f using True na(5,6) nb(5,6) by simp
  next
    case False
    then have "2 ^ 30 \<le> J" by (simp add: word_less_nat_alt z)
    then have "scaled 23 6 (unat z) ?t" using s(2) by (simp add: z)
    from roundPackToF32_rounds [OF this _ _ r, of mode ?sn] show ?thesis unfolding f using False na(5,6) nb(5,6) by simp
  qed
qed

section \<open>The product of the standard\<close>

definition ieee_mul64 :: "u64 \<Rightarrow> u64 \<Rightarrow> u64 \<Rightarrow> u64 flagged \<Rightarrow> bool" where
  "ieee_mul64 mode a b r \<longleftrightarrow>
   (let sn = (signF64UI a \<noteq> signF64UI b)
    in if isNaNF64UI a \<or> isNaNF64UI b
       then r = (0x7FF8000000000000, if isSigNaNF64UI a \<or> isSigNaNF64UI b then flag_invalid else 0)
       else if isInfF64UI a \<or> isInfF64UI b
       then r = (if fval64 a = 0 \<or> fval64 b = 0 then (0x7FF8000000000000, flag_invalid) else (packToF64UI sn 0x7FF 0, 0))
       else if fval64 a = 0 \<or> fval64 b = 0 then r = (packToF64UI sn 0 0, 0)
       else rounds64 mode sn (\<bar>real_of_int (fval64 a)\<bar> * \<bar>real_of_int (fval64 b)\<bar> / 2 ^ 1074) r)"

definition ieee_mul32 :: "u64 \<Rightarrow> u32 \<Rightarrow> u32 \<Rightarrow> u32 flagged \<Rightarrow> bool" where
  "ieee_mul32 mode a b r \<longleftrightarrow>
   (let sn = (signF32UI a \<noteq> signF32UI b)
    in if isNaNF32UI a \<or> isNaNF32UI b
       then r = (0x7FC00000, if isSigNaNF32UI a \<or> isSigNaNF32UI b then flag_invalid else 0)
       else if isInfF32UI a \<or> isInfF32UI b
       then r = (if fval32 a = 0 \<or> fval32 b = 0 then (0x7FC00000, flag_invalid) else (packToF32UI sn 0xFF 0, 0))
       else if fval32 a = 0 \<or> fval32 b = 0 then r = (packToF32UI sn 0 0, 0)
       else rounds32 mode sn (\<bar>real_of_int (fval32 a)\<bar> * \<bar>real_of_int (fval32 b)\<bar> / 2 ^ 149) r)"

lemma f64_mul_ieee: "ieee_mul64 mode a b (f64_mul mode a b)"
  unfolding ieee_mul64_def using f64_mul_finite [of a b mode]
  by (simp add: class64 f64_mul_def propagateNaNF64UI_def infArgF64_def zeroF64_def invalidF64_def
      defaultNaNF64UI_def or_zero Let_def del: of_int_abs)

lemma f32_mul_ieee: "ieee_mul32 mode a b (f32_mul mode a b)"
  unfolding ieee_mul32_def using f32_mul_finite [of a b mode]
  by (simp add: class32 f32_mul_def propagateNaNF32UI_def infArgF32_def zeroF32_def invalidF32_def
      defaultNaNF32UI_def or_zero Let_def del: of_int_abs)

text \<open>C38. Multiplication is correctly rounded in both formats and every mode: the product of two
  finite nonzero numbers is rounded as IEEE 754 says, with the sign of the product and exactly the flags
  of underflow, overflow and inexactness; NaN operands give the default NaN and raise the invalid
  flag if one signals; infinity times zero is invalid; other products of infinity and of zero are exact.\<close>

theorem mul_correct:
  "(let sn = (signF64UI a \<noteq> signF64UI b)
    in if isNaNF64UI a \<or> isNaNF64UI b
       then f64_mul mode a b = (0x7FF8000000000000, if isSigNaNF64UI a \<or> isSigNaNF64UI b then flag_invalid else 0)
       else if isInfF64UI a \<or> isInfF64UI b
       then f64_mul mode a b = (if fval64 a = 0 \<or> fval64 b = 0 then (0x7FF8000000000000, flag_invalid) else (packToF64UI sn 0x7FF 0, 0))
       else if fval64 a = 0 \<or> fval64 b = 0 then f64_mul mode a b = (packToF64UI sn 0 0, 0)
       else rounds64 mode sn (\<bar>real_of_int (fval64 a)\<bar> * \<bar>real_of_int (fval64 b)\<bar> / 2 ^ 1074) (f64_mul mode a b)) \<and>
   (let sn = (signF32UI c \<noteq> signF32UI d)
    in if isNaNF32UI c \<or> isNaNF32UI d
       then f32_mul mode c d = (0x7FC00000, if isSigNaNF32UI c \<or> isSigNaNF32UI d then flag_invalid else 0)
       else if isInfF32UI c \<or> isInfF32UI d
       then f32_mul mode c d = (if fval32 c = 0 \<or> fval32 d = 0 then (0x7FC00000, flag_invalid) else (packToF32UI sn 0xFF 0, 0))
       else if fval32 c = 0 \<or> fval32 d = 0 then f32_mul mode c d = (packToF32UI sn 0 0, 0)
       else rounds32 mode sn (\<bar>real_of_int (fval32 c)\<bar> * \<bar>real_of_int (fval32 d)\<bar> / 2 ^ 149) (f32_mul mode c d))"
  unfolding ieee_mul64_def [symmetric] ieee_mul32_def [symmetric] by (rule conjI [OF f64_mul_ieee f32_mul_ieee])

end
