(* ===== verification/Machine_FloatProps.thy ===== *)
theory Machine_FloatProps
  imports Machine_TrapProps Softfloat_Add Softfloat_Mul
begin

text \<open>
  Emulated floating-point instructions against the standard: the handler takes its operands and
  rounding mode from the instruction and \<^verbatim>\<open>fcsr\<close>, and leaves the correctly rounded result in the
  destination and the exceptions in \<^verbatim>\<open>fcsr\<close>.
\<close>

section \<open>Rounding mode and flags in \<^verbatim>\<open>tp\<close>\<close>

lemma fcsr_fields:
  assumes "fl AND 0x1F = fl" "tp s' = (tp s AND 0xFF) OR push_bit 8 x OR fl"
  shows "GET_FRM s' = GET_FRM s" "GET_FFLAGS s' = GET_FFLAGS s OR fl" "GET_FCSR s' = GET_FCSR s OR fl"
proof -
  have m: "(0xFF :: u64) = mask 8" "(0x1F :: u64) = mask 5" by (simp_all add: mask_eq_exp_minus_1)
  have fl: "bit fl i \<Longrightarrow> i < 5" for i
    using assms(1) unfolding m by (metis bit_and_iff bit_mask_iff)
  show "GET_FRM s' = GET_FRM s" "GET_FFLAGS s' = GET_FFLAGS s OR fl" "GET_FCSR s' = GET_FCSR s OR fl"
    unfolding GET_FRM_def GET_FFLAGS_def GET_FCSR_def assms(2) m
    by (rule bit_eqI; force simp: bit_simps dest: fl)+
qed

text \<open>The rounding mode an instruction asks for: its own, or the one in \<^verbatim>\<open>fcsr\<close>.\<close>

definition insn_rm :: "u64 \<Rightarrow> ('d, 'z) mach_scheme \<Rightarrow> u64" where
  "insn_rm insn s = (if GET_RM insn = 7 then GET_FRM s else GET_RM insn)"

lemma rm_dyn: "insn AND MASK_FUNCT3 = MASK_FUNCT3 \<longleftrightarrow> GET_RM insn = 7"
proof -
  have m: "MASK_FUNCT3 = push_bit 12 7" by (simp add: MASK_FUNCT3_def)
  have "insn AND MASK_FUNCT3 = push_bit 12 (GET_RM insn)" unfolding m GET_RM_def by (rule field_and)
  moreover have "drop_bit 12 (insn AND MASK_FUNCT3) = GET_RM insn" unfolding GET_RM_def by (simp add: MASK_FUNCT3_def)
  moreover have "drop_bit 12 MASK_FUNCT3 = 7" by (simp add: MASK_FUNCT3_def)
  ultimately show ?thesis using m by metis
qed


lemma setup_rounding_insn:
  "if GET_RM insn = 5 \<or> GET_RM insn = 6 then setup_rounding insn s = None
   else \<exists>x. setup_rounding insn s = Some (s\<lparr>tp := (tp s AND 0xFF) OR push_bit 8 x\<rparr>)
     \<and> roundingMode (s\<lparr>tp := (tp s AND 0xFF) OR push_bit 8 x\<rparr>) = insn_rm insn s"
proof -
  have m: "(0xFF :: u64) = mask 8" "(7 :: u64) = mask 3" by (simp_all add: mask_eq_exp_minus_1)
  have dyn: "drop_bit 13 ((t AND 0xFF) OR push_bit 8 (t AND 0xFF)) = drop_bit 5 (t AND 0xFF)" for t :: u64
    unfolding m by (rule bit_eqI) (auto simp: bit_simps add.commute)
  note dyn = dyn [simplified]
  have stat: "drop_bit 13 ((t AND 0xFF) OR push_bit 8 (push_bit 5 (i AND 7))) = i AND 7" for t i :: u64
    unfolding m by (rule bit_eqI) (auto simp: bit_simps)
  have p: "push_bit 13 x = push_bit 8 (push_bit 5 x)" for x :: u64 by simp
  have "GET_RM insn \<in> {0, 1, 2, 3, 4, 5, 6, 7}" unfolding GET_RM_def by (rule funct3_cases)
  then consider "GET_RM insn = 7" | "GET_RM insn \<in> {5, 6}" | "GET_RM insn \<in> {0, 1, 2, 3, 4}" by auto
  then show ?thesis
  proof cases
    case 1
    then show ?thesis
      by (auto intro!: exI [of _ "tp s AND 0xFF"] simp: setup_rounding_def rm_dyn roundingMode_def insn_rm_def GET_FRM_def GET_FCSR_def dyn)
  next
    case 2
    then show ?thesis by (auto simp: setup_rounding_def rm_dyn)
  next
    case 3
    then have "\<not> 4 < GET_RM insn" "GET_RM insn \<noteq> 5" "GET_RM insn \<noteq> 6" "GET_RM insn \<noteq> 7" by auto
    then show ?thesis
      by (auto intro!: exI [of _ "push_bit 5 (GET_RM insn)"] simp: setup_rounding_def rm_dyn roundingMode_def insn_rm_def)
         (simp add: GET_RM_def stat [simplified])
  qed
qed

section \<open>Retiring an instruction\<close>

text \<open>The state after a floating-point instruction: \<open>v\<close> is in its destination, its exceptions are in
  the accrued ones, the rounding mode is kept, the registers are marked as changed and nothing
  else happens.\<close>

definition fp_retires :: "'d hardware \<Rightarrow> u64 \<Rightarrow> u64 \<Rightarrow> u64 \<Rightarrow> ('d, 'z) mach_scheme \<Rightarrow> ('d, 'z) mach_scheme \<Rightarrow> bool" where
  "fp_retires W insn v fl s s' \<longleftrightarrow>
     s' = SET_FS_DIRTY W (s\<lparr>tp := tp s', fregs := (fregs s)[reg_index insn 7 := v]\<rparr>)
     \<and> GET_FRM s' = GET_FRM s \<and> GET_FFLAGS s' = GET_FFLAGS s OR fl"

definition fp_retires32 :: "'d hardware \<Rightarrow> u64 \<Rightarrow> u32 \<Rightarrow> u64 \<Rightarrow> ('d, 'z) mach_scheme \<Rightarrow> ('d, 'z) mach_scheme \<Rightarrow> bool" where
  "fp_retires32 W insn v fl s s' \<longleftrightarrow>
     (\<exists>w. ucast w = v \<and> drop_bit 32 w = drop_bit 32 (fregs s ! reg_index insn 7) \<and> fp_retires W insn w fl s s')"

lemma set_fs_fields [simp]:
  "tp (SET_FS_DIRTY W s) = tp s" "fregs (SET_FS_DIRTY W s) = fregs s" "xregs (SET_FS_DIRTY W s) = xregs s"
  by (simp_all add: SET_FS_DIRTY_def set_csr_def write_csr_def)

lemma put_f64_retires:
  assumes "fl AND 0x1F = fl"
  shows "fp_retires W insn v fl s (put_f64 W insn (v, fl) (s\<lparr>tp := (tp s AND 0xFF) OR push_bit 8 x\<rparr>))"
  unfolding fp_retires_def
  by (intro conjI fcsr_fields [OF assms, where x = x]) (simp_all add: put_f64_def SET_F64_RD_def raiseFlags_def or.assoc)

lemma put_f32_retires:
  assumes "fl AND 0x1F = fl"
  shows "fp_retires32 W insn v fl s (put_f32 W insn (v, fl) (s\<lparr>tp := (tp s AND 0xFF) OR push_bit 8 x\<rparr>))"
proof -
  let ?w = "(fregs s ! reg_index insn 7 AND NOT 0xFFFFFFFF) OR ucast v"
  have m: "(0xFFFFFFFF :: u64) = mask 32" by (simp add: mask_eq_exp_minus_1)
  have "ucast ?w = v" unfolding m by (rule bit_eqI) (auto simp: bit_simps)
  moreover have "drop_bit 32 ?w = drop_bit 32 (fregs s ! reg_index insn 7)"
    unfolding m by (rule bit_eqI) (auto simp: bit_simps dest: bit_imp_le_length)
  moreover have "fp_retires W insn ?w fl s (put_f32 W insn (v, fl) (s\<lparr>tp := (tp s AND 0xFF) OR push_bit 8 x\<rparr>))"
    unfolding fp_retires_def
    by (intro conjI fcsr_fields [OF assms, where x = x]) (simp_all add: put_f32_def SET_F32_RD_def raiseFlags_def or.assoc)
  ultimately show ?thesis unfolding fp_retires32_def by blast
qed

section \<open>Addition, subtraction and multiplication\<close>

text \<open>The operations by the number that encodes them; subtraction adds the operand of opposite sign.\<close>

definition ieee_arith64 :: "u64 \<Rightarrow> u64 \<Rightarrow> u64 \<Rightarrow> u64 \<Rightarrow> u64 flagged \<Rightarrow> bool" where
  "ieee_arith64 op mode a b r \<longleftrightarrow>
     (if op = 0 then ieee_add64 mode a b r
      else if op = 1 then \<exists>c. mag64 c = mag64 b \<and> signF64UI c \<noteq> signF64UI b \<and> ieee_add64 mode a c r
      else op = 2 \<and> ieee_mul64 mode a b r)"

definition ieee_arith32 :: "u64 \<Rightarrow> u64 \<Rightarrow> u32 \<Rightarrow> u32 \<Rightarrow> u32 flagged \<Rightarrow> bool" where
  "ieee_arith32 op mode a b r \<longleftrightarrow>
     (if op = 0 then ieee_add32 mode a b r
      else if op = 1 then \<exists>c. mag32 c = mag32 b \<and> signF32UI c \<noteq> signF32UI b \<and> ieee_add32 mode a c r
      else op = 2 \<and> ieee_mul32 mode a b r)"

lemma flags5:
  "rounds_mag p E mode sn y m fl \<Longrightarrow> fl AND 0x1F = fl"
  by (auto simp: rounds_mag_def rounding_flags_def flag_underflow_def flag_inexact_def flag_overflow_def split: if_splits)

lemma rounds_flags:
  "rounds64 mode sn y r \<Longrightarrow> snd r AND 0x1F = snd r" "rounds32 mode sn y q \<Longrightarrow> snd q AND 0x1F = snd q"
  unfolding rounds64_def rounds32_def by (blast intro: flags5)+

lemma ieee_flags:
  "ieee_add64 mode a b r \<Longrightarrow> snd r AND 0x1F = snd r" "ieee_mul64 mode a b r \<Longrightarrow> snd r AND 0x1F = snd r"
  "ieee_add32 mode c d q \<Longrightarrow> snd q AND 0x1F = snd q" "ieee_mul32 mode c d q \<Longrightarrow> snd q AND 0x1F = snd q"
  unfolding ieee_add64_def ieee_add32_def ieee_mul64_def ieee_mul32_def Let_def
  by (simp add: flag_invalid_def rounds_flags split: if_splits)+

lemma arith_flags:
  "ieee_arith64 op mode a b (v, fl) \<Longrightarrow> fl AND 0x1F = fl"
  "ieee_arith32 op mode c d (w, fl) \<Longrightarrow> fl AND 0x1F = fl"
  unfolding ieee_arith64_def ieee_arith32_def by (auto dest: ieee_flags split: if_splits)

lemma top_drop:
  assumes "LENGTH('a :: len) = Suc n"
  shows "drop_bit n (x :: 'a word) \<noteq> 0 \<longleftrightarrow> bit x n"
proof
  assume "drop_bit n x \<noteq> 0"
  then obtain i where "bit x (n + i)" by (auto simp: bit_eq_iff bit_simps)
  moreover then have "i = 0" using bit_imp_le_length [of x "n + i"] assms by simp
  ultimately show "bit x n" by simp
next
  assume "bit x n"
  then have "bit (drop_bit n x) 0" by (simp add: bit_simps)
  then show "drop_bit n x \<noteq> 0" by (metis bit_0_eq bot_apply bot_bool_def)
qed

lemma flip_sign:
  assumes "LENGTH('a :: len) = Suc n"
  shows "unat ((x :: 'a word) XOR push_bit n 1) mod 2 ^ n = unat x mod 2 ^ n"
    "drop_bit n (x XOR push_bit n 1) \<noteq> 0 \<longleftrightarrow> drop_bit n x = 0"
proof -
  have "take_bit n (x XOR push_bit n 1) = take_bit n x" by (rule bit_eqI) (auto simp: bit_simps)
  then show "unat (x XOR push_bit n 1) mod 2 ^ n = unat x mod 2 ^ n"
    by (metis take_bit_eq_mod unsigned_take_bit_eq)
  show "drop_bit n (x XOR push_bit n 1) \<noteq> 0 \<longleftrightarrow> drop_bit n x = 0"
    unfolding top_drop [OF assms] using top_drop [OF assms, of x] assms by (auto simp: bit_simps)
qed

lemma neg_bits:
  "mag64 (b XOR 0x8000000000000000) = mag64 b" "signF64UI (b XOR 0x8000000000000000) \<noteq> signF64UI b"
  "mag32 (c XOR 0x80000000) = mag32 c" "signF32UI (c XOR 0x80000000) \<noteq> signF32UI c"
proof -
  have h: "(0x8000000000000000 :: u64) = push_bit 63 1" "(0x80000000 :: u32) = push_bit 31 1" by simp_all
  show "mag64 (b XOR 0x8000000000000000) = mag64 b" "signF64UI (b XOR 0x8000000000000000) \<noteq> signF64UI b"
    "mag32 (c XOR 0x80000000) = mag32 c" "signF32UI (c XOR 0x80000000) \<noteq> signF32UI c"
    unfolding h mag64_def mag32_def signF64UI_def signF32UI_def by (simp_all only: flip_sign len_of_numeral_defs) (simp_all add: flip_sign)
qed

lemma fp_op_index: "unat (drop_bit 25 insn AND 0x7c) div 4 = unat (drop_bit 27 insn AND 0x1F)" for insn :: u64
proof -
  have m: "(0x7c :: u64) = push_bit 2 0x1F" "(0x1F :: u64) = mask 5" by (simp_all add: mask_eq_exp_minus_1)
  have "drop_bit 2 (drop_bit 25 insn AND 0x7c) = drop_bit 27 insn AND 0x1F"
    unfolding m by (rule bit_eqI) (auto simp: bit_simps add.commute)
  then show ?thesis by (metis unat_drop power2_eq_square numeral_Bit0 mult_2 one_add_one numeral_One mult.commute)
qed

lemma sub_ieee:
  "\<exists>k. mag64 k = mag64 b \<and> signF64UI k \<noteq> signF64UI b \<and> ieee_add64 m a k (f64_add m a (b XOR 0x8000000000000000))"
  "\<exists>k. mag32 k = mag32 d \<and> signF32UI k \<noteq> signF32UI d \<and> ieee_add32 m c k (f32_add m c (d XOR 0x80000000))"
  using f64_add_ieee f32_add_ieee neg_bits by blast+

lemma emulate_arith:
  assumes "op \<le> 2"
  shows "\<exists>r32 r64. ieee_arith32 op (roundingMode s) (F32_RS1 insn s) (F32_RS2 insn s) r32
    \<and> ieee_arith64 op (roundingMode s) (F64_RS1 insn s) (F64_RS2 insn s) r64
    \<and> fp_table W (unat op) mepc mstatus insn s =
        by_precision W mepc mstatus insn (\<lambda>_. put_f32 W insn r32 s) (\<lambda>_. put_f64 W insn r64 s) s"
proof -
  have n: "- 0x8000000000000000 = (0x8000000000000000 :: u64)" by simp
  have sub: "\<exists>k. mag64 k = mag64 b \<and> signF64UI k = (\<not> signF64UI b) \<and> ieee_add64 m a k (f64_add m a (b XOR - 0x8000000000000000))"
    for a b m unfolding n using sub_ieee(1) by blast
  have "op = 0 \<or> op = 1 \<or> op = 2" using assms by (auto simp: word_le_nat_alt word_unat_eq_iff)
  then show ?thesis
  proof (elim disjE)
    assume "op = 0"
    then show ?thesis
      by (intro exI conjI) (auto simp: ieee_arith32_def ieee_arith64_def fp_table_def emulate_fadd_def emulate_any_fadd_def
          by_precision_def intro: f32_add_ieee f64_add_ieee)
  next
    assume "op = 1"
    then show ?thesis
      by (intro exI conjI) (auto simp: ieee_arith32_def ieee_arith64_def fp_table_def emulate_fsub_def emulate_any_fadd_def
          by_precision_def intro: sub sub_ieee(2) [simplified])
  next
    assume "op = 2"
    then show ?thesis
      by (intro exI conjI) (auto simp: ieee_arith32_def ieee_arith64_def fp_table_def emulate_fmul_def by_precision_def
          intro: f32_mul_ieee f64_mul_ieee)
  qed
qed

text \<open>C14. Addition, subtraction and multiplication as instructions: the handler gives up on the instruction
  exactly when the floating-point unit is off, the static rounding mode is invalid or the format is not
  single or double; otherwise the program sees the correctly rounded result of the standard in the
  rounding mode that the instruction or \<^verbatim>\<open>fcsr\<close> asks for, the exceptions accrued, and nothing else changed.\<close>

theorem float_arithmetic_correct:
  assumes "drop_bit 27 insn AND 0x1F = op" "op \<le> 2"
  shows "if mstatus AND MSTATUS_FS = 0 \<or> GET_RM insn = 5 \<or> GET_RM insn = 6 \<or> 1 < GET_PRECISION insn
    then \<exists>t. emulate_fp W mepc mstatus insn s = redirect_trap W mepc mstatus insn (s\<lparr>tp := t\<rparr>) \<and> t AND 0xFF = GET_FCSR s
    else \<exists>s' fl. emulate_fp W mepc mstatus insn s = Inr s'
      \<and> (if GET_PRECISION insn = 0
         then \<exists>v. ieee_arith32 op (insn_rm insn s) (F32_RS1 insn s) (F32_RS2 insn s) (v, fl) \<and> fp_retires32 W insn v fl s s'
         else \<exists>v. ieee_arith64 op (insn_rm insn s) (F64_RS1 insn s) (F64_RS2 insn s) (v, fl) \<and> fp_retires W insn v fl s s')"
proof (cases "mstatus AND MSTATUS_FS = 0")
  case True
  then show ?thesis by (auto intro!: exI [of _ "tp s"] simp: emulate_fp_def truly_illegal_insn_def GET_FCSR_def)
next
  case fs: False
  show ?thesis
  proof (cases "GET_RM insn = 5 \<or> GET_RM insn = 6")
    case True
    then have "setup_rounding insn s = None" using setup_rounding_insn [of insn s] by simp
    then show ?thesis using True fs
      by (auto intro!: exI [of _ "tp s AND 0xFF"] simp: emulate_fp_def truly_illegal_insn_def GET_FCSR_def)
  next
    case False
    then obtain x where x: "setup_rounding insn s = Some (s\<lparr>tp := (tp s AND 0xFF) OR push_bit 8 x\<rparr>)"
      "roundingMode (s\<lparr>tp := (tp s AND 0xFF) OR push_bit 8 x\<rparr>) = insn_rm insn s"
      using setup_rounding_insn [of insn s] by auto
    let ?s = "s\<lparr>tp := (tp s AND 0xFF) OR push_bit 8 x\<rparr>"
    have ops: "F32_RS1 insn ?s = F32_RS1 insn s" "F32_RS2 insn ?s = F32_RS2 insn s" "F64_RS1 insn ?s = F64_RS1 insn s"
      "F64_RS2 insn ?s = F64_RS2 insn s"
      by (simp_all add: F32_RS1_def F32_RS2_def F64_RS1_def F64_RS2_def GET_F32_REG_def GET_F64_REG_def)
    have t: "((tp s AND 0xFF) OR push_bit 8 x) AND 0xFF = GET_FCSR s"
      using fcsr_fields(3) [of 0 ?s s x] by (simp add: GET_FCSR_def)
    obtain v32 f32 v64 f64 where r: "ieee_arith32 op (insn_rm insn s) (F32_RS1 insn s) (F32_RS2 insn s) (v32, f32)"
      "ieee_arith64 op (insn_rm insn s) (F64_RS1 insn s) (F64_RS2 insn s) (v64, f64)"
      "emulate_fp W mepc mstatus insn s = by_precision W mepc mstatus insn (\<lambda>_. put_f32 W insn (v32, f32) ?s)
         (\<lambda>_. put_f64 W insn (v64, f64) ?s) ?s"
      using emulate_arith [OF assms(2), of ?s insn W mepc mstatus] unfolding x(2) ops
      by (auto simp: emulate_fp_def fs x fp_op_index assms(1))
    note ret = put_f32_retires [OF arith_flags(2) [OF r(1)], of W insn v32 s x] put_f64_retires [OF arith_flags(1) [OF r(2)], of W insn v64 s x]
    consider "GET_PRECISION insn = 0" | "GET_PRECISION insn = 1" | "1 < GET_PRECISION insn"
      using word_less_nat_alt [of 1 "GET_PRECISION insn"] by (metis One_nat_def Suc_lessI neq0_conv unat_eq_zero unsigned_1 word_unat_eq_iff)
    then show ?thesis
    proof cases
      case 1
      then show ?thesis using False fs r(1,3) ret(1) by (simp add: by_precision_def) blast
    next
      case 2
      then show ?thesis using False fs r(2,3) ret(2) by (simp add: by_precision_def) blast
    next
      case 3
      then have "GET_PRECISION insn \<noteq> 0" "GET_PRECISION insn \<noteq> 1" by auto
      then show ?thesis using 3 r(3) t by (simp add: by_precision_def truly_illegal_insn_def) blast
    qed
  qed
qed

text \<open>\<^verbatim>\<open>fadd.d f3, f1, f2\<close> of one and two.\<close>

definition fadd_state :: "unit mach" where
  "fadd_state = (idle_mach (\<lambda>_. 0))\<lparr>fregs := (replicate 32 0)[1 := 0x3FF0000000000000, 2 := 0x4000000000000000]\<rparr>"

lemma float_arithmetic_correct_witness:
  "\<exists>v fl s'. emulate_fp plain_hardware 0x80 MSTATUS_FS 0x022081D3 fadd_state = Inr s'
    \<and> ieee_arith64 0 0 0x3FF0000000000000 0x4000000000000000 (v, fl) \<and> fp_retires plain_hardware 0x022081D3 v fl fadd_state s'"
proof -
  have e: "GET_RM 0x022081D3 = 0" "GET_PRECISION 0x022081D3 = 1" "insn_rm 0x022081D3 fadd_state = 0"
    "F64_RS1 0x022081D3 fadd_state = 0x3FF0000000000000" "F64_RS2 0x022081D3 fadd_state = 0x4000000000000000"
    by (simp_all add: GET_RM_def GET_PRECISION_def insn_rm_def F64_RS1_def F64_RS2_def GET_F64_REG_def reg_index_def
        SHIFT_RIGHT_def fadd_state_def idle_mach_def)
  have op: "drop_bit 27 0x022081D3 AND 0x1F = (0 :: u64)" by simp
  show ?thesis using float_arithmetic_correct [OF op, where mstatus = MSTATUS_FS and W = plain_hardware and mepc = "0x80" and s = fadd_state]
    by (simp add: e MSTATUS_FS_def) blast
qed

end
