(* ===== verification/Spec2Isabelle.thy ===== *)
theory Spec2Isabelle
  imports PK_UserMem PK_FileMap PK_VmInit PK_IoProps PK_Boot Machine_Init Machine_Emulation Machine_Spinlock Machine_FdtTree Machine_TrapProps Machine_Types Machine_VectorProps Softfloat_Convert Machine_FloatProps
begin

text \<open>
  A model of the RISC-V proxy kernel (\<^verbatim>\<open>pk\<close>), the Berkeley boot loader (\<^verbatim>\<open>bbl\<close>) and the
  machine-mode runtime below them, in the RV64 build without hardware floating point,
  multiplication or vectors (so that the runtime emulates them), with compressed instructions;
  Machine_Vector alone is about the build with vectors.

  \<^bold>\<open>The parts and how they interact.\<close>  The runtime in \<^verbatim>\<open>machine/\<close> starts every hart, reads the
  device tree, sets up trap delegation and memory protection, and enters the payload in
  supervisor mode; later it serves the payload's SBI calls and emulates the instructions that
  the hart lacks.  \<^verbatim>\<open>pk/\<close> is one payload: it builds the page table, loads an ELF program with its
  arguments, and serves the program's system calls, most of which it forwards to the host over
  HTIF.  \<^verbatim>\<open>bbl/\<close> is the other: it edits the device tree and jumps to an operating system.
  \<^verbatim>\<open>softfloat/\<close> and \<^verbatim>\<open>util/\<close> are libraries of both.

  \<^bold>\<open>Theories and code.\<close>
  \<^item> Prelude, Memory: machine integers, results that are values or reasons why control does not
    return (panic, failed assertion, shutdown, undefined behaviour, divergence), byte memory.
  \<^item> Util_String, Util_Snprintf: \<^verbatim>\<open>util/string.c\<close>, \<^verbatim>\<open>util/snprintf.c\<close>.
  \<^item> PK_File: \<^verbatim>\<open>pk/frontend.c\<close>, \<^verbatim>\<open>pk/file.c\<close>.  The host is a function from the request and the
    memory to the answer and the memory.
  \<^item> PK_Page, PK_Vm: the page allocator and the virtual memory of \<^verbatim>\<open>pk/mmap.c\<close>.  PK_PageTable holds
    the facts about the page table, PK_Mapping those about mapping, unmapping and the accounting of
    promised pages, PK_Demand those about page faults, PK_Account the invariant of the address space
    over every sequence of its operations, PK_FileMap the faults on file mappings, PK_VmInit the
    kernel's own half of the page table as \<^verbatim>\<open>pk_vm_init\<close> builds it, and PK_VmProps the properties.
  \<^item> PK_UserMem: the memory that a program sees, and the kernel's accesses to it; PK_IoProps: the
    transfer calls over it, from the program's buffer to the host and back.
  \<^item> PK_User, PK_Syscall, PK_Boot: \<^verbatim>\<open>pk/usermem.c\<close>, \<^verbatim>\<open>pk/console.c\<close>, \<^verbatim>\<open>pk/handlers.c\<close>,
    \<^verbatim>\<open>pk/syscall.c\<close>, \<^verbatim>\<open>pk/elf.c\<close>, \<^verbatim>\<open>pk/pk.c\<close>.
  \<^item> Machine: the state of the runtime (\<^verbatim>\<open>machine/mtrap.h\<close>); the hardware is a parameter that says
    what a CSR keeps of a written word, what device registers do and how an access on behalf
    of the interrupted program is translated.
  \<^item> Machine_Console: the HTIF and UART drivers and the finisher.  Machine_Fdt,
    Machine_FdtClients, Machine_FdtPrint: \<^verbatim>\<open>machine/fdt.c\<close> and the device queries;
    Machine_FdtTree relates them to the tree that a blob encodes.
  \<^item> Machine_Trap: \<^verbatim>\<open>machine/mtrap.c\<close>, \<^verbatim>\<open>machine/unprivileged_memory.h\<close>.  Machine_Insn,
    Machine_Misaligned, Machine_Float, Machine_Emulation: the emulation of instructions
    (\<^verbatim>\<open>machine/emulation.c\<close> and its kin).  Machine_Vector: \<^verbatim>\<open>machine/misaligned_vec_ldst.c\<close> and the
    branches that lead there in the build with the vector extension; Machine_VectorProps compares it
    with the execution of the instruction set.  Machine_Types: the shape of the state that
    every trap handler keeps.
    Machine_TrapProps holds the facts about traps and emulation, Machine_FloatProps those about
    floating-point instructions.
  \<^item> Machine_Init: \<^verbatim>\<open>machine/minit.c\<close> and \<^verbatim>\<open>bbl/bbl.c\<close>.  Machine_Spinlock: \<^verbatim>\<open>machine/atomic.h\<close>.
  \<^item> Softfloat, Softfloat_Round, Softfloat_Arith: the operations of \<^verbatim>\<open>softfloat/\<close> that
    \<^verbatim>\<open>softfloat.mk.in\<close> builds, in the variant with 32-bit word arrays; Softfloat_Props holds facts
    about the comparisons and the counting of leading zeros.
  \<^item> Softfloat_Rounding states the rounding of the standard over the real numbers; Softfloat_Pack
    shows that \<^verbatim>\<open>roundPackToF32\<close> and \<^verbatim>\<open>roundPackToF64\<close> compute it, Softfloat_Normalise that the
    normalising variants do, and Softfloat_Operands classifies operands.  Softfloat_Mul,
    Softfloat_AddF64, Softfloat_AddF32, Softfloat_Add and Softfloat_Convert hold the operations.

  A record stands for the globals of each file and its fields carry the names of the C
  variables; a C function becomes a definition of the same name (without leading underscores)
  that takes and returns the state.

  \<^bold>\<open>What the lemmas show.\<close>  For the C library: the routines with word-sized fast paths are the
  plain copy, fill, length and order; the formatter stays in its buffer and its decimal output
  is read back.  For the file table: exact reference counts in every reachable state.  For
  the allocator: it hands out each free page once, cleared, and only fails when nothing is left.
  For virtual memory: \<^verbatim>\<open>mmap\<close>, \<^verbatim>\<open>munmap\<close>, the table walk and the page-fault handler change exactly
  the entries they should and keep the invariant of page table, regions and allocator; \<^verbatim>\<open>munmap\<close> gives
  back every page and every promise of its range; over every sequence of mappings, unmappings, heap changes,
  page faults and protection changes inside the user half of the address space, every page that was promised
  has a free page in reserve; a page brought in from a file holds the part of the file that was mapped there.
  The table that \<^verbatim>\<open>pk_vm_init\<close> builds, walked as the hardware does, is the linear map of memory.
  For user memory: the kernel's copies are copies of the memory that the program sees, for every
  mix of present and promised pages; loads and stores with page faults form an address space (a
  locale, interpreted for the kernel's accesses).
  For the device tree: the scanner is the walk over the tree, for every client that leaves memory
  alone (a locale, interpreted for the clients of the code), from which the answers of the
  queries follow; the memory size is that of the range which holds the running code, provided that no
  range wraps around or ends exactly where the code starts.  For traps: every handler keeps the machine state well-formed, and the three places
  where C or the table of handlers leave the outcome undefined are named; redirection and faults of
  emulated accesses are those of the architecture, except that they clear the emulated \<^verbatim>\<open>fcsr\<close>;
  misaligned scalar and vector accesses, translated by whatever the memory holds as page tables, and
  multiplication and division, where C defines them, are those of the instruction set.  For the spin lock: mutual exclusion and progress over all
  interleavings.  For SoftFloat: the comparisons decide the order of the encoded numbers; addition,
  multiplication, narrowing and the conversion from 64-bit integers return the exact real result
  rounded in the current mode, with exactly the flags of the standard, in every mode and for every
  operand.  Division, square root, fused multiply-add and the conversions to integers are modelled
  but not shown to be correctly rounded.

  \<^bold>\<open>Loops and bounds.\<close>  Loops whose bound is data (copying, table walks, formatting) are recursions
  with a termination proof or over a list.  Loops that may run forever (polling a device, scanning a
  string or a device tree that need not end) are partial functions whose value is \<^const>\<open>None\<close> when they
  do not return; the theorems about them prove that they return.  There is no fuel.

  \<^bold>\<open>Not modelled.\<close>  Assembly, except the table of trap handlers and what \<^verbatim>\<open>__redirect_trap\<close> does to
  the emulated \<^verbatim>\<open>fcsr\<close> (so: trap entry and exit, \<^verbatim>\<open>payload.S\<close>), the build system, the RV32 and
  hardware floating-point variants, the boot logo, and the SoftFloat formats and operations that the build leaves out.  Memory is
  sequentially consistent and the page table, the file table and other typed globals do not alias byte
  memory.  There is no translation cache: \<^verbatim>\<open>flush_tlb\<close> and the write of \<^verbatim>\<open>satp\<close> in
  \<^verbatim>\<open>pk_vm_init\<close> have no counterpart, and the walks start at the root table.  The translation of an
  access on behalf of a program reads memory but does not update accessed and dirty bits.  An
  \<^verbatim>\<open>mprotect\<close> of a range outside the user half, which the code does not reject, is modelled as an
  operation but is not a step of the address space.  The kernel's copies to and from user memory
  go byte by byte, where \<^verbatim>\<open>memcpy\<close> and \<^verbatim>\<open>memset\<close> move words when they can; Util_String shows
  that the result is the same.  Left shifts of negative integers are those that GCC, for which the
  code is written, defines.
\<close>

end
